(* ===== verification/Prelude.thy ===== *)
theory Prelude
  imports Main "HOL-Library.Word"
begin

text \<open>
  Shared vocabulary of the development: the machine types, the error type, the
  sequencing operator of the error type, the little-endian byte layout of machine words
  and the interface every binary codec of the library offers to its clients.

  Calling \<open>lwerror\<close> (liblwgeom/lwutil.c) does not come back: the default reporter
  ends the process with \<open>exit (1)\<close> and the PostgreSQL reporter leaves through
  \<open>ereport (ERROR)\<close>. It is therefore a value \<^term>\<open>Inl\<close> of the result type, which
  every later statement of the same function skips.
\<close>

unbundle bit_operations_syntax

type_synonym byte = "8 word"
type_synonym u16 = "16 word"
type_synonym u32 = "32 word"
type_synonym u64 = "64 word"

text \<open>A C \<open>double\<close> is its 64-bit pattern and a C \<open>float\<close> its 32-bit pattern.\<close>

type_synonym double = "64 word"
type_synonym float32 = "32 word"

named_theorems byte_len \<open>lengths of encoded byte sequences\<close>
named_theorems flag_simps \<open>reading back flag bits that were set\<close>

section \<open>Errors as values\<close>

text \<open>
  \<open>LwError\<close> carries the format string of the \<open>lwerror\<close> call; \<open>MemFault\<close> is an access
  outside the allocated memory; \<open>OutOfFuel\<close> stands for a loop or a recursion that does not
  return (within the bound given, where there is one) and is proved unreachable where it
  can arise.
\<close>

datatype lwerr = LwError string | MemFault | OutOfFuel

definition bindE :: "'e + 'a \<Rightarrow> ('a \<Rightarrow> 'e + 'b) \<Rightarrow> 'e + 'b" where
  "bindE m f = (case m of Inl e \<Rightarrow> Inl e | Inr x \<Rightarrow> f x)"

lemma bindE_Inl [simp]: "bindE (Inl e) f = Inl e"
  by (simp add: bindE_def)

lemma bindE_Inr [simp]: "bindE (Inr x) f = f x"
  by (simp add: bindE_def)

lemma bindE_cong [fundef_cong]:
  "m = m' \<Longrightarrow> (\<And>x. m' = Inr x \<Longrightarrow> f x = g x) \<Longrightarrow> bindE m f = bindE m' g"
  by (cases m') (auto simp: bindE_def)

lemma bindE_assoc: "bindE (bindE m f) g = bindE m (\<lambda>x. bindE (f x) g)"
  by (cases m) simp_all

lemma bindE_eq_Inr: "bindE m f = Inr y \<longleftrightarrow> (\<exists>x. m = Inr x \<and> f x = Inr y)"
  by (cases m) auto

lemma bindE_eq_Inl: "bindE m f = Inl e \<longleftrightarrow> m = Inl e \<or> (\<exists>x. m = Inr x \<and> f x = Inl e)"
  by (cases m) auto

lemma bindE_InrE:
  assumes "bindE m f = Inr y"
  obtains x where "m = Inr x" and "f x = Inr y"
  using assms by (cases m) auto

text \<open>A guard that calls \<open>lwerror\<close> when its condition fails.\<close>

definition require :: "bool \<Rightarrow> string \<Rightarrow> lwerr + unit" where
  "require c msg = (if c then Inr () else Inl (LwError msg))"

lemma require_True [simp]: "require True msg = Inr ()"
  by (simp add: require_def)

lemma require_eq_Inr [simp]: "require c msg = Inr x \<longleftrightarrow> c"
  by (simp add: require_def)

text \<open>A loop that runs a fallible step on each element and collects the results.\<close>

fun mapE :: "('a \<Rightarrow> 'e + 'b) \<Rightarrow> 'a list \<Rightarrow> 'e + 'b list" where
  "mapE f [] = Inr []"
| "mapE f (x # xs) = bindE (f x) (\<lambda>y. bindE (mapE f xs) (\<lambda>ys. Inr (y # ys)))"

lemma mapE_cong [fundef_cong]:
  "xs = ys \<Longrightarrow> (\<And>x. x \<in> set ys \<Longrightarrow> f x = g x) \<Longrightarrow> mapE f xs = mapE g ys"
  by (induction xs arbitrary: ys) auto

lemma mapE_eq_Inr: "mapE f xs = Inr ys \<longleftrightarrow> list_all2 (\<lambda>x y. f x = Inr y) xs ys"
  by (induction xs arbitrary: ys) (auto simp: bindE_eq_Inr list_all2_Cons1)

lemma mapE_Inr [simp]: "(\<And>x. x \<in> set xs \<Longrightarrow> f x = Inr (g x)) \<Longrightarrow> mapE f xs = Inr (map g xs)"
  by (induction xs) auto

section \<open>Bit masks\<close>

text \<open>\<open>flags & mask\<close> used as a condition.\<close>

definition has_bits :: "'a::len word \<Rightarrow> 'a word \<Rightarrow> bool" where
  "has_bits v m \<longleftrightarrow> v AND m \<noteq> 0"

lemma has_bits_or [simp, flag_simps]: "has_bits (v OR w) m \<longleftrightarrow> has_bits v m \<or> has_bits w m"
  by (simp add: has_bits_def bit.conj_disj_distrib2 or_eq_0_iff)

lemma has_bits_0 [simp]: "\<not> has_bits 0 m" "\<not> has_bits v 0"
  by (simp_all add: has_bits_def)

lemma has_bits_numeral [simp]:
  "has_bits (numeral a :: 'a::len word) (numeral b) \<longleftrightarrow> (numeral a AND numeral b :: 'a word) \<noteq> 0"
  "has_bits (numeral a :: 'a::len word) 1 \<longleftrightarrow> (numeral a AND 1 :: 'a word) \<noteq> 0"
  "has_bits (1 :: 'a::len word) (numeral b) \<longleftrightarrow> (1 AND numeral b :: 'a word) \<noteq> 0"
  "has_bits (1 :: 'a::len word) 1"
  by (simp_all add: has_bits_def)

lemma has_bits_and_not:
  "has_bits (v AND NOT w) m \<longleftrightarrow> has_bits v (m AND NOT w)"
  by (simp add: has_bits_def ac_simps)

section \<open>Words as little-endian bytes\<close>

fun le_bytes :: "nat \<Rightarrow> 'a::len word \<Rightarrow> byte list" where
  "le_bytes 0 w = []"
| "le_bytes (Suc n) w = ucast w # le_bytes n (drop_bit 8 w)"

fun le_word :: "byte list \<Rightarrow> 'a::len word" where
  "le_word [] = 0"
| "le_word (b # bs) = ucast b OR push_bit 8 (le_word bs)"

lemma le_bytes_numeral:
  "le_bytes (numeral n) w = ucast w # le_bytes (pred_numeral n) (drop_bit 8 w)"
  by (simp add: numeral_eq_Suc)

lemma length_le_bytes [simp, byte_len]: "length (le_bytes n w) = n"
  by (induction n arbitrary: w) auto

lemma le_word_le_bytes: "le_word (le_bytes n w) = take_bit (8 * n) w"
proof (induction n arbitrary: w)
  case 0
  then show ?case by simp
next
  case (Suc n)
  show ?case
    by (rule bit_word_eqI)
      (auto simp: Suc bit_or_iff bit_push_bit_iff bit_take_bit_iff bit_ucast_iff bit_drop_bit_eq
        dest: bit_imp_le_length)
qed

lemma le_word_le_bytes_full:
  "LENGTH('a::len) \<le> 8 * n \<Longrightarrow> le_word (le_bytes n w) = (w :: 'a word)"
  by (simp add: le_word_le_bytes take_bit_word_eq_self)

lemma le_bytes_le_word:
  "8 * length bs \<le> LENGTH('a::len) \<Longrightarrow> le_bytes (length bs) (le_word bs :: 'a word) = bs"
proof (induction bs)
  case Nil
  then show ?case by simp
next
  case (Cons b bs)
  let ?r = "le_word bs :: 'a word"
  from Cons.prems have len: "8 + 8 * length bs \<le> LENGTH('a)" by simp
  have low: "ucast (ucast b OR push_bit 8 ?r) = b"
    by (rule bit_word_eqI)
      (use len in \<open>auto simp: bit_or_iff bit_push_bit_iff bit_ucast_iff dest: bit_imp_le_length\<close>)
  have small: "?r = take_bit (8 * length bs) ?r"
    using le_word_le_bytes [of "length bs" ?r] Cons by simp
  have bound: "8 + n < LENGTH('a)" if "bit ?r n" for n
    using small bit_take_bit_iff [of "8 * length bs" ?r n] that len by fastforce
  have high: "drop_bit 8 (ucast b OR push_bit 8 ?r) = ?r"
    by (rule bit_word_eqI)
      (auto simp: bit_or_iff bit_push_bit_iff bit_ucast_iff bit_drop_bit_eq
        dest: bit_imp_le_length bound)
  show ?case using Cons low high by simp
qed

lemma le_bytes_inject:
  "LENGTH('a::len) \<le> 8 * n \<Longrightarrow> le_bytes n v = le_bytes n w \<longleftrightarrow> v = (w :: 'a word)"
  by (metis le_word_le_bytes_full)

text \<open>Placing a value above the bits already present is addition.\<close>

lemma unat_or_push_bit:
  fixes v c :: "'a::len word"
  assumes v: "unat v < 2 ^ s" and c: "unat c * 2 ^ s < 2 ^ LENGTH('a)"
  shows "unat (v OR push_bit s c) = unat v + unat c * 2 ^ s"
proof -
  have v': "v = take_bit s v"
    using v by (simp add: word_unat_eq_iff unsigned_take_bit_eq take_bit_nat_eq_self)
  have "\<not> bit v n \<or> \<not> bit (push_bit s c) n" for n
    by (subst v') (auto simp: bit_simps)
  then have or: "v OR push_bit s c = v + push_bit s c"
    by (simp add: disjunctive_add)
  have pc: "unat (push_bit s c) = unat c * 2 ^ s"
    by (simp only: unsigned_push_bit_eq) (simp add: push_bit_eq_mult take_bit_nat_eq_self c)
  have "unat c * 2 ^ s + 2 ^ s \<le> 2 ^ LENGTH('a)" if "s \<le> LENGTH('a)"
  proof -
    from that obtain d where d: "LENGTH('a) = s + d" using le_Suc_ex by blast
    with c have "unat c < 2 ^ d" by (simp add: power_add mult.commute)
    then have "(unat c + 1) * 2 ^ s \<le> 2 ^ d * 2 ^ s" by (intro mult_le_mono1) simp
    then show ?thesis by (simp add: d power_add algebra_simps)
  qed
  moreover have "unat v < 2 ^ LENGTH('a)" by (rule unsigned_less)
  moreover have "s \<le> LENGTH('a)" if "unat c \<noteq> 0"
  proof -
    from that have "2 ^ s \<le> unat c * 2 ^ s" by simp
    then have "(2::nat) ^ s < 2 ^ LENGTH('a)" using c by (rule le_less_trans)
    then show ?thesis by simp
  qed
  ultimately have "unat v + unat c * 2 ^ s < 2 ^ LENGTH('a)"
    using v by (cases "unat c = 0") auto
  then show ?thesis by (simp add: or pc unat_word_ariths)
qed

section \<open>Memory\<close>

text \<open>\<open>n\<close> bytes of a block from an offset, and bytes copied into a block at an offset.\<close>

definition mem_at :: "byte list \<Rightarrow> nat \<Rightarrow> nat \<Rightarrow> lwerr + byte list" where
  "mem_at d p n = (if p + n \<le> length d then Inr (take n (drop p d)) else Inl MemFault)"

definition mem_write :: "byte list \<Rightarrow> nat \<Rightarrow> byte list \<Rightarrow> lwerr + byte list" where
  "mem_write d p bs =
     (if p + length bs \<le> length d then Inr (take p d @ bs @ drop (p + length bs) d) else Inl MemFault)"

lemma mem_at_ok: "p + n \<le> length d \<Longrightarrow> mem_at d p n = Inr (take n (drop p d))"
  by (simp add: mem_at_def)

lemma mem_write_ok:
  "p + length bs \<le> length d \<Longrightarrow> mem_write d p bs = Inr (take p d @ bs @ drop (p + length bs) d)"
  by (simp add: mem_write_def)

lemma mem_at_write_same:
  "mem_write d p bs = Inr d' \<Longrightarrow> n = length bs \<Longrightarrow> mem_at d' p n = Inr bs"
  by (auto simp: mem_write_def mem_at_def split: if_splits)

lemma mem_at_write_other:
  assumes "mem_write d p bs = Inr d'" "q + n \<le> p \<or> p + length bs \<le> q"
  shows "mem_at d' q n = mem_at d q n"
proof -
  from assms(1) have le: "p + length bs \<le> length d" and d': "d' = take p d @ bs @ drop (p + length bs) d"
    by (auto simp: mem_write_def split: if_splits)
  have "take n (drop q d') = take n (drop q d)"
    using assms(2)
  proof
    assume "q + n \<le> p"
    with le show ?thesis by (simp add: d' drop_take)
  next
    assume "p + length bs \<le> q"
    with le show ?thesis by (simp add: d')
  qed
  moreover have "length d' = length d" using le by (simp add: d')
  ultimately show ?thesis by (simp add: mem_at_def)
qed

lemma length_mem_write: "mem_write d p bs = Inr d' \<Longrightarrow> length d' = length d"
  by (auto simp: mem_write_def split: if_splits)

section \<open>The interface of a binary codec\<close>

text \<open>
  A writer and a reader of one kind of value: reading what was written, whatever follows
  it, gives the value back together with the number of bytes written. From this law alone
  follow unique readability and the reading of a whole sequence of values.
\<close>

fun decode_seq :: "(byte list \<Rightarrow> lwerr + ('a \<times> nat)) \<Rightarrow> nat \<Rightarrow> byte list \<Rightarrow> lwerr + ('a list \<times> nat)"
  where
  "decode_seq dec 0 bs = Inr ([], 0)"
| "decode_seq dec (Suc k) bs =
     bindE (dec bs) (\<lambda>(x, n).
     bindE (decode_seq dec k (drop n bs)) (\<lambda>(xs, m). Inr (x # xs, n + m)))"

locale prefix_codec =
  fixes enc :: "'a \<Rightarrow> byte list"
    and dec :: "byte list \<Rightarrow> lwerr + ('a \<times> nat)"
    and valid :: "'a \<Rightarrow> bool"
  assumes dec_enc: "valid x \<Longrightarrow> dec (enc x @ rest) = Inr (x, length (enc x))"
begin

lemma enc_prefix_free:
  assumes "valid x" "valid y" "enc x @ r = enc y @ s"
  shows "x = y \<and> r = s"
proof -
  from assms dec_enc [of x r] dec_enc [of y s] have "x = y" by simp
  with assms show ?thesis by simp
qed

lemma enc_inj: "valid x \<Longrightarrow> valid y \<Longrightarrow> enc x = enc y \<Longrightarrow> x = y"
  using enc_prefix_free [of x y "[]" "[]"] by simp

lemma decode_seq_enc:
  "list_all valid xs \<Longrightarrow>
   decode_seq dec (length xs) (concat (map enc xs) @ rest) =
     Inr (xs, length (concat (map enc xs)))"
  by (induction xs) (auto simp: dec_enc)

lemma concat_enc_inj:
  assumes "list_all valid xs" "list_all valid ys" "length xs = length ys"
    and "concat (map enc xs) = concat (map enc ys)"
  shows "xs = ys"
proof -
  from assms decode_seq_enc [of xs "[]"] decode_seq_enc [of ys "[]"]
  show ?thesis by simp
qed

end

end
