(* ===== verification/Varint.thy ===== *)
theory Varint
  imports Prelude
begin

text \<open>
  liblwgeom/varint.c: base-128 variable-length integers and the zigzag map of signed to
  unsigned integers, as used by the TWKB reader and writer. A buffer position is the list
  of the bytes from it to the end of the buffer.
\<close>

section \<open>Unsigned variable-length integers\<close>

text \<open>The loop of \<open>_varint_u64_encode_buf\<close>; the bytes it stores, in order.\<close>

function varint_u64_encode_buf :: "u64 \<Rightarrow> byte list" where
  "varint_u64_encode_buf q =
     (let grp = ucast (0x7f AND q) :: byte;
          q' = drop_bit 7 q
      in if q' > 0 then (0x80 OR grp) # varint_u64_encode_buf q' else [grp])"
  by pat_completeness auto
termination
proof (relation "measure unat")
  fix grp :: byte and q q' :: u64
  assume q': "q' = drop_bit 7 q" and pos: "0 < q'"
  from pos have "unat q' > 0" by (simp add: word_less_nat_alt)
  moreover have "unat q' = unat q div 128"
    by (simp only: q' unat_drop_bit_eq) (simp add: drop_bit_eq_div)
  ultimately show "(q', q) \<in> measure unat" by simp
qed simp

declare varint_u64_encode_buf.simps [simp del]

definition varint_u32_encode_buf :: "u32 \<Rightarrow> byte list" where
  "varint_u32_encode_buf val = varint_u64_encode_buf (ucast val)"

text \<open>The loop of \<open>varint_u64_decode\<close>: \<open>n\<close> counts the bytes passed so far.\<close>

fun varint_u64_decode_loop :: "byte list \<Rightarrow> u64 \<Rightarrow> nat \<Rightarrow> nat \<Rightarrow> lwerr + (u64 \<times> nat)" where
  "varint_u64_decode_loop [] nVal nShift n =
     Inl (LwError ''varint extends past end of buffer'')"
| "varint_u64_decode_loop (nByte # bs) nVal nShift n =
     (if nByte AND 0x80 \<noteq> 0
      then if nShift \<ge> 63 then Inl (LwError ''varint exceeds 64 bits'')
           else varint_u64_decode_loop bs
                  (nVal OR push_bit nShift (ucast (nByte AND 0x7f))) (nShift + 7) (Suc n)
      else if nShift \<ge> 64 \<or> (nShift = 63 \<and> nByte > 1) then Inl (LwError ''varint exceeds 64 bits'')
      else Inr (nVal OR push_bit nShift (ucast nByte), Suc n))"

definition varint_u64_decode :: "byte list \<Rightarrow> lwerr + (u64 \<times> nat)" where
  "varint_u64_decode bs = varint_u64_decode_loop bs 0 0 0"

text \<open>\<open>varint_size\<close> returns 0 when no byte ends the number.\<close>

fun varint_size_loop :: "byte list \<Rightarrow> nat \<Rightarrow> nat" where
  "varint_size_loop [] n = 0"
| "varint_size_loop (b # bs) n =
     (if b AND 0x80 \<noteq> 0 then varint_size_loop bs (Suc n) else Suc n)"

definition varint_size :: "byte list \<Rightarrow> nat" where
  "varint_size bs = varint_size_loop bs 0"


section \<open>Bit-level facts of one group of seven\<close>

lemma group_has_more: "(0x80 OR ucast (0x7f AND (q :: u64)) :: byte) AND 0x80 \<noteq> 0"
proof -
  have "bit ((0x80 OR ucast (0x7f AND q) :: byte) AND 0x80) 7 \<noteq> bit (0 :: byte) 7"
    by (simp add: bit_simps)
  then show ?thesis by (metis (no_types))
qed

lemma group_is_last: "(ucast (0x7f AND (q :: u64)) :: byte) AND 0x80 = 0"
proof (rule bit_word_eqI)
  fix n assume "n < LENGTH(8)"
  then have "n \<in> {0,1,2,3,4,5,6,7}" by auto
  then show "bit (ucast (0x7f AND q) AND 0x80 :: byte) n = bit (0 :: byte) n"
    by (auto simp: bit_simps)
qed

lemma group_payload:
  "(0x80 OR ucast (0x7f AND (q :: u64)) :: byte) AND 0x7f = ucast (0x7f AND q)"
proof (rule bit_word_eqI)
  fix n assume "n < LENGTH(8)"
  then have "n \<in> {0,1,2,3,4,5,6,7}" by auto
  then show "bit ((0x80 OR ucast (0x7f AND q) :: byte) AND 0x7f) n = bit (ucast (0x7f AND q) :: byte) n"
    by (auto simp: bit_simps)
qed


lemma group_take_bit: "ucast (ucast (0x7f AND q) :: byte) = take_bit 7 (q :: u64)"
proof (rule bit_word_eqI)
  fix n assume "n < LENGTH(64)"
  show "bit (ucast (ucast (0x7f AND q) :: byte) :: u64) n = bit (take_bit 7 q) n"
  proof (cases "n < 8")
    case True
    then have "n \<in> {0,1,2,3,4,5,6,7}" by auto
    then show ?thesis by (auto simp: bit_simps)
  next
    case False
    then show ?thesis by (simp add: bit_simps)
  qed
qed

lemma group_split:
  "push_bit s (take_bit 7 (q :: u64)) OR push_bit (s + 7) (drop_bit 7 q) = push_bit s q"
proof (rule bit_word_eqI)
  fix n assume n: "n < LENGTH(64)"
  show "bit (push_bit s (take_bit 7 q) OR push_bit (s + 7) (drop_bit 7 q)) n = bit (push_bit s q) n"
  proof (cases "s + 7 \<le> n")
    case True
    then have "7 + (n - (s + 7)) = n - s" by simp
    with True n show ?thesis by (auto simp: bit_simps)
  next
    case False
    with n show ?thesis by (auto simp: bit_simps)
  qed
qed

lemma drop_bit_7_pos:
  assumes "0 < drop_bit 7 (q :: u64)"
  shows "128 \<le> unat q" and "unat (drop_bit 7 q) = unat q div 128"
proof -
  show eq: "unat (drop_bit 7 q) = unat q div 128"
    by (simp only: unat_drop_bit_eq) (simp add: drop_bit_eq_div)
  from assms have "unat (drop_bit 7 q) > 0" by (simp add: word_less_nat_alt)
  with eq show "128 \<le> unat q" by (simp add: div_greater_zero_iff)
qed

lemma drop_bit_7_zero:
  assumes "\<not> 0 < drop_bit 7 (q :: u64)"
  shows "unat q < 128"
proof -
  have "drop_bit 7 q = 0" using assms by (metis word_neq_0_conv)
  then have "unat (drop_bit 7 q) = 0" by simp
  then have "unat q div 128 = 0"
    by (simp only: unat_drop_bit_eq) (simp add: drop_bit_eq_div)
  then show ?thesis by simp
qed

lemma unat_ucast_byte_u64: "unat (ucast (b :: byte) :: u64) = unat b"
proof -
  have "unat b < 2 ^ 64" by (rule less_trans [OF unsigned_less]) simp
  then show ?thesis by (simp add: unsigned_ucast_eq take_bit_nat_eq_self)
qed

lemma take_bit_7_small:
  "unat (q :: u64) < 128 \<Longrightarrow> take_bit 7 q = q"
  by (simp add: word_unat_eq_iff unsigned_take_bit_eq take_bit_nat_eq_self)

section \<open>Reading back what was written\<close>

lemma decode_loop_encode:
  assumes "s \<le> 63" and "unat q < 2 ^ (64 - s)"
  shows "varint_u64_decode_loop (varint_u64_encode_buf q @ rest) v s n =
         Inr (v OR push_bit s q, n + length (varint_u64_encode_buf q))"
  using assms
proof (induction q arbitrary: s v n rule: varint_u64_encode_buf.induct)
  case (1 q)
  show ?case
  proof (cases "0 < drop_bit 7 q")
    case True
    note big = drop_bit_7_pos [OF True]
    have "(2::nat) ^ 7 < 2 ^ (64 - s)" using big(1) "1.prems"(2) by simp
    then have s: "s < 57" using power_less_imp_less_exp [of "2::nat" 7 "64 - s"] by simp
    have "64 - s = 7 + (64 - (s + 7))" using s by simp
    then have "(2::nat) ^ (64 - s) = 2 ^ 7 * 2 ^ (64 - (s + 7))"
      by (metis power_add)
    with "1.prems"(2) big(2) have small: "unat (drop_bit 7 q) < 2 ^ (64 - (s + 7))"
      by (simp add: less_mult_imp_div_less mult.commute)
    have enc: "varint_u64_encode_buf q =
        (0x80 OR ucast (0x7f AND q)) # varint_u64_encode_buf (drop_bit 7 q)"
      by (subst varint_u64_encode_buf.simps) (simp add: True Let_def)
    have IH: "varint_u64_decode_loop (varint_u64_encode_buf (drop_bit 7 q) @ rest)
        (v OR push_bit s (take_bit 7 q)) (s + 7) (Suc n) =
        Inr ((v OR push_bit s (take_bit 7 q)) OR push_bit (s + 7) (drop_bit 7 q),
             Suc n + length (varint_u64_encode_buf (drop_bit 7 q)))"
      using "1.IH" [OF refl refl True, of "s + 7"] s small by simp
    show ?thesis
      using s IH
      by (simp only: enc append_Cons varint_u64_decode_loop.simps group_has_more group_payload
          group_take_bit)
        (simp add: or.assoc group_split)
  next
    case False
    note small = drop_bit_7_zero [OF False]
    have enc: "varint_u64_encode_buf q = [ucast (0x7f AND q)]"
      by (subst varint_u64_encode_buf.simps) (simp add: False Let_def)
    have pay: "ucast (ucast (0x7f AND q) :: byte) = q"
      by (simp only: group_take_bit take_bit_7_small [OF small])
    have top: "\<not> (1 :: byte) < ucast (0x7f AND q)" if "s = 63"
    proof -
      have "unat q < 2" using "1.prems"(2) that by simp
      moreover have "unat (ucast (0x7f AND q) :: byte) = unat q"
        using unat_ucast_byte_u64 [of "ucast (0x7f AND q)"] pay by simp
      ultimately show ?thesis by (simp add: word_less_nat_alt)
    qed
    show ?thesis
      using "1.prems"(1) top
      by (simp only: enc append_Cons varint_u64_decode_loop.simps group_is_last pay)
        auto
  qed
qed

lemma varint_u64_decode_encode:
  "varint_u64_decode (varint_u64_encode_buf q @ rest) = Inr (q, length (varint_u64_encode_buf q))"
  using decode_loop_encode [of 0 q rest 0 0] unsigned_less [of q]
  by (simp add: varint_u64_decode_def)

interpretation varint_u64: prefix_codec varint_u64_encode_buf varint_u64_decode "\<lambda>_. True"
  by unfold_locales (rule varint_u64_decode_encode)


section \<open>The number a byte sequence denotes\<close>

text \<open>
  The reference: base-128 digits, least significant first, over unbounded numbers. The
  decoder accepts exactly the sequences of at most ten bytes whose number fits in 64 bits.
\<close>

fun leb128 :: "byte list \<Rightarrow> (nat \<times> nat) option" where
  "leb128 [] = None"
| "leb128 (b # bs) =
     (if b AND 0x80 \<noteq> 0
      then map_option (\<lambda>(v, n). (unat (b AND 0x7f) + 128 * v, Suc n)) (leb128 bs)
      else Some (unat b, 1))"

lemma leb128_pos: "leb128 bs = Some (x, n) \<Longrightarrow> 0 < n"
  by (cases bs) (auto split: if_splits)

lemma leb128_le_length: "leb128 bs = Some (x, n) \<Longrightarrow> n \<le> length bs"
  by (induction bs arbitrary: x n) (auto split: if_splits)

lemma low7_less: "unat ((b :: byte) AND 0x7f) < 128"
proof -
  have "b AND 0x7f \<le> 0x7f" by (rule word_and_le1)
  then show ?thesis by (simp add: word_le_nat_alt)
qed

lemma high_bit_clear_less:
  assumes "(b :: byte) AND 0x80 = 0" shows "unat b < 128"
proof -
  have "b = b AND 0x7f"
  proof (rule bit_word_eqI)
    fix n assume "n < LENGTH(8)"
    then have n: "n \<in> {0,1,2,3,4,5,6,7}" by auto
    have "bit (b AND 0x80) 7 = bit (0 :: byte) 7" by (simp only: assms)
    then have "\<not> bit b 7" by (simp add: bit_simps)
    with n show "bit b n = bit (b AND 0x7f) n" by (auto simp: bit_simps)
  qed
  then show ?thesis using low7_less [of b] by simp
qed

lemma unat_or_byte:
  fixes v :: u64 and b :: byte
  assumes "unat v < 2 ^ s" and "unat b * 2 ^ s < 2 ^ 64"
  shows "unat (v OR push_bit s (ucast b)) = unat v + unat b * 2 ^ s"
  using unat_or_push_bit [of v s "ucast b"] assms by (simp add: unat_ucast_byte_u64)

lemma shifted_le: "i + j \<le> n \<Longrightarrow> (2::nat) ^ i * 2 ^ j \<le> 2 ^ n"
  by (simp flip: power_add)

lemma decode_loop_leb128:
  assumes "k \<le> 9" and "unat v < 2 ^ (7 * k)"
  shows "varint_u64_decode_loop bs v (7 * k) k = Inr (w, m) \<longleftrightarrow>
    (\<exists>x j. leb128 bs = Some (x, j) \<and> m = k + j \<and> m \<le> 10 \<and> unat w = unat v + x * 2 ^ (7 * k))"
  using assms
proof (induction bs arbitrary: k v)
  case Nil
  then show ?case by simp
next
  case (Cons b bs)
  show ?case
  proof (cases "b AND 0x80 = 0")
    case True
    have b: "unat b < 128" by (rule high_bit_clear_less [OF True])
    show ?thesis
    proof (cases "k = 9")
      case k9: True
      show ?thesis
      proof (cases "1 < b")
        case big: True
        then have "2 \<le> unat b" by (simp add: word_less_nat_alt)
        then have "2 ^ 64 \<le> unat v + unat b * 2 ^ (7 * k)" by (simp add: k9)
        with unsigned_less [of w, where ?'a = nat]
        have "unat w \<noteq> unat v + unat b * 2 ^ (7 * k)" by simp
        with True big k9 show ?thesis by auto
      next
        case small: False
        then have "unat b \<le> 1" by (simp add: word_le_nat_alt not_less)
        then have "unat b * 2 ^ 63 < (2::nat) ^ 64" by simp
        with unat_or_byte [of v 63 b] Cons.prems k9
        have "unat (v OR push_bit 63 (ucast b)) = unat v + unat b * 2 ^ 63" by simp
        with True small k9 show ?thesis by (auto simp: word_unat_eq_iff)
      qed
    next
      case False
      with Cons.prems have k: "7 * k + 8 \<le> 64" by simp
      have "unat b * 2 ^ (7 * k) < 2 ^ 8 * 2 ^ (7 * k)" using b by simp
      also have "\<dots> \<le> (2::nat) ^ 64" using k by (intro shifted_le) simp
      finally have "unat (v OR push_bit (7 * k) (ucast b)) = unat v + unat b * 2 ^ (7 * k)"
        using unat_or_byte [of v "7 * k" b] Cons.prems by simp
      with True k Cons.prems show ?thesis by (auto simp: word_unat_eq_iff)
    qed
  next
    case False
    show ?thesis
    proof (cases "k = 9")
      case True
      with False show ?thesis by (auto dest: leb128_pos)
    next
      case k9: False
      let ?c = "b AND 0x7f"
      from k9 Cons.prems have k: "7 * Suc k \<le> 63" by simp
      have "unat ?c * 2 ^ (7 * k) < 2 ^ 7 * 2 ^ (7 * k)" using low7_less [of b] by simp
      also have "\<dots> \<le> (2::nat) ^ 64" using k by (intro shifted_le) simp
      finally have or: "unat (v OR push_bit (7 * k) (ucast ?c)) = unat v + unat ?c * 2 ^ (7 * k)"
        using unat_or_byte [of v "7 * k" ?c] Cons.prems by simp
      have "unat v + unat ?c * 2 ^ (7 * k) < 2 ^ (7 * k) + 127 * 2 ^ (7 * k)"
        using Cons.prems(2) low7_less [of b] by (intro add_less_le_mono mult_le_mono1) simp_all
      then have bound: "unat (v OR push_bit (7 * k) (ucast ?c)) < 2 ^ (7 * Suc k)"
        by (simp add: or power_add)
      have IH: "varint_u64_decode_loop bs (v OR push_bit (7 * k) (ucast ?c)) (7 * Suc k) (Suc k) =
          Inr (w, m) \<longleftrightarrow>
        (\<exists>x j. leb128 bs = Some (x, j) \<and> m = Suc k + j \<and> m \<le> 10 \<and>
           unat w = unat v + unat ?c * 2 ^ (7 * k) + x * 2 ^ (7 * Suc k))"
        using Cons.IH [OF _ bound] k or by simp
      have "varint_u64_decode_loop (b # bs) v (7 * k) k =
        varint_u64_decode_loop bs (v OR push_bit (7 * k) (ucast ?c)) (7 * Suc k) (Suc k)"
        using False k by (simp add: add.commute)
      with IH False show ?thesis
        by (auto simp: power_add algebra_simps)
    qed
  qed
qed

lemma varint_u64_decode_iff:
  "varint_u64_decode bs = Inr (w, n) \<longleftrightarrow> leb128 bs = Some (unat w, n) \<and> n \<le> 10"
  using decode_loop_leb128 [of 0 0 bs w n] by (auto simp: varint_u64_decode_def)

lemma varint_size_loop_leb128:
  "varint_size_loop bs k = (case leb128 bs of None \<Rightarrow> 0 | Some (x, n) \<Rightarrow> k + n)"
  by (induction bs arbitrary: k) (auto split: option.splits)

lemma varint_size_leb128:
  "varint_size bs = (case leb128 bs of None \<Rightarrow> 0 | Some (x, n) \<Rightarrow> n)"
  by (cases "leb128 bs") (auto simp: varint_size_def varint_size_loop_leb128)


section \<open>Zigzag\<close>

text \<open>
  Signed C integers are two's complement words, compared through \<^const>\<open>sint\<close>. The 64- and
  32-bit maps work at their own width. The 8-bit inverse is computed at the width of \<open>int\<close>
  (integer promotion) and truncated when it is returned.
\<close>

definition zigzag64 :: "u64 \<Rightarrow> u64" where
  "zigzag64 val = (if 0 \<le> sint val then push_bit 1 val else push_bit 1 (-1 - val) OR 0x01)"

definition zigzag32 :: "u32 \<Rightarrow> u32" where
  "zigzag32 val = (if 0 \<le> sint val then push_bit 1 val else push_bit 1 (-1 - val) OR 0x01)"

definition zigzag8 :: "byte \<Rightarrow> byte" where
  "zigzag8 val =
     (if 0 \<le> sint val then ucast (push_bit 1 (ucast val :: u32))
      else ucast (push_bit 1 (ucast (ucast (-1 - scast val :: u32) :: byte) :: u32) OR 0x01))"

definition unzigzag64 :: "u64 \<Rightarrow> u64" where
  "unzigzag64 val = (if val AND 0x01 = 0 then drop_bit 1 val else -1 * drop_bit 1 (val + 1))"

definition unzigzag32 :: "u32 \<Rightarrow> u32" where
  "unzigzag32 val = (if val AND 0x01 = 0 then drop_bit 1 val else -1 * drop_bit 1 (val + 1))"

definition unzigzag8 :: "byte \<Rightarrow> byte" where
  "unzigzag8 val =
     (if val AND 0x01 = 0 then ucast (drop_bit 1 (ucast val :: u32))
      else ucast (-1 * scast (ucast (drop_bit 1 (ucast val + 1 :: u32)) :: byte) :: u32))"

definition varint_s64_encode_buf :: "u64 \<Rightarrow> byte list" where
  "varint_s64_encode_buf val = varint_u64_encode_buf (zigzag64 val)"

definition varint_s32_encode_buf :: "u32 \<Rightarrow> byte list" where
  "varint_s32_encode_buf val = varint_u64_encode_buf (ucast (zigzag32 val))"

definition varint_s64_decode :: "byte list \<Rightarrow> lwerr + (u64 \<times> nat)" where
  "varint_s64_decode bs = bindE (varint_u64_decode bs) (\<lambda>(val, size). Inr (unzigzag64 val, size))"

lemma and_1_eq_0: "(x :: 'a::len word) AND 1 = 0 \<longleftrightarrow> \<not> bit x 0"
  by (simp add: and_one_eq bit_0 even_iff_mod_2_eq_zero)

lemma drop_push_1:
  assumes "0 \<le> sint (u :: 'a::len word)"
  shows "drop_bit (Suc 0) (push_bit (Suc 0) u) = u"
proof (rule bit_word_eqI)
  fix n assume n: "n < LENGTH('a)"
  have "\<not> bit u (LENGTH('a) - Suc 0)" using assms by (simp add: bit_last_iff)
  then have "n < LENGTH('a) - Suc 0" if "bit u n" using that n by (cases "n = LENGTH('a) - Suc 0") auto
  then show "bit (drop_bit (Suc 0) (push_bit (Suc 0) u)) n = bit u n"
    using n by (auto simp only: bit_drop_bit_eq bit_push_bit_iff comp_apply) auto
qed

lemma push_1_or_1: "push_bit (Suc 0) (u :: 'a::len word) OR 1 = push_bit (Suc 0) u + 1"
proof -
  have "push_bit (Suc 0) u AND 1 = 0" by (simp only: and_1_eq_0 bit_push_bit_iff) simp
  then show ?thesis by (simp only: disjunctive_add_eq_or [symmetric])
qed

lemma sint_uminus_nonneg:
  assumes "sint (v :: 'a::len word) < 0" and "- (2 ^ (LENGTH('a) - 1)) < sint v"
  shows "0 \<le> sint (- v)"
proof -
  have "sint (- v) = signed_take_bit (LENGTH('a) - 1) (- sint v)"
    by (rule sint_word_ariths)
  also have "\<dots> = - sint v"
    using assms by (intro signed_take_bit_int_eq_self) auto
  finally show ?thesis using assms by simp
qed

lemma unzigzag_negative:
  assumes "sint (v :: 'a::len word) < 0" and "- (2 ^ (LENGTH('a) - 1)) < sint v"
  shows "- drop_bit (Suc 0) ((push_bit (Suc 0) (-1 - v) OR 1) + 1) = v"
proof -
  have "(push_bit (Suc 0) (-1 - v) OR 1) + 1 = push_bit (Suc 0) (- v)"
    by (simp only: push_1_or_1) (simp add: push_bit_eq_mult algebra_simps)
  then have "drop_bit (Suc 0) ((push_bit (Suc 0) (-1 - v) OR 1) + 1) = - v"
    using drop_push_1 [OF sint_uminus_nonneg [OF assms]] by (simp only:)
  then show ?thesis by simp
qed

lemma unzigzag_minimum:
  assumes "sint (v :: 'a::len word) = - (2 ^ (LENGTH('a) - 1))"
  shows "drop_bit (Suc 0) ((push_bit (Suc 0) (-1 - v) OR 1) + 1) = 0"
proof -
  have "v = word_of_int (sint v)" by simp
  also have "\<dots> = word_of_int (- (2 ^ (LENGTH('a) - 1)))" by (simp only: assms)
  finally have v: "- v = 2 ^ (LENGTH('a) - 1)" by simp
  have "(push_bit (Suc 0) (-1 - v) OR 1) + 1 = - v * 2"
    by (simp only: push_1_or_1) (simp add: push_bit_eq_mult algebra_simps)
  also have "\<dots> = 2 ^ LENGTH('a)"
    using power_Suc [of "2 :: 'a word" "LENGTH('a) - 1"] by (simp add: v mult.commute)
  also have "\<dots> = 0" by simp
  finally show ?thesis by (simp only: drop_bit_of_0)
qed

lemma zigzag_parity:
  "push_bit (Suc 0) (u :: 'a::len word) AND 1 = 0" "(push_bit (Suc 0) u OR 1) AND 1 \<noteq> 0"
  by (simp_all only: and_1_eq_0 bit_push_bit_iff bit_or_iff) simp_all

lemma unzigzag64_zigzag64:
  "unzigzag64 (zigzag64 v) = (if sint v = - (2 ^ 63) then 0 else v)"
proof (cases "0 \<le> sint v")
  case True
  then show ?thesis
    using drop_push_1 [OF True] zigzag_parity(1) [of v]
    by (simp only: zigzag64_def unzigzag64_def if_True One_nat_def) simp
next
  case False
  have "- (2 ^ 63) \<le> sint v" using sint_ge [of v] by simp
  with False unzigzag_negative [of v] unzigzag_minimum [of v] zigzag_parity(2) [of "-1 - v"]
  show ?thesis
    by (simp only: zigzag64_def unzigzag64_def if_False One_nat_def) auto
qed

lemma unzigzag32_zigzag32:
  "unzigzag32 (zigzag32 v) = (if sint v = - (2 ^ 31) then 0 else v)"
proof (cases "0 \<le> sint v")
  case True
  then show ?thesis
    using drop_push_1 [OF True] zigzag_parity(1) [of v]
    by (simp only: zigzag32_def unzigzag32_def if_True One_nat_def) simp
next
  case False
  have "- (2 ^ 31) \<le> sint v" using sint_ge [of v] by simp
  with False unzigzag_negative [of v] unzigzag_minimum [of v] zigzag_parity(2) [of "-1 - v"]
  show ?thesis
    by (simp only: zigzag32_def unzigzag32_def if_False One_nat_def) auto
qed


lemma unzigzag8_zigzag8_upto:
  "list_all (\<lambda>n. unzigzag8 (zigzag8 (word_of_nat n)) = word_of_nat n) [0..<256]"
  by code_simp

lemma unzigzag8_zigzag8: "unzigzag8 (zigzag8 v) = v"
proof -
  have "unat v \<in> set [0..<256]" using unsigned_less [of v, where ?'a = nat] by simp
  with unzigzag8_zigzag8_upto
  have "unzigzag8 (zigzag8 (word_of_nat (unat v))) = word_of_nat (unat v)"
    by (simp only: list_all_iff)
  then show ?thesis by simp
qed

lemma length_varint_u64_encode_buf:
  "0 < k \<Longrightarrow> unat q < 2 ^ (7 * k) \<Longrightarrow> length (varint_u64_encode_buf q) \<le> k"
proof (induction q arbitrary: k rule: varint_u64_encode_buf.induct)
  case (1 q)
  show ?case
  proof (cases "0 < drop_bit 7 q")
    case True
    note big = drop_bit_7_pos [OF True]
    from big(1) "1.prems" have "k \<noteq> 1" by auto
    with "1.prems" obtain j where j: "k = Suc j" "0 < j" by (cases k) auto
    have "unat (drop_bit 7 q) < 2 ^ (7 * j)"
      using "1.prems"(2) by (simp only: big(2) j) (simp add: power_add less_mult_imp_div_less mult.commute)
    then have "length (varint_u64_encode_buf (drop_bit 7 q)) \<le> j"
      using "1.IH" [OF refl refl True j(2)] by simp
    then show ?thesis
      by (subst varint_u64_encode_buf.simps) (simp add: True Let_def j)
  next
    case False
    with "1.prems" show ?thesis
      by (subst varint_u64_encode_buf.simps) (simp add: Let_def)
  qed
qed

lemma varint_encode_nonempty: "varint_u64_encode_buf q \<noteq> []"
  by (subst varint_u64_encode_buf.simps) (simp add: Let_def)

lemma varint_s64_decode_encode:
  "sint v \<noteq> - (2 ^ 63) \<Longrightarrow>
   varint_s64_decode (varint_s64_encode_buf v @ rest) = Inr (v, length (varint_s64_encode_buf v))"
  by (simp add: varint_s64_decode_def varint_s64_encode_buf_def varint_u64_decode_encode
      unzigzag64_zigzag64)

interpretation varint_s64: prefix_codec varint_s64_encode_buf varint_s64_decode
    "\<lambda>v. sint v \<noteq> - (2 ^ 63)"
  by unfold_locales (rule varint_s64_decode_encode)

section \<open>Properties\<close>

text \<open>
  C27. A 64-bit value written as a varint is read back exactly, whatever bytes follow, and
  the reader passes exactly the bytes that were written, between one and ten of them.
\<close>

theorem varint_u64_roundtrip:
  "varint_u64_decode (varint_u64_encode_buf q @ rest) = Inr (q, length (varint_u64_encode_buf q)) \<and>
   1 \<le> length (varint_u64_encode_buf q) \<and> length (varint_u64_encode_buf q) \<le> 10"
proof -
  have "unat q < 2 ^ (7 * 10)" by (rule less_trans [OF unsigned_less]) simp
  then show ?thesis
    using varint_u64_decode_encode length_varint_u64_encode_buf [of 10 q] varint_encode_nonempty [of q]
    by (simp add: Suc_le_eq)
qed

text \<open>
  C26. The decoder computes the base-128 number at the start of the buffer: it succeeds
  exactly when a terminated number is there, in at most ten bytes, that fits in 64 bits;
  it then never reads past the end and \<open>varint_size\<close> agrees on the length.
\<close>

theorem varint_u64_decode_denotes:
  "(varint_u64_decode bs = Inr (w, n)) = (leb128 bs = Some (unat w, n) \<and> n \<le> 10) \<and>
   (varint_u64_decode bs = Inr (w, n) \<longrightarrow> n \<le> length bs \<and> varint_size bs = n)"
  by (auto simp: varint_u64_decode_iff varint_size_leb128 dest: leb128_le_length)

theorem varint_u64_decode_denotes_witness:
  "varint_u64_decode [0x96, 0x01, 0xff] = Inr (150, 2) \<and> varint_size [0x96, 0x01, 0xff] = 2"
proof -
  have "leb128 [0x96, 0x01, 0xff] = Some (unat (150 :: u64), 2)" by simp
  then show ?thesis
    using varint_u64_decode_denotes [of "[0x96, 0x01, 0xff]" 150 2] by simp
qed

text \<open>
  The 64- and 32-bit zigzag maps are inverted for every value but the most negative
  one, which comes back as 0; the 8-bit map is inverted for every value, -128 included.
\<close>

theorem zigzag_roundtrip:
  "unzigzag64 (zigzag64 v) = (if sint v = - (2 ^ 63) then 0 else v) \<and>
   unzigzag32 (zigzag32 w) = (if sint w = - (2 ^ 31) then 0 else w) \<and>
   unzigzag8 (zigzag8 x) = x"
  by (simp only: unzigzag64_zigzag64 unzigzag32_zigzag32 unzigzag8_zigzag8 simp_thms)

end
