(* ===== verification/UnionFind.thy ===== *)
theory UnionFind
  imports Prelude "HOL-Library.Multiset"
begin

text \<open>
  liblwgeom/lwunionfind.c: disjoint sets with union by size and path compression, the data
  structure behind ST_ClusterDBSCAN and ST_ClusterIntersecting. \<open>UNIONFIND\<close> is a record;
  its arrays are lists of the array's length. The loops of \<open>UF_find\<close> are partial
  functions: \<^term>\<open>None\<close> is a loop that does not end or an index outside the array, and the
  invariant below excludes both. Cluster sizes are sums of at most \<open>N\<close> ones and \<open>N\<close> is a
  \<open>uint32_t\<close>, so natural numbers never exceed the C width.
\<close>

section \<open>The structure and its operations\<close>

record unionfind =
  clusters :: "nat list"
  cluster_sizes :: "nat list"
  num_clusters :: nat
  uf_N :: nat

definition UF_create :: "nat \<Rightarrow> unionfind" where
  "UF_create N =
     \<lparr>clusters = [0..<N], cluster_sizes = replicate N 1, num_clusters = N, uf_N = N\<rparr>"

text \<open>The first loop of \<open>UF_find\<close> walks up to the root, the second one compresses the path.\<close>

partial_function (option) uf_base :: "nat list \<Rightarrow> nat \<Rightarrow> nat option" where
  "uf_base c base =
     (if base < length c
      then if c ! base = base then Some base else uf_base c (c ! base)
      else None)"

partial_function (option) uf_compress :: "nat list \<Rightarrow> nat \<Rightarrow> nat \<Rightarrow> (nat \<times> nat list) option" where
  "uf_compress c base i =
     (if i = base then Some (i, c)
      else if i < length c then uf_compress (c[i := base]) base (c ! i)
      else None)"

declare uf_base.simps [code] uf_compress.simps [code]

definition UF_find :: "unionfind \<Rightarrow> nat \<Rightarrow> (nat \<times> unionfind) option" where
  "UF_find uf i =
     (case uf_base (clusters uf) i of
        None \<Rightarrow> None
      | Some base \<Rightarrow>
          (case uf_compress (clusters uf) base i of
             None \<Rightarrow> None
           | Some (r, c) \<Rightarrow> Some (r, uf\<lparr>clusters := c\<rparr>)))"

definition UF_size :: "unionfind \<Rightarrow> nat \<Rightarrow> (nat \<times> unionfind) option" where
  "UF_size uf i =
     (case UF_find uf i of
        None \<Rightarrow> None
      | Some (r, uf') \<Rightarrow> Some (cluster_sizes uf' ! r, uf'))"

text \<open>Hang root \<open>a\<close> under root \<open>b\<close>.\<close>

definition uf_link :: "unionfind \<Rightarrow> nat \<Rightarrow> nat \<Rightarrow> unionfind" where
  "uf_link uf a b =
     (let cs = cluster_sizes uf;
          cs1 = cs[b := cs ! b + cs ! a]
      in uf\<lparr>clusters := (clusters uf)[a := clusters uf ! b],
            cluster_sizes := cs1[a := 0],
            num_clusters := num_clusters uf - 1\<rparr>)"

definition UF_union :: "unionfind \<Rightarrow> nat \<Rightarrow> nat \<Rightarrow> unionfind option" where
  "UF_union uf i j =
     (case UF_find uf i of
        None \<Rightarrow> None
      | Some (a, uf1) \<Rightarrow>
          (case UF_find uf1 j of
             None \<Rightarrow> None
           | Some (b, uf2) \<Rightarrow>
               if a = b then Some uf2
               else if cluster_sizes uf2 ! a < cluster_sizes uf2 ! b \<or>
                       (cluster_sizes uf2 ! a = cluster_sizes uf2 ! b \<and> a > b)
               then Some (uf_link uf2 a b)
               else Some (uf_link uf2 b a)))"

section \<open>Paths to the root\<close>

text \<open>\<open>uf_path c i n r\<close>: following \<open>n\<close> links of \<open>c\<close> from \<open>i\<close> reaches the root \<open>r\<close>.\<close>

inductive uf_path :: "nat list \<Rightarrow> nat \<Rightarrow> nat \<Rightarrow> nat \<Rightarrow> bool" for c where
  root: "i < length c \<Longrightarrow> c ! i = i \<Longrightarrow> uf_path c i 0 i"
| step: "i < length c \<Longrightarrow> c ! i \<noteq> i \<Longrightarrow> uf_path c (c ! i) n r \<Longrightarrow> uf_path c i (Suc n) r"

inductive_cases uf_path_0E: "uf_path c i 0 r"
inductive_cases uf_path_SucE: "uf_path c i (Suc n) r"

lemma uf_path_root: "uf_path c i n r \<Longrightarrow> r < length c \<and> c ! r = r"
  by (induction rule: uf_path.induct) auto

lemma uf_path_index: "uf_path c i n r \<Longrightarrow> i < length c"
  by (cases rule: uf_path.cases) auto

lemma uf_path_from_root: "uf_path c i n r \<Longrightarrow> c ! i = i \<Longrightarrow> n = 0 \<and> r = i"
  by (cases rule: uf_path.cases) auto

lemma uf_path_unique: "uf_path c i n r \<Longrightarrow> uf_path c i m s \<Longrightarrow> m = n \<and> s = r"
proof (induction arbitrary: m s rule: uf_path.induct)
  case (root i)
  then show ?case by (auto dest: uf_path_from_root)
next
  case (step i n r)
  from step.prems step.hyps(2) obtain k where "m = Suc k" "uf_path c (c ! i) k s"
    by (cases rule: uf_path.cases) auto
  with step.IH show ?case by auto
qed

lemma uf_base_path: "uf_path c i n r \<Longrightarrow> uf_base c i = Some r"
proof (induction rule: uf_path.induct)
  case (root i)
  then show ?case by (subst uf_base.simps) simp
next
  case (step i n r)
  then show ?case by (subst uf_base.simps) simp
qed

lemma path_after_compress_step:
  assumes "uf_path c i n r" and "c ! i \<noteq> i" and "uf_path c k m s"
  shows "\<exists>m' \<le> m. uf_path (c[i := r]) k m' s"
  using assms(3)
proof (induction rule: uf_path.induct)
  case (root k)
  then have "k \<noteq> i" using assms(2) by auto
  with root have "uf_path (c[i := r]) k 0 k" by (intro uf_path.root) auto
  then show ?case by blast
next
  case (step k m s)
  have r: "r < length c" "c ! r = r" using uf_path_root [OF assms(1)] by auto
  have i: "i < length c" by (rule uf_path_index [OF assms(1)])
  show ?case
  proof (cases "k = i")
    case True
    have "uf_path c k (Suc m) s" by (rule uf_path.step [OF step.hyps])
    with assms(1) True have s: "s = r" using uf_path_unique by blast
    have ri: "r \<noteq> i" using assms(2) r by auto
    then have "uf_path (c[i := r]) r 0 r"
      using r by (intro uf_path.root) auto
    then have "uf_path (c[i := r]) i (Suc 0) r"
      using i ri by (intro uf_path.step) auto
    then show ?thesis using True s by (intro exI [of _ "Suc 0"]) simp
  next
    case False
    from step.IH obtain m' where "m' \<le> m" "uf_path (c[i := r]) (c ! k) m' s" by blast
    with False step.hyps have "uf_path (c[i := r]) k (Suc m') s"
      by (intro uf_path.step) auto
    with \<open>m' \<le> m\<close> show ?thesis by (intro exI [of _ "Suc m'"]) simp
  qed
qed

lemma uf_compress_path:
  assumes "uf_path c i n r"
  shows "\<exists>c'. uf_compress c r i = Some (r, c') \<and> length c' = length c \<and> c' ! i = r \<and>
           (\<forall>k m s. uf_path c k m s \<longrightarrow> (\<exists>m' \<le> m. uf_path c' k m' s))"
  using assms
proof (induction n arbitrary: c i rule: less_induct)
  case (less n c i)
  show ?case
  proof (cases "i = r")
    case True
    with less.prems uf_path_root [OF less.prems] show ?thesis
      by (subst uf_compress.simps) auto
  next
    case False
    then have ni: "c ! i \<noteq> i" using uf_path_from_root [OF less.prems] by auto
    with less.prems obtain k where k: "n = Suc k" "uf_path c (c ! i) k r" "i < length c"
      by (cases rule: uf_path.cases) auto
    let ?c = "c[i := r]"
    note pres = path_after_compress_step [OF less.prems ni]
    from pres [OF k(2)] obtain k' where k': "k' \<le> k" "uf_path ?c (c ! i) k' r" by blast
    then have "k' < n" using k(1) by simp
    from less.IH [OF this k'(2)] obtain c' where c':
      "uf_compress ?c r (c ! i) = Some (r, c')" "length c' = length c"
      "\<And>k m s. uf_path ?c k m s \<Longrightarrow> \<exists>m' \<le> m. uf_path c' k m' s"
      by auto
    have keep: "\<exists>m' \<le> m. uf_path c' k m' s" if "uf_path c k m s" for k m s
      using pres [OF that] c'(3) by (meson le_trans)
    have r: "r < length c" "c ! r = r" using uf_path_root [OF less.prems] by auto
    have "uf_path ?c r 0 r" using r False by (intro uf_path.root) auto
    then have "uf_path ?c i (Suc 0) r" using k(3) False by (intro uf_path.step) auto
    from c'(3) [OF this] obtain m' where m': "m' \<le> Suc 0" "uf_path c' i m' r" by blast
    have "c' ! i = r"
      using m' False by (cases m') (auto elim: uf_path_0E uf_path_SucE)
    moreover have "uf_compress c r i = Some (r, c')"
      using False k(3) c'(1) by (subst uf_compress.simps) simp
    ultimately show ?thesis using c'(2) keep by blast
  qed
qed

lemma path_after_link:
  assumes "c ! a = a" "c ! b = b" "a \<noteq> b" "a < length c" "b < length c" "uf_path c k m s"
  shows "uf_path (c[a := b]) k (if s = a then Suc m else m) (if s = a then b else s)"
  using assms(6)
proof (induction rule: uf_path.induct)
  case (root k)
  have "uf_path (c[a := b]) b 0 b" using assms by (intro uf_path.root) auto
  then have "uf_path (c[a := b]) a (Suc 0) b" using assms by (intro uf_path.step) auto
  moreover have "uf_path (c[a := b]) k 0 k" if "k \<noteq> a"
    using that root by (intro uf_path.root) auto
  ultimately show ?case by simp
next
  case (step k m s)
  then have ka: "k \<noteq> a" using assms(1) by auto
  have "uf_path (c[a := b]) k (Suc n') r'" if "uf_path (c[a := b]) (c ! k) n' r'" for n' r'
    using that ka step.hyps by (intro uf_path.step) auto
  from this [OF step.IH] show ?case by (simp split: if_splits)
qed


section \<open>Invariant\<close>

definition uf_rep :: "unionfind \<Rightarrow> nat \<Rightarrow> nat" where
  "uf_rep uf i = the (uf_base (clusters uf) i)"

definition uf_same :: "unionfind \<Rightarrow> nat \<Rightarrow> nat \<Rightarrow> bool" where
  "uf_same uf i j \<longleftrightarrow> i < uf_N uf \<and> j < uf_N uf \<and> uf_rep uf i = uf_rep uf j"

definition uf_class :: "unionfind \<Rightarrow> nat \<Rightarrow> nat set" where
  "uf_class uf r = {i. i < uf_N uf \<and> uf_rep uf i = r}"

text \<open>
  Every element reaches a root, in at most \<open>log2\<close> of its cluster's size steps; the recorded
  size of a root is the number of elements of its cluster (and 0 at the other elements);
  \<open>num_clusters\<close> counts the roots.
\<close>

definition uf_inv :: "unionfind \<Rightarrow> bool" where
  "uf_inv uf \<longleftrightarrow>
     length (clusters uf) = uf_N uf \<and> length (cluster_sizes uf) = uf_N uf \<and>
     (\<forall>i < uf_N uf. \<exists>n. uf_path (clusters uf) i n (uf_rep uf i) \<and>
        2 ^ n \<le> cluster_sizes uf ! uf_rep uf i) \<and>
     (\<forall>r < uf_N uf. cluster_sizes uf ! r = card (uf_class uf r)) \<and>
     num_clusters uf = card {r. r < uf_N uf \<and> uf_rep uf r = r}"

lemma uf_rep_path: "uf_path (clusters uf) i n r \<Longrightarrow> uf_rep uf i = r"
  by (simp add: uf_rep_def uf_base_path)

lemma uf_invD:
  assumes "uf_inv uf"
  shows "length (clusters uf) = uf_N uf" "length (cluster_sizes uf) = uf_N uf"
    and "i < uf_N uf \<Longrightarrow> \<exists>n. uf_path (clusters uf) i n (uf_rep uf i) \<and> 2 ^ n \<le> cluster_sizes uf ! uf_rep uf i"
    and "r < uf_N uf \<Longrightarrow> cluster_sizes uf ! r = card (uf_class uf r)"
    and "num_clusters uf = card {r. r < uf_N uf \<and> uf_rep uf r = r}"
  using assms by (auto simp: uf_inv_def)

lemma uf_inv_path:
  assumes "uf_inv uf" "i < uf_N uf"
  obtains n where "uf_path (clusters uf) i n (uf_rep uf i)" "2 ^ n \<le> cluster_sizes uf ! uf_rep uf i"
  using uf_invD(3) [OF assms] by blast

lemma uf_rep_less: "uf_inv uf \<Longrightarrow> i < uf_N uf \<Longrightarrow> uf_rep uf i < uf_N uf"
  by (metis uf_inv_path uf_path_root uf_invD(1))

lemma uf_rep_is_root:
  "uf_inv uf \<Longrightarrow> i < uf_N uf \<Longrightarrow> clusters uf ! uf_rep uf i = uf_rep uf i"
  by (metis uf_inv_path uf_path_root)

lemma uf_rep_eq_self:
  assumes "uf_inv uf" "r < uf_N uf"
  shows "uf_rep uf r = r \<longleftrightarrow> clusters uf ! r = r"
  by (metis assms uf_inv_path uf_path_from_root uf_rep_is_root)

lemma uf_rep_idem:
  "uf_inv uf \<Longrightarrow> i < uf_N uf \<Longrightarrow> uf_rep uf (uf_rep uf i) = uf_rep uf i"
  by (simp add: uf_rep_eq_self uf_rep_less uf_rep_is_root)

lemma finite_uf_class [simp]: "finite (uf_class uf r)"
  by (simp add: uf_class_def)

subsection \<open>Creation\<close>

lemma UF_create_simps [simp]:
  "clusters (UF_create N) = [0..<N]" "cluster_sizes (UF_create N) = replicate N 1"
  "num_clusters (UF_create N) = N" "uf_N (UF_create N) = N"
  by (simp_all add: UF_create_def)

lemma UF_create_path: "i < N \<Longrightarrow> uf_path (clusters (UF_create N)) i 0 i"
  by (intro uf_path.root) simp_all

lemma UF_create_rep: "i < N \<Longrightarrow> uf_rep (UF_create N) i = i"
  by (rule uf_rep_path) (rule UF_create_path)

lemma UF_create_inv: "uf_inv (UF_create N)"
proof -
  have cls: "uf_class (UF_create N) r = {r}" if "r < N" for r
    using that by (auto simp: uf_class_def UF_create_rep)
  have roots: "{r. r < N \<and> uf_rep (UF_create N) r = r} = {..<N}"
    by (auto simp: UF_create_rep)
  have "\<exists>n. uf_path (clusters (UF_create N)) i n (uf_rep (UF_create N) i) \<and>
      2 ^ n \<le> cluster_sizes (UF_create N) ! uf_rep (UF_create N) i" if "i < N" for i
    using that UF_create_path by (intro exI [of _ 0]) (simp add: UF_create_rep)
  with cls roots show ?thesis by (simp add: uf_inv_def)
qed

lemma UF_create_same: "uf_same (UF_create N) i j \<longleftrightarrow> i < N \<and> i = j"
  by (auto simp: uf_same_def UF_create_rep)

subsection \<open>Find\<close>

lemma UF_find_correct:
  assumes inv: "uf_inv uf" and i: "i < uf_N uf"
  shows "\<exists>uf'. UF_find uf i = Some (uf_rep uf i, uf') \<and> uf_inv uf' \<and>
    uf_N uf' = uf_N uf \<and> cluster_sizes uf' = cluster_sizes uf \<and>
    num_clusters uf' = num_clusters uf \<and> clusters uf' ! i = uf_rep uf i \<and>
    (\<forall>k < uf_N uf. uf_rep uf' k = uf_rep uf k) \<and>
    (\<forall>k m s. uf_path (clusters uf) k m s \<longrightarrow> (\<exists>m' \<le> m. uf_path (clusters uf') k m' s))"
proof -
  obtain n where n: "uf_path (clusters uf) i n (uf_rep uf i)"
    using uf_inv_path [OF inv i] by blast
  then have base: "uf_base (clusters uf) i = Some (uf_rep uf i)" by (rule uf_base_path)
  from uf_compress_path [OF n] obtain c' where c':
    "uf_compress (clusters uf) (uf_rep uf i) i = Some (uf_rep uf i, c')"
    "length c' = length (clusters uf)" "c' ! i = uf_rep uf i"
    "\<And>k m s. uf_path (clusters uf) k m s \<Longrightarrow> \<exists>m' \<le> m. uf_path c' k m' s"
    by auto
  let ?uf = "uf\<lparr>clusters := c'\<rparr>"
  have find: "UF_find uf i = Some (uf_rep uf i, ?uf)"
    by (simp add: UF_find_def base c'(1))
  have path: "\<exists>m. uf_path c' k m (uf_rep uf k) \<and> 2 ^ m \<le> cluster_sizes uf ! uf_rep uf k"
    if k: "k < uf_N uf" for k
  proof -
    obtain m where m: "uf_path (clusters uf) k m (uf_rep uf k)"
      "2 ^ m \<le> cluster_sizes uf ! uf_rep uf k"
      using uf_inv_path [OF inv k] by blast
    from c'(4) [OF m(1)] obtain m' where m': "m' \<le> m" "uf_path c' k m' (uf_rep uf k)" by blast
    from m'(1) have "(2::nat) ^ m' \<le> 2 ^ m" by simp
    with m(2) m'(2) show ?thesis by (meson le_trans)
  qed
  have rep: "uf_rep ?uf k = uf_rep uf k" if "k < uf_N uf" for k
    using path [OF that] uf_rep_path [of ?uf k] by auto
  have cls: "uf_class ?uf r = uf_class uf r" for r
    using rep by (auto simp: uf_class_def)
  have roots: "{r. r < uf_N uf \<and> uf_rep ?uf r = r} = {r. r < uf_N uf \<and> uf_rep uf r = r}"
    using rep by auto
  have "uf_inv ?uf"
    using uf_invD [OF inv] path rep roots cls c'(2) by (simp add: uf_inv_def)
  with find c'(3,4) rep show ?thesis by (intro exI [of _ ?uf]) simp
qed

lemma UF_findE:
  assumes "uf_inv uf" "i < uf_N uf"
  obtains uf' where "UF_find uf i = Some (uf_rep uf i, uf')" "uf_inv uf'" "uf_N uf' = uf_N uf"
    "cluster_sizes uf' = cluster_sizes uf" "num_clusters uf' = num_clusters uf"
    "clusters uf' ! i = uf_rep uf i" "\<And>k. k < uf_N uf \<Longrightarrow> uf_rep uf' k = uf_rep uf k"
  using UF_find_correct [OF assms] by blast

lemma UF_size_correct:
  assumes "uf_inv uf" "i < uf_N uf"
  shows "\<exists>uf'. UF_size uf i = Some (card (uf_class uf (uf_rep uf i)), uf') \<and> uf_inv uf'"
proof -
  obtain uf' where "UF_find uf i = Some (uf_rep uf i, uf')" "uf_inv uf'"
    "cluster_sizes uf' = cluster_sizes uf"
    by (rule UF_findE [OF assms])
  then show ?thesis
    using uf_invD(4) [OF assms(1)] uf_rep_less [OF assms] by (simp add: UF_size_def)
qed


subsection \<open>Union\<close>

lemma uf_link_simps [simp]:
  "uf_N (uf_link uf a b) = uf_N uf"
  "clusters (uf_link uf a b) = (clusters uf)[a := clusters uf ! b]"
  "cluster_sizes (uf_link uf a b) =
     ((cluster_sizes uf)[b := cluster_sizes uf ! b + cluster_sizes uf ! a])[a := 0]"
  "num_clusters (uf_link uf a b) = num_clusters uf - 1"
  by (simp_all add: uf_link_def Let_def)

text \<open>Two different roots, the first of the smaller cluster.\<close>

definition uf_linkable :: "unionfind \<Rightarrow> nat \<Rightarrow> nat \<Rightarrow> bool" where
  "uf_linkable uf a b \<longleftrightarrow>
     uf_inv uf \<and> a < uf_N uf \<and> b < uf_N uf \<and> uf_rep uf a = a \<and> uf_rep uf b = b \<and> a \<noteq> b \<and>
     cluster_sizes uf ! a \<le> cluster_sizes uf ! b"

lemma uf_linkableD:
  assumes "uf_linkable uf a b"
  shows "uf_inv uf" "a < uf_N uf" "b < uf_N uf" "uf_rep uf a = a" "uf_rep uf b = b" "a \<noteq> b"
    and "cluster_sizes uf ! a \<le> cluster_sizes uf ! b"
    and "clusters uf ! a = a" "clusters uf ! b = b"
    and "length (clusters uf) = uf_N uf" "length (cluster_sizes uf) = uf_N uf"
  using assms uf_rep_is_root [of uf a] uf_rep_is_root [of uf b]
  by (auto simp: uf_linkable_def dest: uf_invD(1,2))

lemma uf_link_path:
  assumes "uf_linkable uf a b" and "uf_path (clusters uf) k m s"
  shows "uf_path (clusters (uf_link uf a b)) k
           (if s = a then Suc m else m) (if s = a then b else s)"
  using path_after_link [OF _ _ _ _ _ assms(2)] uf_linkableD [OF assms(1)] by simp

lemma uf_link_rep:
  assumes "uf_linkable uf a b" and "k < uf_N uf"
  shows "uf_rep (uf_link uf a b) k = (if uf_rep uf k = a then b else uf_rep uf k)"
proof -
  obtain n where "uf_path (clusters uf) k n (uf_rep uf k)"
    using uf_inv_path [OF uf_linkableD(1) [OF assms(1)] assms(2)] by blast
  from uf_rep_path [OF uf_link_path [OF assms(1) this]] show ?thesis by simp
qed

lemma uf_link_class:
  assumes "uf_linkable uf a b"
  shows "uf_class (uf_link uf a b) r =
     (if r = a then {} else if r = b then uf_class uf a \<union> uf_class uf b else uf_class uf r)"
proof -
  have "i \<in> uf_class (uf_link uf a b) r \<longleftrightarrow>
      i < uf_N uf \<and> (if uf_rep uf i = a then b else uf_rep uf i) = r" for i
    using uf_link_rep [OF assms] by (auto simp: uf_class_def)
  then show ?thesis
    using uf_linkableD(6) [OF assms] by (auto simp: uf_class_def split: if_splits)
qed

lemma uf_link_sizes:
  assumes "uf_linkable uf a b" and "r < uf_N uf"
  shows "cluster_sizes (uf_link uf a b) ! r = card (uf_class (uf_link uf a b) r)"
proof -
  note ab = uf_linkableD [OF assms(1)]
  have "uf_class uf a \<inter> uf_class uf b = {}" using ab(6) by (auto simp: uf_class_def)
  then have "card (uf_class uf a \<union> uf_class uf b) = cluster_sizes uf ! a + cluster_sizes uf ! b"
    using uf_invD(4) [OF ab(1)] ab by (simp add: card_Un_disjoint)
  then show ?thesis
    using assms ab uf_invD(4) [OF ab(1)] by (auto simp: uf_link_class [OF assms(1)] nth_list_update)
qed

lemma uf_link_depth:
  assumes l: "uf_linkable uf a b" and k: "k < uf_N uf"
  shows "\<exists>n. uf_path (clusters (uf_link uf a b)) k n (uf_rep (uf_link uf a b) k) \<and>
    2 ^ n \<le> cluster_sizes (uf_link uf a b) ! uf_rep (uf_link uf a b) k"
proof -
  note ab = uf_linkableD [OF l]
  obtain n where n: "uf_path (clusters uf) k n (uf_rep uf k)"
    "2 ^ n \<le> cluster_sizes uf ! uf_rep uf k"
    using uf_inv_path [OF ab(1) k] by blast
  note path = uf_link_path [OF l n(1)]
  show ?thesis
  proof (cases "uf_rep uf k = a")
    case True
    then have "2 ^ Suc n \<le> cluster_sizes uf ! a + cluster_sizes uf ! b"
      using n(2) ab(7) by simp
    with path True k ab show ?thesis
      by (intro exI [of _ "Suc n"]) (simp add: uf_link_rep [OF l] nth_list_update)
  next
    case False
    with n(2) ab uf_rep_less [OF ab(1) k]
    have "2 ^ n \<le> cluster_sizes (uf_link uf a b) ! uf_rep uf k"
      by (auto simp: nth_list_update)
    with path False k show ?thesis
      by (intro exI [of _ n]) (simp add: uf_link_rep [OF l])
  qed
qed

lemma uf_link_num:
  assumes "uf_linkable uf a b"
  shows "num_clusters uf - 1 = card {r. r < uf_N uf \<and> uf_rep (uf_link uf a b) r = r}"
proof -
  note ab = uf_linkableD [OF assms]
  have "{r. r < uf_N uf \<and> uf_rep (uf_link uf a b) r = r} =
      {r. r < uf_N uf \<and> uf_rep uf r = r} - {a}"
    using ab uf_link_rep [OF assms] by (auto split: if_splits)
  moreover have "a \<in> {r. r < uf_N uf \<and> uf_rep uf r = r}" using ab by simp
  ultimately show ?thesis using uf_invD(5) [OF ab(1)] by (simp add: card_Diff_singleton)
qed

lemma uf_link_inv: "uf_linkable uf a b \<Longrightarrow> uf_inv (uf_link uf a b)"
  using uf_link_depth [of uf a b] uf_link_sizes [of uf a b] uf_link_num [of uf a b]
    uf_linkableD [of uf a b]
  by (simp add: uf_inv_def)

lemma UF_union_correct:
  assumes inv: "uf_inv uf" and i: "i < uf_N uf" and j: "j < uf_N uf"
  shows "\<exists>uf'. UF_union uf i j = Some uf' \<and> uf_inv uf' \<and> uf_N uf' = uf_N uf \<and>
    (\<forall>x y. uf_same uf' x y \<longleftrightarrow>
       uf_same uf x y \<or> (uf_same uf x i \<and> uf_same uf j y) \<or> (uf_same uf x j \<and> uf_same uf i y)) \<and>
    num_clusters uf' = (if uf_same uf i j then num_clusters uf else num_clusters uf - 1)"
proof -
  let ?a = "uf_rep uf i" and ?b = "uf_rep uf j"
  from UF_find_correct [OF inv i] obtain uf1 where uf1:
    "UF_find uf i = Some (?a, uf1)" "uf_inv uf1" "uf_N uf1 = uf_N uf"
    "num_clusters uf1 = num_clusters uf" "\<And>k. k < uf_N uf \<Longrightarrow> uf_rep uf1 k = uf_rep uf k"
    by auto
  have j1: "j < uf_N uf1" using j uf1 by simp
  from UF_find_correct [OF uf1(2) j1] uf1 j obtain uf2 where uf2:
    "UF_find uf1 j = Some (?b, uf2)" "uf_inv uf2" "uf_N uf2 = uf_N uf"
    "num_clusters uf2 = num_clusters uf" "\<And>k. k < uf_N uf \<Longrightarrow> uf_rep uf2 k = uf_rep uf k"
    by auto
  have a: "?a < uf_N uf2" "uf_rep uf2 ?a = ?a"
    using uf_rep_less [OF inv i] uf_rep_idem [OF inv i] uf2 by simp_all
  have b: "?b < uf_N uf2" "uf_rep uf2 ?b = ?b"
    using uf_rep_less [OF inv j] uf_rep_idem [OF inv j] uf2 by simp_all
  show ?thesis
  proof (cases "?a = ?b")
    case True
    then have "UF_union uf i j = Some uf2" by (simp add: UF_union_def uf1 uf2)
    moreover have "uf_same uf i j" using True i j by (simp add: uf_same_def)
    moreover have "uf_same uf2 x y = uf_same uf x y" for x y
      using uf2 by (auto simp: uf_same_def)
    ultimately show ?thesis using uf2 True by (auto simp: uf_same_def)
  next
    case False
    let ?less = "cluster_sizes uf2 ! ?a < cluster_sizes uf2 ! ?b \<or>
      (cluster_sizes uf2 ! ?a = cluster_sizes uf2 ! ?b \<and> ?a > ?b)"
    define x y where "x = (if ?less then ?a else ?b)" and "y = (if ?less then ?b else ?a)"
    have xy: "uf_linkable uf2 x y"
      using a b False uf2(2) by (auto simp: x_def y_def uf_linkable_def)
    note link = uf_link_inv [OF xy] uf_link_rep [OF xy]
    have un: "UF_union uf i j = Some (uf_link uf2 x y)"
      using False by (auto simp: UF_union_def uf1 uf2 x_def y_def)
    have "uf_same (uf_link uf2 x y) k l \<longleftrightarrow>
        uf_same uf k l \<or> (uf_same uf k i \<and> uf_same uf j l) \<or> (uf_same uf k j \<and> uf_same uf i l)" for k l
    proof -
      have merge: "((if u = x then y else u) = (if v = x then y else v)) \<longleftrightarrow>
          u = v \<or> (u = ?a \<and> v = ?b) \<or> (u = ?b \<and> v = ?a)" for u v
        using False by (auto simp: x_def y_def)
      have rep: "uf_rep (uf_link uf2 x y) n = (if uf_rep uf n = x then y else uf_rep uf n)"
        if "n < uf_N uf" for n
        using that uf2(3,5) link(2) by simp
      show ?thesis
      proof (cases "k < uf_N uf \<and> l < uf_N uf")
        case True
        then show ?thesis
          using i j by (simp only: uf_same_def uf_link_simps uf2(3) rep merge) auto
      next
        case False
        then show ?thesis by (auto simp: uf_same_def uf2(3))
      qed
    qed
    with un link(1) uf2 False i j show ?thesis by (auto simp: uf_same_def)
  qed
qed


section \<open>Grouping the elements by cluster\<close>

text \<open>
  \<open>qsort\<close> is a library function: what the code relies on is that it permutes the array
  and orders it by the key. The comparison function breaks ties by the addresses of the
  slots being compared, so the order inside a cluster is not determined; every result
  below holds for any such sort.
\<close>

type_synonym key_sort = "(nat \<Rightarrow> nat) \<Rightarrow> nat list \<Rightarrow> nat list"

fun uf_find_all :: "nat list \<Rightarrow> unionfind \<Rightarrow> unionfind option" where
  "uf_find_all [] uf = Some uf"
| "uf_find_all (i # is) uf =
     (case UF_find uf i of None \<Rightarrow> None | Some (r, uf') \<Rightarrow> uf_find_all is uf')"

definition UF_ordered_by_cluster :: "key_sort \<Rightarrow> unionfind \<Rightarrow> (nat list \<times> unionfind) option" where
  "UF_ordered_by_cluster qsort uf =
     (case uf_find_all [0..<uf_N uf] uf of
        None \<Rightarrow> None
      | Some uf' \<Rightarrow> Some (qsort (\<lambda>i. clusters uf' ! i) [0..<uf_N uf'], uf'))"

text \<open>
  The loop of \<open>UF_get_collapsed_cluster_ids\<close>; its state is the structure (compressed by
  \<open>UF_find\<close>), \<open>new_ids\<close>, \<open>current_new_id\<close>, \<open>last_old_id\<close> and \<open>encountered_cluster\<close>.
\<close>

fun uf_collapse_loop ::
  "(nat \<Rightarrow> bool) option \<Rightarrow> nat list \<Rightarrow> unionfind \<Rightarrow> nat list \<Rightarrow> nat \<Rightarrow> nat \<Rightarrow> bool \<Rightarrow>
   (nat list \<times> unionfind) option" where
  "uf_collapse_loop is_in_cluster [] uf new_ids current last_id enc = Some (new_ids, uf)"
| "uf_collapse_loop is_in_cluster (j # js) uf new_ids current last_id enc =
     (if (case is_in_cluster of None \<Rightarrow> True | Some f \<Rightarrow> f j)
      then (case UF_find uf j of
              None \<Rightarrow> None
            | Some (current_old_id, uf') \<Rightarrow>
                let last_id' = (if \<not> enc then current_old_id else last_id);
                    current' = (if current_old_id \<noteq> last_id' then current + 1 else current)
                in uf_collapse_loop is_in_cluster js uf' (new_ids[j := current']) current'
                     current_old_id True)
      else uf_collapse_loop is_in_cluster js uf new_ids current last_id enc)"

definition UF_get_collapsed_cluster_ids ::
  "key_sort \<Rightarrow> unionfind \<Rightarrow> (nat \<Rightarrow> bool) option \<Rightarrow> (nat list \<times> unionfind) option" where
  "UF_get_collapsed_cluster_ids qsort uf is_in_cluster =
     (case UF_ordered_by_cluster qsort uf of
        None \<Rightarrow> None
      | Some (ordered_components, uf') \<Rightarrow>
          uf_collapse_loop is_in_cluster ordered_components uf'
            (replicate (uf_N uf') 0xFFFFFFFF) 0 0 False)"

text \<open>The documented behaviour of the sort the code calls.\<close>

locale sorts_by_key =
  fixes qsort :: "(nat \<Rightarrow> nat) \<Rightarrow> nat list \<Rightarrow> nat list"
  assumes qsort_perm: "\<And>key xs. mset (qsort key xs) = mset xs"
    and qsort_sorted: "\<And>key xs. sorted (map key (qsort key xs))"
begin

lemma qsort_set: "set (qsort key xs) = set xs"
  by (metis qsort_perm set_mset_mset)

lemma qsort_distinct: "distinct xs \<Longrightarrow> distinct (qsort key xs)"
  by (metis qsort_perm mset_eq_imp_distinct_iff)

end

interpretation stable_sort: sorts_by_key sort_key
  by unfold_locales simp_all

text \<open>After \<open>UF_find\<close> of every element each one points directly at its root.\<close>

lemma uf_path_flat: "uf_path c k m s \<Longrightarrow> m \<le> 1 \<longleftrightarrow> c ! k = s"
  by (cases rule: uf_path.cases)
    (auto dest: uf_path_from_root uf_path_root elim: uf_path_0E uf_path.cases)

lemma uf_find_all_correct:
  assumes "uf_inv uf" "set is \<subseteq> {..<uf_N uf}"
  shows "\<exists>uf'. uf_find_all is uf = Some uf' \<and> uf_inv uf' \<and> uf_N uf' = uf_N uf \<and>
    (\<forall>k < uf_N uf. uf_rep uf' k = uf_rep uf k) \<and>
    (\<forall>k < uf_N uf. k \<in> set is \<or> clusters uf ! k = uf_rep uf k \<longrightarrow> clusters uf' ! k = uf_rep uf k)"
  using assms
proof (induction "is" arbitrary: uf)
  case Nil
  then show ?case by auto
next
  case (Cons i "is" uf)
  from Cons.prems have i: "i < uf_N uf" by simp
  from UF_find_correct [OF Cons.prems(1) i] obtain uf1 where uf1:
    "UF_find uf i = Some (uf_rep uf i, uf1)" "uf_inv uf1" "uf_N uf1 = uf_N uf"
    "clusters uf1 ! i = uf_rep uf i" "\<And>k. k < uf_N uf \<Longrightarrow> uf_rep uf1 k = uf_rep uf k"
    "\<And>k m s. uf_path (clusters uf) k m s \<Longrightarrow> \<exists>m' \<le> m. uf_path (clusters uf1) k m' s"
    by auto
  have keep: "clusters uf1 ! k = uf_rep uf k"
    if k: "k < uf_N uf" "clusters uf ! k = uf_rep uf k" for k
  proof -
    obtain m where m: "uf_path (clusters uf) k m (uf_rep uf k)"
      using uf_inv_path [OF Cons.prems(1) k(1)] by blast
    with k(2) have "m \<le> 1" using uf_path_flat by blast
    moreover from uf1(6) [OF m] obtain m' where "m' \<le> m" "uf_path (clusters uf1) k m' (uf_rep uf k)"
      by blast
    ultimately show ?thesis using uf_path_flat by (meson le_trans)
  qed
  have "set is \<subseteq> {..<uf_N uf1}" using Cons.prems uf1(3) by simp
  from Cons.IH [OF uf1(2) this] uf1(3,5) obtain uf' where uf':
    "uf_find_all is uf1 = Some uf'" "uf_inv uf'" "uf_N uf' = uf_N uf"
    "\<And>k. k < uf_N uf \<Longrightarrow> uf_rep uf' k = uf_rep uf k"
    "\<And>k. k < uf_N uf \<Longrightarrow> k \<in> set is \<or> clusters uf1 ! k = uf_rep uf k \<Longrightarrow>
       clusters uf' ! k = uf_rep uf k"
    by auto
  have "clusters uf' ! k = uf_rep uf k"
    if "k < uf_N uf" "k \<in> set (i # is) \<or> clusters uf ! k = uf_rep uf k" for k
    using that uf'(5) [OF that(1)] uf1(4) keep by auto
  with uf' uf1(1) show ?case by auto
qed

lemma UF_ordered_by_cluster_correct:
  assumes "uf_inv uf" and "sorts_by_key qsort"
  shows "\<exists>xs uf'. UF_ordered_by_cluster qsort uf = Some (xs, uf') \<and> uf_inv uf' \<and>
    uf_N uf' = uf_N uf \<and> (\<forall>k < uf_N uf. uf_rep uf' k = uf_rep uf k) \<and>
    distinct xs \<and> set xs = {..<uf_N uf} \<and> sorted (map (uf_rep uf) xs)"
proof -
  have "set [0..<uf_N uf] \<subseteq> {..<uf_N uf}" by auto
  from uf_find_all_correct [OF assms(1) this] obtain uf' where uf':
    "uf_find_all [0..<uf_N uf] uf = Some uf'" "uf_inv uf'" "uf_N uf' = uf_N uf"
    "\<And>k. k < uf_N uf \<Longrightarrow> uf_rep uf' k = uf_rep uf k"
    "\<And>k. k < uf_N uf \<Longrightarrow> clusters uf' ! k = uf_rep uf k"
    by auto
  let ?xs = "qsort (\<lambda>i. clusters uf' ! i) [0..<uf_N uf]"
  note qs = sorts_by_key.qsort_set [OF assms(2)] sorts_by_key.qsort_distinct [OF assms(2)]
    sorts_by_key.qsort_sorted [OF assms(2)]
  have set: "set ?xs = {..<uf_N uf}" by (auto simp: qs(1))
  have "map (\<lambda>i. clusters uf' ! i) ?xs = map (uf_rep uf) ?xs"
    using set uf'(5) by auto
  with qs(3) [of "\<lambda>i. clusters uf' ! i" "[0..<uf_N uf]"] have "sorted (map (uf_rep uf) ?xs)"
    by simp
  with uf' set qs(2) show ?thesis
    by (intro exI [of _ ?xs] exI [of _ uf']) (simp add: UF_ordered_by_cluster_def)
qed

section \<open>Collapsed cluster numbers\<close>

text \<open>The number an element gets: how many included clusters have a smaller root.\<close>

definition uf_rank :: "unionfind \<Rightarrow> nat set \<Rightarrow> nat \<Rightarrow> nat" where
  "uf_rank uf P k = card {x \<in> uf_rep uf ` P. x < uf_rep uf k}"

lemma uf_rank_insert_greatest:
  assumes "\<forall>k \<in> P. uf_rep uf k \<le> uf_rep uf j" "k \<in> insert j P"
  shows "uf_rank uf (insert j P) k = uf_rank uf P k"
proof -
  have "{x \<in> uf_rep uf ` insert j P. x < uf_rep uf k} = {x \<in> uf_rep uf ` P. x < uf_rep uf k}"
    using assms by auto
  then show ?thesis by (simp add: uf_rank_def)
qed

lemma uf_rank_top:
  assumes "finite P" "j \<in> P" "\<forall>k \<in> P. uf_rep uf k \<le> uf_rep uf j"
  shows "uf_rank uf P j = card (uf_rep uf ` P) - 1"
proof -
  have "{x \<in> uf_rep uf ` P. x < uf_rep uf j} = uf_rep uf ` P - {uf_rep uf j}"
    using assms(3) by force
  with assms(1,2) show ?thesis by (simp add: uf_rank_def card_Diff_singleton)
qed

lemma uf_rank_less:
  assumes "finite P" "j \<in> P" "uf_rep uf j < uf_rep uf k"
  shows "uf_rank uf P j < uf_rank uf P k"
  unfolding uf_rank_def using assms by (intro psubset_card_mono) auto

lemma uf_rank_eq_iff:
  assumes "finite P" "j \<in> P" "k \<in> P"
  shows "uf_rank uf P j = uf_rank uf P k \<longleftrightarrow> uf_rep uf j = uf_rep uf k"
  using uf_rank_less [OF assms(1,2), of uf k] uf_rank_less [OF assms(1,3), of uf j]
  by (metis less_irrefl linorder_neqE_nat uf_rank_def)

lemma uf_rank_less_card:
  assumes "finite P" "k \<in> P"
  shows "uf_rank uf P k < card (uf_rep uf ` P)"
  unfolding uf_rank_def using assms by (intro psubset_card_mono) auto

lemma uf_rank_image:
  assumes "finite P"
  shows "uf_rank uf P ` P = {..<card (uf_rep uf ` P)}"
proof (rule card_subset_eq)
  show "finite {..<card (uf_rep uf ` P)}" by simp
  show "uf_rank uf P ` P \<subseteq> {..<card (uf_rep uf ` P)}"
    using uf_rank_less_card [OF assms] by auto
  have "card (uf_rank uf P ` P) = card (uf_rep uf ` P)"
  proof (rule bij_betw_same_card)
    let ?g = "\<lambda>x. card {y \<in> uf_rep uf ` P. y < x}"
    have "uf_rank uf P ` P = ?g ` (uf_rep uf ` P)"
      by (auto simp: uf_rank_def image_iff)
    moreover have "inj_on ?g (uf_rep uf ` P)"
      using uf_rank_eq_iff [OF assms] by (auto simp: inj_on_def uf_rank_def)
    ultimately show "bij_betw (inv_into (uf_rep uf ` P) ?g) (uf_rank uf P ` P) (uf_rep uf ` P)"
      by (metis bij_betw_inv_into inj_on_imp_bij_betw)
  qed
  then show "card (uf_rank uf P ` P) = card {..<card (uf_rep uf ` P)}" by simp
qed

lemma uf_collapse_loop_correct:
  assumes "uf_inv uf'" "uf_N uf' = uf_N uf" "\<forall>k < uf_N uf. uf_rep uf' k = uf_rep uf k"
    and "set js \<subseteq> {..<uf_N uf}" "sorted (map (uf_rep uf) js)" "distinct js" "set js \<inter> P = {}"
    and "finite P" "\<forall>k \<in> P. \<forall>j \<in> set js. uf_rep uf k \<le> uf_rep uf j"
    and "length ids = uf_N uf" "\<forall>k \<in> P. k < uf_N uf \<and> ids ! k = uf_rank uf P k"
    and "enc \<longleftrightarrow> P \<noteq> {}"
    and "enc \<Longrightarrow> last_id = Max (uf_rep uf ` P) \<and> current = card (uf_rep uf ` P) - 1"
    and "\<not> enc \<Longrightarrow> current = 0"
    and inc: "included = (\<lambda>j. case is_in of None \<Rightarrow> True | Some f \<Rightarrow> f j)"
  shows "\<exists>ids' uf''. uf_collapse_loop is_in js uf' ids current last_id enc = Some (ids', uf'') \<and>
    length ids' = uf_N uf \<and>
    (\<forall>k \<in> P \<union> {j \<in> set js. included j}. ids' ! k = uf_rank uf (P \<union> {j \<in> set js. included j}) k) \<and>
    (\<forall>k. k \<notin> P \<union> {j \<in> set js. included j} \<longrightarrow> ids' ! k = ids ! k)"
  using assms(1-14)
proof (induction js arbitrary: uf' ids current last_id enc P)
  case Nil
  then show ?case by simp
next
  case (Cons j js)
  have j: "j < uf_N uf'" using Cons.prems by simp
  show ?case
  proof (cases "included j")
    case False
    have sets: "{x \<in> set (j # js). included x} = {x \<in> set js. included x}" using False by auto
    have "uf_collapse_loop is_in (j # js) uf' ids current last_id enc =
        uf_collapse_loop is_in js uf' ids current last_id enc"
      using False by (simp add: inc)
    with Cons.IH [of uf' P ids enc last_id current] Cons.prems show ?thesis
      unfolding sets by simp
  next
    case True
    from UF_find_correct [OF Cons.prems(1) j] obtain uf1 where uf1:
      "UF_find uf' j = Some (uf_rep uf j, uf1)" "uf_inv uf1" "uf_N uf1 = uf_N uf"
      "\<forall>k < uf_N uf. uf_rep uf1 k = uf_rep uf k"
      using Cons.prems(2,3) j by auto
    let ?P = "insert j P"
    let ?cur = "if \<not> enc then 0 else if uf_rep uf j \<noteq> last_id then current + 1 else current"
    have step: "uf_collapse_loop is_in (j # js) uf' ids current last_id enc =
        uf_collapse_loop is_in js uf1 (ids[j := ?cur]) ?cur (uf_rep uf j) True"
      using True uf1(1) Cons.prems(14) by (simp add: inc Let_def)
    have top: "\<forall>k \<in> P. uf_rep uf k \<le> uf_rep uf j" using Cons.prems(9) by simp
    have max: "Max (uf_rep uf ` ?P) = uf_rep uf j"
      using Cons.prems(8) top by (intro Max_eqI) auto
    have cur: "?cur = card (uf_rep uf ` ?P) - 1"
    proof (cases "P = {}")
      case True
      then show ?thesis using Cons.prems(12) by simp
    next
      case False
      then have enc: enc and l: "last_id = Max (uf_rep uf ` P)" "current = card (uf_rep uf ` P) - 1"
        using Cons.prems(12,13) by auto
      have pos: "0 < card (uf_rep uf ` P)" using False Cons.prems(8) by (simp add: card_gt_0_iff)
      have fin: "finite (uf_rep uf ` P)" using Cons.prems(8) by simp
      have mem: "uf_rep uf j \<in> uf_rep uf ` P \<longleftrightarrow> uf_rep uf j = last_id"
      proof
        assume "uf_rep uf j \<in> uf_rep uf ` P"
        then show "uf_rep uf j = last_id"
          unfolding l(1) using top fin by (intro Max_eqI [symmetric]) auto
      next
        assume "uf_rep uf j = last_id"
        then show "uf_rep uf j \<in> uf_rep uf ` P"
          unfolding l(1) using Max_in [OF fin] False by simp
      qed
      show ?thesis
        using enc l(2) mem pos fin by (simp add: card_insert_if)
    qed
    have rank_j: "uf_rank uf ?P j = ?cur"
      using uf_rank_top [of ?P j uf] Cons.prems(8) top cur by auto
    have ids: "\<forall>k \<in> ?P. k < uf_N uf \<and> ids[j := ?cur] ! k = uf_rank uf ?P k"
    proof
      fix k assume k: "k \<in> ?P"
      show "k < uf_N uf \<and> ids[j := ?cur] ! k = uf_rank uf ?P k"
      proof (cases "k = j")
        case True
        then show ?thesis using rank_j j Cons.prems(2,10) by simp
      next
        case False
        then show ?thesis
          using k Cons.prems(11) uf_rank_insert_greatest [OF top k] by auto
      qed
    qed
    have "\<exists>ids' uf''. uf_collapse_loop is_in js uf1 (ids[j := ?cur]) ?cur (uf_rep uf j) True =
          Some (ids', uf'') \<and> length ids' = uf_N uf \<and>
        (\<forall>k \<in> ?P \<union> {j \<in> set js. included j}. ids' ! k = uf_rank uf (?P \<union> {j \<in> set js. included j}) k) \<and>
        (\<forall>k. k \<notin> ?P \<union> {j \<in> set js. included j} \<longrightarrow> ids' ! k = ids[j := ?cur] ! k)"
    proof (rule Cons.IH)
      show "\<forall>k \<in> ?P. \<forall>i \<in> set js. uf_rep uf k \<le> uf_rep uf i"
        using Cons.prems(5,9) by auto
    qed (use uf1 Cons.prems ids max cur in auto)
    then obtain ids' uf'' where r:
      "uf_collapse_loop is_in js uf1 (ids[j := ?cur]) ?cur (uf_rep uf j) True = Some (ids', uf'')"
      "length ids' = uf_N uf"
      "\<forall>k \<in> ?P \<union> {j \<in> set js. included j}. ids' ! k = uf_rank uf (?P \<union> {j \<in> set js. included j}) k"
      "\<forall>k. k \<notin> ?P \<union> {j \<in> set js. included j} \<longrightarrow> ids' ! k = ids[j := ?cur] ! k"
      by blast
    have S: "?P \<union> {x \<in> set js. included x} = P \<union> {x \<in> set (j # js). included x}"
      using True by auto
    have "ids' ! k = ids ! k" if "k \<notin> P \<union> {x \<in> set (j # js). included x}" for k
    proof -
      have "k \<noteq> j" using that True by auto
      with r(4) that show ?thesis unfolding S by simp
    qed
    with r(1,2) r(3) [unfolded S] show ?thesis unfolding step by blast
  qed
qed


section \<open>The interface clustering relies on\<close>

text \<open>
  A client unites pairs of elements one after the other and then asks which elements are
  together. Whatever the structure, uniting a list of pairs yields the connected
  components of the graph whose edges are the pairs.
\<close>

fun unite_all :: "('s \<Rightarrow> nat \<Rightarrow> nat \<Rightarrow> 's option) \<Rightarrow> (nat \<times> nat) list \<Rightarrow> 's \<Rightarrow> 's option" where
  "unite_all unite [] s = Some s"
| "unite_all unite ((i, j) # ps) s =
     (case unite s i j of None \<Rightarrow> None | Some s' \<Rightarrow> unite_all unite ps s')"

locale partition_structure =
  fixes valid :: "'s \<Rightarrow> bool"
    and carrier :: "'s \<Rightarrow> nat"
    and same :: "'s \<Rightarrow> nat \<Rightarrow> nat \<Rightarrow> bool"
    and unite :: "'s \<Rightarrow> nat \<Rightarrow> nat \<Rightarrow> 's option"
  assumes same_refl: "valid s \<Longrightarrow> i < carrier s \<Longrightarrow> same s i i"
    and same_sym: "same s i j \<Longrightarrow> same s j i"
    and same_trans: "same s i j \<Longrightarrow> same s j k \<Longrightarrow> same s i k"
    and same_bound: "same s i j \<Longrightarrow> i < carrier s"
    and unite_same: "valid s \<Longrightarrow> i < carrier s \<Longrightarrow> j < carrier s \<Longrightarrow>
      \<exists>s'. unite s i j = Some s' \<and> valid s' \<and> carrier s' = carrier s \<and>
        (\<forall>x y. same s' x y \<longleftrightarrow>
           same s x y \<or> (same s x i \<and> same s j y) \<or> (same s x j \<and> same s i y))"
begin

definition rel :: "'s \<Rightarrow> (nat \<times> nat) set" where
  "rel s = {(x, y). same s x y}"

lemma rel_rtrancl:
  assumes "valid s" "x < carrier s"
  shows "(x, y) \<in> (rel s)\<^sup>* \<longleftrightarrow> same s x y"
proof
  show "same s x y" if "(x, y) \<in> (rel s)\<^sup>*"
    using that by (induction rule: rtrancl_induct) (auto simp: rel_def same_refl assms intro: same_trans)
  show "(x, y) \<in> (rel s)\<^sup>*" if "same s x y" using that by (auto simp: rel_def)
qed

lemma unite_rel:
  assumes s: "valid s" "i < carrier s" "j < carrier s" and u: "unite s i j = Some s'"
  shows "(rel s' \<union> R)\<^sup>* = (rel s \<union> ({(i, j), (j, i)} \<union> R))\<^sup>*"
proof (rule rtrancl_subset)
  have same': "same s' x y \<longleftrightarrow>
      same s x y \<or> (same s x i \<and> same s j y) \<or> (same s x j \<and> same s i y)" for x y
    using unite_same [OF s] u by auto
  let ?T = "rel s \<union> ({(i, j), (j, i)} \<union> R)"
  show "rel s \<union> ({(i, j), (j, i)} \<union> R) \<subseteq> (rel s' \<union> R)"
    using same_refl [OF s(1,2)] same_refl [OF s(1,3)] by (auto simp: rel_def same')
  have "(x, y) \<in> ?T\<^sup>*" if "same s' x y" for x y
  proof -
    have edge: "(a, b) \<in> ?T\<^sup>*" if "same s a b" for a b using that by (auto simp: rel_def)
    have ij: "(i, j) \<in> ?T\<^sup>*" "(j, i) \<in> ?T\<^sup>*" by auto
    from that consider "same s x y" | "same s x i" "same s j y" | "same s x j" "same s i y"
      by (auto simp: same')
    then show ?thesis
    proof cases
      case 1
      then show ?thesis by (rule edge)
    next
      case 2
      from edge [OF 2(1)] ij(1) edge [OF 2(2)] show ?thesis by (meson rtrancl_trans)
    next
      case 3
      from edge [OF 3(1)] ij(2) edge [OF 3(2)] show ?thesis by (meson rtrancl_trans)
    qed
  qed
  then show "rel s' \<union> R \<subseteq> ?T\<^sup>*" by (auto simp: rel_def)
qed

lemma unite_all_connected:
  assumes "valid s" "\<forall>(i, j) \<in> set ps. i < carrier s \<and> j < carrier s"
  shows "\<exists>s'. unite_all unite ps s = Some s' \<and> valid s' \<and> carrier s' = carrier s \<and>
    (\<forall>x < carrier s. \<forall>y. same s' x y \<longleftrightarrow> (x, y) \<in> (rel s \<union> (set ps \<union> (set ps)\<inverse>))\<^sup>*)"
  using assms
proof (induction ps arbitrary: s)
  case Nil
  then show ?case by (auto simp: rel_rtrancl)
next
  case (Cons p ps)
  obtain i j where p: "p = (i, j)" by (cases p)
  from Cons.prems p have ij: "i < carrier s" "j < carrier s" by auto
  from unite_same [OF Cons.prems(1) ij] obtain s1 where s1:
    "unite s i j = Some s1" "valid s1" "carrier s1 = carrier s" by auto
  from Cons.IH [OF s1(2)] Cons.prems s1(3) obtain s' where s':
    "unite_all unite ps s1 = Some s'" "valid s'" "carrier s' = carrier s"
    "\<forall>x < carrier s. \<forall>y. same s' x y \<longleftrightarrow> (x, y) \<in> (rel s1 \<union> (set ps \<union> (set ps)\<inverse>))\<^sup>*"
    by auto
  have "set (p # ps) \<union> (set (p # ps))\<inverse> = {(i, j), (j, i)} \<union> (set ps \<union> (set ps)\<inverse>)"
    using p by auto
  with unite_rel [OF Cons.prems(1) ij s1(1)] s' p s1(1) show ?case by simp
qed

end

interpretation union_find: partition_structure uf_inv uf_N uf_same UF_union
proof
  fix s i j
  assume "uf_inv s" "i < uf_N s" "j < uf_N s"
  from UF_union_correct [OF this]
  show "\<exists>s'. UF_union s i j = Some s' \<and> uf_inv s' \<and> uf_N s' = uf_N s \<and>
      (\<forall>x y. uf_same s' x y \<longleftrightarrow>
         uf_same s x y \<or> (uf_same s x i \<and> uf_same s j y) \<or> (uf_same s x j \<and> uf_same s i y))"
    by blast
qed (auto simp: uf_same_def)

section \<open>Properties\<close>

text \<open>
  C31. \<open>UF_find\<close> returns on every element of a well-formed structure, with the
  representative of the element's cluster; it keeps the structure well formed and every
  cluster, and leaves the element pointing at its representative.
\<close>

theorem UF_find_total:
  assumes "uf_inv uf" and "i < uf_N uf"
  shows "\<exists>uf'. UF_find uf i = Some (uf_rep uf i, uf') \<and> uf_inv uf' \<and>
    clusters uf' ! i = uf_rep uf i \<and> (\<forall>x y. uf_same uf' x y \<longleftrightarrow> uf_same uf x y)"
  using UF_find_correct [OF assms] by (auto simp: uf_same_def)

theorem UF_find_total_witness:
  "\<exists>uf'. UF_find (UF_create 3) 1 = Some (1, uf') \<and> uf_inv uf' \<and> clusters uf' ! 1 = 1"
  using UF_find_total [OF UF_create_inv, of 1 3] by (auto simp: UF_create_rep)

text \<open>
  \<open>UF_union\<close> returns, keeps the structure well formed and joins exactly the clusters
  of its two arguments; \<open>num_clusters\<close> goes down by one when they were different.
\<close>

theorem UF_union_joins:
  assumes "uf_inv uf" and "i < uf_N uf" and "j < uf_N uf"
  shows "\<exists>uf'. UF_union uf i j = Some uf' \<and> uf_inv uf' \<and> uf_N uf' = uf_N uf \<and>
    (\<forall>x y. uf_same uf' x y \<longleftrightarrow>
       uf_same uf x y \<or> (uf_same uf x i \<and> uf_same uf j y) \<or> (uf_same uf x j \<and> uf_same uf i y)) \<and>
    num_clusters uf' = (if uf_same uf i j then num_clusters uf else num_clusters uf - 1)"
  using UF_union_correct [OF assms] .

theorem UF_union_joins_witness:
  "\<exists>uf'. UF_union (UF_create 4) 0 2 = Some uf' \<and> uf_inv uf' \<and> uf_same uf' 2 0 \<and>
    \<not> uf_same uf' 0 1 \<and> num_clusters uf' = 3"
  using UF_union_joins [OF UF_create_inv, of 0 4 2] by (auto simp: UF_create_same)

text \<open>
  C16. Uniting a list of pairs of elements, starting from a fresh structure, never fails and
  leaves two elements in the same cluster exactly when a chain of pairs connects them.
\<close>

theorem UF_union_components:
  assumes "\<forall>(i, j) \<in> set ps. i < N \<and> j < N" and "x < N"
  shows "\<exists>uf. unite_all UF_union ps (UF_create N) = Some uf \<and> uf_inv uf \<and>
    (uf_same uf x y \<longleftrightarrow> (x, y) \<in> (set ps \<union> (set ps)\<inverse>)\<^sup>*)"
proof -
  have "union_find.rel (UF_create N) \<subseteq> Id"
    by (auto simp: union_find.rel_def UF_create_same)
  then have "(union_find.rel (UF_create N) \<union> R)\<^sup>* = R\<^sup>*" for R
    by (intro rtrancl_subset [symmetric, THEN sym]) auto
  then show ?thesis
    using union_find.unite_all_connected [OF UF_create_inv, of ps N] assms by auto
qed

theorem UF_union_components_witness:
  "\<exists>uf. unite_all UF_union [(0, 1), (3, 1)] (UF_create 4) = Some uf \<and> uf_same uf 0 3"
proof -
  have "(0, 3) \<in> (set [(0, 1), (3, 1)] \<union> (set [(0, 1), (3, 1)])\<inverse> :: (nat \<times> nat) set)\<^sup>*"
    by (rule converse_rtrancl_into_rtrancl [of 0 1]) auto
  then show ?thesis
    using UF_union_components [of "[(0, 1), (3, 1)]" 4 0 3] by auto
qed

text \<open>
  C30. Path lengths: from any element of a well-formed structure the loop of \<open>UF_find\<close>
  follows \<open>n\<close> links to the root with \<open>2 ^ n\<close> at most the size of the cluster, so at most
  \<open>log2 N\<close> links; and the size \<open>UF_size\<close> returns is the number of elements of the cluster.
\<close>

theorem UF_depth_and_size:
  assumes "uf_inv uf" and "i < uf_N uf"
  shows "\<exists>n uf'. uf_path (clusters uf) i n (uf_rep uf i) \<and> 2 ^ n \<le> uf_N uf \<and>
    UF_size uf i = Some (card {x. uf_same uf x i}, uf') \<and> uf_inv uf'"
proof -
  obtain n where n: "uf_path (clusters uf) i n (uf_rep uf i)"
    "2 ^ n \<le> cluster_sizes uf ! uf_rep uf i"
    using uf_inv_path [OF assms] by blast
  have "uf_class uf (uf_rep uf i) \<subseteq> {..<uf_N uf}" by (auto simp: uf_class_def)
  then have "card (uf_class uf (uf_rep uf i)) \<le> uf_N uf"
    by (metis card_lessThan card_mono finite_lessThan)
  with n(2) uf_invD(4) [OF assms(1)] uf_rep_less [OF assms] have "2 ^ n \<le> uf_N uf" by simp
  moreover have "uf_class uf (uf_rep uf i) = {x. uf_same uf x i}"
    using assms(2) by (auto simp: uf_class_def uf_same_def)
  ultimately show ?thesis using n(1) UF_size_correct [OF assms] by auto
qed

theorem UF_depth_and_size_witness:
  "\<exists>uf'. UF_size (UF_create 5) 2 = Some (1, uf') \<and> uf_inv uf'"
proof -
  have "{x. uf_same (UF_create 5) x 2} = {2}" by (auto simp: UF_create_same)
  then show ?thesis using UF_depth_and_size [OF UF_create_inv, of 2 5] by auto
qed

text \<open>
  C32. Collapsed cluster numbers: two included elements get the same number exactly when
  they are in the same cluster, the numbers used are 0, 1, and so on without a gap up to
  the number of clusters with an included element, and the elements that are not included
  keep \<open>0xFFFFFFFF\<close>. This holds for every sort that permutes and orders by key.
\<close>

theorem UF_collapsed_ids_correct:
  assumes "uf_inv uf" and "sorts_by_key qsort"
    and inc: "included = {j. j < uf_N uf \<and> (case is_in of None \<Rightarrow> True | Some f \<Rightarrow> f j)}"
  shows "\<exists>ids uf'. UF_get_collapsed_cluster_ids qsort uf is_in = Some (ids, uf') \<and>
    length ids = uf_N uf \<and>
    (\<forall>j \<in> included. \<forall>k \<in> included. ids ! j = ids ! k \<longleftrightarrow> uf_same uf j k) \<and>
    (\<lambda>k. ids ! k) ` included = {..<card (uf_rep uf ` included)} \<and>
    (\<forall>k < uf_N uf. k \<notin> included \<longrightarrow> ids ! k = 0xFFFFFFFF)"
proof -
  from UF_ordered_by_cluster_correct [OF assms(1,2)] obtain xs uf' where xs:
    "UF_ordered_by_cluster qsort uf = Some (xs, uf')" "uf_inv uf'" "uf_N uf' = uf_N uf"
    "\<forall>k < uf_N uf. uf_rep uf' k = uf_rep uf k"
    "distinct xs" "set xs = {..<uf_N uf}" "sorted (map (uf_rep uf) xs)"
    by auto
  let ?inc = "\<lambda>j. case is_in of None \<Rightarrow> True | Some f \<Rightarrow> f j"
  have set: "{j \<in> set xs. ?inc j} = included" by (auto simp: xs(6) inc)
  have "\<exists>ids uf''. uf_collapse_loop is_in xs uf' (replicate (uf_N uf) 0xFFFFFFFF) 0 0 False =
      Some (ids, uf'') \<and> length ids = uf_N uf \<and>
      (\<forall>k \<in> {} \<union> {j \<in> set xs. ?inc j}. ids ! k = uf_rank uf ({} \<union> {j \<in> set xs. ?inc j}) k) \<and>
      (\<forall>k. k \<notin> {} \<union> {j \<in> set xs. ?inc j} \<longrightarrow> ids ! k = replicate (uf_N uf) 0xFFFFFFFF ! k)"
    by (rule uf_collapse_loop_correct) (use xs in auto)
  then obtain ids uf'' where ids:
    "uf_collapse_loop is_in xs uf' (replicate (uf_N uf) 0xFFFFFFFF) 0 0 False = Some (ids, uf'')"
    "length ids = uf_N uf"
    "\<And>k. k \<in> included \<Longrightarrow> ids ! k = uf_rank uf included k"
    "\<And>k. k \<notin> included \<Longrightarrow> ids ! k = replicate (uf_N uf) 0xFFFFFFFF ! k"
    by (auto simp: set)
  have fin: "finite included" by (simp add: inc)
  have run: "UF_get_collapsed_cluster_ids qsort uf is_in = Some (ids, uf'')"
    by (simp add: UF_get_collapsed_cluster_ids_def xs(1,3) ids(1))
  have "ids ! j = ids ! k \<longleftrightarrow> uf_same uf j k" if "j \<in> included" "k \<in> included" for j k
    using that ids(3) uf_rank_eq_iff [OF fin that] by (auto simp: uf_same_def inc)
  moreover have "(\<lambda>k. ids ! k) ` included = {..<card (uf_rep uf ` included)}"
    using ids(3) uf_rank_image [OF fin, of uf] by simp
  ultimately show ?thesis using run ids(2,4) by auto
qed

theorem UF_collapsed_ids_correct_witness:
  "\<exists>ids uf'. UF_get_collapsed_cluster_ids sort_key (UF_create 3) (Some (\<lambda>j. j \<noteq> 1)) = Some (ids, uf') \<and>
    ids ! 0 \<noteq> ids ! 2 \<and> ids ! 1 = 0xFFFFFFFF"
  using UF_collapsed_ids_correct [OF UF_create_inv stable_sort.sorts_by_key_axioms refl,
      of 3 "Some (\<lambda>j. j \<noteq> 1)"]
  by (auto simp: UF_create_same)

end
