(* ===== verification/IEEE754.thy ===== *)
theory IEEE754
  imports Prelude
begin

text \<open>
  The double precision numbers of C as 64-bit patterns: the classification and the
  comparisons the library uses, and the correctly rounded quotient of two small counts.

  A pattern is a sign bit above a magnitude; magnitudes order the numbers of one sign,
  zero and the infinities included, so a comparison of two numbers is the comparison of
  their signed magnitudes and both zeros are the number 0.
\<close>

definition dbl_mag :: "double \<Rightarrow> nat" where
  "dbl_mag d = unat (take_bit 63 d)"

definition dbl_neg :: "double \<Rightarrow> bool" where
  "dbl_neg d \<longleftrightarrow> bit d 63"

text \<open>The magnitude of infinity; the magnitudes above it are the NaNs.\<close>

abbreviation dbl_inf_mag :: nat where
  "dbl_inf_mag \<equiv> 0x7FF0000000000000"

definition dbl_isnan :: "double \<Rightarrow> bool" where
  "dbl_isnan d \<longleftrightarrow> dbl_inf_mag < dbl_mag d"

definition dbl_isfinite :: "double \<Rightarrow> bool" where
  "dbl_isfinite d \<longleftrightarrow> dbl_mag d < dbl_inf_mag"

definition dbl_ord :: "double \<Rightarrow> int" where
  "dbl_ord d = (if dbl_neg d then - int (dbl_mag d) else int (dbl_mag d))"

definition dbl_lt :: "double \<Rightarrow> double \<Rightarrow> bool" where
  "dbl_lt a b \<longleftrightarrow> \<not> dbl_isnan a \<and> \<not> dbl_isnan b \<and> dbl_ord a < dbl_ord b"

definition dbl_le :: "double \<Rightarrow> double \<Rightarrow> bool" where
  "dbl_le a b \<longleftrightarrow> \<not> dbl_isnan a \<and> \<not> dbl_isnan b \<and> dbl_ord a \<le> dbl_ord b"

definition dbl_eq :: "double \<Rightarrow> double \<Rightarrow> bool" where
  "dbl_eq a b \<longleftrightarrow> \<not> dbl_isnan a \<and> \<not> dbl_isnan b \<and> dbl_ord a = dbl_ord b"

abbreviation dbl_zero :: double where "dbl_zero \<equiv> 0"
abbreviation dbl_one :: double where "dbl_one \<equiv> 0x3FF0000000000000"
abbreviation dbl_nan :: double where "dbl_nan \<equiv> 0x7FF8000000000000"

section \<open>The comparisons\<close>

lemma dbl_le_refl: "\<not> dbl_isnan a \<Longrightarrow> dbl_le a a"
  by (simp add: dbl_le_def)

lemma dbl_le_trans: "dbl_le a b \<Longrightarrow> dbl_le b c \<Longrightarrow> dbl_le a c"
  by (auto simp: dbl_le_def)

lemma dbl_lt_le_trans: "dbl_lt a b \<Longrightarrow> dbl_le b c \<Longrightarrow> dbl_lt a c"
  by (auto simp: dbl_le_def dbl_lt_def)

lemma dbl_le_lt_trans: "dbl_le a b \<Longrightarrow> dbl_lt b c \<Longrightarrow> dbl_lt a c"
  by (auto simp: dbl_le_def dbl_lt_def)

lemma dbl_lt_irrefl [simp]: "\<not> dbl_lt a a"
  by (simp add: dbl_lt_def)

lemma dbl_lt_trans: "dbl_lt a b \<Longrightarrow> dbl_lt b c \<Longrightarrow> dbl_lt a c"
  by (auto simp: dbl_lt_def)

lemma dbl_le_antisym: "dbl_le a b \<Longrightarrow> dbl_le b a \<Longrightarrow> dbl_eq a b"
  by (auto simp: dbl_le_def dbl_eq_def)

lemma dbl_not_le: "\<not> dbl_isnan a \<Longrightarrow> \<not> dbl_isnan b \<Longrightarrow> \<not> dbl_le a b \<longleftrightarrow> dbl_lt b a"
  by (auto simp: dbl_le_def dbl_lt_def)

lemma dbl_not_lt: "\<not> dbl_isnan a \<Longrightarrow> \<not> dbl_isnan b \<Longrightarrow> \<not> dbl_lt a b \<longleftrightarrow> dbl_le b a"
  by (auto simp: dbl_le_def dbl_lt_def)

lemma dbl_lt_imp_le: "dbl_lt a b \<Longrightarrow> dbl_le a b"
  by (auto simp: dbl_le_def dbl_lt_def)

lemma dbl_isfinite_not_nan: "dbl_isfinite d \<Longrightarrow> \<not> dbl_isnan d"
  by (simp add: dbl_isfinite_def dbl_isnan_def)

lemma dbl_nan_isnan [simp]: "dbl_isnan dbl_nan"
  by (simp add: dbl_isnan_def dbl_mag_def unsigned_take_bit_eq take_bit_eq_mod)

lemma dbl_one_props [simp]: "dbl_isfinite dbl_one" "\<not> dbl_isnan dbl_one" "\<not> dbl_le dbl_one 0"
  by (simp_all add: dbl_isfinite_def dbl_isnan_def dbl_le_def dbl_ord_def dbl_neg_def dbl_mag_def
      unsigned_take_bit_eq take_bit_eq_mod)

lemma dbl_zero_props [simp]: "dbl_isfinite 0" "\<not> dbl_isnan 0" "dbl_mag 0 = 0" "dbl_ord 0 = 0"
  by (simp_all add: dbl_isfinite_def dbl_isnan_def dbl_ord_def dbl_neg_def dbl_mag_def)

text \<open>A pattern is its sign and its magnitude.\<close>

lemma dbl_mag_neg_inject: "dbl_mag a = dbl_mag b \<Longrightarrow> dbl_neg a = dbl_neg b \<Longrightarrow> a = b"
proof -
  assume "dbl_mag a = dbl_mag b" and neg: "dbl_neg a = dbl_neg b"
  then have low: "take_bit 63 a = take_bit 63 b" by (simp add: dbl_mag_def word_unat_eq_iff)
  have "bit a n = bit b n" if "n < 64" for n
  proof (cases "n < 63")
    case True
    with low show ?thesis by (metis bit_take_bit_iff)
  next
    case False
    with that have "n = 63" by simp
    with neg show ?thesis by (simp add: dbl_neg_def)
  qed
  then show "a = b" by (intro bit_word_eqI) simp
qed

lemma dbl_eq_one [simp]: "dbl_eq w dbl_one \<longleftrightarrow> w = dbl_one"
proof
  have one: "dbl_mag dbl_one = 0x3FF0000000000000" "\<not> dbl_neg dbl_one"
    by (simp_all add: dbl_mag_def dbl_neg_def unsigned_take_bit_eq take_bit_eq_mod)
  show "w = dbl_one" if "dbl_eq w dbl_one"
    using that one by (intro dbl_mag_neg_inject) (auto simp: dbl_eq_def dbl_ord_def split: if_splits)
  show "dbl_eq w dbl_one" if "w = dbl_one" using that by (simp add: dbl_eq_def)
qed

section \<open>The quotient of two counts\<close>

text \<open>
  \<open>(double) p / q\<close> for \<open>0 < p \<le> q\<close>: the significand has 53 bits, \<open>e\<close> is the least shift that
  brings \<open>p * 2 ^ e / q\<close> to \<open>2 ^ 52\<close>, and the quotient is rounded to nearest with ties to the
  even significand. A significand that rounds up to \<open>2 ^ 53\<close> carries into the exponent
  field by itself because the two fields are adjacent.
\<close>

definition round_quot :: "nat \<Rightarrow> nat \<Rightarrow> nat" where
  "round_quot p q =
     (let m = p div q; r = p mod q in
      if 2 * r < q then m else if q < 2 * r then m + 1 else if even m then m else m + 1)"

fun norm_shift :: "nat \<Rightarrow> nat \<Rightarrow> nat \<Rightarrow> nat" where
  "norm_shift 0 p q = 0"
| "norm_shift (Suc n) p q = (if q \<le> p then 0 else Suc (norm_shift n (2 * p) q))"

definition dbl_quot :: "nat \<Rightarrow> nat \<Rightarrow> double" where
  "dbl_quot p q =
     (let s = norm_shift 64 p q; m = round_quot (p * 2 ^ (52 + s)) q
      in of_nat ((1022 - s) * 2 ^ 52 + m))"

lemma norm_shift_numeral:
  "norm_shift (numeral n) p q = (if q \<le> p then 0 else Suc (norm_shift (pred_numeral n) (2 * p) q))"
  by (simp add: numeral_eq_Suc)

lemma dbl_quot_examples:
  "dbl_quot 1 2 = 0x3FE0000000000000" "dbl_quot 1 3 = 0x3FD5555555555555"
  "dbl_quot 2 3 = 0x3FE5555555555555" "dbl_quot 1 10 = 0x3FB999999999999A"
  "dbl_quot 1 1 = dbl_one"
  by (simp_all add: dbl_quot_def round_quot_def norm_shift_numeral)

end
