(* ===== verification/Float32.thy ===== *)
theory Float32
  imports IEEE754
begin

text \<open>
  Single precision numbers, in which boxes are stored and indexed: the conversions between
  \<open>float\<close> and \<open>double\<close>, and the roundings towards minus and plus infinity of
  lwgeom_api.c. The main result is that these roundings are the best ones: the greatest
  float below and the least float above.
\<close>

section \<open>Patterns\<close>

definition flt_mag :: "float32 \<Rightarrow> nat" where
  "flt_mag f = unat (take_bit 31 f)"

definition flt_neg :: "float32 \<Rightarrow> bool" where
  "flt_neg f \<longleftrightarrow> bit f 31"

definition flt_pack :: "bool \<Rightarrow> nat \<Rightarrow> float32" where
  "flt_pack s m = of_nat ((if s then 2 ^ 31 else 0) + m)"

definition dbl_pack :: "bool \<Rightarrow> nat \<Rightarrow> double" where
  "dbl_pack s m = of_nat ((if s then 2 ^ 63 else 0) + m)"

abbreviation flt_inf_mag :: nat where "flt_inf_mag \<equiv> 0x7F800000"
abbreviation flt_max_mag :: nat where "flt_max_mag \<equiv> 0x7F7FFFFF"
abbreviation FLT_MAX :: float32 where "FLT_MAX \<equiv> 0x7F7FFFFF"
abbreviation FLT_MIN_MAX :: float32 where "FLT_MIN_MAX \<equiv> 0xFF7FFFFF"

definition flt_isnan :: "float32 \<Rightarrow> bool" where
  "flt_isnan f \<longleftrightarrow> flt_inf_mag < flt_mag f"

definition flt_isfinite :: "float32 \<Rightarrow> bool" where
  "flt_isfinite f \<longleftrightarrow> flt_mag f < flt_inf_mag"

lemma of_nat_bit_top:
  assumes "m < 2 ^ n" "LENGTH('a::len) = Suc n"
  shows "take_bit n (of_nat ((if s then 2 ^ n else 0) + m) :: 'a word) = of_nat m"
    "bit (of_nat ((if s then 2 ^ n else 0) + m) :: 'a word) n = s"
proof -
  have "take_bit n (of_nat ((if s then 2 ^ n else 0) + m) :: 'a word) =
      of_nat (take_bit n ((if s then 2 ^ n else 0) + m))"
    by (simp only: take_bit_of_nat)
  also have "take_bit n ((if s then 2 ^ n else 0) + m) = m" using assms(1) by (simp add: take_bit_eq_mod)
  finally show "take_bit n (of_nat ((if s then 2 ^ n else 0) + m) :: 'a word) = of_nat m" .
  have "((if s then 2 ^ n else 0) + m) div 2 ^ n = of_bool s"
    using assms(1) div_add_self1 [of "2 ^ n :: nat" m] by simp
  then have "bit ((if s then 2 ^ n else 0) + m) n = s" by (simp add: bit_iff_odd)
  then show "bit (of_nat ((if s then 2 ^ n else 0) + m) :: 'a word) n = s"
    unfolding bit_of_nat_iff using assms(2) by simp
qed

lemma flt_pack_parts: "m < 2 ^ 31 \<Longrightarrow> flt_mag (flt_pack s m) = m" "m < 2 ^ 31 \<Longrightarrow> flt_neg (flt_pack s m) = s"
proof -
  assume m: "m < 2 ^ 31"
  have l: "LENGTH(32) = Suc 31" by simp
  show "flt_mag (flt_pack s m) = m"
    unfolding flt_mag_def flt_pack_def of_nat_bit_top(1) [where 'a = 32, OF m l]
    using m by (simp add: unat_of_nat)
  show "flt_neg (flt_pack s m) = s"
    unfolding flt_neg_def flt_pack_def by (rule of_nat_bit_top(2) [where 'a = 32, OF m l])
qed

lemma dbl_pack_parts: "m < 2 ^ 63 \<Longrightarrow> dbl_mag (dbl_pack s m) = m" "m < 2 ^ 63 \<Longrightarrow> dbl_neg (dbl_pack s m) = s"
proof -
  assume m: "m < 2 ^ 63"
  have l: "LENGTH(64) = Suc 63" by simp
  show "dbl_mag (dbl_pack s m) = m"
    unfolding dbl_mag_def dbl_pack_def of_nat_bit_top(1) [where 'a = 64, OF m l]
    using m by (simp add: unat_of_nat)
  show "dbl_neg (dbl_pack s m) = s"
    unfolding dbl_neg_def dbl_pack_def by (rule of_nat_bit_top(2) [where 'a = 64, OF m l])
qed

lemma flt_mag_less: "flt_mag f < 2 ^ 31"
  unfolding flt_mag_def by (subst unsigned_take_bit_eq) (simp_all add: take_bit_eq_mod)

lemma dbl_mag_less: "dbl_mag d < 2 ^ 63"
  unfolding dbl_mag_def by (subst unsigned_take_bit_eq) (simp_all add: take_bit_eq_mod)

section \<open>Conversions\<close>

text \<open>
  A finite magnitude with \<open>p\<close> fraction bits as a multiple of the least number of its format;
  the exponent field 0 has no hidden bit.
\<close>

definition mag_val :: "nat \<Rightarrow> nat \<Rightarrow> nat" where
  "mag_val p m = (if m div 2 ^ p = 0 then m else (2 ^ p + m mod 2 ^ p) * 2 ^ (m div 2 ^ p - 1))"

text \<open>Widening is exact. A subnormal float is normalised, the shift going into the exponent.\<close>

definition mag_widen :: "nat \<Rightarrow> nat" where
  "mag_widen f =
     (if flt_inf_mag \<le> f then dbl_inf_mag + (f - flt_inf_mag) * 2 ^ 29
      else if f = 0 then 0
      else let s = (if f < 2 ^ 23 then norm_shift 23 f (2 ^ 23) else 0)
           in (896 - s) * 2 ^ 52 + f * 2 ^ s * 2 ^ 29)"

definition dbl_of_float :: "float32 \<Rightarrow> double" where
  "dbl_of_float f = dbl_pack (flt_neg f) (mag_widen (flt_mag f))"

text \<open>
  Narrowing rounds to the nearest float, ties to the even pattern; what rounds up past the
  largest float carries into the exponent field of infinity. A NaN is quieted and keeps the
  top of its payload.
\<close>

definition mag_narrow :: "nat \<Rightarrow> nat" where
  "mag_narrow m =
     (let e = m div 2 ^ 52 in
      if dbl_inf_mag < m then flt_inf_mag + 2 ^ 22 + m mod 2 ^ 51 div 2 ^ 29
      else if 1151 \<le> e then flt_inf_mag
      else if 897 \<le> e then round_quot (m - 896 * 2 ^ 52) (2 ^ 29)
      else round_quot (if e = 0 then m else 2 ^ 52 + m mod 2 ^ 52) (2 ^ (926 - max e 1)))"

definition float_of_dbl :: "double \<Rightarrow> float32" where
  "float_of_dbl d = flt_pack (dbl_neg d) (mag_narrow (dbl_mag d))"

text \<open>\<open>nextafterf\<close> towards the largest float of one sign.\<close>

definition nextafterf_down :: "float32 \<Rightarrow> float32" where
  "nextafterf_down f =
     (if flt_isnan f then f
      else if flt_neg f then (if flt_mag f = flt_max_mag then f
                              else if flt_mag f = flt_inf_mag then FLT_MIN_MAX
                              else flt_pack True (flt_mag f + 1))
      else if flt_mag f = 0 then flt_pack True 1 else flt_pack False (flt_mag f - 1))"

definition nextafterf_up :: "float32 \<Rightarrow> float32" where
  "nextafterf_up f =
     (if flt_isnan f then f
      else if \<not> flt_neg f then (if flt_mag f = flt_max_mag then f
                              else if flt_mag f = flt_inf_mag then FLT_MAX
                              else flt_pack False (flt_mag f + 1))
      else if flt_mag f = 0 then flt_pack False 1 else flt_pack True (flt_mag f - 1))"

definition next_float_down :: "double \<Rightarrow> float32" where
  "next_float_down d =
     (if dbl_lt (dbl_of_float FLT_MAX) d then FLT_MAX
      else if dbl_le d (dbl_of_float FLT_MIN_MAX) then FLT_MIN_MAX
      else let result = float_of_dbl d in
        if dbl_le (dbl_of_float result) d then result else nextafterf_down result)"

definition next_float_up :: "double \<Rightarrow> float32" where
  "next_float_up d =
     (if dbl_le (dbl_of_float FLT_MAX) d then FLT_MAX
      else if dbl_lt d (dbl_of_float FLT_MIN_MAX) then FLT_MIN_MAX
      else let result = float_of_dbl d in
        if dbl_le d (dbl_of_float result) then result else nextafterf_up result)"

lemma float_examples:
  "float_of_dbl 0x3FF0000000000000 = 0x3F800000"
  "float_of_dbl 0x3FB999999999999A = 0x3DCCCCCD"
  "next_float_down 0x3FB999999999999A = 0x3DCCCCCC"
  "next_float_up 0x3FB999999999999A = 0x3DCCCCCD"
  "next_float_down 0x8000000000000001 = 0x80000001"
  "dbl_of_float 0x00000001 = 0x36A0000000000000"
  by (simp_all add: next_float_down_def next_float_up_def float_of_dbl_def dbl_of_float_def mag_narrow_def
      mag_widen_def dbl_mag_def dbl_neg_def flt_mag_def flt_neg_def flt_pack_def dbl_pack_def round_quot_def
      norm_shift_numeral unsigned_take_bit_eq take_bit_eq_mod dbl_le_def dbl_lt_def dbl_ord_def dbl_isnan_def
      nextafterf_down_def flt_isnan_def Let_def)

section \<open>The order of the values\<close>

lemma mag_val_less_top: "mag_val p m < 2 ^ p * 2 ^ (m div 2 ^ p)"
proof (cases "m div 2 ^ p")
  case 0
  then show ?thesis by (simp add: mag_val_def div_eq_0_iff)
next
  case (Suc e)
  have "2 ^ p + m mod 2 ^ p < 2 * 2 ^ p" by simp
  then have "(2 ^ p + m mod 2 ^ p) * 2 ^ e < 2 * 2 ^ p * 2 ^ e" by (rule mult_strict_right_mono) simp
  with Suc show ?thesis by (simp add: mag_val_def ac_simps)
qed

lemma mag_val_ge: "m div 2 ^ p = Suc e \<Longrightarrow> 2 ^ p * 2 ^ e \<le> mag_val p m"
  by (simp add: mag_val_def)

lemma mag_val_strict_mono: "a < b \<Longrightarrow> mag_val p a < mag_val p b"
proof -
  assume ab: "a < b"
  then have le: "a div 2 ^ p \<le> b div 2 ^ p" by (simp add: div_le_mono)
  show ?thesis
  proof (cases "a div 2 ^ p = b div 2 ^ p")
    case True
    then have "a = b div 2 ^ p * 2 ^ p + a mod 2 ^ p" by (metis div_mult_mod_eq)
    moreover have "b = b div 2 ^ p * 2 ^ p + b mod 2 ^ p" by (rule div_mult_mod_eq [symmetric])
    ultimately have "a mod 2 ^ p < b mod 2 ^ p" using ab by linarith
    with True ab show ?thesis by (simp add: mag_val_def)
  next
    case False
    then obtain e where e: "b div 2 ^ p = Suc e" "a div 2 ^ p \<le> e" using le by (cases "b div 2 ^ p") auto
    have "mag_val p a < 2 ^ p * 2 ^ (a div 2 ^ p)" by (rule mag_val_less_top)
    also have "\<dots> \<le> 2 ^ p * 2 ^ e" using e(2) by (simp add: power_increasing)
    also have "\<dots> \<le> mag_val p b" using e(1) by (rule mag_val_ge)
    finally show ?thesis .
  qed
qed

lemma mag_val_less_iff [simp]: "mag_val p a < mag_val p b \<longleftrightarrow> a < b"
  using mag_val_strict_mono [of a b p] mag_val_strict_mono [of b a p] by (cases a b rule: linorder_cases) auto

lemma mag_val_le_iff [simp]: "mag_val p a \<le> mag_val p b \<longleftrightarrow> a \<le> b"
  by (simp flip: not_less)

section \<open>Widening is exact\<close>

lemma norm_shift_range:
  "0 < f \<Longrightarrow> f < 2 * q \<Longrightarrow> q \<le> f * 2 ^ n \<Longrightarrow>
   norm_shift n f q \<le> n \<and> q \<le> f * 2 ^ norm_shift n f q \<and> f * 2 ^ norm_shift n f q < 2 * q"
proof (induction n arbitrary: f)
  case (Suc n)
  show ?case
  proof (cases "q \<le> f")
    case False
    have "norm_shift n (2 * f) q \<le> n \<and> q \<le> 2 * f * 2 ^ norm_shift n (2 * f) q \<and>
        2 * f * 2 ^ norm_shift n (2 * f) q < 2 * q"
      by (rule Suc.IH) (use Suc.prems False in auto)
    with False show ?thesis by (simp add: ac_simps)
  qed (use Suc.prems in simp)
qed simp

lemma norm_shift_spec:
  assumes "0 < f" "f < 2 ^ 23"
  shows "norm_shift 23 f (2 ^ 23) \<le> 23 \<and> 2 ^ 23 \<le> f * 2 ^ norm_shift 23 f (2 ^ 23) \<and>
    f * 2 ^ norm_shift 23 f (2 ^ 23) < 2 ^ 24"
  using norm_shift_range [of f "2 ^ 23" 23] assms by simp

lemma mag_val_fields: "q < 2 ^ 52 \<Longrightarrow> 0 < e \<Longrightarrow> mag_val 52 (e * 2 ^ 52 + q) = (2 ^ 52 + q) * 2 ^ (e - 1)"
  by (simp add: mag_val_def)

lemma mag_widen_exact:
  assumes "f < flt_inf_mag"
  shows "mag_val 52 (mag_widen f) = mag_val 23 f * 2 ^ 925"
proof (cases "f = 0")
  case True
  then show ?thesis by (simp add: mag_widen_def mag_val_def)
next
  case False
  show ?thesis
  proof (cases "f < 2 ^ 23")
    case True
    define s where "s = norm_shift 23 f (2 ^ 23)"
    have s: "s \<le> 23" "2 ^ 23 \<le> f * 2 ^ s" "f * 2 ^ s < 2 ^ 24"
      using norm_shift_spec [of f] True False by (simp_all add: s_def)
    define q where "q = (f * 2 ^ s - 2 ^ 23) * 2 ^ 29"
    have q: "q < 2 ^ 52" "f * 2 ^ s * 2 ^ 29 = 2 ^ 52 + q"
      using s(2,3) by (simp_all add: q_def diff_mult_distrib)
    have "mag_widen f = (896 - s) * 2 ^ 52 + f * 2 ^ s * 2 ^ 29"
      unfolding mag_widen_def Let_def s_def using True False by simp
    also have "\<dots> = (897 - s) * 2 ^ 52 + q"
      using s(1) unfolding q(2) by (simp add: diff_mult_distrib)
    finally have "mag_widen f = (897 - s) * 2 ^ 52 + q" .
    then have "mag_val 52 (mag_widen f) = (2 ^ 52 + q) * 2 ^ (896 - s)"
      using mag_val_fields [OF q(1), of "897 - s"] s(1) by simp
    also have "\<dots> = f * (2 ^ s * 2 ^ 29 * 2 ^ (896 - s))"
      unfolding q(2) [symmetric] by (simp only: ac_simps)
    also have "2 ^ s * 2 ^ 29 * 2 ^ (896 - s) = (2 ^ 925 :: nat)"
      using s(1) by (simp only: power_add [symmetric]) simp
    finally have "mag_val 52 (mag_widen f) = f * 2 ^ 925" .
    moreover have "mag_val 23 f = f" using True by (simp add: mag_val_def)
    ultimately show ?thesis by (simp only:)
  next
    case nsub: False
    define e q where "e = f div 2 ^ 23" and "q = f mod 2 ^ 23"
    have f: "f = e * 2 ^ 23 + q" "q < 2 ^ 23" by (simp_all add: e_def q_def)
    have e: "0 < e" using nsub by (simp add: e_def div_greater_zero_iff)
    have "mag_widen f = (896 + e) * 2 ^ 52 + q * 2 ^ 29"
      using nsub assms \<open>f \<noteq> 0\<close> by (simp add: mag_widen_def f(1) algebra_simps)
    then have "mag_val 52 (mag_widen f) = (2 ^ 52 + q * 2 ^ 29) * 2 ^ (896 + e - 1)"
      using mag_val_fields [of "q * 2 ^ 29" "896 + e"] f(2) by simp
    also have "\<dots> = (2 ^ 23 + q) * (2 ^ 29 * 2 ^ (896 + e - 1))" by (simp add: algebra_simps)
    also have "2 ^ 29 * 2 ^ (896 + e - 1) = (2 ^ (e - 1) * 2 ^ 925 :: nat)"
      using e by (simp only: power_add [symmetric]) simp
    also have "(2 ^ 23 + q) * (2 ^ (e - 1) * 2 ^ 925) = mag_val 23 f * 2 ^ 925"
      using e by (simp only: mag_val_def e_def [symmetric] q_def [symmetric]) simp
    finally show ?thesis .
  qed
qed

lemma mag_widen_finite: "f < flt_inf_mag \<Longrightarrow> mag_widen f < dbl_inf_mag"
proof -
  assume f: "f < flt_inf_mag"
  have "mag_val 23 f < 2 ^ 23 * 2 ^ (f div 2 ^ 23)" by (rule mag_val_less_top)
  also have "\<dots> \<le> 2 ^ 23 * 2 ^ 254"
  proof (intro mult_left_mono power_increasing)
    have "f div 2 ^ 23 \<le> (flt_inf_mag - 1) div 2 ^ 23" using f by (intro div_le_mono) simp
    then show "f div 2 ^ 23 \<le> 254" by simp
  qed simp_all
  finally have "mag_val 23 f * 2 ^ 925 < 2 ^ 23 * 2 ^ 254 * 2 ^ 925" by (rule mult_strict_right_mono) simp
  then have "mag_val 52 (mag_widen f) < 2 ^ 1202"
    unfolding mag_widen_exact [OF f] by (simp only: power_add [symmetric]) simp
  also have "(2 :: nat) ^ 1202 \<le> 2 ^ 52 * 2 ^ 2046" by (simp only: power_add [symmetric]) (simp add: power_increasing)
  also have "\<dots> \<le> mag_val 52 dbl_inf_mag" by (rule mag_val_ge) simp
  finally show ?thesis by simp
qed

lemma mag_widen_less_iff:
  assumes "f < flt_inf_mag" "g < flt_inf_mag"
  shows "mag_widen f < mag_widen g \<longleftrightarrow> f < g"
proof -
  have "mag_widen f < mag_widen g \<longleftrightarrow> mag_val 23 f * 2 ^ 925 < mag_val 23 g * (2 ^ 925 :: nat)"
    unfolding mag_widen_exact [OF assms(1), symmetric] mag_widen_exact [OF assms(2), symmetric] by simp
  also have "\<dots> \<longleftrightarrow> mag_val 23 f < mag_val 23 g" by (rule mult_less_cancel2 [THEN trans]) simp
  finally show ?thesis by simp
qed

lemma mag_widen_max: "mag_widen flt_max_mag = 0x47EFFFFFE0000000"
  by (simp add: mag_widen_def)

section \<open>Narrowing rounds to a neighbour\<close>

lemma round_quot_cases:
  "0 < q \<Longrightarrow> round_quot m q = m div q \<or> (round_quot m q = m div q + 1 \<and> m mod q \<noteq> 0)"
  by (auto simp: round_quot_def Let_def)

lemma less_div_Suc: "0 < d \<Longrightarrow> x < (x div d + 1) * (d :: nat)"
  using dividend_less_div_times [of d x] by simp

lemma subnormal_floor:
  assumes "mag_val 52 m = x * p" "\<And>k. k \<le> 2 ^ 23 \<Longrightarrow> mag_val 52 (mag_widen k) = k * d * p"
    and "0 < d" "0 < p" "x div d < 2 ^ 23"
  shows "mag_widen (x div d) \<le> m" "m = mag_widen (x div d) \<Longrightarrow> x mod d = 0"
    "m < mag_widen (x div d + 1)"
proof -
  have w: "mag_val 52 (mag_widen (x div d)) = x div d * d * p"
    "mag_val 52 (mag_widen (x div d + 1)) = (x div d + 1) * d * p"
    using assms(5) by (intro assms(2); simp)+
  have "mag_val 52 (mag_widen (x div d)) \<le> mag_val 52 m"
    unfolding w assms(1) by (intro mult_le_mono1) simp
  then show "mag_widen (x div d) \<le> m" by simp
  have "mag_val 52 m < mag_val 52 (mag_widen (x div d + 1))"
    unfolding w assms(1) by (intro mult_strict_right_mono less_div_Suc assms)
  then show "m < mag_widen (x div d + 1)" by simp
  show "x mod d = 0" if "m = mag_widen (x div d)"
  proof -
    have "x * p = x div d * d * p" by (metis assms(1) w(1) that)
    then have "x = x div d * d" using assms(4) by (metis mult_right_cancel less_not_refl)
    then show ?thesis by (metis mod_mult_self2_is_0)
  qed
qed

text \<open>The float below \<open>m\<close>, the float above, and the result among the two.\<close>

lemma mag_narrow_between:
  assumes "m \<le> mag_widen flt_max_mag"
  obtains q where "q \<le> flt_max_mag" "mag_widen q \<le> m" "q < flt_max_mag \<longrightarrow> m < mag_widen (q + 1)"
    "mag_narrow m = q \<or> (mag_narrow m = q + 1 \<and> q < flt_max_mag \<and> mag_widen q < m)"
proof -
  define e where "e = m div 2 ^ 52"
  have e: "e < 1151"
  proof -
    have "m div 2 ^ 52 \<le> 0x47EFFFFFE0000000 div 2 ^ 52"
      using assms unfolding mag_widen_max by (rule div_le_mono)
    then show ?thesis by (simp add: e_def)
  qed
  have fin: "\<not> dbl_inf_mag < m" using assms unfolding mag_widen_max by simp
  have "\<exists>q x d. 0 < d \<and> q = x div d \<and> mag_narrow m = round_quot x d \<and> q \<le> flt_max_mag \<and> mag_widen q \<le> m \<and>
      (m = mag_widen q \<longrightarrow> x mod d = 0) \<and> (q < flt_max_mag \<longrightarrow> m < mag_widen (q + 1))"
  proof (cases "897 \<le> e")
    case True
    let ?x = "m - 896 * 2 ^ 52" and ?d = "2 ^ 29 :: nat"
    let ?q = "?x div ?d"
    have m: "897 * 2 ^ 52 \<le> m"
      using True div_times_less_eq_dividend [of m "2 ^ 52"] unfolding e_def
      by (meson le_trans mult_le_mono1)
    then have x: "2 ^ 52 \<le> ?x" by simp
    have q1: "2 ^ 23 \<le> ?q" using div_le_mono [OF x, of ?d] by simp
    have q2: "?q \<le> flt_max_mag"
    proof -
      have "?x \<le> 0x47EFFFFFE0000000 - 896 * 2 ^ 52" using assms unfolding mag_widen_max by simp
      from div_le_mono [OF this, of ?d] show ?thesis by simp
    qed
    have w: "mag_widen k = k * ?d + 896 * 2 ^ 52" if "2 ^ 23 \<le> k" "k < flt_inf_mag" for k
      using that by (auto simp: mag_widen_def)
    have eq: "?x = ?q * ?d + ?x mod ?d" by (rule div_mult_mod_eq [symmetric])
    have r: "?x mod ?d < ?d" by simp
    have w0: "mag_widen ?q = ?q * ?d + 896 * 2 ^ 52" by (rule w) (use q1 q2 in auto)
    have w1: "mag_widen (?q + 1) = (?q + 1) * ?d + 896 * 2 ^ 52" if "?q < flt_max_mag"
      by (rule w) (use q1 that in auto)
    have "mag_narrow m = round_quot ?x ?d"
      unfolding mag_narrow_def Let_def e_def [symmetric] using True e fin by simp
    moreover have "mag_widen ?q \<le> m" using w0 eq m by linarith
    moreover have "m = mag_widen ?q \<longrightarrow> ?x mod ?d = 0" using w0 eq m by linarith
    moreover have "?q < flt_max_mag \<longrightarrow> m < mag_widen (?q + 1)"
    proof
      assume "?q < flt_max_mag"
      from w1 [OF this] show "m < mag_widen (?q + 1)" using eq m r by (simp add: algebra_simps)
    qed
    ultimately show ?thesis using q2 by (intro exI [of _ ?q] exI [of _ ?x] exI [of _ ?d]) simp
  next
    case False
    define x where "x = (if e = 0 then m else 2 ^ 52 + m mod 2 ^ 52)"
    define d where "d = (2 :: nat) ^ (926 - max e 1)"
    define p where "p = (2 :: nat) ^ (max e 1 - 1)"
    have pos: "0 < d" "0 < p" by (simp_all add: d_def p_def)
    have dp: "d * p = 2 ^ 925"
      unfolding d_def p_def power_add [symmetric] using False by (intro arg_cong [where f = "(^) 2"]) auto
    have d30: "2 ^ 30 \<le> d" unfolding d_def using False by (intro power_increasing) auto
    have "m mod 2 ^ 52 < 2 ^ 52" by simp
    then have "x < 2 ^ 53" by (auto simp: x_def e_def div_eq_0_iff)
    also have "(2 :: nat) ^ 53 \<le> 2 ^ 23 * d" using d30 by simp
    finally have q: "x div d < 2 ^ 23" by (rule less_mult_imp_div_less)
    have v: "mag_val 52 m = x * p"
      unfolding mag_val_def e_def [symmetric] x_def p_def by (simp add: max_def)
    have w: "mag_val 52 (mag_widen k) = k * d * p" if "k \<le> 2 ^ 23" for k
    proof -
      have "mag_val 23 k = k"
      proof (cases "k = 2 ^ 23")
        case False
        with that have "k < 2 ^ 23" by simp
        then show ?thesis by (simp add: mag_val_def)
      qed (simp add: mag_val_def)
      moreover have "mag_val 52 (mag_widen k) = mag_val 23 k * 2 ^ 925"
        using that by (intro mag_widen_exact) simp
      ultimately show ?thesis unfolding mult.assoc dp by (simp only:)
    qed
    have "mag_narrow m = round_quot x d"
      unfolding mag_narrow_def Let_def e_def [symmetric] x_def d_def using False e fin by simp
    moreover have "m = mag_widen (x div d) \<longrightarrow> x mod d = 0"
      by (intro impI subnormal_floor(2) [OF v w pos q])
    moreover have "x div d \<le> flt_max_mag" using q by simp
    ultimately show ?thesis using pos(1) subnormal_floor(1,3) [OF v w pos q]
      by (intro exI [of _ "x div d"] exI [of _ x] exI [of _ d] conjI refl) (assumption | rule impI)+
  qed
  then obtain q x d where "0 < d \<and> q = x div d \<and> mag_narrow m = round_quot x d \<and>
    q \<le> flt_max_mag \<and> mag_widen q \<le> m \<and> (m = mag_widen q \<longrightarrow> x mod d = 0) \<and>
    (q < flt_max_mag \<longrightarrow> m < mag_widen (q + 1))" by (elim exE)
  then have q: "0 < d" "q = x div d" "mag_narrow m = round_quot x d" "q \<le> flt_max_mag"
    "mag_widen q \<le> m" "m = mag_widen q \<longrightarrow> x mod d = 0"
    "q < flt_max_mag \<longrightarrow> m < mag_widen (q + 1)" by - (elim conjE; assumption)+
  from round_quot_cases [OF q(1), of x]
  have "mag_narrow m = q \<or> (mag_narrow m = q + 1 \<and> q < flt_max_mag \<and> mag_widen q < m)"
  proof
    assume r: "round_quot x d = x div d + 1 \<and> x mod d \<noteq> 0"
    then have "m \<noteq> mag_widen q" using q(6) by auto
    then have "mag_widen q < m" using q(5) by simp
    moreover from this have "q \<noteq> flt_max_mag" using assms by auto
    ultimately show ?thesis using r q(2-4) by simp
  qed (use q(2,3) in simp)
  with q(4,5,7) show thesis by (rule that)
qed

section \<open>The roundings\<close>

lemma flt_mag_neg_inject: "flt_mag a = flt_mag b \<Longrightarrow> flt_neg a = flt_neg b \<Longrightarrow> a = b"
proof -
  assume "flt_mag a = flt_mag b" and neg: "flt_neg a = flt_neg b"
  then have low: "take_bit 31 a = take_bit 31 b" by (simp add: flt_mag_def word_unat_eq_iff)
  have "bit a n = bit b n" if "n < 32" for n
  proof (cases "n < 31")
    case True
    with low show ?thesis by (metis bit_take_bit_iff)
  next
    case False
    with that have "n = 31" by simp
    with neg show ?thesis by (simp add: flt_neg_def)
  qed
  then show "a = b" by (intro bit_word_eqI) simp
qed

definition flt_ord :: "float32 \<Rightarrow> int" where
  "flt_ord f = (if flt_neg f then - int (flt_mag f) else int (flt_mag f))"

lemma dbl_of_float_parts:
  assumes "flt_isfinite f"
  shows "dbl_mag (dbl_of_float f) = mag_widen (flt_mag f)" "dbl_neg (dbl_of_float f) = flt_neg f"
    "dbl_isfinite (dbl_of_float f)" "\<not> dbl_isnan (dbl_of_float f)"
proof -
  have fin: "mag_widen (flt_mag f) < dbl_inf_mag"
    using assms mag_widen_finite by (simp add: flt_isfinite_def)
  then have less: "mag_widen (flt_mag f) < 2 ^ 63" by simp
  show *: "dbl_mag (dbl_of_float f) = mag_widen (flt_mag f)" "dbl_neg (dbl_of_float f) = flt_neg f"
    unfolding dbl_of_float_def by (rule dbl_pack_parts [OF less])+
  show "dbl_isfinite (dbl_of_float f)" "\<not> dbl_isnan (dbl_of_float f)"
    using fin by (simp_all add: dbl_isfinite_def dbl_isnan_def *)
qed

lemma mag_widen_0 [simp]: "mag_widen 0 = 0"
  by (simp add: mag_widen_def)

lemma dbl_of_float_le:
  assumes "flt_isfinite f" "flt_isfinite g"
  shows "dbl_le (dbl_of_float f) (dbl_of_float g) \<longleftrightarrow> flt_ord f \<le> flt_ord g"
proof -
  have fin: "flt_mag f < flt_inf_mag" "flt_mag g < flt_inf_mag" "(0::nat) < flt_inf_mag"
    using assms by (simp_all add: flt_isfinite_def)
  have less: "mag_widen (flt_mag f) < mag_widen (flt_mag g) \<longleftrightarrow> flt_mag f < flt_mag g"
    "mag_widen (flt_mag g) < mag_widen (flt_mag f) \<longleftrightarrow> flt_mag g < flt_mag f"
    "0 < mag_widen (flt_mag f) \<longleftrightarrow> 0 < flt_mag f" "0 < mag_widen (flt_mag g) \<longleftrightarrow> 0 < flt_mag g"
    using mag_widen_less_iff [OF fin(1,2)] mag_widen_less_iff [OF fin(2,1)]
      mag_widen_less_iff [OF fin(3,1)] mag_widen_less_iff [OF fin(3,2)] by simp_all
  show ?thesis
    unfolding dbl_le_def dbl_ord_def flt_ord_def dbl_of_float_parts(1,2) [OF assms(1)]
      dbl_of_float_parts(1,2) [OF assms(2)]
    using less by (auto simp: dbl_of_float_parts(4) assms not_less [symmetric])
qed

lemma FLT_MAX_parts:
  "flt_isfinite FLT_MAX" "flt_isfinite FLT_MIN_MAX" "flt_ord FLT_MAX = int flt_max_mag"
  "flt_ord FLT_MIN_MAX = - int flt_max_mag"
  by (simp_all add: flt_isfinite_def flt_mag_def flt_ord_def flt_neg_def unsigned_take_bit_eq take_bit_eq_mod)

lemma flt_finite_ord: "flt_isfinite f \<Longrightarrow> \<bar>flt_ord f\<bar> \<le> int flt_max_mag"
  by (auto simp: flt_isfinite_def flt_ord_def)

text \<open>The order of the doubles that are floats, on signed magnitudes.\<close>

definition widen_ord :: "int \<Rightarrow> int" where
  "widen_ord i = (if i < 0 then - int (mag_widen (nat (- i))) else int (mag_widen (nat i)))"

lemma widen_ord_mono:
  assumes "i < j" "\<bar>i\<bar> \<le> int flt_max_mag" "\<bar>j\<bar> \<le> int flt_max_mag"
  shows "widen_ord i < widen_ord j"
proof -
  have *: "mag_widen (nat a) < mag_widen (nat b)" if "0 \<le> a" "a < b" "b \<le> int flt_max_mag" for a b
    using that by (subst mag_widen_less_iff) auto
  show ?thesis
  proof (cases "0 \<le> i")
    case True
    with assms *[of i j] show ?thesis by (simp add: widen_ord_def)
  next
    case False
    with assms *[of "- j" "- i"] *[of 0 "- i"] show ?thesis by (auto simp: widen_ord_def)
  qed
qed

lemma widen_ord_le_iff:
  "\<bar>i\<bar> \<le> int flt_max_mag \<Longrightarrow> \<bar>j\<bar> \<le> int flt_max_mag \<Longrightarrow> widen_ord i \<le> widen_ord j \<longleftrightarrow> i \<le> j"
  using widen_ord_mono [of i j] widen_ord_mono [of j i] by (cases i j rule: linorder_cases) auto

lemma dbl_ord_of_float: "flt_isfinite f \<Longrightarrow> dbl_ord (dbl_of_float f) = widen_ord (flt_ord f)"
  by (simp add: dbl_ord_def dbl_of_float_parts flt_ord_def widen_ord_def)

lemma dbl_le_float:
  assumes "flt_isfinite f" "\<not> dbl_isnan d"
  shows "dbl_le (dbl_of_float f) d \<longleftrightarrow> widen_ord (flt_ord f) \<le> dbl_ord d"
    "dbl_le d (dbl_of_float f) \<longleftrightarrow> dbl_ord d \<le> widen_ord (flt_ord f)"
    "dbl_lt (dbl_of_float f) d \<longleftrightarrow> widen_ord (flt_ord f) < dbl_ord d"
    "dbl_lt d (dbl_of_float f) \<longleftrightarrow> dbl_ord d < widen_ord (flt_ord f)"
  using assms by (simp_all add: dbl_le_def dbl_lt_def dbl_of_float_parts dbl_ord_of_float)

lemma flt_pack_ord:
  assumes "m \<le> flt_max_mag"
  shows "flt_isfinite (flt_pack s m)" "flt_ord (flt_pack s m) = (if s then - int m else int m)"
    "\<not> flt_isnan (flt_pack s m)" "flt_mag (flt_pack s m) = m" "flt_neg (flt_pack s m) = s"
proof -
  have "m < 2 ^ 31" using assms by simp
  note * = flt_pack_parts [OF this]
  show "flt_isfinite (flt_pack s m)" "flt_ord (flt_pack s m) = (if s then - int m else int m)"
    "\<not> flt_isnan (flt_pack s m)" "flt_mag (flt_pack s m) = m" "flt_neg (flt_pack s m) = s"
    using assms by (simp_all add: flt_isfinite_def flt_ord_def flt_isnan_def *)
qed

text \<open>The number below and the number above, among the floats, of a double in their range.\<close>

definition floor_float :: "double \<Rightarrow> int \<Rightarrow> bool" where
  "floor_float d i \<longleftrightarrow> \<bar>i\<bar> \<le> int flt_max_mag \<and> widen_ord i \<le> dbl_ord d \<and>
     (i < int flt_max_mag \<longrightarrow> dbl_ord d < widen_ord (i + 1))"

definition ceiling_float :: "double \<Rightarrow> int \<Rightarrow> bool" where
  "ceiling_float d i \<longleftrightarrow> \<bar>i\<bar> \<le> int flt_max_mag \<and> dbl_ord d \<le> widen_ord i \<and>
     (- int flt_max_mag < i \<longrightarrow> widen_ord (i - 1) < dbl_ord d)"

lemma widen_ord_nat [simp]: "widen_ord (int m) = int (mag_widen m)" "widen_ord (- int m) = - int (mag_widen m)"
  by (simp_all add: widen_ord_def)

lemma widen_ord_succ [simp]: "widen_ord (int m + 1) = int (mag_widen (m + 1))"
  "widen_ord (- int m - 1) = - int (mag_widen (m + 1))"
proof -
  have *: "int m + 1 = int (m + 1)" "- int m - 1 = - int (m + 1)" by simp_all
  show "widen_ord (int m + 1) = int (mag_widen (m + 1))" "widen_ord (- int m - 1) = - int (mag_widen (m + 1))"
    unfolding * by (rule widen_ord_nat)+
qed

lemma nextafterf_pack:
  assumes "q < flt_max_mag"
  shows "nextafterf_down (flt_pack False (q + 1)) = flt_pack False q"
    "nextafterf_down (flt_pack True q) = flt_pack True (q + 1)"
    "nextafterf_up (flt_pack True (q + 1)) = flt_pack True q"
    "nextafterf_up (flt_pack False q) = flt_pack False (q + 1)"
proof -
  have q: "q \<le> flt_max_mag" "q + 1 \<le> flt_max_mag" "q \<noteq> flt_max_mag" "q \<noteq> flt_inf_mag"
    using assms by simp_all
  note p = flt_pack_ord [OF q(1)] flt_pack_ord [OF q(2)]
  show "nextafterf_down (flt_pack False (q + 1)) = flt_pack False q"
    "nextafterf_down (flt_pack True q) = flt_pack True (q + 1)"
    "nextafterf_up (flt_pack True (q + 1)) = flt_pack True q"
    "nextafterf_up (flt_pack False q) = flt_pack False (q + 1)"
    unfolding nextafterf_down_def nextafterf_up_def p(4,5,9,10) using q(3,4) p(3,8) by simp_all
qed

lemma next_float_middle:
  assumes "dbl_mag d \<le> mag_widen flt_max_mag" "\<not> dbl_isnan d"
  defines "r \<equiv> float_of_dbl d"
  defines "lo \<equiv> (if dbl_le (dbl_of_float r) d then r else nextafterf_down r)"
    and "hi \<equiv> (if dbl_le d (dbl_of_float r) then r else nextafterf_up r)"
  shows "flt_isfinite lo \<and> floor_float d (flt_ord lo)" "flt_isfinite hi \<and> ceiling_float d (flt_ord hi)"
proof -
  let ?m = "dbl_mag d"
  obtain q where q: "q \<le> flt_max_mag" "mag_widen q \<le> ?m" "q < flt_max_mag \<longrightarrow> ?m < mag_widen (q + 1)"
    "mag_narrow ?m = q \<or> (mag_narrow ?m = q + 1 \<and> q < flt_max_mag \<and> mag_widen q < ?m)"
    by (rule mag_narrow_between [OF assms(1)])
  define n where "n = mag_narrow ?m"
  have n: "n \<le> flt_max_mag" using q(1,4) by (auto simp: n_def)
  have r: "r = flt_pack (dbl_neg d) n" by (simp add: r_def float_of_dbl_def n_def)
  note p = flt_pack_ord [OF n, of "dbl_neg d", folded r]
  have ord: "dbl_ord d = (if dbl_neg d then - int ?m else int ?m)" by (simp add: dbl_ord_def)
  have le: "dbl_le (dbl_of_float r) d \<longleftrightarrow> (if dbl_neg d then ?m \<le> mag_widen n else mag_widen n \<le> ?m)"
    "dbl_le d (dbl_of_float r) \<longleftrightarrow> (if dbl_neg d then mag_widen n \<le> ?m else ?m \<le> mag_widen n)"
    unfolding dbl_le_float(1,2) [OF p(1) assms(2)] p(2) ord by simp_all
  have "(flt_isfinite lo \<and> floor_float d (flt_ord lo)) \<and> (flt_isfinite hi \<and> ceiling_float d (flt_ord hi))"
  proof (cases "mag_widen n = ?m")
    case True
    then have "lo = r" "hi = r" "dbl_ord d = widen_ord (flt_ord r)"
      using le by (simp_all add: lo_def hi_def p(2) ord)
    then show ?thesis using p(1) flt_finite_ord [OF p(1)]
        widen_ord_mono [of "flt_ord r" "flt_ord r + 1"] widen_ord_mono [of "flt_ord r - 1" "flt_ord r"]
      by (auto simp: floor_float_def ceiling_float_def)
  next
    case False
    have m4: "n = q \<or> n = q + 1" using q(4) unfolding n_def by blast
    have m2: "mag_widen q < ?m"
    proof (cases "n = q")
      case True
      with False q(2) show ?thesis by simp
    next
      case False
      with q(4) show ?thesis unfolding n_def by blast
    qed
    moreover have m1: "q < flt_max_mag"
    proof (rule ccontr)
      assume "\<not> q < flt_max_mag"
      with q(1) have "q = flt_max_mag" by simp
      with m2 assms(1) show False by simp
    qed
    ultimately have m: "q < flt_max_mag" "mag_widen q < ?m" "?m < mag_widen (q + 1)" "n = q \<or> n = q + 1"
      using q(3) m4 by simp_all
    have ends: "floor_float d (if dbl_neg d then - int (q + 1) else int q)"
      "ceiling_float d (if dbl_neg d then - int q else int (q + 1))"
      using m(1-3) widen_ord_nat [of "q + 1"] widen_ord_nat [of q]
      by (simp_all add: floor_float_def ceiling_float_def ord algebra_simps)
    have q': "q + 1 \<le> flt_max_mag" using m(1) by simp
    note p1 = flt_pack_ord [OF q'] and p0 = flt_pack_ord [OF q(1)]
    have lr: "dbl_le (dbl_of_float r) d \<longleftrightarrow> (if dbl_neg d then n = q + 1 else n = q)"
      "dbl_le d (dbl_of_float r) \<longleftrightarrow> (if dbl_neg d then n = q else n = q + 1)"
      using le m(2-4) by auto
    have "lo = (if dbl_neg d then flt_pack True (q + 1) else flt_pack False q) \<and>
        hi = (if dbl_neg d then flt_pack True q else flt_pack False (q + 1))"
      using m(4) nextafterf_pack [OF m(1)] unfolding lo_def hi_def lr by (cases "dbl_neg d") (auto simp: r)
    then show ?thesis using ends p0(1,2) p1(1,2) by auto
  qed
  then show "flt_isfinite lo \<and> floor_float d (flt_ord lo)" "flt_isfinite hi \<and> ceiling_float d (flt_ord hi)"
    by blast+
qed

lemma ord_in_range:
  assumes "\<bar>dbl_ord d\<bar> \<le> int (mag_widen flt_max_mag)"
  shows "dbl_mag d \<le> mag_widen flt_max_mag"
  using assms by (auto simp: dbl_ord_def split: if_splits)

text \<open>Doubles that are not NaN and do not exceed the floats on the side of the rounding.\<close>

lemma next_float_down_floor:
  assumes "\<not> dbl_isnan d" "dbl_le (dbl_of_float FLT_MIN_MAX) d"
  shows "flt_isfinite (next_float_down d) \<and> floor_float d (flt_ord (next_float_down d))"
proof -
  note le = dbl_le_float [OF FLT_MAX_parts(1) assms(1)] dbl_le_float [OF FLT_MAX_parts(2) assms(1)]
  have lo: "widen_ord (- int flt_max_mag) \<le> dbl_ord d"
    using assms(2) unfolding le(5) FLT_MAX_parts .
  consider "widen_ord (int flt_max_mag) < dbl_ord d"
    | "dbl_ord d \<le> widen_ord (int flt_max_mag)" "dbl_ord d \<le> widen_ord (- int flt_max_mag)"
    | "dbl_ord d \<le> widen_ord (int flt_max_mag)" "widen_ord (- int flt_max_mag) < dbl_ord d"
    by linarith
  then show ?thesis
  proof cases
    case 1
    then have "next_float_down d = FLT_MAX" unfolding next_float_down_def le FLT_MAX_parts by simp
    with 1 FLT_MAX_parts show ?thesis by (simp add: floor_float_def)
  next
    case 2
    then have "next_float_down d = FLT_MIN_MAX"
      unfolding next_float_down_def le FLT_MAX_parts by (simp add: not_less)
    moreover have "widen_ord (- int flt_max_mag) < widen_ord (- int flt_max_mag + 1)"
      by (rule widen_ord_mono) simp_all
    ultimately show ?thesis using 2 lo FLT_MAX_parts by (simp add: floor_float_def)
  next
    case 3
    then have m: "dbl_mag d \<le> mag_widen flt_max_mag" by (intro ord_in_range) (simp only: widen_ord_nat)
    have "next_float_down d = (if dbl_le (dbl_of_float (float_of_dbl d)) d then float_of_dbl d
        else nextafterf_down (float_of_dbl d))"
      unfolding next_float_down_def le FLT_MAX_parts Let_def using 3 by (simp add: not_less not_le)
    with next_float_middle(1) [OF m assms(1)] show ?thesis by simp
  qed
qed

lemma next_float_up_ceiling:
  assumes "\<not> dbl_isnan d" "dbl_le d (dbl_of_float FLT_MAX)"
  shows "flt_isfinite (next_float_up d) \<and> ceiling_float d (flt_ord (next_float_up d))"
proof -
  note le = dbl_le_float [OF FLT_MAX_parts(1) assms(1)] dbl_le_float [OF FLT_MAX_parts(2) assms(1)]
  have hi: "dbl_ord d \<le> widen_ord (int flt_max_mag)"
    using assms(2) unfolding le(2) FLT_MAX_parts .
  consider "dbl_ord d < widen_ord (- int flt_max_mag)"
    | "widen_ord (- int flt_max_mag) \<le> dbl_ord d" "widen_ord (int flt_max_mag) \<le> dbl_ord d"
    | "widen_ord (- int flt_max_mag) \<le> dbl_ord d" "dbl_ord d < widen_ord (int flt_max_mag)"
    by linarith
  then show ?thesis
  proof cases
    case 1
    moreover have "widen_ord (- int flt_max_mag) < widen_ord (int flt_max_mag)"
      by (rule widen_ord_mono) simp_all
    ultimately have "next_float_up d = FLT_MIN_MAX" unfolding next_float_up_def le FLT_MAX_parts by simp
    with 1 FLT_MAX_parts show ?thesis by (simp add: ceiling_float_def)
  next
    case 2
    then have "next_float_up d = FLT_MAX"
      unfolding next_float_up_def le FLT_MAX_parts by (simp add: not_less)
    moreover have "widen_ord (int flt_max_mag - 1) < widen_ord (int flt_max_mag)"
      by (rule widen_ord_mono) simp_all
    ultimately show ?thesis using 2 hi FLT_MAX_parts by (simp add: ceiling_float_def)
  next
    case 3
    then have m: "dbl_mag d \<le> mag_widen flt_max_mag" by (intro ord_in_range) (simp only: widen_ord_nat)
    have "next_float_up d = (if dbl_le d (dbl_of_float (float_of_dbl d)) then float_of_dbl d
        else nextafterf_up (float_of_dbl d))"
      unfolding next_float_up_def le FLT_MAX_parts Let_def using 3 by (simp add: not_less not_le)
    with next_float_middle(2) [OF m assms(1)] show ?thesis by simp
  qed
qed

lemma floor_float_greatest:
  assumes "floor_float d i" "\<bar>j\<bar> \<le> int flt_max_mag" "widen_ord j \<le> dbl_ord d"
  shows "j \<le> i"
proof (rule ccontr)
  assume "\<not> j \<le> i"
  then have i: "i < int flt_max_mag" "i + 1 \<le> j" using assms(2) by auto
  then have "widen_ord (i + 1) \<le> widen_ord j"
    using assms(1,2) by (subst widen_ord_le_iff) (auto simp: floor_float_def)
  with i assms(1,3) show False by (simp add: floor_float_def)
qed

lemma ceiling_float_least:
  assumes "ceiling_float d i" "\<bar>j\<bar> \<le> int flt_max_mag" "dbl_ord d \<le> widen_ord j"
  shows "i \<le> j"
proof (rule ccontr)
  assume "\<not> i \<le> j"
  then have i: "- int flt_max_mag < i" "j \<le> i - 1" using assms(2) by auto
  then have "widen_ord j \<le> widen_ord (i - 1)"
    using assms(1,2) by (subst widen_ord_le_iff) (auto simp: ceiling_float_def)
  with i assms(1,3) show False by (simp add: ceiling_float_def)
qed

text \<open>A float converted to double and back is itself, so rounding a float changes nothing.\<close>

lemma mag_narrow_widen:
  assumes "f \<le> flt_max_mag"
  shows "mag_narrow (mag_widen f) = f"
proof -
  have "mag_widen f \<le> mag_widen flt_max_mag"
    using assms mag_widen_less_iff [of flt_max_mag f] by (simp add: not_less [symmetric])
  then obtain q where q: "q \<le> flt_max_mag" "mag_widen q \<le> mag_widen f"
    "q < flt_max_mag \<longrightarrow> mag_widen f < mag_widen (q + 1)"
    "mag_narrow (mag_widen f) = q \<or>
      (mag_narrow (mag_widen f) = q + 1 \<and> q < flt_max_mag \<and> mag_widen q < mag_widen f)"
    by (rule mag_narrow_between)
  have "q \<le> f" using q(1,2) assms mag_widen_less_iff [of f q] by (simp add: not_less [symmetric])
  moreover have "\<not> q < f"
  proof
    assume "q < f"
    with q(1,3) assms have "mag_widen f < mag_widen (q + 1)" by simp
    then have "f < q + 1" using \<open>q < f\<close> assms by (subst (asm) mag_widen_less_iff) auto
    with \<open>q < f\<close> show False by simp
  qed
  ultimately have "q = f" by simp
  with q(4) show ?thesis by auto
qed

lemma float_of_dbl_of_float: "flt_isfinite f \<Longrightarrow> float_of_dbl (dbl_of_float f) = f"
proof -
  assume f: "flt_isfinite f"
  then have m: "flt_mag f \<le> flt_max_mag" by (simp add: flt_isfinite_def)
  have "flt_mag f < 2 ^ 31" by (rule flt_mag_less)
  then show ?thesis
    unfolding float_of_dbl_def dbl_of_float_parts(1,2) [OF f] mag_narrow_widen [OF m]
    by (intro flt_mag_neg_inject) (simp_all add: flt_pack_parts)
qed

lemma next_float_of_float:
  assumes "flt_isfinite f"
  shows "next_float_down (dbl_of_float f) = f" "next_float_up (dbl_of_float f) = f"
proof -
  have o: "\<bar>flt_ord f\<bar> \<le> int flt_max_mag" by (rule flt_finite_ord [OF assms])
  have eq: "f = FLT_MIN_MAX" if "flt_ord f \<le> - int flt_max_mag"
    using that o FLT_MAX_parts by (intro flt_mag_neg_inject) (auto simp: flt_ord_def split: if_splits)
  have eq': "f = FLT_MAX" if "int flt_max_mag \<le> flt_ord f"
    using that o FLT_MAX_parts by (intro flt_mag_neg_inject) (auto simp: flt_ord_def split: if_splits)
  have le: "dbl_le (dbl_of_float f) (dbl_of_float f)"
    using dbl_of_float_le [OF assms assms] by simp
  have gt: "\<not> dbl_lt (dbl_of_float FLT_MAX) (dbl_of_float f)"
    "\<not> dbl_lt (dbl_of_float f) (dbl_of_float FLT_MIN_MAX)"
    using o dbl_of_float_le [OF assms FLT_MAX_parts(1)] dbl_of_float_le [OF FLT_MAX_parts(2) assms]
    by (auto simp: dbl_le_def dbl_lt_def dbl_of_float_parts assms FLT_MAX_parts)
  have "dbl_le (dbl_of_float f) (dbl_of_float FLT_MIN_MAX) \<longleftrightarrow> flt_ord f \<le> - int flt_max_mag"
    "dbl_le (dbl_of_float FLT_MAX) (dbl_of_float f) \<longleftrightarrow> int flt_max_mag \<le> flt_ord f"
    using dbl_of_float_le [OF assms FLT_MAX_parts(2)] dbl_of_float_le [OF FLT_MAX_parts(1) assms]
    by (simp_all only: FLT_MAX_parts)
  then show "next_float_down (dbl_of_float f) = f" "next_float_up (dbl_of_float f) = f"
    unfolding next_float_down_def next_float_up_def Let_def float_of_dbl_of_float [OF assms]
    using le gt eq eq' by auto
qed

lemma next_float_saturates:
  assumes "\<not> dbl_isnan d"
  shows "dbl_lt (dbl_of_float FLT_MAX) d \<Longrightarrow> next_float_down d = FLT_MAX \<and> next_float_up d = FLT_MAX"
    "dbl_lt d (dbl_of_float FLT_MIN_MAX) \<Longrightarrow> next_float_down d = FLT_MIN_MAX \<and> next_float_up d = FLT_MIN_MAX"
proof -
  have "flt_ord FLT_MIN_MAX < flt_ord FLT_MAX" by (simp only: FLT_MAX_parts)
  then have o: "\<not> dbl_le (dbl_of_float FLT_MAX) (dbl_of_float FLT_MIN_MAX)"
    using dbl_of_float_le [OF FLT_MAX_parts(1,2)] by simp
  show "dbl_lt (dbl_of_float FLT_MAX) d \<Longrightarrow> next_float_down d = FLT_MAX \<and> next_float_up d = FLT_MAX"
    by (simp add: next_float_down_def next_float_up_def dbl_lt_def dbl_le_def)
  show "dbl_lt d (dbl_of_float FLT_MIN_MAX) \<Longrightarrow> next_float_down d = FLT_MIN_MAX \<and> next_float_up d = FLT_MIN_MAX"
    using o assms by (auto simp: next_float_down_def next_float_up_def dbl_lt_def dbl_le_def)
qed

text \<open>No float is below (above) a number below (above) the range.\<close>

lemma float_in_range:
  assumes "flt_isfinite f"
  shows "dbl_le (dbl_of_float FLT_MIN_MAX) (dbl_of_float f)" "dbl_le (dbl_of_float f) (dbl_of_float FLT_MAX)"
  using dbl_of_float_le [OF FLT_MAX_parts(2) assms] dbl_of_float_le [OF assms FLT_MAX_parts(1)] flt_finite_ord [OF assms]
  unfolding FLT_MAX_parts by simp_all

lemma next_float_down_best:
  assumes "\<not> dbl_isnan d"
  shows "flt_isfinite (next_float_down d) \<and>
    (dbl_le (dbl_of_float FLT_MIN_MAX) d \<longrightarrow> dbl_le (dbl_of_float (next_float_down d)) d) \<and>
    (\<forall>f. flt_isfinite f \<longrightarrow> dbl_le (dbl_of_float f) d \<longrightarrow> dbl_le (dbl_of_float f) (dbl_of_float (next_float_down d)))"
proof (cases "dbl_le (dbl_of_float FLT_MIN_MAX) d")
  case True
  from next_float_down_floor [OF assms this] have down: "flt_isfinite (next_float_down d)" "floor_float d (flt_ord (next_float_down d))"
    by simp_all
  have "dbl_le (dbl_of_float (next_float_down d)) d"
    unfolding dbl_le_float(1) [OF down(1) assms] using down(2) by (simp add: floor_float_def)
  moreover have "dbl_le (dbl_of_float f) d \<longrightarrow> dbl_le (dbl_of_float f) (dbl_of_float (next_float_down d))" if "flt_isfinite f" for f
    unfolding dbl_of_float_le [OF that down(1)] dbl_le_float(1) [OF that assms]
    using floor_float_greatest [OF down(2) flt_finite_ord [OF that]] by blast
  ultimately show ?thesis using down(1) by blast
next
  case False
  then have "dbl_lt d (dbl_of_float FLT_MIN_MAX)"
    using assms dbl_of_float_parts(4) [OF FLT_MAX_parts(2)] by (auto simp: dbl_le_def dbl_lt_def)
  moreover have "\<not> dbl_le (dbl_of_float f) d" if "flt_isfinite f" for f
    using False float_in_range(1) [OF that] by (auto simp: dbl_le_def)
  ultimately show ?thesis using next_float_saturates(2) [OF assms] False FLT_MAX_parts(2) by simp
qed

lemma next_float_up_best:
  assumes "\<not> dbl_isnan d"
  shows "flt_isfinite (next_float_up d) \<and>
    (dbl_le d (dbl_of_float FLT_MAX) \<longrightarrow> dbl_le d (dbl_of_float (next_float_up d))) \<and>
    (\<forall>f. flt_isfinite f \<longrightarrow> dbl_le d (dbl_of_float f) \<longrightarrow> dbl_le (dbl_of_float (next_float_up d)) (dbl_of_float f))"
proof (cases "dbl_le d (dbl_of_float FLT_MAX)")
  case True
  from next_float_up_ceiling [OF assms this] have up: "flt_isfinite (next_float_up d)" "ceiling_float d (flt_ord (next_float_up d))"
    by simp_all
  have "dbl_le d (dbl_of_float (next_float_up d))"
    unfolding dbl_le_float(2) [OF up(1) assms] using up(2) by (simp add: ceiling_float_def)
  moreover have "dbl_le d (dbl_of_float f) \<longrightarrow> dbl_le (dbl_of_float (next_float_up d)) (dbl_of_float f)" if "flt_isfinite f" for f
    unfolding dbl_of_float_le [OF up(1) that] dbl_le_float(2) [OF that assms]
    using ceiling_float_least [OF up(2) flt_finite_ord [OF that]] by blast
  ultimately show ?thesis using up(1) by blast
next
  case False
  then have "dbl_lt (dbl_of_float FLT_MAX) d"
    using assms dbl_of_float_parts(4) [OF FLT_MAX_parts(1)] by (auto simp: dbl_le_def dbl_lt_def)
  moreover have "\<not> dbl_le d (dbl_of_float f)" if "flt_isfinite f" for f
    using False float_in_range(2) [OF that] by (auto simp: dbl_le_def)
  ultimately show ?thesis using next_float_saturates(1) [OF assms] False FLT_MAX_parts(1) by simp
qed

text \<open>
  C33. The two roundings bracket a double between finite floats as tightly as floats allow, for every double that is a number: the
  rounding down is not above it, unless it is below the range of floats, and every float that is not above it is not above its
  rounding down; likewise for the rounding up. Outside the range both give the largest (lowest) float.
\<close>

theorem next_float_best:
  assumes "\<not> dbl_isnan d"
  shows "flt_isfinite (next_float_down d) \<and> flt_isfinite (next_float_up d) \<and>
    (dbl_le (dbl_of_float FLT_MIN_MAX) d \<longrightarrow> dbl_le (dbl_of_float (next_float_down d)) d) \<and>
    (dbl_le d (dbl_of_float FLT_MAX) \<longrightarrow> dbl_le d (dbl_of_float (next_float_up d))) \<and>
    (\<forall>f. flt_isfinite f \<longrightarrow>
      (dbl_le (dbl_of_float f) d \<longrightarrow> dbl_le (dbl_of_float f) (dbl_of_float (next_float_down d))) \<and>
      (dbl_le d (dbl_of_float f) \<longrightarrow> dbl_le (dbl_of_float (next_float_up d)) (dbl_of_float f))) \<and>
    (dbl_lt (dbl_of_float FLT_MAX) d \<longrightarrow> next_float_down d = FLT_MAX \<and> next_float_up d = FLT_MAX) \<and>
    (dbl_lt d (dbl_of_float FLT_MIN_MAX) \<longrightarrow> next_float_down d = FLT_MIN_MAX \<and> next_float_up d = FLT_MIN_MAX)"
  using next_float_down_best [OF assms] next_float_up_best [OF assms] next_float_saturates [OF assms] by blast

theorem next_float_best_witness:
  "dbl_le (dbl_of_float (next_float_down 0x3FB999999999999A)) 0x3FB999999999999A \<and>
   dbl_le 0x3FB999999999999A (dbl_of_float (next_float_up 0x3FB999999999999A))"
proof -
  have d: "\<not> dbl_isnan 0x3FB999999999999A"
    by (simp add: dbl_isnan_def dbl_mag_def unsigned_take_bit_eq take_bit_eq_mod)
  have o: "dbl_ord 0x3FB999999999999A = 0x3FB999999999999A"
    by (simp add: dbl_ord_def dbl_neg_def dbl_mag_def unsigned_take_bit_eq take_bit_eq_mod)
  have "dbl_le (dbl_of_float FLT_MIN_MAX) 0x3FB999999999999A" "dbl_le 0x3FB999999999999A (dbl_of_float FLT_MAX)"
    unfolding dbl_le_float [OF FLT_MAX_parts(1) d] dbl_le_float [OF FLT_MAX_parts(2) d] FLT_MAX_parts
      widen_ord_nat mag_widen_max o by simp_all
  with next_float_best [OF d] show ?thesis by blast
qed

end
