(* ===== verification/LWTypes.thy ===== *)
theory LWTypes
  imports Prelude IEEE754
begin

text \<open>
  The data model of liblwgeom: the type numbers and flag macros of liblwgeom.h, the
  structs \<open>GBOX\<close>, \<open>POINTARRAY\<close> and \<open>LWGEOM\<close> with their constructors (ptarray.c, lwpoint.c,
  lwline.c, lwpoly.c, lwcircstring.c, lwtriangle.c, lwcollection.c, lwcurvepoly.c,
  lwnurbscurve.c), the emptiness tests of lwinline.h and the operations that grow a
  collection.

  A \<open>POINTARRAY\<close> is its header and the list of the coordinates it stores, \<open>npoints\<close> groups
  of \<open>FLAGS_NDIMS\<close> numbers. The collection structs all have the layout of
  \<open>LWCOLLECTION\<close> and are cast to it by the code, so one constructor holds them with their
  type number; \<open>maxgeoms\<close> is the allocated capacity and \<open>alloc\<close> says whether the array
  pointer is not NULL. Pointers to geometries are values: two references to one geometry are
  not told apart, so the debugging check for a geometry that is added twice has no model.
\<close>

section \<open>Type numbers and flags\<close>

abbreviation POINTTYPE :: nat where "POINTTYPE \<equiv> 1"
abbreviation LINETYPE :: nat where "LINETYPE \<equiv> 2"
abbreviation POLYGONTYPE :: nat where "POLYGONTYPE \<equiv> 3"
abbreviation MULTIPOINTTYPE :: nat where "MULTIPOINTTYPE \<equiv> 4"
abbreviation MULTILINETYPE :: nat where "MULTILINETYPE \<equiv> 5"
abbreviation MULTIPOLYGONTYPE :: nat where "MULTIPOLYGONTYPE \<equiv> 6"
abbreviation COLLECTIONTYPE :: nat where "COLLECTIONTYPE \<equiv> 7"
abbreviation CIRCSTRINGTYPE :: nat where "CIRCSTRINGTYPE \<equiv> 8"
abbreviation COMPOUNDTYPE :: nat where "COMPOUNDTYPE \<equiv> 9"
abbreviation CURVEPOLYTYPE :: nat where "CURVEPOLYTYPE \<equiv> 10"
abbreviation MULTICURVETYPE :: nat where "MULTICURVETYPE \<equiv> 11"
abbreviation MULTISURFACETYPE :: nat where "MULTISURFACETYPE \<equiv> 12"
abbreviation POLYHEDRALSURFACETYPE :: nat where "POLYHEDRALSURFACETYPE \<equiv> 13"
abbreviation TRIANGLETYPE :: nat where "TRIANGLETYPE \<equiv> 14"
abbreviation TINTYPE :: nat where "TINTYPE \<equiv> 15"
abbreviation NURBSCURVETYPE :: nat where "NURBSCURVETYPE \<equiv> 16"
abbreviation NUMTYPES :: nat where "NUMTYPES \<equiv> 17"

definition lwgeomTypeName :: "string list" where
  "lwgeomTypeName =
     [''Unknown'', ''Point'', ''LineString'', ''Polygon'', ''MultiPoint'', ''MultiLineString'',
      ''MultiPolygon'', ''GeometryCollection'', ''CircularString'', ''CompoundCurve'',
      ''CurvePolygon'', ''MultiCurve'', ''MultiSurface'', ''PolyhedralSurface'', ''Triangle'',
      ''Tin'', ''NurbsCurve'']"

definition lwtype_name :: "nat \<Rightarrow> string" where
  "lwtype_name type = (if type > NUMTYPES - 1 then ''Invalid type'' else lwgeomTypeName ! type)"

definition lwtype_is_collection :: "nat \<Rightarrow> bool" where
  "lwtype_is_collection type \<longleftrightarrow> type \<in> set [MULTIPOINTTYPE, MULTILINETYPE, MULTIPOLYGONTYPE,
     COLLECTIONTYPE, CURVEPOLYTYPE, COMPOUNDTYPE, MULTICURVETYPE, MULTISURFACETYPE,
     POLYHEDRALSURFACETYPE, TINTYPE]"

definition lwtype_is_unitary :: "nat \<Rightarrow> bool" where
  "lwtype_is_unitary type \<longleftrightarrow> type \<in> set [POINTTYPE, LINETYPE, POLYGONTYPE, CURVEPOLYTYPE,
     COMPOUNDTYPE, CIRCSTRINGTYPE, NURBSCURVETYPE, TRIANGLETYPE, POLYHEDRALSURFACETYPE, TINTYPE]"

definition lwtype_get_collectiontype :: "nat \<Rightarrow> nat" where
  "lwtype_get_collectiontype type =
     (if type = POINTTYPE then MULTIPOINTTYPE
      else if type = LINETYPE then MULTILINETYPE
      else if type = POLYGONTYPE then MULTIPOLYGONTYPE
      else if type = CIRCSTRINGTYPE then MULTICURVETYPE
      else if type = COMPOUNDTYPE then MULTICURVETYPE
      else if type = NURBSCURVETYPE then MULTICURVETYPE
      else if type = CURVEPOLYTYPE then MULTISURFACETYPE
      else if type = TRIANGLETYPE then TINTYPE
      else COLLECTIONTYPE)"

definition MULTITYPE :: "nat list" where
  "MULTITYPE = [0, MULTIPOINTTYPE, MULTILINETYPE, MULTIPOLYGONTYPE, 0, 0, 0, 0, MULTICURVETYPE,
     MULTICURVETYPE, MULTISURFACETYPE, POLYHEDRALSURFACETYPE, 0, 0, TINTYPE, 0, MULTICURVETYPE]"

definition lwtype_multitype :: "nat \<Rightarrow> nat" where
  "lwtype_multitype type = (if type \<ge> NUMTYPES then 0 else MULTITYPE ! type)"

definition lwcollection_allows_subtype :: "nat \<Rightarrow> nat \<Rightarrow> bool" where
  "lwcollection_allows_subtype collectiontype subtype =
     (if collectiontype = COLLECTIONTYPE then True
      else if collectiontype = MULTIPOINTTYPE \<and> subtype = POINTTYPE then True
      else if collectiontype = MULTILINETYPE \<and> subtype = LINETYPE then True
      else if collectiontype = MULTIPOLYGONTYPE \<and> subtype = POLYGONTYPE then True
      else if collectiontype = COMPOUNDTYPE \<and>
        (subtype = LINETYPE \<or> subtype = CIRCSTRINGTYPE \<or> subtype = NURBSCURVETYPE) then True
      else if collectiontype = CURVEPOLYTYPE \<and>
        (subtype = CIRCSTRINGTYPE \<or> subtype = LINETYPE \<or> subtype = COMPOUNDTYPE \<or>
         subtype = NURBSCURVETYPE) then True
      else if collectiontype = MULTICURVETYPE \<and>
        (subtype = CIRCSTRINGTYPE \<or> subtype = LINETYPE \<or> subtype = COMPOUNDTYPE \<or>
         subtype = NURBSCURVETYPE) then True
      else if collectiontype = MULTISURFACETYPE \<and>
        (subtype = POLYGONTYPE \<or> subtype = CURVEPOLYTYPE) then True
      else if collectiontype = POLYHEDRALSURFACETYPE \<and> subtype = POLYGONTYPE then True
      else if collectiontype = TINTYPE \<and> subtype = TRIANGLETYPE then True
      else False)"

abbreviation LWFLAG_Z :: u16 where "LWFLAG_Z \<equiv> 0x01"
abbreviation LWFLAG_M :: u16 where "LWFLAG_M \<equiv> 0x02"
abbreviation LWFLAG_BBOX :: u16 where "LWFLAG_BBOX \<equiv> 0x04"
abbreviation LWFLAG_GEODETIC :: u16 where "LWFLAG_GEODETIC \<equiv> 0x08"
abbreviation LWFLAG_READONLY :: u16 where "LWFLAG_READONLY \<equiv> 0x10"
abbreviation LWFLAG_SOLID :: u16 where "LWFLAG_SOLID \<equiv> 0x20"

text \<open>\<open>FLAGS_GET_x (flags)\<close> is \<open>has_bits flags LWFLAG_x\<close>, \<open>FLAGS_SET_x (flags, value)\<close> is
  \<open>flag_set flags LWFLAG_x value\<close>.\<close>

definition flag_set :: "u16 \<Rightarrow> u16 \<Rightarrow> bool \<Rightarrow> u16" where
  "flag_set flags flag val = (if val then flags OR flag else flags AND NOT flag)"

abbreviation hasz :: "u16 \<Rightarrow> bool" where "hasz flags \<equiv> has_bits flags LWFLAG_Z"
abbreviation hasm :: "u16 \<Rightarrow> bool" where "hasm flags \<equiv> has_bits flags LWFLAG_M"

definition FLAGS_NDIMS :: "u16 \<Rightarrow> nat" where
  "FLAGS_NDIMS flags = 2 + of_bool (hasz flags) + of_bool (hasm flags)"

definition FLAGS_GET_ZM :: "u16 \<Rightarrow> nat" where
  "FLAGS_GET_ZM flags = of_bool (hasm flags) + of_bool (hasz flags) * 2"

definition FLAGS_NDIMS_BOX :: "u16 \<Rightarrow> nat" where
  "FLAGS_NDIMS_BOX flags = (if has_bits flags LWFLAG_GEODETIC then 3 else FLAGS_NDIMS flags)"

definition lwflags :: "bool \<Rightarrow> bool \<Rightarrow> bool \<Rightarrow> u16" where
  "lwflags z m geodetic =
     (let flags = 0;
          flags = (if z then flag_set flags LWFLAG_Z True else flags);
          flags = (if m then flag_set flags LWFLAG_M True else flags);
          flags = (if geodetic then flag_set flags LWFLAG_GEODETIC True else flags)
      in flags)"

lemma lwflags_has_bits [simp, flag_simps]:
  "hasz (lwflags z m g) = z" "hasm (lwflags z m g) = m"
  "has_bits (lwflags z m g) LWFLAG_BBOX = False"
  "has_bits (lwflags z m g) LWFLAG_GEODETIC = g"
  "has_bits (lwflags z m g) LWFLAG_READONLY = False"
  "has_bits (lwflags z m g) LWFLAG_SOLID = False"
  by (auto simp: lwflags_def flag_set_def has_bits_def)

lemma has_bits_flag_set:
  "has_bits (flag_set f b v) m \<longleftrightarrow>
     (if v then has_bits f m \<or> has_bits b m else has_bits f (m AND NOT b))"
  unfolding flag_set_def by (cases v) (simp_all only: if_True if_False has_bits_or has_bits_and_not)

lemma flag_set_has_bits [simp, flag_simps]:
  "hasz (flag_set f LWFLAG_BBOX v) = hasz f" "hasm (flag_set f LWFLAG_BBOX v) = hasm f"
  "hasz (flag_set f LWFLAG_READONLY v) = hasz f" "hasm (flag_set f LWFLAG_READONLY v) = hasm f"
  "hasz (flag_set f LWFLAG_GEODETIC v) = hasz f" "hasm (flag_set f LWFLAG_GEODETIC v) = hasm f"
  "hasz (flag_set f LWFLAG_SOLID v) = hasz f" "hasm (flag_set f LWFLAG_SOLID v) = hasm f"
  "hasz (flag_set f LWFLAG_Z v) = v" "hasm (flag_set f LWFLAG_Z v) = hasm f"
  "hasz (flag_set f LWFLAG_M v) = hasz f" "hasm (flag_set f LWFLAG_M v) = v"
  by (simp_all add: has_bits_flag_set)

lemma FLAGS_NDIMS_lwflags [simp, flag_simps]:
  "FLAGS_NDIMS (lwflags z m g) = 2 + of_bool z + of_bool m"
  by (simp add: FLAGS_NDIMS_def)

lemma FLAGS_NDIMS_bounds [simp]: "2 \<le> FLAGS_NDIMS f" "FLAGS_NDIMS f \<le> 4" "0 < FLAGS_NDIMS f"
  by (auto simp: FLAGS_NDIMS_def)

section \<open>Spatial reference numbers\<close>

abbreviation SRID_UNKNOWN :: int where "SRID_UNKNOWN \<equiv> 0"
abbreviation SRID_MAXIMUM :: int where "SRID_MAXIMUM \<equiv> 999999"
abbreviation SRID_USER_MAXIMUM :: int where "SRID_USER_MAXIMUM \<equiv> 998999"

definition clamp_srid :: "int \<Rightarrow> int" where
  "clamp_srid srid =
     (let newsrid = srid in
      if newsrid \<le> 0 then (if newsrid \<noteq> SRID_UNKNOWN then SRID_UNKNOWN else newsrid)
      else if srid > SRID_MAXIMUM then
        SRID_USER_MAXIMUM + 1 + srid mod (SRID_MAXIMUM - SRID_USER_MAXIMUM - 1)
      else newsrid)"

lemma clamp_srid_range: "0 \<le> clamp_srid s \<and> clamp_srid s \<le> SRID_MAXIMUM"
proof -
  have "0 \<le> s mod 999" "s mod 999 < 999" by simp_all
  then show ?thesis by (auto simp: clamp_srid_def simp del: mod_less_eq_dividend)
qed

lemma clamp_srid_id: "0 \<le> s \<Longrightarrow> s \<le> SRID_MAXIMUM \<Longrightarrow> clamp_srid s = s"
  by (auto simp: clamp_srid_def)

section \<open>The structs\<close>

record gbox =
  gflags :: u16
  xmin :: double
  xmax :: double
  ymin :: double
  ymax :: double
  zmin :: double
  zmax :: double
  mmin :: double
  mmax :: double

record pointarray =
  npoints :: nat
  maxpoints :: nat
  pflags :: u16
  ptlist :: "double list"

text \<open>The members every \<open>LWGEOM\<close> variant starts with.\<close>

record lwhead =
  bbox :: "gbox option"
  srid :: int
  flags :: u16

text \<open>
  \<open>LWPOLY head maxrings rings\<close>; \<open>LWNURBSCURVE head degree points weights knots\<close>, where a NULL
  array is \<^term>\<open>None\<close> and the counts are the lengths; \<open>LWCOLLECTION type head maxgeoms alloc
  geoms\<close>.
\<close>

datatype lwgeom =
    LWPOINT lwhead pointarray
  | LWLINE lwhead pointarray
  | LWTRIANGLE lwhead pointarray
  | LWCIRCSTRING lwhead pointarray
  | LWPOLY lwhead nat "pointarray list"
  | LWNURBSCURVE lwhead nat "pointarray option" "double list option" "double list option"
  | LWCOLLECTION nat lwhead nat bool "lwgeom list"

fun lwgeom_get_type :: "lwgeom \<Rightarrow> nat" where
  "lwgeom_get_type (LWPOINT h pa) = POINTTYPE"
| "lwgeom_get_type (LWLINE h pa) = LINETYPE"
| "lwgeom_get_type (LWTRIANGLE h pa) = TRIANGLETYPE"
| "lwgeom_get_type (LWCIRCSTRING h pa) = CIRCSTRINGTYPE"
| "lwgeom_get_type (LWPOLY h mr rs) = POLYGONTYPE"
| "lwgeom_get_type (LWNURBSCURVE h d p w k) = NURBSCURVETYPE"
| "lwgeom_get_type (LWCOLLECTION t h mg al gs) = t"

fun lwhead_of :: "lwgeom \<Rightarrow> lwhead" where
  "lwhead_of (LWPOINT h pa) = h"
| "lwhead_of (LWLINE h pa) = h"
| "lwhead_of (LWTRIANGLE h pa) = h"
| "lwhead_of (LWCIRCSTRING h pa) = h"
| "lwhead_of (LWPOLY h mr rs) = h"
| "lwhead_of (LWNURBSCURVE h d p w k) = h"
| "lwhead_of (LWCOLLECTION t h mg al gs) = h"

fun map_lwhead :: "(lwhead \<Rightarrow> lwhead) \<Rightarrow> lwgeom \<Rightarrow> lwgeom" where
  "map_lwhead f (LWPOINT h pa) = LWPOINT (f h) pa"
| "map_lwhead f (LWLINE h pa) = LWLINE (f h) pa"
| "map_lwhead f (LWTRIANGLE h pa) = LWTRIANGLE (f h) pa"
| "map_lwhead f (LWCIRCSTRING h pa) = LWCIRCSTRING (f h) pa"
| "map_lwhead f (LWPOLY h mr rs) = LWPOLY (f h) mr rs"
| "map_lwhead f (LWNURBSCURVE h d p w k) = LWNURBSCURVE (f h) d p w k"
| "map_lwhead f (LWCOLLECTION t h mg al gs) = LWCOLLECTION t (f h) mg al gs"

abbreviation lwgeom_flags :: "lwgeom \<Rightarrow> u16" where "lwgeom_flags g \<equiv> flags (lwhead_of g)"

definition lwgeom_get_srid :: "lwgeom \<Rightarrow> int" where
  "lwgeom_get_srid g = srid (lwhead_of g)"

definition lwgeom_has_srid :: "lwgeom \<Rightarrow> bool" where
  "lwgeom_has_srid g \<longleftrightarrow> lwgeom_get_srid g \<noteq> SRID_UNKNOWN"

fun lwgeom_set_srid :: "int \<Rightarrow> lwgeom \<Rightarrow> lwgeom" where
  "lwgeom_set_srid s (LWCOLLECTION t h mg al gs) =
     LWCOLLECTION t (h\<lparr>srid := s\<rparr>) mg al
       (if lwtype_is_collection t then map (lwgeom_set_srid s) gs else gs)"
| "lwgeom_set_srid s g = map_lwhead (\<lambda>h. h\<lparr>srid := s\<rparr>) g"

definition lwgeom_drop_bbox :: "lwgeom \<Rightarrow> lwgeom" where
  "lwgeom_drop_bbox g = map_lwhead (\<lambda>h. h\<lparr>bbox := None, flags := flag_set (flags h) LWFLAG_BBOX False\<rparr>) g"

section \<open>Emptiness\<close>

fun lwgeom_is_empty :: "lwgeom \<Rightarrow> bool" where
  "lwgeom_is_empty (LWPOINT h pa) \<longleftrightarrow> npoints pa < 1"
| "lwgeom_is_empty (LWLINE h pa) \<longleftrightarrow> npoints pa < 1"
| "lwgeom_is_empty (LWCIRCSTRING h pa) \<longleftrightarrow> npoints pa < 1"
| "lwgeom_is_empty (LWTRIANGLE h pa) \<longleftrightarrow> npoints pa < 1"
| "lwgeom_is_empty (LWPOLY h mr rs) \<longleftrightarrow> (case rs of [] \<Rightarrow> True | r # _ \<Rightarrow> npoints r < 1)"
| "lwgeom_is_empty (LWCOLLECTION t h mg al gs) \<longleftrightarrow>
     lwtype_is_collection t \<and> list_all lwgeom_is_empty gs"
| "lwgeom_is_empty (LWNURBSCURVE h d p w k) \<longleftrightarrow>
     (case p of None \<Rightarrow> True | Some pa \<Rightarrow> npoints pa = 0)"

section \<open>Point arrays\<close>

definition ptarray_construct_empty :: "bool \<Rightarrow> bool \<Rightarrow> nat \<Rightarrow> pointarray" where
  "ptarray_construct_empty z m maxp =
     \<lparr>npoints = 0, maxpoints = maxp, pflags = lwflags z m False, ptlist = []\<rparr>"

text \<open>\<open>ptarray_construct\<close> leaves the coordinates uninitialised; its callers in the
  readers fill all of them, so it takes the list of values the caller stores.\<close>

definition ptarray_construct :: "bool \<Rightarrow> bool \<Rightarrow> nat \<Rightarrow> double list \<Rightarrow> pointarray" where
  "ptarray_construct z m n stored = (ptarray_construct_empty z m n)\<lparr>npoints := n, ptlist := stored\<rparr>"

definition ptarray_construct_copy_data :: "bool \<Rightarrow> bool \<Rightarrow> nat \<Rightarrow> double list \<Rightarrow> pointarray" where
  "ptarray_construct_copy_data z m n dlist =
     \<lparr>npoints = n, maxpoints = n, pflags = lwflags z m False,
      ptlist = take (n * FLAGS_NDIMS (lwflags z m False)) dlist\<rparr>"

text \<open>The first \<open>k\<close> coordinates of point \<open>i\<close>.\<close>

definition pa_point :: "pointarray \<Rightarrow> nat \<Rightarrow> nat \<Rightarrow> double list" where
  "pa_point pa i k = take k (drop (i * FLAGS_NDIMS (pflags pa)) (ptlist pa))"

definition ptarray_closed_in :: "nat \<Rightarrow> pointarray \<Rightarrow> bool" where
  "ptarray_closed_in k pa \<longleftrightarrow>
     (if npoints pa \<le> 1 then npoints pa = 1 else pa_point pa 0 k = pa_point pa (npoints pa - 1) k)"

definition ptarray_is_closed :: "pointarray \<Rightarrow> bool" where
  "ptarray_is_closed pa = ptarray_closed_in (FLAGS_NDIMS (pflags pa)) pa"

definition ptarray_is_closed_2d :: "pointarray \<Rightarrow> bool" where
  "ptarray_is_closed_2d pa = ptarray_closed_in 2 pa"

definition ptarray_is_closed_3d :: "pointarray \<Rightarrow> bool" where
  "ptarray_is_closed_3d pa = ptarray_closed_in 3 pa"

definition ptarray_is_closed_z :: "pointarray \<Rightarrow> bool" where
  "ptarray_is_closed_z pa =
     (if hasz (pflags pa) then ptarray_is_closed_3d pa else ptarray_is_closed_2d pa)"

definition ptarray_same :: "pointarray \<Rightarrow> pointarray \<Rightarrow> bool" where
  "ptarray_same pa1 pa2 \<longleftrightarrow>
     FLAGS_GET_ZM (pflags pa1) = FLAGS_GET_ZM (pflags pa2) \<and> npoints pa1 = npoints pa2 \<and>
     list_all (\<lambda>i. pa_point pa1 i (FLAGS_NDIMS (pflags pa1)) = pa_point pa2 i (FLAGS_NDIMS (pflags pa1)))
       [0..<npoints pa1]"

section \<open>Constructors\<close>

definition bbox_head :: "int \<Rightarrow> gbox option \<Rightarrow> u16 \<Rightarrow> lwhead" where
  "bbox_head s b f = \<lparr>bbox = b, srid = s, flags = flag_set f LWFLAG_BBOX (b \<noteq> None)\<rparr>"

definition empty_head :: "int \<Rightarrow> bool \<Rightarrow> bool \<Rightarrow> lwhead" where
  "empty_head s z m = \<lparr>bbox = None, srid = s, flags = lwflags z m False\<rparr>"

definition lwpoint_construct :: "int \<Rightarrow> gbox option \<Rightarrow> pointarray \<Rightarrow> lwgeom" where
  "lwpoint_construct s b point =
     (let f = flag_set 0 LWFLAG_Z (hasz (pflags point));
          f = flag_set f LWFLAG_M (hasm (pflags point))
      in LWPOINT (bbox_head s b f) point)"

definition lwpoint_construct_empty :: "int \<Rightarrow> bool \<Rightarrow> bool \<Rightarrow> lwgeom" where
  "lwpoint_construct_empty s z m = LWPOINT (empty_head s z m) (ptarray_construct z m 0 [])"

definition lwline_construct :: "int \<Rightarrow> gbox option \<Rightarrow> pointarray \<Rightarrow> lwgeom" where
  "lwline_construct s b points = LWLINE (bbox_head s b (pflags points)) points"

definition lwline_construct_empty :: "int \<Rightarrow> bool \<Rightarrow> bool \<Rightarrow> lwgeom" where
  "lwline_construct_empty s z m = LWLINE (empty_head s z m) (ptarray_construct_empty z m 1)"

definition lwcircstring_construct :: "int \<Rightarrow> gbox option \<Rightarrow> pointarray \<Rightarrow> lwgeom" where
  "lwcircstring_construct s b points = LWCIRCSTRING (bbox_head s b (pflags points)) points"

definition lwcircstring_construct_empty :: "int \<Rightarrow> bool \<Rightarrow> bool \<Rightarrow> lwgeom" where
  "lwcircstring_construct_empty s z m =
     LWCIRCSTRING (empty_head s z m) (ptarray_construct_empty z m 1)"

definition lwtriangle_construct :: "int \<Rightarrow> gbox option \<Rightarrow> pointarray \<Rightarrow> lwgeom" where
  "lwtriangle_construct s b points = LWTRIANGLE (bbox_head s b (pflags points)) points"

definition lwtriangle_construct_empty :: "int \<Rightarrow> bool \<Rightarrow> bool \<Rightarrow> lwgeom" where
  "lwtriangle_construct_empty s z m =
     LWTRIANGLE (empty_head s z m) (ptarray_construct_empty z m 1)"

definition lwpoly_construct :: "int \<Rightarrow> gbox option \<Rightarrow> pointarray list \<Rightarrow> lwerr + lwgeom" where
  "lwpoly_construct s b points =
     (case points of
        [] \<Rightarrow> Inl (LwError ''lwpoly_construct: need at least 1 ring'')
      | p # ps \<Rightarrow>
          bindE (require (list_all (\<lambda>q. FLAGS_GET_ZM (pflags p) = FLAGS_GET_ZM (pflags q)) ps)
            ''lwpoly_construct: mixed dimensioned rings'') (\<lambda>_.
          Inr (LWPOLY (bbox_head s b (lwflags (hasz (pflags p)) (hasm (pflags p)) False))
                 (length points) points)))"

definition lwpoly_construct_empty :: "int \<Rightarrow> bool \<Rightarrow> bool \<Rightarrow> lwgeom" where
  "lwpoly_construct_empty s z m = LWPOLY (empty_head s z m) 1 []"

text \<open>The C types of the three operations below exclude the other variants of \<open>LWGEOM\<close>.\<close>

definition lwpoly_add_ring :: "lwgeom \<Rightarrow> pointarray \<Rightarrow> lwerr + lwgeom" where
  "lwpoly_add_ring poly pa =
     (case poly of
        LWPOLY h maxrings rings \<Rightarrow>
          let nrings = length rings;
              maxrings = (if maxrings \<le> nrings then 2 * (nrings + 1) mod 2 ^ 32 else maxrings)
          in if nrings < maxrings then Inr (LWPOLY h maxrings (rings @ [pa])) else Inl MemFault
      | _ \<Rightarrow> Inl MemFault)"

definition lwcollection_construct ::
  "nat \<Rightarrow> int \<Rightarrow> gbox option \<Rightarrow> lwgeom list \<Rightarrow> lwerr + lwgeom" where
  "lwcollection_construct type s b geoms =
     bindE (require (lwtype_is_collection type)
       ''Non-collection type specified in collection constructor!'') (\<lambda>_.
     case geoms of
       [] \<Rightarrow> Inr (LWCOLLECTION type (bbox_head s b (lwflags False False False)) 0 True [])
     | g # gs \<Rightarrow>
         bindE (require (list_all (\<lambda>x. FLAGS_GET_ZM (lwgeom_flags g) = FLAGS_GET_ZM (lwgeom_flags x)) gs)
           ''lwcollection_construct: mixed dimension geometries: %d/%d'') (\<lambda>_.
         Inr (LWCOLLECTION type
               (bbox_head s b (lwflags (hasz (lwgeom_flags g)) (hasm (lwgeom_flags g)) False))
               (length geoms) True geoms)))"

definition lwcollection_construct_empty :: "nat \<Rightarrow> int \<Rightarrow> bool \<Rightarrow> bool \<Rightarrow> lwerr + lwgeom" where
  "lwcollection_construct_empty type s z m =
     bindE (require (lwtype_is_collection type)
       ''Non-collection type specified in collection constructor!'') (\<lambda>_.
     Inr (LWCOLLECTION type (empty_head s z m) 1 True []))"

text \<open>
  \<open>do { maxgeoms *= 2; } while (maxgeoms < ngeoms)\<close> on a 32-bit \<open>maxgeoms\<close>: once the product
  wraps to 0 the loop runs for ever, which is \<^term>\<open>None\<close>.
\<close>

partial_function (option) reserve_loop :: "nat \<Rightarrow> nat \<Rightarrow> nat option" where
  "reserve_loop maxgeoms ngeoms =
     (let maxgeoms = maxgeoms * 2 mod 2 ^ 32
      in if maxgeoms < ngeoms then reserve_loop maxgeoms ngeoms else Some maxgeoms)"

declare reserve_loop.simps [code]

definition lwcollection_reserve :: "nat \<Rightarrow> nat \<Rightarrow> nat option" where
  "lwcollection_reserve maxgeoms ngeoms =
     (if ngeoms \<le> maxgeoms then Some maxgeoms else reserve_loop maxgeoms ngeoms)"

definition lwcollection_add_lwgeom :: "lwgeom \<Rightarrow> lwgeom \<Rightarrow> lwerr + lwgeom" where
  "lwcollection_add_lwgeom col geom =
     (case col of
        LWCOLLECTION t h maxgeoms alloc geoms \<Rightarrow>
          bindE (require (\<not> (\<not> alloc \<and> (geoms \<noteq> [] \<or> maxgeoms \<noteq> 0)))
            ''Collection is in inconsistent state. Null memory but non-zero collection counts.'')
            (\<lambda>_.
          bindE (require (lwcollection_allows_subtype t (lwgeom_get_type geom))
            ''%s cannot contain %s element'') (\<lambda>_.
          let maxgeoms = (if alloc then maxgeoms else 2);
              geoms = (if alloc then geoms else [])
          in case lwcollection_reserve maxgeoms (length geoms + 1) of
               None \<Rightarrow> Inl OutOfFuel
             | Some maxgeoms \<Rightarrow>
                 if length geoms < maxgeoms
                 then Inr (LWCOLLECTION t h maxgeoms True (geoms @ [geom])) else Inl MemFault))
      | _ \<Rightarrow> Inl MemFault)"

fun lwcollection_concat_in_place :: "lwgeom \<Rightarrow> lwgeom list \<Rightarrow> lwerr + lwgeom" where
  "lwcollection_concat_in_place col1 [] = Inr col1"
| "lwcollection_concat_in_place col1 (g # gs) =
     bindE (lwcollection_add_lwgeom col1 g) (\<lambda>col1. lwcollection_concat_in_place col1 gs)"

definition lwcurvepoly_construct_empty :: "int \<Rightarrow> bool \<Rightarrow> bool \<Rightarrow> lwgeom" where
  "lwcurvepoly_construct_empty s z m = LWCOLLECTION CURVEPOLYTYPE (empty_head s z m) 1 True []"

text \<open>The boolean is the return code.\<close>

definition lwcurvepoly_add_ring :: "lwgeom \<Rightarrow> lwgeom \<Rightarrow> lwerr + (bool \<times> lwgeom)" where
  "lwcurvepoly_add_ring poly ring =
     (case poly of
        LWCOLLECTION t h maxrings alloc rings \<Rightarrow>
          bindE (require (\<not> (\<not> alloc \<and> (rings \<noteq> [] \<or> maxrings \<noteq> 0)))
            ''Curvepolygon is in inconsistent state. Null memory but non-zero collection counts.'')
            (\<lambda>_.
          if \<not> (lwgeom_get_type ring = LINETYPE \<or> lwgeom_get_type ring = CIRCSTRINGTYPE \<or>
                lwgeom_get_type ring = COMPOUNDTYPE \<or> lwgeom_get_type ring = NURBSCURVETYPE)
          then Inr (False, poly)
          else
            let maxrings = (if alloc then maxrings else 2);
                rings = (if alloc then rings else []);
                maxrings = (if length rings = maxrings then maxrings * 2 mod 2 ^ 32 else maxrings)
            in if length rings < maxrings
               then Inr (True, LWCOLLECTION t h maxrings True (rings @ [ring])) else Inl MemFault)
      | _ \<Rightarrow> Inl MemFault)"

definition lwline_from_ring :: "int \<Rightarrow> pointarray \<Rightarrow> lwgeom" where
  "lwline_from_ring s pa =
     lwline_construct s None
       (pa\<lparr>maxpoints := npoints pa, pflags := flag_set (pflags pa) LWFLAG_READONLY False\<rparr>)"

definition lwcurvepoly_construct_from_lwpoly :: "lwgeom \<Rightarrow> lwgeom" where
  "lwcurvepoly_construct_from_lwpoly lwpoly =
     (case lwpoly of
        LWPOLY h maxrings rings \<Rightarrow>
          LWCOLLECTION CURVEPOLYTYPE h (length rings) True (map (lwline_from_ring (srid h)) rings)
      | g \<Rightarrow> g)"

section \<open>NURBS curves\<close>

definition fin_pos :: "double \<Rightarrow> bool" where
  "fin_pos w \<longleftrightarrow> dbl_isfinite w \<and> \<not> dbl_le w dbl_zero"

text \<open>The check of the knots from the second on: finite and not below the one before.\<close>

fun knots_ok :: "double list \<Rightarrow> bool" where
  "knots_ok (a # b # ks) \<longleftrightarrow> dbl_isfinite b \<and> \<not> dbl_lt b a \<and> knots_ok (b # ks)"
| "knots_ok ks \<longleftrightarrow> True"

definition lwnurbscurve_construct ::
  "int \<Rightarrow> gbox option \<Rightarrow> nat \<Rightarrow> pointarray option \<Rightarrow> double list option \<Rightarrow> double list option \<Rightarrow>
   lwerr + lwgeom" where
  "lwnurbscurve_construct s b degree points weights knots =
     bindE (require (\<not> (degree < 1 \<or> degree > 10)) ''NURBS: degree %u outside valid range [1,10]'') (\<lambda>_.
     bindE (require (case points of None \<Rightarrow> True
         | Some pa \<Rightarrow> \<not> (npoints pa > 0 \<and> npoints pa < degree + 1))
       ''NURBS: npoints (%u) must be at least degree + 1 (%u)'') (\<lambda>_.
     bindE (require (case (points, weights) of (Some pa, Some w) \<Rightarrow> length w = npoints pa | _ \<Rightarrow> True)
       ''NURBS: nweights (%u) must equal number of control points (%u)'') (\<lambda>_.
     bindE (require (case (points, knots) of (Some pa, Some k) \<Rightarrow> length k = (npoints pa + degree + 1) mod 2 ^ 32
         | _ \<Rightarrow> True)
       ''NURBS: nknots (%u) must equal npoints + degree + 1 (%u)'') (\<lambda>_.
     bindE (require (case weights of None \<Rightarrow> True | Some w \<Rightarrow> list_all fin_pos w)
       ''NURBS: weight[%u] = %g must be finite and > 0'') (\<lambda>_.
     bindE (require (case knots of None \<Rightarrow> True | Some k \<Rightarrow> knots_ok k)
       ''NURBS: knot[%u] = %g must be finite and >= knot[%u] = %g'') (\<lambda>_.
     Inr (LWNURBSCURVE
           \<lparr>bbox = b, srid = s, flags = (case points of None \<Rightarrow> 0 | Some pa \<Rightarrow> pflags pa)\<rparr>
           degree points
           (case weights of Some (w # ws) \<Rightarrow> Some (w # ws) | _ \<Rightarrow> None)
           (case knots of Some (k # ks) \<Rightarrow> Some (k # ks) | _ \<Rightarrow> None))))))))"

definition lwnurbscurve_construct_empty :: "int \<Rightarrow> bool \<Rightarrow> bool \<Rightarrow> lwgeom" where
  "lwnurbscurve_construct_empty s z m =
     LWNURBSCURVE (empty_head s z m) 1 (Some (ptarray_construct_empty z m 1)) None None"

text \<open>The clamped uniform vector: \<open>degree + 1\<close> zeros, the inner knots, \<open>degree + 1\<close> ones.\<close>

definition lwnurbscurve_generate_uniform_knots :: "nat \<Rightarrow> nat \<Rightarrow> double list option" where
  "lwnurbscurve_generate_uniform_knots degree n =
     (if degree = 0 \<or> n < degree + 1 then None
      else
        let nknots = n + degree + 1;
            internal_knots = nknots - 2 * (degree + 1)
        in Some (replicate (degree + 1) dbl_zero @
                 map (\<lambda>i. dbl_quot (i + 1) (internal_knots + 1)) [0..<internal_knots] @
                 replicate (degree + 1) dbl_one))"

definition lwnurbscurve_get_or_generate_knots ::
  "nat \<Rightarrow> pointarray option \<Rightarrow> double list option \<Rightarrow> double list option" where
  "lwnurbscurve_get_or_generate_knots degree points knots =
     (case points of
        None \<Rightarrow> None
      | Some pa \<Rightarrow>
          (case knots of
             Some (k # ks) \<Rightarrow> Some (k # ks)
           | _ \<Rightarrow> lwnurbscurve_generate_uniform_knots degree (npoints pa)))"

section \<open>Sized values\<close>

text \<open>
  A value of variable length as the server passes it: the size, which counts its own four
  bytes and is shifted on little-endian machines, and the data. \<open>size_t\<close> arguments of \<open>LWSIZE_SET\<close> are
  reduced to 32 bits.
\<close>

record lwvarlena =
  lv_size :: u32
  lv_data :: "byte list"

abbreviation LWVARHDRSZ :: nat where "LWVARHDRSZ \<equiv> 4"

definition lwvarlena_set :: "bool \<Rightarrow> nat \<Rightarrow> byte list \<Rightarrow> lwvarlena" where
  "lwvarlena_set be len data =
     \<lparr>lv_size = (if be then of_nat len AND 0x3FFFFFFF else push_bit 2 (of_nat len)), lv_data = data\<rparr>"

section \<open>Well-formed geometries\<close>

text \<open>
  What the constructors establish: every point array holds \<open>npoints\<close> complete points and
  has the dimensions its geometry announces, a point has at most one vertex, a NURBS
  curve satisfies the checks of \<open>lwnurbscurve_construct\<close>, and a collection has a
  collection type, only members its type allows and fewer than \<open>2 ^ 32\<close> of them.
\<close>

definition pa_wf :: "pointarray \<Rightarrow> bool" where
  "pa_wf pa \<longleftrightarrow> length (ptlist pa) = npoints pa * FLAGS_NDIMS (pflags pa) \<and> npoints pa < 2 ^ 32"

definition same_zm :: "u16 \<Rightarrow> u16 \<Rightarrow> bool" where
  "same_zm f g \<longleftrightarrow> hasz f = hasz g \<and> hasm f = hasm g"

fun lwgeom_wf :: "lwgeom \<Rightarrow> bool" where
  "lwgeom_wf (LWPOINT h pa) \<longleftrightarrow> pa_wf pa \<and> same_zm (flags h) (pflags pa) \<and> npoints pa \<le> 1"
| "lwgeom_wf (LWLINE h pa) \<longleftrightarrow> pa_wf pa \<and> same_zm (flags h) (pflags pa)"
| "lwgeom_wf (LWTRIANGLE h pa) \<longleftrightarrow> pa_wf pa \<and> same_zm (flags h) (pflags pa)"
| "lwgeom_wf (LWCIRCSTRING h pa) \<longleftrightarrow> pa_wf pa \<and> same_zm (flags h) (pflags pa)"
| "lwgeom_wf (LWPOLY h mr rs) \<longleftrightarrow>
     list_all (\<lambda>pa. pa_wf pa \<and> same_zm (flags h) (pflags pa)) rs \<and> length rs < 2 ^ 32"
| "lwgeom_wf (LWNURBSCURVE h d p w k) \<longleftrightarrow>
     (case p of
        None \<Rightarrow> w = None \<and> k = None
      | Some pa \<Rightarrow>
          pa_wf pa \<and> same_zm (flags h) (pflags pa) \<and> 1 \<le> d \<and> d \<le> 10 \<and>
          (npoints pa = 0 \<or> d < npoints pa) \<and>
          (case w of None \<Rightarrow> True | Some ws \<Rightarrow> length ws = npoints pa \<and> list_all fin_pos ws) \<and>
          (case k of None \<Rightarrow> True | Some ks \<Rightarrow> length ks = npoints pa + d + 1 \<and> knots_ok ks))"
| "lwgeom_wf (LWCOLLECTION t h mg al gs) \<longleftrightarrow>
     lwtype_is_collection t \<and> list_all lwgeom_wf gs \<and>
     list_all (\<lambda>g. lwcollection_allows_subtype t (lwgeom_get_type g)) gs \<and> length gs < 2 ^ 32"

lemma same_zm_ndims: "same_zm f g \<Longrightarrow> FLAGS_NDIMS f = FLAGS_NDIMS g"
  by (simp add: same_zm_def FLAGS_NDIMS_def)

lemma same_zm_refl [simp]: "same_zm f f"
  by (simp add: same_zm_def)

lemma same_zm_lwflags [simp]: "same_zm (lwflags z m g) (lwflags z m g')"
  by (simp add: same_zm_def)

lemma same_zm_bbox [simp]: "same_zm (flag_set f LWFLAG_BBOX v) g = same_zm f g"
  by (simp add: same_zm_def)

lemma length_pa_point: "pa_wf pa \<Longrightarrow> i < npoints pa \<Longrightarrow> k \<le> FLAGS_NDIMS (pflags pa) \<Longrightarrow>
    length (pa_point pa i k) = k"
proof -
  assume pa: "pa_wf pa" "i < npoints pa" "k \<le> FLAGS_NDIMS (pflags pa)"
  then have "Suc i * FLAGS_NDIMS (pflags pa) \<le> npoints pa * FLAGS_NDIMS (pflags pa)"
    by (intro mult_le_mono1) simp
  with pa show ?thesis by (simp add: pa_point_def pa_wf_def)
qed

lemma knots_generated:
  assumes "1 \<le> d" "d < npoints pa"
  shows "\<exists>k ks. lwnurbscurve_get_or_generate_knots d (Some pa) kn = Some (k # ks)"
  using assms by (auto simp: lwnurbscurve_get_or_generate_knots_def
      lwnurbscurve_generate_uniform_knots_def Let_def split: option.split list.split)

lemma lwtype_is_collection_cases:
  "lwtype_is_collection t \<Longrightarrow> t = 4 \<or> t = 5 \<or> t = 6 \<or> t = 7 \<or> t = 9 \<or> t = 10 \<or> t = 11 \<or> t = 12 \<or> t = 13 \<or> t = 15"
  by (auto simp: lwtype_is_collection_def)

section \<open>Growing a collection\<close>

text \<open>The capacity invariant of a collection that can grow: allocated, not full to zero.\<close>

fun growable :: "lwgeom \<Rightarrow> bool" where
  "growable (LWCOLLECTION t h mg al gs) \<longleftrightarrow> al \<and> 0 < mg \<and> length gs \<le> mg \<and> mg < 2 ^ 32"
| "growable g \<longleftrightarrow> False"

lemma lwcollection_reserve_one:
  assumes "0 < mg" "n \<le> mg" "mg < 2 ^ 32" "n < 2 ^ 31"
  shows "\<exists>mg'. lwcollection_reserve mg (n + 1) = Some mg' \<and> n < mg' \<and> 0 < mg' \<and> mg' < 2 ^ 32"
proof (cases "n + 1 \<le> mg")
  case True
  with assms show ?thesis by (simp add: lwcollection_reserve_def)
next
  case False
  with assms have "n = mg" by simp
  with assms False show ?thesis
    by (simp add: lwcollection_reserve_def reserve_loop.simps [of mg] Let_def)
qed

lemma lwcollection_add_lwgeom_ok:
  assumes "growable (LWCOLLECTION t h mg al gs)" "length gs < 2 ^ 31"
    and "lwcollection_allows_subtype t (lwgeom_get_type g)"
  shows "\<exists>mg'. lwcollection_add_lwgeom (LWCOLLECTION t h mg al gs) g =
      Inr (LWCOLLECTION t h mg' True (gs @ [g])) \<and>
    growable (LWCOLLECTION t h mg' True (gs @ [g]))"
  using lwcollection_reserve_one [of mg "length gs"] assms
  by (auto simp: lwcollection_add_lwgeom_def)

lemma lwcurvepoly_add_ring_ok:
  assumes "growable (LWCOLLECTION t h mg al gs)" "length gs < 2 ^ 31"
    and "lwgeom_get_type g \<in> {LINETYPE, CIRCSTRINGTYPE, COMPOUNDTYPE, NURBSCURVETYPE}"
  shows "\<exists>mg'. lwcurvepoly_add_ring (LWCOLLECTION t h mg al gs) g =
      Inr (True, LWCOLLECTION t h mg' True (gs @ [g])) \<and>
    growable (LWCOLLECTION t h mg' True (gs @ [g]))"
  using assms by (auto simp: lwcurvepoly_add_ring_def Let_def)

section \<open>Content\<close>

text \<open>
  What a geometry means, without what is bookkeeping: the cached box, the capacities, and
  the flags other than Z and M.
\<close>

definition zm_flags :: "u16 \<Rightarrow> u16" where
  "zm_flags f = lwflags (hasz f) (hasm f) False"

definition head_content :: "lwhead \<Rightarrow> lwhead" where
  "head_content h = \<lparr>bbox = None, srid = srid h, flags = zm_flags (flags h)\<rparr>"

definition pa_content :: "pointarray \<Rightarrow> pointarray" where
  "pa_content pa = pa\<lparr>maxpoints := npoints pa, pflags := zm_flags (pflags pa)\<rparr>"

fun lwgeom_content :: "lwgeom \<Rightarrow> lwgeom" where
  "lwgeom_content (LWPOINT h pa) = LWPOINT (head_content h) (pa_content pa)"
| "lwgeom_content (LWLINE h pa) = LWLINE (head_content h) (pa_content pa)"
| "lwgeom_content (LWTRIANGLE h pa) = LWTRIANGLE (head_content h) (pa_content pa)"
| "lwgeom_content (LWCIRCSTRING h pa) = LWCIRCSTRING (head_content h) (pa_content pa)"
| "lwgeom_content (LWPOLY h mr rs) = LWPOLY (head_content h) 0 (map pa_content rs)"
| "lwgeom_content (LWNURBSCURVE h d p w k) =
     LWNURBSCURVE (head_content h) d (map_option pa_content p) w k"
| "lwgeom_content (LWCOLLECTION t h mg al gs) =
     LWCOLLECTION t (head_content h) 0 False (map lwgeom_content gs)"

lemma zm_flags_eq: "zm_flags f = zm_flags g \<longleftrightarrow> same_zm f g"
  unfolding zm_flags_def same_zm_def by (metis lwflags_has_bits(1,2))

lemma zm_flags_lwflags [simp]: "zm_flags (lwflags z m g) = lwflags z m False"
  by (simp add: zm_flags_def)

lemma zm_flags_bbox [simp]: "zm_flags (flag_set f LWFLAG_BBOX v) = zm_flags f"
  by (simp add: zm_flags_def)

text \<open>The depth of nesting: empty collections are not entered by the readers.\<close>

fun lwgeom_depth :: "lwgeom \<Rightarrow> nat" where
  "lwgeom_depth (LWCOLLECTION t h mg al gs) =
     (if gs = [] then 0 else Suc (foldr max (map lwgeom_depth gs) 0))"
| "lwgeom_depth g = 0"

lemma foldr_max_bound: "x \<in> set xs \<Longrightarrow> x \<le> foldr max xs (0::nat)"
  by (induction xs) auto

lemma lwgeom_depth_member:
  "g \<in> set gs \<Longrightarrow> lwgeom_depth g < lwgeom_depth (LWCOLLECTION t h mg al gs)"
  using foldr_max_bound [of "lwgeom_depth g" "map lwgeom_depth gs"] by auto

end
