(* ===== verification/GBox.thy ===== *)
theory GBox
  imports LWTypes Float32
begin

text \<open>
  Bounding boxes (gbox.c): the tests and the operations on two boxes, the exact box of
  points, and the boxes of geometries. The boxes of arcs, of NURBS curves and of geodetic
  geometries come from floating point trigonometry, which is an argument of the
  definitions that use it; everything else only compares and copies coordinates, so it is
  exact.
\<close>

section \<open>Operations on boxes\<close>

definition fp_min :: "double \<Rightarrow> double \<Rightarrow> double" where
  "fp_min a b = (if dbl_lt a b then a else b)"

definition fp_max :: "double \<Rightarrow> double \<Rightarrow> double" where
  "fp_max a b = (if dbl_lt b a then a else b)"

definition gbox_init :: gbox where
  "gbox_init = \<lparr>gflags = 0, xmin = 0, xmax = 0, ymin = 0, ymax = 0, zmin = 0, zmax = 0, mmin = 0, mmax = 0\<rparr>"

definition gbox_new :: "u16 \<Rightarrow> gbox" where
  "gbox_new f = gbox_init\<lparr>gflags := f\<rparr>"

abbreviation geodetic :: "u16 \<Rightarrow> bool" where
  "geodetic f \<equiv> has_bits f LWFLAG_GEODETIC"

definition gbox_union :: "gbox option \<Rightarrow> gbox option \<Rightarrow> gbox \<Rightarrow> gbox option" where
  "gbox_union g1 g2 gout =
     (case (g1, g2) of
        (None, None) \<Rightarrow> None
      | (None, Some b) \<Rightarrow> Some b
      | (Some a, None) \<Rightarrow> Some a
      | (Some a, Some b) \<Rightarrow> Some (gout\<lparr>gflags := gflags a,
          xmin := fp_min (xmin a) (xmin b), xmax := fp_max (xmax a) (xmax b),
          ymin := fp_min (ymin a) (ymin b), ymax := fp_max (ymax a) (ymax b),
          zmin := fp_min (zmin a) (zmin b), zmax := fp_max (zmax a) (zmax b)\<rparr>))"

definition gbox_same_2d :: "gbox \<Rightarrow> gbox \<Rightarrow> bool" where
  "gbox_same_2d g1 g2 \<longleftrightarrow> dbl_eq (xmin g1) (xmin g2) \<and> dbl_eq (ymin g1) (ymin g2) \<and>
     dbl_eq (xmax g1) (xmax g2) \<and> dbl_eq (ymax g1) (ymax g2)"

definition gbox_same :: "gbox \<Rightarrow> gbox \<Rightarrow> bool" where
  "gbox_same g1 g2 \<longleftrightarrow>
     (if FLAGS_GET_ZM (gflags g1) \<noteq> FLAGS_GET_ZM (gflags g2) then False
      else if \<not> gbox_same_2d g1 g2 then False
      else if hasz (gflags g1) \<and> (\<not> dbl_eq (zmin g1) (zmin g2) \<or> \<not> dbl_eq (zmax g1) (zmax g2)) then False
      else if hasm (gflags g1) \<and> (\<not> dbl_eq (mmin g1) (mmin g2) \<or> \<not> dbl_eq (mmax g1) (mmax g2)) then False
      else True)"

text \<open>Two floats compared with \<open>==\<close>.\<close>

definition flt_eq :: "float32 \<Rightarrow> float32 \<Rightarrow> bool" where
  "flt_eq a b \<longleftrightarrow> \<not> flt_isnan a \<and> \<not> flt_isnan b \<and> flt_ord a = flt_ord b"

definition gbox_same_2d_float :: "gbox \<Rightarrow> gbox \<Rightarrow> bool" where
  "gbox_same_2d_float g1 g2 \<longleftrightarrow>
     (dbl_eq (xmax g1) (xmax g2) \<or> flt_eq (next_float_up (xmax g1)) (next_float_up (xmax g2))) \<and>
     (dbl_eq (ymax g1) (ymax g2) \<or> flt_eq (next_float_up (ymax g1)) (next_float_up (ymax g2))) \<and>
     (dbl_eq (xmin g1) (xmin g2) \<or> flt_eq (next_float_down (xmin g1)) (next_float_down (xmin g1))) \<and>
     (dbl_eq (ymin g1) (ymin g2) \<or> flt_eq (next_float_down (ymin g2)) (next_float_down (ymin g2)))"

definition gbox_is_valid :: "gbox \<Rightarrow> bool" where
  "gbox_is_valid b \<longleftrightarrow>
     dbl_isfinite (xmin b) \<and> dbl_isfinite (xmax b) \<and> dbl_isfinite (ymin b) \<and> dbl_isfinite (ymax b) \<and>
     (geodetic (gflags b) \<or> hasz (gflags b) \<longrightarrow> dbl_isfinite (zmin b) \<and> dbl_isfinite (zmax b)) \<and>
     (hasm (gflags b) \<longrightarrow> dbl_isfinite (mmin b) \<and> dbl_isfinite (mmax b))"

text \<open>Replace an extremum by a better one.\<close>

definition lower :: "double \<Rightarrow> double \<Rightarrow> double" where
  "lower new old = (if dbl_lt new old then new else old)"

definition higher :: "double \<Rightarrow> double \<Rightarrow> double" where
  "higher new old = (if dbl_lt old new then new else old)"

definition gbox_merge_point3d :: "double \<times> double \<times> double \<Rightarrow> gbox \<Rightarrow> gbox" where
  "gbox_merge_point3d p b = (case p of (x, y, z) \<Rightarrow>
     b\<lparr>xmin := lower x (xmin b), ymin := lower y (ymin b), zmin := lower z (zmin b),
       xmax := higher x (xmax b), ymax := higher y (ymax b), zmax := higher z (zmax b)\<rparr>)"

definition gbox_init_point3d :: "double \<times> double \<times> double \<Rightarrow> gbox \<Rightarrow> gbox" where
  "gbox_init_point3d p b = (case p of (x, y, z) \<Rightarrow>
     b\<lparr>xmin := x, xmax := x, ymin := y, ymax := y, zmin := z, zmax := z\<rparr>)"

definition gbox_contains_point3d :: "gbox \<Rightarrow> double \<times> double \<times> double \<Rightarrow> bool" where
  "gbox_contains_point3d b p = (case p of (x, y, z) \<Rightarrow>
     \<not> (dbl_lt x (xmin b) \<or> dbl_lt y (ymin b) \<or> dbl_lt z (zmin b) \<or>
        dbl_lt (xmax b) x \<or> dbl_lt (ymax b) y \<or> dbl_lt (zmax b) z))"

definition gbox_merge :: "gbox \<Rightarrow> gbox \<Rightarrow> gbox option" where
  "gbox_merge new b =
     (if FLAGS_GET_ZM (gflags b) \<noteq> FLAGS_GET_ZM (gflags new) then None
      else
        let b = b\<lparr>xmin := lower (xmin new) (xmin b), ymin := lower (ymin new) (ymin b),
                  xmax := higher (xmax new) (xmax b), ymax := higher (ymax new) (ymax b)\<rparr>;
            b = (if hasz (gflags b) \<or> geodetic (gflags b)
                 then b\<lparr>zmin := lower (zmin new) (zmin b), zmax := higher (zmax new) (zmax b)\<rparr> else b)
        in Some (if hasm (gflags b)
                 then b\<lparr>mmin := lower (mmin new) (mmin b), mmax := higher (mmax new) (mmax b)\<rparr> else b))"

definition apart_2d :: "gbox \<Rightarrow> gbox \<Rightarrow> bool" where
  "apart_2d g1 g2 \<longleftrightarrow> dbl_lt (xmax g1) (xmin g2) \<or> dbl_lt (ymax g1) (ymin g2) \<or>
     dbl_lt (xmax g2) (xmin g1) \<or> dbl_lt (ymax g2) (ymin g1)"

definition gbox_overlaps :: "gbox \<Rightarrow> gbox \<Rightarrow> lwerr + bool" where
  "gbox_overlaps g1 g2 =
     bindE (require (geodetic (gflags g1) = geodetic (gflags g2))
       ''gbox_overlaps: cannot compare geodetic and non-geodetic boxes'') (\<lambda>_. Inr (
     if apart_2d g1 g2 then False
     else if geodetic (gflags g1) \<and> geodetic (gflags g2)
       then \<not> (dbl_lt (zmax g1) (zmin g2) \<or> dbl_lt (zmax g2) (zmin g1))
     else if hasz (gflags g1) \<and> hasz (gflags g2) \<and>
       (dbl_lt (zmax g1) (zmin g2) \<or> dbl_lt (zmax g2) (zmin g1)) then False
     else if hasm (gflags g1) \<and> hasm (gflags g2) \<and>
       (dbl_lt (mmax g1) (mmin g2) \<or> dbl_lt (mmax g2) (mmin g1)) then False
     else True))"

definition gbox_overlaps_2d :: "gbox \<Rightarrow> gbox \<Rightarrow> lwerr + bool" where
  "gbox_overlaps_2d g1 g2 =
     bindE (require (geodetic (gflags g1) = geodetic (gflags g2))
       ''gbox_overlaps: cannot compare geodetic and non-geodetic boxes'') (\<lambda>_. Inr (\<not> apart_2d g1 g2))"

definition gbox_contains_2d :: "gbox \<Rightarrow> gbox \<Rightarrow> bool" where
  "gbox_contains_2d g1 g2 \<longleftrightarrow> \<not> (dbl_lt (xmin g2) (xmin g1) \<or> dbl_lt (xmax g1) (xmax g2) \<or>
     dbl_lt (ymin g2) (ymin g1) \<or> dbl_lt (ymax g1) (ymax g2))"

definition gbox_within_2d :: "gbox \<Rightarrow> gbox \<Rightarrow> bool" where
  "gbox_within_2d g1 g2 \<longleftrightarrow> \<not> (dbl_lt (xmin g1) (xmin g2) \<or> dbl_lt (xmax g2) (xmax g1) \<or>
     dbl_lt (ymin g1) (ymin g2) \<or> dbl_lt (ymax g2) (ymax g1))"

definition gbox_contains_point2d :: "gbox \<Rightarrow> double \<times> double \<Rightarrow> bool" where
  "gbox_contains_point2d g p = (case p of (x, y) \<Rightarrow>
     dbl_le (xmin g) x \<and> dbl_le x (xmax g) \<and> dbl_le (ymin g) y \<and> dbl_le y (ymax g))"

definition gbox_serialized_size :: "u16 \<Rightarrow> nat" where
  "gbox_serialized_size f = (if geodetic f then 6 * 4 else 2 * FLAGS_NDIMS f * 4)"

definition gbox_float_round :: "gbox \<Rightarrow> gbox" where
  "gbox_float_round b =
     (let up = (\<lambda>d. dbl_of_float (next_float_up d)); down = (\<lambda>d. dbl_of_float (next_float_down d));
          b = b\<lparr>xmin := down (xmin b), xmax := up (xmax b), ymin := down (ymin b), ymax := up (ymax b)\<rparr>;
          b = (if hasm (gflags b) then b\<lparr>mmin := down (mmin b), mmax := up (mmax b)\<rparr> else b)
      in if hasz (gflags b) then b\<lparr>zmin := down (zmin b), zmax := up (zmax b)\<rparr> else b)"

section \<open>The boxes of geometries\<close>

definition box_start :: "double list \<Rightarrow> gbox \<Rightarrow> gbox" where
  "box_start p b = b\<lparr>xmax := p ! 0, xmin := p ! 0, ymax := p ! 1, ymin := p ! 1\<rparr>"

definition box_add :: "double list \<Rightarrow> gbox \<Rightarrow> gbox" where
  "box_add p b = b\<lparr>xmin := fp_min (xmin b) (p ! 0), xmax := fp_max (xmax b) (p ! 0),
     ymin := fp_min (ymin b) (p ! 1), ymax := fp_max (ymax b) (p ! 1)\<rparr>"

definition ptarray_calculate_gbox_cartesian_2d :: "pointarray \<Rightarrow> gbox \<Rightarrow> gbox" where
  "ptarray_calculate_gbox_cartesian_2d pa b =
     fold (\<lambda>i. box_add (pa_point pa i 2)) [1..<npoints pa] (box_start (pa_point pa 0 2) b)"

definition box_start_3d :: "double list \<Rightarrow> gbox \<Rightarrow> gbox" where
  "box_start_3d p b = (box_start p b)\<lparr>zmax := p ! 2, zmin := p ! 2\<rparr>"

definition box_add_3d :: "double list \<Rightarrow> gbox \<Rightarrow> gbox" where
  "box_add_3d p b = (box_add p b)\<lparr>zmin := fp_min (zmin b) (p ! 2), zmax := fp_max (zmax b) (p ! 2)\<rparr>"

definition ptarray_calculate_gbox_cartesian_3d :: "pointarray \<Rightarrow> gbox \<Rightarrow> gbox" where
  "ptarray_calculate_gbox_cartesian_3d pa b =
     fold (\<lambda>i. box_add_3d (pa_point pa i 3)) [1..<npoints pa] (box_start_3d (pa_point pa 0 3) b)"

definition box_start_4d :: "double list \<Rightarrow> gbox \<Rightarrow> gbox" where
  "box_start_4d p b = (box_start_3d p b)\<lparr>mmax := p ! 3, mmin := p ! 3\<rparr>"

definition box_add_4d :: "double list \<Rightarrow> gbox \<Rightarrow> gbox" where
  "box_add_4d p b = (box_add_3d p b)\<lparr>mmin := fp_min (mmin b) (p ! 3), mmax := fp_max (mmax b) (p ! 3)\<rparr>"

definition ptarray_calculate_gbox_cartesian_4d :: "pointarray \<Rightarrow> gbox \<Rightarrow> gbox" where
  "ptarray_calculate_gbox_cartesian_4d pa b =
     fold (\<lambda>i. box_add_4d (pa_point pa i 4)) [1..<npoints pa] (box_start_4d (pa_point pa 0 4) b)"

text \<open>The box is written in place: the result is whether it was, and what it holds then.\<close>

definition ptarray_calculate_gbox_cartesian :: "pointarray \<Rightarrow> gbox \<Rightarrow> bool \<times> gbox" where
  "ptarray_calculate_gbox_cartesian pa b =
     (if npoints pa = 0 then (False, b)
      else
        let has_z = hasz (pflags pa); has_m = hasm (pflags pa); b = b\<lparr>gflags := lwflags has_z has_m False\<rparr>
        in (True,
            if \<not> has_z \<and> \<not> has_m then ptarray_calculate_gbox_cartesian_2d pa b
            else if has_z \<and> has_m then ptarray_calculate_gbox_cartesian_4d pa b
            else if has_z then ptarray_calculate_gbox_cartesian_3d pa b
            else let c = ptarray_calculate_gbox_cartesian_3d pa b
                 in c\<lparr>mmin := zmin c, mmax := zmax c, zmin := zmin b, zmax := zmax b\<rparr>))"

text \<open>What is computed in floating point: the box of an arc through three points of four
  coordinates, of a NURBS curve, and of a geodetic geometry, each written in place.\<close>

record box_calc =
  arc_box :: "double list \<Rightarrow> double list \<Rightarrow> double list \<Rightarrow> gbox \<Rightarrow> bool \<times> gbox"
  nurbs_box :: "lwgeom \<Rightarrow> gbox \<Rightarrow> bool \<times> gbox"
  geodetic_box :: "lwgeom \<Rightarrow> gbox \<Rightarrow> bool \<times> gbox"

definition getPoint4d_p :: "pointarray \<Rightarrow> nat \<Rightarrow> double list" where
  "getPoint4d_p pa i =
     (let p = pa_point pa i (FLAGS_NDIMS (pflags pa)) in
      if hasz (pflags pa) then (if hasm (pflags pa) then p else p @ [0])
      else if hasm (pflags pa) then [p ! 0, p ! 1, 0, p ! 2] else p @ [0, 0])"

definition merged :: "gbox \<Rightarrow> gbox \<Rightarrow> gbox" where
  "merged new b = (case gbox_merge new b of None \<Rightarrow> b | Some b \<Rightarrow> b)"

text \<open>The loop over the arcs that start at every other point; \<open>tmp\<close> is the box of one arc.\<close>

function circstring_arcs :: "box_calc \<Rightarrow> pointarray \<Rightarrow> nat \<Rightarrow> gbox \<Rightarrow> gbox \<Rightarrow> gbox" where
  "circstring_arcs calc pa i tmp b =
     (if i < npoints pa then
        case arc_box calc (getPoint4d_p pa (i - 2)) (getPoint4d_p pa (i - 1)) (getPoint4d_p pa i) tmp of
          (ok, tmp) \<Rightarrow> circstring_arcs calc pa (i + 2) tmp (if ok then merged tmp b else b)
      else b)"
  by pat_completeness auto
termination by (relation "measure (\<lambda>(calc, pa, i, tmp, b). npoints pa - i)") auto

declare circstring_arcs.simps [simp del]

definition lwcircstring_calculate_gbox_cartesian ::
  "box_calc \<Rightarrow> lwhead \<Rightarrow> pointarray \<Rightarrow> gbox \<Rightarrow> bool \<times> gbox" where
  "lwcircstring_calculate_gbox_cartesian calc h pa b =
     (if npoints pa < 3 then (False, b)
      else
        let lo = dbl_of_float FLT_MAX; hi = dbl_of_float FLT_MIN_MAX;
            b = b\<lparr>xmin := lo, ymin := lo, zmin := lo, mmin := lo,
                  xmax := hi, ymax := hi, zmax := hi, mmax := hi\<rparr>
        in (True, circstring_arcs calc pa 2 (gbox_new (lwflags (hasz (flags h)) (hasm (flags h)) False)) b))"

fun lwgeom_calculate_gbox_cartesian :: "box_calc \<Rightarrow> lwgeom \<Rightarrow> gbox \<Rightarrow> bool \<times> gbox" where
  "lwgeom_calculate_gbox_cartesian calc (LWPOINT h pa) b = ptarray_calculate_gbox_cartesian pa b"
| "lwgeom_calculate_gbox_cartesian calc (LWLINE h pa) b = ptarray_calculate_gbox_cartesian pa b"
| "lwgeom_calculate_gbox_cartesian calc (LWTRIANGLE h pa) b = ptarray_calculate_gbox_cartesian pa b"
| "lwgeom_calculate_gbox_cartesian calc (LWCIRCSTRING h pa) b =
     lwcircstring_calculate_gbox_cartesian calc h pa b"
| "lwgeom_calculate_gbox_cartesian calc (LWPOLY h mr rs) b =
     (case rs of [] \<Rightarrow> (False, b) | r # _ \<Rightarrow> ptarray_calculate_gbox_cartesian r b)"
| "lwgeom_calculate_gbox_cartesian calc (LWNURBSCURVE h d p w k) b =
     nurbs_box calc (LWNURBSCURVE h d p w k) b"
| "lwgeom_calculate_gbox_cartesian calc (LWCOLLECTION t h mg al gs) b =
     (case fold (\<lambda>g (found, sub, b).
        case lwgeom_calculate_gbox_cartesian calc g sub of
          (ok, sub) \<Rightarrow> (found \<or> ok, sub, if \<not> ok then b else if found then merged sub b else sub))
        gs (False, gbox_new (flags h), b)
      of (found, sub, b) \<Rightarrow> (found, b))"

definition lwgeom_calculate_gbox :: "box_calc \<Rightarrow> lwgeom \<Rightarrow> gbox \<Rightarrow> bool \<times> gbox" where
  "lwgeom_calculate_gbox calc g b =
     (let b = b\<lparr>gflags := lwgeom_flags g\<rparr>
      in if geodetic (lwgeom_flags g) then geodetic_box calc g b
         else lwgeom_calculate_gbox_cartesian calc g b)"

fun lwgeom_count_vertices :: "lwgeom \<Rightarrow> nat" where
  "lwgeom_count_vertices (LWPOINT h pa) = (if lwgeom_is_empty (LWPOINT h pa) then 0 else 1)"
| "lwgeom_count_vertices (LWLINE h pa) = (if lwgeom_is_empty (LWLINE h pa) then 0 else npoints pa)"
| "lwgeom_count_vertices (LWTRIANGLE h pa) = (if lwgeom_is_empty (LWTRIANGLE h pa) then 0 else npoints pa)"
| "lwgeom_count_vertices (LWCIRCSTRING h pa) = (if lwgeom_is_empty (LWCIRCSTRING h pa) then 0 else npoints pa)"
| "lwgeom_count_vertices (LWPOLY h mr rs) =
     (if lwgeom_is_empty (LWPOLY h mr rs) then 0 else sum_list (map npoints rs) mod 2 ^ 32)"
| "lwgeom_count_vertices (LWNURBSCURVE h d p w k) = (case p of None \<Rightarrow> 0 | Some pa \<Rightarrow> npoints pa)"
| "lwgeom_count_vertices (LWCOLLECTION t h mg al gs) =
     (if lwgeom_is_empty (LWCOLLECTION t h mg al gs) then 0
      else sum_list (map lwgeom_count_vertices gs) mod 2 ^ 32)"

definition lwgeom_needs_bbox :: "lwgeom \<Rightarrow> bool" where
  "lwgeom_needs_bbox g =
     (case g of
        LWPOINT h pa \<Rightarrow> False
      | LWLINE h pa \<Rightarrow> \<not> lwgeom_count_vertices g \<le> 2
      | LWNURBSCURVE h d p w k \<Rightarrow> (case p of None \<Rightarrow> False | Some pa \<Rightarrow> npoints pa \<noteq> 0 \<and> npoints pa \<noteq> 1)
      | LWCOLLECTION t h mg al gs \<Rightarrow>
          if t = MULTIPOINTTYPE then length gs \<noteq> 1
          else if t = MULTILINETYPE then \<not> (length gs = 1 \<and> lwgeom_count_vertices g \<le> 2)
          else True
      | _ \<Rightarrow> True)"

definition lwgeom_add_bbox :: "box_calc \<Rightarrow> lwgeom \<Rightarrow> lwgeom" where
  "lwgeom_add_bbox calc g =
     (if lwgeom_is_empty g \<or> bbox (lwhead_of g) \<noteq> None then g
      else
        let g = map_lwhead (\<lambda>h. h\<lparr>flags := flag_set (flags h) LWFLAG_BBOX True\<rparr>) g
        in map_lwhead (\<lambda>h. h\<lparr>bbox := Some (snd (lwgeom_calculate_gbox calc g (gbox_new (lwgeom_flags g))))\<rparr>) g)"

section \<open>The box of points is exact\<close>

definition coord :: "pointarray \<Rightarrow> nat \<Rightarrow> nat \<Rightarrow> double" where
  "coord pa j i = ptlist pa ! (i * FLAGS_NDIMS (pflags pa) + j)"

definition pa_coords_of :: "pointarray \<Rightarrow> nat \<Rightarrow> double set" where
  "pa_coords_of pa j = coord pa j ` {..<npoints pa}"

text \<open>The least and the greatest number of a set.\<close>

definition extent :: "double set \<Rightarrow> double \<Rightarrow> double \<Rightarrow> bool" where
  "extent S lo hi \<longleftrightarrow> (\<forall>x \<in> S. dbl_le lo x \<and> dbl_le x hi) \<and> lo \<in> S \<and> hi \<in> S"

lemma fp_min_props:
  assumes "\<not> dbl_isnan a" "\<not> dbl_isnan b"
  shows "\<not> dbl_isnan (fp_min a b)" "dbl_le (fp_min a b) a" "dbl_le (fp_min a b) b" "fp_min a b \<in> {a, b}"
  using assms by (auto simp: fp_min_def dbl_le_def dbl_lt_def)

lemma fp_max_props:
  assumes "\<not> dbl_isnan a" "\<not> dbl_isnan b"
  shows "\<not> dbl_isnan (fp_max a b)" "dbl_le a (fp_max a b)" "dbl_le b (fp_max a b)" "fp_max a b \<in> {a, b}"
  using assms by (auto simp: fp_max_def dbl_le_def dbl_lt_def)

abbreviation fold_min :: "(nat \<Rightarrow> double) \<Rightarrow> nat list \<Rightarrow> double \<Rightarrow> double" where
  "fold_min f \<equiv> fold (\<lambda>i m. fp_min m (f i))"

abbreviation fold_max :: "(nat \<Rightarrow> double) \<Rightarrow> nat list \<Rightarrow> double \<Rightarrow> double" where
  "fold_max f \<equiv> fold (\<lambda>i m. fp_max m (f i))"

lemma fold_min_props:
  assumes "\<not> dbl_isnan a" "\<forall>i \<in> set is. \<not> dbl_isnan (f i)"
  shows "dbl_le (fold_min f is a) a \<and> (\<forall>i \<in> set is. dbl_le (fold_min f is a) (f i)) \<and>
    fold_min f is a \<in> insert a (f ` set is)"
  using assms
proof (induction "is" arbitrary: a)
  case Nil
  then show ?case by (simp add: dbl_le_refl)
next
  case (Cons i "is")
  note p = fp_min_props [of a "f i"]
  have n: "\<not> dbl_isnan (f i)" using Cons.prems by simp
  from Cons.IH [of "fp_min a (f i)"] Cons.prems p(1) n
  have "dbl_le (fold_min f is (fp_min a (f i))) (fp_min a (f i))"
    "\<forall>j \<in> set is. dbl_le (fold_min f is (fp_min a (f i))) (f j)"
    "fold_min f is (fp_min a (f i)) \<in> insert (fp_min a (f i)) (f ` set is)" by auto
  with p(2-4) Cons.prems(1) n show ?case by (auto intro: dbl_le_trans)
qed

lemma fold_max_props:
  assumes "\<not> dbl_isnan a" "\<forall>i \<in> set is. \<not> dbl_isnan (f i)"
  shows "dbl_le a (fold_max f is a) \<and> (\<forall>i \<in> set is. dbl_le (f i) (fold_max f is a)) \<and>
    fold_max f is a \<in> insert a (f ` set is)"
  using assms
proof (induction "is" arbitrary: a)
  case Nil
  then show ?case by (simp add: dbl_le_refl)
next
  case (Cons i "is")
  note p = fp_max_props [of a "f i"]
  have n: "\<not> dbl_isnan (f i)" using Cons.prems by simp
  from Cons.IH [of "fp_max a (f i)"] Cons.prems p(1) n
  have "dbl_le (fp_max a (f i)) (fold_max f is (fp_max a (f i)))"
    "\<forall>j \<in> set is. dbl_le (f j) (fold_max f is (fp_max a (f i)))"
    "fold_max f is (fp_max a (f i)) \<in> insert (fp_max a (f i)) (f ` set is)" by auto
  with p(2-4) Cons.prems(1) n show ?case by (auto intro: dbl_le_trans)
qed

lemma extent_fold:
  assumes "0 < n" "\<forall>i<n. \<not> dbl_isnan (f i)"
  shows "extent (f ` {..<n}) (fold_min f [1..<n] (f 0)) (fold_max f [1..<n] (f 0))"
proof -
  have nan: "\<not> dbl_isnan (f 0)" "\<forall>i \<in> set [1..<n]. \<not> dbl_isnan (f i)" using assms by auto
  have split: "i = 0 \<or> i \<in> set [1..<n]" if "i < n" for i using that by auto
  have "insert 0 (set [1..<n]) = {..<n}" using assms(1) split by auto
  then have eq: "insert (f 0) (f ` set [1..<n]) = f ` {..<n}" by (metis image_insert)
  show ?thesis
    unfolding extent_def
    using fold_min_props [OF nan, unfolded eq] fold_max_props [OF nan, unfolded eq] split by blast
qed

lemma fold_box_add:
  "fold (\<lambda>i. box_add (P i)) is b = b\<lparr>
     xmin := fold_min (\<lambda>i. P i ! 0) is (xmin b), xmax := fold_max (\<lambda>i. P i ! 0) is (xmax b),
     ymin := fold_min (\<lambda>i. P i ! 1) is (ymin b), ymax := fold_max (\<lambda>i. P i ! 1) is (ymax b)\<rparr>"
  by (induction "is" arbitrary: b) (simp_all add: box_add_def)

lemma fold_box_add_3d:
  "fold (\<lambda>i. box_add_3d (P i)) is b = (fold (\<lambda>i. box_add (P i)) is b)\<lparr>
     zmin := fold_min (\<lambda>i. P i ! 2) is (zmin b), zmax := fold_max (\<lambda>i. P i ! 2) is (zmax b)\<rparr>"
  by (induction "is" arbitrary: b) (simp_all add: box_add_3d_def fold_box_add box_add_def)

lemma fold_box_add_4d:
  "fold (\<lambda>i. box_add_4d (P i)) is b = (fold (\<lambda>i. box_add_3d (P i)) is b)\<lparr>
     mmin := fold_min (\<lambda>i. P i ! 3) is (mmin b), mmax := fold_max (\<lambda>i. P i ! 3) is (mmax b)\<rparr>"
  by (induction "is" arbitrary: b) (simp_all add: box_add_4d_def fold_box_add_3d fold_box_add box_add_3d_def box_add_def)

text \<open>A box that fits points given by their coordinates: the extent in every dimension.\<close>

definition box_fits :: "u16 \<Rightarrow> (nat \<Rightarrow> double set) \<Rightarrow> gbox \<Rightarrow> bool" where
  "box_fits f C c \<longleftrightarrow> same_zm (gflags c) f \<and> \<not> geodetic (gflags c) \<and>
     extent (C 0) (xmin c) (xmax c) \<and> extent (C 1) (ymin c) (ymax c) \<and>
     (hasz f \<longrightarrow> extent (C 2) (zmin c) (zmax c)) \<and>
     (hasm f \<longrightarrow> extent (C (FLAGS_NDIMS f - 1)) (mmin c) (mmax c))"

lemma pa_point_coord: "j < k \<Longrightarrow> k \<le> FLAGS_NDIMS (pflags pa) \<Longrightarrow> pa_wf pa \<Longrightarrow> i < npoints pa \<Longrightarrow>
    pa_point pa i k ! j = coord pa j i"
proof -
  assume a: "j < k" "k \<le> FLAGS_NDIMS (pflags pa)" "pa_wf pa" "i < npoints pa"
  then have "i * FLAGS_NDIMS (pflags pa) \<le> length (ptlist pa)" by (simp add: pa_wf_def)
  with a(1) show ?thesis by (simp add: pa_point_def coord_def)
qed

lemma coord_not_nan:
  assumes "pa_wf pa" "list_all (\<lambda>d. \<not> dbl_isnan d) (ptlist pa)" "i < npoints pa" "j < FLAGS_NDIMS (pflags pa)"
  shows "\<not> dbl_isnan (coord pa j i)"
proof -
  have "i * FLAGS_NDIMS (pflags pa) + j < Suc i * FLAGS_NDIMS (pflags pa)" using assms(4) by simp
  also have "\<dots> \<le> npoints pa * FLAGS_NDIMS (pflags pa)" using assms(3) by (intro mult_le_mono1) simp
  finally have "i * FLAGS_NDIMS (pflags pa) + j < length (ptlist pa)" using assms(1) by (simp add: pa_wf_def)
  with assms(2) show ?thesis by (simp add: coord_def list_all_length)
qed

lemma fold_min_cong: "(\<And>i. i \<in> set is \<Longrightarrow> f i = g i) \<Longrightarrow> fold_min f is a = fold_min g is a"
  by (rule fold_cong) auto

lemma fold_max_cong: "(\<And>i. i \<in> set is \<Longrightarrow> f i = g i) \<Longrightarrow> fold_max f is a = fold_max g is a"
  by (rule fold_cong) auto

lemma extent_points:
  assumes "pa_wf pa" "0 < npoints pa" "list_all (\<lambda>d. \<not> dbl_isnan d) (ptlist pa)"
    and "j < k" "k \<le> FLAGS_NDIMS (pflags pa)"
  shows "extent (pa_coords_of pa j)
    (fold_min (\<lambda>i. pa_point pa i k ! j) [1..<npoints pa] (pa_point pa 0 k ! j))
    (fold_max (\<lambda>i. pa_point pa i k ! j) [1..<npoints pa] (pa_point pa 0 k ! j))"
proof -
  have c: "pa_point pa i k ! j = coord pa j i" if "i < npoints pa" for i
    using pa_point_coord [OF assms(4,5,1) that] .
  have "fold_min (\<lambda>i. pa_point pa i k ! j) [1..<npoints pa] a = fold_min (coord pa j) [1..<npoints pa] a"
    "fold_max (\<lambda>i. pa_point pa i k ! j) [1..<npoints pa] a = fold_max (coord pa j) [1..<npoints pa] a" for a
    by (intro fold_min_cong fold_max_cong; simp add: c)+
  with extent_fold [OF assms(2), of "coord pa j"] coord_not_nan [OF assms(1,3)] assms(2,4,5) c
  show ?thesis by (simp add: pa_coords_of_def)
qed

lemma ptarray_gbox_fits:
  assumes "pa_wf pa" "0 < npoints pa" "list_all (\<lambda>d. \<not> dbl_isnan d) (ptlist pa)"
  shows "\<exists>c. ptarray_calculate_gbox_cartesian pa b = (True, c) \<and> box_fits (pflags pa) (pa_coords_of pa) c"
proof -
  have nd: "FLAGS_NDIMS (pflags pa) = 2 + of_bool (hasz (pflags pa)) + of_bool (hasm (pflags pa))"
    by (simp add: FLAGS_NDIMS_def)
  note e = extent_points [OF assms]
  consider "\<not> hasz (pflags pa)" "\<not> hasm (pflags pa)" | "hasz (pflags pa)" "\<not> hasm (pflags pa)"
    | "\<not> hasz (pflags pa)" "hasm (pflags pa)" | "hasz (pflags pa)" "hasm (pflags pa)" by blast
  then show ?thesis
  proof cases
    case 1
    with assms(2) nd e [of 0 2] e [of 1 2] show ?thesis
      by (simp add: ptarray_calculate_gbox_cartesian_def ptarray_calculate_gbox_cartesian_2d_def Let_def
          fold_box_add box_start_def box_fits_def same_zm_def)
  next
    case 2
    with assms(2) nd e [of 0 3] e [of 1 3] e [of 2 3] show ?thesis
      by (simp add: ptarray_calculate_gbox_cartesian_def ptarray_calculate_gbox_cartesian_3d_def Let_def
          fold_box_add fold_box_add_3d box_start_def box_start_3d_def box_fits_def same_zm_def)
  next
    case 3
    with assms(2) nd e [of 0 3] e [of 1 3] e [of 2 3] show ?thesis
      by (simp add: ptarray_calculate_gbox_cartesian_def ptarray_calculate_gbox_cartesian_3d_def Let_def
          fold_box_add fold_box_add_3d box_start_def box_start_3d_def box_fits_def same_zm_def)
  next
    case 4
    with assms(2) nd e [of 0 4] e [of 1 4] e [of 2 4] e [of 3 4] show ?thesis
      by (simp add: ptarray_calculate_gbox_cartesian_def ptarray_calculate_gbox_cartesian_4d_def Let_def
          fold_box_add fold_box_add_3d fold_box_add_4d box_start_def box_start_3d_def box_start_4d_def
          box_fits_def same_zm_def)
  qed
qed

section \<open>The boxes of geometries are exact\<close>

lemma extent_merge:
  assumes "extent S a b" "extent T c d"
  shows "extent (S \<union> T) (lower c a) (higher d b)"
proof -
  have n: "\<not> dbl_isnan a" "\<not> dbl_isnan b" "\<not> dbl_isnan c" "\<not> dbl_isnan d"
    using assms by (auto simp: extent_def dbl_le_def)
  have "dbl_le (lower c a) a" "dbl_le (lower c a) c" "lower c a \<in> {a, c}"
    "dbl_le b (higher d b)" "dbl_le d (higher d b)" "higher d b \<in> {b, d}"
    using n by (auto simp: lower_def higher_def dbl_le_def dbl_lt_def)
  with assms show ?thesis unfolding extent_def by (auto intro: dbl_le_trans)
qed

lemma same_zm_GET_ZM: "same_zm f g \<Longrightarrow> FLAGS_GET_ZM f = FLAGS_GET_ZM g"
  by (simp add: same_zm_def FLAGS_GET_ZM_def)

lemma box_fits_merge:
  assumes "box_fits f C b" "box_fits f D new"
  shows "gbox_merge new b = Some (merged new b)" "box_fits f (\<lambda>j. C j \<union> D j) (merged new b)"
proof -
  have z: "same_zm (gflags b) f" "same_zm (gflags new) f" "\<not> geodetic (gflags b)"
    using assms by (simp_all add: box_fits_def)
  then have eq: "FLAGS_GET_ZM (gflags b) = FLAGS_GET_ZM (gflags new)"
    using same_zm_GET_ZM by metis
  have zm: "hasz (gflags b) = hasz f" "hasm (gflags b) = hasm f" using z(1) by (simp_all add: same_zm_def)
  show "gbox_merge new b = Some (merged new b)" using eq by (simp add: merged_def gbox_merge_def Let_def)
  show "box_fits f (\<lambda>j. C j \<union> D j) (merged new b)"
    using assms eq z(3) zm
    by (auto simp: box_fits_def merged_def gbox_merge_def Let_def intro: extent_merge)
qed

text \<open>The points a box is made from: all of them but the inner rings of polygons.\<close>

fun outline :: "lwgeom \<Rightarrow> pointarray list" where
  "outline (LWPOINT h pa) = [pa]"
| "outline (LWLINE h pa) = [pa]"
| "outline (LWTRIANGLE h pa) = [pa]"
| "outline (LWCIRCSTRING h pa) = [pa]"
| "outline (LWPOLY h mr rs) = (case rs of [] \<Rightarrow> [] | r # _ \<Rightarrow> [r])"
| "outline (LWNURBSCURVE h d p w k) = (case p of None \<Rightarrow> [] | Some pa \<Rightarrow> [pa])"
| "outline (LWCOLLECTION t h mg al gs) = concat (map outline gs)"

text \<open>No arc and no NURBS curve.\<close>

fun straight :: "lwgeom \<Rightarrow> bool" where
  "straight (LWCIRCSTRING h pa) \<longleftrightarrow> False"
| "straight (LWNURBSCURVE h d p w k) \<longleftrightarrow> False"
| "straight (LWCOLLECTION t h mg al gs) \<longleftrightarrow> list_all straight gs"
| "straight g \<longleftrightarrow> True"

text \<open>The same dimensions everywhere.\<close>

fun zm_uniform :: "u16 \<Rightarrow> lwgeom \<Rightarrow> bool" where
  "zm_uniform f (LWCOLLECTION t h mg al gs) \<longleftrightarrow> same_zm (flags h) f \<and> list_all (zm_uniform f) gs"
| "zm_uniform f g \<longleftrightarrow> same_zm (lwgeom_flags g) f"

definition outline_coords :: "lwgeom \<Rightarrow> nat \<Rightarrow> double set" where
  "outline_coords g j = (\<Union>pa \<in> set (outline g). pa_coords_of pa j)"

definition outline_number :: "lwgeom \<Rightarrow> bool" where
  "outline_number g \<longleftrightarrow> list_all (\<lambda>pa. list_all (\<lambda>d. \<not> dbl_isnan d) (ptlist pa)) (outline g)"

definition outline_empty :: "lwgeom \<Rightarrow> bool" where
  "outline_empty g \<longleftrightarrow> list_all (\<lambda>pa. npoints pa = 0) (outline g)"

lemma outline_empty_iff: "lwgeom_wf g \<Longrightarrow> lwgeom_is_empty g \<longleftrightarrow> outline_empty g"
proof (induction g)
  case (LWCOLLECTION t h mg al gs)
  then have "list_all lwgeom_is_empty gs \<longleftrightarrow> list_all outline_empty gs" by (auto simp: list_all_iff)
  with LWCOLLECTION.prems show ?case by (auto simp: outline_empty_def list_all_iff)
qed (auto simp: outline_empty_def split: list.split option.split)

lemma ptarray_gbox_step:
  assumes "pa_wf pa" "same_zm (pflags pa) f" "list_all (\<lambda>d. \<not> dbl_isnan d) (ptlist pa)"
  shows "case ptarray_calculate_gbox_cartesian pa b of
    (ok, c) \<Rightarrow> ok = (npoints pa \<noteq> 0) \<and> (if ok then box_fits f (pa_coords_of pa) c else c = b)"
proof (cases "npoints pa = 0")
  case True
  then show ?thesis by (simp add: ptarray_calculate_gbox_cartesian_def)
next
  case False
  then obtain c where c: "ptarray_calculate_gbox_cartesian pa b = (True, c)"
    "box_fits (pflags pa) (pa_coords_of pa) c"
    using ptarray_gbox_fits [OF assms(1) _ assms(3)] by blast
  moreover have "FLAGS_NDIMS (pflags pa) = FLAGS_NDIMS f" using assms(2) by (rule same_zm_ndims)
  ultimately show ?thesis using False assms(2) by (auto simp: box_fits_def same_zm_def)
qed

lemma geometry_gbox_step:
  assumes "lwgeom_wf g" "straight g" "zm_uniform f g" "outline_number g"
  shows "case lwgeom_calculate_gbox_cartesian calc g b of
    (ok, c) \<Rightarrow> ok = (\<not> outline_empty g) \<and> (ok \<longrightarrow> box_fits f (outline_coords g) c)"
  using assms
proof (induction g arbitrary: b)
  case (LWCOLLECTION t h mg al gs)
  let ?loop = "fold (\<lambda>g (found, sub, b).
        case lwgeom_calculate_gbox_cartesian calc g sub of
          (ok, sub) \<Rightarrow> (found \<or> ok, sub, if \<not> ok then b else if found then merged sub b else sub))"
  have step: "case lwgeom_calculate_gbox_cartesian calc g b of
      (ok, c) \<Rightarrow> ok = (\<not> outline_empty g) \<and> (ok \<longrightarrow> box_fits f (outline_coords g) c)"
    if "g \<in> set gs" for g b
    using LWCOLLECTION.IH [OF that] that LWCOLLECTION.prems
    by (auto simp: list_all_iff outline_number_def)
  have loop: "case ?loop gs' (found, sub, b) of (found', sub', b') \<Rightarrow>
      found' = (found \<or> \<not> list_all outline_empty gs') \<and>
      (found' \<longrightarrow> box_fits f (\<lambda>j. C j \<union> (\<Union>g \<in> set gs'. outline_coords g j)) b')"
    if "set gs' \<subseteq> set gs" "found \<Longrightarrow> box_fits f C b" "\<not> found \<Longrightarrow> C = (\<lambda>j. {})" for gs' found sub b C
    using that
  proof (induction gs' arbitrary: found sub b C)
    case (Cons g gs')
    obtain ok c where c: "lwgeom_calculate_gbox_cartesian calc g sub = (ok, c)" by fastforce
    have g: "ok = (\<not> outline_empty g)" "ok \<Longrightarrow> box_fits f (outline_coords g) c"
      using step [of g sub] Cons.prems(1) c by auto
    let ?b = "if \<not> ok then b else if found then merged c b else c"
    let ?C = "\<lambda>j. C j \<union> outline_coords g j"
    have none: "outline_coords g j = {}" if "\<not> ok" for j
      using that g(1) by (auto simp: outline_coords_def outline_empty_def list_all_iff pa_coords_of_def)
    have fit: "box_fits f ?C ?b" if "found \<or> ok"
      using that g(2) Cons.prems(2,3) none box_fits_merge(2) [of f C b "outline_coords g" c]
      by (cases found; cases ok) auto
    have "case ?loop gs' (found \<or> ok, c, ?b) of (found', sub', b') \<Rightarrow>
        found' = ((found \<or> ok) \<or> \<not> list_all outline_empty gs') \<and>
        (found' \<longrightarrow> box_fits f (\<lambda>j. ?C j \<union> (\<Union>g \<in> set gs'. outline_coords g j)) b')"
      by (rule Cons.IH) (use Cons.prems fit none in auto)
    then show ?case using c g(1) by (auto simp: Un_assoc split: prod.splits)
  qed auto
  have "case ?loop gs (False, gbox_new (flags h), b) of (found', sub', b') \<Rightarrow>
      found' = (False \<or> \<not> list_all outline_empty gs) \<and>
      (found' \<longrightarrow> box_fits f (\<lambda>j. {} \<union> (\<Union>g \<in> set gs. outline_coords g j)) b')"
    by (rule loop) auto
  moreover have "outline_empty (LWCOLLECTION t h mg al gs) = list_all outline_empty gs"
    by (auto simp: outline_empty_def list_all_iff)
  moreover have "outline_coords (LWCOLLECTION t h mg al gs) = (\<lambda>j. \<Union>g \<in> set gs. outline_coords g j)"
    by (auto simp: outline_coords_def fun_eq_iff)
  ultimately show ?case by (auto split: prod.splits)
next
  case (LWPOLY h mr rs)
  then show ?case
    using ptarray_gbox_step [of "hd rs" f b]
    by (cases rs) (auto simp: outline_empty_def outline_coords_def outline_number_def same_zm_def
        split: prod.splits)
next
  case (LWPOINT h pa)
  then show ?case using ptarray_gbox_step [of pa f b]
    by (auto simp: outline_empty_def outline_coords_def outline_number_def same_zm_def split: prod.splits)
next
  case (LWLINE h pa)
  then show ?case using ptarray_gbox_step [of pa f b]
    by (auto simp: outline_empty_def outline_coords_def outline_number_def same_zm_def split: prod.splits)
next
  case (LWTRIANGLE h pa)
  then show ?case using ptarray_gbox_step [of pa f b]
    by (auto simp: outline_empty_def outline_coords_def outline_number_def same_zm_def split: prod.splits)
qed simp_all

text \<open>
  C14. The cartesian box of a well-formed geometry without curves is the exact box of its outline, the points of all its parts
  except the inner rings of polygons, which the code does not look at: it is found exactly when the
  geometry is not empty, it holds every point of the outline in every dimension, and each
  of its bounds is a coordinate of such a point, so no smaller box would do. The coordinates of the outline
  are numbers, all parts have the same dimensions, and the geometry is not geodetic.
\<close>

theorem lwgeom_gbox_exact:
  assumes "lwgeom_wf g" "straight g" "zm_uniform (lwgeom_flags g) g" "outline_number g"
    and "\<not> geodetic (lwgeom_flags g)"
  shows "\<exists>c. lwgeom_calculate_gbox calc g b = (\<not> lwgeom_is_empty g, c) \<and>
    (\<not> lwgeom_is_empty g \<longrightarrow> box_fits (lwgeom_flags g) (outline_coords g) c)"
  using geometry_gbox_step [OF assms(1-4), of calc "b\<lparr>gflags := lwgeom_flags g\<rparr>"] assms(5)
    outline_empty_iff [OF assms(1)]
  by (auto simp: lwgeom_calculate_gbox_def Let_def split: prod.splits)

definition sample_triangle :: lwgeom where
  "sample_triangle = LWTRIANGLE (empty_head 0 False False)
     (ptarray_construct_copy_data False False 3 [0, 0x3FF0000000000000, 0xBFF0000000000000, 0, 0, 0])"

lemma sample_triangle_ok:
  "lwgeom_wf sample_triangle" "straight sample_triangle" "lwgeom_flags sample_triangle = 0"
  "zm_uniform 0 sample_triangle" "outline_number sample_triangle" "\<not> lwgeom_is_empty sample_triangle"
proof -
  have "\<not> dbl_isnan 0xBFF0000000000000"
    by (simp add: dbl_isnan_def dbl_mag_def unsigned_take_bit_eq take_bit_eq_mod)
  then show "lwgeom_wf sample_triangle" "straight sample_triangle" "lwgeom_flags sample_triangle = 0"
    "zm_uniform 0 sample_triangle" "outline_number sample_triangle" "\<not> lwgeom_is_empty sample_triangle"
    by (simp_all add: sample_triangle_def empty_head_def ptarray_construct_copy_data_def pa_wf_def
        same_zm_def outline_number_def lwflags_def flag_set_def FLAGS_NDIMS_def)
qed

theorem lwgeom_gbox_exact_witness:
  "\<forall>calc. \<exists>c. lwgeom_calculate_gbox calc sample_triangle gbox_init = (True, c) \<and>
    extent (outline_coords sample_triangle 0) (xmin c) (xmax c)"
proof
  show "\<exists>c. lwgeom_calculate_gbox calc sample_triangle gbox_init = (True, c) \<and>
    extent (outline_coords sample_triangle 0) (xmin c) (xmax c)" for calc
    using lwgeom_gbox_exact [of sample_triangle calc gbox_init] sample_triangle_ok
    by (auto simp: box_fits_def)
qed

section \<open>Overlap\<close>

text \<open>A box whose bounds are numbers in order, in x and y.\<close>

definition ordered_2d :: "gbox \<Rightarrow> bool" where
  "ordered_2d b \<longleftrightarrow> dbl_le (xmin b) (xmax b) \<and> dbl_le (ymin b) (ymax b)"

lemma interval_overlap:
  assumes "dbl_le a b" "dbl_le c d"
  shows "\<not> (dbl_lt b c \<or> dbl_lt d a) \<longleftrightarrow> (\<exists>x. dbl_le a x \<and> dbl_le x b \<and> dbl_le c x \<and> dbl_le x d)"
proof
  assume *: "\<not> (dbl_lt b c \<or> dbl_lt d a)"
  let ?x = "if dbl_lt a c then c else a"
  have "dbl_le a ?x \<and> dbl_le ?x b \<and> dbl_le c ?x \<and> dbl_le ?x d"
    using * assms by (auto simp: dbl_le_def dbl_lt_def)
  then show "\<exists>x. dbl_le a x \<and> dbl_le x b \<and> dbl_le c x \<and> dbl_le x d" ..
next
  assume "\<exists>x. dbl_le a x \<and> dbl_le x b \<and> dbl_le c x \<and> dbl_le x d"
  then show "\<not> (dbl_lt b c \<or> dbl_lt d a)" by (auto simp: dbl_le_def dbl_lt_def)
qed

text \<open>
  Two boxes overlap exactly when some point lies in both; containing and being within
  are converse and, on ordered boxes, say that every point of one lies in the other.
\<close>

theorem gbox_overlaps_2d_common_point:
  assumes "ordered_2d g1" "ordered_2d g2" "geodetic (gflags g1) = geodetic (gflags g2)"
  shows "gbox_overlaps_2d g1 g2 =
      Inr (\<exists>p. gbox_contains_point2d g1 p \<and> gbox_contains_point2d g2 p) \<and>
    gbox_contains_2d g1 g2 = gbox_within_2d g2 g1 \<and>
    gbox_contains_2d g1 g2 = (\<forall>p. gbox_contains_point2d g2 p \<longrightarrow> gbox_contains_point2d g1 p)"
proof (intro conjI)
  have "\<not> apart_2d g1 g2 \<longleftrightarrow> \<not> (dbl_lt (xmax g1) (xmin g2) \<or> dbl_lt (xmax g2) (xmin g1)) \<and>
      \<not> (dbl_lt (ymax g1) (ymin g2) \<or> dbl_lt (ymax g2) (ymin g1))"
    by (auto simp: apart_2d_def)
  also have "\<dots> \<longleftrightarrow>
      (\<exists>x. dbl_le (xmin g1) x \<and> dbl_le x (xmax g1) \<and> dbl_le (xmin g2) x \<and> dbl_le x (xmax g2)) \<and>
      (\<exists>y. dbl_le (ymin g1) y \<and> dbl_le y (ymax g1) \<and> dbl_le (ymin g2) y \<and> dbl_le y (ymax g2))"
    using assms(1,2) interval_overlap [of "xmin g1" "xmax g1" "xmin g2" "xmax g2"]
      interval_overlap [of "ymin g1" "ymax g1" "ymin g2" "ymax g2"] by (simp add: ordered_2d_def)
  also have "\<dots> \<longleftrightarrow> (\<exists>p. gbox_contains_point2d g1 p \<and> gbox_contains_point2d g2 p)"
    by (auto simp: gbox_contains_point2d_def)
  finally show "gbox_overlaps_2d g1 g2 =
      Inr (\<exists>p. gbox_contains_point2d g1 p \<and> gbox_contains_point2d g2 p)"
    using assms(3) by (simp add: gbox_overlaps_2d_def require_def)
  show "gbox_contains_2d g1 g2 = gbox_within_2d g2 g1"
    by (simp add: gbox_contains_2d_def gbox_within_2d_def)
  have corners: "gbox_contains_point2d g2 (xmin g2, ymin g2)" "gbox_contains_point2d g2 (xmax g2, ymax g2)"
    using assms(2) by (auto simp: gbox_contains_point2d_def ordered_2d_def dbl_le_def)
  show "gbox_contains_2d g1 g2 = (\<forall>p. gbox_contains_point2d g2 p \<longrightarrow> gbox_contains_point2d g1 p)"
  proof
    assume "gbox_contains_2d g1 g2"
    with assms(1,2) show "\<forall>p. gbox_contains_point2d g2 p \<longrightarrow> gbox_contains_point2d g1 p"
      by (auto simp: gbox_contains_2d_def gbox_contains_point2d_def ordered_2d_def dbl_le_def dbl_lt_def)
  next
    assume "\<forall>p. gbox_contains_point2d g2 p \<longrightarrow> gbox_contains_point2d g1 p"
    with corners have "gbox_contains_point2d g1 (xmin g2, ymin g2)" "gbox_contains_point2d g1 (xmax g2, ymax g2)"
      by blast+
    then show "gbox_contains_2d g1 g2"
      by (auto simp: gbox_contains_2d_def gbox_contains_point2d_def dbl_le_def dbl_lt_def)
  qed
qed

theorem gbox_overlaps_2d_common_point_witness:
  "gbox_overlaps_2d gbox_init gbox_init = Inr True"
proof -
  have "gbox_contains_point2d gbox_init (0, 0)" "ordered_2d gbox_init"
    by (simp_all add: ordered_2d_def gbox_init_def gbox_contains_point2d_def dbl_le_def)
  with gbox_overlaps_2d_common_point [of gbox_init gbox_init] show ?thesis by auto
qed

section \<open>Rounding to floats\<close>

definition in_float_range :: "double \<Rightarrow> bool" where
  "in_float_range d \<longleftrightarrow> \<not> dbl_isnan d \<and> dbl_le (dbl_of_float FLT_MIN_MAX) d \<and> dbl_le d (dbl_of_float FLT_MAX)"

abbreviation round_down :: "double \<Rightarrow> double" where
  "round_down d \<equiv> dbl_of_float (next_float_down d)"

abbreviation round_up :: "double \<Rightarrow> double" where
  "round_up d \<equiv> dbl_of_float (next_float_up d)"

lemma in_float_range_iff:
  assumes "\<not> dbl_isnan d"
  shows "in_float_range d \<longleftrightarrow> \<bar>dbl_ord d\<bar> \<le> int (mag_widen flt_max_mag)"
  unfolding in_float_range_def dbl_le_float(1) [OF FLT_MAX_parts(2) assms]
    dbl_le_float(2) [OF FLT_MAX_parts(1) assms] FLT_MAX_parts widen_ord_nat
  using assms by auto

lemma round_props:
  assumes "in_float_range d"
  shows "dbl_le (round_down d) d" "dbl_le d (round_up d)" "round_down (round_down d) = round_down d"
    "round_up (round_up d) = round_up d"
proof -
  from assms have d: "\<not> dbl_isnan d" "dbl_le (dbl_of_float FLT_MIN_MAX) d" "dbl_le d (dbl_of_float FLT_MAX)"
    by (simp_all add: in_float_range_def)
  note down = next_float_down_floor [OF d(1,2)] and up = next_float_up_ceiling [OF d(1,3)]
  show "dbl_le (round_down d) d" "dbl_le d (round_up d)"
    using down up dbl_le_float(1,2) [OF _ d(1)] by (simp_all add: floor_float_def ceiling_float_def)
  show "round_down (round_down d) = round_down d" "round_up (round_up d) = round_up d"
    using down up by (simp_all add: next_float_of_float)
qed

lemma next_float_down_not_nan:
  assumes "\<not> dbl_isnan d"
  shows "\<not> flt_isnan (next_float_down d)"
proof (cases "dbl_le d (dbl_of_float FLT_MIN_MAX)")
  case True
  moreover have "flt_ord FLT_MIN_MAX \<le> flt_ord FLT_MAX" by (simp only: FLT_MAX_parts)
  then have "dbl_le (dbl_of_float FLT_MIN_MAX) (dbl_of_float FLT_MAX)"
    using dbl_of_float_le [OF FLT_MAX_parts(2,1)] by blast
  ultimately have "\<not> dbl_lt (dbl_of_float FLT_MAX) d" by (auto simp: dbl_le_def dbl_lt_def)
  with True have "next_float_down d = FLT_MIN_MAX" by (simp add: next_float_down_def)
  then show ?thesis using FLT_MAX_parts(2) by (simp add: flt_isnan_def flt_isfinite_def)
next
  case False
  then have "dbl_le (dbl_of_float FLT_MIN_MAX) d"
    using assms dbl_of_float_parts(4) [OF FLT_MAX_parts(2)] by (auto simp: dbl_le_def)
  from next_float_down_floor [OF assms this] show ?thesis by (simp add: flt_isnan_def flt_isfinite_def)
qed

lemma float_round_sel:
  "xmin (gbox_float_round b) = round_down (xmin b)" "xmax (gbox_float_round b) = round_up (xmax b)"
  "ymin (gbox_float_round b) = round_down (ymin b)" "ymax (gbox_float_round b) = round_up (ymax b)"
  "zmin (gbox_float_round b) = (if hasz (gflags b) then round_down (zmin b) else zmin b)"
  "zmax (gbox_float_round b) = (if hasz (gflags b) then round_up (zmax b) else zmax b)"
  "mmin (gbox_float_round b) = (if hasm (gflags b) then round_down (mmin b) else mmin b)"
  "mmax (gbox_float_round b) = (if hasm (gflags b) then round_up (mmax b) else mmax b)"
  "gflags (gbox_float_round b) = gflags b"
  by (simp_all add: gbox_float_round_def Let_def)

definition box_in_float_range :: "gbox \<Rightarrow> bool" where
  "box_in_float_range b \<longleftrightarrow> list_all in_float_range [xmin b, xmax b, ymin b, ymax b, zmin b, zmax b, mmin b, mmax b]"

text \<open>\<open>outer\<close> has every bound of \<open>inner\<close> within its own.\<close>

definition encloses :: "gbox \<Rightarrow> gbox \<Rightarrow> bool" where
  "encloses outer inner \<longleftrightarrow> dbl_le (xmin outer) (xmin inner) \<and> dbl_le (xmax inner) (xmax outer) \<and>
     dbl_le (ymin outer) (ymin inner) \<and> dbl_le (ymax inner) (ymax outer) \<and>
     dbl_le (zmin outer) (zmin inner) \<and> dbl_le (zmax inner) (zmax outer) \<and>
     dbl_le (mmin outer) (mmin inner) \<and> dbl_le (mmax inner) (mmax outer)"

lemma float_round_encloses:
  assumes "box_in_float_range b"
  shows "encloses (gbox_float_round b) b"
proof -
  have "dbl_le (if c then round_down d else d) d \<and> dbl_le d (if c then round_up d else d)" if "in_float_range d" for c d
    using that round_props(1,2) [OF that] by (simp add: in_float_range_def dbl_le_def)
  with assms round_props(1,2) show ?thesis by (simp add: encloses_def float_round_sel box_in_float_range_def)
qed

lemma enclosing_not_apart:
  assumes "encloses g' g" "encloses h' h"
  shows "\<not> apart_2d g h \<Longrightarrow> \<not> apart_2d g' h'"
    "\<not> (dbl_lt (zmax g) (zmin h) \<or> dbl_lt (zmax h) (zmin g)) \<Longrightarrow> \<not> (dbl_lt (zmax g') (zmin h') \<or> dbl_lt (zmax h') (zmin g'))"
    "\<not> (dbl_lt (mmax g) (mmin h) \<or> dbl_lt (mmax h) (mmin g)) \<Longrightarrow> \<not> (dbl_lt (mmax g') (mmin h') \<or> dbl_lt (mmax h') (mmin g'))"
proof -
  have keep: "\<not> dbl_lt b' a'" if "\<not> dbl_lt b a" "dbl_le b b'" "dbl_le a' a" for a b a' b'
    using that by (auto simp: dbl_le_def dbl_lt_def)
  show "\<not> apart_2d g h \<Longrightarrow> \<not> apart_2d g' h'"
    using assms keep unfolding encloses_def apart_2d_def by blast
  show "\<not> (dbl_lt (zmax g) (zmin h) \<or> dbl_lt (zmax h) (zmin g)) \<Longrightarrow> \<not> (dbl_lt (zmax g') (zmin h') \<or> dbl_lt (zmax h') (zmin g'))"
    "\<not> (dbl_lt (mmax g) (mmin h) \<or> dbl_lt (mmax h) (mmin g)) \<Longrightarrow> \<not> (dbl_lt (mmax g') (mmin h') \<or> dbl_lt (mmax h') (mmin g'))"
    using assms keep unfolding encloses_def by blast+
qed

text \<open>
  C29. Storing boxes as floats loses no match. For boxes whose bounds are numbers in the range of floats, the
  rounded box encloses the box in X, Y, Z and M (outside that range the bounds are cut off, and the box may shrink),
  rounding again changes nothing, and boxes that overlap, in the plane or in all dimensions they share, still overlap once rounded.
\<close>

theorem gbox_float_round_safe:
  assumes "box_in_float_range g" "box_in_float_range h"
  shows "encloses (gbox_float_round g) g \<and> gbox_contains_2d (gbox_float_round g) g \<and>
    gbox_float_round (gbox_float_round g) = gbox_float_round g \<and>
    (gbox_overlaps_2d g h = Inr True \<longrightarrow> gbox_overlaps_2d (gbox_float_round g) (gbox_float_round h) = Inr True) \<and>
    (gbox_overlaps g h = Inr True \<longrightarrow> gbox_overlaps (gbox_float_round g) (gbox_float_round h) = Inr True)"
proof -
  note enc = float_round_encloses [OF assms(1)] float_round_encloses [OF assms(2)]
  note apart = enclosing_not_apart [OF enc]
  have "gbox_contains_2d (gbox_float_round g) g"
    using enc(1) by (auto simp: gbox_contains_2d_def encloses_def dbl_le_def dbl_lt_def)
  moreover have "gbox_float_round (gbox_float_round g) = gbox_float_round g"
    using assms(1) by (cases "hasm (gflags g)"; cases "hasz (gflags g)")
      (simp_all add: gbox_float_round_def Let_def round_props box_in_float_range_def)
  moreover have "gbox_overlaps_2d g h = Inr True \<longrightarrow> gbox_overlaps_2d (gbox_float_round g) (gbox_float_round h) = Inr True"
    using apart(1) by (auto simp: gbox_overlaps_2d_def require_def float_round_sel(9) split: if_splits)
  moreover have "gbox_overlaps g h = Inr True \<longrightarrow> gbox_overlaps (gbox_float_round g) (gbox_float_round h) = Inr True"
    using apart unfolding gbox_overlaps_def float_round_sel(9) by (auto simp: require_def split: if_splits)
  ultimately show ?thesis using enc(1) by blast
qed

theorem gbox_float_round_safe_witness:
  "gbox_overlaps_2d (gbox_float_round gbox_init) (gbox_float_round gbox_init) = Inr True"
proof -
  have "in_float_range 0" by (subst in_float_range_iff) simp_all
  then have "box_in_float_range gbox_init" by (simp add: gbox_init_def box_in_float_range_def)
  moreover have "gbox_overlaps_2d gbox_init gbox_init = Inr True"
    by (simp add: gbox_overlaps_2d_def apart_2d_def require_def gbox_init_def)
  ultimately show ?thesis
    using gbox_float_round_safe [of gbox_init gbox_init] by blast
qed

text \<open>
  The comparison of two boxes as floats looks at the maxima only: on boxes whose minima
  are numbers, the minima make no difference.
\<close>

theorem gbox_same_2d_float_ignores_minima:
  assumes "\<not> dbl_isnan (xmin g1)" "\<not> dbl_isnan (ymin g2)"
  shows "gbox_same_2d_float g1 g2 \<longleftrightarrow>
     (dbl_eq (xmax g1) (xmax g2) \<or> flt_eq (next_float_up (xmax g1)) (next_float_up (xmax g2))) \<and>
     (dbl_eq (ymax g1) (ymax g2) \<or> flt_eq (next_float_up (ymax g1)) (next_float_up (ymax g2)))"
  using next_float_down_not_nan [OF assms(1)] next_float_down_not_nan [OF assms(2)]
  by (auto simp: gbox_same_2d_float_def flt_eq_def)

theorem gbox_same_2d_float_ignores_minima_witness:
  "gbox_same_2d_float (gbox_init\<lparr>xmin := 0xBFF0000000000000\<rparr>) gbox_init \<and>
   \<not> flt_eq (next_float_down 0xBFF0000000000000) (next_float_down 0)"
proof
  have n: "\<not> dbl_isnan 0xBFF0000000000000"
    by (simp add: dbl_isnan_def dbl_mag_def unsigned_take_bit_eq take_bit_eq_mod)
  then show "gbox_same_2d_float (gbox_init\<lparr>xmin := 0xBFF0000000000000\<rparr>) gbox_init"
    by (subst gbox_same_2d_float_ignores_minima) (simp_all add: gbox_init_def dbl_eq_def)
  show "\<not> flt_eq (next_float_down 0xBFF0000000000000) (next_float_down 0)"
    by (simp add: next_float_down_def float_of_dbl_def dbl_of_float_def mag_narrow_def
      mag_widen_def dbl_mag_def dbl_neg_def flt_mag_def flt_neg_def flt_pack_def dbl_pack_def round_quot_def
      norm_shift_numeral unsigned_take_bit_eq take_bit_eq_mod dbl_le_def dbl_lt_def dbl_ord_def dbl_isnan_def
      flt_isnan_def Let_def flt_eq_def flt_ord_def)
qed

end
