(* ===== verification/WKBOut.thy ===== *)
theory WKBOut
  imports LWTypes
begin

text \<open>
  The WKB writer, liblwgeom/lwout_wkb.c. A writer returns the bytes it puts at \<open>buf\<close>, in
  order; the size functions are the ones that allocate the buffer. \<open>be\<close> is \<open>IS_BIG_ENDIAN\<close>,
  the byte order of the machine.
\<close>

section \<open>Variants\<close>

abbreviation WKB_ISO :: byte where "WKB_ISO \<equiv> 0x01"
abbreviation WKB_SFSQL :: byte where "WKB_SFSQL \<equiv> 0x02"
abbreviation WKB_EXTENDED :: byte where "WKB_EXTENDED \<equiv> 0x04"
abbreviation WKB_NDR :: byte where "WKB_NDR \<equiv> 0x08"
abbreviation WKB_XDR :: byte where "WKB_XDR \<equiv> 0x10"
abbreviation WKB_HEX :: byte where "WKB_HEX \<equiv> 0x20"
abbreviation WKB_NO_NPOINTS :: byte where "WKB_NO_NPOINTS \<equiv> 0x40"
abbreviation WKB_NO_SRID :: byte where "WKB_NO_SRID \<equiv> 0x80"

abbreviation WKBZOFFSET :: u32 where "WKBZOFFSET \<equiv> 0x80000000"
abbreviation WKBMOFFSET :: u32 where "WKBMOFFSET \<equiv> 0x40000000"
abbreviation WKBSRIDFLAG :: u32 where "WKBSRIDFLAG \<equiv> 0x20000000"

abbreviation WKB_BYTE_SIZE :: nat where "WKB_BYTE_SIZE \<equiv> 1"
abbreviation WKB_INT_SIZE :: nat where "WKB_INT_SIZE \<equiv> 4"
abbreviation WKB_DOUBLE_SIZE :: nat where "WKB_DOUBLE_SIZE \<equiv> 8"

section \<open>Hexadecimal\<close>

definition hexchr :: "byte list" where
  "hexchr = [0x30, 0x31, 0x32, 0x33, 0x34, 0x35, 0x36, 0x37, 0x38, 0x39,
             0x41, 0x42, 0x43, 0x44, 0x45, 0x46]"

definition hexpair :: "byte \<Rightarrow> byte list" where
  "hexpair b = [hexchr ! unat (drop_bit 4 b), hexchr ! unat (b AND 0x0F)]"

definition hexbytes :: "byte list \<Rightarrow> byte list" where
  "hexbytes bs = concat (map hexpair bs)"

definition hexbytes_from_bytes :: "byte list \<Rightarrow> lwerr + byte list" where
  "hexbytes_from_bytes bytes =
     bindE (require (bytes \<noteq> []) ''hexbutes_from_bytes: invalid input'') (\<lambda>_.
     Inr (hexbytes bytes @ [0]))"

lemma hexbytes_simps [simp]: "hexbytes [] = []" "hexbytes (b # bs) = hexpair b @ hexbytes bs"
  by (simp_all add: hexbytes_def)

lemma hexbytes_append [simp]: "hexbytes (as @ bs) = hexbytes as @ hexbytes bs"
  by (simp add: hexbytes_def)

lemma length_hexbytes [simp, byte_len]: "length (hexbytes bs) = 2 * length bs"
  by (induction bs) (auto simp: hexpair_def)

lemma hexbytes_concat: "hexbytes (concat bss) = concat (map hexbytes bss)"
  by (induction bss) auto

section \<open>Scalars\<close>

text \<open>The bytes of a value as they lie in the memory of the machine.\<close>

definition mem_bytes :: "bool \<Rightarrow> nat \<Rightarrow> 'a::len word \<Rightarrow> byte list" where
  "mem_bytes be n v = (if be then rev (le_bytes n v) else le_bytes n v)"

definition wkb_swap_bytes :: "bool \<Rightarrow> byte \<Rightarrow> bool" where
  "wkb_swap_bytes be variant =
     (if (has_bits variant WKB_NDR \<and> \<not> be) \<or> (\<not> has_bits variant WKB_NDR \<and> be) then False else True)"

definition endian_to_wkb_buf :: "byte \<Rightarrow> byte list" where
  "endian_to_wkb_buf variant =
     (if has_bits variant WKB_HEX then [0x30, if has_bits variant WKB_NDR then 0x31 else 0x30]
      else [if has_bits variant WKB_NDR then 1 else 0])"

definition integer_to_wkb_buf :: "bool \<Rightarrow> u32 \<Rightarrow> byte \<Rightarrow> byte list" where
  "integer_to_wkb_buf be ival variant =
     (let iptr = mem_bytes be WKB_INT_SIZE ival
      in if has_bits variant WKB_HEX then
           let swap = wkb_swap_bytes be variant
           in concat (map (\<lambda>i. hexpair (iptr ! (if swap then WKB_INT_SIZE - 1 - i else i))) [0..<WKB_INT_SIZE])
         else if wkb_swap_bytes be variant
           then map (\<lambda>i. iptr ! (WKB_INT_SIZE - 1 - i)) [0..<WKB_INT_SIZE]
           else iptr)"

definition byte_to_wkb_buf :: "byte \<Rightarrow> byte \<Rightarrow> byte list" where
  "byte_to_wkb_buf bval variant = (if has_bits variant WKB_HEX then hexpair bval else [bval])"

definition double_nan_to_wkb_buf :: "byte \<Rightarrow> byte list" where
  "double_nan_to_wkb_buf variant =
     (let ndr_nan = [0x00, 0x00, 0x00, 0x00, 0x00, 0x00, 0xf8, 0x7f];
          xdr_nan = [0x7f, 0xf8, 0x00, 0x00, 0x00, 0x00, 0x00, 0x00];
          out = map (\<lambda>i. if has_bits variant WKB_NDR then ndr_nan ! i else xdr_nan ! i) [0..<8]
      in if has_bits variant WKB_HEX then concat (map hexpair out) else out)"

definition double_to_wkb_buf :: "bool \<Rightarrow> double \<Rightarrow> byte \<Rightarrow> byte list" where
  "double_to_wkb_buf be d variant =
     (let dptr = mem_bytes be WKB_DOUBLE_SIZE d
      in if has_bits variant WKB_HEX then
           let swap = wkb_swap_bytes be variant
           in concat (map (\<lambda>i. hexpair (dptr ! (if swap then WKB_DOUBLE_SIZE - 1 - i else i)))
                        [0..<WKB_DOUBLE_SIZE])
         else if wkb_swap_bytes be variant
           then map (\<lambda>i. dptr ! (WKB_DOUBLE_SIZE - 1 - i)) [0..<WKB_DOUBLE_SIZE]
           else dptr)"

text \<open>
  All scalar writers have one shape: the bytes in the byte order the variant asks for,
  whatever the machine, doubled to hexadecimal on demand.
\<close>

definition wkb_order :: "byte \<Rightarrow> byte list \<Rightarrow> byte list" where
  "wkb_order variant bs = (if has_bits variant WKB_NDR then bs else rev bs)"

definition wkb_emit :: "byte \<Rightarrow> byte list \<Rightarrow> byte list" where
  "wkb_emit variant bs = (if has_bits variant WKB_HEX then hexbytes bs else bs)"

named_theorems emit_simps \<open>scalar writers as emitted bytes\<close>

lemma map_nth_rev: "n = length xs \<Longrightarrow> map (\<lambda>i. f (xs ! (n - Suc i))) [0..<n] = map f (rev xs)"
  by (auto intro!: nth_equalityI simp: rev_nth)

lemma map_nth_id: "n = length xs \<Longrightarrow> map (\<lambda>i. f (xs ! i)) [0..<n] = map f xs"
  by (auto intro!: nth_equalityI)

lemma length_mem_bytes [simp]: "length (mem_bytes be n v) = n"
  by (simp add: mem_bytes_def)

lemma mem_bytes_order:
  "(if wkb_swap_bytes be variant then rev (mem_bytes be n v) else mem_bytes be n v) =
     wkb_order variant (le_bytes n v)"
  by (auto simp: wkb_swap_bytes_def mem_bytes_def wkb_order_def)

lemma scalar_emit:
  assumes "bs = mem_bytes be n v"
  shows
    "(if has_bits variant WKB_HEX
      then concat (map (\<lambda>i. hexpair (bs ! (if wkb_swap_bytes be variant then n - 1 - i else i))) [0..<n])
      else if wkb_swap_bytes be variant then map (\<lambda>i. bs ! (n - 1 - i)) [0..<n] else bs) =
     wkb_emit variant (wkb_order variant (le_bytes n v))"
  using mem_bytes_order [of be variant n v] assms
    map_nth_rev [of n bs hexpair] map_nth_rev [of n bs id] map_nth_id [of n bs hexpair]
  by (auto simp: wkb_emit_def hexbytes_def split: if_splits)

lemma integer_to_wkb_buf_emit [emit_simps]:
  "integer_to_wkb_buf be i v = wkb_emit v (wkb_order v (le_bytes 4 i))"
  unfolding integer_to_wkb_buf_def Let_def by (rule scalar_emit) (rule refl)

lemma double_to_wkb_buf_emit [emit_simps]:
  "double_to_wkb_buf be d v = wkb_emit v (wkb_order v (le_bytes 8 d))"
  unfolding double_to_wkb_buf_def Let_def by (rule scalar_emit) (rule refl)

lemma byte_to_wkb_buf_emit [emit_simps]: "byte_to_wkb_buf b v = wkb_emit v [b]"
  by (simp add: byte_to_wkb_buf_def wkb_emit_def)

lemma endian_to_wkb_buf_emit [emit_simps]:
  "endian_to_wkb_buf v = wkb_emit v [of_bool (has_bits v WKB_NDR)]"
  by (simp add: endian_to_wkb_buf_def wkb_emit_def hexpair_def hexchr_def)

lemma le_bytes_nan: "le_bytes 8 dbl_nan = [0x00, 0x00, 0x00, 0x00, 0x00, 0x00, 0xf8, 0x7f]"
  by code_simp

lemma double_nan_to_wkb_buf_emit [emit_simps]:
  "double_nan_to_wkb_buf v = wkb_emit v (wkb_order v (le_bytes 8 dbl_nan))"
  by (simp add: double_nan_to_wkb_buf_def wkb_emit_def wkb_order_def hexbytes_def Let_def
      le_bytes_nan upt_conv_Cons)

lemma wkb_emit_append [simp]: "wkb_emit v (as @ bs) = wkb_emit v as @ wkb_emit v bs"
  by (simp add: wkb_emit_def)

lemma wkb_emit_Nil [simp]: "wkb_emit v [] = []"
  by (simp add: wkb_emit_def)

lemma wkb_emit_concat: "wkb_emit v (concat bss) = concat (map (wkb_emit v) bss)"
  by (induction bss) auto

lemma length_wkb_emit [simp]:
  "length (wkb_emit v bs) = (if has_bits v WKB_HEX then 2 * length bs else length bs)"
  by (simp add: wkb_emit_def)

lemma length_wkb_order [simp]: "length (wkb_order v bs) = length bs"
  by (simp add: wkb_order_def)

section \<open>Type codes\<close>

definition lwgeom_wkb_needs_srid :: "lwgeom \<Rightarrow> byte \<Rightarrow> bool" where
  "lwgeom_wkb_needs_srid geom variant =
     (if has_bits variant WKB_NO_SRID then False
      else if has_bits variant WKB_EXTENDED \<and> lwgeom_has_srid geom then True
      else False)"

definition wkb_type_number :: "nat \<Rightarrow> u32 option" where
  "wkb_type_number type =
     map_of [(POINTTYPE, 1), (LINETYPE, 2), (NURBSCURVETYPE, 21), (POLYGONTYPE, 3), (MULTIPOINTTYPE, 4),
       (MULTILINETYPE, 5), (MULTIPOLYGONTYPE, 6), (COLLECTIONTYPE, 7), (CIRCSTRINGTYPE, 8),
       (COMPOUNDTYPE, 9), (CURVEPOLYTYPE, 10), (MULTICURVETYPE, 11), (MULTISURFACETYPE, 12),
       (POLYHEDRALSURFACETYPE, 15), (TINTYPE, 16), (TRIANGLETYPE, 17)] type"

definition lwgeom_wkb_type :: "lwgeom \<Rightarrow> byte \<Rightarrow> lwerr + u32" where
  "lwgeom_wkb_type geom variant =
     (case wkb_type_number (lwgeom_get_type geom) of
        None \<Rightarrow> Inl (LwError ''%s: Unsupported geometry type: %s'')
      | Some wkb_type \<Rightarrow>
          let z = hasz (lwgeom_flags geom); m = hasm (lwgeom_flags geom) in
          if lwgeom_get_type geom = NURBSCURVETYPE then
            let wkb_type = (if z \<and> \<not> m then wkb_type + 1000
                  else if m \<and> \<not> z then wkb_type + 2000
                  else if z \<and> m then wkb_type + 3000 else wkb_type)
            in Inr (if has_bits variant WKB_EXTENDED \<and> lwgeom_wkb_needs_srid geom variant
                    then wkb_type OR WKBSRIDFLAG else wkb_type)
          else if has_bits variant WKB_EXTENDED then
            let wkb_type = (if z then wkb_type OR WKBZOFFSET else wkb_type);
                wkb_type = (if m then wkb_type OR WKBMOFFSET else wkb_type)
            in Inr (if lwgeom_wkb_needs_srid geom variant then wkb_type OR WKBSRIDFLAG else wkb_type)
          else if has_bits variant WKB_ISO then
            let wkb_type = (if z then wkb_type + 1000 else wkb_type)
            in Inr (if m then wkb_type + 2000 else wkb_type)
          else Inr wkb_type)"

text \<open>The endian flag, the type number and the optional SRID, which start every geometry.\<close>

definition wkb_head :: "bool \<Rightarrow> lwgeom \<Rightarrow> byte \<Rightarrow> lwerr + byte list" where
  "wkb_head be geom variant =
     bindE (lwgeom_wkb_type geom variant) (\<lambda>wkb_type.
     Inr (endian_to_wkb_buf variant @ integer_to_wkb_buf be wkb_type variant @
       (if lwgeom_wkb_needs_srid geom variant
        then integer_to_wkb_buf be (word_of_int (lwgeom_get_srid geom)) variant else [])))"

definition wkb_head_size :: "lwgeom \<Rightarrow> byte \<Rightarrow> nat" where
  "wkb_head_size geom variant =
     WKB_BYTE_SIZE + WKB_INT_SIZE + (if lwgeom_wkb_needs_srid geom variant then WKB_INT_SIZE else 0)"

section \<open>Geometries\<close>

fun empty_dims :: "lwgeom \<Rightarrow> nat option" where
  "empty_dims (LWPOINT h pa) = Some (FLAGS_NDIMS (pflags pa))"
| "empty_dims g = None"

definition empty_to_wkb_size :: "lwgeom \<Rightarrow> byte \<Rightarrow> nat" where
  "empty_to_wkb_size geom variant =
     wkb_head_size geom variant +
     (case empty_dims geom of Some d \<Rightarrow> WKB_DOUBLE_SIZE * d | None \<Rightarrow> WKB_INT_SIZE)"

definition empty_to_wkb_buf :: "bool \<Rightarrow> lwgeom \<Rightarrow> byte \<Rightarrow> lwerr + byte list" where
  "empty_to_wkb_buf be geom variant =
     bindE (wkb_head be geom variant) (\<lambda>head.
     Inr (head @ (case empty_dims geom of
         Some d \<Rightarrow> concat (map (\<lambda>i. double_nan_to_wkb_buf variant) [0..<d])
       | None \<Rightarrow> integer_to_wkb_buf be 0 variant)))"

definition ptarray_to_wkb_size :: "pointarray \<Rightarrow> byte \<Rightarrow> nat" where
  "ptarray_to_wkb_size pa variant =
     (let dims = (if has_bits variant (WKB_ISO OR WKB_EXTENDED) then FLAGS_NDIMS (pflags pa) else 2);
          size = (if \<not> has_bits variant WKB_NO_NPOINTS then WKB_INT_SIZE else 0)
      in size + npoints pa * dims * WKB_DOUBLE_SIZE)"

definition ptarray_to_wkb_buf :: "bool \<Rightarrow> pointarray \<Rightarrow> byte \<Rightarrow> byte list" where
  "ptarray_to_wkb_buf be pa variant =
     (let pa_dims = FLAGS_NDIMS (pflags pa);
          dims = (if has_bits variant WKB_ISO \<or> has_bits variant WKB_EXTENDED then pa_dims else 2)
      in (if \<not> has_bits variant WKB_NO_NPOINTS
          then integer_to_wkb_buf be (of_nat (npoints pa)) variant else []) @
         (if npoints pa \<noteq> 0 \<and> dims = pa_dims \<and> \<not> wkb_swap_bytes be variant \<and> \<not> has_bits variant WKB_HEX
          then concat (map (mem_bytes be WKB_DOUBLE_SIZE) (take (npoints pa * dims) (ptlist pa)))
          else concat (map (\<lambda>i. concat (map (\<lambda>d. double_to_wkb_buf be d variant) (pa_point pa i dims)))
                 [0..<npoints pa])))"

definition lwpoint_to_wkb_size :: "lwgeom \<Rightarrow> pointarray \<Rightarrow> byte \<Rightarrow> nat" where
  "lwpoint_to_wkb_size pt pa variant =
     (if has_bits variant WKB_EXTENDED \<and> lwgeom_is_empty pt then empty_to_wkb_size pt variant
      else wkb_head_size pt variant + ptarray_to_wkb_size pa (variant OR WKB_NO_NPOINTS))"

definition lwpoint_to_wkb_buf :: "bool \<Rightarrow> lwgeom \<Rightarrow> pointarray \<Rightarrow> byte \<Rightarrow> lwerr + byte list" where
  "lwpoint_to_wkb_buf be pt pa variant =
     (if has_bits variant WKB_EXTENDED \<and> lwgeom_is_empty pt then empty_to_wkb_buf be pt variant
      else bindE (wkb_head be pt variant) (\<lambda>head.
        Inr (head @ ptarray_to_wkb_buf be pa (variant OR WKB_NO_NPOINTS))))"

definition lwline_to_wkb_size :: "lwgeom \<Rightarrow> pointarray \<Rightarrow> byte \<Rightarrow> nat" where
  "lwline_to_wkb_size line points variant =
     (if has_bits variant WKB_EXTENDED \<and> lwgeom_is_empty line then empty_to_wkb_size line variant
      else wkb_head_size line variant + ptarray_to_wkb_size points variant)"

definition lwline_to_wkb_buf :: "bool \<Rightarrow> lwgeom \<Rightarrow> pointarray \<Rightarrow> byte \<Rightarrow> lwerr + byte list" where
  "lwline_to_wkb_buf be line points variant =
     (if has_bits variant WKB_EXTENDED \<and> lwgeom_is_empty line then empty_to_wkb_buf be line variant
      else bindE (wkb_head be line variant) (\<lambda>head.
        Inr (head @ ptarray_to_wkb_buf be points variant)))"

definition lwtriangle_to_wkb_size :: "lwgeom \<Rightarrow> pointarray \<Rightarrow> byte \<Rightarrow> nat" where
  "lwtriangle_to_wkb_size tri points variant =
     (if has_bits variant WKB_EXTENDED \<and> lwgeom_is_empty tri then empty_to_wkb_size tri variant
      else wkb_head_size tri variant + WKB_INT_SIZE + ptarray_to_wkb_size points variant)"

definition lwtriangle_to_wkb_buf :: "bool \<Rightarrow> lwgeom \<Rightarrow> pointarray \<Rightarrow> byte \<Rightarrow> lwerr + byte list" where
  "lwtriangle_to_wkb_buf be tri points variant =
     (if has_bits variant WKB_EXTENDED \<and> lwgeom_is_empty tri then empty_to_wkb_buf be tri variant
      else bindE (wkb_head be tri variant) (\<lambda>head.
        Inr (head @ integer_to_wkb_buf be 1 variant @ ptarray_to_wkb_buf be points variant)))"

definition lwpoly_to_wkb_size :: "lwgeom \<Rightarrow> pointarray list \<Rightarrow> byte \<Rightarrow> nat" where
  "lwpoly_to_wkb_size poly rings variant =
     (if has_bits variant WKB_EXTENDED \<and> lwgeom_is_empty poly then empty_to_wkb_size poly variant
      else wkb_head_size poly variant + WKB_INT_SIZE +
        (\<Sum>r\<leftarrow>rings. ptarray_to_wkb_size r variant))"

definition lwpoly_to_wkb_buf :: "bool \<Rightarrow> lwgeom \<Rightarrow> pointarray list \<Rightarrow> byte \<Rightarrow> lwerr + byte list" where
  "lwpoly_to_wkb_buf be poly rings variant =
     (if has_bits variant WKB_EXTENDED \<and> lwgeom_is_empty poly then empty_to_wkb_buf be poly variant
      else bindE (wkb_head be poly variant) (\<lambda>head.
        Inr (head @ integer_to_wkb_buf be (of_nat (length rings)) variant @
          concat (map (\<lambda>r. ptarray_to_wkb_buf be r variant) rings))))"

text \<open>The weight of control point \<open>i\<close> when it is written: present and not the number 1.\<close>

definition nurbs_weight :: "double list option \<Rightarrow> nat \<Rightarrow> double option" where
  "nurbs_weight weights i =
     (case weights of
        None \<Rightarrow> None
      | Some w \<Rightarrow> if i < length w \<and> \<not> dbl_eq (w ! i) dbl_one then Some (w ! i) else None)"

text \<open>One control point: its byte order, its coordinates, the weight flag and the weight.\<close>

definition nurbs_point_to_wkb_buf ::
  "bool \<Rightarrow> pointarray option \<Rightarrow> double list option \<Rightarrow> byte \<Rightarrow> nat \<Rightarrow> byte list" where
  "nurbs_point_to_wkb_buf be points weights variant i =
     endian_to_wkb_buf variant @
     (case points of None \<Rightarrow> []
      | Some pa \<Rightarrow> concat (map (\<lambda>d. double_to_wkb_buf be d variant) (pa_point pa i (FLAGS_NDIMS (pflags pa))))) @
     (case nurbs_weight weights i of
        None \<Rightarrow> byte_to_wkb_buf 0 variant
      | Some w \<Rightarrow> byte_to_wkb_buf 1 variant @ double_to_wkb_buf be w variant)"

definition lwnurbscurve_to_wkb_size ::
  "lwgeom \<Rightarrow> nat \<Rightarrow> pointarray option \<Rightarrow> double list option \<Rightarrow> double list option \<Rightarrow> byte \<Rightarrow> nat" where
  "lwnurbscurve_to_wkb_size curve degree points weights knots variant =
     (let n = (case points of None \<Rightarrow> 0 | Some pa \<Rightarrow> npoints pa);
          dims = (case points of None \<Rightarrow> 2 | Some pa \<Rightarrow> FLAGS_NDIMS (pflags pa))
      in wkb_head_size curve variant + WKB_INT_SIZE + WKB_INT_SIZE +
         (\<Sum>i\<leftarrow>[0..<n]. WKB_BYTE_SIZE + dims * WKB_DOUBLE_SIZE + WKB_BYTE_SIZE +
            (case nurbs_weight weights i of None \<Rightarrow> 0 | Some w \<Rightarrow> WKB_DOUBLE_SIZE)) +
         WKB_INT_SIZE +
         (case lwnurbscurve_get_or_generate_knots degree points knots of
            None \<Rightarrow> 0 | Some ks \<Rightarrow> WKB_DOUBLE_SIZE * length ks))"

definition lwnurbscurve_to_wkb_buf ::
  "bool \<Rightarrow> lwgeom \<Rightarrow> nat \<Rightarrow> pointarray option \<Rightarrow> double list option \<Rightarrow> double list option \<Rightarrow> byte \<Rightarrow>
   lwerr + byte list" where
  "lwnurbscurve_to_wkb_buf be curve degree points weights knots variant =
     (let n = (case points of None \<Rightarrow> 0 | Some pa \<Rightarrow> npoints pa)
      in bindE (wkb_head be curve variant) (\<lambda>head.
         bindE (case lwnurbscurve_get_or_generate_knots degree points knots of
             Some (k # ks) \<Rightarrow>
               Inr (integer_to_wkb_buf be (of_nat (length (k # ks))) variant @
                 concat (map (\<lambda>d. double_to_wkb_buf be d variant) (k # ks)))
           | _ \<Rightarrow> if n = 0 then Inr (integer_to_wkb_buf be 0 variant)
                  else Inl (LwError ''Failed to get knots for NURBS curve'')) (\<lambda>tail.
         Inr (head @ integer_to_wkb_buf be (of_nat degree) variant @
              integer_to_wkb_buf be (of_nat n) variant @
              concat (map (nurbs_point_to_wkb_buf be points weights variant) [0..<n]) @ tail))))"

fun lwgeom_to_wkb_size :: "lwgeom \<Rightarrow> byte \<Rightarrow> lwerr + nat" where
  "lwgeom_to_wkb_size (LWCOLLECTION t h mg al gs) variant =
     (let col = LWCOLLECTION t h mg al gs in
      if \<not> has_bits variant WKB_EXTENDED \<and> lwgeom_is_empty col
      then Inr (empty_to_wkb_size col variant)
      else
        bindE (require (lwtype_is_collection t) ''%s: Unsupported geometry type: %s'') (\<lambda>_.
        bindE (mapE (\<lambda>g. lwgeom_to_wkb_size g (variant OR WKB_NO_SRID)) gs) (\<lambda>sizes.
        Inr (wkb_head_size col variant + WKB_INT_SIZE + sum_list sizes))))"
| "lwgeom_to_wkb_size (LWNURBSCURVE h d p w k) variant =
     Inr (lwnurbscurve_to_wkb_size (LWNURBSCURVE h d p w k) d p w k variant)"
| "lwgeom_to_wkb_size geom variant =
     (if \<not> has_bits variant WKB_EXTENDED \<and> lwgeom_is_empty geom
      then Inr (empty_to_wkb_size geom variant)
      else case geom of
        LWPOINT h pa \<Rightarrow> Inr (lwpoint_to_wkb_size geom pa variant)
      | LWCIRCSTRING h pa \<Rightarrow> Inr (lwline_to_wkb_size geom pa variant)
      | LWLINE h pa \<Rightarrow> Inr (lwline_to_wkb_size geom pa variant)
      | LWPOLY h mr rs \<Rightarrow> Inr (lwpoly_to_wkb_size geom rs variant)
      | LWTRIANGLE h pa \<Rightarrow> Inr (lwtriangle_to_wkb_size geom pa variant))"

fun lwgeom_to_wkb_buf :: "bool \<Rightarrow> lwgeom \<Rightarrow> byte \<Rightarrow> lwerr + byte list" where
  "lwgeom_to_wkb_buf be (LWCOLLECTION t h mg al gs) variant =
     (let col = LWCOLLECTION t h mg al gs in
      if lwgeom_is_empty col \<and> \<not> has_bits variant WKB_EXTENDED
      then empty_to_wkb_buf be col variant
      else
        bindE (require (lwtype_is_collection t) ''%s: Unsupported geometry type: %s'') (\<lambda>_.
        bindE (wkb_head be col variant) (\<lambda>head.
        bindE (mapE (\<lambda>g. lwgeom_to_wkb_buf be g (variant OR WKB_NO_SRID)) gs) (\<lambda>parts.
        Inr (head @ integer_to_wkb_buf be (of_nat (length gs)) variant @ concat parts)))))"
| "lwgeom_to_wkb_buf be (LWNURBSCURVE h d p w k) variant =
     lwnurbscurve_to_wkb_buf be (LWNURBSCURVE h d p w k) d p w k variant"
| "lwgeom_to_wkb_buf be geom variant =
     (if lwgeom_is_empty geom \<and> \<not> has_bits variant WKB_EXTENDED
      then empty_to_wkb_buf be geom variant
      else case geom of
        LWPOINT h pa \<Rightarrow> lwpoint_to_wkb_buf be geom pa variant
      | LWCIRCSTRING h pa \<Rightarrow> lwline_to_wkb_buf be geom pa variant
      | LWLINE h pa \<Rightarrow> lwline_to_wkb_buf be geom pa variant
      | LWPOLY h mr rs \<Rightarrow> lwpoly_to_wkb_buf be geom rs variant
      | LWTRIANGLE h pa \<Rightarrow> lwtriangle_to_wkb_buf be geom pa variant)"

section \<open>Output buffers\<close>

text \<open>
  \<open>int\<close> has 32 bits: \<open>written_bytes\<close> is the pointer difference reduced to it. A write past
  the allocated size is a fault.
\<close>

definition wkb_pick_order :: "bool \<Rightarrow> byte \<Rightarrow> byte" where
  "wkb_pick_order be variant =
     (if \<not> (has_bits variant WKB_NDR \<or> has_bits variant WKB_XDR) \<or>
         (has_bits variant WKB_NDR \<and> has_bits variant WKB_XDR)
      then (if be then variant OR WKB_XDR else variant OR WKB_NDR) else variant)"

definition int32 :: "int \<Rightarrow> int" where
  "int32 i = sint (word_of_int i :: 32 word)"

definition lwgeom_to_wkb_write_buf :: "bool \<Rightarrow> lwgeom \<Rightarrow> byte \<Rightarrow> lwerr + (byte list \<times> int)" where
  "lwgeom_to_wkb_write_buf be geom variant =
     bindE (lwgeom_to_wkb_buf be geom (wkb_pick_order be variant)) (\<lambda>bs.
     Inr (bs, int32 (int (length bs))))"

definition lwgeom_to_wkb_buffer :: "bool \<Rightarrow> lwgeom \<Rightarrow> byte \<Rightarrow> lwerr + byte list" where
  "lwgeom_to_wkb_buffer be geom variant =
     bindE (lwgeom_to_wkb_size geom variant) (\<lambda>b_size.
     let b_size = (if has_bits variant WKB_HEX then 2 * b_size + 1 else b_size) in
     bindE (lwgeom_to_wkb_write_buf be geom variant) (\<lambda>(buffer, written_size).
     if b_size < length buffer then Inl MemFault
     else if has_bits variant WKB_HEX \<and> \<not> (0 \<le> written_size \<and> written_size < int b_size) then Inl MemFault
     else
       let (buffer, written_size) =
         (if has_bits variant WKB_HEX then (buffer @ [0], written_size + 1) else (buffer, written_size))
       in bindE (require (written_size = int b_size)
            ''Output WKB is not the same size as the allocated buffer. Variant: %u, Geom: %s'')
            (\<lambda>_. Inr buffer)))"

definition lwgeom_to_hexwkb_buffer :: "bool \<Rightarrow> lwgeom \<Rightarrow> byte \<Rightarrow> lwerr + byte list" where
  "lwgeom_to_hexwkb_buffer be geom variant = lwgeom_to_wkb_buffer be geom (variant OR WKB_HEX)"

definition lwgeom_to_wkb_varlena :: "bool \<Rightarrow> lwgeom \<Rightarrow> byte \<Rightarrow> lwerr + lwvarlena" where
  "lwgeom_to_wkb_varlena be geom variant =
     bindE (lwgeom_to_wkb_size geom variant) (\<lambda>b_size.
     let b_size = (if has_bits variant WKB_HEX then 2 * b_size else b_size) in
     bindE (lwgeom_to_wkb_write_buf be geom variant) (\<lambda>(buffer, written_size).
     if b_size < length buffer then Inl MemFault
     else bindE (require (written_size = int b_size)
            ''Output WKB is not the same size as the allocated buffer. Variant: %u, Geom: %s'')
            (\<lambda>_. Inr (lwvarlena_set be (nat written_size + LWVARHDRSZ) buffer))))"

definition lwgeom_to_hexwkb_varlena :: "bool \<Rightarrow> lwgeom \<Rightarrow> byte \<Rightarrow> lwerr + lwvarlena" where
  "lwgeom_to_hexwkb_varlena be geom variant = lwgeom_to_wkb_varlena be geom (variant OR WKB_HEX)"

section \<open>The binary form behind every output\<close>

text \<open>
  Clearing the hexadecimal flag gives the binary form, which does not depend on the byte
  order of the machine; the output for any machine and any variant is that form, doubled
  to hexadecimal when the flag is set.
\<close>

definition raw :: "byte \<Rightarrow> byte" where
  "raw v = v AND NOT WKB_HEX"

lemma raw_bits [simp]:
  "has_bits (raw v) WKB_HEX = False" "has_bits (raw v) WKB_NDR = has_bits v WKB_NDR"
  "has_bits (raw v) WKB_XDR = has_bits v WKB_XDR"
  "has_bits (raw v) WKB_ISO = has_bits v WKB_ISO"
  "has_bits (raw v) WKB_EXTENDED = has_bits v WKB_EXTENDED"
  "has_bits (raw v) WKB_NO_NPOINTS = has_bits v WKB_NO_NPOINTS"
  "has_bits (raw v) WKB_NO_SRID = has_bits v WKB_NO_SRID"
  unfolding raw_def has_bits_and_not by simp_all

lemma raw_or [simp]:
  "raw v OR WKB_NO_SRID = raw (v OR WKB_NO_SRID)"
  "raw v OR WKB_NO_NPOINTS = raw (v OR WKB_NO_NPOINTS)"
  by (simp_all add: raw_def bit.conj_disj_distrib2)

lemma raw_id: "\<not> has_bits v WKB_HEX \<Longrightarrow> raw v = v"
proof -
  assume "\<not> has_bits v WKB_HEX"
  then have "v AND NOT WKB_HEX = (v AND NOT WKB_HEX) OR (v AND WKB_HEX)"
    by (simp only: has_bits_def not_not or.right_neutral)
  also have "\<dots> = v" by (simp only: bit.conj_disj_distrib [symmetric] bit.disj_cancel_left bit.conj_one_right)
  finally show ?thesis by (simp only: raw_def)
qed

lemma wkb_emit_raw [simp]: "wkb_emit (raw v) bs = bs" "wkb_order (raw v) bs = wkb_order v bs"
  by (simp_all add: wkb_emit_def wkb_order_def)

lemma wkb_emit_or [simp]:
  "wkb_emit (v OR WKB_NO_SRID) = wkb_emit v" "wkb_emit (v OR WKB_NO_NPOINTS) = wkb_emit v"
  "wkb_order (v OR WKB_NO_SRID) = wkb_order v" "wkb_order (v OR WKB_NO_NPOINTS) = wkb_order v"
  by (simp_all add: wkb_emit_def wkb_order_def fun_eq_iff)

lemma wkb_type_raw [simp]:
  "lwgeom_wkb_needs_srid g (raw v) = lwgeom_wkb_needs_srid g v"
  "lwgeom_wkb_type g (raw v) = lwgeom_wkb_type g v"
  by (simp_all add: lwgeom_wkb_needs_srid_def lwgeom_wkb_type_def Let_def split: option.split)

lemma concat_chunks: "concat (map (\<lambda>i. take k (drop (i * k) xs)) [0..<n]) = take (n * k) xs"
proof (induction n)
  case 0
  then show ?case by simp
next
  case (Suc n)
  have "take (Suc n * k) xs = take (n * k) xs @ take k (drop (n * k) xs)"
    by (simp add: take_add [symmetric] add.commute)
  with Suc show ?case by simp
qed

text \<open>The coordinates the writer copies, \<open>k\<close> for every point.\<close>

definition pa_coords :: "pointarray \<Rightarrow> nat \<Rightarrow> double list" where
  "pa_coords pa k = concat (map (\<lambda>i. pa_point pa i k) [0..<npoints pa])"

lemma pa_coords_full: "pa_coords pa (FLAGS_NDIMS (pflags pa)) =
    take (npoints pa * FLAGS_NDIMS (pflags pa)) (ptlist pa)"
  by (simp add: pa_coords_def pa_point_def concat_chunks)

definition wkb_dims :: "byte \<Rightarrow> pointarray \<Rightarrow> nat" where
  "wkb_dims v pa = (if has_bits v WKB_ISO \<or> has_bits v WKB_EXTENDED then FLAGS_NDIMS (pflags pa) else 2)"

lemma concat_map_concat: "concat (map (\<lambda>i. concat (map f (g i))) xs) = concat (map f (concat (map g xs)))"
  by (induction xs) auto

lemma ptarray_to_wkb_buf_emit [emit_simps]:
  "ptarray_to_wkb_buf be pa v = wkb_emit v
     ((if has_bits v WKB_NO_NPOINTS then [] else wkb_order v (le_bytes 4 (of_nat (npoints pa) :: u32))) @
      concat (map (\<lambda>d. wkb_order v (le_bytes 8 d)) (pa_coords pa (wkb_dims v pa))))"
proof -
  let ?dims = "wkb_dims v pa"
  let ?bulk = "npoints pa \<noteq> 0 \<and> ?dims = FLAGS_NDIMS (pflags pa) \<and> \<not> wkb_swap_bytes be v \<and>
    \<not> has_bits v WKB_HEX"
  have "concat (map (\<lambda>i. concat (map (\<lambda>d. double_to_wkb_buf be d v) (pa_point pa i ?dims))) [0..<npoints pa]) =
      wkb_emit v (concat (map (\<lambda>d. wkb_order v (le_bytes 8 d)) (pa_coords pa ?dims)))"
    by (simp only: concat_map_concat pa_coords_def double_to_wkb_buf_emit)
      (simp add: wkb_emit_concat comp_def)
  moreover have "concat (map (mem_bytes be 8) (take (npoints pa * ?dims) (ptlist pa))) =
      wkb_emit v (concat (map (\<lambda>d. wkb_order v (le_bytes 8 d)) (pa_coords pa ?dims)))" if ?bulk
  proof -
    have "(mem_bytes be 8 :: double \<Rightarrow> _) = (\<lambda>d. wkb_order v (le_bytes 8 d))"
      using mem_bytes_order [of be v 8] that by (intro ext) simp
    with that pa_coords_full [of pa] show ?thesis by (simp add: wkb_emit_def)
  qed
  ultimately show ?thesis
    by (auto simp: ptarray_to_wkb_buf_def Let_def integer_to_wkb_buf_emit wkb_dims_def)
qed

definition emitE :: "byte \<Rightarrow> lwerr + byte list \<Rightarrow> lwerr + byte list" where
  "emitE v m = bindE m (\<lambda>bs. Inr (wkb_emit v bs))"

lemma emitE_simps [simp]: "emitE v (Inr bs) = Inr (wkb_emit v bs)" "emitE v (Inl e) = Inl e"
  by (simp_all add: emitE_def)

lemma emitE_bind: "emitE v (bindE m f) = bindE m (\<lambda>x. emitE v (f x))"
  by (cases m) (simp_all add: emitE_def)

lemma bindE_emitE: "bindE (emitE v m) f = bindE m (\<lambda>bs. f (wkb_emit v bs))"
  by (cases m) simp_all

lemma emitE_if: "emitE v (if c then a else b) = (if c then emitE v a else emitE v b)"
  by simp

lemma mapE_emitE: "mapE (\<lambda>x. emitE v (f x)) xs = bindE (mapE f xs) (\<lambda>ps. Inr (map (wkb_emit v) ps))"
proof (induction xs)
  case Nil
  then show ?case by simp
next
  case (Cons x xs)
  then show ?case by (cases "f x"; cases "mapE f xs") auto
qed

lemma wkb_dims_raw [simp]:
  "wkb_dims (raw v) = wkb_dims v" "wkb_dims (v OR WKB_NO_NPOINTS) = wkb_dims v"
  "wkb_dims (v OR WKB_NO_SRID) = wkb_dims v"
  by (auto simp: wkb_dims_def fun_eq_iff)

lemma ptarray_raw: "ptarray_to_wkb_buf be pa v = wkb_emit v (ptarray_to_wkb_buf False pa (raw v))"
  by (simp add: ptarray_to_wkb_buf_emit)

lemma scalar_raw:
  "integer_to_wkb_buf be i v = wkb_emit v (integer_to_wkb_buf False i (raw v))"
  "double_to_wkb_buf be d v = wkb_emit v (double_to_wkb_buf False d (raw v))"
  "byte_to_wkb_buf b v = wkb_emit v (byte_to_wkb_buf b (raw v))"
  "endian_to_wkb_buf v = wkb_emit v (endian_to_wkb_buf (raw v))"
  "double_nan_to_wkb_buf v = wkb_emit v (double_nan_to_wkb_buf (raw v))"
  by (simp_all add: emit_simps)

lemma wkb_head_raw: "wkb_head be g v = emitE v (wkb_head False g (raw v))"
  by (simp add: wkb_head_def emitE_bind scalar_raw(1) [of be _ v] scalar_raw(4) [of v])

lemma empty_raw: "empty_to_wkb_buf be g v = emitE v (empty_to_wkb_buf False g (raw v))"
  by (simp add: empty_to_wkb_buf_def emitE_bind wkb_head_raw [of be g v] bindE_emitE
      scalar_raw(1) [of be _ v] scalar_raw(5) [of v] wkb_emit_concat comp_def split: option.split)

lemma lwpoint_raw: "lwpoint_to_wkb_buf be g pa v = emitE v (lwpoint_to_wkb_buf False g pa (raw v))"
  by (simp add: lwpoint_to_wkb_buf_def emitE_bind wkb_head_raw [of be g v] bindE_emitE
      empty_raw [of be g v] ptarray_raw [of be pa "v OR WKB_NO_NPOINTS"])

lemma lwline_raw: "lwline_to_wkb_buf be g pa v = emitE v (lwline_to_wkb_buf False g pa (raw v))"
  by (simp add: lwline_to_wkb_buf_def emitE_bind wkb_head_raw [of be g v] bindE_emitE
      empty_raw [of be g v] ptarray_raw [of be pa v])

lemma lwtriangle_raw:
  "lwtriangle_to_wkb_buf be g pa v = emitE v (lwtriangle_to_wkb_buf False g pa (raw v))"
  by (simp add: lwtriangle_to_wkb_buf_def emitE_bind wkb_head_raw [of be g v] bindE_emitE
      empty_raw [of be g v] ptarray_raw [of be pa v] scalar_raw(1) [of be _ v])

lemma lwpoly_raw: "lwpoly_to_wkb_buf be g rs v = emitE v (lwpoly_to_wkb_buf False g rs (raw v))"
  by (simp add: lwpoly_to_wkb_buf_def emitE_bind wkb_head_raw [of be g v] bindE_emitE
      empty_raw [of be g v] ptarray_raw [of be _ v] scalar_raw(1) [of be _ v] wkb_emit_concat comp_def)

lemma nurbs_point_raw:
  "nurbs_point_to_wkb_buf be p w v i = wkb_emit v (nurbs_point_to_wkb_buf False p w (raw v) i)"
  by (simp add: nurbs_point_to_wkb_buf_def scalar_raw(2) [of be _ v] scalar_raw(3) [of _ v]
      scalar_raw(4) [of v] wkb_emit_concat comp_def split: option.split)

lemma nurbs_raw: "lwnurbscurve_to_wkb_buf be g d p w k v =
    emitE v (lwnurbscurve_to_wkb_buf False g d p w k (raw v))"
proof -
  have "nurbs_point_to_wkb_buf be p w v =
      (\<lambda>i. wkb_emit v (nurbs_point_to_wkb_buf False p w (raw v) i))"
    by (rule ext) (rule nurbs_point_raw)
  then show ?thesis
    by (simp add: lwnurbscurve_to_wkb_buf_def Let_def emitE_bind wkb_head_raw [of be g v] bindE_emitE
        scalar_raw(1,2) [of be _ v] wkb_emit_concat comp_def split: option.split list.split)
qed

lemma lwgeom_raw: "lwgeom_to_wkb_buf be g v = emitE v (lwgeom_to_wkb_buf False g (raw v))"
proof (induction g arbitrary: v)
  case (LWCOLLECTION t h mg al gs)
  have "mapE (\<lambda>g. lwgeom_to_wkb_buf be g (v OR WKB_NO_SRID)) gs =
      mapE (\<lambda>g. emitE v (lwgeom_to_wkb_buf False g (raw (v OR WKB_NO_SRID)))) gs"
    using LWCOLLECTION by (intro mapE_cong) (auto simp: emitE_def)
  then show ?case
    by (simp add: Let_def emitE_bind wkb_head_raw [of be _ v] bindE_emitE bindE_assoc empty_raw [of be _ v]
        mapE_emitE scalar_raw(1) [of be _ v] wkb_emit_concat comp_def
        del: lwgeom_is_empty.simps)
qed (simp_all add: empty_raw [of be] lwpoint_raw [of be] lwline_raw [of be] lwtriangle_raw [of be]
    lwpoly_raw [of be] nurbs_raw [of be])

section \<open>The size functions agree with the writers\<close>

lemma has_bits_or_mask: "has_bits v (m OR n) \<longleftrightarrow> has_bits v m \<or> has_bits v n"
  by (simp add: has_bits_def bit.conj_disj_distrib or_eq_0_iff)

lemma has_bits_iso_or_extended: "has_bits v (5 :: byte) \<longleftrightarrow> has_bits v WKB_ISO \<or> has_bits v WKB_EXTENDED"
  using has_bits_or_mask [of v WKB_ISO WKB_EXTENDED] by simp

lemma sum_list_replicate_const: "(\<Sum>x\<leftarrow>xs. c) = length xs * (c::nat)"
  by (induction xs) auto

lemma sum_list_upt_cong:
  "(\<And>i. i < n \<Longrightarrow> f i = g i) \<Longrightarrow> sum_list (map f [0..<n]) = sum_list (map g [0..<n])"
  by (rule arg_cong [of _ _ sum_list]) simp

lemma wkb_dims_le: "wkb_dims v pa \<le> FLAGS_NDIMS (pflags pa)"
  by (simp add: wkb_dims_def)

lemma length_pa_coords:
  "pa_wf pa \<Longrightarrow> k \<le> FLAGS_NDIMS (pflags pa) \<Longrightarrow> length (pa_coords pa k) = npoints pa * k"
  by (simp add: pa_coords_def length_concat comp_def length_pa_point
      sum_list_upt_cong [of "npoints pa" _ "\<lambda>i. k"] sum_list_replicate_const)

lemma length_ptarray_raw:
  "pa_wf pa \<Longrightarrow> length (ptarray_to_wkb_buf be pa (raw v)) = ptarray_to_wkb_size pa v"
  by (auto simp: ptarray_to_wkb_buf_emit ptarray_to_wkb_size_def length_concat comp_def
      sum_list_replicate_const length_pa_coords wkb_dims_le)
    (auto simp: wkb_dims_def has_bits_iso_or_extended)

lemma length_head_raw:
  "wkb_head be g (raw v) = Inr bs \<Longrightarrow> length bs = wkb_head_size g v"
  by (auto simp: wkb_head_def bindE_eq_Inr emit_simps wkb_head_size_def)

lemma length_empty_raw:
  "empty_to_wkb_buf be g (raw v) = Inr bs \<Longrightarrow> length bs = empty_to_wkb_size g v"
  by (auto simp: empty_to_wkb_buf_def bindE_eq_Inr emit_simps empty_to_wkb_size_def length_concat
      comp_def sum_list_replicate_const dest!: length_head_raw split: option.split)

lemma length_lwpoint_raw:
  "pa_wf pa \<Longrightarrow> lwpoint_to_wkb_buf be g pa (raw v) = Inr bs \<Longrightarrow> length bs = lwpoint_to_wkb_size g pa v"
  using length_ptarray_raw [of pa be "v OR WKB_NO_NPOINTS"]
  by (auto simp: lwpoint_to_wkb_buf_def lwpoint_to_wkb_size_def bindE_eq_Inr length_empty_raw
      length_head_raw split: if_splits)

lemma length_lwline_raw:
  "pa_wf pa \<Longrightarrow> lwline_to_wkb_buf be g pa (raw v) = Inr bs \<Longrightarrow> length bs = lwline_to_wkb_size g pa v"
  by (auto simp: lwline_to_wkb_buf_def lwline_to_wkb_size_def bindE_eq_Inr length_empty_raw
      length_head_raw length_ptarray_raw split: if_splits)

lemma length_lwtriangle_raw:
  "pa_wf pa \<Longrightarrow> lwtriangle_to_wkb_buf be g pa (raw v) = Inr bs \<Longrightarrow>
   length bs = lwtriangle_to_wkb_size g pa v"
  by (auto simp: lwtriangle_to_wkb_buf_def lwtriangle_to_wkb_size_def bindE_eq_Inr length_empty_raw
      length_head_raw length_ptarray_raw emit_simps(1) split: if_splits)

lemma length_lwpoly_raw:
  "list_all pa_wf rs \<Longrightarrow> lwpoly_to_wkb_buf be g rs (raw v) = Inr bs \<Longrightarrow>
   length bs = lwpoly_to_wkb_size g rs v"
proof -
  assume rs: "list_all pa_wf rs" and "lwpoly_to_wkb_buf be g rs (raw v) = Inr bs"
  have "(\<Sum>r\<leftarrow>rs. length (ptarray_to_wkb_buf be r (raw v))) = (\<Sum>r\<leftarrow>rs. ptarray_to_wkb_size r v)"
    using rs by (intro arg_cong [of _ _ sum_list]) (auto simp: list_all_iff length_ptarray_raw)
  then show ?thesis
    using \<open>lwpoly_to_wkb_buf be g rs (raw v) = Inr bs\<close>
    by (auto simp: lwpoly_to_wkb_buf_def lwpoly_to_wkb_size_def bindE_eq_Inr length_empty_raw
        length_head_raw length_concat comp_def integer_to_wkb_buf_emit split: if_splits)
qed

lemma length_nurbs_point_raw:
  assumes "pa_wf pa" "i < npoints pa"
  shows "length (nurbs_point_to_wkb_buf be (Some pa) w (raw v) i) =
    2 + FLAGS_NDIMS (pflags pa) * 8 + (case nurbs_weight w i of None \<Rightarrow> 0 | Some _ \<Rightarrow> 8)"
  using length_pa_point [OF assms order_refl]
  by (simp add: nurbs_point_to_wkb_buf_def emit_simps length_concat comp_def
      sum_list_replicate_const split: option.split)

lemma length_nurbs_raw:
  assumes "case p of None \<Rightarrow> True | Some pa \<Rightarrow> pa_wf pa"
    and "lwnurbscurve_to_wkb_buf be g d p w k (raw v) = Inr bs"
  shows "length bs = lwnurbscurve_to_wkb_size g d p w k v"
proof -
  let ?n = "case p of None \<Rightarrow> 0 | Some pa \<Rightarrow> npoints pa"
  let ?dims = "case p of None \<Rightarrow> 2 | Some pa \<Rightarrow> FLAGS_NDIMS (pflags pa)"
  have "(\<Sum>i\<leftarrow>[0..<?n]. length (nurbs_point_to_wkb_buf be p w (raw v) i)) =
      (\<Sum>i\<leftarrow>[0..<?n]. 1 + ?dims * 8 + 1 + (case nurbs_weight w i of None \<Rightarrow> 0 | Some _ \<Rightarrow> 8))"
    using assms(1) by (intro sum_list_upt_cong) (auto simp: length_nurbs_point_raw split: option.splits)
  then show ?thesis
    using assms(2)
    by (auto simp: lwnurbscurve_to_wkb_buf_def lwnurbscurve_to_wkb_size_def Let_def bindE_eq_Inr
        length_head_raw length_concat comp_def integer_to_wkb_buf_emit double_to_wkb_buf_emit
        sum_list_replicate_const split: option.splits list.splits if_splits)
qed

lemma length_lwgeom_raw:
  "lwgeom_wf g \<Longrightarrow> lwgeom_to_wkb_buf be g (raw v) = Inr bs \<Longrightarrow>
   lwgeom_to_wkb_size g v = Inr (length bs)"
proof (induction g arbitrary: v bs)
  case (LWCOLLECTION t h mg al gs)
  let ?col = "LWCOLLECTION t h mg al gs"
  let ?v = "v OR WKB_NO_SRID"
  show ?case
  proof (cases "lwgeom_is_empty ?col \<and> \<not> has_bits v WKB_EXTENDED")
    case True
    with LWCOLLECTION.prems show ?thesis
      by (auto simp: Let_def length_empty_raw simp del: lwgeom_is_empty.simps)
  next
    case False
    with LWCOLLECTION.prems obtain head parts where hp:
      "wkb_head be ?col (raw v) = Inr head" "lwtype_is_collection t"
      "mapE (\<lambda>g. lwgeom_to_wkb_buf be g (raw ?v)) gs = Inr parts"
      "bs = head @ integer_to_wkb_buf be (of_nat (length gs)) (raw v) @ concat parts"
      by (auto simp: Let_def bindE_eq_Inr simp del: lwgeom_is_empty.simps)
    have "mapE (\<lambda>g. lwgeom_to_wkb_size g ?v) gs = Inr (map length parts)"
      using hp(3) LWCOLLECTION.IH LWCOLLECTION.prems(1)
      unfolding mapE_eq_Inr list.rel_map
      by (elim list.rel_mono_strong) (auto simp: list_all_iff)
    with False hp show ?thesis
      by (auto simp: Let_def length_head_raw length_concat integer_to_wkb_buf_emit
          simp del: lwgeom_is_empty.simps)
  qed
next
  case (LWPOLY h mr rs)
  then have "list_all pa_wf rs" by (auto simp: list_all_iff)
  with LWPOLY show ?case by (auto simp: length_empty_raw length_lwpoly_raw split: if_splits)
next
  case (LWNURBSCURVE h d p w k)
  then show ?case by (auto intro!: length_nurbs_raw [symmetric] split: option.splits)
qed (auto simp: length_empty_raw length_lwpoint_raw length_lwline_raw length_lwtriangle_raw
    split: if_splits)

section \<open>Well-formed geometries are written\<close>

lemma wkb_type_number_total:
  "wkb_type_number POINTTYPE = Some 1" "wkb_type_number LINETYPE = Some 2"
  "wkb_type_number POLYGONTYPE = Some 3" "wkb_type_number CIRCSTRINGTYPE = Some 8"
  "wkb_type_number TRIANGLETYPE = Some 17" "wkb_type_number NURBSCURVETYPE = Some 21"
  "lwtype_is_collection t \<Longrightarrow> \<exists>n. wkb_type_number t = Some n"
  by (auto simp: wkb_type_number_def dest!: lwtype_is_collection_cases)

lemma lwgeom_wkb_type_total:
  "wkb_type_number (lwgeom_get_type g) = Some n \<Longrightarrow> \<exists>t. lwgeom_wkb_type g v = Inr t"
  by (simp add: lwgeom_wkb_type_def Let_def)

lemma wkb_head_total:
  "wkb_type_number (lwgeom_get_type g) = Some n \<Longrightarrow> \<exists>bs. wkb_head be g v = Inr bs"
  using lwgeom_wkb_type_total [of g n v] by (auto simp: wkb_head_def)

lemma empty_to_wkb_total:
  "wkb_type_number (lwgeom_get_type g) = Some n \<Longrightarrow> \<exists>bs. empty_to_wkb_buf be g v = Inr bs"
  using wkb_head_total [of g n be v] by (auto simp: empty_to_wkb_buf_def)

lemma lwgeom_to_wkb_total: "lwgeom_wf g \<Longrightarrow> \<exists>bs. lwgeom_to_wkb_buf be g v = Inr bs"
proof (induction g arbitrary: v)
  case (LWCOLLECTION t h mg al gs)
  let ?col = "LWCOLLECTION t h mg al gs"
  from LWCOLLECTION.prems have t: "lwtype_is_collection t" by simp
  then obtain n where n: "wkb_type_number (lwgeom_get_type ?col) = Some n"
    using wkb_type_number_total(7) by auto
  have "\<forall>x \<in> set gs. \<exists>bs. lwgeom_to_wkb_buf be x (v OR WKB_NO_SRID) = Inr bs"
    using LWCOLLECTION by (auto simp: list_all_iff)
  then obtain f where "\<And>x. x \<in> set gs \<Longrightarrow> lwgeom_to_wkb_buf be x (v OR WKB_NO_SRID) = Inr (f x)"
    by metis
  then have "mapE (\<lambda>g. lwgeom_to_wkb_buf be g (v OR WKB_NO_SRID)) gs = Inr (map f gs)" by simp
  with t wkb_head_total [OF n, of be v] empty_to_wkb_total [OF n, of be v] show ?case
    by (auto simp: Let_def simp del: lwgeom_is_empty.simps)
next
  case (LWPOINT h pa)
  have n: "wkb_type_number (lwgeom_get_type (LWPOINT h pa)) = Some 1"
    by (simp only: lwgeom_get_type.simps wkb_type_number_total)
  obtain a b where "wkb_head be (LWPOINT h pa) v = Inr a" "empty_to_wkb_buf be (LWPOINT h pa) v = Inr b"
    using wkb_head_total [OF n] empty_to_wkb_total [OF n] by metis
  then show ?case by (simp add: lwpoint_to_wkb_buf_def)
next
  case (LWLINE h pa)
  have n: "wkb_type_number (lwgeom_get_type (LWLINE h pa)) = Some 2"
    by (simp only: lwgeom_get_type.simps wkb_type_number_total)
  obtain a b where "wkb_head be (LWLINE h pa) v = Inr a" "empty_to_wkb_buf be (LWLINE h pa) v = Inr b"
    using wkb_head_total [OF n] empty_to_wkb_total [OF n] by metis
  then show ?case by (simp add: lwline_to_wkb_buf_def)
next
  case (LWTRIANGLE h pa)
  have n: "wkb_type_number (lwgeom_get_type (LWTRIANGLE h pa)) = Some 17"
    by (simp only: lwgeom_get_type.simps wkb_type_number_total)
  obtain a b where "wkb_head be (LWTRIANGLE h pa) v = Inr a" "empty_to_wkb_buf be (LWTRIANGLE h pa) v = Inr b"
    using wkb_head_total [OF n] empty_to_wkb_total [OF n] by metis
  then show ?case by (simp add: lwtriangle_to_wkb_buf_def)
next
  case (LWCIRCSTRING h pa)
  have n: "wkb_type_number (lwgeom_get_type (LWCIRCSTRING h pa)) = Some 8"
    by (simp only: lwgeom_get_type.simps wkb_type_number_total)
  obtain a b where "wkb_head be (LWCIRCSTRING h pa) v = Inr a" "empty_to_wkb_buf be (LWCIRCSTRING h pa) v = Inr b"
    using wkb_head_total [OF n] empty_to_wkb_total [OF n] by metis
  then show ?case by (simp add: lwline_to_wkb_buf_def)
next
  case (LWPOLY h mr rs)
  have n: "wkb_type_number (lwgeom_get_type (LWPOLY h mr rs)) = Some 3"
    by (simp only: lwgeom_get_type.simps wkb_type_number_total)
  obtain a b where "wkb_head be (LWPOLY h mr rs) v = Inr a" "empty_to_wkb_buf be (LWPOLY h mr rs) v = Inr b"
    using wkb_head_total [OF n] empty_to_wkb_total [OF n] by metis
  then show ?case by (simp add: lwpoly_to_wkb_buf_def)
next
  case (LWNURBSCURVE h d p w k)
  have n: "wkb_type_number (lwgeom_get_type (LWNURBSCURVE h d p w k)) = Some 21"
    by (simp add: wkb_type_number_total)
  from wkb_head_total [OF n] obtain head where
    "wkb_head be (LWNURBSCURVE h d p w k) v = Inr head" by blast
  moreover have "(case p of None \<Rightarrow> 0 | Some pa \<Rightarrow> npoints pa) = 0 \<or>
      (\<exists>kn ks. lwnurbscurve_get_or_generate_knots d p k = Some (kn # ks))"
    using LWNURBSCURVE knots_generated [of d _ k] by (auto split: option.splits)
  ultimately show ?case
    by (auto simp: lwnurbscurve_to_wkb_buf_def Let_def split: option.split list.split)
qed

lemma lwgeom_to_wkb_size_buf:
  assumes "lwgeom_wf g"
  obtains bs n where "lwgeom_to_wkb_buf be g v = Inr bs" "lwgeom_to_wkb_size g v = Inr n"
    "length bs = (if has_bits v WKB_HEX then 2 * n else n)"
proof -
  from lwgeom_to_wkb_total [OF assms] obtain r where r: "lwgeom_to_wkb_buf False g (raw v) = Inr r"
    by blast
  from length_lwgeom_raw [OF assms r] lwgeom_raw [of be g v] r
  show ?thesis by (intro that [of "wkb_emit v r" "length r"]) auto
qed

lemma pick_order_bits [simp]:
  "has_bits (wkb_pick_order be v) WKB_HEX = has_bits v WKB_HEX"
  "has_bits (wkb_pick_order be v) WKB_ISO = has_bits v WKB_ISO"
  "has_bits (wkb_pick_order be v) WKB_EXTENDED = has_bits v WKB_EXTENDED"
  "has_bits (wkb_pick_order be v) WKB_NO_SRID = has_bits v WKB_NO_SRID"
  "has_bits (wkb_pick_order be v) WKB_NO_NPOINTS = has_bits v WKB_NO_NPOINTS"
  by (simp_all add: wkb_pick_order_def)

text \<open>The size depends on the variant through three of its bits.\<close>

definition same_shape :: "byte \<Rightarrow> byte \<Rightarrow> bool" where
  "same_shape v w \<longleftrightarrow> (\<forall>m \<in> {WKB_ISO, WKB_EXTENDED, WKB_NO_SRID, WKB_NO_NPOINTS}. has_bits v m = has_bits w m)"

lemma same_shape_or: "same_shape v w \<Longrightarrow> same_shape (v OR m) (w OR m)"
  by (simp add: same_shape_def)

lemma same_shape_parts:
  assumes "same_shape v w"
  shows "wkb_head_size g v = wkb_head_size g w" "empty_to_wkb_size g v = empty_to_wkb_size g w"
    "ptarray_to_wkb_size pa v = ptarray_to_wkb_size pa w"
    "lwnurbscurve_to_wkb_size g d p ws k v = lwnurbscurve_to_wkb_size g d p ws k w"
  using assms
  by (simp_all add: same_shape_def wkb_head_size_def lwgeom_wkb_needs_srid_def empty_to_wkb_size_def
      ptarray_to_wkb_size_def has_bits_iso_or_extended lwnurbscurve_to_wkb_size_def)

lemma same_shape_size: "same_shape v w \<Longrightarrow> lwgeom_to_wkb_size g v = lwgeom_to_wkb_size g w"
proof (induction g arbitrary: v w)
  case (LWCOLLECTION t h mg al gs)
  have "mapE (\<lambda>g. lwgeom_to_wkb_size g (v OR WKB_NO_SRID)) gs =
      mapE (\<lambda>g. lwgeom_to_wkb_size g (w OR WKB_NO_SRID)) gs"
    using LWCOLLECTION same_shape_or by (intro mapE_cong) auto
  with LWCOLLECTION.prems same_shape_parts [OF LWCOLLECTION.prems] show ?case
    by (simp add: Let_def same_shape_def del: lwgeom_is_empty.simps)
next
  case (LWPOINT h pa)
  from same_shape_parts [OF LWPOINT] same_shape_parts(3) [OF same_shape_or [OF LWPOINT]] LWPOINT
  show ?case by (simp add: lwpoint_to_wkb_size_def same_shape_def)
next
  case (LWPOLY h mr rs)
  from same_shape_parts [OF LWPOLY] LWPOLY
  show ?case by (simp add: lwpoly_to_wkb_size_def same_shape_def)
next
  case (LWNURBSCURVE h d p ws k)
  from same_shape_parts [OF LWNURBSCURVE] show ?case by simp
next
  case (LWLINE h pa)
  from same_shape_parts [OF LWLINE] LWLINE
  show ?case by (simp add: lwline_to_wkb_size_def same_shape_def)
next
  case (LWCIRCSTRING h pa)
  from same_shape_parts [OF LWCIRCSTRING] LWCIRCSTRING
  show ?case by (simp add: lwline_to_wkb_size_def same_shape_def)
next
  case (LWTRIANGLE h pa)
  from same_shape_parts [OF LWTRIANGLE] LWTRIANGLE
  show ?case by (simp add: lwtriangle_to_wkb_size_def same_shape_def)
qed

lemma pick_order_size [simp]: "lwgeom_to_wkb_size g (wkb_pick_order be v) = lwgeom_to_wkb_size g v"
  by (rule same_shape_size) (simp add: same_shape_def)

lemma int32_id: "0 \<le> i \<Longrightarrow> i < 2 ^ 31 \<Longrightarrow> int32 i = i"
  by (simp add: int32_def sint_sbintrunc' signed_take_bit_int_eq_self)

section \<open>Properties\<close>

text \<open>
  C28. The buffer the writer allocates has exactly the size it fills: on every well-formed
  geometry, for every variant and either machine byte order, no byte is written past the
  end, the final size check succeeds and the hexadecimal form ends with its NUL. The bound
  is the 32-bit \<open>int\<close> that carries the number of bytes written.
\<close>

theorem lwgeom_to_wkb_buffer_exact:
  assumes "lwgeom_wf g" and "lwgeom_to_wkb_size g v = Inr n" and "2 * n + 1 < 2 ^ 31"
  shows "\<exists>bs. lwgeom_to_wkb_buf be g (wkb_pick_order be v) = Inr bs \<and>
    length bs = (if has_bits v WKB_HEX then 2 * n else n) \<and>
    lwgeom_to_wkb_buffer be g v = Inr (if has_bits v WKB_HEX then bs @ [0] else bs) \<and>
    lwgeom_to_wkb_varlena be g v = Inr (lwvarlena_set be (length bs + LWVARHDRSZ) bs)"
proof -
  obtain bs m where bs: "lwgeom_to_wkb_buf be g (wkb_pick_order be v) = Inr bs"
    "lwgeom_to_wkb_size g (wkb_pick_order be v) = Inr m"
    "length bs = (if has_bits (wkb_pick_order be v) WKB_HEX then 2 * m else m)"
    by (rule lwgeom_to_wkb_size_buf [OF assms(1)])
  with assms(2,3) have len: "length bs = (if has_bits v WKB_HEX then 2 * n else n)"
    "int (length bs) < 2 ^ 31"
    by (auto split: if_splits)
  then have "int32 (int (length bs)) = int (length bs)" by (intro int32_id) auto
  with bs(1) len assms(2) show ?thesis
    by (simp add: lwgeom_to_wkb_buffer_def lwgeom_to_wkb_varlena_def lwgeom_to_wkb_write_buf_def Let_def)
qed

definition sample_line :: lwgeom where
  "sample_line = lwline_construct 4326 None
     (ptarray_construct_copy_data False False 2 [0x3FF0000000000000, 0, 0xBFF0000000000000, 0])"

theorem lwgeom_to_wkb_buffer_exact_witness:
  "lwgeom_wf sample_line \<and> lwgeom_to_wkb_size sample_line WKB_EXTENDED = Inr 45 \<and>
   (\<exists>bs. length bs = 45 \<and> lwgeom_to_wkb_buffer True sample_line WKB_EXTENDED = Inr bs)"
proof -
  have wf: "lwgeom_wf sample_line"
    by (simp add: sample_line_def lwline_construct_def bbox_head_def ptarray_construct_copy_data_def pa_wf_def)
  have size: "lwgeom_to_wkb_size sample_line WKB_EXTENDED = Inr 45"
    by (simp add: sample_line_def lwline_construct_def bbox_head_def ptarray_construct_copy_data_def
        lwline_to_wkb_size_def wkb_head_size_def lwgeom_wkb_needs_srid_def lwgeom_has_srid_def
        lwgeom_get_srid_def ptarray_to_wkb_size_def)
  show ?thesis using lwgeom_to_wkb_buffer_exact [OF wf size, of True] wf size by auto
qed

text \<open>
  The output does not depend on the machine: when exactly one byte order is asked for,
  machines of either byte order write the same bytes, and the hexadecimal form is the
  binary form, two digits a byte.
\<close>

theorem lwgeom_to_wkb_portable:
  assumes "has_bits v WKB_NDR \<noteq> has_bits v WKB_XDR" and "\<not> has_bits v WKB_HEX"
  shows "lwgeom_to_wkb_buf True g (wkb_pick_order True v) =
      lwgeom_to_wkb_buf False g (wkb_pick_order False v) \<and>
    lwgeom_to_wkb_buf be g (wkb_pick_order be (v OR WKB_HEX)) =
      bindE (lwgeom_to_wkb_buf be g (wkb_pick_order be v)) (\<lambda>bs. Inr (hexbytes bs))"
proof (rule conjI)
  have pick: "wkb_pick_order b v = v" "wkb_pick_order b (v OR WKB_HEX) = v OR WKB_HEX" for b
    using assms(1) by (auto simp: wkb_pick_order_def)
  have raw: "raw (v OR WKB_HEX) = raw v" by (simp add: raw_def bit.conj_disj_distrib2)
  show "lwgeom_to_wkb_buf True g (wkb_pick_order True v) = lwgeom_to_wkb_buf False g (wkb_pick_order False v)"
    unfolding pick using lwgeom_raw [of True g v] lwgeom_raw [of False g v] by simp
  show "lwgeom_to_wkb_buf be g (wkb_pick_order be (v OR WKB_HEX)) =
      bindE (lwgeom_to_wkb_buf be g (wkb_pick_order be v)) (\<lambda>bs. Inr (hexbytes bs))"
    unfolding pick lwgeom_raw [of be g v] lwgeom_raw [of be g "v OR WKB_HEX"] raw
    using assms(2) by (simp add: emitE_def bindE_assoc wkb_emit_def)
qed

theorem lwgeom_to_wkb_portable_witness:
  "lwgeom_to_wkb_buf True sample_line (WKB_EXTENDED OR WKB_NDR) =
   lwgeom_to_wkb_buf False sample_line (WKB_EXTENDED OR WKB_NDR)"
  using lwgeom_to_wkb_portable [of "WKB_EXTENDED OR WKB_NDR" sample_line]
  by (simp add: wkb_pick_order_def)

end
