(* ===== verification/WKBIn.thy ===== *)
theory WKBIn
  imports WKBOut
begin

text \<open>
  The WKB reader, liblwgeom/lwin_wkb.c, over a parse state that holds the input, the
  current position and what has been learnt so far. The members \<open>wkb_size\<close> and \<open>pos\<close> of the
  C struct are the length of the input and the input from \<open>pos_offset\<close>; \<open>error\<close> is never
  seen set because the \<open>lwerror\<close> that accompanies it does not come back. Every access to
  the input goes through \<open>read_mem\<close>, which faults outside it.
\<close>

abbreviation LW_PARSER_CHECK_MINPOINTS :: byte where "LW_PARSER_CHECK_MINPOINTS \<equiv> 1"
abbreviation LW_PARSER_CHECK_ODD :: byte where "LW_PARSER_CHECK_ODD \<equiv> 2"
abbreviation LW_PARSER_CHECK_CLOSURE :: byte where "LW_PARSER_CHECK_CLOSURE \<equiv> 4"
abbreviation LW_PARSER_CHECK_ZCLOSURE :: byte where "LW_PARSER_CHECK_ZCLOSURE \<equiv> 8"
abbreviation LW_PARSER_CHECK_NONE :: byte where "LW_PARSER_CHECK_NONE \<equiv> 0"
abbreviation LW_PARSER_CHECK_ALL :: byte where "LW_PARSER_CHECK_ALL \<equiv> 7"

abbreviation LW_PARSER_MAX_DEPTH :: nat where "LW_PARSER_MAX_DEPTH \<equiv> 200"
abbreviation WKB_MAXPOINTS :: nat where "WKB_MAXPOINTS \<equiv> 134217727"

record wkb_parse_state =
  wkb :: "byte list"
  st_srid :: int
  swap_bytes :: bool
  check :: byte
  lwtype :: nat
  has_z :: bool
  has_m :: bool
  has_srid :: bool
  depth :: nat
  pos :: nat

text \<open>A call that returns a value and the new state.\<close>

definition bindS :: "'e + ('a \<times> 's) \<Rightarrow> ('a \<Rightarrow> 's \<Rightarrow> 'e + 'b) \<Rightarrow> 'e + 'b" where
  "bindS m f = bindE m (\<lambda>(x, s). f x s)"

lemma bindS_simps [simp]: "bindS (Inl e) f = Inl e" "bindS (Inr (x, s)) f = f x s"
  by (simp_all add: bindS_def)

section \<open>Hexadecimal\<close>

definition hex2char :: "byte list" where
  "hex2char =
     replicate 48 20 @ [0, 1, 2, 3, 4, 5, 6, 7, 8, 9] @ replicate 6 20 @
     [20, 10, 11, 12, 13, 14, 15] @ replicate 9 20 @ replicate 16 20 @
     [20, 10, 11, 12, 13, 14, 15] @ replicate 9 20 @ replicate 16 20 @ replicate 128 20"

definition hex_byte :: "byte \<Rightarrow> byte \<Rightarrow> lwerr + byte" where
  "hex_byte c1 c2 =
     (let h1 = hex2char ! unat c1; h2 = hex2char ! unat c2 in
      bindE (require (\<not> h1 > 15) ''Invalid hex character (%c) encountered'') (\<lambda>_.
      bindE (require (\<not> h2 > 15) ''Invalid hex character (%c) encountered'') (\<lambda>_.
      Inr (push_bit 4 (h1 AND 0x0F) OR (h2 AND 0x0F)))))"

fun hex_loop :: "byte list \<Rightarrow> lwerr + byte list" where
  "hex_loop (c1 # c2 # cs) = bindE (hex_byte c1 c2) (\<lambda>b. bindE (hex_loop cs) (\<lambda>bs. Inr (b # bs)))"
| "hex_loop cs = Inr []"

text \<open>\<open>hexsize\<close> is a \<open>size_t\<close>; no allocation succeeds for a fourth of the addresses of the machine.\<close>

definition bytes_from_hexbytes :: "byte list \<Rightarrow> nat \<Rightarrow> lwerr + byte list" where
  "bytes_from_hexbytes hexbuf hexsize =
     bindE (require (even hexsize) ''Invalid hex string, length (%zu) has to be a multiple of two!'') (\<lambda>_.
     bindE (require (hexsize div 2 < 2 ^ 62) ''Unable to allocate memory buffer.'') (\<lambda>_.
     if hexsize \<le> length hexbuf then hex_loop (take hexsize hexbuf) else Inl MemFault))"

section \<open>The parse state\<close>

definition wkb_parse_state_check :: "wkb_parse_state \<Rightarrow> nat \<Rightarrow> lwerr + unit" where
  "wkb_parse_state_check s next =
     require (\<not> (next > length (wkb s) \<or> pos s > length (wkb s) - next))
       ''WKB structure does not match expected size!''"

definition wkb_parse_state_advance :: "wkb_parse_state \<Rightarrow> nat \<Rightarrow> wkb_parse_state" where
  "wkb_parse_state_advance s next = s\<lparr>pos := pos s + next\<rparr>"

definition read_mem :: "wkb_parse_state \<Rightarrow> nat \<Rightarrow> lwerr + byte list" where
  "read_mem s n =
     (if pos s + n \<le> length (wkb s) then Inr (take n (drop (pos s) (wkb s))) else Inl MemFault)"

abbreviation SIZE_MAX :: nat where "SIZE_MAX \<equiv> 2 ^ 64 - 1"

definition wkb_checked_mul_size :: "nat \<Rightarrow> nat \<Rightarrow> nat option" where
  "wkb_checked_mul_size a b = (if a \<noteq> 0 \<and> b > SIZE_MAX div a then None else Some (a * b))"

definition wkb_checked_add_size :: "nat \<Rightarrow> nat \<Rightarrow> nat option" where
  "wkb_checked_add_size a b = (if b > SIZE_MAX - a then None else Some (a + b))"

definition wkb_type_lwtype :: "nat \<Rightarrow> nat option" where
  "wkb_type_lwtype simple =
     map_of [(1, POINTTYPE), (2, LINETYPE), (3, POLYGONTYPE), (4, MULTIPOINTTYPE), (5, MULTILINETYPE),
       (6, MULTIPOLYGONTYPE), (7, COLLECTIONTYPE), (8, CIRCSTRINGTYPE), (9, COMPOUNDTYPE),
       (10, CURVEPOLYTYPE), (11, MULTICURVETYPE), (12, MULTISURFACETYPE), (15, POLYHEDRALSURFACETYPE),
       (16, TINTYPE), (17, TRIANGLETYPE), (21, NURBSCURVETYPE), (13, CURVEPOLYTYPE),
       (14, MULTICURVETYPE)] simple"

definition lwtype_from_wkb_state :: "wkb_parse_state \<Rightarrow> u32 \<Rightarrow> lwerr + wkb_parse_state" where
  "lwtype_from_wkb_state s wkb_type =
     (let s = s\<lparr>has_z := False, has_m := False, has_srid := False\<rparr>;
          s = (if has_bits wkb_type 0xF0000000
               then s\<lparr>has_z := has_bits wkb_type WKBZOFFSET, has_m := has_bits wkb_type WKBMOFFSET,
                      has_srid := has_bits wkb_type WKBSRIDFLAG\<rparr> else s);
          wkb_type = unat (wkb_type AND 0x0FFFFFFF) in
      bindE (require (\<not> wkb_type \<ge> 4000) ''Unknown WKB type (%d)!'') (\<lambda>_.
      let wkb_simple_type = wkb_type mod 1000;
          s = (if wkb_type \<ge> 3000 \<and> wkb_type < 4000 then s\<lparr>has_z := True, has_m := True\<rparr>
               else if wkb_type \<ge> 2000 \<and> wkb_type < 3000 then s\<lparr>has_m := True\<rparr>
               else if wkb_type \<ge> 1000 \<and> wkb_type < 2000 then s\<lparr>has_z := True\<rparr> else s)
      in case wkb_type_lwtype wkb_simple_type of
           None \<Rightarrow> Inl (LwError ''Unknown WKB type (%d)! Full WKB type number was (%d).'')
         | Some t \<Rightarrow> Inr (s\<lparr>lwtype := t\<rparr>)))"

section \<open>Scalars\<close>

text \<open>The value of bytes that lie in the memory of the machine.\<close>

definition mem_word :: "bool \<Rightarrow> byte list \<Rightarrow> 'a::len word" where
  "mem_word be bs = le_word (if be then rev bs else bs)"

definition byte_from_wkb_state :: "wkb_parse_state \<Rightarrow> lwerr + (byte \<times> wkb_parse_state)" where
  "byte_from_wkb_state s =
     bindE (wkb_parse_state_check s WKB_BYTE_SIZE) (\<lambda>_.
     bindE (read_mem s WKB_BYTE_SIZE) (\<lambda>bs.
     Inr (bs ! 0, wkb_parse_state_advance s WKB_BYTE_SIZE)))"

definition integer_from_wkb_state :: "bool \<Rightarrow> wkb_parse_state \<Rightarrow> lwerr + (u32 \<times> wkb_parse_state)" where
  "integer_from_wkb_state be s =
     bindE (wkb_parse_state_check s WKB_INT_SIZE) (\<lambda>_.
     bindE (read_mem s WKB_INT_SIZE) (\<lambda>i.
     let i = (if swap_bytes s then rev i else i)
     in Inr (mem_word be i, wkb_parse_state_advance s WKB_INT_SIZE)))"

definition double_from_wkb_state :: "bool \<Rightarrow> wkb_parse_state \<Rightarrow> lwerr + (double \<times> wkb_parse_state)" where
  "double_from_wkb_state be s =
     bindE (wkb_parse_state_check s WKB_DOUBLE_SIZE) (\<lambda>_.
     bindE (read_mem s WKB_DOUBLE_SIZE) (\<lambda>d.
     let d = (if swap_bytes s then rev d else d)
     in Inr (mem_word be d, wkb_parse_state_advance s WKB_DOUBLE_SIZE)))"

definition wkb_swap_bytes_state :: "bool \<Rightarrow> wkb_parse_state \<Rightarrow> lwerr + (unit \<times> wkb_parse_state)" where
  "wkb_swap_bytes_state be s =
     bindS (byte_from_wkb_state s) (\<lambda>wkb_little_endian s.
     bindE (require (\<not> (wkb_little_endian \<noteq> 1 \<and> wkb_little_endian \<noteq> 0))
       ''Invalid endian flag value encountered.'') (\<lambda>_.
     Inr ((), s\<lparr>swap_bytes :=
        (if be \<and> wkb_little_endian \<noteq> 0 then True
         else if \<not> be \<and> wkb_little_endian = 0 then True else False)\<rparr>)))"

text \<open>\<open>n\<close> doubles, one after the other.\<close>

fun doubles_from_wkb_state ::
  "bool \<Rightarrow> nat \<Rightarrow> wkb_parse_state \<Rightarrow> lwerr + (double list \<times> wkb_parse_state)" where
  "doubles_from_wkb_state be 0 s = Inr ([], s)"
| "doubles_from_wkb_state be (Suc n) s =
     bindS (double_from_wkb_state be s) (\<lambda>d s.
     bindS (doubles_from_wkb_state be n s) (\<lambda>ds s. Inr (d # ds, s)))"

text \<open>The doubles a bulk copy finds in memory.\<close>

definition mem_doubles :: "bool \<Rightarrow> nat \<Rightarrow> byte list \<Rightarrow> double list" where
  "mem_doubles be n bs = map (\<lambda>i. mem_word be (take 8 (drop (8 * i) bs))) [0..<n]"

section \<open>Geometries\<close>

definition st_ndims :: "wkb_parse_state \<Rightarrow> nat" where
  "st_ndims s = 2 + of_bool (has_z s) + of_bool (has_m s)"

text \<open>The two ways the readers fill the coordinates of \<open>n\<close> points of an array.\<close>

definition coords_from_wkb_state ::
  "bool \<Rightarrow> nat \<Rightarrow> wkb_parse_state \<Rightarrow> lwerr + (pointarray \<times> wkb_parse_state)" where
  "coords_from_wkb_state be n s =
     (let ndims = st_ndims s; pa_size = n * ndims * WKB_DOUBLE_SIZE in
      if \<not> swap_bytes s
      then bindE (read_mem s pa_size) (\<lambda>bs.
             Inr (ptarray_construct_copy_data (has_z s) (has_m s) n (mem_doubles be (n * ndims) bs),
                  wkb_parse_state_advance s pa_size))
      else bindS (doubles_from_wkb_state be (n * ndims) s) (\<lambda>dlist s.
             Inr (ptarray_construct (has_z s) (has_m s) n dlist, s)))"

definition ptarray_from_wkb_state ::
  "bool \<Rightarrow> wkb_parse_state \<Rightarrow> lwerr + (pointarray \<times> wkb_parse_state)" where
  "ptarray_from_wkb_state be s =
     (let ndims = st_ndims s in
      bindS (integer_from_wkb_state be s) (\<lambda>i s.
      let n = unat i in
      bindE (require (\<not> n > WKB_MAXPOINTS) ''Pointarray length (%d) is too large'') (\<lambda>_.
      if n = 0 then Inr (ptarray_construct (has_z s) (has_m s) n [], s)
      else case wkb_checked_mul_size n ndims of
        None \<Rightarrow> Inl (LwError ''Pointarray length (%d) is too large'')
      | Some a \<Rightarrow>
        (case wkb_checked_mul_size a WKB_DOUBLE_SIZE of
          None \<Rightarrow> Inl (LwError ''Pointarray length (%d) is too large'')
        | Some pa_size \<Rightarrow>
            bindE (wkb_parse_state_check s pa_size) (\<lambda>_. coords_from_wkb_state be n s)))))"

definition lwpoint_from_wkb_state :: "bool \<Rightarrow> wkb_parse_state \<Rightarrow> lwerr + (lwgeom \<times> wkb_parse_state)" where
  "lwpoint_from_wkb_state be s =
     bindE (wkb_parse_state_check s (st_ndims s * WKB_DOUBLE_SIZE)) (\<lambda>_.
     bindS (coords_from_wkb_state be 1 s) (\<lambda>pa s.
     if dbl_isnan (ptlist pa ! 0) \<and> dbl_isnan (ptlist pa ! 1)
     then Inr (lwpoint_construct_empty (st_srid s) (has_z s) (has_m s), s)
     else Inr (lwpoint_construct (st_srid s) None pa, s)))"

definition lwline_from_wkb_state :: "bool \<Rightarrow> wkb_parse_state \<Rightarrow> lwerr + (lwgeom \<times> wkb_parse_state)" where
  "lwline_from_wkb_state be s =
     bindS (ptarray_from_wkb_state be s) (\<lambda>pa s.
     if npoints pa = 0 then Inr (lwline_construct_empty (st_srid s) (has_z s) (has_m s), s)
     else
       bindE (require (\<not> (has_bits (check s) LW_PARSER_CHECK_MINPOINTS \<and> npoints pa < 2))
         ''%s must have at least two points'') (\<lambda>_.
       Inr (lwline_construct (st_srid s) None pa, s)))"

definition lwcircstring_from_wkb_state ::
  "bool \<Rightarrow> wkb_parse_state \<Rightarrow> lwerr + (lwgeom \<times> wkb_parse_state)" where
  "lwcircstring_from_wkb_state be s =
     bindS (ptarray_from_wkb_state be s) (\<lambda>pa s.
     if npoints pa = 0 then Inr (lwcircstring_construct_empty (st_srid s) (has_z s) (has_m s), s)
     else
       bindE (require (\<not> (has_bits (check s) LW_PARSER_CHECK_MINPOINTS \<and> npoints pa < 3))
         ''%s must have at least three points'') (\<lambda>_.
       bindE (require (\<not> (has_bits (check s) LW_PARSER_CHECK_ODD \<and> npoints pa mod 2 = 0))
         ''%s must have an odd number of points'') (\<lambda>_.
       Inr (lwcircstring_construct (st_srid s) None pa, s))))"

fun rings_from_wkb_state ::
  "bool \<Rightarrow> nat \<Rightarrow> lwgeom \<Rightarrow> wkb_parse_state \<Rightarrow> lwerr + (lwgeom \<times> wkb_parse_state)" where
  "rings_from_wkb_state be 0 poly s = Inr (poly, s)"
| "rings_from_wkb_state be (Suc n) poly s =
     bindS (ptarray_from_wkb_state be s) (\<lambda>pa s.
     bindE (require (\<not> (has_bits (check s) LW_PARSER_CHECK_MINPOINTS \<and> npoints pa < 4))
       ''%s must have at least four points in each ring'') (\<lambda>_.
     bindE (require (\<not> (has_bits (check s) LW_PARSER_CHECK_CLOSURE \<and> \<not> ptarray_is_closed_2d pa))
       ''%s must have closed rings'') (\<lambda>_.
     if npoints pa = 0 then rings_from_wkb_state be n poly s
     else bindE (lwpoly_add_ring poly pa) (\<lambda>poly. rings_from_wkb_state be n poly s))))"

definition lwpoly_from_wkb_state :: "bool \<Rightarrow> wkb_parse_state \<Rightarrow> lwerr + (lwgeom \<times> wkb_parse_state)" where
  "lwpoly_from_wkb_state be s =
     bindS (integer_from_wkb_state be s) (\<lambda>nrings s.
     let poly = lwpoly_construct_empty (st_srid s) (has_z s) (has_m s) in
     if unat nrings = 0 then Inr (poly, s) else rings_from_wkb_state be (unat nrings) poly s)"

definition lwtriangle_from_wkb_state ::
  "bool \<Rightarrow> wkb_parse_state \<Rightarrow> lwerr + (lwgeom \<times> wkb_parse_state)" where
  "lwtriangle_from_wkb_state be s =
     bindS (integer_from_wkb_state be s) (\<lambda>nrings s.
     if unat nrings = 0 then Inr (lwtriangle_construct_empty (st_srid s) (has_z s) (has_m s), s)
     else
       bindE (require (unat nrings = 1) ''Triangle has wrong number of rings: %d'') (\<lambda>_.
       bindS (ptarray_from_wkb_state be s) (\<lambda>pa s.
       bindE (require (\<not> (has_bits (check s) LW_PARSER_CHECK_MINPOINTS \<and> npoints pa < 4))
         ''%s must have at least four points'') (\<lambda>_.
       bindE (require (\<not> (has_bits (check s) LW_PARSER_CHECK_ZCLOSURE \<and> \<not> ptarray_is_closed_z pa))
         ''%s must have closed rings'') (\<lambda>_.
       Inr (lwtriangle_construct (st_srid s) None pa, s))))))"

text \<open>The loops over the members of a collection; \<open>rd\<close> is the recursive call.\<close>

type_synonym geom_reader = "wkb_parse_state \<Rightarrow> lwerr + (lwgeom \<times> wkb_parse_state)"

fun curves_from_wkb_state ::
  "geom_reader \<Rightarrow> nat \<Rightarrow> lwgeom \<Rightarrow> wkb_parse_state \<Rightarrow> lwerr + (lwgeom \<times> wkb_parse_state)" where
  "curves_from_wkb_state rd 0 cp s = Inr (cp, s)"
| "curves_from_wkb_state rd (Suc n) cp s =
     bindS (rd s) (\<lambda>geom s.
     bindE (lwcurvepoly_add_ring cp geom) (\<lambda>(success, cp).
     bindE (require success ''Unable to add geometry (%p) to curvepoly (%p)'') (\<lambda>_.
     curves_from_wkb_state rd n cp s)))"

definition lwcurvepoly_from_wkb_state ::
  "bool \<Rightarrow> geom_reader \<Rightarrow> wkb_parse_state \<Rightarrow> lwerr + (lwgeom \<times> wkb_parse_state)" where
  "lwcurvepoly_from_wkb_state be rd s =
     bindS (integer_from_wkb_state be s) (\<lambda>ngeoms s.
     let cp = lwcurvepoly_construct_empty (st_srid s) (has_z s) (has_m s) in
     if unat ngeoms = 0 then Inr (cp, s)
     else
       let s = s\<lparr>depth := depth s + 1\<rparr> in
       bindE (require (\<not> depth s \<ge> LW_PARSER_MAX_DEPTH) ''Geometry has too many chained curves'') (\<lambda>_.
       bindS (curves_from_wkb_state rd (unat ngeoms) cp s) (\<lambda>cp s.
       Inr (cp, s\<lparr>depth := depth s - 1\<rparr>))))"

fun geoms_from_wkb_state ::
  "geom_reader \<Rightarrow> nat \<Rightarrow> lwgeom \<Rightarrow> wkb_parse_state \<Rightarrow> lwerr + (lwgeom \<times> wkb_parse_state)" where
  "geoms_from_wkb_state rd 0 col s = Inr (col, s)"
| "geoms_from_wkb_state rd (Suc n) col s =
     bindS (rd s) (\<lambda>geom s.
     bindE (lwcollection_add_lwgeom col geom) (\<lambda>col. geoms_from_wkb_state rd n col s))"

definition lwcollection_from_wkb_state ::
  "bool \<Rightarrow> geom_reader \<Rightarrow> wkb_parse_state \<Rightarrow> lwerr + (lwgeom \<times> wkb_parse_state)" where
  "lwcollection_from_wkb_state be rd s =
     bindS (integer_from_wkb_state be s) (\<lambda>ngeoms s.
     bindE (lwcollection_construct_empty (lwtype s) (st_srid s) (has_z s) (has_m s)) (\<lambda>col.
     let prev_check = check s in
     if unat ngeoms = 0 then Inr (col, s\<lparr>check := prev_check\<rparr>)
     else
       let s = (if lwtype s = POLYHEDRALSURFACETYPE
                then s\<lparr>check := check s OR LW_PARSER_CHECK_ZCLOSURE\<rparr> else s);
           s = s\<lparr>depth := depth s + 1\<rparr> in
       bindE (require (\<not> depth s \<ge> LW_PARSER_MAX_DEPTH) ''Geometry has too many chained collections'')
         (\<lambda>_.
       bindS (geoms_from_wkb_state rd (unat ngeoms) col s) (\<lambda>col s.
       Inr (col, s\<lparr>depth := depth s - 1, check := prev_check\<rparr>)))))"

section \<open>NURBS curves\<close>

text \<open>The control points: coordinates and weights, and whether every weight is 1.\<close>

fun nurbs_points_from_wkb_state ::
  "bool \<Rightarrow> nat \<Rightarrow> wkb_parse_state \<Rightarrow> lwerr + ((double list \<times> double list \<times> bool) \<times> wkb_parse_state)" where
  "nurbs_points_from_wkb_state be 0 s = Inr (([], [], True), s)"
| "nurbs_points_from_wkb_state be (Suc n) s =
     bindS (wkb_swap_bytes_state be s) (\<lambda>_ s.
     bindS (doubles_from_wkb_state be (st_ndims s) s) (\<lambda>pt s.
     bindS (byte_from_wkb_state s) (\<lambda>has_weight s.
     bindS (if has_weight = 0 then Inr ((dbl_one, True), s)
            else if has_weight = 1 then
              bindS (double_from_wkb_state be s) (\<lambda>w s.
              bindE (require (\<not> dbl_le w dbl_zero) ''WKB NURBSCURVE: non-positive weight for point %d'')
                (\<lambda>_. Inr ((w, dbl_eq w dbl_one), s)))
            else Inl (LwError ''WKB NURBSCURVE: invalid weight bit %d for point %d (must be 0 or 1)''))
       (\<lambda>(w, one) s.
     bindS (nurbs_points_from_wkb_state be n s) (\<lambda>(cs, ws, ones) s.
     Inr ((pt @ cs, w # ws, one \<and> ones), s))))))"

fun knots_sorted :: "double list \<Rightarrow> bool" where
  "knots_sorted (a # b # ks) \<longleftrightarrow> \<not> dbl_lt b a \<and> knots_sorted (b # ks)"
| "knots_sorted ks \<longleftrightarrow> True"

definition nurbs_sizes_fit :: "nat \<Rightarrow> nat \<Rightarrow> nat option" where
  "nurbs_sizes_fit n ndims =
     (case wkb_checked_mul_size n ndims of None \<Rightarrow> None | Some a \<Rightarrow>
      (case wkb_checked_mul_size a WKB_DOUBLE_SIZE of None \<Rightarrow> None | Some point_payload_size \<Rightarrow>
      (case wkb_checked_mul_size n 8 of None \<Rightarrow> None | Some weights_size \<Rightarrow>
      (case wkb_checked_mul_size n 2 of None \<Rightarrow> None | Some point_tags_size \<Rightarrow>
      (case wkb_checked_add_size point_payload_size weights_size of None \<Rightarrow> None | Some pa_size \<Rightarrow>
       wkb_checked_add_size pa_size point_tags_size)))))"

text \<open>The control points of a non-empty curve; the byte order read for each of them is not
  the byte order of what follows.\<close>

definition nurbs_control_from_wkb_state ::
  "bool \<Rightarrow> nat \<Rightarrow> wkb_parse_state \<Rightarrow> lwerr + ((double list \<times> double list \<times> bool) \<times> wkb_parse_state)" where
  "nurbs_control_from_wkb_state be n s =
     (if n > 0
      then bindS (nurbs_points_from_wkb_state be n s) (\<lambda>r s'. Inr (r, s'\<lparr>swap_bytes := swap_bytes s\<rparr>))
      else Inr (([], [], True), s))"

text \<open>From the number of knots to the end.\<close>

definition nurbs_knots_from_wkb_state ::
  "bool \<Rightarrow> nat \<Rightarrow> nat \<Rightarrow> double list \<Rightarrow> double list \<Rightarrow> bool \<Rightarrow> wkb_parse_state \<Rightarrow>
   lwerr + (lwgeom \<times> wkb_parse_state)" where
  "nurbs_knots_from_wkb_state be degree n coords weights all_weights_one s =
     bindS (integer_from_wkb_state be s) (\<lambda>nknots s.
     if n = 0 then
       bindE (require (unat nknots = 0) ''WKB NURBSCURVE EMPTY: expected 0 knots, got %u'') (\<lambda>_.
       Inr (lwnurbscurve_construct_empty (st_srid s) (has_z s) (has_m s), s))
     else
       bindE (require (unat nknots \<noteq> 0) ''WKB NURBSCURVE: knots required by standard (got 0)'') (\<lambda>_.
       bindE (require (unat nknots = n + degree + 1)
         ''WKB NURBSCURVE: expected %d knots for degree %d and %d points, got %d'') (\<lambda>_.
       bindS (doubles_from_wkb_state be (unat nknots) s) (\<lambda>knots s.
       bindE (require (knots_sorted knots) ''WKB NURBSCURVE: knot vector must be non-decreasing'') (\<lambda>_.
       bindE (lwnurbscurve_construct (st_srid s) None degree
           (Some (ptarray_construct (has_z s) (has_m s) n coords))
           (if all_weights_one then None else Some weights) (Some knots)) (\<lambda>curve.
       Inr (curve, s)))))))"

definition lwnurbscurve_from_wkb_state ::
  "bool \<Rightarrow> wkb_parse_state \<Rightarrow> lwerr + (lwgeom \<times> wkb_parse_state)" where
  "lwnurbscurve_from_wkb_state be s =
     bindS (integer_from_wkb_state be s) (\<lambda>degree s.
     bindE (require (\<not> (unat degree < 1 \<or> unat degree > 10))
       ''WKB NURBSCURVE: degree %u outside valid range [1,10]'') (\<lambda>_.
     bindS (integer_from_wkb_state be s) (\<lambda>i s.
     let n = unat i in
     bindE (require (\<not> n > WKB_MAXPOINTS) ''WKB NURBSCURVE: control point count (%u) too large'') (\<lambda>_.
     bindE (require (\<not> (n > 0 \<and> n \<le> unat degree))
       ''WKB NURBSCURVE: degree %u requires at least %llu control points, got %u'') (\<lambda>_.
     case wkb_checked_mul_size n (2 + st_ndims s * WKB_DOUBLE_SIZE) of
       None \<Rightarrow> Inl (LwError ''WKB NURBSCURVE: control point count (%u) too large'')
     | Some pa_size \<Rightarrow>
     bindE (wkb_parse_state_check s pa_size) (\<lambda>_.
     case nurbs_sizes_fit n (st_ndims s) of
       None \<Rightarrow> Inl (LwError ''WKB NURBSCURVE: control point count (%u) too large'')
     | Some pa_size \<Rightarrow>
     bindE (wkb_parse_state_check s pa_size) (\<lambda>_.
     bindS (nurbs_control_from_wkb_state be n s) (\<lambda>(coords, weights, all_weights_one) s.
     nurbs_knots_from_wkb_state be (unat degree) n coords weights all_weights_one s))))))))"

section \<open>The entry points\<close>

text \<open>
  The first argument bounds the nesting of the recursive calls. A collection is entered
  only while \<open>depth\<close> is below \<^const>\<open>LW_PARSER_MAX_DEPTH\<close>, so that bound is enough
  (\<open>lwgeom_from_wkb_safe\<close> below).
\<close>

primrec lwgeom_from_wkb_state :: "nat \<Rightarrow> bool \<Rightarrow> geom_reader" where
  "lwgeom_from_wkb_state 0 be s = Inl OutOfFuel"
| "lwgeom_from_wkb_state (Suc fuel) be s =
     bindS (wkb_swap_bytes_state be s) (\<lambda>_ s.
     bindS (integer_from_wkb_state be s) (\<lambda>wkb_type s.
     bindE (lwtype_from_wkb_state s wkb_type) (\<lambda>s.
     bindE (if has_srid s
            then bindS (integer_from_wkb_state be s) (\<lambda>i s. Inr (s\<lparr>st_srid := clamp_srid (sint i)\<rparr>))
            else Inr s) (\<lambda>s.
     if lwtype s = POINTTYPE then lwpoint_from_wkb_state be s
     else if lwtype s = LINETYPE then lwline_from_wkb_state be s
     else if lwtype s = CIRCSTRINGTYPE then lwcircstring_from_wkb_state be s
     else if lwtype s = POLYGONTYPE then lwpoly_from_wkb_state be s
     else if lwtype s = TRIANGLETYPE then lwtriangle_from_wkb_state be s
     else if lwtype s = CURVEPOLYTYPE then
       lwcurvepoly_from_wkb_state be (lwgeom_from_wkb_state fuel be) s
     else if lwtype s \<in> set [MULTIPOINTTYPE, MULTILINETYPE, MULTIPOLYGONTYPE, COMPOUNDTYPE,
         MULTICURVETYPE, MULTISURFACETYPE, POLYHEDRALSURFACETYPE, TINTYPE, COLLECTIONTYPE] then
       lwcollection_from_wkb_state be (lwgeom_from_wkb_state fuel be) s
     else if lwtype s = NURBSCURVETYPE then lwnurbscurve_from_wkb_state be s
     else Inl (LwError ''%s: Unsupported geometry type: %s'')))))"

definition wkb_initial_state :: "byte list \<Rightarrow> byte \<Rightarrow> wkb_parse_state" where
  "wkb_initial_state bytes chk =
     \<lparr>wkb = bytes, st_srid = SRID_UNKNOWN, swap_bytes = False, check = chk, lwtype = 0, has_z = False,
      has_m = False, has_srid = False, depth = 1, pos = 0\<rparr>"

definition lwgeom_from_wkb :: "bool \<Rightarrow> byte list \<Rightarrow> byte \<Rightarrow> lwerr + lwgeom option" where
  "lwgeom_from_wkb be bytes chk =
     (if bytes = [] then Inr None
      else bindS (lwgeom_from_wkb_state LW_PARSER_MAX_DEPTH be (wkb_initial_state bytes chk)) (\<lambda>g s.
        Inr (Some g)))"

text \<open>The length of the text is kept in an \<open>int\<close>, and is a \<open>size_t\<close> again when it is passed on.\<close>

definition hexwkb_len :: "nat \<Rightarrow> nat" where
  "hexwkb_len n = unat (word_of_int (int32 (int n)) :: u64)"

definition lwgeom_from_hexwkb :: "bool \<Rightarrow> byte list \<Rightarrow> byte \<Rightarrow> lwerr + lwgeom option" where
  "lwgeom_from_hexwkb be hexwkb chk =
     bindE (bytes_from_hexbytes hexwkb (hexwkb_len (length hexwkb))) (\<lambda>wkb. lwgeom_from_wkb be wkb chk)"

end
