(* ===== verification/WKBSafe.thy ===== *)
theory WKBSafe
  imports WKBIn
begin

text \<open>
  The WKB reader on arbitrary bytes: it returns, either with an \<open>lwerror\<close> or with a
  well-formed geometry, without ever leaving the input or running out of capacity or of
  recursion bound. The invariant is carried by \<open>safe\<close>, a predicate on results that
  composes along \<open>bindE\<close> and \<open>bindS\<close>.
\<close>

section \<open>Safe results\<close>

definition safe :: "('a \<Rightarrow> bool) \<Rightarrow> lwerr + 'a \<Rightarrow> bool" where
  "safe Q m = (case m of Inl e \<Rightarrow> (\<exists>msg. e = LwError msg) | Inr x \<Rightarrow> Q x)"

lemma safe_Inr [simp]: "safe Q (Inr x) = Q x"
  by (simp add: safe_def)

lemma safe_Inl [simp]: "safe Q (Inl e) = (\<exists>msg. e = LwError msg)"
  by (simp add: safe_def)

lemma safe_bindE: "safe Q m \<Longrightarrow> (\<And>x. Q x \<Longrightarrow> safe R (f x)) \<Longrightarrow> safe R (bindE m f)"
  by (cases m) auto

lemma safe_bindS: "safe Q m \<Longrightarrow> (\<And>x s. Q (x, s) \<Longrightarrow> safe R (f x s)) \<Longrightarrow> safe R (bindS m f)"
  by (cases m) auto

lemma safe_require: "(c \<Longrightarrow> safe R (f ())) \<Longrightarrow> safe R (bindE (require c msg) f)"
  by (auto simp: require_def)

lemma safe_mono: "safe Q m \<Longrightarrow> (\<And>x. Q x \<Longrightarrow> R x) \<Longrightarrow> safe R m"
  by (cases m) auto

section \<open>Reading scalars\<close>

text \<open>
  \<open>in_input\<close> is the invariant of the position. A leaf reader moves the position forward
  inside the input and may change the byte order, nothing else.
\<close>

definition in_input :: "wkb_parse_state \<Rightarrow> bool" where
  "in_input s \<longleftrightarrow> pos s \<le> length (wkb s) \<and> length (wkb s) < 2 ^ 31"

definition leaf :: "wkb_parse_state \<Rightarrow> wkb_parse_state \<Rightarrow> bool" where
  "leaf s s' \<longleftrightarrow> (\<exists>p b. s' = s\<lparr>pos := p, swap_bytes := b\<rparr> \<and> pos s \<le> p \<and> p \<le> length (wkb s))"

lemma leaf_refl: "in_input s \<Longrightarrow> leaf s s"
  unfolding leaf_def in_input_def by (intro exI [of _ "pos s"] exI [of _ "swap_bytes s"]) auto

lemma leaf_trans: "leaf s s' \<Longrightarrow> leaf s' s'' \<Longrightarrow> leaf s s''"
  unfolding leaf_def by fastforce

lemma leaf_in_input: "in_input s \<Longrightarrow> leaf s s' \<Longrightarrow> in_input s'"
  by (auto simp: leaf_def in_input_def)

lemma leaf_same:
  "leaf s s' \<Longrightarrow> wkb s' = wkb s \<and> st_srid s' = st_srid s \<and> check s' = check s \<and> lwtype s' = lwtype s \<and>
    has_z s' = has_z s \<and> has_m s' = has_m s \<and> has_srid s' = has_srid s \<and> depth s' = depth s \<and>
    pos s \<le> pos s' \<and> st_ndims s' = st_ndims s"
  by (auto simp: leaf_def st_ndims_def)

lemma leaf_swap [simp]: "leaf s (s'\<lparr>swap_bytes := b\<rparr>) = leaf s s'"
proof
  assume "leaf s (s'\<lparr>swap_bytes := b\<rparr>)"
  then obtain p c where p: "s'\<lparr>swap_bytes := b\<rparr> = s\<lparr>pos := p, swap_bytes := c\<rparr>" "pos s \<le> p"
    "p \<le> length (wkb s)" by (auto simp: leaf_def)
  have "s' = s\<lparr>pos := p, swap_bytes := swap_bytes s'\<rparr>"
    using arg_cong [OF p(1), of "\<lambda>x. x\<lparr>swap_bytes := swap_bytes s'\<rparr>"] by simp
  with p show "leaf s s'" unfolding leaf_def by blast
next
  assume "leaf s s'"
  then obtain p c where "s' = s\<lparr>pos := p, swap_bytes := c\<rparr>" "pos s \<le> p" "p \<le> length (wkb s)"
    by (auto simp: leaf_def)
  then show "leaf s (s'\<lparr>swap_bytes := b\<rparr>)"
    unfolding leaf_def by (intro exI [of _ p] exI [of _ b]) simp
qed

definition advanced :: "nat \<Rightarrow> wkb_parse_state \<Rightarrow> wkb_parse_state \<Rightarrow> bool" where
  "advanced n s s' \<longleftrightarrow> leaf s s' \<and> pos s' = pos s + n"

lemma state_check_iff:
  "wkb_parse_state_check s n = (if pos s + n \<le> length (wkb s) then Inr ()
     else Inl (LwError ''WKB structure does not match expected size!''))"
  by (auto simp: wkb_parse_state_check_def require_def)

lemma byte_safe: "in_input s \<Longrightarrow> safe (\<lambda>(b, s'). advanced 1 s s') (byte_from_wkb_state s)"
  by (auto simp: byte_from_wkb_state_def state_check_iff read_mem_def wkb_parse_state_advance_def
      advanced_def leaf_def in_input_def intro!: exI [of _ "swap_bytes s"])

lemma integer_safe: "in_input s \<Longrightarrow> safe (\<lambda>(i, s'). advanced 4 s s') (integer_from_wkb_state be s)"
  by (auto simp: integer_from_wkb_state_def state_check_iff read_mem_def Let_def
      wkb_parse_state_advance_def advanced_def leaf_def in_input_def intro!: exI [of _ "swap_bytes s"])

lemma double_safe: "in_input s \<Longrightarrow> safe (\<lambda>(d, s'). advanced 8 s s') (double_from_wkb_state be s)"
  by (auto simp: double_from_wkb_state_def state_check_iff read_mem_def Let_def
      wkb_parse_state_advance_def advanced_def leaf_def in_input_def intro!: exI [of _ "swap_bytes s"])

lemma swap_safe: "in_input s \<Longrightarrow> safe (\<lambda>(u, s'). advanced 1 s s') (wkb_swap_bytes_state be s)"
  unfolding wkb_swap_bytes_state_def
  by (rule safe_bindS [OF byte_safe], assumption, rule safe_require) (auto simp: advanced_def)

lemma advanced_in_input: "in_input s \<Longrightarrow> advanced n s s' \<Longrightarrow> in_input s'"
  by (auto simp: advanced_def leaf_in_input)

lemma advanced_trans: "advanced n s s' \<Longrightarrow> advanced m s' s'' \<Longrightarrow> advanced (n + m) s s''"
  by (auto simp: advanced_def leaf_trans)

lemma doubles_safe:
  "in_input s \<Longrightarrow>
   safe (\<lambda>(ds, s'). advanced (8 * n) s s' \<and> length ds = n) (doubles_from_wkb_state be n s)"
proof (induction n arbitrary: s)
  case 0
  then show ?case by (simp add: advanced_def leaf_refl)
next
  case (Suc n)
  show ?case unfolding doubles_from_wkb_state.simps
  proof (rule safe_bindS [OF double_safe [OF Suc.prems]])
    fix d :: double and s' assume "case (d, s') of (d, s') \<Rightarrow> advanced 8 s s'"
    then have s': "advanced 8 s s'" by simp
    show "safe (\<lambda>(ds, s'). advanced (8 * Suc n) s s' \<and> length ds = Suc n)
        (bindS (doubles_from_wkb_state be n s') (\<lambda>ds s. Inr (d # ds, s)))"
      by (rule safe_bindS [OF Suc.IH [OF advanced_in_input [OF Suc.prems s']]])
        (use advanced_trans [OF s'] in auto)
  qed
qed

section \<open>Point arrays\<close>

definition good_pa :: "wkb_parse_state \<Rightarrow> nat \<Rightarrow> pointarray \<Rightarrow> bool" where
  "good_pa s n pa \<longleftrightarrow> pa_wf pa \<and> npoints pa = n \<and> pflags pa = lwflags (has_z s) (has_m s) False"

lemma good_pa_construct:
  "n < 2 ^ 32 \<Longrightarrow> length ds = n * st_ndims s \<Longrightarrow> good_pa s n (ptarray_construct (has_z s) (has_m s) n ds)"
  by (simp add: good_pa_def pa_wf_def ptarray_construct_def ptarray_construct_empty_def st_ndims_def)

lemma good_pa_copy:
  "n < 2 ^ 32 \<Longrightarrow> length ds = n * st_ndims s \<Longrightarrow>
   good_pa s n (ptarray_construct_copy_data (has_z s) (has_m s) n ds)"
  by (simp add: good_pa_def pa_wf_def ptarray_construct_copy_data_def st_ndims_def)

lemma coords_safe:
  assumes "in_input s" "n < 2 ^ 32" "pos s + n * st_ndims s * 8 \<le> length (wkb s)"
  shows "safe (\<lambda>(pa, s'). leaf s s' \<and> good_pa s n pa) (coords_from_wkb_state be n s)"
proof (cases "swap_bytes s")
  case True
  have "safe (\<lambda>(pa, s'). leaf s s' \<and> good_pa s n pa)
      (bindS (doubles_from_wkb_state be (n * st_ndims s) s)
        (\<lambda>dlist s'. Inr (ptarray_construct (has_z s') (has_m s') n dlist, s')))"
  proof (rule safe_bindS [OF doubles_safe [OF assms(1)]], clarsimp)
    fix ds :: "double list" and s'
    assume "advanced (8 * (n * st_ndims s)) s s'" "length ds = n * st_ndims s"
    with leaf_same [of s s'] good_pa_construct [OF assms(2), of ds s]
    show "leaf s s' \<and> good_pa s n (ptarray_construct (has_z s') (has_m s') n ds)"
      by (simp add: advanced_def)
  qed
  with True show ?thesis by (simp add: coords_from_wkb_state_def Let_def)
next
  case False
  have "leaf s (wkb_parse_state_advance s (n * st_ndims s * 8))"
    using assms unfolding wkb_parse_state_advance_def leaf_def
    by (intro exI [of _ "pos s + n * st_ndims s * 8"] exI [of _ "swap_bytes s"]) simp
  with False assms good_pa_copy [OF assms(2)] show ?thesis
    by (simp add: coords_from_wkb_state_def Let_def read_mem_def mem_doubles_def)
qed

lemma npoints_construct [simp]:
  "npoints (ptarray_construct z m n ds) = n" "npoints (ptarray_construct_copy_data z m n ds) = n"
  "pflags (ptarray_construct z m n ds) = lwflags z m False"
  "pflags (ptarray_construct_copy_data z m n ds) = lwflags z m False"
  by (simp_all add: ptarray_construct_def ptarray_construct_copy_data_def ptarray_construct_empty_def)

text \<open>Case analysis on a safe call.\<close>

lemma safe_cases:
  assumes "safe Q m"
  obtains msg where "m = Inl (LwError msg)" | x where "m = Inr x" "Q x"
  using assms by (cases m) auto

lemma wkb_mul_fits:
  assumes "n \<le> WKB_MAXPOINTS" "k \<le> 40"
  shows "wkb_checked_mul_size n k = Some (n * k)"
proof -
  have "n * k \<le> WKB_MAXPOINTS * 40" using assms by (rule mult_le_mono)
  then show ?thesis
    by (auto simp: wkb_checked_mul_size_def div_less_iff_less_mult mult.commute)
qed

lemma wkb_mul_fits_8:
  assumes "n \<le> WKB_MAXPOINTS" "k \<le> 4"
  shows "wkb_checked_mul_size (n * k) 8 = Some (n * k * 8)"
proof -
  have "n * k \<le> WKB_MAXPOINTS * 4" using assms by (rule mult_le_mono)
  then show ?thesis
    by (auto simp: wkb_checked_mul_size_def div_less_iff_less_mult mult.commute)
qed

lemma st_ndims_bounds [simp]: "st_ndims s \<le> 4" "st_ndims s \<le> 40" "0 < st_ndims s"
  by (auto simp: st_ndims_def)

lemma ptarray_safe:
  assumes "in_input s"
  shows "safe (\<lambda>(pa, s'). leaf s s' \<and> pos s < pos s' \<and> good_pa s (npoints pa) pa)
    (ptarray_from_wkb_state be s)"
  using integer_safe [OF assms, of be]
proof (cases rule: safe_cases)
  case (1 msg)
  then show ?thesis by (simp add: ptarray_from_wkb_state_def)
next
  case (2 r)
  then obtain i s' where r: "integer_from_wkb_state be s = Inr (i, s')" and s': "advanced 4 s s'"
    by (cases r) auto
  from leaf_same [of s s'] s' have same: "leaf s s'" "pos s < pos s'" "has_z s' = has_z s"
    "has_m s' = has_m s" "st_ndims s' = st_ndims s"
    by (auto simp: advanced_def)
  have good: "good_pa s' = good_pa s" using same by (intro ext) (simp add: good_pa_def)
  have in': "in_input s'" by (rule advanced_in_input [OF assms s'])
  have empty: "good_pa s 0 (ptarray_construct (has_z s) (has_m s) 0 [])"
    using good_pa_construct [of 0 "[]" s] by simp
  have "safe (\<lambda>(pa, s''). leaf s s'' \<and> pos s < pos s'' \<and> good_pa s (npoints pa) pa)
      (coords_from_wkb_state be n s')"
    if "pos s' + n * st_ndims s * 8 \<le> length (wkb s')" "n \<le> WKB_MAXPOINTS" for n
    by (rule safe_mono [OF coords_safe [OF in']])
      (use that same good leaf_trans [OF same(1)] leaf_same in \<open>fastforce simp: good_pa_def\<close>)+
  with r same empty show ?thesis
    by (auto simp: ptarray_from_wkb_state_def Let_def require_def wkb_mul_fits wkb_mul_fits_8
        state_check_iff)
qed

section \<open>Geometries without members\<close>

definition good_leaf :: "wkb_parse_state \<Rightarrow> lwgeom \<times> wkb_parse_state \<Rightarrow> bool" where
  "good_leaf s r \<longleftrightarrow> lwgeom_wf (fst r) \<and> leaf s (snd r)"

lemma good_leaf_simp [simp]: "good_leaf s (g, s') \<longleftrightarrow> lwgeom_wf g \<and> leaf s s'"
  by (simp add: good_leaf_def)

lemma good_leaf_trans: "leaf s s' \<Longrightarrow> good_leaf s' r \<Longrightarrow> good_leaf s r"
  by (auto simp: good_leaf_def leaf_trans)

lemma construct_wf:
  assumes "good_pa s n pa"
  shows "lwgeom_wf (lwline_construct i None pa)" "lwgeom_wf (lwcircstring_construct i None pa)"
    "lwgeom_wf (lwtriangle_construct i None pa)" "n \<le> 1 \<Longrightarrow> lwgeom_wf (lwpoint_construct i None pa)"
  using assms
  by (auto simp: good_pa_def lwline_construct_def lwcircstring_construct_def lwtriangle_construct_def
      lwpoint_construct_def bbox_head_def Let_def same_zm_def)

lemma construct_empty_wf:
  "lwgeom_wf (lwline_construct_empty i z m)" "lwgeom_wf (lwcircstring_construct_empty i z m)"
  "lwgeom_wf (lwtriangle_construct_empty i z m)" "lwgeom_wf (lwpoint_construct_empty i z m)"
  "lwgeom_wf (lwnurbscurve_construct_empty i z m)"
  by (auto simp: lwline_construct_empty_def lwcircstring_construct_empty_def empty_head_def pa_wf_def
      lwtriangle_construct_empty_def lwpoint_construct_empty_def lwnurbscurve_construct_empty_def
      ptarray_construct_empty_def ptarray_construct_def)

lemma lwpoint_safe: "in_input s \<Longrightarrow> safe (good_leaf s) (lwpoint_from_wkb_state be s)"
proof -
  assume s: "in_input s"
  have "safe (good_leaf s) (bindS (coords_from_wkb_state be 1 s) (\<lambda>pa s.
     if dbl_isnan (ptlist pa ! 0) \<and> dbl_isnan (ptlist pa ! 1)
     then Inr (lwpoint_construct_empty (st_srid s) (has_z s) (has_m s), s)
     else Inr (lwpoint_construct (st_srid s) None pa, s)))"
    if "pos s + st_ndims s * 8 \<le> length (wkb s)"
    by (rule safe_bindS [OF coords_safe [OF s]]) (use that construct_wf(4) construct_empty_wf in auto)
  then show ?thesis by (simp add: lwpoint_from_wkb_state_def state_check_iff)
qed

lemma lwline_safe: "in_input s \<Longrightarrow> safe (good_leaf s) (lwline_from_wkb_state be s)"
  unfolding lwline_from_wkb_state_def
  by (rule safe_bindS [OF ptarray_safe], assumption)
    (auto simp: require_def construct_empty_wf intro: construct_wf)

lemma lwcircstring_safe: "in_input s \<Longrightarrow> safe (good_leaf s) (lwcircstring_from_wkb_state be s)"
  unfolding lwcircstring_from_wkb_state_def
  by (rule safe_bindS [OF ptarray_safe], assumption)
    (auto simp: require_def construct_empty_wf intro: construct_wf)

lemma lwtriangle_safe: "in_input s \<Longrightarrow> safe (good_leaf s) (lwtriangle_from_wkb_state be s)"
  unfolding lwtriangle_from_wkb_state_def
proof (rule safe_bindS [OF integer_safe], assumption, clarsimp simp: construct_empty_wf, intro conjI impI)
  fix n s' assume s: "in_input s" and s': "advanced 4 s s'"
  then show "leaf s s'" by (simp add: advanced_def)
  from s s' have in': "in_input s'" by (rule advanced_in_input)
  show "safe (good_leaf s) (bindE (require c ''Triangle has wrong number of rings: %d'') (\<lambda>_.
      bindS (ptarray_from_wkb_state be s') (\<lambda>pa s.
       bindE (require (has_bits (check s) LW_PARSER_CHECK_MINPOINTS \<longrightarrow> \<not> npoints pa < 4)
         ''%s must have at least four points'') (\<lambda>_.
       bindE (require (has_bits (check s) LW_PARSER_CHECK_ZCLOSURE \<longrightarrow> ptarray_is_closed_z pa)
         ''%s must have closed rings'') (\<lambda>_.
       Inr (lwtriangle_construct (st_srid s) None pa, s))))))" for c
    by (intro safe_require, rule safe_bindS [OF ptarray_safe [OF in']], intro safe_require)
      (use s' leaf_trans in \<open>auto simp: advanced_def intro: construct_wf\<close>)
qed

lemma lwpoly_add_ring_ok:
  assumes "length rs + 1 < 2 ^ 31"
  shows "\<exists>mr'. lwpoly_add_ring (LWPOLY h mr rs) pa = Inr (LWPOLY h mr' (rs @ [pa]))"
  using assms by (auto simp: lwpoly_add_ring_def Let_def)

lemma rings_safe:
  assumes "in_input s" "lwgeom_wf (LWPOLY h mr rs)" "length rs \<le> pos s"
    and "hasz (flags h) = has_z s" "hasm (flags h) = has_m s"
  shows "safe (good_leaf s) (rings_from_wkb_state be n (LWPOLY h mr rs) s)"
  using assms
proof (induction n arbitrary: s mr rs)
  case 0
  then show ?case by (simp add: leaf_refl)
next
  case (Suc n)
  show ?case unfolding rings_from_wkb_state.simps
  proof (rule safe_bindS [OF ptarray_safe [OF Suc.prems(1)]], intro safe_require)
    fix pa s'
    assume "case (pa, s') of (pa, s') \<Rightarrow> leaf s s' \<and> pos s < pos s' \<and> good_pa s (npoints pa) pa"
    then have s': "leaf s s'" "pos s < pos s'" and pa: "good_pa s (npoints pa) pa" by simp_all
    from leaf_in_input [OF Suc.prems(1) s'(1)] have in': "in_input s'" .
    then have len: "length rs + 1 \<le> pos s'" "length rs + 1 < 2 ^ 31"
      using Suc.prems(3) s'(2) by (auto simp: in_input_def)
    from lwpoly_add_ring_ok [OF len(2)] obtain mr' where
      add: "lwpoly_add_ring (LWPOLY h mr rs) pa = Inr (LWPOLY h mr' (rs @ [pa]))" by blast
    from leaf_same [OF s'(1)] Suc.prems(4,5) have zm: "hasz (flags h) = has_z s'" "hasm (flags h) = has_m s'"
      by auto
    have wf: "lwgeom_wf (LWPOLY h mr' (rs @ [pa]))"
      using Suc.prems pa len(2) by (auto simp: good_pa_def same_zm_def)
    have "safe (good_leaf s') (rings_from_wkb_state be n (LWPOLY h mr rs) s')"
      by (rule Suc.IH [OF in' Suc.prems(2) _ zm]) (use len in simp)
    moreover have "safe (good_leaf s') (rings_from_wkb_state be n (LWPOLY h mr' (rs @ [pa])) s')"
      by (rule Suc.IH [OF in' wf _ zm]) (use len in simp)
    ultimately show "safe (good_leaf s) (if npoints pa = 0 then rings_from_wkb_state be n (LWPOLY h mr rs) s'
        else bindE (lwpoly_add_ring (LWPOLY h mr rs) pa) (\<lambda>poly. rings_from_wkb_state be n poly s'))"
      using good_leaf_trans [OF s'(1)] by (auto simp: add elim!: safe_mono)
  qed
qed

lemma lwpoly_safe: "in_input s \<Longrightarrow> safe (good_leaf s) (lwpoly_from_wkb_state be s)"
  unfolding lwpoly_from_wkb_state_def Let_def
proof (rule safe_bindS [OF integer_safe], assumption)
  fix nrings :: u32 and s' assume s: "in_input s" and "case (nrings, s') of (i, s') \<Rightarrow> advanced 4 s s'"
  then have s': "leaf s s'" and in': "in_input s'"
    by (auto simp: advanced_def leaf_in_input)
  let ?poly = "lwpoly_construct_empty (st_srid s') (has_z s') (has_m s')"
  have "safe (good_leaf s') (rings_from_wkb_state be (unat nrings) ?poly s')"
    unfolding lwpoly_construct_empty_def by (rule rings_safe [OF in']) (auto simp: empty_head_def)
  then show "safe (good_leaf s) (if unat nrings = 0 then Inr (?poly, s')
      else rings_from_wkb_state be (unat nrings) ?poly s')"
    using s' good_leaf_trans [OF s'] by (auto simp: lwpoly_construct_empty_def elim!: safe_mono)
qed

section \<open>NURBS curves\<close>

lemma nurbs_points_safe:
  assumes "in_input s"
  shows "safe (\<lambda>((cs, ws, one), s'). leaf s s' \<and> length cs = n * st_ndims s \<and> length ws = n)
    (nurbs_points_from_wkb_state be n s)"
  using assms
proof (induction n arbitrary: s)
  case 0
  then show ?case by (simp add: leaf_refl)
next
  case (Suc n)
  let ?w = "\<lambda>has_weight s. if has_weight = 0 then Inr ((dbl_one, True), s)
            else if has_weight = 1 then
              bindS (double_from_wkb_state be s) (\<lambda>w s.
              bindE (require (\<not> dbl_le w dbl_zero) ''WKB NURBSCURVE: non-positive weight for point %d'')
                (\<lambda>_. Inr ((w, dbl_eq w dbl_one), s)))
            else Inl (LwError ''WKB NURBSCURVE: invalid weight bit %d for point %d (must be 0 or 1)'')"
  have weight: "safe (\<lambda>(r, s'). leaf s s') (?w b s)" if "in_input s" for b :: byte and s
  proof -
    have "safe (\<lambda>(r, s'). leaf s s') (bindS (double_from_wkb_state be s) (\<lambda>w s.
        bindE (require (\<not> dbl_le w dbl_zero) ''WKB NURBSCURVE: non-positive weight for point %d'')
          (\<lambda>_. Inr ((w, dbl_eq w dbl_one), s))))"
      by (rule safe_bindS [OF double_safe [OF that]], rule safe_require) (auto simp: advanced_def)
    then show ?thesis using leaf_refl [OF that] by simp
  qed
  show ?case unfolding nurbs_points_from_wkb_state.simps
  proof (rule safe_bindS [OF swap_safe [OF Suc.prems]], rule safe_bindS [OF doubles_safe])
    fix u :: unit and s1 assume "case (u, s1) of (u, s') \<Rightarrow> advanced 1 s s'"
    then have 1: "leaf s s1" by (simp add: advanced_def)
    show in1: "in_input s1" by (rule leaf_in_input [OF Suc.prems 1])
    fix pt :: "double list" and s2
    assume "case (pt, s2) of (ds, s') \<Rightarrow> advanced (8 * st_ndims s1) s1 s' \<and> length ds = st_ndims s1"
    then have 2: "leaf s1 s2" and pt: "length pt = st_ndims s1" by (simp_all add: advanced_def)
    have in2: "in_input s2" by (rule leaf_in_input [OF in1 2])
    show "safe (\<lambda>((cs, ws, one), s'). leaf s s' \<and> length cs = Suc n * st_ndims s \<and> length ws = Suc n)
      (bindS (byte_from_wkb_state s2) (\<lambda>has_weight s. bindS (?w has_weight s) (\<lambda>(w, one) s.
       bindS (nurbs_points_from_wkb_state be n s) (\<lambda>(cs, ws, ones) s.
         Inr ((pt @ cs, w # ws, one \<and> ones), s)))))"
    proof (rule safe_bindS [OF byte_safe [OF in2]], rule safe_bindS [OF weight])
      fix b :: byte and s3 assume "case (b, s3) of (b, s') \<Rightarrow> advanced 1 s2 s'"
      then have 3: "leaf s2 s3" by (simp add: advanced_def)
      show in3: "in_input s3" by (rule leaf_in_input [OF in2 3])
      fix wo :: "double \<times> bool" and s4 assume "case (wo, s4) of (r, s') \<Rightarrow> leaf s3 s'"
      then have 4: "leaf s3 s4" by simp
      have in4: "in_input s4" by (rule leaf_in_input [OF in3 4])
      have l: "leaf s s4" using 1 2 3 4 leaf_trans by blast
      show "safe (\<lambda>((cs, ws, one), s'). leaf s s' \<and> length cs = Suc n * st_ndims s \<and> length ws = Suc n)
        ((case wo of (w, one) \<Rightarrow> \<lambda>s. bindS (nurbs_points_from_wkb_state be n s) (\<lambda>(cs, ws, ones) s.
         Inr ((pt @ cs, w # ws, one \<and> ones), s))) s4)"
        by (cases wo, simp, rule safe_bindS [OF Suc.IH [OF in4]])
          (use l pt leaf_same [OF 1] leaf_same [OF l] leaf_trans [OF l] in auto)
    qed
  qed
qed

lemma safe_option:
  "(\<And>x. m = Some x \<Longrightarrow> safe R (f x)) \<Longrightarrow>
   safe R (case m of None \<Rightarrow> Inl (LwError msg) | Some x \<Rightarrow> f x)"
  by (cases m) auto

lemma safe_state_check: "safe R (f ()) \<Longrightarrow> safe R (bindE (wkb_parse_state_check s n) f)"
  by (simp add: state_check_iff)

lemma nurbs_construct_safe:
  assumes "pa_wf pa" "0 < npoints pa" "npoints pa + d + 1 < 2 ^ 32"
  shows "safe lwgeom_wf (lwnurbscurve_construct i b d (Some pa) w (Some k))"
  unfolding lwnurbscurve_construct_def
  by (intro safe_require) (use assms in \<open>auto split: option.splits list.splits\<close>)

lemma nurbs_knots_safe:
  assumes "in_input s" "n + d + 1 < 2 ^ 32" "length cs = n * st_ndims s"
  shows "safe (good_leaf s) (nurbs_knots_from_wkb_state be d n cs ws one s)"
  unfolding nurbs_knots_from_wkb_state_def
proof (rule safe_bindS [OF integer_safe [OF assms(1)]])
  fix nknots :: u32 and s1 assume "case (nknots, s1) of (i, s') \<Rightarrow> advanced 4 s s'"
  then have 1: "leaf s s1" by (simp add: advanced_def)
  have in1: "in_input s1" by (rule leaf_in_input [OF assms(1) 1])
  have "safe (good_leaf s) (bindS (doubles_from_wkb_state be (unat nknots) s1) (\<lambda>knots s.
       bindE (require (knots_sorted knots) ''WKB NURBSCURVE: knot vector must be non-decreasing'') (\<lambda>_.
       bindE (lwnurbscurve_construct (st_srid s) None d (Some (ptarray_construct (has_z s) (has_m s) n cs))
           (if one then None else Some ws) (Some knots)) (\<lambda>curve. Inr (curve, s)))))" if "n \<noteq> 0"
  proof (rule safe_bindS [OF doubles_safe [OF in1]], rule safe_require)
    fix ks :: "double list" and s2
    assume "case (ks, s2) of (ds, s') \<Rightarrow> advanced (8 * unat nknots) s1 s' \<and> length ds = unat nknots"
    then have 2: "leaf s s2" using leaf_trans [OF 1] by (simp add: advanced_def)
    have "good_pa s2 n (ptarray_construct (has_z s2) (has_m s2) n cs)"
      using assms leaf_same [OF 2] by (intro good_pa_construct) auto
    then have "pa_wf (ptarray_construct (has_z s2) (has_m s2) n cs)" by (simp add: good_pa_def)
    with that assms(2) have "safe lwgeom_wf (lwnurbscurve_construct (st_srid s2) None d
        (Some (ptarray_construct (has_z s2) (has_m s2) n cs)) (if one then None else Some ws) (Some ks))"
      by (intro nurbs_construct_safe) auto
    then show "safe (good_leaf s) (bindE (lwnurbscurve_construct (st_srid s2) None d
        (Some (ptarray_construct (has_z s2) (has_m s2) n cs)) (if one then None else Some ws) (Some ks))
        (\<lambda>curve. Inr (curve, s2)))"
      by (rule safe_bindE) (simp add: 2)
  qed
  with 1 show "safe (good_leaf s) (if n = 0 then
       bindE (require (unat nknots = 0) ''WKB NURBSCURVE EMPTY: expected 0 knots, got %u'') (\<lambda>_.
       Inr (lwnurbscurve_construct_empty (st_srid s1) (has_z s1) (has_m s1), s1))
     else
       bindE (require (unat nknots \<noteq> 0) ''WKB NURBSCURVE: knots required by standard (got 0)'') (\<lambda>_.
       bindE (require (unat nknots = n + d + 1)
         ''WKB NURBSCURVE: expected %d knots for degree %d and %d points, got %d'') (\<lambda>_.
       bindS (doubles_from_wkb_state be (unat nknots) s1) (\<lambda>knots s.
       bindE (require (knots_sorted knots) ''WKB NURBSCURVE: knot vector must be non-decreasing'') (\<lambda>_.
       bindE (lwnurbscurve_construct (st_srid s) None d (Some (ptarray_construct (has_z s) (has_m s) n cs))
           (if one then None else Some ws) (Some knots)) (\<lambda>curve. Inr (curve, s)))))))"
    by (auto simp: require_def construct_empty_wf)
qed

lemma nurbs_control_safe:
  "in_input s \<Longrightarrow> safe (\<lambda>((cs, ws, one), s'). leaf s s' \<and> length cs = n * st_ndims s)
    (nurbs_control_from_wkb_state be n s)"
proof -
  assume s: "in_input s"
  have "safe (\<lambda>((cs, ws, one), s'). leaf s s' \<and> length cs = n * st_ndims s)
      (bindS (nurbs_points_from_wkb_state be n s) (\<lambda>r s'. Inr (r, s'\<lparr>swap_bytes := swap_bytes s\<rparr>)))"
    by (rule safe_bindS [OF nurbs_points_safe [OF s]]) auto
  with leaf_refl [OF s] show ?thesis by (simp add: nurbs_control_from_wkb_state_def)
qed

lemma nurbs_safe: "in_input s \<Longrightarrow> safe (good_leaf s) (lwnurbscurve_from_wkb_state be s)"
  unfolding lwnurbscurve_from_wkb_state_def Let_def
proof (rule safe_bindS [OF integer_safe], assumption, rule safe_require, rule safe_bindS [OF integer_safe],
    goal_cases)
  case (1 d s1)
  then show ?case by (auto simp: advanced_def leaf_in_input)
next
  case (2 d s1 i s2)
  then have "leaf s s1" "leaf s1 s2" by (simp_all add: advanced_def)
  then have l: "leaf s s2" by (rule leaf_trans)
  from leaf_in_input [OF 2(1) l] have in2: "in_input s2" .
  show ?case
  proof (intro safe_require safe_option safe_state_check, rule safe_bindS [OF nurbs_control_safe [OF in2]],
      goal_cases)
    case (1 a b r s3)
    then obtain cs ws one where r: "r = (cs, ws, one)" and 3: "leaf s2 s3"
      and cs: "length cs = unat i * st_ndims s2"
      by (cases r) auto
    have "safe (good_leaf s3) (nurbs_knots_from_wkb_state be (unat d) (unat i) cs ws one s3)"
      by (rule nurbs_knots_safe [OF leaf_in_input [OF in2 3]])
        (use leaf_same [OF 3] cs 1 2 in auto)
    from safe_mono [OF this good_leaf_trans [OF leaf_trans [OF l 3]]] show ?case by (simp add: r)
  qed
qed

section \<open>Collections\<close>

definition gstep :: "wkb_parse_state \<Rightarrow> wkb_parse_state \<Rightarrow> bool" where
  "gstep s s' \<longleftrightarrow> wkb s' = wkb s \<and> check s' = check s \<and> depth s' = depth s \<and> pos s \<le> pos s' \<and>
    pos s' \<le> length (wkb s)"

definition good_geom :: "wkb_parse_state \<Rightarrow> lwgeom \<times> wkb_parse_state \<Rightarrow> bool" where
  "good_geom s r \<longleftrightarrow> lwgeom_wf (fst r) \<and> gstep s (snd r)"

definition reader_ok :: "nat \<Rightarrow> geom_reader \<Rightarrow> bool" where
  "reader_ok d rd \<longleftrightarrow> (\<forall>s. in_input s \<longrightarrow> depth s = d \<longrightarrow>
     safe (\<lambda>r. good_geom s r \<and> pos s < pos (snd r)) (rd s))"

lemma gstep_trans: "gstep s s' \<Longrightarrow> gstep s' s'' \<Longrightarrow> gstep s s''"
  by (auto simp: gstep_def)

lemma gstep_in_input: "in_input s \<Longrightarrow> gstep s s' \<Longrightarrow> in_input s'"
  by (auto simp: gstep_def in_input_def)

lemma leaf_gstep: "leaf s s' \<Longrightarrow> gstep s s'"
  by (auto simp: leaf_def gstep_def)

lemma gstep_refl: "in_input s \<Longrightarrow> gstep s s"
  by (simp add: gstep_def in_input_def)

lemma good_leaf_geom: "good_leaf s r \<Longrightarrow> good_geom s r"
  by (simp add: good_leaf_def good_geom_def leaf_gstep)

lemma good_geom_trans: "gstep s s' \<Longrightarrow> good_geom s' r \<Longrightarrow> good_geom s r"
  by (auto simp: good_geom_def gstep_trans)

lemma good_geom_simp [simp]: "good_geom s (g, s') \<longleftrightarrow> lwgeom_wf g \<and> gstep s s'"
  by (simp add: good_geom_def)

lemma add_lwgeom_safe:
  assumes "growable (LWCOLLECTION t h mg al gs)" "length gs < 2 ^ 31"
    and "lwgeom_wf (LWCOLLECTION t h mg al gs)" "lwgeom_wf g"
  shows "safe (\<lambda>col. \<exists>mg'. col = LWCOLLECTION t h mg' True (gs @ [g]) \<and> growable col \<and> lwgeom_wf col)
    (lwcollection_add_lwgeom (LWCOLLECTION t h mg al gs) g)"
proof (cases "lwcollection_allows_subtype t (lwgeom_get_type g)")
  case True
  from lwcollection_add_lwgeom_ok [OF assms(1,2) True] assms(2-4) True show ?thesis by auto
next
  case False
  with assms(1) show ?thesis by (simp add: lwcollection_add_lwgeom_def require_def)
qed

lemma geoms_safe:
  assumes rd: "reader_ok d rd"
  shows "in_input s \<Longrightarrow> depth s = d \<Longrightarrow> growable (LWCOLLECTION t h mg al gs) \<Longrightarrow>
    lwgeom_wf (LWCOLLECTION t h mg al gs) \<Longrightarrow> length gs \<le> pos s \<Longrightarrow>
    safe (good_geom s) (geoms_from_wkb_state rd n (LWCOLLECTION t h mg al gs) s)"
proof (induction n arbitrary: s mg al gs)
  case 0
  then show ?case by (simp add: gstep_refl)
next
  case (Suc n)
  let ?col = "LWCOLLECTION t h mg al gs"
  have "safe (\<lambda>r. good_geom s r \<and> pos s < pos (snd r)) (rd s)"
    using rd Suc.prems by (simp add: reader_ok_def)
  then show ?case unfolding geoms_from_wkb_state.simps
  proof (rule safe_bindS)
    fix g s' assume "good_geom s (g, s') \<and> pos s < pos (snd (g, s'))"
    then have g: "lwgeom_wf g" and s': "gstep s s'" "pos s < pos s'" by simp_all
    have in': "in_input s'" by (rule gstep_in_input [OF Suc.prems(1) s'(1)])
    have len: "length gs + 1 \<le> pos s'" "length gs < 2 ^ 31"
      using Suc.prems(5) s'(2) in' by (auto simp: in_input_def)
    show "safe (good_geom s)
        (bindE (lwcollection_add_lwgeom ?col g) (\<lambda>col. geoms_from_wkb_state rd n col s'))"
    proof (rule safe_bindE [OF add_lwgeom_safe [OF Suc.prems(3) len(2) Suc.prems(4) g]], elim exE conjE)
      fix col mg' assume col: "col = LWCOLLECTION t h mg' True (gs @ [g])" "growable col" "lwgeom_wf col"
      have "safe (good_geom s') (geoms_from_wkb_state rd n col s')"
        unfolding col(1) by (rule Suc.IH) (use col in' len s'(1) Suc.prems(2) in \<open>auto simp: gstep_def\<close>)
      from safe_mono [OF this good_geom_trans [OF s'(1)]]
      show "safe (good_geom s) (geoms_from_wkb_state rd n col s')" .
    qed
  qed
qed

lemma add_ring_safe:
  assumes "growable (LWCOLLECTION CURVEPOLYTYPE h mg al gs)" "length gs < 2 ^ 31"
    and "lwgeom_wf (LWCOLLECTION CURVEPOLYTYPE h mg al gs)" "lwgeom_wf g"
  shows "safe (\<lambda>(ok, col). ok \<longrightarrow> (\<exists>mg'. col = LWCOLLECTION CURVEPOLYTYPE h mg' True (gs @ [g]) \<and>
      growable col \<and> lwgeom_wf col))
    (lwcurvepoly_add_ring (LWCOLLECTION CURVEPOLYTYPE h mg al gs) g)"
proof (cases "lwgeom_get_type g \<in> {LINETYPE, CIRCSTRINGTYPE, COMPOUNDTYPE, NURBSCURVETYPE}")
  case True
  then have "lwcollection_allows_subtype CURVEPOLYTYPE (lwgeom_get_type g)"
    by (auto simp: lwcollection_allows_subtype_def)
  with lwcurvepoly_add_ring_ok [OF assms(1,2) True] assms(2-4) show ?thesis by auto
next
  case False
  with assms(1) show ?thesis by (simp add: lwcurvepoly_add_ring_def)
qed

lemma curves_safe:
  assumes rd: "reader_ok d rd"
  shows "in_input s \<Longrightarrow> depth s = d \<Longrightarrow> growable (LWCOLLECTION CURVEPOLYTYPE h mg al gs) \<Longrightarrow>
    lwgeom_wf (LWCOLLECTION CURVEPOLYTYPE h mg al gs) \<Longrightarrow> length gs \<le> pos s \<Longrightarrow>
    safe (good_geom s) (curves_from_wkb_state rd n (LWCOLLECTION CURVEPOLYTYPE h mg al gs) s)"
proof (induction n arbitrary: s mg al gs)
  case 0
  then show ?case by (simp add: gstep_refl)
next
  case (Suc n)
  let ?col = "LWCOLLECTION CURVEPOLYTYPE h mg al gs"
  have "safe (\<lambda>r. good_geom s r \<and> pos s < pos (snd r)) (rd s)"
    using rd Suc.prems by (simp add: reader_ok_def)
  then show ?case unfolding curves_from_wkb_state.simps
  proof (rule safe_bindS)
    fix g s' assume "good_geom s (g, s') \<and> pos s < pos (snd (g, s'))"
    then have g: "lwgeom_wf g" and s': "gstep s s'" "pos s < pos s'" by simp_all
    have in': "in_input s'" by (rule gstep_in_input [OF Suc.prems(1) s'(1)])
    have len: "length gs + 1 \<le> pos s'" "length gs < 2 ^ 31"
      using Suc.prems(5) s'(2) in' by (auto simp: in_input_def)
    show "safe (good_geom s) (bindE (lwcurvepoly_add_ring ?col g) (\<lambda>(success, cp).
        bindE (require success ''Unable to add geometry (%p) to curvepoly (%p)'') (\<lambda>_.
        curves_from_wkb_state rd n cp s')))"
    proof (rule safe_bindE [OF add_ring_safe [OF Suc.prems(3) len(2) Suc.prems(4) g]])
      fix x :: "bool \<times> lwgeom"
      assume x: "case x of (ok, col) \<Rightarrow> ok \<longrightarrow> (\<exists>mg'. col = LWCOLLECTION CURVEPOLYTYPE h mg' True (gs @ [g]) \<and>
        growable col \<and> lwgeom_wf col)"
      obtain ok col where x_eq: "x = (ok, col)" by (cases x)
      have "safe (good_geom s) (curves_from_wkb_state rd n col s')" if "ok"
      proof -
        from x that obtain mg' where col: "col = LWCOLLECTION CURVEPOLYTYPE h mg' True (gs @ [g])"
          "growable col" "lwgeom_wf col" by (auto simp: x_eq)
        have "safe (good_geom s') (curves_from_wkb_state rd n col s')"
          unfolding col(1) by (rule Suc.IH) (use col in' len s'(1) Suc.prems(2) in \<open>auto simp: gstep_def\<close>)
        from safe_mono [OF this good_geom_trans [OF s'(1)]] show ?thesis .
      qed
      then show "safe (good_geom s) (case x of (success, cp) \<Rightarrow>
          bindE (require success ''Unable to add geometry (%p) to curvepoly (%p)'') (\<lambda>_.
          curves_from_wkb_state rd n cp s'))"
        by (simp add: x_eq require_def)
    qed
  qed
qed

lemma reader_ok_restored:
  assumes "good_geom (s\<lparr>depth := depth s + 1, check := c\<rparr>) (g, s')"
  shows "good_geom s (g, s'\<lparr>depth := depth s' - 1, check := check s\<rparr>)"
  using assms by (simp add: gstep_def)

lemma lwcurvepoly_safe:
  assumes rd: "\<forall>d'. d < d' \<longrightarrow> d' < LW_PARSER_MAX_DEPTH \<longrightarrow> reader_ok d' rd" and "in_input s" "depth s = d"
  shows "safe (good_geom s) (lwcurvepoly_from_wkb_state be rd s)"
  unfolding lwcurvepoly_from_wkb_state_def Let_def
proof (rule safe_bindS [OF integer_safe [OF assms(2)]])
  fix n :: u32 and s1 assume "case (n, s1) of (i, s') \<Rightarrow> advanced 4 s s'"
  then have 1: "leaf s s1" by (simp add: advanced_def)
  have in1: "in_input s1" by (rule leaf_in_input [OF assms(2) 1])
  let ?cp = "lwcurvepoly_construct_empty (st_srid s1) (has_z s1) (has_m s1)"
  let ?s = "s1\<lparr>depth := depth s1 + 1\<rparr>"
  have cp: "growable ?cp" "lwgeom_wf ?cp"
    by (simp_all add: lwcurvepoly_construct_empty_def lwtype_is_collection_def)
  have "safe (good_geom s1) (bindS (curves_from_wkb_state rd (unat n) ?cp ?s)
      (\<lambda>cp s. Inr (cp, s\<lparr>depth := depth s - 1\<rparr>)))" if "depth ?s < LW_PARSER_MAX_DEPTH"
  proof (rule safe_bindS)
    show "safe (good_geom ?s) (curves_from_wkb_state rd (unat n) ?cp ?s)"
      using cp unfolding lwcurvepoly_construct_empty_def
      by (intro curves_safe [of "depth ?s"])
        (use rd that in1 leaf_same [OF 1] assms(3) in \<open>auto simp: in_input_def\<close>)
  qed (auto simp: gstep_def)
  from safe_mono [OF this good_geom_trans [OF leaf_gstep [OF 1]]] cp(2) leaf_gstep [OF 1]
  show "safe (good_geom s) (if unat n = 0 then Inr (?cp, s1)
      else bindE (require (\<not> depth ?s \<ge> LW_PARSER_MAX_DEPTH) ''Geometry has too many chained curves'')
        (\<lambda>_. bindS (curves_from_wkb_state rd (unat n) ?cp ?s)
          (\<lambda>cp s. Inr (cp, s\<lparr>depth := depth s - 1\<rparr>))))"
    by (auto simp: require_def not_le)
qed

lemma lwcollection_safe:
  assumes rd: "\<forall>d'. d < d' \<longrightarrow> d' < LW_PARSER_MAX_DEPTH \<longrightarrow> reader_ok d' rd" and "in_input s" "depth s = d"
  shows "safe (good_geom s) (lwcollection_from_wkb_state be rd s)"
  unfolding lwcollection_from_wkb_state_def Let_def
proof (rule safe_bindS [OF integer_safe [OF assms(2)]])
  fix n :: u32 and s1 assume "case (n, s1) of (i, s') \<Rightarrow> advanced 4 s s'"
  then have 1: "leaf s s1" by (simp add: advanced_def)
  have in1: "in_input s1" by (rule leaf_in_input [OF assms(2) 1])
  let ?s0 = "if lwtype s1 = POLYHEDRALSURFACETYPE
    then s1\<lparr>check := check s1 OR LW_PARSER_CHECK_ZCLOSURE\<rparr> else s1"
  let ?s = "?s0\<lparr>depth := depth ?s0 + 1\<rparr>"
  have "safe (good_geom s1) (bindS (geoms_from_wkb_state rd (unat n) col ?s)
      (\<lambda>col s. Inr (col, s\<lparr>depth := depth s - 1, check := check s1\<rparr>)))"
    if "depth ?s < LW_PARSER_MAX_DEPTH" "lwtype_is_collection t"
      "col = LWCOLLECTION t h 1 True []" for col t h
  proof (rule safe_bindS)
    show "safe (good_geom ?s) (geoms_from_wkb_state rd (unat n) col ?s)"
      unfolding that(3)
      by (intro geoms_safe [of "depth ?s"])
        (use rd that in1 leaf_same [OF 1] assms(3) in \<open>auto simp: in_input_def\<close>)
  qed (auto simp: gstep_def split: if_splits)
  from safe_mono [OF this good_geom_trans [OF leaf_gstep [OF 1]]] leaf_gstep [OF 1]
  show "safe (good_geom s)
      (bindE (lwcollection_construct_empty (lwtype s1) (st_srid s1) (has_z s1) (has_m s1)) (\<lambda>col.
        if unat n = 0 then Inr (col, s1\<lparr>check := check s1\<rparr>)
        else bindE (require (\<not> depth ?s \<ge> LW_PARSER_MAX_DEPTH) ''Geometry has too many chained collections'')
          (\<lambda>_. bindS (geoms_from_wkb_state rd (unat n) col ?s)
            (\<lambda>col s. Inr (col, s\<lparr>depth := depth s - 1, check := check s1\<rparr>)))))"
    unfolding lwcollection_construct_empty_def
    by (auto simp: require_def not_le)
qed

section \<open>The reader\<close>

lemma lwtype_safe:
  "in_input s \<Longrightarrow> safe (\<lambda>s'. gstep s s' \<and> pos s' = pos s) (lwtype_from_wkb_state s t)"
  unfolding lwtype_from_wkb_state_def Let_def
  by (intro safe_require safe_option) (auto simp: gstep_def in_input_def)

lemma srid_safe:
  "in_input s \<Longrightarrow> safe (\<lambda>s'. gstep s s')
    (if has_srid s
     then bindS (integer_from_wkb_state be s) (\<lambda>i s. Inr (s\<lparr>st_srid := clamp_srid (sint i)\<rparr>))
     else Inr s)"
proof -
  assume s: "in_input s"
  have "safe (\<lambda>s'. gstep s s')
      (bindS (integer_from_wkb_state be s) (\<lambda>i s. Inr (s\<lparr>st_srid := clamp_srid (sint i)\<rparr>)))"
    by (rule safe_bindS [OF integer_safe [OF s]]) (auto simp: advanced_def leaf_def gstep_def)
  with gstep_refl [OF s] show ?thesis by simp
qed

lemma lwgeom_from_wkb_state_safe:
  "d < LW_PARSER_MAX_DEPTH \<Longrightarrow> LW_PARSER_MAX_DEPTH \<le> fuel + d \<Longrightarrow>
   reader_ok d (lwgeom_from_wkb_state fuel be)"
proof (induction fuel arbitrary: d)
  case 0
  then show ?case by simp
next
  case (Suc fuel)
  have rd: "\<forall>d'. d < d' \<longrightarrow> d' < LW_PARSER_MAX_DEPTH \<longrightarrow> reader_ok d' (lwgeom_from_wkb_state fuel be)"
    using Suc by auto
  show ?case unfolding reader_ok_def lwgeom_from_wkb_state.simps
  proof (intro allI impI, rule safe_bindS [OF swap_safe], assumption)
    fix s s1 and u :: unit assume s: "in_input s" "depth s = d" and "case (u, s1) of (u, s') \<Rightarrow> advanced 1 s s'"
    then have 1: "gstep s s1" "pos s < pos s1" by (auto simp: advanced_def leaf_gstep)
    have in1: "in_input s1" by (rule gstep_in_input [OF s(1) 1(1)])
    show "safe (\<lambda>r. good_geom s r \<and> pos s < pos (snd r))
     (bindS (integer_from_wkb_state be s1) (\<lambda>wkb_type s.
     bindE (lwtype_from_wkb_state s wkb_type) (\<lambda>s.
     bindE (if has_srid s
            then bindS (integer_from_wkb_state be s) (\<lambda>i s. Inr (s\<lparr>st_srid := clamp_srid (sint i)\<rparr>))
            else Inr s) (\<lambda>s.
     if lwtype s = POINTTYPE then lwpoint_from_wkb_state be s
     else if lwtype s = LINETYPE then lwline_from_wkb_state be s
     else if lwtype s = CIRCSTRINGTYPE then lwcircstring_from_wkb_state be s
     else if lwtype s = POLYGONTYPE then lwpoly_from_wkb_state be s
     else if lwtype s = TRIANGLETYPE then lwtriangle_from_wkb_state be s
     else if lwtype s = CURVEPOLYTYPE then
       lwcurvepoly_from_wkb_state be (lwgeom_from_wkb_state fuel be) s
     else if lwtype s \<in> set [MULTIPOINTTYPE, MULTILINETYPE, MULTIPOLYGONTYPE, COMPOUNDTYPE,
         MULTICURVETYPE, MULTISURFACETYPE, POLYHEDRALSURFACETYPE, TINTYPE, COLLECTIONTYPE] then
       lwcollection_from_wkb_state be (lwgeom_from_wkb_state fuel be) s
     else if lwtype s = NURBSCURVETYPE then lwnurbscurve_from_wkb_state be s
     else Inl (LwError ''%s: Unsupported geometry type: %s'')))))"
    proof (rule safe_bindS [OF integer_safe [OF in1]], rule safe_bindE [OF lwtype_safe],
        goal_cases)
      case (1 t s2)
      then show ?case by (auto simp: advanced_def leaf_in_input [OF in1])
    next
      case (2 t s2 s3)
      then have "leaf s1 s2" "gstep s2 s3" by (simp_all add: advanced_def)
      with gstep_trans [OF 1(1)] leaf_gstep gstep_trans have 3: "gstep s s3" by blast
      from 2 1 have pos: "pos s < pos s3" by (auto simp: advanced_def)
      have in3: "in_input s3" by (rule gstep_in_input [OF s(1) 3])
      show ?case
      proof (rule safe_bindE [OF srid_safe [OF in3]])
        fix s4 assume "gstep s3 s4"
        then have 4: "gstep s s4" "pos s < pos s4" and in4: "in_input s4"
          using gstep_trans [OF 3] pos gstep_in_input [OF in3] by (auto simp: gstep_def)
        have d4: "depth s4 = d" using 4 s by (simp add: gstep_def)
        note col = lwcollection_safe [OF rd in4 d4, of be] lwcurvepoly_safe [OF rd in4 d4, of be]
        note leafs = lwpoint_safe lwline_safe lwcircstring_safe lwpoly_safe lwtriangle_safe nurbs_safe
        have good: "good_geom s r \<and> pos s < pos (snd r)" if "good_geom s4 r" for r
          using good_geom_trans [OF 4(1) that] that 4(2) by (auto simp: good_geom_def gstep_def)
        note fin = safe_mono [OF safe_mono [OF _ good_leaf_geom] good]
        show "safe (\<lambda>r. good_geom s r \<and> pos s < pos (snd r))
          (if lwtype s4 = POINTTYPE then lwpoint_from_wkb_state be s4
           else if lwtype s4 = LINETYPE then lwline_from_wkb_state be s4
           else if lwtype s4 = CIRCSTRINGTYPE then lwcircstring_from_wkb_state be s4
           else if lwtype s4 = POLYGONTYPE then lwpoly_from_wkb_state be s4
           else if lwtype s4 = TRIANGLETYPE then lwtriangle_from_wkb_state be s4
           else if lwtype s4 = CURVEPOLYTYPE then
             lwcurvepoly_from_wkb_state be (lwgeom_from_wkb_state fuel be) s4
           else if lwtype s4 \<in> set [MULTIPOINTTYPE, MULTILINETYPE, MULTIPOLYGONTYPE, COMPOUNDTYPE,
               MULTICURVETYPE, MULTISURFACETYPE, POLYHEDRALSURFACETYPE, TINTYPE, COLLECTIONTYPE] then
             lwcollection_from_wkb_state be (lwgeom_from_wkb_state fuel be) s4
           else if lwtype s4 = NURBSCURVETYPE then lwnurbscurve_from_wkb_state be s4
           else Inl (LwError ''%s: Unsupported geometry type: %s''))"
          using safe_mono [OF col(1) good] safe_mono [OF col(2) good]
            fin [OF leafs(1) [OF in4]] fin [OF leafs(2) [OF in4]] fin [OF leafs(3) [OF in4]]
            fin [OF leafs(4) [OF in4]] fin [OF leafs(5) [OF in4]] fin [OF leafs(6) [OF in4]]
          by (simp only: safe_Inl if_split) simp
      qed
    qed
  qed
qed

lemma lwgeom_from_wkb_good:
  assumes "length bytes < 2 ^ 31"
  shows "safe (\<lambda>g. case g of None \<Rightarrow> bytes = [] | Some g \<Rightarrow> lwgeom_wf g) (lwgeom_from_wkb be bytes chk)"
proof (cases "bytes = []")
  case False
  let ?s = "wkb_initial_state bytes chk"
  have "in_input ?s" "depth ?s = 1" using assms by (simp_all add: in_input_def wkb_initial_state_def)
  with lwgeom_from_wkb_state_safe [of 1 LW_PARSER_MAX_DEPTH be]
  have "safe (\<lambda>r. good_geom ?s r \<and> pos ?s < pos (snd r))
      (lwgeom_from_wkb_state LW_PARSER_MAX_DEPTH be ?s)"
    by (simp add: reader_ok_def del: lwgeom_from_wkb_state.simps)
  then have "safe (\<lambda>g. case g of None \<Rightarrow> bytes = [] | Some g \<Rightarrow> lwgeom_wf g)
      (bindS (lwgeom_from_wkb_state LW_PARSER_MAX_DEPTH be ?s) (\<lambda>g s. Inr (Some g)))"
    by (rule safe_bindS) simp
  with False show ?thesis by (simp add: lwgeom_from_wkb_def)
qed (simp add: lwgeom_from_wkb_def)

section \<open>Properties\<close>

text \<open>
  C1. Reading WKB is total and safe on every input below 2 GB, whatever its bytes, the
  check flags and the byte order of the machine: the reader returns, no access leaves the
  input, no allocated array is overrun, the recursion depth limit is enough, and what it
  returns, when it does not report an error, is a well-formed geometry.
\<close>

theorem lwgeom_from_wkb_safe:
  assumes "length bytes < 2 ^ 31"
  shows "(\<exists>msg. lwgeom_from_wkb be bytes chk = Inl (LwError msg)) \<or>
    (\<exists>g. lwgeom_from_wkb be bytes chk = Inr (Some g) \<and> lwgeom_wf g) \<or>
    (bytes = [] \<and> lwgeom_from_wkb be bytes chk = Inr None)"
  using lwgeom_from_wkb_good [OF assms, of be chk]
  by (cases "lwgeom_from_wkb be bytes chk") (auto split: option.splits)

theorem lwgeom_from_wkb_safe_witness:
  "(\<exists>msg. lwgeom_from_wkb False [1, 7, 0] 0 = Inl (LwError msg)) \<or>
   (\<exists>g. lwgeom_from_wkb False [1, 7, 0] 0 = Inr (Some g) \<and> lwgeom_wf g)"
  using lwgeom_from_wkb_safe [of "[1, 7, 0]" False 0] by simp

end
