(* ===== verification/WKBReadBack.thy ===== *)
theory WKBReadBack
  imports WKBSafe
begin

text \<open>
  What the WKB writer writes, the reader reads back, part by part: the reader of each
  scalar, point array, header and geometry without members inverts the writer of that part.
\<close>

section \<open>Scalars\<close>

text \<open>The input that is left, and the byte order the data was written in.\<close>

definition input :: "wkb_parse_state \<Rightarrow> byte list" where
  "input s = drop (pos s) (wkb s)"

definition order_ok :: "bool \<Rightarrow> byte \<Rightarrow> wkb_parse_state \<Rightarrow> bool" where
  "order_ok be v s \<longleftrightarrow> swap_bytes s = (be = has_bits v WKB_NDR)"

lemma input_advance:
  assumes "input s = bs @ rest" "bs \<noteq> []"
  shows "pos s + length bs \<le> length (wkb s)" "take (length bs) (drop (pos s) (wkb s)) = bs"
    "input (s\<lparr>pos := pos s + length bs\<rparr>) = rest"
proof -
  have "length bs + length rest = length (wkb s) - pos s"
    using arg_cong [OF assms(1), of length] by (simp add: input_def)
  with assms(2) show "pos s + length bs \<le> length (wkb s)" by (cases bs) auto
  show "take (length bs) (drop (pos s) (wkb s)) = bs" using assms(1) by (simp add: input_def)
  have "drop (pos s + length bs) (wkb s) = drop (length bs) (input s)"
    by (simp add: input_def add.commute)
  with assms(1) show "input (s\<lparr>pos := pos s + length bs\<rparr>) = rest" by (simp add: input_def)
qed

lemma order_ok_pos [simp]: "order_ok be v (s\<lparr>pos := p\<rparr>) = order_ok be v s"
  by (simp add: order_ok_def)

lemma mem_word_order:
  fixes w :: "'a::len word"
  assumes "LENGTH('a) \<le> 8 * n" "order_ok be v s"
  shows "mem_word be (if swap_bytes s then rev (wkb_order v (le_bytes n w))
      else wkb_order v (le_bytes n w)) = w"
  using assms by (auto simp: mem_word_def wkb_order_def order_ok_def le_word_le_bytes_full)

text \<open>The next \<open>n\<close> bytes of the input are \<open>bs\<close> and the state after them is \<open>s'\<close>.\<close>

lemma byte_read:
  assumes "input s = b # rest"
  shows "byte_from_wkb_state s = Inr (b, s\<lparr>pos := pos s + 1\<rparr>)"
  using input_advance [of s "[b]" rest] assms
  by (simp add: byte_from_wkb_state_def state_check_iff read_mem_def wkb_parse_state_advance_def)

lemma integer_read:
  assumes "input s = wkb_order v (le_bytes 4 (i :: u32)) @ rest" "order_ok be v s"
  shows "integer_from_wkb_state be s = Inr (i, s\<lparr>pos := pos s + 4\<rparr>)"
proof -
  have ne: "wkb_order v (le_bytes 4 i) \<noteq> []"
    by (simp add: wkb_order_def le_bytes_numeral)
  from input_advance [OF assms(1) ne] mem_word_order [of 4 be v s i] assms(2) show ?thesis
    by (simp add: integer_from_wkb_state_def state_check_iff read_mem_def Let_def
        wkb_parse_state_advance_def)
qed

lemma double_read:
  assumes "input s = wkb_order v (le_bytes 8 (d :: double)) @ rest" "order_ok be v s"
  shows "double_from_wkb_state be s = Inr (d, s\<lparr>pos := pos s + 8\<rparr>)"
proof -
  have ne: "wkb_order v (le_bytes 8 d) \<noteq> []"
    by (simp add: wkb_order_def le_bytes_numeral)
  from input_advance [OF assms(1) ne] mem_word_order [of 8 be v s d] assms(2) show ?thesis
    by (simp add: double_from_wkb_state_def state_check_iff read_mem_def Let_def
        wkb_parse_state_advance_def)
qed

lemma swap_read:
  assumes "input s = of_bool (has_bits v WKB_NDR) # rest"
  shows "wkb_swap_bytes_state be s = Inr ((), s\<lparr>pos := pos s + 1, swap_bytes := (be = has_bits v WKB_NDR)\<rparr>)"
  using byte_read [OF assms] by (simp add: wkb_swap_bytes_state_def)

definition doubles_wkb :: "byte \<Rightarrow> double list \<Rightarrow> byte list" where
  "doubles_wkb v ds = concat (map (\<lambda>d. wkb_order v (le_bytes 8 d)) ds)"

lemma doubles_wkb_simps [simp]:
  "doubles_wkb v [] = []" "doubles_wkb v (d # ds) = wkb_order v (le_bytes 8 d) @ doubles_wkb v ds"
  "doubles_wkb v (ds @ es) = doubles_wkb v ds @ doubles_wkb v es"
  by (simp_all add: doubles_wkb_def)

lemma length_doubles_wkb [simp]: "length (doubles_wkb v ds) = 8 * length ds"
  by (induction ds) auto

lemma doubles_read:
  "input s = doubles_wkb v ds @ rest \<Longrightarrow> order_ok be v s \<Longrightarrow> pos s \<le> length (wkb s) \<Longrightarrow>
   doubles_from_wkb_state be (length ds) s = Inr (ds, s\<lparr>pos := pos s + 8 * length ds\<rparr>)"
proof (induction ds arbitrary: s)
  case Nil
  then show ?case by simp
next
  case (Cons d ds)
  let ?s = "s\<lparr>pos := pos s + 8\<rparr>"
  have d: "input s = wkb_order v (le_bytes 8 d) @ doubles_wkb v ds @ rest" using Cons.prems(1) by simp
  have ne: "wkb_order v (le_bytes 8 d) \<noteq> []" by (simp add: wkb_order_def le_bytes_numeral)
  have "doubles_from_wkb_state be (length ds) ?s = Inr (ds, ?s\<lparr>pos := pos ?s + 8 * length ds\<rparr>)"
    by (rule Cons.IH) (use input_advance [OF d ne] Cons.prems in auto)
  with double_read [OF d Cons.prems(2)] show ?case by (simp add: algebra_simps)
qed

lemma mem_doubles_read:
  "\<not> (be = has_bits v WKB_NDR) \<Longrightarrow> mem_doubles be (length ds) (doubles_wkb v ds @ rest) = ds"
proof (induction ds arbitrary: rest)
  case Nil
  then show ?case by (simp add: mem_doubles_def)
next
  case (Cons d ds)
  have "mem_doubles be (Suc n) (xs @ ys) = mem_word be xs # mem_doubles be n ys"
    if "length xs = 8" for n xs ys
    using that by (simp add: mem_doubles_def upt_conv_Cons map_Suc_upt [symmetric] del: upt_Suc)
  moreover have "mem_word be (wkb_order v (le_bytes 8 d)) = d"
    using Cons.prems by (auto simp: mem_word_def wkb_order_def le_word_le_bytes_full)
  ultimately show ?case using Cons by simp
qed

section \<open>Point arrays\<close>

definition read_pa :: "bool \<Rightarrow> bool \<Rightarrow> nat \<Rightarrow> double list \<Rightarrow> pointarray" where
  "read_pa z m n ds = \<lparr>npoints = n, maxpoints = n, pflags = lwflags z m False, ptlist = ds\<rparr>"

lemma coords_read:
  assumes "input s = doubles_wkb v ds @ rest" "order_ok be v s" "pos s \<le> length (wkb s)"
    and "length ds = n * st_ndims s"
  shows "coords_from_wkb_state be n s =
    Inr (read_pa (has_z s) (has_m s) n ds, s\<lparr>pos := pos s + 8 * length ds\<rparr>)"
proof (cases "swap_bytes s")
  case True
  with doubles_read [OF assms(1-3)] assms(4) show ?thesis
    by (simp add: coords_from_wkb_state_def ptarray_construct_def ptarray_construct_empty_def read_pa_def)
next
  case False
  have "8 * length ds + length rest = length (wkb s) - pos s"
    using arg_cong [OF assms(1), of length] by (simp add: input_def)
  then have len: "pos s + 8 * length ds \<le> length (wkb s)" using assms(3) by linarith
  have "take (8 * length ds) (drop (pos s) (wkb s)) = doubles_wkb v ds"
    using assms(1) by (simp add: input_def)
  moreover have "mem_doubles be (length ds) (doubles_wkb v ds) = ds"
    using mem_doubles_read [of be v ds "[]"] False assms(2) by (simp add: order_ok_def)
  ultimately show ?thesis
    using False len assms(4)
    by (simp add: coords_from_wkb_state_def Let_def read_mem_def ptarray_construct_copy_data_def
        read_pa_def wkb_parse_state_advance_def st_ndims_def mult.commute [of _ 8] mult.assoc)
qed

text \<open>A point array in the extended format: the count and the coordinates.\<close>

definition ptarray_wkb :: "byte \<Rightarrow> pointarray \<Rightarrow> byte list" where
  "ptarray_wkb v pa = wkb_order v (le_bytes 4 (of_nat (npoints pa) :: u32)) @ doubles_wkb v (ptlist pa)"

lemma pa_coords_wf: "pa_wf pa \<Longrightarrow> pa_coords pa (FLAGS_NDIMS (pflags pa)) = ptlist pa"
  by (simp add: pa_coords_full pa_wf_def)

lemma ptarray_to_wkb_extended:
  assumes "pa_wf pa" "has_bits v WKB_EXTENDED"
  shows "ptarray_to_wkb_buf be pa (raw v) =
    (if has_bits v WKB_NO_NPOINTS then doubles_wkb v (ptlist pa) else ptarray_wkb v pa)"
  using assms by (simp add: ptarray_to_wkb_buf_emit wkb_dims_def pa_coords_wf ptarray_wkb_def doubles_wkb_def)

definition st_zm :: "wkb_parse_state \<Rightarrow> u16 \<Rightarrow> bool" where
  "st_zm s f \<longleftrightarrow> has_z s = hasz f \<and> has_m s = hasm f"

lemma st_zm_ndims: "st_zm s f \<Longrightarrow> st_ndims s = FLAGS_NDIMS f"
  by (simp add: st_zm_def st_ndims_def FLAGS_NDIMS_def)

lemma st_zm_pos [simp]: "st_zm (s\<lparr>pos := p\<rparr>) = st_zm s" "st_ndims (s\<lparr>pos := p\<rparr>) = st_ndims s"
  by (auto simp: st_zm_def st_ndims_def fun_eq_iff)

lemma ptarray_read:
  assumes "input s = ptarray_wkb v pa @ rest" "order_ok be v s" "pos s \<le> length (wkb s)"
    and "pa_wf pa" "npoints pa \<le> WKB_MAXPOINTS" "st_zm s (pflags pa)"
  shows "ptarray_from_wkb_state be s = Inr (pa_content pa, s\<lparr>pos := pos s + length (ptarray_wkb v pa)\<rparr>)"
proof -
  let ?n = "of_nat (npoints pa) :: u32" and ?s = "s\<lparr>pos := pos s + 4\<rparr>"
  have n: "unat ?n = npoints pa"
    using assms(4) by (simp add: pa_wf_def unat_of_nat)
  have i: "input s = wkb_order v (le_bytes 4 ?n) @ doubles_wkb v (ptlist pa) @ rest"
    using assms(1) by (simp add: ptarray_wkb_def)
  have ne: "wkb_order v (le_bytes 4 ?n) \<noteq> []" by (simp add: wkb_order_def le_bytes_numeral)
  from input_advance [OF i ne] have rest: "input ?s = doubles_wkb v (ptlist pa) @ rest"
    and le: "pos ?s \<le> length (wkb ?s)" by simp_all
  have len: "length (ptlist pa) = npoints pa * st_ndims ?s"
    using assms(4) st_zm_ndims [OF assms(6)] by (simp add: pa_wf_def)
  have content: "read_pa (has_z ?s) (has_m ?s) (npoints pa) (ptlist pa) = pa_content pa"
    using assms(6) by (simp add: read_pa_def pa_content_def st_zm_def zm_flags_def)
  have "8 * length (ptlist pa) + length rest = length (wkb s) - (pos s + 4)"
    using arg_cong [OF rest, of length] by (simp add: input_def)
  then have bound: "pos s + 4 + 8 * length (ptlist pa) \<le> length (wkb s)" using le by simp
  have "coords_from_wkb_state be (npoints pa) ?s =
      Inr (pa_content pa, ?s\<lparr>pos := pos ?s + 8 * length (ptlist pa)\<rparr>)"
    using coords_read [OF rest _ le len] assms(2) content by simp
  moreover have "ptarray_construct (has_z s) (has_m s) 0 [] = pa_content pa" if "npoints pa = 0"
  proof -
    have "ptarray_construct (has_z s) (has_m s) 0 [] = read_pa (has_z ?s) (has_m ?s) 0 []"
      by (simp add: ptarray_construct_def ptarray_construct_empty_def read_pa_def)
    moreover have "ptlist pa = []" using that assms(4) by (simp add: pa_wf_def)
    ultimately show ?thesis using content that by simp
  qed
  ultimately show ?thesis
    using integer_read [OF i assms(2)] n assms(5) bound len wkb_mul_fits [OF assms(5), of "st_ndims s"]
      wkb_mul_fits_8 [OF assms(5), of "st_ndims s"]
    by (auto simp: ptarray_from_wkb_state_def Let_def state_check_iff ptarray_wkb_def algebra_simps
        assms(4) pa_wf_def)
qed

section \<open>Headers\<close>

definition ext_type :: "u32 \<Rightarrow> bool \<Rightarrow> bool \<Rightarrow> bool \<Rightarrow> u32" where
  "ext_type n z m q =
     (let t = if z then n OR WKBZOFFSET else n; t = if m then t OR WKBMOFFSET else t
      in if q then t OR WKBSRIDFLAG else t)"

lemma wkb_type_number_small:
  assumes "wkb_type_number ty = Some n"
  shows "n AND 0x0FFFFFFF = n" "n AND 0xF0000000 = 0" "unat n < 1000" "wkb_type_lwtype (unat n) = Some ty"
  using assms by (auto simp: wkb_type_number_def wkb_type_lwtype_def split: if_splits)

lemma ext_type_bits:
  assumes "n AND 0xF0000000 = 0" "n AND 0x0FFFFFFF = n"
  shows "has_bits (ext_type n z m q) 0xF0000000 \<longleftrightarrow> z \<or> m \<or> q"
    "has_bits (ext_type n z m q) WKBZOFFSET = z" "has_bits (ext_type n z m q) WKBMOFFSET = m"
    "has_bits (ext_type n z m q) WKBSRIDFLAG = q" "ext_type n z m q AND 0x0FFFFFFF = n"
proof -
  have "n AND k = 0" if "k AND 0x0FFFFFFF = 0" for k
  proof -
    have "n AND k = n AND (0x0FFFFFFF AND k)" by (metis assms(2) and.assoc)
    with that show ?thesis by (simp add: and.commute)
  qed
  then have "\<not> has_bits n 0xF0000000" "\<not> has_bits n WKBZOFFSET" "\<not> has_bits n WKBMOFFSET"
    "\<not> has_bits n WKBSRIDFLAG"
    using assms(1) by (simp_all add: has_bits_def)
  then show "has_bits (ext_type n z m q) 0xF0000000 \<longleftrightarrow> z \<or> m \<or> q"
    "has_bits (ext_type n z m q) WKBZOFFSET = z" "has_bits (ext_type n z m q) WKBMOFFSET = m"
    "has_bits (ext_type n z m q) WKBSRIDFLAG = q"
    by (simp_all add: ext_type_def Let_def)
  show "ext_type n z m q AND 0x0FFFFFFF = n"
    using assms(2) by (simp add: ext_type_def Let_def bit.conj_disj_distrib2)
qed

lemma lwtype_read:
  assumes "wkb_type_number ty = Some n"
  shows "lwtype_from_wkb_state s (ext_type n z m q) =
    Inr (s\<lparr>has_z := z, has_m := m, has_srid := q, lwtype := ty\<rparr>)"
proof -
  note small = wkb_type_number_small [OF assms]
  note bits = ext_type_bits [OF small(2,1)]
  show ?thesis
    using small(3,4)
    by (cases "z \<or> m \<or> q") (auto simp: lwtype_from_wkb_state_def Let_def bits)
qed

lemma lwtype_read_nurbs:
  "lwtype_from_wkb_state s
      ((let t = if z \<and> \<not> m then 21 + 1000 else if m \<and> \<not> z then 21 + 2000
                else if z \<and> m then 21 + 3000 else 21
        in if q then t OR WKBSRIDFLAG else t)) =
    Inr (s\<lparr>has_z := z, has_m := m, has_srid := q, lwtype := NURBSCURVETYPE\<rparr>)"
  by (cases z; cases m; cases q)
    (simp_all add: lwtype_from_wkb_state_def wkb_type_lwtype_def Let_def)

text \<open>The SRID the reader attaches: the one written, else the one in force.\<close>

definition read_srid :: "lwgeom \<Rightarrow> byte \<Rightarrow> wkb_parse_state \<Rightarrow> int" where
  "read_srid g v s = (if lwgeom_wkb_needs_srid g v then lwgeom_get_srid g else st_srid s)"

definition srid_ok :: "lwgeom \<Rightarrow> bool" where
  "srid_ok g \<longleftrightarrow> 0 \<le> lwgeom_get_srid g \<and> lwgeom_get_srid g \<le> SRID_MAXIMUM"

text \<open>The state after the endian flag, the type number and the SRID of \<open>g\<close>.\<close>

definition after_head :: "bool \<Rightarrow> byte \<Rightarrow> lwgeom \<Rightarrow> wkb_parse_state \<Rightarrow> wkb_parse_state" where
  "after_head be v g s = s\<lparr>swap_bytes := (be = has_bits v WKB_NDR), has_z := hasz (lwgeom_flags g),
     has_m := hasm (lwgeom_flags g), has_srid := lwgeom_wkb_needs_srid g v, lwtype := lwgeom_get_type g,
     st_srid := read_srid g v s, pos := pos s + wkb_head_size g v\<rparr>"

lemma lwgeom_wkb_type_ext:
  assumes "wkb_type_number (lwgeom_get_type g) = Some n" "has_bits v WKB_EXTENDED"
  shows "\<exists>t. lwgeom_wkb_type g v = Inr t \<and> (\<forall>s. lwtype_from_wkb_state s t =
    Inr (s\<lparr>has_z := hasz (lwgeom_flags g), has_m := hasm (lwgeom_flags g),
      has_srid := lwgeom_wkb_needs_srid g v, lwtype := lwgeom_get_type g\<rparr>))"
proof (cases "lwgeom_get_type g = NURBSCURVETYPE")
  case True
  with assms(1) have "n = 21" by (simp add: wkb_type_number_total)
  with lwtype_read_nurbs [of _ "hasz (lwgeom_flags g)" "hasm (lwgeom_flags g)"
      "lwgeom_wkb_needs_srid g v"] True assms show ?thesis
    by (simp add: lwgeom_wkb_type_def Let_def)
next
  case False
  with lwtype_read [OF assms(1), of _ "hasz (lwgeom_flags g)" "hasm (lwgeom_flags g)"
      "lwgeom_wkb_needs_srid g v"] assms show ?thesis
    by (simp add: lwgeom_wkb_type_def Let_def ext_type_def)
qed

lemma sint_srid:
  assumes "srid_ok g"
  shows "clamp_srid (sint (word_of_int (lwgeom_get_srid g) :: u32)) = lwgeom_get_srid g"
proof -
  have "int32 (lwgeom_get_srid g) = lwgeom_get_srid g"
    using assms by (intro int32_id) (auto simp: srid_ok_def)
  with assms show ?thesis by (simp add: int32_def srid_ok_def clamp_srid_id)
qed

text \<open>The reader past the header: what the type dispatches to.\<close>

definition wkb_dispatch :: "nat \<Rightarrow> bool \<Rightarrow> geom_reader" where
  "wkb_dispatch fuel be s =
    (if lwtype s = POINTTYPE then lwpoint_from_wkb_state be s
     else if lwtype s = LINETYPE then lwline_from_wkb_state be s
     else if lwtype s = CIRCSTRINGTYPE then lwcircstring_from_wkb_state be s
     else if lwtype s = POLYGONTYPE then lwpoly_from_wkb_state be s
     else if lwtype s = TRIANGLETYPE then lwtriangle_from_wkb_state be s
     else if lwtype s = CURVEPOLYTYPE then
       lwcurvepoly_from_wkb_state be (lwgeom_from_wkb_state fuel be) s
     else if lwtype s \<in> set [MULTIPOINTTYPE, MULTILINETYPE, MULTIPOLYGONTYPE, COMPOUNDTYPE,
         MULTICURVETYPE, MULTISURFACETYPE, POLYHEDRALSURFACETYPE, TINTYPE, COLLECTIONTYPE] then
       lwcollection_from_wkb_state be (lwgeom_from_wkb_state fuel be) s
     else if lwtype s = NURBSCURVETYPE then lwnurbscurve_from_wkb_state be s
     else Inl (LwError ''%s: Unsupported geometry type: %s''))"

lemma head_read:
  assumes "wkb_head False g (raw v) = Inr head" "wkb_type_number (lwgeom_get_type g) = Some n"
    and "has_bits v WKB_EXTENDED" "lwgeom_wkb_needs_srid g v \<Longrightarrow> srid_ok g" "input s = head @ rest"
  shows "lwgeom_from_wkb_state (Suc fuel) be s = wkb_dispatch fuel be (after_head be v g s)"
    "input (after_head be v g s) = rest" "order_ok be v (after_head be v g s)"
    "pos (after_head be v g s) \<le> length (wkb (after_head be v g s))"
proof -
  obtain t where t: "lwgeom_wkb_type g v = Inr t" "\<And>s. lwtype_from_wkb_state s t =
    Inr (s\<lparr>has_z := hasz (lwgeom_flags g), has_m := hasm (lwgeom_flags g),
      has_srid := lwgeom_wkb_needs_srid g v, lwtype := lwgeom_get_type g\<rparr>)"
    using lwgeom_wkb_type_ext [OF assms(2,3)] by blast
  let ?q = "lwgeom_wkb_needs_srid g v"
  let ?srid = "word_of_int (lwgeom_get_srid g) :: u32"
  have head: "head = of_bool (has_bits v WKB_NDR) # wkb_order v (le_bytes 4 t) @
      (if ?q then wkb_order v (le_bytes 4 ?srid) else [])"
    using assms(1) t(1) by (auto simp: wkb_head_def emit_simps)
  have ne: "wkb_order v (le_bytes 4 i) \<noteq> []" for i :: u32 by (simp add: wkb_order_def le_bytes_numeral)
  let ?s1 = "s\<lparr>pos := pos s + 1, swap_bytes := (be = has_bits v WKB_NDR)\<rparr>"
  let ?tail = "(if ?q then wkb_order v (le_bytes 4 ?srid) else []) @ rest"
  have in0: "input s = of_bool (has_bits v WKB_NDR) # (wkb_order v (le_bytes 4 t) @ ?tail)"
    using assms(5) head by simp
  have "input (s\<lparr>pos := pos s + 1\<rparr>) = wkb_order v (le_bytes 4 t) @ ?tail"
    using input_advance(3) [of s "[of_bool (has_bits v WKB_NDR)]"] in0 by simp
  then have in1: "input ?s1 = wkb_order v (le_bytes 4 t) @ ?tail" by (simp add: input_def)
  have o1: "order_ok be v ?s1" by (simp add: order_ok_def)
  let ?s2 = "?s1\<lparr>pos := pos s + 5\<rparr>"
  have in2: "input ?s2 = ?tail" and le2: "pos ?s2 \<le> length (wkb ?s2)"
    using input_advance [OF in1 ne] by (simp_all add: add.commute)
  have i1: "integer_from_wkb_state be ?s1 = Inr (t, ?s2)"
    using integer_read [OF in1 o1] by simp
  let ?s3 = "?s2\<lparr>has_z := hasz (lwgeom_flags g), has_m := hasm (lwgeom_flags g),
      has_srid := ?q, lwtype := lwgeom_get_type g\<rparr>"
  have in3: "input ?s3 = ?tail" and o3: "order_ok be v ?s3" and le3: "pos ?s3 \<le> length (wkb ?s3)"
    using in2 le2 by (simp_all add: input_def order_ok_def)
  have srid: "(if has_srid ?s3
      then bindS (integer_from_wkb_state be ?s3) (\<lambda>i s. Inr (s\<lparr>st_srid := clamp_srid (sint i)\<rparr>))
      else Inr ?s3) = Inr (after_head be v g s)"
  proof (cases ?q)
    case True
    then have "input ?s3 = wkb_order v (le_bytes 4 ?srid) @ rest" using in3 by simp
    from integer_read [OF this o3] True sint_srid [OF assms(4) [OF True]] show ?thesis
      by (simp add: after_head_def read_srid_def wkb_head_size_def)
  next
    case False
    then show ?thesis by (simp add: after_head_def read_srid_def wkb_head_size_def)
  qed
  show "lwgeom_from_wkb_state (Suc fuel) be s = wkb_dispatch fuel be (after_head be v g s)"
    unfolding lwgeom_from_wkb_state.simps swap_read [OF in0] bindS_simps i1 t(2) bindE_Inr srid
    by (simp only: wkb_dispatch_def)
  have "length head = wkb_head_size g v" using length_head_raw [OF assms(1)] .
  moreover have "head \<noteq> []" by (simp add: head)
  ultimately show "input (after_head be v g s) = rest"
    "pos (after_head be v g s) \<le> length (wkb (after_head be v g s))"
    using input_advance [OF assms(5)] by (simp_all add: after_head_def input_def)
  show "order_ok be v (after_head be v g s)" by (simp add: after_head_def order_ok_def)
qed

section \<open>Geometries the format expresses\<close>

text \<open>
  What the reader would refuse or alter is excluded: a point whose x and y are both NaN (it
  is read as empty), an empty ring in a polygon (the reader drops it), arrays above the
  reader's limit, what the requested checks reject, a NURBS curve without knots (they are
  generated on output), with weights that are all 1 (they are dropped), or empty with a
  degree, weights or knots that \<open>lwnurbscurve_construct_empty\<close> does not give it.
\<close>

fun wkb_ok :: "byte \<Rightarrow> lwgeom \<Rightarrow> bool" where
  "wkb_ok c (LWPOINT h pa) \<longleftrightarrow>
     npoints pa = 0 \<or> \<not> (dbl_isnan (ptlist pa ! 0) \<and> dbl_isnan (ptlist pa ! 1))"
| "wkb_ok c (LWLINE h pa) \<longleftrightarrow> npoints pa \<le> WKB_MAXPOINTS \<and>
     (npoints pa = 0 \<or> \<not> (has_bits c LW_PARSER_CHECK_MINPOINTS \<and> npoints pa < 2))"
| "wkb_ok c (LWCIRCSTRING h pa) \<longleftrightarrow> npoints pa \<le> WKB_MAXPOINTS \<and>
     (npoints pa = 0 \<or> \<not> (has_bits c LW_PARSER_CHECK_MINPOINTS \<and> npoints pa < 3) \<and>
       \<not> (has_bits c LW_PARSER_CHECK_ODD \<and> npoints pa mod 2 = 0))"
| "wkb_ok c (LWTRIANGLE h pa) \<longleftrightarrow> npoints pa \<le> WKB_MAXPOINTS \<and>
     (npoints pa = 0 \<or> \<not> (has_bits c LW_PARSER_CHECK_MINPOINTS \<and> npoints pa < 4) \<and>
       \<not> (has_bits c LW_PARSER_CHECK_ZCLOSURE \<and> \<not> ptarray_is_closed_z pa))"
| "wkb_ok c (LWPOLY h mr rs) \<longleftrightarrow> length rs + 1 < 2 ^ 31 \<and>
     list_all (\<lambda>pa. 0 < npoints pa \<and> npoints pa \<le> WKB_MAXPOINTS \<and>
       \<not> (has_bits c LW_PARSER_CHECK_MINPOINTS \<and> npoints pa < 4) \<and>
       \<not> (has_bits c LW_PARSER_CHECK_CLOSURE \<and> \<not> ptarray_is_closed_2d pa)) rs"
| "wkb_ok c (LWNURBSCURVE h d p w k) \<longleftrightarrow>
     (case p of
        None \<Rightarrow> False
      | Some pa \<Rightarrow>
          npoints pa \<le> WKB_MAXPOINTS \<and>
          (if npoints pa = 0 then d = 1 \<and> w = None \<and> k = None
           else k \<noteq> None \<and> (case w of None \<Rightarrow> True | Some ws \<Rightarrow> \<not> list_all (\<lambda>x. x = dbl_one) ws)))"
| "wkb_ok c (LWCOLLECTION t h mg al gs) \<longleftrightarrow> length gs < 2 ^ 31 \<and>
     list_all (wkb_ok (if t = POLYHEDRALSURFACETYPE then c OR LW_PARSER_CHECK_ZCLOSURE else c)) gs"

section \<open>Geometries without members\<close>

lemma pa_content_simps [simp]:
  "npoints (pa_content pa) = npoints pa" "ptlist (pa_content pa) = ptlist pa"
  "pa_content (pa_content pa) = pa_content pa"
  "hasz (pflags (pa_content pa)) = hasz (pflags pa)" "hasm (pflags (pa_content pa)) = hasm (pflags pa)"
  "FLAGS_NDIMS (pflags (pa_content pa)) = FLAGS_NDIMS (pflags pa)"
  by (simp_all add: pa_content_def zm_flags_def FLAGS_NDIMS_def)

lemma pa_point_content [simp]: "pa_point (pa_content pa) = pa_point pa"
  by (simp add: pa_point_def fun_eq_iff)

lemma closed_content [simp]:
  "ptarray_is_closed_2d (pa_content pa) = ptarray_is_closed_2d pa"
  "ptarray_is_closed_z (pa_content pa) = ptarray_is_closed_z pa"
  by (simp_all add: ptarray_is_closed_z_def ptarray_is_closed_2d_def ptarray_is_closed_3d_def
      ptarray_closed_in_def)

text \<open>An empty array read back, whatever its capacity.\<close>

lemma empty_content:
  "pa_wf pa \<Longrightarrow> npoints pa = 0 \<Longrightarrow> z = hasz (pflags pa) \<Longrightarrow> m = hasm (pflags pa) \<Longrightarrow>
   pa_content (ptarray_construct_empty z m k) = pa_content pa"
  by (simp add: pa_content_def ptarray_construct_empty_def pa_wf_def zm_flags_def)

lemma empty_content':
  "pa_wf pa \<Longrightarrow> npoints pa = 0 \<Longrightarrow> z = hasz (pflags pa) \<Longrightarrow> m = hasm (pflags pa) \<Longrightarrow>
   pa_content (ptarray_construct z m 0 []) = pa_content pa"
  by (simp add: pa_content_def ptarray_construct_empty_def ptarray_construct_def pa_wf_def zm_flags_def)

definition same_after :: "wkb_parse_state \<Rightarrow> nat \<Rightarrow> int \<Rightarrow> wkb_parse_state \<Rightarrow> bool" where
  "same_after s n i s' \<longleftrightarrow> wkb s' = wkb s \<and> check s' = check s \<and> depth s' = depth s \<and>
    st_srid s' = i \<and> pos s' = pos s + n"

lemma lwpoint_read:
  assumes "lwgeom_wf (LWPOINT h pa)" "wkb_ok c (LWPOINT h pa)" "order_ok be v s"
    "pos s \<le> length (wkb s)" "st_zm s (flags h)"
    and "input s = doubles_wkb v (if npoints pa = 0 then replicate (FLAGS_NDIMS (pflags pa)) dbl_nan
      else ptlist pa) @ rest"
  shows "\<exists>g s'. lwpoint_from_wkb_state be s = Inr (g, s') \<and>
    lwgeom_content g = lwgeom_content (lwgeom_set_srid (st_srid s) (LWPOINT h pa)) \<and>
    same_after s (8 * FLAGS_NDIMS (pflags pa)) (st_srid s) s'"
proof -
  let ?ds = "if npoints pa = 0 then replicate (FLAGS_NDIMS (pflags pa)) dbl_nan else ptlist pa"
  have zm: "st_zm s (pflags pa)" using assms(1,5) by (simp add: st_zm_def same_zm_def)
  then have nd: "st_ndims s = FLAGS_NDIMS (pflags pa)" by (rule st_zm_ndims)
  have len: "length ?ds = 1 * st_ndims s" using assms(1) nd by (auto simp: pa_wf_def le_Suc_eq)
  from coords_read [OF assms(6,3,4) len]
  have r: "coords_from_wkb_state be 1 s =
    Inr (read_pa (has_z s) (has_m s) 1 ?ds, s\<lparr>pos := pos s + 8 * length ?ds\<rparr>)" .
  have "8 * length ?ds + length rest = length (wkb s) - pos s"
    using arg_cong [OF assms(6), of length] by (simp add: input_def)
  with assms(4) len have fits: "pos s + st_ndims s * 8 \<le> length (wkb s)" by simp
  show ?thesis
  proof (cases "npoints pa = 0")
    case True
    have "Suc 0 < FLAGS_NDIMS (pflags pa)" using FLAGS_NDIMS_bounds(1) [of "pflags pa"] by linarith
    then have "dbl_isnan (?ds ! 0)" "dbl_isnan (?ds ! 1)" using True by simp_all
    with True r fits len zm assms(1,5) show ?thesis
      by (auto simp: lwpoint_from_wkb_state_def state_check_iff same_after_def nd read_pa_def
          lwpoint_construct_empty_def head_content_def empty_head_def zm_flags_eq st_zm_def same_zm_def
          intro!: empty_content')
        (auto simp: zm_flags_def)
  next
    case False
    then have "npoints pa = 1" using assms(1) by simp
    with False r fits len zm assms(1,2,5) show ?thesis
      by (auto simp: lwpoint_from_wkb_state_def state_check_iff same_after_def nd read_pa_def
          lwpoint_construct_def bbox_head_def head_content_def Let_def st_zm_def same_zm_def
          pa_content_def zm_flags_def)
  qed
qed

lemma st_zm_wf: "st_zm s f \<Longrightarrow> same_zm f g \<Longrightarrow> st_zm s g"
  by (simp add: st_zm_def same_zm_def)

text \<open>Headers with the same dimensions have the same content.\<close>

lemma head_content_eq:
  "head_content \<lparr>bbox = b, srid = i, flags = f\<rparr> = head_content (h\<lparr>srid := i\<rparr>) \<longleftrightarrow> same_zm f (flags h)"
  by (simp add: head_content_def zm_flags_eq)

lemma same_zm_content [simp]: "same_zm (pflags (pa_content pa)) g = same_zm (pflags pa) g"
  by (simp add: same_zm_def)

lemma same_zm_sym: "same_zm f g \<longleftrightarrow> same_zm g f"
  by (auto simp: same_zm_def)

lemma lwline_read:
  assumes "lwgeom_wf (LWLINE h pa)" "wkb_ok (check s) (LWLINE h pa)" "order_ok be v s"
    "pos s \<le> length (wkb s)" "st_zm s (flags h)" "input s = ptarray_wkb v pa @ rest"
  shows "\<exists>g s'. lwline_from_wkb_state be s = Inr (g, s') \<and>
    lwgeom_content g = lwgeom_content (lwgeom_set_srid (st_srid s) (LWLINE h pa)) \<and>
    same_after s (length (ptarray_wkb v pa)) (st_srid s) s'"
proof -
  have pa: "pa_wf pa" "npoints pa \<le> WKB_MAXPOINTS" using assms(1,2) by auto
  have zm: "st_zm s (pflags pa)" using st_zm_wf [OF assms(5)] assms(1) by simp
  note r = ptarray_read [OF assms(6,3,4) pa zm]
  show ?thesis
  proof (cases "npoints pa = 0")
    case True
    with r zm assms(1,5) pa show ?thesis
      by (auto simp: lwline_from_wkb_state_def same_after_def lwline_construct_empty_def empty_head_def
          head_content_eq st_zm_def same_zm_def intro!: empty_content)
  next
    case False
    with r assms(1,2) show ?thesis
      by (auto simp: lwline_from_wkb_state_def same_after_def lwline_construct_def bbox_head_def
          head_content_eq require_def same_zm_def)
  qed
qed

lemma lwcircstring_read:
  assumes "lwgeom_wf (LWCIRCSTRING h pa)" "wkb_ok (check s) (LWCIRCSTRING h pa)" "order_ok be v s"
    "pos s \<le> length (wkb s)" "st_zm s (flags h)" "input s = ptarray_wkb v pa @ rest"
  shows "\<exists>g s'. lwcircstring_from_wkb_state be s = Inr (g, s') \<and>
    lwgeom_content g = lwgeom_content (lwgeom_set_srid (st_srid s) (LWCIRCSTRING h pa)) \<and>
    same_after s (length (ptarray_wkb v pa)) (st_srid s) s'"
proof -
  have pa: "pa_wf pa" "npoints pa \<le> WKB_MAXPOINTS" using assms(1,2) by auto
  have zm: "st_zm s (pflags pa)" using st_zm_wf [OF assms(5)] assms(1) by simp
  note r = ptarray_read [OF assms(6,3,4) pa zm]
  show ?thesis
  proof (cases "npoints pa = 0")
    case True
    with r zm assms(1,5) pa show ?thesis
      by (auto simp: lwcircstring_from_wkb_state_def same_after_def lwcircstring_construct_empty_def
          empty_head_def head_content_eq st_zm_def same_zm_def intro!: empty_content)
  next
    case False
    with r assms(1,2) show ?thesis
      by (auto simp: lwcircstring_from_wkb_state_def same_after_def lwcircstring_construct_def
          bbox_head_def head_content_eq require_def same_zm_def)
  qed
qed

lemma le4_ne: "wkb_order v (le_bytes 4 (i :: u32)) \<noteq> []"
  by (simp add: wkb_order_def le_bytes_numeral)

lemma lwtriangle_read:
  assumes "lwgeom_wf (LWTRIANGLE h pa)" "wkb_ok (check s) (LWTRIANGLE h pa)" "order_ok be v s"
    "pos s \<le> length (wkb s)" "st_zm s (flags h)"
    and "input s = (if npoints pa = 0 then wkb_order v (le_bytes 4 (0 :: u32))
      else wkb_order v (le_bytes 4 (1 :: u32)) @ ptarray_wkb v pa) @ rest"
  shows "\<exists>g s'. lwtriangle_from_wkb_state be s = Inr (g, s') \<and>
    lwgeom_content g = lwgeom_content (lwgeom_set_srid (st_srid s) (LWTRIANGLE h pa)) \<and>
    same_after s (if npoints pa = 0 then 4 else 4 + length (ptarray_wkb v pa)) (st_srid s) s'"
proof -
  have pa: "pa_wf pa" "npoints pa \<le> WKB_MAXPOINTS" using assms(1,2) by auto
  have zm: "st_zm s (pflags pa)" using st_zm_wf [OF assms(5)] assms(1) by simp
  show ?thesis
  proof (cases "npoints pa = 0")
    case True
    with integer_read [of s v 0 rest be] assms zm pa show ?thesis
      by (auto simp: lwtriangle_from_wkb_state_def same_after_def lwtriangle_construct_empty_def
          empty_head_def head_content_eq st_zm_def same_zm_def intro!: empty_content)
  next
    case False
    then have i: "input s = wkb_order v (le_bytes 4 (1 :: u32)) @ ptarray_wkb v pa @ rest"
      using assms(6) by simp
    let ?s = "s\<lparr>pos := pos s + 4\<rparr>"
    have "input ?s = ptarray_wkb v pa @ rest" "pos ?s \<le> length (wkb ?s)"
      using input_advance [OF i le4_ne] by simp_all
    from ptarray_read [OF this(1) _ this(2) pa] assms(3) zm
    have "ptarray_from_wkb_state be ?s = Inr (pa_content pa, ?s\<lparr>pos := pos ?s + length (ptarray_wkb v pa)\<rparr>)"
      by simp
    with integer_read [OF i assms(3)] False assms(1,2) show ?thesis
      by (auto simp: lwtriangle_from_wkb_state_def same_after_def lwtriangle_construct_def
          bbox_head_def head_content_eq require_def same_zm_def)
  qed
qed

lemma rings_read:
  assumes "input s = concat (map (ptarray_wkb v) rs) @ rest" "order_ok be v s" "pos s \<le> length (wkb s)"
    and "list_all (\<lambda>pa. pa_wf pa \<and> st_zm s (pflags pa)) rs"
    and "list_all (\<lambda>pa. 0 < npoints pa \<and> npoints pa \<le> WKB_MAXPOINTS \<and>
       \<not> (has_bits (check s) LW_PARSER_CHECK_MINPOINTS \<and> npoints pa < 4) \<and>
       \<not> (has_bits (check s) LW_PARSER_CHECK_CLOSURE \<and> \<not> ptarray_is_closed_2d pa)) rs"
    and "length qs + length rs < 2 ^ 31"
  shows "\<exists>mr'. rings_from_wkb_state be (length rs) (LWPOLY h mr qs) s =
    Inr (LWPOLY h mr' (qs @ map pa_content rs),
         s\<lparr>pos := pos s + length (concat (map (ptarray_wkb v) rs))\<rparr>)"
  using assms
proof (induction rs arbitrary: s mr qs)
  case Nil
  then show ?case by simp
next
  case (Cons pa rs)
  let ?s = "s\<lparr>pos := pos s + length (ptarray_wkb v pa)\<rparr>"
  have i: "input s = ptarray_wkb v pa @ concat (map (ptarray_wkb v) rs) @ rest"
    using Cons.prems(1) by simp
  have ne: "ptarray_wkb v pa \<noteq> []" using le4_ne by (simp add: ptarray_wkb_def)
  have pa: "pa_wf pa" "npoints pa \<le> WKB_MAXPOINTS" "st_zm s (pflags pa)" using Cons.prems(4,5) by auto
  note r = ptarray_read [OF i Cons.prems(2,3) pa]
  obtain mr1 where add: "lwpoly_add_ring (LWPOLY h mr qs) (pa_content pa) =
      Inr (LWPOLY h mr1 (qs @ [pa_content pa]))"
    using lwpoly_add_ring_ok [of qs h mr "pa_content pa"] Cons.prems(6) by auto
  have "\<exists>mr'. rings_from_wkb_state be (length rs) (LWPOLY h mr1 (qs @ [pa_content pa])) ?s =
    Inr (LWPOLY h mr' ((qs @ [pa_content pa]) @ map pa_content rs),
         ?s\<lparr>pos := pos ?s + length (concat (map (ptarray_wkb v) rs))\<rparr>)"
    by (rule Cons.IH) (use input_advance [OF i ne] Cons.prems in auto)
  then obtain mr' where "rings_from_wkb_state be (length rs) (LWPOLY h mr1 (qs @ [pa_content pa])) ?s =
    Inr (LWPOLY h mr' ((qs @ [pa_content pa]) @ map pa_content rs),
         ?s\<lparr>pos := pos ?s + length (concat (map (ptarray_wkb v) rs))\<rparr>)" ..
  with r add Cons.prems(5) show ?case
    by (auto simp: require_def algebra_simps)
qed

lemma lwpoly_read:
  assumes "lwgeom_wf (LWPOLY h mr rs)" "wkb_ok (check s) (LWPOLY h mr rs)" "order_ok be v s"
    "pos s \<le> length (wkb s)" "st_zm s (flags h)"
    and "input s = wkb_order v (le_bytes 4 (of_nat (length rs) :: u32)) @
      concat (map (ptarray_wkb v) rs) @ rest"
  shows "\<exists>g s'. lwpoly_from_wkb_state be s = Inr (g, s') \<and>
    lwgeom_content g = lwgeom_content (lwgeom_set_srid (st_srid s) (LWPOLY h mr rs)) \<and>
    same_after s (4 + length (concat (map (ptarray_wkb v) rs))) (st_srid s) s'"
proof -
  let ?s = "s\<lparr>pos := pos s + 4\<rparr>"
  have n: "unat (of_nat (length rs) :: u32) = length rs"
    using assms(2) by (simp add: unat_of_nat)
  have i: "input ?s = concat (map (ptarray_wkb v) rs) @ rest" "pos ?s \<le> length (wkb ?s)"
    using input_advance [OF assms(6) le4_ne] by simp_all
  have "\<exists>mr'. rings_from_wkb_state be (length rs) (LWPOLY (empty_head (st_srid s) (has_z s) (has_m s)) 1 []) ?s =
    Inr (LWPOLY (empty_head (st_srid s) (has_z s) (has_m s)) mr' ([] @ map pa_content rs),
         ?s\<lparr>pos := pos ?s + length (concat (map (ptarray_wkb v) rs))\<rparr>)"
    by (rule rings_read [OF i(1) _ i(2)])
      (use assms st_zm_wf [OF assms(5)] in \<open>auto simp: list_all_iff\<close>)
  then obtain mr' where "rings_from_wkb_state be (length rs)
      (LWPOLY (empty_head (st_srid s) (has_z s) (has_m s)) 1 []) ?s =
    Inr (LWPOLY (empty_head (st_srid s) (has_z s) (has_m s)) mr' (map pa_content rs),
         ?s\<lparr>pos := pos ?s + length (concat (map (ptarray_wkb v) rs))\<rparr>)" by auto
  with integer_read [OF assms(6,3)] n assms(5) show ?thesis
    by (auto simp: lwpoly_from_wkb_state_def same_after_def lwpoly_construct_empty_def Let_def
        empty_head_def head_content_eq st_zm_def same_zm_def)
qed

section \<open>NURBS curves\<close>

text \<open>Control points as the format has them: coordinates and the weight that is written.\<close>

definition npoint_wkb :: "byte \<Rightarrow> double list \<times> double option \<Rightarrow> byte list" where
  "npoint_wkb v q = of_bool (has_bits v WKB_NDR) # doubles_wkb v (fst q) @
     (case snd q of None \<Rightarrow> [0] | Some w \<Rightarrow> 1 # wkb_order v (le_bytes 8 w))"

definition weight_or_one :: "double option \<Rightarrow> double" where
  "weight_or_one w = (case w of None \<Rightarrow> dbl_one | Some x \<Rightarrow> x)"

lemma length_npoint_wkb:
  "length (npoint_wkb v q) = 2 + 8 * length (fst q) + (case snd q of None \<Rightarrow> 0 | Some _ \<Rightarrow> 8)"
  by (simp add: npoint_wkb_def split: option.split)

lemma order_ok_idem: "order_ok be v s \<Longrightarrow> s\<lparr>swap_bytes := (be = has_bits v WKB_NDR)\<rparr> = s"
  by (simp add: order_ok_def)

lemma npoint_read:
  assumes "input s = npoint_wkb v q @ rest" "order_ok be v s" "pos s \<le> length (wkb s)"
    and "length (fst q) = st_ndims s"
  shows "bindS (wkb_swap_bytes_state be s) (\<lambda>_ s. bindS (doubles_from_wkb_state be (st_ndims s) s)
      (\<lambda>pt s. bindS (byte_from_wkb_state s) (\<lambda>b s. f pt b s))) =
    (let s' = s\<lparr>pos := pos s + 2 + 8 * length (fst q)\<rparr> in
     case snd q of None \<Rightarrow> f (fst q) 0 s' | Some w \<Rightarrow> f (fst q) 1 s')"
    "input (s\<lparr>pos := pos s + 2 + 8 * length (fst q)\<rparr>) =
      (case snd q of None \<Rightarrow> rest | Some w \<Rightarrow> wkb_order v (le_bytes 8 w) @ rest)"
proof -
  let ?w = "case snd q of None \<Rightarrow> rest | Some w \<Rightarrow> wkb_order v (le_bytes 8 w) @ rest"
  let ?b = "case snd q of None \<Rightarrow> 0 | Some w \<Rightarrow> (1 :: byte)"
  have i0: "input s = of_bool (has_bits v WKB_NDR) # doubles_wkb v (fst q) @ ?b # ?w"
    using assms(1) by (simp add: npoint_wkb_def split: option.splits)
  have i0': "input s = [of_bool (has_bits v WKB_NDR)] @ doubles_wkb v (fst q) @ ?b # ?w"
    using i0 by simp
  let ?s1 = "s\<lparr>pos := pos s + 1\<rparr>"
  have s1: "s\<lparr>pos := pos s + 1, swap_bytes := (be = has_bits v WKB_NDR)\<rparr> = ?s1"
    using order_ok_idem [of be v ?s1] assms(2) by simp
  have i1: "input ?s1 = doubles_wkb v (fst q) @ ?b # ?w" "pos ?s1 \<le> length (wkb ?s1)"
    using input_advance [OF i0'] by simp_all
  have r1: "doubles_from_wkb_state be (st_ndims ?s1) ?s1 =
      Inr (fst q, ?s1\<lparr>pos := pos ?s1 + 8 * length (fst q)\<rparr>)"
    using doubles_read [OF i1(1) _ i1(2)] assms(2,4) by simp
  let ?s2 = "s\<lparr>pos := pos s + 1 + 8 * length (fst q)\<rparr>"
  have i2: "input ?s2 = [?b] @ ?w"
  proof (cases "fst q = []")
    case True
    with i1 show ?thesis by simp
  next
    case False
    then have "doubles_wkb v (fst q) \<noteq> []" by (metis length_0_conv length_doubles_wkb mult_eq_0_iff zero_neq_numeral)
    from input_advance(3) [OF i1(1) this] show ?thesis by simp
  qed
  have r2: "byte_from_wkb_state ?s2 = Inr (?b, ?s2\<lparr>pos := pos ?s2 + 1\<rparr>)"
    using byte_read i2 by simp
  show "bindS (wkb_swap_bytes_state be s) (\<lambda>_ s. bindS (doubles_from_wkb_state be (st_ndims s) s)
      (\<lambda>pt s. bindS (byte_from_wkb_state s) (\<lambda>b s. f pt b s))) =
    (let s' = s\<lparr>pos := pos s + 2 + 8 * length (fst q)\<rparr> in
     case snd q of None \<Rightarrow> f (fst q) 0 s' | Some w \<Rightarrow> f (fst q) 1 s')"
    using swap_read [OF i0, of be] s1 r1 r2 by (simp add: Let_def split: option.split)
  show "input (s\<lparr>pos := pos s + 2 + 8 * length (fst q)\<rparr>) = ?w"
    using input_advance(3) [OF i2] by simp
qed

lemma npoints_read:
  assumes "input s = concat (map (npoint_wkb v) qs) @ rest" "order_ok be v s" "pos s \<le> length (wkb s)"
    and "\<forall>q \<in> set qs. length (fst q) = st_ndims s"
    and "\<forall>q \<in> set qs. \<forall>w. snd q = Some w \<longrightarrow> \<not> dbl_le w dbl_zero"
  shows "nurbs_points_from_wkb_state be (length qs) s =
    Inr ((concat (map fst qs), map (\<lambda>q. weight_or_one (snd q)) qs,
          list_all (\<lambda>q. weight_or_one (snd q) = dbl_one) qs),
         s\<lparr>pos := pos s + length (concat (map (npoint_wkb v) qs))\<rparr>)"
  using assms
proof (induction qs arbitrary: s)
  case Nil
  then show ?case by simp
next
  case (Cons q qs)
  have i: "input s = npoint_wkb v q @ concat (map (npoint_wkb v) qs) @ rest" using Cons.prems(1) by simp
  have ne: "npoint_wkb v q \<noteq> []" by (simp add: npoint_wkb_def)
  let ?s = "s\<lparr>pos := pos s + length (npoint_wkb v q)\<rparr>"
  have IH: "nurbs_points_from_wkb_state be (length qs) ?s =
    Inr ((concat (map fst qs), map (\<lambda>q. weight_or_one (snd q)) qs,
          list_all (\<lambda>q. weight_or_one (snd q) = dbl_one) qs),
         ?s\<lparr>pos := pos ?s + length (concat (map (npoint_wkb v) qs))\<rparr>)"
    by (rule Cons.IH) (use input_advance [OF i ne] Cons.prems in auto)
  have len: "length (fst q) = st_ndims s" using Cons.prems(4) by simp
  note r = npoint_read [OF i Cons.prems(2,3) len]
  show ?case
  proof (cases "snd q")
    case None
    with IH show ?thesis
      by (simp add: r(1) Let_def weight_or_one_def length_npoint_wkb algebra_simps)
  next
    case (Some w)
    let ?s' = "s\<lparr>pos := pos s + 2 + 8 * length (fst q)\<rparr>"
    have i': "input ?s' = wkb_order v (le_bytes 8 w) @ concat (map (npoint_wkb v) qs) @ rest"
      using r(2) Some by simp
    have "double_from_wkb_state be ?s' = Inr (w, ?s'\<lparr>pos := pos ?s' + 8\<rparr>)"
      using double_read [OF i'] Cons.prems(2) by simp
    moreover have "\<not> dbl_le w dbl_zero" using Cons.prems(5) Some by simp
    ultimately show ?thesis using IH Some
      by (simp add: r(1) Let_def weight_or_one_def length_npoint_wkb algebra_simps)
  qed
qed

definition nurbs_qs :: "pointarray \<Rightarrow> double list option \<Rightarrow> (double list \<times> double option) list" where
  "nurbs_qs pa w = map (\<lambda>i. (pa_point pa i (FLAGS_NDIMS (pflags pa)), nurbs_weight w i)) [0..<npoints pa]"

definition nurbs_body :: "byte \<Rightarrow> nat \<Rightarrow> pointarray \<Rightarrow> double list option \<Rightarrow> double list \<Rightarrow> byte list" where
  "nurbs_body v d pa w ks =
     wkb_order v (le_bytes 4 (of_nat d :: u32)) @ wkb_order v (le_bytes 4 (of_nat (npoints pa) :: u32)) @
     concat (map (npoint_wkb v) (nurbs_qs pa w)) @
     wkb_order v (le_bytes 4 (of_nat (length ks) :: u32)) @ doubles_wkb v ks"

lemma nurbs_qs_facts:
  assumes "pa_wf pa" "case w of None \<Rightarrow> True | Some ws \<Rightarrow> length ws = npoints pa"
  shows "length (nurbs_qs pa w) = npoints pa" "concat (map fst (nurbs_qs pa w)) = ptlist pa"
    "\<forall>q \<in> set (nurbs_qs pa w). length (fst q) = FLAGS_NDIMS (pflags pa)"
    "map (\<lambda>q. weight_or_one (snd q)) (nurbs_qs pa w) =
      (case w of None \<Rightarrow> replicate (npoints pa) dbl_one | Some ws \<Rightarrow> ws)"
proof -
  show "length (nurbs_qs pa w) = npoints pa" by (simp add: nurbs_qs_def)
  show "concat (map fst (nurbs_qs pa w)) = ptlist pa"
    using pa_coords_wf [OF assms(1)] by (simp add: nurbs_qs_def pa_coords_def comp_def)
  show "\<forall>q \<in> set (nurbs_qs pa w). length (fst q) = FLAGS_NDIMS (pflags pa)"
    using length_pa_point [OF assms(1)] by (auto simp: nurbs_qs_def)
  have "weight_or_one (nurbs_weight (Some ws) i) = ws ! i" if "i < length ws" for ws i
    using that by (simp add: weight_or_one_def nurbs_weight_def)
  moreover have "weight_or_one (nurbs_weight None i) = dbl_one" for i
    by (simp add: weight_or_one_def nurbs_weight_def)
  ultimately show "map (\<lambda>q. weight_or_one (snd q)) (nurbs_qs pa w) =
      (case w of None \<Rightarrow> replicate (npoints pa) dbl_one | Some ws \<Rightarrow> ws)"
    using assms(2) by (auto simp: nurbs_qs_def intro!: nth_equalityI split: option.splits)
qed

lemma length_npoints_ge:
  "\<forall>q \<in> set qs. length (fst q) = k \<Longrightarrow> length qs * (2 + 8 * k) \<le> length (concat (map (npoint_wkb v) qs))"
  by (induction qs) (auto simp: length_npoint_wkb split: option.split)

lemma knots_ok_sorted: "knots_ok ks \<Longrightarrow> knots_sorted ks"
  by (induction ks rule: knots_ok.induct) auto

lemma nurbs_sizes_fit_some:
  assumes "n \<le> WKB_MAXPOINTS" "k \<le> 4"
  shows "nurbs_sizes_fit n k = Some (n * k * 8 + n * 8 + n * 2)"
proof -
  define m where "m = n * k"
  have "m \<le> WKB_MAXPOINTS * 4" unfolding m_def using assms by (rule mult_le_mono)
  then show ?thesis
    using assms wkb_mul_fits [of n k] wkb_mul_fits_8 [OF assms] wkb_mul_fits [of n 8] wkb_mul_fits [of n 2]
    unfolding m_def [symmetric] nurbs_sizes_fit_def wkb_checked_add_size_def by (simp, linarith)
qed

lemma nurbs_control_read:
  assumes "input s = concat (map (npoint_wkb v) (nurbs_qs pa w)) @ rest" "order_ok be v s"
    "pos s \<le> length (wkb s)" "pa_wf pa" "st_zm s (pflags pa)"
    "case w of None \<Rightarrow> True | Some ws \<Rightarrow> length ws = npoints pa \<and> list_all fin_pos ws"
  shows "\<exists>ws one. nurbs_control_from_wkb_state be (npoints pa) s =
      Inr ((ptlist pa, ws, one), s\<lparr>pos := pos s + length (concat (map (npoint_wkb v) (nurbs_qs pa w)))\<rparr>) \<and>
    one = (case w of None \<Rightarrow> True | Some xs \<Rightarrow> list_all (\<lambda>x. x = dbl_one) xs) \<and>
    (w \<noteq> None \<longrightarrow> w = Some ws)"
proof -
  let ?qs = "nurbs_qs pa w"
  have w: "case w of None \<Rightarrow> True | Some ws \<Rightarrow> length ws = npoints pa"
    using assms(6) by (auto split: option.splits)
  note qs = nurbs_qs_facts [OF assms(4) w]
  have pos: "\<forall>q \<in> set ?qs. \<forall>x. snd q = Some x \<longrightarrow> \<not> dbl_le x dbl_zero"
    using assms(6)
    by (auto simp: nurbs_qs_def nurbs_weight_def list_all_length fin_pos_def split: option.splits if_splits)
  have nd: "\<forall>q \<in> set ?qs. length (fst q) = st_ndims s"
    using qs(3) st_zm_ndims [OF assms(5)] by simp
  from npoints_read [OF assms(1-3) nd pos] qs
  have r: "nurbs_points_from_wkb_state be (npoints pa) s =
    Inr ((ptlist pa, case w of None \<Rightarrow> replicate (npoints pa) dbl_one | Some ws \<Rightarrow> ws,
          list_all (\<lambda>q. weight_or_one (snd q) = dbl_one) ?qs),
         s\<lparr>pos := pos s + length (concat (map (npoint_wkb v) ?qs))\<rparr>)"
    by simp
  have one: "list_all (\<lambda>q. weight_or_one (snd q) = dbl_one) ?qs =
      (case w of None \<Rightarrow> True | Some xs \<Rightarrow> list_all (\<lambda>x. x = dbl_one) xs)"
  proof -
    have "list_all (\<lambda>q. weight_or_one (snd q) = dbl_one) ?qs =
        list_all (\<lambda>x. x = dbl_one) (map (\<lambda>q. weight_or_one (snd q)) ?qs)"
      by (simp add: list.pred_map comp_def)
    then show ?thesis by (simp add: qs(4) list_all_iff split: option.split)
  qed
  show ?thesis
  proof (cases "npoints pa = 0")
    case True
    then have "?qs = []" by (simp add: nurbs_qs_def)
    with True assms(4) w show ?thesis
      by (auto simp: nurbs_control_from_wkb_state_def pa_wf_def split: option.splits)
  next
    case False
    with r one show ?thesis
      by (auto simp: nurbs_control_from_wkb_state_def split: option.splits)
  qed
qed

lemma nurbs_construct_ok:
  assumes "1 \<le> d" "d \<le> 10" "d < npoints pa" "length ks = npoints pa + d + 1" "knots_ok ks" "length ks < 2 ^ 32"
    and "case w of None \<Rightarrow> True | Some ws \<Rightarrow> length ws = npoints pa \<and> list_all fin_pos ws"
  shows "lwnurbscurve_construct i b d (Some pa) w (Some ks) =
    Inr (LWNURBSCURVE \<lparr>bbox = b, srid = i, flags = pflags pa\<rparr> d (Some pa) w (Some ks))"
proof -
  obtain k0 ks' where ks: "ks = k0 # ks'" using assms(4) by (cases ks) auto
  have "w = None \<or> (\<exists>x xs. w = Some (x # xs))"
  proof (cases w)
    case (Some ws)
    with assms(3,7) have "ws \<noteq> []" by auto
    with Some show ?thesis by (cases ws) auto
  qed simp
  then have "(case w of Some (x # xs) \<Rightarrow> Some (x # xs) | _ \<Rightarrow> None) = w" by auto
  with assms ks show ?thesis
    by (auto simp: lwnurbscurve_construct_def require_def split: option.splits)
qed

lemma nurbs_knots_read_empty:
  assumes "input s = wkb_order v (le_bytes 4 (0 :: u32)) @ rest" "order_ok be v s"
  shows "nurbs_knots_from_wkb_state be d 0 cs ws one s =
    Inr (lwnurbscurve_construct_empty (st_srid s) (has_z s) (has_m s), s\<lparr>pos := pos s + 4\<rparr>)"
  using integer_read [OF assms] by (simp add: nurbs_knots_from_wkb_state_def)

lemma nurbs_knots_read:
  assumes "input s = wkb_order v (le_bytes 4 (of_nat (length ks) :: u32)) @ doubles_wkb v ks @ rest"
    and "order_ok be v s" "pa_wf pa" "st_zm s (pflags pa)" "npoints pa \<le> WKB_MAXPOINTS"
    and "1 \<le> d" "d \<le> 10" "d < npoints pa" "length ks = npoints pa + d + 1" "knots_ok ks"
    and "case w of None \<Rightarrow> True | Some ws \<Rightarrow> length ws = npoints pa \<and> list_all fin_pos ws"
    and "(if one then None else Some ws) = w"
  shows "nurbs_knots_from_wkb_state be d (npoints pa) (ptlist pa) ws one s =
    Inr (LWNURBSCURVE \<lparr>bbox = None, srid = st_srid s, flags = pflags (pa_content pa)\<rparr> d
           (Some (pa_content pa)) w (Some ks),
         s\<lparr>pos := pos s + 4 + 8 * length ks\<rparr>)"
proof -
  let ?s = "s\<lparr>pos := pos s + 4\<rparr>"
  have "length ks < 2 ^ 32" using assms(5,7,9) by simp
  then have n: "unat (of_nat (length ks) :: u32) = length ks"
    by (simp only: unat_of_nat) simp
  have "input ?s = doubles_wkb v ks @ rest" "pos ?s \<le> length (wkb ?s)"
    using input_advance [OF assms(1) le4_ne] by simp_all
  from doubles_read [OF this(1) _ this(2)] assms(2)
  have r: "doubles_from_wkb_state be (length ks) ?s = Inr (ks, ?s\<lparr>pos := pos ?s + 8 * length ks\<rparr>)" by simp
  have pa: "ptarray_construct (has_z s) (has_m s) (npoints pa) (ptlist pa) = pa_content pa"
    using assms(4) by (simp add: ptarray_construct_def ptarray_construct_empty_def pa_content_def
        st_zm_def zm_flags_def)
  have "lwnurbscurve_construct i None d (Some (pa_content pa)) w (Some ks) =
      Inr (LWNURBSCURVE \<lparr>bbox = None, srid = i, flags = pflags (pa_content pa)\<rparr> d
        (Some (pa_content pa)) w (Some ks))" for i
    by (rule nurbs_construct_ok) (use assms in auto)
  with integer_read [OF assms(1,2)] n r pa assms(8-10,12) show ?thesis
    by (simp add: nurbs_knots_from_wkb_state_def knots_ok_sorted)
qed

lemma nurbs_read:
  assumes "lwgeom_wf (LWNURBSCURVE h d (Some pa) w k)" "wkb_ok c (LWNURBSCURVE h d (Some pa) w k)"
    and "order_ok be v s" "pos s \<le> length (wkb s)" "st_zm s (flags h)"
    and "ks = (case k of None \<Rightarrow> [] | Some xs \<Rightarrow> xs)" "input s = nurbs_body v d pa w ks @ rest"
  shows "\<exists>g s'. lwnurbscurve_from_wkb_state be s = Inr (g, s') \<and>
    lwgeom_content g = lwgeom_content (lwgeom_set_srid (st_srid s) (LWNURBSCURVE h d (Some pa) w k)) \<and>
    same_after s (length (nurbs_body v d pa w ks)) (st_srid s) s'"
proof -
  from assms(1,2) have wf: "pa_wf pa" "same_zm (flags h) (pflags pa)" "1 \<le> d" "d \<le> 10"
    "npoints pa = 0 \<or> d < npoints pa"
    "case w of None \<Rightarrow> True | Some ws \<Rightarrow> length ws = npoints pa \<and> list_all fin_pos ws"
    "npoints pa \<le> WKB_MAXPOINTS" by simp_all
  have zm: "st_zm s (pflags pa)" using st_zm_wf [OF assms(5) wf(2)] .
  let ?n = "npoints pa"
  let ?pts = "concat (map (npoint_wkb v) (nurbs_qs pa w))"
  let ?tail = "wkb_order v (le_bytes 4 (of_nat (length ks) :: u32)) @ doubles_wkb v ks @ rest"
  let ?s1 = "s\<lparr>pos := pos s + 4\<rparr>" and ?s2 = "s\<lparr>pos := pos s + 8\<rparr>"
  let ?s3 = "s\<lparr>pos := pos s + 8 + length ?pts\<rparr>"
  have dn: "unat (of_nat d :: u32) = d" "unat (of_nat ?n :: u32) = ?n"
    using wf(4,7) by (simp_all add: unat_of_nat)
  have i0: "input s = wkb_order v (le_bytes 4 (of_nat d :: u32)) @
      wkb_order v (le_bytes 4 (of_nat ?n :: u32)) @ ?pts @ ?tail"
    using assms(7) by (simp add: nurbs_body_def)
  have i1: "input ?s1 = wkb_order v (le_bytes 4 (of_nat ?n :: u32)) @ ?pts @ ?tail"
    using input_advance(3) [OF i0 le4_ne] by simp
  have i2: "input ?s2 = ?pts @ ?tail" and le2: "pos ?s2 \<le> length (wkb ?s2)"
    using input_advance [OF i1 le4_ne] by (simp_all add: add.commute)
  have i3: "input ?s3 = ?tail"
  proof (cases "?pts = []")
    case True
    from i2 show ?thesis unfolding True by simp
  next
    case False
    from input_advance(3) [OF i2 False] show ?thesis by simp
  qed
  have "length ?pts + length ?tail = length (wkb s) - (pos s + 8)"
    using arg_cong [OF i2, of length] by (simp add: input_def)
  then have room: "pos s + 8 + length ?pts + (4 + 8 * length ks) \<le> length (wkb s)"
    using le2 by simp
  have w': "case w of None \<Rightarrow> True | Some ws \<Rightarrow> length ws = npoints pa"
    using wf(6) by (auto split: option.splits)
  note qs = nurbs_qs_facts [OF wf(1) w']
  have nd: "st_ndims s = FLAGS_NDIMS (pflags pa)" by (rule st_zm_ndims [OF zm])
  have ge: "?n * (2 + 8 * st_ndims s) \<le> length ?pts"
    using length_npoints_ge [OF qs(3), of v] qs(1) nd by simp
  have mul: "wkb_checked_mul_size ?n (2 + st_ndims s * 8) = Some (?n * (2 + st_ndims s * 8))"
    by (rule wkb_mul_fits [OF wf(7)]) (use st_ndims_bounds(1) [of s] in linarith)
  have klen: "?n \<noteq> 0 \<Longrightarrow> length ks = ?n + d + 1 \<and> knots_ok ks \<and> k = Some ks"
    using assms(1,2,6) by (auto split: option.splits)
  have fit1: "pos s + 8 + ?n * (2 + st_ndims s * 8) \<le> length (wkb s)"
    using ge room by (simp add: mult.commute)
  have fit2: "pos s + 8 + (?n * st_ndims s * 8 + ?n * 8 + ?n * 2) \<le> length (wkb s)"
  proof (cases "?n = 0")
    case False
    with klen ge room show ?thesis by (simp add: algebra_simps)
  qed (use le2 in simp)
  obtain ws one where c: "nurbs_control_from_wkb_state be ?n ?s2 = Inr ((ptlist pa, ws, one), ?s3)"
    "one = (case w of None \<Rightarrow> True | Some xs \<Rightarrow> list_all (\<lambda>x. x = dbl_one) xs)" "w \<noteq> None \<longrightarrow> w = Some ws"
    using nurbs_control_read [OF i2 _ le2 wf(1) _ wf(6), of be] assms(3) zm by auto
  have "lwnurbscurve_from_wkb_state be s = nurbs_knots_from_wkb_state be d ?n (ptlist pa) ws one ?s3"
  proof -
    have r1: "integer_from_wkb_state be ?s1 = Inr (of_nat ?n, ?s2)"
      using integer_read [OF i1] assms(3) by (simp add: add.commute)
    have "?n = 0 \<or> \<not> ?n \<le> d" using wf(5) by auto
    with integer_read [OF i0 assms(3)] r1 dn wf c(1) mul fit1 fit2
      nurbs_sizes_fit_some [OF wf(7) st_ndims_bounds(1) [of s]]
    show ?thesis by (simp add: lwnurbscurve_from_wkb_state_def state_check_iff Let_def)
  qed
  moreover have "length (nurbs_body v d pa w ks) = 8 + length ?pts + (4 + 8 * length ks)"
    by (simp add: nurbs_body_def)
  ultimately show ?thesis
  proof (cases "?n = 0")
    case True
    then have k: "ks = []" "d = 1" "w = None" "k = None" using assms(2,6) by simp_all
    from nurbs_knots_read_empty [of ?s3 v rest be d "ptlist pa" ws one] i3 assms(3) k
    have "nurbs_knots_from_wkb_state be d 0 (ptlist pa) ws one ?s3 =
        Inr (lwnurbscurve_construct_empty (st_srid s) (has_z s) (has_m s), ?s3\<lparr>pos := pos ?s3 + 4\<rparr>)"
      by simp
    with \<open>lwnurbscurve_from_wkb_state be s = _\<close> \<open>length (nurbs_body v d pa w ks) = _\<close> True k wf(1,2) zm
    show ?thesis
      by (auto simp: same_after_def lwnurbscurve_construct_empty_def empty_head_def head_content_eq
          st_zm_def same_zm_def intro!: empty_content)
  next
    case False
    with klen have kk: "length ks = ?n + d + 1" "knots_ok ks" "k = Some ks" by simp_all
    have "(if one then None else Some ws) = w"
      using c(2,3) assms(2) False by (auto split: option.splits)
    from nurbs_knots_read [OF _ _ wf(1) _ wf(7,3,4) _ kk(1,2) wf(6) this, of ?s3 v rest be] i3 assms(3) zm wf(5) False
    have "nurbs_knots_from_wkb_state be d ?n (ptlist pa) ws one ?s3 =
        Inr (LWNURBSCURVE \<lparr>bbox = None, srid = st_srid s, flags = pflags (pa_content pa)\<rparr> d
           (Some (pa_content pa)) w (Some ks), ?s3\<lparr>pos := pos ?s3 + 4 + 8 * length ks\<rparr>)"
      by simp
    with \<open>lwnurbscurve_from_wkb_state be s = _\<close> \<open>length (nurbs_body v d pa w ks) = _\<close> kk wf(2)
    show ?thesis
      by (auto simp: same_after_def head_content_eq same_zm_def)
  qed
qed

section \<open>What the writer puts after the header\<close>

fun wkb_body :: "byte \<Rightarrow> lwgeom \<Rightarrow> byte list" where
  "wkb_body v (LWPOINT h pa) =
     doubles_wkb v (if npoints pa = 0 then replicate (FLAGS_NDIMS (pflags pa)) dbl_nan else ptlist pa)"
| "wkb_body v (LWLINE h pa) = ptarray_wkb v pa"
| "wkb_body v (LWCIRCSTRING h pa) = ptarray_wkb v pa"
| "wkb_body v (LWTRIANGLE h pa) =
     (if npoints pa = 0 then wkb_order v (le_bytes 4 (0 :: u32))
      else wkb_order v (le_bytes 4 (1 :: u32)) @ ptarray_wkb v pa)"
| "wkb_body v (LWPOLY h mr rs) =
     wkb_order v (le_bytes 4 (of_nat (length rs) :: u32)) @ concat (map (ptarray_wkb v) rs)"
| "wkb_body v (LWNURBSCURVE h d p w k) =
     (case p of None \<Rightarrow> [] | Some pa \<Rightarrow> nurbs_body v d pa w (case k of None \<Rightarrow> [] | Some ks \<Rightarrow> ks))"
| "wkb_body v (LWCOLLECTION t h mg al gs) = []"

lemma doubles_nan:
  "concat (map (\<lambda>i. double_nan_to_wkb_buf (raw v)) [0..<d]) = doubles_wkb v (replicate d dbl_nan)"
  by (simp add: double_nan_to_wkb_buf_emit doubles_wkb_def map_replicate_const)

lemma nurbs_point_raw_npoint:
  "nurbs_point_to_wkb_buf False (Some pa) w (raw v) i =
    npoint_wkb v (pa_point pa i (FLAGS_NDIMS (pflags pa)), nurbs_weight w i)"
  by (simp add: nurbs_point_to_wkb_buf_def npoint_wkb_def emit_simps doubles_wkb_def wkb_emit_concat
      comp_def split: option.split)

lemma lwgeom_to_wkb_body:
  assumes "lwgeom_wf g" "wkb_ok c g" "has_bits v WKB_EXTENDED" "\<not> has_bits v WKB_NO_NPOINTS"
    and "lwgeom_to_wkb_buf False g (raw v) = Inr bs" "\<not> lwtype_is_collection (lwgeom_get_type g)"
  shows "\<exists>head. wkb_head False g (raw v) = Inr head \<and> bs = head @ wkb_body v g"
proof (cases g)
  case (LWPOINT h pa)
  have "pa_wf pa" "has_bits (v OR WKB_NO_NPOINTS) WKB_EXTENDED" using LWPOINT assms(1,3) by simp_all
  from ptarray_to_wkb_extended [OF this, of False] LWPOINT assms(3,5) show ?thesis
    by (auto simp: lwpoint_to_wkb_buf_def empty_to_wkb_buf_def bindE_eq_Inr doubles_nan doubles_wkb_def
        split: if_splits)
next
  case (LWLINE h pa)
  then have "pa_wf pa" "npoints pa = 0 \<Longrightarrow> ptlist pa = []" using assms(1) by (auto simp: pa_wf_def)
  with ptarray_to_wkb_extended [OF this(1) assms(3), of False] LWLINE assms(3-5) show ?thesis
    by (auto simp: lwline_to_wkb_buf_def empty_to_wkb_buf_def bindE_eq_Inr integer_to_wkb_buf_emit
        ptarray_wkb_def split: if_splits)
next
  case (LWCIRCSTRING h pa)
  then have "pa_wf pa" "npoints pa = 0 \<Longrightarrow> ptlist pa = []" using assms(1) by (auto simp: pa_wf_def)
  with ptarray_to_wkb_extended [OF this(1) assms(3), of False] LWCIRCSTRING assms(3-5) show ?thesis
    by (auto simp: lwline_to_wkb_buf_def empty_to_wkb_buf_def bindE_eq_Inr integer_to_wkb_buf_emit
        ptarray_wkb_def split: if_splits)
next
  case (LWTRIANGLE h pa)
  then have "pa_wf pa" using assms(1) by simp
  with ptarray_to_wkb_extended [OF this assms(3), of False] LWTRIANGLE assms(3-5) show ?thesis
    by (auto simp: lwtriangle_to_wkb_buf_def empty_to_wkb_buf_def bindE_eq_Inr integer_to_wkb_buf_emit
        split: if_splits)
next
  case (LWPOLY h mr rs)
  have "ptarray_to_wkb_buf False r (raw v) = ptarray_wkb v r" if "r \<in> set rs" for r
    using that LWPOLY assms(1,4) ptarray_to_wkb_extended [OF _ assms(3), of r False]
    by (auto simp: list_all_iff)
  then have rs: "concat (map (\<lambda>r. ptarray_to_wkb_buf False r (raw v)) rs) = concat (map (ptarray_wkb v) rs)"
    by (intro arg_cong [where f = concat]) simp
  show ?thesis
  proof (cases rs)
    case Nil
    with LWPOLY assms(3,5) show ?thesis
      by (auto simp: lwpoly_to_wkb_buf_def empty_to_wkb_buf_def bindE_eq_Inr integer_to_wkb_buf_emit)
  next
    case (Cons r rest)
    then have "\<not> lwgeom_is_empty (LWPOLY h mr rs)" using LWPOLY assms(2) by simp
    with rs LWPOLY assms(3,5) show ?thesis
      by (simp add: lwpoly_to_wkb_buf_def bindE_eq_Inr integer_to_wkb_buf_emit
          del: lwgeom_is_empty.simps) auto
  qed
next
  case (LWNURBSCURVE h d p w k)
  then obtain pa where p: "p = Some pa" using assms(2) by (cases p) auto
  have pts: "map (nurbs_point_to_wkb_buf False (Some pa) w (raw v)) [0..<npoints pa] =
      map (npoint_wkb v) (nurbs_qs pa w)"
    by (simp add: nurbs_qs_def nurbs_point_raw_npoint)
  have knots: "lwnurbscurve_get_or_generate_knots d p k = k" if "npoints pa \<noteq> 0"
    using that assms(1,2) LWNURBSCURVE p
    by (auto simp: lwnurbscurve_get_or_generate_knots_def split: option.splits list.splits)
  have knots0: "lwnurbscurve_get_or_generate_knots d p k = None" "k = None" if "npoints pa = 0"
    using that assms(2) LWNURBSCURVE p
    by (auto simp: lwnurbscurve_get_or_generate_knots_def lwnurbscurve_generate_uniform_knots_def)
  show ?thesis
  proof (cases "npoints pa = 0")
    case True
    with knots0 assms(5) LWNURBSCURVE p pts show ?thesis
      by (auto simp: lwnurbscurve_to_wkb_buf_def bindE_eq_Inr integer_to_wkb_buf_emit nurbs_body_def)
  next
    case False
    then obtain x xs where "k = Some (x # xs)"
      using assms(1,2) LWNURBSCURVE p by (cases k; cases "the k") auto
    with False knots assms(5) LWNURBSCURVE p pts show ?thesis
      by (auto simp: lwnurbscurve_to_wkb_buf_def bindE_eq_Inr integer_to_wkb_buf_emit
          double_to_wkb_buf_emit nurbs_body_def doubles_wkb_def)
  qed
next
  case (LWCOLLECTION t h mg al gs)
  with assms(1,6) show ?thesis by simp
qed

lemma lwgeom_to_wkb_collection:
  assumes "has_bits v WKB_EXTENDED" "lwtype_is_collection t"
    and "lwgeom_to_wkb_buf False (LWCOLLECTION t h mg al gs) (raw v) = Inr bs"
  shows "\<exists>head parts. wkb_head False (LWCOLLECTION t h mg al gs) (raw v) = Inr head \<and>
    list_all2 (\<lambda>g p. lwgeom_to_wkb_buf False g (raw (v OR WKB_NO_SRID)) = Inr p) gs parts \<and>
    bs = head @ wkb_order v (le_bytes 4 (of_nat (length gs) :: u32)) @ concat parts"
  using assms
  by (auto simp: Let_def bindE_eq_Inr mapE_eq_Inr integer_to_wkb_buf_emit simp del: lwgeom_is_empty.simps)

end
