(* ===== verification/WKBRoundTrip.thy ===== *)
theory WKBRoundTrip
  imports WKBReadBack
begin

text \<open>
  The whole WKB reader inverts the whole WKB writer on the geometries the format can
  express, whatever the byte orders of the two machines and of the data, in the binary and
  in the hexadecimal form.
\<close>

declare lwgeom_from_wkb_state.simps [simp del]

section \<open>Members of a collection\<close>

text \<open>What reading back the bytes \<open>p\<close> of the member \<open>g\<close> has to give, at a nesting depth
  \<open>d\<close> and under the checks \<open>c\<close>.\<close>

definition reads_back :: "geom_reader \<Rightarrow> byte \<Rightarrow> nat \<Rightarrow> lwgeom \<Rightarrow> byte list \<Rightarrow> bool" where
  "reads_back rd c d g p \<longleftrightarrow> p \<noteq> [] \<and>
     (\<forall>s rest. input s = p @ rest \<longrightarrow> check s = c \<longrightarrow> depth s = d \<longrightarrow>
       (\<exists>g' s'. rd s = Inr (g', s') \<and> lwgeom_content g' = lwgeom_content (lwgeom_set_srid (st_srid s) g) \<and>
          same_after s (length p) (st_srid s) s'))"

lemma reads_backD:
  assumes "reads_back rd (check s) (depth s) g p" "input s = p @ rest"
  obtains g' s' where "rd s = Inr (g', s')"
    "lwgeom_content g' = lwgeom_content (lwgeom_set_srid (st_srid s) g)"
    "same_after s (length p) (st_srid s) s'" "input s' = rest"
proof -
  from assms obtain g' s' where r: "rd s = Inr (g', s')"
    "lwgeom_content g' = lwgeom_content (lwgeom_set_srid (st_srid s) g)"
    "same_after s (length p) (st_srid s) s'" "p \<noteq> []"
    unfolding reads_back_def by blast
  have "input s' = rest"
    using input_advance(3) [OF assms(2) r(4)] r(3) by (simp add: input_def same_after_def)
  with r that show thesis by blast
qed

lemma lwgeom_get_type_content [simp]: "lwgeom_get_type (lwgeom_content g) = lwgeom_get_type g"
  by (cases g) simp_all

lemma lwgeom_get_type_set_srid [simp]: "lwgeom_get_type (lwgeom_set_srid i g) = lwgeom_get_type g"
  by (cases g) simp_all

lemma content_type: "lwgeom_content g = lwgeom_content (lwgeom_set_srid i h) \<Longrightarrow>
    lwgeom_get_type g = lwgeom_get_type h"
  by (metis lwgeom_get_type_content lwgeom_get_type_set_srid)

text \<open>
  The two loops over members, of collections and of curve polygons: each reads a member and
  adds it to the collection, which takes members of the types \<open>accepts\<close> gives.
\<close>

locale member_loop =
  fixes loop :: "geom_reader \<Rightarrow> nat \<Rightarrow> lwgeom \<Rightarrow> wkb_parse_state \<Rightarrow> lwerr + (lwgeom \<times> wkb_parse_state)"
    and accepts :: "nat \<Rightarrow> nat \<Rightarrow> bool"
  assumes loop_0: "loop rd 0 col s = Inr (col, s)"
    and loop_Suc: "growable (LWCOLLECTION t h mg al acc) \<Longrightarrow> length acc < 2 ^ 31 \<Longrightarrow>
      accepts t (lwgeom_get_type g) \<Longrightarrow> rd s = Inr (g, s') \<Longrightarrow>
      \<exists>mg'. loop rd (Suc n) (LWCOLLECTION t h mg al acc) s =
          loop rd n (LWCOLLECTION t h mg' True (acc @ [g])) s' \<and>
        growable (LWCOLLECTION t h mg' True (acc @ [g]))"
begin

lemma members_read:
  assumes "list_all2 (reads_back rd (check s) (depth s)) gs parts"
    and "list_all (\<lambda>g. accepts t (lwgeom_get_type g)) gs"
    and "input s = concat parts @ rest" "growable (LWCOLLECTION t h mg al acc)"
    and "length acc + length gs < 2 ^ 31"
  shows "\<exists>mg' al' gs' s'. loop rd (length gs) (LWCOLLECTION t h mg al acc) s =
      Inr (LWCOLLECTION t h mg' al' (acc @ gs'), s') \<and>
    map lwgeom_content gs' = map (\<lambda>g. lwgeom_content (lwgeom_set_srid (st_srid s) g)) gs \<and>
    same_after s (length (concat parts)) (st_srid s) s'"
  using assms
proof (induction gs arbitrary: s parts mg al acc)
  case Nil
  then show ?case by (auto simp: same_after_def loop_0)
next
  case (Cons g gs)
  obtain p ps where parts: "parts = p # ps" "reads_back rd (check s) (depth s) g p"
    "list_all2 (reads_back rd (check s) (depth s)) gs ps"
    using Cons.prems(1) by (auto simp: list_all2_Cons1)
  have "input s = p @ (concat ps @ rest)" using Cons.prems(3) parts(1) by simp
  from reads_backD [OF parts(2) this] obtain g' s' where r: "rd s = Inr (g', s')"
    "lwgeom_content g' = lwgeom_content (lwgeom_set_srid (st_srid s) g)"
    "same_after s (length p) (st_srid s) s'" "input s' = concat ps @ rest" by blast
  have "accepts t (lwgeom_get_type g')" using content_type [OF r(2)] Cons.prems(2) by simp
  with loop_Suc [of t h mg al acc g' rd s s' "length gs"] Cons.prems(4,5) r(1) obtain mg' where add:
    "loop rd (Suc (length gs)) (LWCOLLECTION t h mg al acc) s =
      loop rd (length gs) (LWCOLLECTION t h mg' True (acc @ [g'])) s'"
    "growable (LWCOLLECTION t h mg' True (acc @ [g']))" by auto
  have same: "check s' = check s" "depth s' = depth s" "st_srid s' = st_srid s"
    using r(3) by (simp_all add: same_after_def)
  have len: "length (acc @ [g']) + length gs < 2 ^ 31" using Cons.prems(5) by simp
  have kinds: "list_all (\<lambda>g. accepts t (lwgeom_get_type g)) gs" using Cons.prems(2) by simp
  obtain mg'' al'' gs' s'' where ih:
    "loop rd (length gs) (LWCOLLECTION t h mg' True (acc @ [g'])) s' =
      Inr (LWCOLLECTION t h mg'' al'' ((acc @ [g']) @ gs'), s'')"
    "map lwgeom_content gs' = map (\<lambda>g. lwgeom_content (lwgeom_set_srid (st_srid s') g)) gs"
    "same_after s' (length (concat ps)) (st_srid s') s''"
    using Cons.IH [of s' ps mg' True "acc @ [g']"] parts(3) kinds r(4) add(2) len same by auto
  have "same_after s (length (concat parts)) (st_srid s) s''"
    using r(3) ih(3) parts(1) by (simp add: same_after_def)
  moreover have "loop rd (length (g # gs)) (LWCOLLECTION t h mg al acc) s =
      Inr (LWCOLLECTION t h mg'' al'' (acc @ g' # gs'), s'')"
    using add(1) ih(1) by simp
  moreover have "map lwgeom_content (g' # gs') =
      map (\<lambda>g. lwgeom_content (lwgeom_set_srid (st_srid s) g)) (g # gs)"
    using ih(2) r(2) same(3) by simp
  ultimately show ?case by blast
qed

end

interpretation geoms_loop: member_loop geoms_from_wkb_state lwcollection_allows_subtype
proof
  fix t h mg al acc g s s' n and rd :: geom_reader
  assume "growable (LWCOLLECTION t h mg al acc)" "length acc < 2 ^ 31"
    "lwcollection_allows_subtype t (lwgeom_get_type g)" "rd s = Inr (g, s')"
  with lwcollection_add_lwgeom_ok [of t h mg al acc g]
  show "\<exists>mg'. geoms_from_wkb_state rd (Suc n) (LWCOLLECTION t h mg al acc) s =
      geoms_from_wkb_state rd n (LWCOLLECTION t h mg' True (acc @ [g])) s' \<and>
    growable (LWCOLLECTION t h mg' True (acc @ [g]))" by auto
qed simp

interpretation curves_loop: member_loop curves_from_wkb_state
  "\<lambda>t n. n \<in> {LINETYPE, CIRCSTRINGTYPE, COMPOUNDTYPE, NURBSCURVETYPE}"
proof
  fix t h mg al acc g s s' n and rd :: geom_reader
  assume "growable (LWCOLLECTION t h mg al acc)" "length acc < 2 ^ 31"
    "lwgeom_get_type g \<in> {LINETYPE, CIRCSTRINGTYPE, COMPOUNDTYPE, NURBSCURVETYPE}" "rd s = Inr (g, s')"
  with lwcurvepoly_add_ring_ok [of t h mg al acc g]
  show "\<exists>mg'. curves_from_wkb_state rd (Suc n) (LWCOLLECTION t h mg al acc) s =
      curves_from_wkb_state rd n (LWCOLLECTION t h mg' True (acc @ [g])) s' \<and>
    growable (LWCOLLECTION t h mg' True (acc @ [g]))" by (auto simp: require_def)
qed simp

section \<open>The reader inverts the writer\<close>

definition written :: "byte \<Rightarrow> lwgeom \<Rightarrow> byte list \<Rightarrow> bool" where
  "written v g p \<longleftrightarrow> lwgeom_to_wkb_buf False g (raw v) = Inr p"

definition member_check :: "nat \<Rightarrow> byte \<Rightarrow> byte" where
  "member_check t c = (if t = POLYHEDRALSURFACETYPE then c OR LW_PARSER_CHECK_ZCLOSURE else c)"

lemma collection_dispatch:
  assumes t: "lwtype_is_collection t" "lwtype s = t" "st_zm s (flags h)"
    and i: "input s = wkb_order v (le_bytes 4 (of_nat (length gs) :: u32)) @ concat parts @ rest"
      "order_ok be v s" "length gs < 2 ^ 31" "gs \<noteq> [] \<Longrightarrow> depth s + 1 < LW_PARSER_MAX_DEPTH"
    and gs: "list_all (\<lambda>g. lwcollection_allows_subtype t (lwgeom_get_type g)) gs"
      "list_all2 (reads_back (lwgeom_from_wkb_state fuel be) (member_check t (check s)) (depth s + 1)) gs parts"
  shows "\<exists>g s'. wkb_dispatch fuel be s = Inr (g, s') \<and>
    lwgeom_content g = lwgeom_content (lwgeom_set_srid (st_srid s) (LWCOLLECTION t h mg al gs)) \<and>
    same_after s (4 + length (concat parts)) (st_srid s) s'"
proof -
  let ?e = "empty_head (st_srid s) (has_z s) (has_m s)"
  let ?s4 = "s\<lparr>pos := pos s + 4\<rparr>"
  let ?rd = "lwgeom_from_wkb_state fuel be"
  let ?set = "\<lambda>g. lwgeom_content (lwgeom_set_srid (st_srid s) g)"
  have n: "unat (of_nat (length gs) :: u32) = length gs" using i(3) by (simp add: unat_of_nat)
  have count: "integer_from_wkb_state be s = Inr (of_nat (length gs), ?s4)"
    by (rule integer_read [OF i(1,2)])
  have head: "head_content ?e = head_content (h\<lparr>srid := st_srid s\<rparr>)"
    using t(3) by (simp add: head_content_eq empty_head_def st_zm_def same_zm_def)
  have c: "lwgeom_content (LWCOLLECTION t ?e mg' al' gs') =
      lwgeom_content (lwgeom_set_srid (st_srid s) (LWCOLLECTION t h mg al gs))"
    if "map lwgeom_content gs' = map ?set gs" for mg' al' gs'
    using that t(1) head by simp
  have c0: "gs = [] \<Longrightarrow> lwgeom_content (LWCOLLECTION t ?e 1 True []) =
      lwgeom_content (lwgeom_set_srid (st_srid s) (LWCOLLECTION t h mg al gs))"
    using c [of "[]"] by simp
  have len0: "gs = [] \<Longrightarrow> parts = []" using gs(2) by simp
  have grow: "growable (LWCOLLECTION t ?e 1 True [])" by simp
  let ?s5 = "?s4\<lparr>check := member_check t (check s), depth := depth s + 1\<rparr>"
  have i5: "input ?s5 = concat parts @ rest"
    using input_advance(3) [OF i(1) le4_ne] by (simp add: input_def)
  have mem: "list_all2 (reads_back ?rd (check ?s5) (depth ?s5)) gs parts" using gs(2) by simp
  show ?thesis
  proof (cases "t = CURVEPOLYTYPE")
    case True
    have "list_all (\<lambda>g. lwgeom_get_type g \<in> {LINETYPE, CIRCSTRINGTYPE, COMPOUNDTYPE, NURBSCURVETYPE}) gs"
      using gs(1) True by (auto simp: list_all_iff lwcollection_allows_subtype_def split: if_splits)
    from curves_loop.members_read [OF mem this i5 grow] i(3)
    obtain mg' al' gs' s' where r: "curves_from_wkb_state ?rd (length gs) (LWCOLLECTION t ?e 1 True []) ?s5 =
        Inr (LWCOLLECTION t ?e mg' al' gs', s')" "map lwgeom_content gs' = map ?set gs"
      "same_after ?s5 (length (concat parts)) (st_srid s) s'" by auto
    have "lwcurvepoly_from_wkb_state be ?rd s = (if gs = [] then Inr (LWCOLLECTION t ?e 1 True [], ?s4)
        else Inr (LWCOLLECTION t ?e mg' al' gs', s'\<lparr>depth := depth s' - 1\<rparr>))"
      using True count n i(4) r(1)
      by (cases "gs = []") (auto simp: lwcurvepoly_from_wkb_state_def lwcurvepoly_construct_empty_def Let_def
          require_def member_check_def)
    with True t(2) r(3) c [OF r(2)] c0 len0 show ?thesis
      by (cases "gs = []") (simp_all add: wkb_dispatch_def same_after_def member_check_def
          del: lwgeom_content.simps lwgeom_set_srid.simps)
  next
    case False
    from geoms_loop.members_read [OF mem gs(1) i5 grow] i(3)
    obtain mg' al' gs' s' where r: "geoms_from_wkb_state ?rd (length gs) (LWCOLLECTION t ?e 1 True []) ?s5 =
        Inr (LWCOLLECTION t ?e mg' al' gs', s')" "map lwgeom_content gs' = map ?set gs"
      "same_after ?s5 (length (concat parts)) (st_srid s) s'" by auto
    have "lwcollection_from_wkb_state be ?rd s = (if gs = [] then Inr (LWCOLLECTION t ?e 1 True [], ?s4)
        else Inr (LWCOLLECTION t ?e mg' al' gs', s'\<lparr>depth := depth s' - 1, check := check s\<rparr>))"
      using t(1,2) count n i(4) r(1)
      by (cases "gs = []") (auto simp: lwcollection_from_wkb_state_def lwcollection_construct_empty_def Let_def
          require_def member_check_def)
    moreover have "wkb_dispatch fuel be s = lwcollection_from_wkb_state be ?rd s"
      using t(1,2) False by (auto simp: wkb_dispatch_def lwtype_is_collection_def)
    ultimately show ?thesis using t(2) r(3) c [OF r(2)] c0 len0
      by (cases "gs = []") (simp_all add: same_after_def
          del: lwgeom_content.simps lwgeom_set_srid.simps)
  qed
qed

lemma leaf_dispatch:
  assumes "lwgeom_wf g" "wkb_ok (check s) g" "order_ok be v s" "pos s \<le> length (wkb s)"
    and "st_zm s (lwgeom_flags g)" "lwtype s = lwgeom_get_type g" "input s = wkb_body v g @ rest"
    and "\<not> lwtype_is_collection (lwgeom_get_type g)"
  shows "\<exists>g' s'. wkb_dispatch fuel be s = Inr (g', s') \<and>
    lwgeom_content g' = lwgeom_content (lwgeom_set_srid (st_srid s) g) \<and>
    same_after s (length (wkb_body v g)) (st_srid s) s'"
proof (cases g)
  case (LWPOINT h pa)
  have "8 * FLAGS_NDIMS (pflags pa) = length (wkb_body v g)"
    using LWPOINT assms(1) by (auto simp: pa_wf_def le_Suc_eq)
  with lwpoint_read [where h = h and pa = pa and s = s and be = be and v = v and rest = rest] LWPOINT assms show ?thesis by (simp add: wkb_dispatch_def)
next
  case (LWLINE h pa)
  with lwline_read [where h = h and pa = pa and s = s and be = be and v = v and rest = rest] assms show ?thesis by (simp add: wkb_dispatch_def)
next
  case (LWCIRCSTRING h pa)
  with lwcircstring_read [where h = h and pa = pa and s = s and be = be and v = v and rest = rest] assms show ?thesis by (simp add: wkb_dispatch_def)
next
  case (LWTRIANGLE h pa)
  with lwtriangle_read [where h = h and pa = pa and s = s and be = be and v = v and rest = rest] assms show ?thesis
    by (auto simp: wkb_dispatch_def split: if_splits)
next
  case (LWPOLY h mr rs)
  with lwpoly_read [where h = h and mr = mr and rs = rs and s = s and be = be and v = v and rest = rest] assms show ?thesis by (simp add: wkb_dispatch_def)
next
  case (LWNURBSCURVE h d p w k)
  then obtain pa where "p = Some pa" using assms(2) by (cases p) auto
  with nurbs_read [where h = h and d = d and pa = pa and w = w and k = k and s = s and be = be and v = v and rest = rest] LWNURBSCURVE assms
  show ?thesis by (simp add: wkb_dispatch_def)
next
  case (LWCOLLECTION t h mg al gs)
  with assms(1,8) show ?thesis by simp
qed

text \<open>The header flags the writer takes for a member, and the depth of the member.\<close>

lemma written_type:
  assumes "wkb_head False g w = Inr head"
  obtains n where "wkb_type_number (lwgeom_get_type g) = Some n"
  using assms by (auto simp: wkb_head_def lwgeom_wkb_type_def bindE_eq_Inr split: option.splits)

lemma leaf_read:
  assumes "lwgeom_wf g" "wkb_ok c g" "has_bits v WKB_EXTENDED" "\<not> has_bits v WKB_NO_NPOINTS"
    and "lwgeom_wkb_needs_srid g v \<Longrightarrow> srid_ok g" "lwgeom_to_wkb_buf False g (raw v) = Inr p"
    and "\<not> lwtype_is_collection (lwgeom_get_type g)" "input s = p @ rest" "check s = c" "0 < fuel"
  shows "p \<noteq> [] \<and> (\<exists>g' s'. lwgeom_from_wkb_state fuel be s = Inr (g', s') \<and>
    lwgeom_content g' = lwgeom_content (lwgeom_set_srid (read_srid g v s) g) \<and>
    same_after s (length p) (read_srid g v s) s')"
proof -
  obtain head where h: "wkb_head False g (raw v) = Inr head" "p = head @ wkb_body v g"
    using lwgeom_to_wkb_body [OF assms(1,2,3,4,6,7)] by blast
  obtain n where n: "wkb_type_number (lwgeom_get_type g) = Some n" by (rule written_type [OF h(1)])
  have i: "input s = head @ (wkb_body v g @ rest)" using assms(8) h(2) by simp
  note r = head_read [OF h(1) n assms(3,5) i]
  let ?s = "after_head be v g s"
  have s: "check ?s = check s" "st_srid ?s = read_srid g v s" "lwtype ?s = lwgeom_get_type g"
    "st_zm ?s (lwgeom_flags g)" "pos ?s = pos s + length head" "wkb ?s = wkb s" "depth ?s = depth s"
    using length_head_raw [OF h(1)] by (simp_all add: after_head_def st_zm_def)
  have "wkb_ok (check ?s) g" using assms(2,9) s(1) by simp
  from leaf_dispatch [OF assms(1) this r(3,4) s(4,3) r(2) assms(7), unfolded s(2)] obtain g' s' where
    "wkb_dispatch (fuel - 1) be ?s = Inr (g', s')"
    "lwgeom_content g' = lwgeom_content (lwgeom_set_srid (read_srid g v s) g)"
    "same_after ?s (length (wkb_body v g)) (read_srid g v s) s'" by blast
  moreover have "head \<noteq> []" using length_head_raw [OF h(1)] by (auto simp: wkb_head_size_def)
  ultimately show ?thesis using r(1) [of "fuel - 1" be] h(2) s assms(10)
    by (auto simp: same_after_def)
qed

lemma lwgeom_read:
  assumes "lwgeom_wf g" "wkb_ok c g" "has_bits v WKB_EXTENDED" "\<not> has_bits v WKB_NO_NPOINTS"
    and "lwgeom_wkb_needs_srid g v \<Longrightarrow> srid_ok g" "lwgeom_to_wkb_buf False g (raw v) = Inr p"
    and "lwgeom_depth g < fuel" "lwgeom_depth g + d < LW_PARSER_MAX_DEPTH"
    and "input s = p @ rest" "check s = c" "depth s = d"
  shows "p \<noteq> [] \<and> (\<exists>g' s'. lwgeom_from_wkb_state fuel be s = Inr (g', s') \<and>
    lwgeom_content g' = lwgeom_content (lwgeom_set_srid (read_srid g v s) g) \<and>
    same_after s (length p) (read_srid g v s) s')"
  using assms
proof (induction g arbitrary: c v p fuel d s rest)
  case (LWCOLLECTION t h mg al gs)
  let ?g = "LWCOLLECTION t h mg al gs"
  let ?w = "v OR WKB_NO_SRID" and ?c = "member_check t (check s)" and ?s = "after_head be v ?g s"
  obtain f where f: "fuel = Suc f" using LWCOLLECTION.prems(7) by (cases fuel) auto
  have t: "lwtype_is_collection t" using LWCOLLECTION.prems(1) by simp
  obtain head parts where h: "wkb_head False ?g (raw v) = Inr head"
    "list_all2 (\<lambda>g p. lwgeom_to_wkb_buf False g (raw ?w) = Inr p) gs parts"
    "p = head @ wkb_order v (le_bytes 4 (of_nat (length gs) :: u32)) @ concat parts"
    using lwgeom_to_wkb_collection [OF LWCOLLECTION.prems(3) t LWCOLLECTION.prems(6)] by blast
  obtain n where n: "wkb_type_number (lwgeom_get_type ?g) = Some n" by (rule written_type [OF h(1)])
  have i: "input s = head @ (wkb_order v (le_bytes 4 (of_nat (length gs) :: u32)) @ concat parts @ rest)"
    using LWCOLLECTION.prems(9) h(3) by simp
  note r = head_read [OF h(1) n LWCOLLECTION.prems(3,5) i]
  have s: "check ?s = check s" "st_srid ?s = read_srid ?g v s" "lwtype ?s = t"
    "st_zm ?s (flags h)" "pos ?s = pos s + length head" "wkb ?s = wkb s" "depth ?s = depth s"
    using length_head_raw [OF h(1)] by (simp_all add: after_head_def st_zm_def)
  have "reads_back (lwgeom_from_wkb_state f be) ?c (depth s + 1) x q"
    if "x \<in> set gs" "lwgeom_to_wkb_buf False x (raw ?w) = Inr q" for x q
  proof -
    have d: "lwgeom_depth x < f" "lwgeom_depth x + (depth s + 1) < LW_PARSER_MAX_DEPTH"
      using lwgeom_depth_member [OF that(1), of t h mg al] LWCOLLECTION.prems(7,8,11) f by simp_all
    have w: "lwgeom_wf x" "wkb_ok ?c x" "has_bits ?w WKB_EXTENDED" "\<not> has_bits ?w WKB_NO_NPOINTS"
      using that(1) LWCOLLECTION.prems(1-4,10) by (auto simp: list_all_iff member_check_def)
    have q: "\<not> lwgeom_wkb_needs_srid x ?w" by (simp add: lwgeom_wkb_needs_srid_def)
    then have "read_srid x ?w s' = st_srid s'" for s' by (simp add: read_srid_def)
    note ih = LWCOLLECTION.IH [OF that(1) w _ that(2) d, unfolded this]
    obtain s0 where "input s0 = q @ []" "check s0 = ?c" "depth s0 = depth s + 1"
      by (rule that [of "s\<lparr>wkb := q, pos := 0, check := ?c, depth := depth s + 1\<rparr>"]) (simp_all add: input_def)
    with ih [of s0 "[]"] q have "q \<noteq> []" by blast
    with ih q show ?thesis by (auto simp: reads_back_def)
  qed
  with h(2) have "list_all2 (reads_back (lwgeom_from_wkb_state f be) ?c (depth s + 1)) gs parts"
    by (auto simp: list_all2_conv_all_nth)
  moreover have "gs \<noteq> [] \<Longrightarrow> depth s + 1 < LW_PARSER_MAX_DEPTH"
    using LWCOLLECTION.prems(8,11) by simp
  ultimately obtain g' s' where
    "wkb_dispatch f be ?s = Inr (g', s')"
    "lwgeom_content g' = lwgeom_content (lwgeom_set_srid (read_srid ?g v s) ?g)"
    "same_after ?s (4 + length (concat parts)) (read_srid ?g v s) s'"
    using collection_dispatch [OF t s(3,4) r(2,3), where al = al and mg = mg and fuel = f] LWCOLLECTION.prems(1,2) s
    by auto
  moreover have "head \<noteq> []" using length_head_raw [OF h(1)] by (auto simp: wkb_head_size_def)
  ultimately show ?case using r(1) [of f be] h(3) s f
    by (auto simp: same_after_def le4_ne simp del: lwgeom_content.simps lwgeom_set_srid.simps)
qed (rule leaf_read; (assumption | simp add: lwtype_is_collection_def | blast))+

section \<open>Round trips\<close>

lemma raw_read_back:
  assumes "lwgeom_wf g" "wkb_ok chk g" "srid_ok g" "lwgeom_depth g + 1 < LW_PARSER_MAX_DEPTH"
    and "has_bits v WKB_EXTENDED" "\<not> has_bits v WKB_NO_NPOINTS" "\<not> has_bits v WKB_NO_SRID"
    and "lwgeom_to_wkb_buf False g (raw v) = Inr p"
  shows "\<exists>g'. lwgeom_from_wkb be p chk = Inr (Some g') \<and>
    lwgeom_content g' = lwgeom_content (lwgeom_set_srid (lwgeom_get_srid g) g)"
proof -
  let ?s = "wkb_initial_state p chk"
  have i: "input ?s = p @ []" "check ?s = chk" "depth ?s = 1" by (simp_all add: wkb_initial_state_def input_def)
  have "read_srid g v ?s = lwgeom_get_srid g"
    using assms(5,7) by (auto simp: read_srid_def lwgeom_wkb_needs_srid_def lwgeom_has_srid_def
        wkb_initial_state_def)
  with lwgeom_read [OF assms(1,2,5,6,3,8) _ assms(4) i, of LW_PARSER_MAX_DEPTH be] assms(4)
  show ?thesis by (auto simp: lwgeom_from_wkb_def)
qed

lemma varlena_raw:
  assumes "lwgeom_wf g" "lwgeom_to_wkb_size g v = Inr n" "2 * n < 2 ^ 31"
  obtains p where "lwgeom_to_wkb_buf False g (raw (wkb_pick_order be v)) = Inr p"
    "lwgeom_to_wkb_varlena be g v = Inr (lwvarlena_set be (length (wkb_emit v p) + LWVARHDRSZ) (wkb_emit v p))"
    "length (wkb_emit v p) = (if has_bits v WKB_HEX then 2 * n else n)"
proof -
  let ?v = "wkb_pick_order be v"
  have hex: "has_bits ?v WKB_HEX = has_bits v WKB_HEX" by (auto simp: wkb_pick_order_def)
  obtain bs m where bs: "lwgeom_to_wkb_buf be g ?v = Inr bs" "lwgeom_to_wkb_size g ?v = Inr m"
    "length bs = (if has_bits ?v WKB_HEX then 2 * m else m)"
    by (rule lwgeom_to_wkb_size_buf [OF assms(1)])
  with assms(2,3) have len: "length bs = (if has_bits v WKB_HEX then 2 * n else n)"
    "int (length bs) < 2 ^ 31"
    by (auto split: if_splits)
  then have "int32 (int (length bs)) = int (length bs)" by (intro int32_id) auto
  with bs(1) len assms(2) have out: "lwgeom_to_wkb_varlena be g v = Inr (lwvarlena_set be (length bs + LWVARHDRSZ) bs)"
    by (simp add: lwgeom_to_wkb_varlena_def lwgeom_to_wkb_write_buf_def Let_def)
  from bs(1) obtain p where "lwgeom_to_wkb_buf False g (raw ?v) = Inr p" "bs = wkb_emit ?v p"
    unfolding lwgeom_raw [of be] by (auto simp: emitE_def bindE_eq_Inr)
  with out hex len(1) that show thesis by (simp add: wkb_emit_def)
qed


text \<open>The hexadecimal digits.\<close>

lemma hexchr_hex2char: "i < 16 \<Longrightarrow> hex2char ! unat (hexchr ! i) = of_nat i"
proof -
  have "\<forall>i \<in> set [0..<16]. hex2char ! unat (hexchr ! i) = of_nat i" by code_simp
  then show "i < 16 \<Longrightarrow> hex2char ! unat (hexchr ! i) = of_nat i" by simp
qed

lemma low_nibble: "b AND 0x0F = take_bit 4 (b :: byte)"
  by (simp add: take_bit_eq_mask mask_eq_exp_minus_1)

lemma nibbles: "unat (drop_bit 4 (b :: byte)) < 16" "unat (b AND 0x0F) < 16"
proof -
  have "unat b < 256" using unsigned_less [of b] by simp
  then show "unat (drop_bit 4 b) < 16" by (subst unat_drop_bit_eq) (simp add: drop_bit_eq_div)
  show "unat (b AND 0x0F) < 16" unfolding low_nibble
    by (subst unsigned_take_bit_eq) (simp_all add: take_bit_eq_mod)
qed

lemma hex_byte_hexpair: "\<exists>x y. hexpair b = [x, y] \<and> hex_byte x y = Inr b"
proof -
  have "push_bit 4 (drop_bit 4 b AND 0x0F) OR (b AND 0x0F) = b"
    by (rule bit_word_eqI) (auto simp: low_nibble bit_simps)
  moreover have "\<not> drop_bit 4 b > 15" "\<not> b AND 0x0F > 15"
    using nibbles [of b] by (simp_all add: word_less_nat_alt)
  ultimately show ?thesis
    by (simp add: hexpair_def hex_byte_def Let_def hexchr_hex2char nibbles require_def)
qed

lemma hex_loop_hexbytes: "hex_loop (hexbytes bs) = Inr bs"
proof (induction bs)
  case (Cons b bs)
  obtain x y where "hexpair b = [x, y]" "hex_byte x y = Inr b" using hex_byte_hexpair by blast
  with Cons show ?case by simp
qed simp

lemma bytes_from_hexbytes_hexbytes [simp]:
  "length bs < 2 ^ 62 \<Longrightarrow> bytes_from_hexbytes (hexbytes bs) (length (hexbytes bs)) = Inr bs"
  by (simp add: bytes_from_hexbytes_def hex_loop_hexbytes require_def)

lemma hexwkb_size: "n < 2 ^ 31 \<Longrightarrow> hexwkb_len n = n"
  by (simp add: hexwkb_len_def int32_id unsigned_of_nat take_bit_nat_eq_self)

text \<open>
  The hexadecimal form of a geometry, what a client sees of a column, is read back as
  well: it is the hexadecimal text of some bytes, and reading it, on any machine, gives the
  geometry that was written.
\<close>

theorem lwgeom_hexwkb_roundtrip:
  assumes "lwgeom_wf g" "wkb_ok chk g" "srid_ok g" "lwgeom_depth g + 1 < LW_PARSER_MAX_DEPTH"
    and "has_bits v WKB_EXTENDED" "\<not> has_bits v WKB_NO_NPOINTS" "\<not> has_bits v WKB_NO_SRID"
    and "lwgeom_to_wkb_size g v = Inr n" "2 * n < 2 ^ 31"
  shows "\<exists>bs g'. lwgeom_to_hexwkb_varlena be g v = Inr (lwvarlena_set be (length (hexbytes bs) + LWVARHDRSZ) (hexbytes bs)) \<and>
    lwgeom_from_hexwkb be' (hexbytes bs) chk = Inr (Some g') \<and>
    lwgeom_content g' = lwgeom_content (lwgeom_set_srid (lwgeom_get_srid g) g)"
proof -
  let ?v = "v OR WKB_HEX"
  have "lwgeom_to_wkb_size g ?v = Inr n"
    using assms(8) same_shape_size [of ?v v g] by (simp add: same_shape_def)
  from varlena_raw [OF assms(1) this assms(9)] obtain p where
    p: "lwgeom_to_wkb_buf False g (raw (wkb_pick_order be ?v)) = Inr p"
    "lwgeom_to_wkb_varlena be g ?v = Inr (lwvarlena_set be (length (wkb_emit ?v p) + LWVARHDRSZ) (wkb_emit ?v p))"
    "length (wkb_emit ?v p) = (if has_bits ?v WKB_HEX then 2 * n else n)" .
  have "has_bits (wkb_pick_order be ?v) WKB_EXTENDED" "\<not> has_bits (wkb_pick_order be ?v) WKB_NO_NPOINTS"
    "\<not> has_bits (wkb_pick_order be ?v) WKB_NO_SRID"
    using assms(5-7) by (auto simp: wkb_pick_order_def)
  from raw_read_back [OF assms(1-4) this p(1)] obtain g' where
    g': "lwgeom_from_wkb be' p chk = Inr (Some g')" "lwgeom_content g' = lwgeom_content (lwgeom_set_srid (lwgeom_get_srid g) g)" by blast
  have e: "wkb_emit ?v p = hexbytes p" by (simp add: wkb_emit_def)
  have l: "length (hexbytes p) < 2 ^ 31" "length p < 2 ^ 62" using p(3) assms(9) by (simp_all add: e)
  have "lwgeom_from_hexwkb be' (hexbytes p) chk = Inr (Some g')"
    unfolding lwgeom_from_hexwkb_def hexwkb_size [OF l(1)] bytes_from_hexbytes_hexbytes [OF l(2)] bindE_Inr by (rule g'(1))
  with g'(2) p(2) e show ?thesis by (auto simp: lwgeom_to_hexwkb_varlena_def)
qed

section \<open>A sample\<close>

lemma sample_line_facts:
  "lwgeom_wf sample_line" "wkb_ok LW_PARSER_CHECK_ALL sample_line" "srid_ok sample_line"
  "lwgeom_depth sample_line = 0" "lwgeom_to_wkb_size sample_line WKB_EXTENDED = Inr 45"
  by (simp_all add: sample_line_def lwline_construct_def bbox_head_def ptarray_construct_copy_data_def
      pa_wf_def srid_ok_def lwgeom_get_srid_def lwline_to_wkb_size_def wkb_head_size_def
      lwgeom_wkb_needs_srid_def lwgeom_has_srid_def ptarray_to_wkb_size_def)


theorem lwgeom_hexwkb_roundtrip_witness:
  "\<exists>bs g'. lwgeom_to_hexwkb_varlena False sample_line WKB_EXTENDED =
      Inr (lwvarlena_set False (length (hexbytes bs) + LWVARHDRSZ) (hexbytes bs)) \<and>
    lwgeom_from_hexwkb True (hexbytes bs) LW_PARSER_CHECK_ALL = Inr (Some g') \<and>
    lwgeom_content g' = lwgeom_content (lwgeom_set_srid 4326 sample_line)"
  using lwgeom_hexwkb_roundtrip [of sample_line LW_PARSER_CHECK_ALL WKB_EXTENDED 45 False True]
    sample_line_facts
  by (auto simp: sample_line_def lwline_construct_def lwgeom_get_srid_def bbox_head_def)

end
