(* ===== verification/GSerialized2.thy ===== *)
theory GSerialized2
  imports LWTypes Float32 GBox
begin

text \<open>
  The on-disk form of a geometry, liblwgeom/gserialized2.c and gserialized2.h: the header
  with its flags and SRID, the validation of an untrusted buffer, and the questions that
  are answered on the buffer without building a geometry (emptiness, hash, box, first
  point).

  The struct is the record \<open>gserialized\<close>. A pointer into \<open>data\<close> is its offset there, so
  the payload begins at \<open>header_size - 8\<close> and the declared size ends at \<open>size - 8\<close>; the
  machine is little-endian, as the size macros of liblwgeom.h are for it. Memory is read
  through \<open>mem_at\<close>, which faults outside \<open>data\<close>. Sizes are natural numbers; the code's
  overflow checks on \<open>size_t\<close> are kept.
\<close>

section \<open>The struct and its flags\<close>

record gserialized =
  gs_size :: u32
  gs_srid :: "byte \<times> byte \<times> byte"
  gs_gflags :: byte
  gs_data :: "byte list"

definition LWSIZE_GET :: "u32 \<Rightarrow> nat" where
  "LWSIZE_GET varsize = unat (drop_bit 2 varsize AND 0x3FFFFFFF)"

definition LWSIZE_SET :: "nat \<Rightarrow> u32" where
  "LWSIZE_SET len = push_bit 2 (of_nat len)"

abbreviation G2FLAG_Z :: byte where "G2FLAG_Z \<equiv> 0x01"
abbreviation G2FLAG_M :: byte where "G2FLAG_M \<equiv> 0x02"
abbreviation G2FLAG_BBOX :: byte where "G2FLAG_BBOX \<equiv> 0x04"
abbreviation G2FLAG_GEODETIC :: byte where "G2FLAG_GEODETIC \<equiv> 0x08"
abbreviation G2FLAG_EXTENDED :: byte where "G2FLAG_EXTENDED \<equiv> 0x10"
abbreviation G2FLAG_VER_0 :: byte where "G2FLAG_VER_0 \<equiv> 0x40"
abbreviation G2FLAG_X_SOLID :: u64 where "G2FLAG_X_SOLID \<equiv> 0x00000001"

text \<open>\<open>G2FLAGS_GET_x (gflags)\<close> is \<open>has_bits gflags G2FLAG_x\<close>, \<open>G2FLAGS_SET_x\<close> is \<open>g2flag_set\<close>.\<close>

definition g2flag_set :: "byte \<Rightarrow> byte \<Rightarrow> bool \<Rightarrow> byte" where
  "g2flag_set gf flag val = (if val then gf OR flag else gf AND NOT flag)"

definition G2FLAGS_NDIMS :: "byte \<Rightarrow> nat" where
  "G2FLAGS_NDIMS gf = 2 + of_bool (has_bits gf G2FLAG_Z) + of_bool (has_bits gf G2FLAG_M)"

definition G2FLAGS_NDIMS_BOX :: "byte \<Rightarrow> nat" where
  "G2FLAGS_NDIMS_BOX gf = (if has_bits gf G2FLAG_GEODETIC then 3 else G2FLAGS_NDIMS gf)"

definition lwflags_uses_extended_flags :: "u16 \<Rightarrow> bool" where
  "lwflags_uses_extended_flags f \<longleftrightarrow>
     f AND NOT (LWFLAG_Z OR LWFLAG_M OR LWFLAG_BBOX OR LWFLAG_GEODETIC) \<noteq> 0"

definition lwflags_get_g2flags :: "u16 \<Rightarrow> byte" where
  "lwflags_get_g2flags f =
     (let gf = g2flag_set 0 G2FLAG_Z (hasz f);
          gf = g2flag_set gf G2FLAG_M (hasm f);
          gf = g2flag_set gf G2FLAG_BBOX (has_bits f LWFLAG_BBOX);
          gf = g2flag_set gf G2FLAG_GEODETIC (has_bits f LWFLAG_GEODETIC);
          gf = g2flag_set gf G2FLAG_EXTENDED (lwflags_uses_extended_flags f)
      in g2flag_set gf G2FLAG_VER_0 True)"

definition g2flags :: "bool \<Rightarrow> bool \<Rightarrow> bool \<Rightarrow> byte" where
  "g2flags has_z has_m is_geodetic =
     (let gf = (if has_z then g2flag_set 0 G2FLAG_Z True else 0);
          gf = (if has_m then g2flag_set gf G2FLAG_M True else gf)
      in if is_geodetic then g2flag_set gf G2FLAG_GEODETIC True else gf)"

definition gserialized2_has_bbox :: "gserialized \<Rightarrow> bool" where
  "gserialized2_has_bbox g = has_bits (gs_gflags g) G2FLAG_BBOX"

definition gserialized2_has_extended :: "gserialized \<Rightarrow> bool" where
  "gserialized2_has_extended g = has_bits (gs_gflags g) G2FLAG_EXTENDED"

definition gserialized2_has_z :: "gserialized \<Rightarrow> bool" where
  "gserialized2_has_z g = has_bits (gs_gflags g) G2FLAG_Z"

definition gserialized2_has_m :: "gserialized \<Rightarrow> bool" where
  "gserialized2_has_m g = has_bits (gs_gflags g) G2FLAG_M"

definition gserialized2_ndims :: "gserialized \<Rightarrow> nat" where
  "gserialized2_ndims g = G2FLAGS_NDIMS (gs_gflags g)"

definition gserialized2_is_geodetic :: "gserialized \<Rightarrow> bool" where
  "gserialized2_is_geodetic g = has_bits (gs_gflags g) G2FLAG_GEODETIC"

definition gserialized2_max_header_size :: nat where
  "gserialized2_max_header_size = 8 + 8 * 4 + 8 + 4"

section \<open>Reading memory\<close>

definition gserialized2_get_uint32_t :: "byte list \<Rightarrow> nat \<Rightarrow> lwerr + nat" where
  "gserialized2_get_uint32_t d p = bindE (mem_at d p 4) (\<lambda>bs. Inr (unat (le_word bs :: u32)))"

text \<open>\<open>n\<close> doubles, or floats, stored one after the other.\<close>

fun doubles_at :: "byte list \<Rightarrow> nat \<Rightarrow> nat \<Rightarrow> lwerr + double list" where
  "doubles_at d p 0 = Inr []"
| "doubles_at d p (Suc n) =
     bindE (mem_at d p 8) (\<lambda>bs. bindE (doubles_at d (p + 8) n) (\<lambda>ds. Inr (le_word bs # ds)))"

fun floats_at :: "byte list \<Rightarrow> nat \<Rightarrow> nat \<Rightarrow> lwerr + float32 list" where
  "floats_at d p 0 = Inr []"
| "floats_at d p (Suc n) =
     bindE (mem_at d p 4) (\<lambda>bs. bindE (floats_at d (p + 4) n) (\<lambda>ds. Inr (le_word bs # ds)))"

section \<open>The header\<close>

definition gserialized2_buffer_size :: "gserialized \<Rightarrow> nat" where
  "gserialized2_buffer_size g = LWSIZE_GET (gs_size g)"

definition gserialized2_get_lwflags :: "gserialized \<Rightarrow> lwerr + u16" where
  "gserialized2_get_lwflags g =
     (let f = gs_gflags g;
          l = flag_set 0 LWFLAG_Z (has_bits f G2FLAG_Z);
          l = flag_set l LWFLAG_M (has_bits f G2FLAG_M);
          l = flag_set l LWFLAG_BBOX (has_bits f G2FLAG_BBOX);
          l = flag_set l LWFLAG_GEODETIC (has_bits f G2FLAG_GEODETIC)
      in if has_bits f G2FLAG_EXTENDED then
           bindE (require (\<not> gserialized2_buffer_size g < 8 + 8)
             ''%s: GSERIALIZED too small for extended flags'') (\<lambda>_.
           bindE (mem_at (gs_data g) 0 8) (\<lambda>bs.
           Inr (flag_set l LWFLAG_SOLID (has_bits (le_word bs :: u64) G2FLAG_X_SOLID))))
         else Inr l)"

definition gserialized2_box_size :: "gserialized \<Rightarrow> nat" where
  "gserialized2_box_size g =
     (if has_bits (gs_gflags g) G2FLAG_GEODETIC then 6 * 4 else 2 * G2FLAGS_NDIMS (gs_gflags g) * 4)"

definition gserialized2_header_size :: "gserialized \<Rightarrow> nat" where
  "gserialized2_header_size g =
     (let sz = 8;
          sz = (if gserialized2_has_extended g then sz + 8 else sz)
      in if gserialized2_has_bbox g then sz + gserialized2_box_size g else sz)"

text \<open>The offset of the geometry in the data area.\<close>

definition gserialized2_get_geometry_p :: "gserialized \<Rightarrow> nat" where
  "gserialized2_get_geometry_p g =
     (let extra = (if gserialized2_has_extended g then 8 else 0)
      in if gserialized2_has_bbox g then extra + gserialized2_box_size g else extra)"

definition gserialized2_get_type :: "gserialized \<Rightarrow> lwerr + nat" where
  "gserialized2_get_type g =
     bindE (require (\<not> gserialized2_buffer_size g < gserialized2_header_size g + 4)
       ''%s: GSERIALIZED too small for geometry type'') (\<lambda>_.
     gserialized2_get_uint32_t (gs_data g) (gserialized2_get_geometry_p g))"

definition gserialized2_get_srid :: "gserialized \<Rightarrow> int" where
  "gserialized2_get_srid g =
     (case gs_srid g of (s0, s1, s2) \<Rightarrow>
        let s = 0 OR push_bit 16 (ucast s0 :: u32);
            s = s OR push_bit 8 (ucast s1);
            s = s OR ucast s2;
            s = (if has_bits s 0x00100000 then s OR 0xFFE00000 else s)
        in if s = 0 then SRID_UNKNOWN else sint s)"

definition gserialized2_set_srid :: "int \<Rightarrow> gserialized \<Rightarrow> gserialized" where
  "gserialized2_set_srid s g =
     (let s = clamp_srid s;
          s = (if s = SRID_UNKNOWN then 0 else s);
          w = (word_of_int s :: u32)
      in g\<lparr>gs_srid := (ucast (drop_bit 16 (w AND 0x001F0000)), ucast (drop_bit 8 (w AND 0x0000FF00)),
                        ucast (w AND 0x000000FF))\<rparr>)"

section \<open>Validation\<close>

definition gserialized2_validate_nurbs ::
  "byte list \<Rightarrow> nat \<Rightarrow> nat \<Rightarrow> nat \<Rightarrow> nat \<Rightarrow> nat \<Rightarrow> nat \<Rightarrow> lwerr + unit" where
  "gserialized2_validate_nurbs d n degree nweights nknots weights knots =
     bindE (require (\<not> (degree < 1 \<or> degree > 10)) ''NURBS: degree %u outside valid range [1,10]'') (\<lambda>_.
     if n = 0 then
       require (\<not> (nweights \<noteq> 0 \<or> nknots \<noteq> 0)) ''NURBS: empty curve cannot declare weights or knots''
     else
       bindE (require (\<not> n < degree + 1)
         ''NURBS: npoints (%u) must be at least degree + 1 (%u)'') (\<lambda>_.
       bindE (require (\<not> (nweights > 0 \<and> nweights \<noteq> n))
         ''NURBS: nweights (%u) must equal number of control points (%u)'') (\<lambda>_.
       bindE (require (\<not> (nknots > 0 \<and> nknots \<noteq> n + degree + 1))
         ''NURBS: nknots (%u) must equal npoints + degree + 1 (%zu)'') (\<lambda>_.
       bindE (doubles_at d weights nweights) (\<lambda>ws.
       bindE (require (list_all fin_pos ws) ''NURBS: weight[%u] = %g must be finite and > 0'') (\<lambda>_.
       bindE (doubles_at d knots nknots) (\<lambda>ks.
       require (knots_ok ks) ''NURBS: knot[%u] = %g must be finite and >= knot[%u] = %g'')))))))"

definition gserialized2_range_available :: "nat \<Rightarrow> nat \<Rightarrow> nat \<Rightarrow> bool" where
  "gserialized2_range_available p e len \<longleftrightarrow> p \<le> e \<and> len \<le> e - p"

abbreviation SIZE_T_MAX :: nat where "SIZE_T_MAX \<equiv> 2 ^ 64 - 1"

definition gserialized2_checked_mul :: "nat \<Rightarrow> nat \<Rightarrow> nat option" where
  "gserialized2_checked_mul a b = (if a \<noteq> 0 \<and> b > SIZE_T_MAX div a then None else Some (a * b))"

definition gserialized2_checked_add :: "nat \<Rightarrow> nat \<Rightarrow> nat option" where
  "gserialized2_checked_add a b = (if b > SIZE_T_MAX - a then None else Some (a + b))"

text \<open>The result is the offsets of the payload and of the end of the buffer in the data area.\<close>

definition gserialized2_payload_bounds :: "gserialized \<Rightarrow> (nat \<times> nat) option" where
  "gserialized2_payload_bounds g =
     (if gserialized2_buffer_size g < gserialized2_header_size g then None
      else Some (gserialized2_header_size g - 8, gserialized2_buffer_size g - 8))"

definition gserialized2_read_uint32_checked :: "byte list \<Rightarrow> nat \<Rightarrow> nat \<Rightarrow> lwerr + nat" where
  "gserialized2_read_uint32_checked d p e =
     bindE (require (gserialized2_range_available p e 4) ''%s: GSERIALIZED too small for %s'') (\<lambda>_.
     gserialized2_get_uint32_t d p)"

text \<open>A failed overflow check.\<close>

definition checked :: "string \<Rightarrow> nat option \<Rightarrow> lwerr + nat" where
  "checked msg r = (case r of None \<Rightarrow> Inl (LwError msg) | Some n \<Rightarrow> Inr n)"

definition gserialized2_pointarray_payload_size :: "nat \<Rightarrow> u16 \<Rightarrow> lwerr + nat" where
  "gserialized2_pointarray_payload_size n f =
     checked ''%s: GSERIALIZED point count overflows payload size''
       (gserialized2_checked_mul n (8 * FLAGS_NDIMS f))"

text \<open>The bytes of the points of \<open>n\<close> rings whose counts begin at \<open>p\<close>, added to \<open>acc\<close>.\<close>

fun ring_bytes_sum :: "byte list \<Rightarrow> nat \<Rightarrow> u16 \<Rightarrow> nat \<Rightarrow> nat \<Rightarrow> nat \<Rightarrow> lwerr + nat" where
  "ring_bytes_sum d e f p 0 acc = Inr acc"
| "ring_bytes_sum d e f p (Suc n) acc =
     bindE (gserialized2_read_uint32_checked d p e) (\<lambda>k.
     bindE (gserialized2_pointarray_payload_size k f) (\<lambda>ring_point_bytes.
     bindE (checked ''%s: GSERIALIZED polygon coordinate size overflows''
       (gserialized2_checked_add acc ring_point_bytes)) (\<lambda>acc.
     ring_bytes_sum d e f (p + 4) n acc)))"

definition validate_points :: "nat \<Rightarrow> u16 \<Rightarrow> lwerr + nat" where
  "validate_points count f =
     bindE (gserialized2_pointarray_payload_size count f) (\<lambda>point_bytes. Inr (8 + point_bytes))"

definition validate_polygon :: "byte list \<Rightarrow> nat \<Rightarrow> nat \<Rightarrow> u16 \<Rightarrow> nat \<Rightarrow> lwerr + nat" where
  "validate_polygon d p e f count =
     bindE (checked ''%s: GSERIALIZED ring count overflows payload size''
       (gserialized2_checked_mul count 4)) (\<lambda>ring_counts_size.
     let padded = ring_counts_size + (if count mod 2 \<noteq> 0 then 4 else 0) in
     bindE (require (gserialized2_range_available (p + 8) e padded)
       ''%s: GSERIALIZED polygon ring table exceeds payload size'') (\<lambda>_.
     bindE (ring_bytes_sum d e f (p + 8) count 0) (\<lambda>point_bytes_sum.
     checked ''%s: GSERIALIZED polygon size overflows''
       (gserialized2_checked_add (8 + padded) point_bytes_sum))))"

text \<open>The loop over the members of a collection; \<open>val\<close> is the recursive call, the result
  the offset behind the last member.\<close>

fun validate_members ::
  "(nat \<Rightarrow> lwerr + nat) \<Rightarrow> nat \<Rightarrow> byte list \<Rightarrow> nat \<Rightarrow> nat \<Rightarrow> nat \<Rightarrow> lwerr + nat" where
  "validate_members val type d e 0 p = Inr p"
| "validate_members val type d e (Suc n) p =
     bindE (gserialized2_read_uint32_checked d p e) (\<lambda>subtype.
     bindE (require (lwcollection_allows_subtype type subtype)
       ''Invalid subtype (%s) for collection type (%s)'') (\<lambda>_.
     bindE (val p) (\<lambda>subsize.
     bindE (require (subsize \<noteq> 0) ''%s: GSERIALIZED collection member has zero size'') (\<lambda>_.
     validate_members val type d e n (p + subsize)))))"

definition validate_nurbs_buffer :: "byte list \<Rightarrow> nat \<Rightarrow> nat \<Rightarrow> u16 \<Rightarrow> nat \<Rightarrow> lwerr + nat" where
  "validate_nurbs_buffer d p e f count =
     bindE (require (gserialized2_range_available p e 24)
       ''%s: GSERIALIZED NURBS header exceeds payload size'') (\<lambda>_.
     bindE (gserialized2_read_uint32_checked d (p + 8) e) (\<lambda>degree.
     bindE (gserialized2_read_uint32_checked d (p + 12) e) (\<lambda>nweights.
     bindE (gserialized2_read_uint32_checked d (p + 16) e) (\<lambda>nknots.
     bindE (checked ''%s: GSERIALIZED NURBS vector size overflows''
       (gserialized2_checked_mul nweights 8)) (\<lambda>weight_bytes.
     bindE (checked ''%s: GSERIALIZED NURBS vector size overflows''
       (gserialized2_checked_mul nknots 8)) (\<lambda>knot_bytes.
     bindE (gserialized2_pointarray_payload_size count f) (\<lambda>point_bytes.
     bindE (checked ''%s: GSERIALIZED NURBS size overflows''
       (gserialized2_checked_add 24 weight_bytes)) (\<lambda>consumed.
     bindE (checked ''%s: GSERIALIZED NURBS size overflows''
       (gserialized2_checked_add consumed knot_bytes)) (\<lambda>consumed.
     bindE (checked ''%s: GSERIALIZED NURBS size overflows''
       (gserialized2_checked_add consumed point_bytes)) (\<lambda>consumed.
     bindE (require (gserialized2_range_available p e consumed)
       ''%s: GSERIALIZED NURBS payload exceeds declared size'') (\<lambda>_.
     bindE (gserialized2_validate_nurbs d count degree nweights nknots (p + 24) (p + 24 + weight_bytes))
       (\<lambda>_. Inr consumed))))))))))))"

text \<open>
  The first argument bounds the nesting. Every level takes at least the eight bytes of
  its type and count, so a bound above an eighth of the data is enough: validation never
  runs out of fuel (\<open>validate_no_fault\<close> in theory GS2Safe).
\<close>

primrec gserialized2_validate_geometry_buffer ::
  "nat \<Rightarrow> byte list \<Rightarrow> nat \<Rightarrow> nat \<Rightarrow> u16 \<Rightarrow> lwerr + nat" where
  "gserialized2_validate_geometry_buffer 0 d p e f = Inl OutOfFuel"
| "gserialized2_validate_geometry_buffer (Suc fuel) d p e f =
     bindE (require (gserialized2_range_available p e 8)
       ''%s: GSERIALIZED geometry payload is too short'') (\<lambda>_.
     bindE (gserialized2_read_uint32_checked d p e) (\<lambda>type.
     bindE (gserialized2_read_uint32_checked d (p + 4) e) (\<lambda>count.
     bindE
       (if type = POINTTYPE then
          bindE (require (\<not> count > 1) ''%s: invalid point count %u'') (\<lambda>_. validate_points count f)
        else if type \<in> set [LINETYPE, CIRCSTRINGTYPE, TRIANGLETYPE] then validate_points count f
        else if type = POLYGONTYPE then validate_polygon d p e f count
        else if type \<in> set [MULTIPOINTTYPE, MULTILINETYPE, MULTIPOLYGONTYPE, COMPOUNDTYPE,
          CURVEPOLYTYPE, MULTICURVETYPE, MULTISURFACETYPE, POLYHEDRALSURFACETYPE, TINTYPE,
          COLLECTIONTYPE] then
          bindE (validate_members
            (\<lambda>q. gserialized2_validate_geometry_buffer fuel d q e (flag_set f LWFLAG_BBOX False))
            type d e count (p + 8)) (\<lambda>q. Inr (q - p))
        else if type = NURBSCURVETYPE then validate_nurbs_buffer d p e f count
        else Inl (LwError ''Unknown geometry type: %d - %s'')) (\<lambda>consumed.
     bindE (require (gserialized2_range_available p e consumed)
       ''%s: GSERIALIZED geometry payload exceeds declared size'') (\<lambda>_. Inr consumed)))))"

abbreviation validate_fuel :: "byte list \<Rightarrow> nat" where
  "validate_fuel d \<equiv> Suc (length d)"

end
