(* ===== verification/GS2Read.thy ===== *)
theory GS2Read
  imports GSerialized2
begin

text \<open>
  Reading the on-disk form (gserialized2.c): building a geometry from a validated buffer,
  and the answers that do without one: emptiness, hash, box and first point.

  The point arrays of a geometry that was read refer to the buffer; they hold the
  coordinates found there. A box is filled in place, so the box passed in is an argument
  and a boolean says whether the call succeeded.
\<close>

section \<open>Geometries\<close>

definition ptarray_construct_reference_data :: "bool \<Rightarrow> bool \<Rightarrow> nat \<Rightarrow> double list \<Rightarrow> pointarray" where
  "ptarray_construct_reference_data z m n coords =
     \<lparr>npoints = n, maxpoints = n, pflags = flag_set (lwflags z m False) LWFLAG_READONLY True,
      ptlist = coords\<rparr>"

text \<open>The array of \<open>n\<close> points at \<open>p\<close>.\<close>

definition points_at :: "byte list \<Rightarrow> u16 \<Rightarrow> nat \<Rightarrow> nat \<Rightarrow> lwerr + pointarray" where
  "points_at d f n p =
     bindE (doubles_at d p (n * FLAGS_NDIMS f)) (\<lambda>coords.
     Inr (ptarray_construct_reference_data (hasz f) (hasm f) n coords))"

definition ptarray_at :: "byte list \<Rightarrow> u16 \<Rightarrow> nat \<Rightarrow> nat \<Rightarrow> lwerr + pointarray" where
  "ptarray_at d f n p =
     (if n > 0 then points_at d f n p else Inr (ptarray_construct (hasz f) (hasm f) 0 []))"

definition read_head :: "u16 \<Rightarrow> int \<Rightarrow> lwhead" where
  "read_head f s = \<lparr>bbox = None, srid = s, flags = f\<rparr>"

definition lwpoint_from_gserialized2_buffer ::
  "byte list \<Rightarrow> nat \<Rightarrow> u16 \<Rightarrow> int \<Rightarrow> lwerr + (lwgeom \<times> nat)" where
  "lwpoint_from_gserialized2_buffer d p f s =
     bindE (gserialized2_get_uint32_t d (p + 4)) (\<lambda>n.
     bindE (ptarray_at d f (if n > 0 then 1 else 0) (p + 8)) (\<lambda>pa.
     Inr (LWPOINT (read_head f s) pa, 8 + 8 * n * FLAGS_NDIMS f)))"

text \<open>The readers of lines, circular strings and triangles differ in the struct they build.\<close>

definition curve_from_gserialized2_buffer ::
  "(lwhead \<Rightarrow> pointarray \<Rightarrow> lwgeom) \<Rightarrow> byte list \<Rightarrow> nat \<Rightarrow> u16 \<Rightarrow> int \<Rightarrow> lwerr + (lwgeom \<times> nat)" where
  "curve_from_gserialized2_buffer C d p f s =
     bindE (gserialized2_get_uint32_t d (p + 4)) (\<lambda>n.
     bindE (ptarray_at d f n (p + 8)) (\<lambda>pa.
     Inr (C (read_head f s) pa, 8 + 8 * FLAGS_NDIMS f * n)))"

abbreviation lwline_from_gserialized2_buffer :: "byte list \<Rightarrow> nat \<Rightarrow> u16 \<Rightarrow> int \<Rightarrow> lwerr + (lwgeom \<times> nat)" where
  "lwline_from_gserialized2_buffer \<equiv> curve_from_gserialized2_buffer LWLINE"

abbreviation lwcircstring_from_gserialized2_buffer :: "byte list \<Rightarrow> nat \<Rightarrow> u16 \<Rightarrow> int \<Rightarrow> lwerr + (lwgeom \<times> nat)" where
  "lwcircstring_from_gserialized2_buffer \<equiv> curve_from_gserialized2_buffer LWCIRCSTRING"

abbreviation lwtriangle_from_gserialized2_buffer :: "byte list \<Rightarrow> nat \<Rightarrow> u16 \<Rightarrow> int \<Rightarrow> lwerr + (lwgeom \<times> nat)" where
  "lwtriangle_from_gserialized2_buffer \<equiv> curve_from_gserialized2_buffer LWTRIANGLE"


text \<open>\<open>q\<close> walks over the counts, \<open>o\<close> over the ordinates.\<close>

fun rings_from_gserialized2_buffer ::
  "byte list \<Rightarrow> u16 \<Rightarrow> nat \<Rightarrow> nat \<Rightarrow> nat \<Rightarrow> lwerr + (pointarray list \<times> nat)" where
  "rings_from_gserialized2_buffer d f 0 q ord = Inr ([], ord)"
| "rings_from_gserialized2_buffer d f (Suc k) q ord =
     bindE (gserialized2_get_uint32_t d q) (\<lambda>n.
     bindE (points_at d f n ord) (\<lambda>pa.
     bindE (rings_from_gserialized2_buffer d f k (q + 4) (ord + 8 * FLAGS_NDIMS f * n)) (\<lambda>(rs, ord).
     Inr (pa # rs, ord))))"

text \<open>\<open>nrings * 4\<close> is a product of 32-bit integers.\<close>

definition lwpoly_from_gserialized2_buffer ::
  "byte list \<Rightarrow> nat \<Rightarrow> u16 \<Rightarrow> int \<Rightarrow> lwerr + (lwgeom \<times> nat)" where
  "lwpoly_from_gserialized2_buffer d p f s =
     bindE (gserialized2_get_uint32_t d (p + 4)) (\<lambda>nrings.
     let ord = p + 8;
         ord = (if nrings > 0 then ord + nrings * 4 mod 2 ^ 32 + (if nrings mod 2 \<noteq> 0 then 4 else 0) else ord)
     in bindE (rings_from_gserialized2_buffer d f nrings (p + 8) ord) (\<lambda>(rs, ord).
        Inr (LWPOLY (read_head f s) nrings rs, ord - p)))"

text \<open>The loop over the members; \<open>rd\<close> is the recursive call, the offset returned is the one
  behind the last member.\<close>

fun members_from_gserialized2_buffer ::
  "(nat \<Rightarrow> lwerr + (lwgeom \<times> nat)) \<Rightarrow> nat \<Rightarrow> byte list \<Rightarrow> nat \<Rightarrow> nat \<Rightarrow> lwerr + (lwgeom list \<times> nat)" where
  "members_from_gserialized2_buffer rd type d 0 p = Inr ([], p)"
| "members_from_gserialized2_buffer rd type d (Suc k) p =
     bindE (gserialized2_get_uint32_t d p) (\<lambda>subtype.
     bindE (require (lwcollection_allows_subtype type subtype)
       ''Invalid subtype (%s) for collection type (%s)'') (\<lambda>_.
     bindE (rd p) (\<lambda>(g, subsize).
     bindE (members_from_gserialized2_buffer rd type d k (p + subsize)) (\<lambda>(gs, q).
     Inr (g # gs, q)))))"

definition lwcollection_from_gserialized2_buffer ::
  "(u16 \<Rightarrow> nat \<Rightarrow> lwerr + (lwgeom \<times> nat)) \<Rightarrow> byte list \<Rightarrow> nat \<Rightarrow> u16 \<Rightarrow> int \<Rightarrow> lwerr + (lwgeom \<times> nat)" where
  "lwcollection_from_gserialized2_buffer rd d p f s =
     bindE (gserialized2_get_uint32_t d p) (\<lambda>type.
     bindE (gserialized2_get_uint32_t d (p + 4)) (\<lambda>ngeoms.
     bindE (members_from_gserialized2_buffer (rd (flag_set f LWFLAG_BBOX False)) type d ngeoms (p + 8))
       (\<lambda>(gs, q).
     Inr (LWCOLLECTION type (read_head f s) ngeoms (ngeoms > 0) gs, q - p))))"

definition lwnurbscurve_from_gserialized2_buffer ::
  "byte list \<Rightarrow> nat \<Rightarrow> u16 \<Rightarrow> int \<Rightarrow> lwerr + (lwgeom \<times> nat)" where
  "lwnurbscurve_from_gserialized2_buffer d p f s =
     bindE (gserialized2_get_uint32_t d (p + 4)) (\<lambda>n.
     bindE (gserialized2_get_uint32_t d (p + 8)) (\<lambda>degree.
     bindE (gserialized2_get_uint32_t d (p + 12)) (\<lambda>nweights.
     bindE (gserialized2_get_uint32_t d (p + 16)) (\<lambda>nknots.
     bindE (gserialized2_validate_nurbs d n degree nweights nknots (p + 24) (p + 24 + 8 * nweights)) (\<lambda>_.
     bindE (doubles_at d (p + 24) nweights) (\<lambda>ws.
     bindE (doubles_at d (p + 24 + 8 * nweights) nknots) (\<lambda>ks.
     bindE (ptarray_at d f n (p + 24 + 8 * nweights + 8 * nknots)) (\<lambda>pa.
     Inr (LWNURBSCURVE (read_head f s) degree (Some pa) (if nweights > 0 then Some ws else None)
            (if nknots > 0 then Some ks else None),
          24 + 8 * nweights + 8 * nknots + 8 * FLAGS_NDIMS f * n)))))))))"

primrec lwgeom_from_gserialized2_buffer ::
  "nat \<Rightarrow> byte list \<Rightarrow> int \<Rightarrow> u16 \<Rightarrow> nat \<Rightarrow> lwerr + (lwgeom \<times> nat)" where
  "lwgeom_from_gserialized2_buffer 0 d s f p = Inl OutOfFuel"
| "lwgeom_from_gserialized2_buffer (Suc fuel) d s f p =
     bindE (gserialized2_get_uint32_t d p) (\<lambda>type.
     if type = POINTTYPE then lwpoint_from_gserialized2_buffer d p f s
     else if type = LINETYPE then lwline_from_gserialized2_buffer d p f s
     else if type = CIRCSTRINGTYPE then lwcircstring_from_gserialized2_buffer d p f s
     else if type = POLYGONTYPE then lwpoly_from_gserialized2_buffer d p f s
     else if type = TRIANGLETYPE then lwtriangle_from_gserialized2_buffer d p f s
     else if type \<in> set [MULTIPOINTTYPE, MULTILINETYPE, MULTIPOLYGONTYPE, COMPOUNDTYPE,
       CURVEPOLYTYPE, MULTICURVETYPE, MULTISURFACETYPE, POLYHEDRALSURFACETYPE, TINTYPE,
       COLLECTIONTYPE] then
       lwcollection_from_gserialized2_buffer (lwgeom_from_gserialized2_buffer fuel d s) d p f s
     else if type = NURBSCURVETYPE then lwnurbscurve_from_gserialized2_buffer d p f s
     else Inl (LwError ''Unknown geometry type: %d - %s''))"

section \<open>The stored box\<close>

text \<open>The offset of the floats in the data area.\<close>

definition gserialized2_get_float_box_p :: "gserialized \<Rightarrow> nat option" where
  "gserialized2_get_float_box_p g =
     (if \<not> gserialized2_has_bbox g then None
      else
        let p = (if gserialized2_has_extended g then 8 else 0);
            box_offset = (if gserialized2_has_extended g then 8 + 8 else 8)
        in if gserialized2_buffer_size g < box_offset + gserialized2_box_size g then None else Some p)"

text \<open>The floats of a box, in the order they are stored, assigned to it.\<close>

definition box_of_floats :: "byte \<Rightarrow> float32 list \<Rightarrow> gbox \<Rightarrow> gbox" where
  "box_of_floats gf fs b =
     (let v = (\<lambda>i. dbl_of_float (fs ! i));
          b = b\<lparr>xmin := v 0, xmax := v 1, ymin := v 2, ymax := v 3\<rparr>
      in if has_bits gf G2FLAG_GEODETIC then b\<lparr>zmin := v 4, zmax := v 5\<rparr>
         else
           let (b, i) = (if has_bits gf G2FLAG_Z then (b\<lparr>zmin := v 4, zmax := v 5\<rparr>, 6) else (b, 4))
           in if has_bits gf G2FLAG_M then b\<lparr>mmin := v i, mmax := v (i + 1)\<rparr> else b)"

definition gserialized2_read_gbox_p :: "gserialized \<Rightarrow> gbox \<Rightarrow> lwerr + (bool \<times> gbox)" where
  "gserialized2_read_gbox_p g b =
     bindE (gserialized2_get_lwflags g) (\<lambda>f.
     let b = b\<lparr>gflags := f\<rparr> in
     if gserialized2_has_bbox g then
       case gserialized2_get_float_box_p g of
         None \<Rightarrow> Inr (False, b)
       | Some p \<Rightarrow>
           bindE (floats_at (gs_data g) p (gserialized2_box_size g div 4)) (\<lambda>fs.
           Inr (True, box_of_floats (gs_gflags g) fs b))
     else Inr (False, b))"

section \<open>The whole buffer\<close>

text \<open>\<open>stack\<close> is what the uninitialised box of the caller's frame holds.\<close>

definition lwgeom_from_gserialized2 :: "box_calc \<Rightarrow> gbox \<Rightarrow> gserialized \<Rightarrow> lwerr + lwgeom" where
  "lwgeom_from_gserialized2 calc stack g =
     (let s = gserialized2_get_srid g; d = gs_data g in
      bindE (gserialized2_get_lwflags g) (\<lambda>f.
      case gserialized2_payload_bounds g of
        None \<Rightarrow> Inl (LwError ''%s: invalid GSERIALIZED header size'')
      | Some (p, e) \<Rightarrow>
      bindE (gserialized2_validate_geometry_buffer (validate_fuel d) d p e f) (\<lambda>_.
      bindE (gserialized2_get_type g) (\<lambda>t.
      bindE (lwgeom_from_gserialized2_buffer (validate_fuel d) d s f p) (\<lambda>(geom, _).
      let geom = map_lwhead (\<lambda>h. h\<lparr>flags := f\<rparr>) geom in
      bindE (gserialized2_read_gbox_p g stack) (\<lambda>(ok, b).
      if ok then Inr (map_lwhead (\<lambda>h. h\<lparr>bbox := Some b\<rparr>) geom)
      else if lwgeom_needs_bbox geom then
        case lwgeom_calculate_gbox calc geom b of
          (ok, b) \<Rightarrow> Inr (map_lwhead (\<lambda>h. h\<lparr>bbox := if ok then Some b else None\<rparr>) geom)
      else Inr (map_lwhead (\<lambda>h. h\<lparr>bbox := None\<rparr>) geom)))))))"

section \<open>Emptiness\<close>

text \<open>The loop over the counts of the rings: the offset behind the last count read, and
  whether all were zero.\<close>

fun rings_empty :: "byte list \<Rightarrow> nat \<Rightarrow> nat \<Rightarrow> nat \<Rightarrow> lwerr + (nat \<times> bool)" where
  "rings_empty d p 0 lz = Inr (lz, True)"
| "rings_empty d p (Suc k) lz =
     bindE (gserialized2_get_uint32_t d (p + lz)) (\<lambda>lrnum.
     if lrnum > 0 then Inr (lz + 4, False) else rings_empty d p k (lz + 4))"

fun members_empty :: "(nat \<Rightarrow> lwerr + (nat \<times> bool)) \<Rightarrow> nat \<Rightarrow> nat \<Rightarrow> nat \<Rightarrow> lwerr + (nat \<times> bool)" where
  "members_empty rec p 0 lz = Inr (lz, True)"
| "members_empty rec p (Suc k) lz =
     bindE (rec (p + lz)) (\<lambda>(n, isempty).
     if \<not> isempty then Inr (lz + n, False) else members_empty rec p k (lz + n))"

text \<open>The offset behind what was looked at and the new value of \<open>isempty\<close>; the function
  is only called, and only continues, while \<open>isempty\<close> is set.\<close>

primrec gserialized2_is_empty_recurse :: "nat \<Rightarrow> byte list \<Rightarrow> nat \<Rightarrow> lwerr + (nat \<times> bool)" where
  "gserialized2_is_empty_recurse 0 d p = Inl OutOfFuel"
| "gserialized2_is_empty_recurse (Suc fuel) d p =
     bindE (gserialized2_get_uint32_t d p) (\<lambda>type.
     bindE (gserialized2_get_uint32_t d (p + 4)) (\<lambda>num.
     if lwtype_is_collection (type mod 256) then members_empty (gserialized2_is_empty_recurse fuel d) p num 8
     else if num = 0 then
       (if type = NURBSCURVETYPE then
          bindE (gserialized2_get_uint32_t d (p + 12)) (\<lambda>nweights.
          bindE (gserialized2_get_uint32_t d (p + 16)) (\<lambda>nknots.
          Inr (24 + 8 * (nweights + nknots), True)))
        else Inr (8, True))
     else if type = POLYGONTYPE then rings_empty d p num 8
     else Inr (8, False)))"

definition gserialized2_is_empty :: "gserialized \<Rightarrow> lwerr + bool" where
  "gserialized2_is_empty g =
     (case gserialized2_payload_bounds g of
        None \<Rightarrow> Inl (LwError ''%s: invalid GSERIALIZED header size'')
      | Some (p, e) \<Rightarrow>
          bindE (gserialized2_get_lwflags g) (\<lambda>f.
          bindE (gserialized2_validate_geometry_buffer (validate_fuel (gs_data g)) (gs_data g) p e f) (\<lambda>_.
          bindE (gserialized2_is_empty_recurse (validate_fuel (gs_data g)) (gs_data g) p) (\<lambda>(_, isempty).
          Inr isempty))))"

section \<open>Hash and first point\<close>

text \<open>\<open>hashlittle2\<close> (lookup3.c) maps a key and two starting values to two hash values; the
  call passes \<open>pb\<close> as the primary one. A payload size below zero wraps and no memory can
  be had for it.\<close>

definition gserialized2_hash ::
  "(byte list \<Rightarrow> u32 \<times> u32 \<Rightarrow> u32 \<times> u32) \<Rightarrow> gserialized \<Rightarrow> lwerr + int" where
  "gserialized2_hash hashlittle2 g1 =
     (let hsz1 = gserialized2_header_size g1; sz1 = LWSIZE_GET (gs_size g1) in
      if sz1 < hsz1 then Inl MemFault
      else
        bindE (mem_at (gs_data g1) (hsz1 - 8) (sz1 - hsz1)) (\<lambda>b1.
        let b2 = le_bytes 4 (word_of_int (gserialized2_get_srid g1) :: u32) @ b1
        in case hashlittle2 b2 (0, 0) of (pb, pc) \<Rightarrow> Inr (sint (pb XOR pc))))"

text \<open>A \<open>POINT4D\<close> as its four coordinates; the missing ones keep what was there.\<close>

definition gserialized2_copy_point ::
  "byte \<Rightarrow> double list \<Rightarrow> double \<times> double \<times> double \<times> double \<Rightarrow> double \<times> double \<times> double \<times> double" where
  "gserialized2_copy_point f dptr out_point =
     (case out_point of (_, _, z, m) \<Rightarrow>
        let (z, dim) = (if has_bits f G2FLAG_Z then (dptr ! 2, 3) else (z, 2));
            m = (if has_bits f G2FLAG_M then dptr ! dim else m)
        in (dptr ! 0, dptr ! 1, z, m))"

definition gserialized2_peek_first_point ::
  "gserialized \<Rightarrow> double \<times> double \<times> double \<times> double \<Rightarrow>
   lwerr + (bool \<times> double \<times> double \<times> double \<times> double)" where
  "gserialized2_peek_first_point g out_point =
     (case gserialized2_payload_bounds g of
        None \<Rightarrow> Inr (False, out_point)
      | Some (p, e) \<Rightarrow>
          bindE (gserialized2_get_lwflags g) (\<lambda>f.
          bindE (gserialized2_validate_geometry_buffer (validate_fuel (gs_data g)) (gs_data g) p e f) (\<lambda>_.
          bindE (gserialized2_get_uint32_t (gs_data g) (p + 4)) (\<lambda>count.
          if count = 0 then Inr (False, out_point)
          else
            bindE (gserialized2_get_uint32_t (gs_data g) p) (\<lambda>type.
            bindE (require (type = POINTTYPE) ''%s is currently not implemented for type %d'') (\<lambda>_.
            bindE (doubles_at (gs_data g) (p + 8) (G2FLAGS_NDIMS (gs_gflags g))) (\<lambda>ds.
            Inr (True, gserialized2_copy_point (gs_gflags g) ds out_point))))))))"

section \<open>Boxes of small geometries\<close>

text \<open>The bounds of one point, or of two, given by their coordinates in order.\<close>

definition box_between :: "u16 \<Rightarrow> double list \<Rightarrow> double list \<Rightarrow> gbox \<Rightarrow> gbox" where
  "box_between f lo hi b =
     (let b = b\<lparr>gflags := f, xmin := lo ! 0, xmax := hi ! 0, ymin := lo ! 1, ymax := hi ! 1\<rparr>;
          (b, i) = (if hasz f then (b\<lparr>zmin := lo ! 2, zmax := hi ! 2\<rparr>, 3) else (b, 2))
      in gbox_float_round (if hasm f then b\<lparr>mmin := lo ! i, mmax := hi ! i\<rparr> else b))"

text \<open>The box of the point at an offset, and of the two points from an offset.\<close>

definition peek_point :: "byte list \<Rightarrow> nat \<Rightarrow> u16 \<Rightarrow> gbox \<Rightarrow> lwerr + (bool \<times> gbox)" where
  "peek_point d q f b =
     bindE (doubles_at d q (FLAGS_NDIMS f)) (\<lambda>ds. Inr (True, box_between f ds ds b))"

definition peek_segment :: "byte list \<Rightarrow> nat \<Rightarrow> u16 \<Rightarrow> gbox \<Rightarrow> lwerr + (bool \<times> gbox)" where
  "peek_segment d q f b =
     bindE (doubles_at d q (FLAGS_NDIMS f)) (\<lambda>ds.
     bindE (doubles_at d (q + 8 * FLAGS_NDIMS f) (FLAGS_NDIMS f)) (\<lambda>es.
     Inr (True, box_between f (map2 fp_min ds es) (map2 fp_max ds es) b)))"

definition gserialized2_peek_gbox_p :: "gserialized \<Rightarrow> gbox \<Rightarrow> lwerr + (bool \<times> gbox)" where
  "gserialized2_peek_gbox_p g b =
     (case gserialized2_payload_bounds g of
        None \<Rightarrow> Inr (False, b)
      | Some (p, e) \<Rightarrow>
          let d = gs_data g in
          bindE (gserialized2_get_lwflags g) (\<lambda>f.
          bindE (gserialized2_validate_geometry_buffer (validate_fuel d) d p e f) (\<lambda>_.
          bindE (gserialized2_get_type g) (\<lambda>type.
          if has_bits (gs_gflags g) G2FLAG_GEODETIC \<or> has_bits (gs_gflags g) G2FLAG_BBOX then Inr (False, b)
          else
            bindE (gserialized2_get_uint32_t d (p + 4)) (\<lambda>count.
            if type = POINTTYPE then (if count = 0 then Inr (False, b) else peek_point d (p + 8) f b)
            else if type = LINETYPE then
              (if count \<noteq> 2 then Inr (False, b) else peek_segment d (p + 8) f b)
            else if type = MULTIPOINTTYPE then
              (if count \<noteq> 1 then Inr (False, b)
               else bindE (gserialized2_get_uint32_t d (p + 12)) (\<lambda>n.
                 if n \<noteq> 1 then Inr (False, b) else peek_point d (p + 16) f b))
            else if type = MULTILINETYPE then
              (if count \<noteq> 1 then Inr (False, b)
               else bindE (gserialized2_get_uint32_t d (p + 12)) (\<lambda>n.
                 if n \<noteq> 2 then Inr (False, b) else peek_segment d (p + 16) f b))
            else Inr (False, b))))))"

definition gserialized2_fast_gbox_p :: "gserialized \<Rightarrow> gbox \<Rightarrow> lwerr + (bool \<times> gbox)" where
  "gserialized2_fast_gbox_p g b =
     bindE (gserialized2_read_gbox_p g b) (\<lambda>(ok, b).
     if ok then Inr (True, b) else gserialized2_peek_gbox_p g b)"

text \<open>The general case goes through \<open>lwgeom_from_gserialized\<close>, which reads this version.\<close>

definition gserialized2_get_gbox_p ::
  "box_calc \<Rightarrow> gbox \<Rightarrow> gserialized \<Rightarrow> gbox \<Rightarrow> lwerr + (bool \<times> gbox)" where
  "gserialized2_get_gbox_p calc stack g b =
     bindE (gserialized2_read_gbox_p g b) (\<lambda>(ok, b).
     if ok then Inr (True, b)
     else bindE (gserialized2_peek_gbox_p g b) (\<lambda>(ok, b).
       if ok then Inr (True, b)
       else bindE (lwgeom_from_gserialized2 calc stack g) (\<lambda>geom.
         case lwgeom_calculate_gbox calc geom b of (ret, b) \<Rightarrow> Inr (ret, gbox_float_round b))))"

end
