(* ===== verification/GS2Safe.thy ===== *)
theory GS2Safe
  imports GS2Read
begin

text \<open>
  A buffer that passed validation is read without touching memory outside it, and what is
  read is a well-formed geometry. The validator itself is safe on every buffer whose
  declared size is allocated; the emptiness test is not, see the end.
\<close>

section \<open>Results without faults\<close>

text \<open>A value or an error of the program's own: no fault and no lack of fuel.\<close>

definition no_fault :: "lwerr + 'a \<Rightarrow> bool" where
  "no_fault r \<longleftrightarrow> (\<forall>e. r = Inl e \<longrightarrow> (\<exists>msg. e = LwError msg))"

named_theorems no_fault_intro \<open>where no fault comes from\<close>

lemma no_fault_simps [simp]: "no_fault (Inr x)" "no_fault (Inl (LwError msg))" "\<not> no_fault (Inl MemFault)"
  "no_fault (require c msg)" "no_fault (checked msg r)"
  by (auto simp: no_fault_def require_def checked_def split: option.splits if_splits)

lemma no_fault_bind [no_fault_intro]:
  "no_fault m \<Longrightarrow> (\<And>x. m = Inr x \<Longrightarrow> no_fault (f x)) \<Longrightarrow> no_fault (bindE m f)"
  by (cases m) (auto simp: no_fault_def)

lemma no_fault_if [no_fault_intro]:
  "(c \<Longrightarrow> no_fault a) \<Longrightarrow> (\<not> c \<Longrightarrow> no_fault b) \<Longrightarrow> no_fault (if c then a else b)"
  by simp

section \<open>Memory\<close>

lemma uint32_ok: "p + 4 \<le> length d \<Longrightarrow> \<exists>k<2 ^ 32. gserialized2_get_uint32_t d p = Inr k"
  using unsigned_less [of "le_word (take 4 (drop p d)) :: u32"]
  by (auto simp: gserialized2_get_uint32_t_def mem_at_ok)

lemma uint32_range: "gserialized2_get_uint32_t d p = Inr k \<Longrightarrow> k < 2 ^ 32 \<and> p + 4 \<le> length d"
  using unsigned_less [of "le_word (take 4 (drop p d)) :: u32"]
  by (auto simp: gserialized2_get_uint32_t_def mem_at_def bindE_eq_Inr split: if_splits)

lemma doubles_at_ok: "p + 8 * n \<le> length d \<Longrightarrow> \<exists>ds. doubles_at d p n = Inr ds \<and> length ds = n"
proof (induction n arbitrary: p)
  case (Suc n)
  then have "p + 8 \<le> length d" "p + 8 + 8 * n \<le> length d" by simp_all
  with Suc.IH [of "p + 8"] show ?case by (auto simp: mem_at_ok)
qed simp

lemma floats_at_ok: "p + 4 * n \<le> length d \<Longrightarrow> \<exists>fs. floats_at d p n = Inr fs \<and> length fs = n"
proof (induction n arbitrary: p)
  case (Suc n)
  then have "p + 4 \<le> length d" "p + 4 + 4 * n \<le> length d" by simp_all
  with Suc.IH [of "p + 4"] show ?case by (auto simp: mem_at_ok)
qed simp

lemma length_doubles_at: "doubles_at d p n = Inr ds \<Longrightarrow> length ds = n"
  by (induction n arbitrary: p ds) (auto simp: bindE_eq_Inr)

lemma checked_uint32:
  assumes "gserialized2_read_uint32_checked d p e = Inr k"
  shows "gserialized2_get_uint32_t d p = Inr k" "k < 2 ^ 32" "p + 4 \<le> e"
  using assms uint32_range [of d p k]
  by (auto simp: gserialized2_read_uint32_checked_def gserialized2_range_available_def bindE_eq_Inr)

lemma no_fault_uint32 [no_fault_intro]: "e \<le> length d \<Longrightarrow> no_fault (gserialized2_read_uint32_checked d p e)"
  unfolding gserialized2_read_uint32_checked_def
  by (cases "gserialized2_range_available p e 4")
    (auto simp: gserialized2_range_available_def require_def gserialized2_get_uint32_t_def mem_at_ok)

lemma checked_mul: "gserialized2_checked_mul a b = Some n \<Longrightarrow> n = a * b"
  by (auto simp: gserialized2_checked_mul_def split: if_splits)

lemma checked_add: "gserialized2_checked_add a b = Some n \<Longrightarrow> n = a + b"
  by (auto simp: gserialized2_checked_add_def split: if_splits)

lemma checked_eq_Inr: "checked msg r = Inr n \<longleftrightarrow> r = Some n"
  by (auto simp: checked_def split: option.splits)

lemma payload_size: "gserialized2_pointarray_payload_size n f = Inr k \<Longrightarrow> k = 8 * (n * FLAGS_NDIMS f)"
  by (auto simp: gserialized2_pointarray_payload_size_def checked_eq_Inr dest: checked_mul)

lemma no_fault_payload [simp]: "no_fault (gserialized2_pointarray_payload_size n f)"
  by (simp add: gserialized2_pointarray_payload_size_def)

section \<open>The validator\<close>

lemma validate_nurbs_no_fault:
  assumes "weights + 8 * nweights \<le> length d" "knots + 8 * nknots \<le> length d"
  shows "no_fault (gserialized2_validate_nurbs d n degree nweights nknots weights knots)"
  using doubles_at_ok [OF assms(1)] doubles_at_ok [OF assms(2)]
  by (auto simp: gserialized2_validate_nurbs_def intro!: no_fault_bind)

lemma ring_bytes_no_fault: "e \<le> length d \<Longrightarrow> no_fault (ring_bytes_sum d e f p k acc)"
  by (induction k arbitrary: p acc) (auto intro!: no_fault_intro)

lemma validate_polygon_no_fault: "e \<le> length d \<Longrightarrow> no_fault (validate_polygon d p e f count)"
  by (auto simp: validate_polygon_def Let_def intro!: no_fault_intro ring_bytes_no_fault)

lemma validate_nurbs_buffer_no_fault:
  "e \<le> length d \<Longrightarrow> no_fault (validate_nurbs_buffer d p e f count)"
  unfolding validate_nurbs_buffer_def
  by (intro no_fault_intro validate_nurbs_no_fault)
    (auto simp: checked_eq_Inr gserialized2_range_available_def dest!: checked_mul checked_add payload_size)

lemma validate_members_no_fault:
  assumes "e \<le> length d" "\<And>q. p \<le> q \<Longrightarrow> no_fault (val q)"
  shows "no_fault (validate_members val t d e k p)"
  using assms(2)
proof (induction k arbitrary: p)
  case (Suc k)
  then show ?case using assms(1) by (auto intro!: no_fault_intro)
qed simp

lemma validate_no_fault:
  assumes "e \<le> length d" "0 < fuel" "e < p + 8 * fuel"
  shows "no_fault (gserialized2_validate_geometry_buffer fuel d p e f)"
  using assms(2,3)
proof (induction fuel arbitrary: p f)
  case (Suc fuel)
  have "no_fault (validate_members (\<lambda>q. gserialized2_validate_geometry_buffer fuel d q e f') t d e k (p + 8))"
    if "gserialized2_range_available p e 8" for f' t k
    by (rule validate_members_no_fault [OF assms(1)], rule Suc.IH)
      (use Suc.prems that in \<open>auto simp: gserialized2_range_available_def\<close>)
  then show ?case
    using assms(1)
    by (auto simp: validate_points_def intro!: no_fault_intro validate_polygon_no_fault
        validate_nurbs_buffer_no_fault)
qed simp

section \<open>The reader follows the validator\<close>

text \<open>A point array read with the flags of its geometry.\<close>

definition array_for :: "u16 \<Rightarrow> nat \<Rightarrow> pointarray \<Rightarrow> bool" where
  "array_for f n pa \<longleftrightarrow> pa_wf pa \<and> same_zm f (pflags pa) \<and> npoints pa = n"

lemma array_for_reference:
  "array_for f n (ptarray_construct_reference_data (hasz f) (hasm f) n ds) \<longleftrightarrow>
     length ds = n * FLAGS_NDIMS f \<and> n < 2 ^ 32"
  by (simp add: array_for_def pa_wf_def same_zm_def ptarray_construct_reference_data_def FLAGS_NDIMS_def)

lemma points_at_ok:
  assumes "p + 8 * (n * FLAGS_NDIMS f) \<le> length d" "n < 2 ^ 32"
  shows "\<exists>pa. points_at d f n p = Inr pa \<and> array_for f n pa"
  using doubles_at_ok [OF assms(1)] assms(2) by (auto simp: points_at_def array_for_reference)

lemma ptarray_at_ok:
  assumes "p + 8 * (n * FLAGS_NDIMS f) \<le> length d" "n < 2 ^ 32"
  shows "\<exists>pa. ptarray_at d f n p = Inr pa \<and> array_for f n pa"
  using points_at_ok [OF assms]
  by (auto simp: ptarray_at_def ptarray_construct_def ptarray_construct_empty_def array_for_def pa_wf_def
      same_zm_def)

lemma rings_follow:
  assumes "ring_bytes_sum d e f q k acc = Inr tot"
  shows "\<exists>t. tot = acc + t \<and> (\<forall>ord. ord + t \<le> length d \<longrightarrow>
    (\<exists>rs. rings_from_gserialized2_buffer d f k q ord = Inr (rs, ord + t) \<and> length rs = k \<and>
       list_all (\<lambda>pa. pa_wf pa \<and> same_zm f (pflags pa)) rs))"
  using assms
proof (induction k arbitrary: q acc)
  case 0
  then show ?case by auto
next
  case (Suc k)
  then obtain n b acc' where n: "gserialized2_read_uint32_checked d q e = Inr n"
    and b: "gserialized2_pointarray_payload_size n f = Inr b"
    and acc: "gserialized2_checked_add acc b = Some acc'"
    and rest: "ring_bytes_sum d e f (q + 4) k acc' = Inr tot"
    by (auto simp: bindE_eq_Inr checked_eq_Inr)
  note u = checked_uint32 [OF n]
  have acc': "acc' = acc + 8 * (n * FLAGS_NDIMS f)"
    using checked_add [OF acc] payload_size [OF b] by simp
  from Suc.IH [OF rest] obtain t where t: "tot = acc' + t"
    and rs: "\<And>ord. ord + t \<le> length d \<Longrightarrow>
      \<exists>rs. rings_from_gserialized2_buffer d f k (q + 4) ord = Inr (rs, ord + t) \<and> length rs = k \<and>
       list_all (\<lambda>pa. pa_wf pa \<and> same_zm f (pflags pa)) rs" by blast
  show ?case
  proof (intro exI [of _ "8 * (n * FLAGS_NDIMS f) + t"] conjI allI impI)
    show "tot = acc + (8 * (n * FLAGS_NDIMS f) + t)" using t acc' by simp
    fix ord
    assume o: "ord + (8 * (n * FLAGS_NDIMS f) + t) \<le> length d"
    then have "ord + 8 * (n * FLAGS_NDIMS f) \<le> length d" by simp
    from points_at_ok [OF this u(2)] obtain pa where pa: "points_at d f n ord = Inr pa" "array_for f n pa"
      by blast
    from o rs [of "ord + 8 * FLAGS_NDIMS f * n"] obtain rs where
      "rings_from_gserialized2_buffer d f k (q + 4) (ord + 8 * FLAGS_NDIMS f * n) =
         Inr (rs, ord + 8 * FLAGS_NDIMS f * n + t)"
      "length rs = k" "list_all (\<lambda>pa. pa_wf pa \<and> same_zm f (pflags pa)) rs"
      by (auto simp: ac_simps)
    then have "rings_from_gserialized2_buffer d f (Suc k) q ord =
        Inr (pa # rs, ord + (8 * (n * FLAGS_NDIMS f) + t))" "length (pa # rs) = Suc k"
      "list_all (\<lambda>pa. pa_wf pa \<and> same_zm f (pflags pa)) (pa # rs)"
      using u(1) pa by (simp_all add: array_for_def ac_simps)
    then show "\<exists>rs. rings_from_gserialized2_buffer d f (Suc k) q ord =
        Inr (rs, ord + (8 * (n * FLAGS_NDIMS f) + t)) \<and> length rs = Suc k \<and>
        list_all (\<lambda>pa. pa_wf pa \<and> same_zm f (pflags pa)) rs" by blast
  qed
qed

lemma polygon_follows:
  assumes v: "validate_polygon d p e f count = Inr n" and n: "gserialized2_range_available p e n"
    and e: "e \<le> length d" "e < 2 ^ 32"
    and count: "gserialized2_get_uint32_t d (p + 4) = Inr count"
  shows "\<exists>rs. lwpoly_from_gserialized2_buffer d p f s = Inr (LWPOLY (read_head f s) count rs, n) \<and>
    lwgeom_wf (LWPOLY (read_head f s) count rs)"
proof -
  from v obtain m t where m: "gserialized2_checked_mul count 4 = Some m"
    and avail: "gserialized2_range_available (p + 8) e (m + (if count mod 2 \<noteq> 0 then 4 else 0))"
    and t: "ring_bytes_sum d e f (p + 8) count 0 = Inr t"
    and add: "gserialized2_checked_add (8 + (m + (if count mod 2 \<noteq> 0 then 4 else 0))) t = Some n"
    unfolding validate_polygon_def Let_def by (auto simp: bindE_eq_Inr checked_eq_Inr)
  have m: "m = count * 4" and sz: "n = 8 + (m + (if count mod 2 \<noteq> 0 then 4 else 0)) + t"
    using checked_mul [OF m] checked_add [OF add] by auto
  define ord where "ord = p + 8 + (count * 4 + (if count mod 2 \<noteq> 0 then 4 else 0))"
  have o: "p + n = ord + t" "p + n \<le> e"
    using sz m n by (auto simp: ord_def gserialized2_range_available_def)
  have "count * 4 mod 2 ^ 32 = count * 4"
    using avail e(2) m by (intro mod_less) (auto simp: gserialized2_range_available_def)
  then have ord: "(if count > 0 then p + 8 + count * 4 mod 2 ^ 32 + (if count mod 2 \<noteq> 0 then 4 else 0)
      else p + 8) = ord"
    by (auto simp: ord_def)
  have "ord + t \<le> length d" using o e(1) by simp
  with rings_follow [OF t] obtain rs where
    "rings_from_gserialized2_buffer d f count (p + 8) ord = Inr (rs, ord + t)" "length rs = count"
    "list_all (\<lambda>pa. pa_wf pa \<and> same_zm f (pflags pa)) rs" by auto
  moreover have "ord + t - p = n" using o(1) by simp
  ultimately show ?thesis
    using uint32_range [OF count]
    unfolding lwpoly_from_gserialized2_buffer_def count bindE_Inr Let_def ord
    by (auto simp: read_head_def)
qed

lemma validate_nurbs_ok:
  assumes "gserialized2_validate_nurbs d n degree nw nk wp kp = Inr ()"
    and "doubles_at d wp nw = Inr ws" "doubles_at d kp nk = Inr ks"
  shows "1 \<le> degree \<and> degree \<le> 10 \<and> (n = 0 \<or> degree < n) \<and> (nw = 0 \<or> nw = n \<and> list_all fin_pos ws) \<and>
    (nk = 0 \<or> nk = n + degree + 1 \<and> knots_ok ks)"
  using assms by (cases "n = 0") (auto simp: gserialized2_validate_nurbs_def bindE_eq_Inr)

lemma nurbs_follows:
  assumes v: "validate_nurbs_buffer d p e f count = Inr n" and e: "e \<le> length d"
    and count: "gserialized2_get_uint32_t d (p + 4) = Inr count"
  shows "\<exists>g. lwnurbscurve_from_gserialized2_buffer d p f s = Inr (g, n) \<and> lwgeom_wf g \<and>
    lwgeom_get_type g = NURBSCURVETYPE \<and> lwhead_of g = read_head f s"
proof -
  from v obtain degree nw nk wb kb pb c1 c2 where
    degree: "gserialized2_read_uint32_checked d (p + 8) e = Inr degree"
    and nw: "gserialized2_read_uint32_checked d (p + 12) e = Inr nw"
    and nk: "gserialized2_read_uint32_checked d (p + 16) e = Inr nk"
    and sizes: "gserialized2_checked_mul nw 8 = Some wb" "gserialized2_checked_mul nk 8 = Some kb"
      "gserialized2_pointarray_payload_size count f = Inr pb"
      "gserialized2_checked_add 24 wb = Some c1" "gserialized2_checked_add c1 kb = Some c2"
      "gserialized2_checked_add c2 pb = Some n"
    and avail: "gserialized2_range_available p e n"
    and nurbs: "gserialized2_validate_nurbs d count degree nw nk (p + 24) (p + 24 + wb) = Inr ()"
    unfolding validate_nurbs_buffer_def by (auto simp: bindE_eq_Inr checked_eq_Inr)
  note u = checked_uint32(1) [OF degree] checked_uint32(1) [OF nw] checked_uint32(1) [OF nk]
  have wb: "wb = 8 * nw" and sz: "n = 24 + 8 * nw + 8 * nk + 8 * (count * FLAGS_NDIMS f)"
    using sizes by (auto dest!: checked_mul checked_add payload_size)
  have fit: "p + 24 + 8 * nw \<le> length d" "p + 24 + 8 * nw + 8 * nk \<le> length d"
    "p + 24 + 8 * nw + 8 * nk + 8 * (count * FLAGS_NDIMS f) \<le> length d"
    using avail e sz by (auto simp: gserialized2_range_available_def)
  from doubles_at_ok [OF fit(1)] obtain ws where ws: "doubles_at d (p + 24) nw = Inr ws" "length ws = nw"
    by blast
  from doubles_at_ok [OF fit(2)] obtain ks where ks: "doubles_at d (p + 24 + 8 * nw) nk = Inr ks" "length ks = nk"
    by blast
  from ptarray_at_ok [OF fit(3)] uint32_range [OF count] obtain pa where
    pa: "ptarray_at d f count (p + 24 + 8 * nw + 8 * nk) = Inr pa" "array_for f count pa" by blast
  define g where "g = LWNURBSCURVE (read_head f s) degree (Some pa) (if nw > 0 then Some ws else None)
    (if nk > 0 then Some ks else None)"
  have "lwnurbscurve_from_gserialized2_buffer d p f s = Inr (g, n)"
    using nurbs ws ks pa by (simp add: lwnurbscurve_from_gserialized2_buffer_def count u wb sz g_def ac_simps)
  moreover have "lwgeom_wf g"
    using validate_nurbs_ok [OF nurbs ws(1) ks(1) [folded wb]] pa(2) ws(2) ks(2)
    by (auto simp: g_def array_for_def read_head_def)
  ultimately show ?thesis by (auto simp: g_def)
qed

text \<open>A geometry read at an offset: its type is the number stored there.\<close>

definition read_at :: "byte list \<Rightarrow> nat \<Rightarrow> u16 \<Rightarrow> int \<Rightarrow> lwgeom \<Rightarrow> bool" where
  "read_at d p f s g \<longleftrightarrow> lwgeom_wf g \<and> lwhead_of g = read_head f s \<and>
     gserialized2_get_uint32_t d p = Inr (lwgeom_get_type g)"

lemma members_follow:
  assumes "validate_members val type d e k p = Inr q"
    and "\<And>p n. val p = Inr n \<Longrightarrow> \<exists>g. rd p = Inr (g, n) \<and> read_at d p f s g"
  shows "p \<le> q \<and> (\<exists>gs. members_from_gserialized2_buffer rd type d k p = Inr (gs, q) \<and> length gs = k \<and>
    list_all lwgeom_wf gs \<and> list_all (\<lambda>g. lwcollection_allows_subtype type (lwgeom_get_type g)) gs)"
  using assms(1)
proof (induction k arbitrary: p)
  case 0
  then show ?case by simp
next
  case (Suc k)
  then obtain t n where t: "gserialized2_read_uint32_checked d p e = Inr t"
    and allow: "lwcollection_allows_subtype type t" and n: "val p = Inr n"
    and rest: "validate_members val type d e k (p + n) = Inr q"
    by (auto simp: bindE_eq_Inr)
  from assms(2) [OF n] obtain g where g: "rd p = Inr (g, n)" "read_at d p f s g" by blast
  then have "t = lwgeom_get_type g" using checked_uint32(1) [OF t] by (simp add: read_at_def)
  moreover from Suc.IH [OF rest] obtain gs where
    "p + n \<le> q" "members_from_gserialized2_buffer rd type d k (p + n) = Inr (gs, q)" "length gs = k"
    "list_all lwgeom_wf gs" "list_all (\<lambda>g. lwcollection_allows_subtype type (lwgeom_get_type g)) gs"
    by blast
  ultimately show ?case
    using g allow checked_uint32(1) [OF t] by (simp add: read_at_def)
qed

lemma points_follow:
  assumes "validate_points count f = Inr n" "gserialized2_range_available p e n" "e \<le> length d"
    and "count < 2 ^ 32"
  shows "\<exists>pa. ptarray_at d f count (p + 8) = Inr pa \<and> array_for f count pa \<and>
    n = 8 + 8 * FLAGS_NDIMS f * count"
proof -
  have n: "n = 8 + 8 * (count * FLAGS_NDIMS f)"
    using assms(1) by (auto simp: validate_points_def bindE_eq_Inr dest: payload_size)
  then have "p + 8 + 8 * (count * FLAGS_NDIMS f) \<le> length d"
    using assms(2,3) by (auto simp: gserialized2_range_available_def)
  from ptarray_at_ok [OF this assms(4)] n show ?thesis by (auto simp: ac_simps)
qed

lemma reader_follows:
  assumes "gserialized2_validate_geometry_buffer fuel d p e f = Inr n"
    and "e \<le> length d" "e < 2 ^ 32"
  shows "p + n \<le> e \<and>
    (\<exists>g. lwgeom_from_gserialized2_buffer fuel d s f p = Inr (g, n) \<and> read_at d p f s g)"
  using assms(1)
proof (induction fuel arbitrary: p f n)
  case 0
  then show ?case by simp
next
  case (Suc fuel)
  from Suc.prems obtain type count where
    type: "gserialized2_read_uint32_checked d p e = Inr type"
    and count: "gserialized2_read_uint32_checked d (p + 4) e = Inr count"
    and n: "gserialized2_range_available p e n"
    and body: "(if type = POINTTYPE then
          bindE (require (\<not> count > 1) ''%s: invalid point count %u'') (\<lambda>_. validate_points count f)
        else if type \<in> set [LINETYPE, CIRCSTRINGTYPE, TRIANGLETYPE] then validate_points count f
        else if type = POLYGONTYPE then validate_polygon d p e f count
        else if type \<in> set [MULTIPOINTTYPE, MULTILINETYPE, MULTIPOLYGONTYPE, COMPOUNDTYPE,
          CURVEPOLYTYPE, MULTICURVETYPE, MULTISURFACETYPE, POLYHEDRALSURFACETYPE, TINTYPE,
          COLLECTIONTYPE] then
          bindE (validate_members
            (\<lambda>q. gserialized2_validate_geometry_buffer fuel d q e (flag_set f LWFLAG_BBOX False))
            type d e count (p + 8)) (\<lambda>q. Inr (q - p))
        else if type = NURBSCURVETYPE then validate_nurbs_buffer d p e f count
        else Inl (LwError ''Unknown geometry type: %d - %s'')) = Inr n"
    unfolding gserialized2_validate_geometry_buffer.simps bindE_eq_Inr require_eq_Inr by auto
  note ut = checked_uint32 [OF type] and uc = checked_uint32 [OF count]
  have pn: "p + n \<le> e" using n by (auto simp: gserialized2_range_available_def)
  let ?R = "\<lambda>g. lwgeom_from_gserialized2_buffer (Suc fuel) d s f p = Inr (g, n) \<and> read_at d p f s g"
  consider (point) "type = POINTTYPE" | (curve) "type \<in> {LINETYPE, CIRCSTRINGTYPE, TRIANGLETYPE}"
    | (poly) "type = POLYGONTYPE" | (nurbs) "type = NURBSCURVETYPE"
    | (coll) "type \<in> set [MULTIPOINTTYPE, MULTILINETYPE, MULTIPOLYGONTYPE, COMPOUNDTYPE,
          CURVEPOLYTYPE, MULTICURVETYPE, MULTISURFACETYPE, POLYHEDRALSURFACETYPE, TINTYPE, COLLECTIONTYPE]"
    using body by (auto split: if_splits)
  then have "\<exists>g. ?R g"
  proof cases
    case point
    with body have v: "validate_points count f = Inr n" and c: "count = 0 \<or> count = 1"
      by (auto simp: bindE_eq_Inr)
    from points_follow [OF v n assms(2) uc(2)] obtain pa where
      pa: "ptarray_at d f count (p + 8) = Inr pa" "array_for f count pa" "n = 8 + 8 * FLAGS_NDIMS f * count"
      by blast
    have "?R (LWPOINT (read_head f s) pa)"
      using point pa c ut(1) uc(1)
      by (auto simp: lwpoint_from_gserialized2_buffer_def read_at_def array_for_def read_head_def)
    then show ?thesis by blast
  next
    case curve
    with body have v: "validate_points count f = Inr n" by auto
    from points_follow [OF v n assms(2) uc(2)] obtain pa where
      pa: "ptarray_at d f count (p + 8) = Inr pa" "array_for f count pa" "n = 8 + 8 * FLAGS_NDIMS f * count"
      by blast
    have "?R (LWLINE (read_head f s) pa) \<or> ?R (LWCIRCSTRING (read_head f s) pa) \<or> ?R (LWTRIANGLE (read_head f s) pa)"
      using curve pa ut(1) uc(1)
      by (auto simp: curve_from_gserialized2_buffer_def read_at_def array_for_def read_head_def)
    then show ?thesis by blast
  next
    case poly
    with body have "validate_polygon d p e f count = Inr n" by simp
    from polygon_follows [OF this n assms(2,3) uc(1), of s] poly ut(1) show ?thesis
      by (auto simp: read_at_def)
  next
    case nurbs
    with body have "validate_nurbs_buffer d p e f count = Inr n" by simp
    from nurbs_follows [OF this assms(2) uc(1), of s] nurbs ut(1) show ?thesis
      by (auto simp: read_at_def)
  next
    case coll
    let ?f = "flag_set f LWFLAG_BBOX False"
    from coll body obtain q where
      q: "validate_members (\<lambda>q. gserialized2_validate_geometry_buffer fuel d q e ?f) type d e count (p + 8) = Inr q"
      and nq: "n = q - p"
      by (auto simp: bindE_eq_Inr)
    have IH: "\<exists>g. lwgeom_from_gserialized2_buffer fuel d s ?f p' = Inr (g, m) \<and> read_at d p' ?f s g"
      if "gserialized2_validate_geometry_buffer fuel d p' e ?f = Inr m" for p' m
      using Suc.IH [OF that] by blast
    from members_follow [OF q IH] obtain gs where
      gs: "members_from_gserialized2_buffer (lwgeom_from_gserialized2_buffer fuel d s ?f) type d count (p + 8)
         = Inr (gs, q)" "length gs = count" "list_all lwgeom_wf gs"
        "list_all (\<lambda>g. lwcollection_allows_subtype type (lwgeom_get_type g)) gs"
      by blast
    have t: "lwtype_is_collection type" using coll by (auto simp: lwtype_is_collection_def)
    have "lwgeom_from_gserialized2_buffer (Suc fuel) d s f p =
        lwcollection_from_gserialized2_buffer (lwgeom_from_gserialized2_buffer fuel d s) d p f s"
      using coll ut(1) by auto
    also have "\<dots> = Inr (LWCOLLECTION type (read_head f s) count (count > 0) gs, n)"
      using gs(1) ut(1) uc(1) nq by (simp add: lwcollection_from_gserialized2_buffer_def)
    finally show ?thesis
      using t gs(2-) ut(1) uc(2) by (auto simp: read_at_def)
  qed
  with pn show ?case by blast
qed

section \<open>The entry points\<close>

text \<open>The declared size is allocated.\<close>

definition allocated :: "gserialized \<Rightarrow> bool" where
  "allocated g \<longleftrightarrow> gserialized2_buffer_size g \<le> 8 + length (gs_data g)"

lemma buffer_size_bound: "gserialized2_buffer_size g < 2 ^ 30"
proof -
  have "unat (drop_bit 2 (gs_size g) AND 0x3FFFFFFF) \<le> unat (0x3FFFFFFF :: u32)"
    by (simp only: word_le_nat_alt [symmetric] word_and_le1)
  then show ?thesis by (simp add: gserialized2_buffer_size_def LWSIZE_GET_def)
qed

lemma geometry_offset: "gserialized2_get_geometry_p g = gserialized2_header_size g - 8"
  by (simp add: gserialized2_get_geometry_p_def gserialized2_header_size_def Let_def)

lemma header_size_ge: "8 \<le> gserialized2_header_size g"
  by (simp add: gserialized2_header_size_def Let_def)

lemma lwflags_no_fault:
  assumes "allocated g"
  shows "no_fault (gserialized2_get_lwflags g)"
  using assms unfolding gserialized2_get_lwflags_def Let_def
  by (intro no_fault_intro) (auto simp: allocated_def mem_at_ok require_def split: if_splits)

lemma get_type_no_fault:
  assumes "allocated g"
  shows "no_fault (gserialized2_get_type g)"
proof (cases "gserialized2_buffer_size g < gserialized2_header_size g + 4")
  case True
  then show ?thesis by (simp add: gserialized2_get_type_def require_def)
next
  case False
  then have "gserialized2_get_geometry_p g + 4 \<le> length (gs_data g)"
    using assms header_size_ge [of g] by (auto simp: allocated_def geometry_offset)
  then show ?thesis using uint32_ok [of "gserialized2_get_geometry_p g" "gs_data g"] False
    by (auto simp: gserialized2_get_type_def)
qed

lemma read_gbox_no_fault:
  assumes "allocated g"
  shows "no_fault (gserialized2_read_gbox_p g b)"
proof -
  have "no_fault (floats_at (gs_data g) p (gserialized2_box_size g div 4))"
    if "gserialized2_get_float_box_p g = Some p" for p
  proof -
    have "p + 4 * (gserialized2_box_size g div 4) \<le> length (gs_data g)"
      using that assms by (auto simp: gserialized2_get_float_box_p_def allocated_def
          gserialized2_box_size_def Let_def split: if_splits)
    from floats_at_ok [OF this] show ?thesis by auto
  qed
  then show ?thesis
    unfolding gserialized2_read_gbox_p_def Let_def
    by (intro no_fault_intro lwflags_no_fault [OF assms]) (auto split: option.split intro!: no_fault_intro)
qed

lemma payload_bounds_ok:
  assumes "gserialized2_payload_bounds g = Some (p, e)" "allocated g"
  shows "p = gserialized2_get_geometry_p g" "e \<le> length (gs_data g)" "e < 2 ^ 30" "p \<le> e"
  using assms buffer_size_bound [of g] header_size_ge [of g]
  by (auto simp: gserialized2_payload_bounds_def allocated_def geometry_offset split: if_splits)

lemma validate_buffer_no_fault:
  assumes "gserialized2_payload_bounds g = Some (p, e)" "allocated g"
  shows "no_fault (gserialized2_validate_geometry_buffer (validate_fuel (gs_data g)) (gs_data g) p e f)"
  using payload_bounds_ok [OF assms] by (intro validate_no_fault) auto

lemma lwgeom_wf_map_lwhead:
  assumes "lwgeom_wf g" "\<And>h. same_zm (flags (F h)) (flags h)"
  shows "lwgeom_wf (map_lwhead F g)"
proof -
  have "same_zm (flags (F h)) f = same_zm (flags h) f" for h f
    using assms(2) [of h] by (auto simp: same_zm_def)
  with assms(1) show ?thesis by (cases g) (auto split: option.splits)
qed

lemma lwgeom_wf_bbox: "lwgeom_wf (map_lwhead (\<lambda>h. h\<lparr>bbox := b\<rparr>) g) = lwgeom_wf g"
  by (cases g) (auto split: option.split)

lemma map_lwhead_head [simp]: "lwhead_of (map_lwhead F g) = F (lwhead_of g)"
  "lwgeom_get_type (map_lwhead F g) = lwgeom_get_type g"
  by (cases g; simp)+

lemma map_lwhead_id: "F (lwhead_of g) = lwhead_of g \<Longrightarrow> map_lwhead F g = g"
  by (cases g) auto

lemma map_lwhead_fuse: "map_lwhead F (map_lwhead G g) = map_lwhead (\<lambda>h. F (G h)) g"
  by (cases g) auto

declare lwgeom_from_gserialized2_buffer.simps [simp del]
  gserialized2_validate_geometry_buffer.simps [simp del]

lemma validate_room:
  "gserialized2_validate_geometry_buffer (Suc fuel) d p e f = Inr n \<Longrightarrow>
   p + 8 \<le> e \<and> n \<le> e - p"
  by (auto simp: gserialized2_validate_geometry_buffer.simps bindE_eq_Inr gserialized2_range_available_def)

text \<open>The box of the geometry: the stored one or the one computed.\<close>

definition box_for :: "box_calc \<Rightarrow> lwgeom \<Rightarrow> bool \<Rightarrow> gbox \<Rightarrow> gbox option" where
  "box_for calc geom ok b =
     (if ok then Some b
      else if lwgeom_needs_bbox geom
        then (case lwgeom_calculate_gbox calc geom b of (ok, b) \<Rightarrow> if ok then Some b else None)
      else None)"

text \<open>What \<open>lwgeom_from_gserialized2\<close> does once the buffer has been validated.\<close>

lemma from_gserialized2_after_validation:
  assumes "allocated g" "gserialized2_get_lwflags g = Inr f" "gserialized2_payload_bounds g = Some (p, e)"
    and "gserialized2_validate_geometry_buffer (validate_fuel (gs_data g)) (gs_data g) p e f = Inr n"
  shows "\<exists>geom. lwgeom_from_gserialized2_buffer (validate_fuel (gs_data g)) (gs_data g)
      (gserialized2_get_srid g) f p = Inr (geom, n) \<and>
    read_at (gs_data g) p f (gserialized2_get_srid g) geom \<and>
    lwgeom_from_gserialized2 calc stack g = bindE (gserialized2_read_gbox_p g stack) (\<lambda>(ok, b).
      Inr (map_lwhead (\<lambda>h. h\<lparr>bbox := box_for calc geom ok b\<rparr>) geom))"
proof -
  note pe = payload_bounds_ok [OF assms(3,1)]
  have "e < 2 ^ 32" using pe(3) by simp
  from reader_follows [OF assms(4) pe(2) this] obtain geom where
    geom: "lwgeom_from_gserialized2_buffer (validate_fuel (gs_data g)) (gs_data g)
      (gserialized2_get_srid g) f p = Inr (geom, n)"
    and at: "read_at (gs_data g) p f (gserialized2_get_srid g) geom" by blast
  have type: "gserialized2_get_type g = Inr (lwgeom_get_type geom)"
  proof -
    from at have u: "gserialized2_get_uint32_t (gs_data g) p = Inr (lwgeom_get_type geom)"
      by (simp add: read_at_def)
    have "\<not> gserialized2_buffer_size g < gserialized2_header_size g + 4"
      using assms(3) validate_room [OF assms(4)] header_size_ge [of g]
      by (auto simp: gserialized2_payload_bounds_def split: if_splits)
    with u pe(1) show ?thesis by (simp add: gserialized2_get_type_def)
  qed
  have same: "map_lwhead (\<lambda>h. h\<lparr>flags := f\<rparr>) geom = geom"
    using at by (intro map_lwhead_id) (simp add: read_at_def read_head_def)
  have "lwgeom_from_gserialized2 calc stack g = bindE (gserialized2_read_gbox_p g stack) (\<lambda>(ok, b).
      Inr (map_lwhead (\<lambda>h. h\<lparr>bbox := box_for calc geom ok b\<rparr>) geom))"
    by (cases "gserialized2_read_gbox_p g stack")
      (simp_all add: lwgeom_from_gserialized2_def assms(2-4) type geom same Let_def box_for_def
        split: prod.split)
  with geom at show ?thesis by blast
qed

text \<open>
  C2. Reading a stored geometry is memory safe whatever the bytes are: if the declared size
  is allocated, the reader returns one of the program's own errors or a well-formed
  geometry of the type and the SRID that the buffer declares. It never reads outside the
  buffer and always ends.
\<close>

theorem lwgeom_from_gserialized2_safe:
  assumes "allocated g"
  shows "(\<exists>msg. lwgeom_from_gserialized2 calc stack g = Inl (LwError msg)) \<or>
    (\<exists>geom. lwgeom_from_gserialized2 calc stack g = Inr geom \<and> lwgeom_wf geom \<and>
       gserialized2_get_type g = Inr (lwgeom_get_type geom) \<and>
       lwgeom_get_srid geom = gserialized2_get_srid g)"
proof (cases "gserialized2_get_lwflags g")
  case (Inl err)
  then show ?thesis using lwflags_no_fault [OF assms]
    by (auto simp: lwgeom_from_gserialized2_def Let_def no_fault_def)
next
  case f: (Inr f)
  show ?thesis
  proof (cases "gserialized2_payload_bounds g")
    case None
    then show ?thesis by (simp add: lwgeom_from_gserialized2_def Let_def f)
  next
    case (Some pe)
    obtain p e where pe: "gserialized2_payload_bounds g = Some (p, e)" using Some by (cases pe) auto
    show ?thesis
    proof (cases "gserialized2_validate_geometry_buffer (validate_fuel (gs_data g)) (gs_data g) p e f")
      case (Inl err)
      then show ?thesis using validate_buffer_no_fault [OF pe assms, of f]
        by (auto simp: lwgeom_from_gserialized2_def Let_def f pe no_fault_def)
    next
      case (Inr n)
      from from_gserialized2_after_validation [OF assms f pe this, of calc stack] obtain geom where
        at: "read_at (gs_data g) p f (gserialized2_get_srid g) geom"
        and r: "lwgeom_from_gserialized2 calc stack g = bindE (gserialized2_read_gbox_p g stack)
          (\<lambda>(ok, b). Inr (map_lwhead (\<lambda>h. h\<lparr>bbox := box_for calc geom ok b\<rparr>) geom))"
        by blast
      have n: "8 \<le> e - p" "p \<le> e"
        using validate_room [OF Inr] by auto
      then have "gserialized2_get_type g = Inr (lwgeom_get_type geom)"
        using at payload_bounds_ok(1) [OF pe assms] pe header_size_ge [of g]
        by (auto simp: gserialized2_get_type_def read_at_def gserialized2_payload_bounds_def require_def
            split: if_splits)
      with at r read_gbox_no_fault [OF assms, of stack] show ?thesis
        by (cases "gserialized2_read_gbox_p g stack")
          (auto simp: no_fault_def lwgeom_wf_bbox read_at_def lwgeom_get_srid_def read_head_def)
    qed
  qed
qed

section \<open>Concrete buffers\<close>

text \<open>The point (1, 0) with SRID 4326, as it is stored.\<close>

definition sample_gs :: gserialized where
  "sample_gs = \<lparr>gs_size = 128, gs_srid = (0, 0x10, 0xE6), gs_gflags = 0x40,
     gs_data = [1, 0, 0, 0, 1, 0, 0, 0, 0, 0, 0, 0, 0, 0, 0xF0, 0x3F, 0, 0, 0, 0, 0, 0, 0, 0]\<rparr>"

lemmas header_defs = gserialized2_buffer_size_def LWSIZE_GET_def gserialized2_header_size_def
  gserialized2_has_extended_def gserialized2_has_bbox_def gserialized2_payload_bounds_def allocated_def
  gserialized2_get_lwflags_def flag_set_def gserialized2_get_type_def gserialized2_get_geometry_p_def

lemma sample_header:
  "allocated sample_gs" "gserialized2_payload_bounds sample_gs = Some (0, 24)"
  "gserialized2_get_lwflags sample_gs = Inr 0" "gserialized2_get_srid sample_gs = 4326"
  "gserialized2_header_size sample_gs = 8" "gserialized2_buffer_size sample_gs = 32"
  by (simp_all add: header_defs sample_gs_def drop_bit_eq_div gserialized2_get_srid_def)

lemma sample_uint32:
  "gserialized2_get_uint32_t (gs_data sample_gs) 0 = Inr 1"
  "gserialized2_get_uint32_t (gs_data sample_gs) 4 = Inr 1"
  by (simp_all add: gserialized2_get_uint32_t_def mem_at_def sample_gs_def)

lemma doubles_at_numeral: "doubles_at d p (numeral n) =
    bindE (mem_at d p 8) (\<lambda>bs. bindE (doubles_at d (p + 8) (pred_numeral n)) (\<lambda>ds. Inr (le_word bs # ds)))"
  by (simp add: numeral_eq_Suc)

lemma sample_coordinates: "doubles_at (gs_data sample_gs) 8 2 = Inr [0x3FF0000000000000, 0]"
  by (simp add: mem_at_def sample_gs_def doubles_at_numeral)

lemmas validation_defs = gserialized2_range_available_def gserialized2_read_uint32_checked_def
  validate_points_def gserialized2_pointarray_payload_size_def gserialized2_checked_mul_def checked_def
  gserialized2_checked_add_def

lemma sample_valid: "gserialized2_validate_geometry_buffer (Suc k) (gs_data sample_gs) 0 24 0 = Inr 24"
  by (simp add: gserialized2_validate_geometry_buffer.simps validation_defs sample_uint32 FLAGS_NDIMS_def)

lemma sample_type: "gserialized2_get_type sample_gs = Inr 1"
  using sample_uint32(1) sample_header
  by (simp add: gserialized2_get_type_def geometry_offset)

lemma sample_no_bbox: "gserialized2_read_gbox_p sample_gs b = Inr (False, b\<lparr>gflags := 0\<rparr>)"
  unfolding gserialized2_read_gbox_p_def sample_header by (simp add: gserialized2_has_bbox_def sample_gs_def)

lemma sample_buffer:
  "lwgeom_from_gserialized2_buffer (Suc k) (gs_data sample_gs) s 0 0 =
     Inr (LWPOINT (read_head 0 s) (ptarray_construct_reference_data False False 1 [0x3FF0000000000000, 0]), 24)"
  using sample_coordinates
  by (simp add: sample_uint32 lwgeom_from_gserialized2_buffer.simps lwpoint_from_gserialized2_buffer_def
      ptarray_at_def points_at_def FLAGS_NDIMS_def)

lemma sample_read:
  "lwgeom_from_gserialized2 calc stack sample_gs = Inr (LWPOINT (read_head 0 4326) (ptarray_construct_reference_data False False 1 [0x3FF0000000000000, 0]))"
  unfolding lwgeom_from_gserialized2_def Let_def sample_header bindE_Inr option.case prod.case sample_valid
    sample_type sample_buffer sample_no_bbox
  by (simp add: lwgeom_needs_bbox_def read_head_def)

text \<open>Some floating point, where none is needed.\<close>

definition no_calc :: box_calc where
  "no_calc = \<lparr>arc_box = (\<lambda>p q r b. (False, b)), nurbs_box = (\<lambda>g b. (False, b)), geodetic_box = (\<lambda>g b. (False, b))\<rparr>"

theorem lwgeom_from_gserialized2_safe_witness:
  "allocated sample_gs \<and> (\<exists>geom. lwgeom_from_gserialized2 no_calc gbox_init sample_gs = Inr geom \<and> lwgeom_wf geom \<and>
     lwgeom_get_type geom = POINTTYPE \<and> lwgeom_get_srid geom = 4326)"
  using lwgeom_from_gserialized2_safe [OF sample_header(1), of no_calc gbox_init] sample_header(1,4) sample_type
  by (auto simp: sample_read)

end
