(* ===== verification/GS2Peek.thy ===== *)
theory GS2Peek
  imports GS2Safe
begin

text \<open>
  The boxes that are found without building a geometry: they never fault, and the shortcut
  for points and for lines of two points gives the box of the geometry that the general
  path would build.
\<close>

section \<open>The flags of the header\<close>

lemma g2flag_set_bits: "has_bits (g2flag_set f b v) m \<longleftrightarrow>
    (if v then has_bits f m \<or> has_bits b m else has_bits f (m AND NOT b))"
  unfolding g2flag_set_def by (cases v) (simp_all only: if_True if_False has_bits_or has_bits_and_not)

lemma lwflags_of_gflags:
  assumes "gserialized2_get_lwflags g = Inr f"
  shows "hasz f = has_bits (gs_gflags g) G2FLAG_Z" "hasm f = has_bits (gs_gflags g) G2FLAG_M"
    "geodetic f = has_bits (gs_gflags g) G2FLAG_GEODETIC"
    "has_bits f LWFLAG_BBOX = has_bits (gs_gflags g) G2FLAG_BBOX"
  using assms
  by (auto simp: gserialized2_get_lwflags_def Let_def bindE_eq_Inr has_bits_flag_set split: if_splits)

lemma ndims_of_gflags:
  "gserialized2_get_lwflags g = Inr f \<Longrightarrow> G2FLAGS_NDIMS (gs_gflags g) = FLAGS_NDIMS f"
  by (simp add: G2FLAGS_NDIMS_def FLAGS_NDIMS_def lwflags_of_gflags)

section \<open>What validation says of small geometries\<close>

lemma doubles_at_add:
  "doubles_at d p (m + n) =
     bindE (doubles_at d p m) (\<lambda>xs. bindE (doubles_at d (p + 8 * m) n) (\<lambda>ys. Inr (xs @ ys)))"
  by (induction m arbitrary: p) (simp_all add: bindE_assoc ac_simps bindE_def split: sum.split)

text \<open>Validation of a buffer, with its type and its count.\<close>

lemma validated:
  assumes "gserialized2_validate_geometry_buffer (Suc fuel) d p e f = Inr n" "e \<le> length d" "e < 2 ^ 32"
  obtains type count geom where
    "gserialized2_get_uint32_t d p = Inr type" "gserialized2_get_uint32_t d (p + 4) = Inr count"
    "lwgeom_from_gserialized2_buffer (Suc fuel) d s f p = Inr (geom, n)" "read_at d p f s geom"
    "lwgeom_get_type geom = type"
proof -
  from assms(1) obtain count where "gserialized2_read_uint32_checked d (p + 4) e = Inr count"
    by (auto simp: gserialized2_validate_geometry_buffer.simps bindE_eq_Inr)
  then have "gserialized2_get_uint32_t d (p + 4) = Inr count" by (rule checked_uint32(1))
  with reader_follows [OF assms, of s] that show thesis by (auto simp: read_at_def)
qed

text \<open>The coordinates of a point or line that was read.\<close>

lemma read_point:
  assumes "lwgeom_from_gserialized2_buffer (Suc fuel) d s f p = Inr (geom, n)"
    and "gserialized2_get_uint32_t d p = Inr POINTTYPE" "gserialized2_get_uint32_t d (p + 4) = Inr k" "0 < k"
  shows "\<exists>ds. doubles_at d (p + 8) (FLAGS_NDIMS f) = Inr ds \<and>
    geom = LWPOINT (read_head f s) (ptarray_construct_reference_data (hasz f) (hasm f) 1 ds)"
  using assms
  by (auto simp: lwgeom_from_gserialized2_buffer.simps lwpoint_from_gserialized2_buffer_def ptarray_at_def
      points_at_def bindE_eq_Inr)

lemma read_segment:
  assumes "lwgeom_from_gserialized2_buffer (Suc fuel) d s f p = Inr (geom, n)"
    and "gserialized2_get_uint32_t d p = Inr LINETYPE" "gserialized2_get_uint32_t d (p + 4) = Inr 2"
  shows "\<exists>ds es. doubles_at d (p + 8) (FLAGS_NDIMS f) = Inr ds \<and>
    doubles_at d (p + 8 + 8 * FLAGS_NDIMS f) (FLAGS_NDIMS f) = Inr es \<and>
    geom = LWLINE (read_head f s) (ptarray_construct_reference_data (hasz f) (hasm f) 2 (ds @ es))"
  using assms
  by (auto simp: lwgeom_from_gserialized2_buffer.simps curve_from_gserialized2_buffer_def ptarray_at_def
      points_at_def mult_2 doubles_at_add bindE_eq_Inr)

lemma read_single:
  assumes "lwgeom_from_gserialized2_buffer (Suc fuel) d s f p = Inr (geom, n)"
    and "gserialized2_get_uint32_t d p = Inr t" "t = MULTIPOINTTYPE \<or> t = MULTILINETYPE"
    and "gserialized2_get_uint32_t d (p + 4) = Inr 1"
  shows "\<exists>sub t' m. lwgeom_from_gserialized2_buffer fuel d s (flag_set f LWFLAG_BBOX False) (p + 8) = Inr (sub, m) \<and>
    gserialized2_get_uint32_t d (p + 8) = Inr t' \<and> lwcollection_allows_subtype t t' \<and>
    geom = LWCOLLECTION t (read_head f s) 1 True [sub]"
  using assms
  by (auto simp: lwgeom_from_gserialized2_buffer.simps lwcollection_from_gserialized2_buffer_def
      bindE_eq_Inr)

lemma allows_point: "lwcollection_allows_subtype MULTIPOINTTYPE t \<Longrightarrow> t = POINTTYPE"
  by (simp add: lwcollection_allows_subtype_def split: if_splits)

lemma allows_line: "lwcollection_allows_subtype MULTILINETYPE t \<Longrightarrow> t = LINETYPE"
  by (simp add: lwcollection_allows_subtype_def split: if_splits)

section \<open>The box of one point and of two\<close>

text \<open>The bounds of a box in the dimensions it has.\<close>

definition box_bounds :: "gbox \<Rightarrow> bool \<times> bool \<times> double list" where
  "box_bounds b = (hasz (gflags b), hasm (gflags b), [xmin b, xmax b, ymin b, ymax b] @
     (if hasz (gflags b) then [zmin b, zmax b] else []) @ (if hasm (gflags b) then [mmin b, mmax b] else []))"

lemma length_list: "length ds = 2 + of_bool z + of_bool m \<Longrightarrow>
    \<exists>x y. if z \<and> m then \<exists>u v. ds = [x, y, u, v] else if z \<or> m then \<exists>u. ds = [x, y, u] else ds = [x, y]"
  by (cases z; cases m) (auto simp: length_Suc_conv numeral_eq_Suc)

abbreviation array_of :: "u16 \<Rightarrow> nat \<Rightarrow> double list \<Rightarrow> pointarray" where
  "array_of f n ds \<equiv> ptarray_construct_reference_data (hasz f) (hasm f) n ds"

lemma reference_data_sel [simp]:
  "npoints (ptarray_construct_reference_data z m n ds) = n"
  "ptlist (ptarray_construct_reference_data z m n ds) = ds"
  "hasz (pflags (ptarray_construct_reference_data z m n ds)) = z"
  "hasm (pflags (ptarray_construct_reference_data z m n ds)) = m"
  "FLAGS_NDIMS (pflags (ptarray_construct_reference_data z m n ds)) = 2 + of_bool z + of_bool m"
  by (simp_all add: ptarray_construct_reference_data_def FLAGS_NDIMS_def)

lemmas array_box_defs = ptarray_calculate_gbox_cartesian_def ptarray_calculate_gbox_cartesian_2d_def
  ptarray_calculate_gbox_cartesian_3d_def ptarray_calculate_gbox_cartesian_4d_def
  box_start_def box_start_3d_def box_start_4d_def box_add_def box_add_3d_def box_add_4d_def pa_point_def

text \<open>Rounding commutes with taking the bounds.\<close>

fun round_bounds :: "double list \<Rightarrow> double list" where
  "round_bounds (lo # hi # ds) = round_down lo # round_up hi # round_bounds ds"
| "round_bounds ds = ds"

lemma box_bounds_round: "box_bounds (gbox_float_round b) = map_prod id (map_prod id round_bounds) (box_bounds b)"
  by (simp add: box_bounds_def gbox_float_round_def Let_def)

text \<open>The list of bounds that belongs to the dimensions of \<open>f\<close>.\<close>

definition bounds_list :: "u16 \<Rightarrow> double list \<Rightarrow> double list \<Rightarrow> double list" where
  "bounds_list f lo hi = [lo ! 0, hi ! 0, lo ! 1, hi ! 1] @ (if hasz f then [lo ! 2, hi ! 2] else []) @
     (if hasm f then (let i = if hasz f then 3 else 2 in [lo ! i, hi ! i]) else [])"

lemma box_bounds_between:
  "box_bounds (box_between f lo hi b) = (hasz f, hasm f, round_bounds (bounds_list f lo hi))"
proof -
  define b0 where "b0 = b\<lparr>gflags := f, xmin := lo ! 0, xmax := hi ! 0, ymin := lo ! 1, ymax := hi ! 1\<rparr>"
  define b1 where "b1 = (if hasz f then b0\<lparr>zmin := lo ! 2, zmax := hi ! 2\<rparr> else b0)"
  define b2 where "b2 = (if hasm f then (let i = if hasz f then 3 else 2 in b1\<lparr>mmin := lo ! i, mmax := hi ! i\<rparr>) else b1)"
  have "box_between f lo hi b = gbox_float_round b2"
    by (simp add: box_between_def b2_def b1_def b0_def Let_def)
  moreover have "box_bounds b2 = (hasz f, hasm f, bounds_list f lo hi)"
    by (simp add: b2_def b1_def b0_def box_bounds_def bounds_list_def Let_def)
  ultimately show ?thesis by (simp add: box_bounds_round)
qed

lemma fold_one_two: "fold F [Suc 0..<2] b = F (Suc 0) b"
  by (simp add: numeral_2_eq_2)

lemma point_bounds:
  assumes "length ds = FLAGS_NDIMS f"
  shows "box_bounds (snd (ptarray_calculate_gbox_cartesian (array_of f 1 ds) b)) =
    (hasz f, hasm f, bounds_list f ds ds)"
  using assms
  by (cases "hasz f"; cases "hasm f")
    (simp_all add: array_box_defs Let_def FLAGS_NDIMS_def box_bounds_def bounds_list_def)

lemma segment_bounds:
  assumes "length ds = FLAGS_NDIMS f" "length es = FLAGS_NDIMS f"
  shows "box_bounds (snd (ptarray_calculate_gbox_cartesian (array_of f 2 (ds @ es)) b)) =
    (hasz f, hasm f, bounds_list f (map2 fp_min ds es) (map2 fp_max ds es))"
  using assms
  by (cases "hasz f"; cases "hasm f")
    (simp_all add: array_box_defs fold_one_two Let_def FLAGS_NDIMS_def box_bounds_def bounds_list_def)

section \<open>The shortcut agrees with the general path\<close>

lemma same_dims_cleared [simp]:
  "FLAGS_NDIMS (flag_set f LWFLAG_BBOX v) = FLAGS_NDIMS f"
  "bounds_list (flag_set f LWFLAG_BBOX v) = bounds_list f"
  by (simp_all add: FLAGS_NDIMS_def bounds_list_def fun_eq_iff)

text \<open>The cartesian box of a point, of a line of two points, and of a collection of one member.\<close>

lemma cartesian_point:
  assumes "length ds = FLAGS_NDIMS f"
  shows "fst (lwgeom_calculate_gbox_cartesian calc (LWPOINT h (array_of f 1 ds)) b)"
    "box_bounds (snd (lwgeom_calculate_gbox_cartesian calc (LWPOINT h (array_of f 1 ds)) b)) =
      (hasz f, hasm f, bounds_list f ds ds)"
  using point_bounds [OF assms] by (simp_all add: ptarray_calculate_gbox_cartesian_def Let_def)

lemma cartesian_segment:
  assumes "length ds = FLAGS_NDIMS f" "length es = FLAGS_NDIMS f"
  shows "fst (lwgeom_calculate_gbox_cartesian calc (LWLINE h (array_of f 2 (ds @ es))) b)"
    "box_bounds (snd (lwgeom_calculate_gbox_cartesian calc (LWLINE h (array_of f 2 (ds @ es))) b)) =
      (hasz f, hasm f, bounds_list f (map2 fp_min ds es) (map2 fp_max ds es))"
  using segment_bounds [OF assms] by (simp_all add: ptarray_calculate_gbox_cartesian_def Let_def)

lemma cartesian_single:
  "fst (lwgeom_calculate_gbox_cartesian calc (LWCOLLECTION t h mg al [g]) b) =
     fst (lwgeom_calculate_gbox_cartesian calc g (gbox_new (flags h)))"
  "fst (lwgeom_calculate_gbox_cartesian calc g (gbox_new (flags h))) \<Longrightarrow>
   snd (lwgeom_calculate_gbox_cartesian calc (LWCOLLECTION t h mg al [g]) b) =
     snd (lwgeom_calculate_gbox_cartesian calc g (gbox_new (flags h)))"
  by (auto split: prod.splits)

text \<open>What the shortcut finds is a geometry whose box it is.\<close>

lemma peek_finds:
  assumes "allocated g" "gserialized2_peek_gbox_p g b = Inr (True, b1)"
  obtains f p e n geom where
    "gserialized2_get_lwflags g = Inr f" "gserialized2_payload_bounds g = Some (p, e)"
    "gserialized2_validate_geometry_buffer (validate_fuel (gs_data g)) (gs_data g) p e f = Inr n"
    "\<not> gserialized2_has_bbox g" "\<not> geodetic f"
    "lwgeom_from_gserialized2_buffer (validate_fuel (gs_data g)) (gs_data g) s f p = Inr (geom, n)"
    "\<And>calc b' B. (case lwgeom_calculate_gbox_cartesian calc (map_lwhead (\<lambda>h. h\<lparr>bbox := B\<rparr>) geom) b' of
      (ok, c) \<Rightarrow> ok \<and> box_bounds (gbox_float_round c) = box_bounds b1)"
proof -
  let ?d = "gs_data g"
  from assms(2) obtain p e where pe: "gserialized2_payload_bounds g = Some (p, e)"
    by (auto simp: gserialized2_peek_gbox_p_def split: option.splits)
  from assms(2) pe obtain f n type count where
    f: "gserialized2_get_lwflags g = Inr f"
    and v: "gserialized2_validate_geometry_buffer (validate_fuel ?d) ?d p e f = Inr n"
    and type: "gserialized2_get_type g = Inr type"
    and none: "\<not> has_bits (gs_gflags g) G2FLAG_GEODETIC" "\<not> has_bits (gs_gflags g) G2FLAG_BBOX"
    and count: "gserialized2_get_uint32_t ?d (p + 4) = Inr count"
    and result: "(if type = POINTTYPE then (if count = 0 then Inr (False, b) else peek_point ?d (p + 8) f b)
            else if type = LINETYPE then
              (if count \<noteq> 2 then Inr (False, b) else peek_segment ?d (p + 8) f b)
            else if type = MULTIPOINTTYPE then
              (if count \<noteq> 1 then Inr (False, b)
               else bindE (gserialized2_get_uint32_t ?d (p + 12)) (\<lambda>n.
                 if n \<noteq> 1 then Inr (False, b) else peek_point ?d (p + 16) f b))
            else if type = MULTILINETYPE then
              (if count \<noteq> 1 then Inr (False, b)
               else bindE (gserialized2_get_uint32_t ?d (p + 12)) (\<lambda>n.
                 if n \<noteq> 2 then Inr (False, b) else peek_segment ?d (p + 16) f b))
            else Inr (False, b)) = Inr (True, b1)"
    unfolding gserialized2_peek_gbox_p_def by (auto simp: bindE_eq_Inr Let_def split: if_splits)
  note pe' = payload_bounds_ok [OF pe assms(1)]
  have e32: "e < 2 ^ 32" using pe'(3) by simp
  from reader_follows [OF v pe'(2) e32] obtain geom where
    geom: "lwgeom_from_gserialized2_buffer (validate_fuel ?d) ?d s f p = Inr (geom, n)" by blast
  have t: "gserialized2_get_uint32_t ?d p = Inr type"
    using type pe'(1) by (auto simp: gserialized2_get_type_def bindE_eq_Inr)
  have point: "length ds = FLAGS_NDIMS f \<and> box_bounds b1 = (hasz f, hasm f, round_bounds (bounds_list f ds ds))"
    if "peek_point ?d q f b = Inr (True, b1)" "doubles_at ?d q (FLAGS_NDIMS f) = Inr ds" for q ds
    using that length_doubles_at [OF that(2)] by (auto simp: peek_point_def box_bounds_between)
  have segment: "length ds = FLAGS_NDIMS f \<and> length es = FLAGS_NDIMS f \<and> box_bounds b1 = (hasz f, hasm f,
      round_bounds (bounds_list f (map2 fp_min ds es) (map2 fp_max ds es)))"
    if "peek_segment ?d q f b = Inr (True, b1)" "doubles_at ?d q (FLAGS_NDIMS f) = Inr ds"
      "doubles_at ?d (q + 8 * FLAGS_NDIMS f) (FLAGS_NDIMS f) = Inr es" for q ds es
    using that length_doubles_at [OF that(2)] length_doubles_at [OF that(3)]
    by (auto simp: peek_segment_def box_bounds_between)
  let ?f = "flag_set f LWFLAG_BBOX False"
  have array: "array_of ?f k ds = array_of f k ds" for k ds by simp
  have main: "fst (lwgeom_calculate_gbox_cartesian calc (map_lwhead (\<lambda>h. h\<lparr>bbox := B\<rparr>) geom) b') \<and>
    box_bounds (gbox_float_round (snd (lwgeom_calculate_gbox_cartesian calc
      (map_lwhead (\<lambda>h. h\<lparr>bbox := B\<rparr>) geom) b'))) = box_bounds b1" for calc b' B
  proof -
    consider (p) "type = POINTTYPE" | (l) "type = LINETYPE" | (mp) "type = MULTIPOINTTYPE" | (ml) "type = MULTILINETYPE"
      using result by (auto split: if_splits)
    then show ?thesis
    proof cases
      case p
      with result have r: "0 < count" "peek_point ?d (p + 8) f b = Inr (True, b1)" by (auto split: if_splits)
      from read_point [OF geom t [unfolded p] count r(1)] obtain ds where
        ds: "doubles_at ?d (p + 8) (FLAGS_NDIMS f) = Inr ds" "geom = LWPOINT (read_head f s) (array_of f 1 ds)" by blast
      with point [OF r(2) ds(1)] cartesian_point [of ds f calc] show ?thesis by (simp add: box_bounds_round)
    next
      case l
      with result have r: "count = 2" "peek_segment ?d (p + 8) f b = Inr (True, b1)" by (auto split: if_splits)
      from read_segment [OF geom t [unfolded l] count [unfolded r(1)]] obtain ds es where
        ds: "doubles_at ?d (p + 8) (FLAGS_NDIMS f) = Inr ds"
          "doubles_at ?d (p + 8 + 8 * FLAGS_NDIMS f) (FLAGS_NDIMS f) = Inr es"
          "geom = LWLINE (read_head f s) (array_of f 2 (ds @ es))" by blast
      with segment [OF r(2) ds(1,2)] cartesian_segment [of ds f es calc] show ?thesis
        by (simp add: box_bounds_round)
    next
      case mp
      with result have r: "count = 1" "gserialized2_get_uint32_t ?d (p + 12) = Inr 1"
        "peek_point ?d (p + 16) f b = Inr (True, b1)" by (auto simp: bindE_eq_Inr split: if_splits)
      from read_single [OF geom t _ count [unfolded r(1)]] mp obtain sub m where
        sub: "lwgeom_from_gserialized2_buffer (length ?d) ?d s ?f (p + 8) = Inr (sub, m)"
          "gserialized2_get_uint32_t ?d (p + 8) = Inr POINTTYPE"
          "geom = LWCOLLECTION type (read_head f s) 1 True [sub]"
        by (auto dest: allows_point)
      then obtain k where k: "length ?d = Suc k"
        by (cases "length ?d") (auto simp: lwgeom_from_gserialized2_buffer.simps)
      from read_point [OF sub(1) [unfolded k] sub(2), of 1] r(2) obtain ds where
        ds: "doubles_at ?d (p + 16) (FLAGS_NDIMS f) = Inr ds" "sub = LWPOINT (read_head ?f s) (array_of f 1 ds)"
        by (auto simp: ac_simps)
      with point [OF r(3) ds(1)] cartesian_point [of ds f calc] sub(3) show ?thesis
        by (simp add: box_bounds_round cartesian_single
            del: lwgeom_calculate_gbox_cartesian.simps)
    next
      case ml
      with result have r: "count = 1" "gserialized2_get_uint32_t ?d (p + 12) = Inr 2"
        "peek_segment ?d (p + 16) f b = Inr (True, b1)" by (auto simp: bindE_eq_Inr split: if_splits)
      from read_single [OF geom t _ count [unfolded r(1)]] ml obtain sub m where
        sub: "lwgeom_from_gserialized2_buffer (length ?d) ?d s ?f (p + 8) = Inr (sub, m)"
          "gserialized2_get_uint32_t ?d (p + 8) = Inr LINETYPE"
          "geom = LWCOLLECTION type (read_head f s) 1 True [sub]"
        by (auto dest: allows_line)
      then obtain k where k: "length ?d = Suc k"
        by (cases "length ?d") (auto simp: lwgeom_from_gserialized2_buffer.simps)
      from read_segment [OF sub(1) [unfolded k] sub(2)] r(2) obtain ds es where
        ds: "doubles_at ?d (p + 16) (FLAGS_NDIMS f) = Inr ds"
          "doubles_at ?d (p + 16 + 8 * FLAGS_NDIMS f) (FLAGS_NDIMS f) = Inr es"
          "sub = LWLINE (read_head ?f s) (array_of f 2 (ds @ es))"
        by (auto simp: ac_simps)
      with segment [OF r(3) ds(1,2)] cartesian_segment [of ds f es calc] sub(3) show ?thesis
        by (simp add: box_bounds_round cartesian_single
            del: lwgeom_calculate_gbox_cartesian.simps)
    qed
  qed
  have boxes: "case lwgeom_calculate_gbox_cartesian calc (map_lwhead (\<lambda>h. h\<lparr>bbox := B\<rparr>) geom) b' of
      (ok, c) \<Rightarrow> ok \<and> box_bounds (gbox_float_round c) = box_bounds b1" for calc b' B
    using main [of calc B b'] by (simp only: case_prod_beta)
  have flat: "\<not> geodetic f" "\<not> gserialized2_has_bbox g"
    using none lwflags_of_gflags(3) [OF f] by (simp_all add: gserialized2_has_bbox_def)
  show thesis by (rule that [OF f pe v flat(2,1) geom]) (rule boxes)
qed

text \<open>
  C24. The box of a point, of a line of two points, and of a collection of one of these, is
  found without building the geometry. It is the box of the geometry that the buffer
  holds, rounded outward to floats, in every dimension the geometry has.
\<close>

theorem peek_gbox_is_box:
  assumes "allocated g" "gserialized2_peek_gbox_p g b = Inr (True, b1)"
  shows "\<exists>geom c. lwgeom_from_gserialized2 calc stack g = Inr geom \<and>
    lwgeom_calculate_gbox calc geom b = (True, c) \<and> box_bounds (gbox_float_round c) = box_bounds b1"
proof -
  obtain f p e n geom where f: "gserialized2_get_lwflags g = Inr f"
    and pe: "gserialized2_payload_bounds g = Some (p, e)"
    and v: "gserialized2_validate_geometry_buffer (validate_fuel (gs_data g)) (gs_data g) p e f = Inr n"
    and none: "\<not> gserialized2_has_bbox g" "\<not> geodetic f"
    and geom: "lwgeom_from_gserialized2_buffer (validate_fuel (gs_data g)) (gs_data g) (gserialized2_get_srid g)
      f p = Inr (geom, n)"
    and box: "\<And>calc b' B. (case lwgeom_calculate_gbox_cartesian calc (map_lwhead (\<lambda>h. h\<lparr>bbox := B\<rparr>) geom) b'
      of (ok, c) \<Rightarrow> ok \<and> box_bounds (gbox_float_round c) = box_bounds b1)"
    using peek_finds [OF assms, of "gserialized2_get_srid g"] by blast
  from from_gserialized2_after_validation [OF assms(1) f pe v, of calc stack] geom
  have at: "read_at (gs_data g) p f (gserialized2_get_srid g) geom"
    and r: "lwgeom_from_gserialized2 calc stack g = bindE (gserialized2_read_gbox_p g stack) (\<lambda>(ok, b).
      Inr (map_lwhead (\<lambda>h. h\<lparr>bbox := box_for calc geom ok b\<rparr>) geom))"
    by auto
  define B where "B = box_for calc geom False (stack\<lparr>gflags := f\<rparr>)"
  have "lwgeom_from_gserialized2 calc stack g = Inr (map_lwhead (\<lambda>h. h\<lparr>bbox := B\<rparr>) geom)"
    using none(1) by (simp add: r B_def gserialized2_read_gbox_p_def f)
  moreover define G where "G = map_lwhead (\<lambda>h. h\<lparr>bbox := B\<rparr>) geom"
  moreover obtain ok c where c: "lwgeom_calculate_gbox_cartesian calc G (b\<lparr>gflags := lwgeom_flags G\<rparr>) = (ok, c)"
    by (cases "lwgeom_calculate_gbox_cartesian calc G (b\<lparr>gflags := lwgeom_flags G\<rparr>)")
  moreover have "\<not> geodetic (lwgeom_flags G)"
    using at none(2) by (simp add: G_def read_at_def read_head_def)
  then have "lwgeom_calculate_gbox calc G b = (ok, c)"
    by (simp add: lwgeom_calculate_gbox_def Let_def c)
  moreover have "ok \<and> box_bounds (gbox_float_round c) = box_bounds b1"
    using box [of calc B "b\<lparr>gflags := lwgeom_flags G\<rparr>"] unfolding G_def [symmetric] c by simp
  ultimately show ?thesis by auto
qed

text \<open>The questions that are answered on the buffer.\<close>

lemma first_count_read:
  assumes "lwgeom_from_gserialized2_buffer fuel d s f p = Inr (geom, n)"
    and "gserialized2_get_uint32_t d p = Inr t" "t = POINTTYPE \<or> t = LINETYPE"
  obtains k where "gserialized2_get_uint32_t d (p + 4) = Inr k"
  using assms
  by (cases fuel) (auto simp: lwgeom_from_gserialized2_buffer.simps lwpoint_from_gserialized2_buffer_def
      curve_from_gserialized2_buffer_def bindE_eq_Inr)

lemma peek_gbox_no_fault:
  assumes "allocated g"
  shows "no_fault (gserialized2_peek_gbox_p g b)"
proof -
  let ?d = "gs_data g"
  have main: "no_fault (
      if type = POINTTYPE then (if count = 0 then Inr (False, b) else peek_point ?d (p + 8) f b)
      else if type = LINETYPE then (if count \<noteq> 2 then Inr (False, b) else peek_segment ?d (p + 8) f b)
      else if type = MULTIPOINTTYPE then
        (if count \<noteq> 1 then Inr (False, b)
         else bindE (gserialized2_get_uint32_t ?d (p + 12)) (\<lambda>n.
           if n \<noteq> 1 then Inr (False, b) else peek_point ?d (p + 16) f b))
      else if type = MULTILINETYPE then
        (if count \<noteq> 1 then Inr (False, b)
         else bindE (gserialized2_get_uint32_t ?d (p + 12)) (\<lambda>n.
           if n \<noteq> 2 then Inr (False, b) else peek_segment ?d (p + 16) f b))
      else Inr (False, b))"
    if v: "gserialized2_validate_geometry_buffer (validate_fuel ?d) ?d p e f = Inr n"
      and pe: "gserialized2_payload_bounds g = Some (p, e)"
      and t: "gserialized2_get_uint32_t ?d p = Inr type"
      and count: "gserialized2_get_uint32_t ?d (p + 4) = Inr count" for p e f n type count
  proof -
    note pe' = payload_bounds_ok [OF pe assms]
    have "e < 2 ^ 32" using pe'(3) by simp
    from reader_follows [OF v pe'(2) this] obtain geom where
      geom: "lwgeom_from_gserialized2_buffer (validate_fuel ?d) ?d 0 f p = Inr (geom, n)" by blast
    have "type \<noteq> POINTTYPE" if "0 < count" "\<not> no_fault (peek_point ?d (p + 8) f b)"
      using that read_point [OF geom _ count that(1)] t by (auto simp: peek_point_def)
    moreover have "type \<noteq> LINETYPE" if "count = 2" "\<not> no_fault (peek_segment ?d (p + 8) f b)"
      using that read_segment [OF geom] count t by (auto simp: peek_segment_def)
    moreover have "no_fault (bindE (gserialized2_get_uint32_t ?d (p + 12)) (\<lambda>n.
        if n \<noteq> 1 then Inr (False, b) else peek_point ?d (p + 16) f b))"
      if c: "type = MULTIPOINTTYPE" "count = 1"
    proof -
      from read_single [OF geom t _ count [unfolded c(2)]] c(1) obtain sub m where
        sub: "lwgeom_from_gserialized2_buffer (length ?d) ?d 0 (flag_set f LWFLAG_BBOX False) (p + 8) = Inr (sub, m)"
          "gserialized2_get_uint32_t ?d (p + 8) = Inr POINTTYPE"
        by (auto dest: allows_point)
      then obtain l where l: "length ?d = Suc l"
        by (cases "length ?d") (auto simp: lwgeom_from_gserialized2_buffer.simps)
      from first_count_read [OF sub] obtain k where k: "gserialized2_get_uint32_t ?d (p + 8 + 4) = Inr k" by blast
      then show ?thesis using read_point [OF sub(1) [unfolded l] sub(2) k]
        by (auto simp: peek_point_def ac_simps)
    qed
    moreover have "no_fault (bindE (gserialized2_get_uint32_t ?d (p + 12)) (\<lambda>n.
        if n \<noteq> 2 then Inr (False, b) else peek_segment ?d (p + 16) f b))"
      if c: "type = MULTILINETYPE" "count = 1"
    proof -
      from read_single [OF geom t _ count [unfolded c(2)]] c(1) obtain sub m where
        sub: "lwgeom_from_gserialized2_buffer (length ?d) ?d 0 (flag_set f LWFLAG_BBOX False) (p + 8) = Inr (sub, m)"
          "gserialized2_get_uint32_t ?d (p + 8) = Inr LINETYPE"
        by (auto dest: allows_line)
      then obtain l where l: "length ?d = Suc l"
        by (cases "length ?d") (auto simp: lwgeom_from_gserialized2_buffer.simps)
      from first_count_read [OF sub] obtain k where k: "gserialized2_get_uint32_t ?d (p + 8 + 4) = Inr k" by blast
      then show ?thesis using read_segment [OF sub(1) [unfolded l] sub(2)]
        by (auto simp: peek_segment_def ac_simps)
    qed
    ultimately show ?thesis by auto
  qed
  show ?thesis
  proof (cases "gserialized2_payload_bounds g")
    case None
    then show ?thesis by (simp add: gserialized2_peek_gbox_p_def)
  next
    case (Some pe)
    obtain p e where pe: "gserialized2_payload_bounds g = Some (p, e)" using Some by (cases pe) auto
    note pe' = payload_bounds_ok [OF pe assms]
    have room: "no_fault (gserialized2_get_uint32_t ?d (p + 4))"
      if "gserialized2_validate_geometry_buffer (validate_fuel ?d) ?d p e f = Inr n" for f n
      using validate_room [OF that] pe'(2) uint32_ok [of "p + 4" ?d] by auto
    have type: "gserialized2_get_uint32_t ?d p = Inr t" if "gserialized2_get_type g = Inr t" for t
      using that pe'(1) by (auto simp: gserialized2_get_type_def bindE_eq_Inr)
    show ?thesis
      unfolding gserialized2_peek_gbox_p_def pe option.case prod.case Let_def
        by (intro no_fault_bind lwflags_no_fault [OF assms] validate_buffer_no_fault [OF pe assms]
          get_type_no_fault [OF assms], rule no_fault_if, simp, rule no_fault_bind, erule room)
        (rule main [OF _ pe type], assumption+)
  qed
qed

lemma get_gbox_no_fault:
  assumes "allocated g"
  shows "no_fault (gserialized2_get_gbox_p calc stack g b)" "no_fault (gserialized2_fast_gbox_p g b)"
proof -
  have geom: "no_fault (lwgeom_from_gserialized2 calc stack g)"
    using lwgeom_from_gserialized2_safe [OF assms, of calc stack] by auto
  show "no_fault (gserialized2_get_gbox_p calc stack g b)"
    unfolding gserialized2_get_gbox_p_def
    by (auto intro!: no_fault_intro read_gbox_no_fault peek_gbox_no_fault assms geom split: prod.splits)
  show "no_fault (gserialized2_fast_gbox_p g b)"
    unfolding gserialized2_fast_gbox_p_def
    by (auto intro!: no_fault_intro read_gbox_no_fault peek_gbox_no_fault assms split: prod.splits)
qed

lemma peek_first_point_no_fault:
  assumes "allocated g"
  shows "no_fault (gserialized2_peek_first_point g pt)"
proof (cases "gserialized2_payload_bounds g")
  case None
  then show ?thesis by (simp add: gserialized2_peek_first_point_def)
next
  case (Some pe)
  let ?d = "gs_data g"
  obtain p e where pe: "gserialized2_payload_bounds g = Some (p, e)" using Some by (cases pe) auto
  note pe' = payload_bounds_ok [OF pe assms]
  have main: "no_fault (bindE (gserialized2_get_uint32_t ?d (p + 4)) (\<lambda>count.
          if count = 0 then Inr (False, pt)
          else
            bindE (gserialized2_get_uint32_t ?d p) (\<lambda>type.
            bindE (require (type = POINTTYPE) ''%s is currently not implemented for type %d'') (\<lambda>_.
            bindE (doubles_at ?d (p + 8) (G2FLAGS_NDIMS (gs_gflags g))) (\<lambda>ds.
            Inr (True, gserialized2_copy_point (gs_gflags g) ds pt))))))"
    if f: "gserialized2_get_lwflags g = Inr f"
      and v: "gserialized2_validate_geometry_buffer (validate_fuel ?d) ?d p e f = Inr n" for f n
  proof -
    have e32: "e < 2 ^ 32" using pe'(3) by simp
    from reader_follows [OF v pe'(2) e32] obtain geom where
      geom: "lwgeom_from_gserialized2_buffer (validate_fuel ?d) ?d 0 f p = Inr (geom, n)"
      and at: "read_at ?d p f 0 geom" by blast
    from validate_room [OF v] pe'(2) uint32_ok [of "p + 4" ?d] obtain count where
      count: "gserialized2_get_uint32_t ?d (p + 4) = Inr count" by auto
    show ?thesis
      using at read_point [OF geom _ count] ndims_of_gflags [OF f]
      by (auto simp: count read_at_def require_def)
  qed
  show ?thesis
    unfolding gserialized2_peek_first_point_def pe option.case prod.case
    by (intro no_fault_bind lwflags_no_fault [OF assms] validate_buffer_no_fault [OF pe assms] main)
qed

lemma hash_no_fault:
  assumes "allocated g" "gserialized2_header_size g \<le> gserialized2_buffer_size g"
  shows "no_fault (gserialized2_hash hash g)"
proof -
  have "gserialized2_header_size g - 8 + (LWSIZE_GET (gs_size g) - gserialized2_header_size g)
      \<le> length (gs_data g)"
    using assms header_size_ge [of g] by (auto simp: allocated_def gserialized2_buffer_size_def)
  with assms(2) show ?thesis
    by (simp add: gserialized2_hash_def Let_def mem_at_ok gserialized2_buffer_size_def split: prod.split)
qed

text \<open>
  C18. These lookups on the buffer are memory safe: reading, peeking at or computing the box,
  and peeking at the first point, return an answer or one of the program's own errors on
  every buffer whose declared size is allocated; the hash does when the header fits the
  declared size as well, which it does not check. (The question whether the geometry is empty is not among them: it can read
  past the end, as \<open>gserialized2_is_empty_overreads\<close> shows.)
\<close>

theorem gserialized2_lookups_safe:
  assumes "allocated g"
  shows "no_fault (gserialized2_get_gbox_p calc stack g b) \<and> no_fault (gserialized2_fast_gbox_p g b) \<and>
    no_fault (gserialized2_peek_first_point g pt) \<and>
    (gserialized2_header_size g \<le> gserialized2_buffer_size g \<longrightarrow> no_fault (gserialized2_hash hash g))"
  using get_gbox_no_fault [OF assms] peek_first_point_no_fault [OF assms] hash_no_fault [OF assms] by blast

section \<open>Emptiness\<close>

text \<open>
  The test walks over empty parts by their size. For a polygon it counts the ring table
  without its padding, so the walk is right when no polygon of the geometry has an odd
  number of rings that are all empty. It looks for points in all rings, where
  \<^const>\<open>lwgeom_is_empty\<close> asks the first one.
\<close>

fun padded_right :: "lwgeom \<Rightarrow> bool" where
  "padded_right (LWPOLY h mr rs) \<longleftrightarrow> (list_all (\<lambda>r. npoints r = 0) rs \<longrightarrow> even (length rs))"
| "padded_right (LWCOLLECTION t h mg al gs) \<longleftrightarrow> list_all padded_right gs"
| "padded_right g \<longleftrightarrow> True"

fun no_points :: "lwgeom \<Rightarrow> bool" where
  "no_points (LWPOLY h mr rs) \<longleftrightarrow> list_all (\<lambda>r. npoints r = 0) rs"
| "no_points (LWCOLLECTION t h mg al gs) \<longleftrightarrow> lwtype_is_collection t \<and> list_all no_points gs"
| "no_points g \<longleftrightarrow> lwgeom_is_empty g"

fun first_ring_decides :: "lwgeom \<Rightarrow> bool" where
  "first_ring_decides (LWPOLY h mr rs) \<longleftrightarrow>
     (case rs of [] \<Rightarrow> True | r # rs \<Rightarrow> npoints r = 0 \<longrightarrow> list_all (\<lambda>r. npoints r = 0) rs)"
| "first_ring_decides (LWCOLLECTION t h mg al gs) \<longleftrightarrow> list_all first_ring_decides gs"
| "first_ring_decides g \<longleftrightarrow> True"

lemma no_points_is_empty: "first_ring_decides g \<Longrightarrow> no_points g = lwgeom_is_empty g"
proof (induction g)
  case (LWCOLLECTION t h mg al gs)
  then have "list_all no_points gs = list_all lwgeom_is_empty gs" by (auto simp: list_all_iff)
  then show ?case by simp
qed (auto split: list.splits)

lemma rings_empty_walk:
  assumes "rings_from_gserialized2_buffer d f k q ord = Inr (rs, ord')" and "q = p + lz"
  shows "\<exists>m. rings_empty d p k lz = Inr (m, list_all (\<lambda>r. npoints r = 0) rs) \<and>
    (list_all (\<lambda>r. npoints r = 0) rs \<longrightarrow> m = lz + 4 * k)"
  using assms
proof (induction k arbitrary: q lz ord rs ord')
  case 0
  then show ?case by simp
next
  case (Suc k)
  then obtain n pa rs' ord'' where n: "gserialized2_get_uint32_t d q = Inr n"
    and pa: "points_at d f n ord = Inr pa" and rs: "rs = pa # rs'"
    and rest: "rings_from_gserialized2_buffer d f k (q + 4) (ord + 8 * FLAGS_NDIMS f * n) = Inr (rs', ord'')"
    by (auto simp: bindE_eq_Inr)
  have "npoints pa = n" using pa by (auto simp: points_at_def bindE_eq_Inr)
  moreover from Suc.IH [OF rest, of "lz + 4"] Suc.prems(2) obtain m where
    "rings_empty d p k (lz + 4) = Inr (m, list_all (\<lambda>r. npoints r = 0) rs')"
    "list_all (\<lambda>r. npoints r = 0) rs' \<longrightarrow> m = lz + 4 + 4 * k" by auto
  ultimately show ?case using n rs Suc.prems(2) by (auto simp: ac_simps)
qed

lemma members_empty_walk:
  assumes "members_from_gserialized2_buffer rd type d k p = Inr (gs, q)"
    and "\<And>p g n. rd p = Inr (g, n) \<Longrightarrow> g \<in> set gs \<Longrightarrow>
      \<exists>m. rec p = Inr (m, no_points g) \<and> (no_points g \<longrightarrow> m = n)"
    and "p = base + lz"
  shows "\<exists>m. members_empty rec base k lz = Inr (m, list_all no_points gs) \<and>
    (list_all no_points gs \<longrightarrow> base + m = q)"
  using assms
proof (induction k arbitrary: p lz gs)
  case 0
  then show ?case by simp
next
  case (Suc k)
  then obtain g n gs' where g: "rd p = Inr (g, n)" and gs: "gs = g # gs'"
    and rest: "members_from_gserialized2_buffer rd type d k (p + n) = Inr (gs', q)"
    by (auto simp: bindE_eq_Inr)
  from Suc.prems(2) [OF g] gs obtain m where
    m: "rec p = Inr (m, no_points g)" "no_points g \<longrightarrow> m = n" by auto
  from Suc.IH [OF rest, of "lz + n"] Suc.prems(2,3) gs obtain m' where
    "members_empty rec base k (lz + n) = Inr (m', list_all no_points gs')"
    "list_all no_points gs' \<longrightarrow> base + m' = q" by (auto simp: ac_simps)
  with m gs Suc.prems(3) show ?case by auto
qed

lemma npoints_ptarray_at: "ptarray_at d f n p = Inr pa \<Longrightarrow> npoints pa = n"
  by (auto simp: ptarray_at_def points_at_def bindE_eq_Inr ptarray_construct_def ptarray_construct_empty_def
      split: if_splits)

lemma polygon_walk:
  assumes "lwpoly_from_gserialized2_buffer d p f s = Inr (geom, n)" "padded_right geom"
    and "gserialized2_get_uint32_t d (p + 4) = Inr k" "length d < 2 ^ 32"
  shows "\<exists>m. (if k = 0 then Inr (8, True) else rings_empty d p k 8) = Inr (m, no_points geom) \<and>
    (no_points geom \<longrightarrow> m = n)"
proof -
  define ord where "ord = (if k > 0 then p + 8 + k * 4 mod 2 ^ 32 + (if k mod 2 \<noteq> 0 then 4 else 0) else p + 8)"
  from assms(1,3) obtain rs ord' where
    rs: "rings_from_gserialized2_buffer d f k (p + 8) ord = Inr (rs, ord')" "geom = LWPOLY (read_head f s) k rs"
      "n = ord' - p"
    by (auto simp: lwpoly_from_gserialized2_buffer_def Let_def ord_def bindE_eq_Inr)
  have len: "length rs = k \<and> (list_all (\<lambda>r. npoints r = 0) rs \<longrightarrow> ord' = ord) \<and>
    (k = 0 \<or> p + 8 + 4 * k \<le> length d)"
    using rs(1)
  proof (induction k arbitrary: "p" ord rs)
    case (Suc k)
    then obtain j pa rs' where j: "gserialized2_get_uint32_t d (p + 8) = Inr j"
      "points_at d f j ord = Inr pa" "rs = pa # rs'"
      and rest: "rings_from_gserialized2_buffer d f k (p + 4 + 8) (ord + 8 * FLAGS_NDIMS f * j) = Inr (rs', ord')"
      by (auto simp: bindE_eq_Inr ac_simps)
    moreover from j(1,2) have "npoints pa = j" "p + 8 + 4 \<le> length d"
      by (auto simp: points_at_def bindE_eq_Inr dest: uint32_range)
    moreover note Suc.IH [OF rest]
    ultimately show ?case by auto
  qed simp
  from rings_empty_walk [OF rs(1), of p 8] obtain m where
    m: "rings_empty d p k 8 = Inr (m, list_all (\<lambda>r. npoints r = 0) rs)"
      "list_all (\<lambda>r. npoints r = 0) rs \<longrightarrow> m = 8 + 4 * k" by auto
  have empty: "no_points geom = list_all (\<lambda>r. npoints r = 0) rs"
    using assms(2) rs(2) by (cases rs) auto
  show ?thesis
  proof (cases "k = 0")
    case True
    with len rs show ?thesis by (auto simp: ord_def)
  next
    case False
    have small: "k * 4 mod 2 ^ 32 = k * 4"
      using len False assms(4) by (intro mod_less) linarith
    have "n = 8 + 4 * k" if "list_all (\<lambda>r. npoints r = 0) rs"
      using that small assms(2) rs(2,3) len False by (auto simp: ord_def)
    with m empty False show ?thesis by auto
  qed
qed

lemma is_empty_walk:
  assumes "lwgeom_from_gserialized2_buffer fuel d s f p = Inr (geom, n)" "padded_right geom"
    and "length d < 2 ^ 32"
  shows "\<exists>m. gserialized2_is_empty_recurse fuel d p = Inr (m, no_points geom) \<and>
    (no_points geom \<longrightarrow> m = n)"
  using assms(1,2)
proof (induction fuel arbitrary: p f geom n)
  case 0
  then show ?case by (simp add: lwgeom_from_gserialized2_buffer.simps)
next
  case (Suc fuel)
  from Suc.prems(1) obtain type where t: "gserialized2_get_uint32_t d p = Inr type"
    by (auto simp: lwgeom_from_gserialized2_buffer.simps bindE_eq_Inr)
  note rd = Suc.prems(1) [unfolded lwgeom_from_gserialized2_buffer.simps t bindE_Inr]
  let ?colls = "set [MULTIPOINTTYPE, MULTILINETYPE, MULTIPOLYGONTYPE, COMPOUNDTYPE,
          CURVEPOLYTYPE, MULTICURVETYPE, MULTISURFACETYPE, POLYHEDRALSURFACETYPE, TINTYPE, COLLECTIONTYPE]"
  consider (point) "type = POINTTYPE" | (curve) "type \<in> {LINETYPE, CIRCSTRINGTYPE, TRIANGLETYPE}"
    | (poly) "type = POLYGONTYPE" | (nurbs) "type = NURBSCURVETYPE" | (coll) "type \<in> ?colls"
    using rd by (auto split: if_splits)
  then show ?case
  proof cases
    case point
    with rd obtain k pa where "gserialized2_get_uint32_t d (p + 4) = Inr k"
      "ptarray_at d f (if k > 0 then 1 else 0) (p + 8) = Inr pa"
      "geom = LWPOINT (read_head f s) pa" "n = 8 + 8 * k * FLAGS_NDIMS f"
      by (auto simp: lwpoint_from_gserialized2_buffer_def bindE_eq_Inr)
    with point t npoints_ptarray_at [OF this(2)] show ?thesis
      by (auto simp: lwtype_is_collection_def)
  next
    case curve
    with rd obtain k pa C where k: "gserialized2_get_uint32_t d (p + 4) = Inr k"
      and pa: "ptarray_at d f k (p + 8) = Inr pa"
      and C: "geom = C (read_head f s) pa" "C \<in> {LWLINE, LWCIRCSTRING, LWTRIANGLE}"
      and n: "n = 8 + 8 * FLAGS_NDIMS f * k"
      by (auto simp: curve_from_gserialized2_buffer_def bindE_eq_Inr)
    have "gserialized2_is_empty_recurse (Suc fuel) d p = Inr (8, k = 0)"
      using curve t k by (auto simp: lwtype_is_collection_def)
    moreover have "no_points geom = (k = 0)"
      using C npoints_ptarray_at [OF pa] by auto
    ultimately show ?thesis using n by auto
  next
    case poly
    with rd have r: "lwpoly_from_gserialized2_buffer d p f s = Inr (geom, n)" by simp
    then obtain k where k: "gserialized2_get_uint32_t d (p + 4) = Inr k"
      by (auto simp: lwpoly_from_gserialized2_buffer_def bindE_eq_Inr)
    from polygon_walk [OF r Suc.prems(2) k assms(3)] poly t k show ?thesis
      by (auto simp: lwtype_is_collection_def)
  next
    case nurbs
    with rd have r: "lwnurbscurve_from_gserialized2_buffer d p f s = Inr (geom, n)" by simp
    then obtain k degree nw nk ws ks pa where
      u: "gserialized2_get_uint32_t d (p + 4) = Inr k" "gserialized2_get_uint32_t d (p + 12) = Inr nw"
        "gserialized2_get_uint32_t d (p + 16) = Inr nk"
      and pa: "ptarray_at d f k (p + 24 + 8 * nw + 8 * nk) = Inr pa"
      and geom: "geom = LWNURBSCURVE (read_head f s) degree (Some pa) (if nw > 0 then Some ws else None)
            (if nk > 0 then Some ks else None)"
      and n: "n = 24 + 8 * nw + 8 * nk + 8 * FLAGS_NDIMS f * k"
      unfolding lwnurbscurve_from_gserialized2_buffer_def by (auto simp: bindE_eq_Inr)
    have "no_points geom = (k = 0)" using npoints_ptarray_at [OF pa] geom by simp
    then show ?thesis using nurbs t u n by (auto simp: lwtype_is_collection_def)
  next
    case coll
    let ?f = "flag_set f LWFLAG_BBOX False"
    from coll rd have "lwcollection_from_gserialized2_buffer (lwgeom_from_gserialized2_buffer fuel d s) d p f s
        = Inr (geom, n)" by auto
    then obtain k gs q where k: "gserialized2_get_uint32_t d (p + 4) = Inr k"
      and gs: "members_from_gserialized2_buffer (lwgeom_from_gserialized2_buffer fuel d s ?f) type d k (p + 8)
        = Inr (gs, q)"
      and geom: "geom = LWCOLLECTION type (read_head f s) k (k > 0) gs" and n: "n = q - p"
      using t by (auto simp: lwcollection_from_gserialized2_buffer_def bindE_eq_Inr)
    have IH: "\<exists>m. gserialized2_is_empty_recurse fuel d p' = Inr (m, no_points g) \<and>
        (no_points g \<longrightarrow> m = j)"
      if "lwgeom_from_gserialized2_buffer fuel d s ?f p' = Inr (g, j)" "g \<in> set gs" for p' g j
      using Suc.IH [OF that(1)] that(2) Suc.prems(2) geom by (auto simp: list_all_iff)
    have c: "lwtype_is_collection type" "lwtype_is_collection (type mod 256)" using coll by (auto simp: lwtype_is_collection_def)
    from members_empty_walk [where rec = "gserialized2_is_empty_recurse fuel d" and base = p and lz = 8, OF gs IH] obtain m where
      "members_empty (gserialized2_is_empty_recurse fuel d) p k 8 = Inr (m, list_all no_points gs)"
      "list_all no_points gs \<longrightarrow> p + m = q" by auto
    with c t k geom n show ?thesis by auto
  qed
qed

text \<open>
  C34. The emptiness test on the buffer says whether the geometry that is read from it is without any points, and agrees with
  \<^const>\<open>lwgeom_is_empty\<close> of that geometry when no polygon has an empty first ring and points in another. No
  polygon in it may have an odd number of rings that are all empty (see \<open>gserialized2_is_empty_overreads\<close>), and the
  buffer is smaller than 4 GiB.
\<close>

theorem gserialized2_is_empty_correct:
  assumes "allocated g" "length (gs_data g) < 2 ^ 32"
    and "lwgeom_from_gserialized2 calc stack g = Inr geom" "padded_right geom"
  shows "gserialized2_is_empty g = Inr (no_points geom) \<and>
    (first_ring_decides geom \<longrightarrow> gserialized2_is_empty g = Inr (lwgeom_is_empty geom))"
proof -
  let ?d = "gs_data g"
  from assms(3) obtain f where f: "gserialized2_get_lwflags g = Inr f"
    by (auto simp: lwgeom_from_gserialized2_def Let_def bindE_eq_Inr)
  from assms(3) f obtain p e where pe: "gserialized2_payload_bounds g = Some (p, e)"
    by (auto simp: lwgeom_from_gserialized2_def Let_def split: option.splits)
  from assms(3) f pe obtain n where
    v: "gserialized2_validate_geometry_buffer (validate_fuel ?d) ?d p e f = Inr n"
    by (auto simp: lwgeom_from_gserialized2_def Let_def bindE_eq_Inr)
  from from_gserialized2_after_validation [OF assms(1) f pe v, of calc stack] obtain geom' where
    rd: "lwgeom_from_gserialized2_buffer (validate_fuel ?d) ?d (gserialized2_get_srid g) f p = Inr (geom', n)"
    and r: "lwgeom_from_gserialized2 calc stack g = bindE (gserialized2_read_gbox_p g stack) (\<lambda>(ok, b).
      Inr (map_lwhead (\<lambda>h. h\<lparr>bbox := box_for calc geom' ok b\<rparr>) geom'))" by blast
  from r assms(3) obtain B where geom: "geom = map_lwhead (\<lambda>h. h\<lparr>bbox := B\<rparr>) geom'"
    by (cases "gserialized2_read_gbox_p g stack") (auto split: prod.splits)
  then have "no_points geom = no_points geom'" "padded_right geom = padded_right geom'"
    by (cases geom'; simp)+
  with is_empty_walk [OF rd _ assms(2)] assms(4) have "gserialized2_is_empty g = Inr (no_points geom)"
    by (auto simp: gserialized2_is_empty_def pe f v simp del: gserialized2_is_empty_recurse.simps)
  then show ?thesis using no_points_is_empty [of geom] by simp
qed

theorem peek_gbox_is_box_witness:
  "\<exists>b1 geom c. gserialized2_peek_gbox_p sample_gs gbox_init = Inr (True, b1) \<and>
     lwgeom_from_gserialized2 no_calc gbox_init sample_gs = Inr geom \<and>
     lwgeom_calculate_gbox no_calc geom gbox_init = (True, c) \<and> box_bounds (gbox_float_round c) = box_bounds b1"
proof -
  have "\<not> has_bits (gs_gflags sample_gs) G2FLAG_GEODETIC" "\<not> has_bits (gs_gflags sample_gs) G2FLAG_BBOX"
    by (simp_all add: sample_gs_def)
  then obtain b1 where "gserialized2_peek_gbox_p sample_gs gbox_init = Inr (True, b1)"
    using sample_coordinates
    by (simp add: gserialized2_peek_gbox_p_def sample_header sample_valid sample_type sample_uint32 Let_def
        peek_point_def FLAGS_NDIMS_def)
  with peek_gbox_is_box [OF sample_header(1) this, of no_calc gbox_init] show ?thesis by blast
qed

theorem gserialized2_lookups_safe_witness:
  "no_fault (gserialized2_get_gbox_p no_calc gbox_init sample_gs gbox_init) \<and>
   no_fault (gserialized2_hash (\<lambda>k. id) sample_gs)"
  using gserialized2_lookups_safe [OF sample_header(1), of no_calc gbox_init gbox_init "(0, 0, 0, 0)" "\<lambda>k. id"]
    sample_header by simp

theorem gserialized2_is_empty_correct_witness: "gserialized2_is_empty sample_gs = Inr False"
proof -
  have "length (gs_data sample_gs) < 2 ^ 32" by (simp add: sample_gs_def)
  from gserialized2_is_empty_correct [OF sample_header(1) this sample_read [of no_calc gbox_init]]
  show ?thesis by (simp add: ptarray_construct_reference_data_def)
qed

text \<open>
  A collection of a polygon with one empty ring and an empty TIN, whose ring table is padded
  with the number of the polygon type. The padding is not validated.
\<close>

definition overread_gs :: gserialized where
  "overread_gs = \<lparr>gs_size = 160, gs_srid = (0, 0, 0), gs_gflags = 0x40,
     gs_data = [7, 0, 0, 0, 2, 0, 0, 0,  3, 0, 0, 0, 1, 0, 0, 0,  0, 0, 0, 0, 3, 0, 0, 0,
                15, 0, 0, 0, 0, 0, 0, 0]\<rparr>"

lemma overread_header:
  "allocated overread_gs" "gserialized2_payload_bounds overread_gs = Some (0, 32)"
  "gserialized2_get_lwflags overread_gs = Inr 0"
  by (simp_all add: header_defs overread_gs_def drop_bit_eq_div)

lemma overread_uint32:
  "gserialized2_get_uint32_t (gs_data overread_gs) 0 = Inr 7"
  "gserialized2_get_uint32_t (gs_data overread_gs) 4 = Inr 2"
  "gserialized2_get_uint32_t (gs_data overread_gs) 8 = Inr 3"
  "gserialized2_get_uint32_t (gs_data overread_gs) 12 = Inr 1"
  "gserialized2_get_uint32_t (gs_data overread_gs) 16 = Inr 0"
  "gserialized2_get_uint32_t (gs_data overread_gs) 20 = Inr 3"
  "gserialized2_get_uint32_t (gs_data overread_gs) 24 = Inr 15"
  "gserialized2_get_uint32_t (gs_data overread_gs) 28 = Inr 0"
  "gserialized2_get_uint32_t (gs_data overread_gs) 32 = Inl MemFault"
  by (simp_all add: gserialized2_get_uint32_t_def mem_at_def overread_gs_def)

lemma two_members:
  "validate_members val type d e 2 p = validate_members val type d e (Suc (Suc 0)) p"
  "members_empty rec p 2 lz = members_empty rec p (Suc (Suc 0)) lz"
  by (simp_all only: numeral_2_eq_2)

lemma rings_empty_numeral: "rings_empty d p (numeral n) lz =
    bindE (gserialized2_get_uint32_t d (p + lz)) (\<lambda>lrnum.
    if lrnum > 0 then Inr (lz + 4, False) else rings_empty d p (pred_numeral n) (lz + 4))"
  by (simp add: numeral_eq_Suc)

text \<open>
  The emptiness test can read outside a buffer that passed validation: it takes the
  unvalidated padding of an odd ring table for the next geometry and follows its count.
\<close>

theorem gserialized2_is_empty_overreads:
  "allocated overread_gs \<and>
   gserialized2_validate_geometry_buffer (validate_fuel (gs_data overread_gs)) (gs_data overread_gs) 0 32 0
     = Inr 32 \<and> gserialized2_is_empty overread_gs = Inl MemFault"
proof -
  have valid: "gserialized2_validate_geometry_buffer (Suc (Suc k)) (gs_data overread_gs) 0 32 0 = Inr 32" for k
    by (simp add: gserialized2_validate_geometry_buffer.simps validation_defs overread_uint32 FLAGS_NDIMS_def
        validate_polygon_def lwcollection_allows_subtype_def two_members)
  have len: "validate_fuel (gs_data overread_gs) = Suc (Suc 31)" by (simp add: overread_gs_def)
  have walk: "gserialized2_is_empty_recurse (Suc (Suc k)) (gs_data overread_gs) 0 = Inl MemFault" for k
    by (simp add: overread_uint32 lwtype_is_collection_def two_members rings_empty_numeral)
  have "gserialized2_is_empty overread_gs = Inl MemFault"
    unfolding gserialized2_is_empty_def overread_header option.case prod.case bindE_Inr len valid walk by simp
  then show ?thesis using overread_header(1) valid unfolding len by blast
qed

end
