(* ===== verification/GS2Write.thy ===== *)
theory GS2Write
  imports GSerialized2
begin

text \<open>
  Writing the on-disk form (gserialized2.c): the sizes that are computed before the buffer
  is allocated, the bytes that are written into it, and \<open>gserialized2_from_lwgeom\<close>, which
  puts them together. Writing behind the allocated size is a memory fault and the final
  assertion an error, so that both have to be proved away.
\<close>

section \<open>Sizes\<close>

text \<open>The counts of a NURBS curve are the lengths of its arrays, so a count without an array
  cannot be written down; an array without a count can. The sums are of 32-bit integers.\<close>

definition lwnurbscurve_counts :: "nat \<Rightarrow> pointarray option \<Rightarrow> double list option \<Rightarrow> double list option \<Rightarrow> nat \<times> nat \<times> nat" where
  "lwnurbscurve_counts degree p w k =
     ((case p of None \<Rightarrow> 0 | Some pa \<Rightarrow> npoints pa), (case w of None \<Rightarrow> 0 | Some ws \<Rightarrow> length ws),
      (case k of None \<Rightarrow> 0 | Some ks \<Rightarrow> length ks))"

definition gserialized2_from_lwnurbscurve_size ::
  "lwhead \<Rightarrow> nat \<Rightarrow> pointarray option \<Rightarrow> double list option \<Rightarrow> double list option \<Rightarrow> lwerr + nat" where
  "gserialized2_from_lwnurbscurve_size h degree p w k =
     (case lwnurbscurve_counts degree p w k of (n, nweights, nknots) \<Rightarrow>
      bindE (require (\<not> (w \<noteq> None \<and> nweights \<le> 0))
        ''NURBS curve has non-NULL weights but nweights <= 0'') (\<lambda>_.
      bindE (require (\<not> (k \<noteq> None \<and> nknots \<le> 0))
        ''NURBS curve has non-NULL knots but nknots <= 0'') (\<lambda>_.
      bindE (require (\<not> (nweights > 0 \<and> nweights \<noteq> n))
        ''NURBS curve weights count (%d) does not match control points count (%d)'') (\<lambda>_.
      bindE (require (\<not> (nknots > 0 \<and> nknots \<noteq> (n + degree + 1) mod 2 ^ 32))
        ''NURBS curve knots count (%d) does not match expected count (%d)'') (\<lambda>_.
      Inr (24 + 8 * nweights + 8 * nknots +
        (case p of None \<Rightarrow> 0 | Some pa \<Rightarrow> 8 * npoints pa * FLAGS_NDIMS (flags h))))))))"

fun gserialized2_from_any_size :: "lwgeom \<Rightarrow> lwerr + nat" where
  "gserialized2_from_any_size (LWPOINT h pa) = Inr (8 + 8 * npoints pa * FLAGS_NDIMS (flags h))"
| "gserialized2_from_any_size (LWLINE h pa) = Inr (8 + 8 * npoints pa * FLAGS_NDIMS (flags h))"
| "gserialized2_from_any_size (LWTRIANGLE h pa) = Inr (8 + 8 * npoints pa * FLAGS_NDIMS (flags h))"
| "gserialized2_from_any_size (LWCIRCSTRING h pa) = Inr (8 + 8 * npoints pa * FLAGS_NDIMS (flags h))"
| "gserialized2_from_any_size (LWPOLY h mr rs) =
     Inr (8 + (if length rs mod 2 \<noteq> 0 then 4 else 0) +
       sum_list (map (\<lambda>r. 4 + npoints r * (FLAGS_NDIMS (flags h) * 8)) rs))"
| "gserialized2_from_any_size (LWNURBSCURVE h d p w k) = gserialized2_from_lwnurbscurve_size h d p w k"
| "gserialized2_from_any_size (LWCOLLECTION t h mg al gs) =
     (if lwtype_is_collection t
      then bindE (mapE gserialized2_from_any_size gs) (\<lambda>sizes. Inr (8 + sum_list sizes))
      else Inl (LwError ''Unknown geometry type: %d - %s''))"

definition gserialized2_from_lwgeom_size :: "lwgeom \<Rightarrow> lwerr + nat" where
  "gserialized2_from_lwgeom_size geom =
     (let size = 8;
          size = (if lwflags_uses_extended_flags (lwgeom_flags geom) then size + 8 else size);
          size = (if bbox (lwhead_of geom) \<noteq> None then size + gbox_serialized_size (lwgeom_flags geom) else size)
      in bindE (gserialized2_from_any_size geom) (\<lambda>n. Inr (size + n)))"

section \<open>Bytes\<close>

abbreviation uint32_bytes :: "nat \<Rightarrow> byte list" where
  "uint32_bytes n \<equiv> le_bytes 4 (of_nat n :: u32)"

definition double_bytes :: "double list \<Rightarrow> byte list" where
  "double_bytes ds = concat (map (le_bytes 8) ds)"

text \<open>The bytes of the first \<open>n\<close> points of an array, each of \<open>k\<close> coordinates.\<close>

definition points_bytes :: "pointarray \<Rightarrow> nat \<Rightarrow> nat \<Rightarrow> lwerr + byte list" where
  "points_bytes pa n k =
     (if n * k \<le> length (ptlist pa) then Inr (double_bytes (take (n * k) (ptlist pa))) else Inl MemFault)"

definition gserialized2_from_lwpoint :: "lwhead \<Rightarrow> pointarray \<Rightarrow> lwerr + byte list" where
  "gserialized2_from_lwpoint h pa =
     bindE (require (FLAGS_GET_ZM (flags h) = FLAGS_GET_ZM (pflags pa)) ''Dimensions mismatch in lwpoint'') (\<lambda>_.
     bindE (if npoints pa > 0 then points_bytes pa 1 (FLAGS_NDIMS (pflags pa)) else Inr []) (\<lambda>bs.
     Inr (uint32_bytes POINTTYPE @ uint32_bytes (npoints pa) @ bs)))"

text \<open>All points of an array behind a type and a count.\<close>

definition curve_bytes :: "nat \<Rightarrow> pointarray \<Rightarrow> lwerr + byte list" where
  "curve_bytes type pa =
     bindE (if npoints pa > 0 then points_bytes pa (npoints pa) (FLAGS_NDIMS (pflags pa)) else Inr []) (\<lambda>bs.
     Inr (uint32_bytes type @ uint32_bytes (npoints pa) @ bs))"

definition gserialized2_from_lwline :: "lwhead \<Rightarrow> pointarray \<Rightarrow> lwerr + byte list" where
  "gserialized2_from_lwline h pa =
     bindE (require (hasz (flags h) = hasz (pflags pa)) ''Dimensions mismatch in lwline'') (\<lambda>_.
     curve_bytes LINETYPE pa)"

definition gserialized2_from_lwtriangle :: "lwhead \<Rightarrow> pointarray \<Rightarrow> lwerr + byte list" where
  "gserialized2_from_lwtriangle h pa =
     bindE (require (FLAGS_GET_ZM (flags h) = FLAGS_GET_ZM (pflags pa)) ''Dimensions mismatch in lwtriangle'')
       (\<lambda>_. curve_bytes TRIANGLETYPE pa)"

definition gserialized2_from_lwcircstring :: "lwhead \<Rightarrow> pointarray \<Rightarrow> lwerr + byte list" where
  "gserialized2_from_lwcircstring h pa =
     bindE (require (FLAGS_GET_ZM (flags h) = FLAGS_GET_ZM (pflags pa)) ''Dimensions mismatch in lwcircstring'')
       (\<lambda>_. curve_bytes CIRCSTRINGTYPE pa)"

definition gserialized2_from_lwpoly :: "lwhead \<Rightarrow> pointarray list \<Rightarrow> lwerr + byte list" where
  "gserialized2_from_lwpoly h rs =
     bindE (mapE (\<lambda>pa.
         bindE (require (FLAGS_GET_ZM (flags h) = FLAGS_GET_ZM (pflags pa)) ''Dimensions mismatch in lwpoly'')
           (\<lambda>_. if npoints pa > 0 then points_bytes pa (npoints pa) (FLAGS_NDIMS (flags h)) else Inr [])) rs)
       (\<lambda>bss.
     Inr (uint32_bytes POLYGONTYPE @ uint32_bytes (length rs) @ concat (map (\<lambda>r. uint32_bytes (npoints r)) rs) @
       (if length rs mod 2 \<noteq> 0 then [0, 0, 0, 0] else []) @ concat bss))"

definition gserialized2_from_lwnurbscurve ::
  "lwhead \<Rightarrow> nat \<Rightarrow> pointarray option \<Rightarrow> double list option \<Rightarrow> double list option \<Rightarrow> lwerr + byte list" where
  "gserialized2_from_lwnurbscurve h degree p w k =
     (case lwnurbscurve_counts degree p w k of (n, nweights, nknots) \<Rightarrow>
      bindE (require (case p of None \<Rightarrow> True | Some pa \<Rightarrow> FLAGS_GET_ZM (flags h) = FLAGS_GET_ZM (pflags pa))
        ''Dimensions mismatch in lwnurbscurve'') (\<lambda>_.
      bindE (require (\<not> (nweights > 0 \<and> nweights \<noteq> n))
        ''NURBS curve weights count (%d) does not match control points count (%d)'') (\<lambda>_.
      bindE (require (\<not> (nknots > 0 \<and> nknots \<noteq> (n + degree + 1) mod 2 ^ 32))
        ''NURBS curve knots count (%d) does not match expected count (%d = npoints + degree + 1)'') (\<lambda>_.
      bindE (case p of Some pa \<Rightarrow> if n > 0 then points_bytes pa n (FLAGS_NDIMS (pflags pa)) else Inr []
             | None \<Rightarrow> Inr []) (\<lambda>bs.
      Inr (uint32_bytes NURBSCURVETYPE @ uint32_bytes n @ uint32_bytes degree @ uint32_bytes nweights @
        uint32_bytes nknots @ uint32_bytes 0 @ double_bytes (case w of None \<Rightarrow> [] | Some ws \<Rightarrow> ws) @
        double_bytes (case k of None \<Rightarrow> [] | Some ks \<Rightarrow> ks) @ bs))))))"

fun gserialized2_from_lwgeom_any :: "lwgeom \<Rightarrow> lwerr + byte list" where
  "gserialized2_from_lwgeom_any (LWPOINT h pa) = gserialized2_from_lwpoint h pa"
| "gserialized2_from_lwgeom_any (LWLINE h pa) = gserialized2_from_lwline h pa"
| "gserialized2_from_lwgeom_any (LWTRIANGLE h pa) = gserialized2_from_lwtriangle h pa"
| "gserialized2_from_lwgeom_any (LWCIRCSTRING h pa) = gserialized2_from_lwcircstring h pa"
| "gserialized2_from_lwgeom_any (LWPOLY h mr rs) = gserialized2_from_lwpoly h rs"
| "gserialized2_from_lwgeom_any (LWNURBSCURVE h d p w k) = gserialized2_from_lwnurbscurve h d p w k"
| "gserialized2_from_lwgeom_any (LWCOLLECTION t h mg al gs) =
     (if lwtype_is_collection t then
        bindE (mapE (\<lambda>g.
            bindE (require (FLAGS_GET_ZM (flags h) = FLAGS_GET_ZM (lwgeom_flags g))
              ''Dimensions mismatch in lwcollection'') (\<lambda>_. gserialized2_from_lwgeom_any g)) gs) (\<lambda>bss.
        Inr (uint32_bytes t @ uint32_bytes (length gs) @ concat bss))
      else Inl (LwError ''Unknown geometry type: %d - %s''))"

definition gserialized2_from_extended_flags :: "u16 \<Rightarrow> byte list" where
  "gserialized2_from_extended_flags f =
     (if lwflags_uses_extended_flags f
      then le_bytes 8 (if has_bits f LWFLAG_SOLID then 0 OR G2FLAG_X_SOLID else 0 :: u64)
      else [])"

definition gserialized2_from_gbox :: "gbox \<Rightarrow> byte list" where
  "gserialized2_from_gbox b =
     concat (map (le_bytes 4)
       ([next_float_down (xmin b), next_float_up (xmax b), next_float_down (ymin b), next_float_up (ymax b)] @
        (if geodetic (gflags b) then [next_float_down (zmin b), next_float_up (zmax b)]
         else (if hasz (gflags b) then [next_float_down (zmin b), next_float_up (zmax b)] else []) @
              (if hasm (gflags b) then [next_float_down (mmin b), next_float_up (mmax b)] else []))))"

section \<open>The whole buffer\<close>

text \<open>The geometry with the box it needs, and the box flag in line with it.\<close>

definition with_needed_box :: "box_calc \<Rightarrow> lwgeom \<Rightarrow> lwgeom" where
  "with_needed_box calc geom =
     (let geom = (if bbox (lwhead_of geom) = None \<and> lwgeom_needs_bbox geom \<and> \<not> lwgeom_is_empty geom
                  then lwgeom_add_bbox calc geom else geom)
      in map_lwhead (\<lambda>h. h\<lparr>flags := flag_set (flags h) LWFLAG_BBOX (bbox h \<noteq> None)\<rparr>) geom)"

definition gserialized2_from_lwgeom :: "box_calc \<Rightarrow> lwgeom \<Rightarrow> lwerr + gserialized" where
  "gserialized2_from_lwgeom calc geom =
     (let geom = with_needed_box calc geom; h = lwhead_of geom in
      bindE (gserialized2_from_lwgeom_size geom) (\<lambda>expected_size.
      bindE (gserialized2_from_lwgeom_any geom) (\<lambda>body.
      let data = gserialized2_from_extended_flags (flags h) @
            (case bbox h of None \<Rightarrow> [] | Some b \<Rightarrow> gserialized2_from_gbox b) @ body;
          return_size = 8 + length data
      in if expected_size < return_size then Inl MemFault
         else bindE (require (expected_size = return_size) ''assert(expected_size == return_size)'') (\<lambda>_.
           Inr (gserialized2_set_srid (srid h)
             \<lparr>gs_size = LWSIZE_SET expected_size, gs_srid = (0, 0, 0), gs_gflags = lwflags_get_g2flags (flags h),
              gs_data = data\<rparr>)))))"

end
