(* ===== verification/GS2RoundTrip.thy ===== *)
theory GS2RoundTrip
  imports GS2Peek GS2Write
begin

text \<open>
  The writer fills exactly the buffer it allocates, and what it writes passes validation
  and is read back to the same geometry.
\<close>

section \<open>The writer fills what it allocates\<close>

lemma FLAGS_GET_ZM_eq: "FLAGS_GET_ZM f = FLAGS_GET_ZM g \<longleftrightarrow> same_zm f g"
  by (auto simp: FLAGS_GET_ZM_def same_zm_def split: if_splits)

lemma same_zm_swap: "same_zm f g \<Longrightarrow> same_zm g f"
  by (simp add: same_zm_def)

lemma same_zm_trans: "same_zm f g \<Longrightarrow> same_zm g h \<Longrightarrow> same_zm f h"
  by (simp add: same_zm_def)

lemma length_double_bytes [simp, byte_len]: "length (double_bytes ds) = 8 * length ds"
  by (induction ds) (simp_all add: double_bytes_def)

lemma points_bytes_all:
  assumes "pa_wf pa" "k = FLAGS_NDIMS (pflags pa)" "n = npoints pa"
  shows "points_bytes pa n k = Inr (double_bytes (ptlist pa))"
  using assms by (simp add: points_bytes_def pa_wf_def)

text \<open>The bytes of one array, which is empty or written whole.\<close>

definition array_bytes :: "pointarray \<Rightarrow> byte list" where
  "array_bytes pa = double_bytes (ptlist pa)"

lemma array_bytes_written:
  assumes "pa_wf pa" "k = FLAGS_NDIMS (pflags pa)" "n = npoints pa"
  shows "(if npoints pa > 0 then points_bytes pa n k else Inr []) = Inr (array_bytes pa)"
  using assms points_bytes_all [OF assms] by (auto simp: array_bytes_def pa_wf_def double_bytes_def)

lemma length_array_bytes: "pa_wf pa \<Longrightarrow> length (array_bytes pa) = 8 * npoints pa * FLAGS_NDIMS (pflags pa)"
  by (simp add: array_bytes_def pa_wf_def)

lemma curve_bytes_written:
  assumes "pa_wf pa"
  shows "curve_bytes t pa = Inr (uint32_bytes t @ uint32_bytes (npoints pa) @ array_bytes pa)"
  using array_bytes_written [OF assms refl refl] by (simp add: curve_bytes_def)

lemma point_written:
  assumes "pa_wf pa" "same_zm (flags h) (pflags pa)" "npoints pa = 0 \<or> npoints pa = 1"
  shows "gserialized2_from_lwpoint h pa =
    Inr (uint32_bytes POINTTYPE @ uint32_bytes (npoints pa) @ array_bytes pa)"
proof -
  have "(if npoints pa > 0 then points_bytes pa 1 (FLAGS_NDIMS (pflags pa)) else Inr []) = Inr (array_bytes pa)"
    using assms(3) array_bytes_written [OF assms(1) refl refl] by (elim disjE) simp_all
  then show ?thesis
    using assms(2) by (simp only: gserialized2_from_lwpoint_def FLAGS_GET_ZM_eq bindE_Inr require_True)
qed

lemma curve_size:
  assumes "pa_wf pa" "same_zm (flags h) (pflags pa)"
  shows "hasz (flags h) = hasz (pflags pa) \<and>
    (\<exists>bs. curve_bytes t pa = Inr bs \<and> length bs = 8 + 8 * npoints pa * FLAGS_NDIMS (flags h))"
  using assms length_array_bytes [OF assms(1)] same_zm_ndims [OF assms(2)]
  by (simp add: curve_bytes_written) (simp add: same_zm_def)

lemma rings_written:
  assumes "list_all (\<lambda>pa. pa_wf pa \<and> same_zm (flags h) (pflags pa)) rs"
  shows "gserialized2_from_lwpoly h rs = Inr (uint32_bytes POLYGONTYPE @ uint32_bytes (length rs) @
    concat (map (\<lambda>r. uint32_bytes (npoints r)) rs) @ (if length rs mod 2 \<noteq> 0 then [0, 0, 0, 0] else []) @
    concat (map array_bytes rs))"
proof -
  have "mapE (\<lambda>pa.
         bindE (require (FLAGS_GET_ZM (flags h) = FLAGS_GET_ZM (pflags pa)) ''Dimensions mismatch in lwpoly'')
           (\<lambda>_. if npoints pa > 0 then points_bytes pa (npoints pa) (FLAGS_NDIMS (flags h)) else Inr [])) rs
      = Inr (map array_bytes rs)"
  proof (rule mapE_Inr)
    fix pa
    assume "pa \<in> set rs"
    with assms have pa: "pa_wf pa" "same_zm (flags h) (pflags pa)" by (auto simp: list_all_iff)
    then show "bindE (require (FLAGS_GET_ZM (flags h) = FLAGS_GET_ZM (pflags pa)) ''Dimensions mismatch in lwpoly'')
           (\<lambda>_. if npoints pa > 0 then points_bytes pa (npoints pa) (FLAGS_NDIMS (flags h)) else Inr [])
        = Inr (array_bytes pa)"
      using array_bytes_written [OF pa(1) same_zm_ndims [OF pa(2)] refl]
      by (simp add: FLAGS_GET_ZM_eq del: if_image_distrib)
  qed
  then show ?thesis by (simp add: gserialized2_from_lwpoly_def)
qed

text \<open>The bytes of a NURBS curve of \<open>lwgeom_wf\<close>.\<close>

abbreviation opt_list :: "'a list option \<Rightarrow> 'a list" where
  "opt_list w \<equiv> (case w of None \<Rightarrow> [] | Some ws \<Rightarrow> ws)"

lemma nurbs_written:
  assumes "lwgeom_wf (LWNURBSCURVE h d p w k)" "gserialized2_from_lwnurbscurve_size h d p w k = Inr n"
  shows "gserialized2_from_lwnurbscurve h d p w k = Inr (uint32_bytes NURBSCURVETYPE @
      uint32_bytes (case p of None \<Rightarrow> 0 | Some pa \<Rightarrow> npoints pa) @ uint32_bytes d @
      uint32_bytes (length (opt_list w)) @ uint32_bytes (length (opt_list k)) @ uint32_bytes 0 @
      double_bytes (opt_list w) @ double_bytes (opt_list k) @
      (case p of None \<Rightarrow> [] | Some pa \<Rightarrow> array_bytes pa)) \<and>
    n = 24 + 8 * length (opt_list w) + 8 * length (opt_list k) +
      (case p of None \<Rightarrow> 0 | Some pa \<Rightarrow> length (array_bytes pa))"
proof (cases p)
  case None
  with assms show ?thesis
    by (auto simp: gserialized2_from_lwnurbscurve_size_def gserialized2_from_lwnurbscurve_def
        lwnurbscurve_counts_def)
next
  case (Some pa)
  with assms(1) have pa: "pa_wf pa" "same_zm (flags h) (pflags pa)" by auto
  have "(case w of None \<Rightarrow> 0 | Some ws \<Rightarrow> length ws) = length (opt_list w)" for w :: "double list option"
    by (simp split: option.split)
  with assms(2) pa Some array_bytes_written [OF pa(1) refl refl] show ?thesis
    by (auto simp: gserialized2_from_lwnurbscurve_size_def gserialized2_from_lwnurbscurve_def
        lwnurbscurve_counts_def bindE_eq_Inr FLAGS_GET_ZM_eq length_array_bytes same_zm_ndims [OF pa(2)])
qed

lemma members_written:
  assumes "list_all2 (\<lambda>g n. size_of g = Inr n) gs ns"
    and "\<And>g n. g \<in> set gs \<Longrightarrow> size_of g = Inr n \<Longrightarrow> \<exists>bs. write g = Inr bs \<and> length bs = n"
  shows "\<exists>bss. mapE write gs = Inr bss \<and> length (concat bss) = sum_list ns"
  using assms
proof (induction gs arbitrary: ns)
  case (Cons g gs)
  then obtain n ns' where ns: "ns = n # ns'" "size_of g = Inr n" "list_all2 (\<lambda>g n. size_of g = Inr n) gs ns'"
    by (auto simp: list_all2_Cons1)
  from Cons.prems(2) [OF _ ns(2)] obtain bs where "write g = Inr bs" "length bs = n" by auto
  moreover from Cons.IH [OF ns(3)] Cons.prems(2) obtain bss where
    "mapE write gs = Inr bss" "length (concat bss) = sum_list ns'" by auto
  ultimately show ?case using ns(1) by auto
qed simp

lemma gserialized2_any_size:
  assumes "lwgeom_wf g" "zm_uniform f g" "gserialized2_from_any_size g = Inr n"
  shows "\<exists>bs. gserialized2_from_lwgeom_any g = Inr bs \<and> length bs = n"
  using assms
proof (induction g arbitrary: n)
  case (LWPOINT h pa)
  then have pa: "pa_wf pa" "same_zm (flags h) (pflags pa)" "npoints pa = 0 \<or> npoints pa = 1"
    and n: "n = 8 + 8 * npoints pa * FLAGS_NDIMS (flags h)" by auto
  show ?case
    unfolding gserialized2_from_lwgeom_any.simps point_written [OF pa] n
    using length_array_bytes [OF pa(1)] same_zm_ndims [OF pa(2)] by simp
next
  case (LWLINE h pa)
  then show ?case using curve_size [of pa h] by (auto simp: gserialized2_from_lwline_def)
next
  case (LWTRIANGLE h pa)
  then show ?case using curve_size [of pa h] by (auto simp: gserialized2_from_lwtriangle_def FLAGS_GET_ZM_eq)
next
  case (LWCIRCSTRING h pa)
  then show ?case using curve_size [of pa h] by (auto simp: gserialized2_from_lwcircstring_def FLAGS_GET_ZM_eq)
next
  case (LWPOLY h mr rs)
  then have rs: "list_all (\<lambda>pa. pa_wf pa \<and> same_zm (flags h) (pflags pa)) rs" by simp
  then have "length (concat (map (\<lambda>r. uint32_bytes (npoints r)) rs)) + length (concat (map array_bytes rs)) =
      sum_list (map (\<lambda>r. 4 + npoints r * (FLAGS_NDIMS (flags h) * 8)) rs)"
    by (induction rs) (auto simp: length_array_bytes same_zm_ndims)
  with rings_written [OF rs] LWPOLY.prems(3) show ?case by auto
next
  case (LWNURBSCURVE h d p w k)
  from nurbs_written [OF LWNURBSCURVE.prems(1)] LWNURBSCURVE.prems(3) show ?case
    by (auto split: option.split)
next
  case (LWCOLLECTION t h mg al gs)
  then obtain ns where t: "lwtype_is_collection t" and ns: "mapE gserialized2_from_any_size gs = Inr ns"
    and n: "n = 8 + sum_list ns"
    by (auto simp: bindE_eq_Inr split: if_splits)
  let ?w = "\<lambda>g. bindE (require (FLAGS_GET_ZM (flags h) = FLAGS_GET_ZM (lwgeom_flags g))
              ''Dimensions mismatch in lwcollection'') (\<lambda>_. gserialized2_from_lwgeom_any g)"
  have "\<exists>bs. ?w g = Inr bs \<and> length bs = m" if "g \<in> set gs" "gserialized2_from_any_size g = Inr m" for g m
  proof -
    have u: "zm_uniform f g" "same_zm (flags h) f" "lwgeom_wf g"
      using LWCOLLECTION.prems that(1) by (auto simp: list_all_iff)
    then have "same_zm (lwgeom_flags g) f" by (cases g) auto
    with u(2) have "same_zm (flags h) (lwgeom_flags g)" by (simp add: same_zm_def)
    with LWCOLLECTION.IH [OF that(1) u(3,1) that(2)] show ?thesis by (auto simp: FLAGS_GET_ZM_eq)
  qed
  from members_written [OF ns [unfolded mapE_eq_Inr], of ?w] this obtain bss where
    "mapE ?w gs = Inr bss" "length (concat bss) = sum_list ns" by blast
  with t n show ?case by auto
qed

section \<open>Bytes in a buffer\<close>

definition stored :: "byte list \<Rightarrow> nat \<Rightarrow> byte list \<Rightarrow> bool" where
  "stored d p bs \<longleftrightarrow> p + length bs \<le> length d \<and> take (length bs) (drop p d) = bs"

named_theorems stored_simps \<open>bytes stored one after the other\<close>

lemma stored_append [stored_simps]:
  "stored d p (xs @ ys) \<longleftrightarrow> stored d p xs \<and> stored d (p + length xs) ys"
proof -
  have "take (length xs + length ys) (drop p d) =
      take (length xs) (drop p d) @ take (length ys) (drop (p + length xs) d)"
    by (simp add: take_add ac_simps)
  moreover have "length (take (length xs) (drop p d)) = length xs" if "p + length xs \<le> length d"
    using that by simp
  ultimately show ?thesis
    unfolding stored_def length_append using append_eq_append_conv by fastforce
qed

lemma stored_here: "stored (pre @ bs @ post) (length pre) bs"
  by (simp add: stored_def)

lemma stored_mem_at: "stored d p bs \<Longrightarrow> n = length bs \<Longrightarrow> mem_at d p n = Inr bs"
  by (simp add: stored_def mem_at_def)

lemma stored_uint32:
  "stored d p (uint32_bytes n) \<Longrightarrow> n < 2 ^ 32 \<Longrightarrow> gserialized2_get_uint32_t d p = Inr n"
  by (simp add: gserialized2_get_uint32_t_def stored_mem_at le_word_le_bytes_full unsigned_of_nat take_bit_nat_eq_self)

lemma stored_doubles: "stored d p (double_bytes ds) \<Longrightarrow> doubles_at d p (length ds) = Inr ds"
proof (induction ds arbitrary: p)
  case (Cons x ds)
  then have "stored d p (le_bytes 8 x)" "stored d (p + 8) (double_bytes ds)"
    by (simp_all add: double_bytes_def stored_simps)
  with Cons.IH show ?case by (simp add: stored_mem_at le_word_le_bytes_full)
qed simp

lemma range_available_iff: "gserialized2_range_available p e n \<longleftrightarrow> p + n \<le> e"
  by (auto simp: gserialized2_range_available_def)

lemma stored_checked:
  assumes "stored d p (uint32_bytes n)" "n < 2 ^ 32" "p + 4 \<le> e"
  shows "gserialized2_read_uint32_checked d p e = Inr n"
  using assms(3) stored_uint32 [OF assms(1,2)]
  by (simp add: gserialized2_read_uint32_checked_def range_available_iff)

text \<open>Counts of 32 bits do not overflow a size.\<close>

lemma payload_size_ok:
  assumes "n < 2 ^ 32"
  shows "gserialized2_pointarray_payload_size n f = Inr (8 * (n * FLAGS_NDIMS f))"
proof -
  have "n = 0 \<or> 8 * FLAGS_NDIMS f \<le> (2 ^ 64 - 1) div n"
  proof (cases "n = 0")
    case False
    have "8 * FLAGS_NDIMS f * n \<le> 32 * n" by (intro mult_le_mono1) (simp add: FLAGS_NDIMS_def)
    also have "\<dots> \<le> 2 ^ 64 - 1" using assms by simp
    finally show ?thesis using False by (simp add: less_eq_div_iff_mult_less_eq)
  qed simp
  then show ?thesis
    by (auto simp: gserialized2_pointarray_payload_size_def gserialized2_checked_mul_def checked_def)
qed

lemma checked_small: "n * 8 \<le> 2 ^ 35 \<Longrightarrow> k \<le> 8 \<Longrightarrow> gserialized2_checked_mul n k = Some (n * k)"
proof -
  assume n: "n * 8 \<le> 2 ^ 35" and k: "k \<le> 8"
  have "n = 0 \<or> k \<le> (2 ^ 64 - 1) div n"
  proof (cases "n = 0")
    case False
    have "k * n \<le> 8 * n" using k by (rule mult_le_mono1)
    also have "\<dots> \<le> 2 ^ 64 - 1" using n by simp
    finally show ?thesis using False by (simp add: less_eq_div_iff_mult_less_eq)
  qed simp
  then show ?thesis by (auto simp: gserialized2_checked_mul_def)
qed

lemma checked_add_small: "a < 2 ^ 63 \<Longrightarrow> b < 2 ^ 63 \<Longrightarrow> gserialized2_checked_add a b = Some (a + b)"
  by (simp add: gserialized2_checked_add_def)

section \<open>What was written passes validation and is read back\<close>

lemma array_read_back:
  assumes "stored d p (array_bytes pa)" "pa_wf pa" "same_zm f (pflags pa)"
  shows "points_at d f (npoints pa) p = Inr (ptarray_construct_reference_data (hasz f) (hasm f) (npoints pa) (ptlist pa))"
    "\<exists>pa'. ptarray_at d f (npoints pa) p = Inr pa' \<and> pa_content pa' = pa_content pa"
proof -
  have len: "length (ptlist pa) = npoints pa * FLAGS_NDIMS f"
    using assms(2) same_zm_ndims [OF assms(3)] by (simp add: pa_wf_def)
  show r: "points_at d f (npoints pa) p = Inr (ptarray_construct_reference_data (hasz f) (hasm f) (npoints pa) (ptlist pa))"
    using stored_doubles [OF assms(1) [unfolded array_bytes_def]] by (simp add: points_at_def len)
  have zm: "zm_flags f = zm_flags (pflags pa)" using assms(3) by (simp add: zm_flags_eq)
  have "pa_content (ptarray_construct_reference_data (hasz f) (hasm f) (npoints pa) (ptlist pa)) = pa_content pa"
    using assms(3) by (simp add: pa_content_def ptarray_construct_reference_data_def zm_flags_def same_zm_def)
  moreover have "pa_content (ptarray_construct (hasz f) (hasm f) 0 []) = pa_content pa" if "npoints pa = 0"
    using that len assms(3)
    by (simp add: pa_content_def ptarray_construct_def ptarray_construct_empty_def zm_flags_def same_zm_def)
  ultimately show "\<exists>pa'. ptarray_at d f (npoints pa) p = Inr pa' \<and> pa_content pa' = pa_content pa"
    using r by (simp add: ptarray_at_def)
qed

lemma read_head_content:
  assumes "same_zm f (flags h)"
  shows "head_content (read_head f s) = head_content (h\<lparr>srid := s\<rparr>)"
  using assms by (simp add: head_content_def read_head_def zm_flags_def same_zm_def)

text \<open>What has to hold of a NURBS curve: an array of points, no empty array of weights or
  knots, and none of them for an empty curve.\<close>

fun storable :: "lwgeom \<Rightarrow> bool" where
  "storable (LWNURBSCURVE h d p w k) \<longleftrightarrow>
     (case p of None \<Rightarrow> False | Some pa \<Rightarrow> npoints pa = 0 \<longrightarrow> w = None \<and> k = None)"
| "storable (LWCOLLECTION t h mg al gs) \<longleftrightarrow> list_all storable gs"
| "storable g \<longleftrightarrow> True"

text \<open>Reading back at an offset: \<open>bs\<close> are the bytes of \<open>g\<close>.\<close>

definition reads_back_at ::
  "nat \<Rightarrow> byte list \<Rightarrow> nat \<Rightarrow> nat \<Rightarrow> u16 \<Rightarrow> int \<Rightarrow> lwgeom \<Rightarrow> byte list \<Rightarrow> bool" where
  "reads_back_at fuel d p e f s g bs \<longleftrightarrow>
     gserialized2_validate_geometry_buffer fuel d p e f = Inr (length bs) \<and>
     (\<exists>g'. lwgeom_from_gserialized2_buffer fuel d s f p = Inr (g', length bs) \<and>
        lwgeom_content g' = lwgeom_content (lwgeom_set_srid s g))"

lemma point_reads_back:
  assumes "stored d p (uint32_bytes POINTTYPE @ uint32_bytes (npoints pa) @ array_bytes pa)"
    and pa: "pa_wf pa" "same_zm f (pflags pa)" "npoints pa \<le> 1" and h: "same_zm f (flags h)"
    and e: "p + 8 + length (array_bytes pa) \<le> e"
  shows "reads_back_at (Suc fuel) d p e f s (LWPOINT h pa)
    (uint32_bytes POINTTYPE @ uint32_bytes (npoints pa) @ array_bytes pa)"
proof -
  have st: "stored d p (uint32_bytes 1)" "stored d (p + 4) (uint32_bytes (npoints pa))"
    "stored d (p + 8) (array_bytes pa)" using assms(1) by (simp_all add: stored_simps add.assoc)
  have n: "npoints pa < 2 ^ 32" using pa(3) by simp
  note u = stored_uint32 [OF st(2) n]
  have t: "gserialized2_get_uint32_t d p = Inr 1" using stored_uint32 [OF st(1)] by simp
  note c = stored_checked [OF st(1), of e] stored_checked [OF st(2) n, of e]
  have len: "length (array_bytes pa) = 8 * (npoints pa * FLAGS_NDIMS f)"
    using length_array_bytes [OF pa(1)] same_zm_ndims [OF pa(2)] by simp
  obtain pa' where pa': "ptarray_at d f (npoints pa) (p + 8) = Inr pa'" "pa_content pa' = pa_content pa"
    using array_read_back(2) [OF st(3) pa(1,2)] by blast
  have "(if npoints pa > 0 then 1 else 0) = npoints pa" using pa(3) by auto
  with u t pa' len have "lwgeom_from_gserialized2_buffer (Suc fuel) d s f p =
      Inr (LWPOINT (read_head f s) pa', 8 + length (array_bytes pa))"
    by (simp add: lwgeom_from_gserialized2_buffer.simps lwpoint_from_gserialized2_buffer_def)
  moreover have "gserialized2_validate_geometry_buffer (Suc fuel) d p e f = Inr (8 + length (array_bytes pa))"
    using c e len pa(3) payload_size_ok [OF n]
    by (simp add: gserialized2_validate_geometry_buffer.simps range_available_iff validate_points_def)
  ultimately show ?thesis
    using pa'(2) read_head_content [OF h] by (simp add: reads_back_at_def)
qed

lemma curve_reads_back:
  assumes "stored d p (uint32_bytes t @ uint32_bytes (npoints pa) @ array_bytes pa)"
    and t: "(t, C) \<in> {(LINETYPE, LWLINE), (CIRCSTRINGTYPE, LWCIRCSTRING), (TRIANGLETYPE, LWTRIANGLE)}"
    and pa: "pa_wf pa" "same_zm f (pflags pa)" and h: "same_zm f (flags h)"
    and e: "p + 8 + length (array_bytes pa) \<le> e"
  shows "reads_back_at (Suc fuel) d p e f s (C h pa)
    (uint32_bytes t @ uint32_bytes (npoints pa) @ array_bytes pa)"
proof -
  have st: "stored d p (uint32_bytes t)" "stored d (p + 4) (uint32_bytes (npoints pa))"
    "stored d (p + 8) (array_bytes pa)" using assms(1) by (simp_all add: stored_simps add.assoc)
  have n: "npoints pa < 2 ^ 32" and t32: "t < 2 ^ 32" using pa(1) t by (auto simp: pa_wf_def)
  note u = stored_uint32 [OF st(1) t32] stored_uint32 [OF st(2) n]
  note c = stored_checked [OF st(1) t32, of e] stored_checked [OF st(2) n, of e]
  have len: "length (array_bytes pa) = 8 * (npoints pa * FLAGS_NDIMS f)"
    using length_array_bytes [OF pa(1)] same_zm_ndims [OF pa(2)] by simp
  obtain pa' where pa': "ptarray_at d f (npoints pa) (p + 8) = Inr pa'" "pa_content pa' = pa_content pa"
    using array_read_back(2) [OF st(3) pa(1,2)] by blast
  have "lwgeom_from_gserialized2_buffer (Suc fuel) d s f p =
      Inr (C (read_head f s) pa', 8 + length (array_bytes pa))"
    using t u pa'(1) len
    by (auto simp: lwgeom_from_gserialized2_buffer.simps curve_from_gserialized2_buffer_def)
  moreover have "gserialized2_validate_geometry_buffer (Suc fuel) d p e f = Inr (8 + length (array_bytes pa))"
    using t c e len payload_size_ok [OF n]
    by (auto simp: gserialized2_validate_geometry_buffer.simps range_available_iff validate_points_def)
  moreover have "lwgeom_content (C (read_head f s) pa') = lwgeom_content (lwgeom_set_srid s (C h pa))"
    using t pa'(2) read_head_content [OF h] by auto
  ultimately show ?thesis by (simp add: reads_back_at_def)
qed

lemma rings_read_back:
  assumes "list_all (\<lambda>pa. pa_wf pa \<and> same_zm f (pflags pa)) rs"
    and "stored d q (concat (map (\<lambda>r. uint32_bytes (npoints r)) rs))" "q + 4 * length rs \<le> e"
    and "stored d ord (concat (map array_bytes rs))"
    and "acc + length (concat (map array_bytes rs)) < 2 ^ 63"
  shows "ring_bytes_sum d e f q (length rs) acc = Inr (acc + length (concat (map array_bytes rs))) \<and>
    (\<exists>rs'. rings_from_gserialized2_buffer d f (length rs) q ord =
       Inr (rs', ord + length (concat (map array_bytes rs))) \<and> map pa_content rs' = map pa_content rs)"
  using assms
proof (induction rs arbitrary: q ord acc)
  case Nil
  then show ?case by simp
next
  case (Cons r rs)
  let ?rest = "length (concat (map array_bytes rs))"
  have r: "pa_wf r" "same_zm f (pflags r)" using Cons.prems(1) by simp_all
  then have n: "npoints r < 2 ^ 32" by (simp add: pa_wf_def)
  have len: "length (array_bytes r) = 8 * (npoints r * FLAGS_NDIMS f)"
    using length_array_bytes [OF r(1)] same_zm_ndims [OF r(2)] by simp
  have st: "stored d q (uint32_bytes (npoints r))" "stored d (q + 4) (concat (map (\<lambda>r. uint32_bytes (npoints r)) rs))"
    "stored d ord (array_bytes r)" "stored d (ord + length (array_bytes r)) (concat (map array_bytes rs))"
    using Cons.prems(2,4) by (simp_all add: stored_simps)
  have q: "q + 4 \<le> e" "q + 4 + 4 * length rs \<le> e" using Cons.prems(3) by simp_all
  note c = stored_checked [OF st(1) n q(1)] and u = stored_uint32 [OF st(1) n]
  have small: "acc + length (array_bytes r) + ?rest < 2 ^ 63" using Cons.prems(5) by simp
  then have add: "gserialized2_checked_add acc (length (array_bytes r)) = Some (acc + length (array_bytes r))"
    by (intro checked_add_small) simp_all
  have IH: "ring_bytes_sum d e f (q + 4) (length rs) (acc + length (array_bytes r)) =
      Inr (acc + length (array_bytes r) + ?rest)"
    and "\<exists>rs'. rings_from_gserialized2_buffer d f (length rs) (q + 4) (ord + length (array_bytes r)) =
       Inr (rs', ord + length (array_bytes r) + ?rest) \<and> map pa_content rs' = map pa_content rs"
    using Cons.IH [OF _ st(2) q(2) st(4) small] Cons.prems(1) by simp_all
  then obtain rs' where rs': "rings_from_gserialized2_buffer d f (length rs) (q + 4) (ord + length (array_bytes r)) =
       Inr (rs', ord + length (array_bytes r) + ?rest)" "map pa_content rs' = map pa_content rs" by blast
  obtain r' where r': "points_at d f (npoints r) ord = Inr r'" "pa_content r' = pa_content r"
    using array_read_back(1) [OF st(3) r] r(2)
    by (simp add: pa_content_def ptarray_construct_reference_data_def zm_flags_def same_zm_def)
  have "8 * FLAGS_NDIMS f * npoints r = length (array_bytes r)" using len by simp
  with r' rs' u have "rings_from_gserialized2_buffer d f (length (r # rs)) q ord =
      Inr (r' # rs', ord + length (concat (map array_bytes (r # rs))))"
    "map pa_content (r' # rs') = map pa_content (r # rs)"
    by (simp_all add: add.assoc)
  moreover have "ring_bytes_sum d e f q (length (r # rs)) acc =
      Inr (acc + length (concat (map array_bytes (r # rs))))"
    using c payload_size_ok [OF n, of f] add IH len by (simp add: checked_def add.assoc)
  ultimately show ?case by blast
qed

lemma polygon_reads_back:
  fixes rs h
  defines "bs \<equiv> uint32_bytes POLYGONTYPE @ uint32_bytes (length rs) @
      concat (map (\<lambda>r. uint32_bytes (npoints r)) rs) @ (if length rs mod 2 \<noteq> 0 then [0, 0, 0, 0] else []) @
      concat (map array_bytes rs)"
  assumes st: "stored d p bs" and rs: "list_all (\<lambda>pa. pa_wf pa \<and> same_zm f (pflags pa)) rs"
    and h: "same_zm f (flags h)" and e: "p + length bs \<le> e" "e < 2 ^ 32"
  shows "reads_back_at (Suc fuel) d p e f s (LWPOLY h mr rs) bs"
proof -
  let ?k = "length rs" and ?pad = "if length rs mod 2 \<noteq> 0 then 4 else (0::nat)"
  let ?coords = "concat (map array_bytes rs)"
  have counts: "length (concat (map (\<lambda>r. uint32_bytes (npoints r)) rs)) = 4 * ?k"
    by (induction rs) simp_all
  have len: "length bs = 8 + (?k * 4 + ?pad) + length ?coords" using counts by (simp add: bs_def)
  have k: "?k < 2 ^ 30" using e len by simp
  have st': "stored d p (uint32_bytes 3)" "stored d (p + 4) (uint32_bytes ?k)"
    "stored d (p + 8) (concat (map (\<lambda>r. uint32_bytes (npoints r)) rs))"
    "stored d (p + 8 + (?k * 4 + ?pad)) ?coords"
    using st counts by (auto simp: bs_def stored_simps ac_simps split: if_splits)
  have k32: "?k < 2 ^ 32" using k by simp
  note u = stored_uint32 [OF st'(2) k32]
  have t: "gserialized2_get_uint32_t d p = Inr 3" using stored_uint32 [OF st'(1)] by simp
  have room: "p + 8 + 4 * ?k \<le> e" "p + 8 \<le> e" "p + 4 \<le> e" "p + 4 + 4 \<le> e" using e(1) len by simp_all
  note c = stored_checked [OF st'(1), of e] stored_checked [OF st'(2) k32 room(4)]
  have small: "0 + length ?coords < 2 ^ 63" using e len by simp
  from rings_read_back [OF rs st'(3) room(1) st'(4) small] obtain rs' where
    sum: "ring_bytes_sum d e f (p + 8) ?k 0 = Inr (length ?coords)"
    and rs': "rings_from_gserialized2_buffer d f ?k (p + 8) (p + 8 + (?k * 4 + ?pad)) =
       Inr (rs', p + 8 + (?k * 4 + ?pad) + length ?coords)" "map pa_content rs' = map pa_content rs"
    by auto
  have "?k * 4 mod 2 ^ 32 = ?k * 4" using k by simp
  then have ord: "(if ?k > 0 then p + 8 + ?k * 4 mod 2 ^ 32 + ?pad else p + 8) = p + 8 + (?k * 4 + ?pad)"
    by auto
  have "lwpoly_from_gserialized2_buffer d p f s = Inr (LWPOLY (read_head f s) ?k rs', length bs)"
    unfolding lwpoly_from_gserialized2_buffer_def u bindE_Inr Let_def ord rs'(1) by (simp add: len)
  then have "lwgeom_from_gserialized2_buffer (Suc fuel) d s f p = Inr (LWPOLY (read_head f s) ?k rs', length bs)"
    using t by (simp add: lwgeom_from_gserialized2_buffer.simps)
  moreover have "validate_polygon d p e f ?k = Inr (length bs)"
  proof -
    have "gserialized2_checked_mul ?k 4 = Some (?k * 4)" using k by (intro checked_small) simp_all
    moreover have "gserialized2_checked_add (8 + (?k * 4 + ?pad)) (length ?coords) = Some (length bs)"
      using e len by (subst checked_add_small) auto
    moreover have "p + 8 + (?k * 4 + ?pad) \<le> e" using e(1) len by simp
    ultimately show ?thesis
      using sum by (simp add: validate_polygon_def checked_def Let_def range_available_iff)
  qed
  then have "gserialized2_validate_geometry_buffer (Suc fuel) d p e f = Inr (length bs)"
    using c e room by (simp add: gserialized2_validate_geometry_buffer.simps range_available_iff)
  ultimately show ?thesis using rs'(2) read_head_content [OF h] by (simp add: reads_back_at_def)
qed

lemma opt_list_some: "w \<noteq> Some [] \<Longrightarrow> (if length (opt_list w) > 0 then Some (opt_list w) else None) = w"
  by (cases w) auto

lemma nurbs_validated:
  assumes "lwgeom_wf (LWNURBSCURVE h degree (Some pa) w k)" "storable (LWNURBSCURVE h degree (Some pa) w k)"
    and "w \<noteq> Some []" "k \<noteq> Some []"
    and "doubles_at d wp (length (opt_list w)) = Inr (opt_list w)"
    and "doubles_at d kp (length (opt_list k)) = Inr (opt_list k)"
  shows "gserialized2_validate_nurbs d (npoints pa) degree (length (opt_list w)) (length (opt_list k)) wp kp = Inr ()"
  using assms
  by (cases "npoints pa = 0"; cases w; cases k) (auto simp: gserialized2_validate_nurbs_def)

lemma nurbs_reads_back:
  fixes h degree pa w k
  defines "bs \<equiv> uint32_bytes NURBSCURVETYPE @ uint32_bytes (npoints pa) @ uint32_bytes degree @
      uint32_bytes (length (opt_list w)) @ uint32_bytes (length (opt_list k)) @ uint32_bytes 0 @
      double_bytes (opt_list w) @ double_bytes (opt_list k) @ array_bytes pa"
  assumes st: "stored d p bs" and wf: "lwgeom_wf (LWNURBSCURVE h degree (Some pa) w k)"
    and ok: "storable (LWNURBSCURVE h degree (Some pa) w k)" "w \<noteq> Some []" "k \<noteq> Some []"
    and h: "same_zm f (flags h)" and e: "p + length bs \<le> e" "e < 2 ^ 32"
  shows "reads_back_at (Suc fuel) d p e f s (LWNURBSCURVE h degree (Some pa) w k) bs"
proof -
  let ?nw = "length (opt_list w)" and ?nk = "length (opt_list k)"
  from wf have pa: "pa_wf pa" "same_zm (flags h) (pflags pa)" and deg: "degree \<le> 10" by auto
  have fpa: "same_zm f (pflags pa)" using h pa(2) by (rule same_zm_trans)
  have len: "length bs = 24 + 8 * ?nw + 8 * ?nk + length (array_bytes pa)" by (simp add: bs_def)
  have lenpa: "length (array_bytes pa) = 8 * (npoints pa * FLAGS_NDIMS f)"
    using length_array_bytes [OF pa(1)] same_zm_ndims [OF fpa] by simp
  have st': "stored d p (uint32_bytes 16)" "stored d (p + 4) (uint32_bytes (npoints pa))"
    "stored d (p + 8) (uint32_bytes degree)" "stored d (p + 12) (uint32_bytes ?nw)"
    "stored d (p + 16) (uint32_bytes ?nk)" "stored d (p + 24) (double_bytes (opt_list w))"
    "stored d (p + 24 + 8 * ?nw) (double_bytes (opt_list k))"
    "stored d (p + 24 + 8 * ?nw + 8 * ?nk) (array_bytes pa)"
    using st by (simp_all add: bs_def stored_simps add.assoc)
  have small: "npoints pa < 2 ^ 32" "degree < 2 ^ 32" "?nw < 2 ^ 32" "?nk < 2 ^ 32"
    using pa(1) deg e len by (auto simp: pa_wf_def)
  note u = stored_uint32 [OF st'(2) small(1)] stored_uint32 [OF st'(3) small(2)]
    stored_uint32 [OF st'(4) small(3)] stored_uint32 [OF st'(5) small(4)]
  have t: "gserialized2_get_uint32_t d p = Inr 16" using stored_uint32 [OF st'(1)] by simp
  have room: "p + 4 \<le> e" "p + 4 + 4 \<le> e" "p + 8 + 4 \<le> e" "p + 12 + 4 \<le> e" "p + 16 + 4 \<le> e" "p + 24 \<le> e"
    using e(1) len by simp_all
  note c = stored_checked [OF st'(1) _ room(1), simplified] stored_checked [OF st'(2) small(1) room(2)]
    stored_checked [OF st'(3) small(2) room(3)] stored_checked [OF st'(4) small(3) room(4)]
    stored_checked [OF st'(5) small(4) room(5)]
  note ws = stored_doubles [OF st'(6)] and ks = stored_doubles [OF st'(7)]
  note valid = nurbs_validated [OF wf ok ws ks]
  obtain pa' where pa': "ptarray_at d f (npoints pa) (p + 24 + 8 * ?nw + 8 * ?nk) = Inr pa'"
    "pa_content pa' = pa_content pa"
    using array_read_back(2) [OF st'(8) pa(1) fpa] by blast
  have "lwnurbscurve_from_gserialized2_buffer d p f s =
      Inr (LWNURBSCURVE (read_head f s) degree (Some pa') w k, length bs)"
    using lenpa unfolding lwnurbscurve_from_gserialized2_buffer_def u bindE_Inr valid ws ks pa'(1)
      opt_list_some [OF ok(2)] opt_list_some [OF ok(3)] len by simp
  then have "lwgeom_from_gserialized2_buffer (Suc fuel) d s f p =
      Inr (LWNURBSCURVE (read_head f s) degree (Some pa') w k, length bs)"
    using t by (simp add: lwgeom_from_gserialized2_buffer.simps)
  moreover have "validate_nurbs_buffer d p e f (npoints pa) = Inr (length bs)"
  proof -
    have "gserialized2_checked_mul ?nw 8 = Some (?nw * 8)" "gserialized2_checked_mul ?nk 8 = Some (?nk * 8)"
      using small by (simp_all add: checked_small)
    moreover define A where "A = 24 + ?nw * 8"
    moreover define B where "B = A + ?nk * 8"
    moreover define D where "D = 8 * (npoints pa * FLAGS_NDIMS f)"
    ultimately have mul: "gserialized2_checked_mul ?nw 8 = Some (?nw * 8)" "gserialized2_checked_mul ?nk 8 = Some (?nk * 8)"
      and sums: "length bs = B + D" "A \<le> B" "?nw * 8 \<le> A" "?nk * 8 \<le> B" "p + (B + D) \<le> e"
      using len lenpa e(1) by simp_all
    have pow: "(2::nat) ^ 32 \<le> 2 ^ 63" by simp
    with sums have "24 + ?nw * 8 < 2 ^ 63" "A < 2 ^ 63" "?nw * 8 < 2 ^ 63" "?nk * 8 < 2 ^ 63" "B < 2 ^ 63" "D < 2 ^ 63"
      using e(2) A_def by linarith+
    then have "gserialized2_checked_add 24 (?nw * 8) = Some A" "gserialized2_checked_add A (?nk * 8) = Some B"
      "gserialized2_checked_add B D = Some (length bs)"
      by (simp_all add: checked_add_small sums(1)) (simp_all add: A_def B_def)
    moreover note mul
    moreover have "gserialized2_pointarray_payload_size (npoints pa) f = Inr D"
      using payload_size_ok [OF small(1)] by (simp add: D_def)
    ultimately show ?thesis
      using c room e(1) valid
      by (simp add: validate_nurbs_buffer_def checked_def range_available_iff mult.commute)
  qed
  then have "gserialized2_validate_geometry_buffer (Suc fuel) d p e f = Inr (length bs)"
    using c e room by (simp add: gserialized2_validate_geometry_buffer.simps range_available_iff)
  ultimately show ?thesis using pa'(2) read_head_content [OF h] by (simp add: reads_back_at_def)
qed

lemma members_read_back:
  assumes "list_all2 (\<lambda>g bs. write g = Inr bs) gs bss"
    and "\<And>g bs q. g \<in> set gs \<Longrightarrow> write g = Inr bs \<Longrightarrow> stored d q bs \<Longrightarrow> q + length bs \<le> e \<Longrightarrow>
      length bs \<le> b \<Longrightarrow>
      val q = Inr (length bs) \<and> 0 < length bs \<and> gserialized2_read_uint32_checked d q e = Inr (lwgeom_get_type g) \<and>
      gserialized2_get_uint32_t d q = Inr (lwgeom_get_type g) \<and>
      (\<exists>g'. rd q = Inr (g', length bs) \<and> C g' = C' g)"
    and "list_all (\<lambda>g. lwcollection_allows_subtype t (lwgeom_get_type g)) gs"
    and "stored d q (concat bss)" "q + length (concat bss) \<le> e" "length (concat bss) \<le> b"
  shows "validate_members val t d e (length gs) q = Inr (q + length (concat bss)) \<and>
    (\<exists>gs'. members_from_gserialized2_buffer rd t d (length gs) q = Inr (gs', q + length (concat bss)) \<and>
       map C gs' = map C' gs)"
  using assms
proof (induction gs arbitrary: bss q)
  case Nil
  then show ?case by simp
next
  case (Cons g gs)
  then obtain bs bss' where b: "bss = bs # bss'" "write g = Inr bs" "list_all2 (\<lambda>g bs. write g = Inr bs) gs bss'"
    by (auto simp: list_all2_Cons1)
  have st: "stored d q bs" "stored d (q + length bs) (concat bss')"
    using Cons.prems(4) b(1) by (simp_all add: stored_simps)
  have room: "q + length bs \<le> e" "length bs \<le> b" "q + length bs + length (concat bss') \<le> e"
    "length (concat bss') \<le> b"
    using Cons.prems(5,6) b(1) by simp_all
  from Cons.prems(2) [OF _ b(2) st(1) room(1,2)] obtain g' where
    g: "val q = Inr (length bs)" "0 < length bs" "gserialized2_read_uint32_checked d q e = Inr (lwgeom_get_type g)"
      "gserialized2_get_uint32_t d q = Inr (lwgeom_get_type g)" "rd q = Inr (g', length bs)" "C g' = C' g"
    by auto
  have rest: "validate_members val t d e (length gs) (q + length bs) = Inr (q + length bs + length (concat bss'))"
    "\<exists>gs'. members_from_gserialized2_buffer rd t d (length gs) (q + length bs) =
       Inr (gs', q + length bs + length (concat bss')) \<and> map C gs' = map C' gs"
    using Cons.IH [OF b(3) Cons.prems(2) _ st(2) room(3,4)] Cons.prems(3) by simp_all
  then obtain gs' where "members_from_gserialized2_buffer rd t d (length gs) (q + length bs) =
       Inr (gs', q + length bs + length (concat bss'))" "map C gs' = map C' gs" by blast
  with g rest(1) Cons.prems(3) b(1) show ?case by (auto simp: add.assoc)
qed

lemma written_head:
  assumes "gserialized2_from_lwgeom_any g = Inr bs"
  shows "\<exists>rest. bs = uint32_bytes (lwgeom_get_type g) @ rest \<and> 4 \<le> length rest"
  using assms
  by (cases g) (auto simp: gserialized2_from_lwpoint_def gserialized2_from_lwline_def gserialized2_from_lwtriangle_def
      gserialized2_from_lwcircstring_def curve_bytes_def gserialized2_from_lwpoly_def
      gserialized2_from_lwnurbscurve_def bindE_eq_Inr split: if_splits prod.splits)

lemma zm_uniform_flags: "zm_uniform f g \<Longrightarrow> same_zm (lwgeom_flags g) f"
  by (cases g) auto

lemma lwgeom_type_bound: "lwgeom_wf g \<Longrightarrow> lwgeom_get_type g < 2 ^ 32"
  by (cases g) (auto dest: lwtype_is_collection_cases)

lemma written_read_back:
  assumes "lwgeom_wf g" "storable g" "zm_uniform f g" "gserialized2_from_any_size g = Inr n"
    and "gserialized2_from_lwgeom_any g = Inr bs" "stored d p bs" "p + length bs \<le> e" "e < 2 ^ 32"
    and "length bs \<le> 8 * fuel" "same_zm f' f"
  shows "reads_back_at fuel d p e f' s g bs"
proof -
  from written_head [OF assms(5)] have "8 \<le> length bs" by auto
  with assms(9) obtain fl where "fuel = Suc fl" by (cases fuel) auto
  with assms show ?thesis
  proof (induction g arbitrary: n bs p fuel fl f')
    case (LWPOINT h pa)
    then have pa: "pa_wf pa" "same_zm (flags h) (pflags pa)" "npoints pa = 0 \<or> npoints pa = 1"
      and h: "same_zm f' (flags h)" by (auto simp: same_zm_def)
    have bs: "bs = uint32_bytes POINTTYPE @ uint32_bytes (npoints pa) @ array_bytes pa"
      using LWPOINT.prems(5) point_written [OF pa] by simp
    have "p + 8 + length (array_bytes pa) \<le> e" using LWPOINT.prems(7) by (simp add: bs)
    moreover have "npoints pa \<le> 1" using pa(3) by auto
    ultimately show ?case
      unfolding LWPOINT.prems(11) bs
      by (intro point_reads_back [OF LWPOINT.prems(6) [unfolded bs] pa(1)] same_zm_trans [OF h pa(2)] h)
  next
    case (LWLINE h pa)
    then have pa: "pa_wf pa" "same_zm (flags h) (pflags pa)" and h: "same_zm f' (flags h)"
      by (auto simp: same_zm_def)
    have bs: "bs = uint32_bytes LINETYPE @ uint32_bytes (npoints pa) @ array_bytes pa"
      using LWLINE.prems(5) curve_bytes_written [OF pa(1)]
      by (simp add: gserialized2_from_lwline_def bindE_eq_Inr)
    have room: "p + 8 + length (array_bytes pa) \<le> e" using LWLINE.prems(7) by (simp add: bs)
    show ?case
      unfolding LWLINE.prems(11) bs
      by (rule curve_reads_back [OF LWLINE.prems(6) [unfolded bs] _ pa(1) same_zm_trans [OF h pa(2)] h room]) simp
  next
    case (LWTRIANGLE h pa)
    then have pa: "pa_wf pa" "same_zm (flags h) (pflags pa)" and h: "same_zm f' (flags h)"
      by (auto simp: same_zm_def)
    have bs: "bs = uint32_bytes TRIANGLETYPE @ uint32_bytes (npoints pa) @ array_bytes pa"
      using LWTRIANGLE.prems(5) curve_bytes_written [OF pa(1)]
      by (simp add: gserialized2_from_lwtriangle_def bindE_eq_Inr)
    have room: "p + 8 + length (array_bytes pa) \<le> e" using LWTRIANGLE.prems(7) by (simp add: bs)
    show ?case
      unfolding LWTRIANGLE.prems(11) bs
      by (rule curve_reads_back [OF LWTRIANGLE.prems(6) [unfolded bs] _ pa(1) same_zm_trans [OF h pa(2)] h room]) simp
  next
    case (LWCIRCSTRING h pa)
    then have pa: "pa_wf pa" "same_zm (flags h) (pflags pa)" and h: "same_zm f' (flags h)"
      by (auto simp: same_zm_def)
    have bs: "bs = uint32_bytes CIRCSTRINGTYPE @ uint32_bytes (npoints pa) @ array_bytes pa"
      using LWCIRCSTRING.prems(5) curve_bytes_written [OF pa(1)]
      by (simp add: gserialized2_from_lwcircstring_def bindE_eq_Inr)
    have room: "p + 8 + length (array_bytes pa) \<le> e" using LWCIRCSTRING.prems(7) by (simp add: bs)
    show ?case
      unfolding LWCIRCSTRING.prems(11) bs
      by (rule curve_reads_back [OF LWCIRCSTRING.prems(6) [unfolded bs] _ pa(1) same_zm_trans [OF h pa(2)] h room]) simp
  next
    case (LWPOLY h mr rs)
    then have rs: "list_all (\<lambda>pa. pa_wf pa \<and> same_zm (flags h) (pflags pa)) rs" and h: "same_zm f' (flags h)"
      by (auto simp: same_zm_def)
    have rs': "list_all (\<lambda>pa. pa_wf pa \<and> same_zm f' (pflags pa)) rs"
      using rs h by (auto simp: list_all_iff same_zm_def)
    have bs: "bs = uint32_bytes POLYGONTYPE @ uint32_bytes (length rs) @
      concat (map (\<lambda>r. uint32_bytes (npoints r)) rs) @ (if length rs mod 2 \<noteq> 0 then [0, 0, 0, 0] else []) @
      concat (map array_bytes rs)"
      using LWPOLY.prems(5) rings_written [OF rs] by simp
    show ?case
      unfolding LWPOLY.prems(11) bs
      by (rule polygon_reads_back [OF LWPOLY.prems(6) [unfolded bs] rs' h LWPOLY.prems(7) [unfolded bs] LWPOLY.prems(8)])
  next
    case (LWNURBSCURVE h degree q w k)
    from LWNURBSCURVE.prems(2) obtain pa where q: "q = Some pa" by (cases q) auto
    have h: "same_zm f' (flags h)" using LWNURBSCURVE.prems by (auto simp: same_zm_def)
    have sz: "gserialized2_from_lwnurbscurve_size h degree q w k = Inr n" using LWNURBSCURVE.prems(4) by simp
    then have ne: "w \<noteq> Some []" "k \<noteq> Some []"
      by (auto simp: gserialized2_from_lwnurbscurve_size_def lwnurbscurve_counts_def bindE_eq_Inr)
    from nurbs_written [OF LWNURBSCURVE.prems(1) sz] LWNURBSCURVE.prems(5)
    have bs: "bs = uint32_bytes NURBSCURVETYPE @ uint32_bytes (npoints pa) @ uint32_bytes degree @
      uint32_bytes (length (opt_list w)) @ uint32_bytes (length (opt_list k)) @ uint32_bytes 0 @
      double_bytes (opt_list w) @ double_bytes (opt_list k) @ array_bytes pa" by (simp add: q)
    show ?case
      unfolding LWNURBSCURVE.prems(11) bs q
      by (rule nurbs_reads_back [OF LWNURBSCURVE.prems(6) [unfolded bs] LWNURBSCURVE.prems(1) [unfolded q]
            LWNURBSCURVE.prems(2) [unfolded q] ne h LWNURBSCURVE.prems(7) [unfolded bs] LWNURBSCURVE.prems(8)])
  next
    case (LWCOLLECTION t h mg al gs)
    let ?w = "\<lambda>g. bindE (require (FLAGS_GET_ZM (flags h) = FLAGS_GET_ZM (lwgeom_flags g))
              ''Dimensions mismatch in lwcollection'') (\<lambda>_. gserialized2_from_lwgeom_any g)"
    let ?f = "flag_set f' LWFLAG_BBOX False"
    from LWCOLLECTION.prems(5) obtain bss where t: "lwtype_is_collection t" and bss: "mapE ?w gs = Inr bss"
      and bs: "bs = uint32_bytes t @ uint32_bytes (length gs) @ concat bss"
      by (auto simp: bindE_eq_Inr split: if_splits)
    have k: "length gs < 2 ^ 32" "t < 2 ^ 32"
      using LWCOLLECTION.prems(1) lwtype_is_collection_cases [OF t] by auto
    have st: "stored d p (uint32_bytes t)" "stored d (p + 4) (uint32_bytes (length gs))"
      "stored d (p + 8) (concat bss)"
      using LWCOLLECTION.prems(6) by (simp_all add: bs stored_simps add.assoc)
    have room: "p + 4 \<le> e" "p + 4 + 4 \<le> e" "p + 8 \<le> e" "p + 8 + length (concat bss) \<le> e"
      "length (concat bss) \<le> 8 * fl"
      using LWCOLLECTION.prems(7,9,11) by (simp_all add: bs)
    note u = stored_uint32 [OF st(1) k(2)] stored_uint32 [OF st(2) k(1)]
    note c = stored_checked [OF st(1) k(2) room(1)] stored_checked [OF st(2) k(1) room(2)]
    have member: "gserialized2_validate_geometry_buffer fl d q e ?f = Inr (length b) \<and> 0 < length b \<and>
      gserialized2_read_uint32_checked d q e = Inr (lwgeom_get_type g) \<and>
      gserialized2_get_uint32_t d q = Inr (lwgeom_get_type g) \<and>
      (\<exists>g'. lwgeom_from_gserialized2_buffer fl d s ?f q = Inr (g', length b) \<and>
        lwgeom_content g' = lwgeom_content (lwgeom_set_srid s g))"
      if g: "g \<in> set gs" and b: "?w g = Inr b" and sb: "stored d q b" and rb: "q + length b \<le> e"
        and fb: "length b \<le> 8 * fl" for g b q
    proof -
      have wf: "lwgeom_wf g" "storable g" "zm_uniform f g" using LWCOLLECTION.prems(1-3) g by (auto simp: list_all_iff)
      have any: "gserialized2_from_lwgeom_any g = Inr b" using b by (simp add: bindE_eq_Inr)
      obtain m where sz: "gserialized2_from_any_size g = Inr m"
        using LWCOLLECTION.prems(4) t g
        by (auto simp: bindE_eq_Inr mapE_eq_Inr list_all2_conv_all_nth in_set_conv_nth)
      from written_head [OF any] obtain rest where head: "b = uint32_bytes (lwgeom_get_type g) @ rest"
        by blast
      then have "0 < fl" "q + 4 \<le> e" using fb rb by auto
      then obtain fl' where fl: "fl = Suc fl'" by (cases fl) auto
      have "same_zm ?f f" using LWCOLLECTION.prems(10) by (simp add: same_zm_def)
      from LWCOLLECTION.IH [OF g wf sz any sb rb LWCOLLECTION.prems(8) fb this fl]
      have "reads_back_at fl d q e ?f s g b" .
      moreover have ht: "stored d q (uint32_bytes (lwgeom_get_type g))"
        using sb by (simp add: head stored_simps)
      note stored_uint32 [OF ht lwgeom_type_bound [OF wf(1)]]
        stored_checked [OF ht lwgeom_type_bound [OF wf(1)] \<open>q + 4 \<le> e\<close>]
      ultimately show ?thesis using head by (simp add: reads_back_at_def)
    qed
    have allow: "list_all (\<lambda>g. lwcollection_allows_subtype t (lwgeom_get_type g)) gs"
      using LWCOLLECTION.prems(1) by simp
    from members_read_back [where val = "\<lambda>q. gserialized2_validate_geometry_buffer fl d q e ?f"
        and rd = "lwgeom_from_gserialized2_buffer fl d s ?f" and C = lwgeom_content
        and C' = "\<lambda>g. lwgeom_content (lwgeom_set_srid s g)",
        OF bss [unfolded mapE_eq_Inr] member allow st(3) room(4,5)]
    obtain gs' where
      v: "validate_members (\<lambda>q. gserialized2_validate_geometry_buffer fl d q e ?f) t d e (length gs) (p + 8) =
        Inr (p + 8 + length (concat bss))"
      and rd: "members_from_gserialized2_buffer (lwgeom_from_gserialized2_buffer fl d s ?f) t d (length gs) (p + 8) =
        Inr (gs', p + 8 + length (concat bss))"
      and gs': "map lwgeom_content gs' = map (\<lambda>g. lwgeom_content (lwgeom_set_srid s g)) gs"
      by blast
    have coll: "t \<in> set [MULTIPOINTTYPE, MULTILINETYPE, MULTIPOLYGONTYPE, COMPOUNDTYPE,
       CURVEPOLYTYPE, MULTICURVETYPE, MULTISURFACETYPE, POLYHEDRALSURFACETYPE, TINTYPE, COLLECTIONTYPE]"
      using lwtype_is_collection_cases [OF t] by auto
    have len: "length bs = 8 + length (concat bss)" by (simp add: bs)
    have "lwcollection_from_gserialized2_buffer (lwgeom_from_gserialized2_buffer fl d s) d p f' s =
        Inr (LWCOLLECTION t (read_head f' s) (length gs) (length gs > 0) gs', length bs)"
      unfolding lwcollection_from_gserialized2_buffer_def u bindE_Inr rd by (simp add: len)
    then have "lwgeom_from_gserialized2_buffer (Suc fl) d s f' p =
        Inr (LWCOLLECTION t (read_head f' s) (length gs) (length gs > 0) gs', length bs)"
      using coll u(1) by (auto simp: lwgeom_from_gserialized2_buffer.simps)
    moreover have "gserialized2_validate_geometry_buffer (Suc fl) d p e f' = Inr (length bs)"
      using coll c room v by (auto simp: gserialized2_validate_geometry_buffer.simps range_available_iff len)
    moreover have "same_zm f' (flags h)" using LWCOLLECTION.prems(3,10) by (auto simp: same_zm_def)
    ultimately show ?case
      using t gs' read_head_content [of f' h s]
      unfolding LWCOLLECTION.prems(11) reads_back_at_def by (simp add: comp_def)
  qed
qed

end
