(* ===== verification/GS2Header.thy ===== *)
theory GS2Header
  imports GS2RoundTrip
begin

text \<open>
  The header of a stored geometry: what \<open>gserialized2_from_lwgeom\<close> writes into it, that the
  accessors read it back, and the theorems on the whole buffer that follow.
\<close>

section \<open>The SRID\<close>

lemma srid_bytes:
  fixes w :: u32
  shows "(push_bit 16 (ucast (ucast (drop_bit 16 (w AND 0x001F0000)) :: byte)) OR
     push_bit 8 (ucast (ucast (drop_bit 8 (w AND 0x0000FF00)) :: byte)) OR
     ucast (ucast (w AND 0x000000FF) :: byte)) = take_bit 21 w"
proof -
  have m: "(0x001F0000 :: u32) = push_bit 16 (mask 5)" "(0x0000FF00 :: u32) = push_bit 8 (mask 8)"
    "(0x000000FF :: u32) = mask 8"
    by (simp_all add: mask_eq_exp_minus_1)
  show ?thesis
    unfolding m
  proof (rule bit_word_eqI)
    fix n :: nat
    consider "n < 8" | "8 \<le> n" "n < 16" | "16 \<le> n" by linarith
    then show "bit (push_bit 16 (ucast (ucast (drop_bit 16 (w AND push_bit 16 (mask 5))) :: byte)) OR
       push_bit 8 (ucast (ucast (drop_bit 8 (w AND push_bit 8 (mask 8))) :: byte)) OR
       ucast (ucast (w AND mask 8) :: byte) :: u32) n \<longleftrightarrow> bit (take_bit 21 w) n"
      by cases (auto simp: bit_simps)
  qed
qed

lemma srid_word:
  assumes "0 \<le> s" "s < 2 ^ 20"
  shows "take_bit 21 (word_of_int s :: u32) = word_of_int s" "\<not> has_bits (word_of_int s :: u32) 0x00100000"
    "sint (word_of_int s :: u32) = s"
proof -
  have t: "take_bit 20 s = s" using assms by (simp add: take_bit_int_eq_self)
  show "take_bit 21 (word_of_int s :: u32) = word_of_int s"
  proof (rule bit_word_eqI)
    fix n
    have "bit s n \<longrightarrow> n < 20" using t by (metis bit_take_bit_iff)
    then show "bit (take_bit 21 (word_of_int s :: u32)) n \<longleftrightarrow> bit (word_of_int s :: u32) n"
      by (auto simp: bit_simps)
  qed
  have "\<not> bit s 20" using t by (metis bit_take_bit_iff less_irrefl)
  then have "\<not> bit (word_of_int s :: u32) 20" by (simp add: bit_simps)
  then have "(word_of_int s :: u32) AND 2 ^ 20 = 0" by (simp only: and_exp_eq_0_iff_not_bit not_False_eq_True)
  then show "\<not> has_bits (word_of_int s :: u32) 0x00100000" by (simp add: has_bits_def)
  show "sint (word_of_int s :: u32) = s" using assms by (simp add: sint_sbintrunc' signed_take_bit_int_eq_self)
qed

lemma get_set_srid: "gserialized2_get_srid (gserialized2_set_srid s g) = clamp_srid s"
proof -
  define c where "c = clamp_srid s"
  have c: "0 \<le> c" "c < 2 ^ 20" using clamp_srid_range [of s] by (simp_all add: c_def)
  define w :: u32 where "w = word_of_int c"
  define t :: "byte \<times> byte \<times> byte" where
    "t = (ucast (drop_bit 16 (w AND 0x001F0000)), ucast (drop_bit 8 (w AND 0x0000FF00)), ucast (w AND 0x000000FF))"
  have "gserialized2_set_srid s g = g\<lparr>gs_srid := t\<rparr>"
    unfolding gserialized2_set_srid_def Let_def c_def [symmetric] w_def t_def by (cases "c = 0") simp_all
  then have t: "gs_srid (gserialized2_set_srid s g) = t" by simp
  have b: "((0 OR push_bit 16 (ucast (ucast (drop_bit 16 (w AND 0x001F0000)) :: byte))) OR
      push_bit 8 (ucast (ucast (drop_bit 8 (w AND 0x0000FF00)) :: byte))) OR
      ucast (ucast (w AND 0x000000FF) :: byte) = w"
    using srid_bytes [of w] srid_word(1) [OF c] by (simp only: or.left_neutral or.assoc w_def)
  have "c = 0" if "w = 0" using that srid_word(3) [OF c] by (simp add: w_def)
  moreover have "\<not> has_bits w 0x00100000" "sint w = c" unfolding w_def by (rule srid_word [OF c])+
  ultimately show ?thesis
    unfolding gserialized2_get_srid_def t t_def prod.case Let_def b c_def [symmetric] by auto
qed

text \<open>
  The SRID of a stored geometry: reading back what was set gives the number clamped to
  the range of SRIDs, so the sign extension of the reader never applies, and setting it
  leaves everything else in the buffer alone.
\<close>

theorem gserialized2_srid_roundtrip:
  "gserialized2_get_srid (gserialized2_set_srid s g) = clamp_srid s \<and>
   (0 \<le> s \<and> s \<le> 999999 \<longrightarrow> gserialized2_get_srid (gserialized2_set_srid s g) = s) \<and>
   (\<exists>b. gserialized2_set_srid s g = g\<lparr>gs_srid := b\<rparr>)"
proof (intro conjI impI)
  show "gserialized2_get_srid (gserialized2_set_srid s g) = clamp_srid s" by (rule get_set_srid)
  show "gserialized2_get_srid (gserialized2_set_srid s g) = s" if "0 \<le> s \<and> s \<le> 999999"
    using that by (simp only: get_set_srid clamp_srid_id)
  show "\<exists>b. gserialized2_set_srid s g = g\<lparr>gs_srid := b\<rparr>"
    unfolding gserialized2_set_srid_def Let_def by blast
qed

section \<open>The flags\<close>

lemma uses_extended_bit: "lwflags_uses_extended_flags f \<longleftrightarrow> has_bits f (NOT 0x0F)"
  by (simp add: lwflags_uses_extended_flags_def has_bits_def)

lemma g2flags_bits:
  "has_bits (lwflags_get_g2flags f) G2FLAG_Z = hasz f"
  "has_bits (lwflags_get_g2flags f) G2FLAG_M = hasm f"
  "has_bits (lwflags_get_g2flags f) G2FLAG_BBOX = has_bits f LWFLAG_BBOX"
  "has_bits (lwflags_get_g2flags f) G2FLAG_GEODETIC = geodetic f"
  "has_bits (lwflags_get_g2flags f) G2FLAG_EXTENDED = lwflags_uses_extended_flags f"
  "has_bits (lwflags_get_g2flags f) G2FLAG_VER_0"
  by (simp_all add: lwflags_get_g2flags_def Let_def g2flag_set_bits)

text \<open>Two flag words that agree on the flags a stored geometry keeps.\<close>

definition same_stored_flags :: "u16 \<Rightarrow> u16 \<Rightarrow> bool" where
  "same_stored_flags f g \<longleftrightarrow> hasz f = hasz g \<and> hasm f = hasm g \<and>
     has_bits f LWFLAG_BBOX = has_bits g LWFLAG_BBOX \<and> geodetic f = geodetic g \<and>
     has_bits f LWFLAG_SOLID = has_bits g LWFLAG_SOLID"

lemma solid_uses_extended: "has_bits f LWFLAG_SOLID \<Longrightarrow> lwflags_uses_extended_flags f"
proof -
  assume s: "has_bits f LWFLAG_SOLID"
  have "f AND (NOT 0x0F AND LWFLAG_SOLID) = (f AND NOT 0x0F) AND LWFLAG_SOLID" by (simp only: and.assoc)
  moreover have "NOT 0x0F AND LWFLAG_SOLID = LWFLAG_SOLID" by simp
  ultimately show ?thesis using s unfolding uses_extended_bit has_bits_def by (metis bit.conj_zero_left)
qed

lemma lwflags_read_back:
  assumes "gs_gflags g = lwflags_get_g2flags f" "stored (gs_data g) 0 (gserialized2_from_extended_flags f)"
    and "lwflags_uses_extended_flags f \<Longrightarrow> 16 \<le> gserialized2_buffer_size g"
  shows "\<exists>f'. gserialized2_get_lwflags g = Inr f' \<and> same_stored_flags f' f"
proof (cases "lwflags_uses_extended_flags f")
  case True
  have "mem_at (gs_data g) 0 8 = Inr (le_bytes 8 (if has_bits f LWFLAG_SOLID then 0 OR G2FLAG_X_SOLID else 0 :: u64))"
    using assms(2) True by (intro stored_mem_at) (simp_all only: gserialized2_from_extended_flags_def if_True length_le_bytes)
  moreover have "has_bits (le_word (le_bytes 8 (if has_bits f LWFLAG_SOLID then 0 OR G2FLAG_X_SOLID else 0 :: u64)) :: u64)
      G2FLAG_X_SOLID = has_bits f LWFLAG_SOLID"
    by (simp add: le_word_le_bytes_full)
  ultimately show ?thesis
    using assms(1,3) True
    by (simp add: gserialized2_get_lwflags_def g2flags_bits Let_def same_stored_flags_def has_bits_flag_set)
next
  case False
  then show ?thesis
    using assms(1) solid_uses_extended [of f]
    by (auto simp: gserialized2_get_lwflags_def g2flags_bits Let_def same_stored_flags_def has_bits_flag_set)
qed

section \<open>The box and the sizes\<close>

text \<open>A box with the dimensions of its geometry.\<close>

definition box_matches :: "u16 \<Rightarrow> gbox \<Rightarrow> bool" where
  "box_matches f b \<longleftrightarrow> same_zm f (gflags b) \<and> geodetic f = geodetic (gflags b)"

lemma length_gbox_bytes:
  assumes "box_matches f b"
  shows "length (gserialized2_from_gbox b) = gbox_serialized_size f"
  using assms
  by (auto simp: gserialized2_from_gbox_def gbox_serialized_size_def box_matches_def same_zm_def FLAGS_NDIMS_def)

lemma buffer_size_set:
  assumes "n < 2 ^ 30"
  shows "LWSIZE_GET (LWSIZE_SET n) = n"
proof -
  have b: "bit n i \<longrightarrow> i < 30" for i using assms by (metis bit_take_bit_iff take_bit_nat_eq_self)
  have "drop_bit 2 (push_bit 2 (of_nat n :: u32)) AND mask 30 = of_nat n"
  proof (rule bit_word_eqI)
    fix i
    show "bit (drop_bit 2 (push_bit 2 (of_nat n :: u32)) AND mask 30) i \<longleftrightarrow> bit (of_nat n :: u32) i"
      using b [of i] by (auto simp: bit_simps)
  qed
  moreover have "(0x3FFFFFFF :: u32) = mask 30" by (simp add: mask_eq_exp_minus_1)
  moreover have "unat (of_nat n :: u32) = n" using assms by (simp add: unsigned_of_nat take_bit_nat_eq_self)
  ultimately show ?thesis by (simp only: LWSIZE_GET_def LWSIZE_SET_def)
qed

lemma with_needed_box_shape:
  "\<exists>B. with_needed_box calc g = map_lwhead (\<lambda>h. h\<lparr>bbox := B, flags := flag_set (flags h) LWFLAG_BBOX (B \<noteq> None)\<rparr>) g
    \<and> (bbox (lwhead_of g) \<noteq> None \<longrightarrow> B = bbox (lwhead_of g))"
proof (cases "bbox (lwhead_of g) = None \<and> lwgeom_needs_bbox g \<and> \<not> lwgeom_is_empty g")
  case True
  define g1 where "g1 = map_lwhead (\<lambda>h. h\<lparr>flags := flag_set (flags h) LWFLAG_BBOX True\<rparr>) g"
  define B where "B = Some (snd (lwgeom_calculate_gbox calc g1 (gbox_new (lwgeom_flags g1))))"
  have idem: "flag_set (flag_set f LWFLAG_BBOX True) LWFLAG_BBOX True = flag_set f LWFLAG_BBOX True" for f
    by (simp add: flag_set_def or.assoc)
  have "with_needed_box calc g =
      map_lwhead (\<lambda>h. h\<lparr>bbox := B, flags := flag_set (flags h) LWFLAG_BBOX (B \<noteq> None)\<rparr>) g"
  proof -
    have "lwgeom_add_bbox calc g = map_lwhead (\<lambda>h. h\<lparr>bbox := B\<rparr>) g1"
      using True by (simp only: lwgeom_add_bbox_def g1_def B_def Let_def) simp
    with True this show ?thesis
      by (simp add: with_needed_box_def g1_def map_lwhead_fuse) (simp add: B_def idem)
  qed
  with True show ?thesis by blast
next
  case False
  then have "with_needed_box calc g = map_lwhead (\<lambda>h. h\<lparr>bbox := bbox (lwhead_of g),
      flags := flag_set (flags h) LWFLAG_BBOX (bbox (lwhead_of g) \<noteq> None)\<rparr>) g"
    by (cases g) (auto simp: with_needed_box_def Let_def)
  then show ?thesis by blast
qed

lemma needed_box_flags:
  "hasz (lwgeom_flags (with_needed_box calc g)) = hasz (lwgeom_flags g)"
  "hasm (lwgeom_flags (with_needed_box calc g)) = hasm (lwgeom_flags g)"
  "geodetic (lwgeom_flags (with_needed_box calc g)) = geodetic (lwgeom_flags g)"
proof -
  obtain B where "with_needed_box calc g =
      map_lwhead (\<lambda>h. h\<lparr>bbox := B, flags := flag_set (flags h) LWFLAG_BBOX (B \<noteq> None)\<rparr>) g"
    using with_needed_box_shape [of calc g] by blast
  then show "hasz (lwgeom_flags (with_needed_box calc g)) = hasz (lwgeom_flags g)"
    "hasm (lwgeom_flags (with_needed_box calc g)) = hasm (lwgeom_flags g)"
    "geodetic (lwgeom_flags (with_needed_box calc g)) = geodetic (lwgeom_flags g)"
    by (simp_all add: has_bits_flag_set)
qed

lemma same_shape_bbox:
  fixes B v
  defines "F \<equiv> \<lambda>h. h\<lparr>bbox := B, flags := flag_set (flags h) LWFLAG_BBOX v\<rparr>"
  shows "lwgeom_wf g \<Longrightarrow> lwgeom_wf (map_lwhead F g)" "zm_uniform f (map_lwhead F g) = zm_uniform f g"
    "storable (map_lwhead F g) = storable g"
    "lwgeom_content (lwgeom_set_srid s (map_lwhead F g)) = lwgeom_content (lwgeom_set_srid s g)"
proof -
  show "lwgeom_wf g \<Longrightarrow> lwgeom_wf (map_lwhead F g)" by (rule lwgeom_wf_map_lwhead) (simp_all add: F_def)
  show "zm_uniform f (map_lwhead F g) = zm_uniform f g" "storable (map_lwhead F g) = storable g"
    by (cases g; simp add: F_def)+
  show "lwgeom_content (lwgeom_set_srid s (map_lwhead F g)) = lwgeom_content (lwgeom_set_srid s g)"
    by (cases g) (simp_all add: F_def head_content_def)
qed

text \<open>What the writer puts into the buffer, for a geometry as it is after the first two steps.\<close>

lemma from_lwgeom_written:
  fixes calc g
  defines "g1 \<equiv> with_needed_box calc g"
  assumes wf: "lwgeom_wf g" "zm_uniform (lwgeom_flags g) g"
    and n: "gserialized2_from_lwgeom_size g1 = Inr n"
    and box: "\<And>b. bbox (lwhead_of g1) = Some b \<Longrightarrow> box_matches (lwgeom_flags g1) b"
  obtains bs ext boxb gs where "gserialized2_from_lwgeom calc g = Inr gs"
    "gserialized2_from_any_size g1 = Inr (length bs)" "gserialized2_from_lwgeom_any g1 = Inr bs"
    "ext = gserialized2_from_extended_flags (lwgeom_flags g1)"
    "boxb = (case bbox (lwhead_of g1) of None \<Rightarrow> [] | Some b \<Rightarrow> gserialized2_from_gbox b)"
    "gs_data gs = ext @ boxb @ bs" "gs_size gs = LWSIZE_SET n" "n = 8 + length (gs_data gs)"
    "gs_gflags gs = lwflags_get_g2flags (lwgeom_flags g1)"
    "gserialized2_get_srid gs = clamp_srid (lwgeom_get_srid g)"
    "length ext = (if lwflags_uses_extended_flags (lwgeom_flags g1) then 8 else 0)"
    "length boxb = (if bbox (lwhead_of g1) = None then 0 else gbox_serialized_size (lwgeom_flags g1))"
proof -
  obtain B where g1: "g1 = map_lwhead (\<lambda>h. h\<lparr>bbox := B, flags := flag_set (flags h) LWFLAG_BBOX (B \<noteq> None)\<rparr>) g"
    unfolding g1_def using with_needed_box_shape [of calc g] by blast
  have wf1: "lwgeom_wf g1" "zm_uniform (lwgeom_flags g) g1"
    using same_shape_bbox(1,2) [where B = B and v = "B \<noteq> None" and g = g] wf by (simp_all add: g1)
  obtain m where m: "gserialized2_from_any_size g1 = Inr m"
    using n by (auto simp: gserialized2_from_lwgeom_size_def bindE_eq_Inr Let_def)
  from gserialized2_any_size [OF wf1 m] obtain bs where
    bs: "gserialized2_from_lwgeom_any g1 = Inr bs" "length bs = m" by blast
  define ext where "ext = gserialized2_from_extended_flags (lwgeom_flags g1)"
  define boxb where "boxb = (case bbox (lwhead_of g1) of None \<Rightarrow> [] | Some b \<Rightarrow> gserialized2_from_gbox b)"
  have ext: "length ext = (if lwflags_uses_extended_flags (lwgeom_flags g1) then 8 else 0)"
    by (simp add: ext_def gserialized2_from_extended_flags_def)
  have boxl: "length boxb = (if bbox (lwhead_of g1) = None then 0 else gbox_serialized_size (lwgeom_flags g1))"
    using length_gbox_bytes box by (auto simp: boxb_def split: option.split)
  define gs where "gs = gserialized2_set_srid (lwgeom_get_srid g) \<lparr>gs_size = LWSIZE_SET n, gs_srid = (0, 0, 0),
    gs_gflags = lwflags_get_g2flags (lwgeom_flags g1), gs_data = ext @ boxb @ bs\<rparr>"
  have size: "n = 8 + length (ext @ boxb @ bs)"
    using n m bs(2) ext boxl by (auto simp: gserialized2_from_lwgeom_size_def Let_def split: if_splits)
  have srid: "srid (lwhead_of g1) = lwgeom_get_srid g" by (simp add: g1 lwgeom_get_srid_def)
  have "gserialized2_from_lwgeom calc g = Inr gs"
    using bs(1) n size
    by (simp add: gserialized2_from_lwgeom_def g1_def [symmetric] Let_def ext_def [symmetric] boxb_def [symmetric]
        gs_def srid)
  moreover have "gs_data gs = ext @ boxb @ bs" "gs_size gs = LWSIZE_SET n"
    "gs_gflags gs = lwflags_get_g2flags (lwgeom_flags g1)"
    by (simp_all add: gs_def gserialized2_set_srid_def Let_def)
  moreover have "gserialized2_get_srid gs = clamp_srid (lwgeom_get_srid g)"
    unfolding gs_def by (rule get_set_srid)
  ultimately show thesis using that m bs ext boxl size ext_def boxb_def by metis
qed

section \<open>The buffer as a whole\<close>

text \<open>A geometry that can be written: the size it takes, and a box of its dimensions.\<close>

definition writable :: "box_calc \<Rightarrow> lwgeom \<Rightarrow> nat \<Rightarrow> bool" where
  "writable calc g n \<longleftrightarrow> lwgeom_wf g \<and> zm_uniform (lwgeom_flags g) g \<and>
     gserialized2_from_lwgeom_size (with_needed_box calc g) = Inr n \<and>
     (case bbox (lwhead_of (with_needed_box calc g)) of None \<Rightarrow> True
      | Some b \<Rightarrow> box_matches (lwgeom_flags (with_needed_box calc g)) b)"

text \<open>The layout of what is written: extended flags, box, and from offset \<open>p\<close> on the
  geometry \<open>bs\<close>.\<close>

definition laid_out :: "lwgeom \<Rightarrow> int \<Rightarrow> nat \<Rightarrow> gserialized \<Rightarrow> nat \<Rightarrow> byte list \<Rightarrow> bool" where
  "laid_out g s n gs p bs \<longleftrightarrow>
     gserialized2_from_any_size g = Inr (length bs) \<and> gserialized2_from_lwgeom_any g = Inr bs \<and>
     gserialized2_buffer_size gs = n \<and> n = 8 + length (gs_data gs) \<and> allocated gs \<and>
     gserialized2_payload_bounds gs = Some (p, length (gs_data gs)) \<and> gserialized2_get_geometry_p gs = p \<and>
     stored (gs_data gs) p bs \<and> p + length bs = length (gs_data gs) \<and>
     gs_gflags gs = lwflags_get_g2flags (lwgeom_flags g) \<and> gserialized2_get_srid gs = clamp_srid s \<and>
     stored (gs_data gs) 0 (gserialized2_from_extended_flags (lwgeom_flags g)) \<and>
     (lwflags_uses_extended_flags (lwgeom_flags g) \<longrightarrow> 16 \<le> n) \<and>
     gserialized2_has_bbox gs = (bbox (lwhead_of g) \<noteq> None) \<and>
     (\<forall>b. bbox (lwhead_of g) = Some b \<longrightarrow> box_matches (lwgeom_flags g) b \<and>
       (\<exists>q. gserialized2_get_float_box_p gs = Some q \<and> stored (gs_data gs) q (gserialized2_from_gbox b)))"

lemma written_layout:
  fixes calc g
  defines "g1 \<equiv> with_needed_box calc g"
  assumes "writable calc g n" "n < 2 ^ 30"
  shows "\<exists>gs bs p. gserialized2_from_lwgeom calc g = Inr gs \<and> laid_out g1 (lwgeom_get_srid g) n gs p bs"
proof -
  note w = assms(2) [unfolded writable_def g1_def [symmetric]]
  have box: "box_matches (lwgeom_flags g1) b" if "bbox (lwhead_of g1) = Some b" for b
    using w that by simp
  obtain bs ext boxb gs where gs: "gserialized2_from_lwgeom calc g = Inr gs"
    and bs: "gserialized2_from_any_size g1 = Inr (length bs)" "gserialized2_from_lwgeom_any g1 = Inr bs"
    and ext: "ext = gserialized2_from_extended_flags (lwgeom_flags g1)"
    and boxb: "boxb = (case bbox (lwhead_of g1) of None \<Rightarrow> [] | Some b \<Rightarrow> gserialized2_from_gbox b)"
    and data: "gs_data gs = ext @ boxb @ bs" "gs_size gs = LWSIZE_SET n" "n = 8 + length (gs_data gs)"
    and gf: "gs_gflags gs = lwflags_get_g2flags (lwgeom_flags g1)"
    and srid: "gserialized2_get_srid gs = clamp_srid (lwgeom_get_srid g)"
    and lens: "length ext = (if lwflags_uses_extended_flags (lwgeom_flags g1) then 8 else 0)"
      "length boxb = (if bbox (lwhead_of g1) = None then 0 else gbox_serialized_size (lwgeom_flags g1))"
    unfolding g1_def
    by (rule from_lwgeom_written [of g calc n]) (use w box in \<open>auto simp: g1_def\<close>)
  obtain B where g1: "g1 = map_lwhead (\<lambda>h. h\<lparr>bbox := B, flags := flag_set (flags h) LWFLAG_BBOX (B \<noteq> None)\<rparr>) g"
    unfolding g1_def using with_needed_box_shape [of calc g] by blast
  have bflag: "has_bits (lwgeom_flags g1) LWFLAG_BBOX = (bbox (lwhead_of g1) \<noteq> None)"
    by (simp add: g1 has_bits_flag_set)
  have size: "gserialized2_buffer_size gs = n"
    using assms(3) by (simp add: gserialized2_buffer_size_def data(2) buffer_size_set)
  have hasb: "gserialized2_has_bbox gs = (bbox (lwhead_of g1) \<noteq> None)"
    by (simp add: gserialized2_has_bbox_def gf g2flags_bits bflag)
  have hase: "gserialized2_has_extended gs = lwflags_uses_extended_flags (lwgeom_flags g1)"
    by (simp add: gserialized2_has_extended_def gf g2flags_bits)
  have bsz: "gserialized2_box_size gs = gbox_serialized_size (lwgeom_flags g1)"
    by (simp add: gserialized2_box_size_def gbox_serialized_size_def gf g2flags_bits G2FLAGS_NDIMS_def FLAGS_NDIMS_def)
  define p where "p = length ext + length boxb"
  have hsz: "gserialized2_header_size gs = 8 + p"
    by (simp add: gserialized2_header_size_def hasb hase bsz lens p_def)
  have alloc: "allocated gs" using size data(3) by (simp add: allocated_def)
  have "gserialized2_payload_bounds gs = Some (p, length (gs_data gs))"
    using size data(1,3) by (simp add: gserialized2_payload_bounds_def hsz p_def)
  moreover have "gserialized2_get_geometry_p gs = p" by (simp add: geometry_offset hsz)
  moreover have "stored (gs_data gs) p bs" using stored_here [of "ext @ boxb" bs "[]"] by (simp add: data(1) p_def)
  moreover have "p + length bs = length (gs_data gs)" by (simp add: data(1) p_def)
  moreover have "stored (gs_data gs) 0 ext" using stored_here [of "[]" ext] by (simp add: data(1))
  moreover have "box_matches (lwgeom_flags g1) b \<and>
      (\<exists>q. gserialized2_get_float_box_p gs = Some q \<and> stored (gs_data gs) q (gserialized2_from_gbox b))"
    if b: "bbox (lwhead_of g1) = Some b" for b
  proof -
    have "gserialized2_get_float_box_p gs = Some (length ext)"
      using b size data(1,3) lens by (auto simp: gserialized2_get_float_box_p_def hasb hase bsz)
    moreover have "stored (gs_data gs) (length ext) (gserialized2_from_gbox b)"
      using stored_here [of ext boxb bs] b by (simp add: data(1) boxb)
    ultimately show ?thesis using b box by simp
  qed
  moreover have "16 \<le> n" if "lwflags_uses_extended_flags (lwgeom_flags g1)" using that data(1,3) lens by simp
  ultimately have "laid_out g1 (lwgeom_get_srid g) n gs p bs"
    using bs size data(3) alloc gf srid hasb unfolding laid_out_def ext by blast
  with gs show ?thesis by blast
qed

text \<open>
  C25. The writer fills exactly the buffer it allocates. For every geometry with a size, it
  neither writes behind the buffer nor fails its final assertion, the declared size is the
  number of bytes, and the flags of the header are those of the geometry.
\<close>

theorem gserialized2_from_lwgeom_exact:
  assumes "writable calc g n" "n < 2 ^ 30"
  shows "\<exists>gs. gserialized2_from_lwgeom calc g = Inr gs \<and> 8 + length (gs_data gs) = n \<and>
    gserialized2_buffer_size gs = n \<and> has_bits (gs_gflags gs) G2FLAG_VER_0 \<and>
    gserialized2_has_z gs = hasz (lwgeom_flags g) \<and> gserialized2_has_m gs = hasm (lwgeom_flags g) \<and>
    gserialized2_is_geodetic gs = geodetic (lwgeom_flags g) \<and>
    gserialized2_has_bbox gs = (bbox (lwhead_of (with_needed_box calc g)) \<noteq> None) \<and>
    gserialized2_get_type gs = Inr (lwgeom_get_type g)"
proof -
  obtain gs bs p where gs: "gserialized2_from_lwgeom calc g = Inr gs"
    and lay: "laid_out (with_needed_box calc g) (lwgeom_get_srid g) n gs p bs"
    using written_layout [OF assms] by blast
  note l = lay [unfolded laid_out_def]
  obtain B where g1: "with_needed_box calc g =
      map_lwhead (\<lambda>h. h\<lparr>bbox := B, flags := flag_set (flags h) LWFLAG_BBOX (B \<noteq> None)\<rparr>) g"
    using with_needed_box_shape [of calc g] by blast
  from l have "gserialized2_from_lwgeom_any (with_needed_box calc g) = Inr bs" by blast
  from written_head [OF this] obtain rest where
    rest: "bs = uint32_bytes (lwgeom_get_type g) @ rest" "4 \<le> length rest"
    by (auto simp: g1)
  have "stored (gs_data gs) p (uint32_bytes (lwgeom_get_type g))" using l by (simp add: rest(1) stored_simps)
  moreover have "lwgeom_get_type g < 2 ^ 32"
    using assms(1) lwgeom_type_bound [of g] by (simp add: writable_def)
  ultimately have "gserialized2_get_uint32_t (gs_data gs) p = Inr (lwgeom_get_type g)"
    by (rule stored_uint32)
  moreover have "\<not> gserialized2_buffer_size gs < gserialized2_header_size gs + 4"
    using l rest header_size_ge [of gs] by (auto simp: gserialized2_payload_bounds_def split: if_splits)
  ultimately have "gserialized2_get_type gs = Inr (lwgeom_get_type g)"
    using l by (simp add: gserialized2_get_type_def)
  moreover have "gserialized2_has_z gs = hasz (lwgeom_flags g)" "gserialized2_has_m gs = hasm (lwgeom_flags g)"
    "gserialized2_is_geodetic gs = geodetic (lwgeom_flags g)" "has_bits (gs_gflags gs) G2FLAG_VER_0"
    by (simp_all add: gserialized2_has_z_def gserialized2_has_m_def gserialized2_is_geodetic_def l g2flags_bits g1
        has_bits_flag_set)
  ultimately show ?thesis using gs l by auto
qed

section \<open>The stored box is read back\<close>

lemma stored_floats: "stored d p (concat (map (le_bytes 4) fs)) \<Longrightarrow> floats_at d p (length fs) = Inr fs"
proof (induction fs arbitrary: p)
  case (Cons x fs)
  then have "stored d p (le_bytes 4 x)" "stored d (p + 4) (concat (map (le_bytes 4) fs))"
    by (simp_all add: stored_simps)
  with Cons.IH show ?case by (simp add: stored_mem_at le_word_le_bytes_full)
qed simp

text \<open>The bounds of \<open>b\<close>, rounded outwards, in the dimensions that a stored box has.\<close>

definition rounded_box :: "gbox \<Rightarrow> gbox \<Rightarrow> bool" where
  "rounded_box B b \<longleftrightarrow>
     xmin B = round_down (xmin b) \<and> xmax B = round_up (xmax b) \<and>
     ymin B = round_down (ymin b) \<and> ymax B = round_up (ymax b) \<and>
     (hasz (gflags b) \<or> geodetic (gflags b) \<longrightarrow> zmin B = round_down (zmin b) \<and> zmax B = round_up (zmax b)) \<and>
     (hasm (gflags b) \<and> \<not> geodetic (gflags b) \<longrightarrow> mmin B = round_down (mmin b) \<and> mmax B = round_up (mmax b))"

lemma box_read_at:
  assumes "gserialized2_has_bbox gs" "gserialized2_get_float_box_p gs = Some q"
    and q: "stored (gs_data gs) q (gserialized2_from_gbox b)"
    and f: "gserialized2_get_lwflags gs = Inr f"
    and "gserialized2_has_z gs = hasz (gflags b)" "gserialized2_has_m gs = hasm (gflags b)"
    "gserialized2_is_geodetic gs = geodetic (gflags b)"
  shows "\<exists>B. gserialized2_read_gbox_p gs st = Inr (True, B) \<and> gflags B = f \<and> rounded_box B b"
proof -
  note gf = assms(5-7) [unfolded gserialized2_has_z_def gserialized2_has_m_def gserialized2_is_geodetic_def]
  define fs where "fs = [next_float_down (xmin b), next_float_up (xmax b), next_float_down (ymin b), next_float_up (ymax b)] @
        (if geodetic (gflags b) then [next_float_down (zmin b), next_float_up (zmax b)]
         else (if hasz (gflags b) then [next_float_down (zmin b), next_float_up (zmax b)] else []) @
              (if hasm (gflags b) then [next_float_down (mmin b), next_float_up (mmax b)] else []))"
  have "gserialized2_box_size gs div 4 = length fs"
    by (simp add: gserialized2_box_size_def gf G2FLAGS_NDIMS_def fs_def)
  then have "floats_at (gs_data gs) q (gserialized2_box_size gs div 4) = Inr fs"
    using stored_floats [of _ _ fs] q by (simp add: gserialized2_from_gbox_def fs_def)
  then have "gserialized2_read_gbox_p gs st = Inr (True, box_of_floats (gs_gflags gs) fs (st\<lparr>gflags := f\<rparr>))"
    using assms(1,2) f by (simp add: gserialized2_read_gbox_p_def Let_def)
  moreover have "gflags (box_of_floats (gs_gflags gs) fs (st\<lparr>gflags := f\<rparr>)) = f"
    by (simp add: box_of_floats_def Let_def split: prod.split)
  moreover have "rounded_box (box_of_floats (gs_gflags gs) fs (st\<lparr>gflags := f\<rparr>)) b"
    by (cases "geodetic (gflags b)"; cases "hasz (gflags b)"; cases "hasm (gflags b)")
      (simp_all add: rounded_box_def box_of_floats_def fs_def gf Let_def)
  ultimately show ?thesis by blast
qed

lemma stored_box_read:
  assumes "laid_out g s n gs p bs" "bbox (lwhead_of g) = Some b" "gserialized2_get_lwflags gs = Inr f"
  shows "\<exists>B. gserialized2_read_gbox_p gs st = Inr (True, B) \<and> gflags B = f \<and> rounded_box B b"
proof -
  note l = assms(1) [unfolded laid_out_def]
  obtain q where q: "gserialized2_get_float_box_p gs = Some q" "stored (gs_data gs) q (gserialized2_from_gbox b)"
    using l assms(2) by blast
  have "gserialized2_has_bbox gs" using l assms(2) by simp
  moreover have "same_zm (lwgeom_flags g) (gflags b)" "geodetic (lwgeom_flags g) = geodetic (gflags b)"
    using l assms(2) by (auto simp: box_matches_def)
  then have "gserialized2_has_z gs = hasz (gflags b)" "gserialized2_has_m gs = hasm (gflags b)"
    "gserialized2_is_geodetic gs = geodetic (gflags b)"
    using l by (simp_all add: g2flags_bits same_zm_def gserialized2_has_z_def gserialized2_has_m_def
        gserialized2_is_geodetic_def)
  ultimately show ?thesis using box_read_at [OF _ q assms(3)] by blast
qed

lemma laid_out_flags:
  assumes "laid_out g s n gs p bs"
  shows "\<exists>f. gserialized2_get_lwflags gs = Inr f \<and> same_stored_flags f (lwgeom_flags g)"
  using assms lwflags_read_back [of gs "lwgeom_flags g"] unfolding laid_out_def by blast

text \<open>The geometry in what was written, before the box is attached.\<close>

lemma laid_out_reads_back:
  assumes "writable calc g n" "n < 2 ^ 30" "storable g"
    and "laid_out (with_needed_box calc g) (lwgeom_get_srid g) n gs p bs"
    and f: "gserialized2_get_lwflags gs = Inr f"
    "same_stored_flags f (lwgeom_flags (with_needed_box calc g))"
  shows "\<exists>g0. lwgeom_from_gserialized2 calc' st gs = bindE (gserialized2_read_gbox_p gs st) (\<lambda>(ok, b).
      Inr (map_lwhead (\<lambda>h. h\<lparr>bbox := box_for calc' g0 ok b\<rparr>) g0)) \<and> lwgeom_flags g0 = f \<and>
    lwgeom_content g0 = lwgeom_content (lwgeom_set_srid (clamp_srid (lwgeom_get_srid g)) g)"
proof -
  note l = assms(4) [unfolded laid_out_def]
  obtain B where g1: "with_needed_box calc g =
      map_lwhead (\<lambda>h. h\<lparr>bbox := B, flags := flag_set (flags h) LWFLAG_BBOX (B \<noteq> None)\<rparr>) g"
    using with_needed_box_shape [of calc g] by blast
  have shape: "lwgeom_wf (with_needed_box calc g)" "storable (with_needed_box calc g)"
    "zm_uniform (lwgeom_flags g) (with_needed_box calc g)"
    using assms(1,3) same_shape_bbox [where B = B and v = "B \<noteq> None" and g = g] by (simp_all add: g1 writable_def)
  have zm: "same_zm f (lwgeom_flags g)"
    using f(2) needed_box_flags [of calc g] by (simp add: same_stored_flags_def same_zm_def)
  let ?s = "clamp_srid (lwgeom_get_srid g)" and ?d = "gs_data gs"
  have e: "p + length bs \<le> length ?d" "length ?d < 2 ^ 32" "length bs \<le> 8 * validate_fuel ?d"
    using l assms(2) by auto
  have "reads_back_at (validate_fuel ?d) ?d p (length ?d) f ?s (with_needed_box calc g) bs"
    using written_read_back [OF shape(1,2,3) _ _ _ e zm, where s = ?s and n = "length bs"] l by blast
  then obtain g0 where v: "gserialized2_validate_geometry_buffer (validate_fuel ?d) ?d p (length ?d) f = Inr (length bs)"
    and rd: "lwgeom_from_gserialized2_buffer (validate_fuel ?d) ?d ?s f p = Inr (g0, length bs)"
    and c: "lwgeom_content g0 = lwgeom_content (lwgeom_set_srid ?s (with_needed_box calc g))"
    unfolding reads_back_at_def by blast
  have al: "allocated gs" "gserialized2_payload_bounds gs = Some (p, length ?d)" "gserialized2_get_srid gs = ?s"
    using l by blast+
  from from_gserialized2_after_validation [OF al(1) f(1) al(2) v, of calc' st] rd al(3)
  have "read_at ?d p f ?s g0" "lwgeom_from_gserialized2 calc' st gs = bindE (gserialized2_read_gbox_p gs st)
      (\<lambda>(ok, b). Inr (map_lwhead (\<lambda>h. h\<lparr>bbox := box_for calc' g0 ok b\<rparr>) g0))" by auto
  moreover from this(1) have "lwgeom_flags g0 = f" by (simp add: read_at_def read_head_def)
  moreover have "lwgeom_content g0 = lwgeom_content (lwgeom_set_srid ?s g)"
    unfolding c g1 by (rule same_shape_bbox(4))
  ultimately show ?thesis by blast
qed

lemma lwgeom_content_bbox: "lwgeom_content (map_lwhead (\<lambda>h. h\<lparr>bbox := B\<rparr>) g) = lwgeom_content g"
  by (cases g) (simp_all add: head_content_def)

text \<open>
  C4. A geometry that is written is read back as it was, up to the capacities of its arrays:
  the same tree of geometries with the same coordinates, weights and knots, the SRID clamped
  and given to every part, the flags that are stored, and the box that was stored with it.
\<close>

theorem gserialized2_roundtrip:
  assumes "writable calc g n" "n < 2 ^ 30" "storable g"
  shows "\<exists>gs g'. gserialized2_from_lwgeom calc g = Inr gs \<and> lwgeom_from_gserialized2 calc' st gs = Inr g' \<and>
    lwgeom_content g' = lwgeom_content (lwgeom_set_srid (clamp_srid (lwgeom_get_srid g)) g) \<and>
    same_stored_flags (lwgeom_flags g') (lwgeom_flags (with_needed_box calc g)) \<and>
    (\<forall>b. bbox (lwhead_of (with_needed_box calc g)) = Some b \<longrightarrow>
       (\<exists>B. bbox (lwhead_of g') = Some B \<and> rounded_box B b))"
proof -
  obtain gs bs p where gs: "gserialized2_from_lwgeom calc g = Inr gs"
    and lay: "laid_out (with_needed_box calc g) (lwgeom_get_srid g) n gs p bs"
    using written_layout [OF assms(1,2)] by blast
  obtain f where f: "gserialized2_get_lwflags gs = Inr f"
    "same_stored_flags f (lwgeom_flags (with_needed_box calc g))"
    using laid_out_flags [OF lay] by blast
  from laid_out_reads_back [OF assms lay f, of calc' st] obtain g0 where
    r: "lwgeom_from_gserialized2 calc' st gs = bindE (gserialized2_read_gbox_p gs st)
      (\<lambda>(ok, b). Inr (map_lwhead (\<lambda>h. h\<lparr>bbox := box_for calc' g0 ok b\<rparr>) g0))"
    and g0: "lwgeom_flags g0 = f"
      "lwgeom_content g0 = lwgeom_content (lwgeom_set_srid (clamp_srid (lwgeom_get_srid g)) g)" by blast
  show ?thesis
  proof (cases "bbox (lwhead_of (with_needed_box calc g))")
    case None
    then have "gserialized2_read_gbox_p gs st = Inr (False, st\<lparr>gflags := f\<rparr>)"
      using lay f(1) by (simp add: gserialized2_read_gbox_p_def laid_out_def Let_def)
    then show ?thesis using gs r g0 f(2) None by (simp add: lwgeom_content_bbox)
  next
    case (Some b)
    from stored_box_read [OF lay this f(1), of st] obtain B' where
      "gserialized2_read_gbox_p gs st = Inr (True, B')" "rounded_box B' b" by blast
    then show ?thesis using gs r g0 f(2) Some by (simp add: lwgeom_content_bbox box_for_def)
  qed
qed

text \<open>
  C15. The stored box is safe to search with. It is read back in single precision, whatever
  the caller's box held before, and within the range of floats it contains the box of the
  geometry in every dimension that is stored.
\<close>

theorem gserialized2_stored_box_contains:
  assumes "writable calc g n" "n < 2 ^ 30" "bbox (lwhead_of (with_needed_box calc g)) = Some b"
    and "list_all in_float_range [xmin b, xmax b, ymin b, ymax b, zmin b, zmax b, mmin b, mmax b]"
  shows "\<exists>gs B. gserialized2_from_lwgeom calc g = Inr gs \<and> gserialized2_read_gbox_p gs st = Inr (True, B) \<and>
    gbox_contains_2d B b \<and>
    (hasz (lwgeom_flags g) \<or> geodetic (lwgeom_flags g) \<longrightarrow> dbl_le (zmin B) (zmin b) \<and> dbl_le (zmax b) (zmax B)) \<and>
    (hasm (lwgeom_flags g) \<and> \<not> geodetic (lwgeom_flags g) \<longrightarrow>
       dbl_le (mmin B) (mmin b) \<and> dbl_le (mmax b) (mmax B))"
proof -
  obtain gs bs p where gs: "gserialized2_from_lwgeom calc g = Inr gs"
    and lay: "laid_out (with_needed_box calc g) (lwgeom_get_srid g) n gs p bs"
    using written_layout [OF assms(1,2)] by blast
  obtain f where f: "gserialized2_get_lwflags gs = Inr f" using laid_out_flags [OF lay] by blast
  from stored_box_read [OF lay assms(3) f, of st] obtain B where
    B: "gserialized2_read_gbox_p gs st = Inr (True, B)" "rounded_box B b" by blast
  have "box_matches (lwgeom_flags (with_needed_box calc g)) b"
    using lay assms(3) by (simp add: laid_out_def)
  then have "hasz (lwgeom_flags g) = hasz (gflags b)" "hasm (lwgeom_flags g) = hasm (gflags b)"
    "geodetic (lwgeom_flags g) = geodetic (gflags b)"
    using needed_box_flags [of calc g] by (simp_all add: box_matches_def same_zm_def)
  moreover have lo: "dbl_le (round_down (c b)) (c b)" if "c \<in> {xmin, ymin, zmin, mmin}" for c
    using that assms(4) by (auto intro: round_props)
  have hi: "dbl_le (c b) (round_up (c b))" if "c \<in> {xmax, ymax, zmax, mmax}" for c
    using that assms(4) by (auto intro: round_props)
  have "\<not> dbl_lt y x" if "dbl_le x y" for x y using that by (auto simp: dbl_le_def dbl_lt_def)
  then have "gbox_contains_2d B b"
    using B(2) lo [of xmin] lo [of ymin] hi [of xmax] hi [of ymax]
    by (simp add: gbox_contains_2d_def rounded_box_def)
  ultimately show ?thesis
    using gs B lo [of zmin] lo [of mmin] hi [of zmax] hi [of mmax] by (auto simp: rounded_box_def)
qed

section \<open>Mixed dimensions\<close>

lemma first_error:
  assumes "\<And>x. x \<in> set xs \<Longrightarrow> (\<exists>y. P x \<and> f x = Inr y) \<or> (\<not> P x \<and> f x = Inl e)"
  shows "(\<exists>ys. list_all P xs \<and> mapE f xs = Inr ys) \<or> (\<not> list_all P xs \<and> mapE f xs = Inl e)"
  using assms
proof (induction xs)
  case (Cons x xs)
  then have "(\<exists>ys. list_all P xs \<and> mapE f xs = Inr ys) \<or> (\<not> list_all P xs \<and> mapE f xs = Inl e)" by simp
  with Cons.prems [of x] show ?case by auto
qed simp

abbreviation mixed_dimensions :: lwerr where
  "mixed_dimensions \<equiv> LwError ''Dimensions mismatch in lwcollection''"

lemma uniform_leaf:
  assumes "lwgeom_wf g" "gserialized2_from_any_size g = Inr n" "zm_uniform f g"
  shows "(\<exists>bs. zm_uniform f g \<and> gserialized2_from_lwgeom_any g = Inr bs) \<or>
    (\<not> zm_uniform f g \<and> gserialized2_from_lwgeom_any g = Inl mixed_dimensions)"
  using gserialized2_any_size [OF assms(1,3,2)] assms(3) by blast

lemma any_uniform:
  assumes "lwgeom_wf g" "gserialized2_from_any_size g = Inr n" "same_zm f (lwgeom_flags g)"
  shows "(\<exists>bs. zm_uniform f g \<and> gserialized2_from_lwgeom_any g = Inr bs) \<or>
    (\<not> zm_uniform f g \<and> gserialized2_from_lwgeom_any g = Inl mixed_dimensions)"
  using assms
proof (induction g arbitrary: n)
  case (LWCOLLECTION t h mg al gs)
  then have t: "lwtype_is_collection t" and f: "same_zm f (flags h)"
    and sizes: "\<And>g. g \<in> set gs \<Longrightarrow> \<exists>n. gserialized2_from_any_size g = Inr n"
    by (auto simp: bindE_eq_Inr mapE_eq_Inr list_all2_conv_all_nth in_set_conv_nth)
  let ?w = "\<lambda>g. bindE (require (FLAGS_GET_ZM (flags h) = FLAGS_GET_ZM (lwgeom_flags g))
              ''Dimensions mismatch in lwcollection'') (\<lambda>_. gserialized2_from_lwgeom_any g)"
  have "(\<exists>bs. zm_uniform f g \<and> ?w g = Inr bs) \<or> (\<not> zm_uniform f g \<and> ?w g = Inl mixed_dimensions)"
    if g: "g \<in> set gs" for g
  proof (cases "same_zm f (lwgeom_flags g)")
    case True
    have "lwgeom_wf g" using LWCOLLECTION.prems(1) g by (auto simp: list_all_iff)
    moreover obtain m where "gserialized2_from_any_size g = Inr m" using sizes [OF g] by blast
    moreover have "FLAGS_GET_ZM (flags h) = FLAGS_GET_ZM (lwgeom_flags g)"
      using True f by (simp add: FLAGS_GET_ZM_eq same_zm_def)
    ultimately show ?thesis using LWCOLLECTION.IH [OF g _ _ True] by auto
  next
    case False
    then have "\<not> zm_uniform f g" by (cases g) (auto simp: same_zm_def)
    moreover have "FLAGS_GET_ZM (flags h) \<noteq> FLAGS_GET_ZM (lwgeom_flags g)"
      using False f by (simp add: FLAGS_GET_ZM_eq same_zm_def)
    ultimately show ?thesis by (simp add: require_def)
  qed
  from first_error [of gs "zm_uniform f" ?w, OF this]
  show ?case using t f by (auto simp: same_zm_def)
next
  case LWPOINT
  from uniform_leaf [OF this(1,2), of f] this(3) [THEN same_zm_swap] show ?case
    by (simp only: zm_uniform.simps)
next
  case LWLINE
  from uniform_leaf [OF this(1,2), of f] this(3) [THEN same_zm_swap] show ?case
    by (simp only: zm_uniform.simps)
next
  case LWTRIANGLE
  from uniform_leaf [OF this(1,2), of f] this(3) [THEN same_zm_swap] show ?case
    by (simp only: zm_uniform.simps)
next
  case LWCIRCSTRING
  from uniform_leaf [OF this(1,2), of f] this(3) [THEN same_zm_swap] show ?case
    by (simp only: zm_uniform.simps)
next
  case LWPOLY
  from uniform_leaf [OF this(1,2), of f] this(3) [THEN same_zm_swap] show ?case
    by (simp only: zm_uniform.simps)
next
  case LWNURBSCURVE
  from uniform_leaf [OF this(1,2), of f] this(3) [THEN same_zm_swap] show ?case
    by (simp only: zm_uniform.simps)
qed

text \<open>
  C37. Take a geometry each of whose parts has point arrays of the dimensions in its own header, whose size can be computed and is below
  1 GiB, and whose box, when it has one, has the dimensions of the whole. Then the writer succeeds exactly when all
  parts have the dimensions of the whole, and otherwise it fails with the mixed dimensions error. (An array that differs from its own
  header is not covered: for a line the code compares Z only.)
\<close>

theorem gserialized2_mixed_dimensions:
  assumes "lwgeom_wf g" "gserialized2_from_lwgeom_size (with_needed_box calc g) = Inr n" "n < 2 ^ 30"
    and "\<forall>b. bbox (lwhead_of (with_needed_box calc g)) = Some b \<longrightarrow> box_matches (lwgeom_flags (with_needed_box calc g)) b"
  shows "if zm_uniform (lwgeom_flags g) g then \<exists>gs. gserialized2_from_lwgeom calc g = Inr gs
    else gserialized2_from_lwgeom calc g = Inl mixed_dimensions"
proof (cases "zm_uniform (lwgeom_flags g) g")
  case True
  then have "writable calc g n" using assms by (auto simp: writable_def split: option.split)
  from written_layout [OF this assms(3)] show ?thesis using True by auto
next
  case False
  obtain B where g1: "with_needed_box calc g =
      map_lwhead (\<lambda>h. h\<lparr>bbox := B, flags := flag_set (flags h) LWFLAG_BBOX (B \<noteq> None)\<rparr>) g"
    using with_needed_box_shape [of calc g] by blast
  obtain m where m: "gserialized2_from_any_size (with_needed_box calc g) = Inr m"
    using assms(2) by (auto simp: gserialized2_from_lwgeom_size_def bindE_eq_Inr Let_def)
  have "lwgeom_wf (with_needed_box calc g)" "\<not> zm_uniform (lwgeom_flags g) (with_needed_box calc g)"
    using assms(1) False same_shape_bbox(1,2) [where B = B and v = "B \<noteq> None" and g = g] by (simp_all add: g1)
  moreover have "same_zm (lwgeom_flags g) (lwgeom_flags (with_needed_box calc g))"
    by (simp add: same_zm_def needed_box_flags)
  ultimately have "gserialized2_from_lwgeom_any (with_needed_box calc g) = Inl mixed_dimensions"
    using any_uniform [OF _ m] by blast
  then show ?thesis using False assms(2) by (simp add: gserialized2_from_lwgeom_def Let_def)
qed

section \<open>Witnesses\<close>

text \<open>The point (1, 0) with a box, and a collection that mixes dimensions.\<close>

definition boxed_point :: lwgeom where
  "boxed_point = LWPOINT (empty_head 4326 False False\<lparr>bbox := Some gbox_init\<rparr>)
     (ptarray_construct_copy_data False False 1 [0x3FF0000000000000, 0])"

definition mixed_collection :: lwgeom where
  "mixed_collection = LWCOLLECTION COLLECTIONTYPE (empty_head 0 False False) 1 True
     [LWPOINT (empty_head 0 True False) (ptarray_construct_empty True False 1)]"

lemma boxed_point_writable: "writable calc boxed_point 48" "storable boxed_point"
  "bbox (lwhead_of (with_needed_box calc boxed_point)) = Some gbox_init"
proof -
  have wf: "lwgeom_wf boxed_point" "zm_uniform (lwgeom_flags boxed_point) boxed_point"
    by (simp_all add: boxed_point_def empty_head_def ptarray_construct_copy_data_def pa_wf_def
        same_zm_def lwflags_def flag_set_def FLAGS_NDIMS_def)
  moreover have "gserialized2_from_lwgeom_size (with_needed_box calc boxed_point) = Inr 48"
    by (simp add: boxed_point_def with_needed_box_def gserialized2_from_lwgeom_size_def empty_head_def
        ptarray_construct_copy_data_def lwflags_def flag_set_def lwflags_uses_extended_flags_def
        gbox_serialized_size_def FLAGS_NDIMS_def)
  moreover show b: "bbox (lwhead_of (with_needed_box calc boxed_point)) = Some gbox_init"
    by (simp add: boxed_point_def with_needed_box_def)
  moreover have "box_matches (lwgeom_flags (with_needed_box calc boxed_point)) gbox_init"
    unfolding box_matches_def same_zm_def needed_box_flags
    by (simp add: boxed_point_def empty_head_def lwflags_def gbox_init_def)
  ultimately show "writable calc boxed_point 48" by (simp add: writable_def)
  show "storable boxed_point" by (simp add: boxed_point_def)
qed

theorem gserialized2_from_lwgeom_exact_witness:
  "\<exists>gs. gserialized2_from_lwgeom no_calc boxed_point = Inr gs \<and> gserialized2_buffer_size gs = 48"
  using gserialized2_from_lwgeom_exact [OF boxed_point_writable(1), of no_calc] by auto

theorem gserialized2_srid_roundtrip_witness:
  "gserialized2_get_srid (gserialized2_set_srid 4326 sample_gs) = 4326"
  using gserialized2_srid_roundtrip [of 4326 sample_gs] by simp

theorem gserialized2_roundtrip_witness:
  "\<exists>gs g'. gserialized2_from_lwgeom no_calc boxed_point = Inr gs \<and>
     lwgeom_from_gserialized2 no_calc gbox_init gs = Inr g' \<and>
     lwgeom_content g' = lwgeom_content (lwgeom_set_srid 4326 boxed_point)"
proof -
  have "clamp_srid (lwgeom_get_srid boxed_point) = 4326"
    by (simp add: boxed_point_def lwgeom_get_srid_def empty_head_def clamp_srid_id)
  with gserialized2_roundtrip [OF boxed_point_writable(1) _ boxed_point_writable(2), of no_calc no_calc gbox_init]
  show ?thesis by auto
qed

theorem gserialized2_stored_box_contains_witness:
  "\<exists>gs B. gserialized2_from_lwgeom no_calc boxed_point = Inr gs \<and>
     gserialized2_read_gbox_p gs gbox_init = Inr (True, B) \<and> gbox_contains_2d B gbox_init"
proof -
  have "in_float_range 0" by (subst in_float_range_iff) simp_all
  with gserialized2_stored_box_contains [OF boxed_point_writable(1) _ boxed_point_writable(3), of no_calc gbox_init]
  show ?thesis by (auto simp: gbox_init_def)
qed

theorem gserialized2_mixed_dimensions_witness:
  "gserialized2_from_lwgeom no_calc mixed_collection = Inl mixed_dimensions"
proof -
  have w: "with_needed_box no_calc mixed_collection =
      map_lwhead (\<lambda>h. h\<lparr>flags := flag_set (flags h) LWFLAG_BBOX False\<rparr>) mixed_collection"
    by (simp add: with_needed_box_def mixed_collection_def ptarray_construct_empty_def empty_head_def lwtype_is_collection_def)
  have "lwgeom_wf mixed_collection" "\<not> zm_uniform (lwgeom_flags mixed_collection) mixed_collection"
    by (simp_all add: mixed_collection_def empty_head_def ptarray_construct_empty_def pa_wf_def lwtype_is_collection_def
        same_zm_def lwflags_def flag_set_def lwcollection_allows_subtype_def)
  moreover have "gserialized2_from_lwgeom_size (with_needed_box no_calc mixed_collection) = Inr 24"
    unfolding w by (simp add: mixed_collection_def gserialized2_from_lwgeom_size_def empty_head_def lwtype_is_collection_def
        ptarray_construct_empty_def lwflags_def flag_set_def lwflags_uses_extended_flags_def FLAGS_NDIMS_def)
  moreover have "bbox (lwhead_of (with_needed_box no_calc mixed_collection)) = None"
    unfolding w by (simp add: mixed_collection_def empty_head_def)
  ultimately show ?thesis using gserialized2_mixed_dimensions [of mixed_collection no_calc 24] by simp
qed

end
