(* ===== verification/GS2Box.thy ===== *)
theory GS2Box
  imports GS2Header
begin

text \<open>
  Replacing and removing the box of a stored geometry in place (gserialized2.c):
  \<open>gserialized2_set_gbox\<close> and \<open>gserialized2_drop_gbox\<close>, what they keep, and what they do
  to a buffer with extended flags.
\<close>

section \<open>Model\<close>

text \<open>The box written as floats, in the dimensions of the buffer.\<close>

definition box_floats :: "gserialized \<Rightarrow> gbox \<Rightarrow> float32 list" where
  "box_floats g b =
     [float_of_dbl (xmin b), float_of_dbl (xmax b), float_of_dbl (ymin b), float_of_dbl (ymax b)] @
     (if gserialized2_has_z g \<or> gserialized2_is_geodetic g
      then [float_of_dbl (zmin b), float_of_dbl (zmax b)] else []) @
     (if gserialized2_has_m g \<and> \<not> gserialized2_is_geodetic g
      then [float_of_dbl (mmin b), float_of_dbl (mmax b)] else [])"

text \<open>
  The result is None for boxes of other dimensions; otherwise the buffer, which is the one
  given when it has room for a box, and the box of the caller, which is rounded. \<open>junk\<close> is
  what freshly allocated memory holds.
\<close>

definition gserialized2_set_gbox ::
  "(nat \<Rightarrow> byte) \<Rightarrow> gserialized \<Rightarrow> gbox \<Rightarrow> lwerr + (gserialized \<times> gbox) option" where
  "gserialized2_set_gbox junk g b =
     (let g_ndims = G2FLAGS_NDIMS_BOX (gs_gflags g);
          box_ndims = FLAGS_NDIMS_BOX (gflags b);
          box_size = 2 * g_ndims * 4
      in if g_ndims \<noteq> box_ndims then Inr None
      else
        bindE
          (if has_bits (gs_gflags g) G2FLAG_BBOX then Inr g
           else
             let varsize_in = LWSIZE_GET (gs_size g);
                 varsize_out = varsize_in + box_size;
                 x = (if has_bits (gs_gflags g) G2FLAG_EXTENDED then 8 else 0)
             in if varsize_in < 8 + x then Inl MemFault
                else
                  bindE (mem_at (gs_data g) 0 x) (\<lambda>ext.
                  bindE (mem_at (gs_data g) x (varsize_in - (8 + x))) (\<lambda>body.
                  Inr (g\<lparr>gs_data := ext @ map junk [0..<box_size] @ body,
                         gs_gflags := g2flag_set (gs_gflags g) G2FLAG_BBOX True,
                         gs_size := LWSIZE_SET varsize_out\<rparr>))))
          (\<lambda>g_out.
        let b = gbox_float_round b in
        bindE (mem_write (gs_data g_out) 0 (concat (map (le_bytes 4) (box_floats g b)))) (\<lambda>d.
        Inr (Some (g_out\<lparr>gs_data := d\<rparr>, b)))))"

text \<open>A new buffer every time; what is copied has to fit into it. A size below zero wraps, and
  no memory can be had for it.\<close>

definition gserialized2_drop_gbox :: "gserialized \<Rightarrow> lwerr + gserialized" where
  "gserialized2_drop_gbox g =
     (let g_ndims = G2FLAGS_NDIMS_BOX (gs_gflags g);
          box_size = 2 * g_ndims * 4;
          g_size = LWSIZE_GET (gs_size g);
          g_out_size = g_size - box_size
      in if g_size < box_size \<or> g_out_size < 8 then Inl MemFault
      else if has_bits (gs_gflags g) G2FLAG_BBOX then
        (let x = (if has_bits (gs_gflags g) G2FLAG_EXTENDED then 8 else 0) in
         bindE (mem_at (gs_data g) 0 x) (\<lambda>ext.
         bindE (mem_at (gs_data g) (x + box_size) (g_out_size - 8)) (\<lambda>body.
         if 8 + x + (g_out_size - 8) > g_out_size then Inl MemFault
         else Inr (g\<lparr>gs_data := ext @ body, gs_gflags := g2flag_set (gs_gflags g) G2FLAG_BBOX False,
                     gs_size := LWSIZE_SET g_out_size\<rparr>))))
      else
        bindE (mem_at (gs_data g) 0 (g_out_size - 8)) (\<lambda>d. Inr (g\<lparr>gs_data := d\<rparr>)))"

section \<open>Setting the box\<close>

text \<open>A buffer without extended flags, of exactly its declared size.\<close>

definition plain_buffer :: "gserialized \<Rightarrow> bool" where
  "plain_buffer g \<longleftrightarrow> \<not> gserialized2_has_extended g \<and> gserialized2_buffer_size g = 8 + length (gs_data g) \<and>
     gserialized2_header_size g \<le> gserialized2_buffer_size g"

text \<open>A box of the dimensions of the buffer, with the rounding of all its dimensions.\<close>

definition box_suits :: "gserialized \<Rightarrow> gbox \<Rightarrow> bool" where
  "box_suits g b \<longleftrightarrow> hasz (gflags b) = gserialized2_has_z g \<and> hasm (gflags b) = gserialized2_has_m g \<and>
     geodetic (gflags b) = gserialized2_is_geodetic g \<and> (geodetic (gflags b) \<longrightarrow> hasz (gflags b)) \<and>
     list_all in_float_range [xmin b, xmax b, ymin b, ymax b, zmin b, zmax b, mmin b, mmax b]"

lemmas gflag_defs = gserialized2_has_z_def gserialized2_has_m_def gserialized2_is_geodetic_def
  gserialized2_has_bbox_def gserialized2_has_extended_def

lemma set_bbox_bits:
  "has_bits (g2flag_set f G2FLAG_BBOX v) G2FLAG_BBOX = v"
  "has_bits (g2flag_set f G2FLAG_BBOX v) G2FLAG_Z = has_bits f G2FLAG_Z"
  "has_bits (g2flag_set f G2FLAG_BBOX v) G2FLAG_M = has_bits f G2FLAG_M"
  "has_bits (g2flag_set f G2FLAG_BBOX v) G2FLAG_GEODETIC = has_bits f G2FLAG_GEODETIC"
  "has_bits (g2flag_set f G2FLAG_BBOX v) G2FLAG_EXTENDED = has_bits f G2FLAG_EXTENDED"
  by (simp_all add: g2flag_set_bits)

lemma box_size_ndims: "gserialized2_box_size g = 8 * G2FLAGS_NDIMS_BOX (gs_gflags g)"
  by (simp add: gserialized2_box_size_def G2FLAGS_NDIMS_BOX_def)

lemma float_of_rounded:
  assumes "in_float_range d"
  shows "float_of_dbl (round_down d) = next_float_down d" "float_of_dbl (round_up d) = next_float_up d"
  using assms next_float_down_floor [of d] next_float_up_ceiling [of d]
  by (auto simp: in_float_range_def intro: float_of_dbl_of_float)

text \<open>The floats written are those that \<open>gserialized2_from_lwgeom\<close> would write.\<close>

lemma box_floats_written:
  assumes "box_suits g b"
  shows "concat (map (le_bytes 4) (box_floats g (gbox_float_round b))) = gserialized2_from_gbox b"
  using assms
  by (auto simp: box_suits_def box_floats_def gbox_float_round_def gserialized2_from_gbox_def Let_def
      float_of_rounded)

lemma box_suits_size:
  assumes "box_suits g b"
  shows "length (gserialized2_from_gbox b) = gserialized2_box_size g"
    "G2FLAGS_NDIMS_BOX (gs_gflags g) = FLAGS_NDIMS_BOX (gflags b)"
  using assms
  by (auto simp: box_suits_def gserialized2_from_gbox_def gserialized2_box_size_def G2FLAGS_NDIMS_def FLAGS_NDIMS_def
      G2FLAGS_NDIMS_BOX_def FLAGS_NDIMS_BOX_def gflag_defs)

text \<open>What becomes of a plain buffer.\<close>

definition with_box :: "gserialized \<Rightarrow> gbox \<Rightarrow> gserialized" where
  "with_box g b = g\<lparr>gs_data := gserialized2_from_gbox b @ drop (gserialized2_get_geometry_p g) (gs_data g),
     gs_gflags := (if gserialized2_has_bbox g then gs_gflags g else g2flag_set (gs_gflags g) G2FLAG_BBOX True),
     gs_size := (if gserialized2_has_bbox g then gs_size g
                 else LWSIZE_SET (gserialized2_buffer_size g + gserialized2_box_size g))\<rparr>"

lemma set_gbox_plain:
  assumes "plain_buffer g" "box_suits g b"
  shows "gserialized2_set_gbox junk g b = Inr (Some (with_box g b, gbox_float_round b))"
proof -
  note nd = box_suits_size(2) [OF assms(2)]
  have size: "LWSIZE_GET (gs_size g) = 8 + length (gs_data g)" and ext: "\<not> has_bits (gs_gflags g) G2FLAG_EXTENDED"
    and ext': "\<not> gserialized2_has_extended g"
    and hs: "gserialized2_header_size g \<le> 8 + length (gs_data g)"
    using assms(1) by (simp_all add: plain_buffer_def gserialized2_buffer_size_def gserialized2_has_extended_def)
  note len = box_suits_size(1) [OF assms(2)]
  note w = box_floats_written [OF assms(2)]
  show ?thesis
  proof (cases "gserialized2_has_bbox g")
    case True
    then have p: "gserialized2_get_geometry_p g = gserialized2_box_size g"
      and room: "gserialized2_box_size g \<le> length (gs_data g)"
      using hs ext' by (simp_all add: gserialized2_get_geometry_p_def gserialized2_header_size_def)
    have "with_box g b = g\<lparr>gs_data := gserialized2_from_gbox b @ drop (gserialized2_box_size g) (gs_data g)\<rparr>"
      using True by (simp add: with_box_def p)
    then show ?thesis
      using True room
      by (simp add: gserialized2_set_gbox_def nd w mem_write_def len gserialized2_has_bbox_def Let_def)
  next
    case False
    then have p: "gserialized2_get_geometry_p g = 0" using ext' by (simp add: gserialized2_get_geometry_p_def)
    have "mem_at (gs_data g) 0 (length (gs_data g)) = Inr (gs_data g)" by (simp add: mem_at_def)
    moreover have "2 * FLAGS_NDIMS_BOX (gflags b) * 4 = gserialized2_box_size g"
      using nd by (simp add: box_size_ndims)
    moreover have "mem_at (gs_data g) 0 0 = Inr []" by (simp add: mem_at_def)
    ultimately show ?thesis
      using False ext size
      by (simp add: gserialized2_set_gbox_def nd w mem_write_def len gserialized2_has_bbox_def Let_def with_box_def p
          gserialized2_buffer_size_def)
  qed
qed

lemma with_box_header:
  assumes "plain_buffer g" "box_suits g b" "gserialized2_buffer_size g + gserialized2_box_size g < 2 ^ 30"
  shows "gserialized2_has_bbox (with_box g b)" "\<not> gserialized2_has_extended (with_box g b)"
    "gserialized2_box_size (with_box g b) = gserialized2_box_size g"
    "gserialized2_buffer_size (with_box g b) = 8 + length (gs_data (with_box g b))"
    "gserialized2_get_geometry_p (with_box g b) = gserialized2_box_size g"
    "gserialized2_has_z (with_box g b) = gserialized2_has_z g" "gserialized2_has_m (with_box g b) = gserialized2_has_m g"
    "gserialized2_is_geodetic (with_box g b) = gserialized2_is_geodetic g"
proof -
  show flags: "gserialized2_has_bbox (with_box g b)" "\<not> gserialized2_has_extended (with_box g b)"
    "gserialized2_has_z (with_box g b) = gserialized2_has_z g" "gserialized2_has_m (with_box g b) = gserialized2_has_m g"
    "gserialized2_is_geodetic (with_box g b) = gserialized2_is_geodetic g"
    using assms(1) by (auto simp: with_box_def gflag_defs set_bbox_bits plain_buffer_def)
  then show bs: "gserialized2_box_size (with_box g b) = gserialized2_box_size g"
    by (simp add: gserialized2_box_size_def G2FLAGS_NDIMS_def gflag_defs)
  show "gserialized2_get_geometry_p (with_box g b) = gserialized2_box_size g"
    using flags bs by (simp add: gserialized2_get_geometry_p_def)
  note len = box_suits_size(1) [OF assms(2)]
  have g: "gserialized2_buffer_size g = 8 + length (gs_data g)" "\<not> gserialized2_has_extended g"
    "gserialized2_header_size g \<le> 8 + length (gs_data g)"
    using assms(1) by (simp_all add: plain_buffer_def)
  show "gserialized2_buffer_size (with_box g b) = 8 + length (gs_data (with_box g b))"
  proof (cases "gserialized2_has_bbox g")
    case True
    then have "gserialized2_box_size g \<le> length (gs_data g)" using g(2,3) by (simp add: gserialized2_header_size_def)
    moreover have "gserialized2_buffer_size (with_box g b) = gserialized2_buffer_size g"
      using True by (simp add: with_box_def gserialized2_buffer_size_def)
    ultimately show ?thesis using True g(1,2) by (simp add: with_box_def len gserialized2_get_geometry_p_def)
  next
    case False
    then have "gserialized2_buffer_size (with_box g b) = gserialized2_buffer_size g + gserialized2_box_size g"
      using buffer_size_set [OF assms(3)] by (simp add: with_box_def gserialized2_buffer_size_def)
    then show ?thesis using False g(1,2) by (simp add: with_box_def len gserialized2_get_geometry_p_def)
  qed
qed

text \<open>
  C35. Setting the box of a stored geometry without extended flags (with them the box overwrites the flags, see
  \<open>gserialized2_box_extended_flags\<close>), below 1 GiB, to a box of its dimensions: the buffer keeps its SRID
  and its geometry, whether the box is new or replaced, its declared size is exact for what it then holds, and the
  box read back is the one given, rounded outwards.
\<close>

theorem gserialized2_set_gbox_correct:
  assumes "plain_buffer g" "box_suits g b" "gserialized2_buffer_size g + gserialized2_box_size g < 2 ^ 30"
  shows "\<exists>g'. gserialized2_set_gbox junk g b = Inr (Some (g', gbox_float_round b)) \<and>
    plain_buffer g' \<and> gserialized2_get_srid g' = gserialized2_get_srid g \<and>
    drop (gserialized2_get_geometry_p g') (gs_data g') = drop (gserialized2_get_geometry_p g) (gs_data g) \<and>
    (\<exists>B. gserialized2_read_gbox_p g' st = Inr (True, B) \<and> rounded_box B b)"
proof (rule exI [of _ "with_box g b"], intro conjI)
  note h = with_box_header [OF assms] and len = box_suits_size(1) [OF assms(2)]
  show "gserialized2_set_gbox junk g b = Inr (Some (with_box g b, gbox_float_round b))"
    by (rule set_gbox_plain [OF assms(1,2)])
  have "gserialized2_box_size g \<le> length (gs_data (with_box g b))" by (simp add: with_box_def len)
  then show "plain_buffer (with_box g b)"
    using h(1-4) by (simp add: plain_buffer_def gserialized2_header_size_def)
  show "gserialized2_get_srid (with_box g b) = gserialized2_get_srid g"
    by (simp add: gserialized2_get_srid_def with_box_def)
  show "drop (gserialized2_get_geometry_p (with_box g b)) (gs_data (with_box g b)) =
      drop (gserialized2_get_geometry_p g) (gs_data g)"
    unfolding h(5) by (simp add: with_box_def len)
  have p: "gserialized2_get_float_box_p (with_box g b) = Some 0"
    using h(1-4) len by (simp add: gserialized2_get_float_box_p_def) (simp add: with_box_def)
  have st: "stored (gs_data (with_box g b)) 0 (gserialized2_from_gbox b)"
    by (simp add: with_box_def stored_def)
  have e: "\<not> has_bits (gs_gflags (with_box g b)) G2FLAG_EXTENDED"
    using h(2) by (simp add: gserialized2_has_extended_def)
  then obtain f where "gserialized2_get_lwflags (with_box g b) = Inr f"
    by (simp add: gserialized2_get_lwflags_def Let_def)
  from box_read_at [OF h(1) p st this] h(6-8) assms(2)
  obtain B where "gserialized2_read_gbox_p (with_box g b) st = Inr (True, B) \<and> rounded_box B b"
    by (auto simp: box_suits_def)
  then show "\<exists>B. gserialized2_read_gbox_p (with_box g b) st = Inr (True, B) \<and> rounded_box B b" by blast
qed

section \<open>Dropping the box\<close>

lemma clear_after_set:
  "\<not> has_bits f G2FLAG_BBOX \<Longrightarrow> g2flag_set (g2flag_set f G2FLAG_BBOX True) G2FLAG_BBOX False = f"
  for f :: byte
proof -
  assume "\<not> has_bits f G2FLAG_BBOX"
  then have "\<not> bit f 2" using and_exp_eq_0_iff_not_bit [of f 2] by (simp add: has_bits_def)
  moreover have "bit (4 :: byte) n \<longleftrightarrow> n = 2" if "n < 8" for n
    using that bit_exp_iff [where 'a = "8 word", of 2 n] by (simp add: bit_simps)
  ultimately show ?thesis
    unfolding g2flag_set_def by (intro bit_word_eqI) (auto simp: bit_simps)
qed

text \<open>
  C36. Dropping the box undoes setting it, for a stored geometry without extended flags (with them dropping reads past the end, see
  \<open>gserialized2_box_extended_flags\<close>) and below 1 GiB: the buffer that had no box is returned, byte for
  byte of its geometry, with its flags, its SRID and its size.
\<close>

theorem gserialized2_drop_gbox_undoes_set:
  assumes "plain_buffer g" "box_suits g b" "gserialized2_buffer_size g + gserialized2_box_size g < 2 ^ 30"
    and "\<not> gserialized2_has_bbox g"
  shows "\<exists>g' g''. gserialized2_set_gbox junk g b = Inr (Some (g', gbox_float_round b)) \<and>
    gserialized2_drop_gbox g' = Inr g'' \<and> gs_data g'' = gs_data g \<and> gs_srid g'' = gs_srid g \<and>
    gs_gflags g'' = gs_gflags g \<and> gserialized2_buffer_size g'' = gserialized2_buffer_size g"
proof -
  note h = with_box_header [OF assms(1-3)] and len = box_suits_size(1) [OF assms(2)]
  have g: "gserialized2_buffer_size g = 8 + length (gs_data g)" "\<not> gserialized2_has_extended g"
    using assms(1) by (simp_all add: plain_buffer_def)
  then have p: "gserialized2_get_geometry_p g = 0" using assms(4) by (simp add: gserialized2_get_geometry_p_def)
  have d: "gs_data (with_box g b) = gserialized2_from_gbox b @ gs_data g" by (simp add: with_box_def p)
  have size: "LWSIZE_GET (gs_size (with_box g b)) = 8 + length (gs_data g) + gserialized2_box_size g"
    using h(4) by (simp add: d len gserialized2_buffer_size_def)
  have box: "8 * G2FLAGS_NDIMS_BOX (gs_gflags (with_box g b)) = gserialized2_box_size g"
    using h(3) by (simp add: box_size_ndims)
  have x: "has_bits (gs_gflags (with_box g b)) G2FLAG_BBOX" "\<not> has_bits (gs_gflags (with_box g b)) G2FLAG_EXTENDED"
    using h(1,2) by (simp_all add: gflag_defs)
  define g'' where "g'' = with_box g b\<lparr>gs_data := gs_data g, gs_gflags := gs_gflags g,
      gs_size := LWSIZE_SET (8 + length (gs_data g))\<rparr>"
  have "gs_gflags (with_box g b) = g2flag_set (gs_gflags g) G2FLAG_BBOX True"
    using assms(4) by (simp add: with_box_def)
  then have clear: "g2flag_set (gs_gflags (with_box g b)) G2FLAG_BBOX False = gs_gflags g"
    using clear_after_set assms(4) by (simp add: gserialized2_has_bbox_def)
  have "gserialized2_drop_gbox (with_box g b) = Inr g''"
    using x by (simp add: gserialized2_drop_gbox_def box size Let_def mem_at_def d len clear g''_def)
  moreover have "gserialized2_buffer_size g'' = gserialized2_buffer_size g"
    using assms(3) g(1) buffer_size_set [of "8 + length (gs_data g)"] by (simp add: g''_def gserialized2_buffer_size_def)
  moreover have "gs_srid g'' = gs_srid g" by (simp add: g''_def with_box_def)
  ultimately show ?thesis using set_gbox_plain [OF assms(1,2)] by (auto simp: g''_def)
qed

section \<open>Extended flags\<close>

text \<open>
  With extended flags both operations go wrong. Setting a box writes it over the
  extended flags, whose word is then made of the bounds of x, eight bytes before the place
  where it is read; dropping one copies eight bytes more than there are.
\<close>

theorem gserialized2_box_extended_flags:
  assumes "gserialized2_has_extended g" "gserialized2_buffer_size g = 8 + length (gs_data g)"
    and "gserialized2_header_size g \<le> gserialized2_buffer_size g"
  shows "(gserialized2_has_bbox g \<longrightarrow> gserialized2_drop_gbox g = Inl MemFault) \<and>
    (box_suits g b \<longrightarrow> (\<exists>g'. gserialized2_set_gbox junk g b = Inr (Some (g', gbox_float_round b)) \<and>
       take 8 (gs_data g') = le_bytes 4 (next_float_down (xmin b)) @ le_bytes 4 (next_float_up (xmax b))))"
proof (intro conjI impI)
  have x: "has_bits (gs_gflags g) G2FLAG_EXTENDED" and size: "LWSIZE_GET (gs_size g) = 8 + length (gs_data g)"
    using assms(1,2) by (simp_all add: gserialized2_has_extended_def gserialized2_buffer_size_def)
  have box: "8 * G2FLAGS_NDIMS_BOX (gs_gflags g) = gserialized2_box_size g" by (simp add: box_size_ndims)
  show "gserialized2_drop_gbox g = Inl MemFault" if b: "gserialized2_has_bbox g"
  proof -
    have "8 + gserialized2_box_size g \<le> length (gs_data g)"
      using assms b by (simp add: gserialized2_header_size_def)
    then show ?thesis
      using b x size box by (simp add: gserialized2_drop_gbox_def Let_def mem_at_def gserialized2_has_bbox_def)
  qed
  show "\<exists>g'. gserialized2_set_gbox junk g b = Inr (Some (g', gbox_float_round b)) \<and>
       take 8 (gs_data g') = le_bytes 4 (next_float_down (xmin b)) @ le_bytes 4 (next_float_up (xmax b))"
    if b: "box_suits g b"
  proof -
    note nd = box_suits_size(2) [OF b] and len = box_suits_size(1) [OF b] and w = box_floats_written [OF b]
    have first: "take 8 (gserialized2_from_gbox b) = le_bytes 4 (next_float_down (xmin b)) @ le_bytes 4 (next_float_up (xmax b))"
      by (simp add: gserialized2_from_gbox_def)
    have eight: "8 \<le> gserialized2_box_size g" by (simp add: gserialized2_box_size_def G2FLAGS_NDIMS_def)
    have "8 \<le> length (gs_data g)" using assms by (auto simp: gserialized2_header_size_def split: if_splits)
    moreover have "gserialized2_box_size g \<le> length (gs_data g)" if "gserialized2_has_bbox g"
      using assms that by (auto simp: gserialized2_header_size_def split: if_splits)
    ultimately show ?thesis
      using x size box nd eight
      by (auto simp: gserialized2_set_gbox_def Let_def mem_at_def mem_write_def w len first gserialized2_has_bbox_def)
  qed
qed

section \<open>Witnesses\<close>

text \<open>The sample point with extended flags, and with a box as well.\<close>

definition extended_gs :: gserialized where
  "extended_gs = \<lparr>gs_size = 160, gs_srid = (0, 0, 0), gs_gflags = 0x50,
     gs_data = [1, 0, 0, 0, 0, 0, 0, 0] @ gs_data sample_gs\<rparr>"

definition extended_boxed_gs :: gserialized where
  "extended_boxed_gs = \<lparr>gs_size = 224, gs_srid = (0, 0, 0), gs_gflags = 0x54,
     gs_data = [1, 0, 0, 0, 0, 0, 0, 0] @ replicate 16 0 @ gs_data sample_gs\<rparr>"

lemma zero_in_range: "in_float_range 0"
  by (subst in_float_range_iff) simp_all

lemma sample_plain: "plain_buffer sample_gs" "box_suits sample_gs gbox_init" "\<not> gserialized2_has_bbox sample_gs"
  "gserialized2_buffer_size sample_gs + gserialized2_box_size sample_gs < 2 ^ 30"
  using zero_in_range
  by (simp_all add: plain_buffer_def box_suits_def gserialized2_has_z_def gserialized2_has_m_def gserialized2_is_geodetic_def gserialized2_box_size_def
      header_defs sample_gs_def gbox_init_def G2FLAGS_NDIMS_def)

theorem gserialized2_set_gbox_correct_witness:
  "\<exists>g' B. gserialized2_set_gbox (\<lambda>_. 0) sample_gs gbox_init = Inr (Some (g', gbox_float_round gbox_init)) \<and>
     gserialized2_read_gbox_p g' gbox_init = Inr (True, B) \<and> rounded_box B gbox_init"
  using gserialized2_set_gbox_correct [OF sample_plain(1,2,4), of "\<lambda>_. 0" gbox_init] by blast

theorem gserialized2_drop_gbox_undoes_set_witness:
  "\<exists>g' g''. gserialized2_set_gbox (\<lambda>_. 0) sample_gs gbox_init = Inr (Some (g', gbox_float_round gbox_init)) \<and>
     gserialized2_drop_gbox g' = Inr g'' \<and> gs_data g'' = gs_data sample_gs"
  using gserialized2_drop_gbox_undoes_set [OF sample_plain(1,2,4,3), of "\<lambda>_. 0"] by blast

theorem gserialized2_box_extended_flags_witness:
  "gserialized2_drop_gbox extended_boxed_gs = Inl MemFault \<and>
   (\<exists>g'. gserialized2_set_gbox (\<lambda>_. 0) extended_gs gbox_init = Inr (Some (g', gbox_float_round gbox_init)) \<and>
      take 8 (gs_data g') = le_bytes 4 (next_float_down 0) @ le_bytes 4 (next_float_up 0))"
proof -
  have e: "gserialized2_has_extended extended_gs" "gserialized2_has_extended extended_boxed_gs"
    "gserialized2_has_bbox extended_boxed_gs"
    "gserialized2_buffer_size extended_gs = 8 + length (gs_data extended_gs)"
    "gserialized2_buffer_size extended_boxed_gs = 8 + length (gs_data extended_boxed_gs)"
    "gserialized2_header_size extended_gs \<le> gserialized2_buffer_size extended_gs"
    "gserialized2_header_size extended_boxed_gs \<le> gserialized2_buffer_size extended_boxed_gs"
    "box_suits extended_gs gbox_init"
    using zero_in_range
    by (simp_all add: box_suits_def gserialized2_has_z_def gserialized2_has_m_def gserialized2_is_geodetic_def gserialized2_box_size_def
      header_defs extended_gs_def extended_boxed_gs_def sample_gs_def
        gbox_init_def G2FLAGS_NDIMS_def)
  then show ?thesis
    using gserialized2_box_extended_flags [OF e(2,5,7), of gbox_init "\<lambda>_. 0"]
      gserialized2_box_extended_flags [OF e(1,4,6), of gbox_init "\<lambda>_. 0"] by (simp add: gbox_init_def)
qed

end
