(* ===== verification/Float64.thy ===== *)
theory Float64
  imports Float32
begin

text \<open>
  Double precision arithmetic: the sum, difference, product and quotient of two doubles and
  the square root, computed exactly on the values and rounded to nearest, ties to even, as
  the C operators are on IEEE 754 hardware. A NaN that arises is the default one.
\<close>

section \<open>Rounding\<close>

fun bit_length :: "nat \<Rightarrow> nat" where
  "bit_length n = (if n = 0 then 0 else Suc (bit_length (n div 2)))"

declare bit_length.simps [simp del]

text \<open>
  The magnitude of the double nearest to \<open>p / q\<close>, counted in units of the least positive
  double. A quotient below \<open>2 ^ 53\<close> is its own magnitude, as the exponent fields 0 and 1 have
  the same unit; of a larger one the significand keeps 53 bits. A significand that rounds
  up to \<open>2 ^ 53\<close> carries into the exponent field, and the last exponent into infinity.
\<close>

definition mag_round :: "nat \<Rightarrow> nat \<Rightarrow> nat" where
  "mag_round p q =
     (let s = bit_length (p div q) - 53
      in min dbl_inf_mag (s * 2 ^ 52 + round_quot p (q * 2 ^ s)))"

text \<open>The value of a finite double in those units.\<close>

definition dbl_val :: "double \<Rightarrow> int" where
  "dbl_val d = (if dbl_neg d then - int (mag_val 52 (dbl_mag d)) else int (mag_val 52 (dbl_mag d)))"

definition dbl_isinf :: "double \<Rightarrow> bool" where
  "dbl_isinf d \<longleftrightarrow> dbl_mag d = dbl_inf_mag"

section \<open>The operators\<close>

definition dbl_minus :: "double \<Rightarrow> double" where
  "dbl_minus d = dbl_pack (\<not> dbl_neg d) (dbl_mag d)"

definition dbl_abs :: "double \<Rightarrow> double" where
  "dbl_abs d = dbl_pack False (dbl_mag d)"

definition dbl_add :: "double \<Rightarrow> double \<Rightarrow> double" where
  "dbl_add a b =
     (if dbl_isnan a \<or> dbl_isnan b then dbl_nan
      else if dbl_isinf a then (if dbl_isinf b \<and> dbl_neg a \<noteq> dbl_neg b then dbl_nan else a)
      else if dbl_isinf b then b
      else let v = dbl_val a + dbl_val b
           in if v = 0 then dbl_pack (dbl_neg a \<and> dbl_neg b) 0
              else dbl_pack (v < 0) (mag_round (nat \<bar>v\<bar>) 1))"

definition dbl_sub :: "double \<Rightarrow> double \<Rightarrow> double" where
  "dbl_sub a b = dbl_add a (dbl_minus b)"

definition dbl_mul :: "double \<Rightarrow> double \<Rightarrow> double" where
  "dbl_mul a b =
     (let neg = (dbl_neg a \<noteq> dbl_neg b); p = mag_val 52 (dbl_mag a) * mag_val 52 (dbl_mag b)
      in if dbl_isnan a \<or> dbl_isnan b then dbl_nan
         else if dbl_isinf a \<or> dbl_isinf b then
           (if dbl_mag a = 0 \<or> dbl_mag b = 0 then dbl_nan else dbl_pack neg dbl_inf_mag)
         else dbl_pack neg (mag_round p (2 ^ 1074)))"

definition dbl_div :: "double \<Rightarrow> double \<Rightarrow> double" where
  "dbl_div a b =
     (let neg = (dbl_neg a \<noteq> dbl_neg b)
      in if dbl_isnan a \<or> dbl_isnan b then dbl_nan
         else if dbl_isinf a then (if dbl_isinf b then dbl_nan else dbl_pack neg dbl_inf_mag)
         else if dbl_isinf b then dbl_pack neg 0
         else if dbl_mag b = 0 then (if dbl_mag a = 0 then dbl_nan else dbl_pack neg dbl_inf_mag)
         else dbl_pack neg (mag_round (mag_val 52 (dbl_mag a) * 2 ^ 1074) (mag_val 52 (dbl_mag b))))"

text \<open>The double that a count converts to.\<close>

definition dbl_of_nat :: "nat \<Rightarrow> double" where
  "dbl_of_nat n = dbl_pack False (mag_round (n * 2 ^ 1074) 1)"

lemma bit_length_numeral [simp]:
  "bit_length 0 = 0" "bit_length (Suc 0) = 1" "bit_length (numeral (Num.Bit0 n)) = Suc (bit_length (numeral n))"
  "bit_length (numeral (Num.Bit1 n)) = Suc (bit_length (numeral n))"
proof -
  show "bit_length 0 = 0" by (simp add: bit_length.simps)
  show "bit_length (Suc 0) = 1" by (subst bit_length.simps) (simp add: bit_length.simps)
  show "bit_length (numeral (Num.Bit0 n)) = Suc (bit_length (numeral n))"
    by (subst bit_length.simps) simp
  show "bit_length (numeral (Num.Bit1 n)) = Suc (bit_length (numeral n))"
    by (subst bit_length.simps) simp
qed

lemmas float64_eval = dbl_isnan_def dbl_isinf_def dbl_mag_def dbl_neg_def dbl_val_def mag_val_def mag_round_def
  round_quot_def dbl_pack_def Let_def unsigned_take_bit_eq take_bit_eq_mod

end
