(* ===== verification/GSCompare.thy ===== *)
theory GSCompare
  imports GS2Peek Float64
begin

text \<open>
  The order of stored geometries (gserialized.c, with the keys of gbox.c and lwinline.h),
  which sorts them, groups them and is the B-tree operator class: by a key on a Hilbert
  curve first, by the bytes of the geometries next.
\<close>

section \<open>The Hilbert key\<close>

definition uint64_interleave_2 :: "u64 \<Rightarrow> u64 \<Rightarrow> u64" where
  "uint64_interleave_2 x y =
     (let x = (x OR push_bit 16 x) AND 0x0000FFFF0000FFFF;
          x = (x OR push_bit 8 x) AND 0x00FF00FF00FF00FF;
          x = (x OR push_bit 4 x) AND 0x0F0F0F0F0F0F0F0F;
          x = (x OR push_bit 2 x) AND 0x3333333333333333;
          x = (x OR push_bit 1 x) AND 0x5555555555555555;
          y = (y OR push_bit 16 y) AND 0x0000FFFF0000FFFF;
          y = (y OR push_bit 8 y) AND 0x00FF00FF00FF00FF;
          y = (y OR push_bit 4 y) AND 0x0F0F0F0F0F0F0F0F;
          y = (y OR push_bit 2 y) AND 0x3333333333333333;
          y = (y OR push_bit 1 y) AND 0x5555555555555555
      in x OR push_bit 1 y)"

text \<open>One round of the prefix scan with a shift of \<open>k\<close>, on \<open>(A, B, C, D)\<close>.\<close>

definition hilbert_scan :: "nat \<Rightarrow> u64 \<times> u64 \<times> u64 \<times> u64 \<Rightarrow> u64 \<times> u64 \<times> u64 \<times> u64" where
  "hilbert_scan k s =
     (case s of (a, b, c, d) \<Rightarrow>
       ((a AND drop_bit k a) XOR (b AND drop_bit k b),
        (a AND drop_bit k b) XOR (b AND drop_bit k (a XOR b)),
        c XOR ((a AND drop_bit k c) XOR (b AND drop_bit k d)),
        d XOR ((b AND drop_bit k c) XOR ((a XOR b) AND drop_bit k d))))"

text \<open>The last round computes \<open>C\<close> and \<open>D\<close> only; what it would make of \<open>A\<close> and \<open>B\<close> is not used.\<close>

definition uint32_hilbert :: "u32 \<Rightarrow> u32 \<Rightarrow> u64" where
  "uint32_hilbert px py =
     (let x = ucast px; y = ucast py;
          a = x XOR y;
          b = 0xFFFFFFFF XOR a;
          c = 0xFFFFFFFF XOR (x OR y);
          d = x AND (y XOR 0xFFFFFFFF);
          s = (a OR drop_bit 1 b, drop_bit 1 a XOR a,
               (drop_bit 1 c XOR (b AND drop_bit 1 d)) XOR c,
               ((a AND drop_bit 1 c) XOR drop_bit 1 d) XOR d)
      in case hilbert_scan 16 (hilbert_scan 8 (hilbert_scan 4 (hilbert_scan 2 s))) of (_, _, C, D) \<Rightarrow>
        let a = C XOR drop_bit 1 C;
            b = D XOR drop_bit 1 D;
            i0 = x XOR y;
            i1 = b OR (0xFFFFFFFF XOR (i0 OR a))
        in uint64_interleave_2 i0 i1)"

text \<open>
  The centre of a box in floats. Around a sphere it is the longitude and latitude of the
  normalised centre, which lwgeodetic.c computes with the functions of libm; they are the
  parameter \<open>centre\<close>.
\<close>

definition dbl_const_1_5 :: double where "dbl_const_1_5 = 0x3FF8000000000000"

definition shifted :: "double \<Rightarrow> double \<Rightarrow> float32" where
  "shifted d k = float_of_dbl (dbl_add dbl_const_1_5 (dbl_div d k))"

definition gbox_get_sortable_hash :: "(gbox \<Rightarrow> double \<times> double) \<Rightarrow> gbox \<Rightarrow> int \<Rightarrow> u64" where
  "gbox_get_sortable_hash centre g s =
     (if geodetic (gflags g) then
        (case centre g of (lon, lat) \<Rightarrow>
          uint32_hilbert (shifted lat 0x4070000000000000) (shifted lon 0x4080000000000000))
      else
        let x = float_of_dbl (dbl_div (dbl_add (xmax g) (xmin g)) 0x4000000000000000);
            y = float_of_dbl (dbl_div (dbl_add (ymax g) (ymin g)) 0x4000000000000000);
            (x, y) =
              (if s = 3857 \<or> s = 3395 then
                 (shifted (dbl_of_float x) 0x4190000000000000, shifted (dbl_of_float y) 0x4190000000000000)
               else if s = 4326 then
                 (shifted (dbl_of_float x) 0x4080000000000000, shifted (dbl_of_float y) 0x4070000000000000)
               else (x, y))
        in uint32_hilbert y x)"

section \<open>The comparison\<close>

text \<open>Version 1 of the format has no extended flags; the bits of the other flags and the
  SRID are the same in both.\<close>

definition gserialized_get_version :: "gserialized \<Rightarrow> bool" where
  "gserialized_get_version g = has_bits (gs_gflags g) G2FLAG_VER_0"

definition gserialized_header_size :: "gserialized \<Rightarrow> nat" where
  "gserialized_header_size g =
     (let sz = 8;
          sz = (if gserialized_get_version g \<and> has_bits (gs_gflags g) G2FLAG_EXTENDED then sz + 8 else sz)
      in if has_bits (gs_gflags g) G2FLAG_BBOX then
           (if has_bits (gs_gflags g) G2FLAG_GEODETIC then sz + 6 * 4
            else sz + (4 * 4 + (if has_bits (gs_gflags g) G2FLAG_Z then 2 * 4 else 0) +
                       (if has_bits (gs_gflags g) G2FLAG_M then 2 * 4 else 0)))
         else sz)"

definition gserialized_cmp_srid :: "gserialized \<Rightarrow> gserialized \<Rightarrow> bool" where
  "gserialized_cmp_srid g1 g2 \<longleftrightarrow> gs_srid g1 \<noteq> gs_srid g2"

fun memcmp :: "byte list \<Rightarrow> byte list \<Rightarrow> int" where
  "memcmp (x # xs) (y # ys) = (if x = y then memcmp xs ys else int (unat x) - int (unat y))"
| "memcmp xs ys = 0"

text \<open>
  \<open>get_gbox_p\<close> is \<open>gserialized_get_gbox_p\<close>, of either version, on a box of zeros: whether there
  is one, and the box. A payload of negative size wraps and is read past its end.
\<close>

definition gserialized_cmp ::
  "(gserialized \<Rightarrow> lwerr + (bool \<times> gbox)) \<Rightarrow> (gbox \<Rightarrow> double \<times> double) \<Rightarrow> gserialized \<Rightarrow> gserialized \<Rightarrow> lwerr + int" where
  "gserialized_cmp get_gbox_p centre g1 g2 =
     (let sz1 = LWSIZE_GET (gs_size g1); sz2 = LWSIZE_GET (gs_size g2);
          hsz1 = gserialized_header_size g1; hsz2 = gserialized_header_size g2;
          bsz1 = sz1 - hsz1; bsz2 = sz2 - hsz2;
          bsz_min = (if bsz1 < bsz2 then bsz1 else bsz2);
          cmp_srid = gserialized_cmp_srid g1 g2;
          g1hasz = gserialized2_has_z g1; g1hasm = gserialized2_has_m g1;
          g2hasz = gserialized2_has_z g2; g2hasm = gserialized2_has_m g2
      in if sz1 < hsz1 \<or> sz2 < hsz2 then Inl MemFault
      else
        bindE (mem_at (gs_data g1) (hsz1 - 8) bsz_min) (\<lambda>b1.
        bindE (mem_at (gs_data g2) (hsz2 - 8) bsz_min) (\<lambda>b2.
        let cmp = memcmp b1 b2 in
        if bsz1 = bsz2 \<and> \<not> cmp_srid \<and> cmp = 0 \<and> g1hasz = g2hasz \<and> g1hasm = g2hasm then Inr 0
        else
          bindE (get_gbox_p g1) (\<lambda>(full1, box1).
          bindE (get_gbox_p g2) (\<lambda>(full2, box2).
          let srid1 = gserialized2_get_srid g1; srid2 = gserialized2_get_srid g2;
              hash1 = gbox_get_sortable_hash centre box1 srid1;
              hash2 = gbox_get_sortable_hash centre box2 srid2
          in if \<not> full1 \<and> full2 then Inr (-1)
          else if full1 \<and> \<not> full2 then Inr 1
          else if full1 \<and> full2 \<and> hash1 > hash2 then Inr 1
          else if full1 \<and> full2 \<and> hash1 < hash2 then Inr (-1)
          else if bsz1 \<noteq> bsz2 \<and> cmp = 0 then (if bsz1 < bsz2 then Inr (-1) else Inr 1)
          else if cmp_srid then Inr (if srid1 > srid2 then 1 else -1)
          else if g1hasz \<noteq> g2hasz then Inr (if g1hasz > g2hasz then 1 else -1)
          else if g1hasm \<noteq> g2hasm then Inr (if g1hasm > g2hasm then 1 else -1)
          else bindE (require (cmp \<noteq> 0) ''assert(cmp != 0)'') (\<lambda>_. Inr (if cmp > 0 then 1 else -1)))))))"

section \<open>Antisymmetry and equality\<close>

lemma memcmp_swap: "memcmp ys xs = - memcmp xs ys"
  by (induction xs ys rule: memcmp.induct) auto

lemma memcmp_eq: "length xs = length ys \<Longrightarrow> memcmp xs ys = 0 \<longleftrightarrow> xs = ys"
  by (induction xs ys rule: memcmp.induct) (auto dest: word_uint_eqI)

text \<open>The bytes of the geometry.\<close>

definition payload_of :: "gserialized \<Rightarrow> byte list" where
  "payload_of g = take (LWSIZE_GET (gs_size g) - gserialized_header_size g)
     (drop (gserialized_header_size g - 8) (gs_data g))"

definition whole :: "gserialized \<Rightarrow> bool" where
  "whole g \<longleftrightarrow> allocated g \<and> gserialized_header_size g \<le> LWSIZE_GET (gs_size g)"

lemma whole_payload:
  assumes "whole g"
  shows "length (payload_of g) = LWSIZE_GET (gs_size g) - gserialized_header_size g"
    "k \<le> length (payload_of g) \<Longrightarrow> mem_at (gs_data g) (gserialized_header_size g - 8) k = Inr (take k (payload_of g))"
proof -
  have "8 \<le> gserialized_header_size g" by (simp add: gserialized_header_size_def)
  then have le: "gserialized_header_size g - 8 + (LWSIZE_GET (gs_size g) - gserialized_header_size g) \<le> length (gs_data g)"
    using assms by (auto simp: whole_def allocated_def gserialized2_buffer_size_def)
  then show len: "length (payload_of g) = LWSIZE_GET (gs_size g) - gserialized_header_size g"
    by (simp add: payload_of_def)
  show "mem_at (gs_data g) (gserialized_header_size g - 8) k = Inr (take k (payload_of g))"
    if "k \<le> length (payload_of g)"
    using that le unfolding len by (simp add: mem_at_def payload_of_def min_absorb1)
qed

lemma memcmp_take:
  assumes "length xs \<le> k \<or> length ys \<le> k"
  shows "memcmp (take k xs) (take k ys) = memcmp xs ys"
  using assms
proof (induction xs ys arbitrary: k rule: memcmp.induct)
  case (1 x xs y ys)
  then show ?case by (cases k) auto
qed auto

text \<open>The order of two geometries that are not the same.\<close>

definition cmp_order :: "(gbox \<Rightarrow> double \<times> double) \<Rightarrow> gserialized \<Rightarrow> bool \<times> gbox \<Rightarrow> gserialized \<Rightarrow> bool \<times> gbox \<Rightarrow> int" where
  "cmp_order centre g1 b1 g2 b2 =
     (let h1 = gbox_get_sortable_hash centre (snd b1) (gserialized2_get_srid g1);
          h2 = gbox_get_sortable_hash centre (snd b2) (gserialized2_get_srid g2);
          p1 = payload_of g1; p2 = payload_of g2; c = memcmp p1 p2
      in if \<not> fst b1 \<and> fst b2 then -1 else if fst b1 \<and> \<not> fst b2 then 1
      else if fst b1 \<and> fst b2 \<and> h1 > h2 then 1 else if fst b1 \<and> fst b2 \<and> h1 < h2 then -1
      else if length p1 \<noteq> length p2 \<and> c = 0 then (if length p1 < length p2 then -1 else 1)
      else if gs_srid g1 \<noteq> gs_srid g2 then (if gserialized2_get_srid g1 > gserialized2_get_srid g2 then 1 else -1)
      else if gserialized2_has_z g1 \<noteq> gserialized2_has_z g2 then (if gserialized2_has_z g1 > gserialized2_has_z g2 then 1 else -1)
      else if gserialized2_has_m g1 \<noteq> gserialized2_has_m g2 then (if gserialized2_has_m g1 > gserialized2_has_m g2 then 1 else -1)
      else sgn c)"

definition same_stored :: "gserialized \<Rightarrow> gserialized \<Rightarrow> bool" where
  "same_stored g1 g2 \<longleftrightarrow> payload_of g1 = payload_of g2 \<and> gs_srid g1 = gs_srid g2 \<and>
     gserialized2_has_z g1 = gserialized2_has_z g2 \<and> gserialized2_has_m g1 = gserialized2_has_m g2"

lemma same_stored_memcmp:
  "same_stored g1 g2 \<longleftrightarrow> length (payload_of g1) = length (payload_of g2) \<and> memcmp (payload_of g1) (payload_of g2) = 0 \<and>
     gs_srid g1 = gs_srid g2 \<and> gserialized2_has_z g1 = gserialized2_has_z g2 \<and> gserialized2_has_m g1 = gserialized2_has_m g2"
  using memcmp_eq [of "payload_of g1" "payload_of g2"] by (auto simp: same_stored_def)

text \<open>The chain of tests never reaches the assertion with equal bytes.\<close>

lemma order_chain:
  fixes h1 h2 :: u64 and c s1 s2 :: int and l1 l2 :: nat
  assumes "\<not> (l1 = l2 \<and> \<not> s \<and> c = 0 \<and> z1 = z2 \<and> m1 = m2)"
  shows "(if \<not> f1 \<and> f2 then Inr (-1) else if f1 \<and> \<not> f2 then Inr 1
      else if f1 \<and> f2 \<and> h1 > h2 then Inr 1 else if f1 \<and> f2 \<and> h1 < h2 then Inr (-1)
      else if l1 \<noteq> l2 \<and> c = 0 then (if l1 < l2 then Inr (-1) else Inr 1)
      else if s then Inr (if s1 > s2 then 1 else -1)
      else if z1 \<noteq> z2 then Inr (if z1 > z2 then 1 else -1)
      else if m1 \<noteq> m2 then Inr (if m1 > m2 then 1 else -1)
      else bindE (require (c \<noteq> 0) msg) (\<lambda>_. Inr (if c > 0 then 1 else -1))) =
    Inr (if \<not> f1 \<and> f2 then -1 else if f1 \<and> \<not> f2 then 1
      else if f1 \<and> f2 \<and> h1 > h2 then 1 else if f1 \<and> f2 \<and> h1 < h2 then -1
      else if l1 \<noteq> l2 \<and> c = 0 then (if l1 < l2 then -1 else 1)
      else if s then (if s1 > s2 then 1 else -1)
      else if z1 \<noteq> z2 then (if z1 > z2 then 1 else -1)
      else if m1 \<noteq> m2 then (if m1 > m2 then 1 else -1)
      else sgn c)"
proof -
  have "bindE (require (c \<noteq> 0) msg) (\<lambda>_. Inr (if c > 0 then 1 else -1)) = Inr (sgn c)" if "c \<noteq> 0"
    using that by (simp add: sgn_if)
  then show ?thesis using assms by (simp split del: if_split cong: if_cong) auto
qed

lemma gserialized_cmp_whole:
  assumes "whole g1" "whole g2"
  shows "gserialized_cmp get_gbox_p centre g1 g2 =
    (if same_stored g1 g2 then Inr 0
     else bindE (get_gbox_p g1) (\<lambda>b1. bindE (get_gbox_p g2) (\<lambda>b2. Inr (cmp_order centre g1 b1 g2 b2))))"
proof -
  let ?p1 = "payload_of g1" and ?p2 = "payload_of g2"
  define k where "k = (if length ?p1 < length ?p2 then length ?p1 else length ?p2)"
  note len = whole_payload(1) [OF assms(1), symmetric] whole_payload(1) [OF assms(2), symmetric]
  have le: "k \<le> length ?p1" "k \<le> length ?p2" by (simp_all add: k_def)
  note mem = whole_payload(2) [OF assms(1) le(1)] whole_payload(2) [OF assms(2) le(2)]
  have cmp: "memcmp (take k ?p1) (take k ?p2) = memcmp ?p1 ?p2"
    by (rule memcmp_take) (auto simp: k_def)
  have w: "\<not> LWSIZE_GET (gs_size g1) < gserialized_header_size g1" "\<not> LWSIZE_GET (gs_size g2) < gserialized_header_size g2"
    using assms by (simp_all add: whole_def)
  define c where "c = memcmp ?p1 ?p2"
  have same: "(length ?p1 = length ?p2 \<and> \<not> gserialized_cmp_srid g1 g2 \<and> c = 0 \<and>
      gserialized2_has_z g1 = gserialized2_has_z g2 \<and> gserialized2_has_m g1 = gserialized2_has_m g2) = same_stored g1 g2"
    by (auto simp: same_stored_memcmp gserialized_cmp_srid_def c_def)
  show ?thesis
  proof (cases "same_stored g1 g2")
    case True
    then show ?thesis
      unfolding gserialized_cmp_def Let_def len k_def [symmetric] mem bindE_Inr cmp c_def [symmetric] same
      using w by simp
  next
    case False
    note ne = False [folded same]
    show ?thesis
      unfolding gserialized_cmp_def Let_def len k_def [symmetric] mem bindE_Inr cmp c_def [symmetric] order_chain [OF ne]
      unfolding same if_not_P [OF False] cmp_order_def Let_def gserialized_cmp_srid_def c_def [symmetric] split_def
      using w ne by (simp add: gserialized_cmp_srid_def) blast
  qed
qed

lemma cmp_order_swap:
  assumes "gserialized2_get_srid g1 = gserialized2_get_srid g2 \<longrightarrow> gs_srid g1 = gs_srid g2"
  shows "cmp_order centre g2 b2 g1 b1 = - cmp_order centre g1 b1 g2 b2"
  using assms memcmp_swap [of "payload_of g1" "payload_of g2"]
  by (auto simp: cmp_order_def Let_def)

lemma cmp_order_range:
  assumes "\<not> same_stored g1 g2"
  shows "cmp_order centre g1 b1 g2 b2 \<in> {-1, 1}"
  using assms by (auto simp: cmp_order_def Let_def same_stored_memcmp sgn_if)

text \<open>
  C38. The comparison is antisymmetric, returns -1, 0 or 1, and is 0 exactly for the same bytes
  with the same SRID and dimensions, for buffers whose SRIDs are the same number only when
  they are the same bytes.
\<close>

theorem gserialized_cmp_antisym:
  assumes "whole g1" "whole g2"
    and "gserialized2_get_srid g1 = gserialized2_get_srid g2 \<longrightarrow> gs_srid g1 = gs_srid g2"
    and "gserialized_cmp get_gbox_p centre g1 g2 = Inr c"
  shows "gserialized_cmp get_gbox_p centre g2 g1 = Inr (- c) \<and> c \<in> {-1, 0, 1} \<and>
    (c = 0 \<longleftrightarrow> payload_of g1 = payload_of g2 \<and> gs_srid g1 = gs_srid g2 \<and>
       gserialized2_has_z g1 = gserialized2_has_z g2 \<and> gserialized2_has_m g1 = gserialized2_has_m g2)"
proof -
  have sym: "same_stored g2 g1 = same_stored g1 g2" by (auto simp: same_stored_def)
  show ?thesis
  proof (cases "same_stored g1 g2")
    case True
    then show ?thesis
      using assms(4) sym by (simp add: gserialized_cmp_whole assms(1,2) same_stored_def)
  next
    case False
    then obtain b1 b2 where "get_gbox_p g1 = Inr b1" "get_gbox_p g2 = Inr b2" "c = cmp_order centre g1 b1 g2 b2"
      using assms(4) by (auto simp: gserialized_cmp_whole assms(1,2) bindE_eq_Inr)
    then show ?thesis
      using False sym cmp_order_swap [OF assms(3), of centre b2 b1] cmp_order_range [OF False, of centre b1 b2]
      by (simp add: gserialized_cmp_whole assms(1,2)) (auto simp: same_stored_def)
  qed
qed

theorem gserialized_cmp_antisym_witness:
  "gserialized_cmp (\<lambda>g. Inr (True, gbox_init)) (\<lambda>b. (0, 0)) sample_gs sample_gs = Inr 0"
proof -
  have w: "whole sample_gs"
    using sample_header by (simp add: whole_def gserialized_header_size_def sample_gs_def LWSIZE_GET_def drop_bit_eq_div)
  have "gserialized_cmp (\<lambda>g. Inr (True, gbox_init)) (\<lambda>b. (0, 0)) sample_gs sample_gs = Inr 0"
    by (simp add: gserialized_cmp_whole [OF w w] same_stored_def)
  from gserialized_cmp_antisym [OF w w _ this] show ?thesis by simp
qed

section \<open>A cycle\<close>

text \<open>
  Three lines along the origin as they are stored, with their boxes: three points in the
  plane with SRID 3, three points in space with SRID 1, and four points in the plane with
  SRID 2. The bytes of the first begin those of the second.
\<close>

definition line3_gs :: gserialized where
  "line3_gs = \<lparr>gs_size = 320, gs_srid = (0, 0, 3), gs_gflags = 0x44,
     gs_data = replicate 16 0 @ [2, 0, 0, 0, 3, 0, 0, 0] @ replicate 48 0\<rparr>"

definition line3z_gs :: gserialized where
  "line3z_gs = \<lparr>gs_size = 448, gs_srid = (0, 0, 1), gs_gflags = 0x45,
     gs_data = replicate 24 0 @ [2, 0, 0, 0, 3, 0, 0, 0] @ replicate 72 0\<rparr>"

definition line4_gs :: gserialized where
  "line4_gs = \<lparr>gs_size = 384, gs_srid = (0, 0, 2), gs_gflags = 0x44,
     gs_data = replicate 16 0 @ [2, 0, 0, 0, 4, 0, 0, 0] @ replicate 64 0\<rparr>"

lemma memcmp_same [simp]: "memcmp xs xs = 0"
  by (induction xs) auto

lemma memcmp_prefix [simp]: "memcmp xs (xs @ ys) = 0" "memcmp (xs @ ys) xs = 0"
  by (induction xs) auto

lemma lines_whole: "whole line3_gs" "whole line3z_gs" "whole line4_gs"
  by (simp_all add: whole_def allocated_def gserialized2_buffer_size_def gserialized_header_size_def line3_gs_def
      line3z_gs_def line4_gs_def LWSIZE_GET_def drop_bit_eq_div gserialized_get_version_def)

lemma lines_payload:
  "payload_of line3_gs = [2, 0, 0, 0, 3, 0, 0, 0] @ replicate 48 0"
  "payload_of line3z_gs = [2, 0, 0, 0, 3, 0, 0, 0] @ replicate 48 0 @ replicate 24 0"
  "payload_of line4_gs = [2, 0, 0, 0, 4, 0, 0, 0] @ replicate 64 0"
  by (simp_all add: payload_of_def gserialized_header_size_def line3_gs_def line3z_gs_def line4_gs_def LWSIZE_GET_def
      drop_bit_eq_div gserialized_get_version_def replicate_add [symmetric])

lemma lines_srid:
  "gserialized2_get_srid line3_gs = 3" "gserialized2_get_srid line3z_gs = 1" "gserialized2_get_srid line4_gs = 2"
  by (simp_all add: gserialized2_get_srid_def line3_gs_def line3z_gs_def line4_gs_def)

lemma lines_differ:
  "gs_srid line3_gs = (0, 0, 3)" "gs_srid line3z_gs = (0, 0, 1)" "gs_srid line4_gs = (0, 0, 2)"
  by (simp_all add: line3_gs_def line3z_gs_def line4_gs_def)

lemma zero_mem: "p + 4 \<le> n \<Longrightarrow> mem_at (replicate n 0 @ xs) p 4 = Inr [0, 0, 0, 0]"
proof -
  assume p: "p + 4 \<le> n"
  then have "take 4 (drop p (replicate n 0 @ xs)) = replicate 4 (0 :: byte)" by simp
  moreover have "replicate 4 (0 :: byte) = [0, 0, 0, 0]" by (simp add: numeral_eq_Suc)
  ultimately show ?thesis using p by (simp add: mem_at_def)
qed

lemma zero_floats: "p + 4 * k \<le> n \<Longrightarrow> floats_at (replicate n 0 @ xs) p k = Inr (replicate k 0)"
  by (induction k arbitrary: p) (simp_all add: zero_mem)

lemma zero_float: "dbl_of_float 0 = 0"
  by (simp add: dbl_of_float_def flt_neg_def flt_mag_def dbl_pack_def)

lemma lines_box:
  assumes "g \<in> {line3_gs, line3z_gs, line4_gs}"
  shows "\<exists>b. gserialized2_get_gbox_p calc st g gbox_init = Inr (True, b) \<and>
    \<not> geodetic (gflags b) \<and> [xmin b, xmax b, ymin b, ymax b] = [0, 0, 0, 0]"
proof -
  have "\<exists>b f. gserialized2_read_gbox_p g gbox_init = Inr (True, b) \<and> gserialized2_get_lwflags g = Inr f \<and>
      gflags b = f \<and> [xmin b, xmax b, ymin b, ymax b] = [0, 0, 0, 0]"
    using assms
    by (auto simp: gserialized2_read_gbox_p_def gserialized2_get_lwflags_def line3_gs_def line3z_gs_def line4_gs_def
        gserialized2_has_bbox_def gserialized2_get_float_box_p_def gserialized2_has_extended_def
        gserialized2_buffer_size_def LWSIZE_GET_def drop_bit_eq_div gserialized2_box_size_def G2FLAGS_NDIMS_def
        zero_floats box_of_floats_def zero_float Let_def)
  then obtain b f where b: "gserialized2_read_gbox_p g gbox_init = Inr (True, b)" "gserialized2_get_lwflags g = Inr f"
    "gflags b = f" "[xmin b, xmax b, ymin b, ymax b] = [0, 0, 0, 0]" by blast
  have "\<not> geodetic f"
    using lwflags_of_gflags(3) [OF b(2)] assms by (auto simp: line3_gs_def line3z_gs_def line4_gs_def)
  with b show ?thesis by (simp add: gserialized2_get_gbox_p_def)
qed

text \<open>
  The comparison is not an order: the three lines are less than each other in a circle,
  because bytes that begin others come first whatever the SRIDs, and the SRIDs come
  before the bytes otherwise.
\<close>

theorem gserialized_cmp_cycle:
  "\<exists>g1 g2 g3. \<forall>calc st centre. let cmp = gserialized_cmp (\<lambda>g. gserialized2_get_gbox_p calc st g gbox_init) centre
     in cmp g1 g2 = Inr (-1) \<and> cmp g2 g3 = Inr (-1) \<and> cmp g3 g1 = Inr (-1)"
proof (intro exI allI)
  fix calc st centre
  let ?box = "\<lambda>g. gserialized2_get_gbox_p calc st g gbox_init"
  obtain a b c where box: "?box line3_gs = Inr (True, a)" "?box line3z_gs = Inr (True, b)" "?box line4_gs = Inr (True, c)"
    and z: "[xmin a, xmax a, ymin a, ymax a] = [0, 0, 0, 0]" "[xmin b, xmax b, ymin b, ymax b] = [0, 0, 0, 0]"
      "[xmin c, xmax c, ymin c, ymax c] = [0, 0, 0, 0]"
    and n: "\<not> geodetic (gflags a)" "\<not> geodetic (gflags b)" "\<not> geodetic (gflags c)"
    using lines_box [of line3_gs calc st] lines_box [of line3z_gs calc st] lines_box [of line4_gs calc st] by auto
  have h: "gbox_get_sortable_hash centre a 3 = gbox_get_sortable_hash centre b 1"
    "gbox_get_sortable_hash centre c 2 = gbox_get_sortable_hash centre b 1"
    using z n by (simp_all add: gbox_get_sortable_hash_def Let_def)
  show "let cmp = gserialized_cmp ?box centre
     in cmp line3_gs line3z_gs = Inr (-1) \<and> cmp line3z_gs line4_gs = Inr (-1) \<and> cmp line4_gs line3_gs = Inr (-1)"
    unfolding Let_def gserialized_cmp_whole [OF lines_whole(1,2)] gserialized_cmp_whole [OF lines_whole(2,3)]
      gserialized_cmp_whole [OF lines_whole(3,1)]
    by (simp add: box same_stored_def cmp_order_def lines_payload lines_srid lines_differ h Let_def)
qed

end
