(* ===== verification/IndexSearch.thy ===== *)
theory IndexSearch
  imports Prelude
begin

text \<open>
  The contracts of the 2D operator classes. PostgreSQL keeps the pages and walks the tree;
  the operator class supplies the keys and the tests, and an entry is lost when a test on the
  way down turns away from it. For GiST, the key of a page is made of the keys on it by the union
  function, so the keys on the way to an entry are those that \<open>key_above\<close> relates to it. For
  SP-GiST, the function for inner nodes computes the region of a child, which is handed down as
  traversal value. The locales say what the functions of a class owe to each other for the
  search to keep every match; nothing is said about how the server builds or walks the tree.
\<close>

section \<open>GiST\<close>

text \<open>The keys that unions make, directly or in several steps, of pages with the given key.\<close>

inductive key_above :: "('k \<Rightarrow> bool) \<Rightarrow> ('k list \<Rightarrow> 'k) \<Rightarrow> 'k \<Rightarrow> 'k \<Rightarrow> bool" for good join where
  page: "list_all good ks \<Longrightarrow> k \<in> set ks \<Longrightarrow> key_above good join k (join ks)"
| inner: "key_above good join k k' \<Longrightarrow> list_all good ks \<Longrightarrow> k' \<in> set ks \<Longrightarrow> key_above good join k (join ks)"

locale gist_class =
  fixes good :: "'k \<Rightarrow> bool" and covers :: "'k \<Rightarrow> 'k \<Rightarrow> bool" and join :: "'k list \<Rightarrow> 'k"
    and internal :: "'k \<Rightarrow> 'q \<Rightarrow> bool" and leaf :: "'k \<Rightarrow> 'q \<Rightarrow> bool" and kept :: "'k \<Rightarrow> 'q \<Rightarrow> bool"
  assumes join_covers: "list_all good ks \<Longrightarrow> k \<in> set ks \<Longrightarrow> covers (join ks) k"
    and covers_trans: "covers a b \<Longrightarrow> covers b c \<Longrightarrow> covers a c"
    and no_miss: "kept k q \<Longrightarrow> covers k' k \<Longrightarrow> leaf k q \<Longrightarrow> internal k' q"
begin

lemma above_covers: "key_above good join k k' \<Longrightarrow> covers k' k"
  by (induction rule: key_above.induct) (blast intro: join_covers covers_trans)+

text \<open>No key above an entry that satisfies the query turns the search away.\<close>

theorem never_prunes: "key_above good join k k' \<Longrightarrow> kept k q \<Longrightarrow> leaf k q \<Longrightarrow> internal k' q"
  by (blast intro: no_miss above_covers)

end

section \<open>SP-GiST\<close>

locale spgist_class =
  fixes good :: "'k \<Rightarrow> bool" and inside :: "'r \<Rightarrow> 'k \<Rightarrow> bool" and "next" :: "'r \<Rightarrow> 'k \<Rightarrow> nat \<Rightarrow> 'r"
    and quadrant :: "'k \<Rightarrow> 'k \<Rightarrow> nat"
    and inner :: "'r \<Rightarrow> 'q \<Rightarrow> bool" and leaf :: "'k \<Rightarrow> 'q \<Rightarrow> bool" and kept :: "'q \<Rightarrow> bool"
  assumes next_inside: "good c \<Longrightarrow> good k \<Longrightarrow> inside r k \<Longrightarrow> inside (next r c (quadrant c k)) k"
    and no_miss: "kept q \<Longrightarrow> good k \<Longrightarrow> inside r k \<Longrightarrow> leaf k q \<Longrightarrow> inner r q"
begin

text \<open>The child of an entry's quadrant has a region around it, which passes all scan keys that the entry satisfies.\<close>

theorem child_passes:
  assumes "good c" "good k" "inside r k" "list_all kept qs" "list_all (leaf k) qs"
  shows "inside (next r c (quadrant c k)) k \<and> list_all (inner (next r c (quadrant c k))) qs"
  using assms next_inside no_miss by (simp add: list_all_iff)

end

end
