(* ===== verification/Gist2D.thy ===== *)
theory Gist2D
  imports IndexSearch GS2Read Float64 GBox GSCompare
begin

text \<open>
  The 2D index operator class (postgis/gserialized_gist_2d.c): boxes of floats, the operators
  on them, and the GiST support functions that compute keys and test them against a query.
\<close>

section \<open>Floats\<close>

definition flt_lt :: "float32 \<Rightarrow> float32 \<Rightarrow> bool" where
  "flt_lt a b \<longleftrightarrow> \<not> flt_isnan a \<and> \<not> flt_isnan b \<and> flt_ord a < flt_ord b"

definition flt_le :: "float32 \<Rightarrow> float32 \<Rightarrow> bool" where
  "flt_le a b \<longleftrightarrow> \<not> flt_isnan a \<and> \<not> flt_isnan b \<and> flt_ord a \<le> flt_ord b"

abbreviation flt_nan :: float32 where "flt_nan \<equiv> 0x7FC00000"

text \<open>An operation on floats rounds once; through doubles it rounds twice, which comes to the
  same as a double has more than twice the digits of a float and two more.\<close>

definition flt_add :: "float32 \<Rightarrow> float32 \<Rightarrow> float32" where
  "flt_add a b = float_of_dbl (dbl_add (dbl_of_float a) (dbl_of_float b))"

definition flt_sub :: "float32 \<Rightarrow> float32 \<Rightarrow> float32" where
  "flt_sub a b = float_of_dbl (dbl_sub (dbl_of_float a) (dbl_of_float b))"

definition flt_mul :: "float32 \<Rightarrow> float32 \<Rightarrow> float32" where
  "flt_mul a b = float_of_dbl (dbl_mul (dbl_of_float a) (dbl_of_float b))"

definition flt_div :: "float32 \<Rightarrow> float32 \<Rightarrow> float32" where
  "flt_div a b = float_of_dbl (dbl_div (dbl_of_float a) (dbl_of_float b))"

section \<open>Boxes\<close>

record box2df =
  bxmin :: float32
  bxmax :: float32
  bymin :: float32
  bymax :: float32

definition box2df_is_empty :: "box2df \<Rightarrow> bool" where
  "box2df_is_empty a \<longleftrightarrow> flt_isnan (bxmin a)"

definition box2df_set_empty :: box2df where
  "box2df_set_empty = \<lparr>bxmin = flt_nan, bxmax = flt_nan, bymin = flt_nan, bymax = flt_nan\<rparr>"

definition box2df_set_finite :: "box2df \<Rightarrow> box2df" where
  "box2df_set_finite a =
     (let a = (if \<not> flt_isfinite (bxmax a) then a\<lparr>bxmax := FLT_MAX\<rparr> else a);
          a = (if \<not> flt_isfinite (bymax a) then a\<lparr>bymax := FLT_MAX\<rparr> else a);
          a = (if \<not> flt_isfinite (bymin a) then a\<lparr>bymin := FLT_MIN_MAX\<rparr> else a)
      in if \<not> flt_isfinite (bxmin a) then a\<lparr>bxmin := FLT_MIN_MAX\<rparr> else a)"

definition box2df_merge :: "box2df \<Rightarrow> box2df \<Rightarrow> box2df" where
  "box2df_merge u n =
     (let u = (if flt_lt (bxmin n) (bxmin u) \<or> flt_isnan (bxmin u) then u\<lparr>bxmin := bxmin n\<rparr> else u);
          u = (if flt_lt (bymin n) (bymin u) \<or> flt_isnan (bymin u) then u\<lparr>bymin := bymin n\<rparr> else u);
          u = (if flt_lt (bxmax u) (bxmax n) \<or> flt_isnan (bxmax u) then u\<lparr>bxmax := bxmax n\<rparr> else u)
      in if flt_lt (bymax u) (bymax n) \<or> flt_isnan (bymax u) then u\<lparr>bymax := bymax n\<rparr> else u)"

definition box2df_from_gbox_p :: "gbox \<Rightarrow> box2df" where
  "box2df_from_gbox_p box =
     \<lparr>bxmin = next_float_down (xmin box), bxmax = next_float_up (xmax box),
      bymin = next_float_down (ymin box), bymax = next_float_up (ymax box)\<rparr>"

definition box2df_to_gbox_p :: "box2df \<Rightarrow> gbox" where
  "box2df_to_gbox_p a = gbox_init\<lparr>xmin := dbl_of_float (bxmin a), xmax := dbl_of_float (bxmax a),
     ymin := dbl_of_float (bymin a), ymax := dbl_of_float (bymax a)\<rparr>"

definition box2df_validate :: "box2df \<Rightarrow> box2df" where
  "box2df_validate b =
     (if box2df_is_empty b then b
      else
        let b = (if flt_lt (bxmax b) (bxmin b) then b\<lparr>bxmin := bxmax b, bxmax := bxmin b\<rparr> else b)
        in if flt_lt (bymax b) (bymin b) then b\<lparr>bymin := bymax b, bymax := bymin b\<rparr> else b)"

section \<open>Operators\<close>

text \<open>The arguments are pointers, which may be null.\<close>

definition both :: "(box2df \<Rightarrow> box2df \<Rightarrow> bool) \<Rightarrow> box2df option \<Rightarrow> box2df option \<Rightarrow> bool" where
  "both P a b = (case (a, b) of (Some a, Some b) \<Rightarrow> P a b | _ \<Rightarrow> False)"

definition both_full :: "(box2df \<Rightarrow> box2df \<Rightarrow> bool) \<Rightarrow> box2df option \<Rightarrow> box2df option \<Rightarrow> bool" where
  "both_full P = both (\<lambda>a b. \<not> box2df_is_empty a \<and> \<not> box2df_is_empty b \<and> P a b)"

definition box2df_overlaps :: "box2df option \<Rightarrow> box2df option \<Rightarrow> bool" where
  "box2df_overlaps = both_full (\<lambda>a b. \<not> (flt_lt (bxmax b) (bxmin a) \<or> flt_lt (bxmax a) (bxmin b) \<or>
     flt_lt (bymax b) (bymin a) \<or> flt_lt (bymax a) (bymin b)))"

definition box2df_contains :: "box2df option \<Rightarrow> box2df option \<Rightarrow> bool" where
  "box2df_contains = both (\<lambda>a b. (box2df_is_empty b \<and> \<not> box2df_is_empty a) \<or>
     \<not> (flt_lt (bxmin b) (bxmin a) \<or> flt_lt (bxmax a) (bxmax b) \<or>
        flt_lt (bymin b) (bymin a) \<or> flt_lt (bymax a) (bymax b)))"

definition box2df_within :: "box2df option \<Rightarrow> box2df option \<Rightarrow> bool" where
  "box2df_within = both (\<lambda>a b. (box2df_is_empty a \<and> \<not> box2df_is_empty b) \<or>
     \<not> (flt_lt (bxmin a) (bxmin b) \<or> flt_lt (bxmax b) (bxmax a) \<or>
        flt_lt (bymin a) (bymin b) \<or> flt_lt (bymax b) (bymax a)))"

definition box2df_equals :: "box2df option \<Rightarrow> box2df option \<Rightarrow> bool" where
  "box2df_equals a b =
     (case (a, b) of
        (None, None) \<Rightarrow> True
      | (Some a, Some b) \<Rightarrow>
          if box2df_is_empty a \<and> box2df_is_empty b then True
          else if box2df_is_empty a \<or> box2df_is_empty b then False
          else flt_eq (bxmin a) (bxmin b) \<and> flt_eq (bxmax a) (bxmax b) \<and>
               flt_eq (bymin a) (bymin b) \<and> flt_eq (bymax a) (bymax b)
      | _ \<Rightarrow> False)"

definition box2df_overleft :: "box2df option \<Rightarrow> box2df option \<Rightarrow> bool" where
  "box2df_overleft = both_full (\<lambda>a b. flt_le (bxmax a) (bxmax b))"

definition box2df_left :: "box2df option \<Rightarrow> box2df option \<Rightarrow> bool" where
  "box2df_left = both_full (\<lambda>a b. flt_lt (bxmax a) (bxmin b))"

definition box2df_right :: "box2df option \<Rightarrow> box2df option \<Rightarrow> bool" where
  "box2df_right = both_full (\<lambda>a b. flt_lt (bxmax b) (bxmin a))"

definition box2df_overright :: "box2df option \<Rightarrow> box2df option \<Rightarrow> bool" where
  "box2df_overright = both_full (\<lambda>a b. flt_le (bxmin b) (bxmin a))"

definition box2df_overbelow :: "box2df option \<Rightarrow> box2df option \<Rightarrow> bool" where
  "box2df_overbelow = both_full (\<lambda>a b. flt_le (bymax a) (bymax b))"

definition box2df_below :: "box2df option \<Rightarrow> box2df option \<Rightarrow> bool" where
  "box2df_below = both_full (\<lambda>a b. flt_lt (bymax a) (bymin b))"

definition box2df_above :: "box2df option \<Rightarrow> box2df option \<Rightarrow> bool" where
  "box2df_above = both_full (\<lambda>a b. flt_lt (bymax b) (bymin a))"

definition box2df_overabove :: "box2df option \<Rightarrow> box2df option \<Rightarrow> bool" where
  "box2df_overabove = both_full (\<lambda>a b. flt_le (bymin b) (bymin a))"

definition box2df_get_sortable_hash :: "box2df \<Rightarrow> u64" where
  "box2df_get_sortable_hash b =
     uint32_hilbert (flt_div (flt_add (bymax b) (bymin b)) 0x40000000) (flt_div (flt_add (bxmax b) (bxmin b)) 0x40000000)"

section \<open>Keys\<close>

text \<open>The box of a stored geometry (of version 2, in memory); None when it has none. Copying
  the floats from a box pointer that is null is a fault.\<close>

definition gserialized_datum_get_box2df_p :: "box_calc \<Rightarrow> gbox \<Rightarrow> gserialized \<Rightarrow> lwerr + box2df option" where
  "gserialized_datum_get_box2df_p calc stack gpart =
     (if gserialized2_has_bbox gpart then
        (case gserialized2_get_float_box_p gpart of
           None \<Rightarrow> Inl MemFault
         | Some p \<Rightarrow>
             bindE (floats_at (gs_data gpart) p 4) (\<lambda>f.
             Inr (Some \<lparr>bxmin = f ! 0, bxmax = f ! 1, bymin = f ! 2, bymax = f ! 3\<rparr>)))
      else
        bindE (gserialized2_get_gbox_p calc stack gpart gbox_init) (\<lambda>(ok, gbox).
        if ok then Inr (Some (box2df_from_gbox_p gbox))
        else
          bindE (gserialized2_is_empty gpart) (\<lambda>isempty.
          Inr (if isempty then Some box2df_set_empty else None))))"

text \<open>The key of a leaf entry.\<close>

definition gserialized_gist_compress_2d :: "box2df option \<Rightarrow> box2df option" where
  "gserialized_gist_compress_2d key =
     (case key of
        None \<Rightarrow> None
      | Some b \<Rightarrow>
          if box2df_is_empty b then Some b
          else if \<not> flt_isfinite (bxmax b) \<or> \<not> flt_isfinite (bxmin b) \<or>
                  \<not> flt_isfinite (bymax b) \<or> \<not> flt_isfinite (bymin b)
          then Some (box2df_set_finite b)
          else Some (box2df_validate b))"

text \<open>The key of a page, which has an entry.\<close>

definition gserialized_gist_union_2d :: "box2df list \<Rightarrow> box2df" where
  "gserialized_gist_union_2d keys = foldl box2df_merge (hd keys) (tl keys)"

section \<open>Consistency\<close>

datatype strategy = RTLeft | RTOverLeft | RTOverlap | RTOverRight | RTRight | RTSame | RTContains | RTContainedBy
  | RTOverBelow | RTBelow | RTAbove | RTOverAbove | RTOldContains | RTOldContainedBy | RTOther nat

definition gserialized_gist_consistent_leaf_2d :: "box2df \<Rightarrow> box2df \<Rightarrow> strategy \<Rightarrow> bool" where
  "gserialized_gist_consistent_leaf_2d key query strategy =
     (case strategy of
        RTOverlap \<Rightarrow> box2df_overlaps (Some key) (Some query)
      | RTSame \<Rightarrow> box2df_equals (Some key) (Some query)
      | RTContains \<Rightarrow> box2df_contains (Some key) (Some query)
      | RTOldContains \<Rightarrow> box2df_contains (Some key) (Some query)
      | RTContainedBy \<Rightarrow> box2df_within (Some key) (Some query)
      | RTOldContainedBy \<Rightarrow> box2df_within (Some key) (Some query)
      | RTAbove \<Rightarrow> box2df_above (Some key) (Some query)
      | RTBelow \<Rightarrow> box2df_below (Some key) (Some query)
      | RTRight \<Rightarrow> box2df_right (Some key) (Some query)
      | RTLeft \<Rightarrow> box2df_left (Some key) (Some query)
      | RTOverAbove \<Rightarrow> box2df_overabove (Some key) (Some query)
      | RTOverBelow \<Rightarrow> box2df_overbelow (Some key) (Some query)
      | RTOverRight \<Rightarrow> box2df_overright (Some key) (Some query)
      | RTOverLeft \<Rightarrow> box2df_overleft (Some key) (Some query)
      | RTOther n \<Rightarrow> False)"

definition gserialized_gist_consistent_internal_2d :: "box2df \<Rightarrow> box2df \<Rightarrow> strategy \<Rightarrow> bool" where
  "gserialized_gist_consistent_internal_2d key query strategy =
     (case strategy of
        RTOverlap \<Rightarrow> box2df_overlaps (Some key) (Some query)
      | RTSame \<Rightarrow> box2df_contains (Some key) (Some query)
      | RTContains \<Rightarrow> box2df_contains (Some key) (Some query)
      | RTOldContains \<Rightarrow> box2df_contains (Some key) (Some query)
      | RTContainedBy \<Rightarrow> box2df_overlaps (Some key) (Some query)
      | RTOldContainedBy \<Rightarrow> box2df_overlaps (Some key) (Some query)
      | RTAbove \<Rightarrow> \<not> box2df_overbelow (Some key) (Some query)
      | RTBelow \<Rightarrow> \<not> box2df_overabove (Some key) (Some query)
      | RTRight \<Rightarrow> \<not> box2df_overleft (Some key) (Some query)
      | RTLeft \<Rightarrow> \<not> box2df_overright (Some key) (Some query)
      | RTOverAbove \<Rightarrow> \<not> box2df_below (Some key) (Some query)
      | RTOverBelow \<Rightarrow> \<not> box2df_above (Some key) (Some query)
      | RTOverRight \<Rightarrow> \<not> box2df_left (Some key) (Some query)
      | RTOverLeft \<Rightarrow> \<not> box2df_right (Some key) (Some query)
      | RTOther n \<Rightarrow> False)"

text \<open>\<open>query\<close> and \<open>key\<close> are None for null pointers and for a query without a box.\<close>

definition gserialized_gist_consistent_2d :: "bool \<Rightarrow> box2df option \<Rightarrow> box2df option \<Rightarrow> strategy \<Rightarrow> bool" where
  "gserialized_gist_consistent_2d gist_leaf key query strategy =
     (case (key, query) of
        (Some key, Some query) \<Rightarrow>
          if gist_leaf then gserialized_gist_consistent_leaf_2d key query strategy
          else gserialized_gist_consistent_internal_2d key query strategy
      | _ \<Rightarrow> False)"

definition gserialized_gist_same_2d :: "box2df option \<Rightarrow> box2df option \<Rightarrow> bool" where
  "gserialized_gist_same_2d b1 b2 = box2df_equals b1 b2"

section \<open>Laws\<close>

definition box_num :: "box2df \<Rightarrow> bool" where
  "box_num b \<longleftrightarrow> \<not> flt_isnan (bxmin b) \<and> \<not> flt_isnan (bxmax b) \<and> \<not> flt_isnan (bymin b) \<and> \<not> flt_isnan (bymax b)"

definition box_ok :: "box2df \<Rightarrow> bool" where
  "box_ok b \<longleftrightarrow> box_num b \<and> flt_ord (bxmin b) \<le> flt_ord (bxmax b) \<and> flt_ord (bymin b) \<le> flt_ord (bymax b)"

definition covers_2d :: "box2df \<Rightarrow> box2df \<Rightarrow> bool" where
  "covers_2d a b \<longleftrightarrow> box_ok a \<and> box_ok b \<and> box2df_contains (Some a) (Some b)"

lemma box_ok_num: "box_ok b \<Longrightarrow> box_num b"
  by (simp add: box_ok_def)

lemmas operators_2d = box2df_overlaps_def box2df_contains_def box2df_within_def box2df_equals_def box2df_overleft_def
  box2df_left_def box2df_right_def box2df_overright_def box2df_overbelow_def box2df_below_def box2df_above_def
  box2df_overabove_def both_full_def both_def box2df_is_empty_def flt_lt_def flt_le_def flt_eq_def

lemma covers_2d_iff: "covers_2d a b \<longleftrightarrow> box_ok a \<and> box_ok b \<and>
    flt_ord (bxmin a) \<le> flt_ord (bxmin b) \<and> flt_ord (bxmax b) \<le> flt_ord (bxmax a) \<and>
    flt_ord (bymin a) \<le> flt_ord (bymin b) \<and> flt_ord (bymax b) \<le> flt_ord (bymax a)"
  by (auto simp: covers_2d_def operators_2d box_ok_def box_num_def)

lemma merge_ok:
  assumes "box_ok u" "box_ok n"
  shows "box_ok (box2df_merge u n)" "covers_2d (box2df_merge u n) u" "covers_2d (box2df_merge u n) n"
    "covers_2d b u \<Longrightarrow> covers_2d b n \<Longrightarrow> covers_2d b (box2df_merge u n)"
proof -
  show ok: "box_ok (box2df_merge u n)"
    using assms by (auto simp: box_ok_def box_num_def box2df_merge_def flt_lt_def Let_def)
  have e: "flt_ord (bxmin (box2df_merge u n)) = min (flt_ord (bxmin u)) (flt_ord (bxmin n))"
    "flt_ord (bymin (box2df_merge u n)) = min (flt_ord (bymin u)) (flt_ord (bymin n))"
    "flt_ord (bxmax (box2df_merge u n)) = max (flt_ord (bxmax u)) (flt_ord (bxmax n))"
    "flt_ord (bymax (box2df_merge u n)) = max (flt_ord (bymax u)) (flt_ord (bymax n))"
    using assms by (simp_all add: box_ok_def box_num_def box2df_merge_def flt_lt_def Let_def)
  show "covers_2d (box2df_merge u n) u" "covers_2d (box2df_merge u n) n"
    using ok assms by (simp_all add: covers_2d_iff e)
  show "covers_2d b (box2df_merge u n)" if "covers_2d b u" "covers_2d b n"
    using ok that by (simp add: covers_2d_iff e)
qed

lemma covers_2d_trans: "covers_2d a b \<Longrightarrow> covers_2d b c \<Longrightarrow> covers_2d a c"
  by (auto simp: covers_2d_iff)

lemma covers_2d_refl: "box_ok a \<Longrightarrow> covers_2d a a"
  by (simp add: covers_2d_iff)

lemma union_fold:
  assumes "box_ok b" "list_all box_ok ks"
  shows "box_ok (foldl box2df_merge b ks) \<and> (\<forall>k \<in> set (b # ks). covers_2d (foldl box2df_merge b ks) k) \<and>
    (\<forall>c. (\<forall>k \<in> set (b # ks). covers_2d c k) \<longrightarrow> covers_2d c (foldl box2df_merge b ks))"
  using assms
proof (induction ks arbitrary: b)
  case Nil
  then show ?case by (simp add: covers_2d_refl)
next
  case (Cons k ks)
  then have m: "box_ok (box2df_merge b k)" "covers_2d (box2df_merge b k) b" "covers_2d (box2df_merge b k) k"
    using merge_ok by simp_all
  from Cons.IH [OF m(1)] Cons.prems have IH: "box_ok (foldl box2df_merge (box2df_merge b k) ks)"
    "\<forall>k' \<in> set (box2df_merge b k # ks). covers_2d (foldl box2df_merge (box2df_merge b k) ks) k'"
    "\<And>c. (\<forall>k' \<in> set (box2df_merge b k # ks). covers_2d c k') \<Longrightarrow> covers_2d c (foldl box2df_merge (box2df_merge b k) ks)"
    by auto
  have "covers_2d (foldl box2df_merge (box2df_merge b k) ks) b" "covers_2d (foldl box2df_merge (box2df_merge b k) ks) k"
    using IH(2) m(2,3) covers_2d_trans by auto
  moreover have "covers_2d c (foldl box2df_merge (box2df_merge b k) ks)" if "\<forall>k' \<in> set (b # k # ks). covers_2d c k'" for c
    using IH(3) [of c] that merge_ok(4) [of b k c] Cons.prems by simp
  ultimately show ?case using IH(1,2) by simp
qed

lemma consistent_no_miss:
  assumes "box_num q" "covers_2d k k'" "gserialized_gist_consistent_leaf_2d k' q s"
  shows "gserialized_gist_consistent_internal_2d k q s"
  using assms
  by (cases s) (auto simp: gserialized_gist_consistent_leaf_2d_def gserialized_gist_consistent_internal_2d_def
      covers_2d_iff box_ok_def box_num_def operators_2d)

text \<open>
  Keys of empty geometries are four NaNs. The union passes over them, so a key covers an empty key
  whatever it is, and is empty itself only if all below it are.
\<close>

definition box_nan :: "box2df \<Rightarrow> bool" where
  "box_nan b \<longleftrightarrow> flt_isnan (bxmin b) \<and> flt_isnan (bxmax b) \<and> flt_isnan (bymin b) \<and> flt_isnan (bymax b)"

definition key_ok :: "box2df \<Rightarrow> bool" where
  "key_ok b \<longleftrightarrow> box_ok b \<or> box_nan b"

definition key_covers :: "box2df \<Rightarrow> box2df \<Rightarrow> bool" where
  "key_covers a b \<longleftrightarrow> key_ok a \<and> (box_nan b \<or> covers_2d a b)"

lemma box_nan_not_ok: "box_nan b \<Longrightarrow> \<not> box_ok b"
  by (simp add: box_nan_def box_ok_def box_num_def)

lemma merge_nan:
  "box_nan u \<Longrightarrow> box2df_merge u n = n" "box_nan n \<Longrightarrow> box_ok u \<Longrightarrow> box2df_merge u n = u"
  by (auto simp: box_nan_def box_ok_def box_num_def box2df_merge_def flt_lt_def Let_def)

lemma merge_key:
  assumes "key_ok u" "key_ok n"
  shows "key_ok (box2df_merge u n) \<and> key_covers (box2df_merge u n) u \<and> key_covers (box2df_merge u n) n"
  using assms merge_nan [of u n] merge_nan(2) [of n u] merge_ok [of u n] covers_2d_refl
  by (auto simp: key_ok_def key_covers_def)

lemma key_covers_trans: "key_covers a b \<Longrightarrow> key_covers b c \<Longrightarrow> key_covers a c"
  using covers_2d_trans box_nan_not_ok by (auto simp: key_covers_def covers_2d_def)

lemma key_covers_refl: "key_ok a \<Longrightarrow> key_covers a a"
  using covers_2d_refl by (auto simp: key_covers_def key_ok_def)

lemma union_key_fold:
  "key_ok b \<Longrightarrow> list_all key_ok ks \<Longrightarrow> key_ok (foldl box2df_merge b ks) \<and>
    (\<forall>k \<in> set (b # ks). key_covers (foldl box2df_merge b ks) k)"
proof (induction ks arbitrary: b)
  case (Cons k ks)
  then have m: "key_ok (box2df_merge b k)" "key_covers (box2df_merge b k) b" "key_covers (box2df_merge b k) k"
    using merge_key by simp_all
  with Cons have "key_ok (foldl box2df_merge (box2df_merge b k) ks) \<and>
      (\<forall>k' \<in> set (box2df_merge b k # ks). key_covers (foldl box2df_merge (box2df_merge b k) ks) k')"
    by simp
  with m show ?case by (auto intro: key_covers_trans)
qed (simp add: key_covers_refl)

text \<open>
  The internal test of the containment operators needs numbers: an empty entry satisfies \<open>~\<close> for a
  box, and \<open>@\<close> holds of it and of an empty query, but the key above may be turned away.
\<close>

definition empty_lost :: "strategy \<Rightarrow> box2df \<Rightarrow> box2df \<Rightarrow> bool" where
  "empty_lost s k q \<longleftrightarrow> s \<in> {RTContains, RTOldContains} \<and> box_nan k \<and> \<not> box_nan q \<or>
     s \<in> {RTContainedBy, RTOldContainedBy} \<and> (box_nan k \<or> box_nan q)"

lemma nan_no_miss:
  assumes "box_nan k \<or> box_nan q" "box_num q \<or> box_nan q" "key_covers k' k" "\<not> empty_lost s k q"
    "gserialized_gist_consistent_leaf_2d k q s"
  shows "gserialized_gist_consistent_internal_2d k' q s"
  using assms
  by (cases s) (auto simp: gserialized_gist_consistent_leaf_2d_def gserialized_gist_consistent_internal_2d_def
      empty_lost_def box_nan_def box_num_def key_covers_def operators_2d)

interpretation gist2d: gist_class key_ok key_covers gserialized_gist_union_2d
  "\<lambda>k (q, s). gserialized_gist_consistent_2d False (Some k) (Some q) s"
  "\<lambda>k (q, s). gserialized_gist_consistent_2d True (Some k) (Some q) s"
  "\<lambda>k (q, s). (box_num q \<or> box_nan q) \<and> \<not> empty_lost s k q"
proof unfold_locales
  show "key_covers (gserialized_gist_union_2d ks) k" if "list_all key_ok ks" "k \<in> set ks" for ks k
    using that union_key_fold [of "hd ks" "tl ks"] by (cases ks) (auto simp: gserialized_gist_union_2d_def)
  fix k k' and qs :: "box2df \<times> strategy"
  assume *: "case qs of (q, s) \<Rightarrow> (box_num q \<or> box_nan q) \<and> \<not> empty_lost s k q" "key_covers k' k"
    "case qs of (q, s) \<Rightarrow> gserialized_gist_consistent_2d True (Some k) (Some q) s"
  obtain q s where qs: "qs = (q, s)" by (cases qs)
  show "case qs of (q, s) \<Rightarrow> gserialized_gist_consistent_2d False (Some k') (Some q) s"
  proof (cases "box_nan k \<or> box_nan q")
    case True
    with * nan_no_miss [of k q k' s] show ?thesis by (simp add: qs gserialized_gist_consistent_2d_def)
  next
    case False
    with * consistent_no_miss [of q k' k s] show ?thesis
      by (simp add: qs gserialized_gist_consistent_2d_def key_covers_def)
  qed
qed (rule key_covers_trans)

text \<open>
  C10. The index search is never turned away from a match. Take the key of any page above an entry, made by
  any number of unions of boxes with ordered bounds and of empty keys (four NaNs). Whenever the
  entry satisfies an operator of the class for a query box, the test of internal keys lets the
  search pass that key, for every operator; except that entries of empty geometries may be lost
  for \<open>~\<close> and \<open>@\<close>, and an empty query for \<open>@\<close>.
\<close>

theorem gist_2d_never_prunes:
  assumes "key_above key_ok gserialized_gist_union_2d k k'" "box_num q \<or> box_nan q" "\<not> empty_lost s k q"
    and "gserialized_gist_consistent_2d True (Some k) (Some q) s"
  shows "gserialized_gist_consistent_2d False (Some k') (Some q) s"
  using gist2d.never_prunes [OF assms(1), of "(q, s)"] assms(2-4) by simp

text \<open>The exception is real: an empty entry satisfies \<open>@\<close>, and no key lets the search pass that does not meet the query.\<close>

lemma gist_2d_empty_within_lost:
  assumes "box_nan k" "box_num q" "\<not> box2df_overlaps (Some k') (Some q)"
  shows "gserialized_gist_consistent_2d True (Some k) (Some q) RTContainedBy \<and>
    \<not> gserialized_gist_consistent_2d False (Some k') (Some q) RTContainedBy"
  using assms
  by (auto simp: gserialized_gist_consistent_2d_def gserialized_gist_consistent_leaf_2d_def
      gserialized_gist_consistent_internal_2d_def box_nan_def box_num_def box2df_within_def both_def box2df_is_empty_def)

text \<open>
  The key of a page is the least box around its entries: it covers every one of them,
  and every box that covers them all covers it.
\<close>

theorem gserialized_gist_union_2d_least:
  assumes "keys \<noteq> []" "list_all box_ok keys"
  shows "box_ok (gserialized_gist_union_2d keys) \<and>
    (\<forall>b. box_ok b \<longrightarrow> (box2df_contains (Some b) (Some (gserialized_gist_union_2d keys)) \<longleftrightarrow>
      (\<forall>k \<in> set keys. box2df_contains (Some b) (Some k))))"
proof -
  let ?u = "gserialized_gist_union_2d keys"
  obtain k ks where k: "keys = k # ks" using assms(1) by (cases keys) auto
  have ok: "box_ok ?u" and up: "\<And>k. k \<in> set keys \<Longrightarrow> covers_2d ?u k"
    and least: "\<And>c. (\<forall>k \<in> set keys. covers_2d c k) \<Longrightarrow> covers_2d c ?u"
    using union_fold [of k ks] assms(2) by (auto simp: gserialized_gist_union_2d_def k)
  have keys: "box_ok k" if "k \<in> set keys" for k using assms(2) that by (auto simp: list_all_iff)
  have "box2df_contains (Some b) (Some ?u) \<longleftrightarrow> (\<forall>k \<in> set keys. box2df_contains (Some b) (Some k))" if "box_ok b" for b
    using that ok keys up least covers_2d_trans [of b ?u] unfolding covers_2d_def by blast
  with ok show ?thesis by blast
qed

section \<open>Witnesses\<close>

definition unit_box :: "float32 \<Rightarrow> box2df" where
  "unit_box x = \<lparr>bxmin = 0, bxmax = x, bymin = 0, bymax = x\<rparr>"

lemma unit_box_ok: "box_ok (unit_box 0)" "box_ok (unit_box 0x3F800000)"
  by (simp_all add: box_ok_def box_num_def unit_box_def flt_isnan_def flt_ord_def flt_mag_def flt_neg_def
      unsigned_take_bit_eq take_bit_eq_mod)

theorem gist_2d_never_prunes_witness:
  "gserialized_gist_consistent_2d False
     (Some (gserialized_gist_union_2d [box2df_set_empty, gserialized_gist_union_2d [unit_box 0, unit_box 0x3F800000]]))
     (Some (unit_box 0)) RTOverlap"
proof -
  have nan: "flt_isnan flt_nan" by (simp add: flt_isnan_def flt_mag_def unsigned_take_bit_eq take_bit_eq_mod)
  have keys: "list_all key_ok [unit_box 0, unit_box 0x3F800000]" "key_ok box2df_set_empty"
    using unit_box_ok nan by (simp_all add: key_ok_def box_nan_def box2df_set_empty_def)
  moreover have "key_ok (gserialized_gist_union_2d [unit_box 0, unit_box 0x3F800000])"
    using union_key_fold [of "unit_box 0" "[unit_box 0x3F800000]"] keys by (simp add: gserialized_gist_union_2d_def)
  ultimately have "key_above key_ok gserialized_gist_union_2d (unit_box 0)
      (gserialized_gist_union_2d [box2df_set_empty, gserialized_gist_union_2d [unit_box 0, unit_box 0x3F800000]])"
    by (intro key_above.inner [OF key_above.page [OF keys(1)]]) simp_all
  from gist_2d_never_prunes [OF this, of "unit_box 0" RTOverlap] box_ok_num [OF unit_box_ok(1)] unit_box_ok(1)
  show ?thesis
    by (simp add: empty_lost_def gserialized_gist_consistent_2d_def gserialized_gist_consistent_leaf_2d_def operators_2d
        box_ok_def box_num_def)
qed

theorem gserialized_gist_union_2d_least_witness:
  "box_ok (gserialized_gist_union_2d [unit_box 0, unit_box 0x3F800000])"
  using gserialized_gist_union_2d_least [of "[unit_box 0, unit_box 0x3F800000]"] unit_box_ok by simp

end
