(* ===== verification/CmpSort.thy ===== *)
theory CmpSort
  imports Main "HOL-Library.Multiset"
begin

text \<open>
  Sorting by a C comparison function, whose sign tells the order, and the median of sorted lists:
  shared by the theories whose code calls \<open>qsort\<close>. The sort is an instance of the library
  function, not a model of it; the models take the library function as a parameter.
\<close>

fun cmp_insert :: "('a \<Rightarrow> 'a \<Rightarrow> int) \<Rightarrow> 'a \<Rightarrow> 'a list \<Rightarrow> 'a list" where
  "cmp_insert cmp x [] = [x]"
| "cmp_insert cmp x (y # ys) = (if cmp x y \<le> 0 then x # y # ys else y # cmp_insert cmp x ys)"

fun cmp_sort :: "('a \<Rightarrow> 'a \<Rightarrow> int) \<Rightarrow> 'a list \<Rightarrow> 'a list" where
  "cmp_sort cmp [] = []"
| "cmp_sort cmp (x # xs) = cmp_insert cmp x (cmp_sort cmp xs)"

lemma mset_cmp_sort: "mset (cmp_sort cmp xs) = mset xs"
proof (induction xs)
  case (Cons x xs)
  have "mset (cmp_insert cmp x ys) = add_mset x (mset ys)" for ys by (induction ys) auto
  with Cons show ?case by simp
qed simp

lemma sorted_cmp_sort:
  assumes "\<And>a b. a \<in> set xs \<Longrightarrow> b \<in> set xs \<Longrightarrow> cmp a b \<le> 0 \<longleftrightarrow> key a \<le> (key b :: int)"
  shows "sorted_wrt (\<lambda>a b. cmp a b \<le> 0) (cmp_sort cmp xs)"
proof -
  have set_insert: "set (cmp_insert cmp x ys) = insert x (set ys)" for x ys by (induction ys) auto
  have insert: "sorted_wrt (\<lambda>a b. cmp a b \<le> 0) (cmp_insert cmp x ys)"
    if "sorted_wrt (\<lambda>a b. cmp a b \<le> 0) ys" "x \<in> set xs" "set ys \<subseteq> set xs" for x ys
    using that by (induction ys) (auto simp: assms set_insert subset_iff intro: order_trans)
  have "set (cmp_sort cmp ys) = set ys" for ys using mset_eq_setD [OF mset_cmp_sort] .
  then have "sorted_wrt (\<lambda>a b. cmp a b \<le> 0) (cmp_sort cmp ys)" if "set ys \<subseteq> set xs" for ys
    using that by (induction ys) (auto intro!: insert)
  then show ?thesis by simp
qed

text \<open>If the elements of one list are below those of another, so are their order statistics.\<close>

lemma sorted_count_le:
  fixes xs :: "int list"
  assumes "sorted xs" "k < length xs"
  shows "xs ! k \<le> c \<longleftrightarrow> k < length (filter (\<lambda>x. x \<le> c) xs)"
proof -
  have "length (filter (\<lambda>x. x \<le> c) xs) = card {i. i < length xs \<and> xs ! i \<le> c}"
    by (rule length_filter_conv_card)
  moreover have "xs ! k \<le> c \<Longrightarrow> {0..<Suc k} \<subseteq> {i. i < length xs \<and> xs ! i \<le> c}"
    using assms sorted_nth_mono [of xs _ k] by (fastforce simp: less_Suc_eq_le)
  moreover have "\<not> xs ! k \<le> c \<Longrightarrow> {i. i < length xs \<and> xs ! i \<le> c} \<subseteq> {0..<k}"
    using assms sorted_nth_mono [of xs k] by (auto simp: not_le) (meson leI le_less_trans not_le)
  ultimately show ?thesis
    using card_mono [of "{i. i < length xs \<and> xs ! i \<le> c}" "{0..<Suc k}"]
      card_mono [of "{0..<k}" "{i. i < length xs \<and> xs ! i \<le> c}"] by (cases "xs ! k \<le> c") auto
qed

lemma median_le:
  fixes f g :: "'a \<Rightarrow> int"
  assumes "\<And>a. a \<in> set as \<Longrightarrow> f a \<le> g a" "sorted xs" "mset xs = mset (map f as)" "sorted ys" "mset ys = mset (map g as)"
    "k < length as"
  shows "xs ! k \<le> ys ! k"
proof -
  let ?c = "ys ! k"
  have len: "length xs = length as" "length ys = length as"
    using assms(3,5) mset_eq_length by fastforce+
  have count: "length (filter P zs) = length (filter (\<lambda>a. P (h a)) as)" if "mset zs = mset (map h as)"
    for P and zs :: "int list" and h
  proof -
    have "size (filter_mset P (mset zs)) = size (filter_mset P (mset (map h as)))" using that by simp
    then show ?thesis by (simp only: mset_filter [symmetric] size_mset filter_map length_map comp_def)
  qed
  have "k < length (filter (\<lambda>x. x \<le> ?c) ys)"
    using sorted_count_le [of ys k ?c] assms(4,6) len by simp
  also have "\<dots> = length (filter (\<lambda>a. g a \<le> ?c) as)" using count [OF assms(5)] .
  also have "\<dots> \<le> length (filter (\<lambda>a. f a \<le> ?c) as)"
    unfolding length_filter_conv_card
    by (rule card_mono) (auto intro: order_trans [OF assms(1)])
  also have "\<dots> = length (filter (\<lambda>x. x \<le> ?c) xs)" using count [OF assms(3)] by simp
  finally show ?thesis using sorted_count_le [of xs k ?c] assms(2,6) len by simp
qed

end
