(* ===== verification/Gist2DSplit.thy ===== *)
theory Gist2DSplit
  imports Gist2D "HOL-Library.Multiset"
begin

text \<open>
  The split of an overfull index page and the penalty of an insertion
  (postgis/gserialized_gist_2d.c). The keys of the page are a list; their offset numbers
  count from 1. Both calls of \<open>qsort\<close> are parameters, as the order of equal elements is not
  fixed; offset numbers are natural numbers, as a page has far fewer than \<open>2 ^ 16\<close> entries.
\<close>

section \<open>Penalties\<close>

abbreviation FLT_EPSILON :: float32 where "FLT_EPSILON \<equiv> 0x34000000"

definition flt_min :: "float32 \<Rightarrow> float32 \<Rightarrow> float32" where
  "flt_min x y = (if flt_lt x y then x else y)"

definition flt_max :: "float32 \<Rightarrow> float32 \<Rightarrow> float32" where
  "flt_max x y = (if flt_lt y x then x else y)"

definition flt_minus :: "float32 \<Rightarrow> float32" where
  "flt_minus x = x XOR 0x80000000"

definition flt_fabs :: "float32 \<Rightarrow> float32" where
  "flt_fabs x = x AND 0x7FFFFFFF"

text \<open>The bit fields of the union start at the least bit.\<close>

definition pack_float :: "float32 \<Rightarrow> byte \<Rightarrow> float32" where
  "pack_float value realm = (value AND 0x80000000) OR push_bit 30 (ucast (realm AND 1)) OR drop_bit 1 (value AND 0x7FFFFFFF)"

definition box2df_penalty :: "box2df \<Rightarrow> box2df \<Rightarrow> float32" where
  "box2df_penalty b1 b2 =
     (let box_union_xmin = flt_min (bxmin b1) (bxmin b2); box_union_xmax = flt_max (bxmax b1) (bxmax b2);
          box_union_ymin = flt_min (bymin b1) (bymin b2); box_union_ymax = flt_max (bymax b1) (bymax b2);
          b1dx = flt_sub (bxmax b1) (bxmin b1); b1dy = flt_sub (bymax b1) (bymin b1);
          box_union_dx = flt_sub box_union_xmax box_union_xmin; box_union_dy = flt_sub box_union_ymax box_union_ymin;
          box_union_area = flt_mul box_union_dx box_union_dy; box1area = flt_mul b1dx b1dy;
          box_union_edge = flt_add box_union_dx box_union_dy; box1edge = flt_add b1dx b1dy;
          area_extension = flt_sub box_union_area box1area;
          edge_extension = flt_sub box_union_edge box1edge
      in if flt_lt FLT_EPSILON area_extension then pack_float area_extension 1
         else if flt_lt FLT_EPSILON edge_extension then pack_float edge_extension 0
         else 0)"

definition box2df_penalty_single :: "box2df \<Rightarrow> float32" where
  "box2df_penalty_single box =
     (let dx = flt_sub (bxmax box) (bxmin box); dy = flt_sub (bymax box) (bymin box);
          area = flt_mul dx dy; edge = flt_add dx dy
      in if flt_lt FLT_EPSILON area then pack_float area 1
         else if flt_lt FLT_EPSILON edge then pack_float edge 0
         else 0)"

definition gserialized_gist_penalty_2d :: "box2df option \<Rightarrow> box2df option \<Rightarrow> float32" where
  "gserialized_gist_penalty_2d origentry newentry =
     (case (origentry, newentry) of
        (Some b1, Some b2) \<Rightarrow> if \<not> box2df_is_empty b1 \<and> \<not> box2df_is_empty b2 then box2df_penalty b1 b2 else 0
      | _ \<Rightarrow> 0)"

section \<open>The result of a split\<close>

text \<open>\<open>spl_ldatum_exists\<close> and \<open>spl_rdatum_exists\<close> tell that the unions have to include boxes given before.\<close>

record gist_splitvec =
  spl_left :: "nat list"
  spl_right :: "nat list"
  spl_ldatum :: "box2df option"
  spl_rdatum :: "box2df option"
  spl_ldatum_exists :: bool
  spl_rdatum_exists :: bool

definition adjustBox :: "box2df \<Rightarrow> box2df \<Rightarrow> box2df" where
  "adjustBox b addon =
     (let b = (if flt_lt (bxmax b) (bxmax addon) \<or> flt_isnan (bxmax b) then b\<lparr>bxmax := bxmax addon\<rparr> else b);
          b = (if flt_lt (bxmin addon) (bxmin b) \<or> flt_isnan (bxmin b) then b\<lparr>bxmin := bxmin addon\<rparr> else b);
          b = (if flt_lt (bymax b) (bymax addon) \<or> flt_isnan (bymax b) then b\<lparr>bymax := bymax addon\<rparr> else b)
      in if flt_lt (bymin addon) (bymin b) \<or> flt_isnan (bymin b) then b\<lparr>bymin := bymin addon\<rparr> else b)"

text \<open>A group of entries in the order in which they are placed, with its box.\<close>

type_synonym group = "nat list \<times> box2df option"

definition place :: "box2df list \<Rightarrow> nat \<Rightarrow> group \<Rightarrow> group" where
  "place keys off g =
     (case g of (offs, u) \<Rightarrow>
        (offs @ [off],
         Some (case u of None \<Rightarrow> keys ! (off - 1) | Some b \<Rightarrow> adjustBox b (keys ! (off - 1)))))"

definition adjust_existing :: "bool \<Rightarrow> box2df option \<Rightarrow> box2df option \<Rightarrow> lwerr + box2df option" where
  "adjust_existing existing datum u =
     (if \<not> existing then Inr u
      else case (u, datum) of
             (Some b, Some d) \<Rightarrow> Inr (Some (adjustBox b d))
           | _ \<Rightarrow> Inl MemFault)"

definition fallbackSplit :: "box2df list \<Rightarrow> gist_splitvec \<Rightarrow> lwerr + gist_splitvec" where
  "fallbackSplit keys v =
     (let maxoff = length keys;
          (l, r) = foldl (\<lambda>(l, r) i. if i \<le> maxoff div 2 then (place keys i l, r) else (l, place keys i r))
             (([], None), ([], None)) [1..<Suc maxoff]
      in bindE (adjust_existing (spl_ldatum_exists v) (spl_ldatum v) (snd l)) (\<lambda>unionL.
         bindE (adjust_existing (spl_rdatum_exists v) (spl_rdatum v) (snd r)) (\<lambda>unionR.
         Inr \<lparr>spl_left = fst l, spl_right = fst r, spl_ldatum = unionL, spl_rdatum = unionR,
              spl_ldatum_exists = False, spl_rdatum_exists = False\<rparr>)))"

section \<open>Choosing a split\<close>

record split_interval =
  lower_bound :: float32
  upper_bound :: float32

definition interval_cmp_lower :: "split_interval \<Rightarrow> split_interval \<Rightarrow> int" where
  "interval_cmp_lower i1 i2 =
     (if flt_isnan (lower_bound i1) then (if flt_isnan (lower_bound i2) then 0 else 1)
      else if flt_isnan (lower_bound i2) then -1
      else if flt_lt (lower_bound i1) (lower_bound i2) then -1
      else if flt_lt (lower_bound i2) (lower_bound i1) then 1 else 0)"

definition interval_cmp_upper :: "split_interval \<Rightarrow> split_interval \<Rightarrow> int" where
  "interval_cmp_upper i1 i2 =
     (if flt_isnan (upper_bound i1) then (if flt_isnan (upper_bound i2) then 0 else -1)
      else if flt_isnan (upper_bound i2) then 1
      else if flt_lt (upper_bound i1) (upper_bound i2) then -1
      else if flt_lt (upper_bound i2) (upper_bound i1) then 1 else 0)"

definition non_negative :: "float32 \<Rightarrow> float32" where
  "non_negative val = (if flt_le 0 val then val else 0)"

text \<open>\<open>first\<close>: no split has been selected yet; \<open>split_dim\<close>: the axis, 0 or 1.\<close>

record consider_split_context =
  entriesCount :: nat
  boundingBox :: box2df
  is_first :: bool
  leftUpper :: float32
  rightLower :: float32
  split_ratio :: float32
  split_overlap :: float32
  split_dim :: nat
  split_range :: float32

abbreviation LIMIT_RATIO :: double where "LIMIT_RATIO \<equiv> 0x3FD5555555555555"

definition flt_of_nat :: "nat \<Rightarrow> float32" where
  "flt_of_nat n = float_of_dbl (dbl_of_nat n)"

definition left_count :: "nat \<Rightarrow> nat \<Rightarrow> nat \<Rightarrow> nat" where
  "left_count n minLeftCount maxLeftCount =
     (if minLeftCount \<ge> (n + 1) div 2 then minLeftCount
      else if maxLeftCount \<le> n div 2 then maxLeftCount
      else n div 2)"

definition g_box_consider_split ::
  "consider_split_context \<Rightarrow> nat \<Rightarrow> float32 \<Rightarrow> nat \<Rightarrow> float32 \<Rightarrow> nat \<Rightarrow> consider_split_context" where
  "g_box_consider_split context dimNum rl minLeftCount lu maxLeftCount =
     (let leftCount = left_count (entriesCount context) minLeftCount maxLeftCount;
          rightCount = entriesCount context - leftCount;
          ratio = flt_div (flt_of_nat (min leftCount rightCount)) (flt_of_nat (entriesCount context));
          range = (if dimNum = 0 then flt_sub (bxmax (boundingBox context)) (bxmin (boundingBox context))
                   else flt_sub (bymax (boundingBox context)) (bymin (boundingBox context)));
          overlap = flt_div (flt_sub lu rl) range;
          selectthis =
            (if is_first context then True
             else if split_dim context = dimNum then
               flt_lt overlap (split_overlap context) \<or>
               (flt_eq overlap (split_overlap context) \<and> flt_lt (split_ratio context) ratio)
             else
               flt_lt (non_negative overlap) (non_negative (split_overlap context)) \<or>
               (flt_lt (split_range context) range \<and>
                flt_le (non_negative overlap) (non_negative (split_overlap context))))
      in if dbl_lt LIMIT_RATIO (dbl_of_float ratio) \<and> selectthis
         then context\<lparr>is_first := False, split_ratio := ratio, split_range := range, split_overlap := overlap,
                rightLower := rl, leftUpper := lu, split_dim := dimNum\<rparr>
         else context)"

text \<open>
  The search over the lower bounds of the right group. \<open>i1\<close> counts the entries that start
  before the right group, \<open>i2\<close> those that end in the left group.
\<close>

function skip_lower :: "split_interval list \<Rightarrow> float32 \<Rightarrow> nat \<Rightarrow> float32 \<Rightarrow> nat \<times> float32" where
  "skip_lower L rl i1 lu =
     (if i1 < length L \<and> (flt_eq rl (lower_bound (L ! i1)) \<or> flt_isnan (lower_bound (L ! i1)))
      then skip_lower L rl (Suc i1) (flt_max lu (upper_bound (L ! i1)))
      else (i1, lu))"
  by pat_completeness auto
termination by (relation "measure (\<lambda>(L, rl, i1, lu). length L - i1)") auto

function count_upper :: "split_interval list \<Rightarrow> float32 \<Rightarrow> nat \<Rightarrow> nat" where
  "count_upper U lu i2 =
     (if i2 < length U \<and> flt_le (upper_bound (U ! i2)) lu then count_upper U lu (Suc i2) else i2)"
  by pat_completeness auto
termination by (relation "measure (\<lambda>(U, lu, i2). length U - i2)") auto

declare skip_lower.simps [simp del] count_upper.simps [simp del]

lemma skip_lower_ge: "i \<le> fst (skip_lower L rl i lu)"
  by (induction L rl i lu rule: skip_lower.induct) (subst skip_lower.simps, auto)

text \<open>Every turn either passes an entry or finds the lower bound that the next turn passes.\<close>

definition lower_measure :: "split_interval list \<Rightarrow> nat \<Rightarrow> float32 \<Rightarrow> nat" where
  "lower_measure L i1 rl = 2 * (length L - i1) + (if fst (skip_lower L rl i1 0) = i1 then 1 else 0)"

lemma skip_lower_fst: "fst (skip_lower L rl i lu) = fst (skip_lower L rl i lu')"
proof (induction L rl i lu arbitrary: lu' rule: skip_lower.induct)
  case (1 L rl i lu)
  show ?case
  proof (cases "i < length L \<and> (flt_eq rl (lower_bound (L ! i)) \<or> flt_isnan (lower_bound (L ! i)))")
    case True
    show ?thesis
      unfolding skip_lower.simps [of L rl i lu] skip_lower.simps [of L rl i lu'] if_P [OF True]
      by (rule 1 [OF True])
  next
    case False
    show ?thesis
      unfolding skip_lower.simps [of L rl i lu] skip_lower.simps [of L rl i lu'] if_not_P [OF False] by simp
  qed
qed

lemma skip_lower_moves:
  assumes "i < length L" "flt_eq rl (lower_bound (L ! i)) \<or> flt_isnan (lower_bound (L ! i))"
  shows "i < fst (skip_lower L rl i lu)"
  using skip_lower_ge [of "Suc i"] assms by (subst skip_lower.simps) (auto simp: Suc_le_eq)

lemma skip_lower_stops:
  assumes "skip_lower L rl i lu = (j, lu')" "j < length L"
  shows "\<not> flt_isnan (lower_bound (L ! j))" "\<not> flt_eq rl (lower_bound (L ! j))"
  using assms
  by (induction L rl i lu rule: skip_lower.induct)
    (subst (asm) skip_lower.simps, auto split: if_splits)+

lemma lower_measure_less:
  assumes "skip_lower L rl i lu = (j, lu')" "j < length L"
  shows "lower_measure L j (lower_bound (L ! j)) < lower_measure L i rl"
proof -
  have next_turn: "j < fst (skip_lower L (lower_bound (L ! j)) j 0)"
    using skip_lower_moves [of j L "lower_bound (L ! j)" 0] skip_lower_stops [OF assms] assms(2)
    by (auto simp: flt_eq_def)
  have "i \<le> j" using skip_lower_ge [of i L rl lu] assms(1) by simp
  moreover have "fst (skip_lower L rl i 0) = j" using skip_lower_fst [of L rl i 0 lu] assms(1) by simp
  ultimately show ?thesis using next_turn assms(2) by (auto simp: lower_measure_def)
qed

function lower_splits ::
  "split_interval list \<Rightarrow> split_interval list \<Rightarrow> nat \<Rightarrow> consider_split_context \<Rightarrow> nat \<Rightarrow> nat \<Rightarrow> float32 \<Rightarrow> float32
     \<Rightarrow> consider_split_context" where
  "lower_splits L U dim context i1 i2 rl lu =
     (case skip_lower L rl i1 lu of
        (i1', lu') \<Rightarrow>
          if i1' \<ge> length L then context
          else
            let rl' = lower_bound (L ! i1'); i2' = count_upper U lu' i2
            in lower_splits L U dim (g_box_consider_split context dim rl' i1' lu' i2') i1' i2' rl' lu')"
  by pat_completeness auto
termination
  by (relation "measure (\<lambda>(L, U, dim, context, i1, i2, rl, lu). lower_measure L i1 rl)")
    (auto intro: lower_measure_less [OF sym])

text \<open>
  The search over the upper bounds of the left group, from the end. The indices of the
  source are one less than \<open>j1\<close> and \<open>j2\<close>, which are the counts it passes on.
\<close>

fun skip_upper :: "split_interval list \<Rightarrow> float32 \<Rightarrow> nat \<Rightarrow> float32 \<Rightarrow> nat \<times> float32" where
  "skip_upper U lu 0 rl = (0, rl)"
| "skip_upper U lu (Suc i2) rl =
     (if flt_eq lu (upper_bound (U ! i2)) \<or> flt_isnan (upper_bound (U ! i2))
      then skip_upper U lu i2 (flt_min rl (lower_bound (U ! i2)))
      else (Suc i2, rl))"

fun count_lower :: "split_interval list \<Rightarrow> float32 \<Rightarrow> nat \<Rightarrow> nat" where
  "count_lower L rl 0 = 0"
| "count_lower L rl (Suc i1) = (if flt_le rl (lower_bound (L ! i1)) then count_lower L rl i1 else Suc i1)"

lemma skip_upper_le: "fst (skip_upper U lu j rl) \<le> j"
proof (induction U lu j rl rule: skip_upper.induct)
  case (2 U lu i2 rl)
  then show ?case by (simp add: le_SucI)
qed simp

lemma skip_upper_fst: "fst (skip_upper U lu j rl) = fst (skip_upper U lu j rl')"
proof (induction U lu j rl arbitrary: rl' rule: skip_upper.induct)
  case (2 U lu i2 rl)
  show ?case
    by (cases "flt_eq lu (upper_bound (U ! i2)) \<or> flt_isnan (upper_bound (U ! i2))")
      (simp_all only: skip_upper.simps if_True if_False fst_conv, rule 2)
qed simp

lemma skip_upper_stops:
  assumes "skip_upper U lu j rl = (Suc k, rl')"
  shows "\<not> flt_isnan (upper_bound (U ! k))" "\<not> flt_eq lu (upper_bound (U ! k))"
  using assms by (induction U lu j rl rule: skip_upper.induct) (auto split: if_splits)

definition upper_measure :: "split_interval list \<Rightarrow> nat \<Rightarrow> float32 \<Rightarrow> nat" where
  "upper_measure U j lu = 2 * j + (if fst (skip_upper U lu j 0) = j then 1 else 0)"

lemma upper_measure_less:
  assumes "skip_upper U lu j rl = (Suc k, rl')"
  shows "upper_measure U (Suc k) (upper_bound (U ! k)) < upper_measure U j lu"
proof -
  have "fst (skip_upper U (upper_bound (U ! k)) (Suc k) 0) < Suc k"
    using skip_upper_le [of U "upper_bound (U ! k)" k] skip_upper_stops [OF assms]
    by (simp add: flt_eq_def le_imp_less_Suc)
  moreover have "Suc k \<le> j" using skip_upper_le [of U lu j rl] assms by simp
  moreover have "fst (skip_upper U lu j 0) = Suc k" using skip_upper_fst [of U lu j 0 rl] assms by simp
  ultimately show ?thesis by (auto simp: upper_measure_def)
qed

function upper_splits ::
  "split_interval list \<Rightarrow> split_interval list \<Rightarrow> nat \<Rightarrow> consider_split_context \<Rightarrow> nat \<Rightarrow> nat \<Rightarrow> float32 \<Rightarrow> float32
     \<Rightarrow> consider_split_context" where
  "upper_splits L U dim context j1 j2 rl lu =
     (case skip_upper U lu j2 rl of
        (0, rl') \<Rightarrow> context
      | (Suc i2, rl') \<Rightarrow>
          let lu' = upper_bound (U ! i2); j1' = count_lower L rl' j1
          in upper_splits L U dim (g_box_consider_split context dim rl' j1' lu' (Suc i2)) j1' (Suc i2) rl' lu')"
  by pat_completeness auto
termination
  by (relation "measure (\<lambda>(L, U, dim, context, j1, j2, rl, lu). upper_measure U j2 lu)")
    (auto intro: upper_measure_less [OF sym])

declare lower_splits.simps [simp del] upper_splits.simps [simp del]

definition box_interval :: "nat \<Rightarrow> box2df \<Rightarrow> split_interval" where
  "box_interval dim box =
     (if dim = 0 then \<lparr>lower_bound = bxmin box, upper_bound = bxmax box\<rparr>
      else \<lparr>lower_bound = bymin box, upper_bound = bymax box\<rparr>)"

type_synonym interval_sort = "(split_interval \<Rightarrow> split_interval \<Rightarrow> int) \<Rightarrow> split_interval list \<Rightarrow> split_interval list"

text \<open>The splits along one axis of a page that has entries.\<close>

definition consider_axis :: "interval_sort \<Rightarrow> box2df list \<Rightarrow> nat \<Rightarrow> consider_split_context \<Rightarrow> consider_split_context" where
  "consider_axis qsort keys dim context =
     (let nentries = length keys;
          intervalsLower = qsort interval_cmp_lower (map (box_interval dim) keys);
          intervalsUpper = qsort interval_cmp_upper (map (box_interval dim) keys);
          context = lower_splits intervalsLower intervalsUpper dim context 0 0
            (lower_bound (intervalsLower ! 0)) (lower_bound (intervalsUpper ! 0))
      in upper_splits intervalsLower intervalsUpper dim context nentries nentries
            (upper_bound (intervalsLower ! (nentries - 1))) (upper_bound (intervalsUpper ! (nentries - 1))))"

section \<open>Placing the entries\<close>

record common_entry =
  centry_index :: nat
  centry_delta :: float32

definition common_entry_cmp :: "common_entry \<Rightarrow> common_entry \<Rightarrow> int" where
  "common_entry_cmp i1 i2 =
     (if flt_lt (centry_delta i1) (centry_delta i2) then -1
      else if flt_lt (centry_delta i2) (centry_delta i1) then 1 else 0)"

type_synonym common_sort = "(common_entry \<Rightarrow> common_entry \<Rightarrow> int) \<Rightarrow> common_entry list \<Rightarrow> common_entry list"

text \<open>The box of a group; that of an empty group is filled with zeros.\<close>

definition group_box :: "group \<Rightarrow> box2df" where
  "group_box g = (case snd g of None \<Rightarrow> \<lparr>bxmin = 0, bxmax = 0, bymin = 0, bymax = 0\<rparr> | Some b \<Rightarrow> b)"

text \<open>One entry goes to the left, to the right or to the common entries.\<close>

definition place_entry ::
  "box2df list \<Rightarrow> consider_split_context \<Rightarrow> group \<times> group \<times> nat list \<Rightarrow> nat \<Rightarrow> group \<times> group \<times> nat list" where
  "place_entry keys context = (\<lambda>(l, r, common) i.
     let e = box_interval (split_dim context) (keys ! (i - 1))
     in if flt_le (upper_bound e) (leftUpper context) \<or> flt_isnan (upper_bound e)
        then if flt_le (rightLower context) (lower_bound e) \<or> flt_isnan (lower_bound e)
             then (l, r, common @ [i])
             else (place keys i l, r, common)
        else (l, place keys i r, common))"

definition with_delta :: "box2df list \<Rightarrow> group \<Rightarrow> group \<Rightarrow> nat \<Rightarrow> common_entry" where
  "with_delta keys l r i =
     (let box = keys ! (i - 1)
      in \<lparr>centry_index = i,
          centry_delta =
            (if fst r \<noteq> [] \<and> fst l \<noteq> []
             then flt_fabs (flt_sub (box2df_penalty (group_box l) box) (box2df_penalty (group_box r) box))
             else flt_minus (box2df_penalty_single box))\<rparr>)"

abbreviation INDEX_TUPLES_PER_PAGE :: nat where "INDEX_TUPLES_PER_PAGE \<equiv> 291"

definition dbl_ceil :: "double \<Rightarrow> nat" where
  "dbl_ceil d = (mag_val 52 (dbl_mag d) + (2 ^ 1074 - 1)) div 2 ^ 1074"

text \<open>The least number of entries of a group.\<close>

definition group_minimum :: "nat \<Rightarrow> nat" where
  "group_minimum nentries =
     (let m = dbl_ceil (dbl_mul LIMIT_RATIO (dbl_of_nat nentries))
      in if nentries > INDEX_TUPLES_PER_PAGE \<and> nentries \<le> 2 * INDEX_TUPLES_PER_PAGE
         then max m (nentries - INDEX_TUPLES_PER_PAGE) else m)"

text \<open>Whether a common entry goes to the right, with \<open>remaining\<close> common entries to place.\<close>

definition place_right :: "box2df list \<Rightarrow> nat \<Rightarrow> nat \<Rightarrow> group \<Rightarrow> group \<Rightarrow> nat \<Rightarrow> bool" where
  "place_right keys m remaining l r off =
     (let box = keys ! (off - 1);
          left_penalty = box2df_penalty (group_box l) box;
          right_penalty = box2df_penalty (group_box r) box;
          nleft = length (fst l); nright = length (fst r)
      in if nright = 0 \<and> nleft > 0 then True
         else if nleft = 0 \<and> nright > 0 then False
         else if nleft + remaining \<le> m then False
         else if nright + remaining \<le> m then True
         else if flt_lt left_penalty right_penalty then False
         else if flt_lt right_penalty left_penalty then True
         else if nleft < nright then False
         else True)"

fun distribute :: "box2df list \<Rightarrow> nat \<Rightarrow> nat list \<Rightarrow> group \<Rightarrow> group \<Rightarrow> group \<times> group" where
  "distribute keys m [] l r = (l, r)"
| "distribute keys m (off # offs) l r =
     (if place_right keys m (length (off # offs)) l r off
      then distribute keys m offs l (place keys off r)
      else distribute keys m offs (place keys off l) r)"

definition gserialized_gist_picksplit_2d ::
  "interval_sort \<Rightarrow> common_sort \<Rightarrow> box2df list \<Rightarrow> gist_splitvec \<Rightarrow> lwerr + gist_splitvec" where
  "gserialized_gist_picksplit_2d qsort qsort_common keys v =
     (if keys = [] then Inl MemFault
      else
        let context = \<lparr>entriesCount = length keys, boundingBox = foldl adjustBox (hd keys) (tl keys), is_first = True,
              leftUpper = 0, rightLower = 0, split_ratio = 0, split_overlap = 0, split_dim = 0, split_range = 0\<rparr>;
            context = consider_axis qsort keys 1 (consider_axis qsort keys 0 context)
        in if is_first context then fallbackSplit keys v
        else
          case foldl (place_entry keys context) (([], None), ([], None), []) [1..<Suc (length keys)] of
            (l, r, common) \<Rightarrow>
              (case
                 (if common = [] then (l, r)
                  else distribute keys (group_minimum (length keys))
                         (map centry_index (qsort_common common_entry_cmp (map (with_delta keys l r) common))) l r) of
                 (l, r) \<Rightarrow>
                   Inr (v\<lparr>spl_left := fst l, spl_right := fst r,
                          spl_ldatum := Some (group_box l), spl_rdatum := Some (group_box r)\<rparr>)))"

end
