(* ===== verification/Gist2DSplitOk.thy ===== *)
theory Gist2DSplitOk
  imports Gist2DSplit CmpSort
begin

text \<open>
  Correctness of the page split: the double sorting search only offers splits between whose
  groups every entry has a place, and counts them right; so both groups of the selected split get
  entries, every entry exactly one, and the boxes of the groups are the unions of their entries.
\<close>

section \<open>Groups\<close>

lemma adjustBox_merge: "adjustBox b a = box2df_merge b a"
  by (simp add: adjustBox_def box2df_merge_def Let_def)

lemma union_snoc: "ks \<noteq> [] \<Longrightarrow> gserialized_gist_union_2d (ks @ [k]) = box2df_merge (gserialized_gist_union_2d ks) k"
  by (simp add: gserialized_gist_union_2d_def)

definition keys_at :: "box2df list \<Rightarrow> nat list \<Rightarrow> box2df list" where
  "keys_at keys offs = map (\<lambda>i. keys ! (i - 1)) offs"

definition group_ok :: "box2df list \<Rightarrow> group \<Rightarrow> bool" where
  "group_ok keys g \<longleftrightarrow>
     snd g = (if fst g = [] then None else Some (gserialized_gist_union_2d (keys_at keys (fst g))))"

lemma group_ok_empty [simp]: "group_ok keys ([], None)"
  by (simp add: group_ok_def)

lemma place_ok: "group_ok keys g \<Longrightarrow> group_ok keys (place keys i g)"
  using union_snoc [of "keys_at keys (fst g)" "keys ! (i - 1)"]
  by (cases g) (auto simp: group_ok_def place_def adjustBox_merge keys_at_def gserialized_gist_union_2d_def split: if_splits)

lemma fst_place [simp]: "fst (place keys i g) = fst g @ [i]"
  by (cases g) (simp add: place_def)

lemma group_box_ok:
  "group_ok keys g \<Longrightarrow> fst g \<noteq> [] \<Longrightarrow> group_box g = gserialized_gist_union_2d (keys_at keys (fst g))"
  by (simp add: group_ok_def group_box_def)

lemma distribute_ok:
  assumes "distribute keys m offs l r = (l', r')" "group_ok keys l" "group_ok keys r"
  shows "group_ok keys l'" "group_ok keys r'"
    "mset (fst l') + mset (fst r') = mset (fst l) + mset (fst r) + mset offs"
  using assms
  by (induction offs arbitrary: l r) (auto simp: place_ok split: if_splits)

lemma place_right_forced:
  "fst r = [] \<Longrightarrow> fst l \<noteq> [] \<Longrightarrow> place_right keys m n l r off"
  "fst l = [] \<Longrightarrow> fst r \<noteq> [] \<Longrightarrow> \<not> place_right keys m n l r off"
  by (simp_all add: place_right_def Let_def)

text \<open>Common entries fill a group that would stay empty.\<close>

lemma distribute_both:
  assumes "distribute keys m offs l r = (l', r')" "length (fst l) + length (fst r) + length offs \<ge> 2"
    "offs \<noteq> [] \<or> (fst l \<noteq> [] \<and> fst r \<noteq> [])"
  shows "fst l' \<noteq> [] \<and> fst r' \<noteq> []"
  using assms
proof (induction offs arbitrary: l r)
  case (Cons off offs)
  show ?case
  proof (cases "place_right keys m (length (off # offs)) l r off")
    case True
    then have "fst l \<noteq> [] \<or> fst r = []" using place_right_forced(2) by blast
    then have "offs \<noteq> [] \<or> fst l \<noteq> []" using Cons.prems(2) by (cases offs) auto
    with Cons.IH [of l "place keys off r"] Cons.prems True show ?thesis by auto
  next
    case False
    then have "fst r \<noteq> [] \<or> fst l = []" using place_right_forced(1) by blast
    then have "offs \<noteq> [] \<or> fst r \<noteq> []" using Cons.prems(2) by (cases offs) auto
    with Cons.IH [of "place keys off l" r] Cons.prems False show ?thesis by auto
  qed
qed auto

section \<open>Intervals\<close>

abbreviation lo :: "split_interval \<Rightarrow> int" where "lo e \<equiv> flt_ord (lower_bound e)"
abbreviation up :: "split_interval \<Rightarrow> int" where "up e \<equiv> flt_ord (upper_bound e)"

definition interval_num :: "split_interval \<Rightarrow> bool" where
  "interval_num e \<longleftrightarrow> \<not> flt_isnan (lower_bound e) \<and> \<not> flt_isnan (upper_bound e)"

lemma count_prefix:
  assumes "j \<le> length xs" "\<And>k. k < j \<Longrightarrow> P (xs ! k)" "\<And>k. j \<le> k \<Longrightarrow> k < length xs \<Longrightarrow> \<not> P (xs ! k)"
  shows "length (filter P xs) = j"
proof -
  have "\<forall>x \<in> set (take j xs). P x" "\<forall>x \<in> set (drop j xs). \<not> P x"
    using assms by (auto simp: in_set_conv_nth)
  then have "filter P (take j xs @ drop j xs) = take j xs"
    unfolding filter_append by (simp add: filter_id_conv filter_empty_conv)
  then show ?thesis using assms(1) by simp
qed

lemma count_mset: "mset xs = mset ys \<Longrightarrow> length (filter P xs) = length (filter P ys)"
  by (metis mset_filter size_mset)

text \<open>
  A split offered for selection: every entry fits to the right or to the left, \<open>mn\<close> entries
  do not fit to the right and \<open>mx\<close> fit to the left.
\<close>

definition good_split :: "split_interval list \<Rightarrow> float32 \<Rightarrow> float32 \<Rightarrow> nat \<Rightarrow> nat \<Rightarrow> bool" where
  "good_split es rl lu mn mx \<longleftrightarrow>
     (\<forall>e \<in> set es. flt_le rl (lower_bound e) \<or> flt_le (upper_bound e) lu) \<and>
     mn = length (filter (\<lambda>e. \<not> flt_le rl (lower_bound e)) es) \<and>
     mx = length (filter (\<lambda>e. flt_le (upper_bound e) lu) es)"

lemma good_splitI:
  assumes "mset L = mset es" "mset U = mset es" "\<forall>e \<in> set es. interval_num e"
    and "\<not> flt_isnan rl" "\<not> flt_isnan lu" "i1 \<le> length L" "i2 \<le> length U"
    and "\<And>k. k < i1 \<Longrightarrow> lo (L ! k) < flt_ord rl"
    and "\<And>k. i1 \<le> k \<Longrightarrow> k < length L \<Longrightarrow> flt_ord rl \<le> lo (L ! k)"
    and "\<And>k. k < i2 \<Longrightarrow> up (U ! k) \<le> flt_ord lu"
    and "\<And>k. i2 \<le> k \<Longrightarrow> k < length U \<Longrightarrow> flt_ord lu < up (U ! k)"
    and "(\<forall>k < i1. up (L ! k) \<le> flt_ord lu) \<or> (\<forall>k. i2 \<le> k \<and> k < length U \<longrightarrow> flt_ord rl \<le> lo (U ! k))"
  shows "good_split es rl lu i1 i2"
proof -
  have num: "\<And>e. e \<in> set L \<Longrightarrow> interval_num e" "\<And>e. e \<in> set U \<Longrightarrow> interval_num e"
    using assms(1-3) by (metis set_mset_mset)+
  have le: "flt_le rl (lower_bound e) \<longleftrightarrow> flt_ord rl \<le> lo e" "flt_le (upper_bound e) lu \<longleftrightarrow> up e \<le> flt_ord lu"
    if "interval_num e" for e
    using that assms(4,5) by (auto simp: flt_le_def interval_num_def)
  have "length (filter (\<lambda>e. \<not> flt_le rl (lower_bound e)) L) = i1"
    using assms(6,8,9) num(1) le(1) by (intro count_prefix) (auto simp: not_le)
  moreover have "length (filter (\<lambda>e. flt_le (upper_bound e) lu) U) = i2"
    using assms(7,10,11) num(2) le(2) by (intro count_prefix) (auto simp: not_le)
  moreover have "\<forall>e \<in> set es. flt_le rl (lower_bound e) \<or> flt_le (upper_bound e) lu"
    using assms(12)
  proof
    assume a: "\<forall>k < i1. up (L ! k) \<le> flt_ord lu"
    have "flt_ord rl \<le> lo (L ! k) \<or> up (L ! k) \<le> flt_ord lu" if "k < length L" for k
      using a assms(9) [of k] that by (cases "k < i1") auto
    then have "\<forall>e \<in> set L. flt_le rl (lower_bound e) \<or> flt_le (upper_bound e) lu"
      using num(1) le by (metis in_set_conv_nth)
    then show ?thesis using assms(1) by (metis set_mset_mset)
  next
    assume a: "\<forall>k. i2 \<le> k \<and> k < length U \<longrightarrow> flt_ord rl \<le> lo (U ! k)"
    have "flt_ord rl \<le> lo (U ! k) \<or> up (U ! k) \<le> flt_ord lu" if "k < length U" for k
      using a assms(10) [of k] that by (cases "k < i2") auto
    then have "\<forall>e \<in> set U. flt_le rl (lower_bound e) \<or> flt_le (upper_bound e) lu"
      using num(2) le by (metis in_set_conv_nth)
    then show ?thesis using assms(2) by (metis set_mset_mset)
  qed
  ultimately show ?thesis
    using count_mset [OF assms(1)] count_mset [OF assms(2)] by (simp add: good_split_def)
qed

section \<open>The search\<close>

lemma flt_max_num: "\<not> flt_isnan a \<Longrightarrow> \<not> flt_isnan b \<Longrightarrow>
    \<not> flt_isnan (flt_max a b) \<and> flt_ord (flt_max a b) = max (flt_ord a) (flt_ord b)"
  by (auto simp: flt_max_def flt_lt_def)

lemma flt_min_num: "\<not> flt_isnan a \<Longrightarrow> \<not> flt_isnan b \<Longrightarrow>
    \<not> flt_isnan (flt_min a b) \<and> flt_ord (flt_min a b) = min (flt_ord a) (flt_ord b)"
  by (auto simp: flt_min_def flt_lt_def)

lemma skip_lower_num:
  assumes "skip_lower L rl i lu = (j, lu')" "i \<le> length L" "\<forall>e \<in> set L. interval_num e"
    "\<not> flt_isnan rl" "\<not> flt_isnan lu"
  shows "\<not> flt_isnan lu' \<and> flt_ord lu \<le> flt_ord lu' \<and> i \<le> j \<and> j \<le> length L \<and>
    (\<forall>k. i \<le> k \<and> k < j \<longrightarrow> lo (L ! k) = flt_ord rl \<and> up (L ! k) \<le> flt_ord lu') \<and>
    (j < length L \<longrightarrow> lo (L ! j) \<noteq> flt_ord rl)"
  using assms
proof (induction L rl i lu rule: skip_lower.induct)
  case (1 L rl i lu)
  show ?case
  proof (cases "i < length L \<and> (flt_eq rl (lower_bound (L ! i)) \<or> flt_isnan (lower_bound (L ! i)))")
    case True
    then have e: "interval_num (L ! i)" "lo (L ! i) = flt_ord rl"
      using "1.prems"(3) by (auto simp: interval_num_def flt_eq_def)
    note m = flt_max_num [OF "1.prems"(5), of "upper_bound (L ! i)"] e(1) [unfolded interval_num_def]
    have "skip_lower L rl (Suc i) (flt_max lu (upper_bound (L ! i))) = (j, lu')"
      using "1.prems"(1) True by (subst (asm) skip_lower.simps) simp
    note IH = "1.IH" [OF True this _ "1.prems"(3,4)]
    have step: "\<not> flt_isnan lu'" "flt_ord (flt_max lu (upper_bound (L ! i))) \<le> flt_ord lu'" "Suc i \<le> j" "j \<le> length L"
      "\<And>k. Suc i \<le> k \<Longrightarrow> k < j \<Longrightarrow> lo (L ! k) = flt_ord rl \<and> up (L ! k) \<le> flt_ord lu'"
      "j < length L \<longrightarrow> lo (L ! j) \<noteq> flt_ord rl"
      using IH True m "1.prems"(5) by simp_all
    have "lo (L ! k) = flt_ord rl \<and> up (L ! k) \<le> flt_ord lu'" if "i \<le> k" "k < j" for k
      using step(2) step(5) [of k] that e(2) m "1.prems"(5) by (cases "k = i") auto
    then show ?thesis using step m "1.prems"(5) by auto
  next
    case False
    then have "j = i" "lu' = lu"
      using "1.prems"(1) by (subst (asm) skip_lower.simps, simp)+
    with False "1.prems" show ?thesis by (auto simp: flt_eq_def interval_num_def)
  qed
qed

lemma count_upper_num:
  assumes "i \<le> length U" "\<forall>e \<in> set U. interval_num e" "\<not> flt_isnan lu" "\<forall>k < i. up (U ! k) \<le> flt_ord lu"
  shows "count_upper U lu i \<le> length U \<and> (\<forall>k < count_upper U lu i. up (U ! k) \<le> flt_ord lu) \<and>
    (count_upper U lu i < length U \<longrightarrow> flt_ord lu < up (U ! count_upper U lu i))"
  using assms
proof (induction U lu i rule: count_upper.induct)
  case (1 U lu i)
  show ?case
  proof (cases "i < length U \<and> flt_le (upper_bound (U ! i)) lu")
    case True
    then have "\<forall>k < Suc i. up (U ! k) \<le> flt_ord lu"
      using "1.prems"(4) by (auto simp: less_Suc_eq flt_le_def)
    with "1.IH" [OF True] True "1.prems" show ?thesis by (subst (1 2 3 4) count_upper.simps) simp
  next
    case False
    then have "count_upper U lu i = i" by (subst count_upper.simps) (rule if_not_P)
    with False "1.prems" show ?thesis by (auto simp: flt_le_def interval_num_def)
  qed
qed

lemma skip_upper_num:
  assumes "skip_upper U lu i rl = (j, rl')" "i \<le> length U" "\<forall>e \<in> set U. interval_num e"
    "\<not> flt_isnan rl" "\<not> flt_isnan lu"
  shows "\<not> flt_isnan rl' \<and> flt_ord rl' \<le> flt_ord rl \<and> j \<le> i \<and>
    (\<forall>k. j \<le> k \<and> k < i \<longrightarrow> up (U ! k) = flt_ord lu \<and> flt_ord rl' \<le> lo (U ! k)) \<and>
    (0 < j \<longrightarrow> up (U ! (j - 1)) \<noteq> flt_ord lu)"
  using assms
proof (induction U lu i rl rule: skip_upper.induct)
  case (2 U lu i rl)
  have n: "interval_num (U ! i)" using "2.prems" by simp
  note m = flt_min_num [OF "2.prems"(4), of "lower_bound (U ! i)"] n [unfolded interval_num_def]
  show ?case
  proof (cases "flt_eq lu (upper_bound (U ! i))")
    case True
    have "skip_upper U lu i (flt_min rl (lower_bound (U ! i))) = (j, rl')" using "2.prems"(1) True by simp
    from "2.IH" [OF disjI1 [OF True] this] True m "2.prems" show ?thesis
      by (auto simp: less_Suc_eq flt_eq_def)
  next
    case False
    then have "j = Suc i" "rl' = rl" using "2.prems"(1) m by auto
    with False "2.prems" m show ?thesis by (auto simp: flt_eq_def)
  qed
qed auto

lemma count_lower_num:
  assumes "i \<le> length L" "\<forall>e \<in> set L. interval_num e" "\<not> flt_isnan rl"
    "\<forall>k. i \<le> k \<and> k < length L \<longrightarrow> flt_ord rl \<le> lo (L ! k)"
  shows "count_lower L rl i \<le> length L \<and> (\<forall>k. count_lower L rl i \<le> k \<and> k < length L \<longrightarrow> flt_ord rl \<le> lo (L ! k)) \<and>
    (0 < count_lower L rl i \<longrightarrow> lo (L ! (count_lower L rl i - 1)) < flt_ord rl)"
  using assms
proof (induction L rl i rule: count_lower.induct)
  case (2 L rl i)
  have n: "interval_num (L ! i)" using "2.prems" by simp
  show ?case
  proof (cases "flt_le rl (lower_bound (L ! i))")
    case True
    have "flt_ord rl \<le> lo (L ! k)" if "i \<le> k" "k < length L" for k
      using "2.prems"(4) that True by (cases "k = i") (auto simp: flt_le_def)
    with "2.IH" [OF True] True "2.prems" show ?thesis by simp
  next
    case False
    then show ?thesis using "2.prems" n by (auto simp: flt_le_def interval_num_def)
  qed
qed auto

section \<open>The selected split\<close>

text \<open>A quotient of zero is not above the limit.\<close>

lemma zero_ratio: "\<not> dbl_lt LIMIT_RATIO (dbl_of_float (flt_div (flt_of_nat 0) x))"
proof -
  have z: "flt_of_nat 0 = 0" "dbl_of_float 0 = 0"
    by (simp_all add: flt_of_nat_def dbl_of_nat_def float_of_dbl_def dbl_of_float_def flt_pack_def mag_narrow_def
        mag_widen_def flt_isnan_def flt_isfinite_def flt_neg_def flt_mag_def float64_eval)
  have cases: "dbl_div 0 y \<in> {dbl_nan, dbl_pack False 0, dbl_pack True 0}" for y
    by (cases "dbl_neg 0 = dbl_neg y")
      (auto simp: dbl_div_def Let_def dbl_isinf_def dbl_isnan_def dbl_mag_def mag_val_def mag_round_def round_quot_def)
  have no: "\<not> dbl_lt LIMIT_RATIO (dbl_of_float (float_of_dbl dbl_nan))"
    "\<not> dbl_lt LIMIT_RATIO (dbl_of_float (float_of_dbl (dbl_pack False 0)))"
    "\<not> dbl_lt LIMIT_RATIO (dbl_of_float (float_of_dbl (dbl_pack True 0)))"
    by (simp_all add: dbl_lt_def dbl_ord_def float_of_dbl_def dbl_of_float_def flt_pack_def mag_narrow_def
        mag_widen_def flt_isnan_def flt_isfinite_def flt_neg_def flt_mag_def float64_eval)
  show ?thesis using cases [of "dbl_of_float x"] no unfolding flt_div_def z by auto
qed

definition split_ok :: "box2df list \<Rightarrow> consider_split_context \<Rightarrow> bool" where
  "split_ok keys ctx \<longleftrightarrow> entriesCount ctx = length keys \<and>
     (is_first ctx \<or>
      (\<exists>mn mx. good_split (map (box_interval (split_dim ctx)) keys) (rightLower ctx) (leftUpper ctx) mn mx \<and>
         0 < left_count (length keys) mn mx \<and> left_count (length keys) mn mx < length keys))"

lemma consider_split_ok:
  assumes "split_ok keys ctx" "good_split (map (box_interval dim) keys) rl lu mn mx"
  shows "split_ok keys (g_box_consider_split ctx dim rl mn lu mx)"
proof -
  let ?n = "entriesCount ctx" and ?c = "left_count (entriesCount ctx) mn mx"
  have n: "?n = length keys" using assms(1) by (simp add: split_ok_def)
  have "0 < ?c \<and> ?c < ?n"
    if "dbl_lt LIMIT_RATIO (dbl_of_float (flt_div (flt_of_nat (min ?c (?n - ?c))) (flt_of_nat ?n)))"
    using that zero_ratio [of "flt_of_nat ?n"] by (cases "min ?c (?n - ?c) = 0") (auto simp: min_def split: if_splits)
  then show ?thesis
    using assms n unfolding g_box_consider_split_def Let_def split_ok_def by auto
qed

text \<open>The two sorted arrays of the intervals of an axis.\<close>

definition axis_sorted :: "box2df list \<Rightarrow> nat \<Rightarrow> split_interval list \<Rightarrow> split_interval list \<Rightarrow> bool" where
  "axis_sorted keys dim L U \<longleftrightarrow>
     sorted_wrt (\<lambda>a b. lo a \<le> lo b) L \<and> sorted_wrt (\<lambda>a b. up a \<le> up b) U \<and>
     mset L = mset (map (box_interval dim) keys) \<and> mset U = mset (map (box_interval dim) keys) \<and>
     (\<forall>e \<in> set (map (box_interval dim) keys). interval_num e)"

lemma axis_sortedD:
  assumes "axis_sorted keys dim L U"
  shows "mset L = mset (map (box_interval dim) keys)" "mset U = mset (map (box_interval dim) keys)"
    "\<forall>e \<in> set (map (box_interval dim) keys). interval_num e"
    "\<forall>e \<in> set L. interval_num e" "\<forall>e \<in> set U. interval_num e"
    "length L = length keys" "length U = length keys"
    "\<And>j k. j \<le> k \<Longrightarrow> k < length L \<Longrightarrow> lo (L ! j) \<le> lo (L ! k)"
    "\<And>j k. j \<le> k \<Longrightarrow> k < length U \<Longrightarrow> up (U ! j) \<le> up (U ! k)"
proof -
  note a = assms [unfolded axis_sorted_def]
  show m: "mset L = mset (map (box_interval dim) keys)" "mset U = mset (map (box_interval dim) keys)"
    and num: "\<forall>e \<in> set (map (box_interval dim) keys). interval_num e"
    using a by blast+
  show "\<forall>e \<in> set L. interval_num e" "\<forall>e \<in> set U. interval_num e"
    using num mset_eq_setD [OF m(1)] mset_eq_setD [OF m(2)] by simp_all
  show "length L = length keys" "length U = length keys"
    using mset_eq_length [OF m(1)] mset_eq_length [OF m(2)] by simp_all
  show "lo (L ! j) \<le> lo (L ! k)" if "j \<le> k" "k < length L" for j k
    using a sorted_wrt_nth_less [of _ L j k] that by (cases "j = k") auto
  show "up (U ! j) \<le> up (U ! k)" if "j \<le> k" "k < length U" for j k
    using a sorted_wrt_nth_less [of _ U j k] that by (cases "j = k") auto
qed

lemma lower_splits_ok:
  assumes "axis_sorted keys dim L U" "split_ok keys ctx"
    "i1 \<le> length L" "i2 \<le> length U" "\<not> flt_isnan rl" "\<not> flt_isnan lu"
    "\<forall>k < i1. lo (L ! k) \<le> flt_ord rl \<and> up (L ! k) \<le> flt_ord lu"
    "\<forall>k. i1 \<le> k \<and> k < length L \<longrightarrow> flt_ord rl \<le> lo (L ! k)" "\<forall>k < i2. up (U ! k) \<le> flt_ord lu"
  shows "split_ok keys (lower_splits L U dim ctx i1 i2 rl lu)"
  using assms
proof (induction L U dim ctx i1 i2 rl lu rule: lower_splits.induct)
  case (1 L U dim ctx i1 i2 rl lu)
  note ax = axis_sortedD [OF "1.prems"(1)]
  obtain j lu' where sk: "skip_lower L rl i1 lu = (j, lu')" by fastforce
  note s = skip_lower_num [OF sk "1.prems"(3) ax(4) "1.prems"(5,6)]
  show ?case
  proof (cases "j < length L")
    case False
    then show ?thesis using "1.prems"(2) sk by (subst lower_splits.simps) simp
  next
    case True
    define rl' i2' where d: "rl' = lower_bound (L ! j)" "i2' = count_upper U lu' i2"
    have rl': "\<not> flt_isnan rl'" using ax(4) True by (simp add: d interval_num_def)
    have "flt_ord rl \<le> flt_ord rl'" using "1.prems"(8) s True by (simp add: d)
    moreover have "flt_ord rl' \<noteq> flt_ord rl" using s True by (simp add: d)
    ultimately have less: "flt_ord rl < flt_ord rl'" by simp
    have below: "lo (L ! k) < flt_ord rl' \<and> up (L ! k) \<le> flt_ord lu'" if "k < j" for k
      using "1.prems"(7) s less that by (cases "k < i1") (fastforce, auto)
    have above: "flt_ord rl' \<le> lo (L ! k)" if "j \<le> k" "k < length L" for k
      using ax(8) that by (simp add: d)
    have "\<forall>k < i2. up (U ! k) \<le> flt_ord lu'" using "1.prems"(9) s by fastforce
    note c = count_upper_num [OF "1.prems"(4) ax(5) _ this, folded d(2)]
    have right: "flt_ord lu' < up (U ! k)" if "i2' \<le> k" "k < length U" for k
      using ax(9) [of i2' k] c s that by fastforce
    have good: "good_split (map (box_interval dim) keys) rl' lu' j i2'"
      using s c below above right rl' by (intro good_splitI [OF ax(1,2,3)]) auto
    have "split_ok keys (lower_splits L U dim (g_box_consider_split ctx dim rl' j lu' i2') j i2' rl' lu')"
      unfolding d
    proof (rule "1.IH" [OF sk [symmetric] _ refl refl "1.prems"(1)])
      show "split_ok keys (g_box_consider_split ctx dim (lower_bound (L ! j)) j lu' (count_upper U lu' i2))"
        using consider_split_ok [OF "1.prems"(2) good] by (simp add: d)
    qed (use s c below above rl' True in \<open>auto simp: d less_imp_le\<close>)
    then show ?thesis using True sk by (subst lower_splits.simps) (simp add: d Let_def)
  qed
qed

lemma upper_splits_ok:
  assumes "axis_sorted keys dim L U" "split_ok keys ctx"
    "j1 \<le> length L" "j2 \<le> length U" "\<not> flt_isnan rl" "\<not> flt_isnan lu"
    "\<forall>k. j2 \<le> k \<and> k < length U \<longrightarrow> flt_ord lu \<le> up (U ! k) \<and> flt_ord rl \<le> lo (U ! k)"
    "\<forall>k < j2. up (U ! k) \<le> flt_ord lu" "\<forall>k. j1 \<le> k \<and> k < length L \<longrightarrow> flt_ord rl \<le> lo (L ! k)"
  shows "split_ok keys (upper_splits L U dim ctx j1 j2 rl lu)"
  using assms
proof (induction L U dim ctx j1 j2 rl lu rule: upper_splits.induct)
  case (1 L U dim ctx j1 j2 rl lu)
  note ax = axis_sortedD [OF "1.prems"(1)]
  obtain j rl' where sk: "skip_upper U lu j2 rl = (j, rl')" by fastforce
  note s = skip_upper_num [OF sk "1.prems"(4) ax(5) "1.prems"(5,6)]
  show ?case
  proof (cases j)
    case 0
    then show ?thesis using "1.prems"(2) sk by (subst upper_splits.simps) simp
  next
    case (Suc i)
    have jU: "Suc i \<le> length U" using s "1.prems"(4) Suc by simp
    define lu' j1' where d: "lu' = upper_bound (U ! i)" "j1' = count_lower L rl' j1"
    have lu': "\<not> flt_isnan lu'" using ax(5) jU by (simp add: d interval_num_def)
    have "flt_ord lu' \<le> flt_ord lu" using "1.prems"(8) s Suc by (simp add: d)
    moreover have "flt_ord lu' \<noteq> flt_ord lu" using s Suc by (simp add: d)
    ultimately have less: "flt_ord lu' < flt_ord lu" by simp
    have above: "flt_ord lu' < up (U ! k) \<and> flt_ord rl' \<le> lo (U ! k)" if "Suc i \<le> k" "k < length U" for k
      using spec [OF "1.prems"(7), of k] s less that Suc by (cases "k < j2") fastforce+
    have below: "up (U ! k) \<le> flt_ord lu'" if "k < Suc i" for k
      using ax(9) [of k i] that jU by (simp add: d)
    have "\<forall>k. j1 \<le> k \<and> k < length L \<longrightarrow> flt_ord rl' \<le> lo (L ! k)" using "1.prems"(9) s by fastforce
    note c = count_lower_num [OF "1.prems"(3) ax(4) _ this, folded d(2)]
    have left: "lo (L ! k) < flt_ord rl'" if "k < j1'" for k
      using ax(8) [of k "j1' - 1"] c s that by fastforce
    have good: "good_split (map (box_interval dim) keys) rl' lu' j1' (Suc i)"
      using s c below above left lu' jU by (intro good_splitI [OF ax(1,2,3)]) auto
    have "split_ok keys (upper_splits L U dim (g_box_consider_split ctx dim rl' j1' lu' (Suc i)) j1' (Suc i) rl' lu')"
      unfolding d
    proof (rule "1.IH" [OF sk [symmetric, unfolded Suc] refl refl refl "1.prems"(1)])
      show "split_ok keys (g_box_consider_split ctx dim rl' (count_lower L rl' j1) (upper_bound (U ! i)) (Suc i))"
        using consider_split_ok [OF "1.prems"(2) good] by (simp add: d)
    qed (use s c below above lu' jU in \<open>auto simp: d less_imp_le\<close>)
    then show ?thesis using sk Suc by (subst upper_splits.simps) (simp add: d Let_def)
  qed
qed

section \<open>The whole split\<close>

text \<open>What the source needs of \<open>qsort\<close>: a permutation, ordered when the elements are intervals.\<close>

definition sorts_intervals :: "interval_sort \<Rightarrow> bool" where
  "sorts_intervals qsort \<longleftrightarrow> (\<forall>cmp \<in> {interval_cmp_lower, interval_cmp_upper}. \<forall>es.
     mset (qsort cmp es) = mset es \<and> sorted_wrt (\<lambda>a b. cmp a b \<le> 0) (qsort cmp es))"

definition permutes_common :: "common_sort \<Rightarrow> bool" where
  "permutes_common qsort \<longleftrightarrow> (\<forall>cs. mset (qsort common_entry_cmp cs) = mset cs)"

lemma axis_sorted_qsort:
  assumes "sorts_intervals qsort" "list_all box_ok keys"
  shows "axis_sorted keys dim (qsort interval_cmp_lower (map (box_interval dim) keys))
    (qsort interval_cmp_upper (map (box_interval dim) keys))"
proof -
  let ?es = "map (box_interval dim) keys"
  have num: "\<forall>e \<in> set ?es. interval_num e"
    using assms(2) by (auto simp: list_all_iff box_ok_def box_num_def box_interval_def interval_num_def)
  have m: "mset (qsort interval_cmp_lower ?es) = mset ?es" "mset (qsort interval_cmp_upper ?es) = mset ?es"
    and w: "sorted_wrt (\<lambda>a b. interval_cmp_lower a b \<le> 0) (qsort interval_cmp_lower ?es)"
    "sorted_wrt (\<lambda>a b. interval_cmp_upper a b \<le> 0) (qsort interval_cmp_upper ?es)"
    using assms(1) by (auto simp: sorts_intervals_def)
  have "sorted_wrt (\<lambda>a b. lo a \<le> lo b) (qsort interval_cmp_lower ?es)"
    using num mset_eq_setD [OF m(1)]
    by (intro sorted_wrt_mono_rel [OF _ w(1)])
      (auto simp: interval_cmp_lower_def interval_num_def flt_lt_def split: if_splits)
  moreover have "sorted_wrt (\<lambda>a b. up a \<le> up b) (qsort interval_cmp_upper ?es)"
    using num mset_eq_setD [OF m(2)]
    by (intro sorted_wrt_mono_rel [OF _ w(2)])
      (auto simp: interval_cmp_upper_def interval_num_def flt_lt_def split: if_splits)
  ultimately show ?thesis using m num by (simp add: axis_sorted_def)
qed

lemma consider_axis_ok:
  assumes "sorts_intervals qsort" "list_all box_ok keys" "keys \<noteq> []" "split_ok keys ctx"
  shows "split_ok keys (consider_axis qsort keys dim ctx)"
proof -
  let ?L = "qsort interval_cmp_lower (map (box_interval dim) keys)"
  let ?U = "qsort interval_cmp_upper (map (box_interval dim) keys)"
  note a = axis_sorted_qsort [OF assms(1,2), of dim]
  note ax = axis_sortedD [OF a]
  have n: "0 < length ?L" "0 < length ?U" using ax(6,7) assms(3) by simp_all
  have num: "\<not> flt_isnan (lower_bound (?L ! 0))" "\<not> flt_isnan (lower_bound (?U ! 0))"
    "\<not> flt_isnan (upper_bound (?L ! (length keys - 1)))" "\<not> flt_isnan (upper_bound (?U ! (length keys - 1)))"
    using ax(4,5) n ax(6,7) by (auto simp: interval_num_def)
  have "split_ok keys (lower_splits ?L ?U dim ctx 0 0 (lower_bound (?L ! 0)) (lower_bound (?U ! 0)))"
    using ax(8) n num by (intro lower_splits_ok [OF a assms(4)]) auto
  then show ?thesis
    unfolding consider_axis_def Let_def
    using ax(6,7) ax(9) n num by (intro upper_splits_ok [OF a]) auto
qed

text \<open>The three groups of entries under a split.\<close>

definition fits_left :: "consider_split_context \<Rightarrow> box2df \<Rightarrow> bool" where
  "fits_left ctx b \<longleftrightarrow> (let e = upper_bound (box_interval (split_dim ctx) b) in flt_le e (leftUpper ctx) \<or> flt_isnan e)"

definition fits_right :: "consider_split_context \<Rightarrow> box2df \<Rightarrow> bool" where
  "fits_right ctx b \<longleftrightarrow> (let e = lower_bound (box_interval (split_dim ctx) b) in flt_le (rightLower ctx) e \<or> flt_isnan e)"

lemma place_entry_fits: "place_entry keys ctx (l, r, c) i =
    (if fits_left ctx (keys ! (i - 1))
     then if fits_right ctx (keys ! (i - 1)) then (l, r, c @ [i]) else (place keys i l, r, c)
     else (l, place keys i r, c))"
  by (simp add: place_entry_def fits_left_def fits_right_def Let_def)

lemma place_entries:
  assumes "foldl (place_entry keys ctx) (l, r, c) offs = (l', r', c')" "group_ok keys l" "group_ok keys r"
  shows "group_ok keys l' \<and> group_ok keys r' \<and>
    fst l' = fst l @ filter (\<lambda>i. fits_left ctx (keys ! (i - 1)) \<and> \<not> fits_right ctx (keys ! (i - 1))) offs \<and>
    fst r' = fst r @ filter (\<lambda>i. \<not> fits_left ctx (keys ! (i - 1))) offs \<and>
    c' = c @ filter (\<lambda>i. fits_left ctx (keys ! (i - 1)) \<and> fits_right ctx (keys ! (i - 1))) offs"
  using assms
proof (induction offs arbitrary: l r c)
  case (Cons i offs)
  obtain l1 r1 c1 where st: "place_entry keys ctx (l, r, c) i = (l1, r1, c1)" by (metis prod_cases3)
  moreover have "group_ok keys l1 \<and> group_ok keys r1"
    using st Cons.prems(2,3) by (auto simp: place_entry_fits place_ok split: if_splits)
  ultimately show ?case
    using Cons.IH [of l1 r1 c1] Cons.prems(1) by (auto simp: place_entry_fits split: if_splits)
qed simp

lemma filter_offsets: "length (filter (\<lambda>i. P (keys ! (i - 1))) [1..<Suc (length keys)]) = length (filter P keys)"
proof -
  have "keys = map (\<lambda>i. keys ! (i - 1)) [1..<Suc (length keys)]"
    by (rule nth_equalityI) (simp_all add: nth_append del: upt_Suc)
  then have "filter P keys = map (\<lambda>i. keys ! (i - 1)) (filter (\<lambda>i. P (keys ! (i - 1))) [1..<Suc (length keys)])"
    by (metis (mono_tags, lifting) filter_cong filter_map o_apply)
  then show ?thesis by simp
qed

lemma mset_filter3:
  "mset (filter (\<lambda>i. P i \<and> \<not> Q i) xs) + mset (filter (\<lambda>i. \<not> P i) xs) + mset (filter (\<lambda>i. P i \<and> Q i) xs) = mset xs"
  by (induction xs) auto

text \<open>No group is empty unless there are common entries to fill it.\<close>

lemma split_groups:
  assumes "split_ok keys ctx" "\<not> is_first ctx" "list_all box_ok keys"
  shows "(\<exists>k \<in> set keys. fits_left ctx k \<and> fits_right ctx k) \<or>
    (\<exists>k \<in> set keys. fits_left ctx k \<and> \<not> fits_right ctx k) \<and> (\<exists>k \<in> set keys. \<not> fits_left ctx k)"
proof (rule ccontr)
  let ?iv = "box_interval (split_dim ctx)" and ?n = "length keys"
  assume no: "\<not> ?thesis"
  obtain mn mx where g: "good_split (map ?iv keys) (rightLower ctx) (leftUpper ctx) mn mx"
    and c: "0 < left_count ?n mn mx" "left_count ?n mn mx < ?n"
    using assms(1,2) unfolding split_ok_def by blast
  have num: "interval_num (?iv k)" if "k \<in> set keys" for k
    using assms(3) that by (auto simp: list_all_iff box_ok_def box_num_def box_interval_def interval_num_def)
  have fl: "fits_left ctx k \<longleftrightarrow> flt_le (upper_bound (?iv k)) (leftUpper ctx)"
    and fr: "fits_right ctx k \<longleftrightarrow> flt_le (rightLower ctx) (lower_bound (?iv k))" if "k \<in> set keys" for k
    using num [OF that] by (auto simp: fits_left_def fits_right_def interval_num_def)
  have any: "fits_right ctx k \<or> fits_left ctx k" if "k \<in> set keys" for k
    using g fl [OF that] fr [OF that] that by (auto simp: good_split_def)
  have mn: "mn = length (filter (\<lambda>k. \<not> fits_right ctx k) keys)"
    using g fr by (simp add: good_split_def filter_map o_def cong: filter_cong)
  have mx: "mx = length (filter (fits_left ctx) keys)"
    using g fl by (simp add: good_split_def filter_map o_def cong: filter_cong)
  have "filter (\<lambda>k. \<not> fits_right ctx k) keys = filter (fits_left ctx) keys"
    using no any by (intro filter_cong) auto
  then have "mn = mx" using mn mx by simp
  then have "left_count ?n mn mx = mn" by (auto simp: left_count_def)
  then have "filter (fits_left ctx) keys \<noteq> []" "length (filter (fits_left ctx) keys) \<noteq> length keys"
    using c \<open>mn = mx\<close> mx by auto
  then have "\<exists>k \<in> set keys. fits_left ctx k" "\<exists>k \<in> set keys. \<not> fits_left ctx k"
    by (auto simp: filter_empty_conv) (metis filter_id_conv)
  then show False using no by blast
qed

lemma fallback_ok:
  assumes "\<not> spl_ldatum_exists v" "\<not> spl_rdatum_exists v" "2 \<le> length keys"
  shows "\<exists>l r. fallbackSplit keys v = Inr \<lparr>spl_left = fst l, spl_right = fst r, spl_ldatum = snd l, spl_rdatum = snd r,
      spl_ldatum_exists = False, spl_rdatum_exists = False\<rparr> \<and> group_ok keys l \<and> group_ok keys r \<and>
    mset (fst l) + mset (fst r) = mset [1..<Suc (length keys)] \<and> fst l \<noteq> [] \<and> fst r \<noteq> []"
proof -
  let ?step = "\<lambda>(l, r) i. if i \<le> length keys div 2 then (place keys i l, r) else (l, place keys i r)"
  have fold: "foldl ?step (l, r) offs = (l', r') \<Longrightarrow> group_ok keys l \<Longrightarrow> group_ok keys r \<Longrightarrow>
      group_ok keys l' \<and> group_ok keys r' \<and>
      fst l' = fst l @ filter (\<lambda>i. i \<le> length keys div 2) offs \<and>
      fst r' = fst r @ filter (\<lambda>i. \<not> i \<le> length keys div 2) offs" for l r l' r' offs
  proof (induction offs arbitrary: l r)
    case (Cons i offs)
    obtain l1 r1 where st: "?step (l, r) i = (l1, r1)" by fastforce
    moreover have "group_ok keys l1 \<and> group_ok keys r1"
      using st Cons.prems(2,3) by (auto simp: place_ok split: if_splits)
    ultimately show ?case using Cons.IH [of l1 r1] Cons.prems(1) by (auto split: if_splits)
  qed simp
  obtain l r where f: "foldl ?step (([], None), ([], None)) [1..<Suc (length keys)] = (l, r)"
    by (rule prod.exhaust)
  note g = fold [OF f group_ok_empty group_ok_empty]
  have "1 \<in> set (fst l)" "length keys \<in> set (fst r)" using g assms(3) by auto
  moreover have "mset (fst l) + mset (fst r) = mset [1..<Suc (length keys)]"
    using g by (simp only: fst_conv append_Nil) (simp only: mset_filter multiset_partition [symmetric])
  moreover have "fallbackSplit keys v = Inr \<lparr>spl_left = fst l, spl_right = fst r, spl_ldatum = snd l, spl_rdatum = snd r,
      spl_ldatum_exists = False, spl_rdatum_exists = False\<rparr>"
    unfolding fallbackSplit_def Let_def f by (simp add: adjust_existing_def assms(1,2))
  ultimately show ?thesis using g by (metis empty_iff list.set(1))
qed

lemma placed_ok:
  assumes "split_ok keys ctx" "\<not> is_first ctx" "list_all box_ok keys" "2 \<le> length keys"
    and p: "foldl (place_entry keys ctx) (([], None), ([], None), []) [1..<Suc (length keys)] = (l, r, common)"
    and offs: "mset offs = mset common"
    and d: "(if common = [] then (l, r) else distribute keys m offs l r) = (l', r')"
  shows "group_ok keys l' \<and> group_ok keys r' \<and> fst l' \<noteq> [] \<and> fst r' \<noteq> [] \<and>
    mset (fst l') + mset (fst r') = mset [1..<Suc (length keys)]"
proof -
  note g = place_entries [OF p group_ok_empty group_ok_empty, unfolded fst_conv append_Nil]
  have all: "mset (fst l) + mset (fst r) + mset common = mset [1..<Suc (length keys)]"
    unfolding conjunct1 [OF conjunct2 [OF conjunct2 [OF g]]] conjunct2 [OF conjunct2 [OF conjunct2 [OF g]], THEN conjunct1]
      conjunct2 [OF conjunct2 [OF conjunct2 [OF g]], THEN conjunct2] by (rule mset_filter3)
  have ok': "group_ok keys l' \<and> group_ok keys r' \<and> mset (fst l') + mset (fst r') = mset [1..<Suc (length keys)]"
    using d g all offs distribute_ok [of keys _ offs l r l' r'] by (cases "common = []") auto
  have some: "common \<noteq> [] \<or> fst l \<noteq> [] \<and> fst r \<noteq> []"
  proof -
    have at: "\<exists>i \<in> set [1..<Suc (length keys)]. keys ! (i - 1) = k" if k: "k \<in> set keys" for k
    proof -
      obtain j where "j < length keys" "keys ! j = k" using k by (auto simp: in_set_conv_nth)
      then show ?thesis by (intro bexI [of _ "Suc j"]) auto
    qed
    show ?thesis using split_groups [OF assms(1,2,3)] at g by (fastforce simp: filter_empty_conv)
  qed
  have "length (fst l) + length (fst r) + length common = length keys"
    using arg_cong [OF all, of size] by (simp del: upt_Suc)
  moreover have "length offs = length common" using offs mset_eq_length by blast
  moreover have "offs = [] \<longleftrightarrow> common = []" using offs by (metis mset_zero_iff)
  ultimately have "fst l' \<noteq> [] \<and> fst r' \<noteq> []"
    using d some assms(4) distribute_both [of keys _ offs l r l' r'] by (cases "common = []") (auto split: if_splits)
  with ok' show ?thesis by blast
qed

text \<open>
  C11. The split of a page with at least two entries puts every entry into exactly one of two
  groups, neither is empty, and the boxes of the groups are the unions of their entries.
\<close>

theorem gserialized_gist_picksplit_2d_correct:
  assumes "sorts_intervals qsort" "permutes_common qsort_common" "list_all box_ok keys" "2 \<le> length keys"
    "\<not> spl_ldatum_exists v" "\<not> spl_rdatum_exists v"
  shows "\<exists>w. gserialized_gist_picksplit_2d qsort qsort_common keys v = Inr w \<and>
    mset (spl_left w) + mset (spl_right w) = mset [1..<Suc (length keys)] \<and>
    spl_left w \<noteq> [] \<and> spl_right w \<noteq> [] \<and>
    spl_ldatum w = Some (gserialized_gist_union_2d (map (\<lambda>i. keys ! (i - 1)) (spl_left w))) \<and>
    spl_rdatum w = Some (gserialized_gist_union_2d (map (\<lambda>i. keys ! (i - 1)) (spl_right w)))"
proof -
  have result: ?thesis if w: "gserialized_gist_picksplit_2d qsort qsort_common keys v = Inr w" "spl_left w = fst l"
      "spl_right w = fst r" "spl_ldatum w = Some (group_box l)" "spl_rdatum w = Some (group_box r)"
    and ok: "group_ok keys l" "group_ok keys r" "fst l \<noteq> []" "fst r \<noteq> []"
      "mset (fst l) + mset (fst r) = mset [1..<Suc (length keys)]" for w l r
    using that group_box_ok [OF ok(1,3)] group_box_ok [OF ok(2,4)] by (auto simp: keys_at_def)
  define ctx0 where "ctx0 = \<lparr>entriesCount = length keys, boundingBox = foldl adjustBox (hd keys) (tl keys),
    is_first = True, leftUpper = 0, rightLower = 0, split_ratio = 0, split_overlap = 0, split_dim = 0, split_range = 0\<rparr>"
  define ctx where "ctx = consider_axis qsort keys 1 (consider_axis qsort keys 0 ctx0)"
  have ne: "keys \<noteq> []" using assms(4) by auto
  have ctx: "split_ok keys ctx"
    unfolding ctx_def by (intro consider_axis_ok assms(1,3) ne) (simp add: split_ok_def ctx0_def)
  note ps = gserialized_gist_picksplit_2d_def [of qsort qsort_common keys v, folded ctx0_def, unfolded Let_def,
      folded ctx_def, unfolded if_not_P [OF ne]]
  show ?thesis
  proof (cases "is_first ctx")
    case True
    from fallback_ok [OF assms(5,6,4)] obtain l r where f: "fallbackSplit keys v = Inr \<lparr>spl_left = fst l,
        spl_right = fst r, spl_ldatum = snd l, spl_rdatum = snd r, spl_ldatum_exists = False, spl_rdatum_exists = False\<rparr>"
      and ok: "group_ok keys l" "group_ok keys r" "fst l \<noteq> []" "fst r \<noteq> []"
        "mset (fst l) + mset (fst r) = mset [1..<Suc (length keys)]" by blast
    then show ?thesis
      using True by (intro result [OF _ _ _ _ _ ok]) (auto simp: ps group_ok_def group_box_def)
  next
    case False
    obtain l r common where p: "foldl (place_entry keys ctx) (([], None), ([], None), []) [1..<Suc (length keys)] = (l, r, common)"
      by (metis prod_cases3)
    define offs where "offs = map centry_index (qsort_common common_entry_cmp (map (with_delta keys l r) common))"
    have "mset offs = image_mset centry_index (mset (map (with_delta keys l r) common))"
      using assms(2) by (simp add: offs_def permutes_common_def)
    moreover have "(\<lambda>i. centry_index (with_delta keys l r i)) = id" by (simp add: with_delta_def Let_def fun_eq_iff)
    ultimately have offs: "mset offs = mset common" by (simp add: multiset.map_comp comp_def)
    obtain l' r' where d: "(if common = [] then (l, r) else distribute keys (group_minimum (length keys)) offs l r) = (l', r')"
      by (rule prod.exhaust)
    note placed = placed_ok [OF ctx False assms(3,4) p offs d]
    have "gserialized_gist_picksplit_2d qsort qsort_common keys v = Inr (v\<lparr>spl_left := fst l', spl_right := fst r',
        spl_ldatum := Some (group_box l'), spl_rdatum := Some (group_box r')\<rparr>)"
      using False unfolding ps p prod.case offs_def [symmetric] d by simp
    then show ?thesis
      using placed by (intro result [of _ l' r']) auto
  qed
qed

section \<open>Witness\<close>

lemma flt_ord_bound: "- (2 ^ 31) < flt_ord f" "flt_ord f < 2 ^ 31"
proof -
  have "flt_mag f < 2 ^ 31" using take_bit_nat_less_exp [of 31 "unat f"] by (simp add: flt_mag_def unsigned_take_bit_eq)
  then show "- (2 ^ 31) < flt_ord f" "flt_ord f < 2 ^ 31" by (auto simp: flt_ord_def)
qed

lemma cmp_sort_sorts: "sorts_intervals cmp_sort"
proof -
  have "interval_cmp_lower a b \<le> 0 \<longleftrightarrow> (if flt_isnan (lower_bound a) then 2 ^ 31 else lo a) \<le>
      (if flt_isnan (lower_bound b) then 2 ^ 31 else lo b)" for a b
    using flt_ord_bound(2) [of "lower_bound a"] flt_ord_bound(2) [of "lower_bound b"]
    by (auto simp: interval_cmp_lower_def flt_lt_def)
  moreover have "interval_cmp_upper a b \<le> 0 \<longleftrightarrow> (if flt_isnan (upper_bound a) then - (2 ^ 31) else up a) \<le>
      (if flt_isnan (upper_bound b) then - (2 ^ 31) else up b)" for a b
    using flt_ord_bound(1) [of "upper_bound a"] flt_ord_bound(1) [of "upper_bound b"]
    by (auto simp: interval_cmp_upper_def flt_lt_def)
  ultimately have "sorted_wrt (\<lambda>a b. interval_cmp_lower a b \<le> 0) (cmp_sort interval_cmp_lower es)"
    "sorted_wrt (\<lambda>a b. interval_cmp_upper a b \<le> 0) (cmp_sort interval_cmp_upper es)" for es
    using sorted_cmp_sort [of _ interval_cmp_lower "\<lambda>a. if flt_isnan (lower_bound a) then 2 ^ 31 else lo a"]
      sorted_cmp_sort [of _ interval_cmp_upper "\<lambda>a. if flt_isnan (upper_bound a) then - (2 ^ 31) else up a"] by blast+
  then show ?thesis by (simp add: sorts_intervals_def mset_cmp_sort)
qed

theorem gserialized_gist_picksplit_2d_correct_witness:
  "\<exists>w. gserialized_gist_picksplit_2d cmp_sort cmp_sort [unit_box 0, unit_box 0x3F800000]
      \<lparr>spl_left = [], spl_right = [], spl_ldatum = None, spl_rdatum = None, spl_ldatum_exists = False, spl_rdatum_exists = False\<rparr> = Inr w \<and>
    spl_left w \<noteq> [] \<and> spl_right w \<noteq> [] \<and> mset (spl_left w) + mset (spl_right w) = {#1, 2#}"
proof -
  let ?v = "\<lparr>spl_left = [], spl_right = [], spl_ldatum = None, spl_rdatum = None,
    spl_ldatum_exists = False, spl_rdatum_exists = False\<rparr>"
  have "permutes_common cmp_sort" by (simp add: permutes_common_def mset_cmp_sort)
  moreover have "list_all box_ok [unit_box 0, unit_box 0x3F800000]" using unit_box_ok by simp
  moreover have "mset [1..<Suc (length [unit_box 0, unit_box 0x3F800000])] = {#1, 2#}" by (simp add: upt_rec)
  ultimately show ?thesis
    using gserialized_gist_picksplit_2d_correct [of cmp_sort cmp_sort "[unit_box 0, unit_box 0x3F800000]" ?v]
      cmp_sort_sorts by fastforce
qed

end
