(* ===== verification/SPGist2D.thy ===== *)
theory SPGist2D
  imports Gist2D
begin

text \<open>
  The 2D SP-GiST operator class (postgis/gserialized_spgist_2d.c): a quadtree in the four
  dimensions of a box. An inner node has a centroid box and 16 children, by the comparison
  of the four bounds with those of the centroid; the region of a child is a pair of boxes
  that bound the lower and the upper corner of what is below it.
\<close>

section \<open>Regions\<close>

text \<open>Numbers of quadrants are bytes with four bits in use.\<close>

definition getQuadrant4D :: "box2df \<Rightarrow> box2df \<Rightarrow> nat" where
  "getQuadrant4D centroid b =
     (let quadrant = (0 :: nat);
          quadrant = (if flt_lt (bxmin centroid) (bxmin b) then quadrant OR 0x8 else quadrant);
          quadrant = (if flt_lt (bxmax centroid) (bxmax b) then quadrant OR 0x4 else quadrant);
          quadrant = (if flt_lt (bymin centroid) (bymin b) then quadrant OR 0x2 else quadrant)
      in if flt_lt (bymax centroid) (bymax b) then quadrant OR 0x1 else quadrant)"

record rect_box =
  left :: box2df
  right :: box2df

definition initRectBox :: rect_box where
  "initRectBox =
     \<lparr>left = \<lparr>bxmin = FLT_MIN_MAX, bxmax = FLT_MAX, bymin = FLT_MIN_MAX, bymax = FLT_MAX\<rparr>,
      right = \<lparr>bxmin = FLT_MIN_MAX, bxmax = FLT_MAX, bymin = FLT_MIN_MAX, bymax = FLT_MAX\<rparr>\<rparr>"

definition nextRectBox :: "rect_box \<Rightarrow> box2df \<Rightarrow> nat \<Rightarrow> rect_box" where
  "nextRectBox r c quadrant =
     (let r = (if bit quadrant 3 then r\<lparr>left := (left r)\<lparr>bxmin := bxmin c\<rparr>\<rparr>
               else r\<lparr>left := (left r)\<lparr>bxmax := bxmin c\<rparr>\<rparr>);
          r = (if bit quadrant 2 then r\<lparr>right := (right r)\<lparr>bxmin := bxmax c\<rparr>\<rparr>
               else r\<lparr>right := (right r)\<lparr>bxmax := bxmax c\<rparr>\<rparr>);
          r = (if bit quadrant 1 then r\<lparr>left := (left r)\<lparr>bymin := bymin c\<rparr>\<rparr>
               else r\<lparr>left := (left r)\<lparr>bymax := bymin c\<rparr>\<rparr>)
      in if bit quadrant 0 then r\<lparr>right := (right r)\<lparr>bymin := bymax c\<rparr>\<rparr>
         else r\<lparr>right := (right r)\<lparr>bymax := bymax c\<rparr>\<rparr>)"

definition overlap4D :: "rect_box \<Rightarrow> box2df \<Rightarrow> bool" where
  "overlap4D r q \<longleftrightarrow> flt_le (bxmin (left r)) (bxmax q) \<and> flt_le (bxmin q) (bxmax (right r)) \<and>
     flt_le (bymin (left r)) (bymax q) \<and> flt_le (bymin q) (bymax (right r))"

definition contain4D :: "rect_box \<Rightarrow> box2df \<Rightarrow> bool" where
  "contain4D r q \<longleftrightarrow> flt_le (bxmax q) (bxmax (right r)) \<and> flt_le (bxmin (left r)) (bxmin q) \<and>
     flt_le (bymax q) (bymax (right r)) \<and> flt_le (bymin (left r)) (bymin q)"

definition left4D :: "rect_box \<Rightarrow> box2df \<Rightarrow> bool" where
  "left4D r q = flt_le (bxmax (right r)) (bxmin q)"

definition overLeft4D :: "rect_box \<Rightarrow> box2df \<Rightarrow> bool" where
  "overLeft4D r q = flt_le (bxmax (right r)) (bxmax q)"

definition right4D :: "rect_box \<Rightarrow> box2df \<Rightarrow> bool" where
  "right4D r q = flt_le (bxmax q) (bxmin (left r))"

definition overRight4D :: "rect_box \<Rightarrow> box2df \<Rightarrow> bool" where
  "overRight4D r q = flt_le (bxmin q) (bxmin (left r))"

definition below4D :: "rect_box \<Rightarrow> box2df \<Rightarrow> bool" where
  "below4D r q = flt_le (bymax (right r)) (bymin q)"

definition overBelow4D :: "rect_box \<Rightarrow> box2df \<Rightarrow> bool" where
  "overBelow4D r q = flt_le (bymax (right r)) (bymax q)"

definition above4D :: "rect_box \<Rightarrow> box2df \<Rightarrow> bool" where
  "above4D r q = flt_le (bymax q) (bymin (left r))"

definition overAbove4D :: "rect_box \<Rightarrow> box2df \<Rightarrow> bool" where
  "overAbove4D r q = flt_le (bymin q) (bymin (left r))"


section \<open>The support functions\<close>

definition gserialized_spgist_compress_2d :: "box2df option \<Rightarrow> box2df" where
  "gserialized_spgist_compress_2d key =
     (case key of
        None \<Rightarrow> box2df_set_empty
      | Some b \<Rightarrow>
          if \<not> flt_isfinite (bxmax b) \<or> \<not> flt_isfinite (bxmin b) \<or>
             \<not> flt_isfinite (bymax b) \<or> \<not> flt_isfinite (bymin b)
          then box2df_set_finite b
          else box2df_validate b)"

text \<open>One key of an inner node's scan; an unknown strategy is an error.\<close>

definition spgist_inner_key_2d :: "rect_box \<Rightarrow> box2df \<Rightarrow> strategy \<Rightarrow> lwerr + bool" where
  "spgist_inner_key_2d r q strategy =
     (case strategy of
        RTOverlap \<Rightarrow> Inr (overlap4D r q)
      | RTContainedBy \<Rightarrow> Inr (overlap4D r q)
      | RTOldContainedBy \<Rightarrow> Inr (overlap4D r q)
      | RTContains \<Rightarrow> Inr (contain4D r q)
      | RTSame \<Rightarrow> Inr (contain4D r q)
      | RTLeft \<Rightarrow> Inr (\<not> overRight4D r q)
      | RTOverLeft \<Rightarrow> Inr (\<not> right4D r q)
      | RTRight \<Rightarrow> Inr (\<not> overLeft4D r q)
      | RTOverRight \<Rightarrow> Inr (\<not> left4D r q)
      | RTAbove \<Rightarrow> Inr (\<not> overBelow4D r q)
      | RTOverAbove \<Rightarrow> Inr (\<not> below4D r q)
      | RTBelow \<Rightarrow> Inr (\<not> overAbove4D r q)
      | RTOverBelow \<Rightarrow> Inr (\<not> above4D r q)
      | _ \<Rightarrow> Inl (LwError ''unrecognized strategy: %d''))"

definition spgist_leaf_key_2d :: "box2df \<Rightarrow> box2df \<Rightarrow> strategy \<Rightarrow> lwerr + bool" where
  "spgist_leaf_key_2d key q strategy =
     (case strategy of
        RTOverlap \<Rightarrow> Inr (box2df_overlaps (Some key) (Some q))
      | RTContains \<Rightarrow> Inr (box2df_contains (Some key) (Some q))
      | RTOldContains \<Rightarrow> Inr (box2df_contains (Some key) (Some q))
      | RTContainedBy \<Rightarrow> Inr (box2df_contains (Some q) (Some key))
      | RTOldContainedBy \<Rightarrow> Inr (box2df_contains (Some q) (Some key))
      | RTSame \<Rightarrow> Inr (box2df_equals (Some key) (Some q))
      | RTLeft \<Rightarrow> Inr (box2df_left (Some key) (Some q))
      | RTOverLeft \<Rightarrow> Inr (box2df_overleft (Some key) (Some q))
      | RTRight \<Rightarrow> Inr (box2df_right (Some key) (Some q))
      | RTOverRight \<Rightarrow> Inr (box2df_overright (Some key) (Some q))
      | RTAbove \<Rightarrow> Inr (box2df_above (Some key) (Some q))
      | RTOverAbove \<Rightarrow> Inr (box2df_overabove (Some key) (Some q))
      | RTBelow \<Rightarrow> Inr (box2df_below (Some key) (Some q))
      | RTOverBelow \<Rightarrow> Inr (box2df_overbelow (Some key) (Some q))
      | RTOther n \<Rightarrow> Inl (LwError ''unrecognized strategy: %d''))"

text \<open>All scan keys, the first that fails decides.\<close>

fun all_keys :: "('q \<Rightarrow> lwerr + bool) \<Rightarrow> 'q list \<Rightarrow> lwerr + bool" where
  "all_keys test [] = Inr True"
| "all_keys test (q # qs) = bindE (test q) (\<lambda>flag. if flag then all_keys test qs else Inr False)"

text \<open>The children to visit, with their regions; the number of nodes is cast to a byte in the loop.
  With \<open>allTheSame\<close> there are no regions; a query without a box ends the function before it has said which nodes to visit.\<close>

definition gserialized_spgist_inner_consistent_2d ::
  "bool \<Rightarrow> nat \<Rightarrow> rect_box option \<Rightarrow> box2df \<Rightarrow> (box2df \<times> strategy) list \<Rightarrow> lwerr + (nat \<times> rect_box option) list" where
  "gserialized_spgist_inner_consistent_2d allTheSame nNodes traversal centroid keys =
     (if allTheSame then Inr (map (\<lambda>i. (i, None)) [0..<nNodes])
      else
        let r = (case traversal of Some r \<Rightarrow> r | None \<Rightarrow> initRectBox) in
        bindE (mapE (\<lambda>quadrant.
            let next = nextRectBox r centroid quadrant in
            bindE (all_keys (\<lambda>(q, s). spgist_inner_key_2d next q s) keys) (\<lambda>flag.
            Inr (if flag then [(quadrant, Some next)] else []))) [0..<nNodes mod 256])
          (\<lambda>nodes. Inr (concat nodes)))"

definition gserialized_spgist_leaf_consistent_2d :: "box2df option \<Rightarrow> (box2df \<times> strategy) list \<Rightarrow> lwerr + bool" where
  "gserialized_spgist_leaf_consistent_2d key keys =
     (case key of
        None \<Rightarrow> Inr False
      | Some key \<Rightarrow> all_keys (\<lambda>(q, s). spgist_leaf_key_2d key q s) keys)"

section \<open>Laws\<close>

lemma quadrant_bits:
  "bit (getQuadrant4D c b) 3 = flt_lt (bxmin c) (bxmin b)" "bit (getQuadrant4D c b) 2 = flt_lt (bxmax c) (bxmax b)"
  "bit (getQuadrant4D c b) 1 = flt_lt (bymin c) (bymin b)" "bit (getQuadrant4D c b) 0 = flt_lt (bymax c) (bymax b)"
  by (simp_all add: getQuadrant4D_def Let_def bit_simps)

lemmas quadrant_simps = quadrant_bits [simplified]

text \<open>
  The lower corner of the box is above the lower bounds of the left box, and its upper corner is above
  them strictly: they are bounds of centroids that the box is above, or the lowest float. Its upper corner
  is below the upper bounds of the right box.
\<close>

definition in_region :: "rect_box \<Rightarrow> box2df \<Rightarrow> bool" where
  "in_region r b \<longleftrightarrow> box_num (left r) \<and> box_num (right r) \<and>
     flt_ord (bxmin (left r)) \<le> flt_ord (bxmin b) \<and> flt_ord (bxmin (left r)) < flt_ord (bxmax b) \<and>
     flt_ord (bymin (left r)) \<le> flt_ord (bymin b) \<and> flt_ord (bymin (left r)) < flt_ord (bymax b) \<and>
     flt_ord (bxmax b) \<le> flt_ord (bxmax (right r)) \<and> flt_ord (bymax b) \<le> flt_ord (bymax (right r))"

lemma next_in_region:
  assumes "box_ok c" "box_ok b" "in_region r b"
  shows "in_region (nextRectBox r c (getQuadrant4D c b)) b"
  using assms
  by (simp add: nextRectBox_def quadrant_simps in_region_def box_ok_def box_num_def flt_lt_def Let_def)

text \<open>
  The keys: boxes of finite floats in order, that reach above the lowest float. The box of an empty
  geometry is among them: compression makes it the box of all floats.
\<close>

definition box_finite :: "box2df \<Rightarrow> bool" where
  "box_finite b \<longleftrightarrow> box_ok b \<and> flt_isfinite (bxmin b) \<and> flt_isfinite (bxmax b) \<and> flt_isfinite (bymin b) \<and> flt_isfinite (bymax b)"

definition key_2d :: "box2df \<Rightarrow> bool" where
  "key_2d b \<longleftrightarrow> box_finite b \<and> flt_lt FLT_MIN_MAX (bxmax b) \<and> flt_lt FLT_MIN_MAX (bymax b)"

lemma key_2d_ok: "key_2d b \<Longrightarrow> box_ok b"
  by (simp add: key_2d_def box_finite_def)

lemma finite_bounds:
  assumes "flt_isfinite f"
  shows "flt_ord FLT_MIN_MAX \<le> flt_ord f" "flt_ord f \<le> flt_ord FLT_MAX"
  using flt_finite_ord [OF assms] unfolding FLT_MAX_parts by simp_all

lemma world_num: "\<not> flt_isnan FLT_MAX" "\<not> flt_isnan FLT_MIN_MAX"
  using FLT_MAX_parts(1,2) by (simp_all only: flt_isnan_def flt_isfinite_def)

lemma empty_compressed: "key_2d (gserialized_spgist_compress_2d (Some box2df_set_empty))"
proof -
  have e: "gserialized_spgist_compress_2d (Some box2df_set_empty) =
      \<lparr>bxmin = FLT_MIN_MAX, bxmax = FLT_MAX, bymin = FLT_MIN_MAX, bymax = FLT_MAX\<rparr>"
    by (simp add: gserialized_spgist_compress_2d_def box2df_set_empty_def box2df_set_finite_def Let_def flt_isfinite_def
        flt_mag_def unsigned_take_bit_eq take_bit_eq_mod)
  show ?thesis
    using world_num FLT_MAX_parts unfolding e key_2d_def box_finite_def box_ok_def box_num_def flt_lt_def by simp
qed

lemma init_in_region:
  assumes "key_2d b"
  shows "in_region initRectBox b"
  using assms finite_bounds [of "bxmin b"] finite_bounds [of "bxmax b"] finite_bounds [of "bymin b"] finite_bounds [of "bymax b"] world_num
  unfolding in_region_def initRectBox_def box_num_def rect_box.simps box2df.simps key_2d_def box_finite_def flt_lt_def
  by blast

text \<open>The traversal value that a search starts with or hands down is a region around the key.\<close>

definition bounded :: "rect_box option \<Rightarrow> box2df \<Rightarrow> bool" where
  "bounded traversal b = in_region (case traversal of Some r \<Rightarrow> r | None \<Rightarrow> initRectBox) b"

text \<open>
  The scan keys whose inner test keeps every match: all operators but \<open>&>\<close>, \<open>|&>\<close> and the old containment
  operator (which is an error in an inner node), for a box of numbers; for an empty query not the containment operators.
\<close>

definition searched :: "strategy \<Rightarrow> box2df \<Rightarrow> bool" where
  "searched s q \<longleftrightarrow> s \<notin> {RTOverRight, RTOverAbove, RTOldContains} \<and> (\<forall>n. s \<noteq> RTOther n) \<and>
     (box_num q \<or> box_nan q \<and> s \<notin> {RTContains, RTContainedBy, RTOldContainedBy})"

lemmas tests_4d = overlap4D_def contain4D_def left4D_def overLeft4D_def right4D_def overRight4D_def below4D_def
  overBelow4D_def above4D_def overAbove4D_def

lemma spgist_no_miss:
  assumes "searched s q" "box_ok b" "in_region r b" "spgist_leaf_key_2d b q s = Inr True"
  shows "spgist_inner_key_2d r q s = Inr True"
proof (cases "box_num q")
  case True
  from assms(1) this assms(2-4) show ?thesis
    by (cases s) (simp_all add: searched_def spgist_leaf_key_2d_def spgist_inner_key_2d_def in_region_def box_ok_def
      box_num_def operators_2d tests_4d)
next
  case False
  with assms show ?thesis
    by (cases s) (auto simp: searched_def spgist_leaf_key_2d_def box_ok_def box_num_def box_nan_def operators_2d)
qed

interpretation spgist2d: spgist_class box_ok in_region nextRectBox getQuadrant4D
  "\<lambda>r (q, s). spgist_inner_key_2d r q s = Inr True" "\<lambda>k (q, s). spgist_leaf_key_2d k q s = Inr True"
  "\<lambda>(q, s). searched s q"
  by unfold_locales (auto intro: next_in_region spgist_no_miss)

lemma concat_filter: "concat (map (\<lambda>x. if P x then [f x] else []) xs) = map f (filter P xs)"
  by (induction xs) simp_all

lemma all_keys_true: "all_keys test qs = Inr True \<longleftrightarrow> list_all (\<lambda>q. test q = Inr True) qs"
proof (induction qs)
  case (Cons q qs)
  then show ?case by (cases "test q") auto
qed simp

lemma all_keys_known:
  assumes "\<And>q. q \<in> set qs \<Longrightarrow> \<exists>b. test q = Inr b"
  shows "all_keys test qs = Inr (list_all (\<lambda>q. test q = Inr True) qs)"
  using assms
proof (induction qs)
  case (Cons q qs)
  then obtain b where "test q = Inr b" by auto
  with Cons show ?case by simp
qed simp

lemma leaf_consistent_all:
  "gserialized_spgist_leaf_consistent_2d (Some k) keys = Inr True \<longleftrightarrow>
    list_all (\<lambda>(q, s). spgist_leaf_key_2d k q s = Inr True) keys"
  by (auto simp: gserialized_spgist_leaf_consistent_2d_def all_keys_true list_all_iff)

lemma leaf_consistent_one:
  "gserialized_spgist_leaf_consistent_2d (Some k) [(q, s)] = Inr True \<longleftrightarrow> spgist_leaf_key_2d k q s = Inr True"
  by (simp add: leaf_consistent_all)

text \<open>Where all operators are known, the inner function visits the children whose region passes all keys.\<close>

lemma inner_consistent_nodes:
  assumes "\<And>q s r. (q, s) \<in> set keys \<Longrightarrow> \<exists>b. spgist_inner_key_2d r q s = Inr b"
  shows "gserialized_spgist_inner_consistent_2d False n traversal c keys =
    (let r = case traversal of None \<Rightarrow> initRectBox | Some r \<Rightarrow> r in
     Inr (map (\<lambda>i. (i, Some (nextRectBox r c i)))
      (filter (\<lambda>i. list_all (\<lambda>(q, s). spgist_inner_key_2d (nextRectBox r c i) q s = Inr True) keys) [0..<n mod 256])))"
proof -
  have keys: "all_keys (\<lambda>(q, s). spgist_inner_key_2d r q s) keys =
      Inr (list_all (\<lambda>(q, s). spgist_inner_key_2d r q s = Inr True) keys)" for r
    using assms by (subst all_keys_known) (auto simp: split_def)
  have step: "bindE (all_keys (\<lambda>(q, s). spgist_inner_key_2d (nextRectBox r c i) q s) keys) (\<lambda>flag.
        Inr (if flag then [(i, Some (nextRectBox r c i))] else [])) =
      Inr (if list_all (\<lambda>(q, s). spgist_inner_key_2d (nextRectBox r c i) q s = Inr True) keys
           then [(i, Some (nextRectBox r c i))] else [])" for i r
    unfolding keys by simp
  show ?thesis
    unfolding gserialized_spgist_inner_consistent_2d_def Let_def if_False step
    by (simp add: concat_filter)
qed

lemma inner_key_known: "searched s q' \<or> s = RTOverRight \<Longrightarrow> \<exists>b. spgist_inner_key_2d r q s = Inr b"
  by (cases s) (auto simp: searched_def spgist_inner_key_2d_def)

lemma quadrant_below_16: "getQuadrant4D c b < 16"
  by (simp add: getQuadrant4D_def Let_def)

lemma quadrant_visited:
  assumes "box_ok c" "box_ok b" "bounded traversal b" "list_all (\<lambda>(q, s). searched s q) keys"
    and "gserialized_spgist_leaf_consistent_2d (Some b) keys = Inr True"
  shows "\<exists>nodes r. gserialized_spgist_inner_consistent_2d False 16 traversal c keys = Inr nodes \<and>
    (getQuadrant4D c b, Some r) \<in> set nodes \<and> bounded (Some r) b"
proof -
  define r where "r = (case traversal of Some r \<Rightarrow> r | None \<Rightarrow> initRectBox)"
  have "in_region r b" using assms(3) by (simp add: bounded_def r_def)
  from spgist2d.child_passes [OF assms(1,2) this assms(4) assms(5) [unfolded leaf_consistent_all]]
  have p: "in_region (nextRectBox r c (getQuadrant4D c b)) b"
    "list_all (\<lambda>(q, s). spgist_inner_key_2d (nextRectBox r c (getQuadrant4D c b)) q s = Inr True) keys"
    by simp_all
  have "\<exists>b. spgist_inner_key_2d r' q s = Inr b" if "(q, s) \<in> set keys" for q s r'
    using assms(4) that by (intro inner_key_known [of s q]) (auto simp: list_all_iff)
  then have "gserialized_spgist_inner_consistent_2d False 16 traversal c keys =
      Inr (map (\<lambda>i. (i, Some (nextRectBox r c i)))
        (filter (\<lambda>i. list_all (\<lambda>(q, s). spgist_inner_key_2d (nextRectBox r c i) q s = Inr True) keys) [0..<16]))"
    by (subst inner_consistent_nodes) (simp_all add: r_def Let_def)
  moreover have "(getQuadrant4D c b, Some (nextRectBox r c (getQuadrant4D c b))) \<in> set (map (\<lambda>i. (i, Some (nextRectBox r c i)))
        (filter (\<lambda>i. list_all (\<lambda>(q, s). spgist_inner_key_2d (nextRectBox r c i) q s = Inr True) keys) [0..<16]))"
    using p(2) quadrant_below_16 [of c b] by simp
  ultimately show ?thesis using p(1) by (auto simp only: bounded_def option.case)
qed

text \<open>
  C12. The SP-GiST search is never turned away from a match. The search starts with a region around
  every key; an inner node whose prefix is a proper box visits, for a key that satisfies all scan keys, the
  child of the key's quadrant, with a region that is again around the key; and a node with
  \<open>allTheSame\<close> visits all its children. The scan keys may have any operator but \<open>&>\<close>, \<open>|&>\<close> (which do
  lose matches) and the old \<open>~\<close> (an error), and an empty query only with operators other than containment. Keys are
  boxes of finite floats that reach above the lowest float, those of empty geometries among them, as what
  compression makes of these is the box of all floats.
\<close>

theorem spgist_2d_never_prunes:
  assumes "box_ok c" "key_2d b" "list_all (\<lambda>(q, s). searched s q) keys"
    and "gserialized_spgist_leaf_consistent_2d (Some b) keys = Inr True"
  shows "bounded None b \<and>
    (bounded traversal b \<longrightarrow> (\<exists>nodes r. gserialized_spgist_inner_consistent_2d False 16 traversal c keys = Inr nodes \<and>
      (getQuadrant4D c b, Some r) \<in> set nodes \<and> bounded (Some r) b)) \<and>
    gserialized_spgist_inner_consistent_2d True n traversal c keys = Inr (map (\<lambda>i. (i, None)) [0..<n]) \<and>
    key_2d (gserialized_spgist_compress_2d (Some box2df_set_empty))"
  using quadrant_visited [OF assms(1) key_2d_ok [OF assms(2)] _ assms(3,4)] init_in_region [OF assms(2)] empty_compressed
  by (simp add: bounded_def gserialized_spgist_inner_consistent_2d_def)

text \<open>
  The scan loses matches of \<open>&>\<close>. An entry without width at the right bound of the
  centroid satisfies the operator for a query that starts at the same place, but the
  child it is in is not visited, whatever the region above.
\<close>

theorem spgist_2d_overright_lost:
  assumes "box_ok b" "box_ok c" "box_num q" "flt_eq (bxmin b) (bxmax b)" "flt_eq (bxmax c) (bxmax b)"
    "flt_eq (bxmin q) (bxmin b)"
  shows "gserialized_spgist_leaf_consistent_2d (Some b) [(q, RTOverRight)] = Inr True \<and>
    (\<exists>nodes. gserialized_spgist_inner_consistent_2d False n r c [(q, RTOverRight)] = Inr nodes \<and>
       getQuadrant4D c b \<notin> fst ` set nodes)"
proof -
  have "spgist_inner_key_2d (nextRectBox r c (getQuadrant4D c b)) q RTOverRight = Inr False" for r
    using assms
    by (auto simp: spgist_inner_key_2d_def left4D_def nextRectBox_def quadrant_simps flt_lt_def flt_le_def flt_eq_def
        box_ok_def box_num_def Let_def)
  moreover have "gserialized_spgist_leaf_consistent_2d (Some b) [(q, RTOverRight)] = Inr True"
    using assms by (auto simp: leaf_consistent_one spgist_leaf_key_2d_def operators_2d box_ok_def box_num_def)
  ultimately show ?thesis
    using inner_consistent_nodes [of "[(q, RTOverRight)]" n r c] inner_key_known [of RTOverRight]
    by (auto simp: Let_def)
qed

section \<open>Witnesses\<close>

lemma small_box_key: "key_2d (unit_box 0)" "key_2d (unit_box 0x3F800000)"
  using unit_box_ok
  by (simp_all add: key_2d_def box_finite_def unit_box_def flt_isfinite_def flt_lt_def flt_isnan_def flt_ord_def flt_mag_def
      flt_neg_def unsigned_take_bit_eq take_bit_eq_mod)

theorem spgist_2d_never_prunes_witness:
  "\<exists>nodes r. gserialized_spgist_inner_consistent_2d False 16 None (unit_box 0)
      [(unit_box 0, RTOverlap), (unit_box 0x3F800000, RTContainedBy)] = Inr nodes \<and>
    (getQuadrant4D (unit_box 0) (unit_box 0), Some r) \<in> set nodes \<and> bounded (Some r) (unit_box 0)"
proof -
  let ?keys = "[(unit_box 0, RTOverlap), (unit_box 0x3F800000, RTContainedBy)]"
  note box_ok_num [OF unit_box_ok(1)] box_ok_num [OF unit_box_ok(2)]
  then have "list_all (\<lambda>(q, s). searched s q) ?keys" by (simp add: searched_def)
  moreover have "gserialized_spgist_leaf_consistent_2d (Some (unit_box 0)) ?keys = Inr True"
    using unit_box_ok by (simp add: leaf_consistent_all spgist_leaf_key_2d_def box_ok_def box_num_def operators_2d unit_box_def)
  ultimately show ?thesis
    using spgist_2d_never_prunes [OF unit_box_ok(1) small_box_key(1)] by blast
qed

theorem spgist_2d_overright_lost_witness:
  "gserialized_spgist_leaf_consistent_2d (Some (unit_box 0)) [(unit_box 0, RTOverRight)] = Inr True \<and>
   (\<exists>nodes. gserialized_spgist_inner_consistent_2d False 16 None (unit_box 0) [(unit_box 0, RTOverRight)] = Inr nodes \<and>
      getQuadrant4D (unit_box 0) (unit_box 0) \<notin> fst ` set nodes)"
proof -
  have "flt_eq 0 0" by (simp add: flt_eq_def flt_isnan_def flt_mag_def)
  then have e: "flt_eq (bxmin (unit_box 0)) (bxmax (unit_box 0))" "flt_eq (bxmax (unit_box 0)) (bxmax (unit_box 0))"
    "flt_eq (bxmin (unit_box 0)) (bxmin (unit_box 0))" by (simp_all add: unit_box_def)
  from spgist_2d_overright_lost [OF unit_box_ok(1) unit_box_ok(1) box_ok_num [OF unit_box_ok(1)] e]
  show ?thesis by blast
qed

end
