(* ===== verification/SPGist2DBuild.thy ===== *)
theory SPGist2DBuild
  imports SPGist2D CmpSort
begin

text \<open>
  How the 2D SP-GiST tree comes to be (postgis/gserialized_spgist_2d.c): the split of a leaf page
  at the median of the bounds, and the choice of a child on insertion. Both put a box below the child
  of its quadrant, which is where the search looks for it.
\<close>

section \<open>The support functions\<close>






section \<open>Medians\<close>









section \<open>The split and the search\<close>




section \<open>Witness\<close>



end
