(* ===== verification/LWIterator.thy ===== *)
theory LWIterator
  imports GBox
begin

text \<open>
  The iterator over the points of a geometry (liblwgeom/lwiterator.c). Its state is a stack of
  geometries still to be taken apart, a stack of point arrays and an index into the array
  on top. Reading is modelled; \<open>lwpointiterator_modify_next\<close> writes through the pointers of
  the stack into the geometry and has no model in values.
\<close>

section \<open>The state and its operations\<close>

record lwpointiterator =
  it_geoms :: "lwgeom list"
  it_pointarrays :: "pointarray list"
  it_i :: nat

definition add_lwgeom_to_stack :: "lwgeom \<Rightarrow> lwpointiterator \<Rightarrow> lwpointiterator" where
  "add_lwgeom_to_stack g s = (if lwgeom_is_empty g then s else s\<lparr>it_geoms := g # it_geoms s\<rparr>)"

text \<open>A NURBS curve without control points has no array to read.\<close>

fun extract_pointarrays_from_lwgeom :: "lwgeom \<Rightarrow> lwerr + pointarray list" where
  "extract_pointarrays_from_lwgeom (LWPOINT h pa) = Inr [pa]"
| "extract_pointarrays_from_lwgeom (LWLINE h pa) = Inr [pa]"
| "extract_pointarrays_from_lwgeom (LWTRIANGLE h pa) = Inr [pa]"
| "extract_pointarrays_from_lwgeom (LWCIRCSTRING h pa) = Inr [pa]"
| "extract_pointarrays_from_lwgeom (LWNURBSCURVE h d p w k) = (case p of None \<Rightarrow> Inl MemFault | Some pa \<Rightarrow> Inr [pa])"
| "extract_pointarrays_from_lwgeom (LWPOLY h mr rs) = Inr rs"
| "extract_pointarrays_from_lwgeom (LWCOLLECTION t h mg al gs) = Inl (LwError ''%s: Unsupported geometry type: %s'')"

text \<open>The members are added from the last to the first.\<close>

definition unroll_collection :: "lwpointiterator \<Rightarrow> lwpointiterator" where
  "unroll_collection s =
     (case it_geoms s of
        LWCOLLECTION t h mg al gs # rest \<Rightarrow> foldr add_lwgeom_to_stack gs (s\<lparr>it_geoms := rest\<rparr>)
      | _ \<Rightarrow> s)"

lemma add_all: "foldr add_lwgeom_to_stack gs s = s\<lparr>it_geoms := filter (\<lambda>g. \<not> lwgeom_is_empty g) gs @ it_geoms s\<rparr>"
  by (induction gs) (auto simp: add_lwgeom_to_stack_def)

lemma size_list_filter: "size_list f (filter P xs) \<le> size_list f xs"
  by (induction xs) auto

definition collection_on_top :: "lwpointiterator \<Rightarrow> bool" where
  "collection_on_top s \<longleftrightarrow> it_geoms s \<noteq> [] \<and> lwtype_is_collection (lwgeom_get_type (hd (it_geoms s)))"

function unroll_collections :: "lwpointiterator \<Rightarrow> lwpointiterator" where
  "unroll_collections s = (if collection_on_top s then unroll_collections (unroll_collection s) else s)"
  by pat_completeness auto
termination
proof (relation "measure (\<lambda>s. size_list size (it_geoms s))")
  fix s
  assume "collection_on_top s"
  then obtain g gs where g: "it_geoms s = g # gs" "lwtype_is_collection (lwgeom_get_type g)"
    by (cases "it_geoms s") (auto simp: collection_on_top_def)
  then obtain t h mg al ms where "g = LWCOLLECTION t h mg al ms"
    by (cases g) (auto simp: lwtype_is_collection_def)
  with g show "(unroll_collection s, s) \<in> measure (\<lambda>s. size_list size (it_geoms s))"
    using size_list_filter [of size "\<lambda>g. \<not> lwgeom_is_empty g" ms] by (simp add: unroll_collection_def add_all)
qed simp

declare unroll_collections.simps [simp del]

definition lwpointiterator_advance :: "lwpointiterator \<Rightarrow> lwerr + (bool \<times> lwpointiterator)" where
  "lwpointiterator_advance s =
     (let s = s\<lparr>it_i := it_i s + 1\<rparr>;
          s = (case it_pointarrays s of
                 [] \<Rightarrow> s
               | pa # pas \<Rightarrow> if it_i s \<ge> npoints pa then s\<lparr>it_pointarrays := pas, it_i := 0\<rparr> else s)
      in if it_pointarrays s = [] then
           let s = unroll_collections s
           in case it_geoms s of
                [] \<Rightarrow> Inr (False, s)
              | g # gs \<Rightarrow>
                  bindE (extract_pointarrays_from_lwgeom g) (\<lambda>pas.
                  Inr (pas \<noteq> [], s\<lparr>it_i := 0, it_pointarrays := pas, it_geoms := gs\<rparr>))
         else Inr (True, s))"

definition lwpointiterator_has_next :: "lwpointiterator \<Rightarrow> bool" where
  "lwpointiterator_has_next s \<longleftrightarrow>
     (case it_pointarrays s of [] \<Rightarrow> False | pa # pas \<Rightarrow> it_i s < npoints pa)"

definition lwpointiterator_peek :: "lwpointiterator \<Rightarrow> double list option" where
  "lwpointiterator_peek s =
     (if \<not> lwpointiterator_has_next s then None
      else Some (getPoint4d_p (hd (it_pointarrays s)) (it_i s)))"

text \<open>None is a failure, which leaves the iterator as it is.\<close>

definition lwpointiterator_next :: "lwpointiterator \<Rightarrow> lwerr + (double list option \<times> lwpointiterator)" where
  "lwpointiterator_next s =
     (if \<not> lwpointiterator_has_next s then Inr (None, s)
      else
        bindE (lwpointiterator_advance s) (\<lambda>(ok, s').
        Inr (lwpointiterator_peek s, s')))"

definition lwpointiterator_create :: "lwgeom \<Rightarrow> lwerr + lwpointiterator" where
  "lwpointiterator_create g =
     bindE (lwpointiterator_advance (add_lwgeom_to_stack g \<lparr>it_geoms = [], it_pointarrays = [], it_i = 0\<rparr>))
       (\<lambda>(ok, s). Inr s)"

section \<open>The points of a geometry\<close>

definition pa_points :: "pointarray \<Rightarrow> double list list" where
  "pa_points pa = map (getPoint4d_p pa) [0..<npoints pa]"

fun lwgeom_points :: "lwgeom \<Rightarrow> double list list" where
  "lwgeom_points (LWPOINT h pa) = pa_points pa"
| "lwgeom_points (LWLINE h pa) = pa_points pa"
| "lwgeom_points (LWTRIANGLE h pa) = pa_points pa"
| "lwgeom_points (LWCIRCSTRING h pa) = pa_points pa"
| "lwgeom_points (LWPOLY h mr rs) = concat (map pa_points rs)"
| "lwgeom_points (LWNURBSCURVE h d p w k) = (case p of None \<Rightarrow> [] | Some pa \<Rightarrow> pa_points pa)"
| "lwgeom_points (LWCOLLECTION t h mg al gs) = concat (map lwgeom_points gs)"

text \<open>No ring of a polygon is empty, unless all are.\<close>

fun rings_filled :: "lwgeom \<Rightarrow> bool" where
  "rings_filled (LWPOLY h mr rs) \<longleftrightarrow> list_all (\<lambda>pa. npoints pa = 0) rs \<or> list_all (\<lambda>pa. npoints pa > 0) rs"
| "rings_filled (LWCOLLECTION t h mg al gs) \<longleftrightarrow> list_all rings_filled gs"
| "rings_filled g \<longleftrightarrow> True"

text \<open>Taking \<open>k\<close> points.\<close>

fun lwpointiterator_take :: "nat \<Rightarrow> lwpointiterator \<Rightarrow> lwerr + (double list list \<times> lwpointiterator)" where
  "lwpointiterator_take 0 s = Inr ([], s)"
| "lwpointiterator_take (Suc k) s =
     bindE (lwpointiterator_next s) (\<lambda>(p, s).
     bindE (lwpointiterator_take k s) (\<lambda>(ps, s).
     Inr ((case p of None \<Rightarrow> ps | Some p \<Rightarrow> p # ps), s)))"

section \<open>What is left to deliver\<close>

definition left_points :: "lwpointiterator \<Rightarrow> double list list" where
  "left_points s =
     (case it_pointarrays s of [] \<Rightarrow> [] | pa # pas \<Rightarrow> drop (it_i s) (pa_points pa) @ concat (map pa_points pas)) @
     concat (map lwgeom_points (it_geoms s))"

definition stacked :: "lwgeom \<Rightarrow> bool" where
  "stacked g \<longleftrightarrow> lwgeom_wf g \<and> rings_filled g \<and> \<not> lwgeom_is_empty g"

text \<open>The state between two calls: there is a next point unless all points are delivered.\<close>

definition iterator_ok :: "lwpointiterator \<Rightarrow> bool" where
  "iterator_ok s \<longleftrightarrow> list_all stacked (it_geoms s) \<and> list_all (\<lambda>pa. npoints pa > 0) (it_pointarrays s) \<and>
     (case it_pointarrays s of [] \<Rightarrow> it_geoms s = [] | pa # pas \<Rightarrow> it_i s < npoints pa)"

lemma length_pa_points [simp]: "length (pa_points pa) = npoints pa"
  by (simp add: pa_points_def)

lemma empty_no_points: "lwgeom_wf g \<Longrightarrow> rings_filled g \<Longrightarrow> lwgeom_is_empty g \<Longrightarrow> lwgeom_points g = []"
proof (induction g)
  case (LWPOLY h mr rs)
  then show ?case by (cases rs) (auto simp: pa_points_def list_all_iff)
next
  case (LWCOLLECTION t h mg al gs)
  then show ?case by (auto simp: list_all_iff)
qed (auto simp: pa_points_def split: option.splits)

lemma has_next_left: "iterator_ok s \<Longrightarrow> lwpointiterator_has_next s \<longleftrightarrow> left_points s \<noteq> []"
  by (cases "it_pointarrays s") (auto simp: iterator_ok_def lwpointiterator_has_next_def left_points_def)

lemma peek_left: "iterator_ok s \<Longrightarrow> left_points s \<noteq> [] \<Longrightarrow> lwpointiterator_peek s = Some (hd (left_points s))"
  using has_next_left [of s]
  by (cases "it_pointarrays s")
    (auto simp: lwpointiterator_peek_def lwpointiterator_has_next_def left_points_def pa_points_def hd_append hd_drop_conv_nth)

section \<open>Advancing\<close>

lemma stacked_members:
  assumes "stacked (LWCOLLECTION t h mg al gs)"
  shows "list_all stacked (filter (\<lambda>g. \<not> lwgeom_is_empty g) gs)"
    "concat (map lwgeom_points (filter (\<lambda>g. \<not> lwgeom_is_empty g) gs)) = concat (map lwgeom_points gs)"
proof -
  have gs: "\<And>g. g \<in> set gs \<Longrightarrow> lwgeom_wf g \<and> rings_filled g" using assms by (auto simp: stacked_def list_all_iff)
  then show "list_all stacked (filter (\<lambda>g. \<not> lwgeom_is_empty g) gs)" by (auto simp: stacked_def list_all_iff)
  from gs have "concat (map lwgeom_points (filter P ms)) = concat (map lwgeom_points ms)"
    if "set ms \<subseteq> set gs" "P = (\<lambda>g. \<not> lwgeom_is_empty g)" for ms P
    using that by (induction ms) (auto simp: empty_no_points)
  then show "concat (map lwgeom_points (filter (\<lambda>g. \<not> lwgeom_is_empty g) gs)) = concat (map lwgeom_points gs)" by blast
qed

lemma unroll_collections_ok:
  assumes "list_all stacked (it_geoms s)"
  shows "list_all stacked (it_geoms (unroll_collections s)) \<and>
    it_pointarrays (unroll_collections s) = it_pointarrays s \<and> it_i (unroll_collections s) = it_i s \<and>
    concat (map lwgeom_points (it_geoms (unroll_collections s))) = concat (map lwgeom_points (it_geoms s)) \<and>
    \<not> collection_on_top (unroll_collections s)"
  using assms
proof (induction s rule: unroll_collections.induct)
  case (1 s)
  show ?case
  proof (cases "collection_on_top s")
    case False
    then show ?thesis using "1.prems" by (simp add: unroll_collections.simps [of s])
  next
    case True
    then obtain g gs where g: "it_geoms s = g # gs" "lwtype_is_collection (lwgeom_get_type g)"
      by (cases "it_geoms s") (auto simp: collection_on_top_def)
    then obtain t h mg al ms where c: "g = LWCOLLECTION t h mg al ms"
      by (cases g) (auto simp: lwtype_is_collection_def)
    have st: "stacked (LWCOLLECTION t h mg al ms)" "list_all stacked gs" using "1.prems" g c by auto
    have u: "unroll_collection s = s\<lparr>it_geoms := filter (\<lambda>g. \<not> lwgeom_is_empty g) ms @ gs\<rparr>"
      using g c by (simp add: unroll_collection_def add_all)
    have "list_all stacked (it_geoms (unroll_collection s))"
      using stacked_members(1) [OF st(1)] st(2) u by simp
    with "1.IH" [OF True] True stacked_members(2) [OF st(1)] g c u show ?thesis
      by (simp add: unroll_collections.simps [of s])
  qed
qed

lemma stacked_arrays:
  assumes "stacked g" "\<not> lwtype_is_collection (lwgeom_get_type g)"
  shows "\<exists>pa pas. extract_pointarrays_from_lwgeom g = Inr (pa # pas) \<and> list_all (\<lambda>pa. npoints pa > 0) (pa # pas) \<and>
    lwgeom_points g = concat (map pa_points (pa # pas))"
  using assms
proof (cases g)
  case (LWPOLY h mr rs)
  then show ?thesis using assms(1) by (cases rs) (auto simp: stacked_def)
qed (auto simp: stacked_def split: option.splits)

text \<open>Pulling the next geometry from the stack once the arrays are used up.\<close>

lemma refill_ok:
  assumes "list_all stacked (it_geoms s)" "it_pointarrays s = []"
  shows "\<exists>ok s'. (case it_geoms (unroll_collections s) of
        [] \<Rightarrow> Inr (False, unroll_collections s)
      | g # gs \<Rightarrow>
          bindE (extract_pointarrays_from_lwgeom g) (\<lambda>pas.
          Inr (pas \<noteq> [], (unroll_collections s)\<lparr>it_i := 0, it_pointarrays := pas, it_geoms := gs\<rparr>))) = Inr (ok, s') \<and>
    iterator_ok s' \<and> left_points s' = concat (map lwgeom_points (it_geoms s))"
proof -
  note u = unroll_collections_ok [OF assms(1)]
  show ?thesis
  proof (cases "it_geoms (unroll_collections s)")
    case Nil
    then show ?thesis using u assms(2) by (auto simp: iterator_ok_def left_points_def)
  next
    case (Cons g gs)
    then have "stacked g" "\<not> lwtype_is_collection (lwgeom_get_type g)" using u by (auto simp: collection_on_top_def)
    from stacked_arrays [OF this] Cons u show ?thesis
      by (auto simp: iterator_ok_def left_points_def)
  qed
qed

lemma advance_ok:
  assumes "iterator_ok s" "left_points s \<noteq> []"
  shows "\<exists>ok s'. lwpointiterator_advance s = Inr (ok, s') \<and> iterator_ok s' \<and> left_points s' = tl (left_points s)"
proof -
  obtain pa pas where pa: "it_pointarrays s = pa # pas" "it_i s < npoints pa"
    using assms has_next_left [OF assms(1)] by (cases "it_pointarrays s") (auto simp: lwpointiterator_has_next_def)
  have st: "list_all stacked (it_geoms s)" "list_all (\<lambda>pa. npoints pa > 0) pas"
    using assms(1) pa by (simp_all add: iterator_ok_def)
  have tl: "tl (left_points s) = drop (Suc (it_i s)) (pa_points pa) @ concat (map pa_points pas) @
      concat (map lwgeom_points (it_geoms s))"
    using pa by (simp add: left_points_def drop_Suc tl_drop)
  show ?thesis
  proof (cases "Suc (it_i s) < npoints pa")
    case True
    then show ?thesis
      using pa st tl by (auto simp: lwpointiterator_advance_def iterator_ok_def left_points_def)
  next
    case False
    show ?thesis
    proof (cases pas)
      case (Cons pa' pas')
      then show ?thesis
        using False pa st tl by (auto simp: lwpointiterator_advance_def iterator_ok_def left_points_def)
    next
      case Nil
      let ?s = "s\<lparr>it_pointarrays := [], it_i := 0\<rparr>"
      have "lwpointiterator_advance s = (case it_geoms (unroll_collections ?s) of
          [] \<Rightarrow> Inr (False, unroll_collections ?s)
        | g # gs \<Rightarrow>
            bindE (extract_pointarrays_from_lwgeom g) (\<lambda>pas.
            Inr (pas \<noteq> [], (unroll_collections ?s)\<lparr>it_i := 0, it_pointarrays := pas, it_geoms := gs\<rparr>)))"
        using False pa Nil by (simp add: lwpointiterator_advance_def Let_def)
      with refill_ok [of ?s] st tl False Nil pa(2) show ?thesis by simp
    qed
  qed
qed

lemma create_ok:
  assumes "lwgeom_wf g" "rings_filled g"
  shows "\<exists>s. lwpointiterator_create g = Inr s \<and> iterator_ok s \<and> left_points s = lwgeom_points g"
proof -
  let ?s = "\<lparr>it_geoms = (if lwgeom_is_empty g then [] else [g]), it_pointarrays = [], it_i = Suc 0\<rparr>"
  have s: "list_all stacked (it_geoms ?s)" "it_pointarrays ?s = []" "concat (map lwgeom_points (it_geoms ?s)) = lwgeom_points g"
    using assms by (auto simp: stacked_def empty_no_points)
  let ?r = "case it_geoms (unroll_collections ?s) of
          [] \<Rightarrow> Inr (False, unroll_collections ?s)
        | g # gs \<Rightarrow>
            bindE (extract_pointarrays_from_lwgeom g) (\<lambda>pas.
            Inr (pas \<noteq> [], (unroll_collections ?s)\<lparr>it_i := 0, it_pointarrays := pas, it_geoms := gs\<rparr>))"
  have c: "lwpointiterator_create g = bindE ?r (\<lambda>(ok, s). Inr s)"
    by (cases "lwgeom_is_empty g")
      (simp_all add: lwpointiterator_create_def lwpointiterator_advance_def add_lwgeom_to_stack_def Let_def)
  obtain ok s' where r: "?r = Inr (ok, s')" "iterator_ok s'" "left_points s' = concat (map lwgeom_points (it_geoms ?s))"
    using refill_ok [OF s(1,2)] by blast
  have "lwpointiterator_create g = Inr s'" unfolding c r(1) by simp
  with r(2,3) s(3) show ?thesis by simp
qed

lemma next_ok:
  assumes "iterator_ok s" "left_points s \<noteq> []"
  shows "\<exists>s'. lwpointiterator_next s = Inr (Some (hd (left_points s)), s') \<and> iterator_ok s' \<and> left_points s' = tl (left_points s)"
  using advance_ok [OF assms] peek_left [OF assms] has_next_left [OF assms(1)] assms(2)
  by (auto simp: lwpointiterator_next_def)

lemma take_ok:
  assumes "iterator_ok s"
  shows "\<exists>s'. lwpointiterator_take k s = Inr (take k (left_points s), s') \<and> iterator_ok s' \<and>
    left_points s' = drop k (left_points s)"
  using assms
proof (induction k arbitrary: s)
  case (Suc k)
  show ?case
  proof (cases "left_points s = []")
    case True
    then have "lwpointiterator_next s = Inr (None, s)"
      using has_next_left [OF Suc.prems] by (simp add: lwpointiterator_next_def)
    with Suc.IH [OF Suc.prems] True show ?thesis by auto
  next
    case False
    from next_ok [OF Suc.prems False] obtain s1 where "lwpointiterator_next s = Inr (Some (hd (left_points s)), s1)"
      "iterator_ok s1" "left_points s1 = tl (left_points s)" by blast
    with Suc.IH [of s1] False show ?thesis by (cases "left_points s") auto
  qed
qed simp

text \<open>
  C17. The iterator delivers every point of a well-formed geometry in which no polygon mixes empty rings with rings that
  have points, in order and each once, and then ends (behind an empty ring it would stop early, as
  \<open>iterator_stops_at_empty_ring\<close> shows): after \<open>k\<close> calls the first \<open>k\<close> points have been returned, there is a next point
  exactly when there are more, and looking at it shows that point.
\<close>

theorem lwpointiterator_delivers_all:
  assumes "lwgeom_wf g" "rings_filled g"
  shows "\<exists>it. lwpointiterator_create g = Inr it \<and>
    (\<forall>k. \<exists>s. lwpointiterator_take k it = Inr (take k (lwgeom_points g), s) \<and>
      (lwpointiterator_has_next s \<longleftrightarrow> k < length (lwgeom_points g)) \<and>
      lwpointiterator_peek s = (if k < length (lwgeom_points g) then Some (lwgeom_points g ! k) else None))"
proof -
  from create_ok [OF assms] obtain it where it: "lwpointiterator_create g = Inr it" "iterator_ok it"
    "left_points it = lwgeom_points g" by blast
  have "\<exists>s. lwpointiterator_take k it = Inr (take k (lwgeom_points g), s) \<and>
      (lwpointiterator_has_next s \<longleftrightarrow> k < length (lwgeom_points g)) \<and>
      lwpointiterator_peek s = (if k < length (lwgeom_points g) then Some (lwgeom_points g ! k) else None)" for k
  proof -
    from take_ok [OF it(2), of k] it(3) obtain s where s: "lwpointiterator_take k it = Inr (take k (lwgeom_points g), s)"
      "iterator_ok s" "left_points s = drop k (lwgeom_points g)" by auto
    then have h: "lwpointiterator_has_next s \<longleftrightarrow> k < length (lwgeom_points g)"
      using has_next_left [of s] by auto
    then show ?thesis
      using s peek_left [of s] by (auto simp: hd_drop_conv_nth lwpointiterator_peek_def)
  qed
  with it(1) show ?thesis by blast
qed

text \<open>
  An empty ring ends the iteration for good: the array is pulled up and has no point at
  index 0, while the rings behind it still have some.
\<close>

lemma iterator_stops_at_empty_ring:
  assumes "npoints r > 0" "npoints e = 0"
  shows "\<exists>it s. lwpointiterator_create (LWPOLY h mr (r # e # rs)) = Inr it \<and>
    lwpointiterator_take (npoints r) it = Inr (pa_points r, s) \<and> \<not> lwpointiterator_has_next s"
proof -
  define it where "it i = \<lparr>it_geoms = [], it_pointarrays = r # e # rs, it_i = i\<rparr>" for i
  define s where "s = \<lparr>it_geoms = [], it_pointarrays = e # rs, it_i = 0\<rparr>"
  have step: "lwpointiterator_next (it i) = Inr (Some (getPoint4d_p r i), if Suc i < npoints r then it (Suc i) else s)"
    if "i < npoints r" for i
    using that by (simp add: it_def s_def lwpointiterator_next_def lwpointiterator_has_next_def lwpointiterator_advance_def
        lwpointiterator_peek_def)
  have "lwpointiterator_take (npoints r - i) (it i) = Inr (drop i (pa_points r), s)" if "i < npoints r" for i
    using that
  proof (induction "npoints r - Suc i" arbitrary: i)
    case 0
    then have "npoints r - i = Suc 0" "drop i (pa_points r) = [getPoint4d_p r i]"
      by (simp_all add: pa_points_def Cons_nth_drop_Suc [symmetric])
    with step [of i] 0 show ?case by simp
  next
    case (Suc n)
    then have "Suc i < npoints r" "n = npoints r - Suc (Suc i)" by simp_all
    moreover have "npoints r - i = Suc (npoints r - Suc i)" using Suc.prems by simp
    moreover have "drop i (pa_points r) = getPoint4d_p r i # drop (Suc i) (pa_points r)"
      using Suc.prems by (subst Cons_nth_drop_Suc [symmetric]) (simp_all add: pa_points_def)
    ultimately show ?case using Suc.hyps(1) [of "Suc i"] step [of i] by simp
  qed
  from this [of 0] assms(1) have "lwpointiterator_take (npoints r) (it 0) = Inr (pa_points r, s)" by simp
  moreover have "lwpointiterator_create (LWPOLY h mr (r # e # rs)) = Inr (it 0)"
    using assms(1) by (simp add: lwpointiterator_create_def add_lwgeom_to_stack_def lwpointiterator_advance_def it_def
        unroll_collections.simps collection_on_top_def lwtype_is_collection_def)
  moreover have "\<not> lwpointiterator_has_next s" using assms(2) by (simp add: s_def lwpointiterator_has_next_def)
  ultimately show ?thesis by blast
qed

section \<open>Witness\<close>

definition nested_points :: lwgeom where
  "nested_points =
     (let pt = (\<lambda>x. LWPOINT (empty_head 0 False False) (ptarray_construct_copy_data False False 1 [x, 0]))
      in LWCOLLECTION COLLECTIONTYPE (empty_head 0 False False) 2 True
           [LWCOLLECTION COLLECTIONTYPE (empty_head 0 False False) 2 True
              [lwpoint_construct_empty 0 False False, pt 0x3FF0000000000000],
            pt 0xBFF0000000000000])"

theorem lwpointiterator_delivers_all_witness:
  "\<exists>it s. lwpointiterator_create nested_points = Inr it \<and>
    lwpointiterator_take 2 it = Inr ([[0x3FF0000000000000, 0, 0, 0], [0xBFF0000000000000, 0, 0, 0]], s) \<and>
    \<not> lwpointiterator_has_next s"
proof -
  have wf: "lwgeom_wf nested_points" "rings_filled nested_points"
    by (simp_all add: nested_points_def Let_def ptarray_construct_copy_data_def ptarray_construct_def
        ptarray_construct_empty_def lwpoint_construct_empty_def empty_head_def pa_wf_def lwtype_is_collection_def
        lwcollection_allows_subtype_def)
  have pts: "lwgeom_points nested_points = [[0x3FF0000000000000, 0, 0, 0], [0xBFF0000000000000, 0, 0, 0]]"
    by (simp add: nested_points_def Let_def ptarray_construct_copy_data_def ptarray_construct_def
        ptarray_construct_empty_def lwpoint_construct_empty_def pa_points_def getPoint4d_p_def pa_point_def)
  from lwpointiterator_delivers_all [OF wf] pts show ?thesis
    by (metis (no_types, lifting) length_Cons list.size(3) less_irrefl numeral_2_eq_2 take_all order_refl)
qed

end
