(* ===== verification/RasterNum.thy ===== *)
theory RasterNum
  imports Float64
begin

text \<open>
  The numbers of a raster band (raster/rt_core/rt_util.c): the conversions of C between
  doubles and integers, the clamping of a value to the range of each pixel type, and the
  hand-written conversions between single and half precision.

  The first part shows that a clamped value is the value truncated towards zero and moved
  into the range of the type, the second that every half precision number survives the
  conversion to single precision and back.
\<close>

section \<open>Conversions of C\<close>

text \<open>The number one in the units of \<^term>\<open>dbl_val\<close>.\<close>

definition dbl_unit :: nat where
  "dbl_unit = 2 ^ 1074"

text \<open>A double to an integer: the fraction is dropped.\<close>

definition units_trunc :: "int \<Rightarrow> int" where
  "units_trunc v = (if v < 0 then - (- v div int dbl_unit) else v div int dbl_unit)"

definition dbl_trunc :: "double \<Rightarrow> int" where
  "dbl_trunc d = units_trunc (dbl_val d)"

definition dbl_of_int :: "int \<Rightarrow> double" where
  "dbl_of_int i = dbl_pack (i < 0) (mag_round (nat \<bar>i\<bar> * dbl_unit) 1)"

text \<open>\<open>fmax\<close> and \<open>fmin\<close> return the other argument when one is NaN.\<close>

definition dbl_fmax :: "double \<Rightarrow> double \<Rightarrow> double" where
  "dbl_fmax a b = (if dbl_isnan a then b else if dbl_isnan b then a else if dbl_lt a b then b else a)"

definition dbl_fmin :: "double \<Rightarrow> double \<Rightarrow> double" where
  "dbl_fmin a b = (if dbl_isnan a then b else if dbl_isnan b then a else if dbl_lt b a then b else a)"

section \<open>Clamping\<close>

definition rt_util_clamp_to_1BB :: "double \<Rightarrow> byte" where
  "rt_util_clamp_to_1BB value = of_int (dbl_trunc (dbl_fmin (dbl_fmax value (dbl_of_int 0)) (dbl_of_int 1)))"

definition rt_util_clamp_to_2BUI :: "double \<Rightarrow> byte" where
  "rt_util_clamp_to_2BUI value = of_int (dbl_trunc (dbl_fmin (dbl_fmax value (dbl_of_int 0)) (dbl_of_int 3)))"

definition rt_util_clamp_to_4BUI :: "double \<Rightarrow> byte" where
  "rt_util_clamp_to_4BUI value = of_int (dbl_trunc (dbl_fmin (dbl_fmax value (dbl_of_int 0)) (dbl_of_int 15)))"

definition rt_util_clamp_to_8BSI :: "double \<Rightarrow> byte" where
  "rt_util_clamp_to_8BSI value =
     of_int (dbl_trunc (dbl_fmin (dbl_fmax value (dbl_of_int (-128))) (dbl_of_int 127)))"

definition rt_util_clamp_to_8BUI :: "double \<Rightarrow> byte" where
  "rt_util_clamp_to_8BUI value = of_int (dbl_trunc (dbl_fmin (dbl_fmax value (dbl_of_int 0)) (dbl_of_int 255)))"

definition rt_util_clamp_to_16BSI :: "double \<Rightarrow> u16" where
  "rt_util_clamp_to_16BSI value =
     of_int (dbl_trunc (dbl_fmin (dbl_fmax value (dbl_of_int (-32768))) (dbl_of_int 32767)))"

definition rt_util_clamp_to_16BUI :: "double \<Rightarrow> u16" where
  "rt_util_clamp_to_16BUI value = of_int (dbl_trunc (dbl_fmin (dbl_fmax value (dbl_of_int 0)) (dbl_of_int 65535)))"

definition rt_util_clamp_to_32BSI :: "double \<Rightarrow> u32" where
  "rt_util_clamp_to_32BSI value =
     of_int (dbl_trunc (dbl_fmin (dbl_fmax value (dbl_of_int (-2147483648))) (dbl_of_int 2147483647)))"

definition rt_util_clamp_to_32BUI :: "double \<Rightarrow> u32" where
  "rt_util_clamp_to_32BUI value =
     of_int (dbl_trunc (dbl_fmin (dbl_fmax value (dbl_of_int 0)) (dbl_of_int 4294967295)))"

definition rt_util_clamp_to_32F :: "double \<Rightarrow> float32" where
  "rt_util_clamp_to_32F value =
     (if dbl_isnan value then float_of_dbl value
      else float_of_dbl (dbl_fmin (dbl_fmax value (dbl_of_float FLT_MIN_MAX)) (dbl_of_float FLT_MAX)))"

definition rt_util_clamp_to_16F :: "double \<Rightarrow> float32" where
  "rt_util_clamp_to_16F value =
     (if dbl_isnan value then float_of_dbl value
      else float_of_dbl (dbl_fmin (dbl_fmax value (dbl_of_int (-65504))) (dbl_of_int 65504)))"

section \<open>Half precision\<close>

definition rt_util_float_to_float16 :: "float32 \<Rightarrow> u16" where
  "rt_util_float_to_float16 v =
     (let sign = drop_bit 16 v AND 0x8000;
          mantissa = v AND 0x7fffff;
          exponent = uint (drop_bit 23 v AND 0xff) - 127 + 15
      in if exponent \<le> 0 then
           (if exponent < - 10 then ucast sign
            else let m = drop_bit (nat (1 - exponent)) (mantissa OR 0x800000)
                 in ucast (sign OR drop_bit 13 (m + 0x1000)))
         else if exponent \<ge> 31 then ucast (sign OR 0x7c00 OR (if mantissa \<noteq> 0 then 0x200 else 0))
         else ucast (sign OR push_bit 10 (word_of_int exponent) OR drop_bit 13 (mantissa + 0x1000)))"

text \<open>
  The loop that normalises a subnormal: ten shifts bring any of its bits to the place of
  the hidden bit.
\<close>

fun f16_normalize :: "nat \<Rightarrow> u32 \<Rightarrow> u32 \<Rightarrow> u32 \<times> u32" where
  "f16_normalize 0 mantissa exponent = (mantissa, exponent)"
| "f16_normalize (Suc n) mantissa exponent =
     (if mantissa AND 0x400 = 0 then f16_normalize n (push_bit 1 mantissa) (exponent - 1)
      else (mantissa, exponent))"

definition rt_util_float16_to_float :: "u16 \<Rightarrow> float32" where
  "rt_util_float16_to_float value =
     (let sign = push_bit 16 (ucast (value AND 0x8000));
          exponent = ucast (drop_bit 10 value AND 0x1f);
          mantissa = ucast (value AND 0x3ff)
      in if exponent = 0 then
           (if mantissa = 0 then sign
            else case f16_normalize 10 mantissa 1 of
              (m, e) \<Rightarrow> sign OR push_bit 23 (e + 127 - 15) OR push_bit 13 (m AND 0x3ff))
         else if exponent = 31 then sign OR 0x7f800000 OR push_bit 13 mantissa
         else sign OR push_bit 23 (exponent + 127 - 15) OR push_bit 13 mantissa)"

section \<open>Integers as doubles\<close>

lemma bit_length_less: "n < 2 ^ bit_length n"
proof (induction n rule: bit_length.induct)
  case (1 n)
  show ?case
  proof (cases "n = 0")
    case False
    with 1 have "n div 2 < 2 ^ bit_length (n div 2)" by simp
    with False show ?thesis by (subst bit_length.simps) simp
  qed simp
qed

lemma bit_length_ge: "0 < n \<Longrightarrow> 2 ^ (bit_length n - 1) \<le> n"
proof (induction n rule: bit_length.induct)
  case (1 n)
  show ?case
  proof (cases "n div 2 = 0")
    case True
    with 1 have "n = 1" by simp
    then show ?thesis by simp
  next
    case False
    with 1 have ih: "2 ^ (bit_length (n div 2) - 1) \<le> n div 2" by simp
    have "0 < bit_length (n div 2)" using False by (subst bit_length.simps) simp
    then obtain k where k: "bit_length (n div 2) = Suc k" by (cases "bit_length (n div 2)") auto
    have "2 * 2 ^ k \<le> n" using ih by (simp add: k)
    with 1 show ?thesis by (subst bit_length.simps) (simp add: k)
  qed
qed

lemma bit_length_le: "n < 2 ^ k \<Longrightarrow> bit_length n \<le> k"
proof (cases "n = 0")
  case False
  assume "n < 2 ^ k"
  with False have "2 ^ (bit_length n - 1) < (2::nat) ^ k" using bit_length_ge [of n] by linarith
  then have "bit_length n - 1 < k" by simp
  then show ?thesis by simp
qed simp

lemma round_quot_exact: "0 < q \<Longrightarrow> round_quot (m * q) q = m"
  by (simp add: round_quot_def Let_def)

text \<open>A number with 53 significant bits is its own rounding.\<close>

lemma mag_round_exact:
  assumes "k < 2 ^ 53" "j \<le> 2000"
  shows "mag_val 52 (mag_round (k * 2 ^ j) 1) = k * 2 ^ j" "mag_round (k * 2 ^ j) 1 < dbl_inf_mag"
proof -
  define p where "p = k * 2 ^ j"
  define s where "s = bit_length p - 53"
  have lt: "p < 2 ^ (53 + j)" using assms(1) by (simp add: p_def power_add)
  then have s: "s \<le> j" using bit_length_le [OF lt] by (simp add: s_def)
  define m where "m = k * 2 ^ (j - s)"
  have p: "p = m * 2 ^ s" using s by (simp add: p_def m_def power_add [symmetric])
  have m_lt: "m < 2 ^ 53"
  proof -
    have "p < 2 ^ (53 + s)"
      using bit_length_less [of p] by (rule less_le_trans) (simp add: s_def power_increasing)
    then show ?thesis by (simp add: p power_add)
  qed
  have m_ge: "2 ^ 52 \<le> m" if "0 < s"
  proof -
    from that have "0 < p" by (cases "p = 0") (auto simp: s_def)
    then have "2 ^ (bit_length p - 1) \<le> p" by (rule bit_length_ge)
    moreover have "bit_length p - 1 = 52 + s" using that by (simp add: s_def)
    ultimately have "2 ^ 52 * 2 ^ s \<le> m * 2 ^ s" by (simp add: p power_add)
    then show ?thesis by simp
  qed
  have sum: "s * 2 ^ 52 + m < dbl_inf_mag" using s assms(2) m_lt by simp
  have r: "mag_round p 1 = s * 2 ^ 52 + m"
  proof -
    have "bit_length p - 53 = s" by (simp add: s_def)
    moreover have "round_quot p (2 ^ s) = m" unfolding p by (rule round_quot_exact) simp
    ultimately show ?thesis using sum by (simp add: mag_round_def Let_def)
  qed
  show "mag_round (k * 2 ^ j) 1 < dbl_inf_mag" using r sum by (simp add: p_def)
  have "mag_val 52 (s * 2 ^ 52 + m) = p"
  proof (cases "m < 2 ^ 52")
    case True
    with m_ge have "s = 0" by linarith
    with True show ?thesis by (simp add: mag_val_def p)
  next
    case False
    then obtain q where q: "m = 2 ^ 52 + q" using le_Suc_ex by (metis not_less)
    with m_lt have "q < 2 ^ 52" by simp
    moreover have "s * 2 ^ 52 + m = Suc s * 2 ^ 52 + q" by (simp add: q)
    ultimately show ?thesis using mag_val_fields [of q "Suc s"] unfolding p by (simp only: q) simp
  qed
  with r show "mag_val 52 (mag_round (k * 2 ^ j) 1) = k * 2 ^ j" by (simp add: p_def)
qed

lemma dbl_of_int_exact:
  assumes "\<bar>i\<bar> < 2 ^ 53"
  shows "dbl_val (dbl_of_int i) = i * int dbl_unit" "dbl_isfinite (dbl_of_int i)"
proof -
  define r where "r = mag_round (nat \<bar>i\<bar> * dbl_unit) 1"
  have k: "nat \<bar>i\<bar> < 2 ^ 53" using assms by (simp add: nat_less_iff)
  have ex: "mag_val 52 r = nat \<bar>i\<bar> * dbl_unit" "r < dbl_inf_mag"
    using mag_round_exact [OF k, of 1074] unfolding r_def dbl_unit_def by simp_all
  then have small: "r < 2 ^ 63" by simp
  have d: "dbl_of_int i = dbl_pack (i < 0) r" by (simp add: dbl_of_int_def r_def)
  show "dbl_isfinite (dbl_of_int i)"
    using ex small by (simp add: dbl_isfinite_def d dbl_pack_parts)
  show "dbl_val (dbl_of_int i) = i * int dbl_unit"
    using ex small by (simp add: dbl_val_def d dbl_pack_parts)
qed

lemma units_trunc_mono: "v \<le> w \<Longrightarrow> units_trunc v \<le> units_trunc w"
proof -
  have u: "0 < int dbl_unit" by (simp add: dbl_unit_def)
  assume le: "v \<le> w"
  consider "w < 0" | "v < 0" "0 \<le> w" | "0 \<le> v" by linarith
  then show ?thesis
  proof cases
    case 1
    with le u show ?thesis by (simp add: units_trunc_def zdiv_mono1)
  next
    case 2
    have "0 \<le> - v div int dbl_unit" "0 \<le> w div int dbl_unit"
      using 2 u by (simp_all add: pos_imp_zdiv_nonneg_iff)
    with 2 show ?thesis by (simp add: units_trunc_def)
  next
    case 3
    with le u show ?thesis by (simp add: units_trunc_def zdiv_mono1)
  qed
qed

lemma units_trunc_int [simp]: "units_trunc (i * int dbl_unit) = i"
proof -
  have u: "0 < int dbl_unit" by (simp add: dbl_unit_def)
  then have "i * int dbl_unit < 0 \<longleftrightarrow> i < 0" by (simp add: mult_less_0_iff)
  moreover have "- (i * int dbl_unit) div int dbl_unit = - i"
    using u by (metis mult_minus_left nonzero_mult_div_cancel_right less_numeral_extra(3))
  ultimately show ?thesis using u by (simp add: units_trunc_def)
qed

lemma dbl_trunc_of_int: "\<bar>i\<bar> < 2 ^ 53 \<Longrightarrow> dbl_trunc (dbl_of_int i) = i"
  by (simp add: dbl_trunc_def dbl_of_int_exact)

lemma dbl_lt_val: "dbl_lt a b \<longleftrightarrow> \<not> dbl_isnan a \<and> \<not> dbl_isnan b \<and> dbl_val a < dbl_val b"
proof -
  have 0: "mag_val 52 m = 0 \<longleftrightarrow> m = 0" for m
    using mag_val_le_iff [of 52 m 0] by (simp add: mag_val_def)
  have opp: "- int x < int y \<longleftrightarrow> \<not> (x = 0 \<and> y = 0)" "\<not> int x < - int y" for x y by linarith+
  have "dbl_val a < dbl_val b \<longleftrightarrow> dbl_ord a < dbl_ord b"
    by (cases "dbl_neg a"; cases "dbl_neg b") (simp_all add: dbl_val_def dbl_ord_def opp 0 del: of_nat_0_less_iff)
  then show ?thesis by (auto simp: dbl_lt_def)
qed

text \<open>
  What every clamping to an integer range computes: the value truncated and then moved
  into the range; NaN goes to the lower bound.
\<close>

definition clamp_int :: "int \<Rightarrow> int \<Rightarrow> double \<Rightarrow> int" where
  "clamp_int lo hi d = (if dbl_isnan d then lo else max lo (min hi (dbl_trunc d)))"

lemma dbl_trunc_clamp:
  assumes "lo \<le> hi" "\<bar>lo\<bar> < 2 ^ 53" "\<bar>hi\<bar> < 2 ^ 53"
  shows "dbl_trunc (dbl_fmin (dbl_fmax d (dbl_of_int lo)) (dbl_of_int hi)) = clamp_int lo hi d"
proof -
  note lo = dbl_of_int_exact [OF assms(2)] dbl_trunc_of_int [OF assms(2)]
  note hi = dbl_of_int_exact [OF assms(3)] dbl_trunc_of_int [OF assms(3)]
  have nn: "\<not> dbl_isnan (dbl_of_int lo)" "\<not> dbl_isnan (dbl_of_int hi)"
    using lo hi by (simp_all add: dbl_isfinite_not_nan)
  have u: "0 < int dbl_unit" by (simp add: dbl_unit_def)
  have tr: "dbl_val d < i * int dbl_unit \<Longrightarrow> dbl_trunc d \<le> i" "i * int dbl_unit \<le> dbl_val d \<Longrightarrow> i \<le> dbl_trunc d"
    "dbl_val d \<le> i * int dbl_unit \<Longrightarrow> dbl_trunc d \<le> i" for i
    using units_trunc_mono [of "dbl_val d" "i * int dbl_unit"] units_trunc_mono [of "i * int dbl_unit" "dbl_val d"]
    by (simp_all add: dbl_trunc_def)
  have hl: "\<not> dbl_lt (dbl_of_int hi) (dbl_of_int lo)"
    using assms(1) u by (simp add: dbl_lt_val lo hi nn)
  show ?thesis
  proof (cases "dbl_isnan d")
    case True
    with hl nn lo show ?thesis by (simp add: dbl_fmax_def dbl_fmin_def clamp_int_def)
  next
    case False
    show ?thesis
    proof (cases "dbl_lt d (dbl_of_int lo)")
      case True
      then have "dbl_trunc d \<le> lo" by (simp add: dbl_lt_val lo tr)
      with True False hl nn lo assms(1) show ?thesis
        by (simp add: dbl_fmax_def dbl_fmin_def clamp_int_def)
    next
      case F: False
      then have ge: "lo \<le> dbl_trunc d" using False nn by (simp add: dbl_lt_val lo tr)
      show ?thesis
      proof (cases "dbl_lt (dbl_of_int hi) d")
        case True
        then have "hi \<le> dbl_trunc d" by (simp add: dbl_lt_val hi tr)
        with True False F nn hi assms(1) show ?thesis
          by (simp add: dbl_fmax_def dbl_fmin_def clamp_int_def)
      next
        case H: False
        then have "dbl_trunc d \<le> hi" using False nn by (simp add: dbl_lt_val hi tr)
        with H False F nn ge show ?thesis by (simp add: dbl_fmax_def dbl_fmin_def clamp_int_def)
      qed
    qed
  qed
qed

lemma clamp_int_range: "lo \<le> hi \<Longrightarrow> lo \<le> clamp_int lo hi d \<and> clamp_int lo hi d \<le> hi"
  by (simp add: clamp_int_def)

lemma clamp_int_of_int: "\<bar>i\<bar> < 2 ^ 53 \<Longrightarrow> lo \<le> i \<Longrightarrow> i \<le> hi \<Longrightarrow> clamp_int lo hi (dbl_of_int i) = i"
  by (simp add: clamp_int_def dbl_trunc_of_int dbl_of_int_exact dbl_isfinite_not_nan)

text \<open>Sums and differences of integers of up to 53 bits are exact.\<close>

lemma dbl_of_int_parts:
  assumes "\<bar>i\<bar> < 2 ^ 53"
  shows "dbl_neg (dbl_of_int i) \<longleftrightarrow> i < 0" "dbl_mag (dbl_of_int i) = mag_round (nat \<bar>i\<bar> * dbl_unit) 1"
    "\<not> dbl_isnan (dbl_of_int i)" "\<not> dbl_isinf (dbl_of_int i)"
proof -
  have k: "nat \<bar>i\<bar> < 2 ^ 53" using assms by (simp add: nat_less_iff)
  have "mag_round (nat \<bar>i\<bar> * dbl_unit) 1 < dbl_inf_mag"
    using mag_round_exact(2) [OF k, of 1074] by (simp add: dbl_unit_def)
  then have small: "mag_round (nat \<bar>i\<bar> * dbl_unit) 1 < 2 ^ 63" by simp
  show "dbl_neg (dbl_of_int i) \<longleftrightarrow> i < 0" "dbl_mag (dbl_of_int i) = mag_round (nat \<bar>i\<bar> * dbl_unit) 1"
    unfolding dbl_of_int_def using dbl_pack_parts [OF small] by simp_all
  show "\<not> dbl_isnan (dbl_of_int i)" "\<not> dbl_isinf (dbl_of_int i)"
    using dbl_of_int_exact(2) [OF assms] by (simp_all add: dbl_isfinite_def dbl_isnan_def dbl_isinf_def)
qed

lemma dbl_of_int_0 [simp]: "dbl_of_int 0 = 0"
  by (simp add: dbl_of_int_def mag_round_def round_quot_def dbl_pack_def)

lemma dbl_add_of_int:
  assumes "\<bar>i\<bar> < 2 ^ 53" "\<bar>j\<bar> < 2 ^ 53"
  shows "dbl_add (dbl_of_int i) (dbl_of_int j) = dbl_of_int (i + j)"
proof -
  have u: "0 < dbl_unit" by (simp add: dbl_unit_def)
  note ij = dbl_of_int_parts [OF assms(1)] dbl_of_int_parts [OF assms(2)]
  have v: "dbl_val (dbl_of_int i) + dbl_val (dbl_of_int j) = (i + j) * int dbl_unit"
    using assms by (simp add: dbl_of_int_exact algebra_simps)
  show ?thesis
  proof (cases "i + j = 0")
    case True
    then have "\<not> (i < 0 \<and> j < 0)" by linarith
    with True show ?thesis unfolding dbl_add_def Let_def v by (auto simp: ij dbl_pack_def)
  next
    case False
    have "nat \<bar>(i + j) * int dbl_unit\<bar> = nat \<bar>i + j\<bar> * dbl_unit"
      by (simp add: abs_mult nat_mult_distrib)
    moreover have "(i + j) * int dbl_unit < 0 \<longleftrightarrow> i + j < 0" using u by (simp add: mult_less_0_iff)
    ultimately show ?thesis
      using False u unfolding dbl_add_def Let_def v dbl_of_int_def [of "i + j"] by (simp add: ij)
  qed
qed

lemma dbl_sub_of_int:
  assumes "\<bar>i\<bar> < 2 ^ 53" "\<bar>j\<bar> < 2 ^ 53"
  shows "dbl_sub (dbl_of_int i) (dbl_of_int j) = dbl_of_int (i - j)"
proof (cases "j = 0")
  case False
  then have "\<not> j < 0 \<longleftrightarrow> - j < 0" by auto
  then have "dbl_minus (dbl_of_int j) = dbl_of_int (- j)"
    unfolding dbl_minus_def dbl_of_int_parts [OF assms(2)] by (simp add: dbl_of_int_def)
  with dbl_add_of_int [OF assms(1), of "- j"] assms(2) show ?thesis by (simp add: dbl_sub_def)
next
  case True
  have m: "dbl_minus (dbl_of_int j) = dbl_pack True 0" by (simp add: True dbl_minus_def dbl_neg_def)
  have z: "\<not> dbl_isnan (dbl_pack True 0)" "\<not> dbl_isinf (dbl_pack True 0)" "dbl_val (dbl_pack True 0) = 0"
    using dbl_pack_parts [of 0 True] by (simp_all add: dbl_isnan_def dbl_isinf_def dbl_val_def mag_val_def)
  have u: "0 < dbl_unit" by (simp add: dbl_unit_def)
  note i = dbl_of_int_parts [OF assms(1)]
  have v: "dbl_val (dbl_of_int i) + dbl_val (dbl_pack True 0) = i * int dbl_unit"
    using assms by (simp add: dbl_of_int_exact z)
  show ?thesis
  proof (cases "i = 0")
    case False
    have "nat \<bar>i * int dbl_unit\<bar> = nat \<bar>i\<bar> * dbl_unit" by (simp add: abs_mult nat_mult_distrib)
    moreover have "i * int dbl_unit < 0 \<longleftrightarrow> i < 0" using u by (simp add: mult_less_0_iff)
    ultimately show ?thesis
      using False u True unfolding dbl_sub_def m dbl_add_def Let_def v dbl_of_int_def [of "i - j"]
      by (simp add: i z)
  next
    case zero: True
    have "\<not> dbl_neg 0" "\<not> dbl_isinf 0" by (simp_all add: dbl_neg_def dbl_isinf_def)
    then have "dbl_sub (dbl_of_int i) (dbl_of_int j) = dbl_pack False 0"
      unfolding dbl_sub_def m dbl_add_def Let_def v by (simp only: zero z dbl_of_int_0 dbl_zero_props if_False) simp
    then show ?thesis using True zero by (simp add: dbl_pack_def)
  qed
qed

lemma dbl_eq_of_int: "\<bar>i\<bar> < 2 ^ 53 \<Longrightarrow> \<bar>j\<bar> < 2 ^ 53 \<Longrightarrow> dbl_eq (dbl_of_int i) (dbl_of_int j) \<longleftrightarrow> i = j"
proof -
  assume i: "\<bar>i\<bar> < 2 ^ 53" and j: "\<bar>j\<bar> < 2 ^ 53"
  have u: "0 < int dbl_unit" by (simp add: dbl_unit_def)
  have "i = j" if "dbl_eq (dbl_of_int i) (dbl_of_int j)"
  proof -
    from that have "\<not> dbl_lt (dbl_of_int i) (dbl_of_int j)" "\<not> dbl_lt (dbl_of_int j) (dbl_of_int i)"
      by (simp_all add: dbl_eq_def dbl_lt_def)
    with u show "i = j"
      by (simp add: dbl_lt_val dbl_of_int_parts(3) [OF i] dbl_of_int_parts(3) [OF j]
          dbl_of_int_exact(1) [OF i] dbl_of_int_exact(1) [OF j])
  qed
  then show ?thesis by (auto simp: dbl_eq_def dbl_of_int_parts(3) [OF j])
qed

section \<open>Half precision numbers and their magnitudes\<close>

definition f16_mag :: "u16 \<Rightarrow> nat" where
  "f16_mag h = unat (take_bit 15 h)"

definition f16_neg :: "u16 \<Rightarrow> bool" where
  "f16_neg h \<longleftrightarrow> bit h 15"

definition f16_isnan :: "u16 \<Rightarrow> bool" where
  "f16_isnan h \<longleftrightarrow> 0x7c00 < f16_mag h"

text \<open>The two conversions on magnitudes.\<close>

definition mag_to16 :: "nat \<Rightarrow> nat" where
  "mag_to16 m =
     (let e = m div 2 ^ 23; q = m mod 2 ^ 23; r = (q + 2 ^ 12) div 2 ^ 13
      in if e \<le> 112 then (if e < 102 then 0 else ((2 ^ 23 + q) div 2 ^ (113 - e) + 2 ^ 12) div 2 ^ 13)
         else if 143 \<le> e then 0x7c00 + (if q = 0 then 0 else 0x200)
         else if r = 2 ^ 10 \<and> odd e then (e - 112) * 2 ^ 10
         else (e - 112) * 2 ^ 10 + r)"

definition mag_from16 :: "nat \<Rightarrow> nat" where
  "mag_from16 m =
     (let e = m div 2 ^ 10; q = m mod 2 ^ 10
      in if e = 0 then
           (if q = 0 then 0
            else let k = norm_shift 10 q (2 ^ 10) in (113 - k) * 2 ^ 23 + (q * 2 ^ k - 2 ^ 10) * 2 ^ 13)
         else if e = 31 then 255 * 2 ^ 23 + q * 2 ^ 13
         else (e + 112) * 2 ^ 23 + q * 2 ^ 13)"

lemma flt_fields:
  "unat (v AND 0x7fffff) = flt_mag v mod 2 ^ 23"
  "unat (drop_bit 23 v AND 0xff) = flt_mag v div 2 ^ 23"
  "drop_bit 16 v AND 0x8000 = push_bit 15 (of_bool (flt_neg v))" for v :: float32
proof -
  have m: "(0x7fffff :: u32) = mask 23" "(0xff :: u32) = mask 8" by (simp_all add: mask_eq_exp_minus_1)
  have mag: "flt_mag v = unat v mod 2 ^ 31" unfolding flt_mag_def by (subst unsigned_take_bit_eq) (simp_all add: take_bit_eq_mod)
  show "unat (v AND 0x7fffff) = flt_mag v mod 2 ^ 23"
    unfolding m take_bit_eq_mask [symmetric]
    unfolding mag by (subst unsigned_take_bit_eq) (simp_all add: take_bit_eq_mod mod_mod_cancel)
  have "take_bit 8 (drop_bit 23 v) = drop_bit 23 (take_bit 31 v)"
    by (rule bit_word_eqI) (auto simp: bit_simps)
  then show "unat (drop_bit 23 v AND 0xff) = flt_mag v div 2 ^ 23"
    unfolding m take_bit_eq_mask [symmetric]
    by (simp only: flt_mag_def unsigned_drop_bit_eq) (simp add: drop_bit_eq_div take_bit_nat_eq_self unsigned_take_bit_eq)
  have b: "bit (0x8000 :: u32) n \<longleftrightarrow> n = 15" for n
    using bit_exp_iff [of 15 n, where 'a = u32] by (auto simp: possible_bit_def simp del: bit_numeral_word_iff)
  show "drop_bit 16 v AND 0x8000 = push_bit 15 (of_bool (flt_neg v))"
    by (rule bit_word_eqI) (auto simp: flt_neg_def bit_simps b simp del: bit_numeral_word_iff)
qed

definition f16_pack :: "bool \<Rightarrow> nat \<Rightarrow> u16" where
  "f16_pack s m = of_nat ((if s then 2 ^ 15 else 0) + m)"

lemma f16_pack_parts: "m < 2 ^ 15 \<Longrightarrow> f16_mag (f16_pack s m) = m" "m < 2 ^ 15 \<Longrightarrow> f16_neg (f16_pack s m) = s"
proof -
  assume m: "m < 2 ^ 15"
  have l: "LENGTH(16) = Suc 15" by simp
  show "f16_mag (f16_pack s m) = m"
    unfolding f16_mag_def f16_pack_def of_nat_bit_top(1) [where 'a = 16, OF m l]
    using m by (simp add: unat_of_nat)
  show "f16_neg (f16_pack s m) = s"
    unfolding f16_neg_def f16_pack_def by (rule of_nat_bit_top(2) [where 'a = 16, OF m l])
qed

lemma f16_mag_less: "f16_mag h < 2 ^ 15"
  unfolding f16_mag_def by (subst unsigned_take_bit_eq) (simp_all add: take_bit_eq_mod)

lemma f16_mag_neg_inject: "f16_mag a = f16_mag b \<Longrightarrow> f16_neg a = f16_neg b \<Longrightarrow> a = b"
proof -
  assume "f16_mag a = f16_mag b" and neg: "f16_neg a = f16_neg b"
  then have low: "take_bit 15 a = take_bit 15 b" by (simp add: f16_mag_def word_unat_eq_iff)
  have "bit a n = bit b n" if "n < 16" for n
  proof (cases "n < 15")
    case True
    with low show ?thesis by (metis bit_take_bit_iff)
  next
    case False
    with that have "n = 15" by simp
    with neg show ?thesis by (simp add: f16_neg_def)
  qed
  then show "a = b" by (intro bit_word_eqI) simp
qed

lemma f16_pack_mag: "f16_pack (f16_neg h) (f16_mag h) = h"
  by (rule f16_mag_neg_inject) (simp_all only: f16_pack_parts f16_mag_less)

lemma f16_assemble:
  fixes n :: u32
  assumes "unat n < 2 ^ 15"
  shows "ucast (push_bit 15 (of_bool s) OR n) = f16_pack s (unat n)"
proof -
  have "unat (n OR push_bit 15 (of_bool s)) = unat n + unat (of_bool s :: u32) * 2 ^ 15"
    using assms by (intro unat_or_push_bit) auto
  then have "unat (push_bit 15 (of_bool s) OR n) = (if s then 2 ^ 15 else 0) + unat n"
    by (simp add: or.commute)
  then show ?thesis
    unfolding f16_pack_def by (metis of_nat_unat)
qed

lemma mag_to16_less: "mag_to16 m < 2 ^ 15"
proof -
  define e where "e = m div 2 ^ 23"
  define q where "q = m mod 2 ^ 23"
  have q: "q < 2 ^ 23" by (simp add: q_def)
  then have r: "(q + 2 ^ 12) div 2 ^ 13 \<le> 2 ^ 10" by simp
  have sub: "((2 ^ 23 + q) div 2 ^ (113 - e) + 2 ^ 12) div 2 ^ 13 < 2 ^ 15" if "e \<le> 112"
  proof -
    have "(2 ^ 23 + q) div 2 ^ (113 - e) \<le> 2 ^ 23 + q" by (rule div_le_dividend)
    moreover have "2 ^ 23 + q + 2 ^ 12 < 2 ^ 15 * 2 ^ 13" using q by simp
    ultimately have "(2 ^ 23 + q) div 2 ^ (113 - e) + 2 ^ 12 < 2 ^ 15 * 2 ^ 13" by linarith
    then show ?thesis by (simp add: less_mult_imp_div_less)
  qed
  have nor: "(e - 112) * 2 ^ 10 + r' < 2 ^ 15" if "e < 143" "r' \<le> 2 ^ 10" for r'
    using that by simp
  show ?thesis
    using sub nor [OF _ r] nor [of 0] unfolding mag_to16_def Let_def e_def [symmetric] q_def [symmetric]
    by (auto simp: not_le)
qed

lemma mag_to16_above: "0x7c00 < mag_to16 m \<Longrightarrow> mag_to16 m = 0x7e00"
proof -
  define e where "e = m div 2 ^ 23"
  define q where "q = m mod 2 ^ 23"
  assume above: "0x7c00 < mag_to16 m"
  have q: "q < 2 ^ 23" by (simp add: q_def)
  then have r: "(q + 2 ^ 12) div 2 ^ 13 \<le> 2 ^ 10" by simp
  have sub: "((2 ^ 23 + q) div 2 ^ (113 - e) + 2 ^ 12) div 2 ^ 13 \<le> 0x7c00"
  proof -
    have "x + 2 ^ 12 < 0x7c00 * 2 ^ 13" if "x \<le> 2 ^ 23 + q" for x using q that by simp
    then have "(2 ^ 23 + q) div 2 ^ (113 - e) + 2 ^ 12 < 0x7c00 * 2 ^ 13" using div_le_dividend by blast
    then have "((2 ^ 23 + q) div 2 ^ (113 - e) + 2 ^ 12) div 2 ^ 13 < 0x7c00" by (rule less_mult_imp_div_less)
    then show ?thesis by simp
  qed
  have nor: "(e - 112) * 2 ^ 10 + r' \<le> 0x7c00" if "\<not> 143 \<le> e" "r' \<le> 2 ^ 10" for r' using that by simp
  note def = mag_to16_def [of m, unfolded Let_def, folded e_def q_def]
  have "143 \<le> e"
    using above sub nor [OF _ r] nor [of 0] unfolding def by (rule_tac ccontr) (auto split: if_splits)
  then have "mag_to16 m = 0x7c00 + (if q = 0 then 0 else 0x200)" unfolding def by simp
  with above show ?thesis by (auto split: if_splits)
qed

lemma float_to_float16_parts: "rt_util_float_to_float16 v = f16_pack (flt_neg v) (mag_to16 (flt_mag v))"
proof -
  define e where "e = flt_mag v div 2 ^ 23"
  define q where "q = flt_mag v mod 2 ^ 23"
  define M where "M = v AND 0x7fffff"
  define S where "S = (push_bit 15 (of_bool (flt_neg v)) :: u32)"
  note fields = flt_fields [of v, folded e_def q_def M_def S_def]
  have q: "q < 2 ^ 23" by (simp add: q_def)
  have ex: "uint (drop_bit 23 v AND 0xff) = int e" using fields(2) by (simp add: uint_nat)
  have hid: "unat (M OR 0x800000) = 2 ^ 23 + q"
  proof -
    have "unat (M OR push_bit 23 1) = unat M + unat (1 :: u32) * 2 ^ 23"
      using q fields(1) by (intro unat_or_push_bit) auto
    then show ?thesis by (simp add: fields(1))
  qed
  have asm: "unat n < 2 ^ 15 \<Longrightarrow> ucast (S OR n) = f16_pack (flt_neg v) (unat n)" for n :: u32
    unfolding S_def by (rule f16_assemble)
  have less: "mag_to16 (flt_mag v) < 2 ^ 15" by (rule mag_to16_less)
  note eval = rt_util_float_to_float16_def mag_to16_def Let_def e_def [symmetric] q_def [symmetric]
    M_def [symmetric] fields(3) ex
  consider "e < 102" | "102 \<le> e" "e \<le> 112" | "143 \<le> e" | "112 < e" "e < 143" by linarith
  then show ?thesis
  proof cases
    case 1
    with asm [of 0] show ?thesis unfolding eval by simp
  next
    case 2
    let ?n = "drop_bit 13 (drop_bit (113 - e) (M OR 0x800000) + 0x1000)"
    have "unat (drop_bit (113 - e) (M OR 0x800000)) = (2 ^ 23 + q) div 2 ^ (113 - e)"
      by (simp only: unsigned_drop_bit_eq) (use q in \<open>simp add: drop_bit_eq_div hid take_bit_nat_eq_self\<close>)
    moreover have "x + 2 ^ 12 < 2 ^ 32" if "x \<le> 2 ^ 23 + q" for x using q that by simp
    then have "(2 ^ 23 + q) div 2 ^ (113 - e) + 2 ^ 12 < 2 ^ 32" using div_le_dividend by blast
    then have "((2 ^ 23 + q) div 2 ^ (113 - e) + 2 ^ 12) mod 2 ^ 32 = (2 ^ 23 + q) div 2 ^ (113 - e) + 2 ^ 12"
      by (rule mod_less)
    ultimately have "unat (drop_bit (113 - e) (M OR 0x800000) + 0x1000) = (2 ^ 23 + q) div 2 ^ (113 - e) + 2 ^ 12"
      by (subst unat_word_ariths(1)) (simp del: drop_bit_or)
    then have "unat ?n = ((2 ^ 23 + q) div 2 ^ (113 - e) + 2 ^ 12) div 2 ^ 13"
      by (simp only: unat_drop_bit_eq) (simp add: drop_bit_eq_div)
    with 2 less asm [of ?n] show ?thesis unfolding eval by (simp add: nat_diff_distrib')
  next
    case 3
    have "M = 0 \<longleftrightarrow> q = 0" using fields(1) by (simp add: word_unat_eq_iff)
    with 3 asm [of "0x7c00"] asm [of "0x7e00"] show ?thesis unfolding eval by simp
  next
    case 4
    obtain k where k: "e = 112 + k" "0 < k" "k < 31" using 4 by (intro that [of "e - 112"]) simp_all
    let ?E = "of_nat k :: u32" and ?r = "drop_bit 13 (M + 0x1000)"
    have E: "unat ?E = k" using k by (simp add: unat_of_nat)
    have "unat (M + 0x1000) = q + 2 ^ 12"
      using q fields(1) by (subst unat_word_ariths(1)) simp
    then have r: "unat ?r = (q + 2 ^ 12) div 2 ^ 13" by (simp only: unat_drop_bit_eq) (simp add: drop_bit_eq_div)
    then have r_le: "unat ?r \<le> 2 ^ 10" using q by simp
    have sum: "unat (push_bit 10 ?E OR ?r) = (if unat ?r = 2 ^ 10 \<and> odd k then k * 2 ^ 10 else k * 2 ^ 10 + unat ?r)"
    proof (cases "unat ?r = 2 ^ 10")
      case False
      with r_le have "unat ?r < 2 ^ 10" by simp
      then have "unat (?r OR push_bit 10 ?E) = unat ?r + unat ?E * 2 ^ 10"
        using k E by (intro unat_or_push_bit) auto
      with False show ?thesis by (simp add: E or.commute)
    next
      case True
      then have r': "?r = push_bit 10 1" by (simp add: word_unat_eq_iff)
      have "push_bit 10 ?E OR ?r = push_bit 10 (?E OR 1)" unfolding r' by (simp only: push_bit_or)
      moreover have "unat (?E OR 1) = (if odd k then k else k + 1)"
        by (simp only: unsigned_or_eq E) (auto simp: or_Suc_0_eq)
      moreover from this have "unat (push_bit 10 (?E OR 1)) = unat (?E OR 1) * 2 ^ 10"
        using k by (simp only: unsigned_push_bit_eq) (simp add: push_bit_eq_mult take_bit_nat_eq_self)
      ultimately show ?thesis using True by auto
    qed
    then have mag: "unat (push_bit 10 ?E OR ?r) = mag_to16 (flt_mag v)"
      using k unfolding mag_to16_def Let_def e_def [symmetric] q_def [symmetric] by (simp add: r)
    have "rt_util_float_to_float16 v = ucast (S OR (push_bit 10 ?E OR ?r))"
      using k unfolding eval by simp
    with less asm [of "push_bit 10 ?E OR ?r"] mag show ?thesis by simp
  qed
qed

lemma f16_fields:
  "unat (ucast (h AND 0x3ff) :: u32) = f16_mag h mod 2 ^ 10"
  "unat (ucast (drop_bit 10 h AND 0x1f) :: u32) = f16_mag h div 2 ^ 10"
  "push_bit 16 (ucast (h AND 0x8000)) = (push_bit 31 (of_bool (f16_neg h)) :: u32)" for h :: u16
proof -
  have m: "(0x3ff :: u16) = mask 10" "(0x1f :: u16) = mask 5" by (simp_all add: mask_eq_exp_minus_1)
  have mag: "f16_mag h = unat h mod 2 ^ 15" unfolding f16_mag_def by (subst unsigned_take_bit_eq) (simp_all add: take_bit_eq_mod)
  have up: "unat (ucast w :: u32) = unat w" for w :: u16 
    by (subst unsigned_ucast_eq) (rule take_bit_nat_eq_self, rule less_trans [OF unsigned_less], simp)
  show "unat (ucast (h AND 0x3ff) :: u32) = f16_mag h mod 2 ^ 10"
    unfolding up m take_bit_eq_mask [symmetric]
    unfolding mag by (subst unsigned_take_bit_eq) (simp_all add: take_bit_eq_mod mod_mod_cancel)
  have "take_bit 5 (drop_bit 10 h) = drop_bit 10 (take_bit 15 h)"
    by (rule bit_word_eqI) (auto simp: bit_simps)
  then show "unat (ucast (drop_bit 10 h AND 0x1f) :: u32) = f16_mag h div 2 ^ 10"
    unfolding up m take_bit_eq_mask [symmetric]
    by (simp only: f16_mag_def unat_drop_bit_eq) (simp add: drop_bit_eq_div)
  have b: "bit (0x8000 :: u16) n \<longleftrightarrow> n = 15" for n
    using bit_exp_iff [of 15 n, where 'a = u16] by (auto simp: possible_bit_def simp del: bit_numeral_word_iff)
  show "push_bit 16 (ucast (h AND 0x8000)) = (push_bit 31 (of_bool (f16_neg h)) :: u32)"
  proof (rule bit_word_eqI)
    fix n assume "n < LENGTH(32)"
    then show "bit (push_bit 16 (ucast (h AND 0x8000)) :: u32) n \<longleftrightarrow> bit (push_bit 31 (of_bool (f16_neg h)) :: u32) n"
      by (cases "n = 31") (auto simp: f16_neg_def bit_simps b simp del: bit_numeral_word_iff)
  qed
qed

lemma flt_assemble:
  fixes E M :: u32
  assumes "unat E < 2 ^ 8" "unat M < 2 ^ 10"
  shows "push_bit 31 (of_bool s) OR push_bit 23 E OR push_bit 13 M = flt_pack s (unat E * 2 ^ 23 + unat M * 2 ^ 13)"
proof -
  have M: "unat (push_bit 13 M) = unat M * 2 ^ 13"
    using assms by (simp only: unsigned_push_bit_eq) (simp add: push_bit_eq_mult take_bit_nat_eq_self)
  have "unat (push_bit 13 M OR push_bit 23 E) = unat (push_bit 13 M) + unat E * 2 ^ 23"
    using assms by (intro unat_or_push_bit) (auto simp: M)
  moreover from this have "unat ((push_bit 13 M OR push_bit 23 E) OR push_bit 31 (of_bool s)) =
      unat (push_bit 13 M OR push_bit 23 E) + unat (of_bool s :: u32) * 2 ^ 31"
    using assms by (intro unat_or_push_bit) (auto simp: M)
  ultimately have "unat (push_bit 31 (of_bool s) OR push_bit 23 E OR push_bit 13 M) =
      (if s then 2 ^ 31 else 0) + (unat E * 2 ^ 23 + unat M * 2 ^ 13)"
    by (simp add: M or.commute or.left_commute)
  then show ?thesis unfolding flt_pack_def by (metis of_nat_unat ucast_id)
qed

lemma f16_normalize_spec:
  "unat m < 2 ^ 11 \<Longrightarrow> f16_normalize n m e = (m', e') \<Longrightarrow>
   unat m' = unat m * 2 ^ norm_shift n (unat m) (2 ^ 10) \<and> e' = e - of_nat (norm_shift n (unat m) (2 ^ 10))"
proof (induction n arbitrary: m e)
  case (Suc n)
  have bit: "m AND 0x400 = 0 \<longleftrightarrow> unat m < 2 ^ 10"
  proof -
    have "m AND 0x400 = 0 \<longleftrightarrow> \<not> bit (unat m) 10"
      using and_exp_eq_0_iff_not_bit [of m 10] by (simp add: bit_unsigned_iff)
    moreover have "unat m div 2 ^ 10 < 2" using Suc.prems(1) by simp
    then have "odd (unat m div 2 ^ 10) \<longleftrightarrow> 2 ^ 10 \<le> unat m"
      by (cases "unat m div 2 ^ 10 = 0") (auto simp: less_2_cases_iff div_eq_0_iff)
    ultimately show ?thesis by (auto simp: bit_iff_odd)
  qed
  show ?case
  proof (cases "unat m < 2 ^ 10")
    case True
    then have dbl: "unat (push_bit 1 m) = 2 * unat m"
      by (simp only: unsigned_push_bit_eq) (simp add: push_bit_eq_mult take_bit_nat_eq_self)
    with Suc.IH [of "push_bit 1 m" "e - 1"] Suc.prems True bit show ?thesis
      by (simp add: algebra_simps)
  qed (use Suc.prems bit in simp)
qed simp

lemma float16_to_float_parts: "rt_util_float16_to_float h = flt_pack (f16_neg h) (mag_from16 (f16_mag h))"
proof -
  define e where "e = f16_mag h div 2 ^ 10"
  define q where "q = f16_mag h mod 2 ^ 10"
  define E where "E = (ucast (drop_bit 10 h AND 0x1f) :: u32)"
  define M where "M = (ucast (h AND 0x3ff) :: u32)"
  note fields = f16_fields [of h, folded e_def q_def E_def M_def]
  have q: "q < 2 ^ 10" by (simp add: q_def)
  have e: "e < 32" using f16_mag_less [of h] unfolding e_def by (simp add: less_mult_imp_div_less)
  have zero: "E = 0 \<longleftrightarrow> e = 0" "M = 0 \<longleftrightarrow> q = 0" "E = 31 \<longleftrightarrow> e = 31"
    using fields(1,2) by (simp_all add: word_unat_eq_iff)
  note asm = flt_assemble [of _ _ "f16_neg h"]
  note eval = rt_util_float16_to_float_def mag_from16_def Let_def e_def [symmetric] q_def [symmetric]
    E_def [symmetric] M_def [symmetric] fields(3) zero
  consider "e = 0" "q = 0" | "e = 0" "0 < q" | "e = 31" | "0 < e" "e < 31" using e by linarith
  then show ?thesis
  proof cases
    case 1
    then show ?thesis unfolding eval using asm [of 0 0] by simp
  next
    case 2
    define k where "k = norm_shift 10 q (2 ^ 10)"
    obtain m' e' where n: "f16_normalize 10 M 1 = (m', e')" by (rule prod.exhaust)
    have m': "unat m' = q * 2 ^ k" "e' = 1 - of_nat k"
      using f16_normalize_spec [OF _ n] q fields(1) by (simp_all add: k_def)
    have k: "k \<le> 10" "2 ^ 10 \<le> q * 2 ^ k" "q * 2 ^ k < 2 ^ 11"
      using norm_shift_range [of q "2 ^ 10" 10] 2 q by (simp_all add: k_def)
    have w: "e' + 127 - 15 = of_nat (113 - k)" using k m' by (simp add: of_nat_diff)
    have E': "unat (e' + 127 - 15) = 113 - k" unfolding w by (subst unat_of_nat) (use k in simp)
    have "m' AND 0x3ff = take_bit 10 m'" by (simp add: take_bit_eq_mask mask_eq_exp_minus_1)
    then have "unat (m' AND 0x3ff) = unat m' mod 2 ^ 10"
      by (simp only:) (subst unsigned_take_bit_eq, simp_all add: take_bit_eq_mod)
    also have "\<dots> = q * 2 ^ k - 2 ^ 10" using k m' by (simp add: le_mod_geq)
    finally have M': "unat (m' AND 0x3ff) = q * 2 ^ k - 2 ^ 10" .
    have "unat (e' + 127 - 15) < 2 ^ 8" "unat (m' AND 0x3ff) < 2 ^ 10" using E' M' k by simp_all
    then show ?thesis
      using 2 asm [of "e' + 127 - 15" "m' AND 0x3ff"] unfolding eval n E' M' k_def [symmetric] by simp
  next
    case 3
    then show ?thesis unfolding eval using asm [of "0xff" M] fields(1) q by simp
  next
    case 4
    have "E = of_nat e" using fields(2) by (metis of_nat_unat ucast_id)
    then have w: "E + 127 - 15 = of_nat (e + 112)" by simp
    have E': "unat (E + 127 - 15) = e + 112" unfolding w by (subst unat_of_nat) (use 4 in simp)
    then show ?thesis using 4 asm [of "E + 127 - 15" M] fields(1) q unfolding eval by simp
  qed
qed

text \<open>
  Half precision numbers convert exactly, and back to themselves. The unit of the half
  precision numbers is \<open>2 ^ 125\<close> units of single precision.
\<close>

lemma mag_val_parts: "q < 2 ^ p \<Longrightarrow> 0 < e \<Longrightarrow> mag_val p (e * 2 ^ p + q) = (2 ^ p + q) * 2 ^ (e - 1)"
  by (simp add: mag_val_def)

lemma mag_fields_eq: "q < 2 ^ p \<Longrightarrow> (e * 2 ^ p + q) div 2 ^ p = e" "q < 2 ^ p \<Longrightarrow> (e * 2 ^ p + q) mod 2 ^ p = q" for e q :: nat
  by simp_all

text \<open>The magnitudes of half precision by cases, with the fields of their conversions.\<close>

lemma mag16_cases:
  assumes "m < 2 ^ 15"
  obtains "m = 0" "mag_from16 m = 0"
  | k where "0 < m" "m < 2 ^ 10" "0 < k" "k \<le> 10" "2 ^ 10 \<le> m * 2 ^ k" "m * 2 ^ k < 2 ^ 11"
      "mag_from16 m = (113 - k) * 2 ^ 23 + (m * 2 ^ k - 2 ^ 10) * 2 ^ 13"
  | e q where "0 < e" "e < 31" "q < 2 ^ 10" "m = e * 2 ^ 10 + q" "mag_from16 m = (e + 112) * 2 ^ 23 + q * 2 ^ 13"
  | q where "q < 2 ^ 10" "m = 31 * 2 ^ 10 + q" "mag_from16 m = 255 * 2 ^ 23 + q * 2 ^ 13"
proof -
  define e where "e = m div 2 ^ 10"
  define q where "q = m mod 2 ^ 10"
  have q: "q < 2 ^ 10" by (simp add: q_def)
  have e: "e < 32" using assms unfolding e_def by (simp add: less_mult_imp_div_less)
  have m: "m = e * 2 ^ 10 + q" unfolding e_def q_def by simp
  note eval = mag_from16_def Let_def e_def [symmetric] q_def [symmetric]
  consider "e = 0" "q = 0" | "e = 0" "0 < q" | "0 < e" "e < 31" | "e = 31" using e by linarith
  then show ?thesis
  proof cases
    case 1
    with m have "mag_from16 m = 0" unfolding eval by simp
    with 1 m show ?thesis by (intro that(1)) simp_all
  next
    case 2
    define k where "k = norm_shift 10 q (2 ^ 10)"
    have k: "k \<le> 10" "2 ^ 10 \<le> q * 2 ^ k" "q * 2 ^ k < 2 ^ 11"
      using norm_shift_range [of q "2 ^ 10" 10] 2 q by (simp_all add: k_def)
    moreover have "0 < k" using k(2) q by (cases k) simp_all
    moreover have "mag_from16 m = (113 - k) * 2 ^ 23 + (q * 2 ^ k - 2 ^ 10) * 2 ^ 13"
      using 2 unfolding eval k_def [symmetric] by simp
    ultimately show ?thesis using 2 m q by (intro that(2) [of k]) simp_all
  next
    case 3
    with q m that(3) [of e q] show ?thesis unfolding eval by simp
  next
    case 4
    with q m that(4) [of q] show ?thesis unfolding eval by simp
  qed
qed

lemma mag_from16_exact:
  assumes "m < 0x7c00"
  shows "mag_val 23 (mag_from16 m) = mag_val 10 m * 2 ^ 125"
proof -
  from assms have "m < 2 ^ 15" by simp
  then show ?thesis
  proof (cases rule: mag16_cases)
    case 1
    then show ?thesis by (simp add: mag_val_def)
  next
    case (2 k)
    have "mag_val 23 (mag_from16 m) = (2 ^ 23 + (m * 2 ^ k - 2 ^ 10) * 2 ^ 13) * 2 ^ (113 - k - 1)"
      unfolding 2(7) using 2 by (intro mag_val_parts) auto
    also have "2 ^ 23 + (m * 2 ^ k - 2 ^ 10) * 2 ^ 13 = m * 2 ^ k * 2 ^ 13" using 2(5) by simp
    also have "m * 2 ^ k * 2 ^ 13 * 2 ^ (113 - k - 1) = m * (2 ^ k * 2 ^ (113 - k - 1) * 2 ^ 13)"
      by (simp only: ac_simps)
    also have "2 ^ k * 2 ^ (113 - k - 1) * 2 ^ 13 = (2 :: nat) ^ 125"
      using 2(4) by (simp flip: power_add)
    finally show ?thesis using 2(2) by (simp add: mag_val_def)
  next
    case (3 e q)
    have "mag_val 23 (mag_from16 m) = (2 ^ 23 + q * 2 ^ 13) * 2 ^ (e + 112 - 1)"
      unfolding 3(5) using 3 by (intro mag_val_parts) auto
    also have "2 ^ 23 + q * 2 ^ 13 = (2 ^ 10 + q) * 2 ^ 13" by simp
    also have "2 ^ (e + 112 - 1) = 2 ^ (e - 1) * (2 :: nat) ^ 112" using 3(1) by (cases e) (simp_all add: power_add)
    also have "(2 ^ 10 + q) * 2 ^ 13 * (2 ^ (e - 1) * 2 ^ 112) = (2 ^ 10 + q) * 2 ^ (e - 1) * 2 ^ 125"
      by simp
    also have "(2 ^ 10 + q) * 2 ^ (e - 1) = mag_val 10 m"
      unfolding 3(4) using 3 by (intro mag_val_parts [symmetric]) auto
    finally show ?thesis .
  qed (use assms in simp)
qed

lemma mag_to_from16:
  assumes "m \<le> 0x7c00"
  shows "mag_to16 (mag_from16 m) = m"
proof -
  from assms have "m < 2 ^ 15" by simp
  then show ?thesis
  proof (cases rule: mag16_cases)
    case 1
    then show ?thesis by (simp add: mag_to16_def)
  next
    case (2 k)
    have q: "(m * 2 ^ k - 2 ^ 10) * 2 ^ 13 < 2 ^ 23" using 2(6) by simp
    have "(2 ^ 23 + (m * 2 ^ k - 2 ^ 10) * 2 ^ 13) div 2 ^ (113 - (113 - k)) = m * 2 ^ 13"
    proof -
      have "2 ^ 23 + (m * 2 ^ k - 2 ^ 10) * 2 ^ 13 = m * 2 ^ 13 * 2 ^ k" using 2(5) by simp
      moreover have "113 - (113 - k) = k" using 2(4) by simp
      ultimately show ?thesis by simp
    qed
    moreover have "\<not> 113 - k < 102" "113 - k \<le> 112" using 2(3,4) by simp_all
    moreover have "(m * 2 ^ 13 + 2 ^ 12) div 2 ^ 13 = m" by simp
    ultimately show ?thesis unfolding mag_to16_def Let_def 2(7) mag_fields_eq [OF q] by simp
  next
    case (3 e q)
    have q: "q * 2 ^ 13 < 2 ^ 23" using 3 by simp
    have "(q * 2 ^ 13 + 2 ^ 12) div 2 ^ 13 = q" by simp
    then show ?thesis using 3 unfolding mag_to16_def Let_def 3(5) mag_fields_eq [OF q] by simp
  next
    case (4 q)
    with assms have "q = 0" by simp
    with 4 show ?thesis by (simp add: mag_to16_def)
  qed
qed

lemma mag_from16_less:
  assumes "m < 2 ^ 15"
  shows "mag_from16 m < 2 ^ 31"
  using assms by (cases rule: mag16_cases) simp_all

lemma mag_to16_nan:
  assumes "255 * 2 ^ 23 < m" "m < 2 ^ 31"
  shows "mag_to16 m = 0x7e00"
proof -
  obtain r where r: "m = 255 * 2 ^ 23 + r" "0 < r" "r < 2 ^ 23"
    using assms by (intro that [of "m - 255 * 2 ^ 23"]) simp_all
  show ?thesis using r(2) unfolding mag_to16_def Let_def r(1) mag_fields_eq [OF r(3)] by simp
qed

text \<open>Reading back a number in half precision; all the NaNs of one sign become one.\<close>

lemma float16_roundtrip:
  "rt_util_float_to_float16 (rt_util_float16_to_float h) =
     (if f16_isnan h then f16_pack (f16_neg h) 0x7e00 else h)"
proof -
  have parts: "flt_mag (rt_util_float16_to_float h) = mag_from16 (f16_mag h)"
    "flt_neg (rt_util_float16_to_float h) = f16_neg h"
    unfolding float16_to_float_parts by (rule flt_pack_parts, rule mag_from16_less, rule f16_mag_less)+
  have "mag_to16 (mag_from16 (f16_mag h)) = (if f16_isnan h then 0x7e00 else f16_mag h)"
  proof (cases "f16_isnan h")
    case True
    from f16_mag_less [of h] have "255 * 2 ^ 23 < mag_from16 (f16_mag h)"
      by (cases rule: mag16_cases) (use True in \<open>simp_all add: f16_isnan_def\<close>)
    with True mag_to16_nan [OF _ mag_from16_less [OF f16_mag_less]] show ?thesis by simp
  qed (simp add: f16_isnan_def mag_to_from16)
  then show ?thesis
    unfolding float_to_float16_parts parts by (simp add: f16_pack_mag)
qed

section \<open>Narrowing what was widened\<close>

definition flt_quiet :: "float32 \<Rightarrow> bool" where
  "flt_quiet f \<longleftrightarrow> flt_mag f \<le> flt_inf_mag \<or> flt_inf_mag + 2 ^ 22 \<le> flt_mag f"

lemma mag_narrow_range:
  assumes "m < 2 ^ 63"
  shows "mag_narrow m < 2 ^ 31" "mag_narrow m \<le> flt_inf_mag \<or> flt_inf_mag + 2 ^ 22 \<le> mag_narrow m"
proof -
  define e where "e = m div 2 ^ 52"
  have m: "e * 2 ^ 52 \<le> m" "m < (e + 1) * 2 ^ 52" unfolding e_def by simp_all
  have nan: "mag_narrow m = flt_inf_mag + 2 ^ 22 + m mod 2 ^ 51 div 2 ^ 29" if "dbl_inf_mag < m"
    using that by (simp add: mag_narrow_def Let_def)
  have k: "m mod 2 ^ 51 div 2 ^ 29 < 2 ^ 22" by (simp add: less_mult_imp_div_less)
  have num: "mag_narrow m \<le> flt_inf_mag" if "\<not> dbl_inf_mag < m"
  proof -
    have rq: "round_quot p q \<le> n" if "p \<le> n * q" "0 < q" for p q n :: nat
    proof -
      have "p div q \<le> n" using that by (metis div_le_mono nonzero_mult_div_cancel_right less_numeral_extra(3))
      moreover have "p mod q = 0" if "p div q = n"
        using div_mult_mod_eq [of p q] that \<open>p \<le> n * q\<close> by simp
      ultimately show ?thesis using that(2) by (auto simp: round_quot_def Let_def le_less)
    qed
    consider "1151 \<le> e" | "897 \<le> e" "e < 1151" | "e < 897" by linarith
    then show ?thesis
    proof cases
      case 1
      with that show ?thesis by (simp add: mag_narrow_def Let_def e_def)
    next
      case 2
      have "m - 896 * 2 ^ 52 \<le> flt_inf_mag * 2 ^ 29" using m(2) 2(2) by simp
      with 2 that show ?thesis
        unfolding mag_narrow_def Let_def e_def [symmetric] by (simp add: rq)
    next
      case 3
      define s where "s = (if e = 0 then m else 2 ^ 52 + m mod 2 ^ 52)"
      have "m mod 2 ^ 52 < 2 ^ 52" by simp
      then have "s < 2 ^ 53" using m(2) unfolding s_def by (cases "e = 0") simp_all
      moreover have "(2 :: nat) ^ 29 \<le> 2 ^ (926 - max e 1)" using 3 by (intro power_increasing) simp_all
      then have "flt_inf_mag * 2 ^ 29 \<le> flt_inf_mag * 2 ^ (926 - max e 1)" by (rule mult_le_mono2)
      ultimately have "s \<le> flt_inf_mag * 2 ^ (926 - max e 1)" by simp
      with 3 that show ?thesis
        unfolding mag_narrow_def Let_def e_def [symmetric] s_def [symmetric] by (simp add: rq)
    qed
  qed
  show "mag_narrow m < 2 ^ 31" "mag_narrow m \<le> flt_inf_mag \<or> flt_inf_mag + 2 ^ 22 \<le> mag_narrow m"
    using nan num k by (cases "dbl_inf_mag < m"; simp)+
qed

lemma flt_quiet_float_of_dbl: "flt_quiet (float_of_dbl d)"
  unfolding flt_quiet_def float_of_dbl_def flt_pack_parts(1) [OF mag_narrow_range(1) [OF dbl_mag_less]]
  by (rule mag_narrow_range(2) [OF dbl_mag_less])

lemma float_of_dbl_of_quiet:
  assumes "flt_quiet f"
  shows "float_of_dbl (dbl_of_float f) = f"
proof (cases "flt_isfinite f")
  case True
  then show ?thesis by (rule float_of_dbl_of_float)
next
  case False
  define k where "k = flt_mag f - flt_inf_mag"
  have k: "flt_mag f = flt_inf_mag + k" "k = 0 \<or> 2 ^ 22 \<le> k" "k < 2 ^ 23"
    using False assms flt_mag_less [of f] by (auto simp: k_def flt_isfinite_def flt_quiet_def)
  have w: "mag_widen (flt_mag f) = dbl_inf_mag + k * 2 ^ 29" by (simp add: mag_widen_def k(1))
  have "mag_narrow (dbl_inf_mag + k * 2 ^ 29) = flt_inf_mag + k"
  proof (cases "k = 0")
    case True
    then show ?thesis by (simp add: mag_narrow_def)
  next
    case False
    then obtain j where j: "k = 2 ^ 22 + j" using k(2) le_Suc_ex by blast
    then have "j * 2 ^ 29 < 2 ^ 51" using k(3) by simp
    moreover have "dbl_inf_mag + k * 2 ^ 29 = j * 2 ^ 29 + 4095 * 2 ^ 51" by (simp add: j)
    ultimately have "(dbl_inf_mag + k * 2 ^ 29) mod 2 ^ 51 = j * 2 ^ 29" by (metis mod_less mod_mult_self1)
    then show ?thesis using False unfolding mag_narrow_def Let_def by (simp add: j)
  qed
  moreover have "dbl_mag (dbl_of_float f) = dbl_inf_mag + k * 2 ^ 29" "dbl_neg (dbl_of_float f) = flt_neg f"
    unfolding dbl_of_float_def w using k(3) by (intro dbl_pack_parts; simp)+
  ultimately show ?thesis
    unfolding float_of_dbl_def using k(1) flt_mag_less [of f] by (intro flt_mag_neg_inject) (simp_all add: flt_pack_parts)
qed

lemma float_of_dbl_idem: "float_of_dbl (dbl_of_float (float_of_dbl d)) = float_of_dbl d"
  by (rule float_of_dbl_of_quiet [OF flt_quiet_float_of_dbl])

text \<open>A half precision number that came from a float does, too.\<close>

lemma float16_of_dbl_idem:
  "rt_util_float_to_float16 (float_of_dbl (dbl_of_float (rt_util_float16_to_float (rt_util_float_to_float16 f)))) =
   rt_util_float_to_float16 f"
proof -
  define h where "h = rt_util_float_to_float16 f"
  have h: "f16_mag h = mag_to16 (flt_mag f)" "f16_neg h = flt_neg f"
    unfolding h_def float_to_float16_parts by (rule f16_pack_parts, rule mag_to16_less)+
  have nan: "f16_mag h = 0x7e00" if "f16_isnan h"
    using that mag_to16_above [of "flt_mag f"] by (simp add: f16_isnan_def h)
  have mag: "flt_mag (rt_util_float16_to_float h) = mag_from16 (f16_mag h)"
    unfolding float16_to_float_parts by (rule flt_pack_parts, rule mag_from16_less, rule f16_mag_less)
  from f16_mag_less [of h] have "flt_quiet (rt_util_float16_to_float h)"
    by (cases rule: mag16_cases) (use mag nan in \<open>auto simp: flt_quiet_def f16_isnan_def\<close>)
  then have "float_of_dbl (dbl_of_float (rt_util_float16_to_float h)) = rt_util_float16_to_float h"
    by (rule float_of_dbl_of_quiet)
  moreover have "rt_util_float_to_float16 (rt_util_float16_to_float h) = h"
    unfolding float16_roundtrip using nan f16_pack_mag [of h] by auto
  ultimately show ?thesis by (simp add: h_def)
qed

section \<open>Accuracy of the conversion to half precision\<close>

lemma half_unit: "113 \<le> e \<Longrightarrow> (x :: nat) * 2 ^ (e - 113) * 2 ^ 125 = x * 2 ^ 13 * 2 ^ (e - 1)"
proof -
  assume "113 \<le> e"
  then obtain d where d: "e = 113 + d" using le_Suc_ex by blast
  have "e - 113 = d" "e - 1 = 112 + d" using d by simp_all
  then show ?thesis by (simp only: power_add) simp
qed

lemma mag_to16_accuracy:
  assumes "113 \<le> e" "e \<le> 142" "q < 2 ^ 23" "e = 142 \<longrightarrow> q \<le> 0x7fe000"
  defines "v \<equiv> mag_val 23 (e * 2 ^ 23 + q)" and "u \<equiv> mag_val 10 (mag_to16 (e * 2 ^ 23 + q)) * 2 ^ 125"
  shows "if odd e \<and> 0x7ff000 \<le> q then u = 2 ^ 23 * 2 ^ (e - 1) \<and> 4095 * u \<le> 2048 * v
         else v \<le> u + 2 ^ 12 * 2 ^ (e - 1) \<and> u \<le> v + 2 ^ 12 * 2 ^ (e - 1)"
proof -
  define r where "r = (q + 2 ^ 12) div 2 ^ 13"
  define k where "k = e - 112"
  have k: "0 < k" "k - 1 = e - 113" using assms(1) by (simp_all add: k_def)
  have r: "r \<le> 2 ^ 10" using assms(3) by (simp add: r_def)
  have rq: "r * 2 ^ 13 \<le> q + 2 ^ 12" "q + 2 ^ 12 < r * 2 ^ 13 + 2 ^ 13" unfolding r_def by simp_all
  have top: "r = 2 ^ 10 \<longleftrightarrow> 0x7ff000 \<le> q" using r rq by auto
  have v: "v = (2 ^ 23 + q) * 2 ^ (e - 1)"
    unfolding v_def using assms(1,3) by (intro mag_val_parts) simp_all
  have m: "mag_to16 (e * 2 ^ 23 + q) = (if r = 2 ^ 10 \<and> odd e then k * 2 ^ 10 else k * 2 ^ 10 + r)"
    using assms(1,2) unfolding mag_to16_def Let_def mag_fields_eq [OF assms(3)] r_def k_def by simp
  note unit = half_unit [OF assms(1)]
  show ?thesis
  proof (cases "r = 2 ^ 10")
    case True
    show ?thesis
    proof (cases "odd e")
      case o: True
      have "mag_val 10 (k * 2 ^ 10 + 0) = (2 ^ 10 + 0) * 2 ^ (k - 1)" using k by (intro mag_val_parts) simp_all
      with o True m have u: "u = 2 ^ 23 * 2 ^ (e - 1)" unfolding u_def k(2) using unit [of "2 ^ 10"] by simp
      moreover have "4095 * 2 ^ 23 \<le> 2048 * (2 ^ 23 + q)" using top True by simp
      then have "4095 * 2 ^ 23 * 2 ^ (e - 1) \<le> 2048 * (2 ^ 23 + q) * 2 ^ (e - 1)" by (rule mult_le_mono1)
      ultimately show ?thesis using o top True by (simp add: v mult.assoc)
    next
      case ev: False
      have e: "e \<noteq> 142" using assms(4) top True by auto
      have "mag_val 10 ((k + 1) * 2 ^ 10 + 0) = (2 ^ 10 + 0) * 2 ^ (k + 1 - 1)" by (intro mag_val_parts) simp_all
      with ev True m have "u = 2 ^ 10 * 2 ^ k * 2 ^ 125" by (simp add: u_def add.commute)
      also have "2 ^ k = 2 * (2 :: nat) ^ (k - 1)" using k(1) by (simp flip: power_Suc)
      finally have u: "u = 2 ^ 24 * 2 ^ (e - 1)" unfolding k(2) using unit [of "2 ^ 11"] by simp
      have "2 ^ 23 + q \<le> 2 ^ 24 + 2 ^ 12" "2 ^ 24 \<le> 2 ^ 23 + q + 2 ^ 12" using assms(3) top True by simp_all
      then show ?thesis using ev unfolding u v add_mult_distrib [symmetric] by simp
    qed
  next
    case False
    with r have r': "r < 2 ^ 10" by simp
    have "mag_val 10 (k * 2 ^ 10 + r) = (2 ^ 10 + r) * 2 ^ (k - 1)" using k r' by (intro mag_val_parts) simp_all
    with False m have "u = (2 ^ 10 + r) * 2 ^ (e - 113) * 2 ^ 125" unfolding u_def k(2) by simp
    then have "u = (2 ^ 10 + r) * 2 ^ 13 * 2 ^ (e - 1)" unfolding unit .
    moreover have "2 ^ 23 + q \<le> (2 ^ 10 + r) * 2 ^ 13 + 2 ^ 12" "(2 ^ 10 + r) * 2 ^ 13 \<le> 2 ^ 23 + q + 2 ^ 12"
      using rq by simp_all
    ultimately show ?thesis
      using False top unfolding v by (simp only: add_mult_distrib [symmetric] mult_le_mono1) simp
  qed
qed

text \<open>
  C39. What \<open>rt_util_float_to_float16\<close> makes of a number between the least normal half
  (exponent field 113) and the largest, 65504: the sign is kept, and the result is within
  half a unit of the last place, a nearest half, except when the mantissa rounds up to the
  next power of two and the exponent field is odd. The carry is then or-ed onto a bit that
  is already set and lost, and the result is that power of two below the number, about
  half of it: 1.9998 becomes 1. Values are counted in units of the least single.
\<close>

theorem rt_util_float_to_float16_accuracy:
  fixes f :: float32
  assumes "113 * 2 ^ 23 \<le> flt_mag f" "flt_mag f \<le> 142 * 2 ^ 23 + 0x7fe000"
  defines "h \<equiv> rt_util_float_to_float16 f" and "e \<equiv> flt_mag f div 2 ^ 23"
  defines "v \<equiv> mag_val 23 (flt_mag f)" and "u \<equiv> mag_val 10 (f16_mag h) * 2 ^ 125"
  shows "f16_neg h = flt_neg f \<and>
    (if odd e \<and> 0x7ff000 \<le> flt_mag f mod 2 ^ 23
     then u = 2 ^ 23 * 2 ^ (e - 1) \<and> 4095 * u \<le> 2048 * v
     else v \<le> u + 2 ^ 12 * 2 ^ (e - 1) \<and> u \<le> v + 2 ^ 12 * 2 ^ (e - 1))"
proof -
  define q where "q = flt_mag f mod 2 ^ 23"
  have m: "flt_mag f = e * 2 ^ 23 + q" unfolding e_def q_def by simp
  have q: "q < 2 ^ 23" by (simp add: q_def)
  have e: "113 \<le> e" "e \<le> 142" using assms(1,2) unfolding e_def by simp_all
  have h: "f16_neg h = flt_neg f" "f16_mag h = mag_to16 (flt_mag f)"
    unfolding h_def float_to_float16_parts by (rule f16_pack_parts, rule mag_to16_less)+
  have "e = 142 \<longrightarrow> q \<le> 0x7fe000" using assms(2) m by simp
  from mag_to16_accuracy [OF e q this] h(1) show ?thesis
    unfolding u_def v_def h(2) m by (intro conjI) (simp_all only: mag_fields_eq(2) [OF q])
qed

theorem rt_util_float_to_float16_accuracy_witness:
  "rt_util_float_to_float16 0x3FFFF000 = 0x3C00 \<and> rt_util_float_to_float16 0x3F800000 = 0x3C00 \<and>
   4095 * (mag_val 10 0x3C00 * 2 ^ 125) \<le> 2048 * mag_val 23 0x3FFFF000"
proof -
  have r: "rt_util_float_to_float16 0x3FFFF000 = 0x3C00" "rt_util_float_to_float16 0x3F800000 = 0x3C00"
    by (simp_all add: rt_util_float_to_float16_def)
  have m: "flt_mag 0x3FFFF000 = 0x3FFFF000" "f16_mag 0x3C00 = 0x3C00"
    by (simp_all add: flt_mag_def f16_mag_def unsigned_take_bit_eq take_bit_eq_mod)
  have "odd (flt_mag 0x3FFFF000 div 2 ^ 23)" "0x7ff000 \<le> flt_mag 0x3FFFF000 mod 2 ^ 23" by (simp_all add: m)
  with rt_util_float_to_float16_accuracy [of "0x3FFFF000"]
  have "4095 * (mag_val 10 (f16_mag 0x3C00) * 2 ^ 125) \<le> 2048 * mag_val 23 (flt_mag 0x3FFFF000)"
    unfolding r by (simp add: m)
  with r show ?thesis by (simp only: m simp_thms)
qed

end
