(* ===== verification/RasterBand.thy ===== *)
theory RasterBand
  imports RasterNum
begin

text \<open>
  A raster band (raster/rt_core/rt_pixel.c, rt_band.c): the pixel types, the pixels in
  memory, the NODATA value and the two flags about it, and the operations that read and
  write pixels.

  The pixels of an in-db band are a block of bytes, row by row, each pixel in the little
  endian representation of its type. An out-db band holds a path and a band number; loading
  its pixels through GDAL is the parameter \<open>load\<close> of the operations that may do it.
  Coordinates are C \<open>int\<close>s. \<open>rterror\<close> does not come back (the PostgreSQL handler leaves
  through \<open>ereport (ERROR)\<close>) and is a value \<^term>\<open>Inl\<close>; \<open>ES_ERROR\<close> after a mere warning
  is \<^term>\<open>None\<close>.
\<close>

section \<open>Pixel types\<close>

text \<open>\<open>PT_unnamed\<close> stands for the values of the enumeration that have no name.\<close>

datatype rt_pixtype = PT_1BB | PT_2BUI | PT_4BUI | PT_8BSI | PT_8BUI | PT_16BSI | PT_16BUI | PT_32BSI | PT_32BUI
  | PT_16BF | PT_32BF | PT_64BF | PT_unnamed | PT_END

definition pixtype_table :: "rt_pixtype list" where
  "pixtype_table = [PT_1BB, PT_2BUI, PT_4BUI, PT_8BSI, PT_8BUI, PT_16BSI, PT_16BUI, PT_32BSI, PT_32BUI,
     PT_16BF, PT_32BF, PT_64BF, PT_unnamed, PT_END, PT_unnamed, PT_unnamed]"

definition pixtype_of_code :: "byte \<Rightarrow> rt_pixtype" where
  "pixtype_of_code c = pixtype_table ! unat c"

fun pixtype_code :: "rt_pixtype \<Rightarrow> byte" where
  "pixtype_code PT_1BB = 0" | "pixtype_code PT_2BUI = 1" | "pixtype_code PT_4BUI = 2" | "pixtype_code PT_8BSI = 3"
| "pixtype_code PT_8BUI = 4" | "pixtype_code PT_16BSI = 5" | "pixtype_code PT_16BUI = 6" | "pixtype_code PT_32BSI = 7"
| "pixtype_code PT_32BUI = 8" | "pixtype_code PT_16BF = 9" | "pixtype_code PT_32BF = 10" | "pixtype_code PT_64BF = 11"
| "pixtype_code PT_unnamed = 12" | "pixtype_code PT_END = 13"

fun pixtype_bytes :: "rt_pixtype \<Rightarrow> nat" where
  "pixtype_bytes PT_16BSI = 2" | "pixtype_bytes PT_16BUI = 2" | "pixtype_bytes PT_16BF = 2"
| "pixtype_bytes PT_32BSI = 4" | "pixtype_bytes PT_32BUI = 4" | "pixtype_bytes PT_32BF = 4"
| "pixtype_bytes PT_64BF = 8" | "pixtype_bytes PT_unnamed = 0" | "pixtype_bytes PT_END = 0"
| "pixtype_bytes pt = 1"

definition pixtype_known :: "rt_pixtype \<Rightarrow> bool" where
  "pixtype_known pt \<longleftrightarrow> pt \<noteq> PT_unnamed \<and> pt \<noteq> PT_END"

definition rt_pixtype_size :: "rt_pixtype \<Rightarrow> lwerr + nat" where
  "rt_pixtype_size pixtype =
     (if pixtype_known pixtype then Inr (pixtype_bytes pixtype)
      else Inl (LwError ''rt_pixtype_size: Unknown pixeltype %d''))"

text \<open>The smallest value of each type; \<open>-FLT_MAX\<close> and \<open>-DBL_MAX\<close> for the floating point types.\<close>

abbreviation DBL_MAX :: double where "DBL_MAX \<equiv> 0x7FEFFFFFFFFFFFFF"

fun rt_pixtype_get_min_value :: "rt_pixtype \<Rightarrow> lwerr + double" where
  "rt_pixtype_get_min_value PT_1BB = Inr (dbl_of_int (uint (rt_util_clamp_to_1BB (dbl_of_int (-128)))))"
| "rt_pixtype_get_min_value PT_2BUI = Inr (dbl_of_int 0)"
| "rt_pixtype_get_min_value PT_4BUI = Inr (dbl_of_int 0)"
| "rt_pixtype_get_min_value PT_8BUI = Inr (dbl_of_int 0)"
| "rt_pixtype_get_min_value PT_8BSI = Inr (dbl_of_int (sint (rt_util_clamp_to_8BSI (dbl_of_int (-128)))))"
| "rt_pixtype_get_min_value PT_16BSI = Inr (dbl_of_int (sint (rt_util_clamp_to_16BSI (dbl_of_int (-32768)))))"
| "rt_pixtype_get_min_value PT_16BUI = Inr (dbl_of_int 0)"
| "rt_pixtype_get_min_value PT_16BF = Inr (dbl_of_int (-65504))"
| "rt_pixtype_get_min_value PT_32BSI = Inr (dbl_of_int (sint (rt_util_clamp_to_32BSI (dbl_of_int (-2147483648)))))"
| "rt_pixtype_get_min_value PT_32BUI = Inr (dbl_of_int 0)"
| "rt_pixtype_get_min_value PT_32BF = Inr (dbl_of_float FLT_MIN_MAX)"
| "rt_pixtype_get_min_value PT_64BF = Inr (dbl_minus DBL_MAX)"
| "rt_pixtype_get_min_value pt = Inl (LwError ''rt_pixtype_get_min_value: Unknown pixeltype %d'')"

section \<open>Equality of values\<close>

text \<open>
  The macro \<open>FLT_EQ\<close>: equal, both NaN, or apart by at most \<open>FLT_EPSILON\<close>. Its arguments are
  doubles, or floats that are subtracted in single precision.
\<close>

abbreviation FLT_EPSILON :: double where "FLT_EPSILON \<equiv> 0x3E80000000000000"

definition FLT_EQ :: "double \<Rightarrow> double \<Rightarrow> bool" where
  "FLT_EQ x y \<longleftrightarrow> dbl_eq x y \<or> dbl_isnan x \<and> dbl_isnan y \<or> dbl_le (dbl_abs (dbl_sub x y)) FLT_EPSILON"

definition FLT_NEQ :: "double \<Rightarrow> double \<Rightarrow> bool" where
  "FLT_NEQ x y \<longleftrightarrow> \<not> dbl_eq x y \<and> \<not> (dbl_isnan x \<and> dbl_isnan y) \<and> dbl_lt FLT_EPSILON (dbl_abs (dbl_sub x y))"

text \<open>The difference of two floats, rounded to 24 significant bits.\<close>

definition flt_val :: "float32 \<Rightarrow> int" where
  "flt_val f = (if flt_neg f then - int (mag_val 23 (flt_mag f)) else int (mag_val 23 (flt_mag f)))"

definition flt_sub :: "float32 \<Rightarrow> float32 \<Rightarrow> float32" where
  "flt_sub a b =
     (if flt_isnan a \<or> flt_isnan b then 0x7FC00000
      else if flt_mag a = flt_inf_mag then (if flt_mag b = flt_inf_mag \<and> flt_neg a = flt_neg b then 0x7FC00000 else a)
      else if flt_mag b = flt_inf_mag then flt_pack (\<not> flt_neg b) flt_inf_mag
      else let v = flt_val a - flt_val b; n = nat \<bar>v\<bar>; s = bit_length n - 24
           in if v = 0 then flt_pack (flt_neg a \<and> \<not> flt_neg b) 0
              else flt_pack (v < 0) (min flt_inf_mag (s * 2 ^ 23 + round_quot n (2 ^ s))))"

definition FLT_EQ_float :: "float32 \<Rightarrow> float32 \<Rightarrow> bool" where
  "FLT_EQ_float x y \<longleftrightarrow>
     dbl_eq (dbl_of_float x) (dbl_of_float y) \<or> flt_isnan x \<and> flt_isnan y \<or>
     dbl_le (dbl_abs (dbl_of_float (flt_sub x y))) FLT_EPSILON"

fun rt_pixtype_compare_clamped_values :: "rt_pixtype \<Rightarrow> double \<Rightarrow> double \<Rightarrow> lwerr + bool" where
  "rt_pixtype_compare_clamped_values PT_1BB val refval = Inr (rt_util_clamp_to_1BB val = rt_util_clamp_to_1BB refval)"
| "rt_pixtype_compare_clamped_values PT_2BUI val refval = Inr (rt_util_clamp_to_2BUI val = rt_util_clamp_to_2BUI refval)"
| "rt_pixtype_compare_clamped_values PT_4BUI val refval = Inr (rt_util_clamp_to_4BUI val = rt_util_clamp_to_4BUI refval)"
| "rt_pixtype_compare_clamped_values PT_8BSI val refval = Inr (rt_util_clamp_to_8BSI val = rt_util_clamp_to_8BSI refval)"
| "rt_pixtype_compare_clamped_values PT_8BUI val refval = Inr (rt_util_clamp_to_8BUI val = rt_util_clamp_to_8BUI refval)"
| "rt_pixtype_compare_clamped_values PT_16BSI val refval = Inr (rt_util_clamp_to_16BSI val = rt_util_clamp_to_16BSI refval)"
| "rt_pixtype_compare_clamped_values PT_16BUI val refval = Inr (rt_util_clamp_to_16BUI val = rt_util_clamp_to_16BUI refval)"
| "rt_pixtype_compare_clamped_values PT_16BF val refval =
     Inr (FLT_EQ_float (rt_util_clamp_to_16F val) (rt_util_clamp_to_16F refval))"
| "rt_pixtype_compare_clamped_values PT_32BSI val refval = Inr (rt_util_clamp_to_32BSI val = rt_util_clamp_to_32BSI refval)"
| "rt_pixtype_compare_clamped_values PT_32BUI val refval = Inr (rt_util_clamp_to_32BUI val = rt_util_clamp_to_32BUI refval)"
| "rt_pixtype_compare_clamped_values PT_32BF val refval =
     Inr (FLT_EQ_float (rt_util_clamp_to_32F val) (rt_util_clamp_to_32F refval))"
| "rt_pixtype_compare_clamped_values PT_64BF val refval = Inr (FLT_EQ val refval)"
| "rt_pixtype_compare_clamped_values pt val refval =
     Inl (LwError ''rt_pixtype_compare_clamped_values: Unknown pixeltype %d'')"

section \<open>Pixels in memory\<close>

text \<open>The bytes a value is stored as, after clamping, and the value that bytes are read as.\<close>

fun pixel_bytes :: "rt_pixtype \<Rightarrow> double \<Rightarrow> byte list" where
  "pixel_bytes PT_1BB val = [rt_util_clamp_to_1BB val]"
| "pixel_bytes PT_2BUI val = [rt_util_clamp_to_2BUI val]"
| "pixel_bytes PT_4BUI val = [rt_util_clamp_to_4BUI val]"
| "pixel_bytes PT_8BSI val = [rt_util_clamp_to_8BSI val]"
| "pixel_bytes PT_8BUI val = [rt_util_clamp_to_8BUI val]"
| "pixel_bytes PT_16BSI val = le_bytes 2 (rt_util_clamp_to_16BSI val)"
| "pixel_bytes PT_16BUI val = le_bytes 2 (rt_util_clamp_to_16BUI val)"
| "pixel_bytes PT_32BSI val = le_bytes 4 (rt_util_clamp_to_32BSI val)"
| "pixel_bytes PT_32BUI val = le_bytes 4 (rt_util_clamp_to_32BUI val)"
| "pixel_bytes PT_16BF val = le_bytes 2 (rt_util_float_to_float16 (rt_util_clamp_to_16F val))"
| "pixel_bytes PT_32BF val = le_bytes 4 (rt_util_clamp_to_32F val)"
| "pixel_bytes PT_64BF val = le_bytes 8 val"
| "pixel_bytes pt val = []"

fun pixel_value :: "rt_pixtype \<Rightarrow> byte list \<Rightarrow> double" where
  "pixel_value PT_8BUI bs = dbl_of_int (uint (le_word bs :: byte))"
| "pixel_value PT_16BSI bs = dbl_of_int (sint (le_word bs :: u16))"
| "pixel_value PT_16BUI bs = dbl_of_int (uint (le_word bs :: u16))"
| "pixel_value PT_32BSI bs = dbl_of_int (sint (le_word bs :: u32))"
| "pixel_value PT_32BUI bs = dbl_of_int (uint (le_word bs :: u32))"
| "pixel_value PT_16BF bs = dbl_of_float (rt_util_float16_to_float (le_word bs))"
| "pixel_value PT_32BF bs = dbl_of_float (le_word bs)"
| "pixel_value PT_64BF bs = le_word bs"
| "pixel_value pt bs = dbl_of_int (sint (le_word bs :: byte))"

text \<open>Whether a stored value differs from the one asked for.\<close>

definition pixtype_is_float :: "rt_pixtype \<Rightarrow> bool" where
  "pixtype_is_float pt \<longleftrightarrow> pt = PT_16BF \<or> pt = PT_32BF \<or> pt = PT_64BF"

definition rt_util_dbl_trunc_warning :: "double \<Rightarrow> double \<Rightarrow> rt_pixtype \<Rightarrow> bool" where
  "rt_util_dbl_trunc_warning initialvalue checkval pixtype =
     (if \<not> pixtype_known pixtype then False
      else if pixtype_is_float pixtype then FLT_NEQ checkval initialvalue
      else dbl_le dbl_one (dbl_abs (dbl_sub checkval initialvalue)) \<or> \<not> dbl_eq checkval initialvalue)"

section \<open>Bands\<close>

datatype band_data =
  Mem (mem: "byte list")
| Offline (bandNum: byte) (path: "byte list") (offline_mem: "byte list option")

record rt_band =
  band_pixtype :: rt_pixtype
  band_width :: u16
  band_height :: u16
  band_hasnodata :: bool
  band_isnodata :: bool
  band_nodataval :: double
  band_ownsdata :: bool
  band_data :: band_data

definition band_offline :: "rt_band \<Rightarrow> bool" where
  "band_offline b \<longleftrightarrow> \<not> is_Mem (band_data b)"

definition rt_band_get_data :: "(rt_band \<Rightarrow> byte list option) \<Rightarrow> rt_band \<Rightarrow> lwerr + (byte list \<times> rt_band)" where
  "rt_band_get_data load b =
     (case band_data b of
        Mem d \<Rightarrow> Inr (d, b)
      | Offline n p (Some d) \<Rightarrow> Inr (d, b)
      | Offline n p None \<Rightarrow>
          (case load b of
             None \<Rightarrow> Inl (LwError ''rt_band_load_offline_data: Cannot load data from offline raster: %s'')
           | Some d \<Rightarrow> Inr (d, b\<lparr>band_data := Offline n p (Some d)\<rparr>)))"

definition rt_band_set_hasnodata_flag :: "rt_band \<Rightarrow> bool \<Rightarrow> rt_band" where
  "rt_band_set_hasnodata_flag b flag =
     b\<lparr>band_hasnodata := flag, band_isnodata := flag \<and> band_isnodata b\<rparr>"

definition rt_band_set_isnodata_flag :: "rt_band \<Rightarrow> bool \<Rightarrow> lwerr + rt_band" where
  "rt_band_set_isnodata_flag b flag =
     (if \<not> band_hasnodata b then
        (if \<not> flag then Inr (b\<lparr>band_isnodata := False\<rparr>)
         else Inl (LwError ''rt_band_set_isnodata_flag: Cannot set isnodata flag as band has no NODATA''))
      else Inr (b\<lparr>band_isnodata := flag\<rparr>))"

definition rt_band_get_isnodata_flag :: "rt_band \<Rightarrow> bool" where
  "rt_band_get_isnodata_flag b = (if band_hasnodata b then band_isnodata b else False)"

text \<open>The NODATA value is kept as the double of the value clamped to the pixel type.\<close>

fun nodata_value :: "rt_pixtype \<Rightarrow> double \<Rightarrow> double" where
  "nodata_value PT_1BB val = dbl_of_int (uint (rt_util_clamp_to_1BB val))"
| "nodata_value PT_2BUI val = dbl_of_int (uint (rt_util_clamp_to_2BUI val))"
| "nodata_value PT_4BUI val = dbl_of_int (uint (rt_util_clamp_to_4BUI val))"
| "nodata_value PT_8BSI val = dbl_of_int (sint (rt_util_clamp_to_8BSI val))"
| "nodata_value PT_8BUI val = dbl_of_int (uint (rt_util_clamp_to_8BUI val))"
| "nodata_value PT_16BSI val = dbl_of_int (sint (rt_util_clamp_to_16BSI val))"
| "nodata_value PT_16BUI val = dbl_of_int (uint (rt_util_clamp_to_16BUI val))"
| "nodata_value PT_32BSI val = dbl_of_int (sint (rt_util_clamp_to_32BSI val))"
| "nodata_value PT_32BUI val = dbl_of_int (uint (rt_util_clamp_to_32BUI val))"
| "nodata_value PT_16BF val =
     dbl_of_float (rt_util_float16_to_float (rt_util_float_to_float16 (rt_util_clamp_to_16F val)))"
| "nodata_value PT_32BF val = dbl_of_float (rt_util_clamp_to_32F val)"
| "nodata_value pt val = val"

definition rt_band_set_nodata :: "rt_band \<Rightarrow> double \<Rightarrow> lwerr + (rt_band \<times> bool)" where
  "rt_band_set_nodata b val =
     (if \<not> pixtype_known (band_pixtype b) then Inl (LwError ''rt_band_set_nodata: Unknown pixeltype %d'')
      else let nd = nodata_value (band_pixtype b) val
           in Inr (b\<lparr>band_nodataval := nd, band_hasnodata := True, band_isnodata := False\<rparr>,
                   rt_util_dbl_trunc_warning val nd (band_pixtype b)))"

definition rt_band_new_inline :: "u16 \<Rightarrow> u16 \<Rightarrow> rt_pixtype \<Rightarrow> bool \<Rightarrow> double \<Rightarrow> byte list \<Rightarrow> lwerr + rt_band" where
  "rt_band_new_inline width height pixtype hasnodata nodataval data =
     (let b = \<lparr>band_pixtype = pixtype, band_width = width, band_height = height, band_hasnodata = hasnodata,
               band_isnodata = False, band_nodataval = 0, band_ownsdata = False, band_data = Mem data\<rparr>
      in if hasnodata then bindE (rt_band_set_nodata b nodataval) (\<lambda>(b, _). Inr b) else Inr b)"

definition rt_band_get_nodata :: "rt_band \<Rightarrow> lwerr + double" where
  "rt_band_get_nodata b =
     (if \<not> band_hasnodata b then Inl (LwError ''rt_band_get_nodata: Band has no NODATA value'')
      else Inr (band_nodataval b))"

text \<open>2 when the value is the NODATA value, 1 when the two are equal after clamping.\<close>

definition rt_band_clamped_value_is_nodata :: "rt_band \<Rightarrow> double \<Rightarrow> lwerr + nat" where
  "rt_band_clamped_value_is_nodata b val =
     (if \<not> band_hasnodata b then Inr 0
      else if FLT_EQ val (band_nodataval b) then Inr 2
      else bindE (rt_pixtype_compare_clamped_values (band_pixtype b) val (band_nodataval b)) (\<lambda>isequal.
           Inr (if isequal then 1 else 0)))"

text \<open>
  A value that only becomes NODATA by clamping is moved by one: up when it clamps to the
  smallest value of the type, down otherwise.
\<close>

definition step_value :: "bool \<Rightarrow> double \<Rightarrow> double \<Rightarrow> double" where
  "step_value up step val = (if up then dbl_add val step else dbl_sub val step)"

fun corrected_value :: "rt_pixtype \<Rightarrow> double \<Rightarrow> double \<Rightarrow> double \<Rightarrow> double" where
  "corrected_value PT_1BB nodataval minval val = (if dbl_eq nodataval 0 then dbl_of_int 1 else dbl_of_int 0)"
| "corrected_value PT_2BUI nodataval minval val =
     step_value (rt_util_clamp_to_2BUI val = rt_util_clamp_to_2BUI minval) dbl_one val"
| "corrected_value PT_4BUI nodataval minval val =
     step_value (rt_util_clamp_to_4BUI val = rt_util_clamp_to_4BUI minval) dbl_one val"
| "corrected_value PT_8BSI nodataval minval val =
     step_value (rt_util_clamp_to_8BSI val = rt_util_clamp_to_8BSI minval) dbl_one val"
| "corrected_value PT_8BUI nodataval minval val =
     step_value (rt_util_clamp_to_8BUI val = rt_util_clamp_to_8BUI minval) dbl_one val"
| "corrected_value PT_16BSI nodataval minval val =
     step_value (rt_util_clamp_to_16BSI val = rt_util_clamp_to_16BSI minval) dbl_one val"
| "corrected_value PT_16BUI nodataval minval val =
     step_value (rt_util_clamp_to_16BUI val = rt_util_clamp_to_16BUI minval) dbl_one val"
| "corrected_value PT_32BSI nodataval minval val =
     step_value (rt_util_clamp_to_32BSI val = rt_util_clamp_to_32BSI minval) dbl_one val"
| "corrected_value PT_32BUI nodataval minval val =
     step_value (rt_util_clamp_to_32BUI val = rt_util_clamp_to_32BUI minval) dbl_one val"
| "corrected_value PT_16BF nodataval minval val =
     step_value (FLT_EQ_float (rt_util_clamp_to_16F val) (rt_util_clamp_to_16F minval)) FLT_EPSILON val"
| "corrected_value PT_32BF nodataval minval val =
     step_value (FLT_EQ_float (rt_util_clamp_to_32F val) (rt_util_clamp_to_32F minval)) FLT_EPSILON val"
| "corrected_value pt nodataval minval val = val"

definition rt_band_corrected_clamped_value :: "rt_band \<Rightarrow> double \<Rightarrow> lwerr + (double \<times> bool)" where
  "rt_band_corrected_clamped_value b val =
     bindE (rt_band_clamped_value_is_nodata b val) (\<lambda>n.
     if n \<noteq> 1 then Inr (val, False)
     else bindE (rt_pixtype_get_min_value (band_pixtype b)) (\<lambda>minval.
          Inr (corrected_value (band_pixtype b) (band_nodataval b) minval val, True)))"

section \<open>Reading and writing pixels\<close>

definition in_range :: "rt_band \<Rightarrow> int \<Rightarrow> int \<Rightarrow> bool" where
  "in_range b x y \<longleftrightarrow> \<not> (x < 0 \<or> x \<ge> uint (band_width b) \<or> y < 0 \<or> y \<ge> uint (band_height b))"

text \<open>The index of a pixel, a \<open>uint32_t\<close>.\<close>

definition pixel_offset :: "rt_band \<Rightarrow> int \<Rightarrow> int \<Rightarrow> nat" where
  "pixel_offset b x y = unat (word_of_int (x + y * uint (band_width b)) :: u32)"

definition rt_band_set_pixel :: "rt_band \<Rightarrow> int \<Rightarrow> int \<Rightarrow> double \<Rightarrow> lwerr + (rt_band \<times> bool)" where
  "rt_band_set_pixel b x y val0 =
     (case band_data b of
        Offline n p m \<Rightarrow> Inl (LwError ''rt_band_set_pixel not implemented yet for OFFDB bands'')
      | Mem data \<Rightarrow>
          let pixtype = band_pixtype b in
          bindE (require (in_range b x y) ''rt_band_set_pixel: Coordinates out of range'') (\<lambda>_.
          bindE (if band_hasnodata b \<and> pixtype \<noteq> PT_64BF then rt_band_corrected_clamped_value b val0
                 else Inr (val0, False)) (\<lambda>(val, corrected).
          bindE (require (pixtype_known pixtype) ''rt_band_set_pixel: Unknown pixeltype %d'') (\<lambda>_.
          bindE (mem_write data (pixel_offset b x y * pixtype_bytes pixtype) (pixel_bytes pixtype val)) (\<lambda>data'.
          let b' = b\<lparr>band_data := Mem data'\<rparr> in
          bindE (rt_band_clamped_value_is_nodata b' val) (\<lambda>isnd.
          let b'' = (if isnd = 0 then b'\<lparr>band_isnodata := False\<rparr> else b')
          in Inr (b'', corrected \<or>
               rt_util_dbl_trunc_warning val (pixel_value pixtype (pixel_bytes pixtype val)) pixtype)))))))"

text \<open>
  The pixel and whether it is NODATA; \<^term>\<open>None\<close> for coordinates out of range. While the
  band is flagged as all NODATA the pixels are not looked at.
\<close>

definition rt_band_get_pixel ::
  "(rt_band \<Rightarrow> byte list option) \<Rightarrow> rt_band \<Rightarrow> int \<Rightarrow> int \<Rightarrow> lwerr + ((double \<times> bool) option \<times> rt_band)"
where
  "rt_band_get_pixel load b x y =
     (if \<not> in_range b x y then Inr (None, b)
      else if band_isnodata b then Inr (Some (band_nodataval b, True), b)
      else bindE (rt_band_get_data load b) (\<lambda>(data, b').
           let pixtype = band_pixtype b in
           bindE (require (pixtype_known pixtype) ''rt_band_get_pixel: Unknown pixeltype %d'') (\<lambda>_.
           bindE (mem_at data (pixel_offset b x y * pixtype_bytes pixtype) (pixtype_bytes pixtype)) (\<lambda>bs.
           let value = pixel_value pixtype bs in
           bindE (if band_hasnodata b then rt_band_clamped_value_is_nodata b value else Inr 0) (\<lambda>isnd.
           Inr (Some (value, isnd \<noteq> 0), b'))))))"

text \<open>
  The flag that the whole band is NODATA, computed from the pixels. The test looks at the
  columns one after the other and stops at the first pixel that is not NODATA.
\<close>

fun all_nodata ::
  "(rt_band \<Rightarrow> byte list option) \<Rightarrow> rt_band \<Rightarrow> (int \<times> int) list \<Rightarrow> lwerr + (bool \<times> rt_band)"
where
  "all_nodata load b [] = Inr (True, b)"
| "all_nodata load b ((i, j) # ps) =
     bindE (rt_band_get_pixel load b i j) (\<lambda>(px, b').
     case px of
       None \<Rightarrow> Inl (LwError ''rt_band_check_is_nodata: Cannot get band pixel'')
     | Some (value, isnodata) \<Rightarrow> if \<not> isnodata then Inr (False, b') else all_nodata load b' ps)"

definition column_order :: "rt_band \<Rightarrow> (int \<times> int) list" where
  "column_order b = [(i, j). i \<leftarrow> [0..uint (band_width b) - 1], j \<leftarrow> [0..uint (band_height b) - 1]]"

definition rt_band_check_is_nodata :: "(rt_band \<Rightarrow> byte list option) \<Rightarrow> rt_band \<Rightarrow> lwerr + (bool \<times> rt_band)" where
  "rt_band_check_is_nodata load b0 =
     (let b = b0\<lparr>band_isnodata := False\<rparr>
      in if \<not> band_hasnodata b then Inr (False, b)
         else bindE (all_nodata load b (column_order b)) (\<lambda>(r, b'). Inr (r, b'\<lparr>band_isnodata := r\<rparr>)))"

text \<open>Copies of whole stretches of pixels in the representation of the band.\<close>

definition rt_band_set_pixel_line :: "rt_band \<Rightarrow> int \<Rightarrow> int \<Rightarrow> byte list \<Rightarrow> u32 \<Rightarrow> lwerr + rt_band" where
  "rt_band_set_pixel_line b x y vals len =
     (case band_data b of
        Offline n p m \<Rightarrow> Inl (LwError ''rt_band_set_pixel_line not implemented yet for OFFDB bands'')
      | Mem data \<Rightarrow>
          bindE (rt_pixtype_size (band_pixtype b)) (\<lambda>size.
          bindE (require (in_range b x y) ''rt_band_set_pixel_line: Coordinates out of range (%d, %d) vs (%d, %d)'') (\<lambda>_.
          let offset = pixel_offset b x y in
          bindE (require (\<not> len > word_of_int (uint (band_width b) * uint (band_height b)) - of_nat offset)
            ''rt_band_set_pixel_line: Could not apply pixels as values length exceeds end of data'') (\<lambda>_.
          bindE (mem_at vals 0 (size * unat len)) (\<lambda>bs.
          bindE (mem_write data (offset * size) bs) (\<lambda>data'.
          let b' = b\<lparr>band_data := Mem data'\<rparr>
          in Inr (if band_hasnodata b' then b'\<lparr>band_isnodata := False\<rparr> else b')))))))"

definition rt_band_get_pixel_line ::
  "(rt_band \<Rightarrow> byte list option) \<Rightarrow> rt_band \<Rightarrow> int \<Rightarrow> int \<Rightarrow> u16 \<Rightarrow> lwerr + ((byte list \<times> u16) option \<times> rt_band)"
where
  "rt_band_get_pixel_line load b x y len =
     (if \<not> in_range b x y then Inr (None, b)
      else if len < 1 then Inr (Some ([], 0), b)
      else bindE (rt_band_get_data load b) (\<lambda>(data, b').
           let offset = pixel_offset b x y in
           bindE (rt_pixtype_size (band_pixtype b)) (\<lambda>pixsize.
           let maxlen = word_of_int (uint (band_width b) * uint (band_height b)) :: u32;
               nvals = (if maxlen <s of_nat offset + ucast len then ucast (maxlen - of_nat offset) else len)
           in bindE (mem_at data (offset * pixsize) (unat nvals * pixsize)) (\<lambda>vals.
              Inr (Some (vals, nvals), b')))))"

section \<open>Integer pixel types\<close>

text \<open>The range of the pixel types that hold integers.\<close>

fun pix_range :: "rt_pixtype \<Rightarrow> (int \<times> int) option" where
  "pix_range PT_1BB = Some (0, 1)"
| "pix_range PT_2BUI = Some (0, 3)"
| "pix_range PT_4BUI = Some (0, 15)"
| "pix_range PT_8BSI = Some (-128, 127)"
| "pix_range PT_8BUI = Some (0, 255)"
| "pix_range PT_16BSI = Some (-32768, 32767)"
| "pix_range PT_16BUI = Some (0, 65535)"
| "pix_range PT_32BSI = Some (-2147483648, 2147483647)"
| "pix_range PT_32BUI = Some (0, 4294967295)"
| "pix_range pt = None"

lemma pix_range_bounds:
  "pix_range pt = Some (lo, hi) \<Longrightarrow>
   pixtype_known pt \<and> \<not> pixtype_is_float pt \<and> lo < hi \<and> - (2 ^ 31) \<le> lo \<and> hi < 2 ^ 32 \<and> lo \<le> 0 \<and> 0 < hi"
  by (cases pt) (auto simp: pixtype_known_def pixtype_is_float_def)

lemma clamp_defs:
  "rt_util_clamp_to_1BB v = of_int (clamp_int 0 1 v)"
  "rt_util_clamp_to_2BUI v = of_int (clamp_int 0 3 v)"
  "rt_util_clamp_to_4BUI v = of_int (clamp_int 0 15 v)"
  "rt_util_clamp_to_8BSI v = of_int (clamp_int (-128) 127 v)"
  "rt_util_clamp_to_8BUI v = of_int (clamp_int 0 255 v)"
  "rt_util_clamp_to_16BSI v = of_int (clamp_int (-32768) 32767 v)"
  "rt_util_clamp_to_16BUI v = of_int (clamp_int 0 65535 v)"
  "rt_util_clamp_to_32BSI v = of_int (clamp_int (-2147483648) 2147483647 v)"
  "rt_util_clamp_to_32BUI v = of_int (clamp_int 0 4294967295 v)"
  unfolding rt_util_clamp_to_1BB_def rt_util_clamp_to_2BUI_def rt_util_clamp_to_4BUI_def rt_util_clamp_to_8BSI_def
    rt_util_clamp_to_8BUI_def rt_util_clamp_to_16BSI_def rt_util_clamp_to_16BUI_def rt_util_clamp_to_32BSI_def
    rt_util_clamp_to_32BUI_def
  by (simp_all add: dbl_trunc_clamp del: dbl_of_int_0)

lemma uint_of_int: "0 \<le> i \<Longrightarrow> i < 2 ^ LENGTH('a) \<Longrightarrow> uint (of_int i :: 'a::len word) = i"
  by (simp add: uint_word_of_int_eq take_bit_int_eq_self)

lemma sint_of_int:
  "- (2 ^ (LENGTH('a) - 1)) \<le> i \<Longrightarrow> i < 2 ^ (LENGTH('a) - 1) \<Longrightarrow> sint (of_int i :: 'a::len word) = i"
  by (subst sint_sbintrunc') (rule signed_take_bit_int_eq_self)

lemma of_int_word_inject:
  "0 \<le> i \<Longrightarrow> i < 2 ^ LENGTH('a) \<Longrightarrow> 0 \<le> j \<Longrightarrow> j < 2 ^ LENGTH('a) \<Longrightarrow> (of_int i :: 'a::len word) = of_int j \<longleftrightarrow> i = j"
  "- (2 ^ (LENGTH('a) - 1)) \<le> i \<Longrightarrow> i < 2 ^ (LENGTH('a) - 1) \<Longrightarrow> - (2 ^ (LENGTH('a) - 1)) \<le> j \<Longrightarrow>
   j < 2 ^ (LENGTH('a) - 1) \<Longrightarrow> (of_int i :: 'a::len word) = of_int j \<longleftrightarrow> i = j"
  by (metis uint_of_int) (metis sint_of_int)

lemma pix_range_width:
  assumes "pix_range pt = Some (lo, hi)"
  shows "nodata_value pt v = dbl_of_int (clamp_int lo hi v)"
    "pixel_value pt (pixel_bytes pt v) = dbl_of_int (clamp_int lo hi v)"
    "rt_pixtype_compare_clamped_values pt v w = Inr (clamp_int lo hi v = clamp_int lo hi w)"
proof -
  have lh: "lo \<le> hi" using pix_range_bounds [OF assms] by simp
  note c = clamp_int_range [OF lh, of v] clamp_int_range [OF lh, of w]
  show "rt_pixtype_compare_clamped_values pt v w = Inr (clamp_int lo hi v = clamp_int lo hi w)"
    using assms c by (cases pt) (auto simp: clamp_defs of_int_word_inject)
  show "nodata_value pt v = dbl_of_int (clamp_int lo hi v)"
    using assms c by (cases pt) (auto simp: clamp_defs uint_of_int sint_of_int)
  show "pixel_value pt (pixel_bytes pt v) = dbl_of_int (clamp_int lo hi v)"
    using assms c by (cases pt) (auto simp: clamp_defs uint_of_int sint_of_int le_word_le_bytes_full)
qed

lemma dbl_of_int_1 [simp]: "dbl_of_int 1 = dbl_one"
proof -
  have "bit_length (2 ^ n) = Suc n" for n
    by (induction n) (subst bit_length.simps, simp)+
  then show ?thesis
    unfolding dbl_of_int_def mag_round_def dbl_unit_def by (simp add: round_quot_def dbl_pack_def)
qed

lemma FLT_EQ_of_int:
  assumes "\<bar>i\<bar> < 2 ^ 52" "\<bar>j\<bar> < 2 ^ 52"
  shows "FLT_EQ (dbl_of_int i) (dbl_of_int j) \<longleftrightarrow> i = j"
proof -
  have ij: "\<bar>i\<bar> < 2 ^ 53" "\<bar>j\<bar> < 2 ^ 53" "\<bar>i - j\<bar> < 2 ^ 53" using assms by simp_all
  note parts = dbl_of_int_parts [OF ij(3)]
  have "i = j" if "dbl_le (dbl_abs (dbl_of_int (i - j))) FLT_EPSILON"
  proof (rule ccontr)
    assume "i \<noteq> j"
    then have n: "1 * dbl_unit \<le> nat \<bar>i - j\<bar> * dbl_unit" by (intro mult_le_mono1) simp
    have e: "dbl_mag FLT_EPSILON = 0x3E80000000000000" "\<not> dbl_neg FLT_EPSILON"
      by (simp_all add: dbl_mag_def dbl_neg_def unsigned_take_bit_eq take_bit_eq_mod)
    have "mag_val 52 (dbl_mag FLT_EPSILON) = 2 ^ 1051" unfolding e mag_val_def by simp
    moreover have "mag_val 52 (dbl_mag (dbl_of_int (i - j))) = nat \<bar>i - j\<bar> * dbl_unit"
      using mag_round_exact(1) [of "nat \<bar>i - j\<bar>" 1074] ij(3) unfolding parts
      by (simp add: dbl_unit_def nat_less_iff)
    moreover have "2 ^ 1051 < nat \<bar>i - j\<bar> * dbl_unit"
    proof -
      have "(2 :: nat) ^ 1051 < dbl_unit" unfolding dbl_unit_def by (rule power_strict_increasing) simp_all
      also have "dbl_unit \<le> nat \<bar>i - j\<bar> * dbl_unit" using n by (simp only: mult_1)
      finally show ?thesis .
    qed
    ultimately have "mag_val 52 (dbl_mag FLT_EPSILON) < mag_val 52 (dbl_mag (dbl_of_int (i - j)))" by (simp only:)
    then have "dbl_mag FLT_EPSILON < dbl_mag (dbl_of_int (i - j))" by (simp only: mag_val_less_iff)
    with that show False
      using dbl_pack_parts [OF dbl_mag_less] by (simp add: dbl_le_def dbl_ord_def dbl_abs_def e(2))
  qed
  then show ?thesis
    unfolding FLT_EQ_def dbl_sub_of_int [OF ij(1,2)] dbl_eq_of_int [OF ij(1,2)]
    by (auto simp: dbl_of_int_parts(3) [OF ij(1)])
qed

lemma int_small: "pix_range pt = Some (lo, hi) \<Longrightarrow> lo \<le> i \<Longrightarrow> i \<le> hi \<Longrightarrow> \<bar>i\<bar> < 2 ^ 52"
  using pix_range_bounds [of pt lo hi] by (simp add: abs_less_iff)

lemma min_value_int: "pix_range pt = Some (lo, hi) \<Longrightarrow> rt_pixtype_get_min_value pt = Inr (dbl_of_int lo)"
  by (cases pt) (auto simp: clamp_defs clamp_int_def dbl_trunc_of_int dbl_of_int_parts uint_of_int sint_of_int)

lemma corrected_value_int:
  assumes "pix_range pt = Some (lo, hi)" "pt \<noteq> PT_1BB" "\<bar>i\<bar> < 2 ^ 52"
  shows "corrected_value pt nd (dbl_of_int lo) (dbl_of_int i) = dbl_of_int (if i \<le> lo then i + 1 else i - 1)"
proof -
  have b: "lo < hi" "\<bar>lo\<bar> < 2 ^ 53" using pix_range_bounds [OF assms(1)] by simp_all
  have i: "\<bar>i\<bar> < 2 ^ 53" using assms(3) by simp
  have c: "clamp_int lo hi (dbl_of_int i) = max lo (min hi i)" "clamp_int lo hi (dbl_of_int lo) = lo"
    using b i by (simp_all add: clamp_int_def dbl_trunc_of_int dbl_of_int_parts)
  have "corrected_value pt nd (dbl_of_int lo) (dbl_of_int i) =
      step_value (clamp_int lo hi (dbl_of_int i) = clamp_int lo hi (dbl_of_int lo)) dbl_one (dbl_of_int i)"
    using assms(1,2) clamp_int_range [of lo hi "dbl_of_int i"] clamp_int_range [of lo hi "dbl_of_int lo"]
    by (cases pt) (auto simp: clamp_defs of_int_word_inject)
  moreover have "clamp_int lo hi (dbl_of_int i) = clamp_int lo hi (dbl_of_int lo) \<longleftrightarrow> i \<le> lo"
    unfolding c using b by auto
  moreover have "dbl_add (dbl_of_int i) dbl_one = dbl_of_int (i + 1)" "dbl_sub (dbl_of_int i) dbl_one = dbl_of_int (i - 1)"
    using dbl_add_of_int [OF i, of 1] dbl_sub_of_int [OF i, of 1] by simp_all
  ultimately show ?thesis by (simp add: step_value_def)
qed

section \<open>The layout of the pixels\<close>

definition band_ok :: "rt_band \<Rightarrow> bool" where
  "band_ok b \<longleftrightarrow>
     pixtype_known (band_pixtype b) \<and> (band_isnodata b \<longrightarrow> band_hasnodata b) \<and>
     (\<exists>d. band_data b = Mem d \<and>
          length d = unat (band_width b) * unat (band_height b) * pixtype_bytes (band_pixtype b))"

text \<open>The bytes and the value of the pixel in column \<open>x\<close> of row \<open>y\<close>.\<close>

definition stored_bytes :: "rt_band \<Rightarrow> int \<Rightarrow> int \<Rightarrow> byte list" where
  "stored_bytes b x y =
     (let n = pixtype_bytes (band_pixtype b)
      in take n (drop (pixel_offset b x y * n) (mem (band_data b))))"

definition stored_value :: "rt_band \<Rightarrow> int \<Rightarrow> int \<Rightarrow> double" where
  "stored_value b x y = pixel_value (band_pixtype b) (stored_bytes b x y)"

lemma length_pixel_bytes [simp]: "length (pixel_bytes pt v) = pixtype_bytes pt"
  by (cases pt) simp_all

lemma pixtype_bytes_pos: "pixtype_known pt \<Longrightarrow> 0 < pixtype_bytes pt"
  by (cases pt) (simp_all add: pixtype_known_def)

lemma pixel_offset_eq:
  assumes "in_range b x y"
  shows "pixel_offset b x y = nat x + nat y * unat (band_width b)"
    "pixel_offset b x y < unat (band_width b) * unat (band_height b)"
proof -
  define w where "w = unat (band_width b)"
  define h where "h = unat (band_height b)"
  have wh: "uint (band_width b) = int w" "uint (band_height b) = int h" by (simp_all add: w_def h_def)
  have lim: "w < 2 ^ 16" "h < 2 ^ 16" using unsigned_less [of "band_width b"] unsigned_less [of "band_height b"]
    by (simp_all add: w_def h_def)
  obtain i j where ij: "x = int i" "y = int j" "i < w" "j < h"
    using assms unfolding in_range_def wh by (metis linorder_not_less nonneg_int_cases of_nat_less_iff)
  have lt: "i + j * w < w * h"
  proof -
    have "i + j * w < w + j * w" using ij by simp
    also have "\<dots> = Suc j * w" by simp
    also have "\<dots> \<le> h * w" using ij by (intro mult_le_mono1) simp
    finally show ?thesis by (simp add: mult.commute)
  qed
  also have "w * h < 2 ^ 16 * 2 ^ 16" using lim by (intro mult_strict_mono) simp_all
  finally have small: "i + j * w < 2 ^ 32" by simp
  have "x + y * uint (band_width b) = int (i + j * w)" by (simp add: ij wh)
  then have "pixel_offset b x y = unat (of_nat (i + j * w) :: u32)" unfolding pixel_offset_def by simp
  also have "\<dots> = i + j * w" using small by (subst unat_of_nat) simp
  finally have o: "pixel_offset b x y = i + j * w" .
  show "pixel_offset b x y = nat x + nat y * unat (band_width b)" using o ij by (simp add: w_def)
  show "pixel_offset b x y < unat (band_width b) * unat (band_height b)"
    using lt o by (simp add: w_def h_def)
qed

lemma pixel_offset_inject:
  assumes "in_range b x y" "in_range b x' y'" "pixel_offset b x y = pixel_offset b x' y'"
  shows "x = x' \<and> y = y'"
proof -
  define w where "w = unat (band_width b)"
  have wh: "uint (band_width b) = int w" by (simp add: w_def)
  have r: "0 \<le> x" "x < int w" "0 \<le> y" "0 \<le> x'" "x' < int w" "0 \<le> y'"
    using assms(1,2) unfolding in_range_def wh by simp_all
  then have lt: "nat x < w" "nat x' < w" by simp_all
  have eq: "nat x + nat y * w = nat x' + nat y' * w"
    using assms(3) by (simp add: pixel_offset_eq [OF assms(1)] pixel_offset_eq [OF assms(2)] w_def)
  from arg_cong [OF eq, of "\<lambda>n. n mod w"] lt have "nat x = nat x'" by simp
  with eq lt have "nat x = nat x'" "nat y = nat y'" by simp_all
  with r show ?thesis by (metis int_nat_eq)
qed

text \<open>The pixels in range lie inside the block and apart from each other.\<close>

lemma pixel_inside:
  assumes "band_ok b" "in_range b x y"
  shows "pixel_offset b x y * pixtype_bytes (band_pixtype b) + pixtype_bytes (band_pixtype b) \<le> length (mem (band_data b))"
proof -
  have "Suc (pixel_offset b x y) * pixtype_bytes (band_pixtype b) \<le>
      unat (band_width b) * unat (band_height b) * pixtype_bytes (band_pixtype b)"
    using pixel_offset_eq(2) [OF assms(2)] by (intro mult_le_mono1) simp
  then show ?thesis using assms(1) by (auto simp: band_ok_def)
qed

lemma pixels_apart:
  "i \<noteq> j \<Longrightarrow> i * n + n \<le> j * n \<or> j * n + n \<le> i * (n :: nat)"
proof -
  assume "i \<noteq> j"
  then have "Suc i \<le> j \<or> Suc j \<le> i" by linarith
  then have "Suc i * n \<le> j * n \<or> Suc j * n \<le> i * n" by (metis mult_le_mono1)
  then show ?thesis by (simp add: add.commute)
qed

text \<open>Reading a pixel of a band that is not flagged as all NODATA.\<close>

lemma get_pixel_stored:
  assumes "band_ok b" "in_range b x y" "\<not> band_isnodata b"
  shows "rt_band_get_pixel load b x y =
    bindE (if band_hasnodata b then rt_band_clamped_value_is_nodata b (stored_value b x y) else Inr 0)
      (\<lambda>n. Inr (Some (stored_value b x y, n \<noteq> 0), b))"
proof -
  obtain d where d: "band_data b = Mem d" using assms(1) by (auto simp: band_ok_def)
  have "mem_at d (pixel_offset b x y * pixtype_bytes (band_pixtype b)) (pixtype_bytes (band_pixtype b)) =
      Inr (stored_bytes b x y)"
    using pixel_inside [OF assms(1,2)] by (simp add: mem_at_ok d stored_bytes_def Let_def)
  then show ?thesis
    using assms d
    by (simp add: rt_band_get_pixel_def rt_band_get_data_def stored_value_def band_ok_def Let_def)
qed

end
