(* ===== verification/RasterBandOk.thy ===== *)
theory RasterBandOk
  imports RasterBand
begin

text \<open>
  What the operations on the pixels of a band do: a pixel written is read back and no other
  changes, integers survive exactly and are NODATA exactly when they equal the NODATA
  value, and the flag that a whole band is NODATA is never set on a band that has a pixel
  which is not.
\<close>

section \<open>Writing a pixel\<close>

lemma compare_known: "pixtype_known pt \<Longrightarrow> \<exists>r. rt_pixtype_compare_clamped_values pt v w = Inr r"
  by (cases pt) (simp_all add: pixtype_known_def)

lemma min_value_known: "pixtype_known pt \<Longrightarrow> \<exists>r. rt_pixtype_get_min_value pt = Inr r"
  by (cases pt) (simp_all add: pixtype_known_def)

lemma is_nodata_known:
  "pixtype_known (band_pixtype b) \<Longrightarrow> \<exists>n. rt_band_clamped_value_is_nodata b v = Inr n"
  using compare_known [of "band_pixtype b" v "band_nodataval b"]
  by (auto simp: rt_band_clamped_value_is_nodata_def)

lemma corrected_known:
  "pixtype_known (band_pixtype b) \<Longrightarrow> \<exists>v' c. rt_band_corrected_clamped_value b v = Inr (v', c)"
  using is_nodata_known [of b v] min_value_known [of "band_pixtype b"]
  by (auto simp: rt_band_corrected_clamped_value_def)

text \<open>Only these fields of a band decide what is NODATA.\<close>

lemma is_nodata_cong:
  "band_pixtype b' = band_pixtype b \<Longrightarrow> band_hasnodata b' = band_hasnodata b \<Longrightarrow>
   band_nodataval b' = band_nodataval b \<Longrightarrow>
   rt_band_clamped_value_is_nodata b' v = rt_band_clamped_value_is_nodata b v"
  by (simp add: rt_band_clamped_value_is_nodata_def)

lemma band_shape_cong:
  "band_width b' = band_width b \<Longrightarrow> pixel_offset b' x y = pixel_offset b x y"
  "band_width b' = band_width b \<Longrightarrow> band_height b' = band_height b \<Longrightarrow> in_range b' x y = in_range b x y"
  by (simp_all add: pixel_offset_def in_range_def)

text \<open>The value that is stored for a value, and whether it was corrected.\<close>

definition to_store :: "rt_band \<Rightarrow> double \<Rightarrow> lwerr + (double \<times> bool)" where
  "to_store b v =
     (if band_hasnodata b \<and> band_pixtype b \<noteq> PT_64BF then rt_band_corrected_clamped_value b v else Inr (v, False))"

lemma set_pixel_stored:
  assumes ok: "band_ok b" and xy: "in_range b x y"
  obtains val c n b' where "to_store b v = Inr (val, c)" "rt_band_clamped_value_is_nodata b val = Inr n"
    "rt_band_set_pixel b x y v =
       Inr (b', c \<or> rt_util_dbl_trunc_warning val (stored_value b' x y) (band_pixtype b))"
    "band_ok b'" "band_pixtype b' = band_pixtype b" "band_width b' = band_width b" "band_height b' = band_height b"
    "band_hasnodata b' = band_hasnodata b" "band_nodataval b' = band_nodataval b"
    "band_isnodata b' = (band_isnodata b \<and> n \<noteq> 0)"
    "stored_value b' x y = pixel_value (band_pixtype b) (pixel_bytes (band_pixtype b) val)"
    "\<And>x' y'. in_range b x' y' \<Longrightarrow> (x', y') \<noteq> (x, y) \<Longrightarrow> stored_value b' x' y' = stored_value b x' y'"
proof -
  let ?pt = "band_pixtype b"
  obtain d where d: "band_data b = Mem d" using ok by (auto simp: band_ok_def)
  have known: "pixtype_known ?pt" using ok by (simp add: band_ok_def)
  obtain val c where val: "to_store b v = Inr (val, c)"
    using corrected_known [OF known, of v] by (cases "band_hasnodata b \<and> ?pt \<noteq> PT_64BF") (auto simp: to_store_def)
  obtain n where n: "rt_band_clamped_value_is_nodata b val = Inr n" using is_nodata_known [OF known] by blast
  define p where "p = pixel_offset b x y * pixtype_bytes ?pt"
  obtain d' where d': "mem_write d p (pixel_bytes ?pt val) = Inr d'"
    using pixel_inside [OF ok xy] by (simp add: mem_write_ok d p_def)
  have len: "length d' = length d" using d' by (rule length_mem_write)
  define b' where "b' = b\<lparr>band_data := Mem d', band_isnodata := band_isnodata b \<and> n \<noteq> 0\<rparr>"
  have fields: "band_pixtype b' = ?pt" "band_width b' = band_width b" "band_height b' = band_height b"
    "band_hasnodata b' = band_hasnodata b" "band_nodataval b' = band_nodataval b"
    "band_isnodata b' = (band_isnodata b \<and> n \<noteq> 0)" "band_data b' = Mem d'"
    by (simp_all add: b'_def)
  have ok': "band_ok b'" using ok d len by (auto simp: band_ok_def fields)
  have at: "mem_at d' (pixel_offset b x' y' * pixtype_bytes ?pt) (pixtype_bytes ?pt) = Inr (stored_bytes b' x' y')"
    if "in_range b x' y'" for x' y'
    using pixel_inside [OF ok', of x' y'] that
    by (simp add: mem_at_ok stored_bytes_def Let_def fields band_shape_cong [of b' b])
  have "stored_bytes b' x y = pixel_bytes ?pt val"
    using at [OF xy] mem_at_write_same [OF d', of "pixtype_bytes ?pt"] by (simp add: p_def)
  then have same: "stored_value b' x y = pixel_value ?pt (pixel_bytes ?pt val)" by (simp add: stored_value_def fields)
  have other: "stored_value b' x' y' = stored_value b x' y'" if xy': "in_range b x' y'" "(x', y') \<noteq> (x, y)" for x' y'
  proof -
    have "pixel_offset b x' y' \<noteq> pixel_offset b x y" using pixel_offset_inject [OF xy'(1) xy] xy'(2) by auto
    then have "mem_at d' (pixel_offset b x' y' * pixtype_bytes ?pt) (pixtype_bytes ?pt) =
        mem_at d (pixel_offset b x' y' * pixtype_bytes ?pt) (pixtype_bytes ?pt)"
      using pixels_apart [of "pixel_offset b x' y'" "pixel_offset b x y" "pixtype_bytes ?pt"]
      by (intro mem_at_write_other [OF d']) (simp add: p_def)
    also have "\<dots> = Inr (stored_bytes b x' y')"
      using pixel_inside [OF ok xy'(1)] by (simp add: mem_at_ok stored_bytes_def Let_def d)
    finally show ?thesis using at [OF xy'(1)] by (simp add: stored_value_def fields)
  qed
  have "rt_band_set_pixel b x y v =
      Inr (b', c \<or> rt_util_dbl_trunc_warning val (pixel_value ?pt (pixel_bytes ?pt val)) ?pt)"
    using xy known val d' n is_nodata_cong [of "b\<lparr>band_data := Mem d'\<rparr>" b val]
    by (simp add: rt_band_set_pixel_def d Let_def to_store_def [symmetric] p_def [symmetric] b'_def)
  then have "rt_band_set_pixel b x y v = Inr (b', c \<or> rt_util_dbl_trunc_warning val (stored_value b' x y) ?pt)"
    unfolding same .
  then show ?thesis using that val n ok' fields same other by blast
qed

section \<open>Bands of integers\<close>

text \<open>A band of an integer type whose NODATA value is an integer of the type.\<close>

definition int_band :: "int \<Rightarrow> int \<Rightarrow> int \<Rightarrow> rt_band \<Rightarrow> bool" where
  "int_band lo hi nd b \<longleftrightarrow>
     band_ok b \<and> pix_range (band_pixtype b) = Some (lo, hi) \<and> lo \<le> nd \<and> nd \<le> hi \<and> band_nodataval b = dbl_of_int nd"

lemma clamp_int_int: "\<bar>i\<bar> < 2 ^ 52 \<Longrightarrow> clamp_int lo hi (dbl_of_int i) = max lo (min hi i)"
  by (simp add: clamp_int_def dbl_trunc_of_int dbl_of_int_parts)

lemma is_nodata_int:
  assumes "int_band lo hi nd b" "\<bar>i\<bar> < 2 ^ 52"
  shows "rt_band_clamped_value_is_nodata b (dbl_of_int i) =
    Inr (if \<not> band_hasnodata b then 0 else if i = nd then 2 else if max lo (min hi i) = nd then 1 else 0)"
proof -
  have r: "pix_range (band_pixtype b) = Some (lo, hi)" and nd: "band_nodataval b = dbl_of_int nd" "lo \<le> nd" "nd \<le> hi"
    using assms(1) by (simp_all add: int_band_def)
  have small: "\<bar>nd\<bar> < 2 ^ 52" using int_small [OF r nd(2,3)] .
  have "max lo (min hi nd) = nd" using nd by simp
  then show ?thesis
    by (simp add: rt_band_clamped_value_is_nodata_def nd(1) FLT_EQ_of_int [OF assms(2) small]
        pix_range_width(3) [OF r] clamp_int_int [OF assms(2)] clamp_int_int [OF small])
qed

text \<open>What an integer is stored as: itself, or one off if it is NODATA only by clamping.\<close>

definition int_to_store :: "int \<Rightarrow> int \<Rightarrow> int \<Rightarrow> rt_band \<Rightarrow> int \<Rightarrow> int" where
  "int_to_store lo hi nd b i =
     (if band_hasnodata b \<and> i \<noteq> nd \<and> max lo (min hi i) = nd then
        (if band_pixtype b = PT_1BB then (if nd = 0 then 1 else 0) else if i \<le> lo then i + 1 else i - 1)
      else i)"

lemma to_store_int:
  assumes "int_band lo hi nd b" "\<bar>i\<bar> < 2 ^ 51"
  shows "to_store b (dbl_of_int i) =
      Inr (dbl_of_int (int_to_store lo hi nd b i), band_hasnodata b \<and> i \<noteq> nd \<and> max lo (min hi i) = nd)"
    "\<bar>int_to_store lo hi nd b i\<bar> < 2 ^ 52"
proof -
  have r: "pix_range (band_pixtype b) = Some (lo, hi)" and nd: "band_nodataval b = dbl_of_int nd" "lo \<le> nd" "nd \<le> hi"
    using assms(1) by (simp_all add: int_band_def)
  have i: "\<bar>i\<bar> < 2 ^ 52" using assms(2) by simp
  have small: "\<bar>nd\<bar> < 2 ^ 53" using int_small [OF r nd(2,3)] by simp
  have "band_pixtype b \<noteq> PT_64BF" using r by auto
  moreover have "corrected_value (band_pixtype b) (dbl_of_int nd) (dbl_of_int lo) (dbl_of_int i) =
      dbl_of_int (if band_pixtype b = PT_1BB then (if nd = 0 then 1 else 0) else if i \<le> lo then i + 1 else i - 1)"
    using corrected_value_int [OF r _ i] dbl_eq_of_int [OF small, of 0] by auto
  ultimately show "to_store b (dbl_of_int i) =
      Inr (dbl_of_int (int_to_store lo hi nd b i), band_hasnodata b \<and> i \<noteq> nd \<and> max lo (min hi i) = nd)"
    by (simp add: to_store_def rt_band_corrected_clamped_value_def is_nodata_int [OF assms(1) i] min_value_int [OF r]
        int_to_store_def nd(1))
  show "\<bar>int_to_store lo hi nd b i\<bar> < 2 ^ 52" using assms(2) by (auto simp: int_to_store_def)
qed

text \<open>Writing an integer: the pixel holds the clamped number, and only the flag may change.\<close>

lemma set_pixel_int:
  assumes b: "int_band lo hi nd b" and xy: "in_range b x y" and i: "\<bar>i\<bar> < 2 ^ 51"
  defines "k \<equiv> int_to_store lo hi nd b i"
  obtains b' where "rt_band_set_pixel b x y (dbl_of_int i) =
      Inr (b', band_hasnodata b \<and> i \<noteq> nd \<and> max lo (min hi i) = nd \<or> k < lo \<or> hi < k)"
    "int_band lo hi nd b'" "band_pixtype b' = band_pixtype b" "band_width b' = band_width b" "band_height b' = band_height b"
    "band_hasnodata b' = band_hasnodata b"
    "band_isnodata b' = (band_isnodata b \<and> max lo (min hi k) = nd)"
    "stored_value b' x y = dbl_of_int (max lo (min hi k))"
    "\<And>x' y'. in_range b x' y' \<Longrightarrow> (x', y') \<noteq> (x, y) \<Longrightarrow> stored_value b' x' y' = stored_value b x' y'"
proof -
  have ok: "band_ok b" and r: "pix_range (band_pixtype b) = Some (lo, hi)" and nd: "lo \<le> nd" "nd \<le> hi"
    using b by (simp_all add: int_band_def)
  note st = to_store_int [OF b i, folded k_def]
  obtain val c n b' where *: "to_store b (dbl_of_int i) = Inr (val, c)" "rt_band_clamped_value_is_nodata b val = Inr n"
    "rt_band_set_pixel b x y (dbl_of_int i) =
       Inr (b', c \<or> rt_util_dbl_trunc_warning val (stored_value b' x y) (band_pixtype b))"
    "band_ok b'" "band_pixtype b' = band_pixtype b" "band_width b' = band_width b" "band_height b' = band_height b"
    "band_hasnodata b' = band_hasnodata b" "band_nodataval b' = band_nodataval b"
    "band_isnodata b' = (band_isnodata b \<and> n \<noteq> 0)"
    "stored_value b' x y = pixel_value (band_pixtype b) (pixel_bytes (band_pixtype b) val)"
    "\<And>x' y'. in_range b x' y' \<Longrightarrow> (x', y') \<noteq> (x, y) \<Longrightarrow> stored_value b' x' y' = stored_value b x' y'"
    by (rule set_pixel_stored [OF ok xy, of "dbl_of_int i"]) blast
  from *(1) st(1) have val: "val = dbl_of_int k" "c = (band_hasnodata b \<and> i \<noteq> nd \<and> max lo (min hi i) = nd)" by auto
  have sv: "stored_value b' x y = dbl_of_int (max lo (min hi k))"
    unfolding *(11) val pix_range_width(2) [OF r] clamp_int_int [OF st(2)] ..
  define s where "s = max lo (min hi k)"
  have s: "\<bar>s\<bar> < 2 ^ 52" using pix_range_bounds [OF r] by (intro int_small [OF r]) (auto simp: s_def)
  have "rt_util_dbl_trunc_warning (dbl_of_int k) (dbl_of_int s) (band_pixtype b) \<longleftrightarrow> s \<noteq> k"
  proof -
    have "\<not> dbl_le dbl_one (dbl_abs (dbl_sub (dbl_of_int k) (dbl_of_int k)))"
      using st(2) by (simp add: dbl_sub_of_int dbl_abs_def dbl_pack_def)
    then show ?thesis
      using pix_range_bounds [OF r] st(2) s by (auto simp: rt_util_dbl_trunc_warning_def dbl_eq_of_int)
  qed
  moreover have "s \<noteq> k \<longleftrightarrow> k < lo \<or> hi < k" using pix_range_bounds [OF r] by (auto simp: s_def)
  moreover have "band_isnodata b' = (band_isnodata b \<and> max lo (min hi k) = nd)"
  proof -
    have "n \<noteq> 0 \<longleftrightarrow> max lo (min hi k) = nd" if "band_hasnodata b"
      using *(2) that nd unfolding val is_nodata_int [OF b st(2)] by (auto split: if_splits)
    then show ?thesis using *(10) ok by (auto simp: band_ok_def)
  qed
  ultimately show ?thesis
    using that [of b'] *(3,4,5,6,7,8,9,12) sv b val by (simp add: int_band_def s_def [symmetric])
qed

section \<open>Reading back\<close>

lemma get_pixel_int:
  assumes "int_band lo hi nd b" "in_range b x y" "stored_value b x y = dbl_of_int s" "\<bar>s\<bar> < 2 ^ 52" "lo \<le> s" "s \<le> hi"
    and "band_isnodata b \<Longrightarrow> s = nd"
  shows "rt_band_get_pixel load b x y = Inr (Some (dbl_of_int s, band_hasnodata b \<and> s = nd), b)"
proof (cases "band_isnodata b")
  case False
  have "band_ok b" using assms(1) by (simp add: int_band_def)
  moreover have "max lo (min hi s) = s" using assms(5,6) by simp
  ultimately show ?thesis
    using get_pixel_stored [OF _ assms(2) False] is_nodata_int [OF assms(1,4)] assms(3) by simp
next
  case True
  with assms(1,2,7) show ?thesis by (simp add: rt_band_get_pixel_def int_band_def band_ok_def)
qed

text \<open>
  C22. For bands of the integer pixel types (1 to 32 bits) and integers below 2^51 in absolute value: an integer that the type
  can hold is written and read back as it is, and one beyond the range as the nearer end of the range, which is
  reported as a conversion. The pixel is reported as NODATA exactly when the number it holds is the NODATA value; the write
  leaves every other pixel as it was, and takes the flag that the whole band is NODATA away exactly when
  that number is not the NODATA value. Not covered are numbers beyond a range whose end is the NODATA value
  (\<open>rt_band_set_pixel_beyond_nodata\<close>), numbers with a fraction, and the floating point types.
\<close>

theorem rt_band_set_get_pixel:
  assumes "int_band lo hi nd b" "in_range b x y" "\<bar>i\<bar> < 2 ^ 51"
    and "band_hasnodata b \<and> (i < lo \<or> hi < i) \<longrightarrow> max lo (min hi i) \<noteq> nd"
  shows "\<exists>b'. rt_band_set_pixel b x y (dbl_of_int i) = Inr (b', i < lo \<or> hi < i) \<and>
    rt_band_get_pixel load b' x y = Inr (Some (dbl_of_int (max lo (min hi i)), band_hasnodata b \<and> max lo (min hi i) = nd), b') \<and>
    int_band lo hi nd b' \<and> band_isnodata b' = (band_isnodata b \<and> max lo (min hi i) = nd) \<and>
    (\<forall>x' y'. in_range b x' y' \<and> (x', y') \<noteq> (x, y) \<longrightarrow> stored_value b' x' y' = stored_value b x' y')"
proof -
  define s where "s = max lo (min hi i)"
  have r: "pix_range (band_pixtype b) = Some (lo, hi)" using assms(1) by (simp add: int_band_def)
  have lh: "lo \<le> hi" using pix_range_bounds [OF r] by simp
  have kept: "s = i" if "\<not> (i < lo \<or> hi < i)" using that by (simp add: s_def)
  have k: "int_to_store lo hi nd b i = i" using assms(4) kept by (auto simp: int_to_store_def s_def)
  have c: "(band_hasnodata b \<and> i \<noteq> nd \<and> s = nd \<or> i < lo \<or> hi < i) = (i < lo \<or> hi < i)"
    using assms(4) kept by (auto simp: s_def)
  have "lo \<le> s" "s \<le> hi" using lh by (auto simp: s_def)
  then have small: "\<bar>s\<bar> < 2 ^ 52" by (rule int_small [OF r])
  show ?thesis
  proof (rule set_pixel_int [OF assms(1,2,3), unfolded k, folded s_def, unfolded c])
    fix b' assume b': "rt_band_set_pixel b x y (dbl_of_int i) = Inr (b', i < lo \<or> hi < i)"
      "int_band lo hi nd b'" "band_width b' = band_width b" "band_height b' = band_height b"
      "band_hasnodata b' = band_hasnodata b" "band_isnodata b' = (band_isnodata b \<and> s = nd)"
      "stored_value b' x y = dbl_of_int s"
      "\<And>x' y'. in_range b x' y' \<Longrightarrow> (x', y') \<noteq> (x, y) \<Longrightarrow> stored_value b' x' y' = stored_value b x' y'"
    have inr: "in_range b' x y" using assms(2) unfolding band_shape_cong(2) [OF b'(3,4)] .
    have "band_isnodata b' \<Longrightarrow> s = nd" using b'(6) by simp
    then have "rt_band_get_pixel load b' x y = Inr (Some (dbl_of_int s, band_hasnodata b' \<and> s = nd), b')"
      by (rule get_pixel_int [OF b'(2) inr b'(7) small \<open>lo \<le> s\<close> \<open>s \<le> hi\<close>])
    then show ?thesis
      using b'(1,2,6,8) unfolding b'(5) s_def by (intro exI [of _ b'] conjI allI impI) simp_all
  qed
qed

text \<open>
  A value beyond the end of the range of an integer type, in a band whose NODATA value is
  that end, becomes NODATA: the correction that is to keep it from clamping to NODATA moves
  it by one, which is still outside the range or at its end.
\<close>

theorem rt_band_set_pixel_beyond_nodata:
  assumes "int_band lo hi nd b" "in_range b x y" "band_hasnodata b" "band_pixtype b \<noteq> PT_1BB" "\<bar>i\<bar> < 2 ^ 51"
    and "nd = hi \<and> hi < i \<or> nd = lo \<and> i < lo"
  shows "rt_band_corrected_clamped_value b (dbl_of_int i) = Inr (dbl_of_int (if i < lo then i + 1 else i - 1), True) \<and>
    (\<exists>b'. rt_band_set_pixel b x y (dbl_of_int i) = Inr (b', True) \<and>
      rt_band_get_pixel load b' x y = Inr (Some (dbl_of_int nd, True), b'))"
proof -
  have r: "pix_range (band_pixtype b) = Some (lo, hi)" "lo \<le> nd" "nd \<le> hi" using assms(1) by (simp_all add: int_band_def)
  have lh: "lo < hi" using pix_range_bounds [OF r(1)] by simp
  define k where "k = (if i < lo then i + 1 else i - 1)"
  have k: "int_to_store lo hi nd b i = k"
    using assms(3,4,6) lh by (auto simp: int_to_store_def k_def)
  have cl: "max lo (min hi k) = nd" "max lo (min hi i) = nd" "i \<noteq> nd"
    using assms(6) lh by (auto simp: k_def)
  have "to_store b (dbl_of_int i) = Inr (dbl_of_int k, True)"
    using to_store_int(1) [OF assms(1,5)] assms(3) cl by (simp add: k)
  moreover have "band_pixtype b \<noteq> PT_64BF" using r(1) by auto
  ultimately have "rt_band_corrected_clamped_value b (dbl_of_int i) = Inr (dbl_of_int k, True)"
    using assms(3) by (simp add: to_store_def)
  moreover have "\<exists>b'. rt_band_set_pixel b x y (dbl_of_int i) = Inr (b', True) \<and>
      rt_band_get_pixel load b' x y = Inr (Some (dbl_of_int nd, True), b')"
  proof (rule set_pixel_int [OF assms(1,2,5), unfolded k cl])
    fix b' assume b': "rt_band_set_pixel b x y (dbl_of_int i) =
        Inr (b', band_hasnodata b \<and> i \<noteq> nd \<and> nd = nd \<or> k < lo \<or> hi < k)"
      "int_band lo hi nd b'" "band_width b' = band_width b" "band_height b' = band_height b"
      "band_hasnodata b' = band_hasnodata b" "stored_value b' x y = dbl_of_int nd"
    have inr: "in_range b' x y" using assms(2) unfolding band_shape_cong(2) [OF b'(3,4)] .
    have "rt_band_get_pixel load b' x y = Inr (Some (dbl_of_int nd, band_hasnodata b' \<and> nd = nd), b')"
      by (rule get_pixel_int [OF b'(2) inr b'(6) int_small [OF r] r(2,3)]) (rule refl)
    with b'(1,5) assms(3) cl(3) show ?thesis by auto
  qed
  ultimately show ?thesis by (simp add: k_def)
qed

section \<open>The flag of a band that is all NODATA\<close>

definition reads_nodata :: "rt_band \<Rightarrow> int \<Rightarrow> int \<Rightarrow> bool" where
  "reads_nodata b x y \<longleftrightarrow> rt_band_clamped_value_is_nodata b (stored_value b x y) \<noteq> Inr 0"

lemma all_nodata_spec:
  assumes "band_ok b" "\<not> band_isnodata b" "band_hasnodata b" "\<And>x y. (x, y) \<in> set ps \<Longrightarrow> in_range b x y"
  shows "all_nodata load b ps = Inr (\<forall>(x, y) \<in> set ps. reads_nodata b x y, b)"
  using assms(4)
proof (induction ps)
  case (Cons p ps)
  obtain x y where p: "p = (x, y)" by (rule prod.exhaust)
  have "in_range b x y" using Cons.prems p by simp
  moreover obtain n where n: "rt_band_clamped_value_is_nodata b (stored_value b x y) = Inr n"
    using is_nodata_known assms(1) by (auto simp: band_ok_def)
  ultimately have "rt_band_get_pixel load b x y = Inr (Some (stored_value b x y, n \<noteq> 0), b)"
    using get_pixel_stored [OF assms(1) _ assms(2)] assms(3) by simp
  moreover have "reads_nodata b x y \<longleftrightarrow> n \<noteq> 0" by (simp add: reads_nodata_def n)
  moreover have "all_nodata load b ps = Inr (\<forall>(x, y) \<in> set ps. reads_nodata b x y, b)"
    using Cons.IH Cons.prems by simp
  ultimately show ?case by (simp add: p)
qed simp

lemma isnodata_irrelevant:
  "reads_nodata (b\<lparr>band_isnodata := f\<rparr>) x y = reads_nodata b x y"
  "in_range (b\<lparr>band_isnodata := f\<rparr>) x y = in_range b x y"
  by (simp_all add: reads_nodata_def rt_band_clamped_value_is_nodata_def stored_value_def stored_bytes_def
      pixel_offset_def in_range_def Let_def)

lemma column_order_range: "(x, y) \<in> set (column_order b) \<longleftrightarrow> in_range b x y"
  by (auto simp: column_order_def in_range_def intro!: bexI [of _ x])

lemma check_is_nodata_all:
  assumes "band_ok b"
  shows "rt_band_check_is_nodata load b =
    (let all = band_hasnodata b \<and> (\<forall>x y. in_range b x y \<longrightarrow> reads_nodata b x y)
     in Inr (all, b\<lparr>band_isnodata := all\<rparr>))"
proof (cases "band_hasnodata b")
  case True
  define b0 where "b0 = b\<lparr>band_isnodata := False\<rparr>"
  have ok: "band_ok b0" "\<not> band_isnodata b0" "band_hasnodata b0"
    using assms True by (auto simp: b0_def band_ok_def)
  have col: "column_order b0 = column_order b" by (simp add: column_order_def b0_def)
  have same: "reads_nodata b0 x y = reads_nodata b x y" "in_range b0 x y = in_range b x y" for x y
    unfolding b0_def by (rule isnodata_irrelevant)+
  have "all_nodata load b0 (column_order b) = Inr (\<forall>(x, y) \<in> set (column_order b). reads_nodata b0 x y, b0)"
    by (rule all_nodata_spec [OF ok]) (simp add: column_order_range same)
  moreover have "(\<forall>(x, y) \<in> set (column_order b). reads_nodata b0 x y) \<longleftrightarrow>
      (\<forall>x y. in_range b x y \<longrightarrow> reads_nodata b x y)"
    by (auto simp: column_order_range same)
  ultimately show ?thesis
    unfolding rt_band_check_is_nodata_def b0_def [symmetric] Let_def col using True ok by (simp add: b0_def)
qed (simp add: rt_band_check_is_nodata_def)

text \<open>
  C23. \<open>rt_band_check_is_nodata\<close> says whether every pixel of the band is NODATA, and sets the
  flag of the band to that answer; it changes nothing else.
\<close>

theorem rt_band_check_is_nodata_correct:
  assumes "band_ok b"
  shows "rt_band_check_is_nodata load b =
    (let all = band_hasnodata b \<and> (\<forall>x y. in_range b x y \<longrightarrow> reads_nodata b x y)
     in Inr (all, b\<lparr>band_isnodata := all\<rparr>))"
  by (rule check_is_nodata_all [OF assms])

text \<open>
  The bands of an integer type that the operations build: created around any block of pixels,
  given a NODATA value, written pixel by pixel with integers or in whole stretches, checked.
\<close>

inductive int_band_built :: "int \<Rightarrow> int \<Rightarrow> rt_band \<Rightarrow> bool" for lo hi where
  created: "rt_band_new_inline w h pt hasnodata nodataval data = Inr b \<Longrightarrow> pix_range pt = Some (lo, hi) \<Longrightarrow>
    length data = unat w * unat h * pixtype_bytes pt \<Longrightarrow> int_band_built lo hi b"
| set_pixel: "int_band_built lo hi b \<Longrightarrow> \<bar>i\<bar> < 2 ^ 51 \<Longrightarrow> rt_band_set_pixel b x y (dbl_of_int i) = Inr (b', c) \<Longrightarrow>
    int_band_built lo hi b'"
| set_line: "int_band_built lo hi b \<Longrightarrow> rt_band_set_pixel_line b x y vals len = Inr b' \<Longrightarrow> int_band_built lo hi b'"
| set_nodata: "int_band_built lo hi b \<Longrightarrow> rt_band_set_nodata b v = Inr (b', c) \<Longrightarrow> int_band_built lo hi b'"
| set_hasnodata: "int_band_built lo hi b \<Longrightarrow> int_band_built lo hi (rt_band_set_hasnodata_flag b f)"
| checked: "int_band_built lo hi b \<Longrightarrow> rt_band_check_is_nodata load b = Inr (r, b') \<Longrightarrow> int_band_built lo hi b'"

definition flag_truthful :: "rt_band \<Rightarrow> bool" where
  "flag_truthful b \<longleftrightarrow> (band_isnodata b \<longrightarrow> (\<forall>x y. in_range b x y \<longrightarrow> reads_nodata b x y))"

lemma int_band_set_nodata:
  assumes "band_ok b" "pix_range (band_pixtype b) = Some (lo, hi)" "rt_band_set_nodata b v = Inr (b', c)"
  shows "int_band lo hi (clamp_int lo hi v) b' \<and> \<not> band_isnodata b'"
proof -
  have "lo \<le> hi" using pix_range_bounds [OF assms(2)] by simp
  then show ?thesis
    using assms clamp_int_range [of lo hi v] pix_range_width(1) [OF assms(2), of v]
    by (auto simp: rt_band_set_nodata_def int_band_def band_ok_def Let_def split: if_splits)
qed

lemma int_band_created:
  assumes "rt_band_new_inline w h pt hasnodata nodataval data = Inr b" "pix_range pt = Some (lo, hi)"
    "length data = unat w * unat h * pixtype_bytes pt"
  shows "(\<exists>nd. int_band lo hi nd b) \<and> \<not> band_isnodata b"
proof -
  define b0 where "b0 = \<lparr>band_pixtype = pt, band_width = w, band_height = h, band_hasnodata = hasnodata,
    band_isnodata = False, band_nodataval = 0, band_ownsdata = False, band_data = Mem data\<rparr>"
  note bounds = pix_range_bounds [OF assms(2)]
  have ok: "band_ok b0" "pix_range (band_pixtype b0) = Some (lo, hi)"
    using bounds assms(2,3) by (simp_all add: band_ok_def b0_def)
  have n: "(if hasnodata then bindE (rt_band_set_nodata b0 nodataval) (\<lambda>(b, _). Inr b) else Inr b0) = Inr b"
    using assms(1) unfolding rt_band_new_inline_def Let_def b0_def .
  show ?thesis
  proof (cases hasnodata)
    case True
    with n obtain c where "rt_band_set_nodata b0 nodataval = Inr (b, c)" by (auto simp: bindE_eq_Inr)
    with int_band_set_nodata [OF ok] show ?thesis by blast
  next
    case False
    with n have "b = b0" by simp
    moreover have "int_band lo hi 0 b0" using ok bounds by (simp add: int_band_def b0_def)
    ultimately show ?thesis by (auto simp: b0_def)
  qed
qed

lemma int_band_set_line:
  assumes "int_band lo hi nd b" "rt_band_set_pixel_line b x y vals len = Inr b'"
  shows "int_band lo hi nd b' \<and> \<not> band_isnodata b'"
proof -
  obtain d where d: "band_data b = Mem d" and ok: "band_ok b" using assms(1) by (auto simp: int_band_def band_ok_def)
  obtain size bs d' where w: "mem_write d (pixel_offset b x y * size) bs = Inr d'"
    "b' = (if band_hasnodata b then b\<lparr>band_data := Mem d', band_isnodata := False\<rparr> else b\<lparr>band_data := Mem d'\<rparr>)"
    using assms(2) by (auto simp: rt_band_set_pixel_line_def d bindE_eq_Inr Let_def split: if_splits)
  with ok d length_mem_write [OF w(1)] assms(1) show ?thesis by (auto simp: int_band_def band_ok_def)
qed

lemma flag_not_set: "\<not> band_isnodata b \<Longrightarrow> flag_truthful b"
  by (simp add: flag_truthful_def)

lemma set_pixel_truthful:
  assumes b: "int_band lo hi nd b" "flag_truthful b" and i: "\<bar>i\<bar> < 2 ^ 51"
    and set: "rt_band_set_pixel b x y (dbl_of_int i) = Inr (b', c)"
  shows "int_band lo hi nd b' \<and> flag_truthful b'"
proof -
  have xy: "in_range b x y"
    using set b(1) by (auto simp: rt_band_set_pixel_def int_band_def band_ok_def bindE_eq_Inr Let_def)
  have nd: "\<bar>nd\<bar> < 2 ^ 52" using b(1) int_small by (auto simp: int_band_def)
  show ?thesis
  proof (rule set_pixel_int [OF b(1) xy i])
    fix b1 assume b1: "rt_band_set_pixel b x y (dbl_of_int i) =
        Inr (b1, band_hasnodata b \<and> i \<noteq> nd \<and> max lo (min hi i) = nd \<or>
          int_to_store lo hi nd b i < lo \<or> hi < int_to_store lo hi nd b i)"
      "int_band lo hi nd b1" "band_pixtype b1 = band_pixtype b" "band_width b1 = band_width b" "band_height b1 = band_height b"
      "band_hasnodata b1 = band_hasnodata b"
      "band_isnodata b1 = (band_isnodata b \<and> max lo (min hi (int_to_store lo hi nd b i)) = nd)"
      "stored_value b1 x y = dbl_of_int (max lo (min hi (int_to_store lo hi nd b i)))"
      "\<And>x' y'. in_range b x' y' \<Longrightarrow> (x', y') \<noteq> (x, y) \<Longrightarrow> stored_value b1 x' y' = stored_value b x' y'"
    have "reads_nodata b1 x' y'" if flag: "band_isnodata b1" and xy': "in_range b x' y'" for x' y'
    proof (cases "(x', y') = (x, y)")
      case True
      from flag b1(2) have "band_hasnodata b1" by (simp add: int_band_def band_ok_def)
      with True flag b1(7,8) show ?thesis by (simp add: reads_nodata_def is_nodata_int [OF b1(2) nd])
    next
      case False
      from flag b1(7) b(2) xy' have "reads_nodata b x' y'" by (simp add: flag_truthful_def)
      moreover have "rt_band_clamped_value_is_nodata b1 v = rt_band_clamped_value_is_nodata b v" for v
        using b(1) b1(2,3,6) by (intro is_nodata_cong) (simp_all add: int_band_def)
      ultimately show ?thesis using b1(9) [OF xy' False] by (simp add: reads_nodata_def)
    qed
    moreover have "b1 = b'" using set b1(1) by simp
    ultimately show ?thesis
      using b1(2) band_shape_cong(2) [OF b1(4,5)] unfolding flag_truthful_def by blast
  qed
qed

text \<open>
  C21. In every band of an integer pixel type (1 to 32 bits) that the operations build, with pixels set to integers
  below 2^51 in absolute value, the flag that the band is all NODATA is set only if the band has a NODATA
  value and every pixel really is NODATA, so that the reader, who trusts the flag, never hides a pixel that has a value.
  (Values with a fraction near NODATA are compared before they are truncated, and can leave the flag wrong.)
\<close>

theorem rt_band_isnodata_truthful:
  assumes "int_band_built lo hi b"
  shows "band_ok b \<and> pix_range (band_pixtype b) = Some (lo, hi) \<and>
    (band_isnodata b \<longrightarrow> band_hasnodata b \<and> (\<forall>x y. in_range b x y \<longrightarrow> reads_nodata b x y))"
proof -
  from assms have "(\<exists>nd. int_band lo hi nd b) \<and> flag_truthful b"
  proof induction
    case (created w h pt hasnodata nodataval data b)
    then show ?case using int_band_created flag_not_set by blast
  next
    case (set_pixel b i x y b' c)
    then show ?case using set_pixel_truthful by blast
  next
    case (set_line b x y vals len b')
    then show ?case using int_band_set_line flag_not_set by blast
  next
    case (set_nodata b v b' c)
    then have "band_ok b" "pix_range (band_pixtype b) = Some (lo, hi)" by (auto simp: int_band_def)
    with set_nodata show ?case using int_band_set_nodata flag_not_set by blast
  next
    case (set_hasnodata b f)
    then have "\<exists>nd. int_band lo hi nd (rt_band_set_hasnodata_flag b f)"
      by (auto simp: int_band_def band_ok_def rt_band_set_hasnodata_flag_def)
    moreover have "rt_band_set_hasnodata_flag b f = b" if "band_isnodata (rt_band_set_hasnodata_flag b f)"
      using that set_hasnodata.IH by (auto simp: int_band_def band_ok_def rt_band_set_hasnodata_flag_def)
    ultimately show ?case using set_hasnodata.IH flag_not_set by metis
  next
    case (checked b load r b')
    then have "band_ok b" by (auto simp: int_band_def)
    define f where "f \<longleftrightarrow> band_hasnodata b \<and> (\<forall>x y. in_range b x y \<longrightarrow> reads_nodata b x y)"
    have b': "b' = b\<lparr>band_isnodata := f\<rparr>"
      using checked.hyps(2) unfolding check_is_nodata_all [OF \<open>band_ok b\<close>, of load] Let_def f_def [symmetric] by auto
    have "reads_nodata b' x y = reads_nodata b x y" "in_range b' x y = in_range b x y" for x y
      unfolding b' by (rule isnodata_irrelevant)+
    then show ?case using checked.IH b' by (auto simp: int_band_def band_ok_def flag_truthful_def f_def)
  qed
  then show ?thesis by (auto simp: int_band_def band_ok_def flag_truthful_def)
qed

section \<open>Concrete bands\<close>

text \<open>A band of two bytes and its NODATA value.\<close>

definition two_bytes :: "int \<Rightarrow> byte \<Rightarrow> byte \<Rightarrow> rt_band" where
  "two_bytes nd p q = \<lparr>band_pixtype = PT_8BUI, band_width = 2, band_height = 1, band_hasnodata = True,
     band_isnodata = False, band_nodataval = dbl_of_int nd, band_ownsdata = False, band_data = Mem [p, q]\<rparr>"

lemma two_bytes_ok: "0 \<le> nd \<Longrightarrow> nd \<le> 255 \<Longrightarrow> int_band 0 255 nd (two_bytes nd p q)"
  by (simp add: int_band_def band_ok_def two_bytes_def pixtype_known_def)

lemma two_bytes_range: "in_range (two_bytes nd p q) x y \<longleftrightarrow> (x = 0 \<or> x = 1) \<and> y = 0"
  by (auto simp: in_range_def two_bytes_def)

theorem rt_band_set_get_pixel_witness:
  "(\<exists>b'. rt_band_set_pixel (two_bytes 5 5 7) 1 0 (dbl_of_int 9) = Inr (b', False) \<and>
    rt_band_get_pixel (\<lambda>_. None) b' 1 0 = Inr (Some (dbl_of_int 9, False), b')) \<and>
   (\<exists>b'. rt_band_set_pixel (two_bytes 5 5 7) 1 0 (dbl_of_int 300) = Inr (b', True) \<and>
    rt_band_get_pixel (\<lambda>_. None) b' 1 0 = Inr (Some (dbl_of_int 255, False), b'))"
  using rt_band_set_get_pixel [OF two_bytes_ok, of 5 5 7 1 0 9 "\<lambda>_. None"]
    rt_band_set_get_pixel [OF two_bytes_ok, of 5 5 7 1 0 300 "\<lambda>_. None"] by (auto simp: two_bytes_range)

theorem rt_band_set_pixel_beyond_nodata_witness:
  "\<exists>b'. rt_band_set_pixel (two_bytes 255 5 7) 1 0 (dbl_of_int 300) = Inr (b', True) \<and>
    rt_band_get_pixel (\<lambda>_. None) b' 1 0 = Inr (Some (dbl_of_int 255, True), b')"
proof -
  have "band_hasnodata (two_bytes 255 5 7)" "band_pixtype (two_bytes 255 5 7) \<noteq> PT_1BB"
    by (simp_all add: two_bytes_def)
  then show ?thesis
    using rt_band_set_pixel_beyond_nodata [OF two_bytes_ok, of 255 5 7 1 0 300 "\<lambda>_. None"]
    by (simp add: two_bytes_range)
qed

theorem rt_band_check_is_nodata_correct_witness:
  "\<exists>r. rt_band_check_is_nodata (\<lambda>_. None) (two_bytes 5 5 7) = Inr (r, (two_bytes 5 5 7)\<lparr>band_isnodata := r\<rparr>)"
proof -
  have "band_ok (two_bytes 5 5 7)" using two_bytes_ok [of 5 5 7] by (simp add: int_band_def)
  from rt_band_check_is_nodata_correct [OF this, of "\<lambda>_. None"] show ?thesis unfolding Let_def by blast
qed

theorem rt_band_isnodata_truthful_witness:
  "\<exists>b. int_band_built 0 255 b \<and> band_isnodata b \<and> band_hasnodata b \<and> reads_nodata b 0 0"
proof -
  let ?b = "two_bytes 5 5 5"
  have nd: "nodata_value PT_8BUI (dbl_of_int 5) = dbl_of_int 5"
    using pix_range_width(1) [of PT_8BUI 0 255 "dbl_of_int 5"] by (simp add: clamp_int_int)
  have "rt_band_new_inline 2 1 PT_8BUI True (dbl_of_int 5) [5, 5] = Inr ?b"
    using nd by (simp add: rt_band_new_inline_def rt_band_set_nodata_def Let_def pixtype_known_def two_bytes_def)
  then have built: "int_band_built 0 255 ?b" by (rule int_band_built.created) simp_all
  have ib: "int_band 0 255 5 ?b" by (rule two_bytes_ok) simp_all
  then have ok: "band_ok ?b" by (simp add: int_band_def)
  have has: "band_hasnodata ?b" by (simp add: two_bytes_def)
  have "stored_value ?b 0 0 = dbl_of_int 5" "stored_value ?b 1 0 = dbl_of_int 5"
    by (simp_all add: stored_value_def stored_bytes_def two_bytes_def pixel_offset_def Let_def)
  then have "reads_nodata ?b 0 0" "reads_nodata ?b 1 0"
    using has by (simp_all add: reads_nodata_def is_nodata_int [OF ib])
  then have "band_hasnodata ?b \<and> (\<forall>x y. in_range ?b x y \<longrightarrow> reads_nodata ?b x y)"
    using has by (auto simp: two_bytes_range)
  then have "rt_band_check_is_nodata (\<lambda>_. None) ?b = Inr (True, ?b\<lparr>band_isnodata := True\<rparr>)"
    unfolding check_is_nodata_all [OF ok] Let_def by simp
  with built have "int_band_built 0 255 (?b\<lparr>band_isnodata := True\<rparr>)" by (rule int_band_built.checked)
  with rt_band_isnodata_truthful [OF this] show ?thesis
    by (intro exI [of _ "?b\<lparr>band_isnodata := True\<rparr>"]) (simp add: in_range_def two_bytes_def)
qed

end
