(* ===== verification/RasterCodec.thy ===== *)
theory RasterCodec
  imports RasterBand LWTypes
begin

text \<open>
  What the two binary forms of a raster share (raster/rt_core/rt_serialize.h,
  rt_serialize.c, rt_wkb.c): the raster with its header, the byte that describes a band,
  and the NODATA value in the representation of the pixel type.

  The main result here is that a NODATA value which \<open>rt_band_set_nodata\<close> stored survives
  being written and read, for every pixel type and every value, NaN and half precision
  included.
\<close>

section \<open>The raster\<close>

text \<open>\<open>rt_raster_t\<close>; the header is the part up to the height. The host is little endian.\<close>

record rt_raster =
  rast_size :: u32
  rast_version :: u16
  numBands :: u16
  scaleX :: double
  scaleY :: double
  ipX :: double
  ipY :: double
  skewX :: double
  skewY :: double
  rast_srid :: u32
  rast_width :: u16
  rast_height :: u16
  bands :: "rt_band list"

text \<open>The header from \<open>numBands\<close> on, as the struct lies in memory.\<close>

definition header_tail :: "rt_raster \<Rightarrow> byte list" where
  "header_tail r = le_bytes 2 (numBands r) @ le_bytes 8 (scaleX r) @ le_bytes 8 (scaleY r) @ le_bytes 8 (ipX r) @
     le_bytes 8 (ipY r) @ le_bytes 8 (skewX r) @ le_bytes 8 (skewY r) @ le_bytes 4 (rast_srid r) @
     le_bytes 2 (rast_width r) @ le_bytes 2 (rast_height r)"

definition header_bytes :: "rt_raster \<Rightarrow> byte list" where
  "header_bytes r = le_bytes 4 (rast_size r) @ le_bytes 2 (rast_version r) @ header_tail r"

lemma length_header [simp]: "length (header_tail r) = 58" "length (header_bytes r) = 64"
  by (simp_all add: header_tail_def header_bytes_def)

text \<open>The array of bands, as long as \<open>numBands\<close> says.\<close>

definition rast_bands :: "rt_raster \<Rightarrow> lwerr + rt_band list" where
  "rast_bands r = (if unat (numBands r) \<le> length (bands r) then Inr (take (unat (numBands r)) (bands r)) else Inl MemFault)"

section \<open>The byte that describes a band\<close>

abbreviation BANDTYPE_PIXTYPE_MASK :: byte where "BANDTYPE_PIXTYPE_MASK \<equiv> 0x0F"
abbreviation BANDTYPE_FLAG_OFFDB :: byte where "BANDTYPE_FLAG_OFFDB \<equiv> 0x80"
abbreviation BANDTYPE_FLAG_HASNODATA :: byte where "BANDTYPE_FLAG_HASNODATA \<equiv> 0x40"
abbreviation BANDTYPE_FLAG_ISNODATA :: byte where "BANDTYPE_FLAG_ISNODATA \<equiv> 0x20"

definition band_type_byte :: "rt_pixtype \<Rightarrow> bool \<Rightarrow> bool \<Rightarrow> bool \<Rightarrow> byte" where
  "band_type_byte pixtype offline hasnodata isnodata =
     (let p = pixtype_code pixtype;
          p = (if offline then p OR BANDTYPE_FLAG_OFFDB else p);
          p = (if hasnodata then p OR BANDTYPE_FLAG_HASNODATA else p)
      in if isnodata then p OR BANDTYPE_FLAG_ISNODATA else p)"

lemma band_type_byte_fields:
  assumes "pixtype_known pt"
  shows "pixtype_of_code (band_type_byte pt off hnd ind AND BANDTYPE_PIXTYPE_MASK) = pt"
    "band_type_byte pt off hnd ind AND BANDTYPE_PIXTYPE_MASK < 13"
    "has_bits (band_type_byte pt off hnd ind) BANDTYPE_FLAG_OFFDB = off"
    "has_bits (band_type_byte pt off hnd ind) BANDTYPE_FLAG_HASNODATA = hnd"
    "has_bits (band_type_byte pt off hnd ind) BANDTYPE_FLAG_ISNODATA = ind"
  using assms
  by (cases pt; cases off; cases hnd; cases ind;
      simp add: band_type_byte_def Let_def has_bits_def pixtype_of_code_def pixtype_table_def pixtype_known_def)+

section \<open>The NODATA value\<close>

text \<open>A double converted to the type of the pixels, without clamping.\<close>

fun nodata_bytes :: "rt_pixtype \<Rightarrow> double \<Rightarrow> byte list" where
  "nodata_bytes PT_16BSI nd = le_bytes 2 (of_int (dbl_trunc nd) :: u16)"
| "nodata_bytes PT_16BUI nd = le_bytes 2 (of_int (dbl_trunc nd) :: u16)"
| "nodata_bytes PT_32BSI nd = le_bytes 4 (of_int (dbl_trunc nd) :: u32)"
| "nodata_bytes PT_32BUI nd = le_bytes 4 (of_int (dbl_trunc nd) :: u32)"
| "nodata_bytes PT_16BF nd = le_bytes 2 (rt_util_float_to_float16 (float_of_dbl nd))"
| "nodata_bytes PT_32BF nd = le_bytes 4 (float_of_dbl nd)"
| "nodata_bytes PT_64BF nd = le_bytes 8 nd"
| "nodata_bytes PT_unnamed nd = []"
| "nodata_bytes PT_END nd = []"
| "nodata_bytes pt nd = [of_int (dbl_trunc nd)]"

text \<open>The bytes of a value in the order of the host.\<close>

fun nodata_read :: "rt_pixtype \<Rightarrow> byte list \<Rightarrow> double" where
  "nodata_read PT_1BB bs = dbl_of_int (uint ((le_word bs :: byte) AND 0x01))"
| "nodata_read PT_2BUI bs = dbl_of_int (uint ((le_word bs :: byte) AND 0x03))"
| "nodata_read PT_4BUI bs = dbl_of_int (uint ((le_word bs :: byte) AND 0x0F))"
| "nodata_read PT_8BSI bs = dbl_of_int (sint (le_word bs :: byte))"
| "nodata_read PT_8BUI bs = dbl_of_int (uint (le_word bs :: byte))"
| "nodata_read PT_16BSI bs = dbl_of_int (sint (le_word bs :: u16))"
| "nodata_read PT_16BUI bs = dbl_of_int (uint (le_word bs :: u16))"
| "nodata_read PT_32BSI bs = dbl_of_int (sint (le_word bs :: u32))"
| "nodata_read PT_32BUI bs = dbl_of_int (uint (le_word bs :: u32))"
| "nodata_read PT_16BF bs = dbl_of_float (rt_util_float16_to_float (le_word bs))"
| "nodata_read PT_32BF bs = dbl_of_float (le_word bs)"
| "nodata_read PT_64BF bs = le_word bs"
| "nodata_read pt bs = 0"

lemma length_nodata_bytes [simp]: "length (nodata_bytes pt nd) = pixtype_bytes pt"
  by (cases pt) simp_all

text \<open>What \<open>rt_band_set_nodata\<close> stored survives being written and read.\<close>

lemma nodata_roundtrip: "pixtype_known pt \<Longrightarrow> nodata_read pt (nodata_bytes pt (nodata_value pt v)) = nodata_value pt v"
proof (cases "pix_range pt")
  case (Some r)
  then obtain lo hi where r: "pix_range pt = Some (lo, hi)" by (cases r) auto
  define c where "c = clamp_int lo hi v"
  have c: "lo \<le> c" "c \<le> hi"
    using clamp_int_range [of lo hi v] pix_range_bounds [OF r] by (simp_all add: c_def)
  have "\<bar>c\<bar> < 2 ^ 53" using int_small [OF r c] by simp
  then have tr: "dbl_trunc (dbl_of_int c) = c" by (rule dbl_trunc_of_int)
  have masks: "0 \<le> c \<Longrightarrow> c \<le> 1 \<Longrightarrow> uint ((of_int c :: byte) AND 1) = c"
    "0 \<le> c \<Longrightarrow> c \<le> 3 \<Longrightarrow> uint ((of_int c :: byte) AND 3) = c" "0 \<le> c \<Longrightarrow> c \<le> 15 \<Longrightarrow> uint ((of_int c :: byte) AND 15) = c"
  proof -
    have m: "(3 :: byte) = mask 2" "(15 :: byte) = mask 4" by (simp_all add: mask_eq_exp_minus_1)
    have "c = 0 \<or> c = 1" if "0 \<le> c" "c \<le> 1" using that by auto
    then show "0 \<le> c \<Longrightarrow> c \<le> 1 \<Longrightarrow> uint ((of_int c :: byte) AND 1) = c" by auto
    show "0 \<le> c \<Longrightarrow> c \<le> 3 \<Longrightarrow> uint ((of_int c :: byte) AND 3) = c"
      unfolding m take_bit_eq_mask [symmetric] by (simp only: unsigned_take_bit_eq) (simp add: uint_of_int take_bit_int_eq_self)
    show "0 \<le> c \<Longrightarrow> c \<le> 15 \<Longrightarrow> uint ((of_int c :: byte) AND 15) = c"
      unfolding m take_bit_eq_mask [symmetric] by (simp only: unsigned_take_bit_eq) (simp add: uint_of_int take_bit_int_eq_self)
  qed
  show ?thesis
    unfolding pix_range_width(1) [OF r] c_def [symmetric]
    using r c masks tr
    by (cases pt) (auto simp: uint_of_int sint_of_int le_word_le_bytes_full)
next
  case None
  assume "pixtype_known pt"
  then consider "pt = PT_16BF" | "pt = PT_32BF" | "pt = PT_64BF"
    using None by (cases pt) (simp_all add: pixtype_known_def)
  then show ?thesis
    by cases (simp_all add: le_word_le_bytes_full float_of_dbl_idem float16_of_dbl_idem rt_util_clamp_to_32F_def)
qed

definition nodata_fits :: "rt_pixtype \<Rightarrow> double \<Rightarrow> bool" where
  "nodata_fits pt nd \<longleftrightarrow> nodata_read pt (nodata_bytes pt nd) = nd"

lemma nodata_fits_value [simp]: "pixtype_known pt \<Longrightarrow> nodata_fits pt (nodata_value pt v)"
  by (simp add: nodata_fits_def nodata_roundtrip)

lemma nodata_fits_0 [simp]: "pixtype_known pt \<Longrightarrow> nodata_fits pt 0"
proof -
  assume "pixtype_known pt"
  moreover have "dbl_trunc 0 = 0" using dbl_trunc_of_int [of 0] by simp
  moreover have "float_of_dbl 0 = 0" by (simp add: float_of_dbl_def flt_pack_def mag_narrow_def round_quot_def dbl_neg_def)
  moreover have "dbl_of_float 0 = 0" by (simp add: dbl_of_float_def flt_mag_def flt_neg_def dbl_pack_def)
  moreover have "rt_util_float16_to_float (rt_util_float_to_float16 0) = 0"
    by (simp add: rt_util_float_to_float16_def rt_util_float16_to_float_def Let_def)
  ultimately show ?thesis
    by (cases pt) (simp_all add: nodata_fits_def pixtype_known_def le_word_le_bytes_full)
qed

end
