(* ===== verification/RasterSerial.thy ===== *)
theory RasterSerial
  imports RasterCodec
begin

text \<open>
  The form in which a raster is stored in a column (raster/rt_core/rt_serialize.c):
  the computation of its size, the writer and the reader.

  The writer fills a block of the computed size; its position is the number of bytes written
  so far and a write past the end is \<^term>\<open>MemFault\<close>. The size is a \<open>uint32_t\<close>: the
  statements about the writer are for rasters whose size fits, and the last one shows what
  happens to a larger one. The reader has no bounds: it reads memory wherever the header
  says. The assertions of the code are steps that can fail.
\<close>

section \<open>Size\<close>

definition unpadded_size :: "rt_raster \<Rightarrow> rt_band \<Rightarrow> nat \<Rightarrow> u32 \<Rightarrow> u32" where
  "unpadded_size r b pixbytes sz0 =
     (let sz1 = sz0 + of_nat pixbytes + of_nat pixbytes
      in case band_data b of
           Offline n p m \<Rightarrow> sz1 + 1 + of_nat (length p + 1)
         | Mem d \<Rightarrow> sz1 + of_nat pixbytes * ucast (rast_width r) * ucast (rast_height r))"

definition add_band_size :: "rt_raster \<Rightarrow> rt_band \<Rightarrow> u32 \<Rightarrow> lwerr + u32" where
  "add_band_size r b sz0 =
     bindE (rt_pixtype_size (band_pixtype b)) (\<lambda>pixbytes.
     let sz = unpadded_size r b pixbytes sz0 in Inr (if sz mod 8 \<noteq> 0 then sz + (8 - sz mod 8) else sz))"

fun bands_size :: "rt_raster \<Rightarrow> rt_band list \<Rightarrow> u32 \<Rightarrow> lwerr + u32" where
  "bands_size r [] sz = Inr sz"
| "bands_size r (b # bs) sz = bindE (add_band_size r b sz) (bands_size r bs)"

definition rt_raster_serialized_size :: "rt_raster \<Rightarrow> lwerr + u32" where
  "rt_raster_serialized_size r = bindE (rast_bands r) (\<lambda>bs. bands_size r bs 64)"

section \<open>Writer\<close>

text \<open>The bytes written so far, followed by more, in a block of a given size.\<close>

definition put :: "nat \<Rightarrow> byte list \<Rightarrow> byte list \<Rightarrow> lwerr + byte list" where
  "put sz ret bs = (if length ret + length bs \<le> sz then Inr (ret @ bs) else Inl MemFault)"

text \<open>Zeros up to the next multiple of 8.\<close>

definition pad8 :: "nat \<Rightarrow> nat" where
  "pad8 n = (8 - n mod 8) mod 8"

text \<open>
  The product is of type \<open>int\<close> in the writer and kept in \<open>uint32_t\<close>: from 2^31 bytes of pixels on it is undefined in C,
  and here it wraps, as it does on the machines that PostGIS is built for.
\<close>

definition data_size :: "rt_raster \<Rightarrow> nat \<Rightarrow> u32" where
  "data_size r pixbytes = ucast (rast_width r) * ucast (rast_height r) * of_nat pixbytes"

definition serialize_band :: "rt_raster \<Rightarrow> nat \<Rightarrow> rt_band \<Rightarrow> byte list \<Rightarrow> lwerr + byte list" where
  "serialize_band r sz b ret =
     bindE (rt_pixtype_size (band_pixtype b)) (\<lambda>pixbytes.
     bindE (put sz ret [band_type_byte (band_pixtype b) (band_offline b) (band_hasnodata b) (band_isnodata b)]) (\<lambda>ret.
     bindE (put sz ret (replicate (pixbytes - 1) 0)) (\<lambda>ret.
     bindE (require (length ret mod pixbytes = 0) ''assertion'') (\<lambda>_.
     bindE (put sz ret (nodata_bytes (band_pixtype b) (band_nodataval b))) (\<lambda>ret.
     bindE (require (length ret mod pixbytes = 0) ''assertion'') (\<lambda>_.
     bindE (case band_data b of
              Offline n p m \<Rightarrow> bindE (put sz ret [n]) (\<lambda>ret. put sz ret (p @ [0]))
            | Mem d \<Rightarrow> bindE (mem_at d 0 (unat (data_size r pixbytes))) (put sz ret)) (\<lambda>ret.
     bindE (put sz ret (replicate (pad8 (length ret)) 0)) (\<lambda>ret.
     bindE (require (length ret mod pixbytes = 0) ''assertion'') (\<lambda>_. Inr ret)))))))))"

fun serialize_bands :: "rt_raster \<Rightarrow> nat \<Rightarrow> rt_band list \<Rightarrow> byte list \<Rightarrow> lwerr + byte list" where
  "serialize_bands r sz [] ret = Inr ret"
| "serialize_bands r sz (b # bs) ret = bindE (serialize_band r sz b ret) (serialize_bands r sz bs)"

text \<open>The block is filled with \<open>'-'\<close> first; the raster itself gets its size and version.\<close>

definition rt_raster_serialize :: "rt_raster \<Rightarrow> lwerr + (byte list \<times> rt_raster)" where
  "rt_raster_serialize r0 =
     bindE (rt_raster_serialized_size r0) (\<lambda>sz.
     let r = r0\<lparr>rast_size := sz, rast_version := 0\<rparr> in
     bindE (put (unat sz) [] (header_bytes r)) (\<lambda>ret.
     bindE (rast_bands r) (\<lambda>bs.
     bindE (serialize_bands r (unat sz) bs ret) (\<lambda>ret.
     Inr (ret @ replicate (unat sz - length ret) 0x2D, r)))))"

section \<open>Reader\<close>

definition header_of :: "byte list \<Rightarrow> rt_raster" where
  "header_of s = \<lparr>rast_size = le_word (take 4 s), rast_version = le_word (take 2 (drop 4 s)),
     numBands = le_word (take 2 (drop 6 s)), scaleX = le_word (take 8 (drop 8 s)), scaleY = le_word (take 8 (drop 16 s)),
     ipX = le_word (take 8 (drop 24 s)), ipY = le_word (take 8 (drop 32 s)), skewX = le_word (take 8 (drop 40 s)),
     skewY = le_word (take 8 (drop 48 s)), rast_srid = le_word (take 4 (drop 56 s)),
     rast_width = le_word (take 2 (drop 60 s)), rast_height = le_word (take 2 (drop 62 s)), bands = []\<rparr>"

text \<open>\<open>strlen\<close>: the length of the string that starts a stretch of memory.\<close>

fun c_strlen :: "byte list \<Rightarrow> lwerr + nat" where
  "c_strlen [] = Inl MemFault"
| "c_strlen (c # cs) = (if c = 0 then Inr 0 else bindE (c_strlen cs) (\<lambda>n. Inr (Suc n)))"

text \<open>
  One band at position \<open>ptr\<close>. The pixels are not copied: the band points into the serialized
  raster, and has the bytes there that exist.
\<close>

definition deserialize_band :: "rt_raster \<Rightarrow> byte list \<Rightarrow> nat \<Rightarrow> lwerr + (rt_band \<times> nat)" where
  "deserialize_band r s ptr0 =
     bindE (mem_at s ptr0 1) (\<lambda>t.
     let type = le_word t :: byte;
         pixtype = pixtype_of_code (type AND BANDTYPE_PIXTYPE_MASK);
         offline = has_bits type BANDTYPE_FLAG_OFFDB;
         hasnodata = has_bits type BANDTYPE_FLAG_HASNODATA;
         isnodata = (if hasnodata then has_bits type BANDTYPE_FLAG_ISNODATA else False) in
     bindE (rt_pixtype_size pixtype) (\<lambda>pixbytes.
     let ptr = ptr0 + 1 + (pixbytes - 1) in
     bindE (mem_at s ptr pixbytes) (\<lambda>nd.
     let ptr = ptr + pixbytes in
     bindE (require (ptr mod pixbytes = 0) ''assertion'') (\<lambda>_.
     bindE (if offline then
              bindE (mem_at s ptr 1) (\<lambda>n.
              bindE (c_strlen (drop (ptr + 1) s)) (\<lambda>pathlen.
              Inr (Offline (le_word n) (take pathlen (drop (ptr + 1) s)) None, ptr + 1 + pathlen + 1)))
            else let datasize = unat (data_size r pixbytes)
                 in Inr (Mem (take datasize (drop ptr s)), ptr + datasize)) (\<lambda>(d, ptr).
     let ptr = ptr + pad8 ptr in
     bindE (require (ptr mod pixbytes = 0) ''assertion'') (\<lambda>_.
     Inr (\<lparr>band_pixtype = pixtype, band_width = rast_width r, band_height = rast_height r, band_hasnodata = hasnodata,
           band_isnodata = isnodata, band_nodataval = nodata_read pixtype nd, band_ownsdata = False, band_data = d\<rparr>,
          ptr)))))))"

fun deserialize_bands :: "rt_raster \<Rightarrow> byte list \<Rightarrow> nat \<Rightarrow> nat \<Rightarrow> lwerr + rt_band list" where
  "deserialize_bands r s 0 ptr = Inr []"
| "deserialize_bands r s (Suc n) ptr =
     bindE (deserialize_band r s ptr) (\<lambda>(b, ptr).
     bindE (deserialize_bands r s n ptr) (\<lambda>bs. Inr (b # bs)))"

definition rt_raster_deserialize :: "byte list \<Rightarrow> bool \<Rightarrow> lwerr + rt_raster" where
  "rt_raster_deserialize s header_only =
     bindE (mem_at s 0 64) (\<lambda>h.
     let r = header_of h in
     if numBands r = 0 \<or> header_only then Inr r
     else bindE (deserialize_bands r s (unat (numBands r)) 64) (\<lambda>bs. Inr (r\<lparr>bands := bs\<rparr>)))"

section \<open>The size is exact\<close>

text \<open>The sizes as numbers.\<close>

definition band_size :: "rt_raster \<Rightarrow> rt_band \<Rightarrow> nat" where
  "band_size r b = 2 * pixtype_bytes (band_pixtype b) +
     (case band_data b of
        Offline n p m \<Rightarrow> length p + 2
      | Mem d \<Rightarrow> unat (rast_width r) * unat (rast_height r) * pixtype_bytes (band_pixtype b))"

definition padded :: "nat \<Rightarrow> nat" where
  "padded n = n + pad8 n"

fun total_size :: "rt_raster \<Rightarrow> rt_band list \<Rightarrow> nat \<Rightarrow> nat" where
  "total_size r [] sz = sz"
| "total_size r (b # bs) sz = total_size r bs (padded (sz + band_size r b))"

lemma padded_mod [simp]: "padded n mod 8 = 0"
proof (cases "n mod 8 = 0")
  case False
  then have "pad8 n = 8 - n mod 8" by (simp add: pad8_def)
  moreover have "n + (8 - n mod 8) = 8 * (n div 8 + 1)"
    using mod_less_divisor [of 8 n] mult_div_mod_eq [of 8 n] by arith
  ultimately have "padded n = 8 * (n div 8 + 1)" by (simp add: padded_def)
  then show ?thesis by simp
qed (simp add: padded_def pad8_def)

lemma padded_le: "n \<le> padded n" "padded n \<le> n + 7"
  using mod_less_divisor [of 8 "8 - n mod 8"] by (simp_all add: padded_def pad8_def)

lemma total_size_ge: "sz \<le> total_size r bs sz"
proof (induction bs arbitrary: sz)
  case (Cons b bs)
  have "sz \<le> padded (sz + band_size r b)" using padded_le(1) [of "sz + band_size r b"] by simp
  also have "\<dots> \<le> total_size r (b # bs) sz" using Cons.IH by simp
  finally show ?case .
qed simp

lemma of_nat_mod8: "(of_nat n :: u32) mod 8 = of_nat (n mod 8)"
proof -
  have "n mod 2 ^ 32 mod 8 = n mod 8" by (simp add: mod_mod_cancel)
  then have "unat ((of_nat n :: u32) mod 8) = n mod 8" by (simp add: unat_mod unat_of_nat)
  then show ?thesis by (metis of_nat_unat ucast_id)
qed

lemma add_band_size_exact:
  assumes "pixtype_known (band_pixtype b)"
  shows "add_band_size r b (of_nat n) = Inr (of_nat (padded (n + band_size r b)))"
proof -
  have u: "unpadded_size r b (pixtype_bytes (band_pixtype b)) (of_nat n) = of_nat (n + band_size r b)"
    by (simp add: unpadded_size_def band_size_def algebra_simps split: band_data.split)
  have "(if x mod 8 \<noteq> 0 then x + (8 - x mod 8) else x) = of_nat (padded m)" if x: "x = (of_nat m :: u32)" for x m
  proof -
    have "of_nat (m mod 8) = (0 :: u32) \<longleftrightarrow> m mod 8 = 0"
      using unat_of_nat [of "m mod 8", where 'a = 32] by (auto simp: word_unat_eq_iff)
    moreover have "m mod 8 \<le> 8" by (simp add: less_imp_le)
    ultimately show ?thesis unfolding x of_nat_mod8 by (simp add: padded_def pad8_def of_nat_diff)
  qed
  from this [OF u] show ?thesis
    using assms unfolding add_band_size_def rt_pixtype_size_def Let_def by simp
qed

lemma bands_size_exact:
  assumes "\<forall>b \<in> set bs. pixtype_known (band_pixtype b)"
  shows "bands_size r bs (of_nat n) = Inr (of_nat (total_size r bs n))"
  using assms by (induction bs arbitrary: n) (simp_all add: add_band_size_exact)

section \<open>What is written\<close>

text \<open>A band of a raster: of its size, with pixels and NODATA value of its type, or a path.\<close>

definition raster_band_ok :: "rt_raster \<Rightarrow> rt_band \<Rightarrow> bool" where
  "raster_band_ok r b \<longleftrightarrow>
     pixtype_known (band_pixtype b) \<and> (band_isnodata b \<longrightarrow> band_hasnodata b) \<and>
     nodata_fits (band_pixtype b) (band_nodataval b) \<and>
     band_width b = rast_width r \<and> band_height b = rast_height r \<and>
     (case band_data b of
        Offline n p m \<Rightarrow> 0 \<notin> set p
      | Mem d \<Rightarrow> length d = unat (rast_width r) * unat (rast_height r) * pixtype_bytes (band_pixtype b))"

definition raster_ok :: "rt_raster \<Rightarrow> bool" where
  "raster_ok r \<longleftrightarrow> unat (numBands r) = length (bands r) \<and> (\<forall>b \<in> set (bands r). raster_band_ok r b)"

fun data_bytes :: "band_data \<Rightarrow> byte list" where
  "data_bytes (Offline n p m) = n # p @ [0]"
| "data_bytes (Mem d) = d"

definition band_image :: "rt_band \<Rightarrow> byte list" where
  "band_image b =
     band_type_byte (band_pixtype b) (band_offline b) (band_hasnodata b) (band_isnodata b) #
     replicate (pixtype_bytes (band_pixtype b) - 1) 0 @ nodata_bytes (band_pixtype b) (band_nodataval b) @
     data_bytes (band_data b)"

definition padded_image :: "rt_band \<Rightarrow> byte list" where
  "padded_image b = band_image b @ replicate (pad8 (length (band_image b))) 0"

lemma length_band_image: "raster_band_ok r b \<Longrightarrow> length (band_image b) = band_size r b"
  using pixtype_bytes_pos [of "band_pixtype b"]
  by (auto simp: raster_band_ok_def band_image_def band_size_def split: band_data.splits)

lemma length_padded_image: "raster_band_ok r b \<Longrightarrow> length (padded_image b) = padded (band_size r b)"
  by (simp add: padded_image_def padded_def length_band_image)

lemma pad8_add: "n mod 8 = 0 \<Longrightarrow> pad8 (n + m) = pad8 m" "n mod 8 = 0 \<Longrightarrow> padded (n + m) = n + padded m"
proof -
  assume "n mod 8 = 0"
  then have "(n + m) mod 8 = m mod 8" by (metis add_0 mod_add_left_eq)
  then show "pad8 (n + m) = pad8 m" by (simp add: pad8_def)
  then show "padded (n + m) = n + padded m" by (simp add: padded_def)
qed

lemma total_size_image:
  assumes "\<forall>b \<in> set bs. raster_band_ok r b" "n mod 8 = 0"
  shows "total_size r bs n = n + length (concat (map padded_image bs))"
  using assms
proof (induction bs arbitrary: n)
  case (Cons b bs)
  have "total_size r (b # bs) n = total_size r bs (n + padded (band_size r b))"
    using Cons.prems(2) by (simp add: pad8_add)
  also have "\<dots> = n + padded (band_size r b) + length (concat (map padded_image bs))"
    using Cons.prems by (intro Cons.IH) (simp_all add: mod_add_eq [symmetric, of n "padded (band_size r b)"])
  finally show ?case using Cons.prems(1) by (simp add: length_padded_image [of r b])
qed simp

lemma aligned: "pixtype_known pt \<Longrightarrow> n mod 8 = 0 \<Longrightarrow> n mod pixtype_bytes pt = 0"
proof -
  assume "pixtype_known pt" "n mod 8 = 0"
  moreover from this have "pixtype_bytes pt dvd 8" by (cases pt) (simp_all add: pixtype_known_def)
  ultimately show ?thesis by (metis dvd_imp_mod_0 dvd_trans mod_0_imp_dvd)
qed

lemma data_size_exact:
  assumes "unat (rast_width r) * unat (rast_height r) * n < 2 ^ 32"
  shows "unat (data_size r n) = unat (rast_width r) * unat (rast_height r) * n"
proof -
  have "data_size r n = of_nat (unat (rast_width r) * unat (rast_height r) * n)" by (simp add: data_size_def)
  then show ?thesis using assms by (simp only:) (subst unat_of_nat, simp)
qed

lemma put_ok: "length ret + length bs \<le> sz \<Longrightarrow> put sz ret bs = Inr (ret @ bs)"
  by (simp add: put_def)

text \<open>Writing one thing after another is writing them together; what holds after it may be required.\<close>

lemma put_put: "bindE (put sz ret a) (\<lambda>ret. bindE (put sz ret (g ret)) f) = bindE (put sz ret (a @ g (ret @ a))) f"
  by (simp add: put_def)

lemma put_require:
  "c (ret @ a) \<Longrightarrow> bindE (put sz ret a) (\<lambda>ret. bindE (require (c ret) m) (\<lambda>_. f ret)) = bindE (put sz ret a) f"
  by (simp add: put_def)

lemma put_Inr: "bindE (put sz ret a) Inr = put sz ret a"
  by (simp add: put_def)

text \<open>The data of a band, written whole or running into the end of the block.\<close>

lemma write_data:
  assumes "raster_band_ok r b" "case band_data b of Mem d \<Rightarrow> length d < 2 ^ 32 | Offline n p m \<Rightarrow> True"
  shows "(case band_data b of
            Offline n p m \<Rightarrow> bindE (put sz ret [n]) (\<lambda>ret. put sz ret (p @ [0]))
          | Mem d \<Rightarrow> bindE (mem_at d 0 (unat (data_size r (pixtype_bytes (band_pixtype b))))) (put sz ret)) =
    put sz ret (data_bytes (band_data b))"
proof (cases "band_data b")
  case (Mem d)
  with assms have "unat (data_size r (pixtype_bytes (band_pixtype b))) = length d"
    by (subst data_size_exact) (simp_all add: raster_band_ok_def)
  with Mem show ?thesis by (simp add: mem_at_ok)
qed (simp add: put_def)

text \<open>A band writes its image, or faults when the block is too small for it.\<close>

lemma serialize_band_exact:
  assumes ok: "raster_band_ok r b" and small: "case band_data b of Mem d \<Rightarrow> length d < 2 ^ 32 | Offline n p m \<Rightarrow> True"
    and al: "length ret mod 8 = 0"
  shows "serialize_band r sz b ret = put sz ret (padded_image b)"
proof -
  let ?pt = "band_pixtype b"
  have known: "pixtype_known ?pt" using ok by (simp add: raster_band_ok_def)
  have pos: "0 < pixtype_bytes ?pt" by (rule pixtype_bytes_pos [OF known])
  have al0: "length ret mod pixtype_bytes ?pt = 0" by (rule aligned [OF known al])
  have len: "length (padded_image b) = padded (length (band_image b))" by (simp add: padded_image_def padded_def)
  have al2: "(length ret + length (padded_image b)) mod pixtype_bytes ?pt = 0"
    using al by (intro aligned [OF known]) (simp add: len mod_add_eq [symmetric])
  let ?t = "[band_type_byte ?pt (band_offline b) (band_hasnodata b) (band_isnodata b)]"
  let ?z = "replicate (pixtype_bytes ?pt - 1) 0" and ?nd = "nodata_bytes ?pt (band_nodataval b)"
  let ?d = "data_bytes (band_data b)" and ?al = "\<lambda>ret. length ret mod pixtype_bytes ?pt = 0"
  have 1: "?al (ret @ (?t @ ?z))" "?al (ret @ ((?t @ ?z) @ ?nd))" using al0 pos by (simp_all add: mod_add_eq [symmetric])
  have img: "band_image b = ((?t @ ?z) @ ?nd) @ ?d" by (simp add: band_image_def)
  have "?al (ret @ (band_image b @ replicate (pad8 (length (ret @ band_image b))) 0))"
    using al2 by (simp add: padded_image_def pad8_add(1) [OF al])
  note 2 = this [unfolded img]
  have "serialize_band r sz b ret =
      put sz ret ((((?t @ ?z) @ ?nd) @ ?d) @ replicate (pad8 (length (ret @ (((?t @ ?z) @ ?nd) @ ?d)))) 0)"
    unfolding serialize_band_def rt_pixtype_size_def if_P [OF known] bindE_Inr write_data [OF ok small]
    unfolding put_put put_require [of ?al, OF 1(1)] put_require [of ?al, OF 1(2)]
    using 2 by (simp add: put_def)
  then show ?thesis unfolding img [symmetric] padded_image_def by (simp add: pad8_add(1) [OF al])
qed

definition data_fits :: "rt_band \<Rightarrow> bool" where
  "data_fits b \<longleftrightarrow> (case band_data b of Mem d \<Rightarrow> length d < 2 ^ 32 | Offline n p m \<Rightarrow> True)"

lemma padded_image_aligned [simp]: "length (padded_image b) mod 8 = 0"
  using padded_mod [of "length (band_image b)"] by (simp add: padded_image_def padded_def)

lemma serialize_bands_exact:
  assumes "\<forall>b \<in> set bs. raster_band_ok r b \<and> data_fits b" "length ret mod 8 = 0"
  shows "serialize_bands r sz bs ret =
    (if length ret \<le> sz \<or> bs \<noteq> [] then put sz ret (concat (map padded_image bs)) else Inr ret)"
  using assms
proof (induction bs arbitrary: ret)
  case Nil
  then show ?case by (simp add: put_def)
next
  case (Cons b bs)
  have b: "serialize_band r sz b ret = put sz ret (padded_image b)"
    using Cons.prems by (intro serialize_band_exact) (simp_all add: data_fits_def)
  have al: "length (ret @ padded_image b) mod 8 = 0"
    using Cons.prems(2) by (simp add: mod_add_eq [symmetric, of "length ret"])
  show ?case
  proof (cases "length ret + length (padded_image b) \<le> sz")
    case True
    then show ?thesis using Cons.IH [OF _ al] Cons.prems(1) by (simp add: b put_def)
  next
    case False
    then show ?thesis by (simp add: b put_def)
  qed
qed

text \<open>The bytes of a whole raster.\<close>

definition raster_image :: "rt_raster \<Rightarrow> byte list" where
  "raster_image r = header_bytes r @ concat (map padded_image (bands r))"

lemma rast_bands_ok: "raster_ok r \<Longrightarrow> rast_bands r = Inr (bands r)"
  by (simp add: rast_bands_def raster_ok_def)

lemma serialized_size_exact:
  assumes "raster_ok r"
  shows "rt_raster_serialized_size r = Inr (of_nat (length (raster_image r)))"
proof -
  have "\<forall>b \<in> set (bands r). pixtype_known (band_pixtype b)" using assms by (simp add: raster_ok_def raster_band_ok_def)
  then have "bands_size r (bands r) (of_nat 64) = Inr (of_nat (total_size r (bands r) 64))" by (rule bands_size_exact)
  moreover have "total_size r (bands r) 64 = length (raster_image r)"
    using assms total_size_image [of "bands r" r 64] by (simp add: raster_ok_def raster_image_def)
  ultimately show ?thesis by (simp add: rt_raster_serialized_size_def rast_bands_ok [OF assms])
qed

lemma raster_ok_header: "raster_ok (r\<lparr>rast_size := s, rast_version := v\<rparr>) = raster_ok r"
  "raster_band_ok (r\<lparr>rast_size := s, rast_version := v\<rparr>) b = raster_band_ok r b"
  by (simp_all add: raster_ok_def raster_band_ok_def split: band_data.split)

lemma raster_band_ok_bands [simp]: "raster_band_ok (r\<lparr>bands := x\<rparr>) b = raster_band_ok r b"
  by (simp add: raster_band_ok_def split: band_data.split)

lemma raster_image_length: "length (raster_image (r\<lparr>rast_size := s, rast_version := v\<rparr>)) = length (raster_image r)"
  by (simp add: raster_image_def)

lemma serialize_exact:
  assumes ok: "raster_ok r" and fits: "\<forall>b \<in> set (bands r). data_fits b"
  defines "r' \<equiv> r\<lparr>rast_size := of_nat (length (raster_image r)), rast_version := 0\<rparr>"
  shows "rt_raster_serialize r = (if length (raster_image r) < 2 ^ 32 then Inr (raster_image r', r') else Inl MemFault)"
proof -
  define sz where "sz = unat (of_nat (length (raster_image r)) :: u32)"
  have bs: "\<forall>b \<in> set (bands r). raster_band_ok r' b \<and> data_fits b"
    using ok fits by (simp add: r'_def raster_ok_header) (simp add: raster_ok_def)
  have "rast_bands r' = Inr (bands r)" using ok by (simp add: r'_def rast_bands_def raster_ok_def)
  note eval = rt_raster_serialize_def serialized_size_exact [OF ok] bindE_Inr Let_def r'_def [symmetric] this
  have len: "length (header_bytes r' @ concat (map padded_image (bands r))) = length (raster_image r)"
    by (simp add: raster_image_def)
  have al: "length (header_bytes r') mod 8 = 0" by simp
  show ?thesis
  proof (cases "length (raster_image r) < 2 ^ 32")
    case True
    then have sz: "unat (of_nat (length (raster_image r)) :: u32) = length (raster_image r)" by (subst unat_of_nat) simp
    have "put (length (raster_image r)) [] (header_bytes r') = Inr (header_bytes r')" by (simp add: put_def raster_image_def)
    moreover have "serialize_bands r' (length (raster_image r)) (bands r) (header_bytes r') = Inr (raster_image r')"
      using len unfolding serialize_bands_exact [OF bs al] put_def by (simp add: raster_image_def r'_def)
    moreover have "length (raster_image r') = length (raster_image r)" by (simp add: raster_image_def r'_def)
    ultimately show ?thesis using True unfolding eval sz by simp
  next
    case False
    have "unat (of_nat (length (raster_image r)) :: u32) < 2 ^ 32" by (rule order_less_le_trans [OF unsigned_less]) simp
    then have sz: "unat (of_nat (length (raster_image r)) :: u32) < length (raster_image r)" using False by linarith
    have "bands r \<noteq> []" using False by (auto simp: raster_image_def)
    then have "serialize_bands r' (unat (of_nat (length (raster_image r)) :: u32)) (bands r) (header_bytes r') = Inl MemFault"
      using sz len unfolding serialize_bands_exact [OF bs al] put_def by (simp del: unat_of_nat)
    then show ?thesis using False unfolding eval put_def by (simp del: unat_of_nat)
  qed
qed

section \<open>Reading what was written\<close>

lemma header_of_bytes: "header_of (header_bytes r @ rest) = r\<lparr>bands := []\<rparr>"
  by (simp add: header_of_def header_bytes_def header_tail_def le_word_le_bytes_full)

lemma c_strlen_exact: "0 \<notin> set p \<Longrightarrow> c_strlen (p @ 0 # rest) = Inr (length p)"
  by (induction p) auto

lemma mem_at_append: "n = length bs \<Longrightarrow> k = length pre \<Longrightarrow> mem_at (pre @ bs @ rest) k n = Inr bs"
  by (simp add: mem_at_def)

text \<open>A band after a round trip: it does not own its pixels, and an out-db band is not loaded.\<close>

definition reloaded :: "rt_band \<Rightarrow> rt_band" where
  "reloaded b = b\<lparr>band_ownsdata := False,
     band_data := (case band_data b of Offline n p m \<Rightarrow> Offline n p None | Mem d \<Rightarrow> Mem d)\<rparr>"

lemma deserialize_band_exact:
  assumes ok: "raster_band_ok r b" and fits: "data_fits b" and al: "length pre mod 8 = 0"
  shows "deserialize_band r (pre @ padded_image b @ rest) (length pre) =
    Inr (reloaded b, length pre + length (padded_image b))"
proof -
  let ?pt = "band_pixtype b" and ?n = "pixtype_bytes (band_pixtype b)" and ?s = "pre @ padded_image b @ rest"
  let ?t = "band_type_byte ?pt (band_offline b) (band_hasnodata b) (band_isnodata b)"
  let ?z = "replicate (?n - 1) 0 :: byte list" and ?nd = "nodata_bytes ?pt (band_nodataval b)"
  let ?d = "data_bytes (band_data b)" and ?pad = "replicate (pad8 (length (band_image b))) 0 :: byte list"
  have known: "pixtype_known ?pt" and nf: "nodata_fits ?pt (band_nodataval b)" and isn: "band_isnodata b \<Longrightarrow> band_hasnodata b"
    using ok by (simp_all add: raster_band_ok_def)
  note pos = pixtype_bytes_pos [OF known]
  note ty = band_type_byte_fields [OF known, of "band_offline b" "band_hasnodata b" "band_isnodata b"]
  have s: "?s = pre @ [?t] @ ?z @ ?nd @ ?d @ ?pad @ rest" by (simp add: padded_image_def band_image_def)
  define q where "q = length pre + 2 * ?n"
  have m1: "mem_at ?s (length pre) 1 = Inr [?t]" unfolding s by (rule mem_at_append) simp_all
  have m2: "mem_at ?s (length pre + 1 + (?n - 1)) ?n = Inr ?nd"
    using mem_at_append [of ?n ?nd "length pre + 1 + (?n - 1)" "pre @ [?t] @ ?z" "?d @ ?pad @ rest"] unfolding s by simp
  have q1: "length pre + 1 + (?n - 1) + ?n = q" using pos by (simp add: q_def)
  have s': "?s = (pre @ [?t] @ ?z @ ?nd) @ (?d @ ?pad @ rest)" using s by simp
  have lq: "length (pre @ [?t] @ ?z @ ?nd) = q" using pos by (simp add: q_def)
  have dq: "drop q ?s = ?d @ ?pad @ rest" unfolding s' using lq by (metis append_eq_conv_conj)
  have len: "length ?s = q + length ?d + length ?pad + length rest" unfolding s' using lq by simp
  have alq: "q mod ?n = 0" using aligned [OF known al] by (simp add: q_def mod_add_eq [symmetric, of "length pre"])
  have end_len: "q + length ?d + pad8 (q + length ?d) = length pre + length (padded_image b)"
  proof -
    have "length (band_image b) = 2 * ?n + length ?d" using pos by (simp add: band_image_def)
    then show ?thesis using pad8_add(1) [OF al, of "2 * ?n + length ?d"] by (simp add: padded_image_def q_def add.assoc)
  qed
  have ale: "(length pre + length (padded_image b)) mod ?n = 0"
    using al by (intro aligned [OF known]) (simp add: mod_add_eq [symmetric, of "length pre"])
  have body: "(if band_offline b then
            bindE (mem_at ?s q 1) (\<lambda>n.
            bindE (c_strlen (drop (q + 1) ?s)) (\<lambda>pathlen.
            Inr (Offline (le_word n) (take pathlen (drop (q + 1) ?s)) None, q + 1 + pathlen + 1)))
          else let datasize = unat (data_size r ?n)
               in Inr (Mem (take datasize (drop q ?s)), q + datasize)) = Inr (band_data (reloaded b), q + length ?d)"
  proof (cases "band_data b")
    case (Mem d)
    then have "unat (data_size r ?n) = length d"
      using ok fits by (subst data_size_exact) (simp_all add: raster_band_ok_def data_fits_def)
    then show ?thesis using Mem dq by (simp add: band_offline_def reloaded_def)
  next
    case (Offline n p m)
    have "drop (q + 1) ?s = drop 1 (drop q ?s)" by (simp only: drop_drop add.commute)
    also have "\<dots> = p @ 0 # ?pad @ rest" unfolding dq Offline by simp
    finally have "drop (q + 1) ?s = p @ 0 # ?pad @ rest" .
    moreover have "mem_at ?s q 1 = Inr [n]"
    proof -
      have "q + 1 \<le> length ?s" unfolding len Offline by simp
      then have "mem_at ?s q 1 = Inr (take 1 (drop q ?s))" by (rule mem_at_ok)
      then show ?thesis unfolding dq Offline by simp
    qed
    ultimately show ?thesis
      using ok Offline by (simp add: c_strlen_exact raster_band_ok_def band_offline_def reloaded_def)
  qed
  have nd: "nodata_read ?pt ?nd = band_nodataval b" using nf by (simp add: nodata_fits_def)
  have w: "le_word [?t] = ?t" by simp
  have size: "rt_pixtype_size ?pt = Inr ?n" by (simp add: rt_pixtype_size_def known)
  have "deserialize_band r ?s (length pre) =
      Inr (\<lparr>band_pixtype = ?pt, band_width = rast_width r, band_height = rast_height r,
            band_hasnodata = band_hasnodata b,
            band_isnodata = (if band_hasnodata b then band_isnodata b else False),
            band_nodataval = nodata_read ?pt ?nd, band_ownsdata = False, band_data = band_data (reloaded b)\<rparr>,
           length pre + length (padded_image b))"
    unfolding deserialize_band_def m1 bindE_Inr Let_def w ty size m2 q1 body [unfolded Let_def]
    using alq ale by (simp add: end_len)
  moreover have "(if band_hasnodata b then band_isnodata b else False) = band_isnodata b" using isn by auto
  ultimately show ?thesis
    using ok nd by (simp add: reloaded_def raster_band_ok_def)
qed

lemma deserialize_bands_exact:
  assumes "\<forall>b \<in> set bs. raster_band_ok r b \<and> data_fits b" "length pre mod 8 = 0"
  shows "deserialize_bands r (pre @ concat (map padded_image bs) @ rest) (length bs) (length pre) =
    Inr (map reloaded bs)"
  using assms
proof (induction bs arbitrary: pre)
  case (Cons b bs)
  have al: "length (pre @ padded_image b) mod 8 = 0"
    using Cons.prems(2) by (simp add: mod_add_eq [symmetric, of "length pre"])
  have "deserialize_band r (pre @ padded_image b @ (concat (map padded_image bs) @ rest)) (length pre) =
      Inr (reloaded b, length pre + length (padded_image b))"
    using Cons.prems by (intro deserialize_band_exact) simp_all
  moreover have "deserialize_bands r ((pre @ padded_image b) @ concat (map padded_image bs) @ rest) (length bs)
      (length (pre @ padded_image b)) = Inr (map reloaded bs)"
    using Cons.prems(1) by (intro Cons.IH [OF _ al]) simp
  ultimately show ?case by simp
qed simp

lemma deserialize_exact:
  assumes "raster_ok r" "\<forall>b \<in> set (bands r). data_fits b"
  shows "rt_raster_deserialize (raster_image r @ rest) False = Inr (r\<lparr>bands := map reloaded (bands r)\<rparr>)"
proof -
  have h: "mem_at (raster_image r @ rest) 0 64 = Inr (header_bytes r)" by (simp add: mem_at_def raster_image_def)
  have ho: "header_of (header_bytes r) = r\<lparr>bands := []\<rparr>" using header_of_bytes [of r "[]"] by simp
  have n: "unat (numBands r) = length (bands r)" using assms(1) by (simp add: raster_ok_def)
  have bs: "\<forall>b \<in> set (bands r). raster_band_ok (r\<lparr>bands := []\<rparr>) b \<and> data_fits b"
    using assms by (simp add: raster_ok_def)
  have "deserialize_bands (r\<lparr>bands := []\<rparr>) (header_bytes r @ concat (map padded_image (bands r)) @ rest)
      (length (bands r)) (length (header_bytes r)) = Inr (map reloaded (bands r))"
    by (rule deserialize_bands_exact [OF bs]) simp
  moreover have "numBands r = 0 \<longleftrightarrow> bands r = []" using n by (simp add: word_unat_eq_iff)
  ultimately show ?thesis
    using n unfolding rt_raster_deserialize_def h bindE_Inr ho Let_def by (simp add: raster_image_def)
qed

text \<open>
  C9. Storing a raster and reading it gives it back, with every header field, pixel and NODATA
  value, whatever the pixel types, as long as the stored form is smaller than 4 GiB; the size
  computed beforehand is exactly the number of bytes written, no assertion fails and no byte of
  the filling is left. Only ownership of the pixels, and pixels loaded for an out-db band, are
  lost.
\<close>

theorem rt_raster_serialize_roundtrip:
  assumes "raster_ok r" "\<forall>b \<in> set (bands r). data_fits b" "length (raster_image r) < 2 ^ 32"
  shows "\<exists>s r'. rt_raster_serialize r = Inr (s, r') \<and> r' = r\<lparr>rast_size := of_nat (length s), rast_version := 0\<rparr> \<and>
    rt_raster_serialized_size r = Inr (of_nat (length s)) \<and> length s < 2 ^ 32 \<and>
    rt_raster_deserialize s False = Inr (r'\<lparr>bands := map reloaded (bands r)\<rparr>)"
proof -
  define r' where "r' = r\<lparr>rast_size := of_nat (length (raster_image r)), rast_version := 0\<rparr>"
  have ok: "raster_ok r'" "\<forall>b \<in> set (bands r'). data_fits b" using assms by (simp_all add: r'_def raster_ok_header)
  have len: "length (raster_image r') = length (raster_image r)" by (simp add: r'_def raster_image_length)
  have "rt_raster_serialize r = Inr (raster_image r', r')"
    using serialize_exact [OF assms(1,2)] assms(3) by (simp add: r'_def)
  moreover have "rt_raster_deserialize (raster_image r') False = Inr (r'\<lparr>bands := map reloaded (bands r)\<rparr>)"
    using deserialize_exact [OF ok, of "[]"] by (simp add: r'_def)
  moreover have "r' = r\<lparr>rast_size := of_nat (length (raster_image r')), rast_version := 0\<rparr>"
    unfolding len by (simp add: r'_def)
  ultimately show ?thesis
    using serialized_size_exact [OF assms(1)] assms(3) unfolding len [symmetric] by blast
qed

text \<open>
  A raster whose stored form would reach 4 GiB, although each band is smaller, is written
  past the end of a block that is too small: the size is computed modulo \<open>2 ^ 32\<close>.
\<close>

theorem rt_raster_serialize_overflows:
  assumes "raster_ok r" "\<forall>b \<in> set (bands r). data_fits b" "2 ^ 32 \<le> length (raster_image r)"
  shows "rt_raster_serialized_size r = Inr (of_nat (length (raster_image r))) \<and> rt_raster_serialize r = Inl MemFault"
  using serialize_exact [OF assms(1,2)] serialized_size_exact [OF assms(1)] assms(3) by simp

section \<open>Concrete rasters\<close>

definition plain_band :: "rt_raster \<Rightarrow> rt_pixtype \<Rightarrow> band_data \<Rightarrow> rt_band" where
  "plain_band r pt d = \<lparr>band_pixtype = pt, band_width = rast_width r, band_height = rast_height r, band_hasnodata = True,
     band_isnodata = False, band_nodataval = 0, band_ownsdata = True, band_data = d\<rparr>"

definition plain_raster :: "u16 \<Rightarrow> u16 \<Rightarrow> (rt_pixtype \<times> band_data) list \<Rightarrow> rt_raster" where
  "plain_raster w h bs =
     (let r = \<lparr>rast_size = 0, rast_version = 0, numBands = of_nat (length bs), scaleX = dbl_one, scaleY = dbl_one, ipX = 0,
               ipY = 0, skewX = 0, skewY = 0, rast_srid = 4326, rast_width = w, rast_height = h, bands = []\<rparr>
      in r\<lparr>bands := map (\<lambda>(pt, d). plain_band r pt d) bs\<rparr>)"

lemma plain_raster_ok:
  assumes "length bs < 2 ^ 16"
    and "\<forall>(pt, d) \<in> set bs. pixtype_known pt \<and>
      (case d of Offline n p m \<Rightarrow> 0 \<notin> set p | Mem x \<Rightarrow> length x = unat w * unat h * pixtype_bytes pt \<and> length x < 2 ^ 32)"
  shows "raster_ok (plain_raster w h bs) \<and> (\<forall>b \<in> set (bands (plain_raster w h bs)). data_fits b)"
proof -
  have "unat (of_nat (length bs) :: u16) = length bs" using assms(1) by (subst unat_of_nat) simp
  then show ?thesis
    using assms(2)
    by (auto simp: raster_ok_def plain_raster_def Let_def raster_band_ok_def plain_band_def data_fits_def
        split: band_data.splits)
qed

theorem rt_raster_serialize_roundtrip_witness:
  "\<exists>s r'. rt_raster_serialize (plain_raster 2 1 [(PT_8BUI, Mem [7, 9]), (PT_16BF, Offline 1 [47, 97] None)]) = Inr (s, r') \<and>
    map band_data (bands r') = [Mem [7, 9], Offline 1 [47, 97] None] \<and>
    (\<exists>r''. rt_raster_deserialize s False = Inr r'' \<and> map band_data (bands r'') = map band_data (bands r') \<and>
      rast_srid r'' = 4326)"
proof -
  let ?r = "plain_raster 2 1 [(PT_8BUI, Mem [7, 9]), (PT_16BF, Offline 1 [47, 97] None)]"
  have ok: "raster_ok ?r" "\<forall>b \<in> set (bands ?r). data_fits b"
    using plain_raster_ok [of "[(PT_8BUI, Mem [7, 9]), (PT_16BF, Offline 1 [47, 97] None)]" 2 1]
    by (auto simp: pixtype_known_def)
  have "length (raster_image ?r) < 2 ^ 32"
    by (simp add: raster_image_def plain_raster_def plain_band_def padded_image_def band_image_def Let_def pad8_def)
  from rt_raster_serialize_roundtrip [OF ok this] show ?thesis
    by (auto simp: plain_raster_def plain_band_def reloaded_def Let_def)
qed

theorem rt_raster_serialize_overflows_witness:
  "\<exists>r. length (bands r) = 5 \<and> rt_raster_serialize r = Inl MemFault"
proof -
  obtain d :: "byte list" where d: "length d = 1073676289" using Ex_list_of_length by blast
  let ?bs = "replicate 5 (PT_8BUI, Mem d)"
  let ?r = "plain_raster 32767 32767 ?bs"
  have ok: "raster_ok ?r" "\<forall>b \<in> set (bands ?r). data_fits b"
    using plain_raster_ok [of ?bs 32767 32767] d by (auto simp: pixtype_known_def)
  have band: "1073676289 \<le> length (padded_image b)" if "b \<in> set (bands ?r)" for b
    using that d by (auto simp: plain_raster_def plain_band_def padded_image_def band_image_def Let_def)
  have "length (concat (map padded_image bs)) \<ge> length bs * 1073676289" if "set bs \<subseteq> set (bands ?r)" for bs
    using that by (induction bs) (auto dest!: band)
  from this [of "bands ?r"] have "2 ^ 32 \<le> length (raster_image ?r)"
    by (simp add: raster_image_def plain_raster_def Let_def)
  from rt_raster_serialize_overflows [OF ok this] show ?thesis
    by (intro exI [of _ ?r]) (simp add: plain_raster_def Let_def)
qed

end
