(* ===== verification/RasterWKB.thy ===== *)
theory RasterWKB
  imports RasterSerial
begin

text \<open>
  The exchange form of a raster (raster/rt_core/rt_wkb.c), binary and hexadecimal: writer and
  reader. The reader takes bytes from outside and checks its position against the end before
  each access; the memory behind the end is part of the model, since one check comes too late.

  \<open>wkb\<close> is the readable memory that starts with the WKB, \<open>wkbsize\<close> the number of its bytes
  that belong to the WKB.
\<close>

section \<open>Writer\<close>

definition RT_WKB_HDR_SZ :: nat where
  "RT_WKB_HDR_SZ = 64 - 4 + 1"

definition add_band_wkb_size :: "rt_raster \<Rightarrow> bool \<Rightarrow> rt_band \<Rightarrow> u32 \<Rightarrow> lwerr + u32" where
  "add_band_wkb_size r outasin b sz0 =
     bindE (rt_pixtype_size (band_pixtype b)) (\<lambda>pixbytes.
     let sz = sz0 + 1 + of_nat pixbytes
     in Inr (case band_data b of
               Offline n p m \<Rightarrow>
                 if \<not> outasin then sz + 1 + of_nat (length p + 1)
                 else sz + of_nat pixbytes * ucast (rast_width r) * ucast (rast_height r)
             | Mem d \<Rightarrow> sz + of_nat pixbytes * ucast (rast_width r) * ucast (rast_height r)))"

fun bands_wkb_size :: "rt_raster \<Rightarrow> bool \<Rightarrow> rt_band list \<Rightarrow> u32 \<Rightarrow> lwerr + u32" where
  "bands_wkb_size r outasin [] sz = Inr sz"
| "bands_wkb_size r outasin (b # bs) sz = bindE (add_band_wkb_size r outasin b sz) (bands_wkb_size r outasin bs)"

definition rt_raster_wkb_size :: "rt_raster \<Rightarrow> bool \<Rightarrow> lwerr + u32" where
  "rt_raster_wkb_size r outasin =
     bindE (rast_bands r) (\<lambda>bs. bands_wkb_size r outasin bs (of_nat RT_WKB_HDR_SZ))"

definition band_to_wkb ::
  "(rt_band \<Rightarrow> byte list option) \<Rightarrow> rt_raster \<Rightarrow> bool \<Rightarrow> nat \<Rightarrow> rt_band \<Rightarrow> byte list \<Rightarrow> lwerr + byte list"
where
  "band_to_wkb load r outasin sz b ret =
     bindE (rt_pixtype_size (band_pixtype b)) (\<lambda>pixbytes.
     let offline = (\<not> outasin \<and> band_offline b) in
     bindE (put sz ret [band_type_byte (band_pixtype b) offline (band_hasnodata b) (band_isnodata b)]) (\<lambda>ret.
     bindE (put sz ret (nodata_bytes (band_pixtype b) (band_nodataval b))) (\<lambda>ret.
     if offline then
       bindE (put sz ret [bandNum (band_data b)]) (\<lambda>ret. put sz ret (path (band_data b) @ [0]))
     else
       bindE (rt_band_get_data load b) (\<lambda>(d, _).
       bindE (mem_at d 0 (unat (data_size r pixbytes))) (put sz ret)))))"

fun bands_to_wkb ::
  "(rt_band \<Rightarrow> byte list option) \<Rightarrow> rt_raster \<Rightarrow> bool \<Rightarrow> nat \<Rightarrow> rt_band list \<Rightarrow> byte list \<Rightarrow> lwerr + byte list"
where
  "bands_to_wkb load r outasin sz [] ret = Inr ret"
| "bands_to_wkb load r outasin sz (b # bs) ret =
     bindE (band_to_wkb load r outasin sz b ret) (bands_to_wkb load r outasin sz bs)"

text \<open>The result and its size; the part of the block that was not written has any content.\<close>

definition rt_raster_to_wkb ::
  "(nat \<Rightarrow> byte list) \<Rightarrow> (rt_band \<Rightarrow> byte list option) \<Rightarrow> rt_raster \<Rightarrow> bool \<Rightarrow> lwerr + (byte list \<times> u32)"
where
  "rt_raster_to_wkb garbage load r outasin =
     bindE (rt_raster_wkb_size r outasin) (\<lambda>wkbsize.
     bindE (put (unat wkbsize) [] (1 # le_bytes 2 (0 :: u16) @ header_tail r)) (\<lambda>ret.
     bindE (rast_bands r) (\<lambda>bs.
     bindE (bands_to_wkb load r outasin (unat wkbsize) bs ret) (\<lambda>ret.
     Inr (ret @ garbage (unat wkbsize - length ret), wkbsize)))))"

section \<open>Reader\<close>

text \<open>\<open>n\<close> bytes in the order of the host.\<close>

definition read_bytes :: "bool \<Rightarrow> byte list \<Rightarrow> nat \<Rightarrow> nat \<Rightarrow> lwerr + byte list" where
  "read_bytes little wkb p n = bindE (mem_at wkb p n) (\<lambda>bs. Inr (if little then bs else rev bs))"

text \<open>
  The loop over the characters of a path: it looks at a character before it looks whether it
  is past the end, which is \<open>left\<close> characters away.
\<close>

fun scan_path :: "byte list \<Rightarrow> nat \<Rightarrow> lwerr + nat" where
  "scan_path [] left = Inl MemFault"
| "scan_path (c # cs) left =
     (if c \<noteq> 0 \<and> left \<noteq> 0 then bindE (scan_path cs (left - 1)) (\<lambda>n. Inr (Suc n)) else Inr 0)"

fun flip_each :: "nat \<Rightarrow> nat \<Rightarrow> byte list \<Rightarrow> byte list" where
  "flip_each pixbytes 0 d = d"
| "flip_each pixbytes (Suc v) d = rev (take pixbytes d) @ flip_each pixbytes v (drop pixbytes d)"

fun max_pixel :: "rt_pixtype \<Rightarrow> byte option" where
  "max_pixel PT_1BB = Some 1" | "max_pixel PT_2BUI = Some 3" | "max_pixel PT_4BUI = Some 15" | "max_pixel pt = None"

definition rt_band_from_wkb :: "u16 \<Rightarrow> u16 \<Rightarrow> byte list \<Rightarrow> nat \<Rightarrow> byte \<Rightarrow> nat \<Rightarrow> lwerr + (rt_band \<times> nat)" where
  "rt_band_from_wkb width height wkb endp littleEndian p0 =
     bindE (require (\<not> int endp - int p0 < 1) ''rt_band_from_wkb: Premature end of WKB on band reading (%s:%d)'') (\<lambda>_.
     bindE (mem_at wkb p0 1) (\<lambda>t.
     let type = le_word t :: byte; p = p0 + 1 in
     bindE (require (\<not> type AND BANDTYPE_PIXTYPE_MASK \<ge> pixtype_code PT_END)
       ''rt_band_from_wkb: Invalid pixtype %d'') (\<lambda>_.
     let pixtype = pixtype_of_code (type AND BANDTYPE_PIXTYPE_MASK);
         offline = has_bits type BANDTYPE_FLAG_OFFDB;
         hasnodata = has_bits type BANDTYPE_FLAG_HASNODATA;
         isnodata = (if hasnodata then has_bits type BANDTYPE_FLAG_ISNODATA else False) in
     bindE (rt_pixtype_size pixtype) (\<lambda>pixbytes.
     bindE (require (\<not> p + pixbytes \<ge> endp) ''rt_band_from_wkb: Premature end of WKB on band novalue reading'') (\<lambda>_.
     bindE (read_bytes (littleEndian \<noteq> 0) wkb p pixbytes) (\<lambda>nd.
     let p = p + pixbytes;
         band = \<lparr>band_pixtype = pixtype, band_width = width, band_height = height, band_hasnodata = hasnodata,
                 band_isnodata = isnodata, band_nodataval = nodata_read pixtype nd, band_ownsdata = False,
                 band_data = Mem []\<rparr> in
     if offline then
       bindE (require (\<not> p + 1 \<ge> endp)
         ''rt_band_from_wkb: Premature end of WKB on offline band data bandNum reading (%s:%d)'') (\<lambda>_.
       bindE (mem_at wkb p 1) (\<lambda>n.
       let p = p + 1 in
       bindE (scan_path (drop p wkb) (endp - p)) (\<lambda>sz.
       bindE (require (\<not> p + sz \<ge> endp)
         ''rt_band_from_wkb: Premature end of WKB on band offline path reading'') (\<lambda>_.
       bindE (mem_at wkb p sz) (\<lambda>path.
       Inr (band\<lparr>band_data := Offline (le_word n) path None\<rparr>, p + sz + 1))))))
     else
       let sz = unat width * unat height * pixbytes in
       bindE (require (\<not> p + sz > endp) ''rt_band_from_wkb: Premature end of WKB on band data reading (%s:%d)'') (\<lambda>_.
       bindE (mem_at wkb p sz) (\<lambda>d.
       let p = p + sz in
       if pixbytes > 1 then
         Inr (band\<lparr>band_ownsdata := True,
                band_data := Mem (if littleEndian \<noteq> 1 then flip_each pixbytes (unat width * unat height) d else d)\<rparr>, p)
       else
         bindE (require (case max_pixel pixtype of None \<Rightarrow> True | Some maxVal \<Rightarrow> \<forall>val \<in> set d. \<not> val > maxVal)
           ''rt_band_from_wkb: Invalid value %d for pixel of type %s'') (\<lambda>_.
         Inr (band\<lparr>band_ownsdata := True, band_data := Mem d\<rparr>, p))))))))))"

fun bands_from_wkb :: "u16 \<Rightarrow> u16 \<Rightarrow> byte list \<Rightarrow> nat \<Rightarrow> byte \<Rightarrow> nat \<Rightarrow> nat \<Rightarrow> lwerr + rt_band list" where
  "bands_from_wkb width height wkb endp endian 0 p = Inr []"
| "bands_from_wkb width height wkb endp endian (Suc n) p =
     bindE (rt_band_from_wkb width height wkb endp endian p) (\<lambda>(b, p).
     bindE (bands_from_wkb width height wkb endp endian n p) (\<lambda>bs. Inr (b # bs)))"

text \<open>
  \<open>fresh\<close> is the raster in the memory just allocated: the reader sets neither the size nor the
  version. Bytes that remain at the end only cause a warning.
\<close>

definition rt_raster_from_wkb :: "rt_raster \<Rightarrow> byte list \<Rightarrow> nat \<Rightarrow> lwerr + rt_raster" where
  "rt_raster_from_wkb fresh wkb wkbsize =
     bindE (require (\<not> wkbsize < RT_WKB_HDR_SZ) ''rt_raster_from_wkb: wkb size (%u) < min size (%zu)'') (\<lambda>_.
     bindE (mem_at wkb 0 1) (\<lambda>e.
     let endian = le_word e :: byte; rd = read_bytes (endian \<noteq> 0) wkb in
     bindE (rd 1 2) (\<lambda>v.
     bindE (require ((le_word v :: u16) = 0) ''rt_raster_from_wkb: WKB version %d unsupported'') (\<lambda>_.
     bindE (rd 3 2) (\<lambda>nb.
     bindE (rd 5 8) (\<lambda>sx. bindE (rd 13 8) (\<lambda>sy. bindE (rd 21 8) (\<lambda>ix. bindE (rd 29 8) (\<lambda>iy.
     bindE (rd 37 8) (\<lambda>kx. bindE (rd 45 8) (\<lambda>ky. bindE (rd 53 4) (\<lambda>srid. bindE (rd 57 2) (\<lambda>w. bindE (rd 59 2) (\<lambda>h.
     let r = fresh\<lparr>numBands := le_word nb, scaleX := le_word sx, scaleY := le_word sy, ipX := le_word ix, ipY := le_word iy,
               skewX := le_word kx, skewY := le_word ky, rast_srid := word_of_int (clamp_srid (sint (le_word srid :: u32))),
               rast_width := le_word w, rast_height := le_word h, bands := []\<rparr> in
     bindE (bands_from_wkb (rast_width r) (rast_height r) wkb wkbsize endian (unat (numBands r)) 61) (\<lambda>bs.
     Inr (r\<lparr>bands := bs\<rparr>))))))))))))))))"

section \<open>Hexadecimal form\<close>

text \<open>\<open>parse_hex\<close> of liblwgeom/lwgeom_api.c: a character that is no digit counts as 0.\<close>

definition hex_digit :: "byte \<Rightarrow> byte" where
  "hex_digit c = (if 0x30 \<le> c \<and> c \<le> 0x39 then c - 0x30
     else if 0x41 \<le> c \<and> c \<le> 0x46 then c - 0x37
     else if 0x61 \<le> c \<and> c \<le> 0x66 then c - 0x57 else 0)"

definition parse_hex :: "byte \<Rightarrow> byte \<Rightarrow> byte" where
  "parse_hex c1 c2 = push_bit 4 (hex_digit c1) + hex_digit c2"

fun parse_full_hex :: "byte list \<Rightarrow> byte list" where
  "parse_full_hex (c1 # c2 # cs) = parse_hex c1 c2 # parse_full_hex cs"
| "parse_full_hex cs = []"

definition rt_raster_from_hexwkb :: "rt_raster \<Rightarrow> byte list \<Rightarrow> lwerr + rt_raster" where
  "rt_raster_from_hexwkb fresh hexwkb =
     bindE (require (length hexwkb mod 2 = 0)
       ''rt_raster_from_hexwkb: Raster HEXWKB input must have an even number of characters'') (\<lambda>_.
     let wkb = parse_full_hex hexwkb in rt_raster_from_wkb fresh wkb (length wkb))"

definition hex_chars :: "byte list" where
  "hex_chars = [0x30, 0x31, 0x32, 0x33, 0x34, 0x35, 0x36, 0x37, 0x38, 0x39, 0x41, 0x42, 0x43, 0x44, 0x45, 0x46]"

text \<open>The terminating NUL is left out: the size that is returned does not count it.\<close>

definition rt_raster_to_hexwkb ::
  "(nat \<Rightarrow> byte list) \<Rightarrow> (rt_band \<Rightarrow> byte list option) \<Rightarrow> rt_raster \<Rightarrow> bool \<Rightarrow> lwerr + byte list"
where
  "rt_raster_to_hexwkb garbage load r outasin =
     bindE (rt_raster_to_wkb garbage load r outasin) (\<lambda>(wkb, wkbsize).
     bindE (mem_at wkb 0 (unat wkbsize)) (\<lambda>bs.
     let hex = concat (map (\<lambda>v. [hex_chars ! unat (drop_bit 4 v), hex_chars ! unat (v AND 0x0F)]) bs) in
     bindE (put (unat (wkbsize * 2 + 1)) [] (hex @ [0])) (\<lambda>_. Inr hex)))"

end
