(* ===== verification/RasterWKBOk.thy ===== *)
theory RasterWKBOk
  imports RasterWKB
begin

text \<open>
  What the exchange form of a raster guarantees: the reader never leaves the memory it was
  given but for one byte behind an unterminated path, and what it returns has as many pixels
  as it says; a raster that has pixels is read back as it was written, an empty one is not.
\<close>

section \<open>The reader stays in bounds\<close>

lemma scan_path_ok:
  "left < length cs \<Longrightarrow> \<exists>n. scan_path cs left = Inr n \<and> n \<le> left \<and> 0 \<notin> set (take n cs)"
proof (induction cs left rule: scan_path.induct)
  case (2 c cs left)
  show ?case
  proof (cases "c \<noteq> 0 \<and> left \<noteq> 0")
    case True
    with "2.prems" have "left - 1 < length cs" by auto
    with "2.IH" True obtain n where "scan_path cs (left - 1) = Inr n" "n \<le> left - 1" "0 \<notin> set (take n cs)"
      by blast
    with True show ?thesis by (intro exI [of _ "Suc n"]) auto
  qed auto
qed simp

lemma length_flip_each: "length d = v * n \<Longrightarrow> length (flip_each n v d) = v * n"
proof (induction v arbitrary: d)
  case (Suc v)
  have "length (drop n d) = v * n" using Suc.prems by simp
  with Suc.IH [OF this] Suc.prems show ?case by simp
qed simp

text \<open>What a band that was read is known to satisfy.\<close>

definition read_band_ok :: "u16 \<Rightarrow> u16 \<Rightarrow> rt_band \<Rightarrow> bool" where
  "read_band_ok w h b \<longleftrightarrow>
     pixtype_known (band_pixtype b) \<and> (band_isnodata b \<longrightarrow> band_hasnodata b) \<and> band_width b = w \<and> band_height b = h \<and>
     (case band_data b of
        Offline n p m \<Rightarrow> 0 \<notin> set p
      | Mem d \<Rightarrow> length d = unat w * unat h * pixtype_bytes (band_pixtype b) \<and>
                 (\<forall>m. max_pixel (band_pixtype b) = Some m \<longrightarrow> (\<forall>v \<in> set d. v \<le> m)))"

lemma max_pixel_byte: "max_pixel pt = Some m \<Longrightarrow> pixtype_bytes pt = 1"
  by (cases pt) simp_all

text \<open>A result that is an error of the code, or a value with a property, but no access outside memory.\<close>

definition safe :: "('a \<Rightarrow> bool) \<Rightarrow> lwerr + 'a \<Rightarrow> bool" where
  "safe P r \<longleftrightarrow> (case r of Inl (LwError m) \<Rightarrow> True | Inl e \<Rightarrow> False | Inr x \<Rightarrow> P x)"

lemma safe_simps [simp]: "safe P (Inr x) \<longleftrightarrow> P x" "safe P (Inl (LwError m))" "\<not> safe P (Inl MemFault)" "\<not> safe P (Inl OutOfFuel)"
  by (simp_all add: safe_def)

lemma safe_test: "(c \<Longrightarrow> safe P (f ())) \<Longrightarrow> safe P (bindE (require c m) f)"
  by (simp add: require_def)

lemma safe_bind: "safe Q r \<Longrightarrow> (\<And>x. Q x \<Longrightarrow> safe P (f x)) \<Longrightarrow> safe P (bindE r f)"
  by (cases r) (auto simp: safe_def split: lwerr.splits)

lemma safe_mem_at: "p + n \<le> length wkb \<Longrightarrow> safe (\<lambda>bs. bs = take n (drop p wkb) \<and> length bs = n) (mem_at wkb p n)"
  by (simp add: mem_at_def)

lemma safe_if: "(c \<Longrightarrow> safe P x) \<Longrightarrow> (\<not> c \<Longrightarrow> safe P y) \<Longrightarrow> safe P (if c then x else y)"
  by simp

lemma safe_mem_len: "p + n \<le> length wkb \<Longrightarrow> safe (\<lambda>bs. length bs = n) (mem_at wkb p n)"
  by (simp add: mem_at_def)

lemma safe_read_bytes: "p + n \<le> length wkb \<Longrightarrow> safe (\<lambda>bs. length bs = n) (read_bytes le wkb p n)"
  by (simp add: read_bytes_def mem_at_def)

lemma safe_size: "safe (\<lambda>n. n = pixtype_bytes pt \<and> pixtype_known pt) (rt_pixtype_size pt)"
  by (simp add: rt_pixtype_size_def)

lemma safe_scan: "left < length cs \<Longrightarrow> safe (\<lambda>n. n \<le> left \<and> 0 \<notin> set (take n cs)) (scan_path cs left)"
  using scan_path_ok [of left cs] by auto

lemma rt_band_from_wkb_in_bounds:
  assumes "endp < length wkb"
  shows "safe (\<lambda>(b, p). read_band_ok w h b \<and> p0 < p \<and> p \<le> endp) (rt_band_from_wkb w h wkb endp le p0)"
  unfolding rt_band_from_wkb_def Let_def
  apply (rule safe_test)
  apply (rule safe_bind [OF safe_mem_len])
  subgoal using assms by simp
  apply (rule safe_test)
  apply (rule safe_bind [OF safe_size])
  apply (rule safe_test)
  apply (rule safe_bind [OF safe_read_bytes])
  subgoal using assms by simp
  apply (rule safe_if)
  subgoal
    apply (rule safe_test)
    apply (rule safe_bind [OF safe_mem_len])
    subgoal using assms by simp
    apply (rule safe_bind [OF safe_scan])
    subgoal using assms by simp
    apply (rule safe_test)
    apply (rule safe_bind [OF safe_mem_at])
    subgoal using assms by simp
    by (auto simp: read_band_ok_def)
  subgoal
    apply (rule safe_test)
    apply (rule safe_bind [OF safe_mem_len])
    subgoal using assms by simp
    apply (rule safe_if)
    subgoal by (auto simp: read_band_ok_def length_flip_each dest: max_pixel_byte)
    apply (rule safe_test)
    subgoal by (auto simp: read_band_ok_def not_less dest: max_pixel_byte split: option.splits)
    done
  done

lemma bands_from_wkb_in_bounds:
  assumes "endp < length wkb"
  shows "safe (\<lambda>bs. length bs = n \<and> (\<forall>b \<in> set bs. read_band_ok w h b)) (bands_from_wkb w h wkb endp le n p)"
proof (induction n arbitrary: p)
  case (Suc n)
  show ?case
    unfolding bands_from_wkb.simps
    by (rule safe_bind [OF rt_band_from_wkb_in_bounds [OF assms, of w h p le]])
      (auto intro!: safe_bind [OF Suc.IH])
qed simp

text \<open>
  C7. Reading a raster from bytes of any content stays inside memory as long as one byte
  behind them is readable, and either reports an error or gives a raster whose bands are as many
  and as large as its header says: known pixel types, exactly the pixels of width and height, no
  pixel above the maximum of a sub-byte type, paths without NUL.
\<close>

theorem rt_raster_from_wkb_safe:
  assumes "wkbsize < length wkb"
  shows "case rt_raster_from_wkb fresh wkb wkbsize of
      Inl e \<Rightarrow> \<exists>m. e = LwError m
    | Inr r \<Rightarrow> length (bands r) = unat (numBands r) \<and> (\<forall>b \<in> set (bands r). read_band_ok (rast_width r) (rast_height r) b)"
proof -
  let ?P = "\<lambda>r. length (bands r) = unat (numBands r) \<and> (\<forall>b \<in> set (bands r). read_band_ok (rast_width r) (rast_height r) b)"
  note rd = safe_bind [OF safe_read_bytes]
  have "safe ?P (rt_raster_from_wkb fresh wkb wkbsize)"
    unfolding rt_raster_from_wkb_def Let_def RT_WKB_HDR_SZ_def
    apply (rule safe_test, rule safe_bind [OF safe_mem_len])
    subgoal using assms by simp
    apply (rule rd)
    subgoal using assms by simp
    apply (rule safe_test)
    apply ((rule rd, use assms in simp)+)?
    apply (rule safe_bind [OF bands_from_wkb_in_bounds [OF assms]])
    by auto
  then show ?thesis by (auto simp: safe_def split: sum.splits lwerr.splits)
qed

lemma read_bytes_eval: "p + n \<le> length wkb \<Longrightarrow> read_bytes l wkb p n = Inr (if l then take n (drop p wkb) else rev (take n (drop p wkb)))"
  by (simp add: read_bytes_def mem_at_def)

lemmas from_wkb_eval = rt_raster_from_wkb_def rt_band_from_wkb_def RT_WKB_HDR_SZ_def mem_at_def read_bytes_eval
  has_bits_def pixtype_of_code_def pixtype_table_def rt_pixtype_size_def pixtype_known_def require_def Let_def

text \<open>One pixel of four bits, with a byte behind the input.\<close>

theorem rt_raster_from_wkb_safe_witness:
  "\<exists>r. rt_raster_from_wkb (plain_raster 0 0 []) ([1, 0, 0, 1, 0] @ replicate 52 0 @ [1, 0, 1, 0, 2, 0, 9, 0]) 64 = Inr r \<and>
    length (bands r) = unat (numBands r) \<and> map band_data (bands r) = [Mem [9]]"
proof -
  let ?s = "[1, 0, 0, 1, 0] @ replicate 52 0 @ [1, 0, 1, 0, 2, 0, 9, 0] :: byte list"
  have "\<exists>r. rt_raster_from_wkb (plain_raster 0 0 []) ?s 64 = Inr r \<and> map band_data (bands r) = [Mem [9]]"
    by (simp add: from_wkb_eval)
  then show ?thesis using rt_raster_from_wkb_safe [of 64 ?s "plain_raster 0 0 []"] by auto
qed

section \<open>Unterminated paths\<close>

text \<open>
  The byte behind the end is read when the path of the last band is not terminated: the loop
  tests a character before its position.
\<close>

lemma scan_unterminated: "0 \<notin> set chars \<Longrightarrow> scan_path chars (length chars) = Inl MemFault"
  by (induction chars) auto

lemma scan_to_end: "0 \<notin> set chars \<Longrightarrow> scan_path (chars @ c # rest) (length chars) = Inr (length chars)"
  by (induction chars) auto

lemma le_word_single: "le_word [b] = (b :: byte)"
  by simp

lemma band_overreads:
  assumes "t AND BANDTYPE_PIXTYPE_MASK < pixtype_code PT_END" "has_bits t BANDTYPE_FLAG_OFFDB"
    and "rt_pixtype_size (pixtype_of_code (t AND BANDTYPE_PIXTYPE_MASK)) = Inr (length nd)" "chars \<noteq> []" "0 \<notin> set chars"
    and wkb: "wkb = pre @ t # nd @ n # chars"
  shows "rt_band_from_wkb w h wkb (length wkb) le (length pre) = Inl MemFault"
    "rt_band_from_wkb w h (wkb @ c # rest) (length wkb) le (length pre) =
      Inl (LwError ''rt_band_from_wkb: Premature end of WKB on band offline path reading'')"
proof -
  have len: "length wkb = length pre + length nd + length chars + 2" by (simp add: wkb)
  have p: "chars = hd chars # tl chars" "0 < length chars" using assms(4) by simp_all
  have at: "mem_at (wkb @ xs) (length pre) 1 = Inr [t]"
    "read_bytes b (wkb @ xs) (length pre + 1) (length nd) = Inr (if b then nd else rev nd)"
    "mem_at (wkb @ xs) (length pre + 1 + length nd) 1 = Inr [n]"
    "drop (length pre + 1 + length nd + 1) (wkb @ xs) = chars @ xs" for xs b
    by (simp_all add: wkb mem_at_def read_bytes_def)
  have end_at: "length wkb - (length pre + 1 + length nd + 1) = length chars" by (simp add: len)
  note at0 = at [where xs = "[]", unfolded append_Nil2]
  have tests: "\<not> int (length wkb) - int (length pre) < 1" "\<not> t AND BANDTYPE_PIXTYPE_MASK \<ge> pixtype_code PT_END"
    "\<not> length pre + 1 + length nd \<ge> length wkb" "\<not> length pre + 1 + length nd + 1 \<ge> length wkb"
    "length pre + 1 + length nd + 1 + length chars \<ge> length wkb"
    using assms(1,4) by (simp_all add: len)
  note rd = rt_band_from_wkb_def Let_def end_at tests assms(2,3) require_def le_word_single bindE_Inr bindE_Inl
    if_False scan_unterminated [OF assms(5)] scan_to_end [OF assms(5)]
  show "rt_band_from_wkb w h wkb (length wkb) le (length pre) = Inl MemFault"
    by (simp only: rd at0 if_True simp_thms)
  show "rt_band_from_wkb w h (wkb @ c # rest) (length wkb) le (length pre) =
      Inl (LwError ''rt_band_from_wkb: Premature end of WKB on band offline path reading'')"
    by (simp only: rd at if_True simp_thms)
qed

text \<open>
  C40. Whatever the header, the band and the path are: when the input is a raster of version 0 with one band that is
  out-db, of a known type, and its path is not empty and not terminated, reading it from a buffer of
  exactly its size, as the one made for the hexadecimal form, reads outside the buffer. With any byte behind the buffer the same
  input is the error that was intended.
\<close>

theorem rt_raster_from_wkb_overreads:
  assumes "length hdr = RT_WKB_HDR_SZ"
    and "\<exists>v. read_bytes (hdr ! 0 \<noteq> 0) hdr 1 2 = Inr v \<and> (le_word v :: u16) = 0"
    and "\<exists>nb. read_bytes (hdr ! 0 \<noteq> 0) hdr 3 2 = Inr nb \<and> (le_word nb :: u16) = 1"
    and "t AND BANDTYPE_PIXTYPE_MASK < pixtype_code PT_END" "has_bits t BANDTYPE_FLAG_OFFDB"
    and "rt_pixtype_size (pixtype_of_code (t AND BANDTYPE_PIXTYPE_MASK)) = Inr (length nd)" "chars \<noteq> []" "0 \<notin> set chars"
  shows "let wkb = hdr @ t # nd @ n # chars in
    rt_raster_from_wkb fresh wkb (length wkb) = Inl MemFault \<and>
    rt_raster_from_wkb fresh (wkb @ c # rest) (length wkb) =
      Inl (LwError ''rt_band_from_wkb: Premature end of WKB on band offline path reading'')"
proof -
  define wkb where "wkb = hdr @ t # nd @ n # chars"
  have hdr: "length hdr = 61" using assms(1) by (simp add: RT_WKB_HDR_SZ_def)
  note band = band_overreads [OF assms(4-8) wkb_def, unfolded hdr]
  have rd: "read_bytes b (wkb @ xs) p k = read_bytes b hdr p k" if "p + k \<le> 61" for b xs p k
    using that hdr by (simp add: read_bytes_def mem_at_def wkb_def)
  have some: "\<exists>d. read_bytes b hdr p k = Inr d" if "p + k \<le> 61" for b p k
    using that hdr by (simp add: read_bytes_def mem_at_def)
  obtain v nb where v: "read_bytes (hdr ! 0 \<noteq> 0) hdr 1 2 = Inr v" "(le_word v :: u16) = 0"
    "read_bytes (hdr ! 0 \<noteq> 0) hdr 3 2 = Inr nb" "(le_word nb :: u16) = 1" using assms(2,3) by blast
  let ?b = "hdr ! 0 \<noteq> 0"
  obtain sx sy ix iy kx ky srid w h where f: "read_bytes ?b hdr 5 8 = Inr sx" "read_bytes ?b hdr 13 8 = Inr sy"
    "read_bytes ?b hdr 21 8 = Inr ix" "read_bytes ?b hdr 29 8 = Inr iy" "read_bytes ?b hdr 37 8 = Inr kx"
    "read_bytes ?b hdr 45 8 = Inr ky" "read_bytes ?b hdr 53 4 = Inr srid" "read_bytes ?b hdr 57 2 = Inr w" "read_bytes ?b hdr 59 2 = Inr h"
    using some [of 5 8] some [of 13 8] some [of 21 8] some [of 29 8] some [of 37 8] some [of 45 8] some [of 53 4] some [of 57 2] some [of 59 2]
    by simp metis
  have e: "mem_at (wkb @ xs) 0 1 = Inr [hdr ! 0]" for xs
    using hdr by (cases hdr) (simp_all add: mem_at_def wkb_def)
  have l: "\<not> length wkb < 61" using hdr by (simp add: wkb_def)
  have raster: "rt_raster_from_wkb fresh (wkb @ xs) (length wkb) = Inl err"
    if "\<And>w h. rt_band_from_wkb w h (wkb @ xs) (length wkb) (hdr ! 0) 61 = Inl err" for xs err
    unfolding rt_raster_from_wkb_def RT_WKB_HDR_SZ_def Let_def e bindE_Inr
    using l v f that by (simp add: rd require_def)
  show ?thesis
    using raster [of "[]" MemFault] raster [of "c # rest"] band unfolding Let_def wkb_def [symmetric] by simp
qed

theorem rt_raster_from_wkb_overreads_witness:
  "rt_raster_from_wkb (plain_raster 0 0 []) ([1, 0, 0, 1, 0] @ replicate 56 0 @ [0x84, 0, 1, 47, 97]) 66 = Inl MemFault"
proof -
  let ?hdr = "[1, 0, 0, 1, 0] @ replicate 56 0 :: byte list"
  have h: "length ?hdr = RT_WKB_HDR_SZ" "\<exists>v. read_bytes (?hdr ! 0 \<noteq> 0) ?hdr 1 2 = Inr v \<and> (le_word v :: u16) = 0"
    "\<exists>nb. read_bytes (?hdr ! 0 \<noteq> 0) ?hdr 3 2 = Inr nb \<and> (le_word nb :: u16) = 1"
    by (simp_all add: RT_WKB_HDR_SZ_def read_bytes_def mem_at_def)
  have b: "(0x84 :: byte) AND BANDTYPE_PIXTYPE_MASK < pixtype_code PT_END" "has_bits (0x84 :: byte) BANDTYPE_FLAG_OFFDB"
    "rt_pixtype_size (pixtype_of_code ((0x84 :: byte) AND BANDTYPE_PIXTYPE_MASK)) = Inr (length [0 :: byte])"
    by (simp_all add: from_wkb_eval)
  from rt_raster_from_wkb_overreads [OF h b, of "[47, 97]" 1 "plain_raster 0 0 []" 0 "[]"] show ?thesis
    by (simp add: Let_def)
qed

end
