(* ===== verification/RasterWKBRT.thy ===== *)
theory RasterWKBRT
  imports RasterWKBOk
begin

text \<open>
  Writing the exchange form of a raster and reading it again, binary and hexadecimal. The
  order is the one of the proofs: the bytes of a band and of a raster, the size that is
  computed beforehand, the writer, the reader, and the two together.
\<close>

section \<open>What is written\<close>

definition wkb_band_image :: "rt_band \<Rightarrow> byte list" where
  "wkb_band_image b =
     band_type_byte (band_pixtype b) (band_offline b) (band_hasnodata b) (band_isnodata b) #
     nodata_bytes (band_pixtype b) (band_nodataval b) @ data_bytes (band_data b)"

definition wkb_image :: "rt_raster \<Rightarrow> byte list" where
  "wkb_image r = (1 # le_bytes 2 (0 :: u16) @ header_tail r) @ concat (map wkb_band_image (bands r))"

lemma add_band_wkb_size_exact:
  assumes "raster_band_ok r b"
  shows "add_band_wkb_size r False b (of_nat n) = Inr (of_nat (n + length (wkb_band_image b)))"
  using assms
  by (auto simp: add_band_wkb_size_def rt_pixtype_size_def raster_band_ok_def wkb_band_image_def algebra_simps
      split: band_data.splits)

lemma bands_wkb_size_exact:
  assumes "\<forall>b \<in> set bs. raster_band_ok r b"
  shows "bands_wkb_size r False bs (of_nat n) = Inr (of_nat (n + length (concat (map wkb_band_image bs))))"
  using assms by (induction bs arbitrary: n) (simp_all add: add_band_wkb_size_exact add.assoc del: of_nat_add)

lemma wkb_size_exact:
  assumes "raster_ok r"
  shows "rt_raster_wkb_size r False = Inr (of_nat (length (wkb_image r)))"
proof -
  have "bands_wkb_size r False (bands r) (of_nat 61) = Inr (of_nat (61 + length (concat (map wkb_band_image (bands r)))))"
    using assms by (intro bands_wkb_size_exact) (simp add: raster_ok_def)
  then show ?thesis
    unfolding rt_raster_wkb_size_def rast_bands_ok [OF assms] RT_WKB_HDR_SZ_def wkb_image_def by simp
qed

lemma band_to_wkb_exact:
  assumes ok: "raster_band_ok r b" and fits: "data_fits b"
  shows "band_to_wkb load r False sz b ret = put sz ret (wkb_band_image b)"
proof -
  have known: "pixtype_known (band_pixtype b)" using ok by (simp add: raster_band_ok_def)
  show ?thesis
  proof (cases "band_data b")
    case (Mem d)
    have "unat (data_size r (pixtype_bytes (band_pixtype b))) = length d"
      using ok fits Mem by (subst data_size_exact) (simp_all add: raster_band_ok_def data_fits_def)
    then show ?thesis
      using Mem known
      by (simp add: band_to_wkb_def rt_pixtype_size_def band_offline_def rt_band_get_data_def mem_at_ok put_def
          wkb_band_image_def Let_def)
  next
    case (Offline n p m)
    then show ?thesis
      using known by (simp add: band_to_wkb_def rt_pixtype_size_def band_offline_def put_def wkb_band_image_def Let_def)
  qed
qed

lemma bands_to_wkb_exact:
  assumes "\<forall>b \<in> set bs. raster_band_ok r b \<and> data_fits b" "length ret + length (concat (map wkb_band_image bs)) \<le> sz"
  shows "bands_to_wkb load r False sz bs ret = Inr (ret @ concat (map wkb_band_image bs))"
  using assms
proof (induction bs arbitrary: ret)
  case (Cons b bs)
  have "put sz ret (wkb_band_image b) = Inr (ret @ wkb_band_image b)" using Cons.prems(2) by (intro put_ok) simp
  moreover have "bands_to_wkb load r False sz bs (ret @ wkb_band_image b) =
      Inr ((ret @ wkb_band_image b) @ concat (map wkb_band_image bs))"
    using Cons.prems by (intro Cons.IH) simp_all
  ultimately show ?case using Cons.prems(1) by (simp add: band_to_wkb_exact)
qed simp

lemma to_wkb_exact:
  assumes ok: "raster_ok r" and fits: "\<forall>b \<in> set (bands r). data_fits b" and small: "length (wkb_image r) < 2 ^ 32"
    and g: "garbage 0 = []"
  shows "rt_raster_to_wkb garbage load r False = Inr (wkb_image r, of_nat (length (wkb_image r)))"
proof -
  let ?h = "1 # le_bytes 2 (0 :: u16) @ header_tail r" and ?sz = "length (wkb_image r)"
  have u: "unat (of_nat ?sz :: u32) = ?sz" using small by (subst unat_of_nat) simp
  have "put ?sz [] ?h = Inr ?h" using put_ok [of "[]" ?h ?sz] by (simp add: wkb_image_def)
  moreover have "bands_to_wkb load r False ?sz (bands r) ?h = Inr (?h @ concat (map wkb_band_image (bands r)))"
    using ok fits by (intro bands_to_wkb_exact) (simp_all add: raster_ok_def wkb_image_def)
  ultimately show ?thesis
    unfolding rt_raster_to_wkb_def wkb_size_exact [OF ok] bindE_Inr u rast_bands_ok [OF ok]
    using g by (simp add: wkb_image_def)
qed

section \<open>Reading it again\<close>

text \<open>A band that was read: its pixels are its own, an out-db band is not loaded.\<close>

definition reread :: "rt_band \<Rightarrow> rt_band" where
  "reread b = b\<lparr>band_ownsdata := \<not> band_offline b,
     band_data := (case band_data b of Offline n p m \<Rightarrow> Offline n p None | Mem d \<Rightarrow> Mem d)\<rparr>"

text \<open>The pixels of a sub-byte type are values of the type.\<close>

definition pixels_valid :: "rt_band \<Rightarrow> bool" where
  "pixels_valid b \<longleftrightarrow> (case band_data b of
     Mem d \<Rightarrow> (\<forall>m. max_pixel (band_pixtype b) = Some m \<longrightarrow> (\<forall>v \<in> set d. v \<le> m)) | Offline n p m \<Rightarrow> True)"

lemma scan_path_exact: "0 \<notin> set p \<Longrightarrow> length p \<le> left \<Longrightarrow> scan_path (p @ 0 # rest) left = Inr (length p)"
  by (induction p arbitrary: left) auto

lemma require_ok: "c \<Longrightarrow> bindE (require c m) f = f ()"
  by (simp add: require_def)

text \<open>The part of a band before its data, read from anything that follows.\<close>

lemma read_band_start:
  fixes pre b
  defines "t \<equiv> band_type_byte (band_pixtype b) (band_offline b) (band_hasnodata b) (band_isnodata b)"
    and "nd \<equiv> nodata_bytes (band_pixtype b) (band_nodataval b)"
  shows "mem_at (pre @ (t # nd @ d) @ rest) (length pre) 1 = Inr [t]"
    "read_bytes True (pre @ (t # nd @ d) @ rest) (length pre + 1) (pixtype_bytes (band_pixtype b)) = Inr nd"
    "drop (length pre + 1 + pixtype_bytes (band_pixtype b)) (pre @ (t # nd @ d) @ rest) = d @ rest"
proof -
  let ?n = "pixtype_bytes (band_pixtype b)" and ?s = "pre @ (t # nd @ d) @ rest"
  have s: "?s = pre @ [t] @ (nd @ d @ rest)" "?s = (pre @ [t]) @ nd @ (d @ rest)" "?s = (pre @ [t] @ nd) @ (d @ rest)" by simp_all
  show "mem_at ?s (length pre) 1 = Inr [t]" unfolding s(1) by (rule mem_at_append) simp_all
  have "mem_at ?s (length pre + 1) ?n = Inr nd" unfolding s(2) by (rule mem_at_append) (simp_all add: nd_def)
  then show "read_bytes True ?s (length pre + 1) ?n = Inr nd" by (simp add: read_bytes_def)
  have "length pre + 1 + ?n = length (pre @ [t] @ nd)" by (simp add: nd_def)
  then show "drop (length pre + 1 + ?n) ?s = d @ rest" unfolding s(3) by (metis append_eq_conv_conj)
qed

lemma band_from_wkb_exact:
  assumes ok: "raster_band_ok r b" and valid: "pixels_valid b" and more: "data_bytes (band_data b) \<noteq> [] \<or> rest \<noteq> []"
  shows "rt_band_from_wkb (rast_width r) (rast_height r) (pre @ wkb_band_image b @ rest)
      (length (pre @ wkb_band_image b @ rest)) 1 (length pre) = Inr (reread b, length (pre @ wkb_band_image b))"
proof -
  let ?pt = "band_pixtype b" and ?n = "pixtype_bytes (band_pixtype b)" and ?d = "data_bytes (band_data b)"
  let ?t = "band_type_byte ?pt (band_offline b) (band_hasnodata b) (band_isnodata b)"
  let ?nd = "nodata_bytes ?pt (band_nodataval b)" and ?s = "pre @ wkb_band_image b @ rest"
  define q where "q = length pre + 1 + ?n"
  have known: "pixtype_known ?pt" and nf: "nodata_read ?pt ?nd = band_nodataval b" and isn: "band_isnodata b \<Longrightarrow> band_hasnodata b"
    using ok by (simp_all add: raster_band_ok_def nodata_fits_def)
  note ty = band_type_byte_fields [OF known, of "band_offline b" "band_hasnodata b" "band_isnodata b"]
  note start = read_band_start [of pre b ?d rest, folded wkb_band_image_def, folded q_def]
  have len: "length ?s = q + length ?d + length rest" by (simp add: wkb_band_image_def q_def)
  have c1: "\<not> int (length ?s) - int (length pre) < 1" by (simp add: wkb_band_image_def)
  have c2: "\<not> length ?s \<le> q" using more unfolding len by auto
  have c3: "\<not> pixtype_code PT_END \<le> ?t AND BANDTYPE_PIXTYPE_MASK" using ty(2) by simp
  have sz: "rt_pixtype_size ?pt = Inr ?n" by (simp add: rt_pixtype_size_def known)
  have le: "((1 :: byte) \<noteq> 0) = True" "((1 :: byte) \<noteq> 1) = False" by simp_all
  let ?b = "\<lparr>band_pixtype = ?pt, band_width = rast_width r, band_height = rast_height r, band_hasnodata = band_hasnodata b,
      band_isnodata = band_isnodata b, band_nodataval = band_nodataval b,
      band_ownsdata = False, band_data = Mem []\<rparr>"
  have end_len: "length (pre @ wkb_band_image b) = q + length ?d" by (simp add: wkb_band_image_def q_def)
  have isn': "(if band_hasnodata b then band_isnodata b else False) = band_isnodata b" using isn by auto
  have w: "le_word [?t] = ?t" by simp
  have head: "rt_band_from_wkb (rast_width r) (rast_height r) ?s (length ?s) 1 (length pre) =
    (if band_offline b then
       bindE (require (\<not> q + 1 \<ge> length ?s)
         ''rt_band_from_wkb: Premature end of WKB on offline band data bandNum reading (%s:%d)'') (\<lambda>_.
       bindE (mem_at ?s q 1) (\<lambda>n.
       bindE (scan_path (drop (q + 1) ?s) (length ?s - (q + 1))) (\<lambda>sz.
       bindE (require (\<not> q + 1 + sz \<ge> length ?s)
         ''rt_band_from_wkb: Premature end of WKB on band offline path reading'') (\<lambda>_.
       bindE (mem_at ?s (q + 1) sz) (\<lambda>path. Inr (?b\<lparr>band_data := Offline (le_word n) path None\<rparr>, q + 1 + sz + 1))))))
     else
       bindE (require (\<not> q + unat (rast_width r) * unat (rast_height r) * ?n > length ?s)
         ''rt_band_from_wkb: Premature end of WKB on band data reading (%s:%d)'') (\<lambda>_.
       bindE (mem_at ?s q (unat (rast_width r) * unat (rast_height r) * ?n)) (\<lambda>d.
       if ?n > 1 then Inr (?b\<lparr>band_ownsdata := True, band_data := Mem d\<rparr>, q + unat (rast_width r) * unat (rast_height r) * ?n)
       else
         bindE (require (case max_pixel ?pt of None \<Rightarrow> True | Some maxVal \<Rightarrow> \<forall>val \<in> set d. \<not> val > maxVal)
           ''rt_band_from_wkb: Invalid value %d for pixel of type %s'') (\<lambda>_.
         Inr (?b\<lparr>band_ownsdata := True, band_data := Mem d\<rparr>, q + unat (rast_width r) * unat (rast_height r) * ?n)))))"
    unfolding rt_band_from_wkb_def Let_def require_ok [OF c1] start(1) bindE_Inr w require_ok [OF c3] ty sz q_def [symmetric]
      require_ok [OF c2] le start(2) nf if_False isn' by (rule refl)
  show ?thesis
  proof (cases "band_data b")
    case (Mem d)
    have d: "unat (rast_width r) * unat (rast_height r) * ?n = length d" using ok Mem by (simp add: raster_band_ok_def)
    have m: "mem_at ?s q (length d) = Inr d" using start(3) Mem len by (simp add: mem_at_def)
    have v: "case max_pixel ?pt of None \<Rightarrow> True | Some maxVal \<Rightarrow> \<forall>val \<in> set d. \<not> val > maxVal"
      using valid Mem by (auto simp: pixels_valid_def not_less split: option.split)
    have b: "?b\<lparr>band_ownsdata := True, band_data := Mem d\<rparr> = reread b"
      using ok Mem by (cases b) (simp add: reread_def raster_band_ok_def band_offline_def)
    have "\<not> band_offline b" using Mem by (simp add: band_offline_def)
    then show ?thesis unfolding head d m b end_len using b Mem len v by (simp add: require_def)
  next
    case (Offline n p m)
    have d: "drop q ?s = n # p @ 0 # rest" using start(3) Offline by simp
    have "drop (q + 1) ?s = drop 1 (drop q ?s)" by (simp only: drop_drop add.commute)
    then have d1: "drop (q + 1) ?s = p @ 0 # rest" unfolding d by simp
    have m: "mem_at ?s q 1 = Inr [n]" "mem_at ?s (q + 1) (length p) = Inr p"
      using len Offline by (simp_all only: mem_at_def d d1) simp_all
    have p: "0 \<notin> set p" using ok Offline by (simp add: raster_band_ok_def)
    have sc: "scan_path (drop (q + 1) ?s) (length ?s - (q + 1)) = Inr (length p)"
      unfolding d1 using p len Offline by (intro scan_path_exact) simp_all
    have b: "?b\<lparr>band_data := Offline n p None\<rparr> = reread b"
      using ok Offline by (cases b) (simp add: reread_def raster_band_ok_def band_offline_def)
    have "band_offline b" "le_word [n] = n" using Offline by (simp_all add: band_offline_def)
    then show ?thesis unfolding head m sc end_len using b Offline len m by (simp add: require_def)
  qed
qed

lemma bands_from_wkb_exact:
  assumes "\<forall>b \<in> set bs. raster_band_ok r b \<and> pixels_valid b"
    and "\<forall>b \<in> set bs. data_bytes (band_data b) \<noteq> [] \<or> rest \<noteq> []"
  shows "bands_from_wkb (rast_width r) (rast_height r) (pre @ concat (map wkb_band_image bs) @ rest)
      (length (pre @ concat (map wkb_band_image bs) @ rest)) 1 (length bs) (length pre) = Inr (map reread bs)"
  using assms
proof (induction bs arbitrary: pre)
  case (Cons b bs)
  let ?s = "pre @ concat (map wkb_band_image (b # bs)) @ rest"
  have s: "?s = pre @ wkb_band_image b @ (concat (map wkb_band_image bs) @ rest)"
    "?s = (pre @ wkb_band_image b) @ concat (map wkb_band_image bs) @ rest" by simp_all
  have b: "rt_band_from_wkb (rast_width r) (rast_height r) ?s (length ?s) 1 (length pre) =
      Inr (reread b, length (pre @ wkb_band_image b))"
    unfolding s(1) using Cons.prems by (intro band_from_wkb_exact) auto
  have bs: "bands_from_wkb (rast_width r) (rast_height r) ?s (length ?s) 1 (length bs) (length (pre @ wkb_band_image b)) =
      Inr (map reread bs)"
    unfolding s(2) using Cons.prems by (intro Cons.IH) auto
  show ?case
    unfolding length_Cons bands_from_wkb.simps(2) b bindE_Inr prod.case bs by simp
qed simp

text \<open>The header fields, read from the bytes that \<open>rt_raster_to_wkb\<close> copies from the struct.\<close>

lemma header_wkb_exact:
  assumes srid: "clamp_srid (sint (rast_srid r)) = sint (rast_srid r)"
  shows "rt_raster_from_wkb fresh (wkb_image r @ rest) (length (wkb_image r @ rest)) =
    bindE (bands_from_wkb (rast_width r) (rast_height r) (wkb_image r @ rest) (length (wkb_image r @ rest)) 1
      (unat (numBands r)) 61)
      (\<lambda>bs. Inr (r\<lparr>rast_size := rast_size fresh, rast_version := rast_version fresh, bands := bs\<rparr>))"
proof -
  define S where "S = wkb_image r @ rest"
  have s: "S = 1 # le_bytes 2 (0 :: u16) @ header_tail r @ (concat (map wkb_band_image (bands r)) @ rest)"
    by (simp add: S_def wkb_image_def)
  have len: "\<not> length S < 61" unfolding s by simp
  have sr: "(word_of_int (clamp_srid (sint (rast_srid r))) :: u32) = rast_srid r" unfolding srid by simp
  have rd: "read_bytes True S p n = Inr (take n (drop p S))" if "p + n \<le> 61" for p n
    using that len by (simp add: read_bytes_eval)
  have m: "mem_at S 0 1 = Inr [1]" by (simp add: mem_at_def s)
  have le: "((1 :: byte) \<noteq> 0) = True" "le_word [1 :: byte] = (1 :: byte)" by simp_all
  have h: "le_word (take 2 (drop 1 S)) = (0 :: u16)"
    "le_word (take 2 (drop 3 S)) = numBands r" "le_word (take 8 (drop 5 S)) = scaleX r"
    "le_word (take 8 (drop 13 S)) = scaleY r" "le_word (take 8 (drop 21 S)) = ipX r"
    "le_word (take 8 (drop 29 S)) = ipY r" "le_word (take 8 (drop 37 S)) = skewX r"
    "le_word (take 8 (drop 45 S)) = skewY r" "le_word (take 4 (drop 53 S)) = rast_srid r"
    "le_word (take 2 (drop 57 S)) = rast_width r" "le_word (take 2 (drop 59 S)) = rast_height r"
    unfolding s header_tail_def by (simp_all add: le_word_le_bytes_full)
  have eq: "fresh\<lparr>numBands := numBands r, scaleX := scaleX r, scaleY := scaleY r, ipX := ipX r, ipY := ipY r,
      skewX := skewX r, skewY := skewY r, rast_srid := rast_srid r, rast_width := rast_width r,
      rast_height := rast_height r, bands := bs\<rparr> =
    r\<lparr>rast_size := rast_size fresh, rast_version := rast_version fresh, bands := bs\<rparr>" for bs
    by (cases r, cases fresh) simp
  show ?thesis unfolding S_def [symmetric]
    unfolding rt_raster_from_wkb_def RT_WKB_HDR_SZ_def Let_def m bindE_Inr le
    using len by (simp add: require_ok rd h h(1) [unfolded One_nat_def] sr eq)
qed

lemma from_wkb_exact:
  assumes ok: "raster_ok r" and valid: "\<forall>b \<in> set (bands r). pixels_valid b"
    and srid: "clamp_srid (sint (rast_srid r)) = sint (rast_srid r)"
    and px: "0 < unat (rast_width r) * unat (rast_height r)"
  shows "rt_raster_from_wkb fresh (wkb_image r) (length (wkb_image r)) =
    Inr (r\<lparr>rast_size := rast_size fresh, rast_version := rast_version fresh, bands := map reread (bands r)\<rparr>)"
proof -
  have n: "unat (numBands r) = length (bands r)" using ok by (simp add: raster_ok_def)
  have "data_bytes (band_data b) \<noteq> []" if "b \<in> set (bands r)" for b
  proof (cases "band_data b")
    case (Mem d)
    have "raster_band_ok r b" using ok that by (simp add: raster_ok_def)
    moreover from this have "0 < pixtype_bytes (band_pixtype b)" by (simp add: raster_band_ok_def pixtype_bytes_pos)
    ultimately have "0 < length d" using px Mem by (simp add: raster_band_ok_def)
    then show ?thesis using Mem by simp
  qed simp
  then have bs: "bands_from_wkb (rast_width r) (rast_height r)
      ((1 # le_bytes 2 (0 :: u16) @ header_tail r) @ concat (map wkb_band_image (bands r)) @ [])
      (length ((1 # le_bytes 2 (0 :: u16) @ header_tail r) @ concat (map wkb_band_image (bands r)) @ [])) 1
      (length (bands r)) (length (1 # le_bytes 2 (0 :: u16) @ header_tail r)) = Inr (map reread (bands r))"
    using ok valid by (intro bands_from_wkb_exact) (simp_all add: raster_ok_def)
  have "length (1 # le_bytes 2 (0 :: u16) @ header_tail r) = 61" by simp
  then show ?thesis
    using header_wkb_exact [OF srid, of fresh "[]"] bs unfolding n wkb_image_def append_Nil2 by simp
qed

section \<open>Hexadecimal\<close>

lemma hex_digit_chars: "n < 16 \<Longrightarrow> hex_digit (hex_chars ! n) = of_nat n"
proof -
  have "\<forall>n \<in> set [0..<16]. hex_digit (hex_chars ! n) = of_nat n"
    by (simp add: hex_digit_def hex_chars_def upt_rec)
  then show "n < 16 \<Longrightarrow> hex_digit (hex_chars ! n) = of_nat n" by simp
qed

lemma parse_hex_chars: "parse_hex (hex_chars ! unat (drop_bit 4 v)) (hex_chars ! unat (v AND 0x0F)) = v"
proof -
  have m: "v AND 0x0F = take_bit 4 v" by (simp add: take_bit_eq_mask mask_eq_exp_minus_1)
  have "unat (drop_bit 4 v) = unat v div 16" by (simp only: unat_drop_bit_eq) (simp add: drop_bit_eq_div)
  then have "unat (drop_bit 4 v) < 16" using unsigned_less [where w = v and 'a = nat] by simp
  moreover have "unat (take_bit 4 v) < 16" using take_bit_nat_less_exp [of 4 "unat v"] by (simp add: unsigned_take_bit_eq)
  ultimately have "parse_hex (hex_chars ! unat (drop_bit 4 v)) (hex_chars ! unat (v AND 0x0F)) =
      push_bit 4 (drop_bit 4 v) + take_bit 4 v"
    by (simp add: parse_hex_def hex_digit_chars m)
  then show ?thesis by (simp add: bits_ident)
qed

lemma parse_full_hex_chars:
  "parse_full_hex (concat (map (\<lambda>v. [hex_chars ! unat (drop_bit 4 v), hex_chars ! unat (v AND 0x0F)]) bs)) = bs"
  by (induction bs) (simp_all add: parse_hex_chars)

lemma length_hex: "length (concat (map (\<lambda>v. [f v, g v]) bs)) = 2 * length bs"
  by (induction bs) simp_all

text \<open>
  C8. Writing a raster that has pixels in the exchange form and reading it gives it back, in
  binary and in hexadecimal: every header field, pixel and NODATA value. The size of the struct
  and its version are not part of the form; out-db bands lose loaded pixels.
\<close>

theorem rt_raster_wkb_roundtrip:
  assumes "raster_ok r" "\<forall>b \<in> set (bands r). data_fits b \<and> pixels_valid b" "2 * length (wkb_image r) + 1 < 2 ^ 32"
    and "clamp_srid (sint (rast_srid r)) = sint (rast_srid r)" "0 < unat (rast_width r) * unat (rast_height r)"
    and "garbage 0 = []"
  shows "\<exists>wkb hex. rt_raster_to_wkb garbage load r False = Inr (wkb, of_nat (length wkb)) \<and>
    rt_raster_to_hexwkb garbage load r False = Inr hex \<and> rt_raster_from_hexwkb fresh hex = rt_raster_from_wkb fresh wkb (length wkb) \<and>
    rt_raster_from_wkb fresh wkb (length wkb) =
      Inr (r\<lparr>rast_size := rast_size fresh, rast_version := rast_version fresh, bands := map reread (bands r)\<rparr>)"
proof -
  let ?s = "wkb_image r"
  let ?hex = "concat (map (\<lambda>v. [hex_chars ! unat (drop_bit 4 v), hex_chars ! unat (v AND 0x0F)]) ?s)"
  have w: "rt_raster_to_wkb garbage load r False = Inr (?s, of_nat (length ?s))"
    using assms by (intro to_wkb_exact) auto
  have u: "unat (of_nat (length ?s) :: u32) = length ?s" using assms(3) by (subst unat_of_nat) simp
  have u2: "unat (of_nat (length ?s) * 2 + 1 :: u32) = 2 * length ?s + 1"
  proof -
    have "(of_nat (length ?s) * 2 + 1 :: u32) = of_nat (2 * length ?s + 1)" by simp
    then show ?thesis using assms(3) by (simp only:) (subst unat_of_nat, simp)
  qed
  have "rt_raster_to_hexwkb garbage load r False = Inr ?hex"
    unfolding rt_raster_to_hexwkb_def w bindE_Inr prod.case u u2 Let_def by (simp add: mem_at_ok put_def length_hex)
  moreover have "rt_raster_from_hexwkb fresh ?hex = rt_raster_from_wkb fresh ?s (length ?s)"
    by (simp add: rt_raster_from_hexwkb_def length_hex parse_full_hex_chars require_def Let_def)
  ultimately show ?thesis using w from_wkb_exact [OF assms(1) _ assms(4,5), of fresh] assms(2) by blast
qed

theorem rt_raster_wkb_roundtrip_witness:
  "\<exists>wkb hex r'. rt_raster_to_hexwkb (\<lambda>n. []) (\<lambda>b. None) (plain_raster 2 1 [(PT_4BUI, Mem [7, 9]), (PT_16BF, Offline 1 [47, 97] None)]) False =
      Inr hex \<and> rt_raster_from_hexwkb (plain_raster 0 0 []) hex = Inr r' \<and>
    map band_data (bands r') = [Mem [7, 9], Offline 1 [47, 97] None] \<and> rast_srid r' = 4326"
proof -
  let ?r = "plain_raster 2 1 [(PT_4BUI, Mem [7, 9]), (PT_16BF, Offline 1 [47, 97] None)]"
  have ok: "raster_ok ?r" "\<forall>b \<in> set (bands ?r). data_fits b"
    using plain_raster_ok [of "[(PT_4BUI, Mem [7, 9]), (PT_16BF, Offline 1 [47, 97] None)]" 2 1]
    by (auto simp: pixtype_known_def)
  have v: "\<forall>b \<in> set (bands ?r). data_fits b \<and> pixels_valid b"
    using ok(2) by (simp add: plain_raster_def plain_band_def Let_def pixels_valid_def)
  have l: "2 * length (wkb_image ?r) + 1 < 2 ^ 32"
    by (simp add: wkb_image_def plain_raster_def plain_band_def wkb_band_image_def Let_def)
  have s: "clamp_srid (sint (rast_srid ?r)) = sint (rast_srid ?r)" "0 < unat (rast_width ?r) * unat (rast_height ?r)"
    by (simp_all add: plain_raster_def Let_def clamp_srid_def)
  from rt_raster_wkb_roundtrip [OF ok(1) v l s, of "\<lambda>n. []" "\<lambda>b. None" "plain_raster 0 0 []"] show ?thesis
    by (auto simp: plain_raster_def plain_band_def reread_def Let_def)
qed

text \<open>
  A raster without pixels (width or height 0) that has a band is written, but what was written is
  refused: the check behind the NODATA value demands one more byte although no data follows.
\<close>

theorem rt_raster_from_wkb_rejects_empty:
  assumes ok: "raster_ok r" and px: "unat (rast_width r) * unat (rast_height r) = 0"
    and b: "bands r = [b]" "band_data b = Mem d" and g: "garbage 0 = []"
    and srid: "clamp_srid (sint (rast_srid r)) = sint (rast_srid r)"
  shows "\<exists>wkb. rt_raster_to_wkb garbage load r False = Inr (wkb, of_nat (length wkb)) \<and>
    rt_raster_from_wkb fresh wkb (length wkb) =
      Inl (LwError ''rt_band_from_wkb: Premature end of WKB on band novalue reading'')"
proof -
  let ?n = "pixtype_bytes (band_pixtype b)" and ?pre = "1 # le_bytes 2 (0 :: u16) @ header_tail r"
  have bok: "raster_band_ok r b" using ok b by (simp add: raster_ok_def)
  then have known: "pixtype_known (band_pixtype b)" by (simp add: raster_band_ok_def)
  have d: "d = []" using bok b(2) px by (auto simp: raster_band_ok_def)
  have n8: "?n \<le> 8" using known by (cases "band_pixtype b") (simp_all add: pixtype_known_def)
  have img: "wkb_image r = ?pre @ wkb_band_image b @ []" using b by (simp add: wkb_image_def)
  have len: "length (wkb_image r) = 62 + ?n" using b d by (simp add: img wkb_band_image_def)
  have w: "rt_raster_to_wkb garbage load r False = Inr (wkb_image r, of_nat (length (wkb_image r)))"
    using ok b d g n8 by (intro to_wkb_exact) (simp_all add: data_fits_def len)
  have n1: "unat (numBands r) = Suc 0" using ok b by (simp add: raster_ok_def)
  let ?t = "band_type_byte (band_pixtype b) (band_offline b) (band_hasnodata b) (band_isnodata b)"
  note ty = band_type_byte_fields [OF known, of "band_offline b" "band_hasnodata b" "band_isnodata b"]
  have m: "mem_at (wkb_image r) 61 1 = Inr [?t]"
    using read_band_start(1) [where pre = ?pre and b = b and d = "[]" and rest = "[]"] b d by (simp add: img wkb_band_image_def)
  have t: "le_word [?t] = ?t" by simp
  have "rt_band_from_wkb (rast_width r) (rast_height r) (wkb_image r) (length (wkb_image r)) 1 61 =
      Inl (LwError ''rt_band_from_wkb: Premature end of WKB on band novalue reading'')"
    unfolding rt_band_from_wkb_def m bindE_Inr Let_def t ty rt_pixtype_size_def if_P [OF known] len
    using ty(2) by (simp add: require_def)
  then show ?thesis
    using header_wkb_exact [OF srid, of fresh "[]"] w by (simp add: n1)
qed

theorem rt_raster_from_wkb_rejects_empty_witness:
  "\<exists>wkb. rt_raster_to_wkb (\<lambda>n. []) (\<lambda>b. None) (plain_raster 0 7 [(PT_8BUI, Mem [])]) False = Inr (wkb, of_nat (length wkb)) \<and>
    rt_raster_from_wkb (plain_raster 0 0 []) wkb (length wkb) =
      Inl (LwError ''rt_band_from_wkb: Premature end of WKB on band novalue reading'')"
proof (rule rt_raster_from_wkb_rejects_empty)
  let ?r = "plain_raster 0 7 [(PT_8BUI, Mem [])]"
  show "raster_ok ?r" using plain_raster_ok [of "[(PT_8BUI, Mem [])]" 0 7] by (auto simp: pixtype_known_def)
  show "bands ?r = [plain_band ?r PT_8BUI (Mem [])]" "band_data (plain_band ?r PT_8BUI (Mem [])) = Mem []"
    by (simp_all add: plain_raster_def plain_band_def Let_def)
qed (simp_all add: plain_raster_def Let_def clamp_srid_def)

end
