(* ===== verification/PTArray.thy ===== *)
theory PTArray
  imports GBox Float64
begin

text \<open>
  Editing point arrays (liblwgeom/ptarray.c): inserting, removing, joining, reversing and
  thinning out points. The coordinates of an array are one block of doubles; the operations
  copy and move stretches of it. The abstraction is the list of the points, each the list of
  its coordinates, and every operation is the obvious one on that list.
\<close>

section \<open>The list of points\<close>

definition rows :: "pointarray \<Rightarrow> double list list" where
  "rows pa = map (\<lambda>i. pa_point pa i (FLAGS_NDIMS (pflags pa))) [0..<npoints pa]"

abbreviation nd :: "pointarray \<Rightarrow> nat" where "nd pa \<equiv> FLAGS_NDIMS (pflags pa)"

lemma length_rows [simp]: "length (rows pa) = npoints pa"
  by (simp add: rows_def)

lemma concat_blocks:
  "length d = n * k \<Longrightarrow> concat (map (\<lambda>i. take k (drop (i * k) d)) [0..<n]) = d"
proof (induction n arbitrary: d)
  case (Suc n)
  have "concat (map (\<lambda>i. take k (drop (i * k) d)) [0..<Suc n]) =
      take k d @ concat (map (\<lambda>i. take k (drop (i * k) (drop k d))) [0..<n])"
    by (subst upt_conv_Cons) (simp_all add: map_Suc_upt [symmetric] comp_def add.commute del: upt_Suc)
  also have "\<dots> = d" using Suc.IH [of "drop k d"] Suc.prems by simp
  finally show ?case .
qed simp

lemma block_concat:
  assumes "\<And>r. r \<in> set rs \<Longrightarrow> length r = k" "i < length rs"
  shows "take k (drop (i * k) (concat rs)) = rs ! i"
  using assms
proof (induction rs arbitrary: i)
  case (Cons r rs)
  have r: "length r = k" using Cons.prems(1) by simp
  show ?case
  proof (cases i)
    case (Suc j)
    then have "take k (drop (j * k) (concat rs)) = rs ! j" using Cons.prems by (intro Cons.IH) simp_all
    then show ?thesis using Suc r by simp
  qed (use r in simp)
qed simp

lemma take_concat: "(\<And>r. r \<in> set rs \<Longrightarrow> length r = k) \<Longrightarrow> i \<le> length rs \<Longrightarrow> take (i * k) (concat rs) = concat (take i rs)"
proof (induction rs arbitrary: i)
  case (Cons r rs)
  then show ?case by (cases i) simp_all
qed simp

lemma drop_concat: "(\<And>r. r \<in> set rs \<Longrightarrow> length r = k) \<Longrightarrow> i \<le> length rs \<Longrightarrow> drop (i * k) (concat rs) = concat (drop i rs)"
proof (induction rs arbitrary: i)
  case (Cons r rs)
  then show ?case by (cases i) simp_all
qed simp

lemma length_concat_blocks: "(\<And>r. r \<in> set rs \<Longrightarrow> length r = k) \<Longrightarrow> length (concat rs) = length rs * k"
  by (induction rs) simp_all

text \<open>A well-formed array is its list of points, and a list of points is an array.\<close>

lemma rows_concat: "pa_wf pa \<Longrightarrow> concat (rows pa) = ptlist pa"
  by (simp add: rows_def pa_point_def concat_blocks pa_wf_def)

lemma rows_length: "pa_wf pa \<Longrightarrow> r \<in> set (rows pa) \<Longrightarrow> length r = nd pa"
  by (auto simp: rows_def length_pa_point)

lemma rows_construct:
  assumes "ptlist pa = concat rs" "npoints pa = length rs" "\<And>r. r \<in> set rs \<Longrightarrow> length r = nd pa" "length rs < 2 ^ 32"
  shows "pa_wf pa \<and> rows pa = rs"
proof -
  have "rows pa = map ((!) rs) [0..<length rs]"
    using assms(1-3) by (auto simp: rows_def pa_point_def block_concat)
  then show ?thesis
    using assms by (simp add: pa_wf_def length_concat_blocks [of rs "nd pa"] map_nth)
qed

section \<open>Single points\<close>

text \<open>A \<open>POINT4D\<close> is the list of its four members; \<open>getPoint4d_p\<close> calls \<open>lwerror\<close> out of range.\<close>

definition getPoint4d_checked :: "pointarray \<Rightarrow> nat \<Rightarrow> lwerr + double list" where
  "getPoint4d_checked pa n =
     bindE (require (\<not> n \<ge> npoints pa) ''%s [%d] called with n=%d and npoints=%d'') (\<lambda>_.
     if Suc n * nd pa \<le> length (ptlist pa) then Inr (getPoint4d_p pa n) else Inl MemFault)"

definition point_doubles :: "u16 \<Rightarrow> double list \<Rightarrow> double list" where
  "point_doubles f p =
     (if hasz f then (if hasm f then p else take 3 p) else if hasm f then take 2 p @ [p ! 3] else take 2 p)"

definition store :: "'a list \<Rightarrow> nat \<Rightarrow> 'a list \<Rightarrow> lwerr + 'a list" where
  "store l k xs = (if k + length xs \<le> length l then Inr (take k l @ xs @ drop (k + length xs) l) else Inl MemFault)"

definition ptarray_set_point4d :: "pointarray \<Rightarrow> nat \<Rightarrow> double list \<Rightarrow> lwerr + pointarray" where
  "ptarray_set_point4d pa n p =
     bindE (require (n < npoints pa) ''assertion'') (\<lambda>_.
     bindE (store (ptlist pa) (n * nd pa) (point_doubles (pflags pa) p)) (\<lambda>l. Inr (pa\<lparr>ptlist := l\<rparr>)))"

definition ptarray_copy_point :: "pointarray \<Rightarrow> nat \<Rightarrow> nat \<Rightarrow> lwerr + pointarray" where
  "ptarray_copy_point pa from to =
     (if Suc from * nd pa \<le> length (ptlist pa)
      then bindE (store (ptlist pa) (to * nd pa) (pa_point pa from (nd pa))) (\<lambda>l. Inr (pa\<lparr>ptlist := l\<rparr>))
      else Inl MemFault)"

text \<open>
  The gap of the moved points has any content (0 here) and is overwritten. An array without
  storage starts afresh.
\<close>

definition ptarray_insert_point :: "pointarray \<Rightarrow> double list \<Rightarrow> nat \<Rightarrow> lwerr + pointarray" where
  "ptarray_insert_point pa p where =
     bindE (require (\<not> has_bits (pflags pa) LWFLAG_READONLY) ''ptarray_insert_point: called on read-only point array'') (\<lambda>_.
     bindE (require (\<not> where > npoints pa) ''ptarray_insert_point: offset out of range (%d)'') (\<lambda>_.
     let pa = (if maxpoints pa = 0 then pa\<lparr>maxpoints := 32, npoints := 0, ptlist := []\<rparr> else pa) in
     bindE (require (\<not> npoints pa > maxpoints pa) ''npoints (%d) is greater than maxpoints (%d)'') (\<lambda>_.
     let pa = (if npoints pa = maxpoints pa then pa\<lparr>maxpoints := maxpoints pa * 2 mod 2 ^ 32\<rparr> else pa) in
     if npoints pa \<ge> maxpoints pa then Inl MemFault
     else
       let k = where * nd pa;
           pa = pa\<lparr>ptlist := take k (ptlist pa) @ replicate (nd pa) 0 @ drop k (ptlist pa), npoints := npoints pa + 1\<rparr>
       in ptarray_set_point4d pa where p)))"

definition ptarray_append_point :: "pointarray \<Rightarrow> double list \<Rightarrow> bool \<Rightarrow> lwerr + pointarray" where
  "ptarray_append_point pa pt repeated_points =
     bindE (if \<not> repeated_points \<and> npoints pa > 0 then
              bindE (getPoint4d_checked pa (npoints pa - 1)) (\<lambda>tmp.
              Inr (dbl_eq (pt ! 0) (tmp ! 0) \<and> dbl_eq (pt ! 1) (tmp ! 1) \<and>
                   (hasz (pflags pa) \<longrightarrow> dbl_eq (pt ! 2) (tmp ! 2)) \<and> (hasm (pflags pa) \<longrightarrow> dbl_eq (pt ! 3) (tmp ! 3))))
            else Inr False) (\<lambda>dup.
     if dup then Inr pa else ptarray_insert_point pa pt (npoints pa))"

definition ptarray_remove_point :: "pointarray \<Rightarrow> nat \<Rightarrow> lwerr + pointarray" where
  "ptarray_remove_point pa where =
     bindE (require (\<not> where \<ge> npoints pa) ''ptarray_remove_point: offset out of range (%d)'') (\<lambda>_.
     let l = (if where < npoints pa - 1
              then take (where * nd pa) (ptlist pa) @
                   take (nd pa * (npoints pa - where - 1)) (drop ((where + 1) * nd pa) (ptlist pa))
              else take (where * nd pa) (ptlist pa))
     in Inr (pa\<lparr>ptlist := l, npoints := npoints pa - 1\<rparr>))"

section \<open>Whole arrays\<close>

definition ptarray_addPoint :: "pointarray \<Rightarrow> double list \<Rightarrow> nat \<Rightarrow> lwerr + pointarray" where
  "ptarray_addPoint pa p where =
     bindE (require (\<not> (length p < 2 \<or> length p > 4)) ''ptarray_addPoint: point dimension out of range (%lu)'') (\<lambda>_.
     bindE (require (\<not> where > npoints pa) ''ptarray_addPoint: offset out of range (%d)'') (\<lambda>_.
     let pbuf = p @ replicate (4 - length p) 0 in
     Inr (ptarray_construct (hasz (pflags pa)) (hasm (pflags pa)) (npoints pa + 1)
       (take (where * nd pa) (ptlist pa) @ take (nd pa) pbuf @
        take (nd pa * (npoints pa - where)) (drop (where * nd pa) (ptlist pa))))))"

definition ptarray_removePoint :: "pointarray \<Rightarrow> nat \<Rightarrow> lwerr + pointarray" where
  "ptarray_removePoint pa which =
     bindE (require (which \<le> npoints pa - 1) ''assertion'') (\<lambda>_.
     bindE (require (npoints pa \<ge> 3) ''assertion'') (\<lambda>_.
     Inr (ptarray_construct (hasz (pflags pa)) (hasm (pflags pa)) (npoints pa - 1)
       (take (which * nd pa) (ptlist pa) @
        take (nd pa * (npoints pa - which - 1)) (drop ((which + 1) * nd pa) (ptlist pa))))))"

definition ptarray_merge :: "pointarray \<Rightarrow> pointarray \<Rightarrow> lwerr + pointarray" where
  "ptarray_merge pa1 pa2 =
     bindE (require (FLAGS_GET_ZM (pflags pa1) = FLAGS_GET_ZM (pflags pa2)) ''ptarray_cat: Mixed dimension'') (\<lambda>_.
     Inr (ptarray_construct (hasz (pflags pa1)) (hasm (pflags pa1)) (npoints pa1 + npoints pa2)
       (take (nd pa1 * npoints pa1) (ptlist pa1) @ take (nd pa1 * npoints pa2) (ptlist pa2))))"

text \<open>\<open>too_far\<close> is the comparison of the planar distance with the tolerance.\<close>

definition ptarray_append_ptarray ::
  "(double list \<Rightarrow> double list \<Rightarrow> double \<Rightarrow> bool) \<Rightarrow> pointarray \<Rightarrow> pointarray \<Rightarrow> double \<Rightarrow> lwerr + pointarray"
where
  "ptarray_append_ptarray too_far pa1 pa2 gap_tolerance =
     (if npoints pa2 = 0 then Inr pa1
      else
        bindE (require (\<not> has_bits (pflags pa1) LWFLAG_READONLY) ''%s: target pointarray is read-only'') (\<lambda>_.
        bindE (require (FLAGS_GET_ZM (pflags pa1) = FLAGS_GET_ZM (pflags pa2))
          ''%s: appending mixed dimensionality is not allowed'') (\<lambda>_.
        let tmp1 = pa_point pa1 (npoints pa1 - 1) 2; tmp2 = pa_point pa2 0 2;
            same = (npoints pa1 > 0 \<and> dbl_eq (tmp1 ! 0) (tmp2 ! 0) \<and> dbl_eq (tmp1 ! 1) (tmp2 ! 1)) in
        bindE (require (\<not> (npoints pa1 > 0 \<and> \<not> same \<and>
            (dbl_eq gap_tolerance 0 \<or> dbl_lt 0 gap_tolerance \<and> too_far tmp1 tmp2 gap_tolerance)))
          ''Second line start point too far from first line end point'') (\<lambda>_.
        let poff = (if same then 1 else 0);
            n = npoints pa2 - poff;
            ncap = (npoints pa1 + n) mod 2 ^ 32;
            dbl = maxpoints pa1 * 2 mod 2 ^ 32;
            mx = (if maxpoints pa1 < ncap then (if maxpoints pa1 > 0 then (if ncap > dbl then ncap else dbl) else ncap)
                  else maxpoints pa1)
        in if npoints pa1 + n > mx then Inl MemFault
           else Inr (pa1\<lparr>maxpoints := mx, npoints := ncap,
             ptlist := take (nd pa1 * npoints pa1) (ptlist pa1) @ take (nd pa1 * n) (drop (poff * nd pa1) (ptlist pa2))\<rparr>)))))"

definition swap_at :: "'a list \<Rightarrow> nat \<Rightarrow> nat \<Rightarrow> 'a list" where
  "swap_at d i j = d[i := d ! j, j := d ! i]"

definition ptarray_reverse_in_place :: "pointarray \<Rightarrow> pointarray" where
  "ptarray_reverse_in_place pa =
     (if npoints pa = 0 then pa
      else
        let last = npoints pa - 1; mid = npoints pa div 2; ndims = nd pa
        in pa\<lparr>ptlist := fold (\<lambda>i d. fold (\<lambda>j d. swap_at d ((i * ndims + j) mod 2 ^ 32) (((last - i) * ndims + j) mod 2 ^ 32)) [0..<ndims] d)
             [0..<mid] (ptlist pa)\<rparr>)"

definition map_points :: "(double list \<Rightarrow> double list) \<Rightarrow> pointarray \<Rightarrow> lwerr + pointarray" where
  "map_points f pa0 = fold (\<lambda>i r. bindE r (\<lambda>pa. bindE (getPoint4d_checked pa i) (\<lambda>p. ptarray_set_point4d pa i (f p))))
     [0..<npoints pa0] (Inr pa0)"

definition ptarray_flip_coordinates :: "pointarray \<Rightarrow> lwerr + pointarray" where
  "ptarray_flip_coordinates = map_points (\<lambda>p. swap_at p 0 1)"

definition ptarray_swap_ordinates :: "pointarray \<Rightarrow> nat \<Rightarrow> nat \<Rightarrow> lwerr + pointarray" where
  "ptarray_swap_ordinates pa o1 o2 = map_points (\<lambda>p. swap_at p o1 o2) pa"

definition ptarray_clone_deep :: "pointarray \<Rightarrow> pointarray" where
  "ptarray_clone_deep pa = pa\<lparr>maxpoints := npoints pa, pflags := flag_set (pflags pa) LWFLAG_READONLY False,
     ptlist := take (npoints pa * nd pa) (ptlist pa)\<rparr>"

definition ptarray_clone :: "pointarray \<Rightarrow> pointarray" where
  "ptarray_clone pa = pa\<lparr>pflags := flag_set (pflags pa) LWFLAG_READONLY True\<rparr>"

definition ptarray_same2d :: "pointarray \<Rightarrow> pointarray \<Rightarrow> bool" where
  "ptarray_same2d pa1 pa2 \<longleftrightarrow>
     FLAGS_GET_ZM (pflags pa1) = FLAGS_GET_ZM (pflags pa2) \<and> npoints pa1 = npoints pa2 \<and>
     list_all (\<lambda>i. pa_point pa1 i 2 = pa_point pa2 i 2) [0..<npoints pa1]"

definition ptarray_force_dims :: "pointarray \<Rightarrow> bool \<Rightarrow> bool \<Rightarrow> double \<Rightarrow> double \<Rightarrow> lwerr + pointarray" where
  "ptarray_force_dims pa z m zval mval =
     fold (\<lambda>i r. bindE r (\<lambda>out. bindE (getPoint4d_checked pa i) (\<lambda>pt.
         let pt = (if z \<and> \<not> hasz (pflags pa) then pt[2 := zval] else pt);
             pt = (if m \<and> \<not> hasm (pflags pa) then pt[3 := mval] else pt)
         in ptarray_append_point out pt True)))
       [0..<npoints pa] (Inr (ptarray_construct_empty z m (npoints pa)))"

text \<open>
  \<open>memcmp\<close> of a stored point with a \<open>POINT4D\<close>: the first doubles of the struct are compared, for an
  array with M and without Z the third of them is the Z of the struct.
\<close>

definition ptarray_scroll_in_place :: "pointarray \<Rightarrow> double list \<Rightarrow> lwerr + pointarray" where
  "ptarray_scroll_in_place pa pt =
     bindE (require (ptarray_is_closed_2d pa) ''ptarray_scroll_in_place: input POINTARRAY is not closed'') (\<lambda>_.
     case find (\<lambda>it. pa_point pa it (nd pa) = take (nd pa) pt) [0..<npoints pa] of
       None \<Rightarrow> Inl (LwError ''ptarray_scroll_in_place: input POINTARRAY does not contain the given point'')
     | Some it \<Rightarrow>
         if it = 0 then Inr pa
         else Inr (pa\<lparr>ptlist := take ((npoints pa - it) * nd pa) (drop (it * nd pa) (ptlist pa)) @
                             take (it * nd pa) (drop (nd pa) (ptlist pa))\<rparr>))"

definition ptarray_npoints_in_rect :: "pointarray \<Rightarrow> gbox \<Rightarrow> nat" where
  "ptarray_npoints_in_rect pa b =
     fold (\<lambda>i n. let pt = pa_point pa i 2 in if gbox_contains_point2d b (pt ! 0, pt ! 1) then n + 1 else n) [0..<npoints pa] 0"

definition distance2d_sqr_pt_pt :: "double list \<Rightarrow> double list \<Rightarrow> double" where
  "distance2d_sqr_pt_pt p1 p2 =
     (let hside = dbl_sub (p2 ! 0) (p1 ! 0); vside = dbl_sub (p2 ! 1) (p1 ! 1)
      in dbl_add (dbl_mul hside hside) (dbl_mul vside vside))"

text \<open>
  One turn of the loop over the points: the array, the index of the point kept last and the number
  of points kept. The point is compared in the array, where points were already overwritten.
\<close>

definition repeated_step :: "double \<Rightarrow> nat \<Rightarrow> nat \<Rightarrow> nat \<Rightarrow> pointarray \<times> nat \<times> nat \<Rightarrow> pointarray \<times> nat \<times> nat" where
  "repeated_step tolerance min_points n_points i s =
     (case s of (pa, kept, out) \<Rightarrow>
        let tolsq = dbl_mul tolerance tolerance;
            last_point = (i = n_points - 1);
            pt = pa_point pa i (nd pa); lp = pa_point pa kept (nd pa);
            dsq = distance2d_sqr_pt_pt lp pt;
            may_drop = (n_points + out > min_points + i)
        in if may_drop \<and> (if dbl_lt 0 tolerance then \<not> last_point \<and> dbl_le dsq tolsq else pt = lp) then s
           else
             let out = (if may_drop \<and> last_point \<and> out > 1 \<and> dbl_lt 0 tolerance \<and> dbl_le dsq tolsq then out - 1 else out)
             in (pa\<lparr>ptlist := take (out * nd pa) (ptlist pa) @ pt @ drop ((out + 1) * nd pa) (ptlist pa)\<rparr>, i, out + 1))"

definition ptarray_remove_repeated_points_in_place :: "pointarray \<Rightarrow> double \<Rightarrow> nat \<Rightarrow> pointarray" where
  "ptarray_remove_repeated_points_in_place pa tolerance min_points =
     (if npoints pa \<le> min_points then pa
      else case fold (repeated_step tolerance min_points (npoints pa)) [1..<npoints pa] (pa, 0, 1) of
        (pa', kept, out) \<Rightarrow> pa'\<lparr>npoints := out, ptlist := take (out * nd pa) (ptlist pa')\<rparr>)"

definition ptarray_remove_repeated_points_minpoints :: "pointarray \<Rightarrow> double \<Rightarrow> nat \<Rightarrow> pointarray" where
  "ptarray_remove_repeated_points_minpoints pa tolerance minpoints =
     ptarray_remove_repeated_points_in_place (ptarray_clone_deep pa) tolerance minpoints"

definition ptarray_remove_repeated_points :: "pointarray \<Rightarrow> double \<Rightarrow> pointarray" where
  "ptarray_remove_repeated_points pa tolerance = ptarray_remove_repeated_points_minpoints pa tolerance 2"

end
