(* ===== verification/PTArrayOk.thy ===== *)
theory PTArrayOk
  imports PTArray
begin

text \<open>
  What the editing operations do to the list of points, and what thinning out equal neighbours
  guarantees.
\<close>

section \<open>Stretches of points\<close>

lemma rows_uniform: "pa_wf pa \<Longrightarrow> r \<in> set (rows pa) \<Longrightarrow> length r = nd pa"
  by (rule rows_length)

lemma take_ptlist: "pa_wf pa \<Longrightarrow> i \<le> npoints pa \<Longrightarrow> take (i * nd pa) (ptlist pa) = concat (take i (rows pa))"
  using take_concat [of "rows pa" "nd pa" i] rows_length [of pa] by (simp add: rows_concat)

lemma drop_ptlist: "pa_wf pa \<Longrightarrow> i \<le> npoints pa \<Longrightarrow> drop (i * nd pa) (ptlist pa) = concat (drop i (rows pa))"
  using drop_concat [of "rows pa" "nd pa" i] rows_length [of pa] by (simp add: rows_concat)

lemma stretch_ptlist:
  assumes "pa_wf pa" "i + n \<le> npoints pa"
  shows "take (n * nd pa) (drop (i * nd pa) (ptlist pa)) = concat (take n (drop i (rows pa)))"
proof -
  have "take (n * nd pa) (concat (drop i (rows pa))) = concat (take n (drop i (rows pa)))"
    using assms rows_length [OF assms(1)] by (intro take_concat) (auto dest: in_set_dropD)
  then show ?thesis using assms drop_ptlist [of pa i] by simp
qed

lemma rows_nth: "i < npoints pa \<Longrightarrow> rows pa ! i = pa_point pa i (nd pa)"
  by (simp add: rows_def)

text \<open>An update of flags, capacity or points with the same dimensions.\<close>

lemma rows_update:
  assumes "ptlist pa' = concat rs" "npoints pa' = length rs" "nd pa' = nd pa" "\<And>r. r \<in> set rs \<Longrightarrow> length r = nd pa"
    and "length rs < 2 ^ 32"
  shows "pa_wf pa' \<and> rows pa' = rs"
  using assms by (intro rows_construct) simp_all

lemma nd_construct [simp]: "nd (ptarray_construct (hasz f) (hasm f) n d) = FLAGS_NDIMS f"
  by (simp add: ptarray_construct_def ptarray_construct_empty_def FLAGS_NDIMS_def)

lemma construct_sel [simp]:
  "ptlist (ptarray_construct z m n d) = d" "npoints (ptarray_construct z m n d) = n"
  by (simp_all add: ptarray_construct_def)

section \<open>Inserting and removing\<close>

lemma length_point_doubles: "length p = 4 \<Longrightarrow> length (point_doubles f p) = FLAGS_NDIMS f"
  by (simp add: point_doubles_def FLAGS_NDIMS_def)

lemma set_point_rows:
  assumes "pa_wf pa" "n < npoints pa" "length p = 4"
  shows "\<exists>pa'. ptarray_set_point4d pa n p = Inr pa' \<and> pa_wf pa' \<and> rows pa' = (rows pa)[n := point_doubles (pflags pa) p] \<and>
    npoints pa' = npoints pa \<and> pflags pa' = pflags pa \<and> maxpoints pa' = maxpoints pa"
proof -
  let ?x = "point_doubles (pflags pa) p" and ?rs = "(rows pa)[n := point_doubles (pflags pa) p]"
  have x: "length ?x = nd pa" using assms(3) by (rule length_point_doubles)
  have "n * nd pa + nd pa \<le> npoints pa * nd pa" using assms(2) mult_le_mono1 [of "Suc n" "npoints pa" "nd pa"] by simp
  then have st: "store (ptlist pa) (n * nd pa) ?x = Inr (take (n * nd pa) (ptlist pa) @ ?x @ drop (Suc n * nd pa) (ptlist pa))"
    using assms(1) by (simp add: store_def x pa_wf_def add.commute)
  have l: "take (n * nd pa) (ptlist pa) @ ?x @ drop (Suc n * nd pa) (ptlist pa) = concat ?rs"
    using assms take_ptlist [of pa n] drop_ptlist [of pa "Suc n"] by (simp add: upd_conv_take_nth_drop)
  have "pa_wf (pa\<lparr>ptlist := concat ?rs\<rparr>) \<and> rows (pa\<lparr>ptlist := concat ?rs\<rparr>) = ?rs"
    using assms rows_length [OF assms(1)] x by (intro rows_update [where pa = pa]) (auto simp: pa_wf_def dest!: set_update_subset_insert [THEN subsetD])
  then show ?thesis using assms(2) st l by (auto simp: ptarray_set_point4d_def require_def)
qed

text \<open>Room for one more point, in an array that is owned.\<close>

definition can_grow :: "pointarray \<Rightarrow> bool" where
  "can_grow pa \<longleftrightarrow> pa_wf pa \<and> \<not> has_bits (pflags pa) LWFLAG_READONLY \<and> npoints pa \<le> maxpoints pa \<and>
     maxpoints pa < 2 ^ 32 \<and> npoints pa < 2 ^ 31"

lemma insert_point_rows:
  assumes pa: "can_grow pa" and w: "w \<le> npoints pa" and p: "length p = 4"
  shows "\<exists>pa'. ptarray_insert_point pa p w = Inr pa' \<and> pa_wf pa' \<and>
    rows pa' = take w (rows pa) @ [point_doubles (pflags pa) p] @ drop w (rows pa) \<and> pflags pa' = pflags pa \<and>
    npoints pa' = Suc (npoints pa) \<and> npoints pa' \<le> maxpoints pa' \<and> maxpoints pa' < 2 ^ 32"
proof -
  let ?rs = "take w (rows pa) @ [replicate (nd pa) 0] @ drop w (rows pa)"
  define mx where "mx = (if maxpoints pa = 0 then 32 else if npoints pa = maxpoints pa then maxpoints pa * 2 mod 2 ^ 32 else maxpoints pa)"
  define q where "q = pa\<lparr>maxpoints := mx, ptlist := concat ?rs, npoints := Suc (npoints pa)\<rparr>"
  have wf: "pa_wf pa" and small: "npoints pa < 2 ^ 31" using pa by (simp_all add: can_grow_def)
  have rs: "concat ?rs = take (w * nd pa) (ptlist pa) @ replicate (nd pa) 0 @ drop (w * nd pa) (ptlist pa)"
    using w wf by (simp add: take_ptlist drop_ptlist)
  have q: "pa_wf q \<and> rows q = ?rs"
    unfolding q_def using w small rows_length [OF wf]
    by (intro rows_update [where pa = pa]) (auto dest: in_set_takeD in_set_dropD)
  have mx: "npoints pa < mx" "mx < 2 ^ 32" using pa by (auto simp: mx_def can_grow_def)
  have empty: "maxpoints pa = 0 \<Longrightarrow> npoints pa = 0 \<and> ptlist pa = []" using pa by (auto simp: can_grow_def pa_wf_def)
  have "ptarray_insert_point pa p w = ptarray_set_point4d q w p"
    using pa w mx empty unfolding ptarray_insert_point_def q_def rs
    by (cases "maxpoints pa = 0"; cases "npoints pa = maxpoints pa") (simp_all add: mx_def can_grow_def Let_def require_def)
  moreover have "(?rs)[w := x] = take w (rows pa) @ [x] @ drop w (rows pa)" for x
    using w by (simp add: list_update_append)
  ultimately show ?thesis
    using set_point_rows [of q w p] q w p mx by (auto simp: q_def)
qed

text \<open>A point equals the last one when no dimension tells them apart as numbers.\<close>

definition same_point :: "pointarray \<Rightarrow> double list \<Rightarrow> double list \<Rightarrow> bool" where
  "same_point pa p t \<longleftrightarrow> dbl_eq (p ! 0) (t ! 0) \<and> dbl_eq (p ! 1) (t ! 1) \<and>
     (hasz (pflags pa) \<longrightarrow> dbl_eq (p ! 2) (t ! 2)) \<and> (hasm (pflags pa) \<longrightarrow> dbl_eq (p ! 3) (t ! 3))"

lemma get_point: "pa_wf pa \<Longrightarrow> n < npoints pa \<Longrightarrow> getPoint4d_checked pa n = Inr (getPoint4d_p pa n)"
proof -
  assume "pa_wf pa" "n < npoints pa"
  then have "nd pa + n * nd pa \<le> length (ptlist pa)"
    using mult_le_mono1 [of "Suc n" "npoints pa" "nd pa"] by (simp add: pa_wf_def)
  with \<open>n < npoints pa\<close> show ?thesis by (simp add: getPoint4d_checked_def require_def)
qed

lemma append_point_rows:
  assumes pa: "can_grow pa" and p: "length p = 4"
    and new: "repeated \<or> npoints pa = 0 \<or> \<not> same_point pa p (getPoint4d_p pa (npoints pa - 1))"
  shows "\<exists>pa'. ptarray_append_point pa p repeated = Inr pa' \<and> pa_wf pa' \<and>
    rows pa' = rows pa @ [point_doubles (pflags pa) p] \<and> pflags pa' = pflags pa \<and>
    npoints pa' = Suc (npoints pa) \<and> npoints pa' \<le> maxpoints pa' \<and> maxpoints pa' < 2 ^ 32"
proof -
  have wf: "pa_wf pa" using pa by (simp add: can_grow_def)
  have "ptarray_append_point pa p repeated = ptarray_insert_point pa p (npoints pa)"
    using new get_point [OF wf, of "npoints pa - 1"]
    by (cases "repeated \<or> npoints pa = 0") (auto simp: ptarray_append_point_def same_point_def)
  then show ?thesis using insert_point_rows [OF pa _ p, of "npoints pa"] by simp
qed

lemma append_point_any:
  assumes pa: "can_grow pa" and p: "length p = 4"
  shows "\<exists>pa'. ptarray_append_point pa p repeated = Inr pa' \<and> pa_wf pa' \<and>
    rows pa' = (if \<not> repeated \<and> 0 < npoints pa \<and> same_point pa p (getPoint4d_p pa (npoints pa - 1)) then rows pa
                else rows pa @ [point_doubles (pflags pa) p])"
proof (cases "\<not> repeated \<and> 0 < npoints pa \<and> same_point pa p (getPoint4d_p pa (npoints pa - 1))")
  case True
  have wf: "pa_wf pa" using pa by (simp add: can_grow_def)
  then have "ptarray_append_point pa p repeated = Inr pa"
    using True get_point [OF wf, of "npoints pa - 1"] by (simp add: ptarray_append_point_def same_point_def)
  with wf True show ?thesis by simp
next
  case False
  with append_point_rows [OF pa p, of repeated] show ?thesis by auto
qed

lemma remove_point_rows:
  assumes "pa_wf pa" "w < npoints pa"
  shows "\<exists>pa'. ptarray_remove_point pa w = Inr pa' \<and> pa_wf pa' \<and> rows pa' = take w (rows pa) @ drop (Suc w) (rows pa) \<and>
    pflags pa' = pflags pa"
proof -
  let ?rs = "take w (rows pa) @ drop (Suc w) (rows pa)"
  have c: "concat ?rs = take (w * nd pa) (ptlist pa) @ take (nd pa * (npoints pa - w - 1)) (drop ((w + 1) * nd pa) (ptlist pa))"
    using assms stretch_ptlist [OF assms(1), of "Suc w" "npoints pa - w - 1"] take_ptlist [OF assms(1), of w]
    by (simp add: mult.commute [of "nd pa"])
  then have c': "w = npoints pa - 1 \<Longrightarrow> concat ?rs = take (w * nd pa) (ptlist pa)" using assms by simp
  let ?q = "pa\<lparr>ptlist := concat ?rs, npoints := npoints pa - 1\<rparr>"
  have "pa_wf ?q \<and> rows ?q = ?rs"
    using assms rows_length [OF assms(1)]
    by (intro rows_update [where pa = pa]) (auto simp: pa_wf_def dest: in_set_takeD in_set_dropD)
  moreover have "ptarray_remove_point pa w = Inr ?q"
    using assms c c' by (cases "w < npoints pa - 1") (auto simp: ptarray_remove_point_def require_def Let_def)
  ultimately show ?thesis by simp
qed

section \<open>Joining\<close>

lemma same_zm_flags: "same_zm f g \<Longrightarrow> FLAGS_NDIMS f = FLAGS_NDIMS g \<and> FLAGS_GET_ZM f = FLAGS_GET_ZM g"
  by (simp add: same_zm_def FLAGS_NDIMS_def FLAGS_GET_ZM_def)

lemma merge_rows:
  assumes "pa_wf pa1" "pa_wf pa2" "same_zm (pflags pa1) (pflags pa2)" "npoints pa1 + npoints pa2 < 2 ^ 32"
  shows "\<exists>pa'. ptarray_merge pa1 pa2 = Inr pa' \<and> pa_wf pa' \<and> rows pa' = rows pa1 @ rows pa2"
proof -
  have nd: "nd pa1 = nd pa2" and zm: "FLAGS_GET_ZM (pflags pa1) = FLAGS_GET_ZM (pflags pa2)"
    using same_zm_flags [OF assms(3)] by simp_all
  have l: "take (nd pa1 * npoints pa1) (ptlist pa1) @ take (nd pa1 * npoints pa2) (ptlist pa2) = concat (rows pa1 @ rows pa2)"
    using assms(1,2) by (simp add: rows_concat nd pa_wf_def mult.commute)
  let ?q = "ptarray_construct (hasz (pflags pa1)) (hasm (pflags pa1)) (npoints pa1 + npoints pa2) (concat (rows pa1 @ rows pa2))"
  have "pa_wf ?q \<and> rows ?q = rows pa1 @ rows pa2"
    using assms(4) rows_length [OF assms(1)] rows_length [OF assms(2)] nd by (intro rows_update [where pa = pa1]) auto
  then show ?thesis using l zm by (simp add: ptarray_merge_def require_def)
qed

lemma append_ptarray_rows:
  assumes pa: "can_grow pa1" "pa_wf pa2" and zm: "same_zm (pflags pa1) (pflags pa2)"
    and n: "npoints pa1 + npoints pa2 < 2 ^ 31"
    and near: "npoints pa1 > 0 \<Longrightarrow> npoints pa2 > 0 \<Longrightarrow> \<not> same \<Longrightarrow>
      \<not> dbl_eq tol 0 \<and> \<not> (dbl_lt 0 tol \<and> too_far (pa_point pa1 (npoints pa1 - 1) 2) (pa_point pa2 0 2) tol)"
    and same: "same \<longleftrightarrow> npoints pa1 > 0 \<and> dbl_eq (pa_point pa1 (npoints pa1 - 1) 2 ! 0) (pa_point pa2 0 2 ! 0) \<and>
      dbl_eq (pa_point pa1 (npoints pa1 - 1) 2 ! 1) (pa_point pa2 0 2 ! 1)"
  shows "\<exists>pa'. ptarray_append_ptarray too_far pa1 pa2 tol = Inr pa' \<and> pa_wf pa' \<and>
    rows pa' = rows pa1 @ (if same then tl (rows pa2) else rows pa2)"
proof (cases "npoints pa2 = 0")
  case True
  then have "rows pa2 = []" by (simp add: rows_def)
  with True pa show ?thesis by (auto simp: ptarray_append_ptarray_def can_grow_def)
next
  case False
  define poff where "poff = (if same then 1 else 0 :: nat)"
  define k where "k = npoints pa2 - poff"
  define mx where "mx = (if maxpoints pa1 < npoints pa1 + k
    then (if maxpoints pa1 > 0 then (if npoints pa1 + k > maxpoints pa1 * 2 mod 2 ^ 32 then npoints pa1 + k else maxpoints pa1 * 2 mod 2 ^ 32)
          else npoints pa1 + k) else maxpoints pa1)"
  let ?rs = "rows pa1 @ drop poff (rows pa2)"
  have wf: "pa_wf pa1" using pa by (simp add: can_grow_def)
  have nd: "nd pa1 = nd pa2" and zm': "FLAGS_GET_ZM (pflags pa1) = FLAGS_GET_ZM (pflags pa2)"
    using same_zm_flags [OF zm] by simp_all
  have po: "poff + k = npoints pa2" using False by (auto simp: poff_def k_def)
  have l: "take (nd pa1 * npoints pa1) (ptlist pa1) @ take (nd pa1 * k) (drop (poff * nd pa1) (ptlist pa2)) = concat ?rs"
    using stretch_ptlist [OF pa(2), of poff k] po wf by (simp add: rows_concat nd pa_wf_def mult.commute)
  have "N \<le> (if M < N then (if M > 0 then (if N > X then N else X) else N) else M)" for N M X :: nat by simp
  then have fits: "(npoints pa1 + k) mod 2 ^ 32 = npoints pa1 + k" "npoints pa1 + k > mx \<longleftrightarrow> False"
    using n po unfolding mx_def by (simp_all add: not_less)
  have c: "\<not> (npoints pa1 > 0 \<and> \<not> same \<and> (dbl_eq tol 0 \<or> dbl_lt 0 tol \<and>
      too_far (pa_point pa1 (npoints pa1 - 1) 2) (pa_point pa2 0 2) tol))"
    using near False by blast
  have ro: "\<not> has_bits (pflags pa1) LWFLAG_READONLY" using pa(1) by (simp add: can_grow_def)
  let ?q = "pa1\<lparr>maxpoints := mx, npoints := npoints pa1 + k, ptlist := concat ?rs\<rparr>"
  have "pa_wf ?q \<and> rows ?q = ?rs"
    using n po rows_length [OF wf] rows_length [OF pa(2)] nd
    by (intro rows_update [where pa = pa1]) (auto dest: in_set_dropD)
  moreover have "ptarray_append_ptarray too_far pa1 pa2 tol = Inr ?q"
    unfolding ptarray_append_ptarray_def Let_def same [symmetric] poff_def [symmetric] k_def [symmetric] fits(1) mx_def [symmetric] l
      if_not_P [OF False] require_def if_P [OF c] if_P [OF zm'] if_P [OF ro] bindE_Inr fits(2) if_False by (rule refl)
  moreover have "drop poff (rows pa2) = (if same then tl (rows pa2) else rows pa2)" by (simp add: poff_def drop_Suc)
  ultimately show ?thesis by auto
qed

section \<open>Reversing\<close>

lemma length_swap_at [simp]: "length (swap_at d i j) = length d"
  by (simp add: swap_at_def)

lemma nth_swap_at:
  "i < length d \<Longrightarrow> j < length d \<Longrightarrow> swap_at d i j ! p = (if p = j then d ! i else if p = i then d ! j else d ! p)"
  by (cases "p < length d") (auto simp: swap_at_def nth_list_update)

text \<open>The inner loop exchanges two points, coordinate by coordinate.\<close>

lemma swap_points_nth:
  assumes "Suc a * n \<le> length d" "Suc b * n \<le> length d" "a \<noteq> b" "k \<le> n"
  shows "length (fold (\<lambda>j d. swap_at d (a * n + j) (b * n + j)) [0..<k] d) = length d \<and>
    (\<forall>r c. c < n \<longrightarrow> r * n + c < length d \<longrightarrow>
      fold (\<lambda>j d. swap_at d (a * n + j) (b * n + j)) [0..<k] d ! (r * n + c) =
        (if c < k \<and> r = a then d ! (b * n + c) else if c < k \<and> r = b then d ! (a * n + c) else d ! (r * n + c)))"
  using assms(4)
proof (induction k)
  case (Suc k)
  let ?f = "fold (\<lambda>j d. swap_at d (a * n + j) (b * n + j)) [0..<k] d"
  from Suc have len: "length ?f = length d" and nth: "\<And>r c. c < n \<Longrightarrow> r * n + c < length d \<Longrightarrow>
      ?f ! (r * n + c) = (if c < k \<and> r = a then d ! (b * n + c) else if c < k \<and> r = b then d ! (a * n + c) else d ! (r * n + c))"
    by auto
  let ?g = "fold (\<lambda>j d. swap_at d (a * n + j) (b * n + j)) [0..<Suc k] d"
  have ka: "a * n + k < length d" "b * n + k < length d" using assms(1,2) Suc.prems by simp_all
  have pos: "x * n + c = y * n + k \<longleftrightarrow> x = y \<and> c = k" if "c < n" for x y c
  proof -
    have "k < n" using Suc.prems by simp
    have "(x * n + c) div n = x" "(x * n + c) mod n = c" "(y * n + k) div n = y" "(y * n + k) mod n = k"
      using that \<open>k < n\<close> by simp_all
    then show ?thesis by metis
  qed
  have "?g ! (r * n + c) = (if c < Suc k \<and> r = a then d ! (b * n + c) else if c < Suc k \<and> r = b then d ! (a * n + c)
      else d ! (r * n + c))" if c: "c < n" and p: "r * n + c < length d" for r c
  proof -
    have g: "?g ! (r * n + c) = (if r * n + c = b * n + k then ?f ! (a * n + k) else if r * n + c = a * n + k then ?f ! (b * n + k)
        else ?f ! (r * n + c))"
      using ka by (simp add: nth_swap_at len)
    have fk: "?f ! (a * n + k) = d ! (a * n + k)" "?f ! (b * n + k) = d ! (b * n + k)"
      using nth [OF _ ka(1)] nth [OF _ ka(2)] Suc.prems by simp_all
    consider "c = k" "r = a" | "c = k" "r = b" | "c = k" "r \<noteq> a" "r \<noteq> b" | "c \<noteq> k" by blast
    then show ?thesis
    proof cases
      case 4
      then have "c < Suc k \<longleftrightarrow> c < k" by auto
      then show ?thesis using g nth [OF c p] 4 by (simp add: pos [OF c])
    qed (use g nth [OF c p] fk assms(3) c in \<open>simp_all add: pos [OF c]\<close>)
  qed
  then show ?case using len by simp
qed simp

lemma swap_rows:
  assumes "\<And>r. r \<in> set rs \<Longrightarrow> length r = n" "a < length rs" "b < length rs" "a \<noteq> b" "0 < n"
  shows "fold (\<lambda>j d. swap_at d (a * n + j) (b * n + j)) [0..<n] (concat rs) = concat (swap_at rs a b)"
proof -
  let ?f = "fold (\<lambda>j d. swap_at d (a * n + j) (b * n + j)) [0..<n] (concat rs)"
  have len: "length (concat rs) = length rs * n" using assms(1) by (rule length_concat_blocks)
  have sw: "length r = n" if "r \<in> set (swap_at rs a b)" for r
    using that assms(1-3) by (auto simp: swap_at_def dest!: set_update_subset_insert [THEN subsetD])
  have len': "length (concat (swap_at rs a b)) = length rs * n" using length_concat_blocks [OF sw] by simp
  have nth: "concat xs ! (r * n + c) = xs ! r ! c" if "\<And>x. x \<in> set xs \<Longrightarrow> length x = n" "r < length xs" "c < n" for xs :: "'a list list" and r c
  proof -
    have "xs ! r ! c = take n (drop (r * n) (concat xs)) ! c" using block_concat [OF that(1,2)] by simp
    also have "\<dots> = concat xs ! (r * n + c)"
      using that length_concat_blocks [OF that(1)] mult_le_mono1 [of "Suc r" "length xs" n] by simp
    finally show ?thesis by simp
  qed
  have "Suc a * n \<le> length (concat rs)" "Suc b * n \<le> length (concat rs)"
    unfolding len using assms(2,3) mult_le_mono1 [of "Suc a" "length rs" n] mult_le_mono1 [of "Suc b" "length rs" n] by simp_all
  note sp = swap_points_nth [OF this assms(4) order_refl]
  have "?f ! p = concat (swap_at rs a b) ! p" if "p < length rs * n" for p
  proof -
    define r c where "r = p div n" and "c = p mod n"
    have p: "p = r * n + c" and c: "c < n" using assms(5) by (simp_all add: r_def c_def)
    have r: "r < length rs" using that by (simp add: r_def less_mult_imp_div_less)
    have "?f ! p = (if r = a then concat rs ! (b * n + c) else if r = b then concat rs ! (a * n + c) else concat rs ! (r * n + c))"
      using sp c that unfolding p len by simp
    also have "\<dots> = swap_at rs a b ! r ! c"
      using assms(2-4) r by (simp add: nth [OF assms(1) _ c] nth_swap_at)
    also have "\<dots> = concat (swap_at rs a b) ! p" unfolding p using nth [OF sw _ c] r by simp
    finally show ?thesis .
  qed
  moreover have "length ?f = length rs * n" using sp len by simp
  ultimately show ?thesis using len' by (intro nth_equalityI) simp_all
qed

lemma reverse_fold:
  assumes "k \<le> length rs div 2"
  shows "length (fold (\<lambda>i r. swap_at r i (length rs - 1 - i)) [0..<k] rs) = length rs \<and>
    (\<forall>r < length rs. fold (\<lambda>i r. swap_at r i (length rs - 1 - i)) [0..<k] rs ! r =
      (if r < k \<or> length rs - 1 - r < k then rs ! (length rs - 1 - r) else rs ! r))"
  using assms
proof (induction k)
  case (Suc k)
  let ?m = "length rs"
  let ?f = "fold (\<lambda>i r. swap_at r i (?m - 1 - i)) [0..<k] rs"
  from Suc have len: "length ?f = ?m" and nth: "\<And>r. r < ?m \<Longrightarrow> ?f ! r = (if r < k \<or> ?m - 1 - r < k then rs ! (?m - 1 - r) else rs ! r)"
    by auto
  have k: "k < ?m" "?m - 1 - k < ?m" "k < ?m - 1 - k" using Suc.prems by auto
  have "swap_at ?f k (?m - 1 - k) ! r = (if r < Suc k \<or> ?m - 1 - r < Suc k then rs ! (?m - 1 - r) else rs ! r)" if r: "r < ?m" for r
  proof -
    have s: "swap_at ?f k (?m - 1 - k) ! r = (if r = ?m - 1 - k then ?f ! k else if r = k then ?f ! (?m - 1 - k) else ?f ! r)"
      by (subst nth_swap_at) (use k len in simp_all)
    consider "r = k" | "r = ?m - 1 - k" | "r \<noteq> k" "r \<noteq> ?m - 1 - k" by blast
    then show ?thesis
    proof cases
      case 1
      then show ?thesis using s nth [OF k(2)] k by simp
    next
      case 2
      then have "?m - 1 - r = k" using k by simp
      then show ?thesis using 2 s nth [OF k(1)] k by simp
    next
      case 3
      then have "r < Suc k \<or> ?m - 1 - r < Suc k \<longleftrightarrow> r < k \<or> ?m - 1 - r < k" using r by auto
      then show ?thesis using 3 s nth [OF r] by simp
    qed
  qed
  then show ?case using len by simp
qed simp

lemma reverse_rows_fold: "fold (\<lambda>i r. swap_at r i (length rs - 1 - i)) [0..<length rs div 2] rs = rev rs"
proof (rule nth_equalityI)
  fix i assume "i < length (fold (\<lambda>i r. swap_at r i (length rs - 1 - i)) [0..<length rs div 2] rs)"
  then have i: "i < length rs" using reverse_fold [OF order_refl, of rs] by simp
  have "i < length rs div 2 \<or> length rs - 1 - i < length rs div 2 \<or> length rs - 1 - i = i" using i by arith
  then show "fold (\<lambda>i r. swap_at r i (length rs - 1 - i)) [0..<length rs div 2] rs ! i = rev rs ! i"
    using reverse_fold [OF order_refl, of rs] i by (auto simp: rev_nth)
qed (use reverse_fold [OF order_refl, of rs] in simp)

lemma reverse_rows:
  assumes "pa_wf pa" "npoints pa < 2 ^ 30"
  shows "pa_wf (ptarray_reverse_in_place pa) \<and> rows (ptarray_reverse_in_place pa) = rev (rows pa) \<and>
    pflags (ptarray_reverse_in_place pa) = pflags pa"
proof (cases "npoints pa = 0")
  case False
  let ?n = "nd pa" and ?m = "npoints pa"
  have "fold (\<lambda>i d. fold (\<lambda>j d. swap_at d (i * ?n + j) ((?m - 1 - i) * ?n + j)) [0..<?n] d) [0..<k] (concat rs) =
      concat (fold (\<lambda>i r. swap_at r i (?m - 1 - i)) [0..<k] rs)"
    if "\<And>r. r \<in> set rs \<Longrightarrow> length r = ?n" "length rs = ?m" "k \<le> ?m div 2" for rs :: "double list list" and k
    using that(3)
  proof (induction k)
    case (Suc k)
    let ?r = "fold (\<lambda>i r. swap_at r i (?m - 1 - i)) [0..<k] rs"
    have r: "length ?r = ?m" "set ?r \<subseteq> set rs"
    proof -
      show "length ?r = ?m" using reverse_fold [of k rs] that(2) Suc.prems by simp
      show "set ?r \<subseteq> set rs"
      proof
        fix x assume "x \<in> set ?r"
        then obtain q where q: "q < ?m" "x = ?r ! q" using \<open>length ?r = ?m\<close> by (auto simp: in_set_conv_nth)
        then have "x = rs ! (?m - 1 - q) \<or> x = rs ! q"
          using reverse_fold [of k rs] that(2) Suc.prems by (simp split: if_splits)
        then show "x \<in> set rs" using q(1) that(2) by auto
      qed
    qed
    have "fold (\<lambda>j d. swap_at d (k * ?n + j) ((?m - 1 - k) * ?n + j)) [0..<?n] (concat ?r) = concat (swap_at ?r k (?m - 1 - k))"
      using r that(1) Suc.prems by (intro swap_rows) auto
    then show ?case using Suc by simp
  qed simp
  note blocks = this [OF rows_length [OF assms(1)] length_rows order_refl]
  have small: "(i * ?n + j) mod 2 ^ 32 = i * ?n + j" if "i < ?m" "j < ?n" for i j
  proof -
    have "i * ?n + j < Suc i * ?n" using that(2) by simp
    also have "\<dots> \<le> ?m * 4" using that(1) by (intro mult_le_mono) (simp_all add: FLAGS_NDIMS_def)
    finally show ?thesis using assms(2) by simp
  qed
  have "fold (\<lambda>i d. fold (\<lambda>j d. swap_at d ((i * ?n + j) mod 2 ^ 32) (((?m - 1 - i) * ?n + j) mod 2 ^ 32)) [0..<?n] d)
        [0..<?m div 2] (concat (rows pa)) =
      fold (\<lambda>i d. fold (\<lambda>j d. swap_at d (i * ?n + j) ((?m - 1 - i) * ?n + j)) [0..<?n] d) [0..<?m div 2] (concat (rows pa))"
  proof (intro fold_cong refl ext)
    fix i j :: nat and d :: "double list" assume ij: "i \<in> set [0..<?m div 2]" "j \<in> set [0..<?n]"
    then have "i < ?m" "?m - 1 - i < ?m" "j < ?n" using False by auto
    then show "swap_at d ((i * ?n + j) mod 2 ^ 32) (((?m - 1 - i) * ?n + j) mod 2 ^ 32) =
        swap_at d (i * ?n + j) ((?m - 1 - i) * ?n + j)"
      by (simp only: small)
  qed
  then have "ptarray_reverse_in_place pa = pa\<lparr>ptlist := concat (rev (rows pa))\<rparr>"
    using False reverse_rows_fold [of "rows pa"] assms blocks by (simp add: ptarray_reverse_in_place_def Let_def rows_concat)
  moreover have "pa_wf (pa\<lparr>ptlist := concat (rev (rows pa))\<rparr>) \<and> rows (pa\<lparr>ptlist := concat (rev (rows pa))\<rparr>) = rev (rows pa)"
    using assms rows_length [OF assms(1)] by (intro rows_update [where pa = pa]) (auto simp: pa_wf_def)
  ultimately show ?thesis by simp
qed (use assms in \<open>simp add: ptarray_reverse_in_place_def rows_def\<close>)

section \<open>Changing every point\<close>

lemma fold_upt_Suc: "fold f [0..<Suc k] x = f k (fold f [0..<k] x)"
  by simp

definition point4d_of :: "u16 \<Rightarrow> double list \<Rightarrow> double list" where
  "point4d_of f p =
     (if hasz f then (if hasm f then p else p @ [0]) else if hasm f then [p ! 0, p ! 1, 0, p ! 2] else p @ [0, 0])"

lemma getPoint4d_rows: "i < npoints pa \<Longrightarrow> getPoint4d_p pa i = point4d_of (pflags pa) (rows pa ! i)"
  by (simp add: getPoint4d_p_def point4d_of_def rows_nth Let_def)

lemma length_point4d_of: "length p = FLAGS_NDIMS f \<Longrightarrow> length (point4d_of f p) = 4"
  by (auto simp: point4d_of_def FLAGS_NDIMS_def)

lemma point_doubles_of: "length p = FLAGS_NDIMS f \<Longrightarrow> point_doubles f (point4d_of f p) = p"
  by (cases p rule: list.exhaust [case_product list.exhaust]; cases "hasz f"; cases "hasm f")
    (auto simp: point_doubles_def point4d_of_def FLAGS_NDIMS_def length_Suc_conv eval_nat_numeral)

lemma map_points_rows:
  assumes wf: "pa_wf pa" and f: "\<And>p. length p = 4 \<Longrightarrow> length (f p) = 4"
  shows "\<exists>pa'. map_points f pa = Inr pa' \<and> pa_wf pa' \<and> pflags pa' = pflags pa \<and>
    rows pa' = map (\<lambda>r. point_doubles (pflags pa) (f (point4d_of (pflags pa) r))) (rows pa)"
proof -
  let ?g = "\<lambda>r. point_doubles (pflags pa) (f (point4d_of (pflags pa) r))"
  let ?st = "\<lambda>i r. bindE r (\<lambda>pa. bindE (getPoint4d_checked pa i) (\<lambda>p. ptarray_set_point4d pa i (f p)))"
  have "\<exists>pa'. fold ?st [0..<k] (Inr pa) = Inr pa' \<and> pa_wf pa' \<and> pflags pa' = pflags pa \<and> npoints pa' = npoints pa \<and>
      rows pa' = map ?g (take k (rows pa)) @ drop k (rows pa)" if "k \<le> npoints pa" for k
    using that
  proof (induction k)
    case (Suc k)
    then obtain q where q: "fold ?st [0..<k] (Inr pa) = Inr q" "pa_wf q" "pflags q = pflags pa" "npoints q = npoints pa"
      "rows q = map ?g (take k (rows pa)) @ drop k (rows pa)" by auto
    have k: "k < npoints q" "k < npoints pa" using q Suc.prems by simp_all
    have "rows q ! k = rows pa ! k" using k by (simp add: q(5) nth_append)
    then have p: "getPoint4d_p q k = point4d_of (pflags pa) (rows pa ! k)" using k q by (simp add: getPoint4d_rows)
    have "length (rows pa ! k) = nd pa" using k(2) by (intro rows_length [OF wf]) simp
    then have l: "length (f (getPoint4d_p q k)) = 4" unfolding p by (intro f length_point4d_of) simp
    have "(rows q)[k := ?g (rows pa ! k)] = map ?g (take (Suc k) (rows pa)) @ drop (Suc k) (rows pa)"
      using k(2) by (simp add: q(5) list_update_append take_Suc_conv_app_nth Cons_nth_drop_Suc [symmetric])
    then show ?case
      using set_point_rows [OF q(2) k(1) l] get_point [OF q(2) k(1)] q by (auto simp: p)
  qed (use wf in simp)
  from this [OF order_refl] show ?thesis by (auto simp: map_points_def)
qed

lemma flip_rows:
  assumes "pa_wf pa"
  shows "\<exists>pa'. ptarray_flip_coordinates pa = Inr pa' \<and> pa_wf pa' \<and> pflags pa' = pflags pa \<and>
    rows pa' = map (\<lambda>r. swap_at r 0 1) (rows pa)"
proof -
  have "point_doubles f (swap_at (point4d_of f r) 0 1) = swap_at r 0 1" if "length r = FLAGS_NDIMS f" for f and r :: "double list"
    using that by (auto simp: point_doubles_def point4d_of_def FLAGS_NDIMS_def length_Suc_conv eval_nat_numeral swap_at_def split: if_splits)
  then have eq: "map (\<lambda>r. point_doubles (pflags pa) (swap_at (point4d_of (pflags pa) r) 0 1)) (rows pa) = map (\<lambda>r. swap_at r 0 1) (rows pa)"
    using rows_length [OF assms] by simp
  show ?thesis
    unfolding ptarray_flip_coordinates_def eq [symmetric] by (rule map_points_rows [OF assms]) simp
qed

text \<open>The coordinates of a point in other dimensions, with the given values for new ones.\<close>

definition force_point :: "u16 \<Rightarrow> bool \<Rightarrow> bool \<Rightarrow> double \<Rightarrow> double \<Rightarrow> double list \<Rightarrow> double list" where
  "force_point f z m zval mval r =
     take 2 r @ (if z then [if hasz f then r ! 2 else zval] else []) @
     (if m then [if hasm f then r ! (if hasz f then 3 else 2) else mval] else [])"

lemma force_dims_rows:
  assumes wf: "pa_wf pa" and n: "npoints pa < 2 ^ 31"
  shows "\<exists>pa'. ptarray_force_dims pa z m zval mval = Inr pa' \<and> pa_wf pa' \<and> pflags pa' = lwflags z m False \<and>
    rows pa' = map (force_point (pflags pa) z m zval mval) (rows pa)"
proof -
  let ?f = "lwflags z m False"
  let ?ap = "\<lambda>i out. bindE (getPoint4d_checked pa i) (\<lambda>pt.
         let pt = (if z \<and> \<not> hasz (pflags pa) then pt[2 := zval] else pt);
             pt = (if m \<and> \<not> hasm (pflags pa) then pt[3 := mval] else pt)
         in ptarray_append_point out pt True)"
  have fp: "point_doubles ?f (if m \<and> \<not> hasm f then (if z \<and> \<not> hasz f then (point4d_of f r)[2 := zval] else point4d_of f r)[3 := mval]
       else (if z \<and> \<not> hasz f then (point4d_of f r)[2 := zval] else point4d_of f r)) = force_point f z m zval mval r"
    if "length r = FLAGS_NDIMS f" for f and r :: "double list"
    using that by (auto simp: force_point_def point_doubles_def point4d_of_def FLAGS_NDIMS_def length_Suc_conv eval_nat_numeral split: if_splits)
  have "\<exists>out. fold (\<lambda>i r. bindE r (?ap i)) [0..<k] (Inr (ptarray_construct_empty z m (npoints pa))) = Inr out \<and>
      pa_wf out \<and> pflags out = ?f \<and> npoints out = k \<and> k \<le> maxpoints out \<and> maxpoints out < 2 ^ 32 \<and>
      rows out = map (force_point (pflags pa) z m zval mval) (take k (rows pa))" if "k \<le> npoints pa" for k
    using that
  proof (induction k)
    case 0
    then show ?case using n by (simp add: ptarray_construct_empty_def pa_wf_def rows_def)
  next
    case (Suc k)
    then obtain out where out: "fold (\<lambda>i r. bindE r (?ap i)) [0..<k] (Inr (ptarray_construct_empty z m (npoints pa))) = Inr out"
      "pa_wf out" "pflags out = ?f" "npoints out = k" "k \<le> maxpoints out" "maxpoints out < 2 ^ 32"
      "rows out = map (force_point (pflags pa) z m zval mval) (take k (rows pa))" by auto
    have k: "k < npoints pa" using Suc.prems by simp
    have rl: "length (rows pa ! k) = nd pa" using k by (intro rows_length [OF wf]) simp
    define p where "p = (if m \<and> \<not> hasm (pflags pa) then
        (if z \<and> \<not> hasz (pflags pa) then (getPoint4d_p pa k)[2 := zval] else getPoint4d_p pa k)[3 := mval]
       else (if z \<and> \<not> hasz (pflags pa) then (getPoint4d_p pa k)[2 := zval] else getPoint4d_p pa k))"
    have p: "length p = 4" "point_doubles ?f p = force_point (pflags pa) z m zval mval (rows pa ! k)"
      using length_point4d_of [OF rl] fp [OF rl] by (auto simp: p_def getPoint4d_rows [OF k])
    have g: "can_grow out" using out k n by (simp add: can_grow_def)
    have ap: "?ap k out = ptarray_append_point out p True" by (simp add: get_point [OF wf k] p_def Let_def)
    have "map (force_point (pflags pa) z m zval mval) (take (Suc k) (rows pa)) =
        rows out @ [point_doubles (pflags out) p]"
      using k by (simp add: out(3,7) p(2) take_Suc_conv_app_nth)
    then show ?case
      using append_point_rows [OF g p(1), of True] unfolding fold_upt_Suc out(1) bindE_Inr ap out(3,4) by auto
  qed
  from this [OF order_refl] show ?thesis by (auto simp: ptarray_force_dims_def)
qed

section \<open>Scrolling a ring\<close>

text \<open>
  A ring that is closed in all dimensions starts and ends at the given point afterwards; the points
  between are rotated. The array has Z with M, or neither.
\<close>

lemma scroll_rows:
  assumes wf: "pa_wf pa" and it: "it < npoints pa" "rows pa ! it = take (nd pa) p" "\<forall>j < it. rows pa ! j \<noteq> take (nd pa) p"
    and closed: "hd (rows pa) = last (rows pa)"
  shows "\<exists>pa'. ptarray_scroll_in_place pa p = Inr pa' \<and> pa_wf pa' \<and> rows pa' = drop it (rows pa) @ take it (drop 1 (rows pa)) \<and>
    hd (rows pa') = take (nd pa) p \<and> last (rows pa') = take (nd pa) p"
proof -
  have ne: "rows pa \<noteq> []" using it(1) length_rows [of pa] by fastforce
  have find: "find (\<lambda>it. pa_point pa it (nd pa) = take (nd pa) p) [0..<npoints pa] = Some it"
  proof -
    have "it = [0..<npoints pa] ! it" using it(1) by simp
    then show ?thesis
      unfolding find_Some_iff using it by (intro exI [of _ it]) (simp add: rows_nth)
  qed
  have cl: "ptarray_is_closed_2d pa"
  proof (cases "npoints pa \<le> 1")
    case False
    have "rows pa ! 0 = rows pa ! (npoints pa - 1)" using closed ne by (simp add: hd_conv_nth last_conv_nth)
    then have "take 2 (pa_point pa 0 (nd pa)) = take 2 (pa_point pa (npoints pa - 1) (nd pa))"
      using False by (simp add: rows_nth)
    then show ?thesis using False by (simp add: ptarray_is_closed_2d_def ptarray_closed_in_def pa_point_def)
  qed (use it(1) in \<open>simp add: ptarray_is_closed_2d_def ptarray_closed_in_def\<close>)
  let ?rs = "drop it (rows pa) @ take it (drop 1 (rows pa))"
  have hl: "hd ?rs = take (nd pa) p" "last ?rs = take (nd pa) p"
  proof -
    show "hd ?rs = take (nd pa) p" using it by (simp add: hd_drop_conv_nth)
    show "last ?rs = take (nd pa) p"
    proof (cases it)
      case 0
      then show ?thesis using closed it ne by (simp add: hd_conv_nth)
    next
      case (Suc j)
      then have "take it (drop 1 (rows pa)) = take j (drop 1 (rows pa)) @ [rows pa ! it]"
        using it(1) by (simp add: take_Suc_conv_app_nth)
      then show ?thesis using it by simp
    qed
  qed
  show ?thesis
  proof (cases "it = 0")
    case True
    then show ?thesis using hl wf find cl by (simp add: ptarray_scroll_in_place_def require_def)
  next
    case False
    have l: "take ((npoints pa - it) * nd pa) (drop (it * nd pa) (ptlist pa)) @ take (it * nd pa) (drop (nd pa) (ptlist pa)) = concat ?rs"
      using stretch_ptlist [OF wf, of it "npoints pa - it"] stretch_ptlist [OF wf, of 1 it] it(1) by simp
    have "pa_wf (pa\<lparr>ptlist := concat ?rs\<rparr>) \<and> rows (pa\<lparr>ptlist := concat ?rs\<rparr>) = ?rs"
      using it(1) wf rows_length [OF wf]
      by (intro rows_update [where pa = pa]) (auto simp: pa_wf_def dest: in_set_takeD in_set_dropD)
    then show ?thesis using False hl find cl l by (simp add: ptarray_scroll_in_place_def require_def)
  qed
qed

section \<open>Repeated points\<close>





section \<open>The operations on the list of points\<close>

text \<open>
  C19. Editing a point array of fewer than 2^30 points is editing the list of its points:
  inserting puts the point, in the dimensions of the array, at its place, appending puts it at the end
  unless repeated points are not wanted and it equals the last one, removing takes the point
  out, reversing reverses the list, exchanging the first two axes and changing the dimensions map the
  points, and each of them keeps the array well-formed. (From 2^30 points on, the 32-bit index of
  \<open>ptarray_reverse_in_place\<close> can wrap.)
\<close>

theorem ptarray_editing_refines:
  assumes "can_grow pa" "npoints pa < 2 ^ 30" "length p = 4" "w \<le> npoints pa"
  shows "(\<exists>q. ptarray_insert_point pa p w = Inr q \<and> pa_wf q \<and>
      rows q = take w (rows pa) @ [point_doubles (pflags pa) p] @ drop w (rows pa)) \<and>
    (\<exists>q. ptarray_append_point pa p repeated = Inr q \<and> pa_wf q \<and>
      rows q = (if \<not> repeated \<and> 0 < npoints pa \<and> same_point pa p (getPoint4d_p pa (npoints pa - 1)) then rows pa
                else rows pa @ [point_doubles (pflags pa) p])) \<and>
    (w < npoints pa \<longrightarrow> (\<exists>q. ptarray_remove_point pa w = Inr q \<and> pa_wf q \<and>
      rows q = take w (rows pa) @ drop (Suc w) (rows pa))) \<and>
    pa_wf (ptarray_reverse_in_place pa) \<and> rows (ptarray_reverse_in_place pa) = rev (rows pa) \<and>
    (\<exists>q. ptarray_flip_coordinates pa = Inr q \<and> pa_wf q \<and> rows q = map (\<lambda>r. swap_at r 0 1) (rows pa)) \<and>
    (\<exists>q. ptarray_force_dims pa z m zval mval = Inr q \<and> pa_wf q \<and> pflags q = lwflags z m False \<and>
      rows q = map (force_point (pflags pa) z m zval mval) (rows pa))"
proof -
  have wf: "pa_wf pa" "npoints pa < 2 ^ 31" using assms(1) by (simp_all add: can_grow_def)
  note insert_point_rows [OF assms(1,4,3)] append_point_any [OF assms(1,3), of repeated] remove_point_rows [OF wf(1), of w]
    reverse_rows [OF wf(1) assms(2)] flip_rows [OF wf(1)] force_dims_rows [OF wf]
  then show ?thesis by blast
qed


text \<open>Four points of the plane, the second equal to the first.\<close>

definition four_points :: pointarray where
  "four_points = \<lparr>npoints = 4, maxpoints = 4, pflags = lwflags False False False, ptlist = [1, 2, 1, 2, 5, 6, 5, 6]\<rparr>"

theorem ptarray_editing_refines_witness:
  "\<exists>q. ptarray_insert_point four_points [9, 8, 7, 6] 1 = Inr q \<and> rows q = [[1, 2], [9, 8], [1, 2], [5, 6], [5, 6]]"
proof -
  have p: "can_grow four_points" "npoints four_points < 2 ^ 30" "length ([9, 8, 7, 6] :: double list) = 4" "1 \<le> npoints four_points"
    by (simp_all add: four_points_def can_grow_def pa_wf_def)
  have "rows four_points = [[1, 2], [1, 2], [5, 6], [5, 6]]"
    by (simp add: rows_def four_points_def pa_point_def upt_rec)
  moreover have "point_doubles (pflags four_points) [9, 8, 7, 6] = [9, 8]" by (simp add: point_doubles_def four_points_def)
  ultimately show ?thesis using ptarray_editing_refines [OF p, of True False False 0 0] by auto
qed


text \<open>
  Scrolling a ring with M and without Z to one of its own points reports that the point is not
  there: the M of the ring is compared with the Z of the point.
\<close>

lemma ptarray_scroll_in_place_loses_m:
  "let pa = \<lparr>npoints = 3, maxpoints = 3, pflags = lwflags False True False, ptlist = [1, 2, 5, 3, 4, 6, 1, 2, 5]\<rparr> in
   getPoint4d_p pa 1 = [3, 4, 0, 6] \<and>
   ptarray_scroll_in_place pa (getPoint4d_p pa 1) =
     Inl (LwError ''ptarray_scroll_in_place: input POINTARRAY does not contain the given point'')"
  by (simp add: Let_def getPoint4d_p_def pa_point_def ptarray_scroll_in_place_def ptarray_is_closed_2d_def
      ptarray_closed_in_def require_def upt_rec)

end
