(* ===== verification/TWKBIn.thy ===== *)
theory TWKBIn
  imports Varint WKBSafe PTArrayOk RasterNum
begin

text \<open>
  The reader of Tiny WKB (liblwgeom/lwin_twkb.c), the exchange form that stores coordinates as
  differences of scaled integers in variable-length form. Counts are believed only when the rest
  of the input could hold that many elements.

  The input is a list of bytes, a position is an offset into it. \<open>pow10\<close> is \<open>pow (10, p)\<close> of the C
  library. As elsewhere, \<open>lwerror\<close> does not come back, so the member \<open>error\<close> is never seen set.
\<close>

record twkb_parse_state =
  twkb :: "byte list"
  tw_pos :: nat
  tw_check :: byte
  tw_lwtype :: nat
  tw_depth :: nat
  tw_has_bbox :: bool
  tw_has_size :: bool
  tw_has_idlist :: bool
  tw_has_z :: bool
  tw_has_m :: bool
  tw_is_empty :: bool
  tw_factor :: double
  tw_factor_z :: double
  tw_factor_m :: double
  tw_size :: u64
  tw_ndims :: nat
  tw_coords :: "u64 list"

section \<open>Elements\<close>

definition twkb_parse_state_advance :: "twkb_parse_state \<Rightarrow> nat \<Rightarrow> lwerr + twkb_parse_state" where
  "twkb_parse_state_advance s next =
     bindE (require (\<not> next > length (twkb s) - tw_pos s) ''%s: TWKB structure does not match expected size!'') (\<lambda>_.
     Inr (s\<lparr>tw_pos := tw_pos s + next\<rparr>))"

definition twkb_parse_state_varint :: "twkb_parse_state \<Rightarrow> lwerr + (u64 \<times> twkb_parse_state)" where
  "twkb_parse_state_varint s =
     bindE (varint_s64_decode (drop (tw_pos s) (twkb s))) (\<lambda>(val, sz).
     bindE (twkb_parse_state_advance s sz) (\<lambda>s. Inr (val, s)))"

definition twkb_parse_state_uvarint :: "twkb_parse_state \<Rightarrow> lwerr + (u64 \<times> twkb_parse_state)" where
  "twkb_parse_state_uvarint s =
     bindE (varint_u64_decode (drop (tw_pos s) (twkb s))) (\<lambda>(val, sz).
     bindE (twkb_parse_state_advance s sz) (\<lambda>s. Inr (val, s)))"

definition twkb_parse_state_double :: "twkb_parse_state \<Rightarrow> double \<Rightarrow> lwerr + (double \<times> twkb_parse_state)" where
  "twkb_parse_state_double s factor =
     bindS (twkb_parse_state_varint s) (\<lambda>val s. Inr (dbl_div (dbl_of_int (sint val)) factor, s))"

definition twkb_parse_state_varint_skip :: "twkb_parse_state \<Rightarrow> lwerr + twkb_parse_state" where
  "twkb_parse_state_varint_skip s =
     (let sz = varint_size (drop (tw_pos s) (twkb s)) in
      bindE (require (\<not> sz = 0) ''%s: no varint to skip'') (\<lambda>_. twkb_parse_state_advance s sz))"

definition twkb_parse_state_uvarint32 :: "twkb_parse_state \<Rightarrow> lwerr + (nat \<times> twkb_parse_state)" where
  "twkb_parse_state_uvarint32 s =
     bindS (twkb_parse_state_uvarint s) (\<lambda>val s.
     bindE (require (\<not> unat val > 2 ^ 32 - 1) ''%s: TWKB count exceeds uint32_t'') (\<lambda>_. Inr (unat val, s)))"

definition twkb_parse_state_has_min_bytes :: "twkb_parse_state \<Rightarrow> nat \<Rightarrow> nat \<Rightarrow> lwerr + unit" where
  "twkb_parse_state_has_min_bytes s count min_bytes =
     require (\<not> (min_bytes \<noteq> 0 \<and> count > (length (twkb s) - tw_pos s) div min_bytes))
       ''%s: TWKB element count exceeds remaining payload''"

definition twkb_parse_state_accum_coord :: "twkb_parse_state \<Rightarrow> nat \<Rightarrow> lwerr + twkb_parse_state" where
  "twkb_parse_state_accum_coord s coord_index =
     bindS (twkb_parse_state_varint s) (\<lambda>val s.
     Inr (s\<lparr>tw_coords := (tw_coords s)[coord_index := tw_coords s ! coord_index + val]\<rparr>))"

definition lwtype_from_twkb_type :: "nat \<Rightarrow> lwerr + nat" where
  "lwtype_from_twkb_type twkb_type =
     (case map_of [(1, POINTTYPE), (2, LINETYPE), (3, POLYGONTYPE), (4, MULTIPOINTTYPE), (5, MULTILINETYPE),
        (6, MULTIPOLYGONTYPE), (7, COLLECTIONTYPE)] twkb_type of
        None \<Rightarrow> Inl (LwError ''Unknown WKB type'')
      | Some t \<Rightarrow> Inr t)"

definition byte_from_twkb_state :: "twkb_parse_state \<Rightarrow> lwerr + (byte \<times> twkb_parse_state)" where
  "byte_from_twkb_state s =
     bindE (if length (twkb s) - tw_pos s \<ge> 1 then mem_at (twkb s) (tw_pos s) 1 else Inr [0]) (\<lambda>val.
     bindE (twkb_parse_state_advance s 1) (\<lambda>s. Inr (hd val, s)))"

section \<open>Points\<close>

text \<open>The coordinates of one point from \<open>j\<close> on, then those of \<open>n\<close> points.\<close>

fun point_from_twkb_state :: "double list \<Rightarrow> nat \<Rightarrow> twkb_parse_state \<Rightarrow> lwerr + (double list \<times> twkb_parse_state)" where
  "point_from_twkb_state [] j s = Inr ([], s)"
| "point_from_twkb_state (f # fs) j s =
     bindE (twkb_parse_state_accum_coord s j) (\<lambda>s.
     let d = dbl_div (dbl_of_int (sint (tw_coords s ! j))) f in
     bindS (point_from_twkb_state fs (j + 1) s) (\<lambda>ds s. Inr (d # ds, s)))"

fun points_from_twkb_state :: "double list \<Rightarrow> nat \<Rightarrow> twkb_parse_state \<Rightarrow> lwerr + (double list \<times> twkb_parse_state)" where
  "points_from_twkb_state factors 0 s = Inr ([], s)"
| "points_from_twkb_state factors (Suc n) s =
     bindS (point_from_twkb_state factors 0 s) (\<lambda>p s.
     bindS (points_from_twkb_state factors n s) (\<lambda>ps s. Inr (p @ ps, s)))"

definition twkb_factors :: "twkb_parse_state \<Rightarrow> double list" where
  "twkb_factors s = [tw_factor s, tw_factor s] @ (if tw_has_z s then [tw_factor_z s] else []) @
     (if tw_has_m s then [tw_factor_m s] else [])"

definition ptarray_from_twkb_state :: "twkb_parse_state \<Rightarrow> nat \<Rightarrow> lwerr + (pointarray \<times> twkb_parse_state)" where
  "ptarray_from_twkb_state s n =
     (if n = 0 then Inr (ptarray_construct_empty (tw_has_z s) (tw_has_m s) 0, s)
      else
        bindE (twkb_parse_state_has_min_bytes s n (tw_ndims s)) (\<lambda>_.
        bindS (points_from_twkb_state (twkb_factors s) n s) (\<lambda>dlist s.
        Inr (ptarray_construct (tw_has_z s) (tw_has_m s) n dlist, s))))"

section \<open>Geometries\<close>

definition lwpoint_from_twkb_state :: "twkb_parse_state \<Rightarrow> lwerr + (lwgeom \<times> twkb_parse_state)" where
  "lwpoint_from_twkb_state s =
     (if tw_is_empty s then Inr (lwpoint_construct_empty SRID_UNKNOWN (tw_has_z s) (tw_has_m s), s)
      else bindS (ptarray_from_twkb_state s 1) (\<lambda>pa s. Inr (lwpoint_construct SRID_UNKNOWN None pa, s)))"

definition lwline_from_twkb_state :: "twkb_parse_state \<Rightarrow> lwerr + (lwgeom \<times> twkb_parse_state)" where
  "lwline_from_twkb_state s =
     (if tw_is_empty s then Inr (lwline_construct_empty SRID_UNKNOWN (tw_has_z s) (tw_has_m s), s)
      else
        bindS (twkb_parse_state_uvarint32 s) (\<lambda>n s.
        if n = 0 then Inr (lwline_construct_empty SRID_UNKNOWN (tw_has_z s) (tw_has_m s), s)
        else
          bindS (ptarray_from_twkb_state s n) (\<lambda>pa s.
          bindE (require (\<not> (has_bits (tw_check s) LW_PARSER_CHECK_MINPOINTS \<and> npoints pa < 2))
            ''%s must have at least two points'') (\<lambda>_.
          Inr (lwline_construct SRID_UNKNOWN None pa, s)))))"

text \<open>
  The rings. An array without points is not NULL, so the code that means to skip it does not,
  and its first point is asked for.
\<close>

fun rings_from_twkb_state :: "nat \<Rightarrow> lwgeom \<Rightarrow> twkb_parse_state \<Rightarrow> lwerr + (lwgeom \<times> twkb_parse_state)" where
  "rings_from_twkb_state 0 poly s = Inr (poly, s)"
| "rings_from_twkb_state (Suc n) poly s =
     bindS (twkb_parse_state_uvarint32 s) (\<lambda>np s.
     bindS (ptarray_from_twkb_state s np) (\<lambda>pa s.
     bindE (if \<not> ptarray_is_closed_2d pa
            then bindE (getPoint4d_checked pa 0) (\<lambda>pt. ptarray_append_point pa pt False) else Inr pa) (\<lambda>pa.
     bindE (require (\<not> (has_bits (tw_check s) LW_PARSER_CHECK_MINPOINTS \<and> npoints pa < 4))
       ''%s must have at least four points in each ring'') (\<lambda>_.
     bindE (lwpoly_add_ring poly pa) (\<lambda>poly. rings_from_twkb_state n poly s)))))"

definition lwpoly_from_twkb_state :: "twkb_parse_state \<Rightarrow> lwerr + (lwgeom \<times> twkb_parse_state)" where
  "lwpoly_from_twkb_state s =
     (if tw_is_empty s then Inr (lwpoly_construct_empty SRID_UNKNOWN (tw_has_z s) (tw_has_m s), s)
      else
        bindS (twkb_parse_state_uvarint32 s) (\<lambda>nrings s.
        let poly = lwpoly_construct_empty SRID_UNKNOWN (tw_has_z s) (tw_has_m s) in
        if nrings = 0 then Inr (poly, s)
        else
          bindE (twkb_parse_state_has_min_bytes s nrings 1) (\<lambda>_. rings_from_twkb_state nrings poly s)))"

fun ids_from_twkb_state :: "nat \<Rightarrow> twkb_parse_state \<Rightarrow> lwerr + twkb_parse_state" where
  "ids_from_twkb_state 0 s = Inr s"
| "ids_from_twkb_state (Suc n) s = bindE (twkb_parse_state_varint_skip s) (ids_from_twkb_state n)"

text \<open>What all collections start with: the number of members and the list of their ids.\<close>

definition count_from_twkb_state :: "nat \<Rightarrow> twkb_parse_state \<Rightarrow> lwerr + (nat \<times> twkb_parse_state)" where
  "count_from_twkb_state min_bytes s =
     bindS (twkb_parse_state_uvarint32 s) (\<lambda>ngeoms s.
     bindE (if tw_has_idlist s then twkb_parse_state_has_min_bytes s ngeoms 1 else Inr ()) (\<lambda>_.
     bindE (if tw_has_idlist s then ids_from_twkb_state ngeoms s else Inr s) (\<lambda>s.
     bindE (twkb_parse_state_has_min_bytes s ngeoms min_bytes) (\<lambda>_. Inr (ngeoms, s)))))"

type_synonym twkb_reader = "twkb_parse_state \<Rightarrow> lwerr + (lwgeom \<times> twkb_parse_state)"

fun geoms_from_twkb_state :: "twkb_reader \<Rightarrow> nat \<Rightarrow> lwgeom \<Rightarrow> twkb_reader" where
  "geoms_from_twkb_state rd 0 col s = Inr (col, s)"
| "geoms_from_twkb_state rd (Suc n) col s =
     bindS (rd s) (\<lambda>geom s. bindE (lwcollection_add_lwgeom col geom) (\<lambda>col. geoms_from_twkb_state rd n col s))"

definition lwmulti_from_twkb_state :: "twkb_reader \<Rightarrow> nat \<Rightarrow> twkb_reader" where
  "lwmulti_from_twkb_state rd min_bytes s =
     bindE (lwcollection_construct_empty (tw_lwtype s) SRID_UNKNOWN (tw_has_z s) (tw_has_m s)) (\<lambda>col.
     if tw_is_empty s then Inr (col, s)
     else bindS (count_from_twkb_state min_bytes s) (\<lambda>ngeoms s. geoms_from_twkb_state rd ngeoms col s))"

definition lwmultipoint_from_twkb_state :: twkb_reader where
  "lwmultipoint_from_twkb_state s = lwmulti_from_twkb_state lwpoint_from_twkb_state (tw_ndims s) s"

definition lwmultiline_from_twkb_state :: twkb_reader where
  "lwmultiline_from_twkb_state s = lwmulti_from_twkb_state lwline_from_twkb_state 1 s"

definition lwmultipoly_from_twkb_state :: twkb_reader where
  "lwmultipoly_from_twkb_state s = lwmulti_from_twkb_state lwpoly_from_twkb_state 1 s"

definition lwcollection_from_twkb_state :: "twkb_reader \<Rightarrow> twkb_reader" where
  "lwcollection_from_twkb_state rd s =
     bindE (lwcollection_construct_empty (tw_lwtype s) SRID_UNKNOWN (tw_has_z s) (tw_has_m s)) (\<lambda>col.
     if tw_is_empty s then Inr (col, s)
     else
       bindS (count_from_twkb_state 2 s) (\<lambda>ngeoms s.
       let s = s\<lparr>tw_depth := tw_depth s + 1\<rparr> in
       bindE (require (\<not> tw_depth s \<ge> LW_PARSER_MAX_DEPTH) ''Geometry has too many chained collections'') (\<lambda>_.
       bindS (geoms_from_twkb_state rd ngeoms col s) (\<lambda>col s. Inr (col, s\<lparr>tw_depth := tw_depth s - 1\<rparr>)))))"

section \<open>The front of a geometry\<close>

definition dims_from_twkb_state :: "(int \<Rightarrow> double) \<Rightarrow> bool \<Rightarrow> twkb_parse_state \<Rightarrow> lwerr + twkb_parse_state" where
  "dims_from_twkb_state pow10 extended_dims s =
     (if extended_dims then
        bindS (byte_from_twkb_state s) (\<lambda>ext s.
        Inr (s\<lparr>tw_has_z := bit ext 0, tw_has_m := bit ext 1, tw_factor_z := pow10 (uint (drop_bit 2 (ext AND 0x1C))),
               tw_factor_m := pow10 (uint (drop_bit 5 (ext AND 0xE0)))\<rparr>))
      else Inr (s\<lparr>tw_has_z := False, tw_has_m := False, tw_factor_z := 0, tw_factor_m := 0\<rparr>))"

definition header_from_twkb_state :: "(int \<Rightarrow> double) \<Rightarrow> twkb_parse_state \<Rightarrow> lwerr + twkb_parse_state" where
  "header_from_twkb_state pow10 s =
     bindS (byte_from_twkb_state s) (\<lambda>type_precision s.
     bindS (byte_from_twkb_state s) (\<lambda>metadata s.
     bindE (lwtype_from_twkb_type (unat (type_precision AND 0x0F))) (\<lambda>t.
     let precision = unzigzag8 (drop_bit 4 (type_precision AND 0xF0));
         s = s\<lparr>tw_lwtype := t, tw_factor := pow10 (sint precision), tw_has_bbox := bit metadata 0,
               tw_has_size := bit metadata 1, tw_has_idlist := bit metadata 2, tw_is_empty := bit metadata 4\<rparr> in
     bindE (dims_from_twkb_state pow10 (bit metadata 3) s) (\<lambda>s.
     bindE (if tw_has_size s then bindS (twkb_parse_state_uvarint s) (\<lambda>n s. Inr (s\<lparr>tw_size := n\<rparr>)) else Inr s) (\<lambda>s.
     Inr (s\<lparr>tw_ndims := 2 + of_bool (tw_has_z s) + of_bool (tw_has_m s)\<rparr>))))))"

text \<open>A lower bound and an extent.\<close>

definition range_from_twkb_state :: "double \<Rightarrow> twkb_parse_state \<Rightarrow> lwerr + ((double \<times> double) \<times> twkb_parse_state)" where
  "range_from_twkb_state factor s =
     bindS (twkb_parse_state_double s factor) (\<lambda>lo s.
     bindS (twkb_parse_state_double s factor) (\<lambda>d s. Inr ((lo, dbl_add lo d), s)))"

definition bbox_from_twkb_state :: "twkb_parse_state \<Rightarrow> lwerr + (gbox option \<times> twkb_parse_state)" where
  "bbox_from_twkb_state s =
     (if \<not> tw_has_bbox s then Inr (None, s)
      else
        bindS (range_from_twkb_state (tw_factor s) s) (\<lambda>(xlo, xhi) s.
        bindS (range_from_twkb_state (tw_factor s) s) (\<lambda>(ylo, yhi) s.
        bindS (if tw_has_z s then range_from_twkb_state (tw_factor_z s) s else Inr ((0, 0), s)) (\<lambda>(zlo, zhi) s.
        bindS (if tw_has_m s then range_from_twkb_state (tw_factor_m s) s else Inr ((0, 0), s)) (\<lambda>(mlo, mhi) s.
        Inr (Some \<lparr>gflags = lwflags (tw_has_z s) (tw_has_m s) False, xmin = xlo, xmax = xhi, ymin = ylo, ymax = yhi,
                   zmin = zlo, zmax = zhi, mmin = mlo, mmax = mhi\<rparr>, s))))))"

text \<open>The first argument bounds the nesting; the box is attached as it was read.\<close>

primrec lwgeom_from_twkb_state :: "nat \<Rightarrow> (int \<Rightarrow> double) \<Rightarrow> twkb_reader" where
  "lwgeom_from_twkb_state 0 pow10 s = Inl OutOfFuel"
| "lwgeom_from_twkb_state (Suc fuel) pow10 s =
     bindE (header_from_twkb_state pow10 s) (\<lambda>s.
     bindS (bbox_from_twkb_state (s\<lparr>tw_coords := [0, 0, 0, 0]\<rparr>)) (\<lambda>b s.
     bindS (if tw_lwtype s = POINTTYPE then lwpoint_from_twkb_state s
            else if tw_lwtype s = LINETYPE then lwline_from_twkb_state s
            else if tw_lwtype s = POLYGONTYPE then lwpoly_from_twkb_state s
            else if tw_lwtype s = MULTIPOINTTYPE then lwmultipoint_from_twkb_state s
            else if tw_lwtype s = MULTILINETYPE then lwmultiline_from_twkb_state s
            else if tw_lwtype s = MULTIPOLYGONTYPE then lwmultipoly_from_twkb_state s
            else if tw_lwtype s = COLLECTIONTYPE then lwcollection_from_twkb_state (lwgeom_from_twkb_state fuel pow10) s
            else Inl (LwError ''%s: Unsupported geometry type: %s'')) (\<lambda>g s.
     Inr (case b of None \<Rightarrow> g | Some x \<Rightarrow> map_lwhead (\<lambda>h. h\<lparr>bbox := Some x\<rparr>) g, s))))"

definition twkb_initial_state :: "byte list \<Rightarrow> byte \<Rightarrow> twkb_parse_state" where
  "twkb_initial_state bytes chk =
     \<lparr>twkb = bytes, tw_pos = 0, tw_check = chk, tw_lwtype = 0, tw_depth = 0, tw_has_bbox = False, tw_has_size = False,
      tw_has_idlist = False, tw_has_z = False, tw_has_m = False, tw_is_empty = False, tw_factor = 0, tw_factor_z = 0,
      tw_factor_m = 0, tw_size = 0, tw_ndims = 0, tw_coords = [0, 0, 0, 0]\<rparr>"

definition lwgeom_from_twkb :: "(int \<Rightarrow> double) \<Rightarrow> byte list \<Rightarrow> byte \<Rightarrow> lwerr + lwgeom" where
  "lwgeom_from_twkb pow10 bytes chk =
     bindS (lwgeom_from_twkb_state LW_PARSER_MAX_DEPTH pow10 (twkb_initial_state bytes chk)) (\<lambda>g s. Inr g)"

end
