(* ===== verification/TWKBSafe.thy ===== *)
theory TWKBSafe
  imports TWKBIn
begin

text \<open>
  The Tiny WKB reader on arbitrary bytes: every read stays inside the input, every array it
  grows stays within its capacity, the nesting bound is enough, and what it returns is a
  well-formed geometry. The results are composed with \<open>safe\<close>, as for WKB.
\<close>

section \<open>Reading scalars\<close>

text \<open>
  \<open>in_twkb\<close> is the invariant of the position; a leaf reader moves the position forward and
  changes the accumulated coordinates, nothing else.
\<close>

definition in_twkb :: "twkb_parse_state \<Rightarrow> bool" where
  "in_twkb s \<longleftrightarrow> tw_pos s \<le> length (twkb s) \<and> length (twkb s) < 2 ^ 31"

definition tleaf :: "twkb_parse_state \<Rightarrow> twkb_parse_state \<Rightarrow> bool" where
  "tleaf s s' \<longleftrightarrow> (\<exists>p c. s' = s\<lparr>tw_pos := p, tw_coords := c\<rparr> \<and> tw_pos s \<le> p \<and> p \<le> length (twkb s))"

lemma tleaf_refl: "in_twkb s \<Longrightarrow> tleaf s s"
  unfolding tleaf_def in_twkb_def by (intro exI [of _ "tw_pos s"] exI [of _ "tw_coords s"]) auto

lemma tleaf_trans: "tleaf s s' \<Longrightarrow> tleaf s' s'' \<Longrightarrow> tleaf s s''"
  unfolding tleaf_def by fastforce

lemma tleaf_in: "in_twkb s \<Longrightarrow> tleaf s s' \<Longrightarrow> in_twkb s'"
  by (auto simp: tleaf_def in_twkb_def)

lemma tleaf_same:
  "tleaf s s' \<Longrightarrow> twkb s' = twkb s \<and> tw_check s' = tw_check s \<and> tw_lwtype s' = tw_lwtype s \<and> tw_depth s' = tw_depth s \<and>
    tw_has_z s' = tw_has_z s \<and> tw_has_m s' = tw_has_m s \<and> tw_ndims s' = tw_ndims s \<and> tw_pos s \<le> tw_pos s'"
  by (auto simp: tleaf_def)

lemma tleaf_coords [simp]: "tleaf s (s'\<lparr>tw_coords := c\<rparr>) = tleaf s s'"
proof
  assume "tleaf s (s'\<lparr>tw_coords := c\<rparr>)"
  then obtain p d where p: "s'\<lparr>tw_coords := c\<rparr> = s\<lparr>tw_pos := p, tw_coords := d\<rparr>" "tw_pos s \<le> p" "p \<le> length (twkb s)"
    by (auto simp: tleaf_def)
  have "s' = s\<lparr>tw_pos := p, tw_coords := tw_coords s'\<rparr>"
    using arg_cong [OF p(1), of "\<lambda>x. x\<lparr>tw_coords := tw_coords s'\<rparr>"] by simp
  with p show "tleaf s s'" unfolding tleaf_def by blast
next
  assume "tleaf s s'"
  then obtain p d where "s' = s\<lparr>tw_pos := p, tw_coords := d\<rparr>" "tw_pos s \<le> p" "p \<le> length (twkb s)"
    by (auto simp: tleaf_def)
  then show "tleaf s (s'\<lparr>tw_coords := c\<rparr>)"
    unfolding tleaf_def by (intro exI [of _ p] exI [of _ c]) simp
qed

lemma advance_safe: "in_twkb s \<Longrightarrow> safe (\<lambda>s'. tleaf s s' \<and> tw_pos s' = tw_pos s + n) (twkb_parse_state_advance s n)"
  by (auto simp: twkb_parse_state_advance_def require_def tleaf_def in_twkb_def intro!: exI [of _ "tw_coords s"])

lemma varint_safe:
  "safe (\<lambda>(v, n). 0 < n) (varint_u64_decode_loop bs v k m)"
  by (induction bs v k m rule: varint_u64_decode_loop.induct) auto

lemma uvarint_safe: "in_twkb s \<Longrightarrow> safe (\<lambda>(v, s'). tleaf s s' \<and> tw_pos s < tw_pos s') (twkb_parse_state_uvarint s)"
  unfolding twkb_parse_state_uvarint_def varint_u64_decode_def
  by (rule safe_bindE [OF varint_safe], clarsimp, rule safe_bindE [OF advance_safe]) auto

lemma svarint_safe: "in_twkb s \<Longrightarrow> safe (\<lambda>(v, s'). tleaf s s' \<and> tw_pos s < tw_pos s') (twkb_parse_state_varint s)"
  unfolding twkb_parse_state_varint_def varint_s64_decode_def varint_u64_decode_def bindE_assoc
  by (rule safe_bindE [OF varint_safe], clarsimp, rule safe_bindE [OF advance_safe]) auto

lemma uvarint32_safe:
  "in_twkb s \<Longrightarrow> safe (\<lambda>(n, s'). tleaf s s' \<and> tw_pos s < tw_pos s' \<and> n < 2 ^ 32) (twkb_parse_state_uvarint32 s)"
  unfolding twkb_parse_state_uvarint32_def
  by (rule safe_bindS [OF uvarint_safe], assumption, rule safe_require) auto

lemma tdouble_safe: "in_twkb s \<Longrightarrow> safe (\<lambda>(v, s'). tleaf s s' \<and> tw_pos s < tw_pos s') (twkb_parse_state_double s f)"
  unfolding twkb_parse_state_double_def by (rule safe_bindS [OF svarint_safe]) auto

lemma skip_safe: "in_twkb s \<Longrightarrow> safe (tleaf s) (twkb_parse_state_varint_skip s)"
  unfolding twkb_parse_state_varint_skip_def Let_def
  by (rule safe_require, rule safe_mono [OF advance_safe]) auto

lemma accum_safe: "in_twkb s \<Longrightarrow> safe (tleaf s) (twkb_parse_state_accum_coord s j)"
  unfolding twkb_parse_state_accum_coord_def by (rule safe_bindS [OF svarint_safe]) auto

lemma tbyte_safe:
  assumes "in_twkb s"
  shows "safe (\<lambda>(b, s'). tleaf s s' \<and> tw_pos s < tw_pos s') (byte_from_twkb_state s)"
proof -
  have "safe (\<lambda>_. True) (if length (twkb s) - tw_pos s \<ge> 1 then mem_at (twkb s) (tw_pos s) 1 else Inr [0])"
    by (auto simp: mem_at_def)
  then show ?thesis unfolding byte_from_twkb_state_def
    by (rule safe_bindE, intro safe_bindE [OF advance_safe [OF assms]]) auto
qed

lemma safe_min_bytes:
  "(k \<noteq> 0 \<Longrightarrow> n \<le> (length (twkb s) - tw_pos s) div k \<Longrightarrow> safe R (f ())) \<Longrightarrow> (k = 0 \<Longrightarrow> safe R (f ())) \<Longrightarrow>
   safe R (bindE (twkb_parse_state_has_min_bytes s n k) f)"
  by (cases "k = 0") (auto simp: twkb_parse_state_has_min_bytes_def require_def not_less)

section \<open>Point arrays\<close>

definition dims_set :: "twkb_parse_state \<Rightarrow> bool" where
  "dims_set s \<longleftrightarrow> tw_ndims s = 2 + of_bool (tw_has_z s) + of_bool (tw_has_m s)"

lemma dims_set_leaf: "tleaf s s' \<Longrightarrow> dims_set s' = dims_set s"
  by (auto simp: dims_set_def dest!: tleaf_same)

lemma point_safe:
  "in_twkb s \<Longrightarrow> safe (\<lambda>(ds, s'). tleaf s s' \<and> length ds = length fs) (point_from_twkb_state fs j s)"
proof (induction fs arbitrary: j s)
  case (Cons f fs)
  show ?case unfolding point_from_twkb_state.simps Let_def
  proof (rule safe_bindE [OF accum_safe [OF Cons.prems]])
    fix s1 assume 1: "tleaf s s1"
    show "safe (\<lambda>(ds, s'). tleaf s s' \<and> length ds = length (f # fs))
       (bindS (point_from_twkb_state fs (j + 1) s1) (\<lambda>ds s. Inr (dbl_div (dbl_of_int (sint (tw_coords s1 ! j))) f # ds, s)))"
      by (rule safe_bindS [OF Cons.IH [OF tleaf_in [OF Cons.prems 1]]]) (use tleaf_trans [OF 1] in auto)
  qed
qed (simp add: tleaf_refl)

lemma points_safe:
  "in_twkb s \<Longrightarrow> safe (\<lambda>(ds, s'). tleaf s s' \<and> length ds = n * length fs) (points_from_twkb_state fs n s)"
proof (induction n arbitrary: s)
  case (Suc n)
  show ?case unfolding points_from_twkb_state.simps
  proof (rule safe_bindS [OF point_safe [OF Suc.prems]])
    fix p :: "double list" and s1 assume "case (p, s1) of (ds, s') \<Rightarrow> tleaf s s' \<and> length ds = length fs"
    then have 1: "tleaf s s1" "length p = length fs" by simp_all
    show "safe (\<lambda>(ds, s'). tleaf s s' \<and> length ds = Suc n * length fs)
       (bindS (points_from_twkb_state fs n s1) (\<lambda>ps s. Inr (p @ ps, s)))"
      by (rule safe_bindS [OF Suc.IH [OF tleaf_in [OF Suc.prems 1(1)]]]) (use tleaf_trans [OF 1(1)] 1(2) in auto)
  qed
qed (simp add: tleaf_refl)

lemma length_twkb_factors: "dims_set s \<Longrightarrow> length (twkb_factors s) = tw_ndims s"
  by (simp add: twkb_factors_def dims_set_def)

definition read_pa :: "twkb_parse_state \<Rightarrow> nat \<Rightarrow> pointarray \<Rightarrow> bool" where
  "read_pa s n pa \<longleftrightarrow> can_grow pa \<and> npoints pa = n \<and> same_zm (lwflags (tw_has_z s) (tw_has_m s) False) (pflags pa)"

lemma read_pa_construct:
  "n < 2 ^ 31 \<Longrightarrow> length ds = n * (2 + of_bool (tw_has_z s) + of_bool (tw_has_m s)) \<Longrightarrow>
   read_pa s n (ptarray_construct (tw_has_z s) (tw_has_m s) n ds)"
  by (simp add: read_pa_def can_grow_def pa_wf_def ptarray_construct_def ptarray_construct_empty_def)

lemma ptarray_twkb_safe:
  assumes s: "in_twkb s" "dims_set s" "n < 2 ^ 32"
  shows "safe (\<lambda>(pa, s'). tleaf s s' \<and> read_pa s n pa) (ptarray_from_twkb_state s n)"
proof (cases "n = 0")
  case True
  then have "read_pa s n (ptarray_construct_empty (tw_has_z s) (tw_has_m s) 0)"
    by (simp add: read_pa_def can_grow_def pa_wf_def ptarray_construct_empty_def)
  with True s(1) show ?thesis by (simp add: ptarray_from_twkb_state_def tleaf_refl)
next
  case False
  have "safe (\<lambda>(pa, s'). tleaf s s' \<and> read_pa s n pa)
      (bindS (points_from_twkb_state (twkb_factors s) n s) (\<lambda>dlist s. Inr (ptarray_construct (tw_has_z s) (tw_has_m s) n dlist, s)))"
    if n: "n < 2 ^ 31"
  proof (rule safe_bindS [OF points_safe [OF s(1)]])
    fix ds :: "double list" and s' assume "case (ds, s') of (ds, s') \<Rightarrow> tleaf s s' \<and> length ds = n * length (twkb_factors s)"
    with length_twkb_factors [OF s(2)] s(2) have 1: "tleaf s s'" "length ds = n * (2 + of_bool (tw_has_z s) + of_bool (tw_has_m s))"
      by (simp_all add: dims_set_def)
    from read_pa_construct [OF n 1(2)] tleaf_same [OF 1(1)] 1(1)
    show "safe (\<lambda>(pa, s'). tleaf s s' \<and> read_pa s n pa) (Inr (ptarray_construct (tw_has_z s') (tw_has_m s') n ds, s'))" by simp
  qed
  moreover have "n < 2 ^ 31" if "n \<le> (length (twkb s) - tw_pos s) div tw_ndims s"
    using le_trans [OF le_trans [OF that div_le_dividend] diff_le_self] s(1) by (simp add: in_twkb_def)
  ultimately show ?thesis using False s(2) unfolding ptarray_from_twkb_state_def
    by (auto intro!: safe_min_bytes simp: dims_set_def)
qed

section \<open>Geometries without members\<close>

definition good_tleaf :: "twkb_parse_state \<Rightarrow> lwgeom \<times> twkb_parse_state \<Rightarrow> bool" where
  "good_tleaf s r \<longleftrightarrow> lwgeom_wf (fst r) \<and> tleaf s (snd r)"

lemma good_tleaf_simp [simp]: "good_tleaf s (g, s') \<longleftrightarrow> lwgeom_wf g \<and> tleaf s s'"
  by (simp add: good_tleaf_def)

lemma good_tleaf_trans: "tleaf s s' \<Longrightarrow> good_tleaf s' r \<Longrightarrow> good_tleaf s r"
  by (auto simp: good_tleaf_def tleaf_trans)

lemma read_pa_construct_wf:
  assumes "read_pa s n pa"
  shows "lwgeom_wf (lwline_construct i None pa)" "n \<le> 1 \<Longrightarrow> lwgeom_wf (lwpoint_construct i None pa)"
  using assms
  by (auto simp: read_pa_def can_grow_def lwline_construct_def lwpoint_construct_def bbox_head_def Let_def same_zm_def)

lemma tpoint_safe: "in_twkb s \<Longrightarrow> dims_set s \<Longrightarrow> safe (good_tleaf s) (lwpoint_from_twkb_state s)"
proof -
  assume s: "in_twkb s" "dims_set s"
  have "safe (good_tleaf s) (bindS (ptarray_from_twkb_state s 1) (\<lambda>pa s. Inr (lwpoint_construct SRID_UNKNOWN None pa, s)))"
    by (rule safe_bindS [OF ptarray_twkb_safe [OF s]]) (auto intro: read_pa_construct_wf(2))
  then show ?thesis using tleaf_refl [OF s(1)] by (simp add: lwpoint_from_twkb_state_def construct_empty_wf)
qed

lemma tline_safe:
  assumes s: "in_twkb s" "dims_set s"
  shows "safe (good_tleaf s) (lwline_from_twkb_state s)"
proof -
  have "safe (good_tleaf s) (bindS (twkb_parse_state_uvarint32 s) (\<lambda>n s.
        if n = 0 then Inr (lwline_construct_empty SRID_UNKNOWN (tw_has_z s) (tw_has_m s), s)
        else
          bindS (ptarray_from_twkb_state s n) (\<lambda>pa s.
          bindE (require (\<not> (has_bits (tw_check s) LW_PARSER_CHECK_MINPOINTS \<and> npoints pa < 2))
            ''%s must have at least two points'') (\<lambda>_.
          Inr (lwline_construct SRID_UNKNOWN None pa, s)))))"
  proof (rule safe_bindS [OF uvarint32_safe [OF s(1)]])
    fix n :: nat and s1 assume "case (n, s1) of (n, s') \<Rightarrow> tleaf s s' \<and> tw_pos s < tw_pos s' \<and> n < 2 ^ 32"
    then have 1: "tleaf s s1" "n < 2 ^ 32" by simp_all
    have in1: "in_twkb s1" "dims_set s1" using tleaf_in [OF s(1) 1(1)] dims_set_leaf [OF 1(1)] s(2) by simp_all
    have "safe (good_tleaf s) (bindS (ptarray_from_twkb_state s1 n) (\<lambda>pa s.
          bindE (require (\<not> (has_bits (tw_check s) LW_PARSER_CHECK_MINPOINTS \<and> npoints pa < 2))
            ''%s must have at least two points'') (\<lambda>_.
          Inr (lwline_construct SRID_UNKNOWN None pa, s))))"
      by (rule safe_bindS [OF ptarray_twkb_safe [OF in1 1(2)]], rule safe_require)
        (auto intro: read_pa_construct_wf(1) tleaf_trans [OF 1(1)])
    then show "safe (good_tleaf s) (if n = 0 then Inr (lwline_construct_empty SRID_UNKNOWN (tw_has_z s1) (tw_has_m s1), s1)
        else bindS (ptarray_from_twkb_state s1 n) (\<lambda>pa s.
          bindE (require (\<not> (has_bits (tw_check s) LW_PARSER_CHECK_MINPOINTS \<and> npoints pa < 2))
            ''%s must have at least two points'') (\<lambda>_.
          Inr (lwline_construct SRID_UNKNOWN None pa, s))))"
      using 1(1) by (simp add: construct_empty_wf)
  qed
  then show ?thesis using tleaf_refl [OF s(1)] by (simp add: lwline_from_twkb_state_def construct_empty_wf)
qed

text \<open>Closing a ring: an array without points is refused, a closing point that repeats the last is dropped.\<close>

lemma close_ring_safe:
  assumes pa: "read_pa s n pa"
  shows "safe (\<lambda>pa'. pa_wf pa' \<and> same_zm (lwflags (tw_has_z s) (tw_has_m s) False) (pflags pa'))
    (if \<not> ptarray_is_closed_2d pa
     then bindE (getPoint4d_checked pa 0) (\<lambda>pt. ptarray_append_point pa pt False) else Inr pa)"
proof (cases "npoints pa = 0")
  case True
  then have "getPoint4d_checked pa 0 = Inl (LwError ''%s [%d] called with n=%d and npoints=%d'')"
    by (simp add: getPoint4d_checked_def require_def)
  with pa show ?thesis by (simp add: read_pa_def can_grow_def)
next
  case False
  let ?p = "getPoint4d_p pa 0" and ?t = "getPoint4d_p pa (npoints pa - 1)"
  have wf: "can_grow pa" "pa_wf pa" using pa by (simp_all add: read_pa_def can_grow_def)
  have p: "getPoint4d_checked pa 0 = Inr ?p" "length ?p = 4"
    using False get_point [OF wf(2), of 0] length_point4d_of [of "rows pa ! 0" "pflags pa"] rows_length [OF wf(2)]
    by (simp_all add: getPoint4d_rows)
  have "safe (\<lambda>pa'. pa_wf pa' \<and> same_zm (lwflags (tw_has_z s) (tw_has_m s) False) (pflags pa')) (ptarray_append_point pa ?p False)"
  proof (cases "same_point pa ?p ?t")
    case True
    then have "ptarray_append_point pa ?p False = Inr pa"
      using False get_point [OF wf(2), of "npoints pa - 1"] by (simp add: ptarray_append_point_def same_point_def)
    with pa wf show ?thesis by (simp add: read_pa_def)
  next
    case False
    from append_point_rows [OF wf(1) p(2), of False] False pa show ?thesis by (auto simp: read_pa_def)
  qed
  with p(1) pa wf show ?thesis by (simp add: read_pa_def)
qed

lemma trings_safe:
  assumes "in_twkb s" "dims_set s" "lwgeom_wf (LWPOLY h mr rs)" "length rs + n < 2 ^ 31"
    and "hasz (flags h) = tw_has_z s" "hasm (flags h) = tw_has_m s"
  shows "safe (good_tleaf s) (rings_from_twkb_state n (LWPOLY h mr rs) s)"
  using assms
proof (induction n arbitrary: s mr rs)
  case (Suc n)
  show ?case unfolding rings_from_twkb_state.simps
  proof (rule safe_bindS [OF uvarint32_safe [OF Suc.prems(1)]], rule safe_bindS [OF ptarray_twkb_safe], goal_cases)
    case (4 np s1 pa s2)
    then have 1: "tleaf s s1" "tleaf s1 s2" "read_pa s1 np pa" by simp_all
    have 2: "tleaf s s2" by (rule tleaf_trans [OF 1(1,2)])
    note same = tleaf_same [OF 1(1)] tleaf_same [OF 2]
    show ?case
    proof (rule safe_bindE [OF close_ring_safe [OF 1(3)]], rule safe_require)
      fix q assume q: "pa_wf q \<and> same_zm (lwflags (tw_has_z s1) (tw_has_m s1) False) (pflags q)"
      from lwpoly_add_ring_ok [of rs h mr q] Suc.prems(4) obtain mr' where
        add: "lwpoly_add_ring (LWPOLY h mr rs) q = Inr (LWPOLY h mr' (rs @ [q]))" by auto
      have "lwgeom_wf (LWPOLY h mr' (rs @ [q]))"
        using Suc.prems q same by (auto simp: same_zm_def)
      then have "safe (good_tleaf s2) (rings_from_twkb_state n (LWPOLY h mr' (rs @ [q])) s2)"
        using Suc.prems same dims_set_leaf [OF 2] tleaf_in [OF Suc.prems(1) 2] by (intro Suc.IH) simp_all
      from safe_mono [OF this good_tleaf_trans [OF 2]]
      show "safe (good_tleaf s) (bindE (lwpoly_add_ring (LWPOLY h mr rs) q) (\<lambda>poly. rings_from_twkb_state n poly s2))"
        by (simp add: add)
    qed
  qed (use Suc.prems dims_set_leaf tleaf_in in auto)
qed (simp add: tleaf_refl)

lemma tpoly_safe:
  assumes s: "in_twkb s" "dims_set s"
  shows "safe (good_tleaf s) (lwpoly_from_twkb_state s)"
proof -
  have "safe (good_tleaf s) (bindS (twkb_parse_state_uvarint32 s) (\<lambda>nrings s.
        if nrings = 0 then Inr (lwpoly_construct_empty SRID_UNKNOWN (tw_has_z s) (tw_has_m s), s)
        else bindE (twkb_parse_state_has_min_bytes s nrings 1) (\<lambda>_.
          rings_from_twkb_state nrings (lwpoly_construct_empty SRID_UNKNOWN (tw_has_z s) (tw_has_m s)) s)))"
  proof (rule safe_bindS [OF uvarint32_safe [OF s(1)]])
    fix n :: nat and s1 assume "case (n, s1) of (n, s') \<Rightarrow> tleaf s s' \<and> tw_pos s < tw_pos s' \<and> n < 2 ^ 32"
    then have 1: "tleaf s s1" by simp
    have in1: "in_twkb s1" "dims_set s1" using tleaf_in [OF s(1) 1] dims_set_leaf [OF 1] s(2) by simp_all
    let ?poly = "lwpoly_construct_empty SRID_UNKNOWN (tw_has_z s1) (tw_has_m s1)"
    have "safe (good_tleaf s1) (rings_from_twkb_state n ?poly s1)" if "n \<le> length (twkb s1) - tw_pos s1"
      unfolding lwpoly_construct_empty_def
      by (rule trings_safe [OF in1]) (use that in1(1) in \<open>auto simp: empty_head_def in_twkb_def\<close>)
    then have "safe (good_tleaf s) (bindE (twkb_parse_state_has_min_bytes s1 n 1) (\<lambda>_. rings_from_twkb_state n ?poly s1))"
      by (intro safe_min_bytes) (use good_tleaf_trans [OF 1] in \<open>auto elim!: safe_mono\<close>)
    then show "safe (good_tleaf s) (if n = 0 then Inr (?poly, s1)
        else bindE (twkb_parse_state_has_min_bytes s1 n 1) (\<lambda>_. rings_from_twkb_state n ?poly s1))"
      using 1 by (simp add: lwpoly_construct_empty_def)
  qed
  moreover have "lwgeom_wf (lwpoly_construct_empty SRID_UNKNOWN z m)" for z m by (simp add: lwpoly_construct_empty_def)
  ultimately show ?thesis using tleaf_refl [OF s(1)] by (simp add: lwpoly_from_twkb_state_def Let_def)
qed

section \<open>Collections\<close>

definition tgstep :: "twkb_parse_state \<Rightarrow> twkb_parse_state \<Rightarrow> bool" where
  "tgstep s s' \<longleftrightarrow> twkb s' = twkb s \<and> tw_check s' = tw_check s \<and> tw_depth s' = tw_depth s \<and>
     tw_pos s \<le> tw_pos s' \<and> tw_pos s' \<le> length (twkb s)"

definition good_tgeom :: "twkb_parse_state \<Rightarrow> lwgeom \<times> twkb_parse_state \<Rightarrow> bool" where
  "good_tgeom s r \<longleftrightarrow> lwgeom_wf (fst r) \<and> tgstep s (snd r)"

definition twkb_reader_ok :: "(twkb_parse_state \<Rightarrow> bool) \<Rightarrow> twkb_reader \<Rightarrow> bool" where
  "twkb_reader_ok P rd \<longleftrightarrow> (\<forall>s. in_twkb s \<longrightarrow> P s \<longrightarrow> safe (\<lambda>r. good_tgeom s r \<and> P (snd r)) (rd s))"

lemma good_tgeom_simp [simp]: "good_tgeom s (g, s') \<longleftrightarrow> lwgeom_wf g \<and> tgstep s s'"
  by (simp add: good_tgeom_def)

lemma tgstep_trans: "tgstep s s' \<Longrightarrow> tgstep s' s'' \<Longrightarrow> tgstep s s''"
  by (auto simp: tgstep_def)

lemma tgstep_in: "in_twkb s \<Longrightarrow> tgstep s s' \<Longrightarrow> in_twkb s'"
  by (auto simp: tgstep_def in_twkb_def)

lemma tgstep_refl: "in_twkb s \<Longrightarrow> tgstep s s"
  by (simp add: tgstep_def in_twkb_def)

lemma tleaf_tgstep: "tleaf s s' \<Longrightarrow> tgstep s s'"
  by (auto simp: tleaf_def tgstep_def)

lemma good_tgeom_trans: "tgstep s s' \<Longrightarrow> good_tgeom s' r \<Longrightarrow> good_tgeom s r"
  by (auto simp: good_tgeom_def tgstep_trans)

lemma good_tleaf_geom: "good_tleaf s r \<Longrightarrow> good_tgeom s r"
  by (simp add: good_tleaf_def good_tgeom_def tleaf_tgstep)

lemma ids_safe: "in_twkb s \<Longrightarrow> safe (tleaf s) (ids_from_twkb_state n s)"
proof (induction n arbitrary: s)
  case (Suc n)
  show ?case unfolding ids_from_twkb_state.simps
    by (rule safe_bindE [OF skip_safe [OF Suc.prems]])
      (use Suc.IH tleaf_in [OF Suc.prems] tleaf_trans in \<open>blast intro: safe_mono\<close>)
qed (simp add: tleaf_refl)

lemma count_safe:
  assumes s: "in_twkb s" and k: "0 < k"
  shows "safe (\<lambda>(n, s'). tleaf s s' \<and> n < 2 ^ 31) (count_from_twkb_state k s)"
  unfolding count_from_twkb_state_def
proof (rule safe_bindS [OF uvarint32_safe [OF s]])
  fix n :: nat and s1 assume "case (n, s1) of (n, s') \<Rightarrow> tleaf s s' \<and> tw_pos s < tw_pos s' \<and> n < 2 ^ 32"
  then have 1: "tleaf s s1" by simp
  have in1: "in_twkb s1" by (rule tleaf_in [OF s 1])
  have bound: "n < 2 ^ 31" if "n \<le> (length (twkb s2) - tw_pos s2) div k" "in_twkb s2" for s2
    using le_trans [OF le_trans [OF that(1) div_le_dividend] diff_le_self] that(2) by (simp add: in_twkb_def)
  have ids: "safe (tleaf s1) (if tw_has_idlist s1 then ids_from_twkb_state n s1 else Inr s1)"
    using ids_safe [OF in1] tleaf_refl [OF in1] by simp
  have "safe (\<lambda>(n, s'). tleaf s s' \<and> n < 2 ^ 31)
     (bindE (if tw_has_idlist s1 then ids_from_twkb_state n s1 else Inr s1) (\<lambda>s.
      bindE (twkb_parse_state_has_min_bytes s n k) (\<lambda>_. Inr (n, s))))"
    by (rule safe_bindE [OF ids], rule safe_min_bytes)
      (use k bound tleaf_in [OF in1] tleaf_trans [OF 1] in auto)
  then show "safe (\<lambda>(n, s'). tleaf s s' \<and> n < 2 ^ 31)
     (bindE (if tw_has_idlist s1 then twkb_parse_state_has_min_bytes s1 n 1 else Inr ()) (\<lambda>_.
      bindE (if tw_has_idlist s1 then ids_from_twkb_state n s1 else Inr s1) (\<lambda>s.
      bindE (twkb_parse_state_has_min_bytes s n k) (\<lambda>_. Inr (n, s)))))"
    by (cases "tw_has_idlist s1") (auto intro: safe_min_bytes)
qed

lemma tgeoms_safe:
  assumes rd: "twkb_reader_ok P rd"
  shows "in_twkb s \<Longrightarrow> P s \<Longrightarrow> growable (LWCOLLECTION t h mg al gs) \<Longrightarrow>
    lwgeom_wf (LWCOLLECTION t h mg al gs) \<Longrightarrow> length gs + n < 2 ^ 31 \<Longrightarrow>
    safe (good_tgeom s) (geoms_from_twkb_state rd n (LWCOLLECTION t h mg al gs) s)"
proof (induction n arbitrary: s mg al gs)
  case (Suc n)
  let ?col = "LWCOLLECTION t h mg al gs"
  have "safe (\<lambda>r. good_tgeom s r \<and> P (snd r)) (rd s)"
    using rd Suc.prems by (simp add: twkb_reader_ok_def)
  then show ?case unfolding geoms_from_twkb_state.simps
  proof (rule safe_bindS)
    fix g s' assume "good_tgeom s (g, s') \<and> P (snd (g, s'))"
    then have g: "lwgeom_wf g" and s': "tgstep s s'" "P s'" by simp_all
    have len: "length gs < 2 ^ 31" using Suc.prems(5) by simp
    show "safe (good_tgeom s) (bindE (lwcollection_add_lwgeom ?col g) (\<lambda>col. geoms_from_twkb_state rd n col s'))"
    proof (rule safe_bindE [OF add_lwgeom_safe [OF Suc.prems(3) len Suc.prems(4) g]], elim exE conjE)
      fix col mg' assume col: "col = LWCOLLECTION t h mg' True (gs @ [g])" "growable col" "lwgeom_wf col"
      have "safe (good_tgeom s') (geoms_from_twkb_state rd n col s')"
        unfolding col(1) by (rule Suc.IH) (use col Suc.prems(1,5) tgstep_in s' in auto)
      from safe_mono [OF this good_tgeom_trans [OF s'(1)]]
      show "safe (good_tgeom s) (geoms_from_twkb_state rd n col s')" .
    qed
  qed
qed (simp add: tgstep_refl)

lemma members_ok:
  "twkb_reader_ok dims_set lwpoint_from_twkb_state" "twkb_reader_ok dims_set lwline_from_twkb_state"
  "twkb_reader_ok dims_set lwpoly_from_twkb_state"
  unfolding twkb_reader_ok_def
  using tpoint_safe tline_safe tpoly_safe
  by (fastforce elim!: safe_mono simp: good_tleaf_def good_tgeom_def tleaf_tgstep dims_set_leaf)+

text \<open>A collection without members can take any number below \<open>2 ^ 31\<close> of them.\<close>

lemma new_collection_safe:
  assumes "twkb_reader_ok P rd" "in_twkb s" "P s" "n < 2 ^ 31" "lwcollection_construct_empty t i z m = Inr col"
  shows "safe (good_tgeom s) (geoms_from_twkb_state rd n col s)"
proof -
  from assms(5) have t: "lwtype_is_collection t" and col: "col = LWCOLLECTION t (empty_head i z m) 1 True []"
    by (auto simp: lwcollection_construct_empty_def bindE_eq_Inr)
  show ?thesis unfolding col by (rule tgeoms_safe [OF assms(1-3)]) (use t assms(4) in auto)
qed

lemma empty_collection_wf: "lwcollection_construct_empty t i z m = Inr col \<Longrightarrow> lwgeom_wf col"
  by (auto simp: lwcollection_construct_empty_def bindE_eq_Inr)

lemma safe_construct_collection:
  "(\<And>col. lwcollection_construct_empty t i z m = Inr col \<Longrightarrow> safe R (f col)) \<Longrightarrow>
   safe R (bindE (lwcollection_construct_empty t i z m) f)"
  by (auto simp: lwcollection_construct_empty_def require_def)

lemma multi_safe:
  assumes rd: "twkb_reader_ok dims_set rd" and s: "in_twkb s" "dims_set s" and k: "0 < k"
  shows "safe (good_tgeom s) (lwmulti_from_twkb_state rd k s)"
  unfolding lwmulti_from_twkb_state_def
proof (rule safe_construct_collection)
  fix col assume col: "lwcollection_construct_empty (tw_lwtype s) SRID_UNKNOWN (tw_has_z s) (tw_has_m s) = Inr col"
  have "safe (good_tgeom s) (bindS (count_from_twkb_state k s) (\<lambda>ngeoms s. geoms_from_twkb_state rd ngeoms col s))"
  proof (rule safe_bindS [OF count_safe [OF s(1) k]])
    fix n :: nat and s1 assume "case (n, s1) of (n, s') \<Rightarrow> tleaf s s' \<and> n < 2 ^ 31"
    then have 1: "tleaf s s1" "n < 2 ^ 31" by simp_all
    have "safe (good_tgeom s1) (geoms_from_twkb_state rd n col s1)"
      by (rule new_collection_safe [OF rd tleaf_in [OF s(1) 1(1)] _ 1(2) col]) (simp add: dims_set_leaf [OF 1(1)] s(2))
    from safe_mono [OF this good_tgeom_trans [OF tleaf_tgstep [OF 1(1)]]]
    show "safe (good_tgeom s) (geoms_from_twkb_state rd n col s1)" .
  qed
  then show "safe (good_tgeom s) (if tw_is_empty s then Inr (col, s)
     else bindS (count_from_twkb_state k s) (\<lambda>ngeoms s. geoms_from_twkb_state rd ngeoms col s))"
    using empty_collection_wf [OF col] tgstep_refl [OF s(1)] by simp
qed

definition nested :: "nat \<Rightarrow> twkb_parse_state \<Rightarrow> bool" where
  "nested d s \<longleftrightarrow> tw_depth s = d"

lemma collection_safe:
  assumes rd: "d + 1 < LW_PARSER_MAX_DEPTH \<Longrightarrow> twkb_reader_ok (nested (d + 1)) rd" and s: "in_twkb s" "nested d s"
  shows "safe (good_tgeom s) (lwcollection_from_twkb_state rd s)"
  unfolding lwcollection_from_twkb_state_def
proof (rule safe_construct_collection)
  fix col assume col: "lwcollection_construct_empty (tw_lwtype s) SRID_UNKNOWN (tw_has_z s) (tw_has_m s) = Inr col"
  have "safe (good_tgeom s) (bindS (count_from_twkb_state 2 s) (\<lambda>ngeoms s.
       bindE (require (\<not> tw_depth (s\<lparr>tw_depth := tw_depth s + 1\<rparr>) \<ge> LW_PARSER_MAX_DEPTH) ''Geometry has too many chained collections'') (\<lambda>_.
       bindS (geoms_from_twkb_state rd ngeoms col (s\<lparr>tw_depth := tw_depth s + 1\<rparr>)) (\<lambda>col s. Inr (col, s\<lparr>tw_depth := tw_depth s - 1\<rparr>)))))"
  proof (rule safe_bindS [OF count_safe [OF s(1)]], simp, rule safe_require)
    fix n :: nat and s1 assume "case (n, s1) of (n, s') \<Rightarrow> tleaf s s' \<and> n < 2 ^ 31"
    then have 1: "tleaf s s1" "n < 2 ^ 31" by simp_all
    let ?s = "s1\<lparr>tw_depth := tw_depth s1 + 1\<rparr>"
    assume "\<not> LW_PARSER_MAX_DEPTH \<le> tw_depth ?s"
    then have rd1: "twkb_reader_ok (nested (d + 1)) rd" using rd s(2) tleaf_same [OF 1(1)] by (simp add: nested_def)
    have in1: "in_twkb ?s" "nested (d + 1) ?s"
      using tleaf_in [OF s(1) 1(1)] tleaf_same [OF 1(1)] s(2) by (simp_all add: in_twkb_def nested_def)
    have "safe (good_tgeom s1) (bindS (geoms_from_twkb_state rd n col ?s) (\<lambda>col s. Inr (col, s\<lparr>tw_depth := tw_depth s - 1\<rparr>)))"
      by (rule safe_bindS [OF new_collection_safe [OF rd1 in1 1(2) col]]) (auto simp: tgstep_def)
    from safe_mono [OF this good_tgeom_trans [OF tleaf_tgstep [OF 1(1)]]]
    show "safe (good_tgeom s) (bindS (geoms_from_twkb_state rd n col ?s) (\<lambda>col s. Inr (col, s\<lparr>tw_depth := tw_depth s - 1\<rparr>)))" .
  qed
  then show "safe (good_tgeom s) (if tw_is_empty s then Inr (col, s)
     else bindS (count_from_twkb_state 2 s) (\<lambda>ngeoms s.
       let s = s\<lparr>tw_depth := tw_depth s + 1\<rparr> in
       bindE (require (\<not> tw_depth s \<ge> LW_PARSER_MAX_DEPTH) ''Geometry has too many chained collections'') (\<lambda>_.
       bindS (geoms_from_twkb_state rd ngeoms col s) (\<lambda>col s. Inr (col, s\<lparr>tw_depth := tw_depth s - 1\<rparr>)))))"
    using empty_collection_wf [OF col] tgstep_refl [OF s(1)] by (simp add: Let_def)
qed

section \<open>The reader\<close>

lemma lwtype_twkb_safe: "safe (\<lambda>_. True) (lwtype_from_twkb_type t)"
  by (auto simp: lwtype_from_twkb_type_def split: option.splits)

lemma dims_safe: "in_twkb s \<Longrightarrow> safe (tgstep s) (dims_from_twkb_state pow10 e s)"
proof -
  assume s: "in_twkb s"
  have "safe (tgstep s) (bindS (byte_from_twkb_state s) (\<lambda>ext s.
        Inr (s\<lparr>tw_has_z := bit ext 0, tw_has_m := bit ext 1, tw_factor_z := pow10 (uint (drop_bit 2 (ext AND 0x1C))),
               tw_factor_m := pow10 (uint (drop_bit 5 (ext AND 0xE0)))\<rparr>)))"
    by (rule safe_bindS [OF tbyte_safe [OF s]]) (auto simp: tleaf_def tgstep_def)
  with s show ?thesis by (simp add: dims_from_twkb_state_def tgstep_def in_twkb_def)
qed

lemma size_safe:
  assumes s: "in_twkb s"
  shows "safe (tgstep s) (if tw_has_size s then bindS (twkb_parse_state_uvarint s) (\<lambda>n s. Inr (s\<lparr>tw_size := n\<rparr>)) else Inr s)"
proof -
  have "safe (tgstep s) (bindS (twkb_parse_state_uvarint s) (\<lambda>n s. Inr (s\<lparr>tw_size := n\<rparr>)))"
    by (rule safe_bindS [OF uvarint_safe [OF s]]) (auto simp: tleaf_def tgstep_def)
  with tgstep_refl [OF s] show ?thesis by simp
qed

lemma header_safe:
  assumes s: "in_twkb s"
  shows "safe (\<lambda>s'. tgstep s s' \<and> dims_set s') (header_from_twkb_state pow10 s)"
  unfolding header_from_twkb_state_def
proof (rule safe_bindS [OF tbyte_safe [OF s]], rule safe_bindS [OF tbyte_safe], goal_cases)
  case (1 b1 s1)
  then show ?case using tleaf_in [OF s] by simp
next
  case (2 b1 s1 b2 s2)
  then have "tgstep s s1" "tgstep s1 s2" by (simp_all add: tleaf_tgstep)
  then have 2: "tgstep s s2" by (rule tgstep_trans)
  show ?case
  proof (rule safe_bindE [OF lwtype_twkb_safe], unfold Let_def, rule safe_bindE [OF dims_safe], goal_cases)
    case (1 t)
    then show ?case using tgstep_in [OF s 2] by (simp add: in_twkb_def)
  next
    case (2 t s3)
    with \<open>tgstep s s2\<close> have 3: "tgstep s s3" by (auto simp: tgstep_def)
    show ?case
      by (rule safe_bindE [OF size_safe [OF tgstep_in [OF s 3]]])
        (use tgstep_trans [OF 3] in \<open>auto simp: tgstep_def dims_set_def\<close>)
  qed
qed

lemma range_safe: "in_twkb s \<Longrightarrow> safe (\<lambda>(r, s'). tleaf s s') (range_from_twkb_state f s)"
  unfolding range_from_twkb_state_def
proof (rule safe_bindS [OF tdouble_safe], assumption, rule safe_bindS [OF tdouble_safe], goal_cases)
  case (1 lo s1)
  then show ?case using tleaf_in by auto
next
  case (2 lo s1 d s2)
  then show ?case using tleaf_trans by auto
qed

lemma optional_range_safe: "in_twkb s \<Longrightarrow> safe (\<lambda>(r, s'). tleaf s s') (if c then range_from_twkb_state f s else Inr ((0, 0), s))"
  using range_safe tleaf_refl by simp

lemma safe_range_bind:
  "safe (\<lambda>(r, s'). tleaf s s') m \<Longrightarrow> (\<And>a b s'. tleaf s s' \<Longrightarrow> safe R (f a b s')) \<Longrightarrow>
   safe R (bindS m (\<lambda>(a, b) s'. f a b s'))"
  by (cases m) auto

lemma bbox_safe:
  assumes s: "in_twkb s"
  shows "safe (\<lambda>(b, s'). tleaf s s') (bbox_from_twkb_state s)"
proof (cases "tw_has_bbox s")
  case True
  show ?thesis unfolding bbox_from_twkb_state_def if_not_P [OF not_not [THEN iffD2, OF True]]
  proof (rule safe_range_bind [OF range_safe [OF s]])
    fix xl xh :: double and s1 assume 1: "tleaf s s1"
    note in1 = tleaf_in [OF s 1]
    show "safe (\<lambda>(b, s'). tleaf s s') (bindS (range_from_twkb_state (tw_factor s1) s1) (\<lambda>(ylo, yhi) s.
        bindS (if tw_has_z s then range_from_twkb_state (tw_factor_z s) s else Inr ((0, 0), s)) (\<lambda>(zlo, zhi) s.
        bindS (if tw_has_m s then range_from_twkb_state (tw_factor_m s) s else Inr ((0, 0), s)) (\<lambda>(mlo, mhi) s.
        Inr (Some \<lparr>gflags = lwflags (tw_has_z s) (tw_has_m s) False, xmin = xl, xmax = xh, ymin = ylo, ymax = yhi,
                   zmin = zlo, zmax = zhi, mmin = mlo, mmax = mhi\<rparr>, s)))))"
    proof (rule safe_range_bind [OF range_safe [OF in1]], rule safe_range_bind [OF optional_range_safe],
        goal_cases)
      case (1 yl yh s2)
      then show ?case by (rule tleaf_in [OF in1])
    next
      case (2 yl yh s2 zl zh s3)
      have 3: "tleaf s s3" by (rule tleaf_trans [OF 1 tleaf_trans [OF 2]])
      show ?case
        by (rule safe_range_bind [OF optional_range_safe [OF tleaf_in [OF s 3]]]) (use tleaf_trans [OF 3] in simp)
    qed
  qed
qed (simp add: bbox_from_twkb_state_def tleaf_refl [OF s])

lemma optional_box_wf:
  "lwgeom_wf (case b of None \<Rightarrow> g | Some x \<Rightarrow> map_lwhead (\<lambda>h. h\<lparr>bbox := Some x\<rparr>) g) = lwgeom_wf g"
  by (cases b; cases g) (simp_all split: option.split)

lemma safe_branch: "safe R a \<Longrightarrow> safe R b \<Longrightarrow> safe R (if c then a else b)"
  by simp

lemma lwgeom_from_twkb_state_safe:
  "d < LW_PARSER_MAX_DEPTH \<Longrightarrow> LW_PARSER_MAX_DEPTH \<le> fuel + d \<Longrightarrow>
   twkb_reader_ok (nested d) (lwgeom_from_twkb_state fuel pow10)"
proof (induction fuel arbitrary: d)
  case (Suc fuel)
  have rd: "d + 1 < LW_PARSER_MAX_DEPTH \<Longrightarrow> twkb_reader_ok (nested (d + 1)) (lwgeom_from_twkb_state fuel pow10)"
    using Suc by auto
  let ?rd = "lwgeom_from_twkb_state fuel pow10"
  show ?case unfolding twkb_reader_ok_def lwgeom_from_twkb_state.simps
  proof (intro allI impI, rule safe_bindE [OF header_safe], assumption, rule safe_bindS [OF bbox_safe], goal_cases)
    case (1 s s1)
    then show ?case by (simp add: tgstep_def in_twkb_def)
  next
    case (2 s s1 b s2)
    then have st: "tgstep s s2" "dims_set s2"
      by (auto simp: tleaf_def tgstep_def dims_set_def)
    have in2: "in_twkb s2" by (rule tgstep_in [OF 2(1) st(1)])
    have d2: "nested d s2" using st(1) 2(2) by (simp add: nested_def tgstep_def)
    note leafs = safe_mono [OF tpoint_safe [OF in2 st(2)] good_tleaf_geom] safe_mono [OF tline_safe [OF in2 st(2)] good_tleaf_geom]
      safe_mono [OF tpoly_safe [OF in2 st(2)] good_tleaf_geom]
    have nd: "0 < tw_ndims s2" using st(2) by (simp add: dims_set_def)
    note multis = multi_safe [OF members_ok(1) in2 st(2) nd] multi_safe [OF members_ok(2) in2 st(2) zero_less_one]
      multi_safe [OF members_ok(3) in2 st(2) zero_less_one] collection_safe [OF rd in2 d2]
    have "safe (good_tgeom s2)
      (if tw_lwtype s2 = POINTTYPE then lwpoint_from_twkb_state s2
       else if tw_lwtype s2 = LINETYPE then lwline_from_twkb_state s2
       else if tw_lwtype s2 = POLYGONTYPE then lwpoly_from_twkb_state s2
       else if tw_lwtype s2 = MULTIPOINTTYPE then lwmultipoint_from_twkb_state s2
       else if tw_lwtype s2 = MULTILINETYPE then lwmultiline_from_twkb_state s2
       else if tw_lwtype s2 = MULTIPOLYGONTYPE then lwmultipoly_from_twkb_state s2
       else if tw_lwtype s2 = COLLECTIONTYPE then lwcollection_from_twkb_state ?rd s2
       else Inl (LwError ''%s: Unsupported geometry type: %s''))"
      by (intro safe_branch leafs multis [folded lwmultipoint_from_twkb_state_def lwmultiline_from_twkb_state_def
          lwmultipoly_from_twkb_state_def]) simp_all
    then show ?case
    proof (rule safe_bindS, goal_cases)
      case (1 g s3)
      then have "lwgeom_wf g" "tgstep s s3" using tgstep_trans [OF st(1)] by simp_all
      moreover from this(2) have "nested d s3" using 2(2) by (simp add: nested_def tgstep_def)
      ultimately show ?case by (simp add: optional_box_wf)
    qed
  qed
qed simp

section \<open>Properties\<close>

text \<open>
  C5. Reading Tiny WKB is total and safe on every input below 2 GB, whatever its bytes, the check
  flags and the powers of ten: the reader returns, no access leaves the input, no array is grown past
  what was allocated, the nesting bound is enough, and what it returns, when it does not report an
  error, is a well-formed geometry.
\<close>

theorem lwgeom_from_twkb_safe:
  assumes "length bytes < 2 ^ 31"
  shows "(\<exists>msg. lwgeom_from_twkb pow10 bytes chk = Inl (LwError msg)) \<or>
    (\<exists>g. lwgeom_from_twkb pow10 bytes chk = Inr g \<and> lwgeom_wf g)"
proof -
  let ?s = "twkb_initial_state bytes chk"
  have "in_twkb ?s" "nested 0 ?s" using assms by (simp_all add: in_twkb_def nested_def twkb_initial_state_def)
  with lwgeom_from_twkb_state_safe [of 0 LW_PARSER_MAX_DEPTH pow10]
  have "safe (\<lambda>r. good_tgeom ?s r \<and> nested 0 (snd r)) (lwgeom_from_twkb_state LW_PARSER_MAX_DEPTH pow10 ?s)"
    by (simp add: twkb_reader_ok_def del: lwgeom_from_twkb_state.simps)
  then have "safe lwgeom_wf (lwgeom_from_twkb pow10 bytes chk)"
    unfolding lwgeom_from_twkb_def by (rule safe_bindS) simp
  then show ?thesis by (cases rule: safe_cases) auto
qed

theorem lwgeom_from_twkb_safe_witness:
  "(\<exists>msg. lwgeom_from_twkb (\<lambda>p. dbl_one) [1, 0, 2, 2] 0 = Inl (LwError msg)) \<or>
   (\<exists>g. lwgeom_from_twkb (\<lambda>p. dbl_one) [1, 0, 2, 2] 0 = Inr g \<and> lwgeom_wf g)"
  using lwgeom_from_twkb_safe [of "[1, 0, 2, 2]" "\<lambda>p. dbl_one" 0] by simp

end
