(* ===== verification/ByteBuffer.thy ===== *)
theory ByteBuffer
  imports LWTypes Varint
begin

text \<open>
  liblwgeom/bytebuffer.c: the growing buffer of the Tiny WKB writer. A buffer is its memory, whose
  length is the capacity, and the offsets of the two cursors from its start. Memory that
  \<open>lwalloc\<close> or \<open>lwrealloc\<close> adds holds zeros here; nothing is read from behind the write cursor, as the
  lemmas show. A store outside the memory is \<open>MemFault\<close>.
\<close>

record bytebuffer =
  bb_mem :: "byte list"
  bb_write :: nat
  bb_read :: nat

abbreviation BYTEBUFFER_STATICSIZE :: nat where "BYTEBUFFER_STATICSIZE \<equiv> 1024"

section \<open>The functions\<close>

definition bytebuffer_init_with_size :: "nat \<Rightarrow> bytebuffer" where
  "bytebuffer_init_with_size sz =
     (let cap = (if sz < BYTEBUFFER_STATICSIZE then BYTEBUFFER_STATICSIZE else sz)
      in \<lparr>bb_mem = replicate cap 0, bb_write = 0, bb_read = 0\<rparr>)"

text \<open>The doubling of a \<open>size_t\<close>, which does not end when the product wraps to 0.\<close>

partial_function (option) grow_capacity :: "nat \<Rightarrow> nat \<Rightarrow> nat option" where
  "grow_capacity cap required =
     (if cap < required then grow_capacity (cap * 2 mod 2 ^ 64) required else Some cap)"

declare grow_capacity.simps [code]

definition bytebuffer_makeroom :: "bytebuffer \<Rightarrow> nat \<Rightarrow> lwerr + bytebuffer" where
  "bytebuffer_makeroom s size_to_add =
     (case grow_capacity (length (bb_mem s)) (bb_write s + size_to_add) of
        None \<Rightarrow> Inl OutOfFuel
      | Some cap \<Rightarrow> Inr (s\<lparr>bb_mem := bb_mem s @ replicate (cap - length (bb_mem s)) 0\<rparr>))"

text \<open>A store of bytes at an offset.\<close>

definition bytebuffer_store :: "bytebuffer \<Rightarrow> nat \<Rightarrow> byte list \<Rightarrow> lwerr + bytebuffer" where
  "bytebuffer_store s i bs =
     (if i + length bs \<le> length (bb_mem s)
      then Inr (s\<lparr>bb_mem := take i (bb_mem s) @ bs @ drop (i + length bs) (bb_mem s)\<rparr>) else Inl MemFault)"

definition bytebuffer_put :: "bytebuffer \<Rightarrow> byte list \<Rightarrow> lwerr + bytebuffer" where
  "bytebuffer_put s bs =
     bindE (bytebuffer_store s (bb_write s) bs) (\<lambda>s. Inr (s\<lparr>bb_write := bb_write s + length bs\<rparr>))"

definition bytebuffer_append_byte :: "bytebuffer \<Rightarrow> byte \<Rightarrow> lwerr + bytebuffer" where
  "bytebuffer_append_byte s val = bindE (bytebuffer_makeroom s 1) (\<lambda>s. bytebuffer_put s [val])"

definition bytebuffer_getlength :: "bytebuffer \<Rightarrow> nat" where
  "bytebuffer_getlength s = bb_write s"

definition bytebuffer_get_buffer :: "bytebuffer \<Rightarrow> byte list" where
  "bytebuffer_get_buffer s = take (bytebuffer_getlength s) (bb_mem s)"

definition bytebuffer_append_bytebuffer :: "bytebuffer \<Rightarrow> bytebuffer \<Rightarrow> lwerr + bytebuffer" where
  "bytebuffer_append_bytebuffer write_to write_from =
     bindE (bytebuffer_makeroom write_to (bytebuffer_getlength write_from)) (\<lambda>s.
     bytebuffer_put s (bytebuffer_get_buffer write_from))"

definition bytebuffer_append_varint :: "bytebuffer \<Rightarrow> u64 \<Rightarrow> lwerr + bytebuffer" where
  "bytebuffer_append_varint s val =
     bindE (bytebuffer_makeroom s 16) (\<lambda>s. bytebuffer_put s (varint_s64_encode_buf val))"

definition bytebuffer_append_uvarint :: "bytebuffer \<Rightarrow> u64 \<Rightarrow> lwerr + bytebuffer" where
  "bytebuffer_append_uvarint s val =
     bindE (bytebuffer_makeroom s 16) (\<lambda>s. bytebuffer_put s (varint_u64_encode_buf val))"

definition bytebuffer_get_buffer_varlena :: "bool \<Rightarrow> bytebuffer \<Rightarrow> lwvarlena" where
  "bytebuffer_get_buffer_varlena be s =
     lwvarlena_set be ((bytebuffer_getlength s + LWVARHDRSZ) mod 2 ^ 64) (bytebuffer_get_buffer s)"

section \<open>What the functions do to the content\<close>

text \<open>
  \<open>holds s bs\<close>: the buffer is intact and the bytes up to the write cursor are \<open>bs\<close>. The bound keeps
  the doubling of the capacity away from the end of \<open>size_t\<close>.
\<close>

definition holds :: "bytebuffer \<Rightarrow> byte list \<Rightarrow> bool" where
  "holds s bs \<longleftrightarrow> 0 < length (bb_mem s) \<and> length (bb_mem s) < 2 ^ 64 \<and> length bs < 2 ^ 62 \<and>
     bb_write s = length bs \<and> take (length bs) (bb_mem s) = bs"

lemma holds_length: "holds s bs \<Longrightarrow> bytebuffer_getlength s = length bs"
  by (simp add: holds_def bytebuffer_getlength_def)

lemma holds_get: "holds s bs \<Longrightarrow> bytebuffer_get_buffer s = bs"
  by (simp add: holds_def bytebuffer_get_buffer_def bytebuffer_getlength_def)

lemma init_holds: "sz < 2 ^ 64 \<Longrightarrow> holds (bytebuffer_init_with_size sz) []"
  by (auto simp: holds_def bytebuffer_init_with_size_def Let_def)

lemma grow_capacity_enough:
  assumes "0 < cap" "cap < 2 ^ 64" "required \<le> 2 ^ 63"
  shows "\<exists>c. grow_capacity cap required = Some c \<and> required \<le> c \<and> cap \<le> c \<and> c < 2 ^ 64"
  using assms
proof (induction "required - cap" arbitrary: cap rule: less_induct)
  case less
  show ?case
  proof (cases "cap < required")
    case True
    then have two: "cap * 2 mod 2 ^ 64 = cap * 2" "cap * 2 < 2 ^ 64" using less.prems by simp_all
    have "\<exists>c. grow_capacity (cap * 2) required = Some c \<and> required \<le> c \<and> cap * 2 \<le> c \<and> c < 2 ^ 64"
      using less.prems True two(2) by (intro less.hyps) simp_all
    then show ?thesis using True two(1) by (subst grow_capacity.simps) auto
  next
    case False
    with less.prems show ?thesis by (subst grow_capacity.simps) simp
  qed
qed

lemma makeroom_holds:
  assumes "holds s bs" "length bs + n \<le> 2 ^ 63"
  shows "\<exists>s'. bytebuffer_makeroom s n = Inr s' \<and> holds s' bs \<and> length bs + n \<le> length (bb_mem s')"
proof -
  have w: "bb_write s = length bs" and mem: "0 < length (bb_mem s)" "length (bb_mem s) < 2 ^ 64"
    using assms(1) by (simp_all add: holds_def)
  from grow_capacity_enough [OF mem assms(2)] obtain c where
    "grow_capacity (length (bb_mem s)) (length bs + n) = Some c" "length bs + n \<le> c" "length (bb_mem s) \<le> c" "c < 2 ^ 64"
    by blast
  moreover have "take (length bs) (bb_mem s) = bs" using assms(1) by (simp add: holds_def)
  from arg_cong [OF this, of length] have "length bs \<le> length (bb_mem s)" by simp
  ultimately show ?thesis using assms(1) by (auto simp: bytebuffer_makeroom_def w holds_def)
qed

lemma put_holds:
  assumes "holds s bs" "length bs + length xs \<le> length (bb_mem s)" "length bs + length xs < 2 ^ 62"
  shows "\<exists>s'. bytebuffer_put s xs = Inr s' \<and> holds s' (bs @ xs)"
  using assms by (auto simp: bytebuffer_put_def bytebuffer_store_def holds_def)

lemma room_put_holds:
  assumes "holds s bs" "length xs \<le> n" "length bs + length xs < 2 ^ 62" "n \<le> 2 ^ 62"
  shows "\<exists>s'. bindE (bytebuffer_makeroom s n) (\<lambda>s. bytebuffer_put s xs) = Inr s' \<and> holds s' (bs @ xs)"
proof -
  have "length bs + n \<le> 2 ^ 63" using assms(3,4) by simp
  from makeroom_holds [OF assms(1) this] obtain s1 where
    "bytebuffer_makeroom s n = Inr s1" "holds s1 bs" "length bs + n \<le> length (bb_mem s1)" by blast
  with put_holds [of s1 bs xs] assms(2,3) show ?thesis by simp
qed

lemma encode_length: "length (varint_u64_encode_buf q) \<le> 10"
proof -
  from varint_u64_decode_encode [of q "[]"]
  have "varint_u64_decode (varint_u64_encode_buf q) = Inr (q, length (varint_u64_encode_buf q))" by simp
  then show ?thesis by (simp add: varint_u64_decode_iff)
qed

lemma append_byte_holds:
  "holds s bs \<Longrightarrow> length bs + 1 < 2 ^ 62 \<Longrightarrow> \<exists>s'. bytebuffer_append_byte s b = Inr s' \<and> holds s' (bs @ [b])"
  unfolding bytebuffer_append_byte_def by (rule room_put_holds) simp_all

lemma append_varint_holds:
  "holds s bs \<Longrightarrow> length bs + length (varint_s64_encode_buf v) < 2 ^ 62 \<Longrightarrow>
   \<exists>s'. bytebuffer_append_varint s v = Inr s' \<and> holds s' (bs @ varint_s64_encode_buf v)"
  unfolding bytebuffer_append_varint_def
  using encode_length [of "zigzag64 v"] by (intro room_put_holds) (simp_all add: varint_s64_encode_buf_def)

lemma append_uvarint_holds:
  "holds s bs \<Longrightarrow> length bs + length (varint_u64_encode_buf v) < 2 ^ 62 \<Longrightarrow>
   \<exists>s'. bytebuffer_append_uvarint s v = Inr s' \<and> holds s' (bs @ varint_u64_encode_buf v)"
  unfolding bytebuffer_append_uvarint_def
  using encode_length [of v] by (intro room_put_holds) simp_all

lemma append_bytebuffer_holds:
  "holds s bs \<Longrightarrow> holds t xs \<Longrightarrow> length bs + length xs < 2 ^ 62 \<Longrightarrow>
   \<exists>s'. bytebuffer_append_bytebuffer s t = Inr s' \<and> holds s' (bs @ xs)"
  unfolding bytebuffer_append_bytebuffer_def holds_get [of t xs] holds_length [of t xs]
  by (intro room_put_holds) (simp_all add: holds_length holds_get)

text \<open>Filling in a place that was reserved.\<close>

lemma store_holds:
  assumes "holds s (a @ old @ z)" "length new = length old"
  shows "\<exists>s'. bytebuffer_store s (length a) new = Inr s' \<and> holds s' (a @ new @ z)"
proof -
  have t: "take (length (a @ old @ z)) (bb_mem s) = a @ old @ z" using assms(1) by (simp only: holds_def)
  have le: "length (a @ old @ z) \<le> length (bb_mem s)"
    using arg_cong [OF t, of length] by simp
  have "take (length a) (bb_mem s) = a"
    using arg_cong [OF t, of "take (length a)"] by (simp add: min_def)
  moreover have "take (length z) (drop (length a + length old) (bb_mem s)) = z"
    using arg_cong [OF t, of "drop (length a + length old)"] by (simp add: drop_take)
  ultimately show ?thesis using assms le by (auto simp: bytebuffer_store_def holds_def)
qed

end
