(* ===== verification/TWKBOut.thy ===== *)
theory TWKBOut
  imports ByteBuffer PTArrayOk RasterNum
begin

text \<open>
  The writer of Tiny WKB (liblwgeom/lwout_twkb.c). \<open>pow10\<close> is \<open>pow (10, p)\<close> of the C library; the writer
  keeps the factors as \<open>float\<close>, so a factor is rounded before it is used. Sums and differences of
  \<open>int64_t\<close> wrap here where the C standard leaves them undefined.
\<close>

abbreviation TWKB_BBOX :: byte where "TWKB_BBOX \<equiv> 0x01"
abbreviation TWKB_SIZE :: byte where "TWKB_SIZE \<equiv> 0x02"
abbreviation INT64_MIN :: u64 where "INT64_MIN \<equiv> 0x8000000000000000"
abbreviation INT64_MAX :: u64 where "INT64_MAX \<equiv> 0x7FFFFFFFFFFFFFFF"

record twkb_globals =
  tg_variant :: byte
  tg_prec_xy :: byte
  tg_prec_z :: byte
  tg_prec_m :: byte
  tg_factor :: "double list"

record twkb_state =
  ts_header_buf :: "bytebuffer option"
  ts_geom_buf :: bytebuffer
  ts_idlist :: "u64 list option"
  ts_bbox_min :: "u64 list"
  ts_bbox_max :: "u64 list"
  ts_accum_rels :: "u64 list"

definition lwgeom_twkb_type :: "nat \<Rightarrow> lwerr + byte" where
  "lwgeom_twkb_type t =
     (case map_of [(POINTTYPE, 1), (LINETYPE, 2), (TRIANGLETYPE, 3), (POLYGONTYPE, 3), (MULTIPOINTTYPE, 4),
        (MULTILINETYPE, 5), (MULTIPOLYGONTYPE, 6), (TINTYPE, 7), (COLLECTIONTYPE, 7)] t of
        None \<Rightarrow> Inl (LwError ''%s: Unsupported geometry type: %s'')
      | Some n \<Rightarrow> Inr n)"

text \<open>
  \<open>llround\<close>: to the nearest integer, halves away from zero. The standard leaves the value open when it does not fit;
  it is that of x86 here. \<open>llabs\<close> likewise for the least number.
\<close>

definition llround :: "double \<Rightarrow> u64" where
  "llround d =
     (let k = (2 * mag_val 52 (dbl_mag d) + dbl_unit) div (2 * dbl_unit) in
      if dbl_isfinite d \<and> k < 2 ^ 63 then (if dbl_neg d then - of_nat k else of_nat k) else INT64_MIN)"

definition llabs :: "u64 \<Rightarrow> u64" where
  "llabs v = (if sint v < 0 then - v else v)"

section \<open>Point arrays\<close>

text \<open>An operation on the first \<open>n\<close> elements.\<close>

definition first_dims :: "nat \<Rightarrow> ('a \<Rightarrow> 'b \<Rightarrow> 'a) \<Rightarrow> 'a list \<Rightarrow> 'b list \<Rightarrow> 'a list" where
  "first_dims n f xs ys = map2 f (take n xs) (take n ys) @ drop n xs"

fun varints_to_buf :: "bytebuffer \<Rightarrow> u64 list \<Rightarrow> lwerr + bytebuffer" where
  "varints_to_buf b [] = Inr b"
| "varints_to_buf b (v # vs) = bindE (bytebuffer_append_varint b v) (\<lambda>b. varints_to_buf b vs)"

definition expand_bbox :: "nat \<Rightarrow> u64 list \<Rightarrow> u64 list \<Rightarrow> twkb_state \<Rightarrow> twkb_state" where
  "expand_bbox ndims lo hi ts =
     ts\<lparr>ts_bbox_max := first_dims ndims (\<lambda>m a. if sint a > sint m then a else m) (ts_bbox_max ts) hi,
        ts_bbox_min := first_dims ndims (\<lambda>m a. if sint a < sint m then a else m) (ts_bbox_min ts) lo\<rparr>"

text \<open>
  One turn of the loop over the points: the buffer, the state, the number of points
  written and \<open>max_points_left\<close>.
\<close>

definition point_to_twkb_buf :: "twkb_globals \<Rightarrow> pointarray \<Rightarrow> nat \<Rightarrow> nat \<Rightarrow>
    bytebuffer \<times> twkb_state \<times> nat \<times> nat \<Rightarrow> lwerr + (bytebuffer \<times> twkb_state \<times> nat \<times> nat)" where
  "point_to_twkb_buf gl pa minpoints i st =
     (case st of (b, ts, n, left) \<Rightarrow>
      let ndims = FLAGS_NDIMS (pflags pa);
          row = pa_point pa i ndims;
          nextdelta = map (\<lambda>j. llround (dbl_mul (tg_factor gl ! j) (row ! j)) - ts_accum_rels ts ! j) [0..<ndims];
          diff = sum_list (map llabs nextdelta)
      in if i > 0 \<and> diff = 0 \<and> left > minpoints then Inr (b, ts, n, left - 1)
         else
           bindE (varints_to_buf b nextdelta) (\<lambda>b.
           let ts = ts\<lparr>ts_accum_rels := first_dims ndims (+) (ts_accum_rels ts) nextdelta\<rparr>;
               ts = (if has_bits (tg_variant gl) TWKB_BBOX then expand_bbox ndims (ts_accum_rels ts) (ts_accum_rels ts) ts else ts)
           in Inr (b, ts, n + 1, left)))"

fun points_to_twkb_buf :: "twkb_globals \<Rightarrow> pointarray \<Rightarrow> nat \<Rightarrow> nat list \<Rightarrow>
    bytebuffer \<times> twkb_state \<times> nat \<times> nat \<Rightarrow> lwerr + (bytebuffer \<times> twkb_state \<times> nat \<times> nat)" where
  "points_to_twkb_buf gl pa minpoints [] st = Inr st"
| "points_to_twkb_buf gl pa minpoints (i # is) st =
     bindE (point_to_twkb_buf gl pa minpoints i st) (points_to_twkb_buf gl pa minpoints is)"

text \<open>The number of points is an \<open>int\<close>, widened to \<open>uint64_t\<close> when it is written.\<close>

definition npoints_varint :: "nat \<Rightarrow> byte list" where
  "npoints_varint n = varint_u64_encode_buf (scast (of_nat n :: u32))"

definition ptarray_to_twkb_buf :: "pointarray \<Rightarrow> twkb_globals \<Rightarrow> twkb_state \<Rightarrow> bool \<Rightarrow> nat \<Rightarrow> lwerr + twkb_state" where
  "ptarray_to_twkb_buf pa gl ts register_npoints minpoints =
     (if npoints pa = 0 \<and> register_npoints then
        bindE (bytebuffer_append_uvarint (ts_geom_buf ts) 0) (\<lambda>b. Inr (ts\<lparr>ts_geom_buf := b\<rparr>))
      else if npoints pa > 127 then
        bindE (points_to_twkb_buf gl pa minpoints [0..<npoints pa]
          (bytebuffer_init_with_size (3 * FLAGS_NDIMS (pflags pa) * npoints pa), ts, 0, npoints pa)) (\<lambda>(b, ts, n, left).
        bindE (if register_npoints then bytebuffer_append_uvarint (ts_geom_buf ts) (scast (of_nat n :: u32)) else Inr (ts_geom_buf ts)) (\<lambda>g.
        bindE (bytebuffer_append_bytebuffer g b) (\<lambda>g. Inr (ts\<lparr>ts_geom_buf := g\<rparr>))))
      else
        let npoints_offset = bb_write (ts_geom_buf ts) in
        bindE (if register_npoints then bytebuffer_append_byte (ts_geom_buf ts) 0 else Inr (ts_geom_buf ts)) (\<lambda>b.
        bindE (points_to_twkb_buf gl pa minpoints [0..<npoints pa] (b, ts, 0, npoints pa)) (\<lambda>(b, ts, n, left).
        bindE (if register_npoints then bytebuffer_store b npoints_offset (npoints_varint n) else Inr b) (\<lambda>b.
        Inr (ts\<lparr>ts_geom_buf := b\<rparr>)))))"

section \<open>Geometries\<close>

definition lwpoint_to_twkb_buf :: "pointarray \<Rightarrow> twkb_globals \<Rightarrow> twkb_state \<Rightarrow> lwerr + twkb_state" where
  "lwpoint_to_twkb_buf pa gl ts = ptarray_to_twkb_buf pa gl ts False 1"

definition lwline_to_twkb_buf :: "pointarray \<Rightarrow> twkb_globals \<Rightarrow> twkb_state \<Rightarrow> lwerr + twkb_state" where
  "lwline_to_twkb_buf pa gl ts = ptarray_to_twkb_buf pa gl ts True 2"

definition lwtriangle_to_twkb_buf :: "pointarray \<Rightarrow> twkb_globals \<Rightarrow> twkb_state \<Rightarrow> lwerr + twkb_state" where
  "lwtriangle_to_twkb_buf pa gl ts =
     bindE (bytebuffer_append_uvarint (ts_geom_buf ts) 1) (\<lambda>b.
     ptarray_to_twkb_buf pa gl (ts\<lparr>ts_geom_buf := b\<rparr>) True 2)"

fun rings_to_twkb_buf :: "pointarray list \<Rightarrow> twkb_globals \<Rightarrow> twkb_state \<Rightarrow> lwerr + twkb_state" where
  "rings_to_twkb_buf [] gl ts = Inr ts"
| "rings_to_twkb_buf (pa # rs) gl ts = bindE (ptarray_to_twkb_buf pa gl ts True 4) (rings_to_twkb_buf rs gl)"

definition lwpoly_to_twkb_buf :: "pointarray list \<Rightarrow> twkb_globals \<Rightarrow> twkb_state \<Rightarrow> lwerr + twkb_state" where
  "lwpoly_to_twkb_buf rs gl ts =
     bindE (bytebuffer_append_uvarint (ts_geom_buf ts) (of_nat (length rs))) (\<lambda>b.
     rings_to_twkb_buf rs gl (ts\<lparr>ts_geom_buf := b\<rparr>))"

text \<open>Empty points of a multipoint are left out, with their ids.\<close>

definition skipped :: "nat \<Rightarrow> lwgeom \<Rightarrow> bool" where
  "skipped t g \<longleftrightarrow> t = MULTIPOINTTYPE \<and> lwgeom_is_empty g"

fun ids_to_twkb_buf :: "nat \<Rightarrow> lwgeom list \<Rightarrow> u64 list \<Rightarrow> bytebuffer \<Rightarrow> lwerr + bytebuffer" where
  "ids_to_twkb_buf t [] ids b = Inr b"
| "ids_to_twkb_buf t (g # gs) ids b =
     (if skipped t g then ids_to_twkb_buf t gs (tl ids) b
      else case ids of
        [] \<Rightarrow> Inl MemFault
      | i # ids \<Rightarrow> bindE (bytebuffer_append_varint b i) (ids_to_twkb_buf t gs ids))"

definition count_to_twkb_buf :: "nat \<Rightarrow> lwgeom list \<Rightarrow> twkb_state \<Rightarrow> lwerr + twkb_state" where
  "count_to_twkb_buf t gs ts =
     (let nempty = length (filter (skipped t) gs) in
      bindE (bytebuffer_append_uvarint (ts_geom_buf ts) (of_nat (length gs - nempty))) (\<lambda>b.
      case ts_idlist ts of
        None \<Rightarrow> Inr (ts\<lparr>ts_geom_buf := b\<rparr>)
      | Some ids \<Rightarrow> bindE (ids_to_twkb_buf t gs ids b) (\<lambda>b. Inr (ts\<lparr>ts_geom_buf := b, ts_idlist := None\<rparr>))))"

section \<open>The header\<close>

text \<open>\<open>flag | mask\<close> or \<open>flag & ~mask\<close>.\<close>

definition byte_flag :: "byte \<Rightarrow> bool \<Rightarrow> byte \<Rightarrow> byte" where
  "byte_flag bits c flag = (if c then flag OR bits else flag AND NOT bits)"

definition type_precision_byte :: "byte \<Rightarrow> byte \<Rightarrow> byte" where
  "type_precision_byte t prec = (t AND 0x0F) OR push_bit 4 (zigzag8 prec AND 0x0F)"

definition metadata_byte :: "byte \<Rightarrow> bool \<Rightarrow> bool \<Rightarrow> bool \<Rightarrow> byte" where
  "metadata_byte variant ids extended is_empty =
     byte_flag 0x10 is_empty (byte_flag 0x08 extended (byte_flag 0x04 (ids \<and> \<not> is_empty)
       (byte_flag 0x02 (has_bits variant TWKB_SIZE) (byte_flag 0x01 (has_bits variant TWKB_BBOX \<and> \<not> is_empty) 0))))"

definition extended_byte :: "bool \<Rightarrow> bool \<Rightarrow> byte \<Rightarrow> byte \<Rightarrow> byte" where
  "extended_byte z m prec_z prec_m =
     (let flag = byte_flag 0x02 m (byte_flag 0x01 z 0);
          flag = (flag AND 0xE3) OR push_bit 2 (prec_z AND 0x07)
      in (flag AND 0x1F) OR push_bit 5 (prec_m AND 0x07))"

definition header_to_buf :: "twkb_globals \<Rightarrow> lwgeom \<Rightarrow> bool \<Rightarrow> lwerr + bytebuffer" where
  "header_to_buf gl geom ids =
     (let z = hasz (lwgeom_flags geom); m = hasm (lwgeom_flags geom) in
      bindE (require (\<not> \<bar>sint (tg_prec_xy gl)\<bar> > 7) ''%s: X/Z precision cannot be greater than 7 or less than -7'') (\<lambda>_.
      bindE (lwgeom_twkb_type (lwgeom_get_type geom)) (\<lambda>t.
      bindE (bytebuffer_append_byte (bytebuffer_init_with_size 16) (type_precision_byte t (tg_prec_xy gl))) (\<lambda>b.
      bindE (bytebuffer_append_byte b (metadata_byte (tg_variant gl) ids (z \<or> m) (lwgeom_is_empty geom))) (\<lambda>b.
      if z \<or> m then
        bindE (require (\<not> (z \<and> (sint (tg_prec_z gl) > 7 \<or> sint (tg_prec_z gl) < 0)))
          ''%s: Z precision cannot be negative or greater than 7'') (\<lambda>_.
        bindE (require (\<not> (m \<and> (sint (tg_prec_m gl) > 7 \<or> sint (tg_prec_m gl) < 0)))
          ''%s: M precision cannot be negative or greater than 7'') (\<lambda>_.
        bytebuffer_append_byte b (extended_byte z m (tg_prec_z gl) (tg_prec_m gl))))
      else Inr b)))))"

text \<open>The factors of a geometry; those of dimensions it does not have keep their old values.\<close>

definition float_factor :: "(int \<Rightarrow> double) \<Rightarrow> byte \<Rightarrow> double" where
  "float_factor pow10 prec = dbl_of_float (float_of_dbl (pow10 (sint prec)))"

definition set_factors :: "(int \<Rightarrow> double) \<Rightarrow> lwgeom \<Rightarrow> twkb_globals \<Rightarrow> twkb_globals" where
  "set_factors pow10 geom gl =
     (let z = hasz (lwgeom_flags geom); m = hasm (lwgeom_flags geom);
          f = (tg_factor gl)[0 := float_factor pow10 (tg_prec_xy gl), 1 := float_factor pow10 (tg_prec_xy gl)];
          f = (if z then f[2 := float_factor pow10 (tg_prec_z gl)] else f);
          f = (if m then f[2 + of_bool z := float_factor pow10 (tg_prec_m gl)] else f)
      in gl\<lparr>tg_factor := f\<rparr>)"

definition bbox_varints :: "twkb_state \<Rightarrow> nat \<Rightarrow> u64 list" where
  "bbox_varints ts ndims =
     concat (map (\<lambda>i. [ts_bbox_min ts ! i, ts_bbox_max ts ! i - ts_bbox_min ts ! i]) [0..<ndims])"

definition sizeof_bbox :: "twkb_state \<Rightarrow> nat \<Rightarrow> nat" where
  "sizeof_bbox ts ndims = sum_list (map (\<lambda>v. length (varint_s64_encode_buf v)) (bbox_varints ts ndims))"

definition write_bbox :: "twkb_state \<Rightarrow> nat \<Rightarrow> bytebuffer \<Rightarrow> lwerr + bytebuffer" where
  "write_bbox ts ndims b = varints_to_buf b (bbox_varints ts ndims)"

definition child_state :: "bytebuffer \<Rightarrow> u64 list option \<Rightarrow> twkb_state" where
  "child_state header ids =
     \<lparr>ts_header_buf = Some header, ts_geom_buf = bytebuffer_init_with_size 64, ts_idlist = ids,
      ts_bbox_min = replicate 4 INT64_MAX, ts_bbox_max = replicate 4 INT64_MIN, ts_accum_rels = replicate 4 0\<rparr>"

text \<open>\<open>lwgeom_write_to_buffer\<close>, given the writer of the content.\<close>

type_synonym twkb_writer = "twkb_globals \<Rightarrow> twkb_state \<Rightarrow> lwerr + (twkb_globals \<times> twkb_state)"

definition write_whole :: "(int \<Rightarrow> double) \<Rightarrow> lwgeom \<Rightarrow> twkb_writer \<Rightarrow> twkb_writer" where
  "write_whole pow10 geom content gl parent =
     (let ndims = FLAGS_NDIMS (lwgeom_flags geom); gl = set_factors pow10 geom gl in
      bindE (header_to_buf gl geom (ts_idlist parent \<noteq> None)) (\<lambda>hb.
      if lwgeom_is_empty geom then
        bindE (if has_bits (tg_variant gl) TWKB_SIZE then bytebuffer_append_byte hb 0 else Inr hb) (\<lambda>hb.
        bindE (bytebuffer_append_bytebuffer (ts_geom_buf parent) hb) (\<lambda>b. Inr (gl, parent\<lparr>ts_geom_buf := b\<rparr>)))
      else
        bindE (content gl (child_state hb (ts_idlist parent))) (\<lambda>(gl, child).
        let parent = (if has_bits (tg_variant gl) TWKB_BBOX \<and> ts_header_buf parent \<noteq> None
                      then expand_bbox ndims (ts_bbox_min child) (ts_bbox_max child) parent else parent);
            bbox_size = (if has_bits (tg_variant gl) TWKB_BBOX then sizeof_bbox child ndims else 0) in
        bindE (if has_bits (tg_variant gl) TWKB_SIZE
               then bytebuffer_append_uvarint hb (of_nat (bytebuffer_getlength (ts_geom_buf child) + bbox_size)) else Inr hb) (\<lambda>hb.
        bindE (if has_bits (tg_variant gl) TWKB_BBOX then write_bbox child ndims hb else Inr hb) (\<lambda>hb.
        bindE (bytebuffer_append_bytebuffer (ts_geom_buf parent) hb) (\<lambda>b.
        bindE (bytebuffer_append_bytebuffer b (ts_geom_buf child)) (\<lambda>b. Inr (gl, parent\<lparr>ts_geom_buf := b\<rparr>))))))))"

section \<open>The whole\<close>

text \<open>
  The members of a multi-geometry share its header, those of a collection have their own. The
  header buffer stays where it is, so the content is written beside it.
\<close>

fun lwgeom_to_twkb_buf :: "(int \<Rightarrow> double) \<Rightarrow> lwgeom \<Rightarrow> twkb_globals \<Rightarrow> twkb_state \<Rightarrow> lwerr + (twkb_globals \<times> twkb_state)"
  and members_to_twkb_buf :: "(int \<Rightarrow> double) \<Rightarrow> nat \<Rightarrow> lwgeom list \<Rightarrow> twkb_globals \<Rightarrow> twkb_state \<Rightarrow> lwerr + (twkb_globals \<times> twkb_state)" where
  "lwgeom_to_twkb_buf pow10 (LWPOINT h pa) gl ts = bindE (lwpoint_to_twkb_buf pa gl ts) (\<lambda>ts. Inr (gl, ts))"
| "lwgeom_to_twkb_buf pow10 (LWLINE h pa) gl ts = bindE (lwline_to_twkb_buf pa gl ts) (\<lambda>ts. Inr (gl, ts))"
| "lwgeom_to_twkb_buf pow10 (LWTRIANGLE h pa) gl ts = bindE (lwtriangle_to_twkb_buf pa gl ts) (\<lambda>ts. Inr (gl, ts))"
| "lwgeom_to_twkb_buf pow10 (LWPOLY h mr rs) gl ts = bindE (lwpoly_to_twkb_buf rs gl ts) (\<lambda>ts. Inr (gl, ts))"
| "lwgeom_to_twkb_buf pow10 (LWCOLLECTION t h mg al gs) gl ts =
     (if t \<in> set [MULTIPOINTTYPE, MULTILINETYPE, MULTIPOLYGONTYPE, COLLECTIONTYPE, TINTYPE]
      then bindE (count_to_twkb_buf t gs ts) (members_to_twkb_buf pow10 t gs gl)
      else Inl (LwError ''%s: Unsupported geometry type: %s''))"
| "lwgeom_to_twkb_buf pow10 g gl ts = Inl (LwError ''%s: Unsupported geometry type: %s'')"
| "members_to_twkb_buf pow10 t [] gl ts = Inr (gl, ts)"
| "members_to_twkb_buf pow10 t (g # gs) gl ts =
     bindE (if skipped t g then Inr (gl, ts)
            else if t = COLLECTIONTYPE \<or> t = TINTYPE
              then write_whole pow10 g (\<lambda>gl ts. lwgeom_to_twkb_buf pow10 g gl ts) gl ts
            else lwgeom_to_twkb_buf pow10 g gl ts)
       (\<lambda>(gl, ts). members_to_twkb_buf pow10 t gs gl ts)"

definition lwgeom_write_to_buffer :: "(int \<Rightarrow> double) \<Rightarrow> lwgeom \<Rightarrow> twkb_writer" where
  "lwgeom_write_to_buffer pow10 geom = write_whole pow10 geom (lwgeom_to_twkb_buf pow10 geom)"

definition lwgeom_to_twkb_with_idlist ::
    "bool \<Rightarrow> (int \<Rightarrow> double) \<Rightarrow> lwgeom \<Rightarrow> u64 list option \<Rightarrow> byte \<Rightarrow> byte \<Rightarrow> byte \<Rightarrow> byte \<Rightarrow> lwerr + lwvarlena" where
  "lwgeom_to_twkb_with_idlist be pow10 geom ids variant precision_xy precision_z precision_m =
     bindE (require (\<not> (ids \<noteq> None \<and> \<not> lwtype_is_collection (lwgeom_get_type geom))) ''Only collections can support ID lists'') (\<lambda>_.
     bindE (lwgeom_write_to_buffer pow10 geom
       \<lparr>tg_variant = variant, tg_prec_xy = precision_xy, tg_prec_z = precision_z, tg_prec_m = precision_m, tg_factor = [0, 0, 0, 0]\<rparr>
       \<lparr>ts_header_buf = None, ts_geom_buf = bytebuffer_init_with_size 512, ts_idlist = ids, ts_bbox_min = [0, 0, 0, 0],
        ts_bbox_max = [0, 0, 0, 0], ts_accum_rels = [0, 0, 0, 0]\<rparr>) (\<lambda>(gl, ts).
     Inr (bytebuffer_get_buffer_varlena be (ts_geom_buf ts))))"

definition lwgeom_to_twkb :: "bool \<Rightarrow> (int \<Rightarrow> double) \<Rightarrow> lwgeom \<Rightarrow> byte \<Rightarrow> byte \<Rightarrow> byte \<Rightarrow> byte \<Rightarrow> lwerr + lwvarlena" where
  "lwgeom_to_twkb be pow10 geom variant precision_xy precision_z precision_m =
     lwgeom_to_twkb_with_idlist be pow10 geom None variant precision_xy precision_z precision_m"

end
