(* ===== verification/TWKBFactor.thy ===== *)
theory TWKBFactor
  imports TWKBOut
begin

text \<open>
  Products with the factors of Tiny WKB. A product of two doubles is rounded once from the
  product of their significands; from that, what the factor 1 does, and what the writer's
  factors, kept as \<open>float\<close>, do to a coordinate when the precision is negative.
\<close>

section \<open>Rounding a scaled number\<close>

lemma round_quot_scale: "0 < c \<Longrightarrow> round_quot (p * c) (q * c) = round_quot p q"
  by (simp add: round_quot_def Let_def flip: mult_mod_left mult.assoc)

lemma mag_round_scale: "0 < c \<Longrightarrow> mag_round (p * c) (q * c) = mag_round p q"
  using round_quot_scale [of c p "q * 2 ^ k" for k] by (simp add: mag_round_def Let_def ac_simps)

lemma bit_length_scale: "0 < n \<Longrightarrow> bit_length (n * 2 ^ e) = bit_length n + e"
proof (induction e)
  case (Suc e)
  have "bit_length (n * 2 ^ Suc e) = Suc (bit_length (n * 2 ^ Suc e div 2))" using Suc.prems by (subst bit_length.simps) simp
  moreover have "n * 2 ^ Suc e div 2 = n * 2 ^ e" by simp
  ultimately show ?case using Suc by simp
qed simp

lemma mag_round_wide:
  assumes n: "53 \<le> bit_length n"
  shows "mag_round (n * 2 ^ e) 1 = min dbl_inf_mag ((bit_length n + e - 53) * 2 ^ 52 + round_quot n (2 ^ (bit_length n - 53)))"
proof -
  have "0 < n" using n by (cases n) auto
  then have s: "bit_length (n * 2 ^ e div 1) - 53 = bit_length n - 53 + e" using n by (simp add: bit_length_scale)
  have "round_quot (n * 2 ^ e) (1 * 2 ^ (bit_length n - 53 + e)) = round_quot n (2 ^ (bit_length n - 53))"
    using round_quot_scale [of "2 ^ e" n "2 ^ (bit_length n - 53)"] by (simp add: power_add)
  then show ?thesis using n unfolding mag_round_def Let_def s by simp
qed

lemma dbl_mul_scaled:
  assumes "dbl_isfinite a" "dbl_isfinite b" "mag_val 52 (dbl_mag a) = x * 2 ^ i" "mag_val 52 (dbl_mag b) = y * 2 ^ j" "i + j = 1074 + e"
  shows "dbl_mul a b = dbl_pack (dbl_neg a \<noteq> dbl_neg b) (mag_round (x * y * 2 ^ e) 1)"
proof -
  define c :: nat where "c = 2 ^ 1074"
  have c: "0 < c" by (simp only: c_def zero_less_power zero_less_numeral)
  have ij: "2 ^ i * 2 ^ j = c * 2 ^ e" by (simp only: c_def assms(5) power_add [symmetric])
  have "x * 2 ^ i * (y * 2 ^ j) = x * y * (2 ^ i * 2 ^ j)" by simp
  also have "\<dots> = x * y * 2 ^ e * c" by (simp add: ij)
  finally have p: "mag_val 52 (dbl_mag a) * mag_val 52 (dbl_mag b) = x * y * 2 ^ e * c" unfolding assms(3,4) .
  have "mag_round (x * y * 2 ^ e * c) c = mag_round (x * y * 2 ^ e) 1" using mag_round_scale [OF c, of _ 1] by simp
  then show ?thesis
    using assms(1,2) unfolding dbl_mul_def Let_def c_def [symmetric] p by (simp add: dbl_isfinite_def dbl_isnan_def dbl_isinf_def)
qed

section \<open>The factor 1\<close>

lemma mag_round_val:
  assumes "m < 2001 * 2 ^ 52"
  shows "mag_round (mag_val 52 m) 1 = m"
proof -
  define k where "k = (if m div 2 ^ 52 = 0 then m else 2 ^ 52 + m mod 2 ^ 52)"
  define j where "j = m div 2 ^ 52 - 1"
  have kj: "mag_val 52 m = k * 2 ^ j" by (simp add: mag_val_def k_def j_def)
  have "k < 2 ^ 53" using mod_less_divisor [of "2 ^ 52" m] by (auto simp: k_def div_eq_0_iff)
  moreover have "m div 2 ^ 52 < 2001" using assms by (simp add: less_mult_imp_div_less)
  then have "j \<le> 2000" by (simp add: j_def)
  ultimately have "mag_val 52 (mag_round (k * 2 ^ j) 1) = mag_val 52 m" using mag_round_exact(1) [of k j] kj by simp
  then have "mag_round (mag_val 52 m) 1 = m" unfolding kj [symmetric]
    using mag_val_less_iff [of 52 m] mag_val_less_iff [of 52 _ m] by (metis less_irrefl linorder_cases)
  then show ?thesis .
qed

lemma dbl_pack_neg_mag: "dbl_pack (dbl_neg d) (dbl_mag d) = d"
  by (rule dbl_mag_neg_inject) (rule dbl_pack_parts [OF dbl_mag_less])+

lemma dbl_one_parts: "dbl_mag dbl_one = 0x3FF0000000000000" "\<not> dbl_neg dbl_one" "mag_val 52 (dbl_mag dbl_one) = 1 * 2 ^ 1074"
  by (simp_all add: dbl_mag_def dbl_neg_def unsigned_take_bit_eq take_bit_eq_mod mag_val_def)

lemma dbl_mul_one:
  assumes "dbl_mag d < 2001 * 2 ^ 52"
  shows "dbl_mul dbl_one d = d"
proof -
  have f: "dbl_isfinite dbl_one" "dbl_isfinite d" using assms by (simp_all add: dbl_isfinite_def dbl_one_parts)
  have "dbl_mul dbl_one d = dbl_pack (dbl_neg d) (mag_round (1 * mag_val 52 (dbl_mag d) * 2 ^ 0) 1)"
    using dbl_mul_scaled [OF f dbl_one_parts(3), of "mag_val 52 (dbl_mag d)" 0 0] by (simp add: dbl_one_parts(2))
  with mag_round_val [OF assms] show ?thesis by (simp add: dbl_pack_neg_mag)
qed

lemma float_factor_one: "float_factor (\<lambda>p. dbl_one) p = dbl_one"
  by (simp add: float_factor_def dbl_of_float_def float_of_dbl_def flt_pack_def mag_narrow_def mag_widen_def flt_mag_def
      flt_neg_def float64_eval)

section \<open>A negative precision\<close>

text \<open>
  With precision -1 the factor 0.1 becomes the \<open>float\<close> nearest to it, which is larger: the coordinate 1000000000
  is written as 100000001 tens and read as 1000000010. With the factor of the reader it would be exact.
\<close>

abbreviation tenth :: double where "tenth \<equiv> 0x3FB999999999999A"
abbreviation milliard :: double where "milliard \<equiv> 0x41CDCD6500000000"

lemma tenth_as_float: "float_factor (\<lambda>p. tenth) (-1) = 0x3FB99999A0000000"
  by (simp add: float_factor_def dbl_of_float_def float_of_dbl_def flt_pack_def mag_narrow_def mag_widen_def flt_mag_def
      flt_neg_def float64_eval)

lemma milliard_parts: "dbl_mag milliard = 0x41CDCD6500000000" "\<not> dbl_neg milliard" "dbl_isfinite milliard"
    "mag_val 52 (dbl_mag milliard) = 1953125 * 2 ^ 1083"
  by (simp_all add: dbl_isfinite_def dbl_mag_def dbl_neg_def unsigned_take_bit_eq take_bit_eq_mod mag_val_def)

lemma milliard_times_float_tenth: "dbl_mul 0x3FB99999A0000000 milliard = 0x4197D78405F5E100"
proof -
  have a: "dbl_mag 0x3FB99999A0000000 = 0x3FB99999A0000000" "\<not> dbl_neg 0x3FB99999A0000000" "dbl_isfinite 0x3FB99999A0000000"
    by (simp_all add: dbl_isfinite_def dbl_mag_def dbl_neg_def unsigned_take_bit_eq take_bit_eq_mod)
  have v: "mag_val 52 (dbl_mag 0x3FB99999A0000000) = 13421773 * 2 ^ 1047" by (simp add: a(1) mag_val_def)
  have "dbl_mul 0x3FB99999A0000000 milliard = dbl_pack False (mag_round (13421773 * 1953125 * 2 ^ 1056) 1)"
    using dbl_mul_scaled [OF a(3) milliard_parts(3) v milliard_parts(4), of 1056] by (simp only: a(2) milliard_parts(2)) simp
  also have "mag_round (13421773 * 1953125 * 2 ^ 1056) 1 = mag_round (6710886500000000 * 2 ^ 1048) 1" by simp
  also have "\<dots> = 0x4197D78405F5E100" by (subst mag_round_wide) (simp_all add: round_quot_def)
  finally show ?thesis by (simp add: dbl_pack_def)
qed

lemma milliard_times_tenth: "dbl_mul tenth milliard = 0x4197D78400000000"
proof -
  have a: "dbl_mag tenth = 0x3FB999999999999A" "\<not> dbl_neg tenth" "dbl_isfinite tenth"
    by (simp_all add: dbl_isfinite_def dbl_mag_def dbl_neg_def unsigned_take_bit_eq take_bit_eq_mod)
  have v: "mag_val 52 (dbl_mag tenth) = 7205759403792794 * 2 ^ 1018" by (simp add: a(1) mag_val_def)
  have "dbl_mul tenth milliard = dbl_pack False (mag_round (7205759403792794 * 1953125 * 2 ^ 1027) 1)"
    using dbl_mul_scaled [OF a(3) milliard_parts(3) v milliard_parts(4), of 1027] by (simp only: a(2) milliard_parts(2)) simp
  also have "mag_round (7205759403792794 * 1953125 * 2 ^ 1027) 1 = mag_round (14073748835532800781250 * 2 ^ 1027) 1" by simp
  also have "\<dots> = 0x4197D78400000000" by (subst mag_round_wide) (simp_all add: round_quot_def)
  finally show ?thesis by (simp add: dbl_pack_def)
qed

lemma negative_precision_drifts:
  "llround (dbl_mul (float_factor (\<lambda>p. tenth) (-1)) milliard) = 100000001 \<and> llround (dbl_mul tenth milliard) = 100000000"
  unfolding tenth_as_float milliard_times_float_tenth milliard_times_tenth
  by (simp add: llround_def dbl_isfinite_def dbl_unit_def float64_eval)

end
