(* ===== verification/TWKBBytes.thy ===== *)
theory TWKBBytes
  imports TWKBOut TWKBSafe
begin

text \<open>
  What the Tiny WKB writer writes for a point array, and that the reader reads it back: the scaled and
  rounded coordinates of the points that are kept, as differences to the point before.
\<close>

section \<open>Points kept\<close>

text \<open>
  A point is left out when it equals the one kept before it and more than the minimum remain.
  \<open>left\<close> is the number of points that would remain.
\<close>

fun kept_after :: "nat \<Rightarrow> u64 list \<Rightarrow> nat \<Rightarrow> u64 list list \<Rightarrow> u64 list list" where
  "kept_after m prev left [] = []"
| "kept_after m prev left (k # ks) =
     (if k = prev \<and> m < left then kept_after m prev (left - 1) ks else k # kept_after m k left ks)"

definition kept :: "nat \<Rightarrow> u64 list list \<Rightarrow> u64 list list" where
  "kept m ks = (case ks of [] \<Rightarrow> [] | k # r \<Rightarrow> k # kept_after m k (length ks) r)"

fun delta_bytes :: "u64 list \<Rightarrow> u64 list list \<Rightarrow> byte list" where
  "delta_bytes prev [] = []"
| "delta_bytes prev (k # ks) = concat (map varint_s64_encode_buf (map2 (-) k prev)) @ delta_bytes k ks"

lemma kept_after_length: "length (kept_after m p left ks) \<le> length ks"
  by (induction ks arbitrary: p left) (auto simp: le_SucI)

lemma kept_length: "length (kept m ks) \<le> length ks"
  using kept_after_length by (auto simp: kept_def split: list.split)

lemma kept_after_set: "set (kept_after m p left ks) \<subseteq> set ks"
  by (induction ks arbitrary: p left) auto

lemma kept_set: "set (kept m ks) \<subseteq> set ks"
  using kept_after_set by (fastforce simp: kept_def split: list.splits)

lemma kept_after_last: "last (p # kept_after m p left ks) = last (p # ks)"
proof (induction ks arbitrary: p left)
  case (Cons k ks)
  show ?case
  proof (cases "k = p \<and> m < left")
    case True
    then show ?thesis using Cons [of p "left - 1"] by (cases ks) auto
  next
    case False
    then show ?thesis using Cons [of k left] by auto
  qed
qed simp

lemma kept_ends: "ks \<noteq> [] \<Longrightarrow> kept m ks \<noteq> [] \<and> hd (kept m ks) = hd ks \<and> last (kept m ks) = last ks"
  using kept_after_last by (auto simp: kept_def neq_Nil_conv)

section \<open>The scaled coordinates\<close>

definition quant :: "double list \<Rightarrow> double list \<Rightarrow> u64 list" where
  "quant factors row = map2 (\<lambda>f x. llround (dbl_mul f x)) factors row"

text \<open>Far from the ends of \<open>int64_t\<close>, so that no difference and no sum of differences overflows.\<close>

definition fits :: "u64 list \<Rightarrow> bool" where
  "fits k \<longleftrightarrow> (\<forall>v \<in> set k. \<bar>sint v\<bar> < 2 ^ 60)"

lemma sint_diff:
  assumes "\<bar>sint (a :: u64)\<bar> < 2 ^ 60" "\<bar>sint b\<bar> < 2 ^ 60"
  shows "sint (a - b) = sint a - sint b"
proof -
  have "sint (a - b) = signed_take_bit 63 (sint a - sint b)" using sint_word_ariths(2) [of a b] by simp
  also have "\<dots> = sint a - sint b" using assms by (intro signed_take_bit_int_eq_self) auto
  finally show ?thesis .
qed

lemma unat_nonneg_sint: "0 \<le> sint (w :: u64) \<Longrightarrow> int (unat w) = sint w"
  using sint_lt [of w] by (simp add: uint_sint take_bit_int_eq_self flip: uint_nat)

lemma unat_llabs:
  assumes "\<bar>sint (v :: u64)\<bar> < 2 ^ 61"
  shows "int (unat (llabs v)) = \<bar>sint v\<bar>"
proof (cases "sint v < 0")
  case True
  have "sint (- v) = signed_take_bit 63 (- sint v)" using sint_word_ariths(4) [of v] by simp
  also have "\<dots> = - sint v" using assms by (intro signed_take_bit_int_eq_self) auto
  finally show ?thesis using True unat_nonneg_sint [of "- v"] by (simp add: llabs_def)
next
  case False
  then show ?thesis using unat_nonneg_sint [of v] by (simp add: llabs_def)
qed

lemma sum_list_unat:
  "sum_list (map unat ws) < 2 ^ 64 \<Longrightarrow> unat (sum_list ws) = sum_list (map unat (ws :: u64 list))"
proof (induction ws)
  case (Cons w ws)
  then have "unat w + unat (sum_list ws) < 2 ^ LENGTH(64)" by simp
  with Cons show ?case by (simp add: unat_plus_if_size word_size)
qed simp

lemma sum_llabs_zero:
  assumes "\<forall>v \<in> set ds. \<bar>sint v\<bar> < 2 ^ 61" "length ds \<le> 4"
  shows "sum_list (map llabs ds) = 0 \<longleftrightarrow> (\<forall>v \<in> set ds. v = 0)"
proof -
  have b: "\<forall>v \<in> set ds. unat (llabs v) \<le> 2 ^ 61"
  proof
    fix v assume "v \<in> set ds"
    with assms(1) unat_llabs [of v] have "int (unat (llabs v)) < int (2 ^ 61)" by simp
    then have "unat (llabs v) < 2 ^ 61" by (simp only: of_nat_less_iff)
    then show "unat (llabs v) \<le> 2 ^ 61" by simp
  qed
  have "sum_list (map (unat \<circ> llabs) ds) \<le> length ds * 2 ^ 61"
    using b by (induction ds) auto
  also have "\<dots> \<le> 4 * 2 ^ 61" using assms(2) by simp
  finally have "sum_list (map unat (map llabs ds)) < 2 ^ 64" by simp
  from sum_list_unat [OF this] have "unat (sum_list (map llabs ds)) = sum_list (map (unat \<circ> llabs) ds)" by simp
  then have "unat (sum_list (map llabs ds)) = 0 \<longleftrightarrow> (\<forall>v \<in> set ds. unat (llabs v) = 0)" by simp
  then have "sum_list (map llabs ds) = 0 \<longleftrightarrow> (\<forall>v \<in> set ds. unat (llabs v) = 0)" by (simp only: unsigned_eq_0_iff)
  moreover have "unat (llabs v) = 0 \<longleftrightarrow> v = 0" if "v \<in> set ds" for v
    using unat_llabs [of v] assms(1) that by (auto simp: llabs_def unsigned_eq_0_iff)
  ultimately show ?thesis by blast
qed

lemma map2_diff_zero: "length k = length p \<Longrightarrow> (\<forall>v \<in> set (map2 (-) k p). v = (0 :: u64)) \<longleftrightarrow> k = p"
  by (induction k p rule: list_induct2) auto

lemma diff_zero:
  assumes "fits k" "fits p" "length k = length p" "length k \<le> 4"
  shows "sum_list (map llabs (map2 (-) k p)) = 0 \<longleftrightarrow> k = p"
proof -
  have "\<bar>sint v\<bar> < 2 ^ 61" if v: "v \<in> set (map2 (-) k p)" for v
  proof -
    from v obtain a b where ab: "v = a - b" "a \<in> set k" "b \<in> set p"
      by (auto dest: set_zip_leftD set_zip_rightD)
    with assms have "\<bar>sint a\<bar> < 2 ^ 60" "\<bar>sint b\<bar> < 2 ^ 60" by (auto simp: fits_def)
    with sint_diff [of a b] ab(1) show ?thesis by auto
  qed
  with sum_llabs_zero [of "map2 (-) k p"] map2_diff_zero [OF assms(3)] assms(4) show ?thesis by simp
qed

lemma add_back: "length k = length p \<Longrightarrow> map2 (+) p (map2 (-) k p) = (k :: u64 list)"
  by (induction k p rule: list_induct2) auto

section \<open>Writing\<close>

lemma varints_written:
  "holds b bs \<Longrightarrow> length bs + 10 * length vs < 2 ^ 62 \<Longrightarrow>
   \<exists>b'. varints_to_buf b vs = Inr b' \<and> holds b' (bs @ concat (map varint_s64_encode_buf vs))"
proof (induction vs arbitrary: b bs)
  case (Cons v vs)
  have len: "length (varint_s64_encode_buf v) \<le> 10" by (simp add: varint_s64_encode_buf_def encode_length)
  with append_varint_holds [OF Cons.prems(1), of v] Cons.prems(2) obtain b1 where
    1: "bytebuffer_append_varint b v = Inr b1" "holds b1 (bs @ varint_s64_encode_buf v)" by auto
  from Cons.IH [OF 1(2)] len Cons.prems(2) obtain b2 where
    "varints_to_buf b1 vs = Inr b2" "holds b2 (bs @ concat (map varint_s64_encode_buf (v # vs)))" by auto
  with 1(1) show ?case by simp
qed simp

lemma varints_length: "length (concat (map varint_s64_encode_buf vs)) \<le> 10 * length vs"
proof (induction vs)
  case (Cons v vs)
  moreover have "length (varint_s64_encode_buf v) \<le> 10" by (simp add: varint_s64_encode_buf_def encode_length)
  ultimately show ?case by simp
qed simp

lemma delta_length:
  "(\<forall>k \<in> set ks. length k \<le> 4) \<Longrightarrow> length (delta_bytes p ks) \<le> 40 * length ks"
proof (induction ks arbitrary: p)
  case (Cons k ks)
  then show ?case using varints_length [of "map2 (-) k p"] Cons.IH [of k] by fastforce
qed simp

text \<open>
  \<open>relative dm p ts\<close>: the accumulated coordinates are \<open>p\<close>. \<open>beside ts ts'\<close>: only the accumulated coordinates
  and the box have changed.
\<close>

definition relative :: "nat \<Rightarrow> u64 list \<Rightarrow> twkb_state \<Rightarrow> bool" where
  "relative dm p ts \<longleftrightarrow> length (ts_accum_rels ts) = 4 \<and> take dm (ts_accum_rels ts) = p"

definition beside :: "twkb_state \<Rightarrow> twkb_state \<Rightarrow> bool" where
  "beside ts ts' \<longleftrightarrow> ts_header_buf ts' = ts_header_buf ts \<and> ts_geom_buf ts' = ts_geom_buf ts \<and> ts_idlist ts' = ts_idlist ts"

lemma beside_refl [simp]: "beside ts ts"
  by (simp add: beside_def)

lemma beside_trans: "beside ts ts' \<Longrightarrow> beside ts' ts'' \<Longrightarrow> beside ts ts''"
  by (simp add: beside_def)

lemma next_deltas:
  assumes "dm \<le> 4" "relative dm p ts" "dm \<le> length fs" "dm \<le> length row"
  shows "map (\<lambda>j. llround (dbl_mul (fs ! j) (row ! j)) - ts_accum_rels ts ! j) [0..<dm] =
    map2 (-) (quant (take dm fs) (take dm row)) p"
  using assms by (intro nth_equalityI) (auto simp: quant_def relative_def)

lemma accum_next:
  assumes "dm \<le> 4" "relative dm p ts" "length k = dm"
  shows "first_dims dm (+) (ts_accum_rels ts) (map2 (-) k p) = k @ drop dm (ts_accum_rels ts)"
proof -
  have "length k = length p" using assms by (auto simp: relative_def)
  with assms add_back [of k p] show ?thesis by (simp add: first_dims_def relative_def)
qed

lemma twkb_point_written:
  assumes gl: "take dm (tg_factor gl) = fs" "length fs = dm" and dm: "dm = FLAGS_NDIMS (pflags pa)"
    and pa: "pa_wf pa" "i < npoints pa" and k: "k = quant fs (rows pa ! i)" "fits k"
    and ts: "relative dm p ts" "fits p" and b: "holds b bs" "length bs + 40 < 2 ^ 62"
  shows "if 0 < i \<and> k = p \<and> m < left then point_to_twkb_buf gl pa m i (b, ts, n, left) = Inr (b, ts, n, left - 1)
    else \<exists>b' ts'. point_to_twkb_buf gl pa m i (b, ts, n, left) = Inr (b', ts', n + 1, left) \<and>
      holds b' (bs @ concat (map varint_s64_encode_buf (map2 (-) k p))) \<and> relative dm k ts' \<and> beside ts ts'"
proof -
  have dm4: "dm \<le> 4" by (simp add: dm FLAGS_NDIMS_def)
  have "rows pa ! i \<in> set (rows pa)" using pa(2) by simp
  then have row: "pa_point pa i dm = rows pa ! i" "length (rows pa ! i) = dm"
    using rows_nth [OF pa(2)] rows_length [OF pa(1)] by (simp_all add: dm)
  have lk: "length k = dm" using row(2) gl(2) by (simp add: k(1) quant_def)
  have lp: "length p = dm" using ts(1) dm4 by (auto simp: relative_def)
  have fl: "dm \<le> length (tg_factor gl)" using gl by (metis length_take min.cobounded1)
  have d: "map (\<lambda>j. llround (dbl_mul (tg_factor gl ! j) (pa_point pa i dm ! j)) - ts_accum_rels ts ! j) [0..<dm] = map2 (-) k p"
    using next_deltas [OF dm4 ts(1) fl, of "rows pa ! i"] row gl by (simp add: k(1))
  have z: "sum_list (map llabs (map2 (-) k p)) = 0 \<longleftrightarrow> k = p"
    by (rule diff_zero [OF k(2) ts(2)]) (use lk lp dm4 in auto)
  have "length bs + 10 * length (map2 (-) k p) < 2 ^ 62" using b(2) lk lp dm4 by simp
  from varints_written [OF b(1) this] obtain b' where
    b': "varints_to_buf b (map2 (-) k p) = Inr b'" "holds b' (bs @ concat (map varint_s64_encode_buf (map2 (-) k p)))"
    by blast
  have rel: "relative dm k (ts\<lparr>ts_accum_rels := k @ drop dm (ts_accum_rels ts)\<rparr>)"
    using ts(1) lk dm4 by (simp add: relative_def)
  let ?ts = "ts\<lparr>ts_accum_rels := k @ drop dm (ts_accum_rels ts)\<rparr>"
  have ex: "relative dm k (expand_bbox dm u v ?ts)" "beside ts (expand_bbox dm u v ?ts)" "beside ts ?ts" for u v
    using rel by (simp_all add: relative_def expand_bbox_def beside_def)
  show ?thesis
    unfolding point_to_twkb_buf_def prod.case Let_def dm [symmetric] d z
    using b' rel ex accum_next [OF dm4 ts(1) lk] by auto
qed

lemma points_written:
  assumes gl: "take dm (tg_factor gl) = fs" "length fs = dm" and dm: "dm = FLAGS_NDIMS (pflags pa)" and pa: "pa_wf pa"
    and fit: "\<forall>r \<in> set (rows pa). fits (quant fs r)"
  shows "0 < i \<Longrightarrow> i \<le> npoints pa \<Longrightarrow> relative dm p ts \<Longrightarrow> fits p \<Longrightarrow> holds b bs \<Longrightarrow>
    length bs + 40 * (npoints pa - i) + 40 < 2 ^ 62 \<Longrightarrow> ks = kept_after m p left (map (quant fs) (drop i (rows pa))) \<Longrightarrow>
    \<exists>b' ts' left'. points_to_twkb_buf gl pa m [i..<npoints pa] (b, ts, n, left) = Inr (b', ts', n + length ks, left') \<and>
      holds b' (bs @ delta_bytes p ks) \<and> relative dm (last (p # ks)) ts' \<and> beside ts ts'"
proof (induction "npoints pa - i" arbitrary: i p ts b bs n left ks)
  case 0
  then show ?case by auto
next
  case (Suc x)
  let ?k = "quant fs (rows pa ! i)"
  have i: "i < npoints pa" "rows pa ! i \<in> set (rows pa)" using Suc.hyps(2) by simp_all
  then have fk: "fits ?k" using fit by blast
  have ixs: "[i..<npoints pa] = i # [Suc i..<npoints pa]" using i(1) by (rule upt_conv_Cons)
  have rs: "drop i (rows pa) = (rows pa ! i) # drop (Suc i) (rows pa)" using i(1) by (simp add: Cons_nth_drop_Suc)
  have "length bs + 40 < 2 ^ 62" using Suc.prems(6) by simp
  note pt = twkb_point_written [OF gl dm pa i(1) refl fk Suc.prems(3,4,5) this, of m left n]
  have x: "x = npoints pa - Suc i" using Suc.hyps(2) by simp
  show ?case
  proof (cases "?k = p \<and> m < left")
    case True
    then have st: "point_to_twkb_buf gl pa m i (b, ts, n, left) = Inr (b, ts, n, left - 1)" using pt Suc.prems(1) by simp
    have ks: "ks = kept_after m p (left - 1) (map (quant fs) (drop (Suc i) (rows pa)))"
      using Suc.prems(7) True by (simp add: rs)
    have "length bs + 40 * (npoints pa - Suc i) + 40 < 2 ^ 62" using Suc.prems(6) by simp
    from Suc.hyps(1) [OF x _ _ Suc.prems(3,4,5) this ks] i(1) st show ?thesis by (simp add: ixs)
  next
    case False
    with pt obtain b1 ts1 where st: "point_to_twkb_buf gl pa m i (b, ts, n, left) = Inr (b1, ts1, n + 1, left)"
      "holds b1 (bs @ concat (map varint_s64_encode_buf (map2 (-) ?k p)))" "relative dm ?k ts1" "beside ts ts1"
      by auto
    define ks' where "ks' = kept_after m ?k left (map (quant fs) (drop (Suc i) (rows pa)))"
    have ks: "ks = ?k # ks'" using Suc.prems(7) False by (auto simp: rs ks'_def)
    have len: "length (map2 (-) ?k p) \<le> 4"
      using Suc.prems(3) by (auto simp: relative_def dm FLAGS_NDIMS_def)
    have "length (bs @ concat (map varint_s64_encode_buf (map2 (-) ?k p))) + 40 * (npoints pa - Suc i) + 40 < 2 ^ 62"
      using Suc.prems(6) i(1) len varints_length [of "map2 (-) ?k p"] by simp
    from Suc.hyps(1) [OF x _ _ st(3) fk st(2) this ks'_def, of "n + 1"] i(1)
    obtain b2 ts2 left2 where
      "points_to_twkb_buf gl pa m [Suc i..<npoints pa] (b1, ts1, n + 1, left) = Inr (b2, ts2, n + 1 + length ks', left2)"
      "holds b2 ((bs @ concat (map varint_s64_encode_buf (map2 (-) ?k p))) @ delta_bytes ?k ks')"
      "relative dm (last (?k # ks')) ts2" "beside ts1 ts2" by auto
    with st beside_trans [OF st(4)] show ?thesis by (simp add: ixs ks)
  qed
qed

lemma kept_quant: "k \<in> set (kept m (map (quant fs) rs)) \<Longrightarrow> \<exists>r \<in> set rs. k = quant fs r"
  using kept_set [of m "map (quant fs) rs"] by auto

lemma quant_length: "length (quant fs r) = min (length fs) (length r)"
  by (simp add: quant_def)

lemma rows_Nil [simp]: "rows pa = [] \<longleftrightarrow> npoints pa = 0"
  by (simp add: rows_def)

lemma all_points_written:
  assumes gl: "take dm (tg_factor gl) = fs" "length fs = dm" and dm: "dm = FLAGS_NDIMS (pflags pa)" and pa: "pa_wf pa" "0 < npoints pa"
    and fit: "\<forall>r \<in> set (rows pa). fits (quant fs r)"
    and st: "relative dm p ts" "fits p" "holds b bs" "length bs + 40 * npoints pa + 40 < 2 ^ 62"
    and ks: "ks = kept m (map (quant fs) (rows pa))"
  shows "\<exists>b' ts' left'. points_to_twkb_buf gl pa m [0..<npoints pa] (b, ts, 0, npoints pa) = Inr (b', ts', length ks, left') \<and>
      holds b' (bs @ delta_bytes p ks) \<and> relative dm (last ks) ts' \<and> beside ts ts'"
proof -
  let ?k = "quant fs (rows pa ! 0)"
  have r0: "rows pa = (rows pa ! 0) # drop 1 (rows pa)"
    using pa(2) rows_Nil [of pa] by (cases "rows pa") (auto simp del: rows_Nil)
  have "rows pa ! 0 \<in> set (rows pa)" using pa(2) by simp
  then have fk: "fits ?k" using fit by blast
  define ks' where "ks' = kept_after m ?k (npoints pa) (map (quant fs) (drop 1 (rows pa)))"
  have kk: "ks = ?k # ks'"
    unfolding ks ks'_def kept_def by (subst r0) (use pa(2) in simp)
  have "length bs + 40 < 2 ^ 62" using st(4) by simp
  from twkb_point_written [OF gl dm pa(1,2) refl fk st(1-3) this, of m "npoints pa" 0] obtain b1 ts1 where
    s1: "point_to_twkb_buf gl pa m 0 (b, ts, 0, npoints pa) = Inr (b1, ts1, 1, npoints pa)"
    "holds b1 (bs @ concat (map varint_s64_encode_buf (map2 (-) ?k p)))" "relative dm ?k ts1" "beside ts ts1" by auto
  have len: "length (map2 (-) ?k p) \<le> 4" using st(1) by (auto simp: relative_def dm FLAGS_NDIMS_def)
  have "length (bs @ concat (map varint_s64_encode_buf (map2 (-) ?k p))) + 40 * (npoints pa - 1) + 40 < 2 ^ 62"
    using st(4) pa(2) len varints_length [of "map2 (-) ?k p"] by simp
  from points_written [OF gl dm pa(1) fit _ _ s1(3) fk s1(2) this ks'_def, of 1] pa(2) obtain b2 ts2 left2 where
    "points_to_twkb_buf gl pa m [1..<npoints pa] (b1, ts1, 1, npoints pa) = Inr (b2, ts2, 1 + length ks', left2)"
    "holds b2 ((bs @ concat (map varint_s64_encode_buf (map2 (-) ?k p))) @ delta_bytes ?k ks')"
    "relative dm (last (?k # ks')) ts2" "beside ts1 ts2" by auto
  moreover have "[0..<npoints pa] = 0 # [1..<npoints pa]" using pa(2) by (simp add: upt_conv_Cons)
  ultimately show ?thesis using s1 beside_trans [OF s1(4)] by (auto simp: kk)
qed

lemma npoints_varint_small: "n < 2 ^ 31 \<Longrightarrow> npoints_varint n = varint_u64_encode_buf (of_nat n)"
proof -
  assume n: "n < 2 ^ 31"
  then have u: "unat (of_nat n :: u32) = n" by (simp add: unat_of_nat)
  have ui: "uint (of_nat n :: u32) = int n" by (simp only: uint_nat u)
  have "sint (of_nat n :: u32) = int n"
    unfolding sint_uint ui using n by (simp add: signed_take_bit_int_eq_self)
  then have "scast (of_nat n :: u32) = (of_nat n :: u64)" by (simp add: scast_eq)
  then show ?thesis by (simp add: npoints_varint_def)
qed

lemma encode_one_byte: "n < 128 \<Longrightarrow> length (varint_u64_encode_buf (of_nat n)) = 1"
proof -
  assume n: "n < 128"
  have "unat (drop_bit 7 (of_nat n :: u64)) = 0"
    using n by (simp only: unat_drop_bit_eq) (simp add: drop_bit_eq_div unat_of_nat)
  then have "drop_bit 7 (of_nat n :: u64) = 0" by (simp only: unsigned_eq_0_iff)
  then show ?thesis by (subst varint_u64_encode_buf.simps) (simp add: Let_def)
qed

definition ptarray_bytes :: "bool \<Rightarrow> u64 list \<Rightarrow> u64 list list \<Rightarrow> byte list" where
  "ptarray_bytes reg p ks = (if reg then varint_u64_encode_buf (of_nat (length ks)) else []) @ delta_bytes p ks"

definition moved :: "twkb_state \<Rightarrow> twkb_state \<Rightarrow> bool" where
  "moved ts ts' \<longleftrightarrow> ts_header_buf ts' = ts_header_buf ts \<and> ts_idlist ts' = ts_idlist ts"

lemma moved_refl [simp]: "moved ts ts"
  by (simp add: moved_def)

lemma moved_trans: "moved ts ts' \<Longrightarrow> moved ts' ts'' \<Longrightarrow> moved ts ts''"
  by (simp add: moved_def)

lemma moved_geom [simp]: "moved ts (ts'\<lparr>ts_geom_buf := b\<rparr>) = moved ts ts'" "moved (ts\<lparr>ts_geom_buf := b\<rparr>) ts' = moved ts ts'"
  by (simp_all add: moved_def)

lemma relative_geom [simp]: "relative dm p (ts\<lparr>ts_geom_buf := b\<rparr>) = relative dm p ts"
  by (simp add: relative_def)

lemma beside_moved: "beside ts ts' \<Longrightarrow> moved ts ts'"
  by (simp add: beside_def moved_def)

lemma ptarray_written:
  assumes gl: "take dm (tg_factor gl) = fs" "length fs = dm" and dm: "dm = FLAGS_NDIMS (pflags pa)" and pa: "pa_wf pa" "npoints pa < 2 ^ 31"
    and fit: "\<forall>r \<in> set (rows pa). fits (quant fs r)"
    and st: "relative dm p ts" "fits p" "holds (ts_geom_buf ts) bs" "length bs + 40 * npoints pa + 50 < 2 ^ 62"
    and ks: "ks = kept m (map (quant fs) (rows pa))"
  shows "\<exists>ts'. ptarray_to_twkb_buf pa gl ts reg m = Inr ts' \<and> holds (ts_geom_buf ts') (bs @ ptarray_bytes reg p ks) \<and>
      relative dm (last (p # ks)) ts' \<and> moved ts ts'"
proof (cases "npoints pa = 0")
  case True
  then have "rows pa = []" by simp
  then have k0: "ks = []" by (simp add: ks kept_def del: rows_Nil)
  show ?thesis
  proof (cases reg)
    case t: True
    have "length bs + length (varint_u64_encode_buf 0) < 2 ^ 62" using st(4) encode_length [of 0] by simp
    from append_uvarint_holds [OF st(3) this] True t st(1) show ?thesis
      by (auto simp: ptarray_to_twkb_buf_def k0 ptarray_bytes_def)
  next
    case False
    with True st(1,3) show ?thesis by (auto simp: ptarray_to_twkb_buf_def k0 ptarray_bytes_def)
  qed
next
  case False
  then have n0: "0 < npoints pa" by simp
  have kl: "length ks \<le> npoints pa" using kept_length [of m "map (quant fs) (rows pa)"] by (simp add: ks)
  have kne: "ks \<noteq> []" using kept_ends [of "map (quant fs) (rows pa)" m] n0 by (simp add: ks)
  have lks: "last (p # ks) = last ks" using kne by simp
  have "\<forall>k \<in> set ks. length k \<le> 4"
    using gl(2) by (auto simp: ks quant_length dm FLAGS_NDIMS_def dest!: kept_quant)
  then have dl: "length (delta_bytes p ks) \<le> 40 * npoints pa" using delta_length [of ks p] kl by simp
  show ?thesis
  proof (cases "127 < npoints pa")
    case True
    have "3 * FLAGS_NDIMS (pflags pa) * npoints pa < 2 ^ 64" using pa(2) by (auto simp: FLAGS_NDIMS_def)
    then have h0: "holds (bytebuffer_init_with_size (3 * FLAGS_NDIMS (pflags pa) * npoints pa)) []" by (rule init_holds)
    have "length ([] :: byte list) + 40 * npoints pa + 40 < 2 ^ 62" using st(4) by simp
    from all_points_written [OF gl dm pa(1) n0 fit st(1,2) h0 this ks] obtain b1 ts1 left1 where
      w: "points_to_twkb_buf gl pa m [0..<npoints pa] (bytebuffer_init_with_size (3 * FLAGS_NDIMS (pflags pa) * npoints pa), ts, 0, npoints pa) =
        Inr (b1, ts1, length ks, left1)" "holds b1 (delta_bytes p ks)" "relative dm (last ks) ts1" "beside ts ts1" by auto
    let ?h = "if reg then varint_u64_encode_buf (of_nat (length ks)) else []"
    have hl: "length ?h \<le> 10" using encode_length by simp
    have enc: "varint_u64_encode_buf (scast (of_nat (length ks) :: u32)) = varint_u64_encode_buf (of_nat (length ks))"
      using npoints_varint_small [of "length ks"] kl pa(2) by (simp add: npoints_varint_def)
    have g1: "ts_geom_buf ts1 = ts_geom_buf ts" using w(4) by (simp add: beside_def)
    have "length bs + length (varint_u64_encode_buf (of_nat (length ks))) < 2 ^ 62"
      using st(4) encode_length [of "of_nat (length ks)"] by simp
    then have "\<exists>g. (if reg then bytebuffer_append_uvarint (ts_geom_buf ts1) (scast (of_nat (length ks) :: u32)) else Inr (ts_geom_buf ts1)) = Inr g \<and>
        holds g (bs @ ?h)"
      using append_uvarint_holds [OF st(3), of "scast (of_nat (length ks) :: u32)"] st(3) by (simp add: g1 enc)
    then obtain g where g: "(if reg then bytebuffer_append_uvarint (ts_geom_buf ts1) (scast (of_nat (length ks) :: u32)) else Inr (ts_geom_buf ts1)) = Inr g"
        "holds g (bs @ ?h)" by blast
    have "length (bs @ ?h) + length (delta_bytes p ks) < 2 ^ 62" using st(4) hl dl by simp
    from append_bytebuffer_holds [OF g(2) w(2) this] obtain g2 where
      "bytebuffer_append_bytebuffer g b1 = Inr g2" "holds g2 ((bs @ ?h) @ delta_bytes p ks)" by blast
    moreover have "ptarray_to_twkb_buf pa gl ts reg m = bindE (bytebuffer_append_bytebuffer g b1) (\<lambda>g. Inr (ts1\<lparr>ts_geom_buf := g\<rparr>))"
      using True False by (simp add: ptarray_to_twkb_buf_def w(1) g(1))
    ultimately show ?thesis using w(3) beside_moved [OF w(4)] unfolding lks by (simp add: ptarray_bytes_def)
  next
    case small: False
    let ?h0 = "if reg then [0] else [] :: byte list"
    have "length bs + 1 < 2 ^ 62" using st(4) by simp
    from append_byte_holds [OF st(3) this, of 0] st(3)
    have "\<exists>b. (if reg then bytebuffer_append_byte (ts_geom_buf ts) 0 else Inr (ts_geom_buf ts)) = Inr b \<and> holds b (bs @ ?h0)" by auto
    then obtain b where b: "(if reg then bytebuffer_append_byte (ts_geom_buf ts) 0 else Inr (ts_geom_buf ts)) = Inr b" "holds b (bs @ ?h0)" by blast
    have "length (bs @ ?h0) + 40 * npoints pa + 40 < 2 ^ 62" using st(4) by simp
    from all_points_written [OF gl dm pa(1) n0 fit st(1,2) b(2) this ks] obtain b1 ts1 left1 where
      w: "points_to_twkb_buf gl pa m [0..<npoints pa] (b, ts, 0, npoints pa) = Inr (b1, ts1, length ks, left1)"
        "holds b1 ((bs @ ?h0) @ delta_bytes p ks)" "relative dm (last ks) ts1" "beside ts ts1" by blast
    have enc: "npoints_varint (length ks) = varint_u64_encode_buf (of_nat (length ks))"
      using npoints_varint_small [of "length ks"] kl pa(2) by simp
    have bw: "bb_write (ts_geom_buf ts) = length bs" using st(3) by (simp add: holds_def)
    have "\<exists>b2. (if reg then bytebuffer_store b1 (length bs) (npoints_varint (length ks)) else Inr b1) = Inr b2 \<and>
        holds b2 (bs @ ptarray_bytes reg p ks)"
    proof (cases reg)
      case True
      then have "holds b1 (bs @ [0] @ delta_bytes p ks)" using w(2) by simp
      from store_holds [OF this, of "npoints_varint (length ks)"] encode_one_byte [of "length ks"] True small kl
      show ?thesis by (simp add: enc ptarray_bytes_def)
    qed (use w(2) in \<open>simp add: ptarray_bytes_def\<close>)
    then obtain b2 where b2: "(if reg then bytebuffer_store b1 (length bs) (npoints_varint (length ks)) else Inr b1) = Inr b2"
        "holds b2 (bs @ ptarray_bytes reg p ks)" by blast
    have "ptarray_to_twkb_buf pa gl ts reg m = Inr (ts1\<lparr>ts_geom_buf := b2\<rparr>)"
      using small False by (simp add: ptarray_to_twkb_buf_def Let_def bw b(1) w(1) b2(1))
    with b2(2) w(3) beside_moved [OF w(4)] show ?thesis unfolding lks by simp
  qed
qed

section \<open>Reading it back\<close>

text \<open>The input that is left; a reader of elements moves the position and changes the coordinates.\<close>

definition tw_input :: "twkb_parse_state \<Rightarrow> byte list" where
  "tw_input s = drop (tw_pos s) (twkb s)"

abbreviation tw_at :: "twkb_parse_state \<Rightarrow> nat \<Rightarrow> u64 list \<Rightarrow> twkb_parse_state" where
  "tw_at s n c \<equiv> s\<lparr>tw_pos := tw_pos s + n, tw_coords := c\<rparr>"

lemma tw_at_same: "tw_at s n (tw_coords s) = s\<lparr>tw_pos := tw_pos s + n\<rparr>"
  by simp

lemma tw_input_length: "tw_input s = bs @ rest \<Longrightarrow> length bs \<le> length (twkb s) - tw_pos s"
proof -
  assume "tw_input s = bs @ rest"
  from arg_cong [OF this, of length] show ?thesis by (simp add: tw_input_def)
qed

lemma tw_input_after: "tw_input s = bs @ rest \<Longrightarrow> tw_input (tw_at s (length bs) c) = rest"
proof -
  assume "tw_input s = bs @ rest"
  then have "drop (length bs) (tw_input s) = rest" by simp
  then show ?thesis by (simp add: tw_input_def add.commute)
qed

lemma advance_read: "tw_input s = bs @ rest \<Longrightarrow> twkb_parse_state_advance s (length bs) = Inr (s\<lparr>tw_pos := tw_pos s + length bs\<rparr>)"
  using tw_input_length [of s bs rest] by (simp add: twkb_parse_state_advance_def)

lemma uvarint_read:
  assumes "tw_input s = varint_u64_encode_buf v @ rest"
  shows "twkb_parse_state_uvarint s = Inr (v, s\<lparr>tw_pos := tw_pos s + length (varint_u64_encode_buf v)\<rparr>)"
  using assms advance_read [OF assms] varint_u64_decode_encode [of v rest]
  by (simp add: twkb_parse_state_uvarint_def tw_input_def)

lemma svarint_read:
  assumes "tw_input s = varint_s64_encode_buf v @ rest"
  shows "twkb_parse_state_varint s = Inr (unzigzag64 (zigzag64 v), s\<lparr>tw_pos := tw_pos s + length (varint_s64_encode_buf v)\<rparr>)"
  using assms advance_read [OF assms] varint_u64_decode_encode [of "zigzag64 v" rest]
  by (simp add: twkb_parse_state_varint_def varint_s64_decode_def tw_input_def varint_s64_encode_buf_def)

lemma skip_read:
  assumes "tw_input s = varint_s64_encode_buf v @ rest"
  shows "twkb_parse_state_varint_skip s = Inr (s\<lparr>tw_pos := tw_pos s + length (varint_s64_encode_buf v)\<rparr>)"
proof -
  from varint_u64_decode_encode [of "zigzag64 v" rest]
  have d: "leb128 (varint_s64_encode_buf v @ rest) = Some (unat (zigzag64 v), length (varint_s64_encode_buf v))"
    by (simp add: varint_u64_decode_iff varint_s64_encode_buf_def)
  then have "varint_size (drop (tw_pos s) (twkb s)) = length (varint_s64_encode_buf v)"
    using assms by (simp add: varint_size_leb128 tw_input_def)
  with leb128_pos [OF d] advance_read [OF assms] show ?thesis by (simp add: twkb_parse_state_varint_skip_def Let_def)
qed

lemma uvarint32_read:
  assumes "tw_input s = varint_u64_encode_buf (of_nat n) @ rest" "n < 2 ^ 32"
  shows "twkb_parse_state_uvarint32 s = Inr (n, s\<lparr>tw_pos := tw_pos s + length (varint_u64_encode_buf (of_nat n))\<rparr>)"
proof -
  have "unat (of_nat n :: u64) = n" using assms(2) by (simp add: unat_of_nat)
  then show ?thesis using uvarint_read [OF assms(1)] assms(2) by (simp add: twkb_parse_state_uvarint32_def)
qed

text \<open>One point: each coordinate is the old one plus the difference.\<close>

definition coords_of :: "double list \<Rightarrow> u64 list \<Rightarrow> double list" where
  "coords_of factors k = map2 (\<lambda>f v. dbl_div (dbl_of_int (sint v)) f) factors k"

lemma accum_read:
  assumes "tw_input s = varint_s64_encode_buf (v - tw_coords s ! j) @ rest" "\<bar>sint (v - tw_coords s ! j)\<bar> < 2 ^ 61" "j < length (tw_coords s)"
  shows "twkb_parse_state_accum_coord s j =
    Inr (tw_at s (length (varint_s64_encode_buf (v - tw_coords s ! j))) ((tw_coords s)[j := v]))"
  using assms svarint_read [OF assms(1)] unzigzag64_zigzag64 [of "v - tw_coords s ! j"]
  by (auto simp: twkb_parse_state_accum_coord_def)

lemma point_read:
  "tw_input s = concat (map varint_s64_encode_buf (map2 (-) k p)) @ rest \<Longrightarrow> fits k \<Longrightarrow> fits p \<Longrightarrow>
   length k = length fs \<Longrightarrow> length p = length fs \<Longrightarrow> take (length fs) (drop j (tw_coords s)) = p \<Longrightarrow>
   point_from_twkb_state fs j s = Inr (coords_of fs k, tw_at s (length (concat (map varint_s64_encode_buf (map2 (-) k p))))
     (take j (tw_coords s) @ k @ drop (j + length fs) (tw_coords s)))"
proof (induction fs arbitrary: j s k p)
  case Nil
  then show ?case by (simp add: coords_of_def)
next
  case (Cons f fs)
  obtain v k' where k: "k = v # k'" "length k' = length fs" using Cons.prems(4) by (cases k) auto
  obtain u p' where p: "p = u # p'" "length p' = length fs" using Cons.prems(5) by (cases p) auto
  have j: "j < length (tw_coords s)" using Cons.prems(6) by (auto simp: p(1) intro: ccontr)
  have dj: "drop j (tw_coords s) = tw_coords s ! j # drop (Suc j) (tw_coords s)" using j by (simp add: Cons_nth_drop_Suc)
  then have u: "tw_coords s ! j = u" "take (length fs) (drop (Suc j) (tw_coords s)) = p'"
    using Cons.prems(6) by (simp_all add: p(1))
  let ?e = "varint_s64_encode_buf (v - u)" and ?es = "concat (map varint_s64_encode_buf (map2 (-) k' p'))"
  have i1: "tw_input s = varint_s64_encode_buf (v - tw_coords s ! j) @ ?es @ rest"
    using Cons.prems(1) by (simp add: k(1) p(1) u(1))
  have "\<bar>sint v\<bar> < 2 ^ 60" "\<bar>sint u\<bar> < 2 ^ 60" "fits k'" "fits p'"
    using Cons.prems(2,3) by (simp_all add: k(1) p(1) fits_def)
  note f = this
  have "\<bar>sint (v - tw_coords s ! j)\<bar> < 2 ^ 61" using sint_diff [OF f(1,2)] f(1,2) by (simp add: u(1))
  note a = accum_read [OF i1 this j]
  let ?s = "tw_at s (length ?e) ((tw_coords s)[j := v])"
  have i2: "tw_input ?s = ?es @ rest" using tw_input_after [OF i1] by (simp add: u(1))
  have t: "take (length fs) (drop (j + 1) (tw_coords ?s)) = p'" using u(2) by simp
  from Cons.IH [OF i2 f(3,4) k(2) p(2) t]
  have r: "point_from_twkb_state fs (j + 1) ?s = Inr (coords_of fs k', tw_at ?s (length ?es)
      (take (j + 1) (tw_coords ?s) @ k' @ drop (j + 1 + length fs) (tw_coords ?s)))" .
  have c: "take (Suc j) ((tw_coords s)[j := v]) = take j (tw_coords s) @ [v]"
    using j by (simp add: take_Suc_conv_app_nth)
  have l: "length ((tw_coords s)[j := v]) = length (tw_coords s)" by simp
  have jn: "(tw_coords s)[j := v] ! j = v" using j by simp
  show ?case
    using a r by (simp add: u(1) jn c coords_of_def k(1) p(1) Let_def)
qed

lemma encode_nonempty: "1 \<le> length (varint_u64_encode_buf v)" "1 \<le> length (varint_s64_encode_buf v)"
proof -
  show u: "1 \<le> length (varint_u64_encode_buf v)" for v
    by (subst varint_u64_encode_buf.simps) (simp add: Let_def)
  show "1 \<le> length (varint_s64_encode_buf v)" unfolding varint_s64_encode_buf_def by (rule u)
qed

lemma varints_at_least: "length vs \<le> length (concat (map varint_s64_encode_buf vs))"
proof (induction vs)
  case (Cons v vs)
  then show ?case using encode_nonempty(2) [of v] by simp
qed simp

lemma delta_at_least:
  "(\<forall>k \<in> set ks. length k = dm) \<Longrightarrow> length p = dm \<Longrightarrow> length ks * dm \<le> length (delta_bytes p ks)"
proof (induction ks arbitrary: p)
  case (Cons k ks)
  then show ?case using varints_at_least [of "map2 (-) k p"] Cons.IH [of k] by fastforce
qed simp

lemma points_read:
  "tw_input s = delta_bytes p ks @ rest \<Longrightarrow> (\<forall>k \<in> set ks. fits k \<and> length k = length fs) \<Longrightarrow> fits p \<Longrightarrow>
   length (tw_coords s) = 4 \<Longrightarrow> length fs \<le> 4 \<Longrightarrow> take (length fs) (tw_coords s) = p \<Longrightarrow>
   \<exists>c. points_from_twkb_state fs (length ks) s =
       Inr (concat (map (coords_of fs) ks), tw_at s (length (delta_bytes p ks)) c) \<and>
     length c = 4 \<and> take (length fs) c = last (p # ks)"
proof (induction ks arbitrary: s p)
  case Nil
  then show ?case by (intro exI [of _ "tw_coords s"]) simp
next
  case (Cons k ks)
  let ?e = "concat (map varint_s64_encode_buf (map2 (-) k p))"
  have lp: "length p = length fs" using Cons.prems(4-6) by auto
  have k: "fits k" "length k = length fs" using Cons.prems(2) by simp_all
  have i: "tw_input s = ?e @ delta_bytes k ks @ rest" using Cons.prems(1) by simp
  have t: "take (length fs) (drop 0 (tw_coords s)) = p" using Cons.prems(6) by simp
  let ?c = "take 0 (tw_coords s) @ k @ drop (0 + length fs) (tw_coords s)" and ?n = "length ?e"
  have r: "point_from_twkb_state fs 0 s = Inr (coords_of fs k, tw_at s ?n ?c)"
    by (rule point_read [OF i k(1) Cons.prems(3) k(2) lp t])
  have "\<exists>c. points_from_twkb_state fs (length ks) (tw_at s ?n ?c) =
       Inr (concat (map (coords_of fs) ks), tw_at (tw_at s ?n ?c) (length (delta_bytes k ks)) c) \<and>
     length c = 4 \<and> take (length fs) c = last (k # ks)"
    by (rule Cons.IH) (use tw_input_after [OF i] Cons.prems(2,4,5) k in \<open>auto\<close>)
  then obtain c where "points_from_twkb_state fs (length ks) (tw_at s ?n ?c) =
       Inr (concat (map (coords_of fs) ks), tw_at s (?n + length (delta_bytes k ks)) c)"
     "length c = 4" "take (length fs) c = last (k # ks)" by (auto simp: add.assoc)
  with r show ?case by (intro exI [of _ c]) simp
qed

definition read_array :: "bool \<Rightarrow> bool \<Rightarrow> double list \<Rightarrow> u64 list list \<Rightarrow> pointarray" where
  "read_array z m fs ks = ptarray_construct z m (length ks) (concat (map (coords_of fs) ks))"

text \<open>What the reader of the content needs of its state; \<open>p\<close> are the coordinates the differences start from.\<close>

definition ready :: "twkb_parse_state \<Rightarrow> u64 list \<Rightarrow> bool" where
  "ready s p \<longleftrightarrow> dims_set s \<and> length (tw_coords s) = 4 \<and> take (tw_ndims s) (tw_coords s) = p \<and> fits p"

lemma ready_dims: "ready s p \<Longrightarrow> length (twkb_factors s) = tw_ndims s \<and> tw_ndims s \<le> 4 \<and> length p = tw_ndims s"
  by (auto simp: ready_def dims_set_def length_twkb_factors)

lemma dims_set_at [simp]: "dims_set (s\<lparr>tw_pos := n\<rparr>) = dims_set s" "dims_set (tw_at s n c) = dims_set s"
  by (simp_all add: dims_set_def)

lemma ready_pos [simp]: "ready (s\<lparr>tw_pos := n\<rparr>) p = ready s p"
  by (simp add: ready_def)

lemma twkb_factors_at [simp]: "twkb_factors (s\<lparr>tw_pos := n\<rparr>) = twkb_factors s" "twkb_factors (tw_at s n c) = twkb_factors s"
  by (simp_all add: twkb_factors_def)

lemma ptarray_twkb_read:
  assumes i: "tw_input s = delta_bytes p ks @ rest" and s: "ready s p"
    and k: "\<forall>k \<in> set ks. fits k \<and> length k = tw_ndims s"
  shows "\<exists>c. ptarray_from_twkb_state s (length ks) =
      Inr (read_array (tw_has_z s) (tw_has_m s) (twkb_factors s) ks, tw_at s (length (delta_bytes p ks)) c) \<and>
    ready (tw_at s (length (delta_bytes p ks)) c) (last (p # ks))"
proof (cases "ks = []")
  case True
  then show ?thesis using s
    by (intro exI [of _ "tw_coords s"])
      (simp add: ptarray_from_twkb_state_def read_array_def ptarray_construct_def ptarray_construct_empty_def ready_def)
next
  case False
  note d = ready_dims [OF s]
  have "length ks * tw_ndims s \<le> length (twkb s) - tw_pos s"
    using delta_at_least [of ks "tw_ndims s" p] k d tw_input_length [OF i] by simp
  then have "length ks \<le> (length (twkb s) - tw_pos s) div tw_ndims s"
    using s by (simp add: less_eq_div_iff_mult_less_eq ready_def dims_set_def)
  then have mb: "twkb_parse_state_has_min_bytes s (length ks) (tw_ndims s) = Inr ()"
    by (simp add: twkb_parse_state_has_min_bytes_def require_def)
  have "\<exists>c. points_from_twkb_state (twkb_factors s) (length ks) s =
       Inr (concat (map (coords_of (twkb_factors s)) ks), tw_at s (length (delta_bytes p ks)) c) \<and>
     length c = 4 \<and> take (length (twkb_factors s)) c = last (p # ks)"
    by (rule points_read [OF i]) (use s k d in \<open>auto simp: ready_def\<close>)
  then obtain c where c: "points_from_twkb_state (twkb_factors s) (length ks) s =
       Inr (concat (map (coords_of (twkb_factors s)) ks), tw_at s (length (delta_bytes p ks)) c)"
     "length c = 4" "take (tw_ndims s) c = last (p # ks)" using d by auto
  have "last (p # ks) \<in> set ks" using False by simp
  with k have "fits (last (p # ks))" by blast
  with c s False mb show ?thesis
    by (intro exI [of _ c]) (simp add: ptarray_from_twkb_state_def read_array_def ready_def)
qed

lemma uvarint32_ptarray_read:
  assumes i: "tw_input s = ptarray_bytes True p ks @ rest" and s: "ready s p"
    and k: "\<forall>k \<in> set ks. fits k \<and> length k = tw_ndims s" "length ks < 2 ^ 31"
  shows "\<exists>c s1. twkb_parse_state_uvarint32 s = Inr (length ks, s1) \<and> tw_has_z s1 = tw_has_z s \<and> tw_has_m s1 = tw_has_m s \<and>
    ptarray_from_twkb_state s1 (length ks) =
      Inr (read_array (tw_has_z s) (tw_has_m s) (twkb_factors s) ks, tw_at s (length (ptarray_bytes True p ks)) c) \<and>
    ready (tw_at s (length (ptarray_bytes True p ks)) c) (last (p # ks)) \<and>
    s1 = s\<lparr>tw_pos := tw_pos s + length (varint_u64_encode_buf (of_nat (length ks)))\<rparr>"
proof -
  let ?e = "varint_u64_encode_buf (of_nat (length ks))"
  let ?s = "s\<lparr>tw_pos := tw_pos s + length ?e\<rparr>"
  have i1: "tw_input s = ?e @ delta_bytes p ks @ rest" using i by (simp add: ptarray_bytes_def)
  have u: "twkb_parse_state_uvarint32 s = Inr (length ks, ?s)"
    by (rule uvarint32_read [OF i1]) (use k(2) in simp)
  have i2: "tw_input ?s = delta_bytes p ks @ rest" using tw_input_after [OF i1, of "tw_coords s"] by simp
  have r2: "ready ?s p" using s by simp
  from ptarray_twkb_read [OF i2 r2] k(1) obtain c where
    "ptarray_from_twkb_state ?s (length ks) =
      Inr (read_array (tw_has_z s) (tw_has_m s) (twkb_factors s) ks, tw_at ?s (length (delta_bytes p ks)) c)"
    "ready (tw_at ?s (length (delta_bytes p ks)) c) (last (p # ks))" by auto
  with u show ?thesis by (intro exI [of _ c] exI [of _ ?s]) (simp add: ptarray_bytes_def add.assoc)
qed

end
