(* ===== verification/TWKBRoundTrip.thy ===== *)
theory TWKBRoundTrip
  imports TWKBBytes
begin

text \<open>
  What the Tiny WKB writer writes, the reader reads back, up to what the form does not hold: the
  coordinates are those that were rounded to the precision asked for, repeated points are thinned
  out, a triangle has become a polygon, a TIN a collection, and the SRID and the empty
  points of a multipoint are gone. \<open>twkb_image\<close> says it once; boxes, sizes and lists of ids may be written or not.
\<close>

section \<open>The geometry that is meant\<close>

text \<open>The factors of the writer, which are floats, and those of the reader.\<close>

definition write_factors :: "(int \<Rightarrow> double) \<Rightarrow> twkb_globals \<Rightarrow> bool \<Rightarrow> bool \<Rightarrow> double list" where
  "write_factors pow10 gl z m = [float_factor pow10 (tg_prec_xy gl), float_factor pow10 (tg_prec_xy gl)] @
     (if z then [float_factor pow10 (tg_prec_z gl)] else []) @ (if m then [float_factor pow10 (tg_prec_m gl)] else [])"

definition read_factors :: "(int \<Rightarrow> double) \<Rightarrow> twkb_globals \<Rightarrow> bool \<Rightarrow> bool \<Rightarrow> double list" where
  "read_factors pow10 gl z m = [pow10 (sint (tg_prec_xy gl)), pow10 (sint (tg_prec_xy gl))] @
     (if z then [pow10 (sint (tg_prec_z gl))] else []) @ (if m then [pow10 (sint (tg_prec_m gl))] else [])"

definition quant_rows :: "(int \<Rightarrow> double) \<Rightarrow> twkb_globals \<Rightarrow> pointarray \<Rightarrow> u64 list list" where
  "quant_rows pow10 gl pa = map (quant (write_factors pow10 gl (hasz (pflags pa)) (hasm (pflags pa)))) (rows pa)"

definition image_pa :: "(int \<Rightarrow> double) \<Rightarrow> twkb_globals \<Rightarrow> nat \<Rightarrow> pointarray \<Rightarrow> pointarray" where
  "image_pa pow10 gl minpoints pa =
     (let ks = kept minpoints (quant_rows pow10 gl pa)
      in \<lparr>npoints = length ks, maxpoints = length ks, pflags = zm_flags (pflags pa),
          ptlist = concat (map (coords_of (read_factors pow10 gl (hasz (pflags pa)) (hasm (pflags pa)))) ks)\<rparr>)"

definition image_head :: "lwhead \<Rightarrow> lwhead" where
  "image_head h = \<lparr>bbox = None, srid = SRID_UNKNOWN, flags = zm_flags (flags h)\<rparr>"

fun twkb_image :: "(int \<Rightarrow> double) \<Rightarrow> twkb_globals \<Rightarrow> lwgeom \<Rightarrow> lwgeom" where
  "twkb_image pow10 gl (LWPOINT h pa) = LWPOINT (image_head h) (image_pa pow10 gl 1 pa)"
| "twkb_image pow10 gl (LWLINE h pa) = LWLINE (image_head h) (image_pa pow10 gl 2 pa)"
| "twkb_image pow10 gl (LWTRIANGLE h pa) = LWPOLY (image_head h) 0 (if npoints pa = 0 then [] else [image_pa pow10 gl 2 pa])"
| "twkb_image pow10 gl (LWPOLY h mr rs) = LWPOLY (image_head h) 0 (map (image_pa pow10 gl 4) rs)"
| "twkb_image pow10 gl (LWCOLLECTION t h mg al gs) =
     LWCOLLECTION (if t = TINTYPE then COLLECTIONTYPE else t) (image_head h) 0 False
       (if list_all lwgeom_is_empty gs then [] else map (twkb_image pow10 gl) (filter (\<lambda>g. \<not> skipped t g) gs))"
| "twkb_image pow10 gl g = g"

text \<open>
  Geometries the form is made for: of a type it has, with closed rings that have points, with
  coordinates that leave room in 64 bits, and multi-geometries of one dimension.
\<close>

definition pa_fits :: "(int \<Rightarrow> double) \<Rightarrow> twkb_globals \<Rightarrow> pointarray \<Rightarrow> bool" where
  "pa_fits pow10 gl pa \<longleftrightarrow> npoints pa < 2 ^ 31 \<and> (\<forall>k \<in> set (quant_rows pow10 gl pa). fits k)"

fun twkb_ok :: "(int \<Rightarrow> double) \<Rightarrow> twkb_globals \<Rightarrow> lwgeom \<Rightarrow> bool" where
  "twkb_ok pow10 gl (LWPOINT h pa) \<longleftrightarrow> pa_fits pow10 gl pa"
| "twkb_ok pow10 gl (LWLINE h pa) \<longleftrightarrow> pa_fits pow10 gl pa"
| "twkb_ok pow10 gl (LWTRIANGLE h pa) \<longleftrightarrow> pa_fits pow10 gl pa \<and> (npoints pa = 0 \<or> ptarray_is_closed_2d pa)"
| "twkb_ok pow10 gl (LWPOLY h mr rs) \<longleftrightarrow>
     length rs < 2 ^ 31 \<and> list_all (\<lambda>pa. pa_fits pow10 gl pa \<and> 0 < npoints pa \<and> ptarray_is_closed_2d pa) rs"
| "twkb_ok pow10 gl (LWCOLLECTION t h mg al gs) \<longleftrightarrow>
     t \<in> {MULTIPOINTTYPE, MULTILINETYPE, MULTIPOLYGONTYPE, COLLECTIONTYPE, TINTYPE} \<and> length gs < 2 ^ 31 \<and>
     (t \<in> {MULTIPOINTTYPE, MULTILINETYPE, MULTIPOLYGONTYPE} \<longrightarrow> list_all (\<lambda>g. same_zm (flags h) (lwgeom_flags g)) gs) \<and>
     list_all (twkb_ok pow10 gl) gs"
| "twkb_ok pow10 gl g \<longleftrightarrow> False"

text \<open>A bound for the bytes that are written.\<close>

fun twkb_cost :: "lwgeom \<Rightarrow> nat" where
  "twkb_cost (LWPOINT h pa) = 40 * npoints pa + 50"
| "twkb_cost (LWLINE h pa) = 40 * npoints pa + 50"
| "twkb_cost (LWTRIANGLE h pa) = 40 * npoints pa + 60"
| "twkb_cost (LWPOLY h mr rs) = 10 + sum_list (map (\<lambda>pa. 40 * npoints pa + 50) rs)"
| "twkb_cost (LWCOLLECTION t h mg al gs) = 20 + 10 * length gs + sum_list (map (\<lambda>g. twkb_cost g + 200) gs)"
| "twkb_cost g = 0"

section \<open>Point arrays\<close>

lemma factors_length:
  "length (write_factors pow10 gl z m) = 2 + of_bool z + of_bool m"
  "length (read_factors pow10 gl z m) = 2 + of_bool z + of_bool m"
  by (simp_all add: write_factors_def read_factors_def)

text \<open>The writer's factors are in place for a geometry with the dimensions of \<open>f\<close>.\<close>

definition tuned :: "(int \<Rightarrow> double) \<Rightarrow> twkb_globals \<Rightarrow> u16 \<Rightarrow> bool" where
  "tuned pow10 gl f \<longleftrightarrow> take (FLAGS_NDIMS f) (tg_factor gl) = write_factors pow10 gl (hasz f) (hasm f)"

lemma tuned_zm: "same_zm f g \<Longrightarrow> tuned pow10 gl f = tuned pow10 gl g"
  using same_zm_flags [of f g] by (simp add: tuned_def same_zm_def)

text \<open>The reader's state fits the header of a geometry with the dimensions of \<open>f\<close>.\<close>

definition headed :: "(int \<Rightarrow> double) \<Rightarrow> twkb_globals \<Rightarrow> u16 \<Rightarrow> twkb_parse_state \<Rightarrow> bool" where
  "headed pow10 gl f s \<longleftrightarrow> tw_has_z s = hasz f \<and> tw_has_m s = hasm f \<and> dims_set s \<and>
     twkb_factors s = read_factors pow10 gl (hasz f) (hasm f) \<and> \<not> tw_is_empty s \<and> \<not> has_bits (tw_check s) LW_PARSER_CHECK_MINPOINTS"

lemma headed_at [simp]: "headed pow10 gl f (s\<lparr>tw_pos := n\<rparr>) = headed pow10 gl f s" "headed pow10 gl f (tw_at s n c) = headed pow10 gl f s"
  by (simp_all add: headed_def)

lemma headed_zm: "same_zm f g \<Longrightarrow> headed pow10 gl f = headed pow10 gl g"
  by (simp add: headed_def same_zm_def fun_eq_iff)

lemma headed_ndims: "headed pow10 gl f s \<Longrightarrow> tw_ndims s = FLAGS_NDIMS f"
  by (simp add: headed_def dims_set_def FLAGS_NDIMS_def)

lemma quant_row_length:
  assumes "pa_wf pa" "k \<in> set (kept m (quant_rows pow10 gl pa))"
  shows "length k = FLAGS_NDIMS (pflags pa)"
  using assms rows_length [OF assms(1)] unfolding quant_rows_def
  by (auto dest!: kept_quant simp: quant_length factors_length FLAGS_NDIMS_def)

lemma kept_fits: "pa_fits pow10 gl pa \<Longrightarrow> k \<in> set (kept m (quant_rows pow10 gl pa)) \<Longrightarrow> fits k"
  using kept_set [of m "quant_rows pow10 gl pa"] by (auto simp: pa_fits_def)

lemma kept_few: "length (kept m (quant_rows pow10 gl pa)) \<le> npoints pa"
  using kept_length [of m "quant_rows pow10 gl pa"] by (simp add: quant_rows_def)

text \<open>Writing an array, with what is needed to read it.\<close>

lemma array_written:
  assumes "pa_wf pa" "pa_fits pow10 gl pa" "tuned pow10 gl (pflags pa)"
    and "relative (FLAGS_NDIMS (pflags pa)) p ts" "fits p" "holds (ts_geom_buf ts) bs" "length bs + (40 * npoints pa + 50) < 2 ^ 62"
  shows "\<exists>ts'. ptarray_to_twkb_buf pa gl ts reg m = Inr ts' \<and>
    holds (ts_geom_buf ts') (bs @ ptarray_bytes reg p (kept m (quant_rows pow10 gl pa))) \<and>
    relative (FLAGS_NDIMS (pflags pa)) (last (p # kept m (quant_rows pow10 gl pa))) ts' \<and> moved ts ts' \<and>
    fits (last (p # kept m (quant_rows pow10 gl pa))) \<and>
    length (ptarray_bytes reg p (kept m (quant_rows pow10 gl pa))) \<le> 40 * npoints pa + 10"
proof -
  let ?fs = "write_factors pow10 gl (hasz (pflags pa)) (hasm (pflags pa))" and ?ks = "kept m (quant_rows pow10 gl pa)"
  have fl: "length ?fs = FLAGS_NDIMS (pflags pa)" by (simp add: factors_length FLAGS_NDIMS_def)
  have "\<forall>r \<in> set (rows pa). fits (quant ?fs r)" using assms(2) by (simp add: pa_fits_def quant_rows_def)
  from ptarray_written [OF assms(3) [unfolded tuned_def] fl refl assms(1) _ this assms(4-6) _ refl, where m = m and reg = reg] assms(2,7)
  obtain ts' where "ptarray_to_twkb_buf pa gl ts reg m = Inr ts'" "holds (ts_geom_buf ts') (bs @ ptarray_bytes reg p ?ks)"
    "relative (FLAGS_NDIMS (pflags pa)) (last (p # ?ks)) ts'" "moved ts ts'"
    by (auto simp: pa_fits_def quant_rows_def)
  moreover have "fits (last (p # ?ks))" using assms(5) kept_fits [OF assms(2), of _ m] by simp
  moreover have "length (ptarray_bytes reg p ?ks) \<le> 40 * npoints pa + 10"
  proof -
    have "\<forall>k \<in> set ?ks. length k \<le> 4" using quant_row_length [OF assms(1)] by (auto simp: FLAGS_NDIMS_def)
    then have "length (delta_bytes p ?ks) \<le> 40 * npoints pa" using delta_length [of ?ks p] kept_few [of m pow10 gl pa] by simp
    then show ?thesis using encode_length [of "of_nat (length ?ks)"] by (simp add: ptarray_bytes_def)
  qed
  ultimately show ?thesis by blast
qed

lemma read_array_content:
  "same_zm f (pflags pa) \<Longrightarrow> ks = kept m (quant_rows pow10 gl pa) \<Longrightarrow>
   pa_content (read_array (hasz f) (hasm f) (read_factors pow10 gl (hasz f) (hasm f)) ks) = image_pa pow10 gl m pa"
  by (simp add: pa_content_def read_array_def image_pa_def Let_def ptarray_construct_def ptarray_construct_empty_def
      same_zm_def zm_flags_def)

section \<open>Closed rings stay closed\<close>

lemma pa_point_take: "k \<le> nd pa \<Longrightarrow> pa_point pa i k = take k (pa_point pa i (nd pa))"
  by (simp add: pa_point_def)

lemma closed_2d_rows:
  "npoints pa \<noteq> 0 \<Longrightarrow> ptarray_is_closed_2d pa \<longleftrightarrow> npoints pa = 1 \<or> take 2 (hd (rows pa)) = take 2 (last (rows pa))"
proof -
  assume n: "npoints pa \<noteq> 0"
  then have "rows pa \<noteq> []" by simp
  then have "hd (rows pa) = pa_point pa 0 (nd pa)" "last (rows pa) = pa_point pa (npoints pa - 1) (nd pa)"
    using n rows_nth [of 0 pa] rows_nth [of "npoints pa - 1" pa] by (simp_all add: hd_conv_nth last_conv_nth del: rows_Nil)
  moreover have "pa_point pa i 2 = take 2 (pa_point pa i (nd pa))" for i
    by (rule pa_point_take) (simp add: FLAGS_NDIMS_def)
  ultimately show ?thesis using n by (auto simp: ptarray_is_closed_2d_def ptarray_closed_in_def)
qed

lemma coords_quant_2: "take 2 (coords_of rf (quant fs r)) = coords_of (take 2 rf) (quant (take 2 fs) (take 2 r))"
  by (simp add: coords_of_def quant_def take_map take_zip)

lemma read_array_rows:
  assumes "\<forall>k \<in> set ks. length k = 2 + of_bool z + of_bool m" "length rf = 2 + of_bool z + of_bool m" "length ks < 2 ^ 32"
  shows "pa_wf (read_array z m rf ks) \<and> rows (read_array z m rf ks) = map (coords_of rf) ks"
  using assms by (intro rows_construct)
    (auto simp: read_array_def ptarray_construct_def ptarray_construct_empty_def coords_of_def FLAGS_NDIMS_def)

lemma ring_read_closed:
  assumes pa: "pa_wf pa" "0 < npoints pa" "npoints pa < 2 ^ 31" "ptarray_is_closed_2d pa"
    and f: "same_zm f (pflags pa)" and ks: "ks = kept m (quant_rows pow10 gl pa)"
  shows "ptarray_is_closed_2d (read_array (hasz f) (hasm f) (read_factors pow10 gl (hasz f) (hasm f)) ks)"
proof -
  let ?wf = "write_factors pow10 gl (hasz (pflags pa)) (hasm (pflags pa))" and ?rf = "read_factors pow10 gl (hasz f) (hasm f)"
  let ?q = "read_array (hasz f) (hasm f) ?rf ks"
  have ne: "quant_rows pow10 gl pa \<noteq> []" using pa(2) by (simp add: quant_rows_def)
  from kept_ends [OF ne, of m] have k: "ks \<noteq> []" "hd ks = quant ?wf (hd (rows pa))" "last ks = quant ?wf (last (rows pa))"
    using pa(2) by (simp_all add: ks quant_rows_def hd_map last_map)
  have len: "\<forall>k \<in> set ks. length k = 2 + of_bool (hasz f) + of_bool (hasm f)" "length ks < 2 ^ 32"
    using quant_row_length [OF pa(1)] f kept_few [of m pow10 gl pa] pa(3) by (auto simp: ks FLAGS_NDIMS_def same_zm_def)
  from read_array_rows [OF len(1) factors_length(2) len(2)] have rs: "rows ?q = map (coords_of ?rf) ks" by simp
  have n: "npoints ?q = length ks" by (simp add: read_array_def)
  have "take 2 (hd (rows ?q)) = take 2 (last (rows ?q))" if "npoints pa \<noteq> 1"
    using closed_2d_rows [of pa] pa(2,4) that k(1) by (simp add: rs hd_map last_map k(2,3) coords_quant_2)
  moreover have "length ks = 1" if "npoints pa = 1"
    using kept_few [of m pow10 gl pa] that k(1) by (cases ks) (auto simp: ks)
  ultimately show ?thesis using closed_2d_rows [of ?q] k(1) n by auto
qed

section \<open>Geometries without members\<close>

definition leaf_reader :: "lwgeom \<Rightarrow> twkb_reader" where
  "leaf_reader g = (case g of LWPOINT h pa \<Rightarrow> lwpoint_from_twkb_state | LWLINE h pa \<Rightarrow> lwline_from_twkb_state
     | _ \<Rightarrow> lwpoly_from_twkb_state)"

definition leaf_reads :: "(int \<Rightarrow> double) \<Rightarrow> twkb_globals \<Rightarrow> lwgeom \<Rightarrow> u64 list \<Rightarrow> byte list \<Rightarrow> u64 list \<Rightarrow> bool" where
  "leaf_reads pow10 gl g p xs q \<longleftrightarrow>
     (\<forall>s rest. tw_input s = xs @ rest \<longrightarrow> ready s p \<longrightarrow> headed pow10 gl (lwgeom_flags g) s \<longrightarrow>
       (\<exists>c g'. leaf_reader g s = Inr (g', tw_at s (length xs) c) \<and> lwgeom_content g' = twkb_image pow10 gl g \<and>
          ready (tw_at s (length xs) c) q))"

lemma point_reads:
  assumes wf: "lwgeom_wf (LWPOINT h pa)" "twkb_ok pow10 gl (LWPOINT h pa)" "npoints pa = 1"
  shows "leaf_reads pow10 gl (LWPOINT h pa) p (ptarray_bytes False p (kept 1 (quant_rows pow10 gl pa)))
    (last (p # kept 1 (quant_rows pow10 gl pa)))"
  unfolding leaf_reads_def
proof (intro allI impI)
  let ?ks = "kept 1 (quant_rows pow10 gl pa)"
  fix s rest assume i: "tw_input s = ptarray_bytes False p ?ks @ rest" and r: "ready s p"
    and hd: "headed pow10 gl (lwgeom_flags (LWPOINT h pa)) s"
  from wf have pa: "pa_wf pa" "same_zm (flags h) (pflags pa)" "pa_fits pow10 gl pa" by simp_all
  have "quant_rows pow10 gl pa \<noteq> []" using wf(3) by (simp add: quant_rows_def)
  then have one: "length ?ks = 1"
    using kept_few [of 1 pow10 gl pa] wf(3) kept_ends [of "quant_rows pow10 gl pa" 1] by (cases ?ks) auto
  have "\<forall>k \<in> set ?ks. fits k \<and> length k = tw_ndims s"
    using quant_row_length [OF pa(1)] kept_fits [OF pa(3)] headed_ndims [OF hd] same_zm_ndims [OF pa(2)] by simp
  from ptarray_twkb_read [OF _ r this, of rest] i obtain c where
    c: "ptarray_from_twkb_state s (length ?ks) = Inr (read_array (tw_has_z s) (tw_has_m s) (twkb_factors s) ?ks,
      tw_at s (length (delta_bytes p ?ks)) c)" "ready (tw_at s (length (delta_bytes p ?ks)) c) (last (p # ?ks))"
    by (auto simp: ptarray_bytes_def)
  from hd pa(2) read_array_content [OF pa(2) refl, where m = 1 and ?pow10.0 = pow10 and gl = gl] c one
  show "\<exists>c g'. leaf_reader (LWPOINT h pa) s = Inr (g', tw_at s (length (ptarray_bytes False p ?ks)) c) \<and>
      lwgeom_content g' = twkb_image pow10 gl (LWPOINT h pa) \<and> ready (tw_at s (length (ptarray_bytes False p ?ks)) c) (last (p # ?ks))"
    by (intro exI [of _ c]) (simp add: leaf_reader_def lwpoint_from_twkb_state_def headed_def ptarray_bytes_def
        lwpoint_construct_def bbox_head_def head_content_def image_head_def read_array_def zm_flags_def Let_def)
qed

lemma line_reads:
  assumes wf: "lwgeom_wf (LWLINE h pa)" "twkb_ok pow10 gl (LWLINE h pa)"
  shows "leaf_reads pow10 gl (LWLINE h pa) p (ptarray_bytes True p (kept 2 (quant_rows pow10 gl pa)))
    (last (p # kept 2 (quant_rows pow10 gl pa)))"
  unfolding leaf_reads_def
proof (intro allI impI)
  let ?ks = "kept 2 (quant_rows pow10 gl pa)"
  fix s rest assume i: "tw_input s = ptarray_bytes True p ?ks @ rest" and r: "ready s p"
    and hd: "headed pow10 gl (lwgeom_flags (LWLINE h pa)) s"
  from wf have pa: "pa_wf pa" "same_zm (flags h) (pflags pa)" "pa_fits pow10 gl pa" by simp_all
  have "\<forall>k \<in> set ?ks. fits k \<and> length k = tw_ndims s"
    using quant_row_length [OF pa(1)] kept_fits [OF pa(3)] headed_ndims [OF hd] same_zm_ndims [OF pa(2)] by simp
  moreover have "length ?ks < 2 ^ 31" using kept_few [of 2 pow10 gl pa] pa(3) by (simp add: pa_fits_def)
  ultimately obtain c s1 where
    c: "twkb_parse_state_uvarint32 s = Inr (length ?ks, s1)" "tw_has_z s1 = tw_has_z s" "tw_has_m s1 = tw_has_m s"
      "ptarray_from_twkb_state s1 (length ?ks) = Inr (read_array (tw_has_z s) (tw_has_m s) (twkb_factors s) ?ks,
        tw_at s (length (ptarray_bytes True p ?ks)) c)"
      "ready (tw_at s (length (ptarray_bytes True p ?ks)) c) (last (p # ?ks))"
      "s1 = s\<lparr>tw_pos := tw_pos s + length (varint_u64_encode_buf (of_nat (length ?ks)))\<rparr>"
    using uvarint32_ptarray_read [OF i r] by blast
  show "\<exists>c g'. leaf_reader (LWLINE h pa) s = Inr (g', tw_at s (length (ptarray_bytes True p ?ks)) c) \<and>
      lwgeom_content g' = twkb_image pow10 gl (LWLINE h pa) \<and> ready (tw_at s (length (ptarray_bytes True p ?ks)) c) (last (p # ?ks))"
  proof (cases "?ks = []")
    case True
    have c0: "tw_at s (length (ptarray_bytes True p ?ks)) (tw_coords s) = s1" using True by (simp add: c(6) ptarray_bytes_def)
    have "image_pa pow10 gl 2 pa = pa_content (ptarray_construct_empty (hasz (flags h)) (hasm (flags h)) 1)"
      using True pa(2) by (simp add: image_pa_def Let_def pa_content_def ptarray_construct_empty_def same_zm_def zm_flags_def)
    moreover have "ready s1 (last (p # ?ks))" using r True by (simp add: c(6))
    ultimately show ?thesis using c hd True pa(2)
      by (intro exI [of _ "tw_coords s"]) (simp add: c0 leaf_reader_def lwline_from_twkb_state_def headed_def
          lwline_construct_empty_def empty_head_def head_content_def image_head_def zm_flags_def ptarray_bytes_def)
  next
    case False
    with hd pa(2) read_array_content [OF pa(2) refl, where m = 2 and ?pow10.0 = pow10 and gl = gl] c(1,4,5)
    show ?thesis
      by (intro exI [of _ c]) (simp add: leaf_reader_def lwline_from_twkb_state_def headed_def
          lwline_construct_def bbox_head_def head_content_def image_head_def read_array_def zm_flags_def same_zm_def)
  qed
qed

text \<open>Rings, one after the other.\<close>

fun rings_bytes :: "u64 list \<Rightarrow> u64 list list list \<Rightarrow> byte list" where
  "rings_bytes p [] = []"
| "rings_bytes p (ks # kss) = ptarray_bytes True p ks @ rings_bytes (last (p # ks)) kss"

fun rings_last :: "u64 list \<Rightarrow> u64 list list list \<Rightarrow> u64 list" where
  "rings_last p [] = p"
| "rings_last p (ks # kss) = rings_last (last (p # ks)) kss"

definition ring_ok :: "(int \<Rightarrow> double) \<Rightarrow> twkb_globals \<Rightarrow> u16 \<Rightarrow> pointarray \<Rightarrow> bool" where
  "ring_ok pow10 gl f pa \<longleftrightarrow> pa_wf pa \<and> same_zm f (pflags pa) \<and> pa_fits pow10 gl pa \<and> 0 < npoints pa \<and> ptarray_is_closed_2d pa"

lemma rings_bytes_length: "length kss \<le> length (rings_bytes p kss)"
proof (induction kss arbitrary: p)
  case (Cons ks kss)
  have "1 \<le> length (ptarray_bytes True p ks)" using encode_nonempty(1) by (simp add: ptarray_bytes_def le_Suc_eq trans_le_add1)
  with Cons [of "last (p # ks)"] show ?case by simp
qed simp

abbreviation ring_read :: "(int \<Rightarrow> double) \<Rightarrow> twkb_globals \<Rightarrow> u16 \<Rightarrow> nat \<Rightarrow> pointarray \<Rightarrow> pointarray" where
  "ring_read pow10 gl f m pa \<equiv>
     read_array (hasz f) (hasm f) (read_factors pow10 gl (hasz f) (hasm f)) (kept m (quant_rows pow10 gl pa))"

lemma twkb_rings_read:
  "tw_input s = rings_bytes p (map (\<lambda>pa. kept m (quant_rows pow10 gl pa)) rs) @ rest \<Longrightarrow> ready s p \<Longrightarrow> headed pow10 gl f s \<Longrightarrow>
   list_all (ring_ok pow10 gl f) rs \<Longrightarrow> length acc + length rs < 2 ^ 31 \<Longrightarrow>
   \<exists>c mr'. rings_from_twkb_state (length rs) (LWPOLY h mr acc) s =
      Inr (LWPOLY h mr' (acc @ map (ring_read pow10 gl f m) rs),
        tw_at s (length (rings_bytes p (map (\<lambda>pa. kept m (quant_rows pow10 gl pa)) rs))) c) \<and>
     ready (tw_at s (length (rings_bytes p (map (\<lambda>pa. kept m (quant_rows pow10 gl pa)) rs))) c)
       (rings_last p (map (\<lambda>pa. kept m (quant_rows pow10 gl pa)) rs))"
proof (induction rs arbitrary: s p acc mr)
  case Nil
  then show ?case by (intro exI [of _ "tw_coords s"]) simp
next
  case (Cons pa rs)
  let ?ks = "kept m (quant_rows pow10 gl pa)"
  let ?more = "rings_bytes (last (p # ?ks)) (map (\<lambda>pa. kept m (quant_rows pow10 gl pa)) rs)"
  have pa: "pa_wf pa" "same_zm f (pflags pa)" "pa_fits pow10 gl pa" "0 < npoints pa" "ptarray_is_closed_2d pa"
    using Cons.prems(4) by (simp_all add: ring_ok_def)
  have n: "npoints pa < 2 ^ 31" using pa(3) by (simp add: pa_fits_def)
  have i: "tw_input s = ptarray_bytes True p ?ks @ ?more @ rest" using Cons.prems(1) by simp
  have "\<forall>k \<in> set ?ks. fits k \<and> length k = tw_ndims s"
    using quant_row_length [OF pa(1)] kept_fits [OF pa(3)] headed_ndims [OF Cons.prems(3)] same_zm_ndims [OF pa(2)] by simp
  moreover have "length ?ks < 2 ^ 31" using kept_few [of m pow10 gl pa] n by simp
  ultimately obtain c s1 where
    c: "twkb_parse_state_uvarint32 s = Inr (length ?ks, s1)"
      "ptarray_from_twkb_state s1 (length ?ks) = Inr (read_array (tw_has_z s) (tw_has_m s) (twkb_factors s) ?ks,
        tw_at s (length (ptarray_bytes True p ?ks)) c)"
      "ready (tw_at s (length (ptarray_bytes True p ?ks)) c) (last (p # ?ks))"
    using uvarint32_ptarray_read [OF i Cons.prems(2)] by blast
  let ?s = "tw_at s (length (ptarray_bytes True p ?ks)) c"
  have q: "read_array (tw_has_z s) (tw_has_m s) (twkb_factors s) ?ks = ring_read pow10 gl f m pa"
    using Cons.prems(3) by (simp add: headed_def)
  have closed: "ptarray_is_closed_2d (ring_read pow10 gl f m pa)" by (rule ring_read_closed [OF pa(1,4) n pa(5,2) refl])
  have chk: "\<not> has_bits (tw_check s) LW_PARSER_CHECK_MINPOINTS" using Cons.prems(3) by (simp add: headed_def)
  from lwpoly_add_ring_ok [of acc h mr "ring_read pow10 gl f m pa"] Cons.prems(5) obtain mr1 where
    add: "lwpoly_add_ring (LWPOLY h mr acc) (ring_read pow10 gl f m pa) = Inr (LWPOLY h mr1 (acc @ [ring_read pow10 gl f m pa]))"
    by auto
  have i2: "tw_input ?s = ?more @ rest" using tw_input_after [OF i] by simp
  have "list_all (ring_ok pow10 gl f) rs" "length (acc @ [ring_read pow10 gl f m pa]) + length rs < 2 ^ 31" "headed pow10 gl f ?s"
    using Cons.prems by simp_all
  from Cons.IH [OF i2 c(3) this(3,1,2), of mr1] obtain c2 mr2 where
    r: "rings_from_twkb_state (length rs) (LWPOLY h mr1 (acc @ [ring_read pow10 gl f m pa])) ?s =
      Inr (LWPOLY h mr2 ((acc @ [ring_read pow10 gl f m pa]) @ map (ring_read pow10 gl f m) rs), tw_at ?s (length ?more) c2)"
      "ready (tw_at ?s (length ?more) c2) (rings_last (last (p # ?ks)) (map (\<lambda>pa. kept m (quant_rows pow10 gl pa)) rs))"
    by blast
  have "rings_from_twkb_state (length (pa # rs)) (LWPOLY h mr acc) s =
      Inr (LWPOLY h mr2 (acc @ map (ring_read pow10 gl f m) (pa # rs)), tw_at s (length (ptarray_bytes True p ?ks) + length ?more) c2)"
    using c(1,2) closed chk add r(1) by (simp add: q add.assoc)
  with r(2) show ?case by (intro exI [of _ c2] exI [of _ mr2]) (simp add: add.assoc)
qed

lemma twkb_poly_read:
  assumes i: "tw_input s = (varint_u64_encode_buf (of_nat (length rs)) @
        rings_bytes p (map (\<lambda>pa. kept m (quant_rows pow10 gl pa)) rs)) @ rest"
    and s: "ready s p" "headed pow10 gl f s" and rs: "list_all (ring_ok pow10 gl f) rs" "length rs < 2 ^ 31"
  shows "\<exists>c g'. lwpoly_from_twkb_state s = Inr (g', tw_at s (length (varint_u64_encode_buf (of_nat (length rs)) @
        rings_bytes p (map (\<lambda>pa. kept m (quant_rows pow10 gl pa)) rs))) c) \<and>
      lwgeom_content g' = LWPOLY \<lparr>bbox = None, srid = SRID_UNKNOWN, flags = zm_flags f\<rparr> 0 (map (image_pa pow10 gl m) rs) \<and>
      ready (tw_at s (length (varint_u64_encode_buf (of_nat (length rs)) @
        rings_bytes p (map (\<lambda>pa. kept m (quant_rows pow10 gl pa)) rs))) c)
        (rings_last p (map (\<lambda>pa. kept m (quant_rows pow10 gl pa)) rs))"
proof -
  let ?e = "varint_u64_encode_buf (of_nat (length rs))" and ?r = "rings_bytes p (map (\<lambda>pa. kept m (quant_rows pow10 gl pa)) rs)"
  let ?s = "s\<lparr>tw_pos := tw_pos s + length ?e\<rparr>"
  have i1: "tw_input s = ?e @ ?r @ rest" using i by simp
  have u: "twkb_parse_state_uvarint32 s = Inr (length rs, ?s)" by (rule uvarint32_read [OF i1]) (use rs(2) in simp)
  have i2: "tw_input ?s = ?r @ rest" using tw_input_after [OF i1, of "tw_coords s"] by simp
  have "length rs \<le> length (twkb ?s) - tw_pos ?s"
    using tw_input_length [OF i2] rings_bytes_length [of "map (\<lambda>pa. kept m (quant_rows pow10 gl pa)) rs" p] by simp
  then have mb: "twkb_parse_state_has_min_bytes ?s (length rs) 1 = Inr ()"
    by (simp add: twkb_parse_state_has_min_bytes_def require_def)
  let ?h = "empty_head SRID_UNKNOWN (hasz f) (hasm f)"
  from twkb_rings_read [OF i2 _ _ rs(1), of "[]" ?h 1] s rs(2) obtain c mr where
    r: "rings_from_twkb_state (length rs) (LWPOLY ?h 1 []) ?s = Inr (LWPOLY ?h mr (map (ring_read pow10 gl f m) rs), tw_at ?s (length ?r) c)"
      "ready (tw_at ?s (length ?r) c) (rings_last p (map (\<lambda>pa. kept m (quant_rows pow10 gl pa)) rs))" by auto
  have e: "lwpoly_construct_empty SRID_UNKNOWN (tw_has_z ?s) (tw_has_m ?s) = LWPOLY ?h 1 []"
    using s(2) by (simp add: lwpoly_construct_empty_def headed_def)
  have "map pa_content (map (ring_read pow10 gl f m) rs) = map (image_pa pow10 gl m) rs"
    using rs(1) read_array_content [OF _ refl, where f = f] by (simp add: ring_ok_def list_all_iff)
  then have cont: "lwgeom_content (LWPOLY ?h mr (map (ring_read pow10 gl f m) rs)) =
      LWPOLY \<lparr>bbox = None, srid = SRID_UNKNOWN, flags = zm_flags f\<rparr> 0 (map (image_pa pow10 gl m) rs)"
    by (simp add: head_content_def empty_head_def zm_flags_def)
  have "lwpoly_from_twkb_state s = Inr (LWPOLY ?h mr (map (ring_read pow10 gl f m) rs), tw_at ?s (length ?r) c)"
  proof (cases "rs = []")
    case True
    with r(1) s(2) u e show ?thesis by (simp add: lwpoly_from_twkb_state_def headed_def Let_def)
  next
    case False
    with r(1) s(2) u mb e show ?thesis by (simp add: lwpoly_from_twkb_state_def headed_def Let_def)
  qed
  with r(2) cont show ?thesis by (intro exI [of _ c] exI [of _ "LWPOLY ?h mr (map (ring_read pow10 gl f m) rs)"]) (simp add: add.assoc)
qed

lemma poly_reads:
  assumes "list_all (ring_ok pow10 gl (flags h)) rs" "length rs < 2 ^ 31"
  shows "leaf_reads pow10 gl (LWPOLY h mr rs) p (varint_u64_encode_buf (of_nat (length rs)) @
      rings_bytes p (map (\<lambda>pa. kept 4 (quant_rows pow10 gl pa)) rs)) (rings_last p (map (\<lambda>pa. kept 4 (quant_rows pow10 gl pa)) rs))"
  using twkb_poly_read [OF _ _ _ assms, where m = 4] by (simp add: leaf_reads_def leaf_reader_def image_head_def)

lemma triangle_reads:
  assumes "ring_ok pow10 gl (flags h) pa"
  shows "leaf_reads pow10 gl (LWTRIANGLE h pa) p (varint_u64_encode_buf 1 @ ptarray_bytes True p (kept 2 (quant_rows pow10 gl pa)))
    (last (p # kept 2 (quant_rows pow10 gl pa)))"
proof -
  have "npoints pa \<noteq> 0" using assms by (simp add: ring_ok_def)
  with twkb_poly_read [of _ "[pa]" p 2 pow10 gl _ "flags h"] assms show ?thesis
    by (simp add: leaf_reads_def leaf_reader_def image_head_def)
qed

lemma twkb_rings_written:
  "list_all (ring_ok pow10 gl f) rs \<Longrightarrow> tuned pow10 gl f \<Longrightarrow> relative (FLAGS_NDIMS f) p ts \<Longrightarrow> fits p \<Longrightarrow>
   holds (ts_geom_buf ts) bs \<Longrightarrow> length bs + sum_list (map (\<lambda>pa. 40 * npoints pa + 50) rs) < 2 ^ 62 \<Longrightarrow>
   \<exists>ts'. rings_to_twkb_buf rs gl ts = Inr ts' \<and>
     holds (ts_geom_buf ts') (bs @ rings_bytes p (map (\<lambda>pa. kept 4 (quant_rows pow10 gl pa)) rs)) \<and>
     relative (FLAGS_NDIMS f) (rings_last p (map (\<lambda>pa. kept 4 (quant_rows pow10 gl pa)) rs)) ts' \<and> moved ts ts' \<and>
     fits (rings_last p (map (\<lambda>pa. kept 4 (quant_rows pow10 gl pa)) rs)) \<and>
     length (rings_bytes p (map (\<lambda>pa. kept 4 (quant_rows pow10 gl pa)) rs)) \<le> sum_list (map (\<lambda>pa. 40 * npoints pa + 10) rs)"
proof (induction rs arbitrary: p ts bs)
  case (Cons pa rs)
  let ?ks = "kept 4 (quant_rows pow10 gl pa)"
  have pa: "pa_wf pa" "same_zm f (pflags pa)" "pa_fits pow10 gl pa" using Cons.prems(1) by (simp_all add: ring_ok_def)
  note zm = tuned_zm [OF pa(2), of pow10 gl] same_zm_ndims [OF pa(2)]
  have "length bs + (40 * npoints pa + 50) < 2 ^ 62" using Cons.prems(6) by simp
  from array_written [OF pa(1,3) _ _ Cons.prems(4,5) this, where reg = True and m = 4] Cons.prems(2,3) zm obtain ts1 where
    1: "ptarray_to_twkb_buf pa gl ts True 4 = Inr ts1" "holds (ts_geom_buf ts1) (bs @ ptarray_bytes True p ?ks)"
      "relative (FLAGS_NDIMS f) (last (p # ?ks)) ts1" "moved ts ts1" "fits (last (p # ?ks))"
      "length (ptarray_bytes True p ?ks) \<le> 40 * npoints pa + 10" by auto
  have "list_all (ring_ok pow10 gl f) rs" using Cons.prems(1) by simp
  from Cons.IH [OF this Cons.prems(2) 1(3,5,2)] Cons.prems(6) 1(6)
  show ?case using 1(1,6) moved_trans [OF 1(4)] by auto
qed simp

lemma leaf_written:
  assumes g: "lwgeom_wf g" "twkb_ok pow10 gl g" "\<not> lwtype_is_collection (lwgeom_get_type g)"
    and pt: "lwgeom_get_type g \<in> {POINTTYPE, TRIANGLETYPE} \<Longrightarrow> \<not> lwgeom_is_empty g"
    and gl: "tuned pow10 gl (lwgeom_flags g)" and st: "relative (FLAGS_NDIMS (lwgeom_flags g)) p ts" "fits p"
    and b: "holds (ts_geom_buf ts) bs" "length bs + twkb_cost g < 2 ^ 62"
  shows "\<exists>ts' xs q. lwgeom_to_twkb_buf pow10 g gl ts = Inr (gl, ts') \<and> holds (ts_geom_buf ts') (bs @ xs) \<and>
    1 \<le> length xs \<and> length xs \<le> twkb_cost g \<and>
    (lwgeom_get_type g = POINTTYPE \<longrightarrow> FLAGS_NDIMS (lwgeom_flags g) \<le> length xs) \<and>
    relative (FLAGS_NDIMS (lwgeom_flags g)) q ts' \<and> fits q \<and> moved ts ts' \<and> leaf_reads pow10 gl g p xs q"
proof (cases g)
  case (LWPOINT h pa)
  have pa: "pa_wf pa" "same_zm (flags h) (pflags pa)" "pa_fits pow10 gl pa" "npoints pa = 1"
    using g(1,2) pt by (simp_all add: LWPOINT)
  note zm = tuned_zm [OF pa(2), of pow10 gl] same_zm_ndims [OF pa(2)]
  let ?ks = "kept 1 (quant_rows pow10 gl pa)"
  have lp: "length p = FLAGS_NDIMS (flags h)" using st(1) by (auto simp: relative_def LWPOINT FLAGS_NDIMS_def)
  have "quant_rows pow10 gl pa \<noteq> []" using pa(4) by (simp add: quant_rows_def)
  then have one: "length ?ks = 1"
    using kept_few [of 1 pow10 gl pa] pa(4) kept_ends [of "quant_rows pow10 gl pa" 1] by (cases ?ks) auto
  then have lo: "FLAGS_NDIMS (flags h) \<le> length (ptarray_bytes False p ?ks)"
    using delta_at_least [of ?ks "FLAGS_NDIMS (flags h)" p] quant_row_length [OF pa(1)] zm(2) lp by (simp add: ptarray_bytes_def)
  have "1 \<le> FLAGS_NDIMS (flags h)" by (simp add: FLAGS_NDIMS_def)
  with lo have l1: "1 \<le> length (ptarray_bytes False p ?ks)" by (rule le_trans [rotated])
  from array_written [OF pa(1,3) _ _ st(2) b(1), where reg = False and m = 1] gl st(1) b(2) zm obtain ts' where
    "ptarray_to_twkb_buf pa gl ts False 1 = Inr ts'" "holds (ts_geom_buf ts') (bs @ ptarray_bytes False p ?ks)"
    "relative (FLAGS_NDIMS (flags h)) (last (p # ?ks)) ts'" "moved ts ts'" "fits (last (p # ?ks))"
    "length (ptarray_bytes False p ?ks) \<le> 40 * npoints pa + 10" by (auto simp: LWPOINT)
  with point_reads [OF _ _ pa(4), of h pow10 gl p] g(1,2) lo l1 show ?thesis
    by (intro exI [of _ ts'] exI [of _ "ptarray_bytes False p ?ks"] exI [of _ "last (p # ?ks)"])
      (simp add: LWPOINT lwpoint_to_twkb_buf_def)
next
  case (LWLINE h pa)
  have pa: "pa_wf pa" "same_zm (flags h) (pflags pa)" "pa_fits pow10 gl pa" using g(1,2) by (simp_all add: LWLINE)
  note zm = tuned_zm [OF pa(2), of pow10 gl] same_zm_ndims [OF pa(2)]
  let ?ks = "kept 2 (quant_rows pow10 gl pa)"
  have lo: "1 \<le> length (ptarray_bytes True p ?ks)" using encode_nonempty(1) by (simp add: ptarray_bytes_def trans_le_add1)
  from array_written [OF pa(1,3) _ _ st(2) b(1), where reg = True and m = 2] gl st(1) b(2) zm obtain ts' where
    "ptarray_to_twkb_buf pa gl ts True 2 = Inr ts'" "holds (ts_geom_buf ts') (bs @ ptarray_bytes True p ?ks)"
    "relative (FLAGS_NDIMS (flags h)) (last (p # ?ks)) ts'" "moved ts ts'" "fits (last (p # ?ks))"
    "length (ptarray_bytes True p ?ks) \<le> 40 * npoints pa + 10" by (auto simp: LWLINE)
  with line_reads [of h pa pow10 gl p] g(1,2) lo show ?thesis
    by (intro exI [of _ ts'] exI [of _ "ptarray_bytes True p ?ks"] exI [of _ "last (p # ?ks)"])
      (simp add: LWLINE lwline_to_twkb_buf_def)
next
  case (LWTRIANGLE h pa)
  have pa: "pa_wf pa" "same_zm (flags h) (pflags pa)" "pa_fits pow10 gl pa" "0 < npoints pa" "ptarray_is_closed_2d pa"
    using g(1,2) pt by (auto simp: LWTRIANGLE)
  then have rk: "ring_ok pow10 gl (flags h) pa" by (simp add: ring_ok_def)
  note zm = tuned_zm [OF pa(2), of pow10 gl] same_zm_ndims [OF pa(2)]
  let ?ks = "kept 2 (quant_rows pow10 gl pa)"
  have e: "length (varint_u64_encode_buf 1) \<le> 10" "1 \<le> length (varint_u64_encode_buf 1)" by (rule encode_length, rule encode_nonempty)
  have "length bs + length (varint_u64_encode_buf 1) < 2 ^ 62" using b(2) e(1) by (simp add: LWTRIANGLE)
  from append_uvarint_holds [OF b(1) this] obtain b1 where
    b1: "bytebuffer_append_uvarint (ts_geom_buf ts) 1 = Inr b1" "holds b1 (bs @ varint_u64_encode_buf 1)" by blast
  have b2: "holds (ts_geom_buf (ts\<lparr>ts_geom_buf := b1\<rparr>)) (bs @ varint_u64_encode_buf 1)" using b1(2) by simp
  from array_written [OF pa(1,3) _ _ st(2) b2, where reg = True and m = 2] gl st(1) b(2) e(1) zm obtain ts' where
    "ptarray_to_twkb_buf pa gl (ts\<lparr>ts_geom_buf := b1\<rparr>) True 2 = Inr ts'"
    "holds (ts_geom_buf ts') ((bs @ varint_u64_encode_buf 1) @ ptarray_bytes True p ?ks)"
    "relative (FLAGS_NDIMS (flags h)) (last (p # ?ks)) ts'" "moved ts ts'" "fits (last (p # ?ks))"
    "length (ptarray_bytes True p ?ks) \<le> 40 * npoints pa + 10" by (auto simp: LWTRIANGLE)
  with triangle_reads [OF rk, of p] b1(1) e show ?thesis
    by (intro exI [of _ ts'] exI [of _ "varint_u64_encode_buf 1 @ ptarray_bytes True p ?ks"] exI [of _ "last (p # ?ks)"])
      (simp add: LWTRIANGLE lwtriangle_to_twkb_buf_def trans_le_add1)
next
  case (LWPOLY h mr rs)
  have rk: "list_all (ring_ok pow10 gl (flags h)) rs" "length rs < 2 ^ 31"
    using g(1,2) by (auto simp: LWPOLY list_all_iff ring_ok_def)
  let ?n = "varint_u64_encode_buf (of_nat (length rs))" and ?kss = "map (\<lambda>pa. kept 4 (quant_rows pow10 gl pa)) rs"
  have e: "length ?n \<le> 10" "1 \<le> length ?n" by (rule encode_length, rule encode_nonempty)
  have "length bs + length ?n < 2 ^ 62" using b(2) e(1) by (simp add: LWPOLY)
  from append_uvarint_holds [OF b(1) this] obtain b1 where
    b1: "bytebuffer_append_uvarint (ts_geom_buf ts) (of_nat (length rs)) = Inr b1" "holds b1 (bs @ ?n)" by blast
  have b2: "holds (ts_geom_buf (ts\<lparr>ts_geom_buf := b1\<rparr>)) (bs @ ?n)" using b1(2) by simp
  have rel: "relative (FLAGS_NDIMS (flags h)) p (ts\<lparr>ts_geom_buf := b1\<rparr>)" using st(1) by (simp add: LWPOLY)
  have tn: "tuned pow10 gl (flags h)" using gl by (simp add: LWPOLY)
  have "length (bs @ ?n) + sum_list (map (\<lambda>pa. 40 * npoints pa + 50) rs) < 2 ^ 62" using b(2) e(1) by (simp add: LWPOLY)
  from twkb_rings_written [OF rk(1) tn rel st(2) b2 this] obtain ts' where
    w: "rings_to_twkb_buf rs gl (ts\<lparr>ts_geom_buf := b1\<rparr>) = Inr ts'" "holds (ts_geom_buf ts') ((bs @ ?n) @ rings_bytes p ?kss)"
    "relative (FLAGS_NDIMS (flags h)) (rings_last p ?kss) ts'" "moved ts ts'" "fits (rings_last p ?kss)"
    "length (rings_bytes p ?kss) \<le> sum_list (map (\<lambda>pa. 40 * npoints pa + 10) rs)" by auto
  have "sum_list (map (\<lambda>pa. 40 * npoints pa + 10) rs) \<le> sum_list (map (\<lambda>pa. 40 * npoints pa + 50) rs)"
    by (rule sum_list_mono) simp
  with w poly_reads [OF rk, of mr p] b1(1) e show ?thesis
    by (intro exI [of _ ts'] exI [of _ "?n @ rings_bytes p ?kss"] exI [of _ "rings_last p ?kss"])
      (simp add: LWPOLY lwpoly_to_twkb_buf_def trans_le_add1)
next
  case (LWCIRCSTRING h pa)
  with g(2) show ?thesis by simp
next
  case (LWNURBSCURVE h d pa w k)
  with g(2) show ?thesis by simp
next
  case (LWCOLLECTION t h mg al gs)
  with g(1,3) show ?thesis by simp
qed

end
