(* ===== verification/TWKBHeader.thy ===== *)
theory TWKBHeader
  imports TWKBRoundTrip
begin

text \<open>
  The header of a Tiny WKB geometry: what the writer puts into its bits and bytes, with the optional
  size and box, is what the reader takes out of them.
\<close>

section \<open>Bits\<close>

lemma byte_flag_bits:
  "bit (byte_flag 0x10 e (byte_flag 0x08 d (byte_flag 0x04 c (byte_flag 0x02 b (byte_flag 0x01 a 0))))) 0 = a"
  "bit (byte_flag 0x10 e (byte_flag 0x08 d (byte_flag 0x04 c (byte_flag 0x02 b (byte_flag 0x01 a 0))))) 1 = b"
  "bit (byte_flag 0x10 e (byte_flag 0x08 d (byte_flag 0x04 c (byte_flag 0x02 b (byte_flag 0x01 a 0))))) 2 = c"
  "bit (byte_flag 0x10 e (byte_flag 0x08 d (byte_flag 0x04 c (byte_flag 0x02 b (byte_flag 0x01 a 0))))) 3 = d"
  "bit (byte_flag 0x10 e (byte_flag 0x08 d (byte_flag 0x04 c (byte_flag 0x02 b (byte_flag 0x01 a 0))))) 4 = e"
  by (cases a; cases b; cases c; cases d; cases e; simp add: byte_flag_def)+

lemma metadata_bits:
  "bit (metadata_byte v ids x e) 0 \<longleftrightarrow> has_bits v TWKB_BBOX \<and> \<not> e"
  "bit (metadata_byte v ids x e) (Suc 0) \<longleftrightarrow> has_bits v TWKB_SIZE"
  "bit (metadata_byte v ids x e) 2 \<longleftrightarrow> ids \<and> \<not> e"
  "bit (metadata_byte v ids x e) 3 \<longleftrightarrow> x"
  "bit (metadata_byte v ids x e) 4 \<longleftrightarrow> e"
  using byte_flag_bits by (simp_all add: metadata_byte_def)

definition small_precisions :: "byte list" where
  "small_precisions = map word_of_int [-7..7]"

lemma small_precision: "\<bar>sint p\<bar> \<le> 7 \<Longrightarrow> (p :: byte) \<in> set small_precisions"
proof -
  assume "\<bar>sint p\<bar> \<le> 7"
  then have "sint p \<in> set [-7..7]" by auto
  then have "word_of_int (sint p) \<in> set small_precisions" unfolding small_precisions_def set_map by (rule imageI)
  then show ?thesis by simp
qed

lemma type_precision_all:
  "list_all (\<lambda>p. list_all (\<lambda>t. type_precision_byte t p AND 0x0F = t \<and> unzigzag8 (drop_bit 4 (type_precision_byte t p AND 0xF0)) = p)
     [1, 2, 3, 4, 5, 6, 7]) small_precisions"
  by code_simp

lemma extended_all:
  "list_all (\<lambda>z. list_all (\<lambda>m. list_all (\<lambda>a. list_all (\<lambda>b.
     bit (extended_byte z m a b) 0 = z \<and> bit (extended_byte z m a b) 1 = m \<and>
     drop_bit 2 (extended_byte z m a b AND 0x1C) = a \<and> drop_bit 5 (extended_byte z m a b AND 0xE0) = b)
     [0, 1, 2, 3, 4, 5, 6, 7]) [0, 1, 2, 3, 4, 5, 6, 7]) [False, True]) [False, True]"
  by code_simp

lemma type_precision_read:
  assumes "\<bar>sint p\<bar> \<le> 7" "lwgeom_twkb_type t = Inr n"
  shows "type_precision_byte n p AND 0x0F = n" "unzigzag8 (drop_bit 4 (type_precision_byte n p AND 0xF0)) = p"
proof -
  have "n \<in> set [1, 2, 3, 4, 5, 6, 7]" using assms(2) by (auto simp: lwgeom_twkb_type_def split: if_splits)
  with small_precision [OF assms(1)] type_precision_all
  show "type_precision_byte n p AND 0x0F = n" "unzigzag8 (drop_bit 4 (type_precision_byte n p AND 0xF0)) = p"
    by (simp_all only: list_all_iff)
qed

lemma extended_and_7: "extended_byte z m (a AND 7) (b AND 7) = extended_byte z m a b"
  by (simp add: extended_byte_def and.assoc)

lemma and_7_small: "(a :: byte) AND 7 \<in> set [0, 1, 2, 3, 4, 5, 6, 7]"
proof -
  have "a AND 7 \<le> 7" by (rule word_and_le1)
  then have "unat (a AND 7) \<le> 7" by (simp add: word_le_nat_alt)
  then have "unat (a AND 7) \<in> {0 :: nat, 1, 2, 3, 4, 5, 6, 7}" by auto
  then have "(of_nat (unat (a AND 7)) :: byte) \<in> of_nat ` {0 :: nat, 1, 2, 3, 4, 5, 6, 7}" by (rule imageI)
  then show ?thesis by simp
qed

lemma extended_read:
  "bit (extended_byte z m a b) 0 = z" "bit (extended_byte z m a b) (Suc 0) = m"
  "drop_bit 2 (extended_byte z m a b AND 0x1C) = a AND 7" "drop_bit 5 (extended_byte z m a b AND 0xE0) = b AND 7"
proof -
  have "z \<in> set [False, True]" "m \<in> set [False, True]" by auto
  with extended_all and_7_small [of a] and_7_small [of b]
  have "bit (extended_byte z m (a AND 7) (b AND 7)) 0 = z \<and> bit (extended_byte z m (a AND 7) (b AND 7)) 1 = m \<and>
     drop_bit 2 (extended_byte z m (a AND 7) (b AND 7) AND 0x1C) = a AND 7 \<and>
     drop_bit 5 (extended_byte z m (a AND 7) (b AND 7) AND 0xE0) = b AND 7"
    by (simp only: list_all_iff)
  then show "bit (extended_byte z m a b) 0 = z" "bit (extended_byte z m a b) (Suc 0) = m"
    "drop_bit 2 (extended_byte z m a b AND 0x1C) = a AND 7" "drop_bit 5 (extended_byte z m a b AND 0xE0) = b AND 7"
    by (simp_all add: extended_and_7)
qed

lemma extended_read_mask: "drop_bit 2 (extended_byte z m a b) AND 7 = a AND 7" "drop_bit 5 (extended_byte z m a b) AND 7 = b AND 7"
  using extended_read(3,4) [of z m a b] by simp_all

lemma uint_and_7:
  assumes "0 \<le> sint a" "sint a \<le> 7"
  shows "uint ((a :: byte) AND 7) = sint a"
proof -
  have u: "uint a = sint a" using assms sint_lt [of a] by (simp add: uint_sint take_bit_int_eq_self)
  have "a AND 7 = take_bit 3 a" by (simp add: take_bit_eq_mask mask_eq_exp_minus_1)
  then have "uint (a AND 7) = take_bit 3 (uint a)" by (simp add: unsigned_take_bit_eq)
  then show ?thesis using assms by (simp add: u take_bit_int_eq_self)
qed

section \<open>Writing the header\<close>

definition precs_ok :: "twkb_globals \<Rightarrow> bool" where
  "precs_ok gl \<longleftrightarrow> \<bar>sint (tg_prec_xy gl)\<bar> \<le> 7 \<and> 0 \<le> sint (tg_prec_z gl) \<and> sint (tg_prec_z gl) \<le> 7 \<and>
     0 \<le> sint (tg_prec_m gl) \<and> sint (tg_prec_m gl) \<le> 7"

definition header_bytes :: "twkb_globals \<Rightarrow> byte \<Rightarrow> u16 \<Rightarrow> bool \<Rightarrow> bool \<Rightarrow> byte list" where
  "header_bytes gl n f ids e =
     [type_precision_byte n (tg_prec_xy gl), metadata_byte (tg_variant gl) ids (hasz f \<or> hasm f) e] @
     (if hasz f \<or> hasm f then [extended_byte (hasz f) (hasm f) (tg_prec_z gl) (tg_prec_m gl)] else [])"

lemma header_written:
  assumes "precs_ok gl" "lwgeom_twkb_type (lwgeom_get_type g) = Inr n"
  shows "\<exists>hb. header_to_buf gl g ids = Inr hb \<and> holds hb (header_bytes gl n (lwgeom_flags g) ids (lwgeom_is_empty g))"
proof -
  let ?f = "lwgeom_flags g" and ?t = "type_precision_byte n (tg_prec_xy gl)"
  let ?m = "metadata_byte (tg_variant gl) ids (hasz ?f \<or> hasm ?f) (lwgeom_is_empty g)"
  have "holds (bytebuffer_init_with_size 16) []" by (rule init_holds) simp
  from append_byte_holds [OF this, of ?t] obtain b1 where
    1: "bytebuffer_append_byte (bytebuffer_init_with_size 16) ?t = Inr b1" "holds b1 [?t]" by auto
  from append_byte_holds [OF 1(2), of ?m] obtain b2 where 2: "bytebuffer_append_byte b1 ?m = Inr b2" "holds b2 [?t, ?m]" by auto
  from append_byte_holds [OF 2(2), of "extended_byte (hasz ?f) (hasm ?f) (tg_prec_z gl) (tg_prec_m gl)"] obtain b3 where
    3: "bytebuffer_append_byte b2 (extended_byte (hasz ?f) (hasm ?f) (tg_prec_z gl) (tg_prec_m gl)) = Inr b3"
      "holds b3 [?t, ?m, extended_byte (hasz ?f) (hasm ?f) (tg_prec_z gl) (tg_prec_m gl)]" by auto
  show ?thesis
    using assms 1(1) 2 3 by (cases "hasz ?f \<or> hasm ?f")
      (auto simp: header_to_buf_def Let_def precs_ok_def header_bytes_def require_def not_less)
qed

section \<open>Reading it\<close>

lemma tbyte_read:
  assumes "tw_input s = b # rest"
  shows "byte_from_twkb_state s = Inr (b, s\<lparr>tw_pos := tw_pos s + 1\<rparr>)" "tw_input (s\<lparr>tw_pos := tw_pos s + 1\<rparr>) = rest"
proof -
  have i: "tw_input s = [b] @ rest" using assms by simp
  show "tw_input (s\<lparr>tw_pos := tw_pos s + 1\<rparr>) = rest" using tw_input_after [OF i, of "tw_coords s"] by simp
  have "1 \<le> length (twkb s) - tw_pos s" using tw_input_length [OF i] by simp
  moreover have "take 1 (drop (tw_pos s) (twkb s)) = [b]" using assms by (simp add: tw_input_def)
  ultimately show "byte_from_twkb_state s = Inr (b, s\<lparr>tw_pos := tw_pos s + 1\<rparr>)"
    using advance_read [OF i] by (simp add: byte_from_twkb_state_def mem_at_def)
qed

definition same_run :: "twkb_parse_state \<Rightarrow> nat \<Rightarrow> twkb_parse_state \<Rightarrow> bool" where
  "same_run s n s' \<longleftrightarrow> twkb s' = twkb s \<and> tw_pos s' = tw_pos s + n \<and> tw_depth s' = tw_depth s \<and> tw_check s' = tw_check s"

lemma same_run_trans: "same_run s n s' \<Longrightarrow> same_run s' k s'' \<Longrightarrow> same_run s (n + k) s''"
  by (simp add: same_run_def)

lemma same_run_at [simp]: "same_run s n (tw_at s n c)" "same_run s n (s\<lparr>tw_pos := tw_pos s + n\<rparr>)"
  by (simp_all add: same_run_def)

lemma same_run_input: "same_run s (length bs) s' \<Longrightarrow> tw_input s = bs @ rest \<Longrightarrow> tw_input s' = rest"
  using tw_input_after [of s bs rest "tw_coords s"] by (simp add: same_run_def tw_input_def)

text \<open>The type number that is read for a type that is written.\<close>

definition read_type :: "nat \<Rightarrow> nat" where
  "read_type t = (if t = TRIANGLETYPE then POLYGONTYPE else if t = TINTYPE then COLLECTIONTYPE else t)"

lemma type_number_read: "lwgeom_twkb_type t = Inr n \<Longrightarrow> lwtype_from_twkb_type (unat n) = Inr (read_type t)"
  by (auto simp: lwgeom_twkb_type_def lwtype_from_twkb_type_def read_type_def split: if_splits)

definition size_bytes :: "twkb_globals \<Rightarrow> u64 \<Rightarrow> byte list" where
  "size_bytes gl n = (if has_bits (tg_variant gl) TWKB_SIZE then varint_u64_encode_buf n else [])"

lemma dims_read:
  assumes "tw_input s = (if hasz f \<or> hasm f then [extended_byte (hasz f) (hasm f) (tg_prec_z gl) (tg_prec_m gl)] else []) @ rest"
    and "precs_ok gl" "tw_factor s = pow10 (sint (tg_prec_xy gl))"
  shows "\<exists>s'. dims_from_twkb_state pow10 (hasz f \<or> hasm f) s = Inr s' \<and>
    same_run s (if hasz f \<or> hasm f then 1 else 0) s' \<and> tw_has_z s' = hasz f \<and> tw_has_m s' = hasm f \<and>
    twkb_factors s' = read_factors pow10 gl (hasz f) (hasm f) \<and> tw_lwtype s' = tw_lwtype s \<and>
    tw_has_bbox s' = tw_has_bbox s \<and> tw_has_size s' = tw_has_size s \<and> tw_has_idlist s' = tw_has_idlist s \<and> tw_is_empty s' = tw_is_empty s"
proof (cases "hasz f \<or> hasm f")
  case True
  with assms(1) have "tw_input s = extended_byte (hasz f) (hasm f) (tg_prec_z gl) (tg_prec_m gl) # rest" by simp
  from tbyte_read [OF this] True assms(2,3) show ?thesis
    by (auto simp: dims_from_twkb_state_def extended_read extended_read_mask uint_and_7 precs_ok_def same_run_def twkb_factors_def read_factors_def)
next
  case False
  with assms(3) show ?thesis
    by (simp add: dims_from_twkb_state_def same_run_def twkb_factors_def read_factors_def)
qed

lemma twkb_factors_size [simp]: "twkb_factors (s\<lparr>tw_size := n\<rparr>) = twkb_factors s" "twkb_factors (s\<lparr>tw_pos := p, tw_size := n\<rparr>) = twkb_factors s"
  by (simp_all add: twkb_factors_def)

lemma header_read:
  assumes i: "tw_input s = header_bytes gl n f ids e @ size_bytes gl k @ rest"
    and gl: "precs_ok gl" "lwgeom_twkb_type t = Inr n"
  shows "\<exists>s'. header_from_twkb_state pow10 s = Inr s' \<and> same_run s (length (header_bytes gl n f ids e @ size_bytes gl k)) s' \<and>
    tw_has_z s' = hasz f \<and> tw_has_m s' = hasm f \<and> twkb_factors s' = read_factors pow10 gl (hasz f) (hasm f) \<and> dims_set s' \<and>
    tw_lwtype s' = read_type t \<and> tw_is_empty s' = e \<and> tw_has_bbox s' = (has_bits (tg_variant gl) TWKB_BBOX \<and> \<not> e) \<and>
    tw_has_idlist s' = (ids \<and> \<not> e)"
proof -
  let ?x = "hasz f \<or> hasm f"
  let ?ext = "if ?x then [extended_byte (hasz f) (hasm f) (tg_prec_z gl) (tg_prec_m gl)] else []"
  let ?t = "type_precision_byte n (tg_prec_xy gl)" and ?m = "metadata_byte (tg_variant gl) ids ?x e"
  have i1: "tw_input s = ?t # ?m # ?ext @ size_bytes gl k @ rest" using i by (simp add: header_bytes_def)
  note r1 = tbyte_read [OF i1]
  note r2 = tbyte_read [OF r1(2)]
  let ?s2 = "s\<lparr>tw_pos := tw_pos s + 1\<rparr>\<lparr>tw_pos := tw_pos (s\<lparr>tw_pos := tw_pos s + 1\<rparr>) + 1\<rparr>"
  have pxy: "\<bar>sint (tg_prec_xy gl)\<bar> \<le> 7" using gl(1) by (simp add: precs_ok_def)
  note tp = type_precision_read [OF pxy gl(2)]
  have tpm: "unzigzag8 (drop_bit 4 ?t AND 15) = tg_prec_xy gl" using tp(2) by simp
  let ?s3 = "?s2\<lparr>tw_lwtype := read_type t, tw_factor := pow10 (sint (tg_prec_xy gl)), tw_has_bbox := bit ?m 0,
               tw_has_size := bit ?m 1, tw_has_idlist := bit ?m 2, tw_is_empty := bit ?m 4\<rparr>"
  have i3: "tw_input ?s3 = ?ext @ size_bytes gl k @ rest" using r2(2) by (simp add: tw_input_def)
  from dims_read [OF i3 gl(1), of pow10] obtain s4 where
    4: "dims_from_twkb_state pow10 ?x ?s3 = Inr s4" "same_run ?s3 (if ?x then 1 else 0) s4" "tw_has_z s4 = hasz f" "tw_has_m s4 = hasm f"
      "twkb_factors s4 = read_factors pow10 gl (hasz f) (hasm f)" "tw_lwtype s4 = read_type t" "tw_has_bbox s4 = bit ?m 0"
      "tw_has_size s4 = bit ?m 1" "tw_has_idlist s4 = bit ?m 2" "tw_is_empty s4 = bit ?m 4" by auto
  have "same_run s 2 ?s3" by (simp add: same_run_def)
  from same_run_trans [OF this 4(2)] have s4: "same_run s (length (header_bytes gl n f ids e)) s4"
    by (auto simp: header_bytes_def split: if_splits)
  have i4: "tw_input s4 = size_bytes gl k @ rest" by (rule same_run_input [OF s4 i])
  have sz: "\<exists>s5. (if tw_has_size s4 then bindS (twkb_parse_state_uvarint s4) (\<lambda>n s. Inr (s\<lparr>tw_size := n\<rparr>)) else Inr s4) = Inr s5 \<and>
      same_run s (length (header_bytes gl n f ids e @ size_bytes gl k)) s5 \<and> tw_has_z s5 = hasz f \<and> tw_has_m s5 = hasm f \<and>
      twkb_factors s5 = read_factors pow10 gl (hasz f) (hasm f) \<and> tw_lwtype s5 = read_type t \<and> tw_has_bbox s5 = bit ?m 0 \<and>
      tw_has_idlist s5 = bit ?m 2 \<and> tw_is_empty s5 = bit ?m 4"
  proof (cases "has_bits (tg_variant gl) TWKB_SIZE")
    case True
    then have "tw_input s4 = varint_u64_encode_buf k @ rest" using i4 by (simp add: size_bytes_def)
    from uvarint_read [OF this] True 4 s4 show ?thesis
      by (simp add: metadata_bits size_bytes_def same_run_def)
  next
    case False
    with 4 s4 show ?thesis by (simp add: metadata_bits size_bytes_def)
  qed
  then obtain s5 where s5: "(if tw_has_size s4 then bindS (twkb_parse_state_uvarint s4) (\<lambda>n s. Inr (s\<lparr>tw_size := n\<rparr>)) else Inr s4) = Inr s5"
      "same_run s (length (header_bytes gl n f ids e @ size_bytes gl k)) s5" "tw_has_z s5 = hasz f" "tw_has_m s5 = hasm f"
      "twkb_factors s5 = read_factors pow10 gl (hasz f) (hasm f)" "tw_lwtype s5 = read_type t" "tw_has_bbox s5 = bit ?m 0"
      "tw_has_idlist s5 = bit ?m 2" "tw_is_empty s5 = bit ?m 4" by blast
  have x: "bit ?m 3 = ?x" by (rule metadata_bits)
  have "header_from_twkb_state pow10 s = Inr (s5\<lparr>tw_ndims := 2 + of_bool (tw_has_z s5) + of_bool (tw_has_m s5)\<rparr>)"
    unfolding header_from_twkb_state_def Let_def
    using r1(1) r2(1) type_number_read [OF gl(2)] 4(1) s5(1) by (simp add: tp tpm x)
  moreover have "twkb_factors (s5\<lparr>tw_ndims := k\<rparr>) = twkb_factors s5" for k by (simp add: twkb_factors_def)
  ultimately show ?thesis using s5(2-)
    by (intro exI [of _ "s5\<lparr>tw_ndims := 2 + of_bool (tw_has_z s5) + of_bool (tw_has_m s5)\<rparr>"])
      (simp add: metadata_bits same_run_def dims_set_def)
qed

section \<open>The box\<close>

lemma double_bbox_read:
  assumes "tw_input s = varint_s64_encode_buf v @ rest"
  shows "\<exists>d. twkb_parse_state_double s f = Inr (d, s\<lparr>tw_pos := tw_pos s + length (varint_s64_encode_buf v)\<rparr>)"
  using svarint_read [OF assms] by (simp add: twkb_parse_state_double_def)

text \<open>The two numbers of a dimension.\<close>

definition box_pair :: "twkb_state \<Rightarrow> nat \<Rightarrow> byte list" where
  "box_pair ts i = varint_s64_encode_buf (ts_bbox_min ts ! i) @ varint_s64_encode_buf (ts_bbox_max ts ! i - ts_bbox_min ts ! i)"

definition box_bytes :: "u64 list \<Rightarrow> byte list" where
  "box_bytes vs = concat (map varint_s64_encode_buf vs)"

lemma range_read:
  assumes i: "tw_input s = box_pair ts k @ rest"
  shows "\<exists>lo hi. range_from_twkb_state f s = Inr ((lo, hi), s\<lparr>tw_pos := tw_pos s + length (box_pair ts k)\<rparr>)"
proof -
  let ?u = "varint_s64_encode_buf (ts_bbox_min ts ! k)" and ?v = "varint_s64_encode_buf (ts_bbox_max ts ! k - ts_bbox_min ts ! k)"
  let ?s = "s\<lparr>tw_pos := tw_pos s + length ?u\<rparr>"
  have j: "tw_input s = ?u @ ?v @ rest" using i by (simp add: box_pair_def)
  have "tw_input ?s = ?v @ rest" using tw_input_after [OF j, of "tw_coords s"] by simp
  from double_bbox_read [OF j, of f] double_bbox_read [OF this, of f] show ?thesis
    by (auto simp: range_from_twkb_state_def box_pair_def add.assoc)
qed

lemma box_bytes_pairs: "box_bytes (bbox_varints ts n) = concat (map (box_pair ts) [0..<n])"
  by (induction n) (simp_all add: box_bytes_def bbox_varints_def box_pair_def)

lemma after_pair: "tw_input s = a @ rest \<Longrightarrow> tw_input (s\<lparr>tw_pos := tw_pos s + length a\<rparr>) = rest"
  using tw_input_after [of s a rest "tw_coords s"] by simp

text \<open>The box, dimension by dimension.\<close>

lemma bbox_read:
  assumes i: "tw_input s = box_bytes (bbox_varints ts (FLAGS_NDIMS f)) @ rest" and f: "tw_has_z s = hasz f" "tw_has_m s = hasm f"
    and b: "tw_has_bbox s"
  shows "\<exists>x. bbox_from_twkb_state s = Inr (Some x, s\<lparr>tw_pos := tw_pos s + length (box_bytes (bbox_varints ts (FLAGS_NDIMS f)))\<rparr>)"
proof -
  let ?zs = "if hasz f then box_pair ts 2 else []" and ?ms = "if hasm f then box_pair ts (2 + of_bool (hasz f)) else []"
  have bb: "box_bytes (bbox_varints ts (FLAGS_NDIMS f)) = box_pair ts 0 @ box_pair ts 1 @ ?zs @ ?ms"
    by (cases "hasz f"; cases "hasm f") (simp_all add: box_bytes_pairs FLAGS_NDIMS_def eval_nat_numeral)
  have j: "tw_input s = box_pair ts 0 @ box_pair ts 1 @ ?zs @ ?ms @ rest" using i by (simp only: bb append_assoc)
  define s1 where "s1 = s\<lparr>tw_pos := tw_pos s + length (box_pair ts 0)\<rparr>"
  define s2 where "s2 = s1\<lparr>tw_pos := tw_pos s1 + length (box_pair ts 1)\<rparr>"
  define s3 where "s3 = s2\<lparr>tw_pos := tw_pos s2 + length ?zs\<rparr>"
  define s4 where "s4 = s3\<lparr>tw_pos := tw_pos s3 + length ?ms\<rparr>"
  have fields: "tw_has_z s2 = hasz f" "tw_has_m s3 = hasm f"
    using f by (simp_all add: s1_def s2_def s3_def)
  have s4: "s4 = s\<lparr>tw_pos := tw_pos s + length (box_bytes (bbox_varints ts (FLAGS_NDIMS f)))\<rparr>"
    unfolding bb by (simp add: s1_def s2_def s3_def s4_def)
  have j1: "tw_input s1 = box_pair ts 1 @ ?zs @ ?ms @ rest" unfolding s1_def by (rule after_pair [OF j])
  have j2: "tw_input s2 = ?zs @ ?ms @ rest" unfolding s2_def by (rule after_pair [OF j1])
  have j3: "tw_input s3 = ?ms @ rest" unfolding s3_def by (rule after_pair [OF j2])
  from range_read [OF j, of "tw_factor s"] obtain a1 b1 where r1: "range_from_twkb_state (tw_factor s) s = Inr ((a1, b1), s1)"
    unfolding s1_def by blast
  from range_read [OF j1, of "tw_factor s1"] obtain a2 b2 where r2: "range_from_twkb_state (tw_factor s1) s1 = Inr ((a2, b2), s2)"
    unfolding s2_def by blast
  have "\<exists>a b. (if tw_has_z s2 then range_from_twkb_state (tw_factor_z s2) s2 else Inr ((0, 0), s2)) = Inr ((a, b), s3)"
    using range_read [of s2 ts 2 "?ms @ rest" "tw_factor_z s2"] j2 by (auto simp: fields s3_def)
  then obtain a3 b3 where r3: "(if tw_has_z s2 then range_from_twkb_state (tw_factor_z s2) s2 else Inr ((0, 0), s2)) = Inr ((a3, b3), s3)"
    by blast
  have "\<exists>a b. (if tw_has_m s3 then range_from_twkb_state (tw_factor_m s3) s3 else Inr ((0, 0), s3)) = Inr ((a, b), s4)"
    using range_read [of s3 ts "2 + of_bool (hasz f)" rest "tw_factor_m s3"] j3 by (auto simp: fields s4_def)
  then obtain a4 b4 where r4: "(if tw_has_m s3 then range_from_twkb_state (tw_factor_m s3) s3 else Inr ((0, 0), s3)) = Inr ((a4, b4), s4)"
    by blast
  show ?thesis
    unfolding bbox_from_twkb_state_def s4 [symmetric] if_not_P [OF not_not [THEN iffD2, OF b]]
    by (simp only: r1 r2 r3 r4 bindS_simps prod.case) blast
qed

end
