(* ===== verification/TWKBWhole.thy ===== *)
theory TWKBWhole
  imports TWKBHeader
begin

text \<open>
  Whole Tiny WKB geometries: header, optional size and box, and a content that is given by what
  its writer writes and its reader reads.
\<close>

section \<open>The factors kept by the writer do not matter to what is meant\<close>

lemma factors_irrelevant [simp]:
  "write_factors pow10 (gl\<lparr>tg_factor := fs\<rparr>) = write_factors pow10 gl"
  "read_factors pow10 (gl\<lparr>tg_factor := fs\<rparr>) = read_factors pow10 gl"
  "quant_rows pow10 (gl\<lparr>tg_factor := fs\<rparr>) = quant_rows pow10 gl"
  "image_pa pow10 (gl\<lparr>tg_factor := fs\<rparr>) = image_pa pow10 gl"
  "pa_fits pow10 (gl\<lparr>tg_factor := fs\<rparr>) = pa_fits pow10 gl"
  "headed pow10 (gl\<lparr>tg_factor := fs\<rparr>) = headed pow10 gl"
  "precs_ok (gl\<lparr>tg_factor := fs\<rparr>) = precs_ok gl"
  "header_bytes (gl\<lparr>tg_factor := fs\<rparr>) = header_bytes gl"
  "size_bytes (gl\<lparr>tg_factor := fs\<rparr>) = size_bytes gl"
  by (simp_all add: fun_eq_iff write_factors_def read_factors_def quant_rows_def image_pa_def pa_fits_def headed_def precs_ok_def
      header_bytes_def size_bytes_def)

lemma twkb_image_factors [simp]: "twkb_image pow10 (gl\<lparr>tg_factor := fs\<rparr>) g = twkb_image pow10 gl g"
  by (induction g) (auto simp: list_all_iff)

lemma twkb_ok_factors [simp]: "twkb_ok pow10 (gl\<lparr>tg_factor := fs\<rparr>) g = twkb_ok pow10 gl g"
  by (induction g) (auto simp: list_all_iff)

lemma leaf_reads_factors [simp]: "leaf_reads pow10 (gl\<lparr>tg_factor := fs\<rparr>) = leaf_reads pow10 gl"
  by (simp add: leaf_reads_def fun_eq_iff)

text \<open>Up to the factors.\<close>

definition same_options :: "twkb_globals \<Rightarrow> twkb_globals \<Rightarrow> bool" where
  "same_options gl gl' \<longleftrightarrow> (\<exists>fs. length fs = 4 \<and> gl' = gl\<lparr>tg_factor := fs\<rparr>)"

lemma same_options_trans: "same_options gl gl' \<Longrightarrow> same_options gl' gl'' \<Longrightarrow> same_options gl gl''"
  by (auto simp: same_options_def)

lemma set_factors_ok:
  assumes "same_options gl gl'"
  shows "same_options gl (set_factors pow10 g gl')" "tuned pow10 (set_factors pow10 g gl') (lwgeom_flags g)"
proof -
  obtain fs where fs: "length fs = 4" "gl' = gl\<lparr>tg_factor := fs\<rparr>" using assms by (auto simp: same_options_def)
  then obtain a b c d where abcd: "fs = [a, b, c, d]" by (auto simp: eval_nat_numeral length_Suc_conv)
  show "same_options gl (set_factors pow10 g gl')"
    unfolding same_options_def
    by (rule exI [of _ "tg_factor (set_factors pow10 g gl')"]) (simp add: fs(2) abcd set_factors_def Let_def)
  show "tuned pow10 (set_factors pow10 g gl') (lwgeom_flags g)"
    by (cases "hasz (lwgeom_flags g)"; cases "hasm (lwgeom_flags g)")
      (simp_all add: fs(2) abcd set_factors_def Let_def tuned_def write_factors_def FLAGS_NDIMS_def eval_nat_numeral)
qed

section \<open>Reading a whole geometry\<close>

definition twkb_dispatch :: "nat \<Rightarrow> (int \<Rightarrow> double) \<Rightarrow> twkb_reader" where
  "twkb_dispatch fuel pow10 s =
     (if tw_lwtype s = POINTTYPE then lwpoint_from_twkb_state s
      else if tw_lwtype s = LINETYPE then lwline_from_twkb_state s
      else if tw_lwtype s = POLYGONTYPE then lwpoly_from_twkb_state s
      else if tw_lwtype s = MULTIPOINTTYPE then lwmultipoint_from_twkb_state s
      else if tw_lwtype s = MULTILINETYPE then lwmultiline_from_twkb_state s
      else if tw_lwtype s = MULTIPOLYGONTYPE then lwmultipoly_from_twkb_state s
      else if tw_lwtype s = COLLECTIONTYPE then lwcollection_from_twkb_state (lwgeom_from_twkb_state fuel pow10) s
      else Inl (LwError ''%s: Unsupported geometry type: %s''))"

lemma lwgeom_from_twkb_state_unfold:
  "lwgeom_from_twkb_state (Suc fuel) pow10 s =
     bindE (header_from_twkb_state pow10 s) (\<lambda>s.
     bindS (bbox_from_twkb_state (s\<lparr>tw_coords := [0, 0, 0, 0]\<rparr>)) (\<lambda>b s.
     bindS (twkb_dispatch fuel pow10 s) (\<lambda>g s.
     Inr (case b of None \<Rightarrow> g | Some x \<Rightarrow> map_lwhead (\<lambda>h. h\<lparr>bbox := Some x\<rparr>) g, s))))"
  by (simp add: twkb_dispatch_def)

lemma boxed_content:
  "lwgeom_content (case b of None \<Rightarrow> g | Some x \<Rightarrow> map_lwhead (\<lambda>h. h\<lparr>bbox := Some x\<rparr>) g) = lwgeom_content g"
  by (cases b; cases g) (simp_all add: head_content_def)

text \<open>The content of a geometry without the empty flag, and the whole.\<close>

definition content_reads :: "(int \<Rightarrow> double) \<Rightarrow> twkb_globals \<Rightarrow> lwgeom \<Rightarrow> bool \<Rightarrow> byte list \<Rightarrow> bool" where
  "content_reads pow10 gl g ids xs \<longleftrightarrow>
     (\<forall>s rest fuel. tw_input s = xs @ rest \<longrightarrow> ready s (replicate (FLAGS_NDIMS (lwgeom_flags g)) 0) \<longrightarrow>
       headed pow10 gl (lwgeom_flags g) s \<longrightarrow> tw_lwtype s = read_type (lwgeom_get_type g) \<longrightarrow> tw_has_idlist s = ids \<longrightarrow>
       lwgeom_depth g \<le> fuel \<longrightarrow> lwgeom_depth g + tw_depth s < LW_PARSER_MAX_DEPTH \<longrightarrow>
       (\<exists>g' s'. twkb_dispatch fuel pow10 s = Inr (g', s') \<and> lwgeom_content g' = twkb_image pow10 gl g \<and> same_run s (length xs) s'))"

definition whole_reads :: "(int \<Rightarrow> double) \<Rightarrow> twkb_globals \<Rightarrow> lwgeom \<Rightarrow> byte list \<Rightarrow> bool" where
  "whole_reads pow10 gl g xs \<longleftrightarrow>
     (\<forall>s rest fuel. tw_input s = xs @ rest \<longrightarrow> \<not> has_bits (tw_check s) LW_PARSER_CHECK_MINPOINTS \<longrightarrow>
       lwgeom_depth g < fuel \<longrightarrow> lwgeom_depth g + tw_depth s < LW_PARSER_MAX_DEPTH \<longrightarrow>
       (\<exists>g' s'. lwgeom_from_twkb_state fuel pow10 s = Inr (g', s') \<and> lwgeom_content g' = twkb_image pow10 gl g \<and> same_run s (length xs) s'))"

lemma content_reads_factors [simp]: "content_reads pow10 (gl\<lparr>tg_factor := fs\<rparr>) = content_reads pow10 gl"
  by (simp add: content_reads_def fun_eq_iff)

lemma whole_reads_factors [simp]: "whole_reads pow10 (gl\<lparr>tg_factor := fs\<rparr>) = whole_reads pow10 gl"
  by (simp add: whole_reads_def fun_eq_iff)

definition box_part :: "twkb_globals \<Rightarrow> twkb_state \<Rightarrow> u16 \<Rightarrow> byte list" where
  "box_part gl ts f = (if has_bits (tg_variant gl) TWKB_BBOX then box_bytes (bbox_varints ts (FLAGS_NDIMS f)) else [])"

lemma whole_reads_full:
  assumes gl: "precs_ok gl" "lwgeom_twkb_type (lwgeom_get_type g) = Inr n" and c: "content_reads pow10 gl g ids xs"
  shows "whole_reads pow10 gl g (header_bytes gl n (lwgeom_flags g) ids False @ size_bytes gl k @ box_part gl ts (lwgeom_flags g) @ xs)"
  unfolding whole_reads_def
proof (intro allI impI)
  let ?f = "lwgeom_flags g"
  let ?h = "header_bytes gl n ?f ids False @ size_bytes gl k" and ?b = "box_part gl ts ?f"
  fix s rest fuel
  assume i: "tw_input s = (header_bytes gl n ?f ids False @ size_bytes gl k @ ?b @ xs) @ rest"
    and chk: "\<not> has_bits (tw_check s) LW_PARSER_CHECK_MINPOINTS" and d: "lwgeom_depth g < fuel" "lwgeom_depth g + tw_depth s < LW_PARSER_MAX_DEPTH"
  obtain fuel' where fuel: "fuel = Suc fuel'" using d(1) by (cases fuel) auto
  have i0: "tw_input s = header_bytes gl n ?f ids False @ size_bytes gl k @ ?b @ xs @ rest" using i by simp
  from header_read [OF i0 gl, of pow10] obtain s1 where
    s1: "header_from_twkb_state pow10 s = Inr s1" "same_run s (length ?h) s1" "tw_has_z s1 = hasz ?f" "tw_has_m s1 = hasm ?f"
      "twkb_factors s1 = read_factors pow10 gl (hasz ?f) (hasm ?f)" "dims_set s1" "tw_lwtype s1 = read_type (lwgeom_get_type g)"
      "\<not> tw_is_empty s1" "tw_has_bbox s1 = has_bits (tg_variant gl) TWKB_BBOX" "tw_has_idlist s1 = ids" by auto
  let ?s = "s1\<lparr>tw_coords := [0, 0, 0, 0]\<rparr>"
  have "tw_input s1 = ?b @ xs @ rest" by (rule same_run_input [OF s1(2)]) (use i in simp)
  then have i1: "tw_input ?s = ?b @ xs @ rest" by (simp add: tw_input_def)
  have "\<exists>b. bbox_from_twkb_state ?s = Inr (b, ?s\<lparr>tw_pos := tw_pos ?s + length ?b\<rparr>)"
  proof (cases "has_bits (tg_variant gl) TWKB_BBOX")
    case True
    then have "tw_input ?s = box_bytes (bbox_varints ts (FLAGS_NDIMS ?f)) @ xs @ rest" using i1 by (simp add: box_part_def)
    from bbox_read [OF this] True s1(3,4,9) show ?thesis by (auto simp: box_part_def)
  next
    case False
    with s1(9) show ?thesis by (simp add: bbox_from_twkb_state_def box_part_def)
  qed
  then obtain b where b: "bbox_from_twkb_state ?s = Inr (b, ?s\<lparr>tw_pos := tw_pos ?s + length ?b\<rparr>)" by blast
  let ?s2 = "?s\<lparr>tw_pos := tw_pos ?s + length ?b\<rparr>"
  have i2: "tw_input ?s2 = xs @ rest" by (rule after_pair [OF i1])
  have "twkb_factors ?s2 = twkb_factors s1" by (simp add: twkb_factors_def)
  then have fac: "twkb_factors ?s2 = read_factors pow10 gl (hasz ?f) (hasm ?f)" using s1(5) by simp
  have dm: "dims_set ?s2" using s1(6) by (simp add: dims_set_def)
  have hd: "headed pow10 gl ?f ?s2" using s1 fac dm chk by (simp add: headed_def same_run_def)
  have "tw_ndims ?s2 = FLAGS_NDIMS ?f" by (rule headed_ndims [OF hd])
  then have rd: "ready ?s2 (replicate (FLAGS_NDIMS ?f) 0)"
    using dm by (cases "hasz ?f"; cases "hasm ?f") (simp_all add: ready_def fits_def FLAGS_NDIMS_def eval_nat_numeral)
  have "lwgeom_depth g \<le> fuel'" "lwgeom_depth g + tw_depth ?s2 < LW_PARSER_MAX_DEPTH" "tw_lwtype ?s2 = read_type (lwgeom_get_type g)"
      "tw_has_idlist ?s2 = ids" using d fuel s1(2,7,10) by (simp_all add: same_run_def)
  with c i2 rd hd obtain g' s3 where
    g': "twkb_dispatch fuel' pow10 ?s2 = Inr (g', s3)" "lwgeom_content g' = twkb_image pow10 gl g" "same_run ?s2 (length xs) s3"
    unfolding content_reads_def by meson
  have "lwgeom_from_twkb_state fuel pow10 s = Inr (case b of None \<Rightarrow> g' | Some x \<Rightarrow> map_lwhead (\<lambda>h. h\<lparr>bbox := Some x\<rparr>) g', s3)"
    unfolding fuel lwgeom_from_twkb_state_unfold by (simp only: s1(1) b g'(1) bindE_Inr bindS_simps)
  moreover have "same_run s (length (header_bytes gl n ?f ids False @ size_bytes gl k @ ?b @ xs)) s3"
    using s1(2) g'(3) by (simp add: same_run_def)
  ultimately show "\<exists>g' s'. lwgeom_from_twkb_state fuel pow10 s = Inr (g', s') \<and> lwgeom_content g' = twkb_image pow10 gl g \<and>
      same_run s (length (header_bytes gl n ?f ids False @ size_bytes gl k @ ?b @ xs)) s'"
    using g'(2) by (intro exI [of _ s3] exI [of _ "case b of None \<Rightarrow> g' | Some x \<Rightarrow> map_lwhead (\<lambda>h. h\<lparr>bbox := Some x\<rparr>) g'"])
      (simp only: boxed_content simp_thms)
qed

text \<open>Empty geometries end with their header.\<close>

lemma empty_dispatch:
  assumes g: "lwgeom_wf g" "twkb_ok pow10 gl g" "lwgeom_is_empty g"
    and s: "tw_is_empty s" "tw_lwtype s = read_type (lwgeom_get_type g)" "tw_has_z s = hasz (lwgeom_flags g)" "tw_has_m s = hasm (lwgeom_flags g)"
  shows "\<exists>g'. twkb_dispatch fuel pow10 s = Inr (g', s) \<and> lwgeom_content g' = twkb_image pow10 gl g"
proof (cases g)
  case (LWPOINT h pa)
  with g s show ?thesis
    by (auto simp: twkb_dispatch_def read_type_def lwpoint_from_twkb_state_def lwpoint_construct_empty_def empty_head_def head_content_def
        image_head_def pa_content_def image_pa_def quant_rows_def kept_def zm_flags_def same_zm_def ptarray_construct_def
        ptarray_construct_empty_def Let_def rows_def)
next
  case (LWLINE h pa)
  with g s show ?thesis
    by (auto simp: twkb_dispatch_def read_type_def lwline_from_twkb_state_def lwline_construct_empty_def empty_head_def head_content_def
        image_head_def pa_content_def image_pa_def quant_rows_def kept_def zm_flags_def same_zm_def
        ptarray_construct_empty_def Let_def rows_def)
next
  case (LWTRIANGLE h pa)
  with g s show ?thesis
    by (auto simp: twkb_dispatch_def read_type_def lwpoly_from_twkb_state_def lwpoly_construct_empty_def empty_head_def head_content_def
        image_head_def zm_flags_def)
next
  case (LWPOLY h mr rs)
  with g s show ?thesis
    by (auto simp: twkb_dispatch_def read_type_def lwpoly_from_twkb_state_def lwpoly_construct_empty_def empty_head_def head_content_def
        image_head_def zm_flags_def split: list.splits)
next
  case (LWCOLLECTION t h mg al gs)
  have "lwcollection_construct_empty (read_type t) 0 (hasz (flags h)) (hasm (flags h)) =
      Inr (LWCOLLECTION (read_type t) (empty_head 0 (hasz (flags h)) (hasm (flags h))) 1 True [])"
    using g(2) by (auto simp: LWCOLLECTION lwcollection_construct_empty_def read_type_def lwtype_is_collection_def)
  with LWCOLLECTION g s show ?thesis
    by (auto simp: twkb_dispatch_def read_type_def lwmultipoint_from_twkb_state_def lwmultiline_from_twkb_state_def
        lwmultipoly_from_twkb_state_def lwmulti_from_twkb_state_def lwcollection_from_twkb_state_def empty_head_def head_content_def
        image_head_def zm_flags_def)
qed (use g in simp_all)

lemma whole_reads_empty:
  assumes gl: "precs_ok gl" "lwgeom_twkb_type (lwgeom_get_type g) = Inr n"
    and g: "lwgeom_wf g" "twkb_ok pow10 gl g" "lwgeom_is_empty g"
  shows "whole_reads pow10 gl g (header_bytes gl n (lwgeom_flags g) ids True @ size_bytes gl k)"
  unfolding whole_reads_def
proof (intro allI impI)
  let ?f = "lwgeom_flags g"
  let ?h = "header_bytes gl n ?f ids True @ size_bytes gl k"
  fix s rest fuel
  assume i: "tw_input s = ?h @ rest" and d: "lwgeom_depth g < fuel"
  obtain fuel' where fuel: "fuel = Suc fuel'" using d(1) by (cases fuel) auto
  have i0: "tw_input s = header_bytes gl n ?f ids True @ size_bytes gl k @ rest" using i by simp
  from header_read [OF i0 gl, of pow10] obtain s1 where
    s1: "header_from_twkb_state pow10 s = Inr s1" "same_run s (length ?h) s1" "tw_has_z s1 = hasz ?f" "tw_has_m s1 = hasm ?f"
      "tw_lwtype s1 = read_type (lwgeom_get_type g)" "tw_is_empty s1" "\<not> tw_has_bbox s1" by auto
  let ?s = "s1\<lparr>tw_coords := [0, 0, 0, 0]\<rparr>"
  have b: "bbox_from_twkb_state ?s = Inr (None, ?s)" using s1(7) by (simp add: bbox_from_twkb_state_def)
  from empty_dispatch [OF g, of ?s fuel'] s1(3-6) obtain g' where
    g': "twkb_dispatch fuel' pow10 ?s = Inr (g', ?s)" "lwgeom_content g' = twkb_image pow10 gl g" by auto
  have "lwgeom_from_twkb_state fuel pow10 s = Inr (g', ?s)"
    unfolding fuel lwgeom_from_twkb_state_unfold by (simp only: s1(1) b g'(1) bindE_Inr bindS_simps option.case)
  moreover have "same_run s (length ?h) ?s" using s1(2) by (simp add: same_run_def)
  ultimately show "\<exists>g' s'. lwgeom_from_twkb_state fuel pow10 s = Inr (g', s') \<and> lwgeom_content g' = twkb_image pow10 gl g \<and>
      same_run s (length ?h) s'" using g'(2) by blast
qed

section \<open>Writing a whole geometry\<close>

definition content_written :: "(int \<Rightarrow> double) \<Rightarrow> twkb_globals \<Rightarrow> lwgeom \<Rightarrow> u64 list option \<Rightarrow> bool" where
  "content_written pow10 gl g ids \<longleftrightarrow>
     (\<forall>gl1 ts bs. same_options gl gl1 \<longrightarrow> tuned pow10 gl1 (lwgeom_flags g) \<longrightarrow>
       relative (FLAGS_NDIMS (lwgeom_flags g)) (replicate (FLAGS_NDIMS (lwgeom_flags g)) 0) ts \<longrightarrow> holds (ts_geom_buf ts) bs \<longrightarrow>
       length bs + twkb_cost g < 2 ^ 62 \<longrightarrow> ts_idlist ts = ids \<longrightarrow>
       (\<exists>gl2 ts2 xs. lwgeom_to_twkb_buf pow10 g gl1 ts = Inr (gl2, ts2) \<and> same_options gl gl2 \<and>
          holds (ts_geom_buf ts2) (bs @ xs) \<and> length xs \<le> twkb_cost g \<and> content_reads pow10 gl g (ids \<noteq> None) xs))"

definition whole_written :: "(int \<Rightarrow> double) \<Rightarrow> twkb_globals \<Rightarrow> lwgeom \<Rightarrow> u64 list option \<Rightarrow> bool" where
  "whole_written pow10 gl g ids \<longleftrightarrow>
     (\<forall>gl1 ts bs. same_options gl gl1 \<longrightarrow> holds (ts_geom_buf ts) bs \<longrightarrow> length bs + (twkb_cost g + 200) < 2 ^ 62 \<longrightarrow> ts_idlist ts = ids \<longrightarrow>
       (\<exists>gl2 ts2 xs. write_whole pow10 g (lwgeom_to_twkb_buf pow10 g) gl1 ts = Inr (gl2, ts2) \<and> same_options gl gl2 \<and>
          holds (ts_geom_buf ts2) (bs @ xs) \<and> 2 \<le> length xs \<and> length xs \<le> twkb_cost g + 200 \<and> moved ts ts2 \<and> whole_reads pow10 gl g xs))"

lemma header_bytes_length: "2 \<le> length (header_bytes gl n f ids e)" "length (header_bytes gl n f ids e) \<le> 3"
  by (simp_all add: header_bytes_def)

lemma size_bytes_length: "length (size_bytes gl k) \<le> 10"
  by (simp add: size_bytes_def encode_length)

lemma bbox_varints_length: "length (bbox_varints ts n) = 2 * n"
  by (induction n) (simp_all add: bbox_varints_def)

lemma box_part_length: "length (box_part gl ts f) \<le> 80"
proof -
  have "length (box_bytes (bbox_varints ts (FLAGS_NDIMS f))) \<le> 10 * length (bbox_varints ts (FLAGS_NDIMS f))"
    unfolding box_bytes_def by (rule varints_length)
  also have "\<dots> \<le> 80" by (simp add: bbox_varints_length FLAGS_NDIMS_def)
  finally show ?thesis by (simp add: box_part_def)
qed

lemma moved_expand [simp]: "moved ts (expand_bbox n u v ts') = moved ts ts'" "ts_geom_buf (expand_bbox n u v ts) = ts_geom_buf ts"
  by (simp_all add: moved_def expand_bbox_def)

lemma encode_zero: "varint_u64_encode_buf 0 = [0]"
  by (subst varint_u64_encode_buf.simps) (simp add: Let_def)

text \<open>The optional parts of the header.\<close>

lemma size_written:
  assumes "holds hb h" "length h \<le> 100"
  shows "\<exists>hb'. (if has_bits (tg_variant gl) TWKB_SIZE then bytebuffer_append_uvarint hb k else Inr hb) = Inr hb' \<and> holds hb' (h @ size_bytes gl k)"
  using append_uvarint_holds [OF assms(1), of k] assms encode_length [of k] by (auto simp: size_bytes_def)

lemma box_written:
  assumes "holds hb h" "length h \<le> 100"
  shows "\<exists>hb'. (if has_bits (tg_variant gl) TWKB_BBOX then write_bbox ts (FLAGS_NDIMS f) hb else Inr hb) = Inr hb' \<and> holds hb' (h @ box_part gl ts f)"
proof -
  have "length h + 10 * length (bbox_varints ts (FLAGS_NDIMS f)) < 2 ^ 62"
    using assms(2) by (simp add: bbox_varints_length FLAGS_NDIMS_def)
  from varints_written [OF assms(1) this] assms(1) show ?thesis by (auto simp: box_part_def write_bbox_def box_bytes_def)
qed

lemma options_same: "same_options gl gl1 \<Longrightarrow> tg_variant gl1 = tg_variant gl \<and> header_bytes gl1 = header_bytes gl \<and>
    size_bytes gl1 = size_bytes gl \<and> box_part gl1 = box_part gl \<and> precs_ok gl1 = precs_ok gl"
  by (auto simp: same_options_def fun_eq_iff box_part_def)

lemma empty_whole_written:
  assumes g: "lwgeom_wf g" "twkb_ok pow10 gl g" "lwgeom_is_empty g"
    and gl: "precs_ok gl" "lwgeom_twkb_type (lwgeom_get_type g) = Inr n"
  shows "whole_written pow10 gl g ids"
  unfolding whole_written_def
proof (intro allI impI)
  fix gl1 bs and ts :: twkb_state
  assume o: "same_options gl gl1" and b: "holds (ts_geom_buf ts) bs" "length bs + (twkb_cost g + 200) < 2 ^ 62" and ids: "ts_idlist ts = ids"
  let ?gl = "set_factors pow10 g gl1" and ?h = "header_bytes gl n (lwgeom_flags g) (ids \<noteq> None) True"
  have o2: "same_options gl ?gl" by (rule set_factors_ok(1) [OF o])
  note same = options_same [OF o2]
  have "precs_ok ?gl" using same gl(1) by simp
  from header_written [OF this gl(2), of "ids \<noteq> None"] obtain hb where
    hb: "header_to_buf ?gl g (ids \<noteq> None) = Inr hb" "holds hb ?h" using same g(3) by auto
  have "length ?h + 1 < 2 ^ 62" using header_bytes_length(2) [of gl n "lwgeom_flags g" "ids \<noteq> None" True] by simp
  from append_byte_holds [OF hb(2) this, of 0] hb(2)
  have "\<exists>hb2. (if has_bits (tg_variant ?gl) TWKB_SIZE then bytebuffer_append_byte hb 0 else Inr hb) = Inr hb2 \<and>
      holds hb2 (?h @ size_bytes gl 0)" using same by (auto simp: size_bytes_def encode_zero)
  then obtain hb2 where
    hb2: "(if has_bits (tg_variant ?gl) TWKB_SIZE then bytebuffer_append_byte hb 0 else Inr hb) = Inr hb2"
      "holds hb2 (?h @ size_bytes gl 0)" by blast
  have len: "length (?h @ size_bytes gl 0) \<le> 13" "2 \<le> length (?h @ size_bytes gl 0)"
    using header_bytes_length [where gl = gl and n = n and f = "lwgeom_flags g" and ids = "ids \<noteq> None" and e = True] size_bytes_length [of gl 0]
    by simp_all
  have "length bs + length (?h @ size_bytes gl 0) < 2 ^ 62" using b(2) len(1) by simp
  from append_bytebuffer_holds [OF b(1) hb2(2) this] obtain b2 where
    b2: "bytebuffer_append_bytebuffer (ts_geom_buf ts) hb2 = Inr b2" "holds b2 (bs @ ?h @ size_bytes gl 0)" by blast
  have "write_whole pow10 g (lwgeom_to_twkb_buf pow10 g) gl1 ts = Inr (?gl, ts\<lparr>ts_geom_buf := b2\<rparr>)"
    unfolding write_whole_def Let_def ids hb(1) bindE_Inr if_P [OF g(3)] hb2(1) by (simp add: b2(1))
  with o2 b2(2) len whole_reads_empty [OF gl g, of "ids \<noteq> None" 0]
  show "\<exists>gl2 ts2 xs. write_whole pow10 g (lwgeom_to_twkb_buf pow10 g) gl1 ts = Inr (gl2, ts2) \<and> same_options gl gl2 \<and>
          holds (ts_geom_buf ts2) (bs @ xs) \<and> 2 \<le> length xs \<and> length xs \<le> twkb_cost g + 200 \<and> moved ts ts2 \<and> whole_reads pow10 gl g xs"
    by (intro exI [of _ ?gl] exI [of _ "ts\<lparr>ts_geom_buf := b2\<rparr>"] exI [of _ "?h @ size_bytes gl 0"]) simp
qed

lemma full_whole_written:
  assumes g: "\<not> lwgeom_is_empty g" and gl: "precs_ok gl" "lwgeom_twkb_type (lwgeom_get_type g) = Inr n"
    and c: "content_written pow10 gl g ids"
  shows "whole_written pow10 gl g ids"
  unfolding whole_written_def
proof (intro allI impI)
  fix gl1 bs and ts :: twkb_state
  assume o: "same_options gl gl1" and b: "holds (ts_geom_buf ts) bs" "length bs + (twkb_cost g + 200) < 2 ^ 62" and ids: "ts_idlist ts = ids"
  let ?f = "lwgeom_flags g"
  let ?gl = "set_factors pow10 g gl1" and ?h = "header_bytes gl n ?f (ids \<noteq> None) False"
  have o2: "same_options gl ?gl" "tuned pow10 ?gl ?f" by (rule set_factors_ok [OF o])+
  note same = options_same [OF o2(1)]
  have "precs_ok ?gl" using same gl(1) by simp
  from header_written [OF this gl(2), of "ids \<noteq> None"] obtain hb where
    hb: "header_to_buf ?gl g (ids \<noteq> None) = Inr hb" "holds hb ?h" using same g by auto
  let ?c = "child_state hb ids"
  have c0: "holds (ts_geom_buf ?c) []" using init_holds [of 64] by (simp add: child_state_def)
  have "relative (FLAGS_NDIMS ?f) (replicate (FLAGS_NDIMS ?f) 0) ?c" "ts_idlist ?c = ids"
    by (simp_all add: relative_def child_state_def FLAGS_NDIMS_def)
  with c o2 c0 b(2) obtain gl2 ts2 xs where
    w: "lwgeom_to_twkb_buf pow10 g ?gl ?c = Inr (gl2, ts2)" "same_options gl gl2" "holds (ts_geom_buf ts2) xs"
      "length xs \<le> twkb_cost g" "content_reads pow10 gl g (ids \<noteq> None) xs"
    unfolding content_written_def by fastforce
  note same2 = options_same [OF w(2)]
  let ?par = "if has_bits (tg_variant gl2) TWKB_BBOX \<and> ts_header_buf ts \<noteq> None
      then expand_bbox (FLAGS_NDIMS ?f) (ts_bbox_min ts2) (ts_bbox_max ts2) ts else ts"
  let ?k = "of_nat (bytebuffer_getlength (ts_geom_buf ts2) +
      (if has_bits (tg_variant gl2) TWKB_BBOX then sizeof_bbox ts2 (FLAGS_NDIMS ?f) else 0))"
  have hl: "length ?h \<le> 3" "2 \<le> length ?h" by (rule header_bytes_length)+
  from size_written [OF hb(2), of gl2 ?k] hl obtain hb2 where
    hb2: "(if has_bits (tg_variant gl2) TWKB_SIZE then bytebuffer_append_uvarint hb ?k else Inr hb) = Inr hb2"
      "holds hb2 (?h @ size_bytes gl ?k)" using same2 by auto
  have hl2: "length (?h @ size_bytes gl ?k) \<le> 13" using hl size_bytes_length [of gl ?k] by simp
  from box_written [OF hb2(2), of gl2 ts2 ?f] hl2 obtain hb3 where
    hb3: "(if has_bits (tg_variant gl2) TWKB_BBOX then write_bbox ts2 (FLAGS_NDIMS ?f) hb2 else Inr hb2) = Inr hb3"
      "holds hb3 ((?h @ size_bytes gl ?k) @ box_part gl ts2 ?f)" using same2 by auto
  let ?hd = "(?h @ size_bytes gl ?k) @ box_part gl ts2 ?f"
  have hl3: "length ?hd \<le> 93" "2 \<le> length ?hd" using hl hl2 box_part_length [of gl ts2 ?f] by simp_all
  have gb: "ts_geom_buf ?par = ts_geom_buf ts" by simp
  have "length bs + length ?hd < 2 ^ 62" using b(2) hl3(1) by simp
  from append_bytebuffer_holds [OF b(1) hb3(2) this] obtain b4 where
    b4: "bytebuffer_append_bytebuffer (ts_geom_buf ts) hb3 = Inr b4" "holds b4 (bs @ ?hd)" by blast
  have "length (bs @ ?hd) + length xs < 2 ^ 62" using b(2) hl3(1) w(4) by simp
  from append_bytebuffer_holds [OF b4(2) w(3) this] obtain b5 where
    b5: "bytebuffer_append_bytebuffer b4 (ts_geom_buf ts2) = Inr b5" "holds b5 ((bs @ ?hd) @ xs)" by blast
  have "write_whole pow10 g (lwgeom_to_twkb_buf pow10 g) gl1 ts = Inr (gl2, ?par\<lparr>ts_geom_buf := b5\<rparr>)"
    unfolding write_whole_def Let_def ids hb(1) bindE_Inr if_not_P [OF g] w(1) prod.case hb2(1) hb3(1) gb b4(1) b5(1) ..
  moreover have "moved ts (?par\<lparr>ts_geom_buf := b5\<rparr>)" by simp
  moreover have "whole_reads pow10 gl g (?hd @ xs)"
    using whole_reads_full [OF gl w(5), of ?k ts2] by simp
  ultimately show "\<exists>gl2 ts2 xs. write_whole pow10 g (lwgeom_to_twkb_buf pow10 g) gl1 ts = Inr (gl2, ts2) \<and> same_options gl gl2 \<and>
          holds (ts_geom_buf ts2) (bs @ xs) \<and> 2 \<le> length xs \<and> length xs \<le> twkb_cost g + 200 \<and> moved ts ts2 \<and> whole_reads pow10 gl g xs"
    using w(2,4) b5(2) hl3
    by (intro exI [of _ gl2] exI [of _ "?par\<lparr>ts_geom_buf := b5\<rparr>"] exI [of _ "?hd @ xs"]) (simp del: append_assoc add: append_assoc [symmetric])
qed

end
