(* ===== verification/TWKBMembers.thy ===== *)
theory TWKBMembers
  imports TWKBWhole
begin

text \<open>
  What multi-geometries and collections start with in Tiny WKB, the number of members and their
  ids, and the members of multi-geometries, written and read back.
\<close>

section \<open>The number of members and their ids\<close>

definition count_bytes :: "nat \<Rightarrow> u64 list \<Rightarrow> byte list" where
  "count_bytes n vs = varint_u64_encode_buf (of_nat n) @ concat (map varint_s64_encode_buf vs)"

definition kept_ids :: "nat \<Rightarrow> lwgeom list \<Rightarrow> u64 list option \<Rightarrow> u64 list" where
  "kept_ids t gs ids = (case ids of None \<Rightarrow> [] | Some is \<Rightarrow> map snd (filter (\<lambda>(g, i). \<not> skipped t g) (zip gs is)))"

lemma kept_ids_length:
  "(case ids of None \<Rightarrow> True | Some is \<Rightarrow> length gs \<le> length is) \<Longrightarrow>
   length (kept_ids t gs ids) = (if ids = None then 0 else length (filter (\<lambda>g. \<not> skipped t g) gs))"
proof (induction gs arbitrary: ids)
  case Nil
  then show ?case by (cases ids) (simp_all add: kept_ids_def)
next
  case (Cons g gs)
  show ?case
  proof (cases ids)
    case (Some js)
    with Cons.prems obtain j js' where "js = j # js'" by (cases js) auto
    with Some Cons.prems Cons.IH [of "Some js'"] show ?thesis by (simp add: kept_ids_def)
  qed (simp add: kept_ids_def)
qed

lemma ids_written:
  "length gs \<le> length js \<Longrightarrow> holds b bs \<Longrightarrow> length bs + 10 * length gs < 2 ^ 62 \<Longrightarrow>
   \<exists>b'. ids_to_twkb_buf t gs js b = Inr b' \<and> holds b' (bs @ concat (map varint_s64_encode_buf (kept_ids t gs (Some js))))"
proof (induction gs arbitrary: js b bs)
  case (Cons g gs)
  obtain j js' where js: "js = j # js'" using Cons.prems(1) by (cases js) auto
  show ?case
  proof (cases "skipped t g")
    case True
    with Cons.IH [of js' b bs] Cons.prems show ?thesis by (simp add: js kept_ids_def)
  next
    case False
    have len: "length (varint_s64_encode_buf j) \<le> 10" by (simp add: varint_s64_encode_buf_def encode_length)
    with append_varint_holds [OF Cons.prems(2), of j] Cons.prems(3) obtain b1 where
      b1: "bytebuffer_append_varint b j = Inr b1" "holds b1 (bs @ varint_s64_encode_buf j)" by auto
    from Cons.IH [of js' b1, OF _ b1(2)] len Cons.prems(1,3) False b1(1) show ?thesis by (auto simp: js kept_ids_def)
  qed
qed (simp add: kept_ids_def)

lemma length_kept_le: "length (filter (\<lambda>g. \<not> skipped t g) gs) = length gs - length (filter (skipped t) gs)"
  using sum_length_filter_compl [of "skipped t" gs] by simp

lemma count_written:
  assumes b: "holds (ts_geom_buf ts) bs" "length bs + (10 + 10 * length gs) < 2 ^ 62"
    and ids: "case ts_idlist ts of None \<Rightarrow> True | Some is \<Rightarrow> length gs \<le> length is"
  shows "\<exists>ts'. count_to_twkb_buf t gs ts = Inr ts' \<and> ts_idlist ts' = None \<and> ts_accum_rels ts' = ts_accum_rels ts \<and>
    holds (ts_geom_buf ts') (bs @ count_bytes (length (filter (\<lambda>g. \<not> skipped t g) gs)) (kept_ids t gs (ts_idlist ts)))"
proof -
  let ?n = "length gs - length (filter (skipped t) gs)"
  have e: "length (varint_u64_encode_buf (of_nat ?n)) \<le> 10" by (rule encode_length)
  with b(2) have "length bs + length (varint_u64_encode_buf (of_nat ?n)) < 2 ^ 62" by simp
  from append_uvarint_holds [OF b(1) this] obtain b1 where
    b1: "bytebuffer_append_uvarint (ts_geom_buf ts) (of_nat ?n) = Inr b1" "holds b1 (bs @ varint_u64_encode_buf (of_nat ?n))" by blast
  show ?thesis
  proof (cases "ts_idlist ts")
    case None
    with b1 show ?thesis by (simp add: count_to_twkb_buf_def Let_def kept_ids_def count_bytes_def length_kept_le)
  next
    case (Some js)
    have "length (bs @ varint_u64_encode_buf (of_nat ?n)) + 10 * length gs < 2 ^ 62" using b(2) e by simp
    from ids_written [OF _ b1(2) this, of js t] Some ids obtain b2 where
      "ids_to_twkb_buf t gs js b1 = Inr b2"
      "holds b2 ((bs @ varint_u64_encode_buf (of_nat ?n)) @ concat (map varint_s64_encode_buf (kept_ids t gs (Some js))))" by auto
    with b1(1) Some show ?thesis by (simp add: count_to_twkb_buf_def Let_def count_bytes_def length_kept_le)
  qed
qed

lemma ids_read:
  "tw_input s = concat (map varint_s64_encode_buf vs) @ rest \<Longrightarrow>
   ids_from_twkb_state (length vs) s = Inr (s\<lparr>tw_pos := tw_pos s + length (concat (map varint_s64_encode_buf vs))\<rparr>)"
proof (induction vs arbitrary: s)
  case (Cons v vs)
  have i: "tw_input s = varint_s64_encode_buf v @ concat (map varint_s64_encode_buf vs) @ rest" using Cons.prems by simp
  from Cons.IH [OF after_pair [OF i]] skip_read [OF i] show ?case by (simp add: add.assoc)
qed simp

lemma min_bytes_ok:
  assumes "n * k \<le> length (twkb s) - tw_pos s"
  shows "twkb_parse_state_has_min_bytes s n k = Inr ()"
proof -
  have "k \<noteq> 0 \<Longrightarrow> n \<le> (length (twkb s) - tw_pos s) div k" using assms by (simp add: less_eq_div_iff_mult_less_eq)
  then show ?thesis by (auto simp: twkb_parse_state_has_min_bytes_def require_def not_less)
qed

lemma count_read:
  assumes i: "tw_input s = count_bytes n vs @ xs @ rest" and n: "n < 2 ^ 31" "n * k \<le> length xs"
    and vs: "length vs = (if tw_has_idlist s then n else 0)"
  shows "count_from_twkb_state k s = Inr (n, s\<lparr>tw_pos := tw_pos s + length (count_bytes n vs)\<rparr>)"
proof -
  let ?e = "varint_u64_encode_buf (of_nat n)" and ?v = "concat (map varint_s64_encode_buf vs)"
  let ?s = "s\<lparr>tw_pos := tw_pos s + length ?e\<rparr>"
  let ?t = "s\<lparr>tw_pos := tw_pos s + length (count_bytes n vs)\<rparr>"
  have j: "tw_input s = ?e @ ?v @ xs @ rest" using i by (simp add: count_bytes_def)
  have u: "twkb_parse_state_uvarint32 s = Inr (n, ?s)" by (rule uvarint32_read [OF j]) (use n(1) in simp)
  have j1: "tw_input ?s = ?v @ xs @ rest" by (rule after_pair [OF j])
  have "tw_input ?t = xs @ rest" by (rule after_pair [OF i])
  from tw_input_length [OF this] n(2) have m2: "twkb_parse_state_has_min_bytes ?t n k = Inr ()" by (intro min_bytes_ok) simp
  have m1: "twkb_parse_state_has_min_bytes ?s n 1 = Inr ()" if "tw_has_idlist s"
    using tw_input_length [OF j1] varints_at_least [of vs] vs that by (intro min_bytes_ok) simp
  show ?thesis
  proof (cases "tw_has_idlist s")
    case True
    with ids_read [OF j1] vs u m1 m2 show ?thesis by (simp add: count_from_twkb_state_def count_bytes_def add.assoc)
  next
    case False
    with vs have "?t = ?s" by (simp add: count_bytes_def)
    with False u m2 show ?thesis by (simp add: count_from_twkb_state_def)
  qed
qed

section \<open>The members of a multi-geometry\<close>

definition multi_reader :: "nat \<Rightarrow> twkb_reader" where
  "multi_reader t = (if t = MULTIPOINTTYPE then lwpoint_from_twkb_state else if t = MULTILINETYPE then lwline_from_twkb_state
     else lwpoly_from_twkb_state)"

definition multi_min :: "nat \<Rightarrow> u16 \<Rightarrow> nat" where
  "multi_min t f = (if t = MULTIPOINTTYPE then FLAGS_NDIMS f else 1)"

text \<open>Adding the members that are read to a collection that can grow.\<close>

definition members_read :: "(int \<Rightarrow> double) \<Rightarrow> twkb_globals \<Rightarrow> u16 \<Rightarrow> nat \<Rightarrow> lwgeom list \<Rightarrow> u64 list \<Rightarrow> byte list \<Rightarrow> u64 list \<Rightarrow> bool" where
  "members_read pow10 gl f t gs p xs q \<longleftrightarrow>
     (\<forall>s rest h mg al acc. tw_input s = xs @ rest \<longrightarrow> ready s p \<longrightarrow> headed pow10 gl f s \<longrightarrow> growable (LWCOLLECTION t h mg al acc) \<longrightarrow>
       length acc + length gs < 2 ^ 31 \<longrightarrow>
       (\<exists>mg' al' gs' c. geoms_from_twkb_state (multi_reader t) (length gs) (LWCOLLECTION t h mg al acc) s =
          Inr (LWCOLLECTION t h mg' al' (acc @ gs'), tw_at s (length xs) c) \<and>
        map lwgeom_content gs' = map (twkb_image pow10 gl) gs \<and> ready (tw_at s (length xs) c) q))"

lemma type_of_content: "lwgeom_content g' = twkb_image pow10 gl g \<Longrightarrow> lwgeom_get_type g \<noteq> TINTYPE \<Longrightarrow> lwgeom_get_type g \<noteq> TRIANGLETYPE \<Longrightarrow>
    lwgeom_get_type g' = lwgeom_get_type g"
  by (cases g; cases g') auto

lemma multi_member:
  assumes "t \<in> {MULTIPOINTTYPE, MULTILINETYPE, MULTIPOLYGONTYPE}" "lwcollection_allows_subtype t (lwgeom_get_type g)" "lwgeom_wf g"
  shows "\<not> lwtype_is_collection (lwgeom_get_type g)" "leaf_reader g = multi_reader t" "lwgeom_get_type g \<noteq> TRIANGLETYPE"
    "lwgeom_get_type g = POINTTYPE \<longleftrightarrow> t = MULTIPOINTTYPE" "lwgeom_get_type g \<noteq> TINTYPE"
  using assms by (cases g; auto simp: lwcollection_allows_subtype_def leaf_reader_def multi_reader_def lwtype_is_collection_def split: if_splits)+

text \<open>What is known of the members that are not skipped.\<close>

definition member_ok :: "(int \<Rightarrow> double) \<Rightarrow> twkb_globals \<Rightarrow> nat \<Rightarrow> u16 \<Rightarrow> lwgeom \<Rightarrow> bool" where
  "member_ok pow10 gl t f g \<longleftrightarrow> lwgeom_wf g \<and> twkb_ok pow10 gl g \<and> lwcollection_allows_subtype t (lwgeom_get_type g) \<and> same_zm f (lwgeom_flags g)"

lemma members_read_Nil [simp]: "members_read pow10 gl f t [] p [] p"
  unfolding members_read_def
proof (intro allI impI)
  fix s rest h mg al acc assume "ready s p"
  then show "\<exists>mg' al' gs' c. geoms_from_twkb_state (multi_reader t) (length []) (LWCOLLECTION t h mg al acc) s =
      Inr (LWCOLLECTION t h mg' al' (acc @ gs'), tw_at s (length []) c) \<and>
    map lwgeom_content gs' = map (twkb_image pow10 gl) [] \<and> ready (tw_at s (length []) c) p"
    by (intro exI [of _ mg] exI [of _ al] exI [of _ "[]"] exI [of _ "tw_coords s"]) (simp add: ready_def)
qed

lemma members_read_Cons:
  assumes t: "t \<in> {MULTIPOINTTYPE, MULTILINETYPE, MULTIPOLYGONTYPE}" and g: "member_ok pow10 gl t f g" "leaf_reads pow10 gl g p xs q"
    and gs: "members_read pow10 gl f t gs q ys r"
  shows "members_read pow10 gl f t (g # gs) p (xs @ ys) r"
  unfolding members_read_def
proof (intro allI impI)
  fix s rest h mg al acc
  assume i: "tw_input s = (xs @ ys) @ rest" and s: "ready s p" "headed pow10 gl f s"
    and c: "growable (LWCOLLECTION t h mg al acc)" "length acc + length (g # gs) < 2 ^ 31"
  have zm: "same_zm f (lwgeom_flags g)" using g(1) by (simp add: member_ok_def)
  note m = multi_member [OF t, of g]
  have i1: "tw_input s = xs @ ys @ rest" using i by simp
  have hd: "headed pow10 gl (lwgeom_flags g) s" using s(2) headed_zm [OF zm] by simp
  with g(2) i1 s(1) obtain c1 g' where
    r1: "leaf_reader g s = Inr (g', tw_at s (length xs) c1)" "lwgeom_content g' = twkb_image pow10 gl g" "ready (tw_at s (length xs) c1) q"
    unfolding leaf_reads_def by blast
  have "lwgeom_get_type g' = lwgeom_get_type g" using m g(1) type_of_content [OF r1(2)] by (simp add: member_ok_def)
  with g(1) lwcollection_add_lwgeom_ok [OF c(1), of g'] c(2) obtain mg1 where
    add: "lwcollection_add_lwgeom (LWCOLLECTION t h mg al acc) g' = Inr (LWCOLLECTION t h mg1 True (acc @ [g']))"
      "growable (LWCOLLECTION t h mg1 True (acc @ [g']))" by (auto simp: member_ok_def)
  let ?s = "tw_at s (length xs) c1"
  have i2: "tw_input ?s = ys @ rest" by (rule tw_input_after [OF i1])
  have hd2: "headed pow10 gl f ?s" "length (acc @ [g']) + length gs < 2 ^ 31" using s(2) c(2) by simp_all
  from gs i2 r1(3) hd2(1) add(2) hd2(2) obtain mg' al' gs' c2 where
    r2: "geoms_from_twkb_state (multi_reader t) (length gs) (LWCOLLECTION t h mg1 True (acc @ [g'])) ?s =
        Inr (LWCOLLECTION t h mg' al' ((acc @ [g']) @ gs'), tw_at ?s (length ys) c2)"
      "map lwgeom_content gs' = map (twkb_image pow10 gl) gs" "ready (tw_at ?s (length ys) c2) r"
    unfolding members_read_def by meson
  have rd: "multi_reader t s = Inr (g', ?s)" using r1(1) m g(1) by (simp add: member_ok_def)
  have "geoms_from_twkb_state (multi_reader t) (length (g # gs)) (LWCOLLECTION t h mg al acc) s =
      Inr (LWCOLLECTION t h mg' al' (acc @ (g' # gs')), tw_at s (length (xs @ ys)) c2)"
    using rd add(1) r2(1) by (simp add: add.assoc)
  with r1(2) r2(2,3) show "\<exists>mg' al' gs' c. geoms_from_twkb_state (multi_reader t) (length (g # gs)) (LWCOLLECTION t h mg al acc) s =
      Inr (LWCOLLECTION t h mg' al' (acc @ gs'), tw_at s (length (xs @ ys)) c) \<and>
    map lwgeom_content gs' = map (twkb_image pow10 gl) (g # gs) \<and> ready (tw_at s (length (xs @ ys)) c) r"
    by (intro exI [of _ mg'] exI [of _ al'] exI [of _ "g' # gs'"] exI [of _ c2]) (simp add: add.assoc)
qed

lemma multi_members_written:
  assumes t: "t \<in> {MULTIPOINTTYPE, MULTILINETYPE, MULTIPOLYGONTYPE}"
  shows "list_all (member_ok pow10 gl t f) gs \<Longrightarrow> tuned pow10 gl f \<Longrightarrow> relative (FLAGS_NDIMS f) p ts \<Longrightarrow> fits p \<Longrightarrow>
    holds (ts_geom_buf ts) bs \<Longrightarrow> length bs + sum_list (map twkb_cost gs) < 2 ^ 62 \<Longrightarrow>
    \<exists>ts' xs q. members_to_twkb_buf pow10 t gs gl ts = Inr (gl, ts') \<and> holds (ts_geom_buf ts') (bs @ xs) \<and>
      length (filter (\<lambda>g. \<not> skipped t g) gs) * multi_min t f \<le> length xs \<and> length xs \<le> sum_list (map twkb_cost gs) \<and>
      members_read pow10 gl f t (filter (\<lambda>g. \<not> skipped t g) gs) p xs q"
proof (induction gs arbitrary: p ts bs)
  case Nil
  then show ?case by (intro exI [of _ ts] exI [of _ "[]"] exI [of _ p]) simp
next
  case (Cons g gs)
  have g: "member_ok pow10 gl t f g" and gs: "list_all (member_ok pow10 gl t f) gs" using Cons.prems(1) by simp_all
  have zm: "same_zm f (lwgeom_flags g)" using g by (simp add: member_ok_def)
  note m = multi_member [OF t, of g]
  show ?case
  proof (cases "skipped t g")
    case True
    have "length bs + sum_list (map twkb_cost gs) < 2 ^ 62" using Cons.prems(6) by simp
    from Cons.IH [OF gs Cons.prems(2-5) this] obtain ts' xs q where
      "members_to_twkb_buf pow10 t gs gl ts = Inr (gl, ts')" "holds (ts_geom_buf ts') (bs @ xs)"
      "length (filter (\<lambda>g. \<not> skipped t g) gs) * multi_min t f \<le> length xs" "length xs \<le> sum_list (map twkb_cost gs)"
      "members_read pow10 gl f t (filter (\<lambda>g. \<not> skipped t g) gs) p xs q" by auto
    with True show ?thesis by (intro exI [of _ ts'] exI [of _ xs] exI [of _ q]) simp
  next
    case False
    have pt: "lwgeom_get_type g \<in> {POINTTYPE, TRIANGLETYPE} \<Longrightarrow> \<not> lwgeom_is_empty g"
      using m g False by (auto simp: member_ok_def skipped_def)
    have "lwgeom_wf g" "twkb_ok pow10 gl g" "\<not> lwtype_is_collection (lwgeom_get_type g)" using g m by (simp_all add: member_ok_def)
    moreover have "tuned pow10 gl (lwgeom_flags g)" "relative (FLAGS_NDIMS (lwgeom_flags g)) p ts"
      using Cons.prems(2,3) tuned_zm [OF zm] same_zm_ndims [OF zm] by simp_all
    moreover have "length bs + twkb_cost g < 2 ^ 62" using Cons.prems(6) by simp
    ultimately obtain ts1 xs q where
      1: "lwgeom_to_twkb_buf pow10 g gl ts = Inr (gl, ts1)" "holds (ts_geom_buf ts1) (bs @ xs)" "1 \<le> length xs" "length xs \<le> twkb_cost g"
        "lwgeom_get_type g = POINTTYPE \<longrightarrow> FLAGS_NDIMS (lwgeom_flags g) \<le> length xs"
        "relative (FLAGS_NDIMS (lwgeom_flags g)) q ts1" "fits q" "leaf_reads pow10 gl g p xs q"
      using leaf_written [of g pow10 gl p ts bs] pt Cons.prems(4,5) by blast
    have rel: "relative (FLAGS_NDIMS f) q ts1" using 1(6) same_zm_ndims [OF zm] by simp
    have "length (bs @ xs) + sum_list (map twkb_cost gs) < 2 ^ 62" using Cons.prems(6) 1(4) by simp
    from Cons.IH [OF gs Cons.prems(2) rel 1(7,2) this] obtain ts' ys r where
      2: "members_to_twkb_buf pow10 t gs gl ts1 = Inr (gl, ts')" "holds (ts_geom_buf ts') ((bs @ xs) @ ys)"
        "length (filter (\<lambda>g. \<not> skipped t g) gs) * multi_min t f \<le> length ys" "length ys \<le> sum_list (map twkb_cost gs)"
        "members_read pow10 gl f t (filter (\<lambda>g. \<not> skipped t g) gs) q ys r" by blast
    have mn: "multi_min t f \<le> length xs"
      using 1(3,5) same_zm_ndims [OF zm] m g by (auto simp: multi_min_def member_ok_def)
    have "t \<noteq> COLLECTIONTYPE" "t \<noteq> TINTYPE" using t by auto
    with False 1(1,4) 2(1,2,3,4) mn members_read_Cons [OF t g 1(8) 2(5)] show ?thesis
      by (intro exI [of _ ts'] exI [of _ "xs @ ys"] exI [of _ r]) simp
  qed
qed

end
