(* ===== verification/TWKBExact.thy ===== *)
theory TWKBExact
  imports TWKBMembers TWKBFactor
begin

text \<open>
  The content of single geometries, of multi-geometries and of collections, written and read
  back; by induction that of every geometry; and the theorem.
\<close>

section \<open>Single geometries\<close>

lemma twkb_leaf_dispatch:
  "\<not> lwtype_is_collection (lwgeom_get_type g) \<Longrightarrow> lwgeom_wf g \<Longrightarrow> twkb_ok pow10 gl g \<Longrightarrow> tw_lwtype s = read_type (lwgeom_get_type g) \<Longrightarrow>
   twkb_dispatch fuel pow10 s = leaf_reader g s"
  by (cases g) (simp_all add: twkb_dispatch_def read_type_def leaf_reader_def)

lemma leaf_content_reads:
  assumes g: "\<not> lwtype_is_collection (lwgeom_get_type g)" "lwgeom_wf g" "twkb_ok pow10 gl g"
    and r: "leaf_reads pow10 gl g (replicate (FLAGS_NDIMS (lwgeom_flags g)) 0) xs q"
  shows "content_reads pow10 gl g ids xs"
  unfolding content_reads_def
proof (intro allI impI)
  fix s rest fuel
  assume "tw_input s = xs @ rest" "ready s (replicate (FLAGS_NDIMS (lwgeom_flags g)) 0)" "headed pow10 gl (lwgeom_flags g) s"
    and t: "tw_lwtype s = read_type (lwgeom_get_type g)"
  with r obtain c g' where "leaf_reader g s = Inr (g', tw_at s (length xs) c)" "lwgeom_content g' = twkb_image pow10 gl g"
    unfolding leaf_reads_def by blast
  with twkb_leaf_dispatch [OF g t, of fuel]
  show "\<exists>g' s'. twkb_dispatch fuel pow10 s = Inr (g', s') \<and> lwgeom_content g' = twkb_image pow10 gl g \<and> same_run s (length xs) s'"
    by (intro exI [of _ g'] exI [of _ "tw_at s (length xs) c"]) simp
qed

lemma fits_zeros [simp]: "fits (replicate n 0)"
  by (simp add: fits_def)

lemma leaf_content:
  assumes g: "\<not> lwtype_is_collection (lwgeom_get_type g)" "lwgeom_wf g" "twkb_ok pow10 gl g" "\<not> lwgeom_is_empty g"
  shows "content_written pow10 gl g ids"
  unfolding content_written_def
proof (intro allI impI)
  let ?p = "replicate (FLAGS_NDIMS (lwgeom_flags g)) 0"
  fix gl1 bs and ts :: twkb_state
  assume o: "same_options gl gl1" and st: "tuned pow10 gl1 (lwgeom_flags g)" "relative (FLAGS_NDIMS (lwgeom_flags g)) ?p ts"
    "holds (ts_geom_buf ts) bs" "length bs + twkb_cost g < 2 ^ 62"
  have same: "twkb_ok pow10 gl1 g" "leaf_reads pow10 gl1 = leaf_reads pow10 gl" using o g(3) by (auto simp: same_options_def)
  from leaf_written [OF g(2) same(1) g(1) g(4) st(1,2) fits_zeros st(3,4)] obtain ts' xs q where
    "lwgeom_to_twkb_buf pow10 g gl1 ts = Inr (gl1, ts')" "holds (ts_geom_buf ts') (bs @ xs)" "length xs \<le> twkb_cost g"
    "leaf_reads pow10 gl g ?p xs q" by (auto simp: same(2))
  with o leaf_content_reads [OF g(1-3), of xs q "ids \<noteq> None"]
  show "\<exists>gl2 ts2 xs. lwgeom_to_twkb_buf pow10 g gl1 ts = Inr (gl2, ts2) \<and> same_options gl gl2 \<and>
      holds (ts_geom_buf ts2) (bs @ xs) \<and> length xs \<le> twkb_cost g \<and> content_reads pow10 gl g (ids \<noteq> None) xs"
    by (intro exI [of _ gl1] exI [of _ ts'] exI [of _ xs]) simp
qed

section \<open>Multi-geometries\<close>

lemma members_read_factors [simp]: "members_read pow10 (gl\<lparr>tg_factor := fs\<rparr>) = members_read pow10 gl"
proof -
  have e: "twkb_image pow10 (gl\<lparr>tg_factor := fs\<rparr>) = twkb_image pow10 gl" by (rule ext) simp
  show ?thesis by (intro ext) (simp only: members_read_def factors_irrelevant e)
qed

lemma multi_dispatch:
  assumes "t \<in> {MULTIPOINTTYPE, MULTILINETYPE, MULTIPOLYGONTYPE}" "tw_lwtype s = read_type t" "headed pow10 gl f s"
  shows "twkb_dispatch fuel pow10 s = lwmulti_from_twkb_state (multi_reader t) (multi_min t f) s"
  using assms headed_ndims [OF assms(3)]
  by (auto simp: twkb_dispatch_def read_type_def multi_reader_def multi_min_def lwmultipoint_from_twkb_state_def
      lwmultiline_from_twkb_state_def lwmultipoly_from_twkb_state_def)

lemma new_collection:
  "lwtype_is_collection t \<Longrightarrow> t \<noteq> TINTYPE \<Longrightarrow>
   lwcollection_construct_empty (read_type t) sr z m = Inr (LWCOLLECTION t (empty_head sr z m) 1 True [])"
  by (auto simp: lwcollection_construct_empty_def read_type_def lwtype_is_collection_def)

lemma image_head_new: "headed pow10 gl (flags h) s \<Longrightarrow> head_content (empty_head SRID_UNKNOWN (tw_has_z s) (tw_has_m s)) = image_head h"
  by (simp add: headed_def head_content_def empty_head_def image_head_def zm_flags_def)

lemma multi_content_reads:
  assumes t: "t \<in> {MULTIPOINTTYPE, MULTILINETYPE, MULTIPOLYGONTYPE}" and ne: "\<not> list_all lwgeom_is_empty gs"
    and gs: "ks = filter (\<lambda>g. \<not> skipped t g) gs" "length ks < 2 ^ 31" "length ks * multi_min t (flags h) \<le> length xs"
    and r: "members_read pow10 gl (flags h) t ks (replicate (FLAGS_NDIMS (flags h)) 0) xs q"
    and vs: "length vs = (if ids then length ks else 0)"
  shows "content_reads pow10 gl (LWCOLLECTION t h mg al gs) ids (count_bytes (length ks) vs @ xs)"
  unfolding content_reads_def
proof (intro allI impI)
  let ?g = "LWCOLLECTION t h mg al gs" and ?cs = "count_bytes (length ks) vs"
  fix s rest fuel
  assume i: "tw_input s = (?cs @ xs) @ rest" and s: "ready s (replicate (FLAGS_NDIMS (lwgeom_flags ?g)) 0)"
    "headed pow10 gl (lwgeom_flags ?g) s" "tw_lwtype s = read_type (lwgeom_get_type ?g)" "tw_has_idlist s = ids"
  have hd: "headed pow10 gl (flags h) s" "\<not> tw_is_empty s" using s(2) by (simp_all add: headed_def)
  have i0: "tw_input s = ?cs @ xs @ rest" using i by simp
  let ?s = "s\<lparr>tw_pos := tw_pos s + length ?cs\<rparr>" and ?h = "empty_head SRID_UNKNOWN (tw_has_z s) (tw_has_m s)"
  have c: "count_from_twkb_state (multi_min t (flags h)) s = Inr (length ks, ?s)"
    by (rule count_read [OF i0 gs(2,3)]) (use vs s(4) in simp)
  have i1: "tw_input ?s = xs @ rest" by (rule after_pair [OF i0])
  have "ready ?s (replicate (FLAGS_NDIMS (flags h)) 0)" "headed pow10 gl (flags h) ?s" "growable (LWCOLLECTION t ?h 1 True [])"
    using s(1) hd(1) by simp_all
  with r i1 gs(2) obtain mg' al' gs' c' where
    m: "geoms_from_twkb_state (multi_reader t) (length ks) (LWCOLLECTION t ?h 1 True []) ?s =
        Inr (LWCOLLECTION t ?h mg' al' gs', tw_at ?s (length xs) c')" "map lwgeom_content gs' = map (twkb_image pow10 gl) ks"
    unfolding members_read_def by (metis add_0 append_Nil list.size(3))
  have tc: "lwtype_is_collection t" "t \<noteq> TINTYPE" using t by (auto simp: lwtype_is_collection_def)
  have "twkb_dispatch fuel pow10 s = Inr (LWCOLLECTION t ?h mg' al' gs', tw_at ?s (length xs) c')"
    using multi_dispatch [OF t _ hd(1), of fuel] s(3) new_collection [OF tc] c m(1) hd(2)
    by (simp add: lwmulti_from_twkb_state_def)
  moreover have "lwgeom_content (LWCOLLECTION t ?h mg' al' gs') = twkb_image pow10 gl ?g"
    using m(2) ne tc(2) image_head_new [OF hd(1)] by (simp add: gs(1))
  moreover have "same_run s (length (?cs @ xs)) (tw_at ?s (length xs) c')" by (simp add: same_run_def)
  ultimately show "\<exists>g' s'. twkb_dispatch fuel pow10 s = Inr (g', s') \<and> lwgeom_content g' = twkb_image pow10 gl ?g \<and>
      same_run s (length (?cs @ xs)) s'" by blast
qed

lemma count_bytes_length: "length vs \<le> n \<Longrightarrow> length (count_bytes k vs) \<le> 10 + 10 * n"
  using varints_length [of vs] encode_length [of "of_nat k"] by (simp add: count_bytes_def)

definition ids_ok :: "u64 list option \<Rightarrow> lwgeom list \<Rightarrow> bool" where
  "ids_ok ids gs \<longleftrightarrow> (case ids of None \<Rightarrow> True | Some js \<Rightarrow> length gs \<le> length js)"

lemma sum_list_cost: "sum_list (map twkb_cost gs) \<le> sum_list (map (\<lambda>g. twkb_cost g + 200) gs)"
  by (rule sum_list_mono) simp

lemma multi_content:
  assumes t: "t \<in> {MULTIPOINTTYPE, MULTILINETYPE, MULTIPOLYGONTYPE}" and ne: "\<not> list_all lwgeom_is_empty gs"
    and g: "lwgeom_wf (LWCOLLECTION t h mg al gs)" "twkb_ok pow10 gl (LWCOLLECTION t h mg al gs)" and ids: "ids_ok ids gs"
  shows "content_written pow10 gl (LWCOLLECTION t h mg al gs) ids"
  unfolding content_written_def
proof (intro allI impI)
  let ?g = "LWCOLLECTION t h mg al gs" and ?p = "replicate (FLAGS_NDIMS (flags h)) 0" and ?ks = "filter (\<lambda>g. \<not> skipped t g) gs"
  let ?vs = "kept_ids t gs ids" and ?cs = "count_bytes (length (filter (\<lambda>g. \<not> skipped t g) gs)) (kept_ids t gs ids)"
  fix gl1 bs and ts :: twkb_state
  assume o: "same_options gl gl1" and st: "tuned pow10 gl1 (lwgeom_flags ?g)"
    "relative (FLAGS_NDIMS (lwgeom_flags ?g)) (replicate (FLAGS_NDIMS (lwgeom_flags ?g)) 0) ts"
    "holds (ts_geom_buf ts) bs" "length bs + twkb_cost ?g < 2 ^ 62" "ts_idlist ts = ids"
  have vs: "length ?vs = (if ids \<noteq> None then length ?ks else 0)"
    using kept_ids_length [where ids = ids and gs = gs and t = t] ids by (simp add: ids_ok_def)
  have kl: "length ?ks \<le> length gs" by (rule length_filter_le)
  have cl: "length ?cs \<le> 10 + 10 * length gs" by (rule count_bytes_length) (use vs kl in \<open>simp split: if_splits\<close>)
  have "length bs + (10 + 10 * length gs) < 2 ^ 62" using st(4) by simp
  from count_written [OF st(3) this, of t] ids st(5) obtain ts1 where
    c: "count_to_twkb_buf t gs ts = Inr ts1" "ts_accum_rels ts1 = ts_accum_rels ts" "holds (ts_geom_buf ts1) (bs @ ?cs)"
    by (auto simp: ids_ok_def)
  have mem: "list_all (member_ok pow10 gl1 t (flags h)) gs"
    using g t o by (auto simp: member_ok_def list_all_iff same_options_def)
  have rel: "relative (FLAGS_NDIMS (flags h)) ?p ts1" using st(2) c(2) by (simp add: relative_def)
  have tn: "tuned pow10 gl1 (flags h)" using st(1) by simp
  have "length (bs @ ?cs) + sum_list (map twkb_cost gs) < 2 ^ 62" using st(4) cl sum_list_cost [of gs] by simp
  from multi_members_written [OF t mem tn rel fits_zeros c(3) this] obtain ts' xs q where
    m: "members_to_twkb_buf pow10 t gs gl1 ts1 = Inr (gl1, ts')" "holds (ts_geom_buf ts') ((bs @ ?cs) @ xs)"
      "length ?ks * multi_min t (flags h) \<le> length xs" "length xs \<le> sum_list (map twkb_cost gs)"
      "members_read pow10 gl1 (flags h) t ?ks ?p xs q" by blast
  have same: "members_read pow10 gl1 (flags h) t ?ks ?p xs q = members_read pow10 gl (flags h) t ?ks ?p xs q"
    using o by (auto simp: same_options_def)
  have "length ?ks < 2 ^ 31" by (rule le_less_trans [OF kl]) (use g(2) in simp)
  from multi_content_reads [OF t ne refl this m(3) m(5) [unfolded same] vs]
  have r: "content_reads pow10 gl ?g (ids \<noteq> None) (?cs @ xs)" by simp
  have "lwgeom_to_twkb_buf pow10 ?g gl1 ts = Inr (gl1, ts')" using g(2) c(1) m(1) by auto
  moreover have "length (?cs @ xs) \<le> twkb_cost ?g" using cl m(4) sum_list_cost [of gs] by simp
  ultimately show "\<exists>gl2 ts2 xs. lwgeom_to_twkb_buf pow10 ?g gl1 ts = Inr (gl2, ts2) \<and> same_options gl gl2 \<and>
      holds (ts_geom_buf ts2) (bs @ xs) \<and> length xs \<le> twkb_cost ?g \<and> content_reads pow10 gl ?g (ids \<noteq> None) xs"
    using o m(2) r by (intro exI [of _ gl1] exI [of _ ts'] exI [of _ "?cs @ xs"]) simp
qed

section \<open>Collections\<close>

definition wholes_read :: "(int \<Rightarrow> double) \<Rightarrow> twkb_globals \<Rightarrow> lwgeom list \<Rightarrow> byte list \<Rightarrow> bool" where
  "wholes_read pow10 gl gs xs \<longleftrightarrow>
     (\<forall>s rest fuel h mg al acc. tw_input s = xs @ rest \<longrightarrow> \<not> has_bits (tw_check s) LW_PARSER_CHECK_MINPOINTS \<longrightarrow>
       list_all (\<lambda>g. lwgeom_depth g < fuel \<and> lwgeom_depth g + tw_depth s < LW_PARSER_MAX_DEPTH) gs \<longrightarrow>
       growable (LWCOLLECTION COLLECTIONTYPE h mg al acc) \<longrightarrow> length acc + length gs < 2 ^ 31 \<longrightarrow>
       (\<exists>mg' al' gs' s'. geoms_from_twkb_state (lwgeom_from_twkb_state fuel pow10) (length gs) (LWCOLLECTION COLLECTIONTYPE h mg al acc) s =
          Inr (LWCOLLECTION COLLECTIONTYPE h mg' al' (acc @ gs'), s') \<and>
        map lwgeom_content gs' = map (twkb_image pow10 gl) gs \<and> same_run s (length xs) s'))"

lemma wholes_read_Nil: "wholes_read pow10 gl [] []"
  unfolding wholes_read_def
proof (intro allI impI)
  fix s rest fuel h mg al acc
  show "\<exists>mg' al' gs' s'. geoms_from_twkb_state (lwgeom_from_twkb_state fuel pow10) (length []) (LWCOLLECTION COLLECTIONTYPE h mg al acc) s =
      Inr (LWCOLLECTION COLLECTIONTYPE h mg' al' (acc @ gs'), s') \<and>
    map lwgeom_content gs' = map (twkb_image pow10 gl) [] \<and> same_run s (length []) s'"
    by (intro exI [of _ mg] exI [of _ al] exI [of _ "[]"] exI [of _ s]) (simp add: same_run_def)
qed

lemma wholes_read_Cons:
  assumes g: "whole_reads pow10 gl g xs" and gs: "wholes_read pow10 gl gs ys"
  shows "wholes_read pow10 gl (g # gs) (xs @ ys)"
  unfolding wholes_read_def
proof (intro allI impI)
  fix s rest fuel h mg al acc
  let ?d = "\<lambda>s g. lwgeom_depth g < fuel \<and> lwgeom_depth g + tw_depth s < LW_PARSER_MAX_DEPTH"
  assume i: "tw_input s = (xs @ ys) @ rest" and chk: "\<not> has_bits (tw_check s) LW_PARSER_CHECK_MINPOINTS"
    and d: "list_all (?d s) (g # gs)"
    and c: "growable (LWCOLLECTION COLLECTIONTYPE h mg al acc)" "length acc + length (g # gs) < 2 ^ 31"
  have i1: "tw_input s = xs @ ys @ rest" using i by simp
  have d1: "lwgeom_depth g < fuel" "lwgeom_depth g + tw_depth s < LW_PARSER_MAX_DEPTH" using d by simp_all
  from g i1 chk d1 obtain g' s1 where
    r1: "lwgeom_from_twkb_state fuel pow10 s = Inr (g', s1)" "lwgeom_content g' = twkb_image pow10 gl g" "same_run s (length xs) s1"
    unfolding whole_reads_def by blast
  have "length acc < 2 ^ 31" "lwcollection_allows_subtype COLLECTIONTYPE (lwgeom_get_type g')"
    using c(2) by (simp_all add: lwcollection_allows_subtype_def)
  from lwcollection_add_lwgeom_ok [OF c(1) this] obtain mg1 where
    add: "lwcollection_add_lwgeom (LWCOLLECTION COLLECTIONTYPE h mg al acc) g' = Inr (LWCOLLECTION COLLECTIONTYPE h mg1 True (acc @ [g']))"
      "growable (LWCOLLECTION COLLECTIONTYPE h mg1 True (acc @ [g']))" by blast
  have i2: "tw_input s1 = ys @ rest" by (rule same_run_input [OF r1(3) i1])
  have s1: "\<not> has_bits (tw_check s1) LW_PARSER_CHECK_MINPOINTS" "list_all (?d s1) gs" "length (acc @ [g']) + length gs < 2 ^ 31"
    using chk d c(2) r1(3) by (simp_all add: same_run_def)
  from gs i2 s1(1,2) add(2) s1(3) obtain mg' al' gs' s2 where
    r2: "geoms_from_twkb_state (lwgeom_from_twkb_state fuel pow10) (length gs) (LWCOLLECTION COLLECTIONTYPE h mg1 True (acc @ [g'])) s1 =
        Inr (LWCOLLECTION COLLECTIONTYPE h mg' al' ((acc @ [g']) @ gs'), s2)"
      "map lwgeom_content gs' = map (twkb_image pow10 gl) gs" "same_run s1 (length ys) s2"
    unfolding wholes_read_def by meson
  have "geoms_from_twkb_state (lwgeom_from_twkb_state fuel pow10) (length (g # gs)) (LWCOLLECTION COLLECTIONTYPE h mg al acc) s =
      Inr (LWCOLLECTION COLLECTIONTYPE h mg' al' (acc @ g' # gs'), s2)"
    using r1(1) add(1) r2(1) by simp
  moreover have "same_run s (length (xs @ ys)) s2" using same_run_trans [OF r1(3) r2(3)] by simp
  ultimately show "\<exists>mg' al' gs' s'. geoms_from_twkb_state (lwgeom_from_twkb_state fuel pow10) (length (g # gs))
        (LWCOLLECTION COLLECTIONTYPE h mg al acc) s = Inr (LWCOLLECTION COLLECTIONTYPE h mg' al' (acc @ gs'), s') \<and>
      map lwgeom_content gs' = map (twkb_image pow10 gl) (g # gs) \<and> same_run s (length (xs @ ys)) s'"
    using r1(2) r2(2) by (intro exI [of _ mg'] exI [of _ al'] exI [of _ "g' # gs'"] exI [of _ s2]) simp
qed

lemma wholes_written:
  assumes t: "t \<in> {COLLECTIONTYPE, TINTYPE}"
  shows "list_all (\<lambda>g. whole_written pow10 gl g None) gs \<Longrightarrow> same_options gl gl1 \<Longrightarrow> holds (ts_geom_buf ts) bs \<Longrightarrow> ts_idlist ts = None \<Longrightarrow>
    length bs + sum_list (map (\<lambda>g. twkb_cost g + 200) gs) < 2 ^ 62 \<Longrightarrow>
    \<exists>gl2 ts2 xs. members_to_twkb_buf pow10 t gs gl1 ts = Inr (gl2, ts2) \<and> same_options gl gl2 \<and> holds (ts_geom_buf ts2) (bs @ xs) \<and>
      length gs * 2 \<le> length xs \<and> length xs \<le> sum_list (map (\<lambda>g. twkb_cost g + 200) gs) \<and> wholes_read pow10 gl gs xs"
proof (induction gs arbitrary: gl1 ts bs)
  case Nil
  then show ?case using wholes_read_Nil by (intro exI [of _ gl1] exI [of _ ts] exI [of _ "[]"]) simp
next
  case (Cons g gs)
  have g: "whole_written pow10 gl g None" and gs: "list_all (\<lambda>g. whole_written pow10 gl g None) gs" using Cons.prems(1) by simp_all
  have "length bs + (twkb_cost g + 200) < 2 ^ 62" using Cons.prems(5) by simp
  with g Cons.prems(2-4) obtain gl2 ts2 xs where
    1: "write_whole pow10 g (lwgeom_to_twkb_buf pow10 g) gl1 ts = Inr (gl2, ts2)" "same_options gl gl2" "holds (ts_geom_buf ts2) (bs @ xs)"
      "2 \<le> length xs" "length xs \<le> twkb_cost g + 200" "moved ts ts2" "whole_reads pow10 gl g xs"
    unfolding whole_written_def by meson
  have n: "ts_idlist ts2 = None" using 1(6) Cons.prems(4) by (simp add: moved_def)
  have "length (bs @ xs) + sum_list (map (\<lambda>g. twkb_cost g + 200) gs) < 2 ^ 62" using Cons.prems(5) 1(5) by simp
  from Cons.IH [OF gs 1(2,3) n this] obtain gl3 ts3 ys where
    2: "members_to_twkb_buf pow10 t gs gl2 ts2 = Inr (gl3, ts3)" "same_options gl gl3" "holds (ts_geom_buf ts3) ((bs @ xs) @ ys)"
      "length gs * 2 \<le> length ys" "length ys \<le> sum_list (map (\<lambda>g. twkb_cost g + 200) gs)" "wholes_read pow10 gl gs ys" by blast
  have "\<not> skipped t g" using t by (auto simp: skipped_def)
  with t 1(1) 2(1) have "members_to_twkb_buf pow10 t (g # gs) gl1 ts = Inr (gl3, ts3)" by auto
  with 2 1(4,5) wholes_read_Cons [OF 1(7) 2(6)] show ?case
    by (intro exI [of _ gl3] exI [of _ ts3] exI [of _ "xs @ ys"]) simp
qed

lemma collection_content_reads:
  assumes t: "t \<in> {COLLECTIONTYPE, TINTYPE}" and ne: "\<not> list_all lwgeom_is_empty gs"
    and gs: "length gs < 2 ^ 31" "length gs * 2 \<le> length xs"
    and r: "wholes_read pow10 gl gs xs" and vs: "length vs = (if ids then length gs else 0)"
  shows "content_reads pow10 gl (LWCOLLECTION t h mg al gs) ids (count_bytes (length gs) vs @ xs)"
  unfolding content_reads_def
proof (intro allI impI)
  let ?g = "LWCOLLECTION t h mg al gs" and ?cs = "count_bytes (length gs) vs"
  fix s rest fuel
  assume i: "tw_input s = (?cs @ xs) @ rest" and s: "headed pow10 gl (lwgeom_flags ?g) s" "tw_lwtype s = read_type (lwgeom_get_type ?g)"
    "tw_has_idlist s = ids" and d: "lwgeom_depth ?g \<le> fuel" "lwgeom_depth ?g + tw_depth s < LW_PARSER_MAX_DEPTH"
  have hd: "headed pow10 gl (flags h) s" "\<not> tw_is_empty s" "\<not> has_bits (tw_check s) LW_PARSER_CHECK_MINPOINTS"
    using s(1) by (simp_all add: headed_def)
  have lt: "tw_lwtype s = COLLECTIONTYPE" using s(2) t by (auto simp: read_type_def)
  have i0: "tw_input s = ?cs @ xs @ rest" using i by simp
  let ?s = "s\<lparr>tw_pos := tw_pos s + length ?cs, tw_depth := tw_depth s + 1\<rparr>" and ?h = "empty_head SRID_UNKNOWN (tw_has_z s) (tw_has_m s)"
  have c: "count_from_twkb_state 2 s = Inr (length gs, s\<lparr>tw_pos := tw_pos s + length ?cs\<rparr>)"
    by (rule count_read [OF i0 gs]) (use vs s(3) in simp)
  have i1: "tw_input ?s = xs @ rest" using after_pair [OF i0] by (simp add: tw_input_def)
  have "gs \<noteq> []" using ne by auto
  then have dp: "tw_depth s + 1 < LW_PARSER_MAX_DEPTH" using d(2) by simp
  have "list_all (\<lambda>g. lwgeom_depth g < fuel \<and> lwgeom_depth g + tw_depth ?s < LW_PARSER_MAX_DEPTH) gs"
    unfolding list_all_iff
  proof
    fix g assume "g \<in> set gs"
    from lwgeom_depth_member [OF this, of t h mg al] d
    show "lwgeom_depth g < fuel \<and> lwgeom_depth g + tw_depth ?s < LW_PARSER_MAX_DEPTH" by simp
  qed
  moreover have "\<not> has_bits (tw_check ?s) LW_PARSER_CHECK_MINPOINTS" "growable (LWCOLLECTION COLLECTIONTYPE ?h 1 True [])" using hd(3) by simp_all
  ultimately obtain mg' al' gs' s' where
    m: "geoms_from_twkb_state (lwgeom_from_twkb_state fuel pow10) (length gs) (LWCOLLECTION COLLECTIONTYPE ?h 1 True []) ?s =
        Inr (LWCOLLECTION COLLECTIONTYPE ?h mg' al' gs', s')" "map lwgeom_content gs' = map (twkb_image pow10 gl) gs"
      "same_run ?s (length xs) s'"
    using r [unfolded wholes_read_def, rule_format, OF i1, of fuel ?h 1 True "[]"] gs(1) by auto
  have new: "lwcollection_construct_empty COLLECTIONTYPE SRID_UNKNOWN (tw_has_z s) (tw_has_m s) =
      Inr (LWCOLLECTION COLLECTIONTYPE ?h 1 True [])"
    by (simp add: lwcollection_construct_empty_def lwtype_is_collection_def)
  have "twkb_dispatch fuel pow10 s = Inr (LWCOLLECTION COLLECTIONTYPE ?h mg' al' gs', s'\<lparr>tw_depth := tw_depth s' - 1\<rparr>)"
    using lt new c m(1) hd(2) dp by (simp add: twkb_dispatch_def lwcollection_from_twkb_state_def)
  moreover have "filter (\<lambda>g. \<not> skipped t g) gs = gs" using t by (intro filter_True) (auto simp: skipped_def)
  then have "lwgeom_content (LWCOLLECTION COLLECTIONTYPE ?h mg' al' gs') = twkb_image pow10 gl ?g"
    using m(2) ne t image_head_new [OF hd(1)] by auto
  moreover have "same_run s (length (?cs @ xs)) (s'\<lparr>tw_depth := tw_depth s' - 1\<rparr>)" using m(3) by (simp add: same_run_def)
  ultimately show "\<exists>g' s'. twkb_dispatch fuel pow10 s = Inr (g', s') \<and> lwgeom_content g' = twkb_image pow10 gl ?g \<and>
      same_run s (length (?cs @ xs)) s'" by blast
qed

lemma collection_content:
  assumes t: "t \<in> {COLLECTIONTYPE, TINTYPE}" and ne: "\<not> list_all lwgeom_is_empty gs" and n: "length gs < 2 ^ 31"
    and gs: "list_all (\<lambda>g. whole_written pow10 gl g None) gs" and ids: "ids_ok ids gs"
  shows "content_written pow10 gl (LWCOLLECTION t h mg al gs) ids"
  unfolding content_written_def
proof (intro allI impI)
  let ?g = "LWCOLLECTION t h mg al gs" and ?cs = "count_bytes (length gs) (kept_ids t gs ids)"
  fix gl1 bs and ts :: twkb_state
  assume o: "same_options gl gl1" and st: "holds (ts_geom_buf ts) bs" "length bs + twkb_cost ?g < 2 ^ 62" "ts_idlist ts = ids"
  have ks: "filter (\<lambda>g. \<not> skipped t g) gs = gs" using t by (intro filter_True) (auto simp: skipped_def)
  have vs: "length (kept_ids t gs ids) = (if ids \<noteq> None then length gs else 0)"
    using kept_ids_length [where ids = ids and gs = gs and t = t] ids by (simp add: ids_ok_def ks)
  have cl: "length ?cs \<le> 10 + 10 * length gs" by (rule count_bytes_length) (simp add: vs)
  have "length bs + (10 + 10 * length gs) < 2 ^ 62" using st(2) by simp
  from count_written [OF st(1) this, of t] ids st(3) obtain ts1 where
    c: "count_to_twkb_buf t gs ts = Inr ts1" "ts_idlist ts1 = None" "holds (ts_geom_buf ts1) (bs @ ?cs)"
    by (auto simp: ids_ok_def ks)
  have "length (bs @ ?cs) + sum_list (map (\<lambda>g. twkb_cost g + 200) gs) < 2 ^ 62" using st(2) cl by simp
  from wholes_written [OF t gs o c(3,2) this] obtain gl2 ts2 xs where
    m: "members_to_twkb_buf pow10 t gs gl1 ts1 = Inr (gl2, ts2)" "same_options gl gl2" "holds (ts_geom_buf ts2) ((bs @ ?cs) @ xs)"
      "length gs * 2 \<le> length xs" "length xs \<le> sum_list (map (\<lambda>g. twkb_cost g + 200) gs)" "wholes_read pow10 gl gs xs" by blast
  note r = collection_content_reads [OF t ne n m(4,6) vs, of h mg al]
  have "lwgeom_to_twkb_buf pow10 ?g gl1 ts = Inr (gl2, ts2)" using t c(1) m(1) by auto
  moreover have "length (?cs @ xs) \<le> twkb_cost ?g" using cl m(5) by simp
  ultimately show "\<exists>gl2 ts2 xs. lwgeom_to_twkb_buf pow10 ?g gl1 ts = Inr (gl2, ts2) \<and> same_options gl gl2 \<and>
      holds (ts_geom_buf ts2) (bs @ xs) \<and> length xs \<le> twkb_cost ?g \<and> content_reads pow10 gl ?g (ids \<noteq> None) xs"
    using m(2,3) r by (intro exI [of _ gl2] exI [of _ ts2] exI [of _ "?cs @ xs"]) simp
qed

section \<open>Every geometry\<close>

lemma ok_type: "lwgeom_wf g \<Longrightarrow> twkb_ok pow10 gl g \<Longrightarrow> \<exists>n. lwgeom_twkb_type (lwgeom_get_type g) = Inr n"
  by (cases g) (auto simp: lwgeom_twkb_type_def)

lemma leaf_whole:
  assumes gl: "precs_ok gl" and g: "\<not> lwtype_is_collection (lwgeom_get_type g)" "lwgeom_wf g" "twkb_ok pow10 gl g"
  shows "whole_written pow10 gl g ids"
proof -
  obtain n where n: "lwgeom_twkb_type (lwgeom_get_type g) = Inr n" using ok_type [OF g(2,3)] by blast
  show ?thesis
  proof (cases "lwgeom_is_empty g")
    case True
    then show ?thesis by (rule empty_whole_written [OF g(2,3) _ gl n])
  next
    case False
    then show ?thesis by (intro full_whole_written [OF False gl n] leaf_content [OF g])
  qed
qed

definition top_ids :: "u64 list option \<Rightarrow> lwgeom \<Rightarrow> bool" where
  "top_ids ids g \<longleftrightarrow> (case ids of None \<Rightarrow> True
     | Some js \<Rightarrow> (case g of LWCOLLECTION t h mg al gs \<Rightarrow> length gs \<le> length js | _ \<Rightarrow> False))"

lemma every_whole_written:
  assumes gl: "precs_ok gl"
  shows "lwgeom_wf g \<Longrightarrow> twkb_ok pow10 gl g \<Longrightarrow> top_ids ids g \<Longrightarrow> whole_written pow10 gl g ids"
proof (induction g arbitrary: ids)
  case (LWCOLLECTION t h mg al gs)
  let ?g = "LWCOLLECTION t h mg al gs"
  obtain n where n: "lwgeom_twkb_type (lwgeom_get_type ?g) = Inr n" using ok_type [OF LWCOLLECTION.prems(1,2)] by blast
  have ids: "ids_ok ids gs" using LWCOLLECTION.prems(3) by (simp add: top_ids_def ids_ok_def split: option.splits)
  show ?case
  proof (cases "lwgeom_is_empty ?g")
    case True
    then show ?thesis by (rule empty_whole_written [OF LWCOLLECTION.prems(1,2) _ gl n])
  next
    case False
    then have ne: "\<not> list_all lwgeom_is_empty gs" using LWCOLLECTION.prems(1) by simp
    have t: "t \<in> {COLLECTIONTYPE, TINTYPE} \<or> t \<in> {MULTIPOINTTYPE, MULTILINETYPE, MULTIPOLYGONTYPE}" "length gs < 2 ^ 31"
      using LWCOLLECTION.prems(2) by auto
    have "list_all (\<lambda>g. whole_written pow10 gl g None) gs"
      using LWCOLLECTION.IH LWCOLLECTION.prems(1,2) by (auto simp: list_all_iff top_ids_def)
    with t collection_content [OF _ ne t(2) _ ids] multi_content [OF _ ne LWCOLLECTION.prems(1,2) ids]
    have "content_written pow10 gl ?g ids" by blast
    then show ?thesis by (rule full_whole_written [OF False gl n])
  qed
qed (rule leaf_whole [OF gl]; simp add: lwtype_is_collection_def)+

section \<open>What is meant\<close>

text \<open>
  The format says that a coordinate is rounded to an integer number of \<open>10^-p\<close>, for the precision
  \<open>p\<close> of its axis. The geometry meant has each coordinate on that grid, and no point that has come to
  equal its predecessor, as long as enough points are left. There is one factor for an axis here: the writer keeps
  its factors as \<open>float\<close>, which is the same only where the power of ten is a \<open>float\<close>.
\<close>

definition axis_factors :: "(int \<Rightarrow> double) \<Rightarrow> twkb_globals \<Rightarrow> pointarray \<Rightarrow> double list" where
  "axis_factors pow10 gl pa = map (\<lambda>p. pow10 (sint p))
     ([tg_prec_xy gl, tg_prec_xy gl] @ (if hasz (pflags pa) then [tg_prec_z gl] else []) @ (if hasm (pflags pa) then [tg_prec_m gl] else []))"

definition meant_pa :: "(int \<Rightarrow> double) \<Rightarrow> twkb_globals \<Rightarrow> nat \<Rightarrow> pointarray \<Rightarrow> pointarray" where
  "meant_pa pow10 gl minpoints pa =
     (let fs = axis_factors pow10 gl pa;
          grid = kept minpoints (map (map2 (\<lambda>f x. llround (dbl_mul f x)) fs) (rows pa))
      in \<lparr>npoints = length grid, maxpoints = length grid, pflags = zm_flags (pflags pa),
          ptlist = concat (map (map2 (\<lambda>f v. dbl_div (dbl_of_int (sint v)) f) fs) grid)\<rparr>)"

fun twkb_meant :: "(int \<Rightarrow> double) \<Rightarrow> twkb_globals \<Rightarrow> lwgeom \<Rightarrow> lwgeom" where
  "twkb_meant pow10 gl (LWPOINT h pa) = LWPOINT (image_head h) (meant_pa pow10 gl 1 pa)"
| "twkb_meant pow10 gl (LWLINE h pa) = LWLINE (image_head h) (meant_pa pow10 gl 2 pa)"
| "twkb_meant pow10 gl (LWTRIANGLE h pa) = LWPOLY (image_head h) 0 (if npoints pa = 0 then [] else [meant_pa pow10 gl 2 pa])"
| "twkb_meant pow10 gl (LWPOLY h mr rs) = LWPOLY (image_head h) 0 (map (meant_pa pow10 gl 4) rs)"
| "twkb_meant pow10 gl (LWCOLLECTION t h mg al gs) =
     LWCOLLECTION (if t = TINTYPE then COLLECTIONTYPE else t) (image_head h) 0 False
       (if list_all lwgeom_is_empty gs then [] else map (twkb_meant pow10 gl) (filter (\<lambda>g. \<not> skipped t g) gs))"
| "twkb_meant pow10 gl g = g"

definition exact_factors :: "(int \<Rightarrow> double) \<Rightarrow> twkb_globals \<Rightarrow> bool" where
  "exact_factors pow10 gl \<longleftrightarrow>
     list_all (\<lambda>p. dbl_of_float (float_of_dbl (pow10 (sint p))) = pow10 (sint p)) [tg_prec_xy gl, tg_prec_z gl, tg_prec_m gl]"

lemma meant_image_pa: "exact_factors pow10 gl \<Longrightarrow> image_pa pow10 gl m pa = meant_pa pow10 gl m pa"
  by (simp add: image_pa_def meant_pa_def quant_rows_def write_factors_def read_factors_def axis_factors_def float_factor_def
      exact_factors_def quant_def [abs_def] coords_of_def [abs_def] Let_def)

lemma meant_image: "exact_factors pow10 gl \<Longrightarrow> twkb_image pow10 gl g = twkb_meant pow10 gl g"
  by (induction g) (simp_all add: meant_image_pa)

text \<open>The precisions 0 to 7 are exact wherever \<open>pow\<close> is.\<close>

definition powers_of_ten :: "double list" where
  "powers_of_ten = [0x3FF0000000000000, 0x4024000000000000, 0x4059000000000000, 0x408F400000000000,
     0x40C3880000000000, 0x40F86A0000000000, 0x412E848000000000, 0x416312D000000000]"

lemma powers_of_ten_floats: "list_all (\<lambda>d. dbl_of_float (float_of_dbl d) = d) powers_of_ten"
  by (simp add: powers_of_ten_def dbl_of_float_def float_of_dbl_def flt_pack_def mag_narrow_def mag_widen_def flt_mag_def
      flt_neg_def float64_eval)

lemma powers_of_ten_values: "map (\<lambda>d. mag_val 52 (dbl_mag d)) powers_of_ten = map (\<lambda>k. 10 ^ k * 2 ^ 1074) [0..<8]"
  by (simp add: powers_of_ten_def dbl_mag_def unsigned_take_bit_eq take_bit_eq_mod mag_val_def upt_conv_Cons)

lemma small_precisions_exact:
  assumes "\<And>p. 0 \<le> p \<Longrightarrow> p < 8 \<Longrightarrow> pow10 p = powers_of_ten ! nat p"
    and "list_all (\<lambda>p. 0 \<le> sint p \<and> sint p < 8) [tg_prec_xy gl, tg_prec_z gl, tg_prec_m gl]"
  shows "exact_factors pow10 gl"
proof -
  have "dbl_of_float (float_of_dbl (pow10 p)) = pow10 p" if "0 \<le> p" "p < 8" for p
  proof -
    have "nat p < length powers_of_ten" using that by (simp add: powers_of_ten_def nat_less_iff)
    with powers_of_ten_floats show ?thesis by (simp only: assms(1) [OF that] list_all_length)
  qed
  with assms(2) show ?thesis by (simp add: exact_factors_def)
qed

section \<open>The round trip\<close>

text \<open>
  C6. What the Tiny WKB writer writes is read back: as the geometry that was meant, coordinates rounded to the precision and
  points that then repeat their predecessor thinned out, when the powers of ten for the precisions are exact as
  \<open>float\<close>, which they are for the precisions 0 to 7; for other precisions as the same with the writer's own factors (a
  negative precision drifts, as \<open>negative_precision_drifts\<close> shows). This holds for points, lines, triangles and
  polygons, their multi-geometries, TINs and nested collections, with any dimensions and options, and with a list of ids
  when it has enough of them. Rings must be closed and not empty (the writer also writes empty rings, which the reader refuses), coordinates
  must leave room in 64 bits, multi-geometries have one dimension, and the reader must not check the number of points.
\<close>
theorem lwgeom_twkb_roundtrip:
  assumes g: "lwgeom_wf g" "twkb_ok pow10 gl g" "lwgeom_depth g < LW_PARSER_MAX_DEPTH" "twkb_cost g + 200 < 2 ^ 62"
    and gl: "precs_ok gl" and ids: "top_ids ids g" and chk: "\<not> has_bits chk LW_PARSER_CHECK_MINPOINTS"
  shows "\<exists>bs g'. lwgeom_to_twkb_with_idlist be pow10 g ids (tg_variant gl) (tg_prec_xy gl) (tg_prec_z gl) (tg_prec_m gl) =
      Inr (lwvarlena_set be (length bs + LWVARHDRSZ) bs) \<and>
    lwgeom_from_twkb pow10 bs chk = Inr g' \<and> lwgeom_content g' = twkb_image pow10 gl g \<and>
    (exact_factors pow10 gl \<longrightarrow> lwgeom_content g' = twkb_meant pow10 gl g)"
proof -
  let ?gl = "gl\<lparr>tg_factor := [0, 0, 0, 0]\<rparr>"
  let ?ts = "\<lparr>ts_header_buf = None, ts_geom_buf = bytebuffer_init_with_size 512, ts_idlist = ids, ts_bbox_min = [0, 0, 0, 0],
        ts_bbox_max = [0, 0, 0, 0], ts_accum_rels = [0, 0, 0, 0]\<rparr> :: twkb_state"
  have o: "same_options gl ?gl" unfolding same_options_def by (rule exI [of _ "[0, 0, 0, 0]"]) simp
  have b: "holds (ts_geom_buf ?ts) []" using init_holds [of 512] by simp
  from every_whole_written [OF gl g(1,2) ids] o b g(4) obtain gl2 ts2 xs where
    w: "write_whole pow10 g (lwgeom_to_twkb_buf pow10 g) ?gl ?ts = Inr (gl2, ts2)" "holds (ts_geom_buf ts2) xs" "whole_reads pow10 gl g xs"
    unfolding whole_written_def by fastforce
  have ic: "\<not> (ids \<noteq> None \<and> \<not> lwtype_is_collection (lwgeom_get_type g))"
    using ids g(1) by (cases g) (auto simp: top_ids_def split: option.splits)
  have e: "?gl = \<lparr>tg_variant = tg_variant gl, tg_prec_xy = tg_prec_xy gl, tg_prec_z = tg_prec_z gl, tg_prec_m = tg_prec_m gl,
      tg_factor = [0, 0, 0, 0]\<rparr>" by simp
  have "length xs < 2 ^ 62" using w(2) by (simp add: holds_def)
  then have out: "lwgeom_to_twkb_with_idlist be pow10 g ids (tg_variant gl) (tg_prec_xy gl) (tg_prec_z gl) (tg_prec_m gl) =
      Inr (lwvarlena_set be (length xs + LWVARHDRSZ) xs)"
    unfolding lwgeom_to_twkb_with_idlist_def lwgeom_write_to_buffer_def using w(1,2) ic
    by (simp add: e require_def bytebuffer_get_buffer_varlena_def holds_get holds_length)
  have "tw_input (twkb_initial_state xs chk) = xs @ []" "tw_depth (twkb_initial_state xs chk) = 0" "tw_check (twkb_initial_state xs chk) = chk"
    by (simp_all add: twkb_initial_state_def tw_input_def)
  with w(3) g(3) chk obtain g' s' where
    "lwgeom_from_twkb_state LW_PARSER_MAX_DEPTH pow10 (twkb_initial_state xs chk) = Inr (g', s')" "lwgeom_content g' = twkb_image pow10 gl g"
    unfolding whole_reads_def by fastforce
  with out meant_image [of pow10 gl g] show ?thesis by (auto simp: lwgeom_from_twkb_def)
qed

text \<open>A collection of a point and a line with a repeated point, with its box, its size and the ids 7 and -1.\<close>

abbreviation flat_head :: lwhead where
  "flat_head \<equiv> \<lparr>bbox = None, srid = SRID_UNKNOWN, flags = lwflags False False False\<rparr>"

abbreviation flat_points :: "double list \<Rightarrow> pointarray" where
  "flat_points l \<equiv> \<lparr>npoints = length l div 2, maxpoints = length l div 2, pflags = lwflags False False False, ptlist = l\<rparr>"

abbreviation dbl_two :: double where "dbl_two \<equiv> 0x4000000000000000"

abbreviation point_and_line :: lwgeom where
  "point_and_line \<equiv> LWCOLLECTION COLLECTIONTYPE flat_head 2 True
     [LWPOINT flat_head (flat_points [dbl_one, dbl_two]),
      LWLINE flat_head (flat_points [dbl_one, dbl_one, dbl_one, dbl_one, dbl_two, 0])]"

definition boxed_options :: "twkb_globals" where
  "boxed_options = \<lparr>tg_variant = TWKB_BBOX OR TWKB_SIZE, tg_prec_xy = 0, tg_prec_z = 0, tg_prec_m = 0, tg_factor = []\<rparr>"

lemma quant_one: "list_all (\<lambda>d. dbl_mag d < 2001 * 2 ^ 52) r \<Longrightarrow> quant (replicate (length r) dbl_one) r = map llround r"
proof (induction r)
  case (Cons d r)
  then have "dbl_mul dbl_one d = d" by (intro dbl_mul_one) simp
  with Cons show ?case by (simp add: quant_def)
qed (simp add: quant_def)

lemma llround_small: "llround 0 = 0" "llround dbl_one = 1" "llround dbl_two = 2"
  by (simp_all add: llround_def dbl_isfinite_def dbl_unit_def float64_eval)

lemma quant_small: "quant [dbl_one, dbl_one] [a, b] = [llround a, llround b]" if "a \<in> {0, dbl_one, dbl_two}" "b \<in> {0, dbl_one, dbl_two}"
  using that quant_one [of "[a, b]"] by (auto simp: dbl_mag_def unsigned_take_bit_eq take_bit_eq_mod)

lemma point_and_line_ok: "twkb_ok (\<lambda>p. dbl_one) boxed_options point_and_line"
  by (simp add: pa_fits_def quant_rows_def rows_def pa_point_def FLAGS_NDIMS_def write_factors_def float_factor_one upt_conv_Cons
      quant_small llround_small fits_def)

theorem lwgeom_twkb_roundtrip_witness:
  "\<exists>bs g'. lwgeom_to_twkb_with_idlist False (\<lambda>p. dbl_one) point_and_line (Some [7, -1]) (TWKB_BBOX OR TWKB_SIZE) 0 0 0 =
      Inr (lwvarlena_set False (length bs + LWVARHDRSZ) bs) \<and>
    lwgeom_from_twkb (\<lambda>p. dbl_one) bs 0 = Inr g' \<and> lwgeom_content g' = twkb_meant (\<lambda>p. dbl_one) boxed_options point_and_line"
proof -
  have exact: "exact_factors (\<lambda>p. dbl_one) boxed_options"
    using float_factor_one by (simp add: exact_factors_def float_factor_def)
  have wf: "lwgeom_wf point_and_line" "lwgeom_depth point_and_line < LW_PARSER_MAX_DEPTH" "twkb_cost point_and_line + 200 < 2 ^ 62"
    by (simp_all add: pa_wf_def FLAGS_NDIMS_def lwcollection_allows_subtype_def lwtype_is_collection_def)
  have opts: "precs_ok boxed_options" "top_ids (Some [7, -1]) point_and_line" "\<not> has_bits 0 LW_PARSER_CHECK_MINPOINTS"
    by (simp_all add: top_ids_def precs_ok_def boxed_options_def)
  have sel: "tg_variant boxed_options = TWKB_BBOX OR TWKB_SIZE" "tg_prec_xy boxed_options = 0"
    "tg_prec_z boxed_options = 0" "tg_prec_m boxed_options = 0" by (simp_all only: boxed_options_def twkb_globals.simps)
  from lwgeom_twkb_roundtrip [OF wf(1) point_and_line_ok wf(2,3) opts, where be = False] exact
  show ?thesis unfolding sel by blast
qed

end
