(* ===== verification/Spec2Isabelle.thy ===== *)
theory Spec2Isabelle
  imports Prelude Varint UnionFind IEEE754 Float32 LWTypes GBox WKBOut WKBIn WKBSafe WKBReadBack WKBRoundTrip
    GSerialized2 GS2Read GS2Safe GS2Peek GS2Write GS2RoundTrip GS2Header GS2Box Float64 GSCompare
    IndexSearch Gist2D CmpSort Gist2DSplit Gist2DSplitOk SPGist2D SPGist2DBuild LWIterator
    RasterNum RasterBand RasterBandOk RasterCodec RasterSerial RasterWKB RasterWKBOk RasterWKBRT
    PTArray PTArrayOk TWKBIn TWKBSafe ByteBuffer TWKBOut TWKBFactor TWKBBytes TWKBRoundTrip TWKBHeader TWKBWhole
    TWKBMembers TWKBExact
begin

text \<open>
  PostGIS stores geometries and rasters in PostgreSQL tables. This library models the parts of it
  in which a fault corrupts data or loses rows: the forms in which geometries and rasters are
  exchanged and stored, their bounding boxes, the order of stored geometries, the 2D index classes,
  and the data structures that clustering and iteration rest on. The code is translated from the C
  sources, file by file, with the names of the functions kept; the theories import each other along
  the calls.

  How the parts interact. A geometry (\<open>LWTypes\<close>) comes from outside as WKB (\<open>WKBIn\<close>), gets its
  bounding box (\<open>GBox\<close>), which is rounded outwards to floats (\<open>Float32\<close>), and is stored as a
  \<open>GSERIALIZED\<close> (\<open>GS2Write\<close>, \<open>GS2Header\<close>). The stored bytes are validated and read again
  (\<open>GSerialized2\<close>, \<open>GS2Read\<close>), compared (\<open>GSCompare\<close>) and indexed by their boxes (\<open>Gist2D\<close>,
  \<open>SPGist2D\<close>). They leave as WKB (\<open>WKBOut\<close>). Rasters go the same way: bands of pixels
  (\<open>RasterBand\<close>), a stored form (\<open>RasterSerial\<close>) and an exchange form (\<open>RasterWKB\<close>).

  Conventions. A call of \<open>lwerror\<close> or \<open>rterror\<close> does not return, and is \<open>Inl (LwError m)\<close> with
  the format string of the call. A memory access outside of what is allocated is \<open>Inl MemFault\<close>:
  safety statements say that this value does not arise. Pointers into a buffer are offsets; a
  buffer is the list of its bytes. Machine integers are words, so wrap-around is that of the code;
  offsets and lengths that the code keeps in \<open>size_t\<close> are natural numbers. A \<open>double\<close> is its bit pattern
  (\<open>IEEE754\<close>), with comparison and, where the code computes, arithmetic that rounds to nearest
  (\<open>Float64\<close>); a \<open>float\<close> likewise (\<open>Float32\<close>). The byte order of the machine is a parameter of
  the WKB theories; the stored forms are modelled on a little-endian machine. What comes from
  outside the sources is a parameter with the property that is relied on as a hypothesis:
  \<open>qsort\<close> (a sorted permutation), \<open>pow\<close> (in Tiny WKB), boxes of arcs and of
  geodetic geometries (trigonometry), GDAL's loading of out-db pixels, and the content of
  memory that was allocated and not written.

  The theories and the sources:

  \<^item> \<open>Prelude\<close>: the error type, the sequencing \<open>bindE\<close>, \<open>require\<close>, little-endian bytes, access to
    memory, and the locale of codecs.
  \<^item> \<open>IEEE754\<close>, \<open>Float32\<close>, \<open>Float64\<close>: numbers. \<open>Float32\<close> models \<open>next_float_down\<close> and
    \<open>next_float_up\<close> of lwgeom_api.c, and shows that they are the closest safe roundings.
  \<^item> \<open>Varint\<close> (liblwgeom/varint.c): the decoder computes what the LEB128 format means, rejects
    the rest, and inverts the encoder.
  \<^item> \<open>UnionFind\<close> (liblwgeom/lwunionfind.c): every sequence of unions has the connected components
    as its clusters, in trees of logarithmic depth; the numbering is dense.
  \<^item> \<open>LWTypes\<close> (liblwgeom.h.in, lwgeom.c, ptarray.c, lwpoint.c, lwline.c, lwpoly.c, lwcollection.c,
    lwcurvepoly.c, lwnurbscurve.c and others): the data of the fifteen geometry types and of NURBS
    curves, flags, SRIDs, constructors and the operations that add members.
  \<^item> \<open>LWIterator\<close> (liblwgeom/lwiterator.c): the state machine that delivers points.
  \<^item> \<open>GBox\<close> (liblwgeom/gbox.c): tests and operations on boxes; the box of a geometry is exactly
    the least one that contains its outline; rounding to floats loses no overlap.
  \<^item> \<open>WKBOut\<close> (lwout_wkb.c), \<open>WKBIn\<close> (lwin_wkb.c) with \<open>WKBSafe\<close>, \<open>WKBReadBack\<close>, \<open>WKBRoundTrip\<close>:
    the writer fills exactly the size it computes; the reader never leaves the input,
    ends within its nesting limit and returns a well-formed geometry or an error; it inverts the writer.
  \<^item> \<open>PTArray\<close>, \<open>PTArrayOk\<close> (ptarray.c, lwgeom_api.c): the operations that edit point arrays in
    place, each shown to be the corresponding operation on the list of points.
  \<^item> \<open>TWKBIn\<close>, \<open>TWKBSafe\<close> (lwin_twkb.c): the reader of Tiny WKB, with the same safety as that of WKB.
  \<^item> \<open>ByteBuffer\<close> (bytebuffer.c), \<open>TWKBOut\<close> (lwout_twkb.c, lwout_twkb.h): the growing buffer and the
    writer of Tiny WKB. \<open>TWKBBytes\<close> (point arrays as differences), \<open>TWKBRoundTrip\<close> (what is meant by
    what is written, and single geometries), \<open>TWKBHeader\<close>, \<open>TWKBWhole\<close> (headers, boxes and sizes),
    \<open>TWKBMembers\<close> and \<open>TWKBExact\<close> (multi-geometries, collections and the theorem): the reader inverts the
    writer, up to the rounding asked for where the powers of ten are exact as \<open>float\<close>. \<open>TWKBFactor\<close>: products with the factors, and how far they are off as
    \<open>float\<close>.
  \<^item> \<open>GSerialized2\<close>, \<open>GS2Read\<close>, \<open>GS2Safe\<close>, \<open>GS2Peek\<close>, \<open>GS2Write\<close>, \<open>GS2RoundTrip\<close>, \<open>GS2Header\<close>,
    \<open>GS2Box\<close> (gserialized2.c): flags and SRID in the header, the validator, the reader, the
    shortcuts that answer without building a geometry, the writer, and the replacement of
    the box in place (right without extended flags only). A validated buffer is read without fault, and what was written passes
    validation and is read back.
  \<^item> \<open>GSCompare\<close> (gserialized.c, with the Hilbert key of gbox.c and lwinline.h): the B-tree order is
    antisymmetric; it is not transitive.
  \<^item> \<open>IndexSearch\<close>: what the functions of a GiST or SP-GiST operator class owe to each other, as
    locales, so that a search is never turned away from a match; the trees and the search are the
    server's and are not modelled. \<open>Gist2D\<close>, \<open>Gist2DSplit\<close>, \<open>Gist2DSplitOk\<close>
    (gserialized_gist_2d.c), \<open>SPGist2D\<close>, \<open>SPGist2DBuild\<close> (gserialized_spgist_2d.c) interpret them on
    the operator classes; the page splits are partitions. \<open>CmpSort\<close> holds what is known of a sorted array.
  \<^item> \<open>RasterNum\<close> (rt_util.c), \<open>RasterBand\<close>, \<open>RasterBandOk\<close> (rt_pixel.c, rt_band.c), \<open>RasterCodec\<close>,
    \<open>RasterSerial\<close> (rt_serialize.c), \<open>RasterWKB\<close>, \<open>RasterWKBOk\<close>, \<open>RasterWKBRT\<close> (rt_wkb.c): pixels
    of the integer types survive being written and read, their NODATA flags tell the truth, both forms of a raster are
    read back as they were written, and the reader of the exchange form is safe up to one byte.

  Bounds and fuel. The recursive readers take fuel. The readers of WKB and of Tiny WKB stop at a nesting depth of their
  own (\<open>LW_PARSER_MAX_DEPTH\<close>), which is the fuel of their entry points. The readers of the stored
  form recurse over a buffer that shrinks with every level, and the fuel is the size of the
  buffer. The safety statements exclude the result \<open>OutOfFuel\<close>, so the fuel is shown to be enough.
  The loops of the disjoint sets end because sizes grow along a path, which is proved and not assumed.

  What the statements show beyond intended behaviour: several theorems and lemmas exhibit
  inputs on which the code does not do what it means to, among them a read past a validated buffer
  (\<open>GS2Peek\<close>), lost index entries (\<open>Gist2D\<close>, \<open>SPGist2D\<close>), a comparison that runs in a circle
  (\<open>GSCompare\<close>), an overflow of the size of a raster (\<open>RasterSerial\<close>), a read past the input
  (\<open>RasterWKBOk\<close>), a lost carry in the conversion to half precision (\<open>RasterNum\<close>), and factors
  without enough digits (\<open>TWKBFactor\<close>).

  Not modelled. Planar, geodetic and raster computations in floating point (measures.c, lwgeodetic.c,
  lwstroke.c, rt_mapalgebra.c and others), whose results are approximations without an exact
  specification; glue to GEOS, PROJ, GDAL, SFCGAL, libxml2, json-c, protobuf and to the PostgreSQL
  server; the text formats, whose parser is generated and whose writers print decimal fractions
  through vendored code; topology, whose state lives in SQL tables; the older stored form
  (gserialized1.c); deallocation and copies of whole geometries. In
  the modelled files, debugging output and failing allocation are left out.
\<close>

end
